(* ===== verification/Prelude.thy ===== *)
theory Prelude
  imports Main "HOL-Library.Word" "HOL-Library.Char_ord" "HOL-Library.List_Lexorder"
begin

unbundle bit_operations_syntax

text \<open>
  Shared vocabulary of the development: the machine integers of the Rust sources as words, the
  \<open>Result\<close> type with the \<open>?\<close> operator (\<open>and_then\<close>), checked and saturating arithmetic, the
  byte-slice operations (\<open>a..b\<close>, \<open>get\<close>, \<open>resize\<close>, \<open>fill\<close>, \<open>copy_from_slice\<close>), and
  little-endian integers.
  Buffer lengths and indices (\<open>usize\<close>) are natural numbers; the program is built for 64-bit
  targets, where \<open>usize::try_from(u64)\<close> cannot fail.
\<close>

section \<open>Machine integers and bytes\<close>

type_synonym byte = "8 word"
type_synonym u16 = "16 word"
type_synonym u32 = "32 word"
type_synonym u64 = "64 word"

named_theorems result_simps \<open>rules for the Result monad\<close>
named_theorems checked_simps \<open>characterisations of checked and saturating arithmetic\<close>
named_theorems slice_simps \<open>lengths and elements of slices and buffers\<close>

definition u64_max :: u64 where
  "u64_max = - 1"

lemma unat_u64_max [simp]: "unat u64_max = 2 ^ 64 - 1"
  by (simp add: u64_max_def unsigned_minus_1_eq_mask mask_eq_exp_minus_1)

lemma unat_less_u64: "unat (x :: u64) < 18446744073709551616"
  using unsigned_less [of x] by simp

lemma unat_of_nat_u64: "n < 18446744073709551616 \<Longrightarrow> unat (of_nat n :: u64) = n"
  by (simp add: unsigned_of_nat take_bit_eq_mod)

lemma unat_le_u64_max: "unat (x :: u64) \<le> 18446744073709551615"
  using unat_less_u64 [of x] by simp

lemma u64_eq_max_iff: "x = u64_max \<longleftrightarrow> unat x = 18446744073709551615"
  by (simp add: word_unat_eq_iff)

lemma unat_ucast_u32 [simp]: "unat (ucast (x :: u32) :: u64) = unat x"
  using unsigned_less [of x, where ?'a = nat] by (simp add: unsigned_ucast_eq take_bit_eq_mod)

lemma unat_ucast_byte [simp]: "unat (ucast (x :: byte) :: u64) = unat x"
  using unsigned_less [of x, where ?'a = nat] by (simp add: unsigned_ucast_eq take_bit_eq_mod)

section \<open>Errors and results\<close>

text \<open>
  \<open>io_error\<close> is what a \<open>Read\<close> returns: a short \<open>read_exact\<close> or any other operating-system
  error. \<open>stream_error\<close> is the enum of stream.rs. \<open>error\<close> is an \<open>anyhow::Error\<close>: a stream
  error, an I/O error, or a message of \<open>bail!\<close>, \<open>ensure!\<close>, \<open>anyhow!\<close> or \<open>context\<close> (the source's
  format string, without the interpolated values). A panic (\<open>expect\<close>, an index out of range,
  \<open>unreachable!\<close>) is the separate constructor \<open>Panic\<close>, so that its absence can be stated.
\<close>

datatype io_error = UnexpectedEof | OsError

datatype stream_error =
    StreamIo u64 io_error
  | Invalid u64 string
  | Unsupported u64 string
  | Checksum u64

datatype error =
    StreamErr stream_error
  | IoErr io_error
  | Bail string
  | Panic string

type_synonym 'a result = "error + 'a"

text \<open>Rust's \<open>?\<close>: continue with the value, or return the error.\<close>

definition and_then :: "'e + 'a \<Rightarrow> ('a \<Rightarrow> 'e + 'b) \<Rightarrow> 'e + 'b" where
  "and_then m k = (case m of Inl e \<Rightarrow> Inl e | Inr x \<Rightarrow> k x)"

text \<open>\<open>Option::ok_or_else\<close>, and \<open>map_err\<close>.\<close>

definition ok_or :: "'a option \<Rightarrow> 'e \<Rightarrow> 'e + 'a" where
  "ok_or m e = (case m of None \<Rightarrow> Inl e | Some x \<Rightarrow> Inr x)"

definition map_err :: "('e \<Rightarrow> 'f) \<Rightarrow> 'e + 'a \<Rightarrow> 'f + 'a" where
  "map_err f m = (case m of Inl e \<Rightarrow> Inl (f e) | Inr x \<Rightarrow> Inr x)"

lemma and_then_simps [simp]:
  "and_then (Inl e) k = Inl e"
  "and_then (Inr x) k = k x"
  by (simp_all add: and_then_def)

lemma ok_or_simps [simp]:
  "ok_or None e = Inl e"
  "ok_or (Some x) e = Inr x"
  by (simp_all add: ok_or_def)

lemma map_err_simps [simp]:
  "map_err f (Inl e) = Inl (f e)"
  "map_err f (Inr x) = Inr x"
  by (simp_all add: map_err_def)

lemma and_then_Inr_iff [result_simps]:
  "and_then m k = Inr y \<longleftrightarrow> (\<exists>x. m = Inr x \<and> k x = Inr y)"
  by (cases m) auto

lemma and_then_Inl_iff [result_simps]:
  "and_then m k = Inl e \<longleftrightarrow> m = Inl e \<or> (\<exists>x. m = Inr x \<and> k x = Inl e)"
  by (cases m) auto

lemma ok_or_Inr_iff [result_simps]: "ok_or m e = Inr x \<longleftrightarrow> m = Some x"
  by (cases m) auto

lemma ok_or_Inl_iff [result_simps]: "ok_or m e = Inl e' \<longleftrightarrow> m = None \<and> e' = e"
  by (cases m) auto

lemma map_err_Inr_iff [result_simps]: "map_err f m = Inr x \<longleftrightarrow> m = Inr x"
  by (cases m) auto

lemma map_err_Inl_iff [result_simps]: "map_err f m = Inl e \<longleftrightarrow> (\<exists>e'. m = Inl e' \<and> e = f e')"
  by (cases m) auto

lemma and_then_assoc: "and_then (and_then m f) g = and_then m (\<lambda>x. and_then (f x) g)"
  by (cases m) auto

lemma and_then_cong [fundef_cong]:
  "m = m' \<Longrightarrow> (\<And>x. m' = Inr x \<Longrightarrow> k x = k' x) \<Longrightarrow> and_then m k = and_then m' k'"
  by (cases m') auto

text \<open>A \<open>for\<close> loop whose body may return early with an error.\<close>

fun try_fold :: "('x \<Rightarrow> 's \<Rightarrow> 'e + 's) \<Rightarrow> 's \<Rightarrow> 'x list \<Rightarrow> 'e + 's" where
  "try_fold f st [] = Inr st"
| "try_fold f st (x # xs) = and_then (f x st) (\<lambda>st'. try_fold f st' xs)"

lemma try_fold_append:
  "try_fold f st (xs @ ys) = and_then (try_fold f st xs) (\<lambda>st'. try_fold f st' ys)"
  by (induction xs arbitrary: st) (simp_all add: and_then_assoc)

lemma try_fold_invariant:
  assumes "try_fold f st xs = Inr st'" and "P st"
    and "\<And>x s s'. x \<in> set xs \<Longrightarrow> P s \<Longrightarrow> f x s = Inr s' \<Longrightarrow> P s'"
  shows "P st'"
  using assms
proof (induction xs arbitrary: st)
  case Nil
  then show ?case by simp
next
  case (Cons x xs)
  from Cons.prems(1) obtain s where s: "f x st = Inr s" and rest: "try_fold f s xs = Inr st'"
    by (auto simp: result_simps)
  have "P s" using Cons.prems(2,3) s by auto
  with rest Cons.IH Cons.prems(3) show ?case by (meson list.set_intros(2))
qed

text \<open>Applying a fallible function to each element in order.\<close>

fun try_map :: "('x \<Rightarrow> 'e + 'y) \<Rightarrow> 'x list \<Rightarrow> 'e + 'y list" where
  "try_map f [] = Inr []"
| "try_map f (x # xs) = and_then (f x) (\<lambda>y. and_then (try_map f xs) (\<lambda>ys. Inr (y # ys)))"

lemma try_map_Inr: "try_map f xs = Inr ys \<longleftrightarrow> list_all2 (\<lambda>x y. f x = Inr y) xs ys"
  by (induction xs arbitrary: ys) (auto simp: result_simps list_all2_Cons1)

lemma try_map_length: "try_map f xs = Inr ys \<Longrightarrow> length ys = length xs"
  by (auto simp: try_map_Inr dest: list_all2_lengthD)

lemma try_map_source: "try_map f xs = Inr ys \<Longrightarrow> y \<in> set ys \<Longrightarrow> \<exists>x \<in> set xs. f x = Inr y"
  unfolding try_map_Inr by (induction rule: list_all2_induct) auto

text \<open>A computation that does not panic.\<close>

named_theorems panic_simps \<open>rules for the absence of panics\<close>

definition no_panic :: "'a result \<Rightarrow> bool" where
  "no_panic r \<longleftrightarrow> (case r of Inl (Panic _) \<Rightarrow> False | _ \<Rightarrow> True)"

lemma no_panic_simps [simp, panic_simps]:
  "no_panic (Inr x)" "no_panic (Inl (Bail m))" "no_panic (Inl (StreamErr s))" "no_panic (Inl (IoErr i))"
  "\<not> no_panic (Inl (Panic m))"
  by (simp_all add: no_panic_def)

lemma no_panic_and_then [panic_simps]:
  "no_panic (and_then m k) \<longleftrightarrow> no_panic m \<and> (\<forall>x. m = Inr x \<longrightarrow> no_panic (k x))"
  by (cases m) (auto simp: no_panic_def)

lemma no_panic_ok_or [panic_simps]:
  "no_panic (ok_or m (Bail s))" "no_panic (ok_or m (IoErr i))" "no_panic (ok_or m (Panic s)) \<longleftrightarrow> m \<noteq> None"
  by (simp_all add: ok_or_def split: option.split)

lemma no_panic_map_err [panic_simps]:
  "no_panic (map_err (\<lambda>_. Bail s) m)" "no_panic (map_err IoErr n)" "no_panic (map_err StreamErr r)"
  by (simp_all add: map_err_def split: sum.split)

lemma no_panic_try_map [panic_simps]: "(\<And>x. x \<in> set xs \<Longrightarrow> no_panic (f x)) \<Longrightarrow> no_panic (try_map f xs)"
  by (induction xs) (auto simp: no_panic_and_then)

lemma no_panic_try_fold:
  assumes "\<And>x s. x \<in> set xs \<Longrightarrow> P s \<Longrightarrow> no_panic (f x s)"
    and "\<And>x s s'. x \<in> set xs \<Longrightarrow> P s \<Longrightarrow> f x s = Inr s' \<Longrightarrow> P s'" and "P st"
  shows "no_panic (try_fold f st xs)"
  using assms
proof (induction xs arbitrary: st)
  case Nil
  then show ?case by simp
next
  case (Cons x xs)
  have "no_panic (try_fold f s xs)" if "f x st = Inr s" for s
    using Cons.IH [of s] Cons.prems that by (metis list.set_intros)
  then show ?case using Cons.prems by (auto simp: no_panic_and_then)
qed

text \<open>\<open>ensure!\<close>: continue when the condition holds, else return the message.\<close>

definition ensure :: "bool \<Rightarrow> string \<Rightarrow> unit result" where
  "ensure b m = (if b then Inr () else Inl (Bail m))"

lemma ensure_Inr_iff [result_simps]: "ensure b m = Inr u \<longleftrightarrow> b"
  by (simp add: ensure_def)

lemma ensure_Inl_iff [result_simps]: "ensure b m = Inl e \<longleftrightarrow> \<not> b \<and> e = Bail m"
  by (auto simp: ensure_def)

lemma no_panic_Inl: "no_panic (Inl e) \<longleftrightarrow> (\<forall>m. e \<noteq> Panic m)"
  by (cases e) simp_all

lemma no_panic_ensure [panic_simps]: "no_panic (ensure b m)"
  by (simp add: ensure_def)

section \<open>Checked and saturating arithmetic\<close>

definition checked_add :: "u64 \<Rightarrow> u64 \<Rightarrow> u64 option" where
  "checked_add a b = (if unat a + unat b < 2 ^ 64 then Some (a + b) else None)"

definition checked_mul :: "u64 \<Rightarrow> u64 \<Rightarrow> u64 option" where
  "checked_mul a b = (if unat a * unat b < 2 ^ 64 then Some (a * b) else None)"

definition saturating_add :: "u64 \<Rightarrow> u64 \<Rightarrow> u64" where
  "saturating_add a b = (if unat a + unat b < 2 ^ 64 then a + b else u64_max)"

lemma unat_add_u64: "unat a + unat b < 2 ^ 64 \<Longrightarrow> unat (a + b :: u64) = unat a + unat b"
  by (simp add: unat_word_ariths)

lemma unat_mult_u64: "unat a * unat b < 2 ^ 64 \<Longrightarrow> unat (a * b :: u64) = unat a * unat b"
  by (simp add: unat_word_ariths)

lemma checked_add_Some_iff [checked_simps]:
  "checked_add a b = Some c \<longleftrightarrow> unat c = unat a + unat b"
proof
  assume "checked_add a b = Some c"
  then show "unat c = unat a + unat b"
    by (auto simp: checked_add_def unat_add_u64 split: if_splits)
next
  assume c: "unat c = unat a + unat b"
  then have lt: "unat a + unat b < 2 ^ 64"
    using unat_less_u64 [of c] by simp
  then have "unat (a + b) = unat c"
    using c by (simp add: unat_add_u64)
  then have "a + b = c" by (simp add: word_unat_eq_iff)
  with lt show "checked_add a b = Some c" by (simp add: checked_add_def)
qed

lemma checked_add_None_iff [checked_simps]:
  "checked_add a b = None \<longleftrightarrow> 2 ^ 64 \<le> unat a + unat b"
  by (auto simp: checked_add_def)

lemma checked_mul_Some_iff [checked_simps]:
  "checked_mul a b = Some c \<longleftrightarrow> unat c = unat a * unat b"
proof
  assume "checked_mul a b = Some c"
  then show "unat c = unat a * unat b"
    by (auto simp: checked_mul_def unat_mult_u64 split: if_splits)
next
  assume c: "unat c = unat a * unat b"
  then have lt: "unat a * unat b < 2 ^ 64"
    using unat_less_u64 [of c] by simp
  then have "unat (a * b) = unat c"
    using c by (simp add: unat_mult_u64)
  then have "a * b = c" by (simp add: word_unat_eq_iff)
  with lt show "checked_mul a b = Some c" by (simp add: checked_mul_def)
qed

lemma checked_mul_None_iff [checked_simps]:
  "checked_mul a b = None \<longleftrightarrow> 2 ^ 64 \<le> unat a * unat b"
  by (auto simp: checked_mul_def)

lemma unat_saturating_add [checked_simps]:
  "unat (saturating_add a b) = min (unat a + unat b) (2 ^ 64 - 1)"
  by (auto simp: saturating_add_def unat_add_u64)

lemma and_not_7: "(x :: u64) AND NOT 7 = x - x mod 8"
proof -
  have "x AND NOT (mask 3) = push_bit 3 (drop_bit 3 x)"
    by (rule bit_word_eqI) (auto simp: bit_simps)
  moreover have "push_bit 3 (drop_bit 3 x) = x - take_bit 3 x"
    using bits_ident [of 3 x] by (simp add: eq_diff_eq)
  ultimately show ?thesis by (simp add: mask_eq_exp_minus_1 take_bit_eq_mod)
qed

lemma unat_and_not_7: "unat ((x :: u64) AND NOT 7) = unat x div 8 * 8"
proof -
  have "x mod 8 \<le> x" by (simp add: word_le_nat_alt unat_mod)
  then have "unat (x - x mod 8) = unat x - unat x mod 8" by (simp add: unat_sub unat_mod)
  then show ?thesis unfolding and_not_7 by (simp only: minus_mod_eq_div_mult)
qed

section \<open>Slices and buffers\<close>

definition slice :: "'a list \<Rightarrow> nat \<Rightarrow> nat \<Rightarrow> 'a list" where
  "slice xs a b = take (b - a) (drop a xs)"

text \<open>\<open>xs.get(a..b)\<close>: \<open>None\<close> unless the range lies within the slice.\<close>

definition get_range :: "'a list \<Rightarrow> nat \<Rightarrow> nat \<Rightarrow> 'a list option" where
  "get_range xs a b = (if a \<le> b \<and> b \<le> length xs then Some (slice xs a b) else None)"

text \<open>\<open>&xs[a..b]\<close>, which panics outside the slice.\<close>

definition index_range :: "'a list \<Rightarrow> nat \<Rightarrow> nat \<Rightarrow> 'a list result" where
  "index_range xs a b = ok_or (get_range xs a b) (Panic ''slice index out of range'')"

text \<open>\<open>Vec::resize(n, v)\<close>, \<open>xs[a..b].fill(v)\<close> and \<open>xs[a..a + n].copy_from_slice(ys)\<close>.\<close>

definition resize :: "nat \<Rightarrow> 'a \<Rightarrow> 'a list \<Rightarrow> 'a list" where
  "resize n v xs = take n xs @ replicate (n - length xs) v"

definition blit :: "nat \<Rightarrow> 'a list \<Rightarrow> 'a list \<Rightarrow> 'a list" where
  "blit a ys xs = take a xs @ ys @ drop (a + length ys) xs"

definition fill_range :: "nat \<Rightarrow> nat \<Rightarrow> 'a \<Rightarrow> 'a list \<Rightarrow> 'a list" where
  "fill_range a b v xs = blit a (replicate (b - a) v) xs"

lemma length_slice [simp, slice_simps]: "length (slice xs a b) = min (b - a) (length xs - a)"
  by (simp add: slice_def)

lemma nth_slice [slice_simps]: "a + i < b \<Longrightarrow> a + i < length xs \<Longrightarrow> slice xs a b ! i = xs ! (a + i)"
  by (simp add: slice_def)

lemma slice_all [simp]: "length xs \<le> b \<Longrightarrow> slice xs 0 b = xs"
  by (simp add: slice_def)

lemma get_range_Some_iff [slice_simps]:
  "get_range xs a b = Some ys \<longleftrightarrow> a \<le> b \<and> b \<le> length xs \<and> ys = slice xs a b"
  by (auto simp: get_range_def)

lemma index_range_Inr_iff [slice_simps]:
  "index_range xs a b = Inr ys \<longleftrightarrow> a \<le> b \<and> b \<le> length xs \<and> ys = slice xs a b"
  by (auto simp: index_range_def result_simps get_range_Some_iff)

lemma index_range_ok: "a \<le> b \<Longrightarrow> b \<le> length xs \<Longrightarrow> index_range xs a b = Inr (slice xs a b)"
  by (simp add: slice_simps)

lemma no_panic_index_range [panic_simps]: "no_panic (index_range xs a b) \<longleftrightarrow> a \<le> b \<and> b \<le> length xs"
  by (auto simp: index_range_def get_range_def)

lemma length_resize [simp, slice_simps]: "length (resize n v xs) = n"
  by (simp add: resize_def)

lemma nth_resize [slice_simps]:
  "i < n \<Longrightarrow> resize n v xs ! i = (if i < length xs then xs ! i else v)"
  by (auto simp: resize_def nth_append)

lemma length_blit [simp, slice_simps]:
  "a + length ys \<le> length xs \<Longrightarrow> length (blit a ys xs) = length xs"
  by (simp add: blit_def)

lemma nth_blit [slice_simps]:
  "a + length ys \<le> length xs \<Longrightarrow> i < length xs \<Longrightarrow>
   blit a ys xs ! i = (if a \<le> i \<and> i < a + length ys then ys ! (i - a) else xs ! i)"
  by (auto simp: blit_def nth_append min_def)

lemma length_fill_range [simp, slice_simps]:
  "a \<le> b \<Longrightarrow> b \<le> length xs \<Longrightarrow> length (fill_range a b v xs) = length xs"
  by (simp add: fill_range_def)

lemma nth_fill_range [slice_simps]:
  "a \<le> b \<Longrightarrow> b \<le> length xs \<Longrightarrow> i < length xs \<Longrightarrow>
   fill_range a b v xs ! i = (if a \<le> i \<and> i < b then v else xs ! i)"
  by (auto simp: fill_range_def nth_blit)

lemma slice_split: "a \<le> b \<Longrightarrow> b \<le> c \<Longrightarrow> slice xs a c = slice xs a b @ slice xs b c"
  unfolding slice_def using take_add [of "b - a" "c - b" "drop a xs"] by simp

lemma slice_empty [simp]: "slice xs a a = []"
  by (simp add: slice_def)

lemma slice_blit_within:
  "a \<le> p \<Longrightarrow> q \<le> a + length ys \<Longrightarrow> a + length ys \<le> length xs \<Longrightarrow>
   slice (blit a ys xs) p q = slice ys (p - a) (q - a)"
  by (auto simp: list_eq_iff_nth_eq slice_simps)

lemma slice_blit_before: "q \<le> a \<Longrightarrow> a + length ys \<le> length xs \<Longrightarrow> slice (blit a ys xs) p q = slice xs p q"
  by (auto simp: list_eq_iff_nth_eq slice_simps)

lemma slice_blit_after: "a + length ys \<le> p \<Longrightarrow> a + length ys \<le> length xs \<Longrightarrow> slice (blit a ys xs) p q = slice xs p q"
  by (auto simp: list_eq_iff_nth_eq slice_simps)

lemmas slice_blit = slice_blit_within slice_blit_before slice_blit_after

text \<open>\<open>slice::chunks\<close>.\<close>

function chunks :: "nat \<Rightarrow> 'a list \<Rightarrow> 'a list list" where
  "chunks n xs = (if xs = [] \<or> n = 0 then [] else take n xs # chunks n (drop n xs))"
  by pat_completeness auto
termination
  by (relation "measure (\<lambda>(n, xs). length xs)") auto

declare chunks.simps [simp del]

lemma concat_chunks: "0 < n \<Longrightarrow> concat (chunks n xs) = xs"
  by (induction n xs rule: chunks.induct) (subst chunks.simps, auto)

lemma chunks_bound: "c \<in> set (chunks n xs) \<Longrightarrow> c \<noteq> [] \<and> length c \<le> n"
  by (induction n xs rule: chunks.induct) (subst (asm) (2) chunks.simps, auto split: if_splits)

section \<open>Little-endian and big-endian integers\<close>

fun le_nat :: "byte list \<Rightarrow> nat" where
  "le_nat [] = 0"
| "le_nat (b # bs) = unat b + 256 * le_nat bs"

definition from_le_bytes :: "byte list \<Rightarrow> 'a::len word" where
  "from_le_bytes bs = word_of_nat (le_nat bs)"

definition from_be_bytes :: "byte list \<Rightarrow> 'a::len word" where
  "from_be_bytes bs = from_le_bytes (rev bs)"

fun le_bytes :: "nat \<Rightarrow> nat \<Rightarrow> byte list" where
  "le_bytes 0 v = []"
| "le_bytes (Suc n) v = word_of_nat v # le_bytes n (v div 256)"

lemma length_le_bytes [simp]: "length (le_bytes n v) = n"
  by (induction n arbitrary: v) auto

lemma le_nat_bound: "le_nat bs < 256 ^ length bs"
proof (induction bs)
  case Nil
  show ?case by simp
next
  case (Cons b bs)
  have "unat b < 256" using unsigned_less [of b] by simp
  moreover have "le_nat bs + 1 \<le> 256 ^ length bs" using Cons.IH by simp
  then have "256 * (le_nat bs + 1) \<le> 256 * 256 ^ length bs" by (rule mult_le_mono2)
  ultimately have "unat b + 256 * le_nat bs < 256 * 256 ^ length bs" by simp
  then show ?case by simp
qed

lemma le_nat_le_bytes: "le_nat (le_bytes n v) = v mod 256 ^ n"
proof (induction n arbitrary: v)
  case 0
  show ?case by simp
next
  case (Suc n)
  have "unat (word_of_nat v :: byte) = v mod 256"
    by (simp add: unsigned_of_nat take_bit_eq_mod)
  then show ?case
    by (simp add: Suc.IH mod_mult2_eq)
qed

lemma le_bytes_le_nat: "le_bytes (length bs) (le_nat bs) = bs"
proof (induction bs)
  case Nil
  show ?case by simp
next
  case (Cons b bs)
  have lt: "unat b < 256" using unsigned_less [of b] by simp
  have "unat (word_of_nat (unat b + 256 * le_nat bs) :: byte) = (unat b + 256 * le_nat bs) mod 256"
    by (simp add: unsigned_of_nat take_bit_eq_mod del: of_nat_add of_nat_mult)
  also have "\<dots> = unat b" using lt by simp
  finally have "(word_of_nat (unat b + 256 * le_nat bs) :: byte) = b"
    by (simp add: word_unat_eq_iff del: of_nat_add of_nat_mult)
  moreover have "(unat b + 256 * le_nat bs) div 256 = le_nat bs" using lt by simp
  ultimately show ?case by (simp add: Cons.IH)
qed

text \<open>\<open>uN::from_le_bytes\<close> inverts \<open>uN::to_le_bytes\<close> on every value.\<close>

lemma from_le_bytes_u64 [simp]: "from_le_bytes (le_bytes 8 (unat (w :: u64))) = w"
  using unat_less_u64 [of w] by (simp add: from_le_bytes_def le_nat_le_bytes)

lemma from_le_bytes_u32 [simp]: "from_le_bytes (le_bytes 4 (unat (w :: u32))) = w"
  using unsigned_less [of w, where ?'a = nat] by (simp add: from_le_bytes_def le_nat_le_bytes)

lemma unat_from_le_bytes_u64: "length bs = 8 \<Longrightarrow> unat (from_le_bytes bs :: u64) = le_nat bs"
  using le_nat_bound [of bs]
  by (simp add: from_le_bytes_def unsigned_of_nat take_bit_eq_mod)

lemma unat_from_le_bytes_u32: "length bs = 4 \<Longrightarrow> unat (from_le_bytes bs :: u32) = le_nat bs"
  using le_nat_bound [of bs]
  by (simp add: from_le_bytes_def unsigned_of_nat take_bit_eq_mod)

text \<open>Bytes as characters: a Rust \<open>String\<close> is the list of its UTF-8 bytes.\<close>

definition chars_of_bytes :: "byte list \<Rightarrow> string" where
  "chars_of_bytes bs = map (\<lambda>b. char_of (unat b)) bs"

definition bytes_of_chars :: "string \<Rightarrow> byte list" where
  "bytes_of_chars s = map (\<lambda>c. word_of_nat (of_char c)) s"

lemma unat_of_char: "unat (word_of_nat (of_char c) :: byte) = of_char c"
  using of_char_mod_256 [of c, where ?'a = nat] by (simp add: unsigned_of_nat take_bit_eq_mod)

lemma chars_of_bytes_of_chars [simp]: "chars_of_bytes (bytes_of_chars s) = s"
  unfolding chars_of_bytes_def bytes_of_chars_def by (induction s) (simp_all add: unat_of_char)

lemma bytes_of_chars_simps [simp]:
  "bytes_of_chars [] = []"
  "bytes_of_chars (c # s) = word_of_nat (of_char c) # bytes_of_chars s"
  "bytes_of_chars (s @ t) = bytes_of_chars s @ bytes_of_chars t"
  "length (bytes_of_chars s) = length s"
  by (simp_all add: bytes_of_chars_def)

end
