(* ===== verification/Text.thy ===== *)
theory Text
  imports Prelude
begin

text \<open>
  The parts of Rust's \<open>str\<close> the program uses, on UTF-8 byte strings (one \<open>char\<close> per byte):
  \<open>String::from_utf8_lossy\<close>, \<open>split\<close>, \<open>strip_prefix\<close>, \<open>rsplit_once\<close>, \<open>join\<close>, and the integer
  conversions \<open>u64::from_str_radix\<close>, \<open>str::parse::<u64>\<close> and \<open>{:016x}\<close>.
\<close>

section \<open>Lossy UTF-8 decoding\<close>

text \<open>
  One step of the decoder of \<open>core::str::lossy\<close> on a non-empty input: how many bytes it consumes
  and whether they are a valid encoding. \<open>safe_get\<close> reads 0 past the end, as the library does.
\<close>

definition safe_get :: "byte list \<Rightarrow> nat \<Rightarrow> byte" where
  "safe_get bs i = (if i < length bs then bs ! i else 0)"

definition is_cont :: "byte \<Rightarrow> bool" where
  "is_cont b \<longleftrightarrow> b AND 192 = 128"

definition utf8_step :: "byte list \<Rightarrow> nat \<times> bool" where
  "utf8_step bs =
     (let b = safe_get bs 0; c = safe_get bs 1; d = safe_get bs 2; e = safe_get bs 3 in
      if b < 128 then (1, True)
      else if 0xC2 \<le> b \<and> b \<le> 0xDF then (if is_cont c then (2, True) else (1, False))
      else if 0xE0 \<le> b \<and> b \<le> 0xEF then
        (if b = 0xE0 \<and> 0xA0 \<le> c \<and> c \<le> 0xBF \<or> 0xE1 \<le> b \<and> b \<le> 0xEC \<and> is_cont c
            \<or> b = 0xED \<and> 0x80 \<le> c \<and> c \<le> 0x9F \<or> 0xEE \<le> b \<and> is_cont c
         then (if is_cont d then (3, True) else (2, False)) else (1, False))
      else if 0xF0 \<le> b \<and> b \<le> 0xF4 then
        (if b = 0xF0 \<and> 0x90 \<le> c \<and> c \<le> 0xBF \<or> 0xF1 \<le> b \<and> b \<le> 0xF3 \<and> is_cont c
            \<or> b = 0xF4 \<and> 0x80 \<le> c \<and> c \<le> 0x8F
         then (if is_cont d then (if is_cont e then (4, True) else (3, False)) else (2, False))
         else (1, False))
      else (1, False))"

lemma utf8_step_pos: "0 < fst (utf8_step bs)"
  by (simp add: utf8_step_def Let_def)

text \<open>The replacement character U+FFFD.\<close>

definition replacement :: "byte list" where
  "replacement = [0xEF, 0xBF, 0xBD]"

function lossy_bytes :: "byte list \<Rightarrow> byte list" where
  "lossy_bytes bs =
     (if bs = [] then []
      else let (n, ok) = utf8_step bs in
           (if ok then take n bs else replacement) @ lossy_bytes (drop n bs))"
  by pat_completeness auto
termination
proof (relation "measure length", goal_cases)
  case 1
  show ?case by simp
next
  case (2 bs x n ok)
  then have "0 < n" using utf8_step_pos [of bs] by (metis fst_conv)
  with 2 show ?case by (cases bs) auto
qed

declare lossy_bytes.simps [simp del]

definition from_utf8_lossy :: "byte list \<Rightarrow> string" where
  "from_utf8_lossy bs = chars_of_bytes (lossy_bytes bs)"

lemma lossy_bytes_ascii: "\<forall>b \<in> set bs. b < 128 \<Longrightarrow> lossy_bytes bs = bs"
proof (induction bs rule: lossy_bytes.induct)
  case (1 bs)
  show ?case
  proof (cases bs)
    case Nil
    then show ?thesis by (simp add: lossy_bytes.simps)
  next
    case (Cons b bs')
    then have "utf8_step bs = (1, True)"
      using "1.prems" by (simp add: utf8_step_def safe_get_def)
    then show ?thesis
      using "1.IH" [of "(1, True)" 1 True] "1.prems" Cons by (simp add: lossy_bytes.simps [of "b # bs'"])
  qed
qed

text \<open>\<open>str::from_utf8\<close>: only a valid encoding, unchanged.\<close>

function utf8_valid :: "byte list \<Rightarrow> bool" where
  "utf8_valid bs =
     (if bs = [] then True
      else let (n, ok) = utf8_step bs in ok \<and> utf8_valid (drop n bs))"
  by pat_completeness auto
termination
proof (relation "measure length", goal_cases)
  case 1
  show ?case by simp
next
  case (2 bs x n ok)
  then have "0 < n" using utf8_step_pos [of bs] by (metis fst_conv)
  with 2 show ?case by (cases bs) auto
qed

declare utf8_valid.simps [simp del]

definition from_utf8 :: "byte list \<Rightarrow> string option" where
  "from_utf8 bs = (if utf8_valid bs then Some (chars_of_bytes bs) else None)"

lemma utf8_valid_lossy: "utf8_valid bs \<Longrightarrow> lossy_bytes bs = bs"
proof (induction bs rule: utf8_valid.induct)
  case (1 bs)
  show ?case
  proof (cases "bs = []")
    case True
    then show ?thesis by (simp add: lossy_bytes.simps)
  next
    case False
    obtain n ok where u: "utf8_step bs = (n, ok)" by (cases "utf8_step bs") auto
    with 1(2) False have "ok" "utf8_valid (drop n bs)" by (simp_all add: utf8_valid.simps [of bs])
    then show ?thesis using 1(1) [OF False refl u [symmetric]] u False by (simp add: lossy_bytes.simps [of bs])
  qed
qed

section \<open>Splitting and joining\<close>

text \<open>\<open>s.split(c)\<close>: the pieces between the separators, at least one.\<close>

fun split_on :: "char \<Rightarrow> string \<Rightarrow> string list" where
  "split_on c [] = [[]]"
| "split_on c (x # xs) =
     (if x = c then [] # split_on c xs
      else case split_on c xs of [] \<Rightarrow> [[x]] | p # ps \<Rightarrow> (x # p) # ps)"

fun join :: "string \<Rightarrow> string list \<Rightarrow> string" where
  "join sep [] = []"
| "join sep [p] = p"
| "join sep (p # q # ps) = p @ sep @ join sep (q # ps)"

definition strip_prefix :: "string \<Rightarrow> string \<Rightarrow> string option" where
  "strip_prefix p s = (if take (length p) s = p then Some (drop (length p) s) else None)"

lemma strip_prefix_Some: "strip_prefix p s = Some t \<longleftrightarrow> s = p @ t"
proof -
  have "s = p @ t" if "take (length p) s = p" "drop (length p) s = t"
    using append_take_drop_id [of "length p" s] that by simp
  then show ?thesis by (auto simp: strip_prefix_def)
qed

text \<open>\<open>s.rsplit_once(c)\<close>: split at the last occurrence.\<close>

definition rsplit_once :: "char \<Rightarrow> string \<Rightarrow> (string \<times> string) option" where
  "rsplit_once c s =
     (if c \<in> set s
      then Some (butlast (rev (dropWhile (\<lambda>x. x \<noteq> c) (rev s))), rev (takeWhile (\<lambda>x. x \<noteq> c) (rev s)))
      else None)"

lemma split_on_nonempty [simp]: "split_on c s \<noteq> []"
  by (induction s) (auto split: list.splits)

lemma split_on_no_sep: "p \<in> set (split_on c s) \<Longrightarrow> c \<notin> set p"
proof (induction s arbitrary: p)
  case Nil
  then show ?case by simp
next
  case (Cons x xs)
  then show ?case
    by (cases "split_on c xs") (auto split: if_splits)
qed

lemma join_split_on: "join [c] (split_on c s) = s"
proof (induction s)
  case Nil
  show ?case by simp
next
  case (Cons x xs)
  obtain p ps where "split_on c xs = p # ps" by (cases "split_on c xs") auto
  with Cons show ?case by (cases ps) auto
qed

lemma split_on_append_sep:
  "c \<notin> set p \<Longrightarrow> split_on c (p @ c # s) = p # split_on c s"
  by (induction p) auto

lemma split_on_single: "c \<notin> set p \<Longrightarrow> split_on c p = [p]"
  by (induction p) auto

lemma split_on_join:
  "ps \<noteq> [] \<Longrightarrow> \<forall>p \<in> set ps. c \<notin> set p \<Longrightarrow> split_on c (join [c] ps) = ps"
proof (induction "[c]" ps rule: join.induct)
  case 1
  then show ?case by simp
next
  case (2 p)
  then show ?case by (simp add: split_on_single)
next
  case (3 p q ps)
  then show ?case by (simp add: split_on_append_sep)
qed

lemma rsplit_once_Some:
  "rsplit_once c s = Some (a, b) \<Longrightarrow> s = a @ c # b \<and> c \<notin> set b"
proof -
  assume r: "rsplit_once c s = Some (a, b)"
  then have c: "c \<in> set (rev s)" and b: "b = rev (takeWhile (\<lambda>x. x \<noteq> c) (rev s))"
    and a: "a = butlast (rev (dropWhile (\<lambda>x. x \<noteq> c) (rev s)))"
    by (auto simp: rsplit_once_def split: if_splits)
  obtain us vs where rs: "rev s = us @ c # vs" and "c \<notin> set us"
    using split_list_first [OF c] by blast
  then have "takeWhile (\<lambda>x. x \<noteq> c) (rev s) = us" and "dropWhile (\<lambda>x. x \<noteq> c) (rev s) = c # vs"
    by (auto simp: takeWhile_append dropWhile_append takeWhile_eq_all_conv dropWhile_eq_Nil_conv)
  then have "b = rev us" and "a = rev vs" using a b by simp_all
  moreover from rs have "s = rev vs @ c # rev us" by (metis append.simps append_assoc rev.simps(2) rev_append rev_rev_ident)
  ultimately show ?thesis using \<open>c \<notin> set us\<close> by simp
qed

section \<open>Numbers\<close>

definition digit_value :: "char \<Rightarrow> nat option" where
  "digit_value c =
     (let n = (of_char c :: nat) in
      if 48 \<le> n \<and> n \<le> 57 then Some (n - 48)
      else if 97 \<le> n \<and> n \<le> 122 then Some (n - 87)
      else if 65 \<le> n \<and> n \<le> 90 then Some (n - 55)
      else None)"

text \<open>The loop of \<open>from_str_radix\<close>: checked multiply and add per digit.\<close>

fun parse_digits :: "nat \<Rightarrow> nat \<Rightarrow> string \<Rightarrow> nat option" where
  "parse_digits radix acc [] = Some acc"
| "parse_digits radix acc (c # cs) =
     (case digit_value c of
        None \<Rightarrow> None
      | Some d \<Rightarrow>
          if d < radix \<and> acc * radix + d < 2 ^ 64 then parse_digits radix (acc * radix + d) cs
          else None)"

definition from_str_radix :: "nat \<Rightarrow> string \<Rightarrow> u64 option" where
  "from_str_radix radix s =
     (case s of
        [] \<Rightarrow> None
      | c # cs \<Rightarrow>
          if c = CHR ''+'' then
            (if cs = [] then None else map_option word_of_nat (parse_digits radix 0 cs))
          else map_option word_of_nat (parse_digits radix 0 s))"

text \<open>\<open>{:016x}\<close> of a \<open>u64\<close>: always sixteen digits, since sixteen are enough.\<close>

definition hex_digit :: "nat \<Rightarrow> char" where
  "hex_digit d = (if d < 10 then char_of (48 + d) else char_of (87 + d))"

fun hex_digits :: "nat \<Rightarrow> nat \<Rightarrow> string" where
  "hex_digits 0 v = []"
| "hex_digits (Suc n) v = hex_digits n (v div 16) @ [hex_digit (v mod 16)]"

definition hex_016 :: "u64 \<Rightarrow> string" where
  "hex_016 w = hex_digits 16 (unat w)"

lemma length_hex_digits [simp]: "length (hex_digits n v) = n"
  by (induction n arbitrary: v) auto

lemma digit_value_hex_digit: "d < 16 \<Longrightarrow> digit_value (hex_digit d) = Some d"
  by (auto simp: digit_value_def hex_digit_def Let_def)

lemma plus_no_digit: "digit_value (CHR ''+'') = None"
  by (simp add: digit_value_def)

lemma hex_digit_not_plus: "d < 16 \<Longrightarrow> hex_digit d \<noteq> CHR ''+''"
  using digit_value_hex_digit [of d] plus_no_digit by auto

lemma parse_digits_snoc:
  "parse_digits r acc (cs @ [c]) =
     (case parse_digits r acc cs of
        None \<Rightarrow> None
      | Some a \<Rightarrow> parse_digits r a [c])"
  by (induction r acc cs rule: parse_digits.induct) (auto split: option.splits)

lemma parse_digits_hex:
  "v < 16 ^ n \<Longrightarrow> v < 2 ^ 64 \<Longrightarrow> parse_digits 16 0 (hex_digits n v) = Some v"
proof (induction n arbitrary: v)
  case 0
  then show ?case by simp
next
  case (Suc n)
  have "v div 16 < 16 ^ n" using Suc.prems(1) by (simp add: div_less_iff_less_mult mult.commute)
  moreover have "v div 16 < 2 ^ 64" using Suc.prems(2) by simp
  ultimately have "parse_digits 16 0 (hex_digits n (v div 16)) = Some (v div 16)"
    by (rule Suc.IH)
  moreover have "v div 16 * 16 + v mod 16 = v" by simp
  ultimately show ?case
    using Suc.prems(2) by (simp add: parse_digits_snoc digit_value_hex_digit)
qed

text \<open>Hexadecimal digits read back as the value they print.\<close>

lemma from_str_radix_hex_digits:
  assumes "0 < n" and "v < 16 ^ n" and "v < 2 ^ 64"
  shows "from_str_radix 16 (hex_digits n v) = Some (word_of_nat v)"
proof -
  have parsed: "parse_digits 16 0 (hex_digits n v) = Some v" using assms by (intro parse_digits_hex)
  have "length (hex_digits n v) = n" by simp
  then obtain c cs where cs: "hex_digits n v = c # cs" using assms(1) by (cases "hex_digits n v") auto
  with parsed have "digit_value c \<noteq> None" by (auto split: option.splits)
  then have "c \<noteq> CHR ''+''" using plus_no_digit by auto
  with cs parsed show ?thesis by (simp add: from_str_radix_def)
qed

lemma from_str_radix_hex_016: "from_str_radix 16 (hex_016 w) = Some w"
  using from_str_radix_hex_digits [of 16 "unat w"] unat_less_u64 [of w] by (simp add: hex_016_def)

lemma hex_digit_ascii: "d < 16 \<Longrightarrow> of_char (hex_digit d) < (128 :: nat)"
  by (auto simp: hex_digit_def)

lemma utf8_valid_ascii: "\<forall>b \<in> set bs. b < 128 \<Longrightarrow> utf8_valid bs"
proof (induction bs rule: utf8_valid.induct)
  case (1 bs)
  show ?case
  proof (cases bs)
    case Nil
    then show ?thesis by (simp add: utf8_valid.simps)
  next
    case (Cons b bs')
    then have "utf8_step bs = (1, True)"
      using "1.prems" by (simp add: utf8_step_def safe_get_def)
    then show ?thesis
      using "1.IH" [of "(1, True)" 1 True] "1.prems" Cons by (simp add: utf8_valid.simps [of "b # bs'"])
  qed
qed

lemma from_utf8_hex_digits: "from_utf8 (bytes_of_chars (hex_digits n v)) = Some (hex_digits n v)"
proof -
  have "of_char c < (128 :: nat)" if "c \<in> set (hex_digits n v)" for c
    using that by (induction n arbitrary: v) (auto simp: hex_digit_ascii)
  then have "\<forall>b \<in> set (bytes_of_chars (hex_digits n v)). b < 128"
    by (auto simp: bytes_of_chars_def word_less_nat_alt unat_of_char)
  then show ?thesis using utf8_valid_ascii by (simp add: from_utf8_def)
qed

end
