(* ===== verification/Stream.thy ===== *)
theory Stream
  imports Text
begin

text \<open>
  The reader of ZFS send streams (src/stream.rs): replay-record headers of 312 bytes, their
  decoding, the Fletcher-4 checksum that chains over the records, and the state machine of
  \<open>StreamReader::next_record\<close> that accepts compound and concatenated substreams.
  \<open>stream_loop\<close> is the loop \<open>while let Some(record) = reader.next_record()?\<close> that every consumer
  of a stream runs.
\<close>

section \<open>Constants\<close>

definition RECORD_SIZE :: nat where "RECORD_SIZE = 312"
definition CHECKSUM_OFFSET :: nat where "CHECKSUM_OFFSET = 280"
definition MAX_PAYLOAD_SIZE :: u64 where "MAX_PAYLOAD_SIZE = 256 * 1024 * 1024"
definition DMU_BACKUP_MAGIC :: u64 where "DMU_BACKUP_MAGIC = 0x2f5bacbac"
definition FEATURE_RAW :: u64 where "FEATURE_RAW = push_bit 24 1"
definition DMU_SUBSTREAM :: byte where "DMU_SUBSTREAM = 1"
definition DMU_COMPOUNDSTREAM :: byte where "DMU_COMPOUNDSTREAM = 2"

abbreviation (input) DRR_BEGIN :: u32 where "DRR_BEGIN \<equiv> 0"
abbreviation (input) DRR_OBJECT :: u32 where "DRR_OBJECT \<equiv> 1"
abbreviation (input) DRR_FREEOBJECTS :: u32 where "DRR_FREEOBJECTS \<equiv> 2"
abbreviation (input) DRR_WRITE :: u32 where "DRR_WRITE \<equiv> 3"
abbreviation (input) DRR_FREE :: u32 where "DRR_FREE \<equiv> 4"
abbreviation (input) DRR_END :: u32 where "DRR_END \<equiv> 5"
abbreviation (input) DRR_WRITE_BYREF :: u32 where "DRR_WRITE_BYREF \<equiv> 6"
abbreviation (input) DRR_SPILL :: u32 where "DRR_SPILL \<equiv> 7"
abbreviation (input) DRR_WRITE_EMBEDDED :: u32 where "DRR_WRITE_EMBEDDED \<equiv> 8"
abbreviation (input) DRR_OBJECT_RANGE :: u32 where "DRR_OBJECT_RANGE \<equiv> 9"
abbreviation (input) DRR_REDACT :: u32 where "DRR_REDACT \<equiv> 10"
abbreviation (input) DRR_NUMTYPES :: u32 where "DRR_NUMTYPES \<equiv> 11"

section \<open>Records\<close>

record begin_record =
  bg_header_type :: byte
  bg_to_guid :: u64
  bg_from_guid :: u64
  bg_creation_time :: u64
  bg_objset_type :: u32
  bg_flags :: u32
  bg_features :: u64
  bg_dataset_name :: string

record object_record =
  ob_object :: u64
  ob_object_type :: u32
  ob_bonus_type :: u32
  ob_block_size :: u32
  ob_bonus_length :: u32
  ob_checksum_type :: byte
  ob_compression :: byte
  ob_dnode_slots :: byte
  ob_flags :: byte
  ob_raw_bonus_length :: u32
  ob_indirect_block_shift :: byte
  ob_levels :: byte
  ob_block_pointers :: byte
  ob_max_block_id :: u64

record write_record =
  wr_object :: u64
  wr_object_type :: u32
  wr_offset :: u64
  wr_logical_size :: u64
  wr_checksum_type :: byte
  wr_flags :: byte
  wr_compressed_size :: u64
  wr_compression_type :: byte
  wr_salt :: "byte list"
  wr_iv :: "byte list"
  wr_mac :: "byte list"

record object_range_record =
  rg_first_object :: u64
  rg_object_slots :: u64
  rg_salt :: "byte list"
  rg_iv :: "byte list"
  rg_mac :: "byte list"
  rg_flags :: byte

record free_record =
  fr_object :: u64
  fr_offset :: u64
  fr_length :: u64

record free_objects_record =
  fo_first_object :: u64
  fo_object_count :: u64

record embedded_write_record =
  em_object :: u64
  em_offset :: u64
  em_length :: u64
  em_compression_type :: byte
  em_embedded_type :: byte
  em_logical_size :: u32
  em_physical_size :: u32

record spill_record =
  sp_object :: u64
  sp_logical_size :: u64
  sp_flags :: byte
  sp_compression_type :: byte
  sp_compressed_size :: u64
  sp_salt :: "byte list"
  sp_iv :: "byte list"
  sp_mac :: "byte list"
  sp_object_type :: u32

datatype record_kind =
    Begin begin_record
  | Object object_record
  | FreeObjects free_objects_record
  | Write write_record
  | Free free_record
  | End
  | WriteByRef
  | Spill spill_record
  | WriteEmbedded embedded_write_record
  | ObjectRange object_range_record
  | Redact

fun record_name :: "record_kind \<Rightarrow> string" where
  "record_name (Begin _) = ''BEGIN''"
| "record_name (Object _) = ''OBJECT''"
| "record_name (FreeObjects _) = ''FREEOBJECTS''"
| "record_name (Write _) = ''WRITE''"
| "record_name (Free _) = ''FREE''"
| "record_name End = ''END''"
| "record_name WriteByRef = ''WRITE_BYREF''"
| "record_name (Spill _) = ''SPILL''"
| "record_name (WriteEmbedded _) = ''WRITE_EMBEDDED''"
| "record_name (ObjectRange _) = ''OBJECT_RANGE''"
| "record_name Redact = ''REDACT''"

record replay_record =
  stream_offset :: u64
  kind :: record_kind
  payload :: "byte list"

section \<open>Fletcher-4\<close>

type_synonym fletcher4 = "u64 \<times> u64 \<times> u64 \<times> u64"

definition fletcher4_zero :: fletcher4 where
  "fletcher4_zero = (0, 0, 0, 0)"

definition fletcher4_word :: "fletcher4 \<Rightarrow> u32 \<Rightarrow> fletcher4" where
  "fletcher4_word f w =
     (case f of (a, b, c, d) \<Rightarrow>
        let a' = a + ucast w; b' = b + a'; c' = c + b'; d' = d + c' in (a', b', c', d'))"

text \<open>\<open>bytes.chunks_exact(4)\<close> decoded with \<open>u32::from_le_bytes\<close>.\<close>

fun le_words :: "byte list \<Rightarrow> u32 list" where
  "le_words (a # b # c # d # bs) = from_le_bytes [a, b, c, d] # le_words bs"
| "le_words _ = []"

definition fletcher4_update :: "fletcher4 \<Rightarrow> byte list \<Rightarrow> u64 \<Rightarrow> stream_error + fletcher4" where
  "fletcher4_update f bytes offset =
     (if length bytes mod 4 \<noteq> 0
      then Inl (Invalid offset ''checksummed region is not aligned to four bytes'')
      else Inr (foldl fletcher4_word f (le_words bytes)))"

section \<open>Header fields\<close>

definition le_u32 :: "byte list \<Rightarrow> nat \<Rightarrow> u32" where
  "le_u32 bytes off = from_le_bytes (slice bytes off (off + 4))"

definition le_u64 :: "byte list \<Rightarrow> nat \<Rightarrow> u64" where
  "le_u64 bytes off = from_le_bytes (slice bytes off (off + 8))"

definition read_checksum :: "byte list \<Rightarrow> nat \<Rightarrow> fletcher4" where
  "read_checksum bytes off =
     (le_u64 bytes off, le_u64 bytes (off + 8), le_u64 bytes (off + 16), le_u64 bytes (off + 24))"

definition round_up_8 :: "u64 \<Rightarrow> u64 \<Rightarrow> stream_error + u64" where
  "round_up_8 v offset =
     ok_or (map_option (\<lambda>v. v AND NOT 7) (checked_add v 7))
       (Invalid offset ''payload length overflow'')"

definition payload_size :: "byte list \<Rightarrow> u32 \<Rightarrow> u64 \<Rightarrow> stream_error + u64" where
  "payload_size header record_type offset =
     (if record_type = DRR_BEGIN then Inr (ucast (le_u32 header 4))
      else if record_type = DRR_OBJECT then
        (let raw = le_u32 header 36 in
         if raw \<noteq> 0 then Inr (ucast raw) else round_up_8 (ucast (le_u32 header 28)) offset)
      else if record_type = DRR_WRITE then
        Inr (if header ! 50 = 0 then le_u64 header 32 else le_u64 header 96)
      else if record_type = DRR_SPILL then
        (let compressed = le_u64 header 40 in
         Inr (if compressed = 0 then le_u64 header 16 else compressed))
      else if record_type = DRR_WRITE_EMBEDDED then round_up_8 (ucast (le_u32 header 52)) offset
      else Inr 0)"

definition decode_begin :: "byte list \<Rightarrow> u64 \<Rightarrow> stream_error + record_kind" where
  "decode_begin header offset =
     (let magic = le_u64 header 8 in
      if magic \<noteq> DMU_BACKUP_MAGIC \<and> from_be_bytes (slice header 8 16) \<noteq> DMU_BACKUP_MAGIC
      then Inl (Invalid offset ''bad ZFS send magic 0x{magic:016x}'')
      else
        let version_info = le_u64 header 16; header_type = ucast (version_info AND 3) :: byte in
        if \<not> (header_type = DMU_SUBSTREAM \<or> header_type = DMU_COMPOUNDSTREAM)
        then Inl (Unsupported offset ''stream header type {header_type} is unsupported'')
        else Inr (Begin
          \<lparr>bg_header_type = header_type,
           bg_to_guid = le_u64 header 40,
           bg_from_guid = le_u64 header 48,
           bg_creation_time = le_u64 header 24,
           bg_objset_type = le_u32 header 32,
           bg_flags = le_u32 header 36,
           bg_features = drop_bit 2 version_info AND (push_bit 56 1 - 1),
           bg_dataset_name = from_utf8_lossy (takeWhile (\<lambda>b. b \<noteq> 0) (slice header 56 312))\<rparr>))"

definition decode_kind :: "byte list \<Rightarrow> u32 \<Rightarrow> u64 \<Rightarrow> stream_error + record_kind" where
  "decode_kind header record_type offset =
     (if record_type = DRR_BEGIN then decode_begin header offset
      else if record_type = DRR_OBJECT then Inr (Object
        \<lparr>ob_object = le_u64 header 8,
         ob_object_type = le_u32 header 16,
         ob_bonus_type = le_u32 header 20,
         ob_block_size = le_u32 header 24,
         ob_bonus_length = le_u32 header 28,
         ob_checksum_type = header ! 32,
         ob_compression = header ! 33,
         ob_dnode_slots = header ! 34,
         ob_flags = header ! 35,
         ob_raw_bonus_length = le_u32 header 36,
         ob_indirect_block_shift = header ! 48,
         ob_levels = header ! 49,
         ob_block_pointers = header ! 50,
         ob_max_block_id = le_u64 header 56\<rparr>)
      else if record_type = DRR_FREEOBJECTS then Inr (FreeObjects
        \<lparr>fo_first_object = le_u64 header 8, fo_object_count = le_u64 header 16\<rparr>)
      else if record_type = DRR_WRITE then Inr (Write
        \<lparr>wr_object = le_u64 header 8,
         wr_object_type = le_u32 header 16,
         wr_offset = le_u64 header 24,
         wr_logical_size = le_u64 header 32,
         wr_checksum_type = header ! 48,
         wr_flags = header ! 49,
         wr_compressed_size = le_u64 header 96,
         wr_compression_type = header ! 50,
         wr_salt = slice header 104 112,
         wr_iv = slice header 112 124,
         wr_mac = slice header 124 140\<rparr>)
      else if record_type = DRR_FREE then Inr (Free
        \<lparr>fr_object = le_u64 header 8, fr_offset = le_u64 header 16, fr_length = le_u64 header 24\<rparr>)
      else if record_type = DRR_END then Inr End
      else if record_type = DRR_WRITE_BYREF then Inr WriteByRef
      else if record_type = DRR_SPILL then Inr (Spill
        \<lparr>sp_object = le_u64 header 8,
         sp_logical_size = le_u64 header 16,
         sp_flags = header ! 32,
         sp_compression_type = header ! 33,
         sp_compressed_size = le_u64 header 40,
         sp_salt = slice header 48 56,
         sp_iv = slice header 56 68,
         sp_mac = slice header 68 84,
         sp_object_type = le_u32 header 84\<rparr>)
      else if record_type = DRR_WRITE_EMBEDDED then Inr (WriteEmbedded
        \<lparr>em_object = le_u64 header 8,
         em_offset = le_u64 header 16,
         em_length = le_u64 header 24,
         em_compression_type = header ! 40,
         em_embedded_type = header ! 41,
         em_logical_size = le_u32 header 48,
         em_physical_size = le_u32 header 52\<rparr>)
      else if record_type = DRR_OBJECT_RANGE then Inr (ObjectRange
        \<lparr>rg_first_object = le_u64 header 8,
         rg_object_slots = le_u64 header 16,
         rg_salt = slice header 32 40,
         rg_iv = slice header 40 52,
         rg_mac = slice header 52 68,
         rg_flags = header ! 68\<rparr>)
      else Inr Redact)"

section \<open>The reader\<close>

text \<open>
  The \<open>Read\<close> of a stream: the bytes left, and what follows them (\<open>None\<close> is the end of the file,
  \<open>Some e\<close> an operating-system error).
\<close>

record byte_source =
  src_bytes :: "byte list"
  src_end :: "io_error option"

definition read_exact :: "nat \<Rightarrow> byte_source \<Rightarrow> io_error + byte list \<times> byte_source" where
  "read_exact n s =
     (if n \<le> length (src_bytes s)
      then Inr (take n (src_bytes s), s\<lparr>src_bytes := drop n (src_bytes s)\<rparr>)
      else Inl (case src_end s of None \<Rightarrow> UnexpectedEof | Some e \<Rightarrow> e))"

record stream_reader =
  inner :: byte_source
  offset :: u64
  started :: bool
  segment_open :: bool
  compound_open :: bool
  saw_end :: bool
  checksum :: fletcher4
  begin_header :: "begin_record option"

definition new_reader :: "byte_source \<Rightarrow> stream_reader" where
  "new_reader s =
     \<lparr>inner = s, offset = 0, started = False, segment_open = False, compound_open = False,
      saw_end = False, checksum = fletcher4_zero, begin_header = None\<rparr>"

text \<open>
  The header of the next record, lines 241 to 271: \<open>None\<close> at a clean end of the stream.
\<close>

definition read_header ::
  "stream_reader \<Rightarrow> stream_error + (byte list \<times> byte_source) option" where
  "read_header r =
     (if src_bytes (inner r) = [] then
        (case src_end (inner r) of
           Some e \<Rightarrow> Inl (StreamIo (offset r) e)
         | None \<Rightarrow>
             if \<not> started r then Inr None
             else if segment_open r
               then Inl (Invalid (offset r) ''stream ended before an END record'')
             else if compound_open r
               then Inl (Invalid (offset r) ''compound stream ended before its conclusion record'')
             else Inr None)
      else map_err (StreamIo (offset r)) (and_then (read_exact RECORD_SIZE (inner r)) (\<lambda>p. Inr (Some p))))"

definition is_conclusion :: "stream_reader \<Rightarrow> u32 \<Rightarrow> bool" where
  "is_conclusion r record_type \<longleftrightarrow> record_type = DRR_END \<and> \<not> segment_open r"

text \<open>The order of records, lines 273 to 304.\<close>

definition check_sequence :: "stream_reader \<Rightarrow> u32 \<Rightarrow> stream_error + unit" where
  "check_sequence r record_type =
     (if record_type \<ge> DRR_NUMTYPES
        then Inl (Invalid (offset r) ''unknown replay record type {record_type}'')
      else if \<not> started r \<and> record_type \<noteq> DRR_BEGIN
        then Inl (Invalid (offset r) ''first replay record is not BEGIN'')
      else if segment_open r \<and> record_type = DRR_BEGIN
        then Inl (Invalid (offset r) ''BEGIN record appears before the current substream's END'')
      else if is_conclusion r record_type \<and> \<not> compound_open r
        then Inl (Invalid (offset r) ''END record appears without an open stream'')
      else if \<not> segment_open r \<and> record_type \<noteq> DRR_BEGIN \<and> \<not> is_conclusion r record_type
        then Inl (Invalid (offset r) ''replay record appears outside a BEGIN/END substream'')
      else Inr ())"

definition validate_checksum ::
  "fletcher4 \<Rightarrow> byte list \<Rightarrow> byte list \<Rightarrow> u32 \<Rightarrow> u64 \<Rightarrow> stream_error + fletcher4" where
  "validate_checksum ck header pay record_type off =
     (if record_type = DRR_BEGIN then
        and_then (fletcher4_update fletcher4_zero header off) (\<lambda>ck.
        fletcher4_update ck pay (off + of_nat RECORD_SIZE))
      else if record_type = DRR_END \<and> read_checksum header 8 \<noteq> (0, 0, 0, 0)
              \<and> read_checksum header 8 \<noteq> ck
        then Inl (Checksum (off + 8))
      else
        and_then (fletcher4_update ck (take CHECKSUM_OFFSET header) off) (\<lambda>ck.
        let record_checksum = read_checksum header CHECKSUM_OFFSET in
        if record_checksum \<noteq> (0, 0, 0, 0) \<and> record_checksum \<noteq> ck
          then Inl (Checksum (off + of_nat CHECKSUM_OFFSET))
        else if record_type \<noteq> DRR_END then
          and_then (fletcher4_update ck (drop CHECKSUM_OFFSET header) (off + of_nat CHECKSUM_OFFSET)) (\<lambda>ck.
          fletcher4_update ck pay (off + of_nat RECORD_SIZE))
        else Inr ck))"

text \<open>
  The checks on the payload-carrying part, lines 326 to 335: the conclusion record of a compound
  stream is zero-filled, every other record is checksummed.
\<close>

definition check_record ::
  "stream_reader \<Rightarrow> byte list \<Rightarrow> byte list \<Rightarrow> u32 \<Rightarrow> stream_error + fletcher4" where
  "check_record r header pay record_type =
     (if is_conclusion r record_type then
        (if \<exists>b \<in> set (drop 4 header). b \<noteq> 0
         then Inl (Invalid (offset r) ''compound conclusion record is not zero-filled'')
         else Inr (checksum r))
      else validate_checksum (checksum r) header pay record_type (offset r))"

text \<open>The state update of a BEGIN or END record, lines 337 to 371.\<close>

definition update_begin :: "stream_reader \<Rightarrow> byte list \<Rightarrow> begin_record \<Rightarrow> stream_error + stream_reader" where
  "update_begin r header bg =
     (if le_u64 header 8 \<noteq> DMU_BACKUP_MAGIC then
        Inl (Unsupported (offset r)
          (if from_be_bytes (slice header 8 16) = DMU_BACKUP_MAGIC
           then ''big-endian streams are not supported in this first release''
           else ''bad ZFS send magic number''))
      else if bg_header_type bg = DMU_COMPOUNDSTREAM then
        (if compound_open r
         then Inl (Invalid (offset r) ''nested compound streams are not supported'')
         else Inr (r\<lparr>compound_open := True, started := True, segment_open := True\<rparr>))
      else Inr (r\<lparr>begin_header := (case begin_header r of None \<Rightarrow> Some bg | Some b \<Rightarrow> Some b),
                 started := True, segment_open := True\<rparr>))"

definition update_state :: "stream_reader \<Rightarrow> byte list \<Rightarrow> record_kind \<Rightarrow> stream_error + stream_reader" where
  "update_state r header k =
     (case k of
        Begin bg \<Rightarrow> update_begin r header bg
      | End \<Rightarrow>
          if \<not> segment_open r then Inr (r\<lparr>compound_open := False\<rparr>)
          else Inr (r\<lparr>segment_open := False, saw_end := True\<rparr>)
      | _ \<Rightarrow> Inr r)"

definition read_payload ::
  "stream_reader \<Rightarrow> byte list \<Rightarrow> byte_source \<Rightarrow> stream_error + (byte list \<times> byte_source)" where
  "read_payload r header src =
     and_then (payload_size header (le_u32 header 0) (offset r)) (\<lambda>size.
     if size > MAX_PAYLOAD_SIZE
       then Inl (Invalid (offset r) ''record payload is too large ({payload_size} bytes)'')
     else map_err (StreamIo (offset r + of_nat RECORD_SIZE)) (read_exact (unat size) src))"

definition next_record :: "stream_reader \<Rightarrow> stream_error + (replay_record option \<times> stream_reader)" where
  "next_record r =
     and_then (read_header r) (\<lambda>h.
     case h of
       None \<Rightarrow> Inr (None, r)
     | Some (header, src) \<Rightarrow>
         let record_type = le_u32 header 0 in
         and_then (check_sequence r record_type) (\<lambda>_.
         and_then (read_payload r header src) (\<lambda>(pay, src).
         and_then (decode_kind header record_type (offset r)) (\<lambda>k.
         and_then (check_record r header pay record_type) (\<lambda>ck.
         and_then (update_state (r\<lparr>inner := src, checksum := ck\<rparr>) header k) (\<lambda>r'.
         and_then (ok_or (checked_add (offset r) (of_nat (RECORD_SIZE + length pay)))
                     (Invalid (offset r) ''stream offset overflow'')) (\<lambda>off.
         Inr (Some \<lparr>stream_offset = offset r, kind = k, payload = pay\<rparr>, r'\<lparr>offset := off\<rparr>))))))))"

text \<open>The loop every consumer of a stream runs; the body may stop it with an error.\<close>

lemma read_exact_Inr_iff:
  "read_exact n s = Inr (bs, s') \<longleftrightarrow>
   n \<le> length (src_bytes s) \<and> bs = take n (src_bytes s) \<and> s' = s\<lparr>src_bytes := drop n (src_bytes s)\<rparr>"
  by (auto simp: read_exact_def)

lemma read_header_Some:
  "read_header r = Inr (Some (header, src)) \<Longrightarrow>
   length header = RECORD_SIZE \<and> src_bytes (inner r) = header @ src_bytes src
   \<and> src_end src = src_end (inner r)"
  by (auto simp: read_header_def result_simps read_exact_Inr_iff split: if_splits option.splits)

lemma read_header_None:
  "read_header r = Inr None \<Longrightarrow>
   src_bytes (inner r) = [] \<and> src_end (inner r) = None
   \<and> (started r \<longrightarrow> \<not> segment_open r \<and> \<not> compound_open r)"
  by (auto simp: read_header_def result_simps read_exact_Inr_iff split: if_splits option.splits)

lemma read_payload_Inr:
  "read_payload r header src = Inr (pay, src') \<Longrightarrow>
   src_bytes src = pay @ src_bytes src' \<and> src_end src' = src_end src
   \<and> length pay \<le> unat MAX_PAYLOAD_SIZE
   \<and> payload_size header (le_u32 header 0) (offset r) = Inr (of_nat (length pay))"
  by (auto simp: read_payload_def result_simps read_exact_Inr_iff word_le_nat_alt not_less
      split: if_splits)

lemma update_begin_frame:
  "update_begin r header bg = Inr r' \<Longrightarrow>
   inner r' = inner r \<and> offset r' = offset r \<and> checksum r' = checksum r"
  by (auto simp: update_begin_def split: if_splits)

lemma update_state_frame:
  "update_state r header k = Inr r' \<Longrightarrow>
   inner r' = inner r \<and> offset r' = offset r \<and> checksum r' = checksum r"
  by (auto simp: update_state_def dest: update_begin_frame split: record_kind.splits if_splits)

text \<open>What a returned record says about the bytes consumed.\<close>

lemma next_record_Some:
  assumes "next_record r = Inr (Some rec, r')"
  obtains header src ck r1 where
    "length header = RECORD_SIZE"
    "src_bytes (inner r) = header @ payload rec @ src_bytes (inner r')"
    "src_end (inner r') = src_end (inner r)"
    "stream_offset rec = offset r"
    "unat (offset r') = unat (offset r) + RECORD_SIZE + length (payload rec)"
    "length (payload rec) \<le> unat MAX_PAYLOAD_SIZE"
    "check_sequence r (le_u32 header 0) = Inr ()"
    "payload_size header (le_u32 header 0) (offset r) = Inr (of_nat (length (payload rec)))"
    "decode_kind header (le_u32 header 0) (offset r) = Inr (kind rec)"
    "check_record r header (payload rec) (le_u32 header 0) = Inr (checksum r')"
    "update_state (r\<lparr>inner := src, checksum := ck\<rparr>) header (kind rec) = Inr r1"
    "started r' = started r1" "segment_open r' = segment_open r1"
    "compound_open r' = compound_open r1" "saw_end r' = saw_end r1"
    "begin_header r' = begin_header r1"
proof -
  from assms obtain header src where h: "read_header r = Inr (Some (header, src))"
    by (auto simp: next_record_def result_simps split: option.splits)
  with assms obtain pay src' k ck r1 off where
      seq: "check_sequence r (le_u32 header 0) = Inr ()"
    and pay: "read_payload r header src = Inr (pay, src')"
    and k: "decode_kind header (le_u32 header 0) (offset r) = Inr k"
    and ck: "check_record r header pay (le_u32 header 0) = Inr ck"
    and upd: "update_state (r\<lparr>inner := src', checksum := ck\<rparr>) header k = Inr r1"
    and off: "checked_add (offset r) (of_nat (RECORD_SIZE + length pay)) = Some off"
    and rec: "rec = \<lparr>stream_offset = offset r, kind = k, payload = pay\<rparr>"
    and r': "r' = r1\<lparr>offset := off\<rparr>"
    by (auto simp: next_record_def result_simps Let_def split: option.splits)
  note fr = update_state_frame [OF upd]
  note rp = read_payload_Inr [OF pay] and rh = read_header_Some [OF h]
  have small: "unat (of_nat (RECORD_SIZE + length pay) :: u64) = RECORD_SIZE + length pay"
    using rp by (intro unat_of_nat_u64) (simp add: RECORD_SIZE_def MAX_PAYLOAD_SIZE_def)
  show thesis
  proof (rule that [where header = header and src = src' and ck = ck and ?r1.0 = r1])
    show "unat (offset r') = unat (offset r) + RECORD_SIZE + length (payload rec)"
      using off small by (simp add: r' rec checked_add_Some_iff)
  qed (use rh rp seq k ck upd fr in \<open>auto simp: r' rec\<close>)
qed

lemma next_record_decreases:
  "next_record r = Inr (Some rec, r') \<Longrightarrow> length (src_bytes (inner r')) < length (src_bytes (inner r))"
  by (erule next_record_Some) (simp add: RECORD_SIZE_def)

function stream_loop ::
  "(replay_record \<Rightarrow> 's \<Rightarrow> 's result) \<Rightarrow> stream_reader \<Rightarrow> 's \<Rightarrow> ('s \<times> stream_reader) result" where
  "stream_loop f r st =
     (case next_record r of
        Inl e \<Rightarrow> Inl (StreamErr e)
      | Inr (None, r') \<Rightarrow> Inr (st, r')
      | Inr (Some rec, r') \<Rightarrow> and_then (f rec st) (\<lambda>st'. stream_loop f r' st'))"
  by pat_completeness auto
termination
  by (relation "measure (\<lambda>(f, r, st). length (src_bytes (inner r)))")
    (auto dest: next_record_decreases)

declare stream_loop.simps [simp del]

section \<open>Runs of the reader\<close>

text \<open>
  \<open>steps r recs r'\<close>: the reader returns exactly \<open>recs\<close> on the way from \<open>r\<close> to \<open>r'\<close>;
  \<open>reads r recs r'\<close>: and then the clean end of the stream.
\<close>

inductive steps :: "stream_reader \<Rightarrow> replay_record list \<Rightarrow> stream_reader \<Rightarrow> bool" where
  steps_Nil: "steps r [] r"
| steps_Cons: "next_record r = Inr (Some rec, r1) \<Longrightarrow> steps r1 recs r' \<Longrightarrow> steps r (rec # recs) r'"

inductive_simps steps_Nil_iff [simp]: "steps r [] r'"
inductive_simps steps_Cons_iff: "steps r (rec # recs) r'"

definition reads :: "stream_reader \<Rightarrow> replay_record list \<Rightarrow> stream_reader \<Rightarrow> bool" where
  "reads r recs r' \<longleftrightarrow> steps r recs r' \<and> next_record r' = Inr (None, r')"

lemma next_record_None: "next_record r = Inr (None, r') \<Longrightarrow> r' = r \<and> read_header r = Inr None"
  by (cases "read_header r"; cases "projr (read_header r)")
    (auto simp: next_record_def result_simps Let_def split: option.splits)

lemma reads_Cons_iff:
  "reads r (rec # recs) r' \<longleftrightarrow> (\<exists>r1. next_record r = Inr (Some rec, r1) \<and> reads r1 recs r')"
  by (auto simp: reads_def steps_Cons_iff)

text \<open>A consumer's loop is a fold of its body over the records read.\<close>

lemma stream_loop_reads:
  "stream_loop f r st = Inr (st', r') \<longleftrightarrow> (\<exists>recs. reads r recs r' \<and> try_fold f st recs = Inr st')"
    (is "?loop \<longleftrightarrow> ?fold")
proof
  show "?loop \<Longrightarrow> ?fold"
  proof (induction f r st rule: stream_loop.induct)
    case (1 f r st)
    from "1.prems" obtain o1 r1 where n: "next_record r = Inr (o1, r1)"
      by (auto simp: stream_loop.simps [of f r st] split: sum.splits)
    show ?case
    proof (cases o1)
      case None
      with n "1.prems" have "r' = r1" and "st' = st" by (auto simp: stream_loop.simps [of f r st])
      then have "reads r [] r'" using n None next_record_None [of r r1] by (simp add: reads_def)
      then show ?thesis using \<open>st' = st\<close> by (intro exI [of _ "[]"]) simp
    next
      case (Some rec)
      with n "1.prems" obtain s1 where s1: "f rec st = Inr s1" and
          rest: "stream_loop f r1 s1 = Inr (st', r')"
        by (auto simp: stream_loop.simps [of f r st] result_simps)
      from "1.IH" [OF n refl Some s1 rest] obtain recs where
          "reads r1 recs r'" and "try_fold f s1 recs = Inr st'" by blast
      then show ?thesis using n Some s1
        by (intro exI [of _ "rec # recs"]) (auto simp: reads_Cons_iff)
    qed
  qed
next
  have "reads r recs r' \<Longrightarrow> try_fold f st recs = Inr st' \<Longrightarrow> ?loop" for recs
  proof (induction recs arbitrary: r st)
    case Nil
    then have "r' = r" and "next_record r = Inr (None, r)" by (auto simp: reads_def)
    with Nil show ?case by (subst stream_loop.simps) simp
  next
    case (Cons rec recs)
    then show ?case
      by (auto simp: reads_Cons_iff stream_loop.simps [of f r st] result_simps)
  qed
  then show "?fold \<Longrightarrow> ?loop" by blast
qed

section \<open>The order of records\<close>

definition body_kind :: "record_kind \<Rightarrow> bool" where
  "body_kind k = (case k of Begin _ \<Rightarrow> False | End \<Rightarrow> False | _ \<Rightarrow> True)"

lemma record_kind_cases3:
  obtains (Begin) b where "k = Begin b" | (End) "k = End" | (Body) "body_kind k"
  by (cases k) (auto simp: body_kind_def)

lemma body_kind_simps [simp]: "\<not> body_kind (Begin b)" "\<not> body_kind End"
  by (simp_all add: body_kind_def)

lemma body_kind_case: "body_kind k \<Longrightarrow> (case k of Begin b \<Rightarrow> f b | End \<Rightarrow> x | _ \<Rightarrow> y) = y"
  by (cases k) simp_all

lemma update_state_body: "body_kind k \<Longrightarrow> update_state r header k = Inr r1 \<longleftrightarrow> r1 = r"
  by (auto simp: update_state_def body_kind_case)

lemma decode_begin_Inr:
  "decode_begin header off = Inr k \<Longrightarrow>
   \<exists>b. k = Begin b \<and> (bg_header_type b = DMU_SUBSTREAM \<or> bg_header_type b = DMU_COMPOUNDSTREAM)"
  by (auto simp: decode_begin_def Let_def split: if_splits)

lemma decode_kind_Begin:
  "decode_kind header t off = Inr (Begin b) \<Longrightarrow>
   t = DRR_BEGIN \<and> (bg_header_type b = DMU_SUBSTREAM \<or> bg_header_type b = DMU_COMPOUNDSTREAM)"
  by (auto simp: decode_kind_def dest!: decode_begin_Inr split: if_splits)

lemma decode_kind_End: "decode_kind header t off = Inr End \<Longrightarrow> t = DRR_END"
  by (auto simp: decode_kind_def dest!: decode_begin_Inr split: if_splits)

lemma decode_kind_body:
  "decode_kind header t off = Inr k \<Longrightarrow> body_kind k \<Longrightarrow> t \<noteq> DRR_BEGIN \<and> t \<noteq> DRR_END"
  by (auto simp: decode_kind_def body_kind_def dest!: decode_begin_Inr split: if_splits)

lemma check_sequence_Inr:
  "check_sequence r t = Inr u \<longleftrightarrow>
   t < DRR_NUMTYPES \<and> (started r \<or> t = DRR_BEGIN) \<and> \<not> (segment_open r \<and> t = DRR_BEGIN)
   \<and> (is_conclusion r t \<longrightarrow> compound_open r)
   \<and> (segment_open r \<or> t = DRR_BEGIN \<or> is_conclusion r t)"
  by (auto simp: check_sequence_def)

text \<open>The transitions of the reader's state machine, by the kind of the record returned.\<close>

definition transition :: "stream_reader \<Rightarrow> record_kind \<Rightarrow> stream_reader \<Rightarrow> bool" where
  "transition r k r' =
     (case k of
        Begin b \<Rightarrow> \<not> segment_open r \<and> segment_open r' \<and> started r' \<and> saw_end r' = saw_end r \<and>
          (if bg_header_type b = DMU_COMPOUNDSTREAM then \<not> compound_open r \<and> compound_open r'
           else bg_header_type b = DMU_SUBSTREAM \<and> compound_open r' = compound_open r)
      | End \<Rightarrow> \<not> segment_open r' \<and> started r' \<and> started r \<and>
          (if segment_open r then compound_open r' = compound_open r \<and> saw_end r'
           else compound_open r \<and> \<not> compound_open r' \<and> saw_end r' = saw_end r)
      | _ \<Rightarrow> segment_open r \<and> segment_open r' \<and> compound_open r' = compound_open r
          \<and> started r' \<and> started r \<and> saw_end r' = saw_end r)"

lemma next_record_transition:
  assumes n: "next_record r = Inr (Some rec, r')"
  shows "transition r (kind rec) r'"
proof -
  from n obtain header src ck r1 where
      seq: "check_sequence r (le_u32 header 0) = Inr ()"
    and dk: "decode_kind header (le_u32 header 0) (offset r) = Inr (kind rec)"
    and u: "update_state (r\<lparr>inner := src, checksum := ck\<rparr>) header (kind rec) = Inr r1"
    and r': "started r' = started r1" "segment_open r' = segment_open r1"
      "compound_open r' = compound_open r1" "saw_end r' = saw_end r1"
    by (rule next_record_Some)
  show ?thesis
  proof (cases "kind rec" rule: record_kind_cases3)
    case (Begin b)
    with dk have t: "le_u32 header 0 = DRR_BEGIN"
        "bg_header_type b = DMU_SUBSTREAM \<or> bg_header_type b = DMU_COMPOUNDSTREAM"
      using decode_kind_Begin [of header _ "offset r" b] by auto
    from Begin u have "update_begin (r\<lparr>inner := src, checksum := ck\<rparr>) header b = Inr r1"
      by (simp add: update_state_def)
    then have "started r1 \<and> segment_open r1 \<and> saw_end r1 = saw_end r \<and>
        (if bg_header_type b = DMU_COMPOUNDSTREAM then \<not> compound_open r \<and> compound_open r1
         else compound_open r1 = compound_open r)"
      unfolding update_begin_def by (auto split: if_splits)
    then show ?thesis using t seq Begin
      by (auto simp: transition_def check_sequence_Inr r' split: if_splits)
  next
    case End
    then have t: "le_u32 header 0 = DRR_END" using dk decode_kind_End by metis
    from End u have "r1 = (if \<not> segment_open r then r\<lparr>inner := src, checksum := ck, compound_open := False\<rparr>
        else r\<lparr>inner := src, checksum := ck, segment_open := False, saw_end := True\<rparr>)"
      by (auto simp: update_state_def split: if_splits)
    then show ?thesis using t seq End
      by (auto simp: transition_def check_sequence_Inr is_conclusion_def r')
  next
    case Body
    with dk have t: "le_u32 header 0 \<noteq> DRR_BEGIN" "le_u32 header 0 \<noteq> DRR_END"
      using decode_kind_body by blast+
    from Body u have "r1 = r\<lparr>inner := src, checksum := ck\<rparr>" by (simp add: update_state_body)
    then show ?thesis using t seq Body
      by (simp add: transition_def body_kind_case check_sequence_Inr is_conclusion_def r')
  qed
qed

text \<open>
  The language of complete streams: substreams one after another, and compound streams, whose
  own BEGIN/END pair is followed by plain substreams and a conclusion END.
\<close>

inductive substream :: "record_kind list \<Rightarrow> bool" where
  "bg_header_type b = DMU_SUBSTREAM \<Longrightarrow> list_all body_kind ks \<Longrightarrow> substream (Begin b # ks @ [End])"

inductive substreams :: "record_kind list \<Rightarrow> bool" where
  substreams_Nil: "substreams []"
| substreams_app: "substream xs \<Longrightarrow> substreams ys \<Longrightarrow> substreams (xs @ ys)"

inductive send_stream :: "record_kind list \<Rightarrow> bool" where
  send_Nil: "send_stream []"
| send_plain: "substream xs \<Longrightarrow> send_stream ys \<Longrightarrow> send_stream (xs @ ys)"
| send_compound:
    "bg_header_type b = DMU_COMPOUNDSTREAM \<Longrightarrow> list_all body_kind ks \<Longrightarrow> substreams xs \<Longrightarrow>
     send_stream ys \<Longrightarrow> send_stream (Begin b # ks @ [End] @ xs @ [End] @ ys)"

text \<open>What remains to be read in each of the four states of the reader.\<close>

definition rest_of_stream :: "bool \<Rightarrow> bool \<Rightarrow> record_kind list \<Rightarrow> bool" where
  "rest_of_stream seg cmp ks =
     (\<exists>body subs ys. list_all body_kind body \<and> substreams subs \<and> send_stream ys \<and>
        ks = (if seg then body @ [End] else []) @ (if cmp then subs @ [End] else []) @ ys)"

lemma rest_body: "rest_of_stream True cmp ks \<Longrightarrow> body_kind k \<Longrightarrow> rest_of_stream True cmp (k # ks)"
  unfolding rest_of_stream_def
  by (clarsimp split del: if_split) (rule_tac x = "k # body" in exI, auto split del: if_split)

lemma rest_end_segment: "rest_of_stream False cmp ks \<Longrightarrow> rest_of_stream True cmp (End # ks)"
  unfolding rest_of_stream_def
  by (clarsimp split del: if_split) (rule_tac x = "[]" in exI, auto split del: if_split)

lemma rest_conclusion: "rest_of_stream False False ks \<Longrightarrow> rest_of_stream False True (End # ks)"
  unfolding rest_of_stream_def
  by clarsimp (rule_tac x = "[]" in exI, auto intro: substreams.intros)

lemma rest_begin_plain:
  assumes "rest_of_stream True cmp ks" and b: "bg_header_type b = DMU_SUBSTREAM"
  shows "rest_of_stream False cmp (Begin b # ks)"
proof -
  from assms(1) obtain body subs ys where body: "list_all body_kind body" and subs: "substreams subs"
    and ys: "send_stream ys" and ks: "ks = (body @ [End]) @ (if cmp then subs @ [End] else []) @ ys"
    by (auto simp: rest_of_stream_def split del: if_split)
  have sub: "substream (Begin b # body @ [End])" using b body by (rule substream.intros)
  show ?thesis
  proof (cases cmp)
    case True
    have "substreams ((Begin b # body @ [End]) @ subs)" using sub subs by (rule substreams_app)
    with True ks ys show ?thesis unfolding rest_of_stream_def
      by (intro exI [of _ "[]"] exI [of _ "(Begin b # body @ [End]) @ subs"] exI [of _ ys]) simp
  next
    case False
    have "send_stream ((Begin b # body @ [End]) @ ys)" using sub ys by (rule send_plain)
    with False ks subs show ?thesis unfolding rest_of_stream_def
      by (intro exI [of _ "[]"] exI [of _ subs] exI [of _ "(Begin b # body @ [End]) @ ys"]) simp
  qed
qed

lemma rest_begin_compound:
  assumes "rest_of_stream True True ks" and b: "bg_header_type b = DMU_COMPOUNDSTREAM"
  shows "rest_of_stream False False (Begin b # ks)"
proof -
  from assms(1) obtain body subs ys where "list_all body_kind body" and subs: "substreams subs"
    and "send_stream ys" and ks: "ks = (body @ [End]) @ (subs @ [End]) @ ys"
    by (auto simp: rest_of_stream_def)
  with b have "send_stream (Begin b # body @ [End] @ subs @ [End] @ ys)" by (intro send_compound)
  with ks subs show ?thesis unfolding rest_of_stream_def
    by (intro exI [of _ "[]"] exI [of _ subs] exI [of _ "Begin b # ks"]) simp
qed

lemma transition_rest:
  assumes "transition r k r'" and "rest_of_stream (segment_open r') (compound_open r') ks"
  shows "rest_of_stream (segment_open r) (compound_open r) (k # ks)"
proof (cases k rule: record_kind_cases3)
  case (Begin b)
  with assms show ?thesis
    by (auto simp: transition_def intro: rest_begin_plain rest_begin_compound split: if_splits)
next
  case End
  with assms show ?thesis
    by (auto simp: transition_def intro: rest_end_segment rest_conclusion split: if_splits)
next
  case Body
  with assms show ?thesis by (auto simp: transition_def body_kind_case intro: rest_body)
qed

lemma steps_rest:
  "steps r recs r' \<Longrightarrow> \<not> segment_open r' \<Longrightarrow> \<not> compound_open r' \<Longrightarrow>
   rest_of_stream (segment_open r) (compound_open r) (map kind recs)"
proof (induction rule: steps.induct)
  case (steps_Nil r)
  have "rest_of_stream False False []" unfolding rest_of_stream_def
    by (intro exI [of _ "[]"] exI [of _ "[]"]) (auto intro: substreams.intros send_stream.intros)
  with steps_Nil show ?case by simp
next
  case (steps_Cons r rec r1 recs r')
  then show ?case using transition_rest [OF next_record_transition] by simp
qed

lemma steps_started: "steps r recs r' \<Longrightarrow> recs \<noteq> [] \<or> started r \<Longrightarrow> started r'"
proof (induction rule: steps.induct)
  case (steps_Cons r rec r1 recs r')
  have "started r1" using next_record_transition [OF steps_Cons.hyps(1)]
    by (auto simp: transition_def split: record_kind.splits)
  then show ?case using steps_Cons.IH by simp
qed simp

lemma steps_idle_closed:
  "reads r recs r' \<Longrightarrow> \<not> segment_open r \<Longrightarrow> \<not> compound_open r \<Longrightarrow>
   \<not> segment_open r' \<and> \<not> compound_open r'"
  using read_header_None [of r'] next_record_None [of r' r'] steps_started [of r recs r']
  by (cases recs) (auto simp: reads_def)

section \<open>Fletcher-4 detects small corruptions\<close>

lemma le_words_append:
  "length xs mod 4 = 0 \<Longrightarrow> le_words (xs @ ys) = le_words xs @ le_words ys"
proof (induction xs rule: le_words.induct)
  case (1 a b c d bs)
  then show ?case by simp
qed (simp_all add: mod_Suc)

lemma fletcher4_update_append:
  assumes "length xs mod 4 = 0" and "length ys mod 4 = 0"
  shows "fletcher4_update f (xs @ ys) off = and_then (fletcher4_update f xs off) (\<lambda>f. fletcher4_update f ys off')"
  using assms by (simp add: fletcher4_update_def le_words_append mod_add_eq [symmetric, of "length xs"])

lemma fletcher4_word_diff:
  "fletcher4_word (a, b, c, d) x = (a1, b1, c1, d1) \<Longrightarrow>
   fletcher4_word (a', b', c', d') x' = (a1', b1', c1', d1') \<Longrightarrow>
   a1 - a1' = (a - a') + (ucast x - ucast x') \<and> b1 - b1' = (b - b') + (a1 - a1')"
  by (auto simp: fletcher4_word_def Let_def)

lemma fletcher4_same_words:
  assumes "foldl fletcher4_word (a, b, c, d) ws = (a1, b1, c1, d1)"
    and "foldl fletcher4_word (a', b', c', d') ws = (a1', b1', c1', d1')"
  shows "a1 - a1' = a - a' \<and> b1 - b1' = (b - b') + of_nat (length ws) * (a - a')"
  using assms
proof (induction ws arbitrary: a b c d a' b' c' d')
  case Nil
  then show ?case by simp
next
  case (Cons w ws)
  obtain a2 b2 c2 d2 where s: "fletcher4_word (a, b, c, d) w = (a2, b2, c2, d2)"
    by (metis prod_cases4)
  obtain a2' b2' c2' d2' where s': "fletcher4_word (a', b', c', d') w = (a2', b2', c2', d2')"
    by (metis prod_cases4)
  have A: "a2 - a2' = a - a'" and B: "b2 - b2' = (b - b') + (a - a')"
    using fletcher4_word_diff [OF s s'] by simp_all
  have "a1 - a1' = a2 - a2' \<and> b1 - b1' = (b2 - b2') + of_nat (length ws) * (a2 - a2')"
    using Cons.prems s s' by (intro Cons.IH) simp_all
  then show ?case by (simp add: A B distrib_right add.assoc)
qed

lemma u32_difference_small:
  assumes "of_nat m * ((ucast x :: u64) - ucast (x' :: u32)) = 0" and "0 < m" and "m \<le> 2 ^ 32"
  shows "x = x'"
proof -
  have wlog: "y = y'" if "of_nat m * ((ucast (y :: u32) :: u64) - ucast (y' :: u32)) = 0" and "y' \<le> y" for y y'
  proof -
    have ux: "unat (ucast y :: u64) = unat y" "unat (ucast y' :: u64) = unat y'"
      by simp_all
    have "(ucast y' :: u64) \<le> ucast y" using that(2) ux by (simp add: word_le_nat_alt)
    then have d: "unat ((ucast y :: u64) - ucast y') = unat y - unat y'"
      using ux by (simp add: unat_sub)
    have "unat y < 2 ^ 32" using unsigned_less [of y, where ?'a = nat] by simp
    then have "m * (unat y - unat y') < 2 ^ 32 * 2 ^ 32"
      using assms(2,3) by (intro mult_le_less_imp_less) auto
    then have "unat (of_nat m * ((ucast y :: u64) - ucast y')) = m * (unat y - unat y')"
      using assms(3) d by (subst unat_mult_u64) (simp_all add: unat_of_nat_u64)
    with that(1) assms(2) have "unat y - unat y' = 0" by simp
    with that(2) show ?thesis by (simp add: word_le_nat_alt word_unat_eq_iff)
  qed
  show ?thesis
  proof (cases "x' \<le> x")
    case True
    then show ?thesis using wlog assms(1) by blast
  next
    case False
    have "of_nat m * ((ucast x' :: u64) - ucast x) = 0"
      using assms(1) by (simp add: algebra_simps)
    with False show ?thesis using wlog [of x' x] by (metis linear)
  qed
qed

definition two_word_change :: "u32 list \<Rightarrow> u32 list \<Rightarrow> bool" where
  "two_word_change ws ws' \<longleftrightarrow>
     (\<exists>us x x' ms y y' vs. ws = us @ x # ms @ y # vs \<and> ws' = us @ x' # ms @ y' # vs
        \<and> (x, y) \<noteq> (x', y') \<and> length ms < 2 ^ 32)"

lemma foldl_fletcher_split: "\<exists>a b c d. foldl fletcher4_word f ws = (a, b, c, d)"
  by (cases "foldl fletcher4_word f ws") auto

lemma fletcher4_detects:
  assumes "two_word_change ws ws'"
  shows "foldl fletcher4_word f ws \<noteq> foldl fletcher4_word f ws'"
proof
  assume eq: "foldl fletcher4_word f ws = foldl fletcher4_word f ws'"
  from assms obtain us x x' ms y y' vs where ws: "ws = us @ x # ms @ y # vs" "ws' = us @ x' # ms @ y' # vs"
    and ne: "(x, y) \<noteq> (x', y')" and len: "length ms < 2 ^ 32"
    by (auto simp: two_word_change_def)
  obtain a b c d where f0: "foldl fletcher4_word f us = (a, b, c, d)" using foldl_fletcher_split by blast
  obtain a1 b1 c1 d1 where f1: "fletcher4_word (a, b, c, d) x = (a1, b1, c1, d1)" by (metis prod_cases4)
  obtain a1' b1' c1' d1' where f1': "fletcher4_word (a, b, c, d) x' = (a1', b1', c1', d1')" by (metis prod_cases4)
  obtain a2 b2 c2 d2 where f2: "foldl fletcher4_word (a1, b1, c1, d1) ms = (a2, b2, c2, d2)"
    using foldl_fletcher_split by blast
  obtain a2' b2' c2' d2' where f2': "foldl fletcher4_word (a1', b1', c1', d1') ms = (a2', b2', c2', d2')"
    using foldl_fletcher_split by blast
  obtain a3 b3 c3 d3 where f3: "fletcher4_word (a2, b2, c2, d2) y = (a3, b3, c3, d3)" by (metis prod_cases4)
  obtain a3' b3' c3' d3' where f3': "fletcher4_word (a2', b2', c2', d2') y' = (a3', b3', c3', d3')" by (metis prod_cases4)
  obtain a4 b4 c4 d4 where f4: "foldl fletcher4_word (a3, b3, c3, d3) vs = (a4, b4, c4, d4)"
    using foldl_fletcher_split by blast
  have f4': "foldl fletcher4_word (a3', b3', c3', d3') vs = (a4, b4, c4, d4)"
    using eq ws f0 f1 f1' f2 f2' f3 f3' f4 by simp
  let ?dx = "(ucast x :: u64) - ucast x'" and ?dy = "(ucast y :: u64) - ucast y'"
  note e1 = fletcher4_word_diff [OF f1 f1'] and e2 = fletcher4_same_words [OF f2 f2']
    and e3 = fletcher4_word_diff [OF f3 f3'] and e4 = fletcher4_same_words [OF f4 f4']
  have a3: "a3 - a3' = ?dx + ?dy" using e1 e2 e3 by simp
  have zero: "?dx + ?dy = 0" using e4 a3 by simp
  have "b3 - b3' = of_nat (Suc (length ms)) * ?dx + (?dx + ?dy)"
    using e1 e2 e3 a3 by (simp add: distrib_right)
  moreover have "b3 - b3' = 0" using e4 by auto
  ultimately have "of_nat (Suc (length ms)) * ?dx = 0" using zero by simp
  then have "x = x'" using len by (intro u32_difference_small [of "Suc (length ms)"]) simp_all
  moreover from this zero have "of_nat 1 * ?dy = 0" by simp
  then have "y = y'" by (intro u32_difference_small [of 1]) simp_all
  ultimately show False using ne by simp
qed


lemma validate_checksum_body:
  assumes "t \<noteq> DRR_BEGIN" and "t \<noteq> DRR_END"
  shows "validate_checksum ck header pay t off =
     and_then (fletcher4_update ck (take CHECKSUM_OFFSET header) off) (\<lambda>ck1.
     if read_checksum header CHECKSUM_OFFSET \<noteq> (0, 0, 0, 0) \<and> read_checksum header CHECKSUM_OFFSET \<noteq> ck1
     then Inl (Checksum (off + of_nat CHECKSUM_OFFSET))
     else and_then (fletcher4_update ck1 (drop CHECKSUM_OFFSET header) (off + of_nat CHECKSUM_OFFSET)) (\<lambda>ck2.
          fletcher4_update ck2 pay (off + of_nat RECORD_SIZE)))"
  using assms by (simp add: validate_checksum_def Let_def cong: if_cong)

lemma read_checksum_drop:
  "drop CHECKSUM_OFFSET h = drop CHECKSUM_OFFSET h' \<Longrightarrow>
   read_checksum h CHECKSUM_OFFSET = read_checksum h' CHECKSUM_OFFSET"
proof -
  assume eq: "drop CHECKSUM_OFFSET h = drop CHECKSUM_OFFSET h'"
  have "slice h (CHECKSUM_OFFSET + i) (CHECKSUM_OFFSET + i + 8)
      = slice h' (CHECKSUM_OFFSET + i) (CHECKSUM_OFFSET + i + 8)" for i
    using arg_cong [OF eq, of "drop i"] by (simp add: slice_def add.commute)
  from this [of 0] this [of 8] this [of 16] this [of 24] show ?thesis
    by (simp add: read_checksum_def le_u64_def)
qed

section \<open>Where records lie in the stream\<close>

lemma steps_bytes:
  "steps r recs r' \<Longrightarrow> rec \<in> set recs \<Longrightarrow>
   \<exists>pre post. src_bytes (inner r) = pre @ payload rec @ post
     \<and> unat (stream_offset rec) + RECORD_SIZE = unat (offset r) + length pre"
proof (induction rule: steps.induct)
  case (steps_Cons r rec1 r1 recs r')
  from steps_Cons.hyps(1) obtain header where
      h: "length header = RECORD_SIZE"
        "src_bytes (inner r) = header @ payload rec1 @ src_bytes (inner r1)"
        "stream_offset rec1 = offset r"
        "unat (offset r1) = unat (offset r) + RECORD_SIZE + length (payload rec1)"
    by (rule next_record_Some)
  show ?case
  proof (cases "rec = rec1")
    case True
    then show ?thesis using h by (metis add.assoc)
  next
    case False
    then obtain pre post where "src_bytes (inner r1) = pre @ payload rec @ post"
      "unat (stream_offset rec) + RECORD_SIZE = unat (offset r1) + length pre"
      using steps_Cons by auto
    then have "src_bytes (inner r) = (header @ payload rec1 @ pre) @ payload rec @ post"
      "unat (stream_offset rec) + RECORD_SIZE = unat (offset r) + length (header @ payload rec1 @ pre)"
      using h by simp_all
    then show ?thesis by blast
  qed
qed simp

lemma reads_payload_position:
  assumes "reads (new_reader s) recs r'" and "rec \<in> set recs"
  shows "get_range (src_bytes s) (unat (stream_offset rec) + RECORD_SIZE)
           (unat (stream_offset rec) + RECORD_SIZE + length (payload rec)) = Some (payload rec)"
proof -
  from assms obtain pre post where "src_bytes s = pre @ payload rec @ post"
      "unat (stream_offset rec) + RECORD_SIZE = length pre"
    using steps_bytes [of "new_reader s" recs r' rec] by (auto simp: reads_def new_reader_def)
  then show ?thesis by (simp add: get_range_def slice_def)
qed

lemma steps_offset:
  "steps r recs r' \<Longrightarrow>
   unat (offset r') = unat (offset r) + sum_list (map (\<lambda>rec. RECORD_SIZE + length (payload rec)) recs)
   \<and> length (src_bytes (inner r)) = length (src_bytes (inner r'))
       + sum_list (map (\<lambda>rec. RECORD_SIZE + length (payload rec)) recs)"
proof (induction rule: steps.induct)
  case (steps_Cons r rec1 r1 recs r')
  from steps_Cons.hyps(1) obtain header where
      "length header = RECORD_SIZE"
      "src_bytes (inner r) = header @ payload rec1 @ src_bytes (inner r1)"
      "unat (offset r1) = unat (offset r) + RECORD_SIZE + length (payload rec1)"
    by (rule next_record_Some)
  then show ?case using steps_Cons.IH by simp
qed simp

lemma steps_payload_bound:
  "steps r recs r' \<Longrightarrow> rec \<in> set recs \<Longrightarrow> length (payload rec) \<le> unat MAX_PAYLOAD_SIZE"
proof (induction rule: steps.induct)
  case (steps_Cons r rec1 r1 recs r')
  then show ?case by (auto elim: next_record_Some)
qed simp

lemma reads_deterministic: "reads r recs r' \<Longrightarrow> reads r recs2 r2 \<Longrightarrow> recs2 = recs \<and> r2 = r'"
proof (induction recs arbitrary: r recs2)
  case Nil
  then show ?case by (cases recs2) (auto simp: reads_Cons_iff, auto simp: reads_def)
next
  case (Cons rec recs)
  then show ?case by (cases recs2) (auto simp: reads_Cons_iff, auto simp: reads_def)
qed

end
