(* ===== verification/Stream_Format.thy ===== *)
theory Stream_Format
  imports Stream
begin

text \<open>
  The wire format of send streams as a specification of the reader: an encoder for headers and
  streams, the proof that decoding inverts it, and that \<open>StreamReader\<close> accepts exactly the
  streams of the grammar \<open>send_stream\<close>: whatever it accepts is in the grammar (soundness), and
  the encoding of every list of records in the grammar is read back (completeness).
\<close>

section \<open>Headers decode to the fields they encode\<close>

text \<open>
  The wire layout, written the other way round: the fields of a record as (offset, bytes) pairs
  placed in a zero-filled header. Decoding such a header gives back the record, so no two fields
  overlap and every field is read at its full width.
\<close>

definition place :: "(nat \<times> byte list) list \<Rightarrow> byte list" where
  "place fs = fold (\<lambda>(off, bs) h. blit off bs h) fs (replicate RECORD_SIZE 0)"

abbreviation le4 :: "u32 \<Rightarrow> byte list" where "le4 w \<equiv> le_bytes 4 (unat w)"
abbreviation le8 :: "u64 \<Rightarrow> byte list" where "le8 w \<equiv> le_bytes 8 (unat w)"

fun record_type_of :: "record_kind \<Rightarrow> u32" where
  "record_type_of (Begin _) = DRR_BEGIN"
| "record_type_of (Object _) = DRR_OBJECT"
| "record_type_of (FreeObjects _) = DRR_FREEOBJECTS"
| "record_type_of (Write _) = DRR_WRITE"
| "record_type_of (Free _) = DRR_FREE"
| "record_type_of End = DRR_END"
| "record_type_of WriteByRef = DRR_WRITE_BYREF"
| "record_type_of (Spill _) = DRR_SPILL"
| "record_type_of (WriteEmbedded _) = DRR_WRITE_EMBEDDED"
| "record_type_of (ObjectRange _) = DRR_OBJECT_RANGE"
| "record_type_of Redact = DRR_REDACT"

fun fields :: "record_kind \<Rightarrow> nat \<Rightarrow> (nat \<times> byte list) list" where
  "fields (Object ob) n =
     [(8, le8 (ob_object ob)), (16, le4 (ob_object_type ob)),
      (20, le4 (ob_bonus_type ob)), (24, le4 (ob_block_size ob)), (28, le4 (ob_bonus_length ob)),
      (32, [ob_checksum_type ob, ob_compression ob, ob_dnode_slots ob, ob_flags ob]),
      (36, le4 (ob_raw_bonus_length ob)),
      (48, [ob_indirect_block_shift ob, ob_levels ob, ob_block_pointers ob]),
      (56, le8 (ob_max_block_id ob))]"
| "fields (FreeObjects fo) n = [(8, le8 (fo_first_object fo)), (16, le8 (fo_object_count fo))]"
| "fields (Write wr) n =
     [(8, le8 (wr_object wr)), (16, le4 (wr_object_type wr)),
      (24, le8 (wr_offset wr)), (32, le8 (wr_logical_size wr)),
      (48, [wr_checksum_type wr, wr_flags wr, wr_compression_type wr]),
      (96, le8 (wr_compressed_size wr)), (104, wr_salt wr), (112, wr_iv wr), (124, wr_mac wr)]"
| "fields (Free fr) n = [(8, le8 (fr_object fr)), (16, le8 (fr_offset fr)), (24, le8 (fr_length fr))]"
| "fields End n = []"
| "fields WriteByRef n = []"
| "fields (Spill sp) n =
     [(8, le8 (sp_object sp)), (16, le8 (sp_logical_size sp)),
      (32, [sp_flags sp, sp_compression_type sp]), (40, le8 (sp_compressed_size sp)),
      (48, sp_salt sp), (56, sp_iv sp), (68, sp_mac sp), (84, le4 (sp_object_type sp))]"
| "fields (WriteEmbedded em) n =
     [(8, le8 (em_object em)), (16, le8 (em_offset em)),
      (24, le8 (em_length em)), (40, [em_compression_type em, em_embedded_type em]),
      (48, le4 (em_logical_size em)), (52, le4 (em_physical_size em))]"
| "fields (ObjectRange rg) n =
     [(8, le8 (rg_first_object rg)), (16, le8 (rg_object_slots rg)),
      (32, rg_salt rg), (40, rg_iv rg), (52, rg_mac rg), (68, [rg_flags rg])]"
| "fields Redact n = []"
| "fields (Begin bg) n =
     [(4, le_bytes 4 n), (8, le8 DMU_BACKUP_MAGIC),
      (16, le_bytes 8 (4 * unat (bg_features bg) + unat (bg_header_type bg))),
      (24, le8 (bg_creation_time bg)), (32, le4 (bg_objset_type bg)), (36, le4 (bg_flags bg)),
      (40, le8 (bg_to_guid bg)), (48, le8 (bg_from_guid bg)),
      (56, bytes_of_chars (bg_dataset_name bg))]"

definition encode_header :: "record_kind \<Rightarrow> nat \<Rightarrow> byte list" where
  "encode_header k n = place ((0, le4 (record_type_of k)) # fields k n)"

fun sized_kind :: "record_kind \<Rightarrow> bool" where
  "sized_kind (Write wr) \<longleftrightarrow> length (wr_salt wr) = 8 \<and> length (wr_iv wr) = 12 \<and> length (wr_mac wr) = 16"
| "sized_kind (Spill sp) \<longleftrightarrow> length (sp_salt sp) = 8 \<and> length (sp_iv sp) = 12 \<and> length (sp_mac sp) = 16"
| "sized_kind (ObjectRange rg) \<longleftrightarrow> length (rg_salt rg) = 8 \<and> length (rg_iv rg) = 12 \<and> length (rg_mac rg) = 16"
| "sized_kind (Begin bg) \<longleftrightarrow>
     (bg_header_type bg = DMU_SUBSTREAM \<or> bg_header_type bg = DMU_COMPOUNDSTREAM)
     \<and> unat (bg_features bg) < 2 ^ 56 \<and> length (bg_dataset_name bg) \<le> 256
     \<and> (\<forall>c \<in> set (bg_dataset_name bg). 0 < (of_char c :: nat) \<and> (of_char c :: nat) < 128)"
| "sized_kind _ = True"

lemma from_le_bytes_4: "n < 4294967296 \<Longrightarrow> (from_le_bytes (le_bytes 4 n) :: u32) = word_of_nat n"
  by (simp add: from_le_bytes_def le_nat_le_bytes)

lemma from_le_bytes_8: "n < 18446744073709551616 \<Longrightarrow> (from_le_bytes (le_bytes 8 n) :: u64) = word_of_nat n"
  by (simp add: from_le_bytes_def le_nat_le_bytes)

lemmas header_simps =
  from_le_bytes_4 encode_header_def place_def RECORD_SIZE_def le_u32_def le_u64_def slice_blit nth_blit

lemma length_encode_header: "sized_kind k \<Longrightarrow> length (encode_header k n) = RECORD_SIZE"
  by (cases k) (simp_all add: encode_header_def place_def RECORD_SIZE_def)

lemma record_type_encode: "sized_kind k \<Longrightarrow> le_u32 (encode_header k n) 0 = record_type_of k"
  by (cases k) (simp_all add: header_simps)

lemma decode_encode_Object: "decode_kind (encode_header (Object ob) n) 1 off = Inr (Object ob)"
  by (simp add: header_simps decode_kind_def)

lemma decode_encode_Write:
  "sized_kind (Write wr) \<Longrightarrow> decode_kind (encode_header (Write wr) n) 3 off = Inr (Write wr)"
  by (simp add: header_simps decode_kind_def)

lemma decode_encode_Spill:
  "sized_kind (Spill sp) \<Longrightarrow> decode_kind (encode_header (Spill sp) n) 7 off = Inr (Spill sp)"
  by (simp add: header_simps decode_kind_def)

lemma decode_encode_rest:
  "decode_kind (encode_header (Free fr) n) 4 off = Inr (Free fr)"
  "decode_kind (encode_header (FreeObjects fo) n) 2 off = Inr (FreeObjects fo)"
  "decode_kind (encode_header (WriteEmbedded em) n) 8 off = Inr (WriteEmbedded em)"
  "sized_kind (ObjectRange rg) \<Longrightarrow> decode_kind (encode_header (ObjectRange rg) n) 9 off = Inr (ObjectRange rg)"
  "decode_kind (encode_header End n) 5 off = Inr End"
  "decode_kind (encode_header WriteByRef n) 6 off = Inr WriteByRef"
  "decode_kind (encode_header Redact n) 10 off = Inr Redact"
  by (simp_all add: header_simps decode_kind_def)

lemma version_word:
  assumes "unat (f :: u64) < 2 ^ 56" and "h = 1 \<or> h = (2 :: byte)"
  defines "v \<equiv> (word_of_nat (4 * unat f + unat h) :: u64)"
  shows "ucast (v AND 3) = h" and "drop_bit 2 v AND (push_bit 56 1 - 1) = f"
proof -
  have h: "unat h < 4" using assms(2) by auto
  have v: "unat v = 4 * unat f + unat h"
    unfolding v_def using assms(1) h by (intro unat_of_nat_u64) simp
  have "v AND 3 = take_bit 2 v" by (simp add: take_bit_eq_mask mask_eq_exp_minus_1)
  then have "unat (v AND 3) = unat h" using v h by (simp add: take_bit_eq_mod unat_mod)
  then have "v AND 3 = ucast h" using h by (simp add: word_unat_eq_iff unsigned_ucast_eq take_bit_eq_mod)
  then show "ucast (v AND 3) = h" using assms(2) by auto
  have "drop_bit 2 v = f"
    using v h by (simp add: word_unat_eq_iff drop_bit_eq_div unat_div)
  moreover have "push_bit 56 1 - 1 = (mask 56 :: u64)" by (simp add: mask_eq_exp_minus_1)
  moreover have "take_bit 56 f = f"
    using assms(1) by (simp add: word_unat_eq_iff take_bit_eq_mod unat_mod)
  ultimately show "drop_bit 2 v AND (push_bit 56 1 - 1) = f"
    by (simp add: take_bit_eq_mask)
qed


lemma slice_blit_tail:
  "a + length ys \<le> length xs \<Longrightarrow> slice (blit a ys xs) a (length xs) = ys @ drop (a + length ys) xs"
  by (simp add: slice_def blit_def)

lemma decode_name:
  assumes "\<forall>c \<in> set s. 0 < (of_char c :: nat) \<and> (of_char c :: nat) < 128" and "list_all (\<lambda>b. b = 0) zs"
  shows "from_utf8_lossy (takeWhile (\<lambda>b. b \<noteq> 0) (bytes_of_chars s @ zs)) = s"
proof -
  have b: "b \<noteq> 0 \<and> b < 128" if "b \<in> set (bytes_of_chars s)" for b
  proof -
    from that assms(1) obtain c where c: "b = of_nat (of_char c)" "0 < (of_char c :: nat)" "(of_char c :: nat) < 128"
      by (auto simp: bytes_of_chars_def)
    then have "unat b = of_char c" by (simp add: unsigned_of_nat take_bit_eq_mod)
    with c show ?thesis by (auto simp: word_less_nat_alt)
  qed
  have "takeWhile (\<lambda>b. b \<noteq> 0) zs = []" using assms(2) by (cases zs) auto
  then have "takeWhile (\<lambda>b. b \<noteq> 0) (bytes_of_chars s @ zs) = bytes_of_chars s"
    using b by (simp add: takeWhile_append)
  moreover have "lossy_bytes (bytes_of_chars s) = bytes_of_chars s"
    using b by (intro lossy_bytes_ascii) auto
  ultimately show ?thesis by (simp add: from_utf8_lossy_def chars_of_bytes_of_chars)
qed

lemma decode_encode_Begin:
  assumes "sized_kind (Begin bg)"
  shows "decode_kind (encode_header (Begin bg) n) 0 off = Inr (Begin bg)"
proof -
  let ?h = "encode_header (Begin bg) n"
  let ?v = "word_of_nat (4 * unat (bg_features bg) + unat (bg_header_type bg)) :: u64"
  have ht: "bg_header_type bg = 1 \<or> bg_header_type bg = 2" and f: "unat (bg_features bg) < 2 ^ 56"
    and len: "length (bg_dataset_name bg) \<le> 256"
    and ascii: "\<forall>c \<in> set (bg_dataset_name bg). 0 < (of_char c :: nat) \<and> (of_char c :: nat) < 128"
    using assms by (auto simp: DMU_SUBSTREAM_def DMU_COMPOUNDSTREAM_def)
  have small: "4 * unat (bg_features bg) + unat (bg_header_type bg) < 18446744073709551616"
    using f ht by auto
  have "le_u64 ?h 16 = ?v"
    using len small by (simp add: header_simps from_le_bytes_8 del: of_nat_add of_nat_mult)
  then have v: "ucast (le_u64 ?h 16 AND 3) = bg_header_type bg"
      "drop_bit 2 (le_u64 ?h 16) AND (push_bit 56 1 - 1) = bg_features bg"
    using version_word [OF f ht] by metis+
  have m: "le_u64 ?h 8 = DMU_BACKUP_MAGIC" using len by (simp add: header_simps)
  have flds: "le_u64 ?h 40 = bg_to_guid bg" "le_u64 ?h 48 = bg_from_guid bg"
    "le_u64 ?h 24 = bg_creation_time bg" "le_u32 ?h 32 = bg_objset_type bg" "le_u32 ?h 36 = bg_flags bg"
    using len by (simp_all add: header_simps)
  have "slice ?h 56 312 = bytes_of_chars (bg_dataset_name bg)
      @ replicate (256 - length (bg_dataset_name bg)) 0"
    using len by (simp add: encode_header_def place_def RECORD_SIZE_def slice_def blit_def)
  then have "from_utf8_lossy (takeWhile (\<lambda>b. b \<noteq> 0) (slice ?h 56 312)) = bg_dataset_name bg"
    using decode_name [OF ascii] by (simp add: list_all_iff)
  with v m flds ht show ?thesis
    by (simp add: decode_kind_def decode_begin_def Let_def DMU_SUBSTREAM_def DMU_COMPOUNDSTREAM_def)
qed

lemma decode_encode_header:
  "sized_kind k \<Longrightarrow> decode_kind (encode_header k n) (record_type_of k) off = Inr k"
  by (cases k) (simp_all only: record_type_of.simps decode_encode_Begin decode_encode_Object
      decode_encode_Write decode_encode_Spill decode_encode_rest)


section \<open>Every well-formed stream is accepted\<close>

definition wire_ok :: "record_kind \<Rightarrow> byte list \<Rightarrow> bool" where
  "wire_ok k pay \<longleftrightarrow> sized_kind k \<and> length pay mod 4 = 0 \<and> length pay \<le> unat MAX_PAYLOAD_SIZE
     \<and> payload_size (encode_header k (length pay)) (record_type_of k) 0 = Inr (of_nat (length pay))"

definition encode_record :: "record_kind \<times> byte list \<Rightarrow> byte list" where
  "encode_record kp = (case kp of (k, pay) \<Rightarrow> encode_header k (length pay) @ pay)"

definition encode_stream :: "(record_kind \<times> byte list) list \<Rightarrow> byte list" where
  "encode_stream kps = concat (map encode_record kps)"

lemma slice_replicate: "slice (replicate n x) a b = replicate (min (b - a) (n - a)) x"
  by (simp add: slice_def min_def)

lemma from_le_zero [simp]: "from_le_bytes (replicate n 0) = 0"
proof -
  have "le_nat (replicate n 0) = 0" by (induction n) auto
  then show ?thesis by (simp add: from_le_bytes_def)
qed

lemma zero_checksum_field:
  "sized_kind k \<Longrightarrow> record_type_of k \<noteq> DRR_BEGIN \<Longrightarrow> read_checksum (encode_header k n) CHECKSUM_OFFSET = (0, 0, 0, 0)"
  by (cases k) (simp_all add: read_checksum_def CHECKSUM_OFFSET_def header_simps slice_replicate)

lemma zero_end_fields: "read_checksum (encode_header End n) 8 = (0, 0, 0, 0)"
  by (simp add: read_checksum_def header_simps slice_replicate)

lemma conclusion_zero_filled: "b \<in> set (drop 4 (encode_header End n)) \<Longrightarrow> b = 0"
  by (auto simp: encode_header_def place_def RECORD_SIZE_def blit_def)

lemma payload_size_offset: "payload_size h t 0 = Inr n \<Longrightarrow> payload_size h t off = Inr n"
  by (auto simp: payload_size_def round_up_8_def result_simps Let_def split: if_splits)

lemma validate_encoded:
  assumes "sized_kind k" and "length pay mod 4 = 0"
  shows "\<not> isl (validate_checksum ck (encode_header k n) pay (record_type_of k) off)"
proof -
  note len = length_encode_header [OF assms(1), of n]
  show ?thesis
  proof (cases k rule: record_kind_cases3)
    case (Begin b)
    then show ?thesis using len assms(2)
      by (simp add: validate_checksum_def fletcher4_update_def RECORD_SIZE_def)
  next
    case End
    then show ?thesis using len assms zero_checksum_field [of End n]
      by (simp add: validate_checksum_def zero_end_fields fletcher4_update_def RECORD_SIZE_def CHECKSUM_OFFSET_def)
  next
    case Body
    then have "record_type_of k \<noteq> DRR_BEGIN" "record_type_of k \<noteq> DRR_END"
      by (cases k; simp)+
    then show ?thesis using len assms zero_checksum_field [OF assms(1)]
      by (simp add: validate_checksum_body fletcher4_update_def RECORD_SIZE_def CHECKSUM_OFFSET_def)
  qed
qed

lemma update_state_encoded:
  assumes "sized_kind k" and "\<And>b. k = Begin b \<Longrightarrow> bg_header_type b = DMU_COMPOUNDSTREAM \<Longrightarrow> \<not> compound_open r"
  shows "\<exists>r'. update_state r (encode_header k n) k = Inr r'"
proof (cases k)
  case (Begin b)
  then have "le_u64 (encode_header k n) 8 = DMU_BACKUP_MAGIC"
    using assms(1) by (simp add: header_simps)
  with Begin assms(2) show ?thesis by (simp add: update_state_def update_begin_def)
qed (simp_all add: update_state_def)

lemma next_record_encoded:
  assumes bytes: "src_bytes (inner r) = encode_record (k, pay) @ rest" and ok: "wire_ok k pay"
    and seq: "check_sequence r (record_type_of k) = Inr ()"
    and nested: "\<And>b. k = Begin b \<Longrightarrow> bg_header_type b = DMU_COMPOUNDSTREAM \<Longrightarrow> \<not> compound_open r"
    and small: "unat (offset r) + RECORD_SIZE + length pay < 2 ^ 64"
  shows "\<exists>r'. next_record r = Inr (Some \<lparr>stream_offset = offset r, kind = k, payload = pay\<rparr>, r')
           \<and> src_bytes (inner r') = rest \<and> src_end (inner r') = src_end (inner r)"
proof -
  let ?h = "encode_header k (length pay)"
  let ?s1 = "(inner r)\<lparr>src_bytes := pay @ rest\<rparr>" and ?s2 = "(inner r)\<lparr>src_bytes := rest\<rparr>"
  from ok have sized: "sized_kind k" and al: "length pay mod 4 = 0" and max: "length pay \<le> unat MAX_PAYLOAD_SIZE"
    and ps: "payload_size ?h (record_type_of k) 0 = Inr (of_nat (length pay))"
    by (simp_all add: wire_ok_def)
  note len = length_encode_header [OF sized, of "length pay"]
  note ty = record_type_encode [OF sized, of "length pay"]
  have "length pay < 18446744073709551616" using max by (simp add: MAX_PAYLOAD_SIZE_def)
  then have un: "unat (of_nat (length pay) :: u64) = length pay" by (rule unat_of_nat_u64)
  have "?h \<noteq> []" using len by (auto simp: RECORD_SIZE_def)
  then have h: "read_header r = Inr (Some (?h, ?s1))"
    using bytes len by (simp add: read_header_def encode_record_def read_exact_def)
  have p: "read_payload r ?h ?s1 = Inr (pay, ?s2)"
    using payload_size_offset [OF ps] ty un max
    by (simp add: read_payload_def read_exact_def word_le_nat_alt word_less_nat_alt)
  have "is_conclusion r (record_type_of k) \<Longrightarrow> k = End"
    by (cases k) (simp_all add: is_conclusion_def)
  then have "\<not> isl (check_record r ?h pay (record_type_of k))"
    using validate_encoded [OF sized al] conclusion_zero_filled [of _ "length pay"]
    by (auto simp: check_record_def)
  then obtain ck where ck: "check_record r ?h pay (record_type_of k) = Inr ck"
    by (metis isl_def sum.exhaust)
  obtain r1 where r1: "update_state (r\<lparr>inner := ?s2, checksum := ck\<rparr>) ?h k = Inr r1"
    using update_state_encoded [OF sized, of "r\<lparr>inner := ?s2, checksum := ck\<rparr>"] nested by auto
  have "unat (of_nat (RECORD_SIZE + length pay) :: u64) = RECORD_SIZE + length pay"
    using small by (intro unat_of_nat_u64) simp
  then obtain off where off: "checked_add (offset r) (of_nat (RECORD_SIZE + length pay)) = Some off"
    using small by (auto simp: checked_add_def simp del: of_nat_add)
  have "next_record r = Inr (Some \<lparr>stream_offset = offset r, kind = k, payload = pay\<rparr>, r1\<lparr>offset := off\<rparr>)"
    using h ty seq p ck r1 off decode_encode_header [OF sized]
    by (simp add: next_record_def Let_def del: of_nat_add)
  then show ?thesis using update_state_frame [OF r1] by auto
qed


text \<open>The state machine of the reader as an acceptor of record kinds.\<close>

fun accepts :: "bool \<Rightarrow> bool \<Rightarrow> record_kind list \<Rightarrow> bool" where
  "accepts seg cmp [] \<longleftrightarrow> \<not> seg \<and> \<not> cmp"
| "accepts seg cmp (k # ks) \<longleftrightarrow>
     (case k of
        Begin b \<Rightarrow> \<not> seg \<and>
          (if bg_header_type b = DMU_COMPOUNDSTREAM then \<not> cmp \<and> accepts True True ks
           else bg_header_type b = DMU_SUBSTREAM \<and> accepts True cmp ks)
      | End \<Rightarrow> if seg then accepts False cmp ks else cmp \<and> accepts False False ks
      | _ \<Rightarrow> seg \<and> accepts seg cmp ks)"

lemma accepts_body: "list_all body_kind ks \<Longrightarrow> accepts True cmp (ks @ End # ys) = accepts False cmp ys"
  by (induction ks) (auto simp: body_kind_def split: record_kind.splits)

lemma accepts_substream: "substream xs \<Longrightarrow> accepts False cmp (xs @ ys) = accepts False cmp ys"
  by (erule substream.cases) (simp add: accepts_body DMU_SUBSTREAM_def DMU_COMPOUNDSTREAM_def)

lemma accepts_substreams: "substreams xs \<Longrightarrow> accepts False cmp (xs @ ys) = accepts False cmp ys"
  by (induction rule: substreams.induct) (simp_all add: accepts_substream)

lemma send_stream_accepts: "send_stream ks \<Longrightarrow> accepts False False ks"
  by (induction rule: send_stream.induct)
    (simp_all add: accepts_substream accepts_body accepts_substreams)

lemma accepts_step:
  assumes "accepts (segment_open r) (compound_open r) (k # ks)" and "transition r k r'"
  shows "accepts (segment_open r') (compound_open r') ks"
proof (cases k rule: record_kind_cases3)
  case (Begin b)
  with assms show ?thesis by (auto simp: transition_def split: if_splits)
next
  case End
  with assms show ?thesis by (auto simp: transition_def split: if_splits)
next
  case Body
  with assms show ?thesis by (auto simp: transition_def body_kind_case)
qed

lemma accepts_check_sequence:
  assumes "accepts (segment_open r) (compound_open r) (k # ks)"
    and inv: "segment_open r \<or> compound_open r \<Longrightarrow> started r"
  shows "check_sequence r (record_type_of k) = Inr ()"
    and "k = Begin b \<Longrightarrow> bg_header_type b = DMU_COMPOUNDSTREAM \<Longrightarrow> \<not> compound_open r"
proof -
  have ty: "record_type_of k < DRR_NUMTYPES" "record_type_of k = DRR_BEGIN \<longleftrightarrow> (\<exists>b. k = Begin b)"
      "record_type_of k = DRR_END \<longleftrightarrow> k = End"
    by (cases k; simp)+
  show "check_sequence r (record_type_of k) = Inr ()"
    using assms ty by (cases k rule: record_kind_cases3)
      (auto simp: check_sequence_Inr is_conclusion_def body_kind_case split: if_splits)
  show "k = Begin b \<Longrightarrow> bg_header_type b = DMU_COMPOUNDSTREAM \<Longrightarrow> \<not> compound_open r"
    using assms by simp
qed

lemma transition_started: "transition r k r' \<Longrightarrow> started r'"
  by (auto simp: transition_def split: record_kind.splits)

lemma reads_encoded:
  assumes "accepts (segment_open r) (compound_open r) (map fst kps)"
    and "segment_open r \<or> compound_open r \<Longrightarrow> started r"
    and "\<forall>(k, pay) \<in> set kps. wire_ok k pay"
    and "src_bytes (inner r) = encode_stream kps" and "src_end (inner r) = None"
    and "unat (offset r) + length (encode_stream kps) < 2 ^ 64"
  shows "\<exists>recs r'. reads r recs r' \<and> map (\<lambda>rec. (kind rec, payload rec)) recs = kps"
  using assms
proof (induction kps arbitrary: r)
  case Nil
  then have "next_record r = Inr (None, r)"
    by (simp add: next_record_def read_header_def encode_stream_def)
  then have "reads r [] r" by (simp add: reads_def)
  then show ?case by fastforce
next
  case (Cons kp kps)
  obtain k pay where kp: "kp = (k, pay)" by (cases kp)
  have len: "length (encode_record (k, pay)) = RECORD_SIZE + length pay"
    using Cons.prems(3) kp length_encode_header [of k] by (simp add: encode_record_def wire_ok_def)
  have acc: "accepts (segment_open r) (compound_open r) (k # map fst kps)"
    using Cons.prems(1) kp by simp
  obtain r1 where n: "next_record r = Inr (Some \<lparr>stream_offset = offset r, kind = k, payload = pay\<rparr>, r1)"
    and src: "src_bytes (inner r1) = encode_stream kps" "src_end (inner r1) = None"
    using next_record_encoded [of r k pay "encode_stream kps"] Cons.prems kp len
      accepts_check_sequence [OF acc] by (auto simp: encode_stream_def)
  note tr = next_record_transition [OF n, simplified]
  have off: "unat (offset r1) = unat (offset r) + RECORD_SIZE + length pay"
    using n by (rule next_record_Some) simp
  have "\<exists>recs r'. reads r1 recs r' \<and> map (\<lambda>rec. (kind rec, payload rec)) recs = kps"
    using accepts_step [OF acc tr] transition_started [OF tr] Cons.prems src off len kp
    by (intro Cons.IH) (auto simp: encode_stream_def)
  then obtain recs r' where "reads r1 recs r'" "map (\<lambda>rec. (kind rec, payload rec)) recs = kps" by blast
  then show ?case using n kp
    by (intro exI [of _ "\<lparr>stream_offset = offset r, kind = k, payload = pay\<rparr> # recs"] exI [of _ r'])
      (auto simp: reads_Cons_iff)
qed

text \<open>Completeness: the encoding of a stream in the grammar is read back as it was written.\<close>

lemma reads_complete:
  assumes "send_stream (map fst kps)" and "\<forall>(k, pay) \<in> set kps. wire_ok k pay"
    and "length (encode_stream kps) < 2 ^ 64"
  shows "\<exists>recs r'. reads (new_reader \<lparr>src_bytes = encode_stream kps, src_end = None\<rparr>) recs r'
           \<and> map (\<lambda>rec. (kind rec, payload rec)) recs = kps"
  using assms send_stream_accepts [OF assms(1)]
  by (intro reads_encoded) (auto simp: new_reader_def)

section \<open>Properties of the stream reader\<close>

lemma steps_saw_end:
  "steps r recs r' \<Longrightarrow> (started r \<longrightarrow> segment_open r \<or> saw_end r) \<Longrightarrow>
   (started r' \<longrightarrow> segment_open r' \<or> saw_end r')"
proof (induction rule: steps.induct)
  case (steps_Cons r rec r1 recs r')
  then show ?case using next_record_transition [OF steps_Cons.hyps(1)]
    by (auto simp: transition_def split: record_kind.splits if_splits)
qed simp

lemma reads_new_reader:
  assumes "reads (new_reader s) recs r'"
  shows "send_stream (map kind recs)" and "src_bytes (inner r') = []"
    and "length (src_bytes s) = sum_list (map (\<lambda>rec. RECORD_SIZE + length (payload rec)) recs)"
    and "saw_end r' \<longleftrightarrow> recs \<noteq> []"
proof -
  from assms have st: "steps (new_reader s) recs r'" by (simp add: reads_def)
  have idle: "\<not> segment_open (new_reader s)" "\<not> compound_open (new_reader s)"
    by (simp_all add: new_reader_def)
  note closed = steps_idle_closed [OF assms idle]
  have "rest_of_stream False False (map kind recs)"
    using steps_rest [OF st] closed idle by simp
  then show "send_stream (map kind recs)" by (auto simp: rest_of_stream_def)
  show nil: "src_bytes (inner r') = []"
    using assms next_record_None [of r' r'] read_header_None [of r'] by (auto simp: reads_def)
  show "length (src_bytes s) = sum_list (map (\<lambda>rec. RECORD_SIZE + length (payload rec)) recs)"
    using steps_offset [OF st] nil by (simp add: new_reader_def)
  show "saw_end r' \<longleftrightarrow> recs \<noteq> []"
  proof (cases recs)
    case Nil
    then show ?thesis using st by (auto simp: new_reader_def)
  next
    case (Cons rec recs')
    then have "started r'" using steps_started [OF st] by simp
    then show ?thesis using steps_saw_end [OF st] closed Cons by (simp add: new_reader_def)
  qed
qed

text \<open>A stream to witness the properties with: one substream that frees a range of object 7.\<close>

definition demo_begin :: begin_record where
  "demo_begin = \<lparr>bg_header_type = DMU_SUBSTREAM, bg_to_guid = 17, bg_from_guid = 0, bg_creation_time = 5,
     bg_objset_type = 2, bg_flags = 0, bg_features = 4, bg_dataset_name = ''tank@a''\<rparr>"

definition demo_records :: "(record_kind \<times> byte list) list" where
  "demo_records = [(Begin demo_begin, []), (Free \<lparr>fr_object = 7, fr_offset = 0, fr_length = 512\<rparr>, []), (End, [])]"

lemma demo_grammar: "send_stream (map fst demo_records)"
proof -
  have "substream (Begin demo_begin # [Free \<lparr>fr_object = 7, fr_offset = 0, fr_length = 512\<rparr>] @ [End])"
    by (rule substream.intros) (simp_all add: demo_begin_def body_kind_def)
  from send_plain [OF this send_Nil] show ?thesis by (simp add: demo_records_def)
qed

lemma demo_wire: "\<forall>(k, pay) \<in> set demo_records. wire_ok k pay"
  by (simp add: demo_records_def demo_begin_def wire_ok_def payload_size_def DMU_SUBSTREAM_def
      header_simps slice_replicate)

lemma demo_length: "length (encode_stream demo_records) = 936"
proof -
  have "length (encode_header k n) = 312" if "k \<in> set (map fst demo_records)" for k n
    using that demo_wire length_encode_header [of k n] by (auto simp: wire_ok_def RECORD_SIZE_def)
  then show ?thesis by (simp add: encode_stream_def encode_record_def demo_records_def)
qed

definition collect_records :: "replay_record \<Rightarrow> (record_kind \<times> byte list) list \<Rightarrow> (record_kind \<times> byte list) list result" where
  "collect_records rec acc = Inr (acc @ [(kind rec, payload rec)])"

lemma try_fold_collect:
  "try_fold collect_records acc recs = Inr (acc @ map (\<lambda>rec. (kind rec, payload rec)) recs)"
  by (induction recs arbitrary: acc) (simp_all add: collect_records_def)

text \<open>C11: the stream reader accepts every well-formed stream. The encoding of any list of records
  that is in the grammar of (concatenated, compound) send streams, with correctly sized headers and
  payloads, is read by the consumers' loop to the end, and the loop sees exactly those records with
  exactly those payloads, in order.\<close>

theorem well_formed_stream_is_read:
  assumes "send_stream (map fst kps)" and "\<forall>(k, pay) \<in> set kps. wire_ok k pay"
    and "length (encode_stream kps) < 2 ^ 64"
  shows "\<exists>r'. stream_loop collect_records (new_reader \<lparr>src_bytes = encode_stream kps, src_end = None\<rparr>) []
            = Inr (kps, r')"
proof -
  from reads_complete [OF assms] obtain recs r' where
      "reads (new_reader \<lparr>src_bytes = encode_stream kps, src_end = None\<rparr>) recs r'"
      and "map (\<lambda>rec. (kind rec, payload rec)) recs = kps" by blast
  then have "stream_loop collect_records (new_reader \<lparr>src_bytes = encode_stream kps, src_end = None\<rparr>) [] = Inr (kps, r')"
    using try_fold_collect [of "[]" recs] by (auto simp: stream_loop_reads)
  then show ?thesis by blast
qed

theorem well_formed_stream_is_read_witness:
  "\<exists>r'. stream_loop collect_records (new_reader \<lparr>src_bytes = encode_stream demo_records, src_end = None\<rparr>) []
      = Inr (demo_records, r')"
  by (rule well_formed_stream_is_read [OF demo_grammar demo_wire]) (simp add: demo_length)

text \<open>C10: whatever the reader accepts is a well-formed stream. If a consumer's loop reaches the end
  of a stream, it has folded its body over records whose kinds form a sequence of complete
  BEGIN/END substreams and compound streams, the headers and payloads of those records are all the
  bytes of the file, each payload is the byte range at its record's offset plus 312 and is at most
  256 MiB, and \<open>saw_end\<close> holds exactly when there was a record.\<close>

theorem accepted_stream_is_well_formed:
  assumes "stream_loop f (new_reader s) st = Inr (st', r')"
  shows "\<exists>recs. try_fold f st recs = Inr st' \<and> send_stream (map kind recs)
     \<and> length (src_bytes s) = sum_list (map (\<lambda>rec. RECORD_SIZE + length (payload rec)) recs)
     \<and> (\<forall>rec \<in> set recs. length (payload rec) \<le> unat MAX_PAYLOAD_SIZE
          \<and> get_range (src_bytes s) (unat (stream_offset rec) + RECORD_SIZE)
              (unat (stream_offset rec) + RECORD_SIZE + length (payload rec)) = Some (payload rec))
     \<and> (saw_end r' \<longleftrightarrow> recs \<noteq> [])"
proof -
  from assms obtain recs where r: "reads (new_reader s) recs r'" and "try_fold f st recs = Inr st'"
    by (auto simp: stream_loop_reads)
  then show ?thesis
    using reads_new_reader [OF r] reads_payload_position [OF r] steps_payload_bound [of _ recs]
    unfolding reads_def by blast
qed

theorem accepted_stream_is_well_formed_witness:
  "\<exists>st' r' recs. stream_loop collect_records
       (new_reader \<lparr>src_bytes = encode_stream demo_records, src_end = None\<rparr>) [] = Inr (st', r')
     \<and> try_fold collect_records [] recs = Inr st' \<and> send_stream (map kind recs) \<and> saw_end r'"
proof -
  have "length (encode_stream demo_records) < 2 ^ 64" by (simp add: demo_length)
  from reads_complete [OF demo_grammar demo_wire this] obtain recs r' where
      "reads (new_reader \<lparr>src_bytes = encode_stream demo_records, src_end = None\<rparr>) recs r'" by blast
  then have l: "stream_loop collect_records (new_reader \<lparr>src_bytes = encode_stream demo_records, src_end = None\<rparr>) []
      = Inr (map (\<lambda>rec. (kind rec, payload rec)) recs, r')"
    using try_fold_collect [of "[]" recs] by (auto simp: stream_loop_reads)
  from accepted_stream_is_well_formed [OF l] obtain recs' where
      t: "try_fold collect_records [] recs' = Inr (map (\<lambda>rec. (kind rec, payload rec)) recs)"
      and g: "send_stream (map kind recs')" and e: "saw_end r' \<longleftrightarrow> recs' \<noteq> []"
      and n: "length (src_bytes \<lparr>src_bytes = encode_stream demo_records, src_end = None\<rparr>)
        = sum_list (map (\<lambda>rec. RECORD_SIZE + length (payload rec)) recs')" by blast
  have "recs' \<noteq> []" using n demo_length by auto
  with l t g e show ?thesis by blast
qed

lemma header_change_detected:
  assumes "t \<noteq> DRR_BEGIN" and "t \<noteq> DRR_END"
    and "length header = RECORD_SIZE" and "length header' = RECORD_SIZE"
    and acc: "validate_checksum ck header pay t off = Inr ck1"
    and "read_checksum header CHECKSUM_OFFSET \<noteq> (0, 0, 0, 0)"
    and tail: "drop CHECKSUM_OFFSET header' = drop CHECKSUM_OFFSET header"
    and chg: "two_word_change (le_words (take CHECKSUM_OFFSET header)) (le_words (take CHECKSUM_OFFSET header'))"
  shows "validate_checksum ck header' pay' t off = Inl (Checksum (off + of_nat CHECKSUM_OFFSET))"
proof -
  have len: "length (take CHECKSUM_OFFSET header) mod 4 = 0" "length (take CHECKSUM_OFFSET header') mod 4 = 0"
    using assms(3,4) by (simp_all add: RECORD_SIZE_def CHECKSUM_OFFSET_def)
  have "read_checksum header CHECKSUM_OFFSET = foldl fletcher4_word ck (le_words (take CHECKSUM_OFFSET header))"
    using acc len(1) assms(1,2,6) by (simp add: validate_checksum_body fletcher4_update_def split: if_splits)
  then have "read_checksum header' CHECKSUM_OFFSET \<noteq> foldl fletcher4_word ck (le_words (take CHECKSUM_OFFSET header'))"
    using fletcher4_detects [OF chg, of ck] read_checksum_drop [OF tail] by simp
  then show ?thesis
    using len(2) assms(1,2,6) read_checksum_drop [OF tail]
    by (simp add: validate_checksum_body fletcher4_update_def)
qed

lemma two_word_change_append: "two_word_change ws ws' \<Longrightarrow> two_word_change (ws @ vs) (ws' @ vs)"
  unfolding two_word_change_def by (elim exE conjE) (intro exI conjI, auto)

text \<open>Where a record that ends a part of the chain stores its checksum: an END record the one of
  everything before it, the others the one of their own first 280 bytes too.\<close>

definition stored_at :: "u32 \<Rightarrow> nat" where
  "stored_at t = (if t = DRR_END then 8 else CHECKSUM_OFFSET)"

lemma payload_change_detected:
  assumes "t \<noteq> DRR_BEGIN" and "t \<noteq> DRR_END" and "length header = RECORD_SIZE" and "length following = RECORD_SIZE"
    and acc: "validate_checksum ck header pay t off = Inr ck1"
    and nx: "t2 \<noteq> DRR_BEGIN" "read_checksum following (stored_at t2) \<noteq> (0, 0, 0, 0)" "validate_checksum ck1 following pay2 t2 off2 = Inr ck2"
    and chg: "two_word_change (le_words pay) (le_words pay')" and "length pay' mod 4 = 0"
  shows "\<exists>ck1'. validate_checksum ck header pay' t off = Inr ck1' \<and>
    validate_checksum ck1' following pay2 t2 off2 = Inl (Checksum (off2 + of_nat (stored_at t2)))"
proof -
  have len: "length (take CHECKSUM_OFFSET header) mod 4 = 0" "length (drop CHECKSUM_OFFSET header) mod 4 = 0"
    "length (take CHECKSUM_OFFSET following) mod 4 = 0"
    using assms(3,4) by (simp_all add: RECORD_SIZE_def CHECKSUM_OFFSET_def)
  define c where "c = foldl fletcher4_word (foldl fletcher4_word ck (le_words (take CHECKSUM_OFFSET header))) (le_words (drop CHECKSUM_OFFSET header))"
  have ck1: "ck1 = foldl fletcher4_word c (le_words pay)"
    and ok: "\<not> (read_checksum header CHECKSUM_OFFSET \<noteq> (0, 0, 0, 0) \<and>
      read_checksum header CHECKSUM_OFFSET \<noteq> foldl fletcher4_word ck (le_words (take CHECKSUM_OFFSET header)))"
    using acc len(1,2) assms(1,2) by (auto simp: validate_checksum_body fletcher4_update_def c_def split: if_splits)
  define ck1' where "ck1' = foldl fletcher4_word c (le_words pay')"
  have acc': "validate_checksum ck header pay' t off = Inr ck1'"
    using len(1,2) assms(1,2,10) ok by (auto simp: validate_checksum_body fletcher4_update_def c_def ck1'_def)
  have ne: "foldl fletcher4_word ck1 ws \<noteq> foldl fletcher4_word ck1' ws" for ws
    using fletcher4_detects [OF two_word_change_append [OF chg], of c ws] by (simp add: ck1 ck1'_def)
  show ?thesis
  proof (cases "t2 = DRR_END")
    case True
    then have "read_checksum following 8 = ck1" using nx
      by (auto simp: validate_checksum_def stored_at_def split: if_splits)
    then show ?thesis using acc' ne [of "[]"] nx(2) True by (auto simp: validate_checksum_def stored_at_def)
  next
    case False
    then have "read_checksum following CHECKSUM_OFFSET = foldl fletcher4_word ck1 (le_words (take CHECKSUM_OFFSET following))"
      using nx len(3) by (auto simp: validate_checksum_body fletcher4_update_def stored_at_def split: if_splits)
    then have "read_checksum following CHECKSUM_OFFSET \<noteq> foldl fletcher4_word ck1' (le_words (take CHECKSUM_OFFSET following))" using ne by simp
    then show ?thesis using acc' nx(1,2) False len(3) by (auto simp: validate_checksum_body fletcher4_update_def stored_at_def)
  qed
qed

text \<open>C12: small corruptions of a record are rejected. Take a record other than BEGIN and END that is
  accepted. If it stores a checksum (the code takes a stored zero as none), every header that differs
  from its header in one or two aligned 32-bit words of the first 280 bytes, with the same stored
  checksum, is rejected with a checksum error at offset 280. If the record that follows is not a
  BEGIN, is accepted and stores a checksum, every payload that differs in one or two aligned words
  leaves the record itself accepted, but the record that follows is rejected, with a checksum error
  at its stored checksum (offset 8 of an END record, 280 of the others).\<close>

theorem corrupted_header_is_rejected:
  assumes "t \<noteq> DRR_BEGIN" and "t \<noteq> DRR_END" and "length header = RECORD_SIZE"
    and "validate_checksum ck header pay t off = Inr ck1"
  shows "(\<forall>header' pay'. read_checksum header CHECKSUM_OFFSET \<noteq> (0, 0, 0, 0) \<and> length header' = RECORD_SIZE \<and>
      drop CHECKSUM_OFFSET header' = drop CHECKSUM_OFFSET header \<and>
      two_word_change (le_words (take CHECKSUM_OFFSET header)) (le_words (take CHECKSUM_OFFSET header')) \<longrightarrow>
      validate_checksum ck header' pay' t off = Inl (Checksum (off + of_nat CHECKSUM_OFFSET))) \<and>
    (\<forall>following t2 pay2 off2 ck2 pay'. length following = RECORD_SIZE \<and> t2 \<noteq> DRR_BEGIN \<and>
      read_checksum following (stored_at t2) \<noteq> (0, 0, 0, 0) \<and> validate_checksum ck1 following pay2 t2 off2 = Inr ck2 \<and>
      two_word_change (le_words pay) (le_words pay') \<and> length pay' mod 4 = 0 \<longrightarrow>
      (\<exists>ck1'. validate_checksum ck header pay' t off = Inr ck1' \<and>
        validate_checksum ck1' following pay2 t2 off2 = Inl (Checksum (off2 + of_nat (stored_at t2)))))"
  by (intro conjI allI impI; elim conjE)
    (rule header_change_detected [OF assms(1-3) _ assms(4)] payload_change_detected [OF assms(1-3) _ assms(4)], assumption+)+

definition demo_sum :: fletcher4 where
  "demo_sum = foldl fletcher4_word (1, 0, 0, 0) (replicate 70 0)"

lemma le_words_zero: "le_words (replicate (4 * n) 0) = replicate n 0"
proof (induction n)
  case (Suc n)
  have "replicate (4 * Suc n) (0::byte) = 0 # 0 # 0 # 0 # replicate (4 * n) 0"
    by (simp add: numeral_Bit0)
  then show ?case using Suc by (simp add: from_le_bytes_def)
qed simp

lemma demo_sum_eq: "demo_sum = (1, 70, 2485, 59640)"
  by (simp add: demo_sum_def numeral_nat fletcher4_word_def)

definition demo_good :: "byte list" where
  "demo_good = replicate 280 0 @ le8 1 @ le8 70 @ le8 2485 @ le8 59640"

definition demo_bad :: "byte list" where
  "demo_bad = [0, 0, 0, 0, 0, 0, 1, 0] @ replicate 272 0 @ le8 1 @ le8 70 @ le8 2485 @ le8 59640"

lemma demo_words:
  "le_words (take CHECKSUM_OFFSET demo_good) = replicate 70 0"
  "le_words (take CHECKSUM_OFFSET demo_bad) = [0, 65536] @ replicate 68 0"
  using le_words_zero [of 70] le_words_zero [of 68]
  by (simp_all add: CHECKSUM_OFFSET_def demo_good_def demo_bad_def from_le_bytes_def)

lemma demo_stored: "read_checksum demo_good CHECKSUM_OFFSET = (1, 70, 2485, 59640)"
proof -
  have "from_le_bytes (le_bytes 8 n) = (word_of_nat n :: u64)" if "n < 1000000" for n
    using that by (intro from_le_bytes_8) simp
  then show ?thesis
    by (simp add: read_checksum_def CHECKSUM_OFFSET_def demo_good_def le_u64_def slice_def)
qed

text \<open>An END record that stores the checksum of what precedes it.\<close>

definition demo_conclusion :: "fletcher4 \<Rightarrow> byte list" where
  "demo_conclusion ck = (case ck of (a, b, c, d) \<Rightarrow> replicate 8 0 @ le8 a @ le8 b @ le8 c @ le8 d @ replicate 272 0)"

lemma demo_conclusion_fields:
  "length (demo_conclusion ck) = RECORD_SIZE" "read_checksum (demo_conclusion ck) 8 = ck" "read_checksum (demo_conclusion ck) CHECKSUM_OFFSET = (0, 0, 0, 0)"
  by (cases ck, simp add: demo_conclusion_def RECORD_SIZE_def read_checksum_def le_u64_def slice_def CHECKSUM_OFFSET_def)+

lemma le_bytes_8: "le_bytes 8 v = [of_nat v, of_nat (v div 256), of_nat (v div 65536), of_nat (v div 16777216), of_nat (v div 4294967296),
    of_nat (v div 1099511627776), of_nat (v div 281474976710656), of_nat (v div 72057594037927936)]"
proof -
  have e: "(8 :: nat) = Suc (Suc (Suc (Suc (Suc (Suc (Suc (Suc 0)))))))" by simp
  show ?thesis unfolding e by (simp add: div_mult2_eq [symmetric])
qed

lemma replicate_8: "replicate 8 x = [x, x, x, x, x, x, x, x]"
proof -
  have e: "(8 :: nat) = Suc (Suc (Suc (Suc (Suc (Suc (Suc (Suc 0)))))))" by simp
  show ?thesis unfolding e by simp
qed

theorem corrupted_header_is_rejected_witness:
  "\<exists>ck1 ck1'. validate_checksum (1, 0, 0, 0) demo_good (replicate 8 0) DRR_WRITE 0 = Inr ck1 \<and>
     validate_checksum (1, 0, 0, 0) demo_bad (replicate 8 0) DRR_WRITE 0 = Inl (Checksum 280) \<and>
     \<not> isl (validate_checksum ck1 (demo_conclusion ck1) [] DRR_END 320) \<and>
     validate_checksum (1, 0, 0, 0) demo_good [0, 0, 0, 0, 1, 0, 0, 0] DRR_WRITE 0 = Inr ck1' \<and>
     validate_checksum ck1' (demo_conclusion ck1) [] DRR_END 320 = Inl (Checksum 328)"
proof -
  have len: "length demo_good = RECORD_SIZE" "length demo_bad = RECORD_SIZE"
    by (simp_all add: demo_good_def demo_bad_def RECORD_SIZE_def)
  have words: "le_words (drop CHECKSUM_OFFSET demo_good) = [1, 0, 70, 0, 2485, 0, 59640, 0]" "le_words (replicate 8 0) = [0, 0]"
    "le_words [0, 0, 0, 0, 1, 0, 0, 0] = [0, 1]"
    by (simp_all add: demo_good_def CHECKSUM_OFFSET_def from_le_bytes_def le_bytes_8 replicate_8)
  have t: "DRR_WRITE \<noteq> DRR_BEGIN" "DRR_WRITE \<noteq> DRR_END" "DRR_END \<noteq> DRR_BEGIN"
    by simp_all
  have "\<exists>b c d. validate_checksum (1, 0, 0, 0) demo_good (replicate 8 0) DRR_WRITE 0 = Inr (62197, b, c, d)"
    using len(1) demo_sum_eq demo_stored t
    by (simp add: validate_checksum_body fletcher4_update_def demo_sum_def demo_words(1) words)
      (simp add: RECORD_SIZE_def CHECKSUM_OFFSET_def fletcher4_word_def)
  then obtain ck1 where acc: "validate_checksum (1, 0, 0, 0) demo_good (replicate 8 0) DRR_WRITE 0 = Inr ck1" and nz: "ck1 \<noteq> (0, 0, 0, 0)"
    by auto
  have l: "length (take CHECKSUM_OFFSET (demo_conclusion ck1)) mod 4 = 0"
    using demo_conclusion_fields(1) [of ck1] by (simp add: RECORD_SIZE_def CHECKSUM_OFFSET_def)
  then have "\<exists>ck2. validate_checksum ck1 (demo_conclusion ck1) [] DRR_END 320 = Inr ck2"
    using t(3) by (simp add: validate_checksum_def fletcher4_update_def demo_conclusion_fields Let_def foldl_fletcher_split)
  then obtain ck2 where fin: "validate_checksum ck1 (demo_conclusion ck1) [] DRR_END 320 = Inr ck2" by blast
  have chg: "two_word_change (le_words (take CHECKSUM_OFFSET demo_good)) (le_words (take CHECKSUM_OFFSET demo_bad))"
    unfolding two_word_change_def demo_words
    by (rule exI [of _ "[]"], rule exI [of _ 0], rule exI [of _ 0], rule exI [of _ "[]"],
        rule exI [of _ 0], rule exI [of _ 65536], rule exI [of _ "replicate 68 0"])
      (use replicate_Suc [of 69 "0::u32"] replicate_Suc [of 68 "0::u32"] in simp)
  have chg2: "two_word_change (le_words (replicate 8 0)) (le_words [0, 0, 0, 0, 1, 0, 0, 0])"
    unfolding two_word_change_def words by (intro exI [of _ "[]"] exI conjI) auto
  note rejected = corrupted_header_is_rejected [OF t(1,2) len(1) acc]
  have "drop CHECKSUM_OFFSET demo_bad = drop CHECKSUM_OFFSET demo_good" by (simp add: CHECKSUM_OFFSET_def demo_good_def demo_bad_def)
  then have bad: "validate_checksum (1, 0, 0, 0) demo_bad (replicate 8 0) DRR_WRITE 0 = Inl (Checksum (0 + of_nat CHECKSUM_OFFSET))"
    using rejected [THEN conjunct1, rule_format, of demo_bad] len(2) chg by (simp add: demo_stored)
  have at: "stored_at DRR_END = 8" by (simp add: stored_at_def)
  have "\<exists>ck1'. validate_checksum (1, 0, 0, 0) demo_good [0, 0, 0, 0, 1, 0, 0, 0] DRR_WRITE 0 = Inr ck1' \<and>
      validate_checksum ck1' (demo_conclusion ck1) [] DRR_END 320 = Inl (Checksum (320 + of_nat (stored_at DRR_END)))"
    by (rule rejected [THEN conjunct2, rule_format]) (use fin chg2 nz t(3) demo_conclusion_fields in \<open>simp add: at\<close>)
  with acc bad fin show ?thesis by (simp add: CHECKSUM_OFFSET_def at)
qed

text \<open>Payload lengths are rounded up to the next multiple of eight. \<open>round_up_8\<close> returns the
  least multiple of eight that is at least its argument, and fails exactly when adding seven
  overflows 64 bits.\<close>

theorem round_up_8_spec:
  "round_up_8 v off =
     (if unat v + 7 < 2 ^ 64 then Inr (of_nat ((unat v + 7) div 8 * 8))
      else Inl (Invalid off ''payload length overflow''))"
proof (cases "unat v + 7 < 2 ^ 64")
  case True
  then have "checked_add v 7 = Some (v + 7)" by (simp add: checked_add_def)
  moreover have "unat ((v + 7) AND NOT 7) = (unat v + 7) div 8 * 8"
    using True unat_add_u64 [of v 7] unfolding unat_and_not_7 by simp
  from arg_cong [OF this, of "of_nat :: nat \<Rightarrow> u64"]
  have "(v + 7) AND NOT 7 = of_nat ((unat v + 7) div 8 * 8)" by simp
  ultimately show ?thesis using True by (simp add: round_up_8_def)
next
  case False
  then show ?thesis by (simp add: round_up_8_def checked_add_def)
qed

end
