(* ===== verification/BTree.thy ===== *)
theory BTree
  imports Prelude
begin

text \<open>
  \<open>BTreeMap\<close> and \<open>BTreeSet\<close> as key-sorted association lists: the order of iteration is the order
  of the list, and two maps with the same entries are equal. The interface the clients use is
  the locale \<open>ordered_map\<close>; its lemmas are proved once from the interface's laws and hold of the
  association lists by the interpretation \<open>bt\<close>.
\<close>

type_synonym ('k, 'v) btree = "('k \<times> 'v) list"

definition bt_wf :: "('k::linorder, 'v) btree \<Rightarrow> bool" where
  "bt_wf m \<longleftrightarrow> sorted_wrt (<) (map fst m)"

definition bt_get :: "('k, 'v) btree \<Rightarrow> 'k \<Rightarrow> 'v option" where
  "bt_get m k = map_of m k"

fun bt_insert :: "'k::linorder \<Rightarrow> 'v \<Rightarrow> ('k, 'v) btree \<Rightarrow> ('k, 'v) btree" where
  "bt_insert k v [] = [(k, v)]"
| "bt_insert k v ((k', v') # m) =
     (if k < k' then (k, v) # (k', v') # m
      else if k = k' then (k, v) # m
      else (k', v') # bt_insert k v m)"

definition bt_retain :: "('k \<Rightarrow> bool) \<Rightarrow> ('k, 'v) btree \<Rightarrow> ('k, 'v) btree" where
  "bt_retain P m = filter (\<lambda>(k, v). P k) m"

definition bt_remove :: "'k \<Rightarrow> ('k, 'v) btree \<Rightarrow> ('k, 'v) btree" where
  "bt_remove k m = bt_retain (\<lambda>k'. k' \<noteq> k) m"

text \<open>\<open>m.range(a..b)\<close> in key order.\<close>

definition bt_range :: "'k::linorder \<Rightarrow> 'k \<Rightarrow> ('k, 'v) btree \<Rightarrow> ('k \<times> 'v) list" where
  "bt_range a b m = filter (\<lambda>(k, v). a \<le> k \<and> k < b) m"

definition bt_keys :: "('k, 'v) btree \<Rightarrow> 'k list" where
  "bt_keys m = map fst m"

definition bt_values :: "('k, 'v) btree \<Rightarrow> 'v list" where
  "bt_values m = map snd m"

locale ordered_map =
  fixes invar :: "'m \<Rightarrow> bool"
    and lookup :: "'m \<Rightarrow> 'k::linorder \<Rightarrow> 'v option"
    and empty :: 'm
    and insert :: "'k \<Rightarrow> 'v \<Rightarrow> 'm \<Rightarrow> 'm"
    and retain :: "('k \<Rightarrow> bool) \<Rightarrow> 'm \<Rightarrow> 'm"
  assumes invar_empty: "invar empty"
    and lookup_empty: "lookup empty k = None"
    and invar_insert: "invar m \<Longrightarrow> invar (insert k v m)"
    and lookup_insert: "invar m \<Longrightarrow> lookup (insert k v m) k' = (if k' = k then Some v else lookup m k')"
    and invar_retain: "invar m \<Longrightarrow> invar (retain P m)"
    and lookup_retain: "invar m \<Longrightarrow> lookup (retain P m) k = (if P k then lookup m k else None)"
begin

definition keys :: "'m \<Rightarrow> 'k set" where
  "keys m = dom (lookup m)"

lemma keys_empty: "keys empty = {}"
  by (auto simp: keys_def lookup_empty)

lemma keys_insert: "invar m \<Longrightarrow> keys (insert k v m) = Set.insert k (keys m)"
  by (auto simp: keys_def lookup_insert split: if_splits)

lemma keys_retain: "invar m \<Longrightarrow> keys (retain P m) = {k \<in> keys m. P k}"
  by (auto simp: keys_def lookup_retain split: if_splits)

lemma keys_update: "invar m \<Longrightarrow> lookup m k = Some w \<Longrightarrow> keys (insert k v m) = keys m"
  by (auto simp: keys_insert) (auto simp: keys_def)

end

lemma bt_wf_Nil [simp]: "bt_wf []"
  by (simp add: bt_wf_def)

lemma bt_wf_Cons: "bt_wf ((k, v) # m) \<longleftrightarrow> (\<forall>k' \<in> fst ` set m. k < k') \<and> bt_wf m"
  by (auto simp: bt_wf_def)

lemma bt_get_simps [simp]:
  "bt_get [] k = None"
  "bt_get ((k', v) # m) k = (if k' = k then Some v else bt_get m k)"
  by (auto simp: bt_get_def)

lemma set_bt_insert_subset: "fst ` set (bt_insert k v m) \<subseteq> insert k (fst ` set m)"
  by (induction k v m rule: bt_insert.induct) auto

lemma bt_wf_insert: "bt_wf m \<Longrightarrow> bt_wf (bt_insert k v m)"
proof (induction k v m rule: bt_insert.induct)
  case (1 k v)
  show ?case by (simp add: bt_wf_Cons)
next
  case (2 k v k' v' m)
  then show ?case
    using set_bt_insert_subset [of k v m] by (fastforce simp: bt_wf_Cons)
qed

lemma bt_get_insert: "bt_get (bt_insert k v m) k' = (if k' = k then Some v else bt_get m k')"
  by (induction k v m rule: bt_insert.induct) auto

lemma bt_wf_retain: "bt_wf m \<Longrightarrow> bt_wf (bt_retain P m)"
  by (induction m) (auto simp: bt_retain_def bt_wf_Cons)

lemma bt_get_retain: "bt_get (bt_retain P m) k = (if P k then bt_get m k else None)"
  by (induction m) (auto simp: bt_retain_def)

interpretation bt: ordered_map bt_wf bt_get "[]" bt_insert bt_retain
  by unfold_locales (simp_all add: bt_wf_insert bt_get_insert bt_wf_retain bt_get_retain)

lemma bt_keys_set: "bt.keys m = set (bt_keys m)"
  unfolding bt.keys_def bt_get_def bt_keys_def by (simp add: dom_map_of_conv_image_fst)

lemma bt_get_None_iff: "bt_get m k = None \<longleftrightarrow> k \<notin> fst ` set m"
  by (simp add: bt_get_def map_of_eq_None_iff)

lemma bt_get_remove: "bt_get (bt_remove k m) k' = (if k' = k then None else bt_get m k')"
  by (auto simp: bt_remove_def bt_get_retain)

lemma bt_wf_remove: "bt_wf m \<Longrightarrow> bt_wf (bt_remove k m)"
  by (simp add: bt_remove_def bt_wf_retain)

lemma bt_get_Some_set: "bt_wf m \<Longrightarrow> bt_get m k = Some v \<longleftrightarrow> (k, v) \<in> set m"
proof (induction m)
  case Nil
  show ?case by simp
next
  case (Cons kv m)
  obtain k' v' where kv: "kv = (k', v')" by (cases kv)
  from Cons.prems kv have "k' \<notin> fst ` set m" and wf: "bt_wf m"
    by (auto simp: bt_wf_Cons)
  then show ?case using Cons.IH [OF wf] kv by (force simp: rev_image_eqI)
qed

lemma set_bt_range: "set (bt_range a b m) = {(k, v) \<in> set m. a \<le> k \<and> k < b}"
  by (auto simp: bt_range_def)

lemma bt_range_range: "bt_wf m \<Longrightarrow> bt_wf (bt_range a b m)"
  by (induction m) (auto simp: bt_range_def bt_wf_Cons)

lemma distinct_bt_keys: "bt_wf m \<Longrightarrow> distinct (bt_keys m)"
  by (induction m) (fastforce simp: bt_keys_def bt_wf_Cons)+

text \<open>Entries determine a sorted map: lookup is extensional.\<close>

lemma bt_eqI: "bt_wf m \<Longrightarrow> bt_wf n \<Longrightarrow> (\<And>k. bt_get m k = bt_get n k) \<Longrightarrow> m = n"
proof (induction m arbitrary: n)
  case Nil
  then show ?case
    by (cases n) (force split: if_splits)+
next
  case (Cons kv m)
  obtain k v where kv: "kv = (k, v)" by (cases kv)
  have get_n: "bt_get n k' = (if k = k' then Some v else bt_get m k')" for k'
    using Cons.prems(3) [of k'] kv by simp
  obtain k2 v2 n' where n: "n = (k2, v2) # n'"
    using get_n [of k] by (cases n) auto
  have m_gt: "\<And>k'. bt_get m k' \<noteq> None \<Longrightarrow> k < k'"
    using Cons.prems(1) kv by (auto simp: bt_wf_Cons bt_get_None_iff simp del: not_None_eq)
  have n_gt: "\<And>k'. bt_get n' k' \<noteq> None \<Longrightarrow> k2 < k'"
    using Cons.prems(2) n by (auto simp: bt_wf_Cons bt_get_None_iff simp del: not_None_eq)
  have "k2 = k"
  proof (rule ccontr)
    assume ne: "k2 \<noteq> k"
    have "Some v2 = bt_get m k2" using get_n [of k2] n ne by (auto split: if_splits)
    then have "bt_get m k2 \<noteq> None" by (metis option.distinct(1))
    moreover have "bt_get n' k \<noteq> None" using get_n [of k] n ne by (auto split: if_splits)
    ultimately show False using m_gt [of k2] n_gt [of k] by simp
  qed
  moreover from this have "v2 = v" using get_n [of k] n by simp
  moreover have "m = n'"
  proof (rule Cons.IH)
    show "bt_wf m" and "bt_wf n'" using Cons.prems kv n by (auto simp: bt_wf_Cons)
    show "bt_get m k' = bt_get n' k'" for k'
    proof (cases "k' = k")
      case True
      have "bt_get m k = None" using m_gt [of k] by blast
      moreover have "bt_get n' k = None" using n_gt [of k] \<open>k2 = k\<close> by blast
      ultimately show ?thesis using True by simp
    next
      case False
      then show ?thesis using get_n [of k'] n \<open>k2 = k\<close> by auto
    qed
  qed
  ultimately show ?case using kv n by simp
qed

text \<open>\<open>BTreeSet\<close>: a sorted list without repetition.\<close>

type_synonym 'k btset = "('k, unit) btree"

definition bs_insert :: "'k::linorder \<Rightarrow> 'k btset \<Rightarrow> 'k btset" where
  "bs_insert k s = bt_insert k () s"

definition bs_contains :: "'k btset \<Rightarrow> 'k \<Rightarrow> bool" where
  "bs_contains s k \<longleftrightarrow> bt_get s k \<noteq> None"

definition bs_of_list :: "'k::linorder list \<Rightarrow> 'k btset" where
  "bs_of_list ks = fold bs_insert ks []"

definition bs_elems :: "'k btset \<Rightarrow> 'k set" where
  "bs_elems s = set (bt_keys s)"

lemma bs_contains_iff [simp]: "bs_contains s k \<longleftrightarrow> k \<in> bs_elems s"
  by (simp add: bs_contains_def bs_elems_def bt_get_None_iff bt_keys_def del: not_None_eq)

lemma bs_elems_insert [simp]: "bt_wf s \<Longrightarrow> bs_elems (bs_insert k s) = insert k (bs_elems s)"
  by (simp add: bs_elems_def bs_insert_def bt.keys_insert flip: bt_keys_set)

lemma bt_wf_bs_insert [simp]: "bt_wf s \<Longrightarrow> bt_wf (bs_insert k s)"
  by (simp add: bs_insert_def bt_wf_insert)

lemma fold_bs_insert: "bt_wf s \<Longrightarrow> bt_wf (fold bs_insert ks s) \<and> bs_elems (fold bs_insert ks s) = set ks \<union> bs_elems s"
  by (induction ks arbitrary: s) auto

lemma bs_of_list [simp]: "bt_wf (bs_of_list ks)" "bs_elems (bs_of_list ks) = set ks"
  using fold_bs_insert [of "[]" ks] by (simp_all add: bs_of_list_def bs_elems_def bt_keys_def)

lemma length_bs: "bt_wf s \<Longrightarrow> length s = card (bs_elems s)"
  using distinct_card [OF distinct_bt_keys, of s] by (simp add: bs_elems_def bt_keys_def)

end
