(* ===== verification/Extents.thy ===== *)
theory Extents
  imports Prelude
begin

text \<open>
  Object contents as a function from offsets to bytes, zero wherever nothing was written, and the
  contract of everything that replays WRITE and FREE records into contents: the \<open>Vec<u8>\<close> of a
  metadata object (filesystem.rs), the sparse output file (sparse.rs) and the segment map of a
  nested image (inception.rs). A store that keeps the laws of \<open>extent_store\<close> shows, after any
  sequence of operations, the contents the abstract operations give; so two stores that ran the
  same operations show the same bytes.
\<close>

type_synonym contents = "nat \<Rightarrow> byte"

definition no_contents :: contents where
  "no_contents i = 0"

definition overlay :: "contents \<Rightarrow> nat \<Rightarrow> byte list \<Rightarrow> contents" where
  "overlay c off bs i = (if off \<le> i \<and> i < off + length bs then bs ! (i - off) else c i)"

text \<open>A FREE length of \<open>u64::MAX\<close> means to the end of the object.\<close>

definition erase :: "contents \<Rightarrow> nat \<Rightarrow> u64 \<Rightarrow> contents" where
  "erase c off len i = (if off \<le> i \<and> (len = u64_max \<or> i < off + unat len) then 0 else c i)"

datatype 'p extent_op = WriteExtent u64 'p | FreeExtent u64 u64 | ClearAll

fun abstract_op :: "('p \<Rightarrow> byte list) \<Rightarrow> 'p extent_op \<Rightarrow> contents \<Rightarrow> contents" where
  "abstract_op bytes (WriteExtent off p) c = overlay c (unat off) (bytes p)"
| "abstract_op bytes (FreeExtent off len) c = erase c (unat off) len"
| "abstract_op bytes ClearAll c = no_contents"

definition abstract_run :: "('p \<Rightarrow> byte list) \<Rightarrow> 'p extent_op list \<Rightarrow> contents \<Rightarrow> contents" where
  "abstract_run bytes ops c = fold (abstract_op bytes) ops c"

lemma abstract_run_simps [simp]:
  "abstract_run bytes [] c = c"
  "abstract_run bytes (op # ops) c = abstract_run bytes ops (abstract_op bytes op c)"
  by (simp_all add: abstract_run_def)

lemma abstract_run_append:
  "abstract_run bytes (xs @ ys) c = abstract_run bytes ys (abstract_run bytes xs c)"
  by (simp add: abstract_run_def)

locale extent_store =
  fixes invar :: "'s \<Rightarrow> bool"
    and view :: "'s \<Rightarrow> contents"
    and valid :: "'p \<Rightarrow> bool"
    and bytes :: "'p \<Rightarrow> byte list"
    and put :: "u64 \<Rightarrow> 'p \<Rightarrow> 's \<Rightarrow> 's result"
    and free :: "u64 \<Rightarrow> u64 \<Rightarrow> 's \<Rightarrow> 's result"
    and clear :: "'s \<Rightarrow> 's result"
  assumes put_view: "invar s \<Longrightarrow> valid p \<Longrightarrow> put off p s = Inr s' \<Longrightarrow>
      invar s' \<and> view s' = overlay (view s) (unat off) (bytes p)"
    and free_view: "invar s \<Longrightarrow> free off len s = Inr s' \<Longrightarrow>
      invar s' \<and> view s' = erase (view s) (unat off) len"
    and clear_view: "invar s \<Longrightarrow> clear s = Inr s' \<Longrightarrow> invar s' \<and> view s' = no_contents"
begin

fun run_op :: "'p extent_op \<Rightarrow> 's \<Rightarrow> 's result" where
  "run_op (WriteExtent off p) s = put off p s"
| "run_op (FreeExtent off len) s = free off len s"
| "run_op ClearAll s = clear s"

fun valid_op :: "'p extent_op \<Rightarrow> bool" where
  "valid_op (WriteExtent off p) = valid p"
| "valid_op _ = True"

lemma run_op_view:
  "invar s \<Longrightarrow> valid_op op \<Longrightarrow> run_op op s = Inr s' \<Longrightarrow>
   invar s' \<and> view s' = abstract_op bytes op (view s)"
  by (cases op) (auto dest: put_view free_view clear_view)

lemma run_view:
  "invar s \<Longrightarrow> list_all valid_op ops \<Longrightarrow> try_fold run_op s ops = Inr s' \<Longrightarrow>
   invar s' \<and> view s' = abstract_run bytes ops (view s)"
proof (induction ops arbitrary: s)
  case Nil
  then show ?case by simp
next
  case (Cons op ops)
  then obtain s1 where "run_op op s = Inr s1" and "try_fold run_op s1 ops = Inr s'"
    by (auto simp: result_simps)
  then show ?case using Cons run_op_view [of s op s1] by auto
qed

end

section \<open>Payloads of WRITE and WRITE_EMBEDDED records\<close>

text \<open>A decoded block, or an embedded block that fills the given length with zeros after its bytes.\<close>

datatype extent_payload = Plain "byte list" | Embedded u64 "byte list"

fun payload_bytes :: "extent_payload \<Rightarrow> byte list" where
  "payload_bytes (Plain pay) = pay"
| "payload_bytes (Embedded len pay) = pay @ replicate (unat len - length pay) 0"

section \<open>Byte lists as contents\<close>

definition list_view :: "byte list \<Rightarrow> contents" where
  "list_view d i = (if i < length d then d ! i else 0)"

lemma list_view_Nil [simp]: "list_view [] = no_contents"
  by (auto simp: list_view_def no_contents_def)

lemma list_view_resize:
  "list_view (resize n 0 d) i = (if i < n then list_view d i else 0)"
  by (auto simp: list_view_def nth_resize)

lemma list_view_blit:
  assumes "n = max (length d) (off + length bs)"
  shows "list_view (blit off bs (resize n 0 d)) = overlay (list_view d) off bs"
proof
  fix i
  show "list_view (blit off bs (resize n 0 d)) i = overlay (list_view d) off bs i"
    using assms by (auto simp: list_view_def overlay_def nth_blit nth_resize)
qed

lemma overlay_zero:
  assumes "\<And>j. j < length bs \<Longrightarrow> bs ! j = 0"
  shows "overlay c off bs i = (if off \<le> i \<and> i < off + length bs then 0 else c i)"
  using assms by (auto simp: overlay_def)

lemma overlay_append:
  "overlay (overlay c off xs) (off + length xs) ys = overlay c off (xs @ ys)"
  by (auto simp: overlay_def fun_eq_iff nth_append)

lemma overlay_Nil [simp]: "overlay c off [] = c"
  by (auto simp: overlay_def fun_eq_iff)

lemma slice_view:
  assumes "b \<le> length d"
  shows "slice d a b = map (list_view d) [a..<b]"
  using assms by (auto simp: list_eq_iff_nth_eq slice_simps list_view_def)

end
