(* ===== verification/Sparse.thy ===== *)
theory Sparse
  imports Extents
begin

text \<open>
  Sparse-file primitives (src/sparse.rs) on a file given by its bytes. The operating system is the
  parameter \<open>os\<close>: positioned writes, \<open>ftruncate\<close>, \<open>fallocate\<close> with hole punching, and
  \<open>lseek\<close> with \<open>SEEK_DATA\<close>/\<open>SEEK_HOLE\<close>; the locale \<open>posix_files\<close> states what these system
  calls document, and \<open>ideal_os\<close> is an instance. Every call may fail. The platform module is the
  one for Linux. The functions implement an extent store over the file's logical contents, and
  \<open>copy\<close> reproduces a file whatever its holes are.
\<close>

section \<open>The operating system\<close>

datatype errno = EOPNOTSUPP | EINVAL | ENXIO | OtherErrno

record os =
  os_write :: "byte list \<Rightarrow> nat \<Rightarrow> byte list \<Rightarrow> io_error + byte list"
  os_set_len :: "byte list \<Rightarrow> nat \<Rightarrow> io_error + byte list"
  os_punch :: "byte list \<Rightarrow> nat \<Rightarrow> nat \<Rightarrow> errno + byte list"
  os_seek_data :: "byte list \<Rightarrow> nat \<Rightarrow> errno + nat"
  os_seek_hole :: "byte list \<Rightarrow> nat \<Rightarrow> errno + nat"

definition write_all :: "os \<Rightarrow> nat \<Rightarrow> byte list \<Rightarrow> byte list \<Rightarrow> byte list result" where
  "write_all os pos bs d = map_err IoErr (os_write os d pos bs)"

definition set_len :: "os \<Rightarrow> nat \<Rightarrow> byte list \<Rightarrow> byte list result" where
  "set_len os n d = map_err IoErr (os_set_len os d n)"

section \<open>Model\<close>

definition CHUNK_SIZE :: nat where "CHUNK_SIZE = 1024 * 1024"
definition ZERO_BUFFER :: nat where "ZERO_BUFFER = 64 * 1024"

text \<open>\<open>platform::punch_hole\<close>: whether the hole was punched, and the file.\<close>

definition punch_hole :: "os \<Rightarrow> nat \<Rightarrow> nat \<Rightarrow> byte list \<Rightarrow> (bool \<times> byte list) result" where
  "punch_hole os off len d =
     (if off \<ge> 2 ^ 63 then Inl (Bail ''sparse offset exceeds off_t'')
      else if len \<ge> 2 ^ 63 then Inl (Bail ''sparse length exceeds off_t'')
      else case os_punch os d off len of
        Inr d' \<Rightarrow> Inr (True, d')
      | Inl e \<Rightarrow>
          if e = EOPNOTSUPP \<or> e = EINVAL then Inr (False, d)
          else Inl (Bail ''punching a sparse file hole''))"

function write_zeros_loop :: "os \<Rightarrow> nat \<Rightarrow> nat \<Rightarrow> byte list \<Rightarrow> byte list result" where
  "write_zeros_loop os pos remaining d =
     (if remaining = 0 then Inr d
      else let count = min remaining ZERO_BUFFER in
        and_then (write_all os pos (replicate count 0) d) (\<lambda>d'.
        write_zeros_loop os (pos + count) (remaining - count) d'))"
  by pat_completeness auto
termination
  by (relation "measure (\<lambda>(os, pos, remaining, d). remaining)") (auto simp: ZERO_BUFFER_def)

declare write_zeros_loop.simps [simp del]

definition write_zeros :: "os \<Rightarrow> nat \<Rightarrow> nat \<Rightarrow> byte list \<Rightarrow> byte list result" where
  "write_zeros os off len d = write_zeros_loop os off len d"

definition zero_range :: "os \<Rightarrow> u64 \<Rightarrow> u64 \<Rightarrow> byte list \<Rightarrow> byte list result" where
  "zero_range os off len d =
     (if unat off \<ge> length d \<or> len = 0 then Inr d
      else if len = u64_max then set_len os (unat off) d
      else let n = min (unat len) (length d - unat off) in
        and_then (punch_hole os (unat off) n d) (\<lambda>(punched, d').
        if punched then Inr d' else write_zeros os (unat off) n d'))"

fun write_chunks :: "os \<Rightarrow> u64 \<Rightarrow> byte list list \<Rightarrow> byte list \<Rightarrow> byte list result" where
  "write_chunks os pos [] d = Inr d"
| "write_chunks os pos (chunk # rest) d =
     and_then
       (if list_all (\<lambda>b. b = 0) chunk then zero_range os pos (of_nat (length chunk)) d
        else write_all os (unat pos) chunk d) (\<lambda>d'.
     and_then (ok_or (checked_add pos (of_nat (length chunk))) (Bail ''sparse extent offset overflow'')) (\<lambda>pos'.
     write_chunks os pos' rest d'))"

definition sparse_write_extent :: "os \<Rightarrow> u64 \<Rightarrow> byte list \<Rightarrow> byte list \<Rightarrow> byte list result" where
  "sparse_write_extent os off bs d = write_chunks os off (chunks CHUNK_SIZE bs) d"

text \<open>\<open>copy_range\<close>: a short read of the source is an error.\<close>

function copy_range_loop :: "os \<Rightarrow> byte list \<Rightarrow> nat \<Rightarrow> nat \<Rightarrow> byte list \<Rightarrow> byte list result" where
  "copy_range_loop os src pos remaining d =
     (if remaining = 0 then Inr d
      else let count = min remaining CHUNK_SIZE in
        and_then (ok_or (get_range src pos (pos + count)) (IoErr UnexpectedEof)) (\<lambda>buf.
        and_then (write_all os pos buf d) (\<lambda>d'.
        copy_range_loop os src (pos + count) (remaining - count) d')))"
  by pat_completeness auto
termination
  by (relation "measure (\<lambda>(os, src, pos, remaining, d). remaining)") (auto simp: CHUNK_SIZE_def)

declare copy_range_loop.simps [simp del]

definition copy_range :: "os \<Rightarrow> byte list \<Rightarrow> nat \<Rightarrow> nat \<Rightarrow> byte list \<Rightarrow> byte list result" where
  "copy_range os src off len d = copy_range_loop os src off len d"

text \<open>\<open>platform::copy_allocated\<close>: copy the data ranges, or report that they cannot be
  enumerated. The loop advances only as far as the system calls do, so not returning is \<open>None\<close>.\<close>

partial_function (option) copy_allocated ::
  "os \<Rightarrow> byte list \<Rightarrow> nat \<Rightarrow> nat \<Rightarrow> byte list \<Rightarrow> (bool \<times> byte list) result option" where
  "copy_allocated os src off len d =
     (if \<not> off < len then Some (Inr (True, d))
      else case os_seek_data os src off of
        Inl e \<Rightarrow>
          if e = ENXIO then Some (Inr (True, d))
          else if e = EINVAL \<or> e = EOPNOTSUPP then Some (Inr (False, d))
          else Some (Inl (Bail ''locating sparse file data''))
      | Inr start \<Rightarrow>
          (case os_seek_hole os src start of
             Inl e \<Rightarrow>
               if e = EINVAL \<or> e = EOPNOTSUPP then Some (Inr (False, d))
               else Some (Inl (Bail ''locating sparse file hole''))
           | Inr hole \<Rightarrow>
               let end = min hole len in
               if end \<le> start then Some (Inr (False, d))
               else (case copy_range os src start (end - start) d of
                       Inl e \<Rightarrow> Some (Inl e)
                     | Inr d' \<Rightarrow> copy_allocated os src end len d')))"

function copy_fallback :: "os \<Rightarrow> byte list \<Rightarrow> nat \<Rightarrow> nat \<Rightarrow> byte list \<Rightarrow> byte list result" where
  "copy_fallback os src off len d =
     (if \<not> off < len then Inr d
      else let wanted = min (len - off) CHUNK_SIZE in
        and_then (ok_or (get_range src off (off + wanted)) (IoErr UnexpectedEof)) (\<lambda>buf.
        and_then (sparse_write_extent os (of_nat off) buf d) (\<lambda>d'.
        copy_fallback os src (off + wanted) len d')))"
  by pat_completeness auto
termination
  by (relation "measure (\<lambda>(os, src, off, len, d). len - off)") (auto simp: CHUNK_SIZE_def)

declare copy_fallback.simps [simp del]

text \<open>\<open>copy(source, destination)\<close> into an empty destination; the result is its bytes.\<close>

definition sparse_copy :: "os \<Rightarrow> byte list \<Rightarrow> byte list \<Rightarrow> byte list result option" where
  "sparse_copy os src d =
     (let len = length src in
      case set_len os len d of
        Inl e \<Rightarrow> Some (Inl e)
      | Inr d0 \<Rightarrow>
          if len = 0 then Some (Inr d0)
          else map_option (\<lambda>r. and_then r (\<lambda>(done, d1).
                 if done then Inr d1 else copy_fallback os src 0 len d1))
               (copy_allocated os src 0 len d0))"

section \<open>What the system calls promise\<close>

locale posix_files =
  fixes os :: os
  assumes write_ok: "bs \<noteq> [] \<Longrightarrow> os_write os d pos bs = Inr d' \<Longrightarrow>
      d' = blit pos bs (resize (max (length d) (pos + length bs)) 0 d)"
    and set_len_ok: "os_set_len os d n = Inr d' \<Longrightarrow> d' = resize n 0 d"
    and punch_ok: "os_punch os d off len = Inr d' \<Longrightarrow> off + len \<le> length d \<Longrightarrow>
      d' = fill_range off (off + len) 0 d"
    and seek_data_ok: "os_seek_data os d off = Inr p \<Longrightarrow>
      off \<le> p \<and> p < length d \<and> (\<forall>i. off \<le> i \<and> i < p \<longrightarrow> d ! i = 0)"
    and seek_data_none: "os_seek_data os d off = Inl ENXIO \<Longrightarrow> (\<forall>i. off \<le> i \<and> i < length d \<longrightarrow> d ! i = 0)"
    and seek_hole_ok: "os_seek_hole os d p = Inr h \<Longrightarrow> p \<le> h \<and> h \<le> length d"

definition ideal_os :: os where
  "ideal_os =
     \<lparr>os_write = (\<lambda>d pos bs. Inr (blit pos bs (resize (max (length d) (pos + length bs)) 0 d))),
      os_set_len = (\<lambda>d n. Inr (resize n 0 d)),
      os_punch = (\<lambda>d off len. if off + len \<le> length d then Inr (fill_range off (off + len) 0 d) else Inl EINVAL),
      os_seek_data = (\<lambda>d off. if off < length d then Inr off else Inl ENXIO),
      os_seek_hole = (\<lambda>d p. if p < length d then Inr (length d) else Inl ENXIO)\<rparr>"



section \<open>The functions keep the logical contents\<close>

lemma erase_zero_len [simp]: "erase c off 0 = c"
  by (auto simp: erase_def fun_eq_iff u64_max_def)

lemma overlay_replicate_0:
  assumes "len \<noteq> u64_max" and "n = unat len"
  shows "overlay c off (replicate n 0) = erase c off len"
  using assms by (auto simp: overlay_def erase_def fun_eq_iff)

lemma list_view_fill_range:
  assumes "off + n \<le> length d"
  shows "list_view (fill_range off (off + n) 0 d) = overlay (list_view d) off (replicate n 0)"
  using assms by (auto simp: fun_eq_iff list_view_def overlay_def slice_simps)

lemma erase_list_view_clip:
  assumes "off < length d" and "len \<noteq> u64_max"
  shows "overlay (list_view d) off (replicate (min (unat len) (length d - off)) 0) = erase (list_view d) off len"
  using assms by (auto simp: fun_eq_iff list_view_def overlay_def erase_def min_def)

context posix_files
begin

lemma write_all_view:
  assumes "write_all os pos bs d = Inr d'" and "bs \<noteq> []"
  shows "list_view d' = overlay (list_view d) pos bs" "length d' = max (length d) (pos + length bs)"
proof -
  have d': "d' = blit pos bs (resize (max (length d) (pos + length bs)) 0 d)"
    using assms write_ok by (auto simp: write_all_def result_simps)
  show "list_view d' = overlay (list_view d) pos bs"
    unfolding d' by (rule list_view_blit) simp
  show "length d' = max (length d) (pos + length bs)"
    unfolding d' by simp
qed


lemma write_zeros_view:
  "write_zeros_loop os pos n d = Inr d' \<Longrightarrow> pos + n \<le> length d \<Longrightarrow>
   list_view d' = overlay (list_view d) pos (replicate n 0) \<and> length d' = length d"
proof (induction n arbitrary: pos d rule: less_induct)
  case (less n)
  show ?case
  proof (cases "n = 0")
    case True
    then show ?thesis using less.prems by (simp add: write_zeros_loop.simps)
  next
    case False
    define c where "c = min n ZERO_BUFFER"
    have c: "0 < c" "c \<le> n" using False by (auto simp: c_def ZERO_BUFFER_def)
    obtain d1 where w: "write_all os pos (replicate c 0) d = Inr d1"
      and rest: "write_zeros_loop os (pos + c) (n - c) d1 = Inr d'"
      using less.prems False by (subst (asm) write_zeros_loop.simps) (auto simp: result_simps c_def Let_def)
    note v = write_all_view [OF w]
    have len: "length d1 = length d" using v c less.prems by simp
    have "list_view d' = overlay (list_view d1) (pos + c) (replicate (n - c) 0) \<and> length d' = length d1"
      using less.IH [OF _ rest] less.prems c len by simp
    then show ?thesis
      using v c len overlay_append [of "list_view d" pos "replicate c 0" "replicate (n - c) 0"]
      by (simp flip: replicate_add)
  qed
qed

lemma zero_range_view:
  assumes "zero_range os off len d = Inr d'"
  shows "list_view d' = erase (list_view d) (unat off) len"
    and "length d' = (if len = u64_max then min (length d) (unat off) else length d)"
proof -
  consider (noop) "length d \<le> unat off \<or> len = 0" | (tail) "unat off < length d" "len = u64_max"
    | (range) "unat off < length d" "len \<noteq> 0" "len \<noteq> u64_max" by linarith
  then have "list_view d' = erase (list_view d) (unat off) len \<and>
    length d' = (if len = u64_max then min (length d) (unat off) else length d)"
  proof cases
    case noop
    then have "d' = d" using assms by (auto simp: zero_range_def)
    moreover have "erase (list_view d) (unat off) len = list_view d"
      using noop by (auto simp: erase_def list_view_def fun_eq_iff u64_max_def)
    ultimately show ?thesis using noop by (auto simp: u64_max_def)
  next
    case tail
    then have "d' = resize (unat off) 0 d"
      using assms set_len_ok by (auto simp: zero_range_def set_len_def result_simps u64_max_def)
    then show ?thesis using tail by (auto simp: fun_eq_iff list_view_resize erase_def list_view_def nth_resize)
  next
    case range
    define n where "n = min (unat len) (length d - unat off)"
    obtain punched d1 where p: "punch_hole os (unat off) n d = Inr (punched, d1)"
      and r: "(if punched then Inr d1 else write_zeros os (unat off) n d1) = Inr d'"
      using assms range unfolding n_def zero_range_def by (auto simp: result_simps Let_def)
    have n: "unat off + n \<le> length d" using range by (simp add: n_def)
    have "list_view d' = overlay (list_view d) (unat off) (replicate n 0) \<and> length d' = length d"
    proof (cases punched)
      case True
      then have "os_punch os d (unat off) n = Inr d'"
        using p r by (auto simp: punch_hole_def split: sum.splits if_splits)
      from punch_ok [OF this n] show ?thesis using n list_view_fill_range [OF n] by simp
    next
      case False
      then have "d1 = d" using p by (auto simp: punch_hole_def split: sum.splits if_splits)
      then show ?thesis using False r n write_zeros_view by (auto simp: write_zeros_def)
    qed
    then show ?thesis using range erase_list_view_clip [of "unat off" d len] by (simp add: n_def)
  qed
  then show "list_view d' = erase (list_view d) (unat off) len"
    and "length d' = (if len = u64_max then min (length d) (unat off) else length d)" by auto
qed

lemma write_chunks_view:
  "write_chunks os pos cs d = Inr d' \<Longrightarrow> (\<And>c. c \<in> set cs \<Longrightarrow> c \<noteq> [] \<and> length c \<le> CHUNK_SIZE) \<Longrightarrow>
   list_view d' = overlay (list_view d) (unat pos) (concat cs) \<and> length d \<le> length d' \<and>
   length d' \<le> max (length d) (unat pos + length (concat cs))"
proof (induction cs arbitrary: pos d)
  case Nil
  then show ?case by simp
next
  case (Cons c cs)
  have c: "c \<noteq> []" "length c \<le> CHUNK_SIZE" using Cons.prems(2) by auto
  then have small: "length c < 2 ^ 63" by (simp add: CHUNK_SIZE_def)
  then have ulen: "unat (of_nat (length c) :: u64) = length c" by (simp add: unat_of_nat_u64)
  have nmax: "(of_nat (length c) :: u64) \<noteq> u64_max" using small ulen by (auto simp: u64_eq_max_iff)
  obtain d1 pos' where w: "(if list_all (\<lambda>b. b = 0) c then zero_range os pos (of_nat (length c)) d
      else write_all os (unat pos) c d) = Inr d1"
    and pos': "unat pos' = unat pos + length c" and rest: "write_chunks os pos' cs d1 = Inr d'"
    using Cons.prems(1) by (auto simp: result_simps checked_simps ulen)
  have d1: "list_view d1 = overlay (list_view d) (unat pos) c \<and> length d \<le> length d1 \<and>
    length d1 \<le> max (length d) (unat pos + length c)"
  proof (cases "list_all (\<lambda>b. b = 0) c")
    case True
    then have "c = replicate (length c) 0" by (simp add: list_all_iff replicate_length_same)
    then have "overlay (list_view d) (unat pos) c = erase (list_view d) (unat pos) (of_nat (length c))"
      using overlay_replicate_0 [OF nmax, of "length c"] ulen by metis
    then show ?thesis using zero_range_view w True nmax by auto
  next
    case False
    then show ?thesis using w write_all_view c by auto
  qed
  have "list_view d' = overlay (list_view d1) (unat pos') (concat cs) \<and> length d1 \<le> length d' \<and>
    length d' \<le> max (length d1) (unat pos' + length (concat cs))"
    using Cons.IH [OF rest] Cons.prems(2) by simp
  then show ?case using d1 pos' by (auto simp: overlay_append)
qed

lemma write_extent_view:
  assumes "sparse_write_extent os off bs d = Inr d'"
  shows "list_view d' = overlay (list_view d) (unat off) bs \<and> length d \<le> length d' \<and>
    length d' \<le> max (length d) (unat off + length bs)"
  using write_chunks_view [of off "chunks CHUNK_SIZE bs" d d'] assms chunks_bound [of _ CHUNK_SIZE bs]
    concat_chunks [of CHUNK_SIZE bs]
  by (auto simp: sparse_write_extent_def CHUNK_SIZE_def)

lemma copy_range_view:
  "copy_range_loop os src pos n d = Inr d' \<Longrightarrow> pos + n \<le> length src \<Longrightarrow> length d = length src \<Longrightarrow>
   list_view d' = overlay (list_view d) pos (slice src pos (pos + n)) \<and> length d' = length src"
proof (induction n arbitrary: pos d rule: less_induct)
  case (less n)
  show ?case
  proof (cases "n = 0")
    case True
    then show ?thesis using less.prems by (simp add: copy_range_loop.simps slice_def)
  next
    case False
    define c where "c = min n CHUNK_SIZE"
    have c: "0 < c" "c \<le> n" using False by (auto simp: c_def CHUNK_SIZE_def)
    obtain d1 where w: "write_all os pos (slice src pos (pos + c)) d = Inr d1"
      and rest: "copy_range_loop os src (pos + c) (n - c) d1 = Inr d'"
      using less.prems False
      by (subst (asm) copy_range_loop.simps) (auto simp: result_simps c_def Let_def slice_simps)
    have ne: "length (slice src pos (pos + c)) = c" using c less.prems by simp
    then have ne': "slice src pos (pos + c) \<noteq> []" using c by force
    note v = write_all_view [OF w ne']
    have len: "length d1 = length src" using v c less.prems ne by simp
    have "list_view d' = overlay (list_view d1) (pos + c) (slice src (pos + c) (pos + n)) \<and> length d' = length src"
      using less.IH [OF _ rest] less.prems c len by simp
    moreover have "slice src pos (pos + n) = slice src pos (pos + c) @ slice src (pos + c) (pos + n)"
      using c by (intro slice_split) auto
    ultimately show ?thesis
      using v ne len overlay_append [of "list_view d" pos "slice src pos (pos + c)"] by simp
  qed
qed


lemma list_view_inject: "length d = length d' \<Longrightarrow> list_view d = list_view d' \<Longrightarrow> d = d'"
  by (auto simp: list_view_def fun_eq_iff list_eq_iff_nth_eq split: if_splits)

lemma copy_allocated_cases:
  assumes "len = length src" and "length d = len"
  obtains (stop) r where "copy_allocated os src off len d = Some r" "\<And>d'. r = Inr d' \<Longrightarrow> d' = (False, d)"
  | (all) "copy_allocated os src off len d = Some (Inr (True, d))" "\<And>i. off \<le> i \<Longrightarrow> list_view src i = 0"
  | (step) start e d1 where "off \<le> start" "start < e" "e \<le> len"
      "\<And>i. off \<le> i \<Longrightarrow> i < start \<Longrightarrow> list_view src i = 0"
      "copy_range os src start (e - start) d = Inr d1"
      "copy_allocated os src off len d = copy_allocated os src e len d1"
proof (cases "off < len")
  case False
  then show thesis using assms all by (simp add: copy_allocated.simps list_view_def)
next
  case True
  note unf = copy_allocated.simps [of os src off len d]
  consider (nodata) e where "os_seek_data os src off = Inl e"
    | (nohole) start e where "os_seek_data os src off = Inr start" "os_seek_hole os src start = Inl e"
    | (found) start hole where "os_seek_data os src off = Inr start" "os_seek_hole os src start = Inr hole"
    by (metis old.sum.exhaust)
  then show thesis
  proof cases
    case nodata
    then show thesis using stop all unf True seek_data_none [of src off] assms
      by (cases "e = ENXIO") (auto simp: list_view_def split: if_splits)
  next
    case nohole
    then show thesis using stop unf True by (auto split: if_splits)
  next
    case found
    note sd = seek_data_ok [OF found(1)]
    define e where "e = min hole len"
    have "copy_allocated os src off len d = (if e \<le> start then Some (Inr (False, d))
       else case copy_range os src start (e - start) d of Inl er \<Rightarrow> Some (Inl er)
            | Inr x \<Rightarrow> copy_allocated os src e len x)"
      using unf True found unfolding e_def by (simp only: Let_def if_True sum.case simp_thms if_False)
    moreover have "e \<le> len" by (simp add: e_def)
    ultimately show thesis
      using stop step [of start e] sd
      by (cases "e \<le> start"; cases "copy_range os src start (e - start) d") (auto simp: list_view_def)
  qed
qed

lemma copy_allocated_view:
  assumes "length d = length src" and "len = length src"
    and "\<And>i. list_view d i = (if i < off then list_view src i else 0)"
  shows "\<exists>r. copy_allocated os src off len d = Some r \<and>
    (\<forall>done d'. r = Inr (done, d') \<longrightarrow> length d' = len \<and> (done \<longrightarrow> d' = src))"
  using assms
proof (induction "len - off" arbitrary: off d rule: less_induct)
  case less
  have "length d = len" using less.prems by simp
  from less.prems(2) this show ?case
  proof (cases rule: copy_allocated_cases [of len src d off])
    case (stop r)
    then show ?thesis using less.prems by auto
  next
    case all
    then have "list_view d = list_view src" using less.prems by (auto simp: fun_eq_iff)
    then show ?thesis using all less.prems list_view_inject [of d src] by auto
  next
    case (step start e d1)
    have d1: "list_view d1 = overlay (list_view d) start (slice src start e)" "length d1 = length src"
      using copy_range_view [of src start "e - start" d d1] step less.prems by (auto simp: copy_range_def)
    have "list_view d1 i = (if i < e then list_view src i else 0)" for i
      using d1(1) step(1-4) less.prems(2,3) by (auto simp: overlay_def list_view_def nth_slice)
    then show ?thesis using less.hyps [of e d1] d1(2) step less.prems by simp
  qed
qed

lemma copy_fallback_view:
  assumes "copy_fallback os src off len d = Inr d'" and "length d = len" and "len = length src"
    and "len < 2 ^ 63" and "\<And>i. i < off \<Longrightarrow> list_view d i = list_view src i" and "off \<le> len"
  shows "d' = src"
  using assms
proof (induction "len - off" arbitrary: off d rule: less_induct)
  case less
  show ?case
  proof (cases "off < len")
    case False
    then have "list_view d = list_view src" using less.prems by (auto simp: fun_eq_iff list_view_def)
    then show ?thesis using less.prems False list_view_inject [of d src] by (simp add: copy_fallback.simps)
  next
    case True
    define w where "w = min (len - off) CHUNK_SIZE"
    have w: "0 < w" "off + w \<le> len" using True by (auto simp: w_def CHUNK_SIZE_def)
    obtain d1 where x: "sparse_write_extent os (of_nat off) (slice src off (off + w)) d = Inr d1"
      and rest: "copy_fallback os src (off + w) len d1 = Inr d'"
      using less.prems(1) True w less.prems(3)
      by (subst (asm) copy_fallback.simps) (auto simp: result_simps w_def Let_def slice_simps)
    have "unat (of_nat off :: u64) = off" using True less.prems(4) by (simp add: unat_of_nat_u64)
    then have d1: "list_view d1 = overlay (list_view d) off (slice src off (off + w))" "length d1 = len"
      using write_extent_view [OF x] w less.prems by auto
    have "list_view d1 i = list_view src i" if "i < off + w" for i
      using d1(1) less.prems(3) less.prems(5) [of i] w that by (auto simp: overlay_def list_view_def nth_slice)
    then show ?thesis using less.hyps [of "off + w" d1] rest d1(2) w less.prems by simp
  qed
qed

lemma copy_exact:
  assumes "length src < 2 ^ 63"
  shows "\<exists>r. sparse_copy os src [] = Some r \<and> (\<forall>d. r = Inr d \<longrightarrow> d = src)"
proof (cases "set_len os (length src) []")
  case (Inl e)
  then show ?thesis by (simp add: sparse_copy_def)
next
  case (Inr d0)
  then have "os_set_len os [] (length src) = Inr d0" by (simp add: set_len_def result_simps)
  from set_len_ok [OF this] have d0: "length d0 = length src" "list_view d0 i = 0" for i
    by (auto simp: list_view_resize no_contents_def)
  obtain r where r: "copy_allocated os src 0 (length src) d0 = Some r"
    and ok: "\<And>done d'. r = Inr (done, d') \<Longrightarrow> length d' = length src \<and> (done \<longrightarrow> d' = src)"
    using copy_allocated_view [of d0 src "length src" 0] d0 by auto
  have "d = src" if "and_then r (\<lambda>(done, d1). if done then Inr d1 else copy_fallback os src 0 (length src) d1) = Inr d" for d
    using that ok copy_fallback_view [of src 0 "length src"] assms
    by (auto simp: result_simps split: if_splits)
  then show ?thesis using Inr r d0 by (auto simp: sparse_copy_def Let_def)
qed

end

sublocale posix_files \<subseteq> sparse_file: extent_store "\<lambda>_. True" list_view "\<lambda>_. True" id
  "sparse_write_extent os" "zero_range os" "set_len os 0"
  by unfold_locales
    (auto simp: write_extent_view zero_range_view set_len_def result_simps no_contents_def list_view_def resize_def
      fun_eq_iff dest: set_len_ok)


text \<open>A file system on which writing and resizing succeed and holes are at worst not supported.\<close>

locale reliable_files = posix_files +
  assumes write_succeeds: "\<not> isl (os_write os d pos bs)"
    and set_len_succeeds: "\<not> isl (os_set_len os d n)"
    and punch_fails: "os_punch os d off len = Inl e \<Longrightarrow> e = EOPNOTSUPP \<or> e = EINVAL"
    and seek_data_fails: "os_seek_data os d off = Inl e \<Longrightarrow> e = EOPNOTSUPP \<or> e = EINVAL \<or> e = ENXIO"
    and seek_hole_fails: "os_seek_hole os d off = Inl e \<Longrightarrow> off < length d \<Longrightarrow> e = EOPNOTSUPP \<or> e = EINVAL"
begin

lemma write_all_total: "\<not> isl (write_all os pos bs d)"
  using write_succeeds [of d pos bs] by (auto simp: write_all_def isl_def result_simps)

lemma write_zeros_total: "\<not> isl (write_zeros_loop os pos n d)"
proof (induction n arbitrary: pos d rule: less_induct)
  case (less n)
  show ?case
    using less.IH write_all_total [of pos "replicate (min n ZERO_BUFFER) 0" d]
    by (subst write_zeros_loop.simps)
      (cases "write_all os pos (replicate (min n ZERO_BUFFER) 0) d", auto simp: Let_def ZERO_BUFFER_def)
qed

lemma zero_range_total:
  assumes "length d < 2 ^ 63"
  shows "\<not> isl (zero_range os off len d)"
proof -
  have "\<not> isl (punch_hole os (unat off) (min (unat len) (length d - unat off)) d)" if "unat off < length d"
    using assms that punch_fails by (auto simp: punch_hole_def isl_def split: sum.splits if_splits)
  then show ?thesis
    using write_zeros_total set_len_succeeds
    by (auto simp: zero_range_def set_len_def isl_def result_simps write_zeros_def Let_def split: prod.splits)
qed


lemma write_chunks_total:
  "unat pos + length (concat cs) < 2 ^ 63 \<Longrightarrow> length d < 2 ^ 63 \<Longrightarrow>
   (\<And>c. c \<in> set cs \<Longrightarrow> c \<noteq> []) \<Longrightarrow> \<not> isl (write_chunks os pos cs d)"
proof (induction cs arbitrary: pos d)
  case Nil
  then show ?case by simp
next
  case (Cons c cs)
  define w where "w = (if list_all (\<lambda>b. b = 0) c then zero_range os pos (of_nat (length c)) d
    else write_all os (unat pos) c d)"
  have "\<not> isl w" using zero_range_total write_all_total Cons.prems by (simp add: w_def)
  then obtain d1 where d1: "w = Inr d1" by (cases w) auto
  have ulen: "unat (of_nat (length c) :: u64) = length c" using Cons.prems by (simp add: unat_of_nat_u64)
  then have upos: "unat (pos + of_nat (length c)) = unat pos + length c"
    and nmax: "(of_nat (length c) :: u64) \<noteq> u64_max"
    using Cons.prems by (auto simp: unat_add_u64 u64_eq_max_iff)
  then have "checked_add pos (of_nat (length c)) = Some (pos + of_nat (length c))"
    using ulen by (simp add: checked_simps)
  moreover have "length d1 < 2 ^ 63"
    using d1 Cons.prems zero_range_view(2) [of pos "of_nat (length c)" d d1] write_all_view(2) [of "unat pos" c d d1] nmax
    by (auto simp: w_def split: if_splits)
  ultimately show ?case
    using Cons.IH [of "pos + of_nat (length c)" d1] Cons.prems d1 upos by (auto simp: w_def)
qed

lemma write_extent_total:
  "unat off + length bs < 2 ^ 63 \<Longrightarrow> length d < 2 ^ 63 \<Longrightarrow> \<not> isl (sparse_write_extent os off bs d)"
  using write_chunks_total [of off "chunks CHUNK_SIZE bs" d] chunks_bound [of _ CHUNK_SIZE bs] concat_chunks [of CHUNK_SIZE bs]
  by (auto simp: sparse_write_extent_def CHUNK_SIZE_def)

lemma copy_range_total: "pos + n \<le> length src \<Longrightarrow> \<not> isl (copy_range_loop os src pos n d)"
proof (induction n arbitrary: pos d rule: less_induct)
  case (less n)
  have "get_range src pos (pos + min n CHUNK_SIZE) = Some (slice src pos (pos + min n CHUNK_SIZE))"
    using less.prems by (simp add: get_range_def)
  then show ?case
    using less write_all_total [of pos "slice src pos (pos + min n CHUNK_SIZE)" d]
    by (subst copy_range_loop.simps)
      (cases "write_all os pos (slice src pos (pos + min n CHUNK_SIZE)) d", auto simp: Let_def CHUNK_SIZE_def)
qed

lemma copy_allocated_total:
  assumes "copy_allocated os src off len d = Some r" and "len = length src"
  shows "\<not> isl r"
  using assms
proof (induction "len - off" arbitrary: off d rule: less_induct)
  case less
  show ?case
  proof (cases "\<exists>start hole. off < len \<and> os_seek_data os src off = Inr start \<and> os_seek_hole os src start = Inr hole
      \<and> start < min hole len")
    case False
    then show ?thesis
      using less.prems seek_data_fails [of src off] seek_data_ok [of src off] seek_hole_fails [of src]
      by (subst (asm) copy_allocated.simps) (auto simp: Let_def not_less split: if_splits sum.splits)
  next
    case True
    then obtain start hole where h: "off < len" "os_seek_data os src off = Inr start"
      "os_seek_hole os src start = Inr hole" "start < min hole len" by blast
    obtain d1 where d1: "copy_range os src start (min hole len - start) d = Inr d1"
      using copy_range_total [of start "min hole len - start" src d] h less.prems
      by (cases "copy_range os src start (min hole len - start) d") (auto simp: copy_range_def)
    then have "copy_allocated os src (min hole len) len d1 = Some r"
      using less.prems h by (subst (asm) copy_allocated.simps) (auto simp: Let_def min_le_iff_disj)
    moreover have "len - min hole len < len - off" using h seek_data_ok [of src off start] by auto
    ultimately show ?thesis using less.hyps [of "min hole len" d1] less.prems by simp
  qed
qed

lemma copy_fallback_total:
  assumes "length d = len" and "len = length src" and "len < 2 ^ 63" and "off \<le> len"
  shows "\<not> isl (copy_fallback os src off len d)"
  using assms
proof (induction "len - off" arbitrary: off d rule: less_induct)
  case less
  show ?case
  proof (cases "off < len")
    case False
    then show ?thesis by (simp add: copy_fallback.simps)
  next
    case True
    define w where "w = min (len - off) CHUNK_SIZE"
    have w: "0 < w" "off + w \<le> len" using True by (auto simp: w_def CHUNK_SIZE_def)
    have u: "unat (of_nat off :: u64) = off" using True less.prems by (simp add: unat_of_nat_u64)
    have "\<not> isl (sparse_write_extent os (of_nat off) (slice src off (off + w)) d)"
      using u w less.prems by (intro write_extent_total) auto
    then obtain d1 where d1: "sparse_write_extent os (of_nat off) (slice src off (off + w)) d = Inr d1"
      by (cases "sparse_write_extent os (of_nat off) (slice src off (off + w)) d") auto
    have "get_range src off (off + w) = Some (slice src off (off + w))"
      using w less.prems by (simp add: get_range_def)
    moreover have "length d1 = len" using write_extent_view [OF d1] u w less.prems by auto
    moreover from this have "\<not> isl (copy_fallback os src (off + w) len d1)"
      using less.hyps [of "off + w" d1] w less.prems by simp
    ultimately show ?thesis
      using True d1 by (subst copy_fallback.simps) (simp add: Let_def flip: w_def)
  qed
qed

lemma copy_succeeds:
  assumes "length src < 2 ^ 63"
  shows "sparse_copy os src [] = Some (Inr src)"
proof -
  obtain d0 where d0: "os_set_len os [] (length src) = Inr d0"
    using set_len_succeeds [of "[]" "length src"] by (cases "os_set_len os [] (length src)") auto
  from set_len_ok [OF d0] have v: "length d0 = length src" "list_view d0 i = 0" for i
    by (auto simp: list_view_resize no_contents_def)
  obtain r where r: "copy_allocated os src 0 (length src) d0 = Some r"
    and ok: "\<And>done d'. r = Inr (done, d') \<Longrightarrow> length d' = length src \<and> (done \<longrightarrow> d' = src)"
    using copy_allocated_view [of d0 src "length src" 0] v by auto
  obtain fin d1 where d1: "r = Inr (fin, d1)" using copy_allocated_total [OF r] by (cases r) auto
  have "\<not> fin \<Longrightarrow> \<exists>d. copy_fallback os src 0 (length src) d1 = Inr d"
    using copy_fallback_total [of d1 "length src" src 0] ok [OF d1] assms
    by (cases "copy_fallback os src 0 (length src) d1") auto
  then obtain d where "sparse_copy os src [] = Some (Inr d)"
    using d0 v(1) r d1 by (cases fin; cases "src = []") (auto simp: sparse_copy_def set_len_def)
  then show ?thesis using copy_exact [OF assms] by auto
qed

end

interpretation ideal: reliable_files ideal_os
  by unfold_locales (auto simp: ideal_os_def split: if_splits)

section \<open>Properties\<close>

text \<open>Writing an extent. Wherever the zero chunks of the extent land, in a hole, past the end of
  the file or over old data, the file reads afterwards as the old contents overlaid with the
  extent; the write never shortens the file.\<close>

theorem sparse_write_extent_overlays:
  assumes "posix_files os" and "sparse_write_extent os off bs d = Inr d'"
  shows "list_view d' = overlay (list_view d) (unat off) bs \<and> length d \<le> length d' \<and>
    length d' \<le> max (length d) (unat off + length bs)"
  using posix_files.write_extent_view [OF assms] .

theorem sparse_write_extent_overlays_witness:
  "sparse_write_extent ideal_os 1 [7, 0] [1, 2, 3, 4] = Inr [1, 7, 0, 4] \<and>
   list_view [1, 7, 0, 4] = overlay (list_view [1, 2, 3, 4]) 1 [7, 0]"
proof -
  have w: "sparse_write_extent ideal_os 1 [7, 0] [1, 2, 3, 4] = Inr [1, 7, 0, 4]"
    by (simp add: sparse_write_extent_def chunks.simps CHUNK_SIZE_def write_all_def ideal_os_def blit_def
        resize_def checked_add_def)
  show ?thesis using sparse_write_extent_overlays [OF ideal.posix_files_axioms w] w by simp
qed

text \<open>Freeing a range. The range reads as zeros afterwards and everything else keeps its bytes,
  whether the hole could be punched or zeros had to be written; a length of \<open>u64::MAX\<close> cuts the
  file at the offset, any other length keeps the file's length.\<close>

theorem zero_range_erases:
  assumes "posix_files os" and "zero_range os off len d = Inr d'"
  shows "list_view d' = erase (list_view d) (unat off) len \<and>
    length d' = (if len = u64_max then min (length d) (unat off) else length d)"
  using posix_files.zero_range_view [OF assms] by simp

theorem zero_range_erases_witness:
  "zero_range ideal_os 1 u64_max [1, 2, 3] = Inr [1] \<and>
   list_view [1] = erase (list_view [1, 2, 3]) 1 u64_max"
proof -
  have z: "zero_range ideal_os 1 u64_max [1, 2, 3] = Inr [1]"
    by (simp add: zero_range_def u64_max_def set_len_def ideal_os_def resize_def)
  show ?thesis using zero_range_erases [OF ideal.posix_files_axioms z] z by simp
qed

text \<open>Copying a file. On a file system that writes and resizes, whatever holes it reports and
  whether or not it can enumerate them, the copy returns (the loop over the data ranges ends) and
  the destination has exactly the source's bytes.\<close>

theorem sparse_copy_reproduces_the_source:
  assumes "reliable_files os" and "length src < 2 ^ 63"
  shows "sparse_copy os src [] = Some (Inr src)"
  using reliable_files.copy_succeeds [OF assms] .

theorem sparse_copy_reproduces_the_source_witness:
  "sparse_copy ideal_os [5, 0, 9] [] = Some (Inr [5, 0, 9])"
  using sparse_copy_reproduces_the_source [OF ideal.reliable_files_axioms, of "[5, 0, 9]"] by simp

end
