(* ===== verification/Compression.thy ===== *)
theory Compression
  imports Prelude
begin

text \<open>
  Block decompression (src/compression.rs). The codecs of the crates \<open>zfs_core\<close>, \<open>flate2\<close> and
  \<open>ruzstd\<close> are the parameter \<open>codecs\<close>: \<open>CompressType::from_raw\<close>, and for each decoder what
  \<open>take(limit).read_to_end\<close> returns on its input, \<open>None\<close> when it reports an error.
\<close>

text \<open>The constructors the program distinguishes; every other codec is \<open>Other\<close>.\<close>

datatype compress_type = Inherit | On | Off | Gzip byte | Zstd | Other byte

record codecs =
  from_raw :: "byte \<Rightarrow> compress_type"
  zlib_read :: "byte list \<Rightarrow> nat \<Rightarrow> byte list option"
  zstd_new :: "byte list \<Rightarrow> bool"
  zstd_read :: "byte list \<Rightarrow> nat \<Rightarrow> byte list option"
  zfs_decompress :: "compress_type \<Rightarrow> byte list \<Rightarrow> nat \<Rightarrow> byte list option"

definition ZSTD_MAGIC :: "byte list" where
  "ZSTD_MAGIC = [0x28, 0xb5, 0x2f, 0xfd]"

definition decompress_gzip :: "codecs \<Rightarrow> byte list \<Rightarrow> u64 \<Rightarrow> byte list result" where
  "decompress_gzip z payload logical_size =
     and_then (ok_or (checked_add logical_size 1) (Bail ''logical gzip block size overflow'')) (\<lambda>limit.
     and_then (ok_or (zlib_read z payload (unat limit)) (Bail ''decompressing ZFS gzip block'')) (\<lambda>output.
     if length output \<noteq> unat logical_size
     then Inl (Bail ''ZFS gzip block expanded to {} bytes, expected {logical_size}'')
     else Inr output))"

definition decompress_zstd :: "codecs \<Rightarrow> byte list \<Rightarrow> u64 \<Rightarrow> byte list result" where
  "decompress_zstd z payload logical_size =
     and_then (ok_or (get_range payload 0 8) (Bail ''ZFS Zstandard block is missing its 8-byte header'')) (\<lambda>header.
     let compressed_size = unat (from_be_bytes (slice header 0 4) :: u32); end = 8 + compressed_size in
     and_then (ok_or (get_range payload 8 end)
        (Bail ''ZFS Zstandard block has an invalid compressed-size header'')) (\<lambda>frame.
     let framed = ZSTD_MAGIC @ frame in
     and_then (ok_or (checked_add logical_size 1) (Bail ''logical Zstandard block size overflow'')) (\<lambda>limit.
     if \<not> zstd_new z framed then Inl (Bail ''decoding the ZFS Zstandard frame header'')
     else and_then (ok_or (zstd_read z framed (unat limit)) (Bail ''decompressing ZFS Zstandard block'')) (\<lambda>output.
     if length output \<noteq> unat logical_size
     then Inl (Bail ''ZFS Zstandard block expanded to {} bytes, expected {logical_size}'')
     else Inr output))))"

definition decompress_block :: "codecs \<Rightarrow> byte \<Rightarrow> byte list \<Rightarrow> u64 \<Rightarrow> byte list result" where
  "decompress_block z compression payload logical_size =
     (case from_raw z compression of
        Inherit \<Rightarrow> Inl (Bail ''compression sentinel {compression} is invalid in an on-disk block pointer'')
      | On \<Rightarrow> Inl (Bail ''compression sentinel {compression} is invalid in an on-disk block pointer'')
      | Off \<Rightarrow>
          if length payload \<noteq> unat logical_size
          then Inl (Bail ''uncompressed ZFS block is {} bytes, expected {logical_size}'')
          else Inr payload
      | Gzip _ \<Rightarrow> decompress_gzip z payload logical_size
      | Zstd \<Rightarrow> decompress_zstd z payload logical_size
      | Other c \<Rightarrow> ok_or (zfs_decompress z (Other c) payload (unat logical_size)) (Bail ''decompress''))"

definition decode_replay_write :: "codecs \<Rightarrow> byte \<Rightarrow> byte list \<Rightarrow> u64 \<Rightarrow> byte list result" where
  "decode_replay_write z compression payload logical_size =
     (if compression = 0 then
        if length payload \<noteq> unat logical_size
        then Inl (Bail ''uncompressed replay WRITE is {} bytes, expected {logical_size}'')
        else Inr payload
      else decompress_block z compression payload logical_size)"

definition decode_embedded_write ::
  "codecs \<Rightarrow> byte \<Rightarrow> byte \<Rightarrow> byte list \<Rightarrow> u32 \<Rightarrow> u32 \<Rightarrow> byte list result" where
  "decode_embedded_write z compression embedded_type payload physical_size logical_size =
     (if embedded_type \<noteq> 0 then Inl (Bail ''unsupported ZFS embedded block type {embedded_type}'')
      else and_then (ok_or (get_range payload 0 (unat physical_size))
             (Bail ''embedded replay payload is shorter than its physical size'')) (\<lambda>encoded.
           decompress_block z compression encoded (ucast logical_size)))"

section \<open>Decoded blocks have their logical size\<close>

text \<open>The codecs of \<open>zfs_core\<close> fill a buffer of the requested size.\<close>

definition fills_buffer :: "codecs \<Rightarrow> bool" where
  "fills_buffer z \<longleftrightarrow> (\<forall>c payload n out. zfs_decompress z (Other c) payload n = Some out \<longrightarrow> length out = n)"

lemma decompress_gzip_length: "decompress_gzip z p n = Inr out \<Longrightarrow> length out = unat n"
  by (auto simp: decompress_gzip_def result_simps split: if_splits)

lemma decompress_zstd_length: "decompress_zstd z p n = Inr out \<Longrightarrow> length out = unat n"
  by (auto simp: decompress_zstd_def result_simps Let_def split: if_splits)

lemma decompress_block_length:
  assumes "fills_buffer z" and "decompress_block z c p n = Inr out"
  shows "length out = unat n"
proof (cases "from_raw z c")
  case (Other x)
  then show ?thesis using assms by (auto simp: decompress_block_def fills_buffer_def result_simps)
qed (use assms(2) decompress_gzip_length decompress_zstd_length in
      \<open>auto simp: decompress_block_def split: if_splits\<close>)

lemma decode_replay_write_length:
  "fills_buffer z \<Longrightarrow> decode_replay_write z c p n = Inr out \<Longrightarrow> length out = unat n"
  by (auto simp: decode_replay_write_def decompress_block_length split: if_splits)

lemma decode_embedded_write_length:
  "fills_buffer z \<Longrightarrow> decode_embedded_write z c e p ps n = Inr out \<Longrightarrow> length out = unat n"
  using decompress_block_length [of z c]
  by (auto simp: decode_embedded_write_def result_simps split: if_splits)

text \<open>A codec set that handles uncompressed blocks only, for evaluating examples.\<close>

definition plain_codecs :: codecs where
  "plain_codecs =
     \<lparr>from_raw = (\<lambda>c. if c = 2 then Off else if c = 0 then Inherit else if c = 1 then On else Other c),
      zlib_read = (\<lambda>_ _. None), zstd_new = (\<lambda>_. False), zstd_read = (\<lambda>_ _. None),
      zfs_decompress = (\<lambda>_ _ n. Some (replicate n 0))\<rparr>"

lemma fills_buffer_plain: "fills_buffer plain_codecs"
  by (simp add: fills_buffer_def plain_codecs_def)

section \<open>Properties\<close>

text \<open>A decoded WRITE payload has exactly its declared logical size, whichever codec the record
  names; the gzip and Zstandard paths check it themselves and an uncompressed payload of another
  size is rejected, so only the buffer-filling contract of the \<open>zfs_core\<close> codecs is assumed.\<close>

theorem decoded_write_has_its_logical_size:
  assumes "fills_buffer z" and "decode_replay_write z compression payload logical_size = Inr out"
  shows "length out = unat logical_size"
  using assms by (rule decode_replay_write_length)

theorem decoded_write_has_its_logical_size_witness:
  "decode_replay_write plain_codecs 2 [1, 2, 3] 3 = Inr [1, 2, 3] \<and> length [1, 2, 3 :: byte] = unat (3 :: u64)"
proof -
  have d: "decode_replay_write plain_codecs 2 [1, 2, 3] 3 = Inr [1, 2, 3]"
    by (simp add: decode_replay_write_def decompress_block_def plain_codecs_def)
  show ?thesis using decoded_write_has_its_logical_size [OF fills_buffer_plain d] d by simp
qed

end
