(* ===== verification/Nvlist.thy ===== *)
theory Nvlist
  imports BTree Text
begin

text \<open>
  The name-value list decoder of raw streams (\<open>NvDecoder\<close> in src/encrypted.rs): the XDR encoding
  and the native little-endian encoding of the BEGIN record's payload. The decoder's state is its
  cursor. Both list loops terminate because every pair moves the cursor forward within the
  payload.
\<close>

datatype nv_value =
    NvUint64 u64
  | NvBytes "byte list"
  | NvList "(string \<times> nv_value) list"
  | NvIgnored

type_synonym nv_list = "(string, nv_value) btree"

section \<open>Model\<close>

definition nv_take :: "byte list \<Rightarrow> nat \<Rightarrow> nat \<Rightarrow> (byte list \<times> nat) result" where
  "nv_take bs cursor len =
     (if cursor + len \<ge> 2 ^ 64 then Inl (Bail ''nvlist offset overflow'')
      else if cursor + len > length bs then Inl (Bail ''truncated nvlist in raw stream BEGIN payload'')
      else Inr (slice bs cursor (cursor + len), cursor + len))"

definition nv_u32 :: "byte list \<Rightarrow> nat \<Rightarrow> (u32 \<times> nat) result" where
  "nv_u32 bs cursor = and_then (nv_take bs cursor 4) (\<lambda>(b, c). Inr (from_be_bytes b, c))"

definition nv_u64 :: "byte list \<Rightarrow> nat \<Rightarrow> (u64 \<times> nat) result" where
  "nv_u64 bs cursor = and_then (nv_take bs cursor 8) (\<lambda>(b, c). Inr (from_be_bytes b, c))"

definition nv_le_u16 :: "byte list \<Rightarrow> nat \<Rightarrow> (u16 \<times> nat) result" where
  "nv_le_u16 bs cursor = and_then (nv_take bs cursor 2) (\<lambda>(b, c). Inr (from_le_bytes b, c))"

definition nv_le_u32 :: "byte list \<Rightarrow> nat \<Rightarrow> (u32 \<times> nat) result" where
  "nv_le_u32 bs cursor = and_then (nv_take bs cursor 4) (\<lambda>(b, c). Inr (from_le_bytes b, c))"

definition nv_le_u64 :: "byte list \<Rightarrow> nat \<Rightarrow> (u64 \<times> nat) result" where
  "nv_le_u64 bs cursor = and_then (nv_take bs cursor 8) (\<lambda>(b, c). Inr (from_le_bytes b, c))"

definition nv_string :: "byte list \<Rightarrow> nat \<Rightarrow> (string \<times> nat) result" where
  "nv_string bs cursor =
     and_then (nv_u32 bs cursor) (\<lambda>(len, c).
     and_then (nv_take bs c (unat len)) (\<lambda>(raw, c).
     and_then (ok_or (from_utf8 raw) (Bail ''nvlist string is not UTF-8'')) (\<lambda>value.
     and_then (nv_take bs c ((4 - unat len mod 4) mod 4)) (\<lambda>(_, c). Inr (value, c)))))"

text \<open>\<open>for _ in 0..count { bytes.push(self.u32()? as u8) }\<close>\<close>

fun nv_byte_array :: "byte list \<Rightarrow> nat \<Rightarrow> nat \<Rightarrow> (byte list \<times> nat) result" where
  "nv_byte_array bs cursor 0 = Inr ([], cursor)"
| "nv_byte_array bs cursor (Suc n) =
     and_then (nv_u32 bs cursor) (\<lambda>(w, c).
     and_then (nv_byte_array bs c n) (\<lambda>(rest, c). Inr (ucast w # rest, c)))"

lemma nv_take_Inr:
  "nv_take bs c n = Inr (b, c') \<Longrightarrow> c' = c + n \<and> c' \<le> length bs \<and> b = slice bs c (c + n)"
  by (auto simp: nv_take_def split: if_splits)

lemma nv_reads_progress:
  "nv_u32 bs c = Inr (w, c') \<Longrightarrow> c' = c + 4 \<and> c' \<le> length bs"
  "nv_u64 bs c = Inr (d, c') \<Longrightarrow> c' = c + 8 \<and> c' \<le> length bs"
  "nv_le_u16 bs c = Inr (h, c') \<Longrightarrow> c' = c + 2 \<and> c' \<le> length bs"
  "nv_le_u32 bs c = Inr (w, c') \<Longrightarrow> c' = c + 4 \<and> c' \<le> length bs"
  "nv_le_u64 bs c = Inr (d, c') \<Longrightarrow> c' = c + 8 \<and> c' \<le> length bs"
  by (auto simp: nv_u32_def nv_u64_def nv_le_u16_def nv_le_u32_def nv_le_u64_def result_simps dest!: nv_take_Inr)

lemma nv_string_progress: "nv_string bs c = Inr (s, c') \<Longrightarrow> c + 4 \<le> c' \<and> c' \<le> length bs"
  by (auto simp: nv_string_def result_simps dest!: nv_take_Inr nv_reads_progress)

text \<open>\<open>xdr_list\<close>: the loop over the pairs with the map built so far; the list's header is read by
  \<open>xdr_header\<close> before the loop.\<close>

definition xdr_header :: "byte list \<Rightarrow> nat \<Rightarrow> nat result" where
  "xdr_header bs cursor =
     and_then (nv_u32 bs cursor) (\<lambda>(version, c).
     and_then (nv_u32 bs c) (\<lambda>(_, c).
     if version \<noteq> 0 then Inl (Bail ''unsupported nvlist version {version}'') else Inr c))"

lemma xdr_header_progress: "xdr_header bs c = Inr c' \<Longrightarrow> c' = c + 8 \<and> c' \<le> length bs"
  by (auto simp: xdr_header_def result_simps split: if_splits dest!: nv_reads_progress)

function xdr_pairs :: "byte list \<Rightarrow> nat \<Rightarrow> nv_list \<Rightarrow> (nv_list \<times> nat) result" where
  "xdr_pairs bs pair_start values =
     and_then (nv_u32 bs pair_start) (\<lambda>(encoded_size, c).
     and_then (nv_u32 bs c) (\<lambda>(_, c).
     if encoded_size = 0 then Inr (values, c)
     else if encoded_size < 8 then Inl (Bail ''nvpair has an invalid encoded size'')
     else let pair_end = pair_start + unat encoded_size in
       if pair_end > length bs then Inl (Bail ''nvpair extends past the BEGIN payload'')
       else and_then (nv_string bs c) (\<lambda>(name, c).
         and_then (nv_u32 bs c) (\<lambda>(value_type, c).
         and_then (nv_u32 bs c) (\<lambda>(count, c).
         and_then
           (if value_type = 8 \<and> count = 1 then
              and_then (nv_u64 bs c) (\<lambda>(v, c). Inr (NvUint64 v, c))
            else if value_type = 9 \<and> count = 1 then
              and_then (nv_string bs c) (\<lambda>(_, c). Inr (NvIgnored, c))
            else if value_type = 19 \<and> count = 1 then
              and_then (xdr_header bs c) (\<lambda>c.
              and_then (xdr_pairs bs c []) (\<lambda>(nested, c). Inr (NvList nested, c)))
            else if value_type = 26 then
              and_then (nv_u32 bs c) (\<lambda>(wire_count, c).
              if wire_count \<noteq> count
              then Inl (Bail ''nvpair byte-array count does not match its XDR count'')
              else and_then (nv_byte_array bs c (unat count)) (\<lambda>(v, c). Inr (NvBytes v, c)))
            else Inl (Bail ''unsupported nvpair type {value_type} with {count} elements'')) (\<lambda>(value, c).
         if c > pair_end then Inl (Bail ''nvpair payload exceeds its encoded size'')
         else xdr_pairs bs pair_end (bt_insert name value values)))))))"
  by pat_completeness auto
termination
  by (relation "measure (\<lambda>(bs, c, _). length bs - c)")
    (auto simp: word_less_nat_alt dest!: nv_reads_progress nv_string_progress xdr_header_progress)

declare xdr_pairs.simps [simp del]

definition xdr_list :: "byte list \<Rightarrow> nat \<Rightarrow> (nv_list \<times> nat) result" where
  "xdr_list bs cursor = and_then (xdr_header bs cursor) (\<lambda>c. xdr_pairs bs c [])"


definition align_8 :: "nat \<Rightarrow> nat option" where
  "align_8 v = (if v + 7 \<ge> 2 ^ 64 then None else Some ((v + 7) div 8 * 8))"

text \<open>The fixed part of a native pair and its name: name, count, type, end of the pair and cursor.\<close>

definition native_pair :: "byte list \<Rightarrow> nat \<Rightarrow> nat \<Rightarrow> nat \<Rightarrow> (string \<times> u32 \<times> u32 \<times> nat \<times> nat) result" where
  "native_pair bs pair_start pair_size c =
     (let pair_end = pair_start + pair_size in
      if pair_end > length bs then Inl (Bail ''native nvpair extends past the BEGIN payload'')
      else and_then (nv_le_u16 bs c) (\<lambda>(name_size, c).
        and_then (nv_take bs c 2) (\<lambda>(_, c).
        and_then (nv_le_u32 bs c) (\<lambda>(count, c).
        and_then (nv_le_u32 bs c) (\<lambda>(value_type, c).
        if name_size = 0 then Inl (Bail ''native nvpair has an empty name'')
        else and_then (nv_take bs c (unat name_size)) (\<lambda>(name_bytes, c).
          if last name_bytes \<noteq> 0 then Inl (Bail ''native nvpair name is not NUL terminated'')
          else and_then (ok_or (from_utf8 (butlast name_bytes)) (Bail ''native nvpair name is not UTF-8'')) (\<lambda>name.
            and_then (ok_or (align_8 (c - pair_start)) (Bail ''nvpair alignment overflow'')) (\<lambda>aligned.
            if pair_start + aligned > pair_end
            then Inl (Bail ''native nvpair name exceeds the pair size'')
            else Inr (name, count, value_type, pair_end, pair_start + aligned)))))))))"

lemma native_pair_Inr:
  "native_pair bs ps n c = Inr (name, count, vt, pe, c') \<Longrightarrow> pe = ps + n \<and> pe \<le> length bs \<and> c' \<le> pe"
  by (auto simp: native_pair_def Let_def result_simps split: if_splits)

text \<open>\<open>native_list\<close>: the loop over the pairs. The pairs of an embedded list follow its pair.\<close>

function native_pairs :: "byte list \<Rightarrow> nat \<Rightarrow> nv_list \<Rightarrow> (nv_list \<times> nat) result" where
  "native_pairs bs pair_start values =
     and_then (nv_le_u32 bs pair_start) (\<lambda>(pair_size, c).
     if pair_size = 0 then Inr (values, c)
     else if pair_size < 16 then Inl (Bail ''native nvpair has an invalid encoded size'')
     else and_then (native_pair bs pair_start (unat pair_size) c) (\<lambda>(name, count, value_type, pair_end, c).
       and_then
         (if value_type = 8 \<and> count = 1 then
            and_then (nv_le_u64 bs c) (\<lambda>(v, c). Inr (NvUint64 v, c))
          else if value_type = 9 \<and> count = 1 then Inr (NvIgnored, c)
          else if value_type = 19 \<and> count = 1 then
            if pair_end - c < 24 then Inl (Bail ''embedded native nvlist header is truncated'')
            else and_then (nv_le_u32 bs c) (\<lambda>(version, _).
              if version \<noteq> 0 then Inl (Bail ''unsupported embedded native nvlist version {version}'')
              else and_then (native_pairs bs pair_end []) (\<lambda>(nested, c). Inr (NvList nested, c)))
          else if value_type = 26 then
            and_then (nv_take bs c (unat count)) (\<lambda>(v, c). Inr (NvBytes v, c))
          else Inl (Bail ''unsupported native nvpair type {value_type} with {count} elements'')) (\<lambda>(value, c).
       if c > pair_end \<and> value_type \<noteq> 19 then Inl (Bail ''native nvpair payload exceeds its encoded size'')
       else native_pairs bs (max c pair_end) (bt_insert name value values))))"
  by pat_completeness auto

termination
  by (relation "measure (\<lambda>(bs, c, _). length bs - c)")
    (auto simp: word_less_nat_alt dest!: nv_reads_progress native_pair_Inr)

declare native_pairs.simps [simp del]

definition native_list :: "byte list \<Rightarrow> nat \<Rightarrow> bool \<Rightarrow> (nv_list \<times> nat) result" where
  "native_list bs cursor root =
     and_then
       (if root then
          and_then (nv_le_u32 bs cursor) (\<lambda>(version, c).
          and_then (nv_le_u32 bs c) (\<lambda>(_, c).
          if version \<noteq> 0 then Inl (Bail ''unsupported native nvlist version {version}'') else Inr c))
        else Inr cursor) (\<lambda>c.
     native_pairs bs c [])"

definition nv_decode :: "byte list \<Rightarrow> nv_list result" where
  "nv_decode bs =
     and_then (nv_take bs 0 4) (\<lambda>(header, c).
     if header = [0, 1, 0, 0] then and_then (native_list bs c True) (\<lambda>(values, _). Inr values)
     else if header ! 0 = 1 \<and> header ! 2 = 0 \<and> header ! 3 = 0 then
       and_then (xdr_list bs c) (\<lambda>(values, _). Inr values)
     else if header = [0, 0, 0, 0] then
       Inl (Bail ''big-endian native nvlists in raw streams are unsupported'')
     else Inl (Bail ''raw stream crypt_keydata has an unsupported nvlist encoding''))"

end
