(* ===== verification/Nvlist_Format.thy ===== *)
theory Nvlist_Format
  imports Nvlist
begin

text \<open>
  The native encoding of name-value lists, as ZFS writes it into the BEGIN record of a raw stream,
  and the round trip through the decoder: pairs of a fixed part, a NUL-terminated name and a value,
  each part aligned to eight bytes, with the pairs of an embedded list behind the pair that names it.
\<close>

section \<open>The encoder\<close>

definition nv_pad :: "nat \<Rightarrow> byte list" where
  "nv_pad n = replicate ((n + 7) div 8 * 8 - n) 0"

definition nv_pair_bytes :: "string \<Rightarrow> nat \<Rightarrow> nat \<Rightarrow> byte list \<Rightarrow> byte list" where
  "nv_pair_bytes name value_type count data =
     (let head = 17 + length name in
      le_bytes 4 (head + length (nv_pad head) + length data) @ le_bytes 2 (length name + 1) @ [0, 0] @
      le_bytes 4 count @ le_bytes 4 value_type @ (bytes_of_chars name @ [0]) @ nv_pad head @ data)"

fun nv_native :: "(string \<times> nv_value) list \<Rightarrow> byte list" where
  "nv_native [] = replicate 4 0"
| "nv_native ((name, NvUint64 v) # l) = nv_pair_bytes name 8 1 (le_bytes 8 (unat v)) @ nv_native l"
| "nv_native ((name, NvBytes b) # l) = nv_pair_bytes name 26 (length b) (b @ nv_pad (length b)) @ nv_native l"
| "nv_native ((name, NvList m) # l) = nv_pair_bytes name 19 1 (replicate 24 0) @ nv_native m @ nv_native l"
| "nv_native ((name, NvIgnored) # l) = nv_pair_bytes name 9 1 [] @ nv_native l"

definition nv_encode :: "(string \<times> nv_value) list \<Rightarrow> byte list" where
  "nv_encode l = [0, 1, 0, 0] @ replicate 8 0 @ nv_native l"

text \<open>Names are valid UTF-8 that fits the 16-bit name size, in embedded lists too.\<close>

definition nv_name_ok :: "string \<Rightarrow> bool" where
  "nv_name_ok name \<longleftrightarrow> utf8_valid (bytes_of_chars name) \<and> length name + 1 < 2 ^ 16"

fun nv_names_ok :: "(string \<times> nv_value) list \<Rightarrow> bool" where
  "nv_names_ok [] = True"
| "nv_names_ok ((name, NvList m) # l) = (nv_name_ok name \<and> nv_names_ok m \<and> nv_names_ok l)"
| "nv_names_ok ((name, v) # l) = (nv_name_ok name \<and> nv_names_ok l)"

text \<open>The map of a list: a later pair replaces an earlier one of the same name.\<close>

fun nv_collect :: "(string \<times> nv_value) list \<Rightarrow> nv_list \<Rightarrow> nv_list" where
  "nv_collect [] values = values"
| "nv_collect ((name, NvList m) # l) values = nv_collect l (bt_insert name (NvList (nv_collect m [])) values)"
| "nv_collect ((name, v) # l) values = nv_collect l (bt_insert name v values)"

section \<open>Reading parts of a payload\<close>

lemma nv_take_part: "length (pre @ part @ post) < 2 ^ 64 \<Longrightarrow>
  nv_take (pre @ part @ post) (length pre) (length part) = Inr (part, length pre + length part)"
  by (simp add: nv_take_def slice_def)

lemma nv_le_part:
  assumes "length (pre @ part @ post) < 2 ^ 64"
  shows "length part = 2 \<Longrightarrow> nv_le_u16 (pre @ part @ post) (length pre) = Inr (from_le_bytes part, length pre + 2)"
    and "length part = 4 \<Longrightarrow> nv_le_u32 (pre @ part @ post) (length pre) = Inr (from_le_bytes part, length pre + 4)"
    and "length part = 8 \<Longrightarrow> nv_le_u64 (pre @ part @ post) (length pre) = Inr (from_le_bytes part, length pre + 8)"
  using nv_take_part [OF assms] by (simp_all add: nv_le_u16_def nv_le_u32_def nv_le_u64_def)

lemma from_le_words:
  "n < 2 ^ 16 \<Longrightarrow> (from_le_bytes (le_bytes 2 n) :: u16) = of_nat n" "n < 2 ^ 32 \<Longrightarrow> (from_le_bytes (le_bytes 4 n) :: u32) = of_nat n"
  by (simp_all add: from_le_bytes_def le_nat_le_bytes)

lemma nv_pad_align: "n + length (nv_pad n) = (n + 7) div 8 * 8"
proof -
  have "n \<le> (n + 7) div 8 * 8" by presburger
  then show ?thesis by (simp add: nv_pad_def)
qed

lemma length_nv_pair_bytes:
  "length (nv_pair_bytes name value_type count data) = (24 + length name) div 8 * 8 + length data"
  using nv_pad_align [of "17 + length name"] by (simp add: nv_pair_bytes_def Let_def)

text \<open>The fixed part, the name and the padding of a pair; \<open>data\<close> starts at the cursor that is returned.\<close>

lemma native_pair_encoded:
  fixes pre data post :: "byte list" and name :: string and vt count :: nat
  defines "bs \<equiv> pre @ nv_pair_bytes name vt count data @ post"
  assumes "nv_name_ok name" and "vt < 2 ^ 32" and "count < 2 ^ 32" and "length bs < 2 ^ 32"
  shows "nv_le_u32 bs (length pre) = Inr (of_nat (length (nv_pair_bytes name vt count data)), length pre + 4)"
    and "native_pair bs (length pre) (length (nv_pair_bytes name vt count data)) (length pre + 4) =
      Inr (name, of_nat count, of_nat vt, length pre + length (nv_pair_bytes name vt count data),
        length pre + (24 + length name) div 8 * 8)"
proof -
  let ?n = "length (nv_pair_bytes name vt count data)"
  define s where "s = le_bytes 4 ?n"
  define ns where "ns = le_bytes 2 (length name + 1)"
  define cs where "cs = le_bytes 4 count"
  define vs where "vs = le_bytes 4 vt"
  define nm where "nm = bytes_of_chars name @ [0]"
  define pad where "pad = nv_pad (17 + length name)"
  have lens: "length s = 4" "length ns = 2" "length cs = 4" "length vs = 4" "length nm = length name + 1"
    by (simp_all add: s_def ns_def cs_def vs_def nm_def)
  have small: "length bs < 2 ^ 64" "?n < 2 ^ 32" using assms(5) by (simp_all add: bs_def)
  have bs: "bs = pre @ s @ ns @ [0, 0] @ cs @ vs @ nm @ pad @ data @ post"
    by (simp add: bs_def nv_pair_bytes_def Let_def s_def ns_def cs_def vs_def nm_def pad_def add.assoc)
  define nl :: u16 where "nl = of_nat (length name + 1)"
  have u: "unat nl = length name + 1"
    using assms(2) unfolding nv_name_ok_def nl_def by (simp only: unsigned_of_nat) (simp add: take_bit_eq_mod)
  then have nz: "nl \<noteq> 0" by (metis add_is_0 unat_0 zero_neq_one)
  have le: "from_le_bytes s = (of_nat ?n :: u32)" "from_le_bytes ns = nl"
    "from_le_bytes cs = (of_nat count :: u32)" "from_le_bytes vs = (of_nat vt :: u32)"
    using assms(2-4) small(2) unfolding s_def ns_def cs_def vs_def nl_def nv_name_ok_def by (simp_all only: from_le_words)
  show "nv_le_u32 bs (length pre) = Inr (of_nat ?n, length pre + 4)"
    using nv_le_part(2) [of pre s "ns @ [0, 0] @ cs @ vs @ nm @ pad @ data @ post"] small(1) lens le by (simp add: bs)
  have r1: "nv_le_u16 bs (length pre + 4) = Inr (nl, length pre + 6)"
    using nv_le_part(1) [of "pre @ s" ns "[0, 0] @ cs @ vs @ nm @ pad @ data @ post"] small(1) lens le by (simp add: bs)
  have r2: "nv_take bs (length pre + 6) 2 = Inr ([0, 0], length pre + 8)"
    using nv_take_part [of "pre @ s @ ns" "[0, 0]" "cs @ vs @ nm @ pad @ data @ post"] small(1) lens by (simp add: bs numeral_2_eq_2)
  have r3: "nv_le_u32 bs (length pre + 8) = Inr (of_nat count, length pre + 12)"
    using nv_le_part(2) [of "pre @ s @ ns @ [0, 0]" cs "vs @ nm @ pad @ data @ post"] small(1) lens le by (simp add: bs)
  have r4: "nv_le_u32 bs (length pre + 12) = Inr (of_nat vt, length pre + 16)"
    using nv_le_part(2) [of "pre @ s @ ns @ [0, 0] @ cs" vs "nm @ pad @ data @ post"] small(1) lens le by (simp add: bs)
  have r5: "nv_take bs (length pre + 16) (length name + 1) = Inr (nm, length pre + (17 + length name))"
    using nv_take_part [of "pre @ s @ ns @ [0, 0] @ cs @ vs" nm "pad @ data @ post"] small(1) lens by (simp add: bs)
  have name: "last nm = 0" "from_utf8 (butlast nm) = Some name"
    using assms(2) by (simp_all add: nm_def nv_name_ok_def from_utf8_def)
  have "17 + length name + 7 < 2 ^ 64" using assms(2) by (simp add: nv_name_ok_def)
  then have al: "align_8 (17 + length name) = Some ((24 + length name) div 8 * 8)"
    by (simp add: align_8_def)
  have fit: "length pre + ?n \<le> length bs" "(24 + length name) div 8 * 8 \<le> ?n"
    by (simp_all add: bs_def length_nv_pair_bytes)
  show "native_pair bs (length pre) ?n (length pre + 4) =
      Inr (name, of_nat count, of_nat vt, length pre + ?n, length pre + (24 + length name) div 8 * 8)"
    using fit r5 by (simp add: native_pair_def Let_def r1 r2 r3 r4 u nz name al)
qed

section \<open>Decoding inverts encoding\<close>

lemma u32_small:
  "n < 2 ^ 32 \<Longrightarrow> unat (of_nat n :: u32) = n" "0 < n \<Longrightarrow> n < 2 ^ 32 \<Longrightarrow> (of_nat n :: u32) \<noteq> 0"
  "16 \<le> n \<Longrightarrow> n < 2 ^ 32 \<Longrightarrow> \<not> (of_nat n :: u32) < 16"
  by (simp_all add: unsigned_of_nat take_bit_eq_mod word_less_nat_alt word_unat_eq_iff)

text \<open>One step of the loop: the decoded value \<open>v\<close> of the pair at the end of \<open>pre\<close>, and the cursor behind it.\<close>

lemma native_pairs_step:
  fixes pre data post :: "byte list" and name :: string and vt count :: nat
  defines "pair \<equiv> nv_pair_bytes name vt count data"
  defines "bs \<equiv> pre @ pair @ post" and "p \<equiv> length pre + (24 + length name) div 8 * 8"
  assumes ok: "nv_name_ok name" "vt < 2 ^ 32" "count < 2 ^ 32" "length bs < 2 ^ 32"
    and val: "(if vt = 8 \<and> count = 1 then and_then (nv_le_u64 bs p) (\<lambda>(v, c). Inr (NvUint64 v, c))
      else if vt = 9 \<and> count = 1 then Inr (NvIgnored, p)
      else if vt = 19 \<and> count = 1 then
        if length data < 24 then Inl (Bail ''embedded native nvlist header is truncated'')
        else and_then (nv_le_u32 bs p) (\<lambda>(version, _).
          if version \<noteq> 0 then Inl (Bail ''unsupported embedded native nvlist version {version}'')
          else and_then (native_pairs bs (length pre + length pair) []) (\<lambda>(nested, c). Inr (NvList nested, c)))
      else if vt = 26 then and_then (nv_take bs p count) (\<lambda>(v, c). Inr (NvBytes v, c))
      else Inl (Bail ''unsupported native nvpair type {value_type} with {count} elements'')) = Inr (v, c)"
    and c: "vt = 19 \<or> c \<le> length pre + length pair"
  shows "native_pairs bs (length pre) values = native_pairs bs (max c (length pre + length pair)) (bt_insert name v values)"
proof -
  have n: "length pair = (24 + length name) div 8 * 8 + length data" by (simp add: pair_def length_nv_pair_bytes)
  have "24 \<le> (24 + length name) div 8 * 8" by presburger
  then have small: "16 \<le> length pair" "length pair < 2 ^ 32" using n ok(4) by (simp_all add: bs_def)
  note enc = native_pair_encoded [OF ok(1-3), of pre data post, folded pair_def, folded bs_def, OF ok(4)]
  have w: "(of_nat a :: u32) = of_nat b \<longleftrightarrow> a = b" if "a < 2 ^ 32" "b < 2 ^ 32" for a b
    using that u32_small(1) by metis
  have vt: "(of_nat vt :: u32) = 8 \<longleftrightarrow> vt = 8" "(of_nat vt :: u32) = 9 \<longleftrightarrow> vt = 9" "(of_nat vt :: u32) = 19 \<longleftrightarrow> vt = 19"
    "(of_nat vt :: u32) = 26 \<longleftrightarrow> vt = 26" "(of_nat count :: u32) = 1 \<longleftrightarrow> count = 1"
    using w [OF ok(2), of 8] w [OF ok(2), of 9] w [OF ok(2), of 19] w [OF ok(2), of 26] w [OF ok(3), of 1] by simp_all
  have d: "length pre + length pair - p = length data" by (simp add: n p_def)
  have nz: "(of_nat (length pair) :: u32) \<noteq> 0" by (rule u32_small(2)) (use small in linarith)+
  show ?thesis
    unfolding native_pairs.simps [of bs "length pre"] enc(1) and_then_simps prod.case
    using nz u32_small(3) [OF small] enc(2) val c
    by (auto simp: u32_small(1) [OF small(2)] u32_small(1) [OF ok(3)] vt d simp flip: p_def split: if_splits)
qed

lemma nv_zeros: "from_le_bytes (replicate 4 0) = (0 :: u32)"
  by (simp add: from_le_bytes_def numeral_eq_Suc)

lemma native_pairs_end:
  "length (pre @ replicate 4 0 @ post) < 2 ^ 64 \<Longrightarrow>
   native_pairs (pre @ replicate 4 0 @ post) (length pre) vals = Inr (vals, length pre + 4)"
  using nv_le_part(2) [of pre "replicate 4 0" post] by (subst native_pairs.simps) (simp add: nv_zeros)

lemma nv_pair_head:
  obtains head where "nv_pair_bytes name vt count data = head @ data" and "length head = (24 + length name) div 8 * 8"
proof
  let ?head = "le_bytes 4 (17 + length name + length (nv_pad (17 + length name)) + length data) @ le_bytes 2 (length name + 1) @ [0, 0] @
      le_bytes 4 count @ le_bytes 4 vt @ (bytes_of_chars name @ [0]) @ nv_pad (17 + length name)"
  show "nv_pair_bytes name vt count data = ?head @ data" by (simp add: nv_pair_bytes_def Let_def)
  then show "length ?head = (24 + length name) div 8 * 8" using length_nv_pair_bytes [of name vt count data] by simp
qed

lemma native_pairs_encoded:
  "nv_names_ok l \<Longrightarrow> length (pre @ nv_native l @ post) < 2 ^ 32 \<Longrightarrow>
   native_pairs (pre @ nv_native l @ post) (length pre) vals = Inr (nv_collect l vals, length pre + length (nv_native l))"
proof (induction l arbitrary: pre post vals rule: nv_native.induct)
  case 1
  then show ?case using native_pairs_end [of pre post] by simp
next
  case (2 name v l)
  let ?p = "nv_pair_bytes name 8 1 (le_bytes 8 (unat v))" and ?post = "nv_native l @ post"
  obtain head where h: "?p = head @ le_bytes 8 (unat v)" "length head = (24 + length name) div 8 * 8" by (rule nv_pair_head)
  have "nv_le_u64 (pre @ ?p @ ?post) (length pre + (24 + length name) div 8 * 8) = Inr (v, length pre + length ?p)"
    using nv_le_part(3) [of "pre @ head" "le_bytes 8 (unat v)" ?post] 2(3) [unfolded nv_native.simps h(1)] h(2) unfolding h(1) by (simp add: add.assoc)
  then have "native_pairs (pre @ ?p @ ?post) (length pre) vals =
      native_pairs (pre @ ?p @ ?post) (length pre + length ?p) (bt_insert name (NvUint64 v) vals)"
    using native_pairs_step [of name 8 1 pre "le_bytes 8 (unat v)" ?post "NvUint64 v" "length pre + length ?p" vals] 2(2,3) by simp
  then show ?case using 2(1) [of "pre @ ?p"] 2(2,3) by simp
next
  case (3 name b l)
  let ?p = "nv_pair_bytes name 26 (length b) (b @ nv_pad (length b))" and ?post = "nv_native l @ post"
  obtain head where h: "?p = head @ b @ nv_pad (length b)" "length head = (24 + length name) div 8 * 8" by (rule nv_pair_head)
  let ?c = "length pre + (24 + length name) div 8 * 8"
  have "nv_take (pre @ ?p @ ?post) ?c (length b) = Inr (b, ?c + length b)"
    using nv_take_part [of "pre @ head" b "nv_pad (length b) @ ?post"] 3(3) [unfolded nv_native.simps h(1)] h(2) unfolding h(1) by (simp add: add.assoc)
  moreover have "?c + length b \<le> length pre + length ?p" unfolding h(1) using h(2) by simp
  moreover have "length b < 2 ^ 32" using 3(3) unfolding nv_native.simps h(1) by simp
  ultimately have "native_pairs (pre @ ?p @ ?post) (length pre) vals =
      native_pairs (pre @ ?p @ ?post) (length pre + length ?p) (bt_insert name (NvBytes b) vals)"
    using native_pairs_step [of name 26 "length b" pre "b @ nv_pad (length b)" ?post "NvBytes b" "?c + length b" vals] 3(2,3)
    by (simp add: max_absorb2)
  then show ?case using 3(1) [of "pre @ ?p"] 3(2,3) by simp
next
  case (4 name m l)
  let ?p = "nv_pair_bytes name 19 1 (replicate 24 0)" and ?post = "nv_native m @ nv_native l @ post"
  obtain head where h: "?p = head @ replicate 24 0" "length head = (24 + length name) div 8 * 8" by (rule nv_pair_head)
  let ?c = "length pre + (24 + length name) div 8 * 8" and ?e = "length pre + length ?p + length (nv_native m)"
  have z: "replicate 24 (0 :: byte) = replicate 4 0 @ replicate 20 0" by (simp flip: replicate_add)
  have "nv_le_u32 (pre @ ?p @ ?post) ?c = Inr (0, ?c + 4)"
    using nv_le_part(2) [of "pre @ head" "replicate 4 0" "replicate 20 0 @ ?post"] 4(4) [unfolded nv_native.simps h(1)] h(2) unfolding h(1)
    by (simp add: z nv_zeros add.assoc)
  moreover have "native_pairs (pre @ ?p @ ?post) (length pre + length ?p) [] = Inr (nv_collect m [], ?e)"
    using 4(1) [of "pre @ ?p" "nv_native l @ post" "[]"] 4(3,4) by simp
  ultimately have "native_pairs (pre @ ?p @ ?post) (length pre) vals =
      native_pairs (pre @ ?p @ ?post) ?e (bt_insert name (NvList (nv_collect m [])) vals)"
    using native_pairs_step [of name 19 1 pre "replicate 24 0" ?post "NvList (nv_collect m [])" ?e vals] 4(3,4)
    by (simp add: max_absorb1)
  then show ?case using 4(2) [of "pre @ ?p @ nv_native m"] 4(3,4) by (simp add: add.assoc)
next
  case (5 name l)
  let ?p = "nv_pair_bytes name 9 1 []"
  have "native_pairs (pre @ ?p @ nv_native l @ post) (length pre) vals =
      native_pairs (pre @ ?p @ nv_native l @ post) (length pre + length ?p) (bt_insert name NvIgnored vals)"
    using native_pairs_step [of name 9 1 pre "[]" "nv_native l @ post" NvIgnored "length pre + (24 + length name) div 8 * 8" vals] 5(2,3)
    by (simp add: length_nv_pair_bytes)
  then show ?case using 5(1) [of "pre @ ?p"] 5(2,3) by simp
qed

lemma nv_decode_encoded:
  assumes "nv_names_ok l" and "length (nv_encode l @ post) < 2 ^ 32"
  shows "nv_decode (nv_encode l @ post) = Inr (nv_collect l [])"
proof -
  let ?bs = "nv_encode l @ post"
  have small: "length ?bs < 2 ^ 64" using assms(2) by simp
  have bs: "?bs = [0, 1, 0, 0] @ replicate 4 0 @ replicate 4 0 @ nv_native l @ post"
    by (simp add: nv_encode_def flip: replicate_add)
  have h: "nv_take ?bs 0 4 = Inr ([0, 1, 0, 0], 4)"
    using small by (simp add: nv_take_def nv_encode_def slice_def)
  have v: "nv_le_u32 ?bs (Suc (Suc (Suc (Suc 0)))) = Inr (0, 8)" "nv_le_u32 ?bs 8 = Inr (0, 12)"
    using nv_le_part(2) [of "[0, 1, 0, 0]" "replicate 4 0" "replicate 4 0 @ nv_native l @ post"]
      nv_le_part(2) [of "[0, 1, 0, 0] @ replicate 4 0" "replicate 4 0" "nv_native l @ post"] small unfolding bs
    by (simp_all add: nv_zeros)
  have p: "native_pairs ?bs 12 [] = Inr (nv_collect l [], 12 + length (nv_native l))"
    using native_pairs_encoded [of l "[0, 1, 0, 0] @ replicate 8 0" post "[]"] assms by (simp add: nv_encode_def)
  have "nv_le_u32 ?bs 4 = nv_le_u32 ?bs (Suc (Suc (Suc (Suc 0))))" by (rule arg_cong) simp
  then show ?thesis using v by (simp add: nv_decode_def native_list_def h p)
qed

section \<open>Property\<close>

text \<open>The key parameters of an encrypted dataset, as the BEGIN record of a raw stream holds them.\<close>

definition raw_demo_keydata :: "(string \<times> nv_value) list" where
  "raw_demo_keydata = [(''DSL_CRYPTO_SUITE'', NvUint64 8), (''DSL_CRYPTO_GUID'', NvUint64 7), (''DSL_CRYPTO_VERSION'', NvUint64 1),
     (''DSL_CRYPTO_MASTER_KEY_1'', NvBytes (replicate 32 1)), (''DSL_CRYPTO_HMAC_KEY_1'', NvBytes (replicate 64 2)),
     (''DSL_CRYPTO_IV'', NvBytes (replicate 12 0)), (''DSL_CRYPTO_MAC'', NvBytes (replicate 16 0)),
     (''keyformat'', NvUint64 1), (''pbkdf2iters'', NvUint64 0), (''pbkdf2salt'', NvUint64 0)]"

definition raw_demo_payload :: "byte list" where
  "raw_demo_payload = nv_encode [(''crypt_keydata'', NvList raw_demo_keydata)]"

lemma length_raw_demo_payload: "length raw_demo_payload = 604"
  by (simp add: raw_demo_payload_def raw_demo_keydata_def nv_encode_def length_nv_pair_bytes nv_pad_def)

lemma raw_demo_names: "nv_names_ok [(''crypt_keydata'', NvList raw_demo_keydata)]"
  by (simp add: raw_demo_keydata_def nv_name_ok_def utf8_valid_ascii bytes_of_chars_def)

text \<open>C34: the decoder inverts the native encoding of name-value lists: whatever pairs, in whatever
  order and however deeply nested, a list encodes, and whatever bytes follow it, decoding gives the
  map of its pairs, in which a later pair replaces an earlier one of the same name. The names are
  valid UTF-8 of fewer than 65535 bytes and the payload is smaller than four gigabytes, as the
  fields of the format require.\<close>

theorem nvlist_round_trip:
  assumes "nv_names_ok l" and "length (nv_encode l @ post) < 2 ^ 32"
  shows "nv_decode (nv_encode l @ post) = Inr (nv_collect l [])"
  using assms by (rule nv_decode_encoded)

theorem nvlist_round_trip_witness:
  "\<exists>values keydata. nv_decode (raw_demo_payload @ [1, 2, 3, 4]) = Inr values \<and>
     bt_get values ''crypt_keydata'' = Some (NvList keydata) \<and> bt_get keydata ''DSL_CRYPTO_SUITE'' = Some (NvUint64 8)"
proof -
  have "nv_decode (raw_demo_payload @ [1, 2, 3, 4]) = Inr (nv_collect [(''crypt_keydata'', NvList raw_demo_keydata)] [])"
    using nvlist_round_trip [OF raw_demo_names, of "[1, 2, 3, 4]"] length_raw_demo_payload by (simp add: raw_demo_payload_def)
  then show ?thesis by (simp add: raw_demo_keydata_def bt_get_insert del: bt_insert.simps)
qed

end
