(* ===== verification/Encrypted.thy ===== *)
theory Encrypted
  imports Nvlist Compression
begin

text \<open>
  Keys, dnode authentication and block decryption of raw (encrypted) send streams and encrypted
  pool members (src/encrypted.rs). The ciphers and hashes of the crates \<open>ccm\<close>, \<open>aes_gcm\<close>,
  \<open>hkdf\<close>, \<open>hmac\<close>, \<open>pbkdf2\<close> and \<open>sha2\<close> are the parameter \<open>crypto\<close>; \<open>crypto_lengths\<close> states the
  lengths their interfaces fix (decryption is in place, digests have 64 bytes).
\<close>

section \<open>Cryptographic primitives\<close>

record crypto =
  aes_ccm :: "byte list \<Rightarrow> byte list \<Rightarrow> byte list \<Rightarrow> byte list \<Rightarrow> byte list \<Rightarrow> byte list option"
  aes_gcm :: "byte list \<Rightarrow> byte list \<Rightarrow> byte list \<Rightarrow> byte list \<Rightarrow> byte list \<Rightarrow> byte list option"
  hkdf_sha512 :: "byte list \<Rightarrow> byte list \<Rightarrow> nat \<Rightarrow> byte list option"
  hmac_sha512 :: "byte list \<Rightarrow> byte list \<Rightarrow> byte list"
  pbkdf2_sha1 :: "byte list \<Rightarrow> byte list \<Rightarrow> nat \<Rightarrow> byte list"
  sha512 :: "byte list \<Rightarrow> byte list"

definition crypto_lengths :: "crypto \<Rightarrow> bool" where
  "crypto_lengths k \<longleftrightarrow>
     (\<forall>key iv aad buf mac out. aes_ccm k key iv aad buf mac = Some out \<longrightarrow> length out = length buf) \<and>
     (\<forall>key iv aad buf mac out. aes_gcm k key iv aad buf mac = Some out \<longrightarrow> length out = length buf) \<and>
     (\<forall>ikm info n out. hkdf_sha512 k ikm info n = Some out \<longrightarrow> length out = n) \<and>
     (\<forall>key data. length (hmac_sha512 k key data) = 64) \<and>
     (\<forall>pw salt n. length (pbkdf2_sha1 k pw salt n) = 32) \<and>
     (\<forall>data. length (sha512 k data) = 64)"

section \<open>Model\<close>

definition KEYFORMAT_RAW :: u64 where "KEYFORMAT_RAW = 1"
definition KEYFORMAT_HEX :: u64 where "KEYFORMAT_HEX = 2"
definition KEYFORMAT_PASSPHRASE :: u64 where "KEYFORMAT_PASSPHRASE = 3"
definition MAX_PBKDF2_ITERATIONS :: u64 where "MAX_PBKDF2_ITERATIONS = 10000000"

record encryption_params =
  ep_suite :: u64
  ep_guid :: u64
  ep_version :: u64
  ep_key_format :: u64
  ep_pbkdf2_iterations :: u64
  ep_pbkdf2_salt :: u64
  ep_wrapped_master_key :: "byte list"
  ep_wrapped_hmac_key :: "byte list"
  ep_wrapping_iv :: "byte list"
  ep_wrapping_mac :: "byte list"

record dataset_key =
  dk_suite :: u64
  dk_crypto_version :: u64
  dk_master_key :: "byte list"
  dk_hmac_key :: "byte list"

record raw_block_pointer =
  rb_block_id :: u64
  rb_object_type :: u32
  rb_logical_size :: u64
  rb_physical_size :: u64
  rb_compression :: byte
  rb_flags :: byte
  rb_mac :: "byte list"

record raw_dnode =
  rd_object :: u64
  rd_object_type :: u32
  rd_bonus_type :: u32
  rd_block_size :: u32
  rd_bonus_length :: u32
  rd_checksum_type :: byte
  rd_compression :: byte
  rd_slots :: byte
  rd_flags :: byte
  rd_indirect_block_shift :: byte
  rd_levels :: byte
  rd_block_pointers :: byte
  rd_max_block_id :: u64
  rd_bonus_ciphertext :: "byte list"
  rd_blocks :: "raw_block_pointer list"
  rd_spill :: "raw_block_pointer option"

record raw_sidecar_state =
  rs_crypto_guid :: u64
  rs_crypto_version :: u64
  rs_first_object :: u64
  rs_object_slots :: u64
  rs_dnodes :: "raw_dnode list"
  rs_target_spill :: "byte list option"

record raw_dnode_range =
  rr_first_object :: u64
  rr_object_slots :: u64
  rr_salt :: "byte list"
  rr_iv :: "byte list"
  rr_mac :: "byte list"
  rr_flags :: byte
  rr_crypto_version :: u64

subsection \<open>Key parameters\<close>

definition nv_uint64 :: "nv_list \<Rightarrow> string \<Rightarrow> u64 result" where
  "nv_uint64 values name =
     (case bt_get values name of
        Some (NvUint64 v) \<Rightarrow> Inr v
      | _ \<Rightarrow> Inl (Bail ''raw stream crypt_keydata has no uint64 {name:?}''))"

definition nv_bytes :: "nv_list \<Rightarrow> string \<Rightarrow> byte list result" where
  "nv_bytes values name =
     (case bt_get values name of
        Some (NvBytes v) \<Rightarrow> Inr v
      | _ \<Rightarrow> Inl (Bail ''raw stream crypt_keydata has no byte array {name:?}''))"

definition nv_array :: "nat \<Rightarrow> byte list \<Rightarrow> byte list result" where
  "nv_array n bs =
     (if length bs = n then Inr bs else Inl (Bail ''raw stream {name} has length {}, expected {N}''))"

definition from_begin_payload :: "byte list \<Rightarrow> encryption_params result" where
  "from_begin_payload payload =
     and_then (nv_decode payload) (\<lambda>values.
     and_then
       (case bt_get values ''crypt_keydata'' of
          Some (NvList c) \<Rightarrow> Inr c
        | _ \<Rightarrow> Inl (Bail ''raw stream BEGIN record has no crypt_keydata nvlist'')) (\<lambda>crypto.
     and_then (and_then (nv_bytes crypto ''DSL_CRYPTO_IV'') (nv_array 12)) (\<lambda>iv.
     and_then (and_then (nv_bytes crypto ''DSL_CRYPTO_MAC'') (nv_array 16)) (\<lambda>mac.
     and_then (nv_uint64 crypto ''DSL_CRYPTO_SUITE'') (\<lambda>suite.
     and_then (nv_uint64 crypto ''DSL_CRYPTO_GUID'') (\<lambda>guid.
     and_then (nv_uint64 crypto ''DSL_CRYPTO_VERSION'') (\<lambda>version.
     and_then (nv_uint64 crypto ''keyformat'') (\<lambda>key_format.
     and_then (nv_uint64 crypto ''pbkdf2iters'') (\<lambda>iters.
     and_then (nv_uint64 crypto ''pbkdf2salt'') (\<lambda>salt.
     and_then (nv_bytes crypto ''DSL_CRYPTO_MASTER_KEY_1'') (\<lambda>master.
     and_then (nv_bytes crypto ''DSL_CRYPTO_HMAC_KEY_1'') (\<lambda>hmac.
     Inr \<lparr>ep_suite = suite, ep_guid = guid, ep_version = version, ep_key_format = key_format,
          ep_pbkdf2_iterations = iters, ep_pbkdf2_salt = salt, ep_wrapped_master_key = master,
          ep_wrapped_hmac_key = hmac, ep_wrapping_iv = iv, ep_wrapping_mac = mac\<rparr>))))))))))))"

definition key_format_name :: "encryption_params \<Rightarrow> string result" where
  "key_format_name p =
     (if ep_key_format p = KEYFORMAT_RAW then Inr ''raw''
      else if ep_key_format p = KEYFORMAT_HEX then Inr ''hex''
      else if ep_key_format p = KEYFORMAT_PASSPHRASE then Inr ''passphrase''
      else Inl (Bail ''unsupported ZFS keyformat value {value}''))"

definition suite_key_len :: "u64 \<Rightarrow> nat result" where
  "suite_key_len suite =
     (if suite = 3 \<or> suite = 6 then Inr 16
      else if suite = 4 \<or> suite = 7 then Inr 24
      else if suite = 5 \<or> suite = 8 then Inr 32
      else Inl (Bail ''unsupported ZFS encryption suite value {value}''))"

definition pool_optional_u64 :: "(string, byte list) btree \<Rightarrow> string \<Rightarrow> u64 option result" where
  "pool_optional_u64 values name =
     (case bt_get values name of
        None \<Rightarrow> Inr None
      | Some v \<Rightarrow>
          if length v = 8 then Inr (Some (from_le_bytes v))
          else Inl (Bail ''DSL crypto-key ZAP {name} entry is not a uint64''))"

definition pool_u64 :: "(string, byte list) btree \<Rightarrow> string \<Rightarrow> u64 result" where
  "pool_u64 values name =
     and_then (pool_optional_u64 values name) (\<lambda>v. ok_or v (Bail ''DSL crypto-key ZAP has no {name} entry''))"

definition pool_bytes :: "(string, byte list) btree \<Rightarrow> string \<Rightarrow> nat \<Rightarrow> byte list result" where
  "pool_bytes values name len =
     and_then (ok_or (bt_get values name) (Bail ''DSL crypto-key ZAP has no {name} entry'')) (\<lambda>v.
     if length v \<noteq> len then Inl (Bail ''DSL crypto-key ZAP {name} entry is {} bytes, expected {length}'')
     else Inr v)"

definition from_pool_zap :: "(string, byte list) btree \<Rightarrow> encryption_params result" where
  "from_pool_zap values =
     and_then (pool_u64 values ''DSL_CRYPTO_SUITE'') (\<lambda>suite.
     and_then (suite_key_len suite) (\<lambda>key_len.
     and_then (pool_bytes values ''DSL_CRYPTO_MASTER_KEY_1'' 32) (\<lambda>master.
     and_then (pool_u64 values ''DSL_CRYPTO_GUID'') (\<lambda>guid.
     and_then (pool_optional_u64 values ''DSL_CRYPTO_VERSION'') (\<lambda>version.
     and_then (pool_u64 values ''keyformat'') (\<lambda>key_format.
     and_then (pool_u64 values ''pbkdf2iters'') (\<lambda>iters.
     and_then (pool_u64 values ''pbkdf2salt'') (\<lambda>salt.
     and_then (index_range master 0 key_len) (\<lambda>master_key.
     and_then (pool_bytes values ''DSL_CRYPTO_HMAC_KEY_1'' 64) (\<lambda>hmac.
     and_then (and_then (pool_bytes values ''DSL_CRYPTO_IV'' 12) (nv_array 12)) (\<lambda>iv.
     and_then (and_then (pool_bytes values ''DSL_CRYPTO_MAC'' 16) (nv_array 16)) (\<lambda>mac.
     Inr \<lparr>ep_suite = suite, ep_guid = guid,
          ep_version = (case version of None \<Rightarrow> 0 | Some v \<Rightarrow> v), ep_key_format = key_format,
          ep_pbkdf2_iterations = iters, ep_pbkdf2_salt = salt, ep_wrapped_master_key = master_key,
          ep_wrapped_hmac_key = hmac, ep_wrapping_iv = iv, ep_wrapping_mac = mac\<rparr>))))))))))))"

text \<open>\<open>u8::from_str_radix(text, 16)\<close>, and the loop over \<open>chunks_exact(2)\<close>.\<close>

definition from_str_radix_u8 :: "string \<Rightarrow> byte option" where
  "from_str_radix_u8 s =
     (case from_str_radix 16 s of None \<Rightarrow> None | Some v \<Rightarrow> if unat v < 256 then Some (ucast v) else None)"

fun decode_hex_pairs :: "byte list \<Rightarrow> byte list result" where
  "decode_hex_pairs (a # b # rest) =
     and_then (ok_or (from_utf8 [a, b]) (Bail ''hex ZFS key is not UTF-8'')) (\<lambda>text.
     and_then (ok_or (from_str_radix_u8 text) (Bail ''invalid hexadecimal byte at key position {}'')) (\<lambda>v.
     and_then (decode_hex_pairs rest) (\<lambda>vs. Inr (v # vs))))"
| "decode_hex_pairs _ = Inr []"

definition decode_hex_key :: "byte list \<Rightarrow> byte list result" where
  "decode_hex_key material =
     (if length material \<noteq> 64
      then Inl (Bail ''hex ZFS key must contain exactly 64 hexadecimal characters'')
      else decode_hex_pairs material)"

text \<open>A trailing \<open>\n\<close> or \<open>\r\n\<close> is dropped.\<close>

definition strip_newline :: "byte list \<Rightarrow> byte list" where
  "strip_newline m =
     (if m \<noteq> [] \<and> last m = 10
      then (let m' = butlast m in if m' \<noteq> [] \<and> last m' = 13 then butlast m' else m')
      else m)"

definition normalize_key_file_material :: "string \<Rightarrow> byte list \<Rightarrow> byte list result" where
  "normalize_key_file_material key_format material =
     (if key_format \<noteq> ''raw'' then Inr (strip_newline material)
      else let m = (if length material = 65 \<or> length material = 66 then strip_newline material else material) in
        if length m = 64 then decode_hex_key m else Inr m)"

subsection \<open>Decryption\<close>

definition decrypt_aead ::
  "crypto \<Rightarrow> u64 \<Rightarrow> byte list \<Rightarrow> byte list \<Rightarrow> byte list \<Rightarrow> byte list \<Rightarrow> byte list \<Rightarrow> byte list option" where
  "decrypt_aead k suite key iv aad buffer mac =
     (if suite = 3 then if length key = 16 then aes_ccm k key iv aad buffer mac else None
      else if suite = 4 then if length key = 24 then aes_ccm k key iv aad buffer mac else None
      else if suite = 5 then if length key = 32 then aes_ccm k key iv aad buffer mac else None
      else if suite = 6 then if length key = 16 then aes_gcm k key iv aad buffer mac else None
      else if suite = 7 then if length key = 24 then aes_gcm k key iv aad buffer mac else None
      else if suite = 8 then if length key = 32 then aes_gcm k key iv aad buffer mac else None
      else None)"

definition wrapping_key :: "crypto \<Rightarrow> encryption_params \<Rightarrow> byte list \<Rightarrow> byte list result" where
  "wrapping_key k p material =
     (if ep_key_format p = KEYFORMAT_RAW then
        if length material \<noteq> 32 then Inl (Bail ''raw ZFS key must be exactly 32 bytes'') else Inr material
      else if ep_key_format p = KEYFORMAT_HEX then decode_hex_key material
      else if ep_key_format p = KEYFORMAT_PASSPHRASE then
        if length material < 8 \<or> 512 < length material
        then Inl (Bail ''ZFS passphrase must contain between 8 and 512 bytes'')
        else if ep_pbkdf2_iterations p > MAX_PBKDF2_ITERATIONS
        then Inl (Bail ''PBKDF2 iteration count {} exceeds the safety limit of {MAX_PBKDF2_ITERATIONS}'')
        else if ep_pbkdf2_iterations p = 0
        then Inl (Bail ''raw stream has an invalid zero PBKDF2 iteration count'')
        else if 0 \<in> set material
        then Inl (Bail ''passphrase contains a NUL byte, which OpenZFS does not support'')
        else Inr (pbkdf2_sha1 k material (le_bytes 8 (unat (ep_pbkdf2_salt p))) (unat (ep_pbkdf2_iterations p)))
      else Inl (Bail ''unsupported ZFS keyformat value {value}''))"

definition unlock :: "crypto \<Rightarrow> encryption_params \<Rightarrow> byte list \<Rightarrow> dataset_key result" where
  "unlock k p material =
     and_then (wrapping_key k p material) (\<lambda>wkey.
     and_then (suite_key_len (ep_suite p)) (\<lambda>key_len.
     if length (ep_wrapped_master_key p) \<noteq> key_len \<or> length (ep_wrapped_hmac_key p) \<noteq> 64
     then Inl (Bail ''raw stream contains malformed wrapped key material'')
     else let ciphertext = ep_wrapped_master_key p @ ep_wrapped_hmac_key p in
       and_then
         (if ep_version p = 0 then Inr (le_bytes 8 (unat (ep_guid p)))
          else if ep_version p = 1 then
            Inr (le_bytes 8 (unat (ep_guid p)) @ le_bytes 8 (unat (ep_suite p)) @ le_bytes 8 (unat (ep_version p)))
          else Inl (Bail ''unsupported ZFS encryption key version {}'')) (\<lambda>aad.
       and_then (ok_or (decrypt_aead k (ep_suite p) wkey (ep_wrapping_iv p) aad ciphertext (ep_wrapping_mac p))
         (Bail ''the supplied key did not authenticate the encrypted ZFS dataset'')) (\<lambda>plain.
       Inr \<lparr>dk_suite = ep_suite p, dk_crypto_version = ep_version p,
            dk_master_key = take key_len plain, dk_hmac_key = drop key_len plain\<rparr>))))"

definition decrypt_block ::
  "crypto \<Rightarrow> dataset_key \<Rightarrow> byte list \<Rightarrow> byte list \<Rightarrow> byte list \<Rightarrow> byte list \<Rightarrow> byte list \<Rightarrow> byte list result" where
  "decrypt_block k key salt iv mac aad ciphertext =
     and_then (ok_or (hkdf_sha512 k (dk_master_key key) salt (length (dk_master_key key)))
       (Bail ''could not derive an encrypted ZFS block key'')) (\<lambda>block_key.
     ok_or (decrypt_aead k (dk_suite key) block_key iv aad ciphertext mac)
       (Bail ''encrypted ZFS block failed authentication''))"

definition authenticate_bytes :: "crypto \<Rightarrow> dataset_key \<Rightarrow> byte list \<Rightarrow> byte list \<Rightarrow> unit result" where
  "authenticate_bytes k key data expected =
     (if expected = [] \<or> length expected > 64 then Inl (Bail ''invalid authenticated ZFS digest length {}'')
      else if take (length expected) (hmac_sha512 k (dk_hmac_key key) data) \<noteq> expected
      then Inl (Bail ''authenticated ZFS block failed HMAC verification'')
      else Inr ())"

definition authenticate_block :: "crypto \<Rightarrow> dataset_key \<Rightarrow> byte list \<Rightarrow> byte list \<Rightarrow> unit result" where
  "authenticate_block k key data expected = authenticate_bytes k key data expected"

definition is_encrypted_object_type :: "u32 \<Rightarrow> bool" where
  "is_encrypted_object_type t \<longleftrightarrow>
     (if t AND 0x80 \<noteq> 0 then t AND 0x20 \<noteq> 0
      else t \<in> {9, 10, 18, 19, 20, 22, 23, 25, 26, 33, 34, 35, 39, 40, 44, 45, 46, 47, 49})"


subsection \<open>Block-pointer authentication\<close>

record block_pointer_auth =
  bp_prop :: u64
  bp_mac :: "byte list"

definition HOLE :: block_pointer_auth where
  "HOLE = \<lparr>bp_prop = 0, bp_mac = replicate 16 0\<rparr>"

definition encode_pointer :: "block_pointer_auth \<Rightarrow> u64 \<Rightarrow> byte list result" where
  "encode_pointer bp crypto_version =
     (let bytes = le_bytes 8 (unat (bp_prop bp)) @ bp_mac bp @ replicate 8 0 in
      if crypto_version = 0 then Inr (take 24 bytes)
      else if crypto_version = 1 then Inr (take 32 bytes)
      else Inl (Bail ''unsupported ZFS encryption key version {value}''))"

definition pool_block_pointer_auth :: "byte list \<Rightarrow> u64 \<Rightarrow> byte list result" where
  "pool_block_pointer_auth raw crypto_version =
     (if length raw \<noteq> 128 then Inl (Bail ''encrypted dnode contains a truncated block pointer'')
      else if crypto_version \<noteq> 0 \<and> crypto_version \<noteq> 1
      then Inl (Bail ''unsupported ZFS encryption key version {crypto_version}'')
      else let prop0 = from_le_bytes (slice raw 48 56) :: u64;
        hole = list_all (\<lambda>b. b = 0) (take 16 raw) \<and> prop0 AND push_bit 39 1 = 0;
        prop =
          (if crypto_version = 0 then
             ((prop0 AND NOT (push_bit 62 1)) AND NOT (push_bit 40 0xff)) AND NOT (push_bit 16 0xffff)
           else if hole then 0
           else let p = (if drop_bit 56 prop0 AND 0x1f \<noteq> 0
                         then ((prop0 AND NOT (push_bit 63 1)) AND NOT (push_bit 32 0x7f)) AND NOT (push_bit 16 0xffff)
                         else prop0)
                in (p AND NOT (push_bit 62 1)) AND NOT (push_bit 40 0xff));
        object_type = ucast (drop_bit 48 prop0 AND 0xff) :: byte
      in Inr (le_bytes 8 (unat prop) @
              (if object_type = 11 \<or> hole then replicate 16 0 else slice raw 112 128) @
              (if crypto_version = 1 then replicate 8 0 else [])))"

definition size_field :: "u64 \<Rightarrow> u64 result" where
  "size_field sz =
     (if sz < 512 \<or> sz mod 512 \<noteq> 0 \<or> sz div 512 > 65536
      then Inl (Bail ''raw block has invalid ZFS block size {size}'')
      else Inr (sz div 512 - 1))"

definition block_prop :: "u64 \<Rightarrow> u64 \<Rightarrow> byte \<Rightarrow> u32 \<Rightarrow> byte \<Rightarrow> u64 \<Rightarrow> u64 result" where
  "block_prop logical_size physical_size compression object_type level byteorder =
     (if compression > 0x7f \<or> level > 0x1f \<or> byteorder > 1
      then Inl (Bail ''raw block has invalid block-pointer properties'')
      else and_then (size_field logical_size) (\<lambda>lsize.
        and_then (size_field physical_size) (\<lambda>psize.
        if object_type > 255 then Inl (Bail ''block object type exceeds 255'')
        else Inr (lsize OR push_bit 16 psize OR push_bit 32 (ucast compression) OR push_bit 48 (ucast object_type)
               OR push_bit 56 (ucast level) OR push_bit 61 1 OR push_bit 63 byteorder))))"

definition leaf_prop :: "raw_block_pointer \<Rightarrow> u64 \<Rightarrow> u64 result" where
  "leaf_prop block crypto_version =
     block_prop (rb_logical_size block) (if crypto_version = 0 then 512 else rb_physical_size block)
       (rb_compression block) (rb_object_type block) 0 1"

definition indirect_prop :: "raw_dnode \<Rightarrow> byte \<Rightarrow> u64 result" where
  "indirect_prop dnode level =
     block_prop (push_bit (unat (rd_indirect_block_shift dnode)) 1) 512 0 (rd_object_type dnode) level 0"

subsection \<open>Dnodes\<close>

definition dnode_max_bonus :: "raw_dnode \<Rightarrow> nat result" where
  "dnode_max_bonus dnode =
     (let dnode_size = unat (rd_slots dnode) * 512;
          pointers = unat (rd_block_pointers dnode) * 128;
          spill = (if rd_flags dnode AND 4 \<noteq> 0 then 128 else 0)
      in if dnode_size < 64 + pointers + spill then Inl (Bail ''object {} has an impossible bonus layout'')
         else Inr (dnode_size - (64 + pointers + spill)))"

definition validate_dnode :: "raw_dnode_range \<Rightarrow> raw_dnode \<Rightarrow> u64 \<Rightarrow> unit result" where
  "validate_dnode rng dnode range_end =
     (if rd_object dnode < rr_first_object rng
         \<or> unat (rd_object dnode) + unat (rd_slots dnode) \<ge> 2 ^ 64
         \<or> rd_object dnode + ucast (rd_slots dnode) > range_end
      then Inl (Bail ''object {} falls outside its raw OBJECT_RANGE'')
      else if rd_slots dnode = 0 \<or> rd_block_pointers dnode = 0 \<or> rd_levels dnode = 0
      then Inl (Bail ''object {} has an invalid raw dnode layout'')
      else if rd_flags dnode AND NOT 6 \<noteq> 0
      then Inl (Bail ''object {} has unsupported raw dnode flags'')
      else if rd_flags dnode AND 2 \<noteq> 0 \<or> list_ex (\<lambda>b. rb_flags b AND 2 \<noteq> 0) (rd_blocks dnode)
      then Inl (Bail ''byteswapped raw encrypted objects are unsupported'')
      else and_then (dnode_max_bonus dnode) (\<lambda>max_bonus.
        if unat (rd_bonus_length dnode) > max_bonus
        then Inl (Bail ''object {} has a bonus that exceeds its dnode'')
        else Inr ()))"

definition dnode_core :: "raw_dnode \<Rightarrow> byte list result" where
  "dnode_core dnode =
     (if rd_object_type dnode > 255 then Inl (Bail ''dnode object type exceeds 255'')
      else if rd_bonus_type dnode > 255 then Inl (Bail ''dnode bonus type exceeds 255'')
      else let sectors = rd_block_size dnode div 512 in
        if sectors = 0 \<or> rd_block_size dnode mod 512 \<noteq> 0 \<or> sectors > 65535
        then Inl (Bail ''object {} has an invalid dnode block size'')
        else if rd_bonus_length dnode > 65535 then Inl (Bail ''dnode bonus is too large'')
        else Inr ([ucast (rd_object_type dnode), rd_indirect_block_shift dnode, rd_levels dnode,
                   rd_block_pointers dnode, ucast (rd_bonus_type dnode), rd_checksum_type dnode,
                   rd_compression dnode, rd_flags dnode AND 4]
                  @ le_bytes 2 (unat sectors) @ le_bytes 2 (unat (rd_bonus_length dnode))
                  @ [rd_slots dnode - 1] @ replicate 3 0 @ le_bytes 8 (unat (rd_max_block_id dnode))
                  @ replicate 40 0))"

text \<open>The leaf level of the block tree, then one level of parents, then the levels up to the root.\<close>

definition place_leaf :: "u64 \<Rightarrow> raw_block_pointer \<Rightarrow> block_pointer_auth list \<Rightarrow> block_pointer_auth list result" where
  "place_leaf crypto_version block level =
     (let block_id = unat (rb_block_id block) in
      if block_id \<ge> length level then Inl (Bail ''object {} WRITE is past its max block ID'')
      else if bp_prop (level ! block_id) \<noteq> 0 then Inl (Bail ''object {} has duplicate raw WRITE blocks'')
      else and_then (leaf_prop block crypto_version) (\<lambda>prop.
        Inr (level[block_id := \<lparr>bp_prop = prop, bp_mac = rb_mac block\<rparr>])))"

definition parent_pointer ::
  "crypto \<Rightarrow> raw_dnode \<Rightarrow> u64 \<Rightarrow> nat \<Rightarrow> byte \<Rightarrow> block_pointer_auth list \<Rightarrow> block_pointer_auth result" where
  "parent_pointer k dnode crypto_version epb tree_level children =
     (if list_all (\<lambda>c. bp_prop c = 0 \<and> bp_mac c = replicate 16 0) children then Inr HOLE
      else and_then (try_map (\<lambda>c. encode_pointer c crypto_version)
               (children @ replicate (epb - length children) HOLE)) (\<lambda>encoded.
        and_then (indirect_prop dnode tree_level) (\<lambda>prop.
        Inr \<lparr>bp_prop = prop, bp_mac = take 16 (sha512 k (concat encoded))\<rparr>)))"

definition root_block_pointers :: "crypto \<Rightarrow> raw_dnode \<Rightarrow> u64 \<Rightarrow> block_pointer_auth list result" where
  "root_block_pointers k dnode crypto_version =
     (if rd_indirect_block_shift dnode < 9 \<or> rd_indirect_block_shift dnode > 24
      then Inl (Bail ''object {} has an unsupported indirect block shift'')
      else let epb = 2 ^ (unat (rd_indirect_block_shift dnode) - 7) in
        and_then (ok_or (checked_add (rd_max_block_id dnode) 1) (Bail ''object block count overflow'')) (\<lambda>leaf_count.
        if leaf_count > 4 * 1024 * 1024
        then Inl (Bail ''object {} has too many blocks for the current raw-send safety limit'')
        else
          and_then (try_fold (place_leaf crypto_version) (replicate (unat leaf_count) HOLE) (rd_blocks dnode)) (\<lambda>level.
          and_then (try_fold (\<lambda>tree_level level.
              try_map (parent_pointer k dnode crypto_version epb (of_nat tree_level)) (chunks epb level))
            level [1 ..< unat (rd_levels dnode)]) (\<lambda>level.
          if length level > unat (rd_block_pointers dnode)
          then Inl (Bail ''object {} needs {} root block pointers but its dnode has {pointer_count}'')
          else Inr (resize (unat (rd_block_pointers dnode)) HOLE level)))))"

text \<open>The authenticated data and ciphertext of one dnode: its part of the additional data, its
  ciphertext, and its encrypted bonus length when its bonus is encrypted.\<close>

definition dnode_auth :: "crypto \<Rightarrow> raw_dnode_range \<Rightarrow> u64 \<Rightarrow> raw_dnode \<Rightarrow> (byte list \<times> byte list \<times> (u64 \<times> nat) list) result" where
  "dnode_auth k rng range_end dnode =
     and_then (validate_dnode rng dnode range_end) (\<lambda>_.
     and_then (dnode_core dnode) (\<lambda>core.
     and_then (root_block_pointers k dnode (rr_crypto_version rng)) (\<lambda>roots.
     and_then (try_map (\<lambda>p. encode_pointer p (rr_crypto_version rng)) roots) (\<lambda>pointers.
     and_then
       (if rd_flags dnode AND 4 \<noteq> 0 then
          and_then (ok_or (rd_spill dnode) (Bail ''raw object {} is missing its spill block pointer'')) (\<lambda>spill.
          and_then (leaf_prop spill (rr_crypto_version rng)) (\<lambda>prop.
          encode_pointer \<lparr>bp_prop = prop, bp_mac = rb_mac spill\<rparr> (rr_crypto_version rng)))
        else Inr []) (\<lambda>spill_auth.
     and_then (dnode_max_bonus dnode) (\<lambda>max_bonus.
     let aad = core @ concat pointers @ spill_auth; bonus = rd_bonus_ciphertext dnode in
     if is_encrypted_object_type (rd_bonus_type dnode) \<and> rd_bonus_length dnode \<noteq> 0 then
       if length bonus \<noteq> max_bonus then Inl (Bail ''raw bonus for object {} is {} bytes, expected {max_bonus}'')
       else Inr (aad, bonus, [(rd_object dnode, max_bonus)])
     else if length bonus > max_bonus then Inl (Bail ''raw bonus for object {} exceeds its dnode'')
     else Inr (aad @ bonus @ replicate (max_bonus - length bonus) 0, [], [])))))))"

lemma validate_dnode_ok:
  "validate_dnode rng dnode e = Inr () \<Longrightarrow>
   rd_slots dnode \<noteq> 0 \<and> unat (rd_object dnode) + unat (rd_slots dnode) < 2 ^ 64 \<and>
   (\<exists>m. dnode_max_bonus dnode = Inr m \<and> unat (rd_bonus_length dnode) \<le> m)"
  by (auto simp: validate_dnode_def result_simps split: if_splits)

lemma dnode_auth_validates: "dnode_auth k rng e dnode = Inr x \<Longrightarrow> validate_dnode rng dnode e = Inr ()"
  by (cases "validate_dnode rng dnode e") (simp_all add: dnode_auth_def)

lemmas dnode_auth_slots = dnode_auth_validates [THEN validate_dnode_ok]

text \<open>\<open>while object < range_end\<close>; a slot count of zero is rejected by \<open>validate_dnode\<close>, so the loop
  advances. The results are the additional data, the ciphertext, the encrypted lengths and the
  objects visited.\<close>

function dnode_slots ::
  "crypto \<Rightarrow> raw_dnode_range \<Rightarrow> u64 \<Rightarrow> (u64, raw_dnode) btree \<Rightarrow> u64 \<Rightarrow>
   byte list \<times> byte list \<times> (u64 \<times> nat) list \<times> u64 btset \<Rightarrow>
   (byte list \<times> byte list \<times> (u64 \<times> nat) list \<times> u64 btset) result" where
  "dnode_slots k rng range_end by_object obj (aad, ciphertext, lengths, visited) =
     (if \<not> obj < range_end then Inr (aad, ciphertext, lengths, visited)
      else case bt_get by_object obj of
        None \<Rightarrow> dnode_slots k rng range_end by_object (obj + 1) (aad @ replicate 512 0, ciphertext, lengths, visited)
      | Some dnode \<Rightarrow>
          and_then (dnode_auth k rng range_end dnode) (\<lambda>(a, c, l).
          if unat obj + unat (rd_slots dnode) \<ge> 2 ^ 64 then Inl (Panic ''object number overflow'')
          else dnode_slots k rng range_end by_object (obj + ucast (rd_slots dnode))
                 (aad @ a, ciphertext @ c, lengths @ l, bs_insert (rd_object dnode) visited)))"
  by pat_completeness auto
termination
proof (relation "measure (\<lambda>(k, rng, range_end, by_object, obj, _). unat range_end - unat obj)", goal_cases)
  case 1
  show ?case by simp
next
  case (2 k rng range_end by_object obj aad ciphertext lengths visited)
  then have lt: "unat obj < unat range_end" by (simp add: word_less_nat_alt)
  then have "unat (obj + 1) = unat obj + 1" using unat_less_u64 [of range_end] by (simp add: unat_add_u64)
  with lt show ?case by simp
next
  case (3 k rng range_end by_object obj aad ciphertext lengths visited dnode x a y c l)
  then have lt: "unat obj < unat range_end" by (simp add: word_less_nat_alt)
  have "0 < unat (rd_slots dnode)" using 3 dnode_auth_slots by (auto simp: unat_gt_0)
  moreover have "unat (obj + ucast (rd_slots dnode)) = unat obj + unat (rd_slots dnode)"
    using 3 by (simp add: unat_add_u64 unat_ucast_byte)
  ultimately show ?case using lt by simp
qed

declare dnode_slots.simps [simp del]


definition decrypt_dnode_bonuses ::
  "crypto \<Rightarrow> dataset_key \<Rightarrow> raw_dnode_range \<Rightarrow> raw_dnode list \<Rightarrow> (u64, byte list) btree result" where
  "decrypt_dnode_bonuses k key rng dnodes =
     (if rr_flags rng AND 2 \<noteq> 0 then Inl (Bail ''byteswapped raw dnode blocks are unsupported'')
      else if rr_object_slots rng \<noteq> 32
      then Inl (Bail ''raw OBJECT_RANGE has {} slots; OpenZFS dnode blocks require 32'')
      else
        and_then (ok_or (checked_add (rr_first_object rng) (rr_object_slots rng))
          (Bail ''raw OBJECT_RANGE overflows its object IDs'')) (\<lambda>range_end.
        let by_object = fold (\<lambda>d. bt_insert (rd_object d) d) dnodes [] in
        if length by_object \<noteq> length dnodes
        then Inl (Bail ''raw OBJECT_RANGE contains duplicate OBJECT records'')
        else and_then (dnode_slots k rng range_end by_object (rr_first_object rng) ([], [], [], []))
               (\<lambda>(aad, ciphertext, lengths, visited).
          if length visited \<noteq> length dnodes
          then Inl (Bail ''raw OBJECT records overlap or fall outside their OBJECT_RANGE'')
          else and_then (map_err (\<lambda>_. Bail ''authenticating raw ZFS dnode metadata'')
                 (decrypt_block k key (rr_salt rng) (rr_iv rng) (rr_mac rng) aad ciphertext)) (\<lambda>plaintext.
            and_then (try_fold (\<lambda>(obj, len) (cursor, bonuses).
                and_then (index_range plaintext cursor (cursor + len)) (\<lambda>b.
                Inr (cursor + len, bt_insert obj b bonuses))) (0, []) lengths) (\<lambda>(cursor, bonuses).
            if cursor \<noteq> length plaintext
            then Inl (Bail ''decrypted dnode bonus data has an inconsistent length'')
            else Inr bonuses)))))"

text \<open>One dnode of a native dnode block at \<open>off\<close>: its end, its additional data and, when its bonus
  is encrypted, the bonus region.\<close>

definition pool_dnode :: "u64 \<Rightarrow> byte list \<Rightarrow> nat \<Rightarrow> (nat \<times> byte list \<times> (nat \<times> nat) option) result" where
  "pool_dnode crypto_version block off =
     and_then (ok_or (get_range block off (off + 64)) (Bail ''encrypted dnode block has a truncated core'')) (\<lambda>core.
     let slots = unat (core ! 12) + 1; end = off + slots * 512 in
     if end > length block then Inl (Bail ''encrypted dnode extends past its block'')
     else let pointers = unat (core ! 3);
       bonus_start = off + (64 + pointers * 128);
       has_spill = core ! 7 AND 4 \<noteq> 0;
       spill_len = (if has_spill then 128 else 0)
     in if end < spill_len then Inl (Bail ''encrypted dnode has an invalid spill pointer'')
     else let bonus_end = end - spill_len in
     if bonus_start > bonus_end then Inl (Bail ''encrypted dnode has an impossible pointer/bonus layout'')
     else let portable_core = fill_range 24 32 0 (core[7 := core ! 7 AND 4]) in
     and_then (try_map (\<lambda>index.
         let start = off + 64 + index * 128 in
         and_then (index_range block start (start + 128)) (\<lambda>raw. pool_block_pointer_auth raw crypto_version))
       [0 ..< pointers]) (\<lambda>pointer_auth.
     and_then
       (if has_spill then
          and_then (index_range block (end - 128) end) (\<lambda>raw. pool_block_pointer_auth raw crypto_version)
        else Inr []) (\<lambda>spill_auth.
     and_then (index_range block bonus_start bonus_end) (\<lambda>bonus.
     let bonus_len = (from_le_bytes (slice core 10 12) :: u16); aad = portable_core @ concat pointer_auth @ spill_auth in
     if core ! 0 \<noteq> 0 \<and> bonus_len \<noteq> 0 \<and> is_encrypted_object_type (ucast (core ! 4))
     then Inr (end, aad, Some (bonus_start, length bonus))
     else Inr (end, aad @ bonus, None)))))"

lemma pool_dnode_progress:
  "pool_dnode v block off = Inr (e, aad, region) \<Longrightarrow> off < e \<and> e \<le> length block"
  by (auto simp: pool_dnode_def Let_def result_simps split: if_splits)

function pool_dnodes ::
  "u64 \<Rightarrow> byte list \<Rightarrow> nat \<Rightarrow> byte list \<times> byte list \<times> (nat \<times> nat) list \<Rightarrow>
   (byte list \<times> byte list \<times> (nat \<times> nat) list) result" where
  "pool_dnodes crypto_version block off (aad, ciphertext, regions) =
     (if \<not> off < length block then Inr (aad, ciphertext, regions)
      else and_then (pool_dnode crypto_version block off) (\<lambda>(end, a, region).
        pool_dnodes crypto_version block end
          (case region of
             Some (start, len) \<Rightarrow> (aad @ a, ciphertext @ slice block start (start + len), regions @ [(start, len)])
           | None \<Rightarrow> (aad @ a, ciphertext, regions))))"
  by pat_completeness auto
termination
  by (relation "measure (\<lambda>(v, block, off, _). length block - off)") (auto dest: pool_dnode_progress)

declare pool_dnodes.simps [simp del]

definition decrypt_pool_dnode_block ::
  "crypto \<Rightarrow> dataset_key \<Rightarrow> byte list \<Rightarrow> byte list \<Rightarrow> byte list \<Rightarrow> byte list \<Rightarrow> byte list result" where
  "decrypt_pool_dnode_block k key salt iv mac block =
     (if length block mod 512 \<noteq> 0
      then Inl (Bail ''encrypted dnode block length is not a multiple of 512 bytes'')
      else and_then (pool_dnodes (dk_crypto_version key) block 0 ([], [], [])) (\<lambda>(aad, ciphertext, regions).
        if ciphertext = [] then Inr block
        else and_then (map_err (\<lambda>_. Bail ''authenticating native-encrypted ZFS dnode metadata'')
               (decrypt_block k key salt iv mac aad ciphertext)) (\<lambda>plaintext.
          and_then (try_fold (\<lambda>(start, len) (cursor, output).
              and_then (index_range plaintext cursor (cursor + len)) (\<lambda>b.
              and_then (index_range output start (start + len)) (\<lambda>_.
              Inr (cursor + len, blit start b output)))) (0, block) regions) (\<lambda>(cursor, output).
          if cursor \<noteq> length plaintext
          then Inl (Bail ''decrypted dnode bonus data has an inconsistent length'')
          else Inr output))))"

text \<open>\<open>encrypted::decompress_block\<close>: a zero compression value means uncompressed.\<close>

definition raw_decompress_block :: "codecs \<Rightarrow> byte \<Rightarrow> byte list \<Rightarrow> u64 \<Rightarrow> byte list result" where
  "raw_decompress_block z compression payload logical_size =
     decompress_block z (if compression = 0 then 2 else compression) payload logical_size"

section \<open>Keys\<close>

lemma ucast_ucast_byte [simp]: "ucast (ucast (b :: byte) :: u64) = b"
  by (rule bit_word_eqI) (simp add: bit_simps)

lemma take_bit_u64_self: "unat (x :: u64) < 2 ^ n \<Longrightarrow> take_bit n x = x"
  by (simp add: word_unat_eq_iff unsigned_take_bit_eq take_bit_nat_eq_self_iff)

lemma decode_hex_pairs_length: "decode_hex_pairs m = Inr v \<Longrightarrow> length v = length m div 2"
  by (induction m arbitrary: v rule: decode_hex_pairs.induct) (auto simp: result_simps)

lemma wrapping_key_length:
  assumes "crypto_lengths k" and "wrapping_key k p material = Inr w"
  shows "length w = 32"
  using assms decode_hex_pairs_length [of material w]
  by (auto simp: wrapping_key_def crypto_lengths_def decode_hex_key_def split: if_splits)

lemma decrypt_aead_length:
  "crypto_lengths k \<Longrightarrow> decrypt_aead k suite key iv aad buf mac = Some out \<Longrightarrow> length out = length buf"
  unfolding crypto_lengths_def decrypt_aead_def by (elim conjE) (auto split: if_splits)

lemma decrypt_block_length:
  "crypto_lengths k \<Longrightarrow> decrypt_block k key salt iv mac aad c = Inr out \<Longrightarrow> length out = length c"
  by (auto simp: decrypt_block_def result_simps decrypt_aead_length)

lemma unlock_suite:
  assumes "crypto_lengths k" and "unlock k p material = Inr key"
  shows "ep_suite p = 5 \<or> ep_suite p = 8"
proof -
  obtain w n plain where w: "wrapping_key k p material = Inr w"
    and d: "decrypt_aead k (ep_suite p) w (ep_wrapping_iv p) plain
      (ep_wrapped_master_key p @ ep_wrapped_hmac_key p) (ep_wrapping_mac p) = Some n"
    using assms(2) by (auto simp: unlock_def result_simps Let_def split: if_splits)
  then show ?thesis using wrapping_key_length [OF assms(1) w] by (auto simp: decrypt_aead_def split: if_splits)
qed

lemma unlock_key_lengths:
  assumes "crypto_lengths k" and "unlock k p material = Inr key"
  shows "length (dk_master_key key) = 32 \<and> length (dk_hmac_key key) = 64"
proof -
  obtain n plain w aad where n: "suite_key_len (ep_suite p) = Inr n"
    and l: "length (ep_wrapped_master_key p) = n" "length (ep_wrapped_hmac_key p) = 64"
    and d: "decrypt_aead k (ep_suite p) w (ep_wrapping_iv p) aad
      (ep_wrapped_master_key p @ ep_wrapped_hmac_key p) (ep_wrapping_mac p) = Some plain"
    and key: "dk_master_key key = take n plain" "dk_hmac_key key = drop n plain"
    using assms(2) by (auto simp: unlock_def result_simps Let_def split: if_splits)
  have "n = 32" using unlock_suite [OF assms] n by (auto simp: suite_key_len_def)
  then show ?thesis using decrypt_aead_length [OF assms(1) d] l key by simp
qed

text \<open>The hexadecimal text of a byte string.\<close>

definition hex_text :: "byte list \<Rightarrow> byte list" where
  "hex_text bs = bytes_of_chars (concat (map (\<lambda>b. hex_digits 2 (unat b)) bs))"

lemma hex_text_simps:
  "hex_text [] = []"
  "hex_text (b # bs) = bytes_of_chars (hex_digits 2 (unat b)) @ hex_text bs"
  by (simp_all add: hex_text_def)

lemma decode_hex_pairs_hex_text: "decode_hex_pairs (hex_text bs) = Inr bs"
proof (induction bs)
  case Nil
  show ?case by (simp add: hex_text_simps)
next
  case (Cons b bs)
  have lt: "unat b < 256" using unsigned_less [of b] by simp
  obtain x y where xy: "bytes_of_chars (hex_digits 2 (unat b)) = [x, y]"
    by (simp add: numeral_2_eq_2)
  have "from_str_radix 16 (hex_digits 2 (unat b)) = Some (word_of_nat (unat b))"
    using lt by (intro from_str_radix_hex_digits) simp_all
  moreover have "unat (word_of_nat (unat b) :: u64) = unat b" using lt by (intro unat_of_nat_u64) simp
  ultimately have "from_str_radix_u8 (hex_digits 2 (unat b)) = Some b"
    using lt by (simp add: from_str_radix_u8_def)
  moreover have "from_utf8 [x, y] = Some (hex_digits 2 (unat b))"
    using from_utf8_hex_digits [of 2 "unat b"] xy by simp
  ultimately show ?case using Cons.IH xy by (simp add: hex_text_simps)
qed

lemma length_hex_text: "length (hex_text bs) = 2 * length bs"
  by (induction bs) (simp_all add: hex_text_simps)

lemma decode_hex_key_hex_text: "length bs = 32 \<Longrightarrow> decode_hex_key (hex_text bs) = Inr bs"
  by (simp add: decode_hex_key_def length_hex_text decode_hex_pairs_hex_text)

section \<open>Block pointers\<close>

lemma size_field_bits: "size_field s = Inr f \<Longrightarrow> take_bit 16 f = f"
proof -
  assume "size_field s = Inr f"
  then have f: "f = s div 512 - 1" and s: "512 \<le> s" "s div 512 \<le> 65536"
    by (auto simp: size_field_def split: if_splits)
  have "unat (s div 512) = unat s div 512" by (simp add: unat_div)
  moreover have "512 \<le> unat s" using s(1) by (simp add: word_le_nat_alt)
  moreover have "unat (s div 512) \<le> 65536" using s(2) by (simp add: word_le_nat_alt)
  ultimately have "unat f < 65536" unfolding f
    by (subst unat_sub) (auto simp: word_le_nat_alt)
  then show ?thesis by (intro take_bit_u64_self) simp
qed


definition prop_bits :: "u64 \<Rightarrow> u64 \<Rightarrow> u64 \<Rightarrow> u64 \<Rightarrow> u64" where
  "prop_bits l p c t =
     take_bit 16 l OR push_bit 16 (take_bit 16 p) OR push_bit 32 (take_bit 7 c) OR push_bit 48 (take_bit 8 t)
     OR push_bit 61 1 OR push_bit 63 1"

lemma block_prop_bits:
  assumes "block_prop ls ps c t 0 1 = Inr q"
  obtains l p where "size_field ls = Inr l" and "size_field ps = Inr p" and "q = prop_bits l p (ucast c) (ucast t)"
    and "t \<le> 255"
proof -
  from assms obtain l p where lp: "size_field ls = Inr l" "size_field ps = Inr p" and c: "c \<le> 127" and t: "t \<le> 255"
    and q: "q = l OR push_bit 16 p OR push_bit 32 (ucast c) OR push_bit 48 (ucast t) OR push_bit 61 1 OR push_bit 63 1"
    by (auto simp: block_prop_def result_simps split: if_splits)
  have "take_bit 7 (ucast c :: u64) = ucast c" using c by (intro take_bit_u64_self) (simp add: word_le_nat_alt)
  moreover have "take_bit 8 (ucast t :: u64) = ucast t" using t by (intro take_bit_u64_self) (simp add: word_le_nat_alt)
  ultimately show thesis
    using that [OF lp] t q size_field_bits [OF lp(1)] size_field_bits [OF lp(2)] by (simp add: prop_bits_def)
qed

lemma mask_numerals: "(0xff :: u64) = mask 8" "(0xffff :: u64) = mask 16" "(0x1f :: u64) = mask 5"
  by (simp_all add: mask_eq_exp_minus_1)

text \<open>The fields of a block-pointer property word, by bit position.\<close>

lemma prop_fields:
  fixes n :: nat
  assumes "n < 64"
  obtains (lsize) "n < 16" | (psize) "16 \<le> n" "n < 32" | (comp) "32 \<le> n" "n < 39" | (embedded) "n = 39"
  | (checksum) "40 \<le> n" "n < 48" | (type) "48 \<le> n" "n < 56" | (level) "56 \<le> n" "n < 61" | (crypt) "n = 61"
  | (dedup) "n = 62" | (byteorder) "n = 63"
  using assms by linarith

definition disk_prop :: "u64 \<Rightarrow> u64 \<Rightarrow> u64 \<Rightarrow> u64 \<Rightarrow> u64 \<Rightarrow> u64 \<Rightarrow> u64" where
  "disk_prop l p c t ck dd = prop_bits l p c t OR push_bit 40 (take_bit 8 ck) OR push_bit 62 (take_bit 1 dd)"

lemma disk_prop_masked:
  "(disk_prop l p c t ck dd AND NOT (push_bit 62 1)) AND NOT (push_bit 40 0xff) = prop_bits l p c t" (is "?m = _")
proof (rule bit_word_eqI)
  fix n :: nat
  assume "n < LENGTH(64)"
  then have "n < 64" by simp
  then show "bit ?m n = bit (prop_bits l p c t) n"
    unfolding disk_prop_def prop_bits_def mask_numerals
    by (cases n rule: prop_fields) (simp_all only: bit_simps, auto)
qed

lemma prop_bits_no_psize: "prop_bits l p c t AND NOT (push_bit 16 0xffff) = prop_bits l 0 c t" (is "?m = _")
proof (rule bit_word_eqI)
  fix n :: nat
  assume "n < LENGTH(64)"
  then have "n < 64" by simp
  then show "bit ?m n = bit (prop_bits l 0 c t) n"
    unfolding prop_bits_def mask_numerals
    by (cases n rule: prop_fields) (simp_all only: bit_simps, auto)
qed

lemma disk_prop_level: "drop_bit 56 (disk_prop l p c t ck dd) AND 0x1f = 0" (is "?m = 0")
proof (rule bit_word_eqI)
  fix n :: nat
  assume "n < LENGTH(64)"
  then have "n < 64" by simp
  then show "bit ?m n = bit (0 :: u64) n"
    unfolding disk_prop_def prop_bits_def mask_numerals
    by (cases "n < 5") (simp_all only: bit_simps comp_def, auto)
qed

lemma disk_prop_leaf: "(if drop_bit 56 (disk_prop l p c t ck dd) AND 0x1f \<noteq> 0 then x else y) = y"
  by (simp only: disk_prop_level) simp

lemma disk_prop_type: "drop_bit 48 (disk_prop l p c t ck dd) AND 0xff = take_bit 8 t" (is "?m = _")
proof (rule bit_word_eqI)
  fix n :: nat
  assume "n < LENGTH(64)"
  then have "n < 64" by simp
  then show "bit ?m n = bit (take_bit 8 t) n"
    unfolding disk_prop_def prop_bits_def mask_numerals
    by (cases "n < 8") (simp_all only: bit_simps comp_def, auto)
qed


text \<open>A level-0 pointer as the pool stores it: the properties of the block with its checksum
  algorithm and dedup bit, and the MAC in the last sixteen bytes.\<close>

definition stored_pointer :: "raw_block_pointer \<Rightarrow> byte \<Rightarrow> bool \<Rightarrow> byte list \<Rightarrow> bool" where
  "stored_pointer block ck dd raw \<longleftrightarrow>
     length raw = 128 \<and> \<not> list_all (\<lambda>b. b = 0) (take 16 raw) \<and> slice raw 112 128 = rb_mac block \<and>
     (case block_prop (rb_logical_size block) (rb_physical_size block) (rb_compression block) (rb_object_type block) 0 1 of
        Inl _ \<Rightarrow> False
      | Inr q \<Rightarrow> from_le_bytes (slice raw 48 56) = q OR push_bit 40 (ucast ck) OR push_bit 62 (of_bool dd))"

lemma stored_pointer_prop:
  assumes "stored_pointer block ck dd raw"
  obtains l p where "size_field (rb_logical_size block) = Inr l" and "size_field (rb_physical_size block) = Inr p"
    and "rb_object_type block \<le> 255" and "\<not> rb_compression block > 0x7f"
    and "from_le_bytes (slice raw 48 56) =
      disk_prop l p (ucast (rb_compression block)) (ucast (rb_object_type block)) (ucast ck) (of_bool dd)"
proof -
  obtain q where q: "block_prop (rb_logical_size block) (rb_physical_size block) (rb_compression block)
      (rb_object_type block) 0 1 = Inr q"
    and raw: "from_le_bytes (slice raw 48 56) = q OR push_bit 40 (ucast ck) OR push_bit 62 (of_bool dd)"
    using assms by (auto simp: stored_pointer_def split: sum.splits)
  have "take_bit 8 (ucast ck :: u64) = ucast ck"
    using unsigned_less [of ck, where ?'a = nat] by (intro take_bit_u64_self) simp
  moreover have "take_bit 1 (of_bool dd :: u64) = of_bool dd" by (cases dd) simp_all
  moreover have "\<not> rb_compression block > 0x7f" using q by (auto simp: block_prop_def split: if_splits)
  ultimately show thesis
    using raw by (rule_tac block_prop_bits [OF q]) (auto intro!: that simp: disk_prop_def)
qed

lemma size_512: "size_field 512 = Inr 0"
  by (simp add: size_field_def)

lemma leaf_prop_ok:
  assumes "size_field (rb_logical_size block) = Inr l" and "size_field (rb_physical_size block) = Inr p"
    and "rb_object_type block \<le> 255" and "\<not> rb_compression block > 0x7f"
  shows "leaf_prop block cv =
    Inr (prop_bits l (if cv = 0 then 0 else p) (ucast (rb_compression block)) (ucast (rb_object_type block)))"
proof -
  have psize: "size_field (if cv = 0 then 512 else rb_physical_size block) = Inr (if cv = 0 then 0 else p)"
    using assms(2) size_512 by (cases "cv = 0") simp_all
  then have "\<exists>q. leaf_prop block cv = Inr q" using assms by (simp add: leaf_prop_def block_prop_def)
  then obtain q where q: "leaf_prop block cv = Inr q" by blast
  then show ?thesis using assms(1) psize
    unfolding leaf_prop_def by (rule_tac block_prop_bits [OF q [unfolded leaf_prop_def]]) auto
qed

lemma pointer_auth_agrees:
  assumes st: "stored_pointer block ck dd raw" and "rb_object_type block \<noteq> 11" and cv: "cv = 0 \<or> cv = 1"
  shows "\<exists>prop. leaf_prop block cv = Inr prop \<and>
    pool_block_pointer_auth raw cv = encode_pointer \<lparr>bp_prop = prop, bp_mac = rb_mac block\<rparr> cv"
proof -
  obtain l p where f: "size_field (rb_logical_size block) = Inr l" "size_field (rb_physical_size block) = Inr p"
    "rb_object_type block \<le> 255" "\<not> rb_compression block > 0x7f"
    and d: "from_le_bytes (slice raw 48 56) =
      disk_prop l p (ucast (rb_compression block)) (ucast (rb_object_type block)) (ucast ck) (of_bool dd)" (is "_ = ?d")
    using st by (rule stored_pointer_prop)
  have t: "take_bit 8 (ucast (rb_object_type block) :: u64) = ucast (rb_object_type block)"
    using f(3) by (intro take_bit_u64_self) (simp add: word_le_nat_alt)
  have "unat (ucast (rb_object_type block) :: byte) = unat (rb_object_type block)"
    using f(3) by (simp add: unsigned_ucast_eq take_bit_eq_mod word_le_nat_alt)
  moreover have "(ucast (ucast (rb_object_type block) :: u64) :: byte) = ucast (rb_object_type block)"
    by (rule bit_word_eqI) (auto simp: bit_simps)
  ultimately have not11: "(ucast (ucast (rb_object_type block) :: u64) :: byte) \<noteq> 11"
    using assms(2) by (auto simp: word_unat_eq_iff)
  have mac: "slice raw 112 128 = rb_mac block" "length raw = 128" "\<not> list_all (\<lambda>b. b = 0) (take 16 raw)"
    using st by (auto simp: stored_pointer_def)
  then have len: "length (rb_mac block) = 16" using length_slice [of raw 112 128] by simp
  show ?thesis
    using cv leaf_prop_ok [OF f, of cv] mac len not11 t
    unfolding pool_block_pointer_auth_def encode_pointer_def Let_def d disk_prop_leaf disk_prop_masked
      prop_bits_no_psize disk_prop_type by auto
qed


section \<open>Dnode blocks\<close>

text \<open>The loop that cuts a decrypted buffer into consecutive pieces.\<close>

lemma dnode_auth_lengths:
  assumes "dnode_auth k rng e dnode = Inr (a, c, l)"
  shows "sum_list (map snd l) = length c"
    and "\<forall>(obj, n) \<in> set l. obj = rd_object dnode \<and> dnode_max_bonus dnode = Inr n \<and> unat (rd_bonus_length dnode) \<le> n"
  using assms validate_dnode_ok [OF dnode_auth_validates [OF assms]]
  by (auto simp: dnode_auth_def result_simps Let_def split: if_splits)

text \<open>An encrypted length belongs to a dnode of the map and is its whole bonus area, which holds the
  bonus.\<close>

definition bonus_area :: "(u64, raw_dnode) btree \<Rightarrow> u64 \<times> nat \<Rightarrow> bool" where
  "bonus_area by_object = (\<lambda>(obj, n). \<exists>d. d \<in> snd ` set by_object \<and> rd_object d = obj \<and>
     dnode_max_bonus d = Inr n \<and> unat (rd_bonus_length d) \<le> n)"

lemma dnode_slots_lengths:
  assumes "dnode_slots k rng e by_object obj st = Inr (aad', c', l', vis')"
    and "st = (aad, c, l, vis)" and "sum_list (map snd l) = length c" and "list_all (bonus_area by_object) l"
  shows "sum_list (map snd l') = length c' \<and> list_all (bonus_area by_object) l'"
  using assms
proof (induction k rng e by_object obj st arbitrary: aad c l vis rule: dnode_slots.induct)
  case (1 k rng e by_object obj aad0 c0 l0 vis0)
  consider (stop) "\<not> obj < e" | (free) "obj < e" "bt_get by_object obj = None"
    | (used) d where "obj < e" "bt_get by_object obj = Some d" by fastforce
  then show ?case
  proof cases
    case stop
    then show ?thesis using "1.prems" by (simp add: dnode_slots.simps)
  next
    case free
    then show ?thesis using "1.prems" "1.IH"(1) [OF _ free(2)] by (subst (asm) dnode_slots.simps) auto
  next
    case used
    obtain a x n where d: "dnode_auth k rng e d = Inr (a, x, n)"
      and ov: "\<not> unat obj + unat (rd_slots d) \<ge> 2 ^ 64"
      and rest: "dnode_slots k rng e by_object (obj + ucast (rd_slots d))
        (aad0 @ a, c0 @ x, l0 @ n, bs_insert (rd_object d) vis0) = Inr (aad', c', l', vis')"
      using "1.prems"(1) used by (subst (asm) dnode_slots.simps) (auto simp: result_simps split: if_splits)
    have "d \<in> snd ` set by_object" using used(2) by (auto simp: bt_get_def dest: map_of_SomeD intro: rev_image_eqI)
    then have "list_all (bonus_area by_object) n"
      using dnode_auth_lengths(2) [OF d] by (auto simp: list_all_iff bonus_area_def)
    then show ?thesis
      using "1.IH"(2) [OF _ used(2) d refl refl ov rest refl] used(1) "1.prems" dnode_auth_lengths(1) [OF d] by simp
  qed
qed


text \<open>Cutting a buffer into consecutive pieces: with enough bytes it cannot fail, and every piece
  has its length.\<close>

abbreviation cut_piece :: "byte list \<Rightarrow> u64 \<times> nat \<Rightarrow> nat \<times> (u64, byte list) btree \<Rightarrow> (nat \<times> (u64, byte list) btree) result" where
  "cut_piece plain \<equiv> (\<lambda>(obj, len) (cursor, bonuses).
     and_then (index_range plain cursor (cursor + len)) (\<lambda>b. Inr (cursor + len, bt_insert obj b bonuses)))"

lemma cut_pieces_ok:
  "cursor + sum_list (map snd ls) \<le> length plain \<Longrightarrow>
   \<exists>bonuses'. try_fold (cut_piece plain) (cursor, bonuses) ls = Inr (cursor + sum_list (map snd ls), bonuses') \<and>
     (\<forall>obj b. bt_get bonuses' obj = Some b \<longrightarrow> bt_get bonuses obj = Some b \<or> (obj, length b) \<in> set ls)"
proof (induction ls arbitrary: cursor bonuses)
  case Nil
  then show ?case by simp
next
  case (Cons x ls)
  obtain obj n where x: "x = (obj, n)" by (cases x)
  define b where "b = slice plain cursor (cursor + n)"
  have "length b = n" using Cons.prems x by (simp add: b_def)
  moreover have "index_range plain cursor (cursor + n) = Inr b"
    using Cons.prems x by (simp add: index_range_ok b_def)
  ultimately show ?case
    using Cons.IH [of "cursor + n" "bt_insert obj b bonuses"] Cons.prems x
    by (auto simp: bt_get_insert add.assoc split: if_splits)
qed

lemma set_values_fold_insert: "snd ` set (fold (\<lambda>d. bt_insert (f d) d) ds m) \<subseteq> set ds \<union> snd ` set m"
proof (induction ds arbitrary: m)
  case Nil
  show ?case by simp
next
  case (Cons d ds)
  have "snd ` set (bt_insert (f d) d m) \<subseteq> insert d (snd ` set m)"
    by (induction "f d" d m rule: bt_insert.induct) auto
  then have "set ds \<union> snd ` set (bt_insert (f d) d m) \<subseteq> set (d # ds) \<union> snd ` set m" by auto
  from Cons.IH [of "bt_insert (f d) d m"] this show ?case unfolding fold_simps by (rule subset_trans)
qed

text \<open>The decryption of a dnode range hands out whole bonus areas.\<close>

lemma decrypt_dnode_bonuses_Inr:
  assumes k: "crypto_lengths k" and b: "decrypt_dnode_bonuses k key rng dnodes = Inr bonuses"
    and get: "bt_get bonuses obj = Some bonus"
  shows "\<exists>d \<in> set dnodes. rd_object d = obj \<and> dnode_max_bonus d = Inr (length bonus) \<and>
    unat (rd_bonus_length d) \<le> length bonus"
proof -
  define by_object where "by_object = fold (\<lambda>d. bt_insert (rd_object d) d) dnodes []"
  obtain e aad c l vis plain n where slots: "dnode_slots k rng e by_object (rr_first_object rng) ([], [], [], []) = Inr (aad, c, l, vis)"
    and plain: "decrypt_block k key (rr_salt rng) (rr_iv rng) (rr_mac rng) aad c = Inr plain"
    and cut: "try_fold (cut_piece plain) (0, []) l = Inr (n, bonuses)"
    using b by (auto simp: decrypt_dnode_bonuses_def by_object_def result_simps Let_def split: if_splits)
  note len = dnode_slots_lengths [OF slots refl, simplified]
  have "(obj, length bonus) \<in> set l"
    using cut_pieces_ok [of 0 l plain "[]"] cut get len decrypt_block_length [OF k plain] by auto
  then show ?thesis
    using len set_values_fold_insert [of rd_object dnodes "[]"]
    by (fastforce simp: list_all_iff bonus_area_def by_object_def)
qed

lemma no_panic_block_prop [panic_simps]:
  "no_panic (size_field s)" "no_panic (block_prop ls ps c t lv bo)" "no_panic (leaf_prop b v)" "no_panic (indirect_prop d lv)"
  "no_panic (encode_pointer bp v)" "no_panic (pool_block_pointer_auth raw v)"
  by (simp_all add: size_field_def block_prop_def leaf_prop_def indirect_prop_def encode_pointer_def Let_def
      pool_block_pointer_auth_def panic_simps)

lemma no_panic_dnode [panic_simps]:
  "no_panic (dnode_max_bonus d)" "no_panic (validate_dnode rng d e)" "no_panic (dnode_core d)"
  by (simp_all add: dnode_max_bonus_def validate_dnode_def dnode_core_def Let_def panic_simps)

lemma no_panic_root [panic_simps]: "no_panic (root_block_pointers k d v)"
proof -
  have "no_panic (try_fold (place_leaf v) st xs)" for st xs
    by (rule no_panic_try_fold [where P = "\<lambda>_. True"]) (auto simp: place_leaf_def Let_def panic_simps)
  moreover have "no_panic (try_fold (\<lambda>tl lv. try_map (parent_pointer k d v epb (of_nat tl)) (chunks epb lv)) st xs)" for st xs epb
    by (rule no_panic_try_fold [where P = "\<lambda>_. True"])
      (auto simp: parent_pointer_def Let_def intro!: no_panic_try_map simp: panic_simps)
  ultimately show ?thesis by (simp add: root_block_pointers_def Let_def panic_simps)
qed

lemma no_panic_dnode_auth: "no_panic (dnode_auth k rng e d)"
  by (auto simp: dnode_auth_def Let_def panic_simps intro!: no_panic_try_map)


lemma no_panic_dnode_slots:
  assumes "\<And>o' d. bt_get by_object o' = Some d \<Longrightarrow> rd_object d = o'"
  shows "no_panic (dnode_slots k rng e by_object obj st)"
  using assms
proof (induction k rng e by_object obj st rule: dnode_slots.induct)
  case (1 k rng e by_object obj aad c l vis)
  show ?case
  proof (cases "bt_get by_object obj")
    case None
    then show ?thesis using 1 by (subst dnode_slots.simps) auto
  next
    case (Some d)
    have lt: "\<not> unat obj + unat (rd_slots d) \<ge> 2 ^ 64" if "dnode_auth k rng e d = Inr x" for x
      using dnode_auth_slots [OF that] 1(3) [OF Some] by auto
    then have "no_panic (dnode_slots k rng e by_object (obj + ucast (rd_slots d))
        (aad @ a, c @ x, l @ n, bs_insert (rd_object d) vis))" if "dnode_auth k rng e d = Inr (a, x, n)" "obj < e" for a x n
      using 1(2) [OF _ Some that(1) refl refl _ 1(3)] that by simp
    then show ?thesis using Some lt no_panic_dnode_auth [of k rng e d]
      by (subst dnode_slots.simps) (auto simp: no_panic_and_then)
  qed
qed

lemma bt_get_by_object:
  "bt_get (fold (\<lambda>d. bt_insert (f d) d) ds m) k = Some d \<Longrightarrow>
   (\<And>k' d'. bt_get m k' = Some d' \<Longrightarrow> f d' = k') \<Longrightarrow> f d = k"
proof (induction ds arbitrary: m)
  case Nil
  then show ?case by simp
next
  case (Cons x ds)
  show ?case
    by (rule Cons.IH [of "bt_insert (f x) x m"])
      (use Cons.prems in \<open>auto simp: bt_get_insert split: if_splits\<close>)
qed

lemma no_panic_decrypt_block [panic_simps]: "no_panic (decrypt_block k key salt iv mac aad c)"
  by (auto simp: decrypt_block_def panic_simps)

lemma no_panic_decrypt_dnode_bonuses:
  assumes k: "crypto_lengths k"
  shows "no_panic (decrypt_dnode_bonuses k key rng dnodes)"
proof -
  define by_object where "by_object = fold (\<lambda>d. bt_insert (rd_object d) d) dnodes []"
  have slots: "no_panic (dnode_slots k rng e by_object obj st)" for e obj st
    using bt_get_by_object [of rd_object dnodes "[]"] by (intro no_panic_dnode_slots) (auto simp: by_object_def)
  have "no_panic (try_fold (cut_piece plain) (0, []) l)"
    if "dnode_slots k rng e by_object obj ([], [], [], []) = Inr (aad, c, l, vis)"
      and "decrypt_block k key salt iv mac aad c = Inr plain" for e obj aad c l vis plain salt iv mac
    using dnode_slots_lengths [OF that(1) refl] decrypt_block_length [OF k that(2)] cut_pieces_ok [of 0 l plain "[]"]
    by auto
  then show ?thesis using slots
    by (auto simp: decrypt_dnode_bonuses_def Let_def panic_simps result_simps simp flip: by_object_def)
qed


section \<open>Native dnode blocks\<close>

lemma pool_dnode_region:
  assumes "pool_dnode v block off = Inr (e, aad, Some (start, len))"
  shows "off + 64 \<le> start \<and> start + len \<le> e \<and> e \<le> length block"
  using assms by (auto simp: pool_dnode_def Let_def result_simps slice_simps split: if_splits)

lemma no_panic_pool_dnode: "no_panic (pool_dnode v block off)"
proof -
  have "no_panic (try_map (\<lambda>index. let start = off + 64 + index * 128 in
      and_then (index_range block start (start + 128)) (\<lambda>raw. pool_block_pointer_auth raw v)) [0 ..< n])"
    if "off + (64 + n * 128) \<le> length block" for n
  proof (rule no_panic_try_map)
    fix i assume "i \<in> set [0 ..< n]"
    then have "i * 128 + 128 \<le> n * 128" by (metis Suc_leI atLeastLessThan_iff mult_Suc mult_le_mono1 set_upt add.commute)
    then show "no_panic (let start = off + 64 + i * 128 in
      and_then (index_range block start (start + 128)) (\<lambda>raw. pool_block_pointer_auth raw v))"
      using that by (simp add: Let_def panic_simps)
  qed
  then show ?thesis by (auto simp: pool_dnode_def Let_def panic_simps result_simps slice_simps)
qed

lemma pool_dnodes_regions:
  assumes "pool_dnodes v block off st = Inr (aad', c', rs')" and "st = (aad, c, rs)"
    and "sum_list (map snd rs) = length c" and "list_all (\<lambda>(s, n). s + n \<le> length block) rs"
  shows "sum_list (map snd rs') = length c' \<and> list_all (\<lambda>(s, n). s + n \<le> length block) rs'"
  using assms
proof (induction v block off st arbitrary: aad c rs rule: pool_dnodes.induct)
  case (1 v block off aad0 c0 rs0)
  show ?case
  proof (cases "off < length block")
    case False
    then show ?thesis using "1.prems" by (simp add: pool_dnodes.simps)
  next
    case True
    then obtain e a region where d: "pool_dnode v block off = Inr (e, a, region)"
      and rest: "pool_dnodes v block e (case region of
             Some (start, len) \<Rightarrow> (aad0 @ a, c0 @ slice block start (start + len), rs0 @ [(start, len)])
           | None \<Rightarrow> (aad0 @ a, c0, rs0)) = Inr (aad', c', rs')"
      using "1.prems"(1) by (subst (asm) pool_dnodes.simps) (auto simp: result_simps)
    show ?thesis
    proof (cases region)
      case None
      then show ?thesis using "1.IH" [OF _ d refl refl] True rest "1.prems" by simp
    next
      case (Some r)
      obtain start len where r: "r = (start, len)" by (cases r)
      have "start + len \<le> length block" using pool_dnode_region [OF d [unfolded Some r]] by simp
      then show ?thesis using "1.IH" [OF _ d refl refl] True rest "1.prems" Some r by simp
    qed
  qed
qed

lemma no_panic_pool_dnodes: "no_panic (pool_dnodes v block off st)"
proof (induction v block off st rule: pool_dnodes.induct)
  case (1 v block off aad c rs)
  show ?case
    using 1 no_panic_pool_dnode [of v block off] by (subst pool_dnodes.simps) (auto simp: no_panic_and_then)
qed

abbreviation paste_piece :: "byte list \<Rightarrow> nat \<times> nat \<Rightarrow> nat \<times> byte list \<Rightarrow> (nat \<times> byte list) result" where
  "paste_piece plain \<equiv> (\<lambda>(start, len) (cursor, output).
     and_then (index_range plain cursor (cursor + len)) (\<lambda>b.
     and_then (index_range output start (start + len)) (\<lambda>_. Inr (cursor + len, blit start b output))))"

definition in_region :: "(nat \<times> nat) list \<Rightarrow> nat \<Rightarrow> bool" where
  "in_region rs i \<longleftrightarrow> list_ex (\<lambda>(s, n). s \<le> i \<and> i < s + n) rs"

lemma paste_pieces_ok:
  "cursor + sum_list (map snd rs) \<le> length plain \<Longrightarrow> list_all (\<lambda>(s, n). s + n \<le> length block) rs \<Longrightarrow>
   \<exists>out. try_fold (paste_piece plain) (cursor, block) rs = Inr (cursor + sum_list (map snd rs), out) \<and>
     length out = length block \<and> (\<forall>i < length block. \<not> in_region rs i \<longrightarrow> out ! i = block ! i)"
proof (induction rs arbitrary: cursor block)
  case Nil
  then show ?case by simp
next
  case (Cons r rs)
  obtain s n where r: "r = (s, n)" by (cases r)
  define b where "b = slice plain cursor (cursor + n)"
  have b: "length b = n" "index_range plain cursor (cursor + n) = Inr b"
    using Cons.prems r by (auto simp: index_range_ok b_def)
  have sn: "s + n \<le> length block" using Cons.prems r by simp
  obtain out where "try_fold (paste_piece plain) (cursor + n, blit s b block) rs
      = Inr (cursor + n + sum_list (map snd rs), out)" "length out = length block"
    "\<forall>i < length block. \<not> in_region rs i \<longrightarrow> out ! i = blit s b block ! i"
    using Cons.IH [of "cursor + n" "blit s b block"] Cons.prems r b sn by auto
  then show ?case using r b sn by (auto simp: index_range_ok in_region_def nth_blit add.assoc)
qed

lemma decrypt_pool_dnode_block_ok:
  assumes k: "crypto_lengths k"
  shows "no_panic (decrypt_pool_dnode_block k key salt iv mac block)"
    and "decrypt_pool_dnode_block k key salt iv mac block = Inr out \<Longrightarrow>
      \<exists>aad c rs. pool_dnodes (dk_crypto_version key) block 0 ([], [], []) = Inr (aad, c, rs) \<and>
        length out = length block \<and> (\<forall>i < length block. \<not> in_region rs i \<longrightarrow> out ! i = block ! i)"
proof -
  have paste: "\<exists>out. try_fold (paste_piece plain) (0, block) rs = Inr (length plain, out) \<and>
     length out = length block \<and> (\<forall>i < length block. \<not> in_region rs i \<longrightarrow> out ! i = block ! i)"
    if "pool_dnodes v block 0 ([], [], []) = Inr (aad, c, rs)" "decrypt_block k key salt iv mac aad c = Inr plain"
    for v aad c rs plain
    using pool_dnodes_regions [OF that(1) refl] decrypt_block_length [OF k that(2)] paste_pieces_ok [of 0 rs plain block]
    by simp
  then show "no_panic (decrypt_pool_dnode_block k key salt iv mac block)"
    using no_panic_pool_dnodes by (fastforce simp: decrypt_pool_dnode_block_def panic_simps result_simps)
  show "\<exists>aad c rs. pool_dnodes (dk_crypto_version key) block 0 ([], [], []) = Inr (aad, c, rs) \<and>
        length out = length block \<and> (\<forall>i < length block. \<not> in_region rs i \<longrightarrow> out ! i = block ! i)"
    if d: "decrypt_pool_dnode_block k key salt iv mac block = Inr out"
  proof -
    from d obtain aad c rs where p: "pool_dnodes (dk_crypto_version key) block 0 ([], [], []) = Inr (aad, c, rs)"
      by (auto simp: decrypt_pool_dnode_block_def result_simps split: if_splits)
    then show ?thesis
      using d paste [OF p] by (fastforce simp: decrypt_pool_dnode_block_def result_simps split: if_splits)
  qed
qed

lemma hex_text_no_return: "13 \<notin> set (hex_text bs)"
proof (induction bs)
  case Nil
  show ?case by (simp add: hex_text_simps)
next
  case (Cons b bs)
  have "of_char (hex_digit d) \<noteq> (13 :: nat)" if "d < 16" for d using that by (auto simp: hex_digit_def)
  then have "word_of_nat (of_char (hex_digit d)) \<noteq> (13 :: byte)" if "d < 16" for d
    using that unat_of_char [of "hex_digit d"] by (auto dest!: arg_cong [where f = unat])
  then show ?case using Cons by (simp add: hex_text_simps numeral_2_eq_2)
qed

lemma decode_hex_pairs_plus:
  "decode_hex_pairs (concat (replicate n (bytes_of_chars ''+f''))) = Inr (replicate n 15)"
proof (induction n)
  case 0
  show ?case by simp
next
  case (Suc n)
  have "from_utf8 (bytes_of_chars ''+f'') = Some ''+f''"
    using utf8_valid_ascii [of "bytes_of_chars ''+f''"] chars_of_bytes_of_chars [of "''+f''"]
    by (simp add: from_utf8_def del: chars_of_bytes_of_chars)
  moreover have "from_str_radix_u8 ''+f'' = Some 15"
    by (simp add: from_str_radix_u8_def from_str_radix_def digit_value_def)
  ultimately show ?case using Suc by simp
qed

section \<open>Properties\<close>

text \<open>Primitives that encrypt nothing, for evaluating examples.\<close>

definition null_crypto :: crypto where
  "null_crypto =
     \<lparr>aes_ccm = (\<lambda>_ _ _ buf _. Some buf), aes_gcm = (\<lambda>_ _ _ buf _. Some buf),
      hkdf_sha512 = (\<lambda>_ _ n. Some (replicate n 0)), hmac_sha512 = (\<lambda>_ _. replicate 64 0),
      pbkdf2_sha1 = (\<lambda>_ _ _. replicate 32 0), sha512 = (\<lambda>_. replicate 64 0)\<rparr>"

lemma crypto_lengths_null: "crypto_lengths null_crypto"
  by (simp add: crypto_lengths_def null_crypto_def)

definition demo_params :: encryption_params where
  "demo_params =
     \<lparr>ep_suite = 8, ep_guid = 7, ep_version = 1, ep_key_format = 1, ep_pbkdf2_iterations = 0, ep_pbkdf2_salt = 0,
      ep_wrapped_master_key = replicate 32 1, ep_wrapped_hmac_key = replicate 64 2,
      ep_wrapping_iv = replicate 12 0, ep_wrapping_mac = replicate 16 0\<rparr>"

definition demo_key :: dataset_key where
  "demo_key = \<lparr>dk_suite = 8, dk_crypto_version = 1, dk_master_key = replicate 32 1, dk_hmac_key = replicate 64 2\<rparr>"

text \<open>C32: unlocking succeeds only for the two 256-bit cipher suites. The wrapping key always has 32
  bytes, and the cipher for the 128-bit and 192-bit suites rejects a key of that length, so a
  dataset that uses one of them cannot be unlocked whatever key is supplied. An unlocked key has a
  32-byte master key and a 64-byte HMAC key.\<close>

theorem unlock_accepts_only_256_bit_suites:
  assumes "crypto_lengths k" and "unlock k p material = Inr key"
  shows "(ep_suite p = 5 \<or> ep_suite p = 8) \<and> length (dk_master_key key) = 32 \<and> length (dk_hmac_key key) = 64"
  using unlock_suite [OF assms] unlock_key_lengths [OF assms] by simp

theorem unlock_accepts_only_256_bit_suites_witness:
  "unlock null_crypto demo_params (replicate 32 9) = Inr demo_key \<and> length (dk_master_key demo_key) = 32"
proof -
  have u: "unlock null_crypto demo_params (replicate 32 9) = Inr demo_key"
    by (simp add: unlock_def demo_params_def demo_key_def null_crypto_def wrapping_key_def KEYFORMAT_RAW_def
        suite_key_len_def decrypt_aead_def)
  show ?thesis using unlock_accepts_only_256_bit_suites [OF crypto_lengths_null u] u by simp
qed

text \<open>The hexadecimal form of a 32-byte key decodes to the key, also when a key file for a raw
  dataset holds it with a trailing newline.\<close>

theorem hex_key_file_round_trip:
  assumes "length key = 32"
  shows "decode_hex_key (hex_text key) = Inr key \<and>
    normalize_key_file_material ''raw'' (hex_text key) = Inr key \<and>
    normalize_key_file_material ''raw'' (hex_text key @ [10]) = Inr key \<and>
    normalize_key_file_material ''raw'' (hex_text key @ [13, 10]) = Inr key \<and>
    normalize_key_file_material ''raw'' key = Inr key"
proof -
  have "last (hex_text key) \<noteq> 13" using hex_text_no_return [of key] length_hex_text [of key] assms
    by (metis last_in_set length_0_conv mult_is_0 numeral_neq_zero)
  then show ?thesis using assms decode_hex_key_hex_text [OF assms]
    by (simp add: normalize_key_file_material_def length_hex_text strip_newline_def butlast_append Let_def)
qed

theorem hex_key_file_round_trip_witness:
  "normalize_key_file_material ''raw'' (hex_text (replicate 32 255) @ [10]) = Inr (replicate 32 255)"
  using hex_key_file_round_trip [of "replicate 32 255"] by simp

text \<open>A hexadecimal key may hold plus signs: \<open>u8::from_str_radix\<close> accepts a leading \<open>+\<close> in every
  pair, so 64 characters that are not all hexadecimal digits decode to a key.\<close>

theorem hex_key_accepts_plus_signs:
  "decode_hex_key (concat (replicate 32 (bytes_of_chars ''+f''))) = Inr (replicate 32 15)"
  using decode_hex_pairs_plus [of 32] by (simp add: decode_hex_key_def length_concat sum_list_replicate)

text \<open>C33: the two readers authenticate the same data. For a level-0 block pointer of a pool, with any
  checksum algorithm and dedup bit, the additional data computed from the stored 128 bytes equals
  the additional data the raw-stream reader rebuilds from the WRITE record of that block, in both
  key versions.\<close>

theorem pool_and_stream_pointers_agree:
  assumes "stored_pointer block ck dd raw" and "rb_object_type block \<noteq> 11" and "cv = 0 \<or> cv = 1"
  shows "\<exists>prop. leaf_prop block cv = Inr prop \<and>
    pool_block_pointer_auth raw cv = encode_pointer \<lparr>bp_prop = prop, bp_mac = rb_mac block\<rparr> cv"
  using assms by (rule pointer_auth_agrees)

definition demo_block :: raw_block_pointer where
  "demo_block = \<lparr>rb_block_id = 0, rb_object_type = 19, rb_logical_size = 1024, rb_physical_size = 512,
     rb_compression = 15, rb_flags = 0, rb_mac = replicate 16 7\<rparr>"

definition demo_pointer :: "byte list" where
  "demo_pointer = 1 # replicate 47 0 @ [1, 0, 0, 0, 15, 9, 19, 0xe0] @ replicate 56 0 @ replicate 16 7"

theorem pool_and_stream_pointers_agree_witness:
  "stored_pointer demo_block 9 True demo_pointer \<and>
   (\<exists>prop. leaf_prop demo_block 1 = Inr prop \<and>
     pool_block_pointer_auth demo_pointer 1 = encode_pointer \<lparr>bp_prop = prop, bp_mac = rb_mac demo_block\<rparr> 1)"
proof -
  have s: "stored_pointer demo_block 9 True demo_pointer"
    by (simp add: stored_pointer_def demo_block_def demo_pointer_def block_prop_def size_field_def slice_def
        from_le_bytes_def)
  show ?thesis using pool_and_stream_pointers_agree [OF s, of 1] s by (simp add: demo_block_def)
qed


text \<open>Decrypting a dnode range does not panic, and every bonus it returns belongs to a dnode of
  the range, fills that dnode's whole bonus area and is at least as long as the declared bonus, so
  that the callers' \<open>bonus[..bonus_length]\<close> is within bounds.\<close>

theorem decrypted_bonuses_fill_their_dnodes:
  assumes "crypto_lengths k"
  shows "no_panic (decrypt_dnode_bonuses k key rng dnodes) \<and>
    (\<forall>bonuses obj bonus. decrypt_dnode_bonuses k key rng dnodes = Inr bonuses \<longrightarrow> bt_get bonuses obj = Some bonus \<longrightarrow>
      (\<exists>d \<in> set dnodes. rd_object d = obj \<and> dnode_max_bonus d = Inr (length bonus) \<and>
        unat (rd_bonus_length d) \<le> length bonus))"
  using no_panic_decrypt_dnode_bonuses [OF assms] decrypt_dnode_bonuses_Inr [OF assms] by blast

definition demo_dnode :: raw_dnode where
  "demo_dnode = \<lparr>rd_object = 31, rd_object_type = 19, rd_bonus_type = 44, rd_block_size = 512, rd_bonus_length = 8,
     rd_checksum_type = 7, rd_compression = 2, rd_slots = 1, rd_flags = 0, rd_indirect_block_shift = 14,
     rd_levels = 1, rd_block_pointers = 1, rd_max_block_id = 0, rd_bonus_ciphertext = replicate 320 5,
     rd_blocks = [], rd_spill = None\<rparr>"

definition demo_range :: raw_dnode_range where
  "demo_range = \<lparr>rr_first_object = 0, rr_object_slots = 32, rr_salt = replicate 8 0, rr_iv = replicate 12 0,
     rr_mac = replicate 16 0, rr_flags = 0, rr_crypto_version = 1\<rparr>"

lemma demo_dnode_auth: "\<exists>a. dnode_auth null_crypto demo_range 32 demo_dnode = Inr (a, replicate 320 5, [(31, 320)])"
  by (simp add: dnode_auth_def validate_dnode_def demo_dnode_def demo_range_def dnode_max_bonus_def dnode_core_def
      root_block_pointers_def checked_add_def resize_def encode_pointer_def is_encrypted_object_type_def HOLE_def)

lemma demo_dnode_slots:
  "\<exists>a. dnode_slots null_crypto demo_range 32 [(31, demo_dnode)] 0 ([], [], [], []) = Inr (a, replicate 320 5, [(31, 320)], [(31, ())])"
proof -
  obtain a where "dnode_auth null_crypto demo_range 32 demo_dnode = Inr (a, replicate 320 5, [(31, 320)])"
    using demo_dnode_auth by blast
  moreover have "rd_slots demo_dnode = 1" "rd_object demo_dnode = 31" by (simp_all add: demo_dnode_def)
  ultimately show ?thesis by (simp add: dnode_slots.simps bs_insert_def)
qed


theorem decrypted_bonuses_fill_their_dnodes_witness:
  "decrypt_dnode_bonuses null_crypto demo_key demo_range [demo_dnode] = Inr [(31, replicate 320 5)] \<and>
   (\<exists>d \<in> set [demo_dnode]. rd_object d = 31 \<and> dnode_max_bonus d = Inr 320)"
proof -
  obtain a where "dnode_slots null_crypto demo_range 32 [(31, demo_dnode)] 0 ([], [], [], []) =
      Inr (a, replicate 320 5, [(31, 320)], [(31, ())])"
    using demo_dnode_slots by blast
  moreover have "rr_first_object demo_range = 0" "rr_object_slots demo_range = 32" "rr_flags demo_range = 0"
    "rd_object demo_dnode = 31" by (simp_all add: demo_range_def demo_dnode_def)
  ultimately have d: "decrypt_dnode_bonuses null_crypto demo_key demo_range [demo_dnode] = Inr [(31, replicate 320 5)]"
    by (simp add: decrypt_dnode_bonuses_def checked_add_def decrypt_block_def decrypt_aead_def demo_key_def
        null_crypto_def index_range_def get_range_def)
  have "bt_get [(31, replicate 320 5)] 31 = Some (replicate 320 (5 :: byte))" by simp
  from decrypted_bonuses_fill_their_dnodes [OF crypto_lengths_null, THEN conjunct2, rule_format, OF d this]
  show ?thesis using d by auto
qed

text \<open>Decrypting a native dnode block does not panic, keeps the block's length, and changes no
  byte outside the encrypted bonus areas that its dnodes declare: cores, block pointers and
  unencrypted bonuses pass through.\<close>

theorem pool_dnode_block_keeps_plaintext:
  assumes "crypto_lengths k"
  shows "no_panic (decrypt_pool_dnode_block k key salt iv mac block) \<and>
    (\<forall>out. decrypt_pool_dnode_block k key salt iv mac block = Inr out \<longrightarrow>
      (\<exists>aad c rs. pool_dnodes (dk_crypto_version key) block 0 ([], [], []) = Inr (aad, c, rs) \<and>
        length out = length block \<and> (\<forall>i < length block. \<not> in_region rs i \<longrightarrow> out ! i = block ! i)))"
  using decrypt_pool_dnode_block_ok [OF assms] by blast

definition demo_dnode_block :: "byte list" where
  "demo_dnode_block = [19, 14, 1, 1, 44, 0, 0, 0, 1, 0, 8, 0, 0] @ replicate 499 0"

lemma pool_block_pointer_auth_Inr: "length raw = 128 \<Longrightarrow> \<exists>x. pool_block_pointer_auth raw 1 = Inr x"
  by (simp add: pool_block_pointer_auth_def Let_def)

lemma demo_pool_dnodes:
  "\<exists>aad. pool_dnodes 1 demo_dnode_block 0 ([], [], []) = Inr (aad, replicate 320 0, [(192, 320)])"
  using pool_block_pointer_auth_Inr [of "replicate 128 0"]
  by (auto simp: pool_dnodes.simps pool_dnode_def demo_dnode_block_def get_range_def index_range_def slice_def
      from_le_bytes_def is_encrypted_object_type_def)

theorem pool_dnode_block_keeps_plaintext_witness:
  "\<exists>out. decrypt_pool_dnode_block null_crypto demo_key [] [] [] demo_dnode_block = Inr out \<and>
     length out = 512 \<and> out ! 3 = 1"
proof -
  obtain aad where p: "pool_dnodes 1 demo_dnode_block 0 ([], [], []) = Inr (aad, replicate 320 0, [(192, 320)])"
    using demo_pool_dnodes by blast
  moreover have v: "dk_crypto_version demo_key = 1" by (simp add: demo_key_def)
  moreover have len: "length demo_dnode_block = 512" by (simp add: demo_dnode_block_def)
  moreover have "decrypt_block null_crypto demo_key [] [] [] aad (replicate 320 0) = Inr (replicate 320 0)"
    by (simp add: decrypt_block_def decrypt_aead_def demo_key_def null_crypto_def)
  ultimately obtain out where d: "decrypt_pool_dnode_block null_crypto demo_key [] [] [] demo_dnode_block = Inr out"
    by (auto simp: decrypt_pool_dnode_block_def index_range_def get_range_def)
  have "length out = length demo_dnode_block \<and> out ! 3 = demo_dnode_block ! 3"
    using pool_dnode_block_keeps_plaintext [OF crypto_lengths_null, of demo_key "[]" "[]" "[]" demo_dnode_block] d p v len
    by (auto simp: in_region_def)
  then show ?thesis using d len by (auto simp: demo_dnode_block_def)
qed

end
