(* ===== verification/Snapshots.thy ===== *)
theory Snapshots
  imports Stream Text
begin

text \<open>
  Snapshot discovery and selection (src/filesystem.rs): the headers of the substreams of a send
  file, the snapshot a selector names, and the chain of incremental bases the selected snapshot
  depends on. A file is \<open>None\<close> when it cannot be opened and a byte source otherwise.
\<close>

section \<open>Model\<close>

definition open_stream :: "byte_source option \<Rightarrow> stream_reader result" where
  "open_stream file = ok_or (map_option new_reader file) (Bail ''opening ZFS send stream {}'')"

record snapshot_plan =
  plan_target :: begin_record
  plan_chain :: "u64 list"

definition push_header :: "replay_record \<Rightarrow> begin_record list \<Rightarrow> begin_record list result" where
  "push_header rec snapshots =
     Inr (case kind rec of
            Begin header \<Rightarrow> if bg_header_type header = DMU_SUBSTREAM then snapshots @ [header] else snapshots
          | _ \<Rightarrow> snapshots)"

definition snapshot_headers :: "byte_source option \<Rightarrow> begin_record list result" where
  "snapshot_headers file =
     and_then (open_stream file) (\<lambda>reader.
     and_then (stream_loop push_header reader []) (\<lambda>(snapshots, reader).
     if \<not> saw_end reader then Inl (Bail ''ZFS send stream has no END record'')
     else if snapshots = [] then Inl (Bail ''ZFS send stream contains no snapshot substreams'')
     else Inr snapshots))"

definition parse_selector_guid :: "string \<Rightarrow> u64 option" where
  "parse_selector_guid v =
     (case (case strip_prefix ''0x'' v of Some hex \<Rightarrow> Some hex | None \<Rightarrow> strip_prefix ''0X'' v) of
        None \<Rightarrow> from_str_radix 10 v
      | Some hex \<Rightarrow> from_str_radix 16 hex)"

text \<open>\<open>iter().enumerate().filter(..).map(|(index, _)| index)\<close>\<close>

definition matching :: "(begin_record \<Rightarrow> bool) \<Rightarrow> begin_record list \<Rightarrow> nat list" where
  "matching P snapshots = filter (\<lambda>i. P (snapshots ! i)) [0 ..< length snapshots]"

definition short_name_is :: "string \<Rightarrow> begin_record \<Rightarrow> bool" where
  "short_name_is short header =
     (case rsplit_once CHR ''@'' (bg_dataset_name header) of None \<Rightarrow> False | Some (_, name) \<Rightarrow> name = short)"

definition select_snapshot :: "begin_record list \<Rightarrow> string option \<Rightarrow> nat result" where
  "select_snapshot snapshots selector =
     (case selector of
        None \<Rightarrow>
          if length snapshots = 1 then Inr 0
          else Inl (Bail ''send file contains {} snapshots; choose one with --snapshot'')
      | Some sel \<Rightarrow>
          let exact = matching (\<lambda>h. bg_dataset_name h = sel) snapshots in
          if length exact = 1 then Inr (exact ! 0)
          else let short = (case strip_prefix ''@'' sel of None \<Rightarrow> sel | Some s \<Rightarrow> s);
            named = matching (short_name_is short) snapshots in
          if length named = 1 then Inr (named ! 0)
          else if length named > 1 then Inl (Bail ''snapshot name {selector:?} is ambiguous'')
          else (case parse_selector_guid sel of
              None \<Rightarrow> Inl (Bail ''snapshot {selector:?} was not found in the send file'')
            | Some guid \<Rightarrow>
                let matches = matching (\<lambda>h. bg_to_guid h = guid) snapshots in
                if length matches = 1 then Inr (matches ! 0)
                else if length matches > 1
                then Inl (Bail ''snapshot GUID {selector:?} appears more than once in the send file'')
                else Inl (Bail ''snapshot {selector:?} was not found in the send file'')))"

lemma find_rev_upt_Some:
  "find P (rev [0 ..< n]) = Some i \<Longrightarrow> i < n \<and> P i \<and> (\<forall>j. i < j \<and> j < n \<longrightarrow> \<not> P j)"
  by (induction n) (auto simp: less_Suc_eq split: if_splits)

lemma find_rev_upt_None: "find P (rev [0 ..< n]) = None \<longleftrightarrow> (\<forall>j < n. \<not> P j)"
  by (auto simp: find_None_iff)

text \<open>The \<open>while from_guid != 0\<close> loop; the chain is collected newest first, as \<open>chain.push\<close> does.\<close>

function walk_chain :: "begin_record list \<Rightarrow> nat \<Rightarrow> u64 \<Rightarrow> u64 list \<Rightarrow> u64 list result" where
  "walk_chain snapshots cursor from_guid chain =
     (if from_guid = 0 then Inr chain
      else case find (\<lambda>i. bg_to_guid (snapshots ! i) = from_guid) (rev [0 ..< cursor]) of
        None \<Rightarrow> Inl (Bail ''snapshot {} depends on a base GUID which is not present earlier in the send file'')
      | Some index \<Rightarrow>
          walk_chain snapshots index (bg_from_guid (snapshots ! index))
            (chain @ [bg_to_guid (snapshots ! index)]))"
  by pat_completeness auto
termination
  by (relation "measure (\<lambda>(snapshots, cursor, from_guid, chain). cursor)") (auto dest: find_rev_upt_Some)

declare walk_chain.simps [simp del]

definition plan_of_headers :: "begin_record list \<Rightarrow> string option \<Rightarrow> snapshot_plan result" where
  "plan_of_headers snapshots selector =
     and_then (select_snapshot snapshots selector) (\<lambda>target_index.
     let target = snapshots ! target_index in
     and_then (walk_chain snapshots target_index (bg_from_guid target) [bg_to_guid target]) (\<lambda>chain.
     Inr \<lparr>plan_target = target, plan_chain = rev chain\<rparr>))"

definition plan_snapshot :: "byte_source option \<Rightarrow> string option \<Rightarrow> snapshot_plan result" where
  "plan_snapshot file selector =
     and_then (snapshot_headers file) (\<lambda>snapshots. plan_of_headers snapshots selector)"

section \<open>Selection\<close>

lemma matching_unique:
  assumes "length (matching P snapshots) = 1"
  shows "matching P snapshots ! 0 < length snapshots \<and> P (snapshots ! (matching P snapshots ! 0)) \<and>
    (\<forall>j < length snapshots. P (snapshots ! j) \<longrightarrow> j = matching P snapshots ! 0)"
proof -
  obtain i where i: "matching P snapshots = [i]" using assms by (auto simp: length_Suc_conv)
  then have "set (matching P snapshots) = {i}" by simp
  then have "{j. j < length snapshots \<and> P (snapshots ! j)} = {i}" by (auto simp: matching_def)
  with i show ?thesis by auto
qed

lemma select_snapshot_cases:
  assumes "select_snapshot snapshots (Some sel) = Inr i"
  obtains (exact) "\<And>j. j < length snapshots \<Longrightarrow> (bg_dataset_name (snapshots ! j) = sel) = (j = i)"
  | (named) short where "short = sel \<or> sel = CHR ''@'' # short"
      "\<And>j. j < length snapshots \<Longrightarrow> short_name_is short (snapshots ! j) = (j = i)"
  | (guid) guid where "parse_selector_guid sel = Some guid"
      "\<And>j. j < length snapshots \<Longrightarrow> (bg_to_guid (snapshots ! j) = guid) = (j = i)"
proof -
  define short where "short = (case strip_prefix ''@'' sel of None \<Rightarrow> sel | Some s \<Rightarrow> s)"
  have sh: "short = sel \<or> sel = CHR ''@'' # short"
    by (auto simp: short_def strip_prefix_Some split: option.splits)
  let ?E = "matching (\<lambda>h. bg_dataset_name h = sel) snapshots" and ?N = "matching (short_name_is short) snapshots"
  note unf = select_snapshot_def [of snapshots "Some sel", simplified option.case Let_def, folded short_def]
  show thesis
  proof (cases "length ?E = 1")
    case True
    then have "i = ?E ! 0" using assms unf by simp
    then show thesis using matching_unique [OF True] exact by auto
  next
    case e: False
    show thesis
    proof (cases "length ?N = 1")
      case True
      then have "i = ?N ! 0" using assms unf e by simp
      then show thesis using matching_unique [OF True] named [OF sh] by auto
    next
      case False
      then obtain g where g: "parse_selector_guid sel = Some g"
        and m: "length (matching (\<lambda>h. bg_to_guid h = g) snapshots) = 1"
          "i = matching (\<lambda>h. bg_to_guid h = g) snapshots ! 0"
        using assms unf e by (simp split: if_splits option.splits)
      then show thesis using matching_unique [OF m(1)] guid [OF g] by auto
    qed
  qed
qed


section \<open>Chains\<close>

text \<open>\<open>is_chain snapshots ixs\<close>: the substreams at increasing positions \<open>ixs\<close>, the first a full send
  and each next one an increment from its predecessor, which is the nearest earlier substream of
  that GUID.\<close>

fun is_chain :: "begin_record list \<Rightarrow> nat list \<Rightarrow> bool" where
  "is_chain snapshots [] \<longleftrightarrow> False"
| "is_chain snapshots [i] \<longleftrightarrow> i < length snapshots \<and> bg_from_guid (snapshots ! i) = 0"
| "is_chain snapshots (i # j # rest) \<longleftrightarrow>
     j < i \<and> i < length snapshots \<and> bg_from_guid (snapshots ! i) \<noteq> 0 \<and>
     bg_to_guid (snapshots ! j) = bg_from_guid (snapshots ! i) \<and>
     (\<forall>m. j < m \<and> m < i \<longrightarrow> bg_to_guid (snapshots ! m) \<noteq> bg_from_guid (snapshots ! i)) \<and>
     is_chain snapshots (j # rest)"

lemma walk_chain_sound:
  assumes "walk_chain snapshots i (bg_from_guid (snapshots ! i)) chain = Inr chain'" and "i < length snapshots"
  shows "\<exists>rest. is_chain snapshots (i # rest) \<and> chain' = chain @ map (\<lambda>j. bg_to_guid (snapshots ! j)) rest"
  using assms
proof (induction i arbitrary: chain rule: less_induct)
  case (less i)
  show ?case
  proof (cases "bg_from_guid (snapshots ! i) = 0")
    case True
    then show ?thesis using less.prems by (intro exI [of _ "[]"]) (simp add: walk_chain.simps)
  next
    case False
    then obtain j where j: "find (\<lambda>j. bg_to_guid (snapshots ! j) = bg_from_guid (snapshots ! i)) (rev [0 ..< i]) = Some j"
      and rest: "walk_chain snapshots j (bg_from_guid (snapshots ! j)) (chain @ [bg_to_guid (snapshots ! j)]) = Inr chain'"
      using less.prems(1) by (subst (asm) walk_chain.simps) (auto split: option.splits)
    note f = find_rev_upt_Some [OF j]
    obtain r where "is_chain snapshots (j # r)"
      "chain' = (chain @ [bg_to_guid (snapshots ! j)]) @ map (\<lambda>j. bg_to_guid (snapshots ! j)) r"
      using less.IH [OF _ rest] f less.prems by auto
    then show ?thesis using f False less.prems by (intro exI [of _ "j # r"]) auto
  qed
qed

lemma walk_chain_complete:
  assumes "is_chain snapshots (i # rest)"
  shows "walk_chain snapshots i (bg_from_guid (snapshots ! i)) chain =
    Inr (chain @ map (\<lambda>j. bg_to_guid (snapshots ! j)) rest)"
  using assms
proof (induction rest arbitrary: i chain)
  case Nil
  then show ?case by (simp add: walk_chain.simps)
next
  case (Cons j rest)
  let ?P = "\<lambda>m. bg_to_guid (snapshots ! m) = bg_from_guid (snapshots ! i)"
  obtain m where m: "find ?P (rev [0 ..< i]) = Some m"
    using Cons.prems find_rev_upt_None [of ?P i] by (cases "find ?P (rev [0 ..< i])") auto
  have "m = j" using find_rev_upt_Some [OF m] Cons.prems by (metis is_chain.simps(3) linorder_neqE_nat)
  then show ?case using Cons m by (subst walk_chain.simps) auto
qed

lemma select_snapshot_bound:
  assumes "select_snapshot snapshots selector = Inr i"
  shows "i < length snapshots"
proof (cases selector)
  case None
  then show ?thesis using assms by (auto simp: select_snapshot_def split: if_splits)
next
  case (Some sel)
  have "matching P snapshots ! 0 < length snapshots" if "length (matching P snapshots) = 1" for P
    using matching_unique [OF that] by simp
  then show ?thesis using assms Some
    by (auto simp: select_snapshot_def Let_def split: if_splits option.splits)
qed


section \<open>Properties\<close>

text \<open>C24: the plan for a snapshot. Planning succeeds exactly when the selector names a snapshot and
  the file holds, in order before it, every base it depends on; the plan then lists the GUIDs of
  that chain from the full send to the selected snapshot. Planning always terminates.\<close>

theorem plan_is_the_chain_of_bases:
  "plan_of_headers snapshots selector = Inr plan \<longleftrightarrow>
   (\<exists>i rest. select_snapshot snapshots selector = Inr i \<and> is_chain snapshots (i # rest) \<and>
      plan = \<lparr>plan_target = snapshots ! i,
              plan_chain = map (\<lambda>j. bg_to_guid (snapshots ! j)) (rev (i # rest))\<rparr>)"
proof
  assume "plan_of_headers snapshots selector = Inr plan"
  then obtain i chain where i: "select_snapshot snapshots selector = Inr i"
    and w: "walk_chain snapshots i (bg_from_guid (snapshots ! i)) [bg_to_guid (snapshots ! i)] = Inr chain"
    and plan: "plan = \<lparr>plan_target = snapshots ! i, plan_chain = rev chain\<rparr>"
    by (auto simp: plan_of_headers_def result_simps Let_def)
  obtain rest where "is_chain snapshots (i # rest)"
    "chain = [bg_to_guid (snapshots ! i)] @ map (\<lambda>j. bg_to_guid (snapshots ! j)) rest"
    using walk_chain_sound [OF w select_snapshot_bound [OF i]] by blast
  then show "\<exists>i rest. select_snapshot snapshots selector = Inr i \<and> is_chain snapshots (i # rest) \<and>
      plan = \<lparr>plan_target = snapshots ! i, plan_chain = map (\<lambda>j. bg_to_guid (snapshots ! j)) (rev (i # rest))\<rparr>"
    using i plan by (auto simp: rev_map)
next
  assume "\<exists>i rest. select_snapshot snapshots selector = Inr i \<and> is_chain snapshots (i # rest) \<and>
      plan = \<lparr>plan_target = snapshots ! i, plan_chain = map (\<lambda>j. bg_to_guid (snapshots ! j)) (rev (i # rest))\<rparr>"
  then show "plan_of_headers snapshots selector = Inr plan"
    using walk_chain_complete by (auto simp: plan_of_headers_def rev_map Let_def)
qed

text \<open>A selector never picks one of several candidates: the snapshot it selects is the only one
  with that full name, or the only one with that name after the \<open>@\<close>, or the only one with that
  GUID.\<close>

theorem selected_snapshot_is_unique:
  assumes "select_snapshot snapshots (Some sel) = Inr i"
  shows "i < length snapshots \<and>
    ((\<forall>j < length snapshots. (bg_dataset_name (snapshots ! j) = sel) = (j = i)) \<or>
     (\<exists>short. (short = sel \<or> sel = CHR ''@'' # short) \<and>
        (\<forall>j < length snapshots. short_name_is short (snapshots ! j) = (j = i))) \<or>
     (\<exists>guid. parse_selector_guid sel = Some guid \<and>
        (\<forall>j < length snapshots. (bg_to_guid (snapshots ! j) = guid) = (j = i))))"
  using assms select_snapshot_bound [OF assms] by (cases rule: select_snapshot_cases) auto

definition demo_header :: "string \<Rightarrow> u64 \<Rightarrow> u64 \<Rightarrow> begin_record" where
  "demo_header name to from =
     \<lparr>bg_header_type = 1, bg_to_guid = to, bg_from_guid = from, bg_creation_time = 0, bg_objset_type = 2,
      bg_flags = 0, bg_features = 0, bg_dataset_name = name\<rparr>"

theorem selected_snapshot_is_unique_witness:
  "select_snapshot [demo_header ''tank@a'' 5 0, demo_header ''tank@b'' 6 5] (Some ''@b'') = Inr 1 \<and> (1 :: nat) < 2"
proof -
  have s: "select_snapshot [demo_header ''tank@a'' 5 0, demo_header ''tank@b'' 6 5] (Some ''@b'') = Inr 1"
    by (simp add: select_snapshot_def matching_def demo_header_def strip_prefix_def short_name_is_def rsplit_once_def)
  show ?thesis using selected_snapshot_is_unique [OF s] s by simp
qed

end
