(* ===== verification/Replay.thy ===== *)
theory Replay
  imports Snapshots Compression BTree Extents
begin

text \<open>
  What a selected chain of substreams says about one object, independently of how it is stored:
  the records of the active substreams, the extent operations each of them means for the object,
  and the object's contents after all of them. The file extraction, the metadata index and the
  nested-image reader are each shown to implement this specification.
\<close>

text \<open>The snapshot a BEGIN record makes active: a substream of the selected chain.\<close>

definition activate :: "u64 btset \<Rightarrow> begin_record \<Rightarrow> u64 option" where
  "activate selected header =
     (if bg_header_type header = DMU_SUBSTREAM \<and> bs_contains selected (bg_to_guid header)
      then Some (bg_to_guid header) else None)"

text \<open>
  The loop every consumer of a plain stream runs: BEGIN and END switch the active substream and
  collect the GUIDs seen, records outside an active substream are skipped, and \<open>body\<close> handles the
  others. After the loop the stream must have had an END record and every snapshot of the plan
  must have been seen.
\<close>

definition chain_record ::
  "u64 btset \<Rightarrow> (record_kind \<Rightarrow> byte list \<Rightarrow> 's \<Rightarrow> 's result) \<Rightarrow> replay_record \<Rightarrow>
   u64 option \<times> u64 btset \<times> 's \<Rightarrow> (u64 option \<times> u64 btset \<times> 's) result" where
  "chain_record selected body rec = (\<lambda>(active, seen, st).
     (case kind rec of
        Begin header \<Rightarrow>
          let active = activate selected header in
          Inr (active, (case active of None \<Rightarrow> seen | Some guid \<Rightarrow> bs_insert guid seen), st)
      | End \<Rightarrow> Inr (None, seen, st)
      | k \<Rightarrow> if active = None then Inr (active, seen, st)
             else and_then (body k (payload rec) st) (\<lambda>st. Inr (active, seen, st))))"

definition replay_chain ::
  "stream_reader result \<Rightarrow> u64 list \<Rightarrow> (record_kind \<Rightarrow> byte list \<Rightarrow> 's \<Rightarrow> 's result) \<Rightarrow> string \<Rightarrow> string \<Rightarrow> 's \<Rightarrow>
   's result" where
  "replay_chain opened chain body no_end changed st =
     and_then opened (\<lambda>reader.
     and_then (stream_loop (chain_record (bs_of_list chain) body) reader (None, [], st)) (\<lambda>((active, seen, st), reader).
     if \<not> saw_end reader then Inl (Bail no_end)
     else if length seen \<noteq> length chain then Inl (Bail changed)
     else Inr st))"

text \<open>Whether object \<open>n\<close> is in the range a FREEOBJECTS record frees.\<close>

definition frees_object :: "free_objects_record \<Rightarrow> u64 \<Rightarrow> bool" where
  "frees_object fo n \<longleftrightarrow>
     n \<ge> fo_first_object fo \<and> n < saturating_add (fo_first_object fo) (fo_object_count fo)"

text \<open>The records between the BEGIN and END of the selected substreams, and those substreams' GUIDs.\<close>

fun active_records :: "u64 btset \<Rightarrow> u64 option \<Rightarrow> replay_record list \<Rightarrow> replay_record list" where
  "active_records selected active [] = []"
| "active_records selected active (rec # recs) =
     (case kind rec of
        Begin header \<Rightarrow> active_records selected (activate selected header) recs
      | End \<Rightarrow> active_records selected None recs
      | _ \<Rightarrow> (if active = None then [] else [rec]) @ active_records selected active recs)"

fun active_guids :: "u64 btset \<Rightarrow> replay_record list \<Rightarrow> u64 set" where
  "active_guids selected [] = {}"
| "active_guids selected (rec # recs) =
     (case kind rec of
        Begin header \<Rightarrow> set_option (activate selected header) \<union> active_guids selected recs
      | _ \<Rightarrow> active_guids selected recs)"

text \<open>What a record means for object \<open>n\<close>: whether the object exists afterwards, and the extent
  operations on its contents. An OBJECT record for an object that does not exist starts empty; one
  for an existing object keeps the contents.\<close>

definition object_ops ::
  "codecs \<Rightarrow> u64 \<Rightarrow> record_kind \<Rightarrow> byte list \<Rightarrow> bool \<Rightarrow> (bool \<times> extent_payload extent_op list) result" where
  "object_ops z n k pay exists =
     (case k of
        Object ob \<Rightarrow> Inr (if ob_object ob = n then (True, if exists then [] else [ClearAll]) else (exists, []))
      | Write w \<Rightarrow>
          if wr_object w = n then
            and_then (decode_replay_write z (wr_compression_type w) pay (wr_logical_size w)) (\<lambda>plain.
            Inr (exists, [WriteExtent (wr_offset w) (Plain plain)]))
          else Inr (exists, [])
      | WriteEmbedded w \<Rightarrow>
          if em_object w = n then
            and_then (decode_embedded_write z (em_compression_type w) (em_embedded_type w) pay
                (em_physical_size w) (em_logical_size w)) (\<lambda>plain.
            Inr (exists, [WriteExtent (em_offset w) (Embedded (em_length w) plain)]))
          else Inr (exists, [])
      | Free fr \<Rightarrow> Inr (exists, if fr_object fr = n then [FreeExtent (fr_offset fr) (fr_length fr)] else [])
      | FreeObjects fo \<Rightarrow> Inr (if frees_object fo n then (False, [ClearAll]) else (exists, []))
      | _ \<Rightarrow> Inr (exists, []))"

text \<open>The object's contents after the records, by the abstract extent operations.\<close>

fun replay_step :: "codecs \<Rightarrow> u64 \<Rightarrow> replay_record \<Rightarrow> bool \<times> contents \<Rightarrow> (bool \<times> contents) result" where
  "replay_step z n rec (exists, c) =
     and_then (object_ops z n (kind rec) (payload rec) exists) (\<lambda>(exists', ops).
     Inr (exists', abstract_run payload_bytes ops c))"

definition replay_contents :: "codecs \<Rightarrow> u64 \<Rightarrow> replay_record list \<Rightarrow> (bool \<times> contents) result" where
  "replay_contents z n recs = try_fold (replay_step z n) (False, no_contents) recs"


section \<open>The chain loop runs its body over the active records\<close>

lemma active_body [simp]:
  assumes "body_kind (kind rec)"
  shows "active_records selected active (rec # recs) =
      (if active = None then [] else [rec]) @ active_records selected active recs"
    and "active_guids selected (rec # recs) = active_guids selected recs"
    and "chain_record selected body rec (active, seen, st) =
      (if active = None then Inr (active, seen, st)
       else and_then (body (kind rec) (payload rec) st) (\<lambda>st. Inr (active, seen, st)))"
  using assms by (auto simp: body_kind_def chain_record_def split: record_kind.splits)

lemma chain_fold:
  "try_fold (chain_record selected body) (active, seen, st) recs = Inr (active', seen', st') \<Longrightarrow> bt_wf seen \<Longrightarrow>
   try_fold (\<lambda>rec. body (kind rec) (payload rec)) st (active_records selected active recs) = Inr st' \<and>
   bt_wf seen' \<and> bs_elems seen' = bs_elems seen \<union> active_guids selected recs"
proof (induction recs arbitrary: active seen st)
  case Nil
  then show ?case by simp
next
  case (Cons rec recs)
  show ?case
  proof (cases rule: record_kind_cases3 [of "kind rec"])
    case (Begin header)
    then show ?thesis
      using Cons.IH [of "activate selected header"] Cons.prems
      by (cases "activate selected header") (auto simp: chain_record_def Let_def)
  next
    case End
    then show ?thesis using Cons.IH [of None seen st] Cons.prems by (simp add: chain_record_def)
  next
    case Body
    then show ?thesis using Cons.IH Cons.prems
      by (cases active) (auto simp: result_simps simp del: active_records.simps(2) active_guids.simps(2))
  qed
qed

lemma replay_chain_Inr:
  assumes "replay_chain opened chain body no_end changed st = Inr st'"
  obtains r recs r' where "opened = Inr r" and "reads r recs r'" and "saw_end r'"
    and "try_fold (\<lambda>rec. body (kind rec) (payload rec)) st (active_records (bs_of_list chain) None recs) = Inr st'"
    and "card (active_guids (bs_of_list chain) recs) = length chain"
proof -
  obtain r active seen r' where r: "opened = Inr r"
    and loop: "stream_loop (chain_record (bs_of_list chain) body) r (None, [], st) = Inr ((active, seen, st'), r')"
    and fin: "saw_end r'" "length seen = length chain"
    using assms by (auto simp: replay_chain_def result_simps split: if_splits)
  from loop obtain recs where recs: "reads r recs r'"
    and fold: "try_fold (chain_record (bs_of_list chain) body) (None, [], st) recs = Inr (active, seen, st')"
    by (auto simp: stream_loop_reads)
  note f = chain_fold [OF fold bt_wf_Nil]
  have "bs_elems ([] :: u64 btset) = {}" by (simp add: bs_elems_def bt_keys_def)
  moreover have "length seen = card (bs_elems seen)" using f length_bs by blast
  ultimately show thesis using that [OF r recs fin(1)] f fin by simp
qed

text \<open>A chain whose guids were all seen has no duplicates, and every one of them has a substream.\<close>

lemma active_guids_subset: "active_guids selected recs \<subseteq> bs_elems selected"
  by (induction recs) (auto simp: activate_def split: record_kind.splits if_splits)

lemma chain_seen:
  assumes "card (active_guids (bs_of_list chain) recs) = length chain"
  shows "distinct chain \<and> active_guids (bs_of_list chain) recs = set chain"
proof -
  have sub: "active_guids (bs_of_list chain) recs \<subseteq> set chain" using active_guids_subset [of "bs_of_list chain" recs] by simp
  then have "card (active_guids (bs_of_list chain) recs) \<le> card (set chain)" by (intro card_mono) auto
  then have "card (set chain) = length chain" using assms card_length [of chain] by simp
  then show ?thesis using assms sub card_subset_eq [of "set chain"] by (simp add: card_distinct)
qed

end
