(* ===== verification/Demo_Stream.thy ===== *)
theory Demo_Stream
  imports Stream_Format Replay
begin

text \<open>
  A one-snapshot send stream to evaluate the consumers of the stream on: it creates one object of
  a given type and writes one eight-byte block to it.
\<close>

definition demo_object :: "u32 \<Rightarrow> object_record" where
  "demo_object t = \<lparr>ob_object = 1, ob_object_type = t, ob_bonus_type = 44, ob_block_size = 512, ob_bonus_length = 0,
     ob_checksum_type = 0, ob_compression = 0, ob_dnode_slots = 1, ob_flags = 0, ob_raw_bonus_length = 0,
     ob_indirect_block_shift = 14, ob_levels = 1, ob_block_pointers = 1, ob_max_block_id = 0\<rparr>"

definition demo_write :: "u32 \<Rightarrow> write_record" where
  "demo_write t = \<lparr>wr_object = 1, wr_object_type = t, wr_offset = 0, wr_logical_size = 8, wr_checksum_type = 0,
     wr_flags = 0, wr_compressed_size = 0, wr_compression_type = 0, wr_salt = replicate 8 0,
     wr_iv = replicate 12 0, wr_mac = replicate 16 0\<rparr>"

definition demo_block_bytes :: "byte list" where
  "demo_block_bytes = [1, 2, 3, 4, 5, 6, 7, 8]"

definition demo_chain :: "u32 \<Rightarrow> (record_kind \<times> byte list) list" where
  "demo_chain t = [(Begin demo_begin, []), (Object (demo_object t), []), (Write (demo_write t), demo_block_bytes), (End, [])]"

definition demo_source :: "u32 \<Rightarrow> byte_source" where
  "demo_source t = \<lparr>src_bytes = encode_stream (demo_chain t), src_end = None\<rparr>"

lemma demo_chain_grammar: "send_stream (map fst (demo_chain t))"
proof -
  have "substream (Begin demo_begin # [Object (demo_object t), Write (demo_write t)] @ [End])"
    by (rule substream.intros) (simp_all add: demo_begin_def body_kind_def)
  from send_plain [OF this send_Nil] show ?thesis by (simp add: demo_chain_def)
qed

lemma demo_chain_wire: "\<forall>(k, pay) \<in> set (demo_chain t). wire_ok k pay"
  by (simp add: demo_chain_def demo_begin_def demo_object_def demo_write_def demo_block_bytes_def wire_ok_def payload_size_def DMU_SUBSTREAM_def
      MAX_PAYLOAD_SIZE_def round_up_8_def checked_add_def header_simps slice_replicate from_le_bytes_8)

lemma demo_chain_length: "length (encode_stream (demo_chain t)) = 1256"
proof -
  have "length (encode_header k n) = 312" if "k \<in> set (map fst (demo_chain t))" for k n
    using that demo_chain_wire [of t] length_encode_header [of k n] by (auto simp: wire_ok_def RECORD_SIZE_def)
  then show ?thesis by (simp add: encode_stream_def encode_record_def demo_chain_def demo_block_bytes_def)
qed

lemma demo_chain_reads:
  obtains recs r' where "reads (new_reader (demo_source t)) recs r'" and "saw_end r'"
    and "map (\<lambda>rec. (kind rec, payload rec)) recs = demo_chain t"
proof -
  have "length (encode_stream (demo_chain t)) < 2 ^ 64" by (simp add: demo_chain_length)
  from reads_complete [OF demo_chain_grammar demo_chain_wire this] obtain recs r' where
      r: "reads (new_reader (demo_source t)) recs r'" and m: "map (\<lambda>rec. (kind rec, payload rec)) recs = demo_chain t"
    unfolding demo_source_def by blast
  have "recs \<noteq> []" using m by (auto simp: demo_chain_def)
  then show thesis using that [OF r _ m] reads_new_reader(4) [OF r] by simp
qed

lemma demo_replay_chain:
  assumes "body (Object (demo_object t)) [] st = Inr st1" and "body (Write (demo_write t)) demo_block_bytes st1 = Inr st2"
  shows "replay_chain (Inr (new_reader (demo_source t))) [17] body e1 e2 st = Inr st2"
proof -
  obtain recs r' where r: "reads (new_reader (demo_source t)) recs r'" and e: "saw_end r'"
    and m: "map (\<lambda>rec. (kind rec, payload rec)) recs = demo_chain t"
    by (rule demo_chain_reads)
  obtain a b c d where recs: "recs = [a, b, c, d]"
    and k: "kind a = Begin demo_begin" "kind b = Object (demo_object t)" "payload b = []"
      "kind c = Write (demo_write t)" "payload c = demo_block_bytes" "kind d = End"
    using m by (auto simp: demo_chain_def map_eq_Cons_conv)
  have "activate (bs_of_list [17]) demo_begin = Some 17"
    by (simp add: activate_def demo_begin_def DMU_SUBSTREAM_def)
  then have "try_fold (chain_record (bs_of_list [17]) body) (None, [], st) recs = Inr (None, [(17, ())], st2)"
    using assms by (simp add: recs chain_record_def k bs_insert_def)
  then have "stream_loop (chain_record (bs_of_list [17]) body) (new_reader (demo_source t)) (None, [], st) =
      Inr ((None, [(17, ())], st2), r')"
    using r by (auto simp: stream_loop_reads)
  then show ?thesis using e by (simp add: replay_chain_def)
qed

end
