(* ===== verification/Object_Index.thy ===== *)
theory Object_Index
  imports Demo_Stream Encrypted Nvlist_Format
begin

text \<open>
  The object index (src/filesystem.rs): replaying the selected substreams of a send file into the
  objects' metadata and the contents of the metadata objects, for plain streams
  (\<open>build_plan_with_key\<close>) and encrypted raw streams (\<open>build_raw_full\<close>). Each loop body is one
  function from a record and the state to the new state; \<open>stream_loop\<close> runs it over the stream.
\<close>

section \<open>Contents of metadata objects\<close>

abbreviation (input) DMU_OT_ZNODE :: u32 where "DMU_OT_ZNODE \<equiv> 17"
abbreviation (input) DMU_OT_DIRECTORY_CONTENTS :: u32 where "DMU_OT_DIRECTORY_CONTENTS \<equiv> 20"
abbreviation (input) DMU_OT_MASTER_NODE :: u32 where "DMU_OT_MASTER_NODE \<equiv> 21"
abbreviation (input) DMU_OT_SA :: u32 where "DMU_OT_SA \<equiv> 44"
abbreviation (input) DMU_OT_SA_MASTER_NODE :: u32 where "DMU_OT_SA_MASTER_NODE \<equiv> 45"
abbreviation (input) DMU_OT_SA_ATTR_REGISTRATION :: u32 where "DMU_OT_SA_ATTR_REGISTRATION \<equiv> 46"
abbreviation (input) DMU_OT_SA_ATTR_LAYOUTS :: u32 where "DMU_OT_SA_ATTR_LAYOUTS \<equiv> 47"

definition MAX_METADATA_OBJECT :: nat where "MAX_METADATA_OBJECT = 64 * 1024 * 1024"

definition write_extent :: "u64 \<Rightarrow> byte list \<Rightarrow> byte list \<Rightarrow> byte list result" where
  "write_extent off pay bytes =
     (let start = unat off; end = start + length pay in
      if end \<ge> 2 ^ 64 then Inl (Bail ''metadata object extent overflow'')
      else if end > MAX_METADATA_OBJECT then Inl (Bail ''metadata object exceeds the 64 MiB safety limit'')
      else Inr (blit start pay (if length bytes < end then resize end 0 bytes else bytes)))"

definition replace_extent :: "u64 \<Rightarrow> u64 \<Rightarrow> byte list \<Rightarrow> byte list \<Rightarrow> byte list result" where
  "replace_extent off len pay bytes =
     (if length pay > unat len then Inl (Bail ''embedded replay payload exceeds its logical block length'')
      else let start = unat off; end = start + unat len in
        if end \<ge> 2 ^ 64 then Inl (Bail ''embedded metadata object extent overflow'')
        else if end > MAX_METADATA_OBJECT then Inl (Bail ''metadata object exceeds the 64 MiB safety limit'')
        else Inr (blit start pay (fill_range start end 0 (if length bytes < end then resize end 0 bytes else bytes))))"

definition free_extent :: "u64 \<Rightarrow> u64 \<Rightarrow> byte list \<Rightarrow> byte list result" where
  "free_extent off len bytes =
     (let start = unat off in
      if start \<ge> length bytes then Inr bytes
      else if len = u64_max then Inr (take start bytes)
      else Inr (fill_range start (min (start + unat len) (length bytes)) 0 bytes))"

text \<open>Writing a payload, by \<open>write_extent\<close> or \<open>replace_extent\<close>.\<close>

fun meta_put :: "u64 \<Rightarrow> extent_payload \<Rightarrow> byte list \<Rightarrow> byte list result" where
  "meta_put off (Plain pay) bytes = write_extent off pay bytes"
| "meta_put off (Embedded len pay) bytes = replace_extent off len pay bytes"

lemma extent_bytes_view:
  "write_extent off pay bytes = Inr bytes' \<Longrightarrow> list_view bytes' = overlay (list_view bytes) (unat off) pay"
proof -
  assume "write_extent off pay bytes = Inr bytes'"
  then have b: "bytes' = blit (unat off) pay (if length bytes < unat off + length pay
      then resize (unat off + length pay) 0 bytes else bytes)"
    by (auto simp: write_extent_def Let_def split: if_splits)
  show ?thesis
    unfolding b by (auto simp: fun_eq_iff list_view_def overlay_def slice_simps)
qed

lemma replace_extent_view:
  assumes "replace_extent off len pay bytes = Inr bytes'"
  shows "list_view bytes' = overlay (list_view bytes) (unat off) (payload_bytes (Embedded len pay))"
proof -
  define b where "b = (if length bytes < unat off + unat len then resize (unat off + unat len) 0 bytes else bytes)"
  have l: "length pay \<le> unat len" "unat off + unat len \<le> length b"
    and b': "bytes' = blit (unat off) pay (fill_range (unat off) (unat off + unat len) 0 b)"
    using assms by (auto simp: replace_extent_def b_def Let_def split: if_splits)
  have "list_view b = list_view bytes" by (auto simp: b_def list_view_def nth_resize fun_eq_iff)
  moreover have "list_view bytes' = overlay (list_view b) (unat off) (payload_bytes (Embedded len pay))"
    unfolding b' using l by (auto simp: fun_eq_iff list_view_def overlay_def slice_simps nth_append)
  ultimately show ?thesis by simp
qed

lemma free_extent_view:
  "free_extent off len bytes = Inr bytes' \<Longrightarrow> list_view bytes' = erase (list_view bytes) (unat off) len"
  by (auto simp: free_extent_def fun_eq_iff list_view_def erase_def slice_simps Let_def split: if_splits)

lemma write_extent_bound: "write_extent off pay b = Inr b' \<Longrightarrow> length b \<le> MAX_METADATA_OBJECT \<Longrightarrow> length b' \<le> MAX_METADATA_OBJECT"
  by (auto simp: write_extent_def Let_def split: if_splits)

lemma replace_extent_bound: "replace_extent off len pay b = Inr b' \<Longrightarrow> length b \<le> MAX_METADATA_OBJECT \<Longrightarrow> length b' \<le> MAX_METADATA_OBJECT"
  by (auto simp: replace_extent_def Let_def split: if_splits)

lemma free_extent_bound: "free_extent off len b = Inr b' \<Longrightarrow> length b \<le> MAX_METADATA_OBJECT \<Longrightarrow> length b' \<le> MAX_METADATA_OBJECT"
  by (auto simp: free_extent_def Let_def split: if_splits)

interpretation meta: extent_store "\<lambda>b. length b \<le> MAX_METADATA_OBJECT" list_view "\<lambda>_. True" payload_bytes
  meta_put free_extent "\<lambda>_. Inr []"
proof unfold_locales
  fix s p off s'
  assume "length s \<le> MAX_METADATA_OBJECT" and "meta_put off p s = Inr s'"
  then show "length s' \<le> MAX_METADATA_OBJECT \<and> list_view s' = overlay (list_view s) (unat off) (payload_bytes p)"
    by (cases p) (auto simp: extent_bytes_view replace_extent_view write_extent_bound replace_extent_bound)
qed (auto simp: free_extent_view free_extent_bound)


section \<open>The index\<close>

record object_meta =
  om_object_type :: u32
  om_bonus_type :: u32
  om_block_size :: u32
  om_max_block_id :: u64
  om_bonus :: "byte list"
  om_spill :: "byte list option"

record object_index =
  ix_begin :: begin_record
  ix_objects :: "(u64, object_meta) btree"
  ix_data :: "(u64, byte list) btree"
  ix_raw_crypto :: "(u64 \<times> u64) option"
  ix_raw_dnodes :: "(u64, raw_dnode) btree"

definition capture_object_data :: "u32 \<Rightarrow> bool" where
  "capture_object_data t \<longleftrightarrow>
     t \<in> {DMU_OT_DIRECTORY_CONTENTS, DMU_OT_MASTER_NODE, DMU_OT_SA_MASTER_NODE,
          DMU_OT_SA_ATTR_REGISTRATION, DMU_OT_SA_ATTR_LAYOUTS}"

text \<open>\<open>if let Some(v) = map.get_mut(&key)\<close> with a fallible body, and \<open>retain\<close> outside a freed range
  of object numbers.\<close>

definition with_entry :: "'k::linorder \<Rightarrow> ('v \<Rightarrow> 'v result) \<Rightarrow> ('k, 'v) btree \<Rightarrow> ('k, 'v) btree result" where
  "with_entry key f m =
     (case bt_get m key of None \<Rightarrow> Inr m | Some v \<Rightarrow> and_then (f v) (\<lambda>v'. Inr (bt_insert key v' m)))"

definition retain_outside :: "free_objects_record \<Rightarrow> (u64, 'v) btree \<Rightarrow> (u64, 'v) btree" where
  "retain_outside fo m =
     (let end = saturating_add (fo_first_object fo) (fo_object_count fo)
      in bt_retain (\<lambda>i. i < fo_first_object fo \<or> i \<ge> end) m)"

text \<open>What an OBJECT record does to the captured contents: a metadata object of another type starts
  empty, one of the same type keeps its bytes, and any other object has none.\<close>

definition reset_data :: "u32 \<Rightarrow> bool \<Rightarrow> u64 \<Rightarrow> (u64, byte list) btree \<Rightarrow> (u64, byte list) btree" where
  "reset_data object_type preserve_data obj data =
     (if capture_object_data object_type then
        if \<not> preserve_data then bt_insert obj [] data
        else (case bt_get data obj of None \<Rightarrow> bt_insert obj [] data | Some _ \<Rightarrow> data)
      else bt_remove obj data)"

definition kept_spill :: "(u64, object_meta) btree \<Rightarrow> object_record \<Rightarrow> byte list option" where
  "kept_spill objects ob =
     (case bt_get objects (ob_object ob) of
        None \<Rightarrow> None
      | Some meta \<Rightarrow> if ob_flags ob AND 4 \<noteq> 0 then om_spill meta else None)"

definition same_type :: "(u64, object_meta) btree \<Rightarrow> object_record \<Rightarrow> bool" where
  "same_type objects ob =
     (case bt_get objects (ob_object ob) of None \<Rightarrow> False | Some meta \<Rightarrow> om_object_type meta = ob_object_type ob)"

subsection \<open>Plain streams\<close>

record plain_state =
  ps_objects :: "(u64, object_meta) btree"
  ps_data :: "(u64, byte list) btree"

definition plain_object :: "object_record \<Rightarrow> byte list \<Rightarrow> plain_state \<Rightarrow> plain_state" where
  "plain_object ob pay st =
     (let bonus_len = min (unat (ob_bonus_length ob)) (length pay) in
      st\<lparr>ps_objects := bt_insert (ob_object ob)
           \<lparr>om_object_type = ob_object_type ob, om_bonus_type = ob_bonus_type ob,
            om_block_size = ob_block_size ob, om_max_block_id = ob_max_block_id ob,
            om_bonus = take bonus_len pay, om_spill = kept_spill (ps_objects st) ob\<rparr> (ps_objects st),
         ps_data := reset_data (ob_object_type ob) (same_type (ps_objects st) ob) (ob_object ob) (ps_data st)\<rparr>)"

definition plain_active :: "codecs \<Rightarrow> record_kind \<Rightarrow> byte list \<Rightarrow> plain_state \<Rightarrow> plain_state result" where
  "plain_active z k pay st =
     (case k of
        Object ob \<Rightarrow> Inr (plain_object ob pay st)
      | Write w \<Rightarrow>
          and_then (with_entry (wr_object w) (\<lambda>bytes.
              and_then (decode_replay_write z (wr_compression_type w) pay (wr_logical_size w)) (\<lambda>plain.
              write_extent (wr_offset w) plain bytes)) (ps_data st)) (\<lambda>data.
          Inr (st\<lparr>ps_data := data\<rparr>))
      | WriteEmbedded w \<Rightarrow>
          and_then (with_entry (em_object w) (\<lambda>bytes.
              and_then (decode_embedded_write z (em_compression_type w) (em_embedded_type w) pay
                  (em_physical_size w) (em_logical_size w)) (\<lambda>plain.
              replace_extent (em_offset w) (em_length w) plain bytes)) (ps_data st)) (\<lambda>data.
          Inr (st\<lparr>ps_data := data\<rparr>))
      | WriteByRef \<Rightarrow> Inl (Bail ''deduplicated WRITE_BYREF record at offset {} is unsupported'')
      | ObjectRange _ \<Rightarrow> Inl (Bail ''raw OBJECT_RANGE record is unsupported'')
      | Redact \<Rightarrow> Inl (Bail ''redacted streams are unsupported'')
      | Free fr \<Rightarrow>
          and_then (with_entry (fr_object fr) (free_extent (fr_offset fr) (fr_length fr)) (ps_data st)) (\<lambda>data.
          Inr (st\<lparr>ps_data := data\<rparr>))
      | FreeObjects fo \<Rightarrow>
          Inr (st\<lparr>ps_objects := retain_outside fo (ps_objects st), ps_data := retain_outside fo (ps_data st)\<rparr>)
      | Spill sp \<Rightarrow>
          and_then (decode_replay_write z 0 pay (sp_logical_size sp)) (\<lambda>plain.
          and_then (with_entry (sp_object sp) (\<lambda>meta. Inr (meta\<lparr>om_spill := Some plain\<rparr>)) (ps_objects st)) (\<lambda>objects.
          Inr (st\<lparr>ps_objects := objects\<rparr>)))
      | Begin _ \<Rightarrow> Inr st
      | End \<Rightarrow> Inr st)"

definition plain_start :: plain_state where
  "plain_start = \<lparr>ps_objects = [], ps_data = []\<rparr>"

definition build_plain :: "codecs \<Rightarrow> byte_source option \<Rightarrow> snapshot_plan \<Rightarrow> object_index result" where
  "build_plain z file plan =
     and_then (replay_chain (open_stream file) (plan_chain plan) (plain_active z)
       ''ZFS send stream has no END record'' ''stream changed between snapshot discovery and indexing'' plain_start) (\<lambda>st.
     Inr \<lparr>ix_begin = plan_target plan, ix_objects = ps_objects st, ix_data = ps_data st,
          ix_raw_crypto = None, ix_raw_dnodes = []\<rparr>)"

subsection \<open>Encrypted raw streams\<close>

definition raw_layout_compatible :: "raw_dnode \<Rightarrow> object_record \<Rightarrow> bool" where
  "raw_layout_compatible dnode ob \<longleftrightarrow>
     rd_object_type dnode = ob_object_type ob \<and> rd_block_size dnode = ob_block_size ob \<and>
     rd_slots dnode = ob_dnode_slots ob \<and> rd_indirect_block_shift dnode = ob_indirect_block_shift ob \<and>
     rd_levels dnode = ob_levels ob \<and> rd_block_pointers dnode = ob_block_pointers ob"

definition free_raw_blocks :: "u64 \<Rightarrow> u64 \<Rightarrow> raw_dnode \<Rightarrow> raw_dnode result" where
  "free_raw_blocks off len dnode =
     and_then (if len = u64_max then Inr u64_max
               else ok_or (checked_add off len) (Bail ''raw FREE extent overflow'')) (\<lambda>end.
     Inr (dnode\<lparr>rd_blocks := filter (\<lambda>block.
        case checked_mul (rb_block_id block) (rb_logical_size block) of
          None \<Rightarrow> False
        | Some start \<Rightarrow> saturating_add start (rb_logical_size block) \<le> off \<or> start \<ge> end) (rd_blocks dnode)\<rparr>))"

text \<open>The dnode an OBJECT record leaves, given the previous one; \<open>put_block\<close> replaces the block with
  the pointer's ID or adds the pointer; \<open>write_pointer\<close> and \<open>spill_pointer\<close> are the pointers of a WRITE and
  a SPILL record.\<close>

definition raw_dnode_of :: "object_record \<Rightarrow> byte list \<Rightarrow> raw_dnode option \<Rightarrow> raw_dnode" where
  "raw_dnode_of ob pay previous =
     (let compatible = (case previous of None \<Rightarrow> False | Some d \<Rightarrow> raw_layout_compatible d ob);
          blocks = (case previous of Some d \<Rightarrow> if compatible then rd_blocks d else [] | None \<Rightarrow> []);
          spill = (case previous of Some d \<Rightarrow> if ob_flags ob AND 4 \<noteq> 0 \<and> compatible then rd_spill d else None | None \<Rightarrow> None)
      in \<lparr>rd_object = ob_object ob, rd_object_type = ob_object_type ob, rd_bonus_type = ob_bonus_type ob,
          rd_block_size = ob_block_size ob, rd_bonus_length = ob_bonus_length ob,
          rd_checksum_type = ob_checksum_type ob, rd_compression = ob_compression ob, rd_slots = ob_dnode_slots ob,
          rd_flags = ob_flags ob, rd_indirect_block_shift = ob_indirect_block_shift ob, rd_levels = ob_levels ob,
          rd_block_pointers = ob_block_pointers ob, rd_max_block_id = ob_max_block_id ob,
          rd_bonus_ciphertext = pay, rd_blocks = filter (\<lambda>b. rb_block_id b \<le> ob_max_block_id ob) blocks,
          rd_spill = spill\<rparr>)"

fun put_block :: "raw_block_pointer \<Rightarrow> raw_block_pointer list \<Rightarrow> raw_block_pointer list" where
  "put_block p [] = [p]"
| "put_block p (b # bs) = (if rb_block_id b = rb_block_id p then p # bs else b # put_block p bs)"

definition write_pointer :: "write_record \<Rightarrow> raw_block_pointer" where
  "write_pointer w = \<lparr>rb_block_id = wr_offset w div wr_logical_size w, rb_object_type = wr_object_type w,
     rb_logical_size = wr_logical_size w, rb_physical_size = wr_compressed_size w,
     rb_compression = wr_compression_type w, rb_flags = wr_flags w, rb_mac = wr_mac w\<rparr>"

definition spill_pointer :: "spill_record \<Rightarrow> raw_block_pointer" where
  "spill_pointer sp = \<lparr>rb_block_id = u64_max, rb_object_type = DMU_OT_SA, rb_logical_size = sp_logical_size sp,
     rb_physical_size = sp_compressed_size sp, rb_compression = sp_compression_type sp, rb_flags = sp_flags sp,
     rb_mac = sp_mac sp\<rparr>"

text \<open>The plaintext of a raw WRITE: decrypted or authenticated by its object type, then decompressed.\<close>

definition raw_write_plaintext ::
  "crypto \<Rightarrow> codecs \<Rightarrow> dataset_key \<Rightarrow> write_record \<Rightarrow> byte list \<Rightarrow> byte list result" where
  "raw_write_plaintext k z key w pay =
     and_then
       (if is_encrypted_object_type (wr_object_type w)
        then decrypt_block k key (wr_salt w) (wr_iv w) (wr_mac w) [] pay
        else and_then (authenticate_block k key pay (wr_mac w)) (\<lambda>_. Inr pay)) (\<lambda>protected.
     raw_decompress_block z (wr_compression_type w) protected (wr_logical_size w))"

definition raw_spill_plaintext ::
  "crypto \<Rightarrow> codecs \<Rightarrow> dataset_key \<Rightarrow> spill_record \<Rightarrow> byte list \<Rightarrow> byte list result" where
  "raw_spill_plaintext k z key sp pay =
     and_then (decrypt_block k key (sp_salt sp) (sp_iv sp) (sp_mac sp) [] pay) (\<lambda>protected.
     raw_decompress_block z (sp_compression_type sp) protected (sp_logical_size sp))"

definition set_bonus :: "(u64, byte list) btree \<Rightarrow> raw_dnode \<Rightarrow> (u64, object_meta) btree \<Rightarrow> (u64, object_meta) btree result" where
  "set_bonus bonuses dnode objects =
     (case bt_get bonuses (rd_object dnode) of
        Some bonus \<Rightarrow>
          and_then (ok_or (bt_get objects (rd_object dnode)) (Bail ''raw object {} is missing from the index'')) (\<lambda>meta.
          and_then (index_range bonus 0 (unat (rd_bonus_length dnode))) (\<lambda>b.
          Inr (bt_insert (rd_object dnode) (meta\<lparr>om_bonus := b\<rparr>) objects)))
      | None \<Rightarrow>
          if rd_bonus_length dnode \<noteq> 0 then
            if length (rd_bonus_ciphertext dnode) < unat (rd_bonus_length dnode)
            then Inl (Bail ''raw object {} has a truncated bonus'')
            else and_then (ok_or (bt_get objects (rd_object dnode)) (Panic ''raw object was inserted'')) (\<lambda>meta.
              Inr (bt_insert (rd_object dnode)
                (meta\<lparr>om_bonus := take (unat (rd_bonus_length dnode)) (rd_bonus_ciphertext dnode)\<rparr>) objects))
          else Inr objects)"

definition finish_raw_range_state ::
  "crypto \<Rightarrow> dataset_key \<Rightarrow> raw_dnode_range option \<Rightarrow> (u64, raw_dnode) btree \<Rightarrow> (u64, object_meta) btree \<Rightarrow>
   (u64, object_meta) btree result" where
  "finish_raw_range_state k key current raw_dnodes objects =
     (case current of
        None \<Rightarrow> Inr objects
      | Some rng \<Rightarrow>
          and_then (ok_or (checked_add (rr_first_object rng) (rr_object_slots rng))
            (Bail ''raw OBJECT_RANGE overflows its object IDs'')) (\<lambda>end.
          let dnodes = bt_values (bt_range (rr_first_object rng) end raw_dnodes) in
          and_then (decrypt_dnode_bonuses k key rng dnodes) (\<lambda>bonuses.
          try_fold (set_bonus bonuses) objects dnodes)))"

record raw_index_state =
  ri_active :: "u64 option"
  ri_key :: "dataset_key option"
  ri_crypto :: "(u64 \<times> u64) option"
  ri_range :: "raw_dnode_range option"
  ri_dnodes :: "(u64, raw_dnode) btree"
  ri_objects :: "(u64, object_meta) btree"
  ri_data :: "(u64, byte list) btree"
  ri_seen :: "u64 btset"

definition raw_range_of :: "object_range_record \<Rightarrow> u64 \<Rightarrow> raw_dnode_range" where
  "raw_range_of rg version = \<lparr>rr_first_object = rg_first_object rg, rr_object_slots = rg_object_slots rg,
     rr_salt = rg_salt rg, rr_iv = rg_iv rg, rr_mac = rg_mac rg, rr_flags = rg_flags rg, rr_crypto_version = version\<rparr>"

definition raw_object :: "object_record \<Rightarrow> byte list \<Rightarrow> raw_index_state \<Rightarrow> raw_index_state result" where
  "raw_object ob pay st =
     and_then (ok_or (ri_range st) (Bail ''raw OBJECT record appears before OBJECT_RANGE'')) (\<lambda>rng.
     if ob_object ob < rr_first_object rng \<or> ob_object ob \<ge> saturating_add (rr_first_object rng) (rr_object_slots rng)
     then Inl (Bail ''raw OBJECT record falls outside its OBJECT_RANGE'')
     else Inr (st\<lparr>
       ri_dnodes := bt_insert (ob_object ob) (raw_dnode_of ob pay (bt_get (ri_dnodes st) (ob_object ob))) (ri_dnodes st),
       ri_objects := bt_insert (ob_object ob)
         \<lparr>om_object_type = ob_object_type ob, om_bonus_type = ob_bonus_type ob, om_block_size = ob_block_size ob,
          om_max_block_id = ob_max_block_id ob, om_bonus = [], om_spill = kept_spill (ri_objects st) ob\<rparr> (ri_objects st),
       ri_data := reset_data (ob_object_type ob) (same_type (ri_objects st) ob) (ob_object ob) (ri_data st)\<rparr>))"

definition raw_active ::
  "crypto \<Rightarrow> codecs \<Rightarrow> dataset_key \<Rightarrow> u64 \<Rightarrow> record_kind \<Rightarrow> byte list \<Rightarrow> raw_index_state \<Rightarrow> raw_index_state result" where
  "raw_active k z key version rk pay st =
     (case rk of
        ObjectRange rg \<Rightarrow>
          and_then (finish_raw_range_state k key (ri_range st) (ri_dnodes st) (ri_objects st)) (\<lambda>objects.
          Inr (st\<lparr>ri_range := Some (raw_range_of rg version), ri_objects := objects\<rparr>))
      | Object ob \<Rightarrow> raw_object ob pay st
      | Write w \<Rightarrow>
          and_then (ok_or (bt_get (ri_dnodes st) (wr_object w))
            (Bail ''raw WRITE for object {} has no OBJECT record'')) (\<lambda>dnode.
          if wr_logical_size w = 0 \<or> wr_offset w mod wr_logical_size w \<noteq> 0
          then Inl (Bail ''raw WRITE for object {} has an invalid block offset'')
          else
            and_then (with_entry (wr_object w) (\<lambda>bytes.
                and_then (raw_write_plaintext k z key w pay) (\<lambda>plain.
                write_extent (wr_offset w) plain bytes)) (ri_data st)) (\<lambda>data.
            Inr (st\<lparr>ri_dnodes := bt_insert (wr_object w)
                     (dnode\<lparr>rd_blocks := put_block (write_pointer w) (rd_blocks dnode)\<rparr>) (ri_dnodes st),
                   ri_data := data\<rparr>)))
      | Free fr \<Rightarrow>
          and_then (with_entry (fr_object fr) (free_raw_blocks (fr_offset fr) (fr_length fr)) (ri_dnodes st)) (\<lambda>dnodes.
          and_then (with_entry (fr_object fr) (free_extent (fr_offset fr) (fr_length fr)) (ri_data st)) (\<lambda>data.
          Inr (st\<lparr>ri_dnodes := dnodes, ri_data := data\<rparr>)))
      | FreeObjects fo \<Rightarrow>
          Inr (st\<lparr>ri_objects := retain_outside fo (ri_objects st), ri_data := retain_outside fo (ri_data st),
                  ri_dnodes := retain_outside fo (ri_dnodes st)\<rparr>)
      | WriteEmbedded w \<Rightarrow> Inl (Bail ''raw embedded WRITE for object {} is unsupported'')
      | WriteByRef \<Rightarrow> Inl (Bail ''raw deduplicated WRITE_BYREF is unsupported'')
      | Spill sp \<Rightarrow>
          and_then (ok_or (bt_get (ri_dnodes st) (sp_object sp))
            (Bail ''raw SPILL for object {} has no OBJECT record'')) (\<lambda>dnode.
          and_then (raw_spill_plaintext k z key sp pay) (\<lambda>plain.
          and_then (ok_or (bt_get (ri_objects st) (sp_object sp)) (Panic ''raw spill object was inserted'')) (\<lambda>meta.
          Inr (st\<lparr>ri_dnodes := bt_insert (sp_object sp) (dnode\<lparr>rd_spill := Some (spill_pointer sp)\<rparr>) (ri_dnodes st),
                  ri_objects := bt_insert (sp_object sp) (meta\<lparr>om_spill := Some plain\<rparr>) (ri_objects st)\<rparr>))))
      | Redact \<Rightarrow> Inl (Bail ''redacted streams are unsupported'')
      | Begin _ \<Rightarrow> Inr st
      | End \<Rightarrow> Inr st)"

definition raw_begin :: "crypto \<Rightarrow> byte list \<Rightarrow> u64 btset \<Rightarrow> begin_record \<Rightarrow> byte list \<Rightarrow> raw_index_state \<Rightarrow> raw_index_state result" where
  "raw_begin k material selected header pay st =
     (case activate selected header of
        None \<Rightarrow> Inr (st\<lparr>ri_active := None\<rparr>)
      | Some guid \<Rightarrow>
          and_then (from_begin_payload pay) (\<lambda>params.
          and_then
            (case ri_crypto st of
               None \<Rightarrow> Inr (ep_guid params, ep_version params)
             | Some (crypto_guid, crypto_version) \<Rightarrow>
                 if crypto_guid \<noteq> ep_guid params \<or> crypto_version \<noteq> ep_version params
                 then Inl (Bail ''selected raw snapshot chain changes encryption identity or format'')
                 else Inr (crypto_guid, crypto_version)) (\<lambda>identity.
          and_then (unlock k params material) (\<lambda>key.
          Inr (st\<lparr>ri_active := Some guid, ri_seen := bs_insert guid (ri_seen st),
                  ri_crypto := Some identity, ri_key := Some key\<rparr>)))))"

definition raw_record ::
  "crypto \<Rightarrow> codecs \<Rightarrow> byte list \<Rightarrow> u64 btset \<Rightarrow> replay_record \<Rightarrow> raw_index_state \<Rightarrow> raw_index_state result" where
  "raw_record k z material selected rec st =
     (case kind rec of
        Begin header \<Rightarrow> raw_begin k material selected header (payload rec) st
      | End \<Rightarrow>
          if ri_active st \<noteq> None then
            and_then (ok_or (ri_key st) (Panic ''active raw stream has a key'')) (\<lambda>key.
            and_then (finish_raw_range_state k key (ri_range st) (ri_dnodes st) (ri_objects st)) (\<lambda>objects.
            Inr (st\<lparr>ri_active := None, ri_key := None, ri_range := None, ri_objects := objects\<rparr>)))
          else Inr (st\<lparr>ri_active := None\<rparr>)
      | rk \<Rightarrow>
          if ri_active st = None then Inr st
          else
            and_then (ok_or (ri_key st) (Panic ''active raw stream has a key'')) (\<lambda>key.
            and_then (ok_or (ri_crypto st) (Panic ''active raw stream has crypto identity'')) (\<lambda>(_, version).
            raw_active k z key version rk (payload rec) st)))"

definition raw_start :: raw_index_state where
  "raw_start = \<lparr>ri_active = None, ri_key = None, ri_crypto = None, ri_range = None, ri_dnodes = [],
     ri_objects = [], ri_data = [], ri_seen = []\<rparr>"

definition build_raw_full ::
  "crypto \<Rightarrow> codecs \<Rightarrow> byte_source option \<Rightarrow> snapshot_plan \<Rightarrow> byte list option \<Rightarrow> object_index result" where
  "build_raw_full k z file plan key_material =
     and_then (ok_or key_material (Bail ''encrypted raw send requires --key-file or an interactive key prompt'')) (\<lambda>material.
     and_then (open_stream file) (\<lambda>reader.
     and_then (stream_loop (raw_record k z material (bs_of_list (plan_chain plan))) reader raw_start) (\<lambda>(st, reader).
     if \<not> saw_end reader then Inl (Bail ''ZFS send stream has no END record'')
     else if length (ri_seen st) \<noteq> length (plan_chain plan)
     then Inl (Bail ''selected raw snapshot chain disappeared while indexing the stream'')
     else Inr \<lparr>ix_begin = plan_target plan, ix_objects = ri_objects st, ix_data = ri_data st,
               ix_raw_crypto = ri_crypto st, ix_raw_dnodes = ri_dnodes st\<rparr>)))"

definition build_plan_with_key ::
  "crypto \<Rightarrow> codecs \<Rightarrow> byte_source option \<Rightarrow> snapshot_plan \<Rightarrow> byte list option \<Rightarrow> object_index result" where
  "build_plan_with_key k z file plan key_material =
     (if bg_features (plan_target plan) AND FEATURE_RAW \<noteq> 0 then build_raw_full k z file plan key_material
      else build_plain z file plan)"

definition raw_sidecar_state_of :: "object_index \<Rightarrow> u64 \<Rightarrow> raw_sidecar_state option result" where
  "raw_sidecar_state_of ix obj =
     (case ix_raw_crypto ix of
        None \<Rightarrow> Inr None
      | Some (crypto_guid, crypto_version) \<Rightarrow>
          let first_object = obj div 32 * 32 in
          if unat first_object + 32 \<ge> 2 ^ 64 then Inl (Panic ''attempt to add with overflow'')
          else let dnodes = bt_values (bt_range first_object (first_object + 32) (ix_raw_dnodes ix)) in
            if \<not> list_ex (\<lambda>d. rd_object d = obj) dnodes
            then Inl (Bail ''raw state for extracted object {object} is missing'')
            else Inr (Some \<lparr>rs_crypto_guid = crypto_guid, rs_crypto_version = crypto_version,
              rs_first_object = first_object, rs_object_slots = 32, rs_dnodes = dnodes,
              rs_target_spill = (case bt_get (ix_objects ix) obj of None \<Rightarrow> None | Some m \<Rightarrow> om_spill m)\<rparr>))"

section \<open>The plain index\<close>

lemma bt_wf_with_entry: "with_entry k f m = Inr m' \<Longrightarrow> bt_wf m \<Longrightarrow> bt_wf m'"
  by (auto simp: with_entry_def result_simps bt_wf_insert split: option.splits)

lemma bt_get_with_entry:
  assumes "with_entry k f m = Inr m'"
  shows "bt_get m' k' = (case bt_get m k of
     Some v \<Rightarrow> if k' = k then Some (projr (f v)) else bt_get m k' | None \<Rightarrow> bt_get m k')"
    and "bt_get m k = Some v \<Longrightarrow> \<exists>v'. f v = Inr v'"
  using assms by (auto simp: with_entry_def result_simps bt_get_insert split: option.splits)

lemma bt_get_retain_outside: "bt_get (retain_outside fo m) n = (if frees_object fo n then None else bt_get m n)"
  by (auto simp: retain_outside_def frees_object_def bt_get_retain Let_def)

lemma bt_wf_retain_outside: "bt_wf m \<Longrightarrow> bt_wf (retain_outside fo m)"
  by (simp add: retain_outside_def bt_wf_retain Let_def)

lemma bt_get_reset_data:
  "bt_get (reset_data t keep obj m) n =
     (if n = obj then
        if capture_object_data t then
          (if keep then (case bt_get m obj of None \<Rightarrow> Some [] | Some b \<Rightarrow> Some b) else Some [])
        else None
      else bt_get m n)"
  by (auto simp: reset_data_def bt_get_insert bt_get_remove split: option.splits)

lemma bt_wf_reset_data: "bt_wf m \<Longrightarrow> bt_wf (reset_data t keep obj m)"
  by (auto simp: reset_data_def bt_wf_insert bt_wf_remove split: option.splits)

text \<open>The index holds contents exactly for the live metadata objects, each within the limit.\<close>

definition data_inv :: "(u64, object_meta) btree \<Rightarrow> (u64, byte list) btree \<Rightarrow> bool" where
  "data_inv objects data \<longleftrightarrow> bt_wf objects \<and> bt_wf data \<and>
     (\<forall>n. bt_get data n \<noteq> None \<longleftrightarrow>
        (\<exists>m. bt_get objects n = Some m \<and> capture_object_data (om_object_type m))) \<and>
     (\<forall>n b. bt_get data n = Some b \<longrightarrow> length b \<le> MAX_METADATA_OBJECT)"

lemma data_inv_update:
  assumes "data_inv objects data" and "with_entry n f data = Inr data'"
    and "\<And>b b'. f b = Inr b' \<Longrightarrow> length b \<le> MAX_METADATA_OBJECT \<Longrightarrow> length b' \<le> MAX_METADATA_OBJECT"
  shows "data_inv objects data'"
proof -
  have "length b' \<le> MAX_METADATA_OBJECT" if "bt_get data n = Some b" "f b = Inr b'" for b b'
    using assms(1) assms(3) [OF that(2)] that(1) by (auto simp: data_inv_def)
  then show ?thesis
    using assms(1) bt_get_with_entry [OF assms(2)] bt_wf_with_entry [OF assms(2)]
    unfolding data_inv_def by (auto split: option.splits if_splits)
qed


lemma decode_bounds:
  "and_then x (\<lambda>plain. write_extent off plain b) = Inr b' \<Longrightarrow> length b \<le> MAX_METADATA_OBJECT \<Longrightarrow> length b' \<le> MAX_METADATA_OBJECT"
  "and_then x (\<lambda>plain. replace_extent off len plain b) = Inr b' \<Longrightarrow> length b \<le> MAX_METADATA_OBJECT \<Longrightarrow> length b' \<le> MAX_METADATA_OBJECT"
  by (auto simp: result_simps write_extent_bound replace_extent_bound)

lemma data_inv_object:
  assumes "data_inv objects data" and "om_object_type meta = t"
    and "keep \<Longrightarrow> \<exists>m. bt_get objects obj = Some m \<and> om_object_type m = t"
  shows "data_inv (bt_insert obj meta objects) (reset_data t keep obj data)"
  using assms unfolding data_inv_def
  by (auto simp: bt_wf_insert bt_wf_reset_data bt_get_insert bt_get_reset_data split: option.splits if_splits)

lemma data_inv_retain: "data_inv objects data \<Longrightarrow> data_inv (retain_outside fo objects) (retain_outside fo data)"
  unfolding data_inv_def by (auto simp: bt_wf_retain_outside bt_get_retain_outside split: if_splits)

lemma data_inv_meta:
  assumes "data_inv objects data" and "with_entry n (\<lambda>meta. Inr (g meta)) objects = Inr objects'"
    and "\<And>m. om_object_type (g m) = om_object_type m"
  shows "data_inv objects' data"
proof -
  have "(\<exists>m. bt_get objects' k = Some m \<and> capture_object_data (om_object_type m)) =
      (\<exists>m. bt_get objects k = Some m \<and> capture_object_data (om_object_type m))" for k
    using bt_get_with_entry(1) [OF assms(2), of k] assms(3) by (auto split: option.splits if_splits)
  then show ?thesis using assms(1) bt_wf_with_entry [OF assms(2)] by (simp add: data_inv_def)
qed

lemma plain_active_inv:
  assumes "plain_active z k pay st = Inr st'" and "data_inv (ps_objects st) (ps_data st)"
  shows "data_inv (ps_objects st') (ps_data st')"
proof (cases k)
  case (Object ob)
  have "same_type (ps_objects st) ob \<Longrightarrow> \<exists>m. bt_get (ps_objects st) (ob_object ob) = Some m \<and> om_object_type m = ob_object_type ob"
    by (auto simp: same_type_def split: option.splits)
  then show ?thesis using assms Object by (auto simp: plain_active_def plain_object_def Let_def intro!: data_inv_object)
next
  case (Write w)
  then show ?thesis using assms by (auto simp: plain_active_def result_simps intro: data_inv_update decode_bounds)
next
  case (WriteEmbedded w)
  then show ?thesis using assms by (auto simp: plain_active_def result_simps intro: data_inv_update decode_bounds)
next
  case (Free f)
  then show ?thesis using assms by (auto simp: plain_active_def result_simps intro: data_inv_update free_extent_bound)
next
  case (FreeObjects fo)
  then show ?thesis using assms by (auto simp: plain_active_def intro: data_inv_retain)
next
  case (Spill sp)
  then show ?thesis using assms by (auto simp: plain_active_def result_simps intro: data_inv_meta)
qed (use assms in \<open>auto simp: plain_active_def\<close>)


text \<open>The index's view of object \<open>n\<close> against the replay specification, while every OBJECT record of
  \<open>n\<close> has the same metadata type.\<close>

definition type_is :: "u64 \<Rightarrow> u32 \<Rightarrow> record_kind \<Rightarrow> bool" where
  "type_is n t k = (case k of Object ob \<Rightarrow> ob_object ob = n \<longrightarrow> ob_object_type ob = t | _ \<Rightarrow> True)"

definition index_sim ::
  "u64 \<Rightarrow> u32 \<Rightarrow> (u64, object_meta) btree \<Rightarrow> (u64, byte list) btree \<Rightarrow> bool \<Rightarrow> contents \<Rightarrow> bool" where
  "index_sim n t objects data exists c \<longleftrightarrow>
     (bt_get objects n \<noteq> None) = exists \<and> (\<forall>m. bt_get objects n = Some m \<longrightarrow> om_object_type m = t) \<and>
     (exists \<longrightarrow> (\<exists>b. bt_get data n = Some b \<and> list_view b = c))"

lemma index_sim_update:
  assumes "index_sim n t objects data exists c" and "with_entry m f data = Inr data'"
    and "\<And>b b'. m = n \<Longrightarrow> f b = Inr b' \<Longrightarrow> list_view b = c \<Longrightarrow> list_view b' = c'" and "m \<noteq> n \<Longrightarrow> c' = c"
  shows "index_sim n t objects data' exists c'"
proof (cases "m = n")
  case True
  show ?thesis
    using assms(1) bt_get_with_entry(1) [OF assms(2), of n] bt_get_with_entry(2) [OF assms(2)] assms(3) [OF True] True
    unfolding index_sim_def by (auto split: option.splits)
next
  case False
  then show ?thesis
    using assms(1,4) bt_get_with_entry(1) [OF assms(2), of n] unfolding index_sim_def by (auto split: option.splits)
qed

lemma plain_active_sim:
  assumes p: "plain_active z k pay st = Inr st'" and t: "capture_object_data t" "type_is n t k"
    and r: "object_ops z n k pay exists = Inr (exists', ops)"
    and sim: "index_sim n t (ps_objects st) (ps_data st) exists c"
  shows "index_sim n t (ps_objects st') (ps_data st') exists' (abstract_run payload_bytes ops c)"
proof (cases k)
  case (Object ob)
  then show ?thesis
    using p r sim t
    by (auto simp: plain_active_def plain_object_def object_ops_def index_sim_def type_is_def Let_def same_type_def
        bt_get_insert bt_get_reset_data no_contents_def list_view_def fun_eq_iff split: if_splits option.splits)
next
  case (Write w)
  then obtain data where d: "with_entry (wr_object w) (\<lambda>bytes.
      and_then (decode_replay_write z (wr_compression_type w) pay (wr_logical_size w)) (\<lambda>plain.
      write_extent (wr_offset w) plain bytes)) (ps_data st) = Inr data" and st': "st' = st\<lparr>ps_data := data\<rparr>"
    using p by (auto simp: plain_active_def result_simps)
  show ?thesis
    unfolding st' using index_sim_update [OF sim d] r Write
    by (auto simp: object_ops_def result_simps extent_bytes_view split: if_splits)
next
  case (WriteEmbedded w)
  then obtain data where d: "with_entry (em_object w) (\<lambda>bytes.
      and_then (decode_embedded_write z (em_compression_type w) (em_embedded_type w) pay
        (em_physical_size w) (em_logical_size w)) (\<lambda>plain.
      replace_extent (em_offset w) (em_length w) plain bytes)) (ps_data st) = Inr data"
    and st': "st' = st\<lparr>ps_data := data\<rparr>"
    using p by (auto simp: plain_active_def result_simps)
  show ?thesis
    unfolding st' using index_sim_update [OF sim d] r WriteEmbedded
    by (auto simp: object_ops_def result_simps replace_extent_view split: if_splits)
next
  case (Free fr)
  then obtain data where d: "with_entry (fr_object fr) (free_extent (fr_offset fr) (fr_length fr)) (ps_data st) = Inr data"
    and st': "st' = st\<lparr>ps_data := data\<rparr>"
    using p by (auto simp: plain_active_def result_simps)
  show ?thesis
    unfolding st' using index_sim_update [OF sim d] r Free
    by (auto simp: object_ops_def free_extent_view split: if_splits)
next
  case (FreeObjects fo)
  then show ?thesis using p r sim
    by (auto simp: plain_active_def object_ops_def index_sim_def bt_get_retain_outside split: if_splits)
next
  case (Spill sp)
  then show ?thesis using p r sim
    by (auto simp: plain_active_def object_ops_def index_sim_def result_simps with_entry_def bt_get_insert split: option.splits if_splits)
qed (use p r sim in \<open>auto simp: plain_active_def object_ops_def\<close>)

lemma plain_fold_sim:
  assumes "try_fold (\<lambda>rec. plain_active z (kind rec) (payload rec)) st recs = Inr st'"
    and "try_fold (replay_step z n) (exists, c) recs = Inr (exists', c')"
    and "capture_object_data t" and "list_all (\<lambda>rec. type_is n t (kind rec)) recs"
    and "index_sim n t (ps_objects st) (ps_data st) exists c"
  shows "index_sim n t (ps_objects st') (ps_data st') exists' c'"
  using assms
proof (induction recs arbitrary: st exists c)
  case Nil
  then show ?case by simp
next
  case (Cons rec recs)
  obtain s1 where s1: "plain_active z (kind rec) (payload rec) st = Inr s1"
    and rest: "try_fold (\<lambda>rec. plain_active z (kind rec) (payload rec)) s1 recs = Inr st'"
    using Cons.prems(1) by (auto simp: result_simps)
  obtain e1 ops where o: "object_ops z n (kind rec) (payload rec) exists = Inr (e1, ops)"
    and rest2: "try_fold (replay_step z n) (e1, abstract_run payload_bytes ops c) recs = Inr (exists', c')"
    using Cons.prems(2) by (auto simp: result_simps)
  show ?case
    using Cons.IH [OF rest rest2] Cons.prems plain_active_sim [OF s1 Cons.prems(3) _ o Cons.prems(5)] by simp
qed


lemma build_plain_Inr:
  assumes "build_plain z file plan = Inr ix"
  obtains src recs r' st where "file = Some src" and "reads (new_reader src) recs r'" and "saw_end r'"
    and "try_fold (\<lambda>rec. plain_active z (kind rec) (payload rec)) plain_start
      (active_records (bs_of_list (plan_chain plan)) None recs) = Inr st"
    and "ix_objects ix = ps_objects st" and "ix_data ix = ps_data st"
    and "distinct (plan_chain plan)" and "active_guids (bs_of_list (plan_chain plan)) recs = set (plan_chain plan)"
proof -
  from assms obtain st where c: "replay_chain (open_stream file) (plan_chain plan) (plain_active z)
      ''ZFS send stream has no END record'' ''stream changed between snapshot discovery and indexing'' plain_start = Inr st"
    and ix: "ix_objects ix = ps_objects st" "ix_data ix = ps_data st"
    by (auto simp: build_plain_def result_simps)
  from c show thesis
  proof (cases rule: replay_chain_Inr)
    case (1 r recs r')
    then show ?thesis using that ix chain_seen [OF 1(5)] by (auto simp: open_stream_def result_simps)
  qed
qed

lemma plain_start_inv: "data_inv (ps_objects plain_start) (ps_data plain_start)"
  by (simp add: plain_start_def data_inv_def)

section \<open>The raw index does not panic\<close>

definition types_of :: "(u64, object_meta) btree \<Rightarrow> u64 \<Rightarrow> u32 option" where
  "types_of objects n = map_option om_object_type (bt_get objects n)"

lemma types_of_None: "types_of objects n = None \<longleftrightarrow> bt_get objects n = None"
  by (simp add: types_of_def)

lemma data_inv_types:
  assumes "data_inv objects data" and "bt_wf objects'" and "types_of objects' = types_of objects"
  shows "data_inv objects' data"
proof -
  have "(\<exists>m. bt_get objects' n = Some m \<and> capture_object_data (om_object_type m)) =
      (\<exists>m. bt_get objects n = Some m \<and> capture_object_data (om_object_type m))" for n
    using fun_cong [OF assms(3), of n]
    by (cases "bt_get objects n"; cases "bt_get objects' n") (simp_all add: types_of_def)
  then show ?thesis using assms(1,2) by (simp add: data_inv_def)
qed

text \<open>The invariant of the raw index: dnodes and objects have the same keys, a dnode is stored under
  its own number, and an active substream has its key.\<close>

definition raw_inv :: "raw_index_state \<Rightarrow> bool" where
  "raw_inv st \<longleftrightarrow> bt_wf (ri_dnodes st) \<and> data_inv (ri_objects st) (ri_data st) \<and>
     (\<forall>n. bt_get (ri_dnodes st) n = None \<longleftrightarrow> bt_get (ri_objects st) n = None) \<and>
     (\<forall>n d. bt_get (ri_dnodes st) n = Some d \<longrightarrow> rd_object d = n) \<and>
     (ri_active st \<noteq> None \<longrightarrow> ri_key st \<noteq> None \<and> ri_crypto st \<noteq> None)"

lemma raw_invD:
  assumes "raw_inv st" and "bt_get (ri_dnodes st) n = Some d"
  shows "rd_object d = n \<and> (\<exists>m. bt_get (ri_objects st) n = Some m)"
proof -
  have "bt_get (ri_dnodes st) n = None \<longleftrightarrow> bt_get (ri_objects st) n = None" "rd_object d = n"
    using assms unfolding raw_inv_def by blast+
  then show ?thesis using assms(2) by (cases "bt_get (ri_objects st) n") auto
qed

lemma set_bonus_keeps:
  assumes "set_bonus bonuses d objects = Inr objects'" and "bt_wf objects"
  shows "bt_wf objects' \<and> types_of objects' = types_of objects"
  using assms
  by (auto simp: set_bonus_def result_simps bt_wf_insert types_of_def bt_get_insert fun_eq_iff slice_simps
      split: option.splits if_splits)

lemma values_in_range:
  assumes "bt_wf m" and "d \<in> set (bt_values (bt_range a b m))"
  shows "\<exists>n. bt_get m n = Some d"
  using assms by (auto simp: bt_values_def set_bt_range bt_get_Some_set)

lemma no_panic_set_bonus:
  assumes "bt_get objects (rd_object d) \<noteq> None"
    and "\<And>b. bt_get bonuses (rd_object d) = Some b \<Longrightarrow> unat (rd_bonus_length d) \<le> length b"
  shows "no_panic (set_bonus bonuses d objects)"
  using assms by (auto simp: set_bonus_def panic_simps split: option.splits)

lemma finish_range_ok:
  assumes k: "crypto_lengths k" and wf: "bt_wf dnodes"
    and obj: "\<forall>n d. bt_get dnodes n = Some d \<longrightarrow> rd_object d = n \<and> bt_get objects n \<noteq> None"
    and wfo: "bt_wf objects"
  shows "no_panic (finish_raw_range_state k key current dnodes objects)"
    and "finish_raw_range_state k key current dnodes objects = Inr objects' \<Longrightarrow>
      bt_wf objects' \<and> types_of objects' = types_of objects"
proof -
  let ?ds = "\<lambda>rng e. bt_values (bt_range (rr_first_object rng) e dnodes)"
  have len: "unat (rd_bonus_length d) \<le> length b"
    if dec: "decrypt_dnode_bonuses k key rng (?ds rng e) = Inr bonuses" and d: "d \<in> set (?ds rng e)"
      and b: "bt_get bonuses (rd_object d) = Some b" for rng e bonuses d b
  proof -
    obtain d' where d': "d' \<in> set (?ds rng e)" "rd_object d' = rd_object d" "unat (rd_bonus_length d') \<le> length b"
      using decrypt_dnode_bonuses_Inr [OF k dec b] by blast
    then have "d' = d" using values_in_range [OF wf d] values_in_range [OF wf d'(1)] obj by fastforce
    then show ?thesis using d' by simp
  qed
  have "no_panic (try_fold (set_bonus bonuses) objects (?ds rng e))"
    if "decrypt_dnode_bonuses k key rng (?ds rng e) = Inr bonuses" for rng e bonuses
  proof (rule no_panic_try_fold [where P = "\<lambda>os. bt_wf os \<and> types_of os = types_of objects"])
    fix d os
    assume d: "d \<in> set (?ds rng e)" and os: "bt_wf os \<and> types_of os = types_of objects"
    have "types_of objects (rd_object d) \<noteq> None" using values_in_range [OF wf d] obj by (auto simp: types_of_def)
    then have "bt_get os (rd_object d) \<noteq> None" using os by (metis types_of_None)
    then show "no_panic (set_bonus bonuses d os)" using len [OF that d] by (intro no_panic_set_bonus)
  qed (use wfo set_bonus_keeps in \<open>auto\<close>)
  then show "no_panic (finish_raw_range_state k key current dnodes objects)"
    by (auto simp: finish_raw_range_state_def panic_simps Let_def no_panic_decrypt_dnode_bonuses [OF k] split: option.split)
  show "bt_wf objects' \<and> types_of objects' = types_of objects"
    if fin: "finish_raw_range_state k key current dnodes objects = Inr objects'"
  proof (cases current)
    case None
    then show ?thesis using fin wfo by (simp add: finish_raw_range_state_def)
  next
    case (Some rng)
    then obtain e bonuses where "try_fold (set_bonus bonuses) objects (?ds rng e) = Inr objects'"
      using fin by (auto simp: finish_raw_range_state_def result_simps Let_def)
    then show ?thesis
      by (rule try_fold_invariant [where P = "\<lambda>os. bt_wf os \<and> types_of os = types_of objects"])
        (use wfo set_bonus_keeps in auto)
  qed
qed


lemma free_raw_blocks_object: "free_raw_blocks off len d = Inr d' \<Longrightarrow> rd_object d' = rd_object d"
  by (auto simp: free_raw_blocks_def result_simps)

lemma raw_inv_finish:
  assumes "crypto_lengths k" and "raw_inv st"
  shows "no_panic (finish_raw_range_state k key rng (ri_dnodes st) (ri_objects st))"
    and "finish_raw_range_state k key rng (ri_dnodes st) (ri_objects st) = Inr objects' \<Longrightarrow>
      raw_inv (st\<lparr>ri_objects := objects'\<rparr>)"
proof -
  have p: "bt_wf (ri_dnodes st)" "bt_wf (ri_objects st)"
    "\<forall>n d. bt_get (ri_dnodes st) n = Some d \<longrightarrow> rd_object d = n \<and> bt_get (ri_objects st) n \<noteq> None"
    using assms(2) raw_invD [OF assms(2)] by (simp_all add: raw_inv_def data_inv_def)
  note ok = finish_range_ok [OF assms(1) p(1) p(3) p(2)]
  show "no_panic (finish_raw_range_state k key rng (ri_dnodes st) (ri_objects st))" by (rule ok(1))
  show "raw_inv (st\<lparr>ri_objects := objects'\<rparr>)"
    if "finish_raw_range_state k key rng (ri_dnodes st) (ri_objects st) = Inr objects'"
  proof -
    have f: "bt_wf objects'" "types_of objects' = types_of (ri_objects st)" using ok(2) [OF that] by auto
    have "(bt_get objects' n = None) = (bt_get (ri_objects st) n = None)" for n
      using fun_cong [OF f(2), of n] by (cases "bt_get objects' n"; cases "bt_get (ri_objects st) n") (simp_all add: types_of_def)
    then show ?thesis using assms(2) data_inv_types [OF _ f] by (auto simp: raw_inv_def)
  qed
qed

lemma no_panic_free [panic_simps]:
  "no_panic (free_raw_blocks off len d)" "no_panic (free_extent off len b)" "no_panic (write_extent off p b)"
  by (auto simp: free_raw_blocks_def free_extent_def write_extent_def Let_def panic_simps)

lemma no_panic_with_entry [panic_simps]: "(\<And>v. no_panic (f v)) \<Longrightarrow> no_panic (with_entry n f m)"
  by (auto simp: with_entry_def panic_simps split: option.split)

lemma no_panic_decompress [panic_simps]: "no_panic (decompress_block z c p n)" "no_panic (raw_decompress_block z c p n)"
  by (auto simp: raw_decompress_block_def decompress_block_def decompress_gzip_def decompress_zstd_def Let_def panic_simps
      split: compress_type.split)

lemma no_panic_raw_plaintext [panic_simps]:
  "no_panic (raw_write_plaintext k z key w pay)" "no_panic (raw_spill_plaintext k z key sp pay)"
  by (auto simp: raw_write_plaintext_def raw_spill_plaintext_def authenticate_block_def authenticate_bytes_def panic_simps)

lemma raw_active_ok:
  assumes k: "crypto_lengths k" and inv: "raw_inv st"
  shows "no_panic (raw_active k z key v rk pay st)"
proof (cases rk)
  case (Spill sp)
  have "bt_get (ri_objects st) (sp_object sp) \<noteq> None" if "bt_get (ri_dnodes st) (sp_object sp) = Some d" for d
    using raw_invD [OF inv that] by auto
  then show ?thesis using Spill by (auto simp: raw_active_def panic_simps result_simps)
qed (use raw_inv_finish(1) [OF k inv] in \<open>auto simp: raw_active_def raw_object_def panic_simps\<close>)


lemma raw_dnode_of_object [simp]: "rd_object (raw_dnode_of ob pay previous) = ob_object ob"
  by (simp add: raw_dnode_of_def Let_def)

lemma raw_inv_active:
  assumes k: "crypto_lengths k" and inv: "raw_inv st" and a: "raw_active k z key v rk pay st = Inr st'"
  shows "raw_inv st'"
proof (cases rk)
  case (ObjectRange rg)
  then obtain objects where "finish_raw_range_state k key (ri_range st) (ri_dnodes st) (ri_objects st) = Inr objects"
    and "st' = st\<lparr>ri_range := Some (raw_range_of rg v), ri_objects := objects\<rparr>"
    using a by (auto simp: raw_active_def result_simps)
  then show ?thesis using raw_inv_finish(2) [OF k inv] by (auto simp: raw_inv_def)
next
  case (Object ob)
  have "same_type (ri_objects st) ob \<Longrightarrow> \<exists>m. bt_get (ri_objects st) (ob_object ob) = Some m \<and> om_object_type m = ob_object_type ob"
    by (auto simp: same_type_def split: option.splits)
  then have "data_inv (bt_insert (ob_object ob) meta (ri_objects st))
      (reset_data (ob_object_type ob) (same_type (ri_objects st) ob) (ob_object ob) (ri_data st))"
    if "om_object_type meta = ob_object_type ob" for meta
    using inv that by (intro data_inv_object) (auto simp: raw_inv_def)
  then show ?thesis using a inv Object
    by (auto simp: raw_active_def raw_object_def raw_inv_def result_simps bt_wf_insert bt_get_insert split: if_splits)
next
  case (Write w)
  then obtain dnode data where d: "bt_get (ri_dnodes st) (wr_object w) = Some dnode"
    and e: "with_entry (wr_object w) (\<lambda>bytes. and_then (raw_write_plaintext k z key w pay) (\<lambda>plain.
                write_extent (wr_offset w) plain bytes)) (ri_data st) = Inr data"
    and st': "st' = st\<lparr>ri_dnodes := bt_insert (wr_object w)
                     (dnode\<lparr>rd_blocks := put_block (write_pointer w) (rd_blocks dnode)\<rparr>) (ri_dnodes st),
                   ri_data := data\<rparr>"
    using a by (auto simp: raw_active_def result_simps split: if_splits)
  have "data_inv (ri_objects st) data"
    using inv by (intro data_inv_update [OF _ e]) (auto simp: raw_inv_def intro: decode_bounds)
  then show ?thesis using inv d raw_invD [OF inv d] unfolding st' by (auto simp: raw_inv_def bt_wf_insert bt_get_insert)
next
  case (Free fr)
  then obtain dnodes data where d: "with_entry (fr_object fr) (free_raw_blocks (fr_offset fr) (fr_length fr)) (ri_dnodes st) = Inr dnodes"
    and e: "with_entry (fr_object fr) (free_extent (fr_offset fr) (fr_length fr)) (ri_data st) = Inr data"
    and st': "st' = st\<lparr>ri_dnodes := dnodes, ri_data := data\<rparr>"
    using a by (auto simp: raw_active_def result_simps)
  have "data_inv (ri_objects st) data"
    using inv by (intro data_inv_update [OF _ e]) (auto simp: raw_inv_def intro: free_extent_bound)
  moreover have "(bt_get dnodes n = None) = (bt_get (ri_dnodes st) n = None)" for n
    using bt_get_with_entry(1) [OF d, of n] by (auto split: option.splits)
  moreover have "rd_object x = n" if "bt_get dnodes n = Some x" for n x
    using that bt_get_with_entry(1) [OF d, of n] bt_get_with_entry(2) [OF d] inv free_raw_blocks_object
    by (fastforce simp: raw_inv_def split: option.splits if_splits)
  ultimately show ?thesis using inv bt_wf_with_entry [OF d] unfolding st' by (auto simp: raw_inv_def)
next
  case (FreeObjects fo)
  then show ?thesis using a inv
    by (auto simp: raw_active_def raw_inv_def data_inv_retain bt_wf_retain_outside bt_get_retain_outside split: if_splits)
next
  case (Spill sp)
  then obtain dnode meta plain where d: "bt_get (ri_dnodes st) (sp_object sp) = Some dnode"
    and m: "bt_get (ri_objects st) (sp_object sp) = Some meta"
    and st': "st' = st\<lparr>ri_dnodes := bt_insert (sp_object sp) (dnode\<lparr>rd_spill := Some (spill_pointer sp)\<rparr>) (ri_dnodes st),
                  ri_objects := bt_insert (sp_object sp) (meta\<lparr>om_spill := Some plain\<rparr>) (ri_objects st)\<rparr>"
    using a by (auto simp: raw_active_def result_simps)
  have "data_inv (bt_insert (sp_object sp) (meta\<lparr>om_spill := Some plain\<rparr>) (ri_objects st)) (ri_data st)"
  proof (rule data_inv_types)
    show di: "data_inv (ri_objects st) (ri_data st)" using inv by (simp add: raw_inv_def)
    then show "bt_wf (bt_insert (sp_object sp) (meta\<lparr>om_spill := Some plain\<rparr>) (ri_objects st))"
      by (simp add: data_inv_def bt_wf_insert)
  qed (use m in \<open>auto simp: types_of_def bt_get_insert fun_eq_iff\<close>)
  then show ?thesis using inv m raw_invD [OF inv d] unfolding st' by (simp add: raw_inv_def bt_wf_insert bt_get_insert)
qed (use a inv in \<open>auto simp: raw_active_def\<close>)


lemma no_panic_xdr_parts [panic_simps]:
  "no_panic (nv_take bs c n)" "no_panic (nv_u32 bs c)" "no_panic (nv_u64 bs c)" "no_panic (nv_le_u16 bs c)"
  "no_panic (nv_le_u32 bs c)" "no_panic (nv_le_u64 bs c)" "no_panic (nv_string bs c)" "no_panic (xdr_header bs c)"
  by (auto simp: nv_take_def nv_u32_def nv_u64_def nv_le_u16_def nv_le_u32_def nv_le_u64_def nv_string_def xdr_header_def panic_simps)

lemma no_panic_byte_array [panic_simps]: "no_panic (nv_byte_array bs c n)"
  by (induction bs c n rule: nv_byte_array.induct) (auto simp: panic_simps)

lemma no_panic_native_pair [panic_simps]: "no_panic (native_pair bs s n c)"
  by (auto simp: native_pair_def Let_def panic_simps)

lemma no_panic_xdr_pairs [panic_simps]: "no_panic (xdr_pairs bs c vs)"
proof (induction bs c vs rule: xdr_pairs.induct)
  case (1 bs c vs)
  show ?case using 1 by (subst xdr_pairs.simps) (auto simp: panic_simps Let_def result_simps)
qed

lemma no_panic_native_pairs [panic_simps]: "no_panic (native_pairs bs c vs)"
proof (induction "length bs - c" arbitrary: c vs rule: less_induct)
  case less
  have IH: "no_panic (native_pairs bs c' vs')" if "c < c'" "c < length bs" for c' vs'
    using less that by auto
  show ?case
    by (subst native_pairs.simps)
      (auto simp: panic_simps word_less_nat_alt less_max_iff_disj dest!: nv_reads_progress native_pair_Inr intro!: IH)
qed

lemma no_panic_nv_decode [panic_simps]: "no_panic (nv_decode bs)"
  by (auto simp: nv_decode_def native_list_def xdr_list_def panic_simps)


lemma no_panic_from_begin_payload [panic_simps]: "no_panic (from_begin_payload pay)"
proof -
  have "no_panic (nv_uint64 c n)" "no_panic (nv_bytes c n)" "no_panic (nv_array m b)" for c n m b
    by (auto simp: nv_uint64_def nv_bytes_def nv_array_def split: option.split nv_value.split)
  then show ?thesis
    by (auto simp: from_begin_payload_def panic_simps split: option.split nv_value.split)
qed

lemma no_panic_unlock [panic_simps]: "no_panic (unlock k p m)"
proof -
  have "no_panic (decode_hex_pairs bs)" for bs
    by (induction bs rule: decode_hex_pairs.induct) (auto simp: panic_simps)
  then have "no_panic (wrapping_key k p m)" by (auto simp: wrapping_key_def decode_hex_key_def)
  then show ?thesis by (auto simp: unlock_def suite_key_len_def panic_simps Let_def)
qed

lemma raw_begin_ok:
  shows "no_panic (raw_begin k m sel h pay st)"
    and "raw_begin k m sel h pay st = Inr st' \<Longrightarrow> raw_inv st \<Longrightarrow> raw_inv st'"
proof -
  show "no_panic (raw_begin k m sel h pay st)"
    by (auto simp: raw_begin_def panic_simps split: option.split)
  show "raw_inv st'" if b: "raw_begin k m sel h pay st = Inr st'" and inv: "raw_inv st"
  proof (cases "activate sel h")
    case None
    then show ?thesis using b inv by (auto simp: raw_begin_def raw_inv_def)
  next
    case (Some g)
    then obtain identity key where "st' = st\<lparr>ri_active := Some g, ri_seen := bs_insert g (ri_seen st),
        ri_crypto := Some identity, ri_key := Some key\<rparr>"
      using b by (auto simp: raw_begin_def result_simps)
    then show ?thesis using inv by (simp add: raw_inv_def)
  qed
qed

lemma raw_record_ok:
  assumes k: "crypto_lengths k" and inv: "raw_inv st"
  shows "no_panic (raw_record k z m sel rec st)"
    and "raw_record k z m sel rec st = Inr st' \<Longrightarrow> raw_inv st'"
proof -
  have act: "ri_active st \<noteq> None \<Longrightarrow> ri_key st \<noteq> None \<and> ri_crypto st \<noteq> None" using inv by (simp add: raw_inv_def)
  have "no_panic (raw_record k z m sel rec st) \<and> (raw_record k z m sel rec st = Inr st' \<longrightarrow> raw_inv st')"
  proof (cases rule: record_kind_cases3 [of "kind rec"])
    case (Begin b)
    then show ?thesis using inv raw_begin_ok [of k m sel b "payload rec" st] by (auto simp: raw_record_def)
  next
    case End
    show ?thesis
    proof (cases "ri_active st")
      case None
      then show ?thesis using End inv by (auto simp: raw_record_def raw_inv_def)
    next
      case (Some g)
      then show ?thesis using End act raw_inv_finish [OF k inv]
        by (auto simp: raw_record_def panic_simps result_simps) (auto simp: raw_inv_def)
    qed
  next
    case Body
    then have "raw_record k z m sel rec st = (if ri_active st = None then Inr st
          else and_then (ok_or (ri_key st) (Panic ''active raw stream has a key'')) (\<lambda>key.
            and_then (ok_or (ri_crypto st) (Panic ''active raw stream has crypto identity'')) (\<lambda>(_, version).
            raw_active k z key version (kind rec) (payload rec) st)))"
      by (cases "kind rec") (simp_all add: raw_record_def body_kind_def)
    then show ?thesis using act inv raw_active_ok [OF k inv] raw_inv_active [OF k inv]
      by (auto simp: panic_simps result_simps)
  qed
  then show "no_panic (raw_record k z m sel rec st)" and "raw_record k z m sel rec st = Inr st' \<Longrightarrow> raw_inv st'" by auto
qed

text \<open>A consumer's loop does not panic when its body, from a state with an invariant, does not.\<close>

lemma no_panic_stream_loop:
  assumes "\<And>rec st. P st \<Longrightarrow> no_panic (f rec st)" and "\<And>rec st st'. P st \<Longrightarrow> f rec st = Inr st' \<Longrightarrow> P st'" and "P st"
  shows "no_panic (stream_loop f r st)"
  using assms(3)
proof (induction "length (src_bytes (inner r))" arbitrary: r st rule: less_induct)
  case less
  show ?case
  proof (cases "next_record r")
    case (Inl e)
    then show ?thesis by (subst stream_loop.simps) simp
  next
    case (Inr p)
    obtain o1 r1 where p: "p = (o1, r1)" by (cases p)
    show ?thesis
    proof (cases o1)
      case None
      then show ?thesis using Inr p by (subst stream_loop.simps) simp
    next
      case (Some rec)
      have "no_panic (stream_loop f r1 st1)" if "f rec st = Inr st1" for st1
        using less.hyps [of r1 st1] next_record_decreases [of r rec r1] Inr p Some assms(2) [OF less.prems that] by simp
      then show ?thesis using Inr p Some assms(1) [OF less.prems] by (subst stream_loop.simps) (simp add: no_panic_and_then)
    qed
  qed
qed

lemma raw_start_inv: "raw_inv raw_start"
  by (simp add: raw_inv_def raw_start_def data_inv_def)

lemma no_panic_build_raw_full:
  assumes k: "crypto_lengths k"
  shows "no_panic (build_raw_full k z file plan material)"
proof -
  have "no_panic (stream_loop (raw_record k z m sel) r raw_start)" for m sel r
    using raw_record_ok [OF k] raw_start_inv by (intro no_panic_stream_loop [where P = raw_inv])
  then show ?thesis by (auto simp: build_raw_full_def open_stream_def panic_simps)
qed

lemma build_raw_full_inv:
  assumes k: "crypto_lengths k" and b: "build_raw_full k z file plan material = Inr ix"
  shows "data_inv (ix_objects ix) (ix_data ix)" and "bt_wf (ix_raw_dnodes ix)"
    and "bt_get (ix_raw_dnodes ix) n = Some d \<Longrightarrow> rd_object d = n \<and> (\<exists>m. bt_get (ix_objects ix) n = Some m)"
proof -
  obtain m r st r' where "stream_loop (raw_record k z m (bs_of_list (plan_chain plan))) r raw_start = Inr (st, r')"
    and ix: "ix_objects ix = ri_objects st" "ix_data ix = ri_data st" "ix_raw_dnodes ix = ri_dnodes st"
    using b by (auto simp: build_raw_full_def result_simps split: if_splits)
  then obtain recs where "try_fold (raw_record k z m (bs_of_list (plan_chain plan))) raw_start recs = Inr st"
    by (auto simp: stream_loop_reads)
  then have inv: "raw_inv st"
    by (rule try_fold_invariant [where P = raw_inv, OF _ raw_start_inv raw_record_ok(2) [OF k]])
  then show "data_inv (ix_objects ix) (ix_data ix)" and "bt_wf (ix_raw_dnodes ix)" by (simp_all add: ix raw_inv_def)
  show "rd_object d = n \<and> (\<exists>m. bt_get (ix_objects ix) n = Some m)" if "bt_get (ix_raw_dnodes ix) n = Some d"
    using raw_invD [OF inv] that by (simp add: ix)
qed

section \<open>Properties\<close>

text \<open>C9: the plain index replays the selected chain. When indexing succeeds, the stream was read to
  its end, the plan's snapshots are distinct and all occur in it, the index holds contents exactly
  for the live metadata objects (at most 64 MiB each), and for every object whose OBJECT records
  all have one metadata type the indexed bytes are the contents that the records of the selected
  substreams specify, while an object that does not exist at the end has none.\<close>

theorem index_contents_are_replayed:
  assumes "build_plain z file plan = Inr ix"
  shows "\<exists>src recs r'. file = Some src \<and> reads (new_reader src) recs r' \<and> saw_end r' \<and>
    distinct (plan_chain plan) \<and> active_guids (bs_of_list (plan_chain plan)) recs = set (plan_chain plan) \<and>
    data_inv (ix_objects ix) (ix_data ix) \<and>
    (\<forall>n t exists c. capture_object_data t \<longrightarrow>
       list_all (\<lambda>rec. type_is n t (kind rec)) (active_records (bs_of_list (plan_chain plan)) None recs) \<longrightarrow>
       replay_contents z n (active_records (bs_of_list (plan_chain plan)) None recs) = Inr (exists, c) \<longrightarrow>
       index_sim n t (ix_objects ix) (ix_data ix) exists c)"
  using assms
proof (cases rule: build_plain_Inr)
  case (1 src recs r' st)
  let ?recs = "active_records (bs_of_list (plan_chain plan)) None recs"
  have "data_inv (ps_objects st) (ps_data st)"
    using 1(4) plain_start_inv by (rule try_fold_invariant) (rule plain_active_inv)
  moreover have "index_sim n t (ps_objects st) (ps_data st) exists c"
    if "capture_object_data t" "list_all (\<lambda>rec. type_is n t (kind rec)) ?recs" "replay_contents z n ?recs = Inr (exists, c)"
    for n t exists c
    by (rule plain_fold_sim [OF 1(4) that(3) [unfolded replay_contents_def] that(1,2)])
      (simp add: plain_start_def index_sim_def)
  ultimately show ?thesis using 1 by (intro exI [of _ src] exI [of _ recs] exI [of _ r']) simp
qed

definition demo_plan :: snapshot_plan where
  "demo_plan = \<lparr>plan_target = demo_begin, plan_chain = [17]\<rparr>"

lemma demo_index:
  "\<exists>m. build_plain plain_codecs (Some (demo_source 21)) demo_plan =
     Inr \<lparr>ix_begin = demo_begin, ix_objects = [(1, m)], ix_data = [(1, demo_block_bytes)],
          ix_raw_crypto = None, ix_raw_dnodes = []\<rparr>"
proof -
  obtain st1 where st1: "plain_active plain_codecs (Object (demo_object 21)) [] plain_start = Inr st1"
    and s1: "ps_data st1 = [(1, [])]" "\<exists>m. ps_objects st1 = [(1, m)]"
    by (simp add: plain_active_def plain_object_def plain_start_def demo_object_def reset_data_def capture_object_data_def
        same_type_def kept_spill_def)
  moreover have "plain_active plain_codecs (Write (demo_write 21)) demo_block_bytes st1 =
      Inr (st1\<lparr>ps_data := [(1, demo_block_bytes)]\<rparr>)"
    using s1 by (simp add: plain_active_def demo_write_def with_entry_def decode_replay_write_def demo_block_bytes_def
        write_extent_def MAX_METADATA_OBJECT_def blit_def resize_def)
  ultimately show ?thesis
    using demo_replay_chain [of "plain_active plain_codecs" 21 plain_start st1]
    by (auto simp: build_plain_def open_stream_def demo_plan_def)
qed

theorem index_contents_are_replayed_witness:
  "\<exists>ix. build_plain plain_codecs (Some (demo_source 21)) demo_plan = Inr ix \<and>
     bt_get (ix_data ix) 1 = Some demo_block_bytes \<and> data_inv (ix_objects ix) (ix_data ix)"
proof -
  obtain m where b: "build_plain plain_codecs (Some (demo_source 21)) demo_plan =
     Inr \<lparr>ix_begin = demo_begin, ix_objects = [(1, m)], ix_data = [(1, demo_block_bytes)],
          ix_raw_crypto = None, ix_raw_dnodes = []\<rparr>" using demo_index by blast
  show ?thesis using index_contents_are_replayed [OF b] b by auto
qed

section \<open>A raw stream\<close>

text \<open>One encrypted snapshot with a directory: the key parameters in the BEGIN record, a range of
  dnodes, the directory's OBJECT record with an encrypted bonus, and one encrypted block.\<close>

definition raw_demo_begin :: begin_record where
  "raw_demo_begin = demo_begin\<lparr>bg_features := FEATURE_RAW\<rparr>"

definition raw_demo_range :: object_range_record where
  "raw_demo_range = \<lparr>rg_first_object = 0, rg_object_slots = 32, rg_salt = replicate 8 0, rg_iv = replicate 12 0,
     rg_mac = replicate 16 0, rg_flags = 0\<rparr>"

definition raw_demo_object :: object_record where
  "raw_demo_object = \<lparr>ob_object = 31, ob_object_type = 20, ob_bonus_type = 44, ob_block_size = 512, ob_bonus_length = 8,
     ob_checksum_type = 7, ob_compression = 2, ob_dnode_slots = 1, ob_flags = 0, ob_raw_bonus_length = 320,
     ob_indirect_block_shift = 14, ob_levels = 1, ob_block_pointers = 1, ob_max_block_id = 0\<rparr>"

definition raw_demo_write :: write_record where
  "raw_demo_write = \<lparr>wr_object = 31, wr_object_type = 20, wr_offset = 0, wr_logical_size = 512, wr_checksum_type = 7,
     wr_flags = 0, wr_compressed_size = 512, wr_compression_type = 0, wr_salt = replicate 8 0,
     wr_iv = replicate 12 0, wr_mac = replicate 16 0\<rparr>"

definition raw_demo_records :: "(record_kind \<times> byte list) list" where
  "raw_demo_records = [(Begin raw_demo_begin, raw_demo_payload), (ObjectRange raw_demo_range, []),
     (Object raw_demo_object, replicate 320 5), (Write raw_demo_write, replicate 512 6), (End, [])]"

definition raw_demo_source :: byte_source where
  "raw_demo_source = \<lparr>src_bytes = encode_stream raw_demo_records, src_end = None\<rparr>"

lemma raw_demo_params: "from_begin_payload raw_demo_payload = Inr demo_params"
proof -
  have "nv_decode raw_demo_payload = Inr (nv_collect [(''crypt_keydata'', NvList raw_demo_keydata)] [])"
    using nv_decode_encoded [OF raw_demo_names, of "[]"] length_raw_demo_payload by (simp add: raw_demo_payload_def)
  then show ?thesis
    by (simp add: from_begin_payload_def raw_demo_keydata_def nv_uint64_def nv_bytes_def nv_array_def bt_get_insert demo_params_def del: bt_insert.simps)
qed

lemma raw_demo_grammar: "send_stream (map fst raw_demo_records)"
proof -
  have "substream (Begin raw_demo_begin # [ObjectRange raw_demo_range, Object raw_demo_object, Write raw_demo_write] @ [End])"
    by (rule substream.intros) (simp_all add: raw_demo_begin_def demo_begin_def body_kind_def)
  from send_plain [OF this send_Nil] show ?thesis by (simp add: raw_demo_records_def)
qed

lemma raw_demo_wire: "\<forall>(k, pay) \<in> set raw_demo_records. wire_ok k pay"
  by (simp add: raw_demo_records_def raw_demo_begin_def demo_begin_def raw_demo_range_def raw_demo_object_def raw_demo_write_def
      wire_ok_def payload_size_def DMU_SUBSTREAM_def length_raw_demo_payload FEATURE_RAW_def
      MAX_PAYLOAD_SIZE_def round_up_8_def checked_add_def header_simps slice_replicate from_le_bytes_8 from_le_bytes_4)

lemma raw_demo_reads:
  obtains recs r' where "reads (new_reader raw_demo_source) recs r'" and "saw_end r'"
    and "map (\<lambda>rec. (kind rec, payload rec)) recs = raw_demo_records"
proof -
  have "length (encode_header k n) = 312" if "k \<in> set (map fst raw_demo_records)" for k n
    using that raw_demo_wire length_encode_header [of k n] by (auto simp: wire_ok_def RECORD_SIZE_def)
  then have "length (encode_stream raw_demo_records) < 2 ^ 64"
    by (simp add: encode_stream_def encode_record_def raw_demo_records_def length_raw_demo_payload)
  from reads_complete [OF raw_demo_grammar raw_demo_wire this] obtain recs r' where
      r: "reads (new_reader raw_demo_source) recs r'" and m: "map (\<lambda>rec. (kind rec, payload rec)) recs = raw_demo_records"
    unfolding raw_demo_source_def by blast
  have "recs \<noteq> []" using m by (auto simp: raw_demo_records_def)
  then show thesis using that [OF r _ m] reads_new_reader(4) [OF r] by simp
qed

definition raw_demo_dnode :: raw_dnode where
  "raw_demo_dnode = raw_dnode_of raw_demo_object (replicate 320 5) None\<lparr>rd_blocks := [write_pointer raw_demo_write]\<rparr>"

lemma raw_demo_dnode_auth:
  "\<exists>a. dnode_auth null_crypto (raw_range_of raw_demo_range 1) 32 raw_demo_dnode = Inr (a, replicate 320 5, [(31, 320)])"
  by (simp add: dnode_auth_def validate_dnode_def raw_demo_dnode_def raw_dnode_of_def raw_demo_object_def write_pointer_def
      raw_demo_write_def raw_demo_range_def raw_range_of_def dnode_max_bonus_def dnode_core_def root_block_pointers_def
      checked_add_def resize_def encode_pointer_def is_encrypted_object_type_def HOLE_def place_leaf_def leaf_prop_def
      block_prop_def size_field_def Let_def)

lemma raw_demo_bonuses:
  "decrypt_dnode_bonuses null_crypto demo_key (raw_range_of raw_demo_range 1) [raw_demo_dnode] = Inr [(31, replicate 320 5)]"
proof -
  obtain a where "dnode_auth null_crypto (raw_range_of raw_demo_range 1) 32 raw_demo_dnode = Inr (a, replicate 320 5, [(31, 320)])"
    using raw_demo_dnode_auth by blast
  moreover have f: "rd_slots raw_demo_dnode = 1" "rd_object raw_demo_dnode = 31"
    by (simp_all add: raw_demo_dnode_def raw_dnode_of_def raw_demo_object_def)
  ultimately have "\<exists>a. dnode_slots null_crypto (raw_range_of raw_demo_range 1) 32 [(31, raw_demo_dnode)] 0 ([], [], [], []) =
      Inr (a, replicate 320 5, [(31, 320)], [(31, ())])"
    by (simp add: dnode_slots.simps bs_insert_def)
  then obtain a where "dnode_slots null_crypto (raw_range_of raw_demo_range 1) 32 [(31, raw_demo_dnode)] 0 ([], [], [], []) =
      Inr (a, replicate 320 5, [(31, 320)], [(31, ())])" by blast
  then show ?thesis
    by (simp add: decrypt_dnode_bonuses_def checked_add_def decrypt_block_def decrypt_aead_def demo_key_def
        null_crypto_def index_range_def get_range_def f raw_range_of_def raw_demo_range_def)
qed

definition raw_demo_meta :: "byte list \<Rightarrow> object_meta" where
  "raw_demo_meta bonus = \<lparr>om_object_type = 20, om_bonus_type = 44, om_block_size = 512, om_max_block_id = 0,
     om_bonus = bonus, om_spill = None\<rparr>"

text \<open>Indexing the stream: the directory's bonus and contents are decrypted and its dnode is kept.\<close>

lemma raw_demo_index:
  "build_raw_full null_crypto plain_codecs (Some raw_demo_source) demo_plan (Some (replicate 32 9)) =
     Inr \<lparr>ix_begin = demo_begin, ix_objects = [(31, raw_demo_meta (replicate 8 5))], ix_data = [(31, replicate 512 6)],
       ix_raw_crypto = Some (7, 1), ix_raw_dnodes = [(31, raw_demo_dnode)]\<rparr>"
proof -
  let ?step = "raw_record null_crypto plain_codecs (replicate 32 9) (bs_of_list [17])"
  obtain recs r' where r: "reads (new_reader raw_demo_source) recs r'" and e: "saw_end r'"
    and m: "map (\<lambda>rec. (kind rec, payload rec)) recs = raw_demo_records"
    by (rule raw_demo_reads)
  obtain a b c d f where recs: "recs = [a, b, c, d, f]"
    and k: "kind a = Begin raw_demo_begin" "payload a = raw_demo_payload" "kind b = ObjectRange raw_demo_range"
      "kind c = Object raw_demo_object" "payload c = replicate 320 5"
      "kind d = Write raw_demo_write" "payload d = replicate 512 6" "kind f = End"
    using m by (auto simp: raw_demo_records_def map_eq_Cons_conv)
  define s1 where "s1 = raw_start\<lparr>ri_active := Some 17, ri_seen := [(17, ())], ri_crypto := Some (7, 1), ri_key := Some demo_key\<rparr>"
  define s2 where "s2 = s1\<lparr>ri_range := Some (raw_range_of raw_demo_range 1)\<rparr>"
  define s3 where "s3 = s2\<lparr>ri_dnodes := [(31, raw_dnode_of raw_demo_object (replicate 320 5) None)],
    ri_objects := [(31, raw_demo_meta [])], ri_data := [(31, [])]\<rparr>"
  define s4 where "s4 = s3\<lparr>ri_dnodes := [(31, raw_demo_dnode)], ri_data := [(31, replicate 512 6)]\<rparr>"
  have "unlock null_crypto demo_params (replicate 32 9) = Inr demo_key"
    by (simp add: unlock_def demo_params_def demo_key_def null_crypto_def wrapping_key_def KEYFORMAT_RAW_def
        suite_key_len_def decrypt_aead_def)
  moreover have "activate (bs_of_list [17]) raw_demo_begin = Some 17"
    by (simp add: activate_def raw_demo_begin_def demo_begin_def DMU_SUBSTREAM_def)
  ultimately have st1: "?step a raw_start = Inr s1"
    by (simp add: raw_record_def k raw_begin_def raw_demo_params raw_start_def s1_def bs_insert_def demo_params_def)
  have st2: "?step b s1 = Inr s2"
    by (simp add: raw_record_def k s1_def s2_def raw_active_def finish_raw_range_state_def raw_start_def)
  have st3: "?step c s2 = Inr s3"
    by (simp add: raw_record_def k s1_def s2_def s3_def raw_active_def raw_object_def raw_start_def raw_demo_object_def raw_range_of_def
        raw_demo_range_def raw_demo_meta_def saturating_add_def reset_data_def capture_object_data_def same_type_def kept_spill_def)
  have "raw_write_plaintext null_crypto plain_codecs demo_key raw_demo_write (replicate 512 6) = Inr (replicate 512 6)"
    by (simp add: raw_write_plaintext_def raw_demo_write_def is_encrypted_object_type_def decrypt_block_def decrypt_aead_def
        demo_key_def null_crypto_def raw_decompress_block_def decompress_block_def plain_codecs_def)
  then have st4: "?step d s3 = Inr s4"
    by (simp add: raw_record_def k s1_def s2_def s3_def s4_def raw_active_def with_entry_def raw_demo_write_def write_extent_def
        MAX_METADATA_OBJECT_def blit_def resize_def raw_demo_dnode_def raw_dnode_of_def)
  have "set_bonus [(31, replicate 320 5)] raw_demo_dnode [(31, raw_demo_meta [])] = Inr [(31, raw_demo_meta (replicate 8 5))]"
    by (simp add: set_bonus_def raw_demo_dnode_def raw_dnode_of_def raw_demo_object_def raw_demo_meta_def index_range_def get_range_def slice_def)
  then have st5: "?step f s4 = Inr (s4\<lparr>ri_active := None, ri_key := None, ri_range := None, ri_objects := [(31, raw_demo_meta (replicate 8 5))]\<rparr>)"
    using raw_demo_bonuses
    by (simp add: raw_record_def k s1_def s2_def s3_def s4_def finish_raw_range_state_def raw_range_of_def raw_demo_range_def
        checked_add_def bt_range_def bt_values_def)
  have "stream_loop ?step (new_reader raw_demo_source) raw_start =
      Inr (s4\<lparr>ri_active := None, ri_key := None, ri_range := None, ri_objects := [(31, raw_demo_meta (replicate 8 5))]\<rparr>, r')"
    using r st1 st2 st3 st4 st5 by (auto simp: recs stream_loop_reads)
  then show ?thesis
    using e by (simp add: build_raw_full_def open_stream_def demo_plan_def s1_def s2_def s3_def s4_def raw_start_def)
qed

text \<open>C35: indexing an encrypted raw stream does not panic, whatever the stream holds: the \<open>expect\<close>
  calls on the key, the encryption identity and the indexed objects and the slices of decrypted
  bonuses are always safe. When it succeeds the index is consistent: every raw dnode is stored
  under its own object number and has an entry in the object table, and contents are held exactly
  for the live metadata objects.\<close>

theorem raw_index_is_consistent:
  assumes "crypto_lengths k"
  shows "no_panic (build_raw_full k z file plan material) \<and>
    (\<forall>ix. build_raw_full k z file plan material = Inr ix \<longrightarrow>
      data_inv (ix_objects ix) (ix_data ix) \<and> bt_wf (ix_raw_dnodes ix) \<and>
      (\<forall>n d. bt_get (ix_raw_dnodes ix) n = Some d \<longrightarrow>
         rd_object d = n \<and> (\<exists>m. bt_get (ix_objects ix) n = Some m)))"
  by (intro conjI allI impI no_panic_build_raw_full [OF assms] build_raw_full_inv(1,2) [OF assms])
    (use build_raw_full_inv(3) [OF assms] in \<open>simp_all\<close>)

theorem raw_index_is_consistent_witness:
  "\<exists>ix. build_raw_full null_crypto plain_codecs (Some raw_demo_source) demo_plan (Some (replicate 32 9)) = Inr ix \<and>
     data_inv (ix_objects ix) (ix_data ix) \<and> bt_wf (ix_raw_dnodes ix) \<and> bt_get (ix_data ix) 31 = Some (replicate 512 6) \<and>
     bt_get (ix_raw_dnodes ix) 31 = Some raw_demo_dnode \<and> rd_object raw_demo_dnode = 31 \<and>
     (\<exists>m. bt_get (ix_objects ix) 31 = Some m \<and> om_bonus m = replicate 8 5)"
  using raw_index_is_consistent [OF crypto_lengths_null, of plain_codecs "Some raw_demo_source" demo_plan "Some (replicate 32 9)"]
  unfolding raw_demo_index by (simp add: raw_demo_meta_def)

end
