(* ===== verification/Zpl.thy ===== *)
theory Zpl
  imports Object_Index "HOL-Library.List_Lexorder" "HOL-Library.Char_ord" "HOL-Library.Multiset"
begin

text \<open>
  The ZFS POSIX layer over the object index (src/filesystem.rs): path normalisation, path lookup,
  directory listings and the system-attribute metadata of an object. The ZAP and system-attribute
  decoders of the \<open>zfs_core\<close> crate are the fields of \<open>zpl_lib\<close>: its registry and layout tables and
  its attribute identifiers are type variables, and so are the attribute values other than the
  size, which the program only copies.
\<close>

section \<open>The decoders of zfs_core\<close>

record ('i, 'v) zpl_attrs =
  za_size :: u64
  za_mode :: 'v
  za_links :: 'v
  za_uid :: 'v
  za_gid :: 'v
  za_gen :: 'v
  za_parent :: 'v
  za_flags :: 'v
  za_atime :: 'v
  za_mtime :: 'v
  za_ctime :: 'v
  za_crtime :: 'v
  za_unknown_attr_ids :: "'i list"

record ('r, 'l, 'i, 'v) zpl_lib =
  zap_list :: "byte list \<Rightarrow> (string \<times> u64) list"
  zap_lookup :: "byte list \<Rightarrow> string \<Rightarrow> u64 option"
  ZPL_DIRENT_OBJ_MASK :: u64
  parse_sa_registry :: "byte list \<Rightarrow> 'r"
  parse_sa_layouts :: "byte list \<Rightarrow> 'l"
  by_name :: "'r \<Rightarrow> string \<Rightarrow> 'i option"
  size_of :: "'r \<Rightarrow> 'i \<Rightarrow> u16 option"
  attr_ids :: "'l \<Rightarrow> u64 \<Rightarrow> 'i list option"
  decode_sa_bonus :: "byte list \<Rightarrow> 'r \<Rightarrow> 'l \<Rightarrow> ('i, 'v) zpl_attrs option"
  decode_znode_phys :: "byte list \<Rightarrow> ('i, 'v) zpl_attrs option"

section \<open>System attributes\<close>

text \<open>The loop of \<open>sa_attribute_offset\<close> over the attributes of a layout.\<close>

fun sa_walk :: "('r, 'l, 'i, 'v) zpl_lib \<Rightarrow> 'r \<Rightarrow> 'i \<Rightarrow> nat \<Rightarrow> nat \<Rightarrow> 'i list \<Rightarrow> u64 option" where
  "sa_walk lib registry attr_id len off [] = None"
| "sa_walk lib registry attr_id len off (i # ids) =
     (case size_of lib registry i of
        None \<Rightarrow> None
      | Some sz \<Rightarrow>
          if i = attr_id then if off + unat sz \<le> len then Some (of_nat off) else None
          else if sz = 0 then None
          else if off + unat sz \<ge> 2 ^ 64 then None
          else sa_walk lib registry attr_id len (off + unat sz) ids)"

definition sa_attribute_offset ::
  "('r, 'l, 'i, 'v) zpl_lib \<Rightarrow> byte list \<Rightarrow> string \<Rightarrow> 'r \<Rightarrow> 'l \<Rightarrow> u64 option" where
  "sa_attribute_offset lib buffer name registry layouts =
     (if length buffer < 8 then None
      else case by_name lib registry name of
        None \<Rightarrow> None
      | Some attr_id \<Rightarrow>
          let info = (from_le_bytes (slice buffer 4 6) :: u16);
              layout = ucast (info AND 0x3ff) :: u64;
              off = 8 * unat (drop_bit 10 info AND 0x3f)
          in case attr_ids lib layouts layout of
               None \<Rightarrow> None
             | Some ids \<Rightarrow> sa_walk lib registry attr_id (length buffer) off ids)"

text \<open>\<open>merge_spill_attrs\<close> overrides the attributes that the spill block's layout has.\<close>

definition merge_spill_attrs ::
  "('r, 'l, 'i, 'v) zpl_lib \<Rightarrow> ('i, 'v) zpl_attrs \<Rightarrow> ('i, 'v) zpl_attrs \<Rightarrow> byte list \<Rightarrow> 'r \<Rightarrow> 'l \<Rightarrow>
   ('i, 'v) zpl_attrs" where
  "merge_spill_attrs lib base spill buffer registry layouts =
     (let present = (\<lambda>name. sa_attribute_offset lib buffer name registry layouts \<noteq> None) in
      \<lparr>za_size = (if present ''ZPL_SIZE'' then za_size spill else za_size base),
       za_mode = (if present ''ZPL_MODE'' then za_mode spill else za_mode base),
       za_links = (if present ''ZPL_LINKS'' then za_links spill else za_links base),
       za_uid = (if present ''ZPL_UID'' then za_uid spill else za_uid base),
       za_gid = (if present ''ZPL_GID'' then za_gid spill else za_gid base),
       za_gen = (if present ''ZPL_GEN'' then za_gen spill else za_gen base),
       za_parent = (if present ''ZPL_PARENT'' then za_parent spill else za_parent base),
       za_flags = (if present ''ZPL_FLAGS'' then za_flags spill else za_flags base),
       za_atime = (if present ''ZPL_ATIME'' then za_atime spill else za_atime base),
       za_mtime = (if present ''ZPL_MTIME'' then za_mtime spill else za_mtime base),
       za_ctime = (if present ''ZPL_CTIME'' then za_ctime spill else za_ctime base),
       za_crtime = (if present ''ZPL_CRTIME'' then za_crtime spill else za_crtime base),
       za_unknown_attr_ids = za_unknown_attr_ids base @ za_unknown_attr_ids spill\<rparr>)"

definition decode_attrs ::
  "('r, 'l, 'i, 'v) zpl_lib \<Rightarrow> object_meta \<Rightarrow> 'r \<Rightarrow> 'l \<Rightarrow> ('i, 'v) zpl_attrs option" where
  "decode_attrs lib meta registry layouts =
     (if om_bonus_type meta = DMU_OT_SA then
        (case decode_sa_bonus lib (om_bonus meta) registry layouts of
           None \<Rightarrow> None
         | Some attrs \<Rightarrow>
             (case om_spill meta of
                None \<Rightarrow> Some attrs
              | Some spill \<Rightarrow>
                  (case decode_sa_bonus lib spill registry layouts of
                     None \<Rightarrow> Some attrs
                   | Some spill_attrs \<Rightarrow> Some (merge_spill_attrs lib attrs spill_attrs spill registry layouts))))
      else if om_bonus_type meta = DMU_OT_ZNODE then decode_znode_phys lib (om_bonus meta)
      else None)"

definition size_bonus_offset :: "('r, 'l, 'i, 'v) zpl_lib \<Rightarrow> object_meta \<Rightarrow> 'r \<Rightarrow> 'l \<Rightarrow> u64 option" where
  "size_bonus_offset lib meta registry layouts =
     (if om_bonus_type meta = DMU_OT_ZNODE then if length (om_bonus meta) \<ge> 88 then Some 80 else None
      else if om_bonus_type meta \<noteq> DMU_OT_SA \<or> length (om_bonus meta) < 8 then None
      else sa_attribute_offset lib (om_bonus meta) ''ZPL_SIZE'' registry layouts)"

definition size_spill_offset :: "('r, 'l, 'i, 'v) zpl_lib \<Rightarrow> object_meta \<Rightarrow> 'r \<Rightarrow> 'l \<Rightarrow> u64 option" where
  "size_spill_offset lib meta registry layouts =
     (if om_bonus_type meta = DMU_OT_SA then
        (case om_spill meta of
           None \<Rightarrow> None
         | Some spill \<Rightarrow> sa_attribute_offset lib spill ''ZPL_SIZE'' registry layouts)
      else None)"

section \<open>Paths\<close>

definition components :: "string \<Rightarrow> string list" where
  "components path = filter (\<lambda>part. part \<noteq> []) (split_on CHR ''/'' path)"

definition normalize_path :: "string \<Rightarrow> string result" where
  "normalize_path path =
     and_then (try_map (\<lambda>component.
         if component \<in> {''.'', ''..''} then Inl (Bail ''path components '.' and '..' are not accepted'')
         else Inr component) (components path)) (\<lambda>cs.
     Inr (if cs = [] then ''/'' else ''/'' @ join ''/'' cs))"

record resolved_path =
  rp_normalized_path :: string
  rp_object_id :: u64
  rp_object_type :: u32
  rp_bonus_type :: u32
  rp_logical_size :: u64
  rp_dirent_type :: byte
  rp_size_bonus_offset :: "u64 option"
  rp_size_spill_offset :: "u64 option"

record directory_entry =
  de_name :: string
  de_object_id :: u64
  de_dirent_type :: byte
  de_logical_size :: "u64 option"

definition sa_context :: "('r, 'l, 'i, 'v) zpl_lib \<Rightarrow> object_index \<Rightarrow> ('r \<times> 'l) result" where
  "sa_context lib ix =
     and_then (ok_or (bt_get (ix_data ix) 1) (Bail ''ZPL master node object 1 has no data'')) (\<lambda>master.
     and_then (ok_or (zap_lookup lib master ''SA_ATTRS'') (Bail ''ZPL master node has no SA_ATTRS entry'')) (\<lambda>sa_master_id.
     and_then (ok_or (bt_get (ix_data ix) sa_master_id) (Bail ''SA master object {sa_master_id} has no data'')) (\<lambda>sa_master.
     and_then (ok_or (zap_lookup lib sa_master ''REGISTRY'') (Bail ''SA master object has no REGISTRY entry'')) (\<lambda>registry_id.
     and_then (ok_or (zap_lookup lib sa_master ''LAYOUTS'') (Bail ''SA master object has no LAYOUTS entry'')) (\<lambda>layouts_id.
     and_then (ok_or (bt_get (ix_data ix) registry_id) (Bail ''SA registry object {registry_id} has no data'')) (\<lambda>registry.
     and_then (ok_or (bt_get (ix_data ix) layouts_id) (Bail ''SA layouts object {layouts_id} has no data'')) (\<lambda>layouts.
     Inr (parse_sa_registry lib registry, parse_sa_layouts lib layouts))))))))"

text \<open>One component of a path: the object and the type its directory entry gives.\<close>

definition dirent_object :: "('r, 'l, 'i, 'v) zpl_lib \<Rightarrow> u64 \<Rightarrow> u64" where
  "dirent_object lib raw = raw AND ZPL_DIRENT_OBJ_MASK lib"

definition dirent_kind :: "u64 \<Rightarrow> byte" where
  "dirent_kind raw = ucast (drop_bit 60 raw)"

definition resolve_component ::
  "('r, 'l, 'i, 'v) zpl_lib \<Rightarrow> object_index \<Rightarrow> string \<Rightarrow> u64 \<times> byte \<Rightarrow> (u64 \<times> byte) result" where
  "resolve_component lib ix component cur =
     and_then (ok_or (bt_get (ix_data ix) (fst cur))
       (Bail ''path component {component:?} is not a readable directory'')) (\<lambda>directory.
     and_then (ok_or (find (\<lambda>(name, _). name = component) (zap_list lib directory))
       (Bail ''path {normalized:?} was not found in the stream'')) (\<lambda>(_, raw).
     Inr (dirent_object lib raw, dirent_kind raw)))"

definition resolve_path :: "('r, 'l, 'i, 'v) zpl_lib \<Rightarrow> object_index \<Rightarrow> string \<Rightarrow> resolved_path result" where
  "resolve_path lib ix path =
     and_then (normalize_path path) (\<lambda>normalized.
     and_then (sa_context lib ix) (\<lambda>(registry, layouts).
     and_then (ok_or (bt_get (ix_data ix) 1) (Bail ''ZPL master node object 1 is absent'')) (\<lambda>master.
     and_then (ok_or (zap_lookup lib master ''ROOT'') (Bail ''ZPL master node has no ROOT entry'')) (\<lambda>root.
     and_then (try_fold (resolve_component lib ix) (root, 4) (components normalized)) (\<lambda>(current, dirent_type).
     and_then (ok_or (bt_get (ix_objects ix) current)
       (Bail ''object {current} for path {normalized:?} has no OBJECT record'')) (\<lambda>meta.
     and_then (ok_or (decode_attrs lib meta registry layouts)
       (Bail ''could not decode ZPL metadata for object {current}'')) (\<lambda>attrs.
     Inr \<lparr>rp_normalized_path = normalized, rp_object_id = current, rp_object_type = om_object_type meta,
          rp_bonus_type = om_bonus_type meta, rp_logical_size = za_size attrs, rp_dirent_type = dirent_type,
          rp_size_bonus_offset = size_bonus_offset lib meta registry layouts,
          rp_size_spill_offset = size_spill_offset lib meta registry layouts\<rparr>)))))))"

definition directory_entry_of ::
  "('r, 'l, 'i, 'v) zpl_lib \<Rightarrow> object_index \<Rightarrow> 'r \<Rightarrow> 'l \<Rightarrow> string \<times> u64 \<Rightarrow> directory_entry" where
  "directory_entry_of lib ix registry layouts dirent =
     (let object_id = dirent_object lib (snd dirent) in
      \<lparr>de_name = fst dirent, de_object_id = object_id, de_dirent_type = dirent_kind (snd dirent),
       de_logical_size =
         (case bt_get (ix_objects ix) object_id of
            None \<Rightarrow> None
          | Some meta \<Rightarrow> map_option za_size (decode_attrs lib meta registry layouts))\<rparr>)"

definition list_directory :: "('r, 'l, 'i, 'v) zpl_lib \<Rightarrow> object_index \<Rightarrow> string \<Rightarrow> directory_entry list result" where
  "list_directory lib ix path =
     and_then (resolve_path lib ix path) (\<lambda>resolved.
     if rp_dirent_type resolved \<noteq> 4 then Inl (Bail ''{} is not a directory'')
     else and_then (sa_context lib ix) (\<lambda>(registry, layouts).
       and_then (ok_or (bt_get (ix_data ix) (rp_object_id resolved)) (Bail ''directory object {} has no data'')) (\<lambda>directory.
       Inr (sort_key de_name (map (directory_entry_of lib ix registry layouts) (zap_list lib directory))))))"

section \<open>Paths are normalised once\<close>

lemma components_no_slash: "c \<in> set (components p) \<Longrightarrow> c \<noteq> [] \<and> CHR ''/'' \<notin> set c"
  by (auto simp: components_def dest: split_on_no_sep)

lemma components_join:
  assumes "\<forall>c \<in> set cs. c \<noteq> [] \<and> CHR ''/'' \<notin> set c"
  shows "components (if cs = [] then ''/'' else ''/'' @ join ''/'' cs) = cs"
proof (cases "cs = []")
  case True
  then show ?thesis by (simp add: components_def)
next
  case False
  then have "split_on CHR ''/'' (join ''/'' cs) = cs" using assms by (intro split_on_join) auto
  with False assms show ?thesis by (simp add: components_def filter_id_conv)
qed

lemma normalize_path_Inr:
  "normalize_path p = Inr q \<longleftrightarrow>
     (\<forall>c \<in> set (components p). c \<notin> {''.'', ''..''}) \<and>
     q = (if components p = [] then ''/'' else ''/'' @ join ''/'' (components p))"
proof -
  have "try_map (\<lambda>component. if component \<in> {''.'', ''..''}
      then Inl (Bail ''path components '.' and '..' are not accepted'') else Inr component) cs = Inr ds \<longleftrightarrow>
    (\<forall>c \<in> set cs. c \<notin> {''.'', ''..''}) \<and> ds = cs" for cs ds :: "string list"
    by (induction cs arbitrary: ds) (auto simp: result_simps)
  then show ?thesis by (auto simp: normalize_path_def result_simps)
qed

lemma components_normalized: "normalize_path p = Inr q \<Longrightarrow> components q = components p"
  using components_join [of "components p"] components_no_slash [of _ p] by (simp add: normalize_path_Inr)

lemma components_child:
  assumes "CHR ''/'' \<notin> set name" and "name \<noteq> []"
  shows "components (p @ ''/'' @ name) = components p @ [name]"
proof -
  have "split_on c (p @ c # name) = split_on c p @ [name]" if "c \<notin> set name" for c
    using that by (induction p) (auto simp: split_on_single split: list.splits)
  with assms show ?thesis by (simp add: components_def)
qed


section \<open>System-attribute offsets\<close>

text \<open>Where a layout puts an attribute: after the header and the attributes before it.\<close>

definition attr_position :: "('r, 'l, 'i, 'v) zpl_lib \<Rightarrow> 'r \<Rightarrow> nat \<Rightarrow> 'i list \<Rightarrow> nat" where
  "attr_position lib registry header before =
     header + (\<Sum>i \<leftarrow> before. case size_of lib registry i of None \<Rightarrow> 0 | Some sz \<Rightarrow> unat sz)"

lemma sa_walk_Some:
  "sa_walk lib registry attr_id len off ids = Some o' \<Longrightarrow> off < 2 ^ 64 \<Longrightarrow>
    \<exists>before after sz. ids = before @ attr_id # after \<and> attr_id \<notin> set before \<and>
      size_of lib registry attr_id = Some sz \<and>
      unat o' = attr_position lib registry off before \<and> unat o' + unat sz \<le> len"
proof (induction lib registry attr_id len off ids rule: sa_walk.induct)
  case (1 lib registry attr_id len off)
  then show ?case by simp
next
  case (2 lib registry attr_id len off i ids)
  from 2(2) obtain sz where sz: "size_of lib registry i = Some sz" by (auto split: option.splits)
  show ?case
  proof (cases "i = attr_id")
    case True
    with 2(2,3) sz show ?thesis
      by (intro exI [of _ "[]"] exI [of _ ids]) (auto simp: attr_position_def unat_of_nat_u64 split: if_splits)
  next
    case False
    with 2(2) sz have nz: "sz \<noteq> 0" "\<not> off + unat sz \<ge> 2 ^ 64"
      and w: "sa_walk lib registry attr_id len (off + unat sz) ids = Some o'"
      by (auto split: if_splits)
    obtain before after s where "ids = before @ attr_id # after" "attr_id \<notin> set before"
      "size_of lib registry attr_id = Some s"
      "unat o' = attr_position lib registry (off + unat sz) before" "unat o' + unat s \<le> len"
      using 2(1) [OF sz False nz w] nz by (auto simp: not_le)
    with False sz show ?thesis
      by (intro exI [of _ "i # before"] exI [of _ after]) (auto simp: attr_position_def)
  qed
qed

section \<open>Lookup and listing\<close>

lemma find_unique:
  assumes "distinct (map fst xs)" and "(k, v) \<in> set xs"
  shows "find (\<lambda>(name, _). name = k) xs = Some (k, v)"
  using assms by (induction xs) (force split: if_splits)+

lemma resolve_path_Inr:
  "resolve_path lib ix path = Inr r \<longleftrightarrow>
    (\<exists>normalized registry layouts master root meta attrs.
       normalize_path path = Inr normalized \<and> sa_context lib ix = Inr (registry, layouts) \<and>
       bt_get (ix_data ix) 1 = Some master \<and> zap_lookup lib master ''ROOT'' = Some root \<and>
       try_fold (resolve_component lib ix) (root, 4) (components path) = Inr (rp_object_id r, rp_dirent_type r) \<and>
       bt_get (ix_objects ix) (rp_object_id r) = Some meta \<and> decode_attrs lib meta registry layouts = Some attrs \<and>
       r = \<lparr>rp_normalized_path = normalized, rp_object_id = rp_object_id r, rp_object_type = om_object_type meta,
          rp_bonus_type = om_bonus_type meta, rp_logical_size = za_size attrs, rp_dirent_type = rp_dirent_type r,
          rp_size_bonus_offset = size_bonus_offset lib meta registry layouts,
          rp_size_spill_offset = size_spill_offset lib meta registry layouts\<rparr>)"
  by (auto simp: resolve_path_def result_simps components_normalized)

lemma normalize_child:
  assumes "normalize_path p = Inr q" and "CHR ''/'' \<notin> set name" and "name \<notin> {[], ''.'', ''..''}"
  shows "\<exists>q'. normalize_path (p @ ''/'' @ name) = Inr q'"
  using assms components_child [of name p] by (auto simp: normalize_path_Inr)

lemma listed_entry:
  assumes "list_directory lib ix path = Inr es"
  obtains r registry layouts directory where "resolve_path lib ix path = Inr r" and "rp_dirent_type r = 4"
    and "sa_context lib ix = Inr (registry, layouts)" and "bt_get (ix_data ix) (rp_object_id r) = Some directory"
    and "es = sort_key de_name (map (directory_entry_of lib ix registry layouts) (zap_list lib directory))"
  using assms by (auto simp: list_directory_def result_simps split: if_splits)

lemma listed_child_resolves:
  assumes "list_directory lib ix path = Inr es" and d: "distinct (map de_name es)" and e: "e \<in> set es"
    and name: "CHR ''/'' \<notin> set (de_name e)" "de_name e \<notin> {[], ''.'', ''..''}" and n: "de_logical_size e = Some n"
  shows "\<exists>r. resolve_path lib ix (path @ ''/'' @ de_name e) = Inr r \<and> rp_object_id r = de_object_id e \<and>
    rp_dirent_type r = de_dirent_type e \<and> rp_logical_size r = n"
  using assms(1)
proof (cases rule: listed_entry)
  case (1 r registry layouts directory)
  from 1(1) obtain q master root where rp: "normalize_path path = Inr q" "bt_get (ix_data ix) 1 = Some master"
      "zap_lookup lib master ''ROOT'' = Some root"
      "try_fold (resolve_component lib ix) (root, 4) (components path) = Inr (rp_object_id r, rp_dirent_type r)"
    unfolding resolve_path_Inr by blast
  let ?zap = "zap_list lib directory"
  from e 1(5) obtain raw where raw: "(de_name e, raw) \<in> set ?zap"
    and e_of: "e = directory_entry_of lib ix registry layouts (de_name e, raw)"
    by (auto simp: directory_entry_of_def Let_def)
  have "mset (map de_name es) = mset (map fst ?zap)"
    unfolding 1(5) by (simp add: multiset.map_comp comp_def directory_entry_of_def Let_def)
  then have "distinct (map fst ?zap)" using d by (metis mset_eq_imp_distinct_iff)
  then have f: "find (\<lambda>(name, _). name = de_name e) ?zap = Some (de_name e, raw)" using raw by (rule find_unique)
  have ids: "de_object_id e = dirent_object lib raw" "de_dirent_type e = dirent_kind raw"
    using arg_cong [OF e_of, of de_object_id] arg_cong [OF e_of, of de_dirent_type]
    by (simp_all add: directory_entry_of_def Let_def)
  obtain meta attrs where "bt_get (ix_objects ix) (de_object_id e) = Some meta"
    "decode_attrs lib meta registry layouts = Some attrs" "n = za_size attrs"
    using n arg_cong [OF e_of, of de_logical_size] ids
    by (auto simp: directory_entry_of_def Let_def split: option.splits)
  moreover obtain q' where "normalize_path (path @ ''/'' @ de_name e) = Inr q'"
    using normalize_child [OF rp(1) name] by blast
  moreover have "try_fold (resolve_component lib ix) (root, 4) (components (path @ ''/'' @ de_name e)) =
      Inr (de_object_id e, de_dirent_type e)"
    using name f ids 1(4) by (simp add: components_child [simplified] try_fold_append rp(4) resolve_component_def)
  ultimately show ?thesis
    using 1(3) rp(2,3) by (intro exI conjI, subst resolve_path_Inr) (intro exI conjI, auto)
qed

lemma find_member: "find P xs = Some x \<Longrightarrow> x \<in> set xs \<and> P x"
  by (auto simp: find_Some_iff)

lemma resolved_child_listed:
  assumes "list_directory lib ix path = Inr es" and name: "CHR ''/'' \<notin> set name" "name \<notin> {[], ''.'', ''..''}"
    and r': "resolve_path lib ix (path @ ''/'' @ name) = Inr r'"
  shows "\<exists>e \<in> set es. de_name e = name \<and> de_object_id e = rp_object_id r' \<and> de_dirent_type e = rp_dirent_type r' \<and>
    de_logical_size e = Some (rp_logical_size r')"
  using assms(1)
proof (cases rule: listed_entry)
  case (1 r registry layouts directory)
  from 1(1) obtain master root where rp: "bt_get (ix_data ix) 1 = Some master" "zap_lookup lib master ''ROOT'' = Some root"
      "try_fold (resolve_component lib ix) (root, 4) (components path) = Inr (rp_object_id r, rp_dirent_type r)"
    unfolding resolve_path_Inr by blast
  from r' [unfolded resolve_path_Inr] 1(3) rp(1,2) obtain meta attrs where
      fold: "try_fold (resolve_component lib ix) (root, 4) (components (path @ ''/'' @ name)) = Inr (rp_object_id r', rp_dirent_type r')"
    and meta: "bt_get (ix_objects ix) (rp_object_id r') = Some meta" "decode_attrs lib meta registry layouts = Some attrs"
    and sz: "rp_logical_size r' = za_size attrs"
    by (auto, metis resolved_path.select_convs(5))
  obtain raw where raw: "(name, raw) \<in> set (zap_list lib directory)" "rp_object_id r' = dirent_object lib raw" "rp_dirent_type r' = dirent_kind raw"
    using fold name 1(4)
    by (auto simp: components_child [simplified] try_fold_append rp(3) resolve_component_def result_simps dest!: find_member)
  then have "directory_entry_of lib ix registry layouts (name, raw) \<in> set es" by (auto simp: 1(5))
  then show ?thesis using raw meta sz
    by (intro bexI [of _ "directory_entry_of lib ix registry layouts (name, raw)"]) (simp_all add: directory_entry_of_def Let_def)
qed

section \<open>Properties\<close>

text \<open>Path normalisation gives a canonical absolute path. It succeeds exactly when no component of the
  path is \<open>.\<close> or \<open>..\<close>; the result starts with a slash, has the same components, is its own normal form,
  and two paths have the same normal form exactly when they have the same components.\<close>

theorem normalize_path_is_canonical:
  "((\<exists>q. normalize_path p = Inr q) \<longleftrightarrow> (\<forall>c. c \<in> set (components p) \<longrightarrow> c \<noteq> ''.'' \<and> c \<noteq> ''..'')) \<and>
   (normalize_path p = Inr q \<longrightarrow>
      (\<exists>rest. q = ''/'' @ rest) \<and> components q = components p \<and> normalize_path q = Inr q \<and>
      (\<forall>p' q'. normalize_path p' = Inr q' \<longrightarrow> (q' = q \<longleftrightarrow> components p' = components p)))"
proof (intro conjI impI allI)
  show "(\<exists>q. normalize_path p = Inr q) \<longleftrightarrow> (\<forall>c. c \<in> set (components p) \<longrightarrow> c \<noteq> ''.'' \<and> c \<noteq> ''..'')"
    by (simp add: normalize_path_Inr Ball_def)
  assume q: "normalize_path p = Inr q"
  then show "\<exists>rest. q = ''/'' @ rest" by (auto simp: normalize_path_Inr)
  from q show c: "components q = components p" by (rule components_normalized)
  from q show "normalize_path q = Inr q" unfolding normalize_path_Inr [of q] c normalize_path_Inr [of p] .
  fix p' q' assume "normalize_path p' = Inr q'"
  then show "q' = q \<longleftrightarrow> components p' = components p"
    using c components_normalized [of p' q'] q [unfolded normalize_path_Inr, THEN conjunct2]
    by (metis normalize_path_Inr)
qed

theorem normalize_path_is_canonical_witness:
  "normalize_path ''a//b/'' = Inr ''/a/b'' \<and> components ''/a/b'' = [''a'', ''b''] \<and> normalize_path ''/a/b'' = Inr ''/a/b''"
proof -
  have n: "normalize_path ''a//b/'' = Inr ''/a/b''" by (simp add: normalize_path_Inr components_def)
  show ?thesis using normalize_path_is_canonical [of "''a//b/''" "''/a/b''"] n by (simp add: components_def)
qed

text \<open>C36: listings and lookups agree. A listing has exactly the entries of the directory object that
  the path resolves to, each with its name, object and type, none dropped and none added, sorted by
  name. Every path that extends the directory's path by a proper name (not empty, \<open>.\<close> or \<open>..\<close>, no
  slash) and resolves is listed, with the same object, type and size. Conversely, when the names of
  the directory are distinct, every listed entry with a proper name and readable metadata (its size
  is shown) resolves to the object, type and size the listing shows.\<close>

theorem listed_entries_resolve:
  assumes "list_directory lib ix path = Inr es"
  shows "(\<exists>r directory. resolve_path lib ix path = Inr r \<and> rp_dirent_type r = 4 \<and> bt_get (ix_data ix) (rp_object_id r) = Some directory \<and>
      mset (map (\<lambda>e. (de_name e, de_object_id e, de_dirent_type e)) es) =
      mset (map (\<lambda>(name, raw). (name, dirent_object lib raw, dirent_kind raw)) (zap_list lib directory))) \<and>
    sorted (map de_name es) \<and>
    (\<forall>name r. CHR ''/'' \<notin> set name \<longrightarrow> name \<notin> {[], ''.'', ''..''} \<longrightarrow> resolve_path lib ix (path @ ''/'' @ name) = Inr r \<longrightarrow>
      (\<exists>e \<in> set es. de_name e = name \<and> de_object_id e = rp_object_id r \<and> de_dirent_type e = rp_dirent_type r \<and>
         de_logical_size e = Some (rp_logical_size r))) \<and>
    (distinct (map de_name es) \<longrightarrow>
      (\<forall>e \<in> set es. CHR ''/'' \<notin> set (de_name e) \<longrightarrow> de_name e \<notin> {[], ''.'', ''..''} \<longrightarrow>
         (\<forall>n. de_logical_size e = Some n \<longrightarrow>
           (\<exists>r. resolve_path lib ix (path @ ''/'' @ de_name e) = Inr r \<and> rp_object_id r = de_object_id e \<and>
                rp_dirent_type r = de_dirent_type e \<and> rp_logical_size r = n))))"
proof -
  obtain r registry layouts directory where d: "resolve_path lib ix path = Inr r" "rp_dirent_type r = 4"
      "bt_get (ix_data ix) (rp_object_id r) = Some directory"
    and es: "es = sort_key de_name (map (directory_entry_of lib ix registry layouts) (zap_list lib directory))"
    using assms by (rule listed_entry)
  have "mset (map (\<lambda>e. (de_name e, de_object_id e, de_dirent_type e)) es) =
      mset (map (\<lambda>(name, raw). (name, dirent_object lib raw, dirent_kind raw)) (zap_list lib directory))"
    unfolding es by (simp add: multiset.map_comp comp_def directory_entry_of_def Let_def split_def)
  with d es show ?thesis
    using resolved_child_listed [OF assms] listed_child_resolves [OF assms] by (intro conjI) auto
qed

text \<open>The offset at which the program reads an attribute is the one of the layout. When
  \<open>sa_attribute_offset\<close> answers, the attribute is in the buffer's layout, the offset is the header
  size plus the sizes of the attributes before it, and the attribute ends within the buffer.\<close>

theorem attribute_offset_follows_the_layout:
  assumes "sa_attribute_offset lib buffer name registry layouts = Some o'"
  shows "\<exists>attr_id ids before after sz. by_name lib registry name = Some attr_id \<and>
    attr_ids lib layouts (ucast ((from_le_bytes (slice buffer 4 6) :: u16) AND 0x3ff)) = Some ids \<and>
    ids = before @ attr_id # after \<and> attr_id \<notin> set before \<and> size_of lib registry attr_id = Some sz \<and>
    unat o' = attr_position lib registry (8 * unat (drop_bit 10 (from_le_bytes (slice buffer 4 6) :: u16) AND 0x3f)) before \<and>
    unat o' + unat sz \<le> length buffer"
proof -
  let ?info = "from_le_bytes (slice buffer 4 6) :: u16"
  from assms obtain attr_id ids where a: "by_name lib registry name = Some attr_id"
    and l: "attr_ids lib layouts (ucast (?info AND 0x3ff)) = Some ids"
    and w: "sa_walk lib registry attr_id (length buffer) (8 * unat (drop_bit 10 ?info AND 0x3f)) ids = Some o'"
    by (auto simp: sa_attribute_offset_def Let_def split: if_splits option.splits)
  have "unat (drop_bit 10 ?info AND 0x3f) < 2 ^ LENGTH(16)" by (rule unsigned_less)
  then have "8 * unat (drop_bit 10 ?info AND 0x3f) < 2 ^ 64" by simp
  from sa_walk_Some [OF w this] a l show ?thesis by fastforce
qed

text \<open>A small file system: a root directory with a file and a directory, and one layout with a mode
  and a size attribute.\<close>

definition demo_lib :: "(unit, unit, nat, unit) zpl_lib" where
  "demo_lib =
     \<lparr>zap_list = (\<lambda>d. if d = [2] then [(''etc'', 0x4000000000000006), (''boot.img'', 0x8000000000000005)] else []),
      zap_lookup = (\<lambda>d name. if name = ''ROOT'' then Some 2 else if name = ''SA_ATTRS'' then Some 3
        else if name = ''REGISTRY'' then Some 3 else if name = ''LAYOUTS'' then Some 3 else None),
      ZPL_DIRENT_OBJ_MASK = 0xffffffffffff,
      parse_sa_registry = (\<lambda>_. ()), parse_sa_layouts = (\<lambda>_. ()),
      by_name = (\<lambda>_ name. if name = ''ZPL_MODE'' then Some 5 else if name = ''ZPL_SIZE'' then Some 6 else None),
      size_of = (\<lambda>_ _. Some 8), attr_ids = (\<lambda>_ _. Some [5, 6]),
      decode_sa_bonus = (\<lambda>_ _ _. None),
      decode_znode_phys = (\<lambda>b. Some \<lparr>za_size = from_le_bytes (slice b 80 88), za_mode = (), za_links = (), za_uid = (),
        za_gid = (), za_gen = (), za_parent = (), za_flags = (), za_atime = (), za_mtime = (), za_ctime = (),
        za_crtime = (), za_unknown_attr_ids = []\<rparr>)\<rparr>"

definition demo_meta :: object_meta where
  "demo_meta = \<lparr>om_object_type = 19, om_bonus_type = 17, om_block_size = 512, om_max_block_id = 0,
     om_bonus = replicate 80 0 @ [7, 0, 0, 0, 0, 0, 0, 0], om_spill = None\<rparr>"

definition demo_fs :: object_index where
  "demo_fs = \<lparr>ix_begin = demo_begin, ix_objects = [(2, demo_meta), (5, demo_meta), (6, demo_meta)],
     ix_data = [(1, [1]), (2, [2]), (3, [3])], ix_raw_crypto = None, ix_raw_dnodes = []\<rparr>"

lemma demo_size: "(from_le_bytes [7, 0, 0, 0, 0, 0, 0, 0] :: u64) = 7"
  by (simp add: from_le_bytes_def)

lemma demo_listing:
  "list_directory demo_lib demo_fs ''/'' = Inr
     [\<lparr>de_name = ''boot.img'', de_object_id = 5, de_dirent_type = 8, de_logical_size = Some 7\<rparr>,
      \<lparr>de_name = ''etc'', de_object_id = 6, de_dirent_type = 4, de_logical_size = Some 7\<rparr>]"
  by (simp add: list_directory_def resolve_path_def normalize_path_def components_def sa_context_def demo_lib_def demo_fs_def
      demo_meta_def decode_attrs_def directory_entry_of_def dirent_object_def dirent_kind_def slice_def demo_size
      less_char_def take_bit_eq_mod)

theorem listed_entries_resolve_witness:
  "\<exists>r. resolve_path demo_lib demo_fs ''//boot.img'' = Inr r \<and> rp_object_id r = 5 \<and> rp_dirent_type r = 8 \<and> rp_logical_size r = 7"
  using listed_entries_resolve [OF demo_listing] by simp

theorem attribute_offset_follows_the_layout_witness:
  "sa_attribute_offset demo_lib ([0, 0, 0, 0, 2, 4] @ replicate 18 0) ''ZPL_SIZE'' () () = Some 16 \<and>
   (\<exists>sz. size_of demo_lib () 6 = Some sz \<and> 16 + unat sz \<le> (24 :: nat))"
proof -
  have "sa_attribute_offset demo_lib ([0, 0, 0, 0, 2, 4] @ replicate 18 0) ''ZPL_SIZE'' () () = Some 16"
    by (simp add: sa_attribute_offset_def demo_lib_def slice_def from_le_bytes_def)
  from this attribute_offset_follows_the_layout [OF this] show ?thesis by (auto simp: demo_lib_def)
qed

end
