(* ===== verification/File_Extract.thy ===== *)
theory File_Extract
  imports Zpl Sparse
begin

text \<open>
  Inspecting and extracting from a send file (src/operations.rs): stream statistics, the
  encryption requirements of its snapshots, and the replay of one object of the selected chain
  into a sparse output file with its sidecar. A disk maps paths to the bytes of their files;
  \<open>env\<close> gathers the operating system, SHA-256 and the JSON encoding of sidecars
  (\<open>serde_json\<close>) as parameters, and the failures of creating, syncing and renaming files.
\<close>

section \<open>Sidecars and the disk\<close>

definition SIDECAR_VERSION :: u32 where "SIDECAR_VERSION = 1"
definition MAX_REPLAY_BLOCK_SIZE :: u64 where "MAX_REPLAY_BLOCK_SIZE = 16 * 1024 * 1024"

record sidecar =
  sc_format_version :: u32
  sc_path :: string
  sc_object_id :: u64
  sc_object_type :: u32
  sc_bonus_type :: u32
  sc_logical_size :: u64
  sc_size_bonus_offset :: "u64 option"
  sc_size_spill_offset :: "u64 option"
  sc_snapshot_guid :: string
  sc_sha256 :: string
  sc_raw_state :: "raw_sidecar_state option"

type_synonym disk = "string \<Rightarrow> byte list option"

record env =
  ev_os :: os
  ev_sha256 :: "byte list \<Rightarrow> string"
  ev_to_json :: "sidecar \<Rightarrow> byte list"
  ev_from_json :: "byte list \<Rightarrow> sidecar result"
  ev_temporary :: "string \<Rightarrow> unit result"
  ev_sync :: "byte list \<Rightarrow> unit result"
  ev_persist :: "string \<Rightarrow> unit result"

definition sidecar_path :: "string \<Rightarrow> string" where
  "sidecar_path target = target @ ''.zfse.json''"

definition guid_string :: "u64 \<Rightarrow> string" where
  "guid_string guid = ''0x'' @ hex_016 guid"

definition parse_guid :: "string \<Rightarrow> u64 result" where
  "parse_guid v =
     ok_or (from_str_radix 16 (case strip_prefix ''0x'' v of None \<Rightarrow> v | Some w \<Rightarrow> w))
       (Bail ''invalid snapshot GUID {value:?}'')"

definition sha256_file :: "env \<Rightarrow> string \<Rightarrow> disk \<Rightarrow> string result" where
  "sha256_file ev path disk = and_then (ok_or (disk path) (Bail ''opening {}'')) (\<lambda>d. Inr (ev_sha256 ev d))"

text \<open>Renaming a finished temporary file with contents \<open>d\<close> to its path.\<close>

definition persist_replace :: "env \<Rightarrow> byte list \<Rightarrow> string \<Rightarrow> bool \<Rightarrow> disk \<Rightarrow> disk result" where
  "persist_replace ev d path force disk =
     (if disk path \<noteq> None \<and> \<not> force then Inl (Bail ''{} already exists'')
      else and_then (ev_persist ev path) (\<lambda>_. Inr (disk(path \<mapsto> d))))"

definition save_sidecar :: "env \<Rightarrow> string \<Rightarrow> sidecar \<Rightarrow> disk \<Rightarrow> disk result" where
  "save_sidecar ev target sidecar disk =
     (let path = sidecar_path target; json = ev_to_json ev sidecar in
      and_then (ev_temporary ev path) (\<lambda>_.
      and_then (write_all (ev_os ev) 0 json []) (\<lambda>d.
      and_then (write_all (ev_os ev) (length json) [10] d) (\<lambda>d.
      and_then (ev_sync ev d) (\<lambda>_.
      persist_replace ev d path True disk)))))"

section \<open>Reading a stream\<close>

record inspection =
  in_begin :: begin_record
  in_snapshots :: "begin_record list"
  in_stream_bytes :: u64
  in_records :: "(string, u64) btree"

definition inspect_record ::
  "replay_record \<Rightarrow> begin_record list \<times> u64 \<times> (string, u64) btree \<Rightarrow>
   (begin_record list \<times> u64 \<times> (string, u64) btree) result" where
  "inspect_record rec = (\<lambda>(snapshots, stream_bytes, records).
     let name = record_name (kind rec);
         count = (case bt_get records name of None \<Rightarrow> 0 | Some n \<Rightarrow> n)
     in and_then (push_header rec snapshots) (\<lambda>snapshots.
        Inr (snapshots, stream_offset rec + 312 + of_nat (length (payload rec)), bt_insert name (count + 1) records)))"

definition inspect_stream :: "byte_source option \<Rightarrow> inspection result" where
  "inspect_stream file =
     and_then (open_stream file) (\<lambda>reader.
     and_then (stream_loop inspect_record reader ([], 0, [])) (\<lambda>((snapshots, stream_bytes, records), reader).
     if \<not> saw_end reader then Inl (Bail ''stream has no END record'')
     else case snapshots of
       [] \<Rightarrow> Inl (Bail ''stream has no snapshot substream'')
     | begin # _ \<Rightarrow> Inr \<lparr>in_begin = begin, in_snapshots = snapshots, in_stream_bytes = stream_bytes, in_records = records\<rparr>))"

record encryption_requirement =
  er_dataset_name :: string
  er_key_format :: string

definition requirement_of :: "begin_record \<Rightarrow> byte list \<Rightarrow> encryption_requirement result" where
  "requirement_of header pay =
     and_then (from_begin_payload pay) (\<lambda>params.
     and_then (key_format_name params) (\<lambda>format.
     Inr \<lparr>er_dataset_name = bg_dataset_name header, er_key_format = format\<rparr>))"

text \<open>A loop over the records that returns at the first record for which \<open>f\<close> has an answer.\<close>

function stream_find :: "(replay_record \<Rightarrow> 'a result option) \<Rightarrow> stream_reader \<Rightarrow> 'a option result" where
  "stream_find f r =
     (case next_record r of
        Inl e \<Rightarrow> Inl (StreamErr e)
      | Inr (None, r') \<Rightarrow> Inr None
      | Inr (Some rec, r') \<Rightarrow>
          (case f rec of Some x \<Rightarrow> and_then x (\<lambda>v. Inr (Some v)) | None \<Rightarrow> stream_find f r'))"
  by pat_completeness auto
termination
  by (relation "measure (\<lambda>(f, r). length (src_bytes (inner r)))") (auto dest: next_record_decreases)

declare stream_find.simps [simp del]

definition encryption_requirement_of :: "byte_source option \<Rightarrow> string option \<Rightarrow> encryption_requirement option result" where
  "encryption_requirement_of stream snapshot =
     and_then (plan_snapshot stream snapshot) (\<lambda>plan.
     if bg_features (plan_target plan) AND FEATURE_RAW = 0 then Inr None
     else and_then (open_stream stream) (\<lambda>reader.
       and_then (stream_find (\<lambda>rec. case kind rec of
           Begin header \<Rightarrow>
             if bg_header_type header = DMU_SUBSTREAM \<and> bg_to_guid header = bg_to_guid (plan_target plan)
             then Some (requirement_of header (payload rec)) else None
         | _ \<Rightarrow> None) reader) (\<lambda>found.
       case found of
         Some requirement \<Rightarrow> Inr (Some requirement)
       | None \<Rightarrow> Inl (Bail ''selected encrypted snapshot disappeared while reading its key metadata''))))"

definition requirements_record ::
  "replay_record \<Rightarrow> (u64, encryption_requirement) btree \<Rightarrow> (u64, encryption_requirement) btree result" where
  "requirements_record rec requirements =
     (case kind rec of
        Begin header \<Rightarrow>
          if bg_header_type header = DMU_SUBSTREAM \<and> bg_features header AND FEATURE_RAW \<noteq> 0
          then and_then (requirement_of header (payload rec)) (\<lambda>req. Inr (bt_insert (bg_to_guid header) req requirements))
          else Inr requirements
      | _ \<Rightarrow> Inr requirements)"

definition encryption_requirements :: "byte_source option \<Rightarrow> (u64, encryption_requirement) btree result" where
  "encryption_requirements stream =
     and_then (open_stream stream) (\<lambda>reader.
     and_then (stream_loop requirements_record reader []) (\<lambda>(requirements, _). Inr requirements))"

definition apply_requirement_record ::
  "replay_record \<Rightarrow> encryption_requirement option \<times> nat \<Rightarrow> (encryption_requirement option \<times> nat) result" where
  "apply_requirement_record rec = (\<lambda>(requirement, substreams).
     (case kind rec of
        Begin header \<Rightarrow>
          if bg_header_type header = DMU_SUBSTREAM then
            if substreams + 1 > 1 then Inl (Bail ''apply accepts exactly one incremental snapshot substream'')
            else if bg_features header AND FEATURE_RAW \<noteq> 0
              then and_then (requirement_of header (payload rec)) (\<lambda>req. Inr (Some req, substreams + 1))
              else Inr (requirement, substreams + 1)
          else Inr (requirement, substreams)
      | _ \<Rightarrow> Inr (requirement, substreams)))"

definition apply_encryption_requirement :: "byte_source option \<Rightarrow> encryption_requirement option result" where
  "apply_encryption_requirement stream =
     and_then (open_stream stream) (\<lambda>reader.
     and_then (stream_loop apply_requirement_record reader (None, 0)) (\<lambda>((requirement, substreams), reader).
     if \<not> saw_end reader then Inl (Bail ''incremental stream has no END record'')
     else if substreams = 0 then Inl (Bail ''incremental stream has no snapshot substream'')
     else Inr requirement))"

section \<open>Replaying one object into a file\<close>

definition replace_file_extent :: "os \<Rightarrow> u64 \<Rightarrow> u64 \<Rightarrow> byte list \<Rightarrow> byte list \<Rightarrow> byte list result" where
  "replace_file_extent os off len pay d =
     (if len > MAX_REPLAY_BLOCK_SIZE then Inl (Bail ''embedded replay block exceeds the 16 MiB safety limit'')
      else if length pay > unat len then Inl (Bail ''embedded replay payload exceeds its logical block length'')
      else and_then (zero_range os off len d) (\<lambda>d. sparse_write_extent os off pay d))"

definition replay_active ::
  "os \<Rightarrow> codecs \<Rightarrow> u64 \<Rightarrow> record_kind \<Rightarrow> byte list \<Rightarrow> bool \<times> byte list \<Rightarrow> (bool \<times> byte list) result" where
  "replay_active os z n k pay = (\<lambda>(object_exists, d).
     (case k of
        Object ob \<Rightarrow>
          if ob_object ob = n
          then and_then (if \<not> object_exists then set_len os 0 d else Inr d) (\<lambda>d. Inr (True, d))
          else Inr (object_exists, d)
      | Write w \<Rightarrow>
          if wr_object w = n
          then and_then (decode_replay_write z (wr_compression_type w) pay (wr_logical_size w)) (\<lambda>plain.
            and_then (sparse_write_extent os (wr_offset w) plain d) (\<lambda>d. Inr (object_exists, d)))
          else Inr (object_exists, d)
      | WriteEmbedded w \<Rightarrow>
          if em_object w = n
          then and_then (decode_embedded_write z (em_compression_type w) (em_embedded_type w) pay
                (em_physical_size w) (em_logical_size w)) (\<lambda>plain.
            and_then (replace_file_extent os (em_offset w) (em_length w) plain d) (\<lambda>d. Inr (object_exists, d)))
          else Inr (object_exists, d)
      | WriteByRef \<Rightarrow> Inl (Bail ''deduplicated WRITE_BYREF streams are unsupported'')
      | Free fr \<Rightarrow>
          if fr_object fr = n
          then and_then (zero_range os (fr_offset fr) (fr_length fr) d) (\<lambda>d. Inr (object_exists, d))
          else Inr (object_exists, d)
      | FreeObjects fo \<Rightarrow>
          if frees_object fo n
          then and_then (set_len os 0 d) (\<lambda>d. Inr (False, d))
          else Inr (object_exists, d)
      | ObjectRange _ \<Rightarrow> Inl (Bail ''raw OBJECT_RANGE streams are unsupported'')
      | Redact \<Rightarrow> Inl (Bail ''redacted streams are unsupported'')
      | _ \<Rightarrow> Inr (object_exists, d)))"

record raw_replay_state =
  rr_active :: "u64 option"
  rr_seen :: "u64 btset"
  rr_key :: "dataset_key option"
  rr_exists :: bool
  rr_file :: "byte list"

text \<open>The records of an active raw substream.\<close>

definition raw_replay_active ::
  "crypto \<Rightarrow> os \<Rightarrow> codecs \<Rightarrow> u64 \<Rightarrow> dataset_key \<Rightarrow> record_kind \<Rightarrow> byte list \<Rightarrow> bool \<times> byte list \<Rightarrow> (bool \<times> byte list) result" where
  "raw_replay_active k os z n key rk pay = (\<lambda>(object_exists, d).
     (case rk of
        Object ob \<Rightarrow>
          if ob_object ob = n
          then and_then (if \<not> object_exists then set_len os 0 d else Inr d) (\<lambda>d. Inr (True, d))
          else Inr (object_exists, d)
      | Write w \<Rightarrow>
          if wr_object w = n
          then and_then (raw_write_plaintext k z key w pay) (\<lambda>plain.
            and_then (sparse_write_extent os (wr_offset w) plain d) (\<lambda>d. Inr (object_exists, d)))
          else Inr (object_exists, d)
      | Free fr \<Rightarrow>
          if fr_object fr = n
          then and_then (zero_range os (fr_offset fr) (fr_length fr) d) (\<lambda>d. Inr (object_exists, d))
          else Inr (object_exists, d)
      | FreeObjects fo \<Rightarrow>
          if frees_object fo n
          then and_then (set_len os 0 d) (\<lambda>d. Inr (False, d))
          else Inr (object_exists, d)
      | WriteEmbedded w \<Rightarrow>
          if em_object w = n then Inl (Bail ''raw embedded WRITE records are unsupported'') else Inr (object_exists, d)
      | WriteByRef \<Rightarrow> Inl (Bail ''raw deduplicated WRITE_BYREF is unsupported'')
      | Redact \<Rightarrow> Inl (Bail ''redacted streams are unsupported'')
      | _ \<Rightarrow> Inr (object_exists, d)))"

definition raw_replay_record ::
  "crypto \<Rightarrow> os \<Rightarrow> codecs \<Rightarrow> byte list \<Rightarrow> u64 btset \<Rightarrow> u64 \<Rightarrow> replay_record \<Rightarrow> raw_replay_state \<Rightarrow> raw_replay_state result" where
  "raw_replay_record k os z material selected n rec st =
     (case kind rec of
        Begin header \<Rightarrow>
          (case activate selected header of
             None \<Rightarrow> Inr (st\<lparr>rr_active := None\<rparr>)
           | Some guid \<Rightarrow>
               and_then (from_begin_payload (payload rec)) (\<lambda>params.
               and_then (unlock k params material) (\<lambda>key.
               Inr (st\<lparr>rr_active := Some guid, rr_seen := bs_insert guid (rr_seen st), rr_key := Some key\<rparr>))))
      | rk \<Rightarrow>
          if rr_active st = None then Inr st
          else if rk = End then Inr (st\<lparr>rr_active := None, rr_key := None\<rparr>)
          else and_then (ok_or (rr_key st) (Panic ''active raw stream has a key'')) (\<lambda>key.
            and_then (raw_replay_active k os z n key rk (payload rec) (rr_exists st, rr_file st)) (\<lambda>(object_exists, d).
            Inr (st\<lparr>rr_exists := object_exists, rr_file := d\<rparr>))))"

definition replay_raw_object ::
  "crypto \<Rightarrow> os \<Rightarrow> codecs \<Rightarrow> byte_source option \<Rightarrow> snapshot_plan \<Rightarrow> u64 \<Rightarrow> byte list option \<Rightarrow> byte list \<Rightarrow> byte list result" where
  "replay_raw_object k os z stream plan n key_material d =
     and_then (ok_or key_material (Bail ''encrypted raw send requires a key'')) (\<lambda>material.
     and_then (open_stream stream) (\<lambda>reader.
     and_then (stream_loop (raw_replay_record k os z material (bs_of_list (plan_chain plan)) n) reader
        \<lparr>rr_active = None, rr_seen = [], rr_key = None, rr_exists = False, rr_file = d\<rparr>) (\<lambda>(st, reader).
     if \<not> rr_exists st then Inl (Bail ''object {} was not present in the raw snapshot'')
     else if length (rr_seen st) \<noteq> length (plan_chain plan)
       then Inl (Bail ''stream changed between raw indexing and extraction'')
     else Inr (rr_file st))))"

definition replay_object ::
  "crypto \<Rightarrow> os \<Rightarrow> codecs \<Rightarrow> byte_source option \<Rightarrow> snapshot_plan \<Rightarrow> u64 \<Rightarrow> byte list option \<Rightarrow> byte list \<Rightarrow> byte list result" where
  "replay_object k os z stream plan n key_material d =
     (if bg_features (plan_target plan) AND FEATURE_RAW \<noteq> 0 then replay_raw_object k os z stream plan n key_material d
      else and_then (replay_chain (open_stream stream) (plan_chain plan) (replay_active os z n)
             ''stream has no END record'' ''stream changed between indexing and extraction'' (False, d))
        (\<lambda>(object_exists, d). Inr d))"

section \<open>Extraction\<close>

text \<open>The temporary file of an extraction: the object's replay, cut or extended to its size.\<close>

definition extract_file ::
  "crypto \<Rightarrow> codecs \<Rightarrow> env \<Rightarrow> byte_source option \<Rightarrow> snapshot_plan \<Rightarrow> resolved_path \<Rightarrow> string \<Rightarrow> byte list option \<Rightarrow> byte list result" where
  "extract_file k z ev stream plan resolved output key_material =
     and_then (ev_temporary ev output) (\<lambda>_.
     and_then (replay_object k (ev_os ev) z stream plan (rp_object_id resolved) key_material []) (\<lambda>d.
     and_then (set_len (ev_os ev) (unat (rp_logical_size resolved)) d) (\<lambda>d.
     and_then (ev_sync ev d) (\<lambda>_. Inr d))))"

text \<open>The sidecar of an extracted file. An error after the output was renamed leaves it in place,
  so the result is the disk together with the outcome.\<close>

definition finish_extraction ::
  "env \<Rightarrow> object_index \<Rightarrow> resolved_path \<Rightarrow> string \<Rightarrow> bool \<Rightarrow> disk \<Rightarrow> disk \<times> sidecar result" where
  "finish_extraction ev ix resolved output write_sidecar disk =
     (case and_then (sha256_file ev output disk) (\<lambda>sha.
           and_then (if write_sidecar then raw_sidecar_state_of ix (rp_object_id resolved) else Inr None) (\<lambda>raw_state.
           Inr \<lparr>sc_format_version = SIDECAR_VERSION, sc_path = rp_normalized_path resolved,
                sc_object_id = rp_object_id resolved, sc_object_type = rp_object_type resolved,
                sc_bonus_type = rp_bonus_type resolved, sc_logical_size = rp_logical_size resolved,
                sc_size_bonus_offset = rp_size_bonus_offset resolved, sc_size_spill_offset = rp_size_spill_offset resolved,
                sc_snapshot_guid = guid_string (bg_to_guid (ix_begin ix)), sc_sha256 = sha, sc_raw_state = raw_state\<rparr>)) of
        Inl e \<Rightarrow> (disk, Inl e)
      | Inr sidecar \<Rightarrow>
          if write_sidecar then
            (case save_sidecar ev output sidecar disk of Inl e \<Rightarrow> (disk, Inl e) | Inr disk' \<Rightarrow> (disk', Inr sidecar))
          else (disk, Inr sidecar))"

definition extract_resolved_snapshot ::
  "crypto \<Rightarrow> codecs \<Rightarrow> env \<Rightarrow> byte_source option \<Rightarrow> snapshot_plan \<Rightarrow> object_index \<Rightarrow> resolved_path \<Rightarrow> string \<Rightarrow> bool \<Rightarrow>
   byte list option \<Rightarrow> bool \<Rightarrow> disk \<Rightarrow> disk \<times> sidecar result" where
  "extract_resolved_snapshot k z ev stream plan ix resolved output force key_material write_sidecar disk =
     (if rp_dirent_type resolved \<noteq> 8 then (disk, Inl (Bail ''{} is not a regular file''))
      else if disk output \<noteq> None \<and> \<not> force
        then (disk, Inl (Bail ''output {} already exists (pass --force to replace it)''))
      else case and_then (extract_file k z ev stream plan resolved output key_material)
                  (\<lambda>d. persist_replace ev d output force disk) of
        Inl e \<Rightarrow> (disk, Inl e)
      | Inr disk' \<Rightarrow> finish_extraction ev ix resolved output write_sidecar disk')"

definition extract_snapshot_with_key ::
  "('r, 'l, 'i, 'v) zpl_lib \<Rightarrow> crypto \<Rightarrow> codecs \<Rightarrow> env \<Rightarrow> byte_source option \<Rightarrow> string \<Rightarrow> string \<Rightarrow> bool \<Rightarrow> string option \<Rightarrow>
   byte list option \<Rightarrow> disk \<Rightarrow> disk \<times> sidecar result" where
  "extract_snapshot_with_key lib k z ev stream path output force snapshot key_material disk =
     (case and_then (plan_snapshot stream snapshot) (\<lambda>plan.
           and_then (build_plan_with_key k z stream plan key_material) (\<lambda>ix.
           and_then (resolve_path lib ix path) (\<lambda>resolved. Inr (plan, ix, resolved)))) of
        Inl e \<Rightarrow> (disk, Inl e)
      | Inr (plan, ix, resolved) \<Rightarrow>
          extract_resolved_snapshot k z ev stream plan ix resolved output force key_material True disk)"

definition list_directory_snapshot_with_key ::
  "('r, 'l, 'i, 'v) zpl_lib \<Rightarrow> crypto \<Rightarrow> codecs \<Rightarrow> byte_source option \<Rightarrow> string \<Rightarrow> string option \<Rightarrow> byte list option \<Rightarrow>
   directory_entry list result" where
  "list_directory_snapshot_with_key lib k z stream path snapshot key_material =
     and_then (plan_snapshot stream snapshot) (\<lambda>plan.
     and_then (build_plan_with_key k z stream plan key_material) (\<lambda>ix.
     list_directory lib ix path))"

section \<open>The output file implements the replay specification\<close>

fun file_put :: "os \<Rightarrow> u64 \<Rightarrow> extent_payload \<Rightarrow> byte list \<Rightarrow> byte list result" where
  "file_put os off (Plain pay) d = sparse_write_extent os off pay d"
| "file_put os off (Embedded len pay) d = replace_file_extent os off len pay d"

lemma overlay_erase_embedded:
  assumes "length pay \<le> unat len" and "len \<noteq> u64_max"
  shows "overlay (erase c off len) off pay = overlay c off (pay @ replicate (unat len - length pay) 0)"
  using assms by (auto simp: fun_eq_iff overlay_def erase_def nth_append)

sublocale posix_files \<subseteq> out_file: extent_store "\<lambda>_. True" list_view "\<lambda>_. True" payload_bytes
  "file_put os" "zero_range os" "set_len os 0"
proof unfold_locales
  fix d off p d' assume put: "file_put os off p d = Inr d'"
  show "True \<and> list_view d' = overlay (list_view d) (unat off) (payload_bytes p)"
  proof (cases p)
    case (Plain pay)
    then show ?thesis using put write_extent_view by simp
  next
    case (Embedded len pay)
    with put obtain d1 where "length pay \<le> unat len" "\<not> len > MAX_REPLAY_BLOCK_SIZE"
        and d1: "zero_range os off len d = Inr d1" "sparse_write_extent os off pay d1 = Inr d'"
      by (auto simp: replace_file_extent_def result_simps split: if_splits)
    moreover have "len \<noteq> u64_max" using calculation(2) by (auto simp: MAX_REPLAY_BLOCK_SIZE_def u64_max_def)
    ultimately show ?thesis
      using zero_range_view [OF d1(1)] write_extent_view [OF d1(2)] Embedded by (simp add: overlay_erase_embedded)
  qed
qed (auto simp: zero_range_view dest: sparse_file.clear_view [OF TrueI])

context posix_files
begin

lemma replay_active_ops:
  assumes "replay_active os z n k pay (e, d) = Inr (e', d')"
  shows "\<exists>ops. object_ops z n k pay e = Inr (e', ops) \<and> try_fold out_file.run_op d ops = Inr d'"
  using assms by (cases k) (auto simp: replay_active_def object_ops_def result_simps split: if_splits)

lemma replay_active_step:
  assumes "replay_active os z n (kind rec) (payload rec) (e, d) = Inr (e', d')"
  shows "replay_step z n rec (e, list_view d) = Inr (e', list_view d')"
proof -
  obtain ops where o: "object_ops z n (kind rec) (payload rec) e = Inr (e', ops)"
    and r: "try_fold out_file.run_op d ops = Inr d'" using replay_active_ops [OF assms] by blast
  have "list_all out_file.valid_op ops" by (simp add: list_all_iff) (metis out_file.valid_op.elims(3))
  then show ?thesis using o out_file.run_view [OF TrueI _ r] by simp
qed

lemma replay_active_fold:
  assumes "try_fold (\<lambda>rec. replay_active os z n (kind rec) (payload rec)) (e, d) recs = Inr (e', d')"
  shows "try_fold (replay_step z n) (e, list_view d) recs = Inr (e', list_view d')"
  using assms
proof (induction recs arbitrary: e d)
  case Nil
  then show ?case by simp
next
  case (Cons rec recs)
  then obtain e1 d1 where s: "replay_active os z n (kind rec) (payload rec) (e, d) = Inr (e1, d1)"
    and rest: "try_fold (\<lambda>rec. replay_active os z n (kind rec) (payload rec)) (e1, d1) recs = Inr (e', d')"
    by (auto simp: result_simps)
  show ?case using replay_active_step [OF s] Cons.IH [OF rest] by simp
qed

lemma replay_object_contents:
  assumes "bg_features (plan_target plan) AND FEATURE_RAW = 0"
    and "replay_object k os z stream plan n key_material [] = Inr d"
  obtains src recs r' e where "stream = Some src" and "reads (new_reader src) recs r'" and "saw_end r'"
    and "replay_contents z n (active_records (bs_of_list (plan_chain plan)) None recs) = Inr (e, list_view d)"
proof -
  from assms obtain e where "replay_chain (open_stream stream) (plan_chain plan) (replay_active os z n)
      ''stream has no END record'' ''stream changed between indexing and extraction'' (False, []) = Inr (e, d)"
    by (auto simp: replay_object_def result_simps)
  then show thesis
  proof (cases rule: replay_chain_Inr)
    case (1 r recs r')
    then obtain src where "stream = Some src" "r = new_reader src"
      by (auto simp: open_stream_def result_simps)
    with 1 show thesis using that replay_active_fold [OF 1(4)] by (auto simp: replay_contents_def)
  qed
qed

end

text \<open>The first \<open>n\<close> bytes of some contents, and what resizing a file to them gives.\<close>

definition clip :: "contents \<Rightarrow> nat \<Rightarrow> byte list" where
  "clip c n = map c [0 ..< n]"

lemma length_clip [simp]: "length (clip c n) = n"
  by (simp add: clip_def)

lemma resize_is_clip: "resize n 0 d = clip (list_view d) n"
  by (rule nth_equalityI) (auto simp: clip_def list_view_def slice_simps)

lemma list_view_clip: "list_view (clip c n) = (\<lambda>i. if i < n then c i else 0)"
  by (auto simp: clip_def list_view_def)

lemma sidecar_path_neq [simp]: "sidecar_path p \<noteq> p" "p \<noteq> sidecar_path p"
  by (auto simp: sidecar_path_def)

lemma persist_replace_Inr:
  "persist_replace ev d path force disk = Inr disk' \<Longrightarrow> disk' = disk(path \<mapsto> d)"
  by (auto simp: persist_replace_def result_simps split: if_splits)

lemma save_sidecar_Inr:
  assumes "save_sidecar ev target sc disk = Inr disk'"
  shows "disk' p = disk p \<or> p = sidecar_path target"
  using assms by (auto simp: save_sidecar_def result_simps Let_def dest: persist_replace_Inr)

lemma extract_file_contents:
  assumes "posix_files (ev_os ev)" and "bg_features (plan_target plan) AND FEATURE_RAW = 0"
    and "extract_file k z ev stream plan resolved output key_material = Inr d"
  shows "\<exists>src recs r' e c. stream = Some src \<and> reads (new_reader src) recs r' \<and> saw_end r' \<and>
    replay_contents z (rp_object_id resolved) (active_records (bs_of_list (plan_chain plan)) None recs) = Inr (e, c) \<and>
    d = clip c (unat (rp_logical_size resolved))"
proof -
  from assms(3) obtain d0 where
      r: "replay_object k (ev_os ev) z stream plan (rp_object_id resolved) key_material [] = Inr d0"
    and "set_len (ev_os ev) (unat (rp_logical_size resolved)) d0 = Inr d"
    by (auto simp: extract_file_def result_simps)
  then have "d = clip (list_view d0) (unat (rp_logical_size resolved))"
    using posix_files.set_len_ok [OF assms(1)] by (auto simp: set_len_def result_simps resize_is_clip)
  then show ?thesis
    using posix_files.replay_object_contents [OF assms(1,2) r] by metis
qed

lemma finish_extraction_disk:
  assumes "finish_extraction ev ix resolved output ws disk = (disk', res)"
  shows "disk' p = disk p \<or> ws \<and> p = sidecar_path output"
    and "res = Inr sc \<Longrightarrow> disk output = Some d \<Longrightarrow> sc_sha256 sc = ev_sha256 ev d \<and> sc_object_id sc = rp_object_id resolved \<and>
      sc_logical_size sc = rp_logical_size resolved \<and> sc_snapshot_guid sc = guid_string (bg_to_guid (ix_begin ix))"
    using assms save_sidecar_Inr [of ev "output" _ disk disk' p]
  by (auto simp: finish_extraction_def sha256_file_def result_simps split: sum.splits if_splits)

lemma guid_string_round_trip: "parse_guid (guid_string guid) = Inr guid"
proof -
  have "strip_prefix ''0x'' (guid_string guid) = Some (hex_016 guid)"
    by (simp add: strip_prefix_Some guid_string_def)
  then show ?thesis by (simp add: parse_guid_def from_str_radix_hex_016)
qed

section \<open>Properties\<close>

text \<open>C1: extraction writes the file the chain describes. When an extraction from a plain stream
  succeeds, the stream was read to its end, and the output has exactly \<open>logical_size\<close> bytes: the
  contents that replaying the selected chain's records gives for the object, cut off or continued
  with zeros. The sidecar records the digest of these bytes, and no other file changes.\<close>

theorem extraction_writes_the_replayed_contents:
  assumes "posix_files (ev_os ev)" and "bg_features (plan_target plan) AND FEATURE_RAW = 0"
    and "extract_resolved_snapshot k z ev stream plan ix resolved out force key_material ws disk = (disk', Inr sc)"
  shows "\<exists>src recs r' e c. stream = Some src \<and> reads (new_reader src) recs r' \<and> saw_end r' \<and>
    replay_contents z (rp_object_id resolved) (active_records (bs_of_list (plan_chain plan)) None recs) = Inr (e, c) \<and>
    disk' out = Some (clip c (unat (rp_logical_size resolved))) \<and>
    sc_sha256 sc = ev_sha256 ev (clip c (unat (rp_logical_size resolved))) \<and>
    (\<forall>p. p \<noteq> out \<longrightarrow> p \<noteq> sidecar_path out \<longrightarrow> disk' p = disk p)"
proof -
  from assms(3) obtain d disk1 where f: "extract_file k z ev stream plan resolved out key_material = Inr d"
    and p: "persist_replace ev d out force disk = Inr disk1"
    and fin: "finish_extraction ev ix resolved out ws disk1 = (disk', Inr sc)"
    by (auto simp: extract_resolved_snapshot_def result_simps split: if_splits sum.splits)
  have d1: "disk1 = disk(out \<mapsto> d)" by (rule persist_replace_Inr [OF p])
  from extract_file_contents [OF assms(1,2) f] obtain src recs r' e c where
    "stream = Some src" "reads (new_reader src) recs r'" "saw_end r'"
    "replay_contents z (rp_object_id resolved) (active_records (bs_of_list (plan_chain plan)) None recs) = Inr (e, c)"
    and d: "d = clip c (unat (rp_logical_size resolved))" by blast
  moreover have "disk' out = Some d" using finish_extraction_disk(1) [OF fin, of out] d1 by auto
  moreover have "sc_sha256 sc = ev_sha256 ev d" using finish_extraction_disk(2) [OF fin refl, of d] d1 by simp
  moreover have "disk' p = disk p" if "p \<noteq> out" "p \<noteq> sidecar_path out" for p
    using finish_extraction_disk(1) [OF fin, of p] d1 that by auto
  ultimately show ?thesis by (intro exI [of _ src] exI [of _ recs] exI [of _ r'] exI [of _ e] exI [of _ c]) simp
qed

definition demo_env :: env where
  "demo_env = \<lparr>ev_os = ideal_os, ev_sha256 = (\<lambda>_. ''sha''), ev_to_json = (\<lambda>_. [123, 125]),
     ev_from_json = (\<lambda>_. Inl (Bail ''unused'')), ev_temporary = (\<lambda>_. Inr ()), ev_sync = (\<lambda>_. Inr ()),
     ev_persist = (\<lambda>_. Inr ())\<rparr>"

definition demo_resolved :: "u64 \<Rightarrow> resolved_path" where
  "demo_resolved n = \<lparr>rp_normalized_path = ''/f'', rp_object_id = 1, rp_object_type = 19, rp_bonus_type = 44,
     rp_logical_size = n, rp_dirent_type = 8, rp_size_bonus_offset = None, rp_size_spill_offset = None\<rparr>"

lemma demo_extract_file:
  "extract_file null_crypto plain_codecs demo_env (Some (demo_source 19)) demo_plan (demo_resolved n) ''f'' None =
     Inr (resize (unat n) 0 demo_block_bytes)"
proof -
  have w: "sparse_write_extent ideal_os 0 demo_block_bytes [] = Inr demo_block_bytes"
    by (simp add: sparse_write_extent_def chunks.simps CHUNK_SIZE_def write_all_def ideal_os_def blit_def
        resize_def checked_add_def demo_block_bytes_def)
  have l: "length demo_block_bytes = 8" by (simp add: demo_block_bytes_def)
  have "replay_chain (Inr (new_reader (demo_source 19))) [17] (replay_active ideal_os plain_codecs 1)
      ''stream has no END record'' ''stream changed between indexing and extraction'' (False, []) = Inr (True, demo_block_bytes)"
    by (rule demo_replay_chain [where ?st1.0 = "(True, [])"])
      (simp_all add: replay_active_def demo_object_def demo_write_def set_len_def ideal_os_def [THEN arg_cong, of os_set_len]
        resize_def decode_replay_write_def w l)
  then show ?thesis
    by (simp add: extract_file_def demo_env_def demo_resolved_def replay_object_def demo_plan_def demo_begin_def FEATURE_RAW_def
        open_stream_def set_len_def) (simp add: ideal_os_def)
qed

lemma demo_extraction:
  "\<exists>disk' sc. extract_resolved_snapshot null_crypto plain_codecs demo_env (Some (demo_source 19)) demo_plan demo_fs
     (demo_resolved 6) ''f'' False None False Map.empty = (disk', Inr sc)"
proof -
  have "ev_persist demo_env p = Inr ()" "ev_sha256 demo_env d = ''sha''" "rp_dirent_type (demo_resolved 6) = 8" for p d
    by (simp_all add: demo_env_def demo_resolved_def)
  then show ?thesis
    by (simp add: extract_resolved_snapshot_def demo_extract_file persist_replace_def finish_extraction_def sha256_file_def)
qed

theorem extraction_writes_the_replayed_contents_witness:
  "\<exists>disk' sc c. extract_resolved_snapshot null_crypto plain_codecs demo_env (Some (demo_source 19)) demo_plan demo_fs
     (demo_resolved 6) ''f'' False None False Map.empty = (disk', Inr sc) \<and> disk' ''f'' = Some (clip c 6)"
proof -
  obtain disk' sc where x: "extract_resolved_snapshot null_crypto plain_codecs demo_env (Some (demo_source 19)) demo_plan demo_fs
     (demo_resolved 6) ''f'' False None False Map.empty = (disk', Inr sc)" using demo_extraction by blast
  have "posix_files (ev_os demo_env)" and "bg_features (plan_target demo_plan) AND FEATURE_RAW = 0"
    and "unat (rp_logical_size (demo_resolved 6)) = 6"
    by (simp_all add: demo_env_def ideal.posix_files_axioms demo_plan_def demo_begin_def demo_resolved_def FEATURE_RAW_def)
  with extraction_writes_the_replayed_contents [OF this(1,2) x] x show ?thesis by metis
qed

text \<open>C22: a failed extraction does not leave a partial file. Whatever fails, every path keeps the
  file it had, or, when the failure came after the rename, the output holds the complete
  replayed contents; the sidecar is not written.\<close>

theorem failed_extraction_is_atomic:
  assumes "posix_files (ev_os ev)" and "bg_features (plan_target plan) AND FEATURE_RAW = 0"
    and "extract_resolved_snapshot k z ev stream plan ix resolved out force key_material ws disk = (disk', Inl err)"
  shows "disk' = disk \<or>
    (\<exists>src recs r' e c. stream = Some src \<and> reads (new_reader src) recs r' \<and> saw_end r' \<and>
      replay_contents z (rp_object_id resolved) (active_records (bs_of_list (plan_chain plan)) None recs) = Inr (e, c) \<and>
      disk' = disk(out \<mapsto> clip c (unat (rp_logical_size resolved))))"
proof (cases "and_then (extract_file k z ev stream plan resolved out key_material) (\<lambda>d. persist_replace ev d out force disk)")
  case (Inl err')
  with assms(3) show ?thesis by (auto simp: extract_resolved_snapshot_def split: if_splits)
next
  case (Inr disk1)
  then obtain d where f: "extract_file k z ev stream plan resolved out key_material = Inr d" and d: "disk1 = disk(out \<mapsto> d)"
    by (auto simp: result_simps dest: persist_replace_Inr)
  have "disk' = disk \<or> disk' = disk1"
    using assms(3) Inr by (auto simp: extract_resolved_snapshot_def finish_extraction_def split: if_splits sum.splits)
  with extract_file_contents [OF assms(1,2) f] d show ?thesis by blast
qed

theorem failed_extraction_is_atomic_witness:
  "\<exists>err. extract_resolved_snapshot null_crypto plain_codecs demo_env None demo_plan demo_fs
     (demo_resolved 6) ''f'' True None False [''f'' \<mapsto> [9]] = ([''f'' \<mapsto> [9]], Inl err)"
proof -
  have x: "extract_resolved_snapshot null_crypto plain_codecs demo_env None demo_plan demo_fs
     (demo_resolved 6) ''f'' True None False [''f'' \<mapsto> [9]] = ([''f'' \<mapsto> [9]], Inl (Bail ''opening ZFS send stream {}''))"
    by (simp add: extract_resolved_snapshot_def extract_file_def replay_object_def demo_env_def demo_plan_def demo_begin_def
        replay_chain_def open_stream_def demo_resolved_def FEATURE_RAW_def)
  have "posix_files (ev_os demo_env)" and "bg_features (plan_target demo_plan) AND FEATURE_RAW = 0"
    by (simp_all add: demo_env_def ideal.posix_files_axioms demo_plan_def demo_begin_def FEATURE_RAW_def)
  from failed_extraction_is_atomic [OF this x] x show ?thesis by blast
qed

end
