(* ===== verification/Incremental.thy ===== *)
theory Incremental
  imports File_Extract
begin

text \<open>
  Applying an incremental stream to an extracted file (src/operations.rs): the checks of the
  target against its sidecar, the replay of the object's records over a copy of the target for
  plain and raw streams, and the new sidecar.
\<close>

section \<open>Sizes stored in attributes\<close>

text \<open>\<open>offset + 8\<close> wraps in the release profile, which has no overflow checks; the end of the range then
  precedes its start and \<open>get\<close> answers \<open>None\<close>.\<close>

definition read_stored_size :: "byte list \<Rightarrow> u64 \<Rightarrow> string \<Rightarrow> u64 result" where
  "read_stored_size bytes off source =
     and_then (ok_or (get_range bytes (unat off) (unat (off + 8))) (Bail (source @ '' has a truncated size attribute''))) (\<lambda>v.
     Inr (from_le_bytes v))"

section \<open>Plain incremental streams\<close>

record apply_state =
  ap_begin :: "begin_record option"
  ap_new_size :: u64
  ap_changed :: bool
  ap_deleted :: bool
  ap_file :: "byte list"

definition apply_begin :: "sidecar \<Rightarrow> begin_record \<Rightarrow> apply_state \<Rightarrow> apply_state result" where
  "apply_begin sc header st =
     (if bg_header_type header \<noteq> DMU_SUBSTREAM then Inr st
      else if ap_begin st \<noteq> None then Inl (Bail ''apply accepts exactly one incremental snapshot substream'')
      else and_then (parse_guid (sc_snapshot_guid sc)) (\<lambda>expected.
        if bg_from_guid header \<noteq> expected
        then Inl (Bail ''incremental stream starts from {}, but target metadata is at {}'')
        else Inr (st\<lparr>ap_begin := Some header\<rparr>)))"

text \<open>The check \<open>offset + 8 > payload.len()\<close> wraps as well, and the slice behind it then panics.\<close>

definition apply_object :: "sidecar \<Rightarrow> object_record \<Rightarrow> byte list \<Rightarrow> apply_state \<Rightarrow> apply_state result" where
  "apply_object sc ob pay st =
     (if ob_bonus_type ob \<noteq> sc_bonus_type sc
      then Inl (Bail ''target object's bonus type changed; re-extract from a new full stream'')
      else case sc_size_bonus_offset sc of
        None \<Rightarrow> Inr (st\<lparr>ap_changed := True\<rparr>)
      | Some off \<Rightarrow>
          if unat (off + 8) > length pay then Inl (Bail ''incremental OBJECT record has a truncated size attribute'')
          else and_then (index_range pay (unat off) (unat (off + 8))) (\<lambda>v.
            Inr (st\<lparr>ap_new_size := from_le_bytes v, ap_changed := True\<rparr>)))"

definition apply_record ::
  "os \<Rightarrow> codecs \<Rightarrow> sidecar \<Rightarrow> replay_record \<Rightarrow> apply_state \<Rightarrow> apply_state result" where
  "apply_record os z sc rec st =
     (case kind rec of
        Begin header \<Rightarrow> apply_begin sc header st
      | Object ob \<Rightarrow> if ob_object ob = sc_object_id sc then apply_object sc ob (payload rec) st else Inr st
      | Write w \<Rightarrow>
          if wr_object w = sc_object_id sc
          then and_then (decode_replay_write z (wr_compression_type w) (payload rec) (wr_logical_size w)) (\<lambda>plain.
            and_then (sparse_write_extent os (wr_offset w) plain (ap_file st)) (\<lambda>d.
            Inr (st\<lparr>ap_file := d, ap_changed := True\<rparr>)))
          else Inr st
      | WriteEmbedded w \<Rightarrow>
          if em_object w = sc_object_id sc
          then and_then (decode_embedded_write z (em_compression_type w) (em_embedded_type w) (payload rec)
                (em_physical_size w) (em_logical_size w)) (\<lambda>plain.
            and_then (replace_file_extent os (em_offset w) (em_length w) plain (ap_file st)) (\<lambda>d.
            Inr (st\<lparr>ap_file := d, ap_changed := True\<rparr>)))
          else Inr st
      | Spill sp \<Rightarrow>
          if sp_object sp = sc_object_id sc
          then and_then
            (case sc_size_spill_offset sc of
               None \<Rightarrow> Inr (ap_new_size st)
             | Some off \<Rightarrow>
                 and_then (decode_replay_write z (sp_compression_type sp) (payload rec) (sp_logical_size sp)) (\<lambda>plain.
                 read_stored_size plain off ''incremental SPILL block'')) (\<lambda>new_size.
            Inr (st\<lparr>ap_new_size := new_size, ap_changed := True\<rparr>))
          else Inr st
      | WriteByRef \<Rightarrow> Inl (Bail ''deduplicated WRITE_BYREF streams are unsupported'')
      | Free fr \<Rightarrow>
          if fr_object fr = sc_object_id sc
          then and_then (zero_range os (fr_offset fr) (fr_length fr) (ap_file st)) (\<lambda>d.
            Inr (st\<lparr>ap_file := d, ap_changed := True\<rparr>))
          else Inr st
      | FreeObjects fo \<Rightarrow> Inr (if frees_object fo (sc_object_id sc) then st\<lparr>ap_deleted := True\<rparr> else st)
      | ObjectRange _ \<Rightarrow> Inl (Bail ''raw OBJECT_RANGE streams are unsupported'')
      | Redact \<Rightarrow> Inl (Bail ''redacted streams are unsupported'')
      | End \<Rightarrow> Inr st)"

text \<open>The loop over the stream and the checks after it, on the copy \<open>d\<close> of the target.\<close>

definition apply_stream ::
  "os \<Rightarrow> codecs \<Rightarrow> sidecar \<Rightarrow> byte_source option \<Rightarrow> byte list \<Rightarrow> (begin_record \<times> u64 \<times> byte list) result" where
  "apply_stream os z sc stream d =
     and_then (open_stream stream) (\<lambda>reader.
     and_then (stream_loop (apply_record os z sc) reader
        \<lparr>ap_begin = None, ap_new_size = sc_logical_size sc, ap_changed = False, ap_deleted = False, ap_file = d\<rparr>) (\<lambda>(st, reader).
     if \<not> saw_end reader then Inl (Bail ''incremental stream has no END record'')
     else if ap_deleted st
       then Inl (Bail ''the target object was deleted or replaced; re-extract it from a new full stream'')
     else if \<not> ap_changed st then Inl (Bail ''the incremental stream contains no changes for {}'')
     else and_then (ok_or (ap_begin st) (Bail ''incremental stream has no BEGIN record'')) (\<lambda>begin.
       Inr (begin, ap_new_size st, ap_file st))))"

section \<open>Raw incremental streams\<close>

definition raw_apply_layout_compatible :: "raw_dnode \<Rightarrow> object_record \<Rightarrow> bool" where
  "raw_apply_layout_compatible dnode ob \<longleftrightarrow>
     rd_object_type dnode = ob_object_type ob \<and> rd_block_size dnode = ob_block_size ob \<and>
     rd_slots dnode = ob_dnode_slots ob \<and> rd_indirect_block_shift dnode = ob_indirect_block_shift ob \<and>
     rd_levels dnode = ob_levels ob \<and> rd_block_pointers dnode = ob_block_pointers ob"

definition free_raw_apply_blocks :: "u64 \<Rightarrow> u64 \<Rightarrow> raw_dnode \<Rightarrow> raw_dnode result" where
  "free_raw_apply_blocks off len dnode =
     and_then (if len = u64_max then Inr u64_max
               else ok_or (checked_add off len) (Bail ''raw FREE extent overflow'')) (\<lambda>end.
     Inr (dnode\<lparr>rd_blocks := filter (\<lambda>block.
       case checked_mul (rb_block_id block) (rb_logical_size block) of
         None \<Rightarrow> False
       | Some start \<Rightarrow> saturating_add start (rb_logical_size block) \<le> off \<or> start \<ge> end) (rd_blocks dnode)\<rparr>))"

definition finish_raw_apply_range ::
  "crypto \<Rightarrow> dataset_key \<Rightarrow> raw_dnode_range \<Rightarrow> (u64, raw_dnode) btree \<Rightarrow> sidecar \<Rightarrow> byte list option \<Rightarrow> u64 option result" where
  "finish_raw_apply_range k key rng raw_dnodes sc target_spill =
     and_then (ok_or (checked_add (rr_first_object rng) (rr_object_slots rng))
       (Bail ''raw OBJECT_RANGE overflows its object IDs'')) (\<lambda>end.
     let dnodes = bt_values (bt_range (rr_first_object rng) end raw_dnodes) in
     and_then (decrypt_dnode_bonuses k key rng dnodes) (\<lambda>bonuses.
     and_then (ok_or (find (\<lambda>d. rd_object d = sc_object_id sc) dnodes)
       (Bail ''target dnode is absent from its authenticated raw range'')) (\<lambda>target.
     case sc_size_bonus_offset sc of
       Some off \<Rightarrow>
         and_then (read_stored_size (case bt_get bonuses (sc_object_id sc) of Some b \<Rightarrow> b | None \<Rightarrow> rd_bonus_ciphertext target)
           off ''raw OBJECT bonus'') (\<lambda>n. Inr (Some n))
     | None \<Rightarrow>
         (case sc_size_spill_offset sc of
            Some off \<Rightarrow>
              and_then (ok_or target_spill (Bail ''target raw SA spill is absent'')) (\<lambda>spill.
              and_then (read_stored_size spill off ''raw SPILL block'') (\<lambda>n. Inr (Some n)))
          | None \<Rightarrow> Inr None))))"

record raw_apply_state =
  ra_begin :: "begin_record option"
  ra_key :: "dataset_key option"
  ra_range :: "raw_dnode_range option"
  ra_dnodes :: "(u64, raw_dnode) btree"
  ra_new_size :: u64
  ra_deleted :: bool
  ra_spill :: "byte list option"
  ra_file :: "byte list"

definition raw_apply_finish :: "crypto \<Rightarrow> dataset_key \<Rightarrow> sidecar \<Rightarrow> raw_apply_state \<Rightarrow> raw_apply_state result" where
  "raw_apply_finish k key sc st =
     (case ra_range st of
        None \<Rightarrow> Inr st
      | Some rng \<Rightarrow>
          and_then (finish_raw_apply_range k key rng (ra_dnodes st) sc (ra_spill st)) (\<lambda>sz.
          Inr (st\<lparr>ra_range := None, ra_new_size := (case sz of None \<Rightarrow> ra_new_size st | Some n \<Rightarrow> n)\<rparr>)))"

definition raw_apply_begin ::
  "crypto \<Rightarrow> sidecar \<Rightarrow> raw_sidecar_state \<Rightarrow> byte list \<Rightarrow> begin_record \<Rightarrow> byte list \<Rightarrow> raw_apply_state \<Rightarrow> raw_apply_state result" where
  "raw_apply_begin k sc rs material header pay st =
     (if bg_header_type header \<noteq> DMU_SUBSTREAM then Inr st
      else if ra_begin st \<noteq> None then Inl (Bail ''apply accepts exactly one incremental snapshot substream'')
      else if bg_features header AND FEATURE_RAW = 0
        then Inl (Bail ''raw incremental apply received a plaintext substream'')
      else and_then (parse_guid (sc_snapshot_guid sc)) (\<lambda>expected.
        if bg_from_guid header \<noteq> expected
        then Inl (Bail ''incremental stream starts from {}, but target metadata is at {}'')
        else and_then (from_begin_payload pay) (\<lambda>params.
          if ep_guid params \<noteq> rs_crypto_guid rs \<or> ep_version params \<noteq> rs_crypto_version rs
          then Inl (Bail ''raw incremental encryption identity does not match the extracted base'')
          else and_then (unlock k params material) (\<lambda>key.
            Inr (st\<lparr>ra_key := Some key, ra_begin := Some header\<rparr>)))))"

definition raw_apply_object :: "sidecar \<Rightarrow> object_record \<Rightarrow> byte list \<Rightarrow> raw_apply_state \<Rightarrow> raw_apply_state" where
  "raw_apply_object sc ob pay st =
     (let previous = bt_get (ra_dnodes st) (ob_object ob);
          target = (ob_object ob = sc_object_id sc)
      in st\<lparr>ra_dnodes := bt_insert (ob_object ob) (raw_dnode_of ob pay previous) (ra_dnodes st),
            ra_deleted := (ra_deleted st \<or> target \<and> previous = None),
            ra_spill := (if target \<and> ob_flags ob AND 4 = 0 then None else ra_spill st)\<rparr>)"

definition raw_apply_write ::
  "crypto \<Rightarrow> os \<Rightarrow> codecs \<Rightarrow> sidecar \<Rightarrow> dataset_key \<Rightarrow> write_record \<Rightarrow> byte list \<Rightarrow> raw_apply_state \<Rightarrow> raw_apply_state result" where
  "raw_apply_write k os z sc key w pay st =
     and_then (ok_or (bt_get (ra_dnodes st) (wr_object w)) (Bail ''raw WRITE for object {} has no dnode state'')) (\<lambda>dnode.
     if wr_logical_size w = 0 \<or> wr_offset w mod wr_logical_size w \<noteq> 0
     then Inl (Bail ''raw WRITE has an invalid block offset'')
     else let st = st\<lparr>ra_dnodes := bt_insert (wr_object w)
                 (dnode\<lparr>rd_blocks := put_block (write_pointer w) (rd_blocks dnode)\<rparr>) (ra_dnodes st)\<rparr>
       in if wr_object w = sc_object_id sc
          then and_then (raw_write_plaintext k z key w pay) (\<lambda>plain.
            and_then (sparse_write_extent os (wr_offset w) plain (ra_file st)) (\<lambda>d. Inr (st\<lparr>ra_file := d\<rparr>)))
          else Inr st)"

definition raw_apply_free :: "os \<Rightarrow> sidecar \<Rightarrow> free_record \<Rightarrow> raw_apply_state \<Rightarrow> raw_apply_state result" where
  "raw_apply_free os sc fr st =
     and_then (with_entry (fr_object fr) (free_raw_apply_blocks (fr_offset fr) (fr_length fr)) (ra_dnodes st)) (\<lambda>dnodes.
     let st = st\<lparr>ra_dnodes := dnodes\<rparr> in
     if fr_object fr = sc_object_id sc
     then and_then (zero_range os (fr_offset fr) (fr_length fr) (ra_file st)) (\<lambda>d. Inr (st\<lparr>ra_file := d\<rparr>))
     else Inr st)"

definition raw_apply_spill ::
  "crypto \<Rightarrow> codecs \<Rightarrow> sidecar \<Rightarrow> dataset_key \<Rightarrow> spill_record \<Rightarrow> byte list \<Rightarrow> raw_apply_state \<Rightarrow> raw_apply_state result" where
  "raw_apply_spill k z sc key sp pay st =
     and_then (ok_or (bt_get (ra_dnodes st) (sp_object sp)) (Bail ''raw SPILL for object {} has no dnode state'')) (\<lambda>dnode.
     let st = st\<lparr>ra_dnodes := bt_insert (sp_object sp) (dnode\<lparr>rd_spill := Some (spill_pointer sp)\<rparr>) (ra_dnodes st)\<rparr> in
     if sp_object sp = sc_object_id sc
     then and_then (raw_spill_plaintext k z key sp pay) (\<lambda>plain. Inr (st\<lparr>ra_spill := Some plain\<rparr>))
     else Inr st)"

definition raw_apply_record ::
  "crypto \<Rightarrow> os \<Rightarrow> codecs \<Rightarrow> sidecar \<Rightarrow> raw_sidecar_state \<Rightarrow> byte list \<Rightarrow> replay_record \<Rightarrow> raw_apply_state \<Rightarrow> raw_apply_state result" where
  "raw_apply_record k os z sc rs material rec st =
     (case kind rec of
        Begin header \<Rightarrow> raw_apply_begin k sc rs material header (payload rec) st
      | End \<Rightarrow>
          and_then (if ra_range st = None then Inr st
                    else and_then (ok_or (ra_key st) (Panic ''raw substream has a key'')) (\<lambda>key. raw_apply_finish k key sc st)) (\<lambda>st.
          Inr (st\<lparr>ra_key := None\<rparr>))
      | rk \<Rightarrow>
          and_then (ok_or (ra_key st) (Bail ''raw replay record appears outside its substream'')) (\<lambda>key.
          (case rk of
             ObjectRange rg \<Rightarrow>
               and_then (raw_apply_finish k key sc st) (\<lambda>st.
               Inr (if rg_first_object rg = rs_first_object rs \<and> rg_object_slots rg = rs_object_slots rs
                    then st\<lparr>ra_range := Some (raw_range_of rg (rs_crypto_version rs))\<rparr> else st))
           | WriteEmbedded _ \<Rightarrow> Inl (Bail ''WRITE_EMBEDDED is invalid in a raw send stream'')
           | WriteByRef \<Rightarrow> Inl (Bail ''raw deduplicated WRITE_BYREF is unsupported'')
           | Redact \<Rightarrow> Inl (Bail ''redacted streams are unsupported'')
           | _ \<Rightarrow>
               if ra_range st = None then Inr st
               else (case rk of
                 Object ob \<Rightarrow> Inr (raw_apply_object sc ob (payload rec) st)
               | Write w \<Rightarrow> raw_apply_write k os z sc key w (payload rec) st
               | Free fr \<Rightarrow> raw_apply_free os sc fr st
               | FreeObjects fo \<Rightarrow>
                   Inr (st\<lparr>ra_deleted := (ra_deleted st \<or> frees_object fo (sc_object_id sc)),
                           ra_dnodes := retain_outside fo (ra_dnodes st)\<rparr>)
               | Spill sp \<Rightarrow> raw_apply_spill k z sc key sp (payload rec) st
               | _ \<Rightarrow> Inr st))))"

text \<open>The raw state of the sidecar as the loop starts with it, or why it cannot be used.\<close>

definition raw_apply_start :: "sidecar \<Rightarrow> byte list option \<Rightarrow> (byte list \<times> raw_sidecar_state \<times> (u64, raw_dnode) btree) result" where
  "raw_apply_start sc key_material =
     and_then (ok_or key_material (Bail ''raw incremental send requires a key'')) (\<lambda>material.
     and_then (ok_or (sc_raw_state sc) (Bail ''the extraction sidecar has no raw authentication state; re-extract the base snapshot with this version'')) (\<lambda>rs.
     if rs_object_slots rs \<noteq> 32 \<or> rs_first_object rs mod 32 \<noteq> 0
     then Inl (Bail ''the extraction sidecar has invalid raw dnode-range state'')
     else let dnodes = fold (\<lambda>d. bt_insert (rd_object d) d) (rs_dnodes rs) [] in
       if bt_get dnodes (sc_object_id sc) = None
       then Inl (Bail ''the extraction sidecar is missing the target raw dnode'')
       else Inr (material, rs, dnodes)))"

definition raw_apply_stream ::
  "crypto \<Rightarrow> os \<Rightarrow> codecs \<Rightarrow> sidecar \<Rightarrow> byte list \<Rightarrow> raw_sidecar_state \<Rightarrow> (u64, raw_dnode) btree \<Rightarrow> byte_source option \<Rightarrow> byte list \<Rightarrow>
   (begin_record \<times> u64 \<times> byte list \<times> raw_sidecar_state) result" where
  "raw_apply_stream k os z sc material rs dnodes stream d =
     and_then (open_stream stream) (\<lambda>reader.
     and_then (stream_loop (raw_apply_record k os z sc rs material) reader
        \<lparr>ra_begin = None, ra_key = None, ra_range = None, ra_dnodes = dnodes, ra_new_size = sc_logical_size sc,
         ra_deleted = False, ra_spill = rs_target_spill rs, ra_file = d\<rparr>) (\<lambda>(st, reader).
     if \<not> saw_end reader then Inl (Bail ''incremental stream has no END record'')
     else if ra_deleted st \<or> bt_get (ra_dnodes st) (sc_object_id sc) = None
       then Inl (Bail ''the target object was deleted or replaced; re-extract it from a new full stream'')
     else and_then (ok_or (ra_begin st) (Bail ''incremental stream has no BEGIN record'')) (\<lambda>begin.
       Inr (begin, ra_new_size st, ra_file st,
         rs\<lparr>rs_dnodes := bt_values (ra_dnodes st), rs_target_spill := ra_spill st\<rparr>))))"

section \<open>Applying\<close>

text \<open>The target checked against its sidecar.\<close>

definition load_sidecar :: "env \<Rightarrow> string \<Rightarrow> disk \<Rightarrow> (sidecar \<times> byte list) result" where
  "load_sidecar ev target disk =
     and_then (ok_or (disk (sidecar_path target)) (Bail ''opening extraction metadata {}; extract the file with this tool first'')) (\<lambda>json.
     and_then (ev_from_json ev json) (\<lambda>sc.
     if sc_format_version sc \<noteq> SIDECAR_VERSION then Inl (Bail ''unsupported sidecar format version {}'')
     else and_then (sha256_file ev target disk) (\<lambda>hash.
       if hash \<noteq> sc_sha256 sc then Inl (Bail ''target {} does not match the extracted base file (SHA-256 differs)'')
       else and_then (ok_or (disk target) (IoErr OsError)) (\<lambda>d.
         if length d \<noteq> unat (sc_logical_size sc)
         then Inl (Bail ''target size is {current_size}, but extraction metadata expects {}'')
         else Inr (sc, d)))))"

text \<open>Replacing the target by the new file and saving the new sidecar, from the moment the
  stream has been applied to the temporary file \<open>d\<close>.\<close>

definition commit_apply ::
  "env \<Rightarrow> string \<Rightarrow> sidecar \<Rightarrow> begin_record \<Rightarrow> u64 \<Rightarrow> byte list \<Rightarrow> raw_sidecar_state option \<Rightarrow> disk \<Rightarrow> disk \<times> sidecar result" where
  "commit_apply ev target sc begin new_size d raw_state disk =
     (case and_then (set_len (ev_os ev) (unat new_size) d) (\<lambda>d.
           and_then (ev_sync ev d) (\<lambda>_. persist_replace ev d target True disk)) of
        Inl e \<Rightarrow> (disk, Inl e)
      | Inr disk1 \<Rightarrow>
          (case and_then (sha256_file ev target disk1) (\<lambda>sha.
                let sc' = sc\<lparr>sc_logical_size := new_size, sc_snapshot_guid := guid_string (bg_to_guid begin),
                             sc_sha256 := sha, sc_raw_state := raw_state\<rparr>
                in and_then (save_sidecar ev target sc' disk1) (\<lambda>disk2. Inr (disk2, sc'))) of
             Inl e \<Rightarrow> (disk1, Inl e)
           | Inr (disk2, sc') \<Rightarrow> (disk2, Inr sc')))"

text \<open>The temporary copy of the target, \<open>None\<close> when copying does not return.\<close>

definition copy_target :: "env \<Rightarrow> string \<Rightarrow> byte list \<Rightarrow> byte list result option" where
  "copy_target ev target d =
     (case ev_temporary ev target of Inl e \<Rightarrow> Some (Inl e) | Inr _ \<Rightarrow> sparse_copy (ev_os ev) d [])"

definition apply_raw_incremental ::
  "crypto \<Rightarrow> codecs \<Rightarrow> env \<Rightarrow> byte_source option \<Rightarrow> string \<Rightarrow> sidecar \<Rightarrow> byte list \<Rightarrow> byte list option \<Rightarrow> disk \<Rightarrow>
   (disk \<times> sidecar result) option" where
  "apply_raw_incremental k z ev stream target sc d key_material disk =
     (case raw_apply_start sc key_material of
        Inl e \<Rightarrow> Some (disk, Inl e)
      | Inr (material, rs, dnodes) \<Rightarrow>
          map_option (\<lambda>copied.
            case and_then copied (raw_apply_stream k (ev_os ev) z sc material rs dnodes stream) of
              Inl e \<Rightarrow> (disk, Inl e)
            | Inr (begin, new_size, d', rs') \<Rightarrow> commit_apply ev target sc begin new_size d' (Some rs') disk)
            (copy_target ev target d))"

definition apply_incremental_with_key ::
  "crypto \<Rightarrow> codecs \<Rightarrow> env \<Rightarrow> byte_source option \<Rightarrow> string \<Rightarrow> byte list option \<Rightarrow> disk \<Rightarrow> (disk \<times> sidecar result) option" where
  "apply_incremental_with_key k z ev stream target key_material disk =
     (case load_sidecar ev target disk of
        Inl e \<Rightarrow> Some (disk, Inl e)
      | Inr (sc, d) \<Rightarrow>
          (case apply_encryption_requirement stream of
             Inl e \<Rightarrow> Some (disk, Inl e)
           | Inr (Some _) \<Rightarrow> apply_raw_incremental k z ev stream target sc d key_material disk
           | Inr None \<Rightarrow>
               map_option (\<lambda>copied.
                 case and_then copied (apply_stream (ev_os ev) z sc stream) of
                   Inl e \<Rightarrow> (disk, Inl e)
                 | Inr (begin, new_size, d') \<Rightarrow> commit_apply ev target sc begin new_size d' None disk)
                 (copy_target ev target d)))"

section \<open>The stream is replayed over the target\<close>

text \<open>The headers of the substreams of a stream, and its records other than BEGIN and END.\<close>

fun substream_headers :: "replay_record list \<Rightarrow> begin_record list" where
  "substream_headers [] = []"
| "substream_headers (rec # recs) =
     (case kind rec of
        Begin header \<Rightarrow> if bg_header_type header = DMU_SUBSTREAM then header # substream_headers recs else substream_headers recs
      | _ \<Rightarrow> substream_headers recs)"

definition body_records :: "replay_record list \<Rightarrow> replay_record list" where
  "body_records recs = filter (\<lambda>rec. body_kind (kind rec)) recs"

lemma body_records_simps [simp]:
  "body_records [] = []"
  "body_records (rec # recs) = (if body_kind (kind rec) then rec # body_records recs else body_records recs)"
  by (simp_all add: body_records_def)

lemma apply_record_begin:
  assumes "apply_record os z sc rec st = Inr st'"
  shows "(ap_begin st' = ap_begin st \<and> substream_headers [rec] = []) \<or>
    (\<exists>b. ap_begin st = None \<and> ap_begin st' = Some b \<and> substream_headers [rec] = [b] \<and>
       parse_guid (sc_snapshot_guid sc) = Inr (bg_from_guid b))"
  using assms
  by (cases "kind rec")
    (auto simp: apply_record_def apply_begin_def apply_object_def result_simps split: if_splits option.splits)

lemma substream_headers_Cons: "substream_headers (rec # recs) = substream_headers [rec] @ substream_headers recs"
  by (simp split: record_kind.split)

lemma apply_fold_begin:
  assumes "try_fold (apply_record os z sc) st recs = Inr st'"
  shows "(ap_begin st' = ap_begin st \<and> substream_headers recs = []) \<or>
    (\<exists>b. ap_begin st = None \<and> ap_begin st' = Some b \<and> substream_headers recs = [b] \<and>
       parse_guid (sc_snapshot_guid sc) = Inr (bg_from_guid b))"
  using assms
proof (induction recs arbitrary: st)
  case Nil
  then show ?case by simp
next
  case (Cons rec recs)
  then obtain st1 where s: "apply_record os z sc rec st = Inr st1" and r: "try_fold (apply_record os z sc) st1 recs = Inr st'"
    by (auto simp: result_simps)
  show ?case unfolding substream_headers_Cons [of rec recs]
    using apply_record_begin [OF s] Cons.IH [OF r] by fastforce
qed

context posix_files
begin

lemma extent_steps:
  "zero_range os off len d = Inr d' \<Longrightarrow> list_view d' = erase (list_view d) (unat off) len"
  "sparse_write_extent os off pay d = Inr d' \<Longrightarrow> list_view d' = overlay (list_view d) (unat off) pay"
  "replace_file_extent os off len pay d = Inr d' \<Longrightarrow>
    list_view d' = overlay (list_view d) (unat off) (pay @ replicate (unat len - length pay) 0)"
  using out_file.free_view [where s = d] out_file.put_view [where s = d and p = "Plain pay"]
    out_file.put_view [where s = d and p = "Embedded len pay"] by simp_all

lemma apply_record_step:
  assumes "apply_record os z sc rec st = Inr st'" and "\<not> ap_deleted st'"
  shows "\<not> ap_deleted st" and
    "body_kind (kind rec) \<Longrightarrow> replay_step z (sc_object_id sc) rec (True, list_view (ap_file st)) = Inr (True, list_view (ap_file st'))" and
    "\<not> body_kind (kind rec) \<Longrightarrow> ap_file st' = ap_file st"
proof -
  note defs = apply_record_def apply_begin_def apply_object_def object_ops_def body_kind_def result_simps
  show "\<not> ap_deleted st"
    using assms by (cases "kind rec") (auto simp: defs split: if_splits option.splits)
  show "replay_step z (sc_object_id sc) rec (True, list_view (ap_file st)) = Inr (True, list_view (ap_file st'))"
    if "body_kind (kind rec)"
    using assms that
    by (cases "kind rec") (auto simp: defs split: if_splits option.splits dest!: extent_steps)
  show "ap_file st' = ap_file st" if "\<not> body_kind (kind rec)"
    using assms that by (cases "kind rec") (auto simp: defs split: if_splits)
qed

lemma apply_fold_step:
  assumes "try_fold (apply_record os z sc) st recs = Inr st'" and "\<not> ap_deleted st'"
  shows "\<not> ap_deleted st \<and>
    try_fold (replay_step z (sc_object_id sc)) (True, list_view (ap_file st)) (body_records recs) = Inr (True, list_view (ap_file st'))"
  using assms
proof (induction recs arbitrary: st)
  case Nil
  then show ?case by simp
next
  case (Cons rec recs)
  then obtain st1 where s: "apply_record os z sc rec st = Inr st1" and r: "try_fold (apply_record os z sc) st1 recs = Inr st'"
    by (auto simp: result_simps)
  note IH = Cons.IH [OF r Cons.prems(2)]
  show ?case using apply_record_step [OF s] IH by (cases "body_kind (kind rec)") auto
qed

lemma apply_stream_Inr:
  assumes "apply_stream os z sc stream d = Inr (b, new_size, d')"
  obtains src recs r' where "stream = Some src" and "reads (new_reader src) recs r'" and "saw_end r'"
    and "substream_headers recs = [b]" and "parse_guid (sc_snapshot_guid sc) = Inr (bg_from_guid b)"
    and "try_fold (replay_step z (sc_object_id sc)) (True, list_view d) (body_records recs) = Inr (True, list_view d')"
proof -
  from assms obtain src st r' where src: "stream = Some src" and e: "saw_end r'" "\<not> ap_deleted st" "ap_begin st = Some b" "ap_file st = d'"
    and l: "stream_loop (apply_record os z sc) (new_reader src)
      \<lparr>ap_begin = None, ap_new_size = sc_logical_size sc, ap_changed = False, ap_deleted = False, ap_file = d\<rparr> = Inr (st, r')"
    by (auto simp: apply_stream_def open_stream_def result_simps split: if_splits)
  from l obtain recs where recs: "reads (new_reader src) recs r'"
    and f: "try_fold (apply_record os z sc) \<lparr>ap_begin = None, ap_new_size = sc_logical_size sc, ap_changed = False,
      ap_deleted = False, ap_file = d\<rparr> recs = Inr st"
    by (auto simp: stream_loop_reads)
  show thesis
    using that [OF src recs e(1)] apply_fold_begin [OF f] apply_fold_step [OF f e(2)] e(3,4) by auto
qed

end

lemma commit_apply_Inr:
  assumes "posix_files (ev_os ev)" and "commit_apply ev target sc b new_size d rs disk = (disk', Inr sc')"
  shows "disk' target = Some (clip (list_view d) (unat new_size))"
    and "sc_sha256 sc' = ev_sha256 ev (clip (list_view d) (unat new_size))"
    and "sc_logical_size sc' = new_size" and "sc_snapshot_guid sc' = guid_string (bg_to_guid b)" and "sc_object_id sc' = sc_object_id sc"
    and "p \<noteq> target \<Longrightarrow> p \<noteq> sidecar_path target \<Longrightarrow> disk' p = disk p"
proof -
  from assms(2) obtain d1 disk1 where l: "set_len (ev_os ev) (unat new_size) d = Inr d1"
    and p: "persist_replace ev d1 target True disk = Inr disk1"
    and s: "save_sidecar ev target sc' disk1 = Inr disk'"
    and sc': "sc' = sc\<lparr>sc_logical_size := new_size, sc_snapshot_guid := guid_string (bg_to_guid b),
       sc_sha256 := ev_sha256 ev (the (disk1 target)), sc_raw_state := rs\<rparr>"
    by (auto simp: commit_apply_def sha256_file_def Let_def result_simps split: sum.splits)
  have d1: "d1 = clip (list_view d) (unat new_size)"
    using l posix_files.set_len_ok [OF assms(1)] by (auto simp: set_len_def result_simps resize_is_clip)
  have disk1: "disk1 = disk(target \<mapsto> d1)" by (rule persist_replace_Inr [OF p])
  show "disk' target = Some (clip (list_view d) (unat new_size))"
    using save_sidecar_Inr [OF s, of target] disk1 d1 by simp
  show "p \<noteq> target \<Longrightarrow> p \<noteq> sidecar_path target \<Longrightarrow> disk' p = disk p"
    using save_sidecar_Inr [OF s, of p] disk1 by auto
  show "sc_sha256 sc' = ev_sha256 ev (clip (list_view d) (unat new_size))" using sc' disk1 d1 by simp
  show "sc_logical_size sc' = new_size" "sc_snapshot_guid sc' = guid_string (bg_to_guid b)" "sc_object_id sc' = sc_object_id sc"
    using sc' by simp_all
qed

lemma load_sidecar_Inr:
  "load_sidecar ev target disk = Inr (sc, d) \<Longrightarrow>
    disk target = Some d \<and> sc_sha256 sc = ev_sha256 ev d \<and> length d = unat (sc_logical_size sc) \<and>
    (\<exists>json. disk (sidecar_path target) = Some json \<and> ev_from_json ev json = Inr sc)"
  by (auto simp: load_sidecar_def sha256_file_def result_simps split: if_splits)

lemma copy_target_exact:
  assumes "posix_files (ev_os ev)" and "length d < 2 ^ 63"
  shows "\<exists>r. copy_target ev target d = Some r \<and> (\<forall>d'. r = Inr d' \<longrightarrow> d' = d)"
  using posix_files.copy_exact [OF assms] by (cases "ev_temporary ev target") (auto simp: copy_target_def)

lemma apply_plain_Inr:
  assumes os: "posix_files (ev_os ev)" and load: "load_sidecar ev target disk = Inr (sc, d)" and "length d < 2 ^ 63"
    and plain: "apply_encryption_requirement stream = Inr None"
    and app: "apply_incremental_with_key k z ev stream target key_material disk = Some (disk', Inr sc')"
  obtains src recs r' b c where "stream = Some src" and "reads (new_reader src) recs r'" and "saw_end r'"
    and "substream_headers recs = [b]" and "parse_guid (sc_snapshot_guid sc) = Inr (bg_from_guid b)"
    and "try_fold (replay_step z (sc_object_id sc)) (True, list_view d) (body_records recs) = Inr (True, c)"
    and "disk' target = Some (clip c (unat (sc_logical_size sc')))"
    and "sc_sha256 sc' = ev_sha256 ev (clip c (unat (sc_logical_size sc')))"
    and "sc_snapshot_guid sc' = guid_string (bg_to_guid b)"
    and "\<And>p. p \<noteq> target \<Longrightarrow> p \<noteq> sidecar_path target \<Longrightarrow> disk' p = disk p"
proof -
  obtain r where r: "copy_target ev target d = Some r" and c: "\<And>d'. r = Inr d' \<Longrightarrow> d' = d"
    using copy_target_exact [OF os assms(3)] by blast
  with app load plain obtain b new_size d1 where a: "apply_stream (ev_os ev) z sc stream d = Inr (b, new_size, d1)"
    and m: "commit_apply ev target sc b new_size d1 None disk = (disk', Inr sc')"
    by (cases r) (auto simp: apply_incremental_with_key_def split: sum.splits)
  note cm = commit_apply_Inr [OF os m]
  show thesis
  proof (rule posix_files.apply_stream_Inr [OF os a])
    fix src recs r'
    assume "stream = Some src" "reads (new_reader src) recs r'" "saw_end r'" "substream_headers recs = [b]"
      "parse_guid (sc_snapshot_guid sc) = Inr (bg_from_guid b)"
      "try_fold (replay_step z (sc_object_id sc)) (True, list_view d) (body_records recs) = Inr (True, list_view d1)"
    then show thesis using cm by (intro that [of src recs r' b "list_view d1"]) auto
  qed
qed

lemma demo_block_bytes_length: "length demo_block_bytes = 8"
  by (simp add: demo_block_bytes_def)

lemma demo_replay_contents:
  assumes "reads (new_reader (demo_source t)) recs r"
  shows "replay_contents plain_codecs 1 (active_records (bs_of_list [17]) None recs) = Inr (True, list_view demo_block_bytes)"
proof -
  obtain recs' r' where r: "reads (new_reader (demo_source t)) recs' r'" and m: "map (\<lambda>rec. (kind rec, payload rec)) recs' = demo_chain t"
    by (rule demo_chain_reads)
  have "recs' = recs" using reads_deterministic [OF assms r] by simp
  moreover have "overlay no_contents 0 demo_block_bytes = list_view demo_block_bytes"
    by (auto simp: overlay_def no_contents_def list_view_def)
  ultimately show ?thesis
    using m by (auto simp: demo_chain_def map_eq_Cons_conv activate_def demo_begin_def DMU_SUBSTREAM_def replay_contents_def
        object_ops_def demo_object_def demo_write_def decode_replay_write_def demo_block_bytes_length)
qed

lemma demo_stream_loop:
  assumes "\<And>a b c d. kind a = Begin demo_begin \<Longrightarrow> payload a = [] \<Longrightarrow> kind b = Object (demo_object t) \<Longrightarrow> payload b = [] \<Longrightarrow>
      kind c = Write (demo_write t) \<Longrightarrow> payload c = demo_block_bytes \<Longrightarrow> kind d = End \<Longrightarrow> try_fold f st [a, b, c, d] = Inr st'"
  shows "\<exists>r'. stream_loop f (new_reader (demo_source t)) st = Inr (st', r') \<and> saw_end r'"
proof -
  obtain recs r' where r: "reads (new_reader (demo_source t)) recs r'" and e: "saw_end r'"
    and m: "map (\<lambda>rec. (kind rec, payload rec)) recs = demo_chain t"
    by (rule demo_chain_reads)
  then have "try_fold f st recs = Inr st'"
    using assms by (auto simp: demo_chain_def map_eq_Cons_conv)
  with r e show ?thesis by (auto simp: stream_loop_reads)
qed

section \<open>Raw streams do not panic\<close>

lemma no_panic_write_zeros: "no_panic (write_zeros_loop os pos n d)"
  by (induction os pos n d rule: write_zeros_loop.induct)
    (subst write_zeros_loop.simps, auto simp: Let_def write_all_def panic_simps)

lemma no_panic_zero_range [panic_simps]: "no_panic (zero_range os off len d)"
  by (auto simp: zero_range_def set_len_def punch_hole_def write_zeros_def no_panic_write_zeros panic_simps Let_def split: sum.split)

lemma no_panic_sparse_write [panic_simps]: "no_panic (sparse_write_extent os off bs d)"
proof -
  have "no_panic (write_chunks os pos cs d)" for pos cs
    by (induction cs arbitrary: pos d) (auto simp: write_all_def panic_simps)
  then show ?thesis by (simp add: sparse_write_extent_def)
qed

lemma no_panic_read_stored_size [panic_simps]: "no_panic (read_stored_size bs off src)"
  by (auto simp: read_stored_size_def panic_simps)

lemma no_panic_parse_guid [panic_simps]: "no_panic (parse_guid v)"
  by (simp add: parse_guid_def panic_simps)

lemma no_panic_finish_range: "crypto_lengths k \<Longrightarrow> no_panic (finish_raw_apply_range k key rng dnodes sc spill)"
  by (auto simp: finish_raw_apply_range_def Let_def panic_simps no_panic_decrypt_dnode_bonuses split: option.splits)

lemma no_panic_raw_finish: "crypto_lengths k \<Longrightarrow> no_panic (raw_apply_finish k key sc st)"
  using no_panic_finish_range by (auto simp: raw_apply_finish_def panic_simps split: option.splits)

lemma raw_apply_finish_range: "raw_apply_finish k key sc st = Inr st' \<Longrightarrow> ra_range st' = None \<and> ra_key st' = ra_key st"
  by (auto simp: raw_apply_finish_def result_simps split: option.splits)

text \<open>The key is there as long as a range is open, whatever the records are.\<close>

definition raw_apply_inv :: "raw_apply_state \<Rightarrow> bool" where
  "raw_apply_inv st \<longleftrightarrow> (ra_range st \<noteq> None \<longrightarrow> ra_key st \<noteq> None)"

lemma no_panic_free_apply [panic_simps]: "no_panic (free_raw_apply_blocks off len d)"
  by (auto simp: free_raw_apply_blocks_def panic_simps)

lemma raw_apply_parts_no_panic [panic_simps]:
  "no_panic (raw_apply_begin k sc rs m header pay st)" "no_panic (raw_apply_write k os z sc key w pay st)"
  "no_panic (raw_apply_free os sc fr st)" "no_panic (raw_apply_spill k z sc key sp pay st)"
  by (auto simp: raw_apply_begin_def raw_apply_write_def raw_apply_free_def raw_apply_spill_def Let_def panic_simps)

lemma raw_apply_parts_inv:
  "raw_apply_begin k sc rs m header pay st = Inr st' \<Longrightarrow> raw_apply_inv st \<Longrightarrow> raw_apply_inv st'"
  "raw_apply_write k os z sc key w pay st = Inr st' \<Longrightarrow> raw_apply_inv st \<Longrightarrow> raw_apply_inv st'"
  "raw_apply_free os sc fr st = Inr st' \<Longrightarrow> raw_apply_inv st \<Longrightarrow> raw_apply_inv st'"
  "raw_apply_spill k z sc key sp pay st = Inr st' \<Longrightarrow> raw_apply_inv st \<Longrightarrow> raw_apply_inv st'"
  "raw_apply_inv st \<Longrightarrow> raw_apply_inv (raw_apply_object sc ob pay st)"
  by (auto simp: raw_apply_begin_def raw_apply_write_def raw_apply_free_def raw_apply_spill_def raw_apply_object_def
      raw_apply_inv_def Let_def result_simps split: if_splits)

lemma raw_apply_record_ok:
  assumes k: "crypto_lengths k" and inv: "raw_apply_inv st"
  shows "no_panic (raw_apply_record k os z sc rs m rec st)"
    and "raw_apply_record k os z sc rs m rec st = Inr st' \<Longrightarrow> raw_apply_inv st'"
proof -
  note fin = no_panic_raw_finish [OF k]
  show "no_panic (raw_apply_record k os z sc rs m rec st)"
    using inv by (cases "kind rec") (auto simp: raw_apply_record_def raw_apply_inv_def panic_simps fin split: option.splits)
  show "raw_apply_inv st'" if "raw_apply_record k os z sc rs m rec st = Inr st'"
  proof (cases "kind rec")
    case (Begin x1)
    then show ?thesis using that inv raw_apply_parts_inv(1) by (auto simp: raw_apply_record_def)
  qed (use that inv raw_apply_parts_inv in
      \<open>auto simp: raw_apply_record_def result_simps dest!: raw_apply_finish_range split: if_splits,
       auto simp: raw_apply_inv_def\<close>)
qed

lemma no_panic_raw_apply_stream:
  assumes k: "crypto_lengths k"
  shows "no_panic (raw_apply_stream k os z sc m rs dnodes stream d)"
proof -
  have "no_panic (stream_loop (raw_apply_record k os z sc rs m) r st)" if "raw_apply_inv st" for r st
    using that raw_apply_record_ok [OF k] by (intro no_panic_stream_loop [where P = raw_apply_inv])
  then show ?thesis by (auto simp: raw_apply_stream_def open_stream_def raw_apply_inv_def panic_simps)
qed

section \<open>Properties\<close>

text \<open>C2: applying an incremental stream continues the replay. When a plain stream is applied to a
  target, the target and its sidecar agreed, the stream was read to its end and has exactly one
  substream, which starts at the sidecar's snapshot; the new target is the contents that the
  stream's records give when replayed over the old target, at the size recorded in the new
  sidecar, which names the substream's snapshot and the digest of the new bytes. No other file
  changes.\<close>

theorem incremental_apply_continues_the_replay:
  assumes "posix_files (ev_os ev)" and "disk target = Some d" and "length d < 2 ^ 63"
    and "apply_encryption_requirement stream = Inr None"
    and "apply_incremental_with_key k z ev stream target key_material disk = Some (disk', Inr sc')"
  shows "\<exists>sc src recs r' b c. load_sidecar ev target disk = Inr (sc, d) \<and>
    stream = Some src \<and> reads (new_reader src) recs r' \<and> saw_end r' \<and>
    substream_headers recs = [b] \<and> parse_guid (sc_snapshot_guid sc) = Inr (bg_from_guid b) \<and>
    try_fold (replay_step z (sc_object_id sc)) (True, list_view d) (body_records recs) = Inr (True, c) \<and>
    disk' target = Some (clip c (unat (sc_logical_size sc'))) \<and>
    sc_sha256 sc' = ev_sha256 ev (clip c (unat (sc_logical_size sc'))) \<and>
    sc_snapshot_guid sc' = guid_string (bg_to_guid b) \<and>
    (\<forall>p. p \<noteq> target \<longrightarrow> p \<noteq> sidecar_path target \<longrightarrow> disk' p = disk p)"
proof -
  obtain sc where load: "load_sidecar ev target disk = Inr (sc, d)"
    using assms(2,5) by (cases "load_sidecar ev target disk")
      (auto simp: apply_incremental_with_key_def dest: load_sidecar_Inr)
  show ?thesis
    by (rule apply_plain_Inr [OF assms(1) load assms(3,4,5)])
      (intro exI conjI, rule load, assumption+, blast)
qed

text \<open>C3: extracting a snapshot and applying an increment is the same as replaying both. When an
  object is extracted with its sidecar, the sidecar survives its JSON encoding, and a plain
  stream is then applied to the untouched output, the increment starts at the snapshot that was
  extracted and the result is the contents of replaying the chain's records followed by the
  increment's, provided the object existed in the chain and its contents beyond its size were
  zeros.\<close>

theorem extract_then_apply_is_one_replay:
  assumes "posix_files (ev_os ev)" and "bg_features (plan_target plan) AND FEATURE_RAW = 0"
    and "extract_resolved_snapshot k z ev stream1 plan ix resolved out force key_material True disk = (disk1, Inr sc1)"
    and "load_sidecar ev out disk1 = Inr (sc1, d1)" and "length d1 < 2 ^ 63"
    and "apply_encryption_requirement stream2 = Inr None"
    and "apply_incremental_with_key k z ev stream2 out key_material disk1 = Some (disk2, Inr sc2)"
  shows "\<exists>src1 recs1 r1 src2 recs2 r2 b e c1. stream1 = Some src1 \<and> reads (new_reader src1) recs1 r1 \<and>
    stream2 = Some src2 \<and> reads (new_reader src2) recs2 r2 \<and> substream_headers recs2 = [b] \<and>
    bg_from_guid b = bg_to_guid (ix_begin ix) \<and>
    replay_contents z (rp_object_id resolved) (active_records (bs_of_list (plan_chain plan)) None recs1) = Inr (e, c1) \<and>
    (e \<longrightarrow> (\<forall>i \<ge> unat (rp_logical_size resolved). c1 i = 0) \<longrightarrow>
      (\<exists>c2. replay_contents z (rp_object_id resolved)
          (active_records (bs_of_list (plan_chain plan)) None recs1 @ body_records recs2) = Inr (True, c2) \<and>
        disk2 out = Some (clip c2 (unat (sc_logical_size sc2)))))"
proof -
  from assms(3) obtain d disk0 where f: "extract_file k z ev stream1 plan resolved out key_material = Inr d"
    and p: "persist_replace ev d out force disk = Inr disk0"
    and fin: "finish_extraction ev ix resolved out True disk0 = (disk1, Inr sc1)"
    by (auto simp: extract_resolved_snapshot_def result_simps split: if_splits sum.splits)
  have d0: "disk0 = disk(out \<mapsto> d)" by (rule persist_replace_Inr [OF p])
  have ids: "sc_object_id sc1 = rp_object_id resolved" "sc_snapshot_guid sc1 = guid_string (bg_to_guid (ix_begin ix))"
    using finish_extraction_disk(2) [OF fin refl, of d] d0 by simp_all
  have "disk1 out = Some d" using finish_extraction_disk(1) [OF fin, of out] d0 by auto
  then have d1: "d1 = d" using load_sidecar_Inr [OF assms(4)] by simp
  from extract_file_contents [OF assms(1,2) f] obtain src1 recs1 r1 e c1 where
      x: "stream1 = Some src1" "reads (new_reader src1) recs1 r1"
        "replay_contents z (rp_object_id resolved) (active_records (bs_of_list (plan_chain plan)) None recs1) = Inr (e, c1)"
    and d: "d = clip c1 (unat (rp_logical_size resolved))" by blast
  show ?thesis
  proof (rule apply_plain_Inr [OF assms(1,4,5,6,7)])
    fix src2 recs2 r2 b c
    assume y: "stream2 = Some src2" "reads (new_reader src2) recs2 r2" "substream_headers recs2 = [b]"
      "parse_guid (sc_snapshot_guid sc1) = Inr (bg_from_guid b)"
      "try_fold (replay_step z (sc_object_id sc1)) (True, list_view d1) (body_records recs2) = Inr (True, c)"
      "disk2 out = Some (clip c (unat (sc_logical_size sc2)))"
    have g: "bg_from_guid b = bg_to_guid (ix_begin ix)" using y(4) ids by (simp add: guid_string_round_trip)
    have "replay_contents z (rp_object_id resolved)
          (active_records (bs_of_list (plan_chain plan)) None recs1 @ body_records recs2) = Inr (True, c)"
      if e and "\<forall>i \<ge> unat (rp_logical_size resolved). c1 i = 0"
    proof -
      have "list_view d1 = c1" using that(2) by (auto simp: d1 d list_view_clip fun_eq_iff not_less)
      then show ?thesis using x(3) y(5) that(1) ids by (simp add: replay_contents_def try_fold_append)
    qed
    with x y g show ?thesis by (intro exI conjI) auto
  qed
qed

text \<open>A target of eight bytes at snapshot 0, and the demonstration stream as an increment to it.\<close>

definition demo_sidecar :: sidecar where
  "demo_sidecar = \<lparr>sc_format_version = 1, sc_path = ''/f'', sc_object_id = 1, sc_object_type = 19, sc_bonus_type = 44,
     sc_logical_size = 8, sc_size_bonus_offset = None, sc_size_spill_offset = None,
     sc_snapshot_guid = guid_string 0, sc_sha256 = ''sha'', sc_raw_state = None\<rparr>"

definition apply_env :: env where
  "apply_env = demo_env\<lparr>ev_from_json := (\<lambda>_. Inr demo_sidecar)\<rparr>"

lemma apply_env_simps [simp]:
  "ev_os apply_env = ideal_os" "ev_sha256 apply_env d = ''sha''" "ev_from_json apply_env j = Inr demo_sidecar"
  "ev_to_json apply_env sc = [123, 125]" "ev_temporary apply_env p = Inr ()" "ev_sync apply_env d = Inr ()" "ev_persist apply_env p = Inr ()"
  by (simp_all add: apply_env_def demo_env_def)

lemma demo_requirement: "apply_encryption_requirement (Some (demo_source 19)) = Inr None"
proof -
  have "\<exists>r'. stream_loop apply_requirement_record (new_reader (demo_source 19)) (None, 0) = Inr ((None, 1), r') \<and> saw_end r'"
    by (rule demo_stream_loop) (simp add: apply_requirement_record_def demo_begin_def FEATURE_RAW_def)
  then show ?thesis by (auto simp: apply_encryption_requirement_def open_stream_def)
qed

lemma demo_apply_stream:
  assumes "length d \<le> 8"
  shows "apply_stream ideal_os plain_codecs demo_sidecar (Some (demo_source 19)) d = Inr (demo_begin, 8, demo_block_bytes)"
proof -
  note l = demo_block_bytes_length
  have "sparse_write_extent ideal_os 0 demo_block_bytes d = Inr (blit 0 demo_block_bytes (resize 8 0 d))"
    using assms by (simp add: sparse_write_extent_def chunks.simps CHUNK_SIZE_def write_all_def ideal_os_def
        checked_add_def l max_def) (simp add: demo_block_bytes_def)
  also have "blit 0 demo_block_bytes (resize 8 0 d) = demo_block_bytes"
    by (rule nth_equalityI) (auto simp: slice_simps l)
  finally have w: "sparse_write_extent ideal_os 0 demo_block_bytes d = Inr demo_block_bytes" .
  have "\<exists>r'. stream_loop (apply_record ideal_os plain_codecs demo_sidecar) (new_reader (demo_source 19))
      \<lparr>ap_begin = None, ap_new_size = 8, ap_changed = False, ap_deleted = False, ap_file = d\<rparr> =
      Inr (\<lparr>ap_begin = Some demo_begin, ap_new_size = 8, ap_changed = True, ap_deleted = False, ap_file = demo_block_bytes\<rparr>, r') \<and> saw_end r'"
    by (rule demo_stream_loop)
      (simp add: apply_record_def apply_begin_def apply_object_def demo_sidecar_def guid_string_round_trip demo_object_def
        demo_write_def decode_replay_write_def l w, simp add: demo_begin_def)
  then show ?thesis by (auto simp: apply_stream_def open_stream_def demo_sidecar_def)
qed

definition demo_disk :: disk where
  "demo_disk = [''f'' \<mapsto> demo_block_bytes, sidecar_path ''f'' \<mapsto> [123, 125, 10]]"

lemma demo_load: "load_sidecar apply_env ''f'' demo_disk = Inr (demo_sidecar, demo_block_bytes)"
  by (simp add: load_sidecar_def demo_disk_def sidecar_path_def demo_sidecar_def SIDECAR_VERSION_def sha256_file_def demo_block_bytes_def)

lemma demo_apply:
  "\<exists>disk' sc'. apply_incremental_with_key null_crypto plain_codecs apply_env (Some (demo_source 19)) ''f'' None demo_disk = Some (disk', Inr sc')"
proof -
  have "copy_target apply_env ''f'' demo_block_bytes = Some (Inr demo_block_bytes)"
    using ideal.copy_succeeds [of demo_block_bytes] by (simp add: copy_target_def demo_block_bytes_def)
  moreover have "\<exists>disk' sc'. commit_apply apply_env ''f'' demo_sidecar demo_begin 8 demo_block_bytes None demo_disk = (disk', Inr sc')"
    by (simp add: commit_apply_def persist_replace_def sha256_file_def save_sidecar_def write_all_def set_len_def ideal_os_def Let_def)
  ultimately show ?thesis
    by (simp add: apply_incremental_with_key_def demo_load demo_requirement demo_apply_stream demo_block_bytes_length)
qed

theorem incremental_apply_continues_the_replay_witness:
  "\<exists>disk' sc' c b. apply_incremental_with_key null_crypto plain_codecs apply_env (Some (demo_source 19)) ''f'' None demo_disk = Some (disk', Inr sc') \<and>
     disk' ''f'' = Some (clip c (unat (sc_logical_size sc'))) \<and> sc_snapshot_guid sc' = guid_string (bg_to_guid (b :: begin_record))"
proof -
  obtain disk' sc' where a: "apply_incremental_with_key null_crypto plain_codecs apply_env (Some (demo_source 19)) ''f'' None demo_disk = Some (disk', Inr sc')"
    using demo_apply by blast
  have "posix_files (ev_os apply_env)" "demo_disk ''f'' = Some demo_block_bytes" "length demo_block_bytes < 2 ^ 63"
    by (simp_all add: ideal.posix_files_axioms demo_disk_def sidecar_path_def demo_block_bytes_length)
  from incremental_apply_continues_the_replay [OF this demo_requirement a] obtain c and b :: begin_record where
    "disk' ''f'' = Some (clip c (unat (sc_logical_size sc')))" "sc_snapshot_guid sc' = guid_string (bg_to_guid b)"
    by (elim exE conjE) (rule that, assumption+)
  with a show ?thesis by blast
qed

definition demo_base :: object_index where
  "demo_base = demo_fs\<lparr>ix_begin := demo_begin\<lparr>bg_to_guid := 0\<rparr>\<rparr>"

lemma demo_extract_base:
  "extract_resolved_snapshot null_crypto plain_codecs apply_env (Some (demo_source 19)) demo_plan demo_base (demo_resolved 8) ''f''
     False None True Map.empty = (demo_disk, Inr demo_sidecar)"
proof -
  have "extract_file null_crypto plain_codecs apply_env (Some (demo_source 19)) demo_plan (demo_resolved 8) ''f'' None =
      Inr demo_block_bytes"
    using demo_extract_file [of 8] by (simp add: extract_file_def apply_env_def resize_def demo_block_bytes_length)
  moreover have "save_sidecar apply_env ''f'' demo_sidecar [''f'' \<mapsto> demo_block_bytes] = Inr demo_disk"
    by (simp add: save_sidecar_def persist_replace_def write_all_def ideal_os_def blit_def resize_def demo_disk_def)
  moreover have "\<lparr>sc_format_version = SIDECAR_VERSION, sc_path = rp_normalized_path (demo_resolved 8),
      sc_object_id = rp_object_id (demo_resolved 8), sc_object_type = rp_object_type (demo_resolved 8),
      sc_bonus_type = rp_bonus_type (demo_resolved 8), sc_logical_size = rp_logical_size (demo_resolved 8),
      sc_size_bonus_offset = rp_size_bonus_offset (demo_resolved 8), sc_size_spill_offset = rp_size_spill_offset (demo_resolved 8),
      sc_snapshot_guid = guid_string (bg_to_guid (ix_begin demo_base)), sc_sha256 = ''sha'', sc_raw_state = None\<rparr> = demo_sidecar"
    by (simp add: demo_sidecar_def demo_resolved_def demo_base_def SIDECAR_VERSION_def)
  moreover have "rp_dirent_type (demo_resolved 8) = 8" "raw_sidecar_state_of demo_base n = Inr None" for n
    by (simp_all add: demo_resolved_def raw_sidecar_state_of_def demo_base_def demo_fs_def)
  ultimately show ?thesis
    by (simp add: extract_resolved_snapshot_def persist_replace_def finish_extraction_def sha256_file_def)
qed

theorem extract_then_apply_is_one_replay_witness:
  "\<exists>disk2 sc2 recs2 c2. apply_incremental_with_key null_crypto plain_codecs apply_env (Some (demo_source 19)) ''f'' None demo_disk = Some (disk2, Inr sc2) \<and>
     try_fold (replay_step plain_codecs 1) (True, list_view demo_block_bytes) (body_records recs2) = Inr (True, c2) \<and>
     disk2 ''f'' = Some (clip c2 (unat (sc_logical_size sc2)))"
proof -
  obtain disk2 sc2 where a: "apply_incremental_with_key null_crypto plain_codecs apply_env (Some (demo_source 19)) ''f'' None demo_disk = Some (disk2, Inr sc2)"
    using demo_apply by blast
  have "posix_files (ev_os apply_env)" "bg_features (plan_target demo_plan) AND FEATURE_RAW = 0" "length demo_block_bytes < 2 ^ 63"
    by (simp_all add: ideal.posix_files_axioms demo_plan_def demo_begin_def FEATURE_RAW_def demo_block_bytes_length)
  from extract_then_apply_is_one_replay [OF this(1,2) demo_extract_base demo_load this(3) demo_requirement a]
  obtain recs1 r1 recs2 e c1 where r1: "reads (new_reader (demo_source 19)) recs1 r1"
    and c1: "replay_contents plain_codecs 1 (active_records (bs_of_list [17]) None recs1) = Inr (e, c1)"
    and res: "e \<longrightarrow> (\<forall>i \<ge> unat (8 :: u64). c1 i = 0) \<longrightarrow> (\<exists>c2. replay_contents plain_codecs 1
          (active_records (bs_of_list [17]) None recs1 @ body_records recs2) = Inr (True, c2) \<and>
        disk2 ''f'' = Some (clip c2 (unat (sc_logical_size sc2))))"
    unfolding option.inject demo_resolved_def demo_plan_def resolved_path.simps snapshot_plan.simps
    by (elim exE conjE, hypsubst) (rule that, assumption+)
  have "e \<and> c1 = list_view demo_block_bytes" using c1 demo_replay_contents [OF r1] by simp
  with res c1 obtain c2 where "try_fold (replay_step plain_codecs 1) (True, list_view demo_block_bytes) (body_records recs2) = Inr (True, c2)"
    "disk2 ''f'' = Some (clip c2 (unat (sc_logical_size sc2)))"
    by (auto simp: replay_contents_def try_fold_append list_view_def demo_block_bytes_length)
  with a show ?thesis by blast
qed

end
