(* ===== verification/Segment_Map.thy ===== *)
theory Segment_Map
  imports BTree Extents
begin

text \<open>
  The extent map of a nested image (\<open>SegmentMap\<close> of src/inception.rs): disjoint segments, each the
  range of a block of the send file, keyed by their start. The blocks are a type variable here;
  \<open>dec\<close> gives a block's decoded bytes. The map is an extent store (interpretation \<open>seg\<close>).
\<close>

section \<open>Model\<close>

record 'b segment =
  sg_end :: u64
  sg_block :: 'b
  sg_block_offset :: u64

type_synonym 'b segment_map = "(u64, 'b segment) btree"

text \<open>\<open>range(..=start).next_back()\<close>\<close>

definition bt_last_le :: "'k::linorder \<Rightarrow> ('k, 'v) btree \<Rightarrow> ('k \<times> 'v) option" where
  "bt_last_le start m =
     (let es = filter (\<lambda>(k, v). k \<le> start) m in if es = [] then None else Some (last es))"

definition overlapping_keys :: "u64 \<Rightarrow> u64 \<Rightarrow> 'b segment_map \<Rightarrow> u64 list" where
  "overlapping_keys start end m =
     (let keys = bt_keys (bt_range start end m) in
      case bt_last_le start m of
        None \<Rightarrow> keys
      | Some (key, g) \<Rightarrow> if sg_end g > start \<and> key \<notin> set keys then keys @ [key] else keys)"

definition kept_pieces :: "u64 \<Rightarrow> u64 \<Rightarrow> u64 \<Rightarrow> 'b segment \<Rightarrow> (u64 \<times> 'b segment) list" where
  "kept_pieces start end key g =
     (if key < start then [(key, g\<lparr>sg_end := start\<rparr>)] else []) @
     (if sg_end g > end then [(end, g\<lparr>sg_block_offset := sg_block_offset g + (end - key)\<rparr>)] else [])"

definition cut_segment :: "u64 \<Rightarrow> u64 \<Rightarrow> u64 \<Rightarrow> 'b segment_map \<times> (u64 \<times> 'b segment) list \<Rightarrow> 'b segment_map \<times> (u64 \<times> 'b segment) list" where
  "cut_segment start end key = (\<lambda>(m, preserved).
     (case bt_get m key of
        None \<Rightarrow> (m, preserved)
      | Some g \<Rightarrow> (bt_remove key m, preserved @ kept_pieces start end key g)))"

definition cut_range :: "u64 \<Rightarrow> u64 \<Rightarrow> 'b segment_map \<Rightarrow> 'b segment_map" where
  "cut_range start end m =
     (let (m', preserved) = fold (cut_segment start end) (overlapping_keys start end m) (m, [])
      in fold (\<lambda>(k, g). bt_insert k g) preserved m')"

definition seg_remove :: "u64 \<Rightarrow> u64 \<Rightarrow> 'b segment_map \<Rightarrow> 'b segment_map result" where
  "seg_remove start len m =
     and_then (if len = u64_max then Inr u64_max
               else ok_or (checked_add start len) (Bail ''nested FREE range overflows'')) (\<lambda>end.
     if start = end then Inr m else Inr (cut_range start end m))"

definition seg_insert :: "u64 \<Rightarrow> u64 \<Rightarrow> 'b \<Rightarrow> 'b segment_map \<Rightarrow> 'b segment_map result" where
  "seg_insert start len block m =
     (if len = 0 then Inr m
      else and_then (seg_remove start len m) (\<lambda>m.
        and_then (ok_or (checked_add start len) (Bail ''nested WRITE range overflows'')) (\<lambda>end.
        Inr (bt_insert start \<lparr>sg_end = end, sg_block = block, sg_block_offset = 0\<rparr> m))))"

section \<open>Invariant and view\<close>

definition covers :: "nat \<Rightarrow> u64 \<times> 'b segment \<Rightarrow> bool" where
  "covers i = (\<lambda>(k, g). unat k \<le> i \<and> i < unat (sg_end g))"

definition segment_byte :: "('b \<Rightarrow> byte list) \<Rightarrow> nat \<Rightarrow> u64 \<times> 'b segment \<Rightarrow> byte" where
  "segment_byte dec i = (\<lambda>(k, g). dec (sg_block g) ! (unat (sg_block_offset g) + (i - unat k)))"

definition seg_view :: "('b \<Rightarrow> byte list) \<Rightarrow> 'b segment_map \<Rightarrow> contents" where
  "seg_view dec m i = (case find (covers i) m of None \<Rightarrow> 0 | Some kg \<Rightarrow> segment_byte dec i kg)"

definition segment_ok :: "('b \<Rightarrow> byte list) \<Rightarrow> u64 \<times> 'b segment \<Rightarrow> bool" where
  "segment_ok dec = (\<lambda>(k, g). k < sg_end g \<and>
     unat (sg_block_offset g) + (unat (sg_end g) - unat k) \<le> length (dec (sg_block g)) \<and>
     unat (sg_block_offset g) + (unat (sg_end g) - unat k) < 2 ^ 64)"

definition seg_inv :: "('b \<Rightarrow> byte list) \<Rightarrow> 'b segment_map \<Rightarrow> bool" where
  "seg_inv dec m \<longleftrightarrow> bt_wf m \<and> (\<forall>kg \<in> set m. segment_ok dec kg) \<and>
     (\<forall>k g k' g'. (k, g) \<in> set m \<longrightarrow> (k', g') \<in> set m \<longrightarrow> k < k' \<longrightarrow> sg_end g \<le> k')"

lemma seg_invD:
  assumes "seg_inv dec m"
  shows "bt_wf m" and "(k, g) \<in> set m \<Longrightarrow> segment_ok dec (k, g)"
    and "(k, g) \<in> set m \<Longrightarrow> (k', g') \<in> set m \<Longrightarrow> k < k' \<Longrightarrow> sg_end g \<le> k'"
    and "(k, g) \<in> set m \<Longrightarrow> (k, g') \<in> set m \<Longrightarrow> g = g'"
proof -
  show wf: "bt_wf m" using assms by (simp add: seg_inv_def)
  show "(k, g) \<in> set m \<Longrightarrow> segment_ok dec (k, g)"
    and "(k, g) \<in> set m \<Longrightarrow> (k', g') \<in> set m \<Longrightarrow> k < k' \<Longrightarrow> sg_end g \<le> k'"
    using assms unfolding seg_inv_def by blast+
  show "(k, g) \<in> set m \<Longrightarrow> (k, g') \<in> set m \<Longrightarrow> g = g'"
    using bt_get_Some_set [OF wf, of k g] bt_get_Some_set [OF wf, of k g'] by simp
qed

lemma covers_unique:
  assumes "seg_inv dec m" and "(k, g) \<in> set m" "covers i (k, g)" and "(k', g') \<in> set m" "covers i (k', g')"
  shows "k' = k \<and> g' = g"
proof -
  have "\<not> k < k'" "\<not> k' < k"
    using seg_invD(3) [OF assms(1,2,4)] seg_invD(3) [OF assms(1,4,2)] assms(3,5)
    by (auto simp: covers_def word_less_nat_alt word_le_nat_alt)
  then show ?thesis using seg_invD(4) [OF assms(1,2)] assms(4) by auto
qed

lemma seg_view_covered:
  assumes "seg_inv dec m" and "kg \<in> set m" and "covers i kg"
  shows "seg_view dec m i = segment_byte dec i kg"
proof -
  obtain k g where kg: "kg = (k, g)" by (cases kg)
  obtain k' g' where f: "find (covers i) m = Some (k', g')"
    using assms(2,3) kg by (cases "find (covers i) m") (auto simp: find_None_iff)
  then have "(k', g') \<in> set m" "covers i (k', g')" by (auto simp: find_Some_iff)
  then have "k' = k \<and> g' = g" using covers_unique [OF assms(1) _ _ \<open>(k', g') \<in> set m\<close>] assms(2,3) kg by blast
  then show ?thesis using f kg by (simp add: seg_view_def)
qed

lemma seg_view_uncovered: "\<not> (\<exists>kg \<in> set m. covers i kg) \<Longrightarrow> seg_view dec m i = 0"
  by (cases "find (covers i) m") (auto simp: seg_view_def find_Some_iff)

section \<open>Removing a range\<close>

lemma fold_cut_segment:
  "distinct ks \<Longrightarrow> fold (cut_segment start end) ks (m, P) =
     (bt_retain (\<lambda>k. k \<notin> set ks) m,
      P @ concat (map (\<lambda>k. case bt_get m k of None \<Rightarrow> [] | Some g \<Rightarrow> kept_pieces start end k g) ks))"
proof (induction ks arbitrary: m P)
  case Nil
  then show ?case by (simp add: bt_retain_def case_prod_beta)
next
  case (Cons k ks)
  then have IH: "fold (cut_segment start end) ks (m', P') =
     (bt_retain (\<lambda>k. k \<notin> set ks) m',
      P' @ concat (map (\<lambda>k. case bt_get m' k of None \<Rightarrow> [] | Some g \<Rightarrow> kept_pieces start end k g) ks))"
    for m' :: "'a segment_map" and P' by simp
  have same: "map (\<lambda>k'. case bt_get (bt_remove k m) k' of None \<Rightarrow> [] | Some g \<Rightarrow> kept_pieces start end k' g) ks =
      map (\<lambda>k'. case bt_get m k' of None \<Rightarrow> [] | Some g \<Rightarrow> kept_pieces start end k' g) ks"
    using Cons.prems by (intro map_cong) (auto simp: bt_get_remove)
  have ret: "bt_retain (\<lambda>k. k \<notin> set ks) (bt_remove k m) = bt_retain (\<lambda>k'. k' \<notin> set (k # ks)) m"
    by (auto simp: bt_remove_def bt_retain_def intro: filter_cong)
  show ?case
  proof (cases "bt_get m k")
    case None
    then have "bt_retain (\<lambda>k. k \<notin> set ks) m = bt_retain (\<lambda>k'. k' \<notin> set (k # ks)) m"
      by (auto simp: bt_retain_def bt_get_None_iff image_iff intro!: filter_cong)
    moreover have "cut_segment start end k (m, P) = (m, P)" using None by (simp add: cut_segment_def)
    ultimately show ?thesis using None by (simp add: IH)
  next
    case (Some g)
    then have "cut_segment start end k (m, P) = (bt_remove k m, P @ kept_pieces start end k g)" by (simp add: cut_segment_def)
    then show ?thesis using Some by (simp add: IH same ret)
  qed
qed

lemma bt_get_fold_insert:
  "bt_get (fold (\<lambda>(k, g). bt_insert k g) P m) k = (case map_of (rev P) k of None \<Rightarrow> bt_get m k | Some g \<Rightarrow> Some g)"
  by (induction P arbitrary: m) (auto simp: bt_get_insert map_add_def split: option.splits)

lemma bt_wf_fold_insert: "bt_wf m \<Longrightarrow> bt_wf (fold (\<lambda>(k, g). bt_insert k g) P m)"
  by (induction P arbitrary: m) (auto simp: bt_wf_insert)

lemma set_fold_insert:
  assumes "bt_wf m" and fn: "\<And>k g g'. (k, g) \<in> set P \<union> set m \<Longrightarrow> (k, g') \<in> set P \<union> set m \<Longrightarrow> g = g'"
  shows "set (fold (\<lambda>(k, g). bt_insert k g) P m) = set P \<union> set m"
proof -
  have "(k, g) \<in> set (fold (\<lambda>(k, g). bt_insert k g) P m) \<longleftrightarrow> (k, g) \<in> set P \<union> set m" for k g
  proof -
    have e: "(k, g) \<in> set (fold (\<lambda>(k, g). bt_insert k g) P m) \<longleftrightarrow>
        (case map_of (rev P) k of None \<Rightarrow> (k, g) \<in> set m | Some h \<Rightarrow> h = g)"
      using bt_get_Some_set [OF bt_wf_fold_insert [OF assms(1)], of P k g] bt_get_Some_set [OF assms(1), of k g]
      by (simp add: bt_get_fold_insert split: option.splits)
    show ?thesis
    proof (cases "map_of (rev P) k")
      case None
      then have "(k, g) \<notin> set P" by (force simp: map_of_eq_None_iff)
      then show ?thesis using e None by simp
    next
      case (Some h)
      then have "(k, h) \<in> set P" using map_of_SomeD [of "rev P" k h] by simp
      then show ?thesis using e Some fn [of k g h] by auto
    qed
  qed
  then show ?thesis by auto
qed

lemma last_le_max:
  assumes "bt_wf m" and "bt_last_le start m = Some (k, g)"
  shows "(k, g) \<in> set m" and "k \<le> start" and "(k', g') \<in> set m \<Longrightarrow> k' \<le> start \<Longrightarrow> k' \<le> k"
proof -
  let ?es = "filter (\<lambda>(k, v). k \<le> start) m"
  have ne: "?es \<noteq> []" and l: "(k, g) = last ?es"
    using assms(2) by (auto simp: bt_last_le_def Let_def split: if_splits)
  then have "(k, g) \<in> set ?es" using last_in_set [OF ne] by simp
  then show "(k, g) \<in> set m" "k \<le> start" by auto
  have "sorted_wrt (<) (map fst ?es)" using assms(1) by (simp add: bt_wf_def sorted_wrt_filter sorted_wrt_map)
  then show "k' \<le> k" if "(k', g') \<in> set m" "k' \<le> start"
  proof -
    have "(k', g') \<in> set ?es" using that by auto
    moreover obtain pre where "?es = pre @ [(k, g)]" using ne l by (metis append_butlast_last_id)
    ultimately show ?thesis using \<open>sorted_wrt (<) (map fst ?es)\<close> by (force simp: sorted_wrt_append)
  qed
qed


lemma overlapping_keys:
  assumes inv: "seg_inv dec m" and "start < end"
  shows "distinct (overlapping_keys start end m)"
    and "set (overlapping_keys start end m) = {k. \<exists>g. (k, g) \<in> set m \<and> k < end \<and> start < sg_end g}"
proof -
  note wf = seg_invD(1) [OF inv]
  let ?keys = "bt_keys (bt_range start end m)"
  have keys: "set ?keys = {k. \<exists>g. (k, g) \<in> set m \<and> start \<le> k \<and> k < end}"
    by (auto simp: bt_keys_def set_bt_range image_iff)
  have d: "distinct ?keys" using distinct_bt_keys [OF bt_range_range [OF wf]] .
  then show "distinct (overlapping_keys start end m)"
    by (auto simp: overlapping_keys_def Let_def split: option.splits)
  have in_range: "start < sg_end g" if "(k, g) \<in> set m" "start \<le> k" for k g
    using seg_invD(2) [OF inv that(1)] that(2) by (auto simp: segment_ok_def)
  show "set (overlapping_keys start end m) = {k. \<exists>g. (k, g) \<in> set m \<and> k < end \<and> start < sg_end g}"
  proof (cases "bt_last_le start m")
    case None
    then have "\<not> k \<le> start" if "(k, g) \<in> set m" for k g
      using that by (auto simp: bt_last_le_def Let_def filter_empty_conv split: if_splits)
    then show ?thesis using None keys in_range by (auto simp: overlapping_keys_def Let_def) force
  next
    case (Some kg)
    obtain p h where kg: "kg = (p, h)" by (cases kg)
    note le = last_le_max [OF wf Some [unfolded kg]]
    have only: "k = p" if "(k, g) \<in> set m" "k < start" "start < sg_end g" for k g
    proof (rule ccontr)
      assume "k \<noteq> p"
      then have "k < p" using le(3) [OF that(1)] that(2) by (simp add: less_le)
      then show False using seg_invD(3) [OF inv that(1) le(1)] le(2) that(3) by auto
    qed
    have "set (overlapping_keys start end m) = set ?keys \<union> (if start < sg_end h then {p} else {})"
      using Some kg by (auto simp: overlapping_keys_def Let_def)
    also have "\<dots> = {k. \<exists>g. (k, g) \<in> set m \<and> k < end \<and> start < sg_end g}"
    proof (intro equalityI subsetI)
      fix k assume "k \<in> set ?keys \<union> (if start < sg_end h then {p} else {})"
      then consider "k \<in> set ?keys" | "k = p" "start < sg_end h" by (auto split: if_splits)
      then show "k \<in> {k. \<exists>g. (k, g) \<in> set m \<and> k < end \<and> start < sg_end g}"
        using keys in_range le(1) order_le_less_trans [OF le(2) assms(2)] by cases blast+
    next
      fix k assume "k \<in> {k. \<exists>g. (k, g) \<in> set m \<and> k < end \<and> start < sg_end g}"
      then obtain g where g: "(k, g) \<in> set m" "k < end" "start < sg_end g" by blast
      show "k \<in> set ?keys \<union> (if start < sg_end h then {p} else {})"
      proof (cases "start \<le> k")
        case True
        then show ?thesis using g keys by blast
      next
        case False
        then have "k = p" using only [OF g(1)] g(3) by simp
        moreover from this have "g = h" using seg_invD(4) [OF inv g(1)] le(1) by simp
        ultimately show ?thesis using g(3) by simp
      qed
    qed
    finally show ?thesis .
  qed
qed

text \<open>Every segment leaves the parts of it outside the range.\<close>

definition outside_pieces :: "u64 \<Rightarrow> u64 \<Rightarrow> u64 \<times> 'b segment \<Rightarrow> (u64 \<times> 'b segment) set" where
  "outside_pieces start end = (\<lambda>(k, g).
     (if k < start then {(k, g\<lparr>sg_end := min (sg_end g) start\<rparr>)} else {}) \<union>
     (if end < sg_end g then {(max k end, g\<lparr>sg_block_offset := sg_block_offset g + (max k end - k)\<rparr>)} else {}))"

lemma kept_pieces_outside:
  assumes "k < end" and "start < sg_end g"
  shows "set (kept_pieces start end k g) = outside_pieces start end (k, g)"
  using assms by (auto simp: kept_pieces_def outside_pieces_def min_def max_def)

lemma untouched_outside:
  assumes "\<not> (k < end \<and> start < sg_end g)" and "k < sg_end g" and "start < end"
  shows "outside_pieces start end (k, g) = {(k, g)}"
  using assms by (auto simp: outside_pieces_def min_def max_def not_less)

lemma pieces_functional:
  assumes inv: "seg_inv dec m" and se: "start < end" and m: "(k1, g1) \<in> set m" "(k2, g2) \<in> set m"
    and p: "(k, g) \<in> outside_pieces start end (k1, g1)" "(k, g') \<in> outside_pieces start end (k2, g2)"
  shows "g = g'"
proof (cases "k1 = k2")
  case True
  then have "g1 = g2" using seg_invD(4) [OF inv m(1)] m(2) by simp
  with True p se show ?thesis by (auto simp: outside_pieces_def max_def split: if_splits)
next
  case False
  then have "k1 < k2 \<and> sg_end g1 \<le> k2 \<or> k2 < k1 \<and> sg_end g2 \<le> k1"
    using seg_invD(3) [OF inv m] seg_invD(3) [OF inv m(2,1)] by (meson linorder_neqE)
  then show ?thesis
    using p se False by (auto simp: outside_pieces_def max_def split: if_splits)
qed

lemma set_cut_range:
  assumes inv: "seg_inv dec m" and se: "start < end"
  shows "set (cut_range start end m) = (\<Union>kg \<in> set m. outside_pieces start end kg)" and "bt_wf (cut_range start end m)"
proof -
  note wf = seg_invD(1) [OF inv]
  let ?ks = "overlapping_keys start end m"
  let ?P = "concat (map (\<lambda>k. case bt_get m k of None \<Rightarrow> [] | Some g \<Rightarrow> kept_pieces start end k g) ?ks)"
  let ?m' = "bt_retain (\<lambda>k. k \<notin> set ?ks) m"
  have cr: "cut_range start end m = fold (\<lambda>(k, g). bt_insert k g) ?P ?m'"
    using fold_cut_segment [OF overlapping_keys(1) [OF inv se], of start "end" m "[]"] by (simp add: cut_range_def)
  show wf': "bt_wf (cut_range start end m)" unfolding cr by (intro bt_wf_fold_insert bt_wf_retain wf)
  have get: "bt_get m k = Some g \<longleftrightarrow> (k, g) \<in> set m" for k g by (rule bt_get_Some_set [OF wf])
  have P: "x \<in> set ?P \<longleftrightarrow> (\<exists>k g. (k, g) \<in> set m \<and> k < end \<and> start < sg_end g \<and> x \<in> outside_pieces start end (k, g))" for x
  proof -
    have "x \<in> set ?P \<longleftrightarrow> (\<exists>k \<in> set ?ks. \<exists>g. bt_get m k = Some g \<and> x \<in> set (kept_pieces start end k g))"
      by (force split: option.splits)
    also have "\<dots> \<longleftrightarrow> (\<exists>k g. (k, g) \<in> set m \<and> k < end \<and> start < sg_end g \<and> x \<in> set (kept_pieces start end k g))"
      unfolding overlapping_keys(2) [OF inv se] get using seg_invD(4) [OF inv] by blast
    also have "\<dots> \<longleftrightarrow> (\<exists>k g. (k, g) \<in> set m \<and> k < end \<and> start < sg_end g \<and> x \<in> outside_pieces start end (k, g))"
      using kept_pieces_outside by blast
    finally show ?thesis .
  qed
  have m': "(k, g) \<in> set ?m' \<longleftrightarrow> (k, g) \<in> set m \<and> \<not> (k < end \<and> start < sg_end g)" for k g
    unfolding bt_retain_def overlapping_keys(2) [OF inv se] using seg_invD(4) [OF inv] by auto
  have whole: "outside_pieces start end (k, g) = {(k, g)}" if "(k, g) \<in> set m" "\<not> (k < end \<and> start < sg_end g)" for k g
    using untouched_outside [OF that(2) _ se] seg_invD(2) [OF inv that(1)] by (simp add: segment_ok_def)
  have union: "x \<in> set ?P \<union> set ?m' \<longleftrightarrow> (\<exists>kg \<in> set m. x \<in> outside_pieces start end kg)" for x
  proof
    assume "x \<in> set ?P \<union> set ?m'"
    then consider "x \<in> set ?P" | "x \<in> set ?m'" by blast
    then show "\<exists>kg \<in> set m. x \<in> outside_pieces start end kg"
    proof cases
      case 1
      then show ?thesis unfolding P by blast
    next
      case 2
      obtain k g where x: "x = (k, g)" by (cases x)
      with 2 have "(k, g) \<in> set m \<and> \<not> (k < end \<and> start < sg_end g)" using m' by simp
      then have "(k, g) \<in> set m" "x \<in> outside_pieces start end (k, g)" using whole x by simp_all
      then show ?thesis by (rule bexI [rotated])
    qed
  next
    assume "\<exists>kg \<in> set m. x \<in> outside_pieces start end kg"
    then obtain k g where kg: "(k, g) \<in> set m" "x \<in> outside_pieces start end (k, g)" by auto
    show "x \<in> set ?P \<union> set ?m'"
    proof (cases "k < end \<and> start < sg_end g")
      case True
      then have "x \<in> set ?P" unfolding P using kg by blast
      then show ?thesis by blast
    next
      case False
      then have "x = (k, g)" using whole [OF kg(1)] kg(2) by blast
      then show ?thesis using m' kg(1) False by blast
    qed
  qed
  have fn: "g = g'" if "(k, g) \<in> set ?P \<union> set ?m'" "(k, g') \<in> set ?P \<union> set ?m'" for k g g'
  proof -
    from that obtain k1 g1 k2 g2 where "(k1, g1) \<in> set m" "(k, g) \<in> outside_pieces start end (k1, g1)"
      "(k2, g2) \<in> set m" "(k, g') \<in> outside_pieces start end (k2, g2)"
      unfolding union by (metis surj_pair)
    then show ?thesis by (intro pieces_functional [OF inv se])
  qed
  have "set (cut_range start end m) = set ?P \<union> set ?m'"
    unfolding cr by (rule set_fold_insert [OF bt_wf_retain [OF wf]]) (rule fn)
  then show "set (cut_range start end m) = (\<Union>kg \<in> set m. outside_pieces start end kg)"
    by (intro set_eqI) (simp only: union UN_iff)
qed

lemma piece_cases:
  assumes "(k', g') \<in> outside_pieces start end (k, g)"
  obtains (left) "k < start" "k' = k" "g' = g\<lparr>sg_end := min (sg_end g) start\<rparr>"
    | (right) "end < sg_end g" "k' = max k end" "g' = g\<lparr>sg_block_offset := sg_block_offset g + (max k end - k)\<rparr>"
  using assms by (auto simp: outside_pieces_def split: if_splits)

lemma unat_max_u64: "unat (max a b :: u64) = max (unat a) (unat b)"
  by (simp add: max_def word_le_nat_alt)

lemma unat_min_u64: "unat (min a b :: u64) = min (unat a) (unat b)"
  by (simp add: min_def word_le_nat_alt)

lemma right_offset:
  assumes "segment_ok dec (k, g)" and "end < sg_end g"
  shows "unat (sg_block_offset g + (max k end - k)) = unat (sg_block_offset g) + (max (unat k) (unat end) - unat k)"
proof -
  have d: "unat (max k end - k) = max (unat k) (unat end) - unat k"
    using unat_sub [of k "max k end"] by (simp add: unat_max_u64)
  show ?thesis
    using assms by (subst unat_add_u64) (auto simp: d segment_ok_def word_less_nat_alt)
qed

lemma piece_ok:
  assumes ok: "segment_ok dec (k, g)" and p: "(k', g') \<in> outside_pieces start end (k, g)" and se: "start < end"
  shows "segment_ok dec (k', g') \<and> k \<le> k' \<and> sg_end g' \<le> sg_end g \<and> (sg_end g' \<le> start \<or> end \<le> k') \<and>
    (covers i (k', g') \<longrightarrow> segment_byte dec i (k', g') = segment_byte dec i (k, g))"
  using p
proof (cases rule: piece_cases)
  case left
  then show ?thesis using ok by (auto simp: segment_ok_def segment_byte_def unat_min_u64 word_less_nat_alt word_le_nat_alt)
next
  case right
  note o = right_offset [OF ok right(1)]
  have "segment_ok dec (k', g')"
    using ok right by (auto simp: segment_ok_def o unat_max_u64 word_less_nat_alt)
  moreover have "covers i (k', g') \<Longrightarrow> segment_byte dec i (k', g') = segment_byte dec i (k, g)"
    using right by (auto simp: covers_def segment_byte_def o unat_max_u64)
  ultimately show ?thesis using right by auto
qed

lemma piece_covers:
  assumes "segment_ok dec (k, g)" and "covers i (k, g)" and "\<not> (unat start \<le> i \<and> i < unat end)" and "start < end"
  shows "\<exists>kg' \<in> outside_pieces start end (k, g). covers i kg'"
proof (cases "i < unat start")
  case True
  then have "(k, g\<lparr>sg_end := min (sg_end g) start\<rparr>) \<in> outside_pieces start end (k, g)"
    using assms(2) by (auto simp: outside_pieces_def covers_def word_less_nat_alt)
  moreover have "covers i (k, g\<lparr>sg_end := min (sg_end g) start\<rparr>)"
    using True assms(2) by (simp add: covers_def unat_min_u64)
  ultimately show ?thesis by blast
next
  case False
  then have "unat end \<le> i" using assms(3) by simp
  then have "end < sg_end g" using assms(2) by (simp add: covers_def word_less_nat_alt)
  then have "(max k end, g\<lparr>sg_block_offset := sg_block_offset g + (max k end - k)\<rparr>) \<in> outside_pieces start end (k, g)"
    by (simp add: outside_pieces_def)
  moreover have "covers i (max k end, g\<lparr>sg_block_offset := sg_block_offset g + (max k end - k)\<rparr>)"
    using \<open>unat end \<le> i\<close> assms(2) by (simp add: covers_def unat_max_u64)
  ultimately show ?thesis by blast
qed

lemma cut_range_inv:
  assumes inv: "seg_inv dec m" and se: "start < end"
  shows "seg_inv dec (cut_range start end m)"
    and "seg_view dec (cut_range start end m) i = (if unat start \<le> i \<and> i < unat end then 0 else seg_view dec m i)"
    and "kg \<in> set (cut_range start end m) \<Longrightarrow> sg_end (snd kg) \<le> start \<or> end \<le> fst kg"
proof -
  note set = set_cut_range(1) [OF inv se]
  have piece: "\<exists>k0 g0. (k0, g0) \<in> set m \<and> (k, g) \<in> outside_pieces start end (k0, g0) \<and> segment_ok dec (k0, g0)"
    if "(k, g) \<in> set (cut_range start end m)" for k g
    using that seg_invD(2) [OF inv] unfolding set by auto
  show out: "sg_end (snd kg) \<le> start \<or> end \<le> fst kg" if "kg \<in> set (cut_range start end m)" for kg
    using piece [of "fst kg" "snd kg"] that piece_ok [OF _ _ se] by fastforce
  have "sg_end g \<le> k'" if kg: "(k, g) \<in> set (cut_range start end m)" "(k', g') \<in> set (cut_range start end m)" "k < k'" for k g k' g'
  proof -
    obtain k0 g0 where a: "(k0, g0) \<in> set m" "(k, g) \<in> outside_pieces start end (k0, g0)" "segment_ok dec (k0, g0)"
      using piece [OF kg(1)] by blast
    obtain k1 g1 where b: "(k1, g1) \<in> set m" "(k', g') \<in> outside_pieces start end (k1, g1)" "segment_ok dec (k1, g1)"
      using piece [OF kg(2)] by blast
    note pa = piece_ok [OF a(3,2) se] and pb = piece_ok [OF b(3,2) se]
    consider "k0 < k1" | "k1 < k0" | "k0 = k1" by (rule linorder_cases)
    then show ?thesis
    proof cases
      case 1
      then show ?thesis using seg_invD(3) [OF inv a(1) b(1)] pa pb by (meson order_trans)
    next
      case 2
      then have "sg_end g1 \<le> k0" using seg_invD(3) [OF inv b(1) a(1)] by simp
      then have "sg_end g' \<le> k" using pa pb by (meson order_trans)
      moreover have "k' < sg_end g'" using pb by (simp add: segment_ok_def)
      ultimately show ?thesis using kg(3) by simp
    next
      case 3
      then have "g0 = g1" using seg_invD(4) [OF inv a(1)] b(1) by simp
      then show ?thesis using a(2) b(2) kg(3) 3 se by (auto elim!: piece_cases simp: min_def max_def split: if_splits)
    qed
  qed
  moreover have "segment_ok dec kg" if "kg \<in> set (cut_range start end m)" for kg
    using piece [of "fst kg" "snd kg"] that piece_ok [OF _ _ se] by fastforce
  ultimately show inv': "seg_inv dec (cut_range start end m)"
    using set_cut_range(2) [OF inv se] unfolding seg_inv_def by blast
  show "seg_view dec (cut_range start end m) i = (if unat start \<le> i \<and> i < unat end then 0 else seg_view dec m i)"
  proof (cases "\<exists>kg \<in> set (cut_range start end m). covers i kg")
    case True
    then obtain k g where kg: "(k, g) \<in> set (cut_range start end m)" "covers i (k, g)" by auto
    obtain k0 g0 where a: "(k0, g0) \<in> set m" "(k, g) \<in> outside_pieces start end (k0, g0)" "segment_ok dec (k0, g0)"
      using piece [OF kg(1)] by blast
    note pa = piece_ok [OF a(3,2) se, of i]
    have "covers i (k0, g0)" using kg(2) pa by (auto simp: covers_def word_le_nat_alt)
    moreover have "\<not> (unat start \<le> i \<and> i < unat end)" using out [OF kg(1)] kg(2) by (auto simp: covers_def word_le_nat_alt)
    ultimately show ?thesis
      using seg_view_covered [OF inv' kg] seg_view_covered [OF inv a(1)] pa kg(2) by auto
  next
    case False
    have "seg_view dec m i = 0" if n: "\<not> (unat start \<le> i \<and> i < unat end)"
    proof (rule seg_view_uncovered, rule notI)
      assume "\<exists>kg \<in> set m. covers i kg"
      then obtain k g where "(k, g) \<in> set m" "covers i (k, g)" by auto
      then show False using piece_covers [OF seg_invD(2) [OF inv] _ n se] False unfolding set by blast
    qed
    then show ?thesis using seg_view_uncovered [OF False] by simp
  qed
qed

section \<open>The map is an extent store\<close>

lemma covers_bound: "covers i (k, g) \<Longrightarrow> i < 2 ^ 64 - 1"
  using unat_le_u64_max [of "sg_end g"] by (simp add: covers_def)

lemma seg_view_bound: "2 ^ 64 - 1 \<le> i \<Longrightarrow> seg_view dec m i = 0"
  using covers_bound by (intro seg_view_uncovered) fastforce

lemma seg_remove_ok:
  assumes inv: "seg_inv dec m" and r: "seg_remove start len m = Inr m'"
  shows "seg_inv dec m'" and "seg_view dec m' = erase (seg_view dec m) (unat start) len"
    and "len \<noteq> 0 \<Longrightarrow> kg \<in> set m' \<Longrightarrow> sg_end (snd kg) \<le> start \<or> len \<noteq> u64_max \<and> unat start + unat len \<le> unat (fst kg)"
proof -
  obtain e where e: "len = u64_max \<and> e = u64_max \<or> len \<noteq> u64_max \<and> checked_add start len = Some e"
    and m': "m' = (if start = e then m else cut_range start e m)"
    using r by (auto simp: seg_remove_def result_simps split: if_splits)
  have ue: "unat e = (if len = u64_max then 2 ^ 64 - 1 else unat start + unat len)"
    using e by (auto simp: checked_simps)
  have le: "start \<le> e" using ue unat_le_u64_max [of start] by (auto simp: word_le_nat_alt)
  show "seg_inv dec m'" using m' inv le cut_range_inv(1) [OF inv] by (auto simp: less_le)
  show "seg_view dec m' = erase (seg_view dec m) (unat start) len"
  proof
    fix i
    have "seg_view dec m' i = (if unat start \<le> i \<and> i < unat e then 0 else seg_view dec m i)"
      using m' le cut_range_inv(2) [OF inv, of start e i] by (auto simp: less_le)
    then show "seg_view dec m' i = erase (seg_view dec m) (unat start) len i"
      using seg_view_bound [of i dec m] ue by (auto simp: erase_def)
  qed
  assume nz: "len \<noteq> 0" and kg: "kg \<in> set m'"
  show "sg_end (snd kg) \<le> start \<or> len \<noteq> u64_max \<and> unat start + unat len \<le> unat (fst kg)"
  proof (cases "start = e")
    case True
    then have "len = u64_max" using ue nz by (auto simp: unat_eq_0 split: if_splits)
    then have "unat start = 2 ^ 64 - 1" using True ue by simp
    then show ?thesis using unat_le_u64_max [of "sg_end (snd kg)"] by (simp add: word_le_nat_alt)
  next
    case False
    then have lt: "start < e" and kg': "kg \<in> set (cut_range start e m)" using le m' kg by (auto simp: less_le)
    obtain k g where kgp: "kg = (k, g)" by (cases kg)
    have "k < sg_end g" using cut_range_inv(1) [OF inv lt] kg' kgp seg_invD(2) by (fastforce simp: segment_ok_def)
    then show ?thesis
      using cut_range_inv(3) [OF inv lt kg'] ue kgp unat_le_u64_max [of "sg_end g"]
      by (auto simp: word_le_nat_alt word_less_nat_alt split: if_splits)
  qed
qed

lemma seg_insert_ok:
  assumes inv: "seg_inv dec m" and len: "unat len \<le> length (dec block)" and r: "seg_insert start len block m = Inr m'"
  shows "seg_inv dec m'" and "seg_view dec m' = overlay (seg_view dec m) (unat start) (take (unat len) (dec block))"
proof -
  have "seg_inv dec m' \<and> seg_view dec m' = overlay (seg_view dec m) (unat start) (take (unat len) (dec block))"
  proof (cases "len = 0")
    case True
    then show ?thesis using r inv by (auto simp: seg_insert_def overlay_def fun_eq_iff)
  next
    case False
    then obtain m1 e where m1: "seg_remove start len m = Inr m1" and e: "checked_add start len = Some e"
      and m': "m' = bt_insert start \<lparr>sg_end = e, sg_block = block, sg_block_offset = 0\<rparr> m1" (is "_ = bt_insert _ ?g _")
      using r by (auto simp: seg_insert_def result_simps)
    note rm = seg_remove_ok [OF inv m1]
    have ue: "unat e = unat start + unat len" using e by (simp add: checked_simps)
    have "unat len \<noteq> 0" using False by (simp add: unat_eq_0)
    then have ok: "segment_ok dec (start, ?g)"
      using ue len unat_less_u64 [of len] by (simp add: segment_ok_def word_less_nat_alt)
    have apart: "sg_end g \<le> start \<or> e \<le> k" if "(k, g) \<in> set m1" for k g
      using rm(3) [OF False that] ue by (auto simp: word_le_nat_alt)
    have proper: "k < sg_end g" if "(k, g) \<in> set m1" for k g
      using seg_invD(2) [OF rm(1) that] by (simp add: segment_ok_def)
    have wf: "bt_wf m'" unfolding m' using seg_invD(1) [OF rm(1)] by (rule bt_wf_insert)
    have mem: "(k, g) \<in> set m' \<longleftrightarrow> (k, g) = (start, ?g) \<or> (k, g) \<in> set m1" for k g
    proof -
      have "(start, h) \<notin> set m1" for h
        using apart [of start h] proper [of start h] ok by (auto simp: segment_ok_def)
      then show ?thesis
        using bt_get_Some_set [OF wf, of k g] bt_get_Some_set [OF seg_invD(1) [OF rm(1)], of k g]
        unfolding m' bt_get_insert by (auto split: if_splits)
    qed
    have "seg_inv dec m'"
      unfolding seg_inv_def
    proof (intro conjI wf ballI allI impI)
      show "segment_ok dec kg" if "kg \<in> set m'" for kg
        using that mem [of "fst kg" "snd kg"] ok seg_invD(2) [OF rm(1), of "fst kg" "snd kg"] by auto
      show "sg_end g \<le> k'" if "(k, g) \<in> set m'" "(k', g') \<in> set m'" "k < k'" for k g k' g'
        using that seg_invD(3) [OF rm(1), of k g k' g'] apart [of k g] apart [of k' g'] proper [of k g] proper [of k' g'] ok
        by (auto simp: mem segment_ok_def)
    qed
    then have inv': "seg_inv dec m'" .
    have "seg_view dec m' i = overlay (seg_view dec m) (unat start) (take (unat len) (dec block)) i" for i
    proof (cases "covers i (start, ?g)")
      case True
      then show ?thesis
        using seg_view_covered [OF inv' _ True] mem [of start ?g] ue len
        by (auto simp: covers_def segment_byte_def overlay_def)
    next
      case False
      have "seg_view dec m' i = seg_view dec m1 i"
      proof (cases "\<exists>kg \<in> set m1. covers i kg")
        case True
        then obtain k g where kg: "(k, g) \<in> set m1" "covers i (k, g)" by auto
        then show ?thesis using seg_view_covered [OF inv' _ kg(2)] seg_view_covered [OF rm(1) kg] mem by simp
      next
        case F: False
        then have "\<not> (\<exists>kg \<in> set m'. covers i kg)" using mem False by (metis surj_pair)
        then show ?thesis using F by (simp add: seg_view_uncovered)
      qed
      also have "\<dots> = erase (seg_view dec m) (unat start) len i" by (simp add: rm(2))
      also have "\<dots> = overlay (seg_view dec m) (unat start) (take (unat len) (dec block)) i"
        using False ue len seg_view_bound [of i dec m] by (auto simp: covers_def erase_def overlay_def min_def)
      finally show ?thesis .
    qed
    with inv' show ?thesis by auto
  qed
  then show "seg_inv dec m'" and "seg_view dec m' = overlay (seg_view dec m) (unat start) (take (unat len) (dec block))"
    by auto
qed

interpretation seg: extent_store "seg_inv dec" "seg_view dec" "\<lambda>(len, block). unat len \<le> length (dec block)"
  "\<lambda>(len, block). take (unat len) (dec block)" "\<lambda>off (len, block). seg_insert off len block" seg_remove "\<lambda>_. Inr []" for dec
proof unfold_locales
  fix s s' :: "'a segment_map" and p :: "u64 \<times> 'a" and off len :: u64
  assume inv: "seg_inv dec s"
  show "seg_inv dec s' \<and> seg_view dec s' = overlay (seg_view dec s) (unat off) (case p of (len, block) \<Rightarrow> take (unat len) (dec block))"
    if "case p of (len, block) \<Rightarrow> unat len \<le> length (dec block)" "(case p of (len, block) \<Rightarrow> seg_insert off len block) s = Inr s'"
    using that seg_insert_ok [OF inv, of "fst p" "snd p" off s'] by (simp add: case_prod_beta)
  show "seg_inv dec s' \<and> seg_view dec s' = erase (seg_view dec s) (unat off) len" if "seg_remove off len s = Inr s'"
    using seg_remove_ok(1,2) [OF inv that] by simp
  show "seg_inv dec s' \<and> seg_view dec s' = no_contents" if "Inr [] = Inr s'"
    using that by (auto simp: seg_inv_def seg_view_def no_contents_def)
qed

section \<open>Property\<close>

fun seg_op :: "(u64 \<times> 'b) extent_op \<Rightarrow> 'b segment_map \<Rightarrow> 'b segment_map result" where
  "seg_op (WriteExtent off (len, block)) m = seg_insert off len block m"
| "seg_op (FreeExtent off len) m = seg_remove off len m"
| "seg_op ClearAll m = Inr []"

text \<open>C25: the segment map is a faithful picture of the extents. After any sequence of insertions
  of blocks, removals and clears, the segments are ordered, disjoint and inside their blocks, and
  the bytes they show are those that performing the operations on plain contents gives.\<close>

theorem segments_show_the_extents:
  assumes "list_all (\<lambda>op. case op of WriteExtent off (len, block) \<Rightarrow> unat len \<le> length (dec block) | _ \<Rightarrow> True) ops"
    and "try_fold seg_op [] ops = Inr m"
  shows "seg_inv dec m \<and> seg_view dec m = abstract_run (\<lambda>(len, block). take (unat len) (dec block)) ops no_contents"
proof -
  have op: "seg.run_op x s = seg_op x s" for x :: "(u64 \<times> 'a) extent_op" and s
    by (cases x) (auto split: prod.splits)
  have "seg.run_op = (seg_op :: (u64 \<times> 'a) extent_op \<Rightarrow> _)" by (intro ext) (rule op)
  then have r: "try_fold seg.run_op [] ops = Inr m" using assms(2) by simp
  have v: "list_all (seg.valid_op dec) ops"
    unfolding list_all_iff
  proof
    fix x assume "x \<in> set ops"
    note in_ops = this
    show "seg.valid_op dec x" by (cases x rule: extent_op.exhaust) (use assms(1) in_ops in \<open>auto simp: list_all_iff\<close>)
  qed
  have "seg_inv dec []" "seg_view dec [] = no_contents" by (simp_all add: seg_inv_def seg_view_def no_contents_def fun_eq_iff)
  then show ?thesis using seg.run_view [OF _ v r] by simp
qed

theorem segments_show_the_extents_witness:
  "\<exists>m. try_fold seg_op [] [WriteExtent 0 (8, [1, 2, 3, 4, 5, 6, 7, 8]), FreeExtent 2 4, WriteExtent 3 (2, [9, 10])] = Inr m \<and>
     map (seg_view id m) [0 ..< 9] = [1, 2, 0, 9, 10, 0, 7, 8, 0]"
proof -
  let ?ops = "[WriteExtent 0 (8, [1, 2, 3, 4, 5, 6, 7, 8]), FreeExtent 2 4, WriteExtent 3 (2, [9, 10])] :: (u64 \<times> byte list) extent_op list"
  have "\<not> isl (try_fold seg_op [] ?ops)" 
    by (simp add: seg_insert_def seg_remove_def cut_range_def overlapping_keys_def kept_pieces_def cut_segment_def bt_last_le_def
        checked_add_def u64_max_def bt_range_def bt_keys_def bt_remove_def)
  then obtain m where m: "try_fold seg_op [] ?ops = Inr m" by (cases "try_fold seg_op [] ?ops") auto
  have "seg_view id m = abstract_run (\<lambda>(len, block). take (unat len) (id block)) ?ops no_contents"
    using segments_show_the_extents [OF _ m, of id] by simp
  then show ?thesis using m by (simp add: upt_rec overlay_def erase_def no_contents_def u64_max_def nth_Cons')
qed

end
