(* ===== verification/Stream_Image.thy ===== *)
theory Stream_Image
  imports File_Extract Segment_Map
begin

text \<open>
  Reading a nested disk image inside a send file without extracting it (\<open>StreamImage\<close> of
  src/inception.rs): one pass over the stream maps the extents of the image object to the records
  that wrote them, and reads decode the blocks they touch, with a one-block cache. \<open>crc32\<close> is the
  checksum of the \<open>crc32fast\<close> crate.
\<close>

section \<open>Model\<close>

datatype block_encoding =
    ReplayBlock byte
  | EmbeddedBlock byte byte u32
  | RawBlock nat bool byte "byte list" "byte list" "byte list"

record block_descriptor =
  bd_id :: u64
  bd_payload_offset :: u64
  bd_payload_len :: nat
  bd_payload_crc32 :: u32
  bd_logical_len :: u64
  bd_encoding :: block_encoding

record image_state =
  im_active :: bool
  im_key :: "nat option"
  im_seen :: "u64 btset"
  im_object_type :: "u32 option"
  im_exists :: bool
  im_segments :: "block_descriptor segment_map"
  im_keys :: "dataset_key list"
  im_next :: u64

record stream_image =
  si_file :: "byte list"
  si_len :: u64
  si_segments :: "block_descriptor segment_map"
  si_keys :: "dataset_key list"

type_synonym block_cache = "(u64 \<times> byte list) option"

definition image_begin ::
  "crypto \<Rightarrow> u64 btset \<Rightarrow> byte list option \<Rightarrow> begin_record \<Rightarrow> byte list \<Rightarrow> image_state \<Rightarrow> image_state result" where
  "image_begin k selected key_material header pay st =
     (let active = bg_header_type header = DMU_SUBSTREAM \<and> bs_contains selected (bg_to_guid header);
          st = st\<lparr>im_active := active, im_key := None\<rparr>
      in if active then
           let st = st\<lparr>im_seen := bs_insert (bg_to_guid header) (im_seen st)\<rparr> in
           if bg_features header AND FEATURE_RAW \<noteq> 0 then
             and_then (ok_or key_material (Bail ''encrypted raw send requires a key'')) (\<lambda>material.
             and_then (from_begin_payload pay) (\<lambda>params.
             and_then (unlock k params material) (\<lambda>key.
             Inr (st\<lparr>im_keys := im_keys st @ [key], im_key := Some (length (im_keys st))\<rparr>))))
           else Inr st
         else Inr st)"

definition write_descriptor :: "(byte list \<Rightarrow> u32) \<Rightarrow> replay_record \<Rightarrow> write_record \<Rightarrow> image_state \<Rightarrow> block_descriptor" where
  "write_descriptor crc32 rec w st =
     \<lparr>bd_id = im_next st, bd_payload_offset = stream_offset rec + of_nat RECORD_SIZE,
      bd_payload_len = length (payload rec), bd_payload_crc32 = crc32 (payload rec), bd_logical_len = wr_logical_size w,
      bd_encoding =
        (case im_key st of
           Some key_index \<Rightarrow> RawBlock key_index (is_encrypted_object_type (wr_object_type w)) (wr_compression_type w)
             (wr_salt w) (wr_iv w) (wr_mac w)
         | None \<Rightarrow> ReplayBlock (wr_compression_type w))\<rparr>"

definition embedded_descriptor :: "(byte list \<Rightarrow> u32) \<Rightarrow> replay_record \<Rightarrow> embedded_write_record \<Rightarrow> image_state \<Rightarrow> block_descriptor" where
  "embedded_descriptor crc32 rec w st =
     \<lparr>bd_id = im_next st, bd_payload_offset = stream_offset rec + of_nat RECORD_SIZE,
      bd_payload_len = length (payload rec), bd_payload_crc32 = crc32 (payload rec),
      bd_logical_len = ucast (em_logical_size w),
      bd_encoding = EmbeddedBlock (em_compression_type w) (em_embedded_type w) (em_physical_size w)\<rparr>"

definition image_active :: "(byte list \<Rightarrow> u32) \<Rightarrow> u64 \<Rightarrow> replay_record \<Rightarrow> image_state \<Rightarrow> image_state result" where
  "image_active crc32 n rec st =
     (case kind rec of
        Object ob \<Rightarrow>
          if ob_object ob = n
          then Inr (st\<lparr>im_segments := (if im_object_type st \<noteq> Some (ob_object_type ob) then [] else im_segments st),
                      im_object_type := Some (ob_object_type ob), im_exists := True\<rparr>)
          else Inr st
      | Write w \<Rightarrow>
          if wr_object w = n then
            if \<not> im_exists st then Inl (Bail ''nested image WRITE appears before its OBJECT record'')
            else and_then (seg_insert (wr_offset w) (wr_logical_size w) (write_descriptor crc32 rec w st) (im_segments st)) (\<lambda>segments.
              Inr (st\<lparr>im_segments := segments, im_next := im_next st + 1\<rparr>))
          else Inr st
      | WriteEmbedded w \<Rightarrow>
          if em_object w = n then
            if im_key st \<noteq> None then Inl (Bail ''raw encrypted embedded WRITE records are unsupported'')
            else and_then (seg_remove (em_offset w) (em_length w) (im_segments st)) (\<lambda>segments.
              and_then (seg_insert (em_offset w) (min (ucast (em_logical_size w)) (em_length w))
                  (embedded_descriptor crc32 rec w st) segments) (\<lambda>segments.
              Inr (st\<lparr>im_segments := segments, im_next := im_next st + 1\<rparr>)))
          else Inr st
      | Free fr \<Rightarrow>
          if fr_object fr = n
          then and_then (seg_remove (fr_offset fr) (fr_length fr) (im_segments st)) (\<lambda>segments. Inr (st\<lparr>im_segments := segments\<rparr>))
          else Inr st
      | FreeObjects fo \<Rightarrow>
          Inr (if frees_object fo n then st\<lparr>im_segments := [], im_object_type := None, im_exists := False\<rparr> else st)
      | WriteByRef \<Rightarrow> Inl (Bail ''deduplicated WRITE_BYREF streams are unsupported'')
      | Redact \<Rightarrow> Inl (Bail ''redacted streams are unsupported'')
      | _ \<Rightarrow> Inr st)"

definition image_record ::
  "crypto \<Rightarrow> (byte list \<Rightarrow> u32) \<Rightarrow> u64 btset \<Rightarrow> byte list option \<Rightarrow> u64 \<Rightarrow> replay_record \<Rightarrow> image_state \<Rightarrow> image_state result" where
  "image_record k crc32 selected key_material n rec st =
     (case kind rec of
        Begin header \<Rightarrow> image_begin k selected key_material header (payload rec) st
      | End \<Rightarrow> Inr (st\<lparr>im_active := False, im_key := None\<rparr>)
      | _ \<Rightarrow> if \<not> im_active st then Inr st else image_active crc32 n rec st)"

definition image_start :: image_state where
  "image_start = \<lparr>im_active = False, im_key = None, im_seen = [], im_object_type = None, im_exists = False,
     im_segments = [], im_keys = [], im_next = 1\<rparr>"

definition build_image ::
  "crypto \<Rightarrow> (byte list \<Rightarrow> u32) \<Rightarrow> byte_source option \<Rightarrow> snapshot_plan \<Rightarrow> resolved_path \<Rightarrow> byte list option \<Rightarrow> stream_image result" where
  "build_image k crc32 stream plan resolved key_material =
     and_then (open_stream stream) (\<lambda>reader.
     and_then (stream_loop (image_record k crc32 (bs_of_list (plan_chain plan)) key_material (rp_object_id resolved)) reader image_start)
       (\<lambda>(st, reader).
     if \<not> saw_end reader then Inl (Bail ''ZFS send stream has no END record'')
     else if length (im_seen st) \<noteq> length (plan_chain plan)
       then Inl (Bail ''stream changed while indexing the nested image'')
     else if \<not> im_exists st then Inl (Bail ''nested image object {} is absent from the selected snapshot'')
     else and_then (ok_or stream (IoErr OsError)) (\<lambda>src.
       Inr \<lparr>si_file = src_bytes src, si_len = rp_logical_size resolved, si_segments = im_segments st, si_keys = im_keys st\<rparr>)))"

text \<open>Decoding a block from the stream: the payload is read again and checked against its CRC.\<close>

definition decode_payload ::
  "crypto \<Rightarrow> codecs \<Rightarrow> (byte list \<Rightarrow> u32) \<Rightarrow> byte list \<Rightarrow> dataset_key list \<Rightarrow> block_descriptor \<Rightarrow> byte list result" where
  "decode_payload k z crc32 file keys d =
     and_then (ok_or (get_range file (unat (bd_payload_offset d)) (unat (bd_payload_offset d) + bd_payload_len d))
       (IoErr UnexpectedEof)) (\<lambda>payload.
     if crc32 payload \<noteq> bd_payload_crc32 d then Inl (Bail ''ZFS send payload changed after inception mode indexed it'')
     else and_then
       (case bd_encoding d of
          ReplayBlock compression \<Rightarrow> decode_replay_write z compression payload (bd_logical_len d)
        | EmbeddedBlock compression embedded_type physical_size \<Rightarrow>
            if unat (bd_logical_len d) \<ge> 2 ^ 32 then Inl (Bail ''embedded logical size exceeds u32'')
            else decode_embedded_write z compression embedded_type payload physical_size (ucast (bd_logical_len d))
        | RawBlock key_index encrypted compression salt iv mac \<Rightarrow>
            and_then (if key_index < length keys then Inr (keys ! key_index) else Inl (Bail ''raw replay key is missing'')) (\<lambda>key.
            and_then (if encrypted then decrypt_block k key salt iv mac [] payload
                      else and_then (authenticate_block k key payload mac) (\<lambda>_. Inr payload)) (\<lambda>protected.
            raw_decompress_block z compression protected (bd_logical_len d)))) (\<lambda>decoded.
     if length decoded \<noteq> unat (bd_logical_len d) then Inl (Bail ''decoded replay block is {} bytes, expected {}'')
     else Inr decoded))"

definition decode_block ::
  "crypto \<Rightarrow> codecs \<Rightarrow> (byte list \<Rightarrow> u32) \<Rightarrow> stream_image \<Rightarrow> block_descriptor \<Rightarrow> block_cache \<Rightarrow> block_cache \<times> byte list result" where
  "decode_block k z crc32 img d cache =
     (let miss = (case decode_payload k z crc32 (si_file img) (si_keys img) d of
                    Inl e \<Rightarrow> (cache, Inl e)
                  | Inr decoded \<Rightarrow> (Some (bd_id d, decoded), Inr decoded))
      in case cache of
           Some (i, bytes) \<Rightarrow> if i = bd_id d then (cache, Inr bytes) else miss
         | None \<Rightarrow> miss)"

text \<open>The sum that locates the source bytes is taken modulo $2^{64}$, as in the release profile, which
  has no overflow checks; its value is the exact difference (\<open>copy_bounds\<close> below).\<close>

fun read_segments ::
  "crypto \<Rightarrow> codecs \<Rightarrow> (byte list \<Rightarrow> u32) \<Rightarrow> stream_image \<Rightarrow> u64 \<Rightarrow> u64 \<Rightarrow> (u64 \<times> block_descriptor segment) list \<Rightarrow>
   block_cache \<Rightarrow> byte list \<Rightarrow> block_cache \<times> byte list result" where
  "read_segments k z crc32 img off end [] cache buffer = (cache, Inr buffer)"
| "read_segments k z crc32 img off end ((segment_start, g) # rest) cache buffer =
     (if sg_end g \<le> off then read_segments k z crc32 img off end rest cache buffer
      else let copy_start = max segment_start off; copy_end = min (sg_end g) end;
               destination_start = unat (copy_start - off); destination_end = unat (copy_end - off);
               source_start = unat (sg_block_offset g + copy_start - segment_start);
               source_end = source_start + (destination_end - destination_start)
        in case decode_block k z crc32 img (sg_block g) cache of
             (cache, Inl e) \<Rightarrow> (cache, Inl e)
           | (cache, Inr decoded) \<Rightarrow>
               (case get_range decoded source_start source_end of
                  None \<Rightarrow> (cache, Inl (Bail ''nested extent points outside its decoded replay block''))
                | Some bytes \<Rightarrow> read_segments k z crc32 img off end rest cache (blit destination_start bytes buffer)))"

definition read_exact_at ::
  "crypto \<Rightarrow> codecs \<Rightarrow> (byte list \<Rightarrow> u32) \<Rightarrow> stream_image \<Rightarrow> u64 \<Rightarrow> nat \<Rightarrow> block_cache \<Rightarrow> block_cache \<times> byte list result" where
  "read_exact_at k z crc32 img off n cache =
     (if unat off + n \<ge> 2 ^ 64 then (cache, Inl (Bail ''nested send-file read offset overflows''))
      else if off + of_nat n > si_len img
        then (cache, Inl (Bail ''nested read [{offset}, {end}) exceeds the {}-byte ZFS file''))
      else if n = 0 then (cache, Inr [])
      else read_segments k z crc32 img off (off + of_nat n)
             (filter (\<lambda>(s, _). s < off + of_nat n) (si_segments img)) cache (replicate n 0))"

section \<open>Reads return the view of the segment map\<close>

text \<open>The bytes of a block, and the images all of whose blocks can be decoded and are told apart by
  their identifiers.\<close>

definition block_bytes ::
  "crypto \<Rightarrow> codecs \<Rightarrow> (byte list \<Rightarrow> u32) \<Rightarrow> byte list \<Rightarrow> dataset_key list \<Rightarrow> block_descriptor \<Rightarrow> byte list" where
  "block_bytes k z crc32 file keys d = (case decode_payload k z crc32 file keys d of Inl _ \<Rightarrow> [] | Inr bs \<Rightarrow> bs)"

definition blocks_ok ::
  "crypto \<Rightarrow> codecs \<Rightarrow> (byte list \<Rightarrow> u32) \<Rightarrow> byte list \<Rightarrow> dataset_key list \<Rightarrow> block_descriptor segment_map \<Rightarrow> bool" where
  "blocks_ok k z crc32 file keys m \<longleftrightarrow>
     (\<forall>kg \<in> set m. decode_payload k z crc32 file keys (sg_block (snd kg)) = Inr (block_bytes k z crc32 file keys (sg_block (snd kg)))) \<and>
     (\<forall>kg \<in> set m. \<forall>kg' \<in> set m. bd_id (sg_block (snd kg)) = bd_id (sg_block (snd kg')) \<longrightarrow> sg_block (snd kg) = sg_block (snd kg'))"

definition cache_ok ::
  "crypto \<Rightarrow> codecs \<Rightarrow> (byte list \<Rightarrow> u32) \<Rightarrow> stream_image \<Rightarrow> block_cache \<Rightarrow> bool" where
  "cache_ok k z crc32 img cache \<longleftrightarrow>
     (\<forall>i bytes. cache = Some (i, bytes) \<longrightarrow> (\<forall>kg \<in> set (si_segments img). bd_id (sg_block (snd kg)) = i \<longrightarrow>
        bytes = block_bytes k z crc32 (si_file img) (si_keys img) (sg_block (snd kg))))"

lemma find_filter_implied: "(\<And>x. x \<in> set xs \<Longrightarrow> P x \<Longrightarrow> Q x) \<Longrightarrow> find P (filter Q xs) = find P xs"
  by (induction xs) auto

lemma length_slice_within: "a + n \<le> length xs \<Longrightarrow> length (slice xs a (a + n)) = n"
  by simp

lemma get_range_within: "a + n \<le> length xs \<Longrightarrow> get_range xs a (a + n) = Some (slice xs a (a + n))"
  by (simp add: get_range_def)

lemma copy_fits: "max s off < min e en \<Longrightarrow> max s off - off + (min e en - max s off) \<le> en - (off :: nat)"
  by (cases "s \<le> off"; cases "e \<le> en") (auto simp: max_def min_def)

lemma copy_index: "ds \<le> j \<Longrightarrow> j < ds + n \<Longrightarrow> a + (j - ds) < a + (n :: nat)"
  by simp

lemma copy_window:
  fixes s off e en j :: nat
  assumes "max s off < min e en" and "j < en - off"
  shows "s \<le> off + j \<and> off + j < e \<longleftrightarrow> max s off - off \<le> j \<and> j < max s off - off + (min e en - max s off)"
  using assms by (cases "s \<le> off"; cases "e \<le> en") (auto simp: max_def min_def)

locale indexed_image =
  fixes k :: crypto and z :: codecs and crc32 :: "byte list \<Rightarrow> u32" and img :: stream_image
  assumes segments: "seg_inv (block_bytes k z crc32 (si_file img) (si_keys img)) (si_segments img)"
    and blocks: "blocks_ok k z crc32 (si_file img) (si_keys img) (si_segments img)"
begin

abbreviation dec :: "block_descriptor \<Rightarrow> byte list" where
  "dec \<equiv> block_bytes k z crc32 (si_file img) (si_keys img)"

lemma same_block:
  assumes "kg \<in> set (si_segments img)" "kg' \<in> set (si_segments img)" "bd_id (sg_block (snd kg)) = bd_id (sg_block (snd kg'))"
  shows "sg_block (snd kg) = sg_block (snd kg')"
  using blocks assms unfolding blocks_ok_def by blast

lemma decode_block_ok:
  assumes "(s, g) \<in> set (si_segments img)" and "cache_ok k z crc32 img cache"
  shows "\<exists>cache'. decode_block k z crc32 img (sg_block g) cache = (cache', Inr (dec (sg_block g))) \<and> cache_ok k z crc32 img cache'"
proof -
  have d: "decode_payload k z crc32 (si_file img) (si_keys img) (sg_block g) = Inr (dec (sg_block g))"
    using bspec [OF blocks [unfolded blocks_ok_def, THEN conjunct1] assms(1)] by simp
  have "cache_ok k z crc32 img (Some (bd_id (sg_block g), dec (sg_block g)))"
    unfolding cache_ok_def
  proof (intro allI impI ballI)
    fix i bytes kg
    assume c: "Some (bd_id (sg_block g), dec (sg_block g)) = Some (i, bytes)" "kg \<in> set (si_segments img)" "bd_id (sg_block (snd kg)) = i"
    then have "sg_block (snd kg) = sg_block g" using same_block [OF c(2) assms(1)] by simp
    then show "bytes = dec (sg_block (snd kg))" using c(1) by simp
  qed
  note new = this
  have hit: "bytes = dec (sg_block g)" if "cache = Some (bd_id (sg_block g), bytes)" for bytes
    using assms(2) [unfolded cache_ok_def, rule_format, OF that assms(1)] by simp
  show ?thesis
  proof (cases "\<exists>bytes. cache = Some (bd_id (sg_block g), bytes)")
    case True
    then obtain bytes where "cache = Some (bd_id (sg_block g), bytes)" ..
    then have "decode_block k z crc32 img (sg_block g) cache = (cache, Inr (dec (sg_block g)))"
      using hit by (simp add: decode_block_def)
    then show ?thesis using assms(2) by blast
  next
    case False
    then have "decode_block k z crc32 img (sg_block g) cache =
        (Some (bd_id (sg_block g), dec (sg_block g)), Inr (dec (sg_block g)))"
      by (cases cache) (auto simp: decode_block_def d Let_def)
    then show ?thesis using new by blast
  qed
qed

lemma copy_bounds:
  assumes g: "(s, g) \<in> set (si_segments img)" and "\<not> sg_end g \<le> off" and "s < end" and "off < end"
  defines "cs \<equiv> max s off" and "ce \<equiv> min (sg_end g) end"
  shows "unat (cs - off) = unat cs - unat off" and "unat (ce - off) = unat ce - unat off"
    and "unat (sg_block_offset g + cs - s) = unat (sg_block_offset g) + (unat cs - unat s)"
    and "unat (sg_block_offset g) + (unat cs - unat s) + (unat ce - unat cs) \<le> length (dec (sg_block g))"
    and "unat cs < unat ce"
proof -
  have ok: "s < sg_end g" "unat (sg_block_offset g) + (unat (sg_end g) - unat s) \<le> length (dec (sg_block g))"
    "unat (sg_block_offset g) + (unat (sg_end g) - unat s) < 2 ^ 64"
    using seg_invD(2) [OF segments g] by (simp_all add: segment_ok_def)
  have c: "unat cs = max (unat s) (unat off)" "unat ce = min (unat (sg_end g)) (unat end)"
    by (simp_all add: cs_def ce_def unat_max_u64 unat_min_u64)
  show lt: "unat cs < unat ce" using c ok(1) assms(2-4) by (simp add: word_less_nat_alt word_le_nat_alt)
  show "unat (cs - off) = unat cs - unat off" by (rule unat_sub) (simp add: cs_def)
  show "unat (ce - off) = unat ce - unat off" by (rule unat_sub) (use c lt in \<open>simp add: word_le_nat_alt\<close>)
  have "unat (cs - s) = unat cs - unat s" by (rule unat_sub) (simp add: cs_def)
  then show "unat (sg_block_offset g + cs - s) = unat (sg_block_offset g) + (unat cs - unat s)"
  proof -
    assume d: "unat (cs - s) = unat cs - unat s"
    have "unat (sg_block_offset g) + (unat cs - unat s) < 2 ^ 64" using c lt ok(3) by linarith
    then show ?thesis using unat_add_u64 [of "sg_block_offset g" "cs - s"] d by (simp add: add_diff_eq)
  qed
  show "unat (sg_block_offset g) + (unat cs - unat s) + (unat ce - unat cs) \<le> length (dec (sg_block g))"
    using c lt ok(2) by simp
qed

lemma read_segments_ok:
  assumes "set segs \<subseteq> set (si_segments img)" and "\<forall>(s, g) \<in> set segs. s < end" and "off < end"
    and "length buffer = unat end - unat off" and "cache_ok k z crc32 img cache"
  shows "\<exists>cache' buffer'. read_segments k z crc32 img off end segs cache buffer = (cache', Inr buffer') \<and>
    cache_ok k z crc32 img cache' \<and> length buffer' = length buffer \<and>
    (\<forall>j < length buffer. buffer' ! j = (case find (covers (unat off + j)) segs of
       None \<Rightarrow> buffer ! j | Some kg \<Rightarrow> segment_byte dec (unat off + j) kg))"
  using assms
proof (induction segs arbitrary: cache buffer)
  case Nil
  then show ?case by simp
next
  case (Cons sg rest)
  obtain s g where sg: "sg = (s, g)" by (cases sg)
  then have mem: "(s, g) \<in> set (si_segments img)" and lt: "s < end" using Cons.prems by auto
  show ?case
  proof (cases "sg_end g \<le> off")
    case True
    then have "\<not> covers (unat off + j) (s, g)" for j by (auto simp: covers_def word_le_nat_alt)
    then show ?thesis using Cons.IH [of buffer cache] Cons.prems True sg by simp
  next
    case False
    let ?cs = "max s off" and ?ce = "min (sg_end g) end"
    note b = copy_bounds [OF mem False lt Cons.prems(3)]
    obtain cache1 where c1: "decode_block k z crc32 img (sg_block g) cache = (cache1, Inr (dec (sg_block g)))"
      "cache_ok k z crc32 img cache1" using decode_block_ok [OF mem Cons.prems(5)] by blast
    let ?src = "unat (sg_block_offset g) + (unat ?cs - unat s)" and ?n = "unat ?ce - unat ?cs" and ?ds = "unat ?cs - unat off"
    let ?buf = "blit ?ds (slice (dec (sg_block g)) ?src (?src + ?n)) buffer"
    have u: "unat ?cs = max (unat s) (unat off)" "unat ?ce = min (unat (sg_end g)) (unat end)"
      by (simp_all add: unat_max_u64 unat_min_u64)
    have n: "unat (?ce - off) - ?ds = ?n" using b(2,5) u by simp
    have step: "read_segments k z crc32 img off end (sg # rest) cache buffer =
        read_segments k z crc32 img off end rest cache1 ?buf"
      using False c1(1) get_range_within [OF b(4)] by (simp only: sg read_segments.simps Let_def n b(1,3) if_False prod.case sum.case option.case)
    have ln: "length (slice (dec (sg_block g)) ?src (?src + ?n)) = ?n" by (rule length_slice_within [OF b(4)])
    have fit: "?ds + ?n \<le> length buffer"
      unfolding Cons.prems(4) u by (rule copy_fits [OF b(5) [unfolded u]])
    have l: "length ?buf = length buffer" using fit ln by (subst length_blit) simp_all
    have buf: "?buf ! j = (if covers (unat off + j) (s, g) then segment_byte dec (unat off + j) (s, g) else buffer ! j)"
      if "j < length buffer" for j
    proof -
      have c: "covers (unat off + j) (s, g) \<longleftrightarrow> ?ds \<le> j \<and> j < ?ds + ?n"
        using that b(5) Cons.prems(4) unfolding covers_def prod.case u by (intro copy_window) auto
      have "slice (dec (sg_block g)) ?src (?src + ?n) ! (j - ?ds) = segment_byte dec (unat off + j) (s, g)"
        if "?ds \<le> j" "j < ?ds + ?n"
      proof -
        have "?src + (j - ?ds) = unat (sg_block_offset g) + (unat off + j - unat s)"
          using that(1) unfolding u by (cases "unat s \<le> unat off") (simp_all add: max_def)
        moreover have "?src + (j - ?ds) < ?src + ?n" by (rule copy_index [OF that])
        then have "slice (dec (sg_block g)) ?src (?src + ?n) ! (j - ?ds) = dec (sg_block g) ! (?src + (j - ?ds))"
          by (rule nth_slice) (rule order_less_le_trans [OF \<open>?src + (j - ?ds) < ?src + ?n\<close> b(4)])
        ultimately show ?thesis unfolding segment_byte_def prod.case by (simp only:)
      qed
      moreover have "?buf ! j = (if ?ds \<le> j \<and> j < ?ds + ?n then slice (dec (sg_block g)) ?src (?src + ?n) ! (j - ?ds) else buffer ! j)"
        using nth_blit [of ?ds "slice (dec (sg_block g)) ?src (?src + ?n)" buffer j] fit that unfolding ln by blast
      ultimately show ?thesis unfolding c by presburger
    qed
    have "segment_byte dec i kg = segment_byte dec i (s, g)" if "kg \<in> set rest" "covers i kg" "covers i (s, g)" for i kg
    proof -
      obtain k' g' where kg: "kg = (k', g')" by (cases kg)
      then show ?thesis using covers_unique [OF segments mem that(3), of k' g'] that(1,2) Cons.prems(1) by auto
    qed
    note over = this
    have "(case find (covers (unat off + j)) rest of None \<Rightarrow> ?buf ! j | Some kg \<Rightarrow> segment_byte dec (unat off + j) kg) =
      (case find (covers (unat off + j)) (sg # rest) of None \<Rightarrow> buffer ! j | Some kg \<Rightarrow> segment_byte dec (unat off + j) kg)"
      if j: "j < length buffer" for j
    proof (cases "find (covers (unat off + j)) rest")
      case None
      then show ?thesis using buf [OF j] sg by simp
    next
      case (Some kg)
      then have "kg \<in> set rest" "covers (unat off + j) kg" by (auto simp: find_Some_iff)
      then show ?thesis using Some over [of kg "unat off + j"] sg by simp
    qed
    note found = this
    have "set rest \<subseteq> set (si_segments img)" "\<forall>(s, g) \<in> set rest. s < end" using Cons.prems(1,2) by simp_all
    moreover have "length ?buf = unat end - unat off" using l Cons.prems(4) by simp
    ultimately obtain cache' buffer' where "read_segments k z crc32 img off end rest cache1 ?buf = (cache', Inr buffer')"
      "cache_ok k z crc32 img cache'" "length buffer' = length ?buf"
      "\<forall>j < length ?buf. buffer' ! j = (case find (covers (unat off + j)) rest of
         None \<Rightarrow> ?buf ! j | Some kg \<Rightarrow> segment_byte dec (unat off + j) kg)"
      using Cons.IH [OF _ _ Cons.prems(3) _ c1(2), of ?buf] by blast
    then show ?thesis unfolding step l by (intro exI [of _ cache'] exI [of _ buffer'] conjI allI impI) (simp_all only: found)
  qed
qed

lemma read_exact_at_view:
  assumes "unat off + n \<le> unat (si_len img)" and "cache_ok k z crc32 img cache"
  shows "\<exists>cache'. read_exact_at k z crc32 img off n cache =
      (cache', Inr (map (seg_view dec (si_segments img)) [unat off ..< unat off + n])) \<and> cache_ok k z crc32 img cache'"
proof -
  have lt: "unat off + n < 2 ^ 64" using assms(1) unat_less_u64 [of "si_len img"] by simp
  then have u: "unat (off + of_nat n :: u64) = unat off + n" by (simp add: unat_add_u64 unat_of_nat_u64)
  show ?thesis
  proof (cases "n = 0")
    case True
    then show ?thesis using assms lt u by (simp add: read_exact_at_def word_less_nat_alt not_less)
  next
    case False
    let ?segs = "filter (\<lambda>(s, _). s < off + of_nat n) (si_segments img)"
    have f: "find (covers (unat off + j)) ?segs = find (covers (unat off + j)) (si_segments img)" if "j < n" for j
      using that u by (intro find_filter_implied) (auto simp: covers_def word_less_nat_alt)
    obtain cache' buffer' where r: "read_segments k z crc32 img off (off + of_nat n) ?segs cache (replicate n 0) = (cache', Inr buffer')"
      and c: "cache_ok k z crc32 img cache'" and l: "length buffer' = n"
      and b: "\<forall>j < n. buffer' ! j = (case find (covers (unat off + j)) ?segs of
         None \<Rightarrow> replicate n 0 ! j | Some kg \<Rightarrow> segment_byte dec (unat off + j) kg)"
      using read_segments_ok [of ?segs "off + of_nat n" off "replicate n 0" cache] False u assms(2)
      by (auto simp: word_less_nat_alt)
    have "buffer' = map (seg_view dec (si_segments img)) [unat off ..< unat off + n]"
    proof (rule nth_equalityI)
      fix j assume "j < length buffer'"
      then show "buffer' ! j = map (seg_view dec (si_segments img)) [unat off ..< unat off + n] ! j"
        using b f [of j] l by (simp add: seg_view_def split: option.splits)
    qed (simp add: l)
    then show ?thesis using r c False lt u assms(1) by (simp add: read_exact_at_def word_less_nat_alt not_less)
  qed
qed

end

end
