(* ===== verification/Image_Replay.thy ===== *)
theory Image_Replay
  imports Stream_Image
begin

text \<open>
  The index of a nested image follows the replay of its object: a simulation between the image's
  segment map and the file that extraction would be writing, record by record, and from it that
  reads of the image return the ranges of the extracted file.
\<close>

section \<open>Indexing follows the replay\<close>

definition blocks_of :: "'b segment_map \<Rightarrow> 'b set" where
  "blocks_of m = (\<lambda>kg. sg_block (snd kg)) ` set m"

lemma blocks_of_Nil [simp]: "blocks_of [] = {}"
  by (simp add: blocks_of_def)

lemma blocks_of_remove:
  assumes "seg_inv dec m" and "seg_remove start len m = Inr m'"
  shows "blocks_of m' \<subseteq> blocks_of m"
proof -
  obtain e where e: "len = u64_max \<and> e = u64_max \<or> len \<noteq> u64_max \<and> checked_add start len = Some e"
    and m': "m' = (if start = e then m else cut_range start e m)"
    using assms(2) by (auto simp: seg_remove_def result_simps split: if_splits)
  have "start \<le> e" using e unat_le_u64_max [of start] by (auto simp: word_le_nat_alt checked_simps)
  then consider "start = e" | "start < e" by (auto simp: less_le)
  then show ?thesis
  proof cases
    case 2
    then show ?thesis
      using m' set_cut_range(1) [OF assms(1) 2] by (auto simp: blocks_of_def outside_pieces_def split: if_splits) force+
  qed (simp add: m')
qed

lemma set_bt_insert: "set (bt_insert k v m) \<subseteq> insert (k, v) (set m)"
  by (induction k v m rule: bt_insert.induct) auto

lemma blocks_of_insert:
  assumes "seg_inv dec m" and "seg_insert start len b m = Inr m'"
  shows "blocks_of m' \<subseteq> insert b (blocks_of m)"
proof (cases "len = 0")
  case True
  then show ?thesis using assms by (auto simp: seg_insert_def)
next
  case False
  then obtain m1 e where m1: "seg_remove start len m = Inr m1"
    and m': "m' = bt_insert start \<lparr>sg_end = e, sg_block = b, sg_block_offset = 0\<rparr> m1"
    using assms(2) by (auto simp: seg_insert_def result_simps)
  then have "blocks_of m' \<subseteq> insert b (blocks_of m1)"
    using set_bt_insert [of start "\<lparr>sg_end = e, sg_block = b, sg_block_offset = 0\<rparr>" m1] by (auto simp: blocks_of_def)
  then show ?thesis using blocks_of_remove [OF assms(1) m1] by blast
qed

lemma decode_write_descriptor:
  assumes "get_range file (unat (stream_offset rec) + RECORD_SIZE) (unat (stream_offset rec) + RECORD_SIZE + length (payload rec)) =
      Some (payload rec)" and "unat (stream_offset rec) + RECORD_SIZE < 2 ^ 64" and "fills_buffer z"
  shows "im_key st = None \<Longrightarrow> decode_replay_write z (wr_compression_type w) (payload rec) (wr_logical_size w) = Inr plain \<Longrightarrow>
      decode_payload k z crc32 file keys (write_descriptor crc32 rec w st) = Inr plain"
    and "decode_embedded_write z (em_compression_type ew) (em_embedded_type ew) (payload rec) (em_physical_size ew)
        (em_logical_size ew) = Inr plain \<Longrightarrow>
      decode_payload k z crc32 file keys (embedded_descriptor crc32 rec ew st) = Inr plain"
proof -
  have u: "unat (stream_offset rec + of_nat RECORD_SIZE :: u64) = unat (stream_offset rec) + RECORD_SIZE"
    using assms(2) by (simp add: unat_add_u64 RECORD_SIZE_def)
  have c: "(ucast (ucast x :: u64) :: u32) = x" for x :: u32
    by (rule bit_word_eqI) (simp add: bit_simps)
  have l: "unat (ucast (x :: u32) :: u64) < 2 ^ 32" for x
    using unsigned_less [of x] by simp
  show "im_key st = None \<Longrightarrow> decode_replay_write z (wr_compression_type w) (payload rec) (wr_logical_size w) = Inr plain \<Longrightarrow>
      decode_payload k z crc32 file keys (write_descriptor crc32 rec w st) = Inr plain"
    using assms(1) decode_replay_write_length [OF assms(3)] by (simp add: decode_payload_def write_descriptor_def u)
  show "decode_embedded_write z (em_compression_type ew) (em_embedded_type ew) (payload rec) (em_physical_size ew)
        (em_logical_size ew) = Inr plain \<Longrightarrow>
      decode_payload k z crc32 file keys (embedded_descriptor crc32 rec ew st) = Inr plain"
    using assms(1) decode_embedded_write_length [OF assms(3)] l [of "em_logical_size ew"]
    by (simp add: decode_payload_def embedded_descriptor_def u c not_le)
qed

text \<open>The state of the index against the replayed file \<open>d\<close> of an object of type \<open>t\<close>.\<close>

definition image_sim ::
  "crypto \<Rightarrow> codecs \<Rightarrow> (byte list \<Rightarrow> u32) \<Rightarrow> byte list \<Rightarrow> u32 \<Rightarrow> image_state \<Rightarrow> bool \<times> byte list \<Rightarrow> bool" where
  "image_sim k z crc32 file t st = (\<lambda>(e, d).
     seg_inv (block_bytes k z crc32 file []) (im_segments st) \<and>
     seg_view (block_bytes k z crc32 file []) (im_segments st) = list_view d \<and>
     im_exists st = e \<and> im_object_type st = (if e then Some t else None) \<and>
     (\<forall>b \<in> blocks_of (im_segments st). decode_payload k z crc32 file [] b = Inr (block_bytes k z crc32 file [] b) \<and>
        bd_id b < im_next st \<and> (\<forall>b' \<in> blocks_of (im_segments st). bd_id b = bd_id b' \<longrightarrow> b = b')) \<and>
     im_key st = None \<and> im_keys st = [])"

lemma image_sim_reset:
  "image_sim k z crc32 file t (st\<lparr>im_segments := [], im_object_type := (if e then Some t else None), im_exists := e\<rparr>) (e, []) \<longleftrightarrow>
   im_key st = None \<and> im_keys st = []"
  by (auto simp: image_sim_def seg_inv_def seg_view_def list_view_def fun_eq_iff)

lemma image_sim_new_block:
  assumes sim: "image_sim k z crc32 file t st (e, d)" and b: "decode_payload k z crc32 file [] b = Inr plain" "bd_id b = im_next st"
    and nxt: "unat (im_next st) + 1 < 2 ^ 64"
    and segs: "seg_inv (block_bytes k z crc32 file []) segs" "seg_view (block_bytes k z crc32 file []) segs = list_view d'"
    and sub: "blocks_of segs \<subseteq> insert b (blocks_of (im_segments st))"
  shows "image_sim k z crc32 file t (st\<lparr>im_segments := segs, im_next := im_next st + 1\<rparr>) (e, d')"
proof -
  have nx: "x < im_next st \<Longrightarrow> x < im_next st + 1" "im_next st < im_next st + 1" for x
    using nxt by (auto simp: word_less_nat_alt unat_add_u64)
  have "decode_payload k z crc32 file [] b = Inr (block_bytes k z crc32 file [] b)" using b(1) by (simp add: block_bytes_def)
  then have "decode_payload k z crc32 file [] x = Inr (block_bytes k z crc32 file [] x) \<and> bd_id x < im_next st + 1 \<and>
      (\<forall>y \<in> blocks_of segs. bd_id x = bd_id y \<longrightarrow> x = y)" if "x \<in> blocks_of segs" for x
    using that sub sim b(2) nx unfolding image_sim_def by (fastforce dest!: subsetD [OF sub])
  then show ?thesis using sim segs by (simp add: image_sim_def)
qed

context posix_files
begin

lemma image_active_sim:
  assumes pos: "get_range file (unat (stream_offset rec) + RECORD_SIZE) (unat (stream_offset rec) + RECORD_SIZE + length (payload rec)) =
      Some (payload rec)" "unat (stream_offset rec) + RECORD_SIZE < 2 ^ 64" and z: "fills_buffer z"
    and sim: "image_sim k z crc32 file t st (e, d)" and nxt: "unat (im_next st) + 1 < 2 ^ 64" and t: "type_is n t (kind rec)"
    and r: "replay_active os z n (kind rec) (payload rec) (e, d) = Inr (e', d')"
    and i: "image_active crc32 n rec st = Inr st'"
  shows "image_sim k z crc32 file t st' (e', d') \<and> unat (im_next st') \<le> unat (im_next st) + 1 \<and>
    im_active st' = im_active st \<and> im_seen st' = im_seen st"
proof -
  let ?dec = "block_bytes k z crc32 file []"
  have inv: "seg_inv ?dec (im_segments st)" and view: "seg_view ?dec (im_segments st) = list_view d" and key: "im_key st = None"
    using sim by (simp_all add: image_sim_def)
  have u: "unat (im_next st + 1) = unat (im_next st) + 1" using nxt by (simp add: unat_add_u64)
  have z0: "x = []" if "set_len os 0 d = Inr x" for x
    using that by (auto simp: set_len_def result_simps resize_def dest!: set_len_ok)
  show ?thesis
  proof (cases "kind rec")
    case (Object ob)
    show ?thesis
    proof (cases "ob_object ob = n")
      case True
      have st': "st' = st\<lparr>im_segments := (if im_object_type st \<noteq> Some t then [] else im_segments st), im_object_type := Some t, im_exists := True\<rparr>"
        using i t Object True by (simp add: image_active_def type_is_def)
      show ?thesis
      proof (cases e)
        case True
        then show ?thesis using sim r st' Object \<open>ob_object ob = n\<close> by (simp add: replay_active_def image_sim_def)
      next
        case False
        then have "e'" "d' = []" using r Object True z0 by (auto simp: replay_active_def result_simps)
        then show ?thesis
          using st' False sim image_sim_reset [of k z crc32 "file" t True st] by (simp add: image_sim_def)
      qed
    qed (use Object r i sim in \<open>auto simp: replay_active_def image_active_def\<close>)
  next
    case (Write w)
    show ?thesis
    proof (cases "wr_object w = n")
      case True
      let ?b = "write_descriptor crc32 rec w st"
      obtain plain where p: "decode_replay_write z (wr_compression_type w) (payload rec) (wr_logical_size w) = Inr plain"
        and w: "sparse_write_extent os (wr_offset w) plain d = Inr d'" and e': "e' = e"
        using r Write True by (auto simp: replay_active_def result_simps)
      obtain segs where s: "seg_insert (wr_offset w) (wr_logical_size w) ?b (im_segments st) = Inr segs"
        and st': "st' = st\<lparr>im_segments := segs, im_next := im_next st + 1\<rparr>"
        using i Write True by (auto simp: image_active_def result_simps split: if_splits)
      have db: "decode_payload k z crc32 file [] ?b = Inr plain" by (rule decode_write_descriptor(1) [OF pos z key p])
      then have bb: "?dec ?b = plain" by (simp add: block_bytes_def)
      have l: "length plain = unat (wr_logical_size w)" by (rule decode_replay_write_length [OF z p])
      have "seg_view ?dec segs = list_view d'"
        using seg_insert_ok(2) [OF inv _ s] bb l view write_extent_view [OF w] by simp
      then have "image_sim k z crc32 file t st' (e, d')"
        unfolding st' using seg_insert_ok(1) [OF inv _ s] bb l blocks_of_insert [OF inv s]
        by (intro image_sim_new_block [OF sim db _ nxt]) (simp_all add: write_descriptor_def)
      then show ?thesis using e' st' u by simp
    qed (use Write r i sim in \<open>auto simp: replay_active_def image_active_def\<close>)
  next
    case (WriteEmbedded w)
    show ?thesis
    proof (cases "em_object w = n")
      case True
      let ?b = "embedded_descriptor crc32 rec w st"
      obtain plain where p: "decode_embedded_write z (em_compression_type w) (em_embedded_type w) (payload rec)
            (em_physical_size w) (em_logical_size w) = Inr plain"
        and w: "replace_file_extent os (em_offset w) (em_length w) plain d = Inr d'" and e': "e' = e"
        using r WriteEmbedded True by (auto simp: replay_active_def result_simps)
      have le: "length plain \<le> unat (em_length w)" and ne: "em_length w \<noteq> u64_max"
        using w by (auto simp: replace_file_extent_def MAX_REPLAY_BLOCK_SIZE_def u64_max_def split: if_splits)
      have v: "list_view d' = overlay (erase (list_view d) (unat (em_offset w)) (em_length w)) (unat (em_offset w)) plain"
        using out_file.put_view [OF TrueI TrueI, of "em_offset w" "Embedded (em_length w) plain" d d'] w
        by (simp add: overlay_erase_embedded [OF le ne])
      obtain segs1 segs where s1: "seg_remove (em_offset w) (em_length w) (im_segments st) = Inr segs1"
        and s: "seg_insert (em_offset w) (min (ucast (em_logical_size w)) (em_length w)) ?b segs1 = Inr segs"
        and st': "st' = st\<lparr>im_segments := segs, im_next := im_next st + 1\<rparr>"
        using i WriteEmbedded True by (auto simp: image_active_def result_simps split: if_splits)
      have db: "decode_payload k z crc32 file [] ?b = Inr plain" by (rule decode_write_descriptor(2) [OF pos z p])
      then have bb: "?dec ?b = plain" by (simp add: block_bytes_def)
      have l: "length plain = unat (em_logical_size w)" by (rule decode_embedded_write_length [OF z p])
      then have m: "unat (min (ucast (em_logical_size w)) (em_length w)) = length plain" using le by (simp add: unat_min_u64)
      note i1 = seg_remove_ok(1,2) [OF inv s1]
      note i2 = seg_insert_ok [OF i1(1) _ s, unfolded bb m]
      have "seg_view ?dec segs = list_view d'" using i2(2) i1(2) view v by simp
      moreover have "blocks_of segs \<subseteq> insert ?b (blocks_of (im_segments st))"
        using blocks_of_insert [OF i1(1) s] blocks_of_remove [OF inv s1] by blast
      ultimately have "image_sim k z crc32 file t st' (e, d')"
        unfolding st' using i2(1) by (intro image_sim_new_block [OF sim db _ nxt]) (simp_all add: embedded_descriptor_def)
      then show ?thesis using e' st' u by simp
    qed (use WriteEmbedded r i sim in \<open>auto simp: replay_active_def image_active_def\<close>)
  next
    case (Free fr)
    show ?thesis
    proof (cases "fr_object fr = n")
      case True
      obtain segs where s: "seg_remove (fr_offset fr) (fr_length fr) (im_segments st) = Inr segs" and st': "st' = st\<lparr>im_segments := segs\<rparr>"
        using i Free True by (auto simp: image_active_def result_simps)
      have f: "zero_range os (fr_offset fr) (fr_length fr) d = Inr d'" and e': "e' = e"
        using r Free True by (auto simp: replay_active_def result_simps)
      have "image_sim k z crc32 file t st' (e, d')"
        using sim seg_remove_ok(1,2) [OF inv s] view out_file.free_view [OF TrueI f] blocks_of_remove [OF inv s]
        unfolding st' image_sim_def by auto
      then show ?thesis using e' st' by simp
    qed (use Free r i sim in \<open>auto simp: replay_active_def image_active_def\<close>)
  next
    case (FreeObjects fo)
    show ?thesis
    proof (cases "frees_object fo n")
      case True
      then have "\<not> e'" "d' = []" "st' = st\<lparr>im_segments := [], im_object_type := None, im_exists := False\<rparr>"
        using r i FreeObjects z0 by (auto simp: replay_active_def image_active_def result_simps)
      then show ?thesis using sim image_sim_reset [of k z crc32 "file" t False st] by (simp add: image_sim_def)
    qed (use FreeObjects r i sim in \<open>auto simp: replay_active_def image_active_def\<close>)
  qed (use r i sim in \<open>auto simp: replay_active_def image_active_def\<close>)
qed

end

text \<open>The substreams of the chain are plain, and the object keeps one type.\<close>

definition plain_substreams :: "u64 btset \<Rightarrow> replay_record list \<Rightarrow> bool" where
  "plain_substreams selected = list_all (\<lambda>rec. case kind rec of
     Begin h \<Rightarrow> activate selected h \<noteq> None \<longrightarrow> bg_features h AND FEATURE_RAW = 0 | _ \<Rightarrow> True)"

definition in_file :: "byte list \<Rightarrow> replay_record \<Rightarrow> bool" where
  "in_file bytes rec \<longleftrightarrow> unat (stream_offset rec) + RECORD_SIZE < 2 ^ 64 \<and>
     get_range bytes (unat (stream_offset rec) + RECORD_SIZE) (unat (stream_offset rec) + RECORD_SIZE + length (payload rec)) =
       Some (payload rec)"

lemma reads_in_file:
  assumes "reads (new_reader s) recs r'" 
  shows "list_all (in_file (src_bytes s)) recs" and "length recs * RECORD_SIZE < 2 ^ 64"
proof -
  have st: "steps (new_reader s) recs r'" using assms by (simp add: reads_def)
  have "unat (stream_offset rec) + RECORD_SIZE < 2 ^ 64" if "rec \<in> set recs" for rec
    using st that
  proof (induction rule: steps.induct)
    case (steps_Cons r rec1 r1 recs r')
    from steps_Cons.hyps(1) have "unat (stream_offset rec1) + RECORD_SIZE \<le> unat (offset r1)"
      by (auto elim!: next_record_Some)
    then show ?case using steps_Cons unat_less_u64 [of "offset r1"] by auto
  qed simp
  then show "list_all (in_file (src_bytes s)) recs"
    using reads_payload_position [OF assms] by (simp add: in_file_def list_all_iff)
  have "length recs * RECORD_SIZE \<le> sum_list (map (\<lambda>rec. RECORD_SIZE + length (payload rec)) recs)"
    by (induction recs) auto
  then show "length recs * RECORD_SIZE < 2 ^ 64"
    using steps_offset [OF st] unat_less_u64 [of "offset r'"] by simp
qed

context posix_files
begin

lemma image_record_body:
  assumes "body_kind (kind rec)"
  shows "image_record k crc32 selected key_material n rec st = (if \<not> im_active st then Inr st else image_active crc32 n rec st)"
  using assms by (auto simp: body_kind_def image_record_def split: record_kind.splits)

lemma image_fold_sim:
  assumes z: "fills_buffer z"
    and "list_all (in_file bytes) recs" and "unat (im_next st) + length recs < 2 ^ 64"
    and "plain_substreams selected recs" and "list_all (\<lambda>rec. type_is n t (kind rec)) (active_records selected active recs)"
    and "image_sim k z crc32 bytes t st (e, d)" and "im_active st = (active \<noteq> None)"
    and "try_fold (chain_record selected (replay_active os z n)) (active, seen, (e, d)) recs = Inr (active', seen', (e', d'))"
    and "try_fold (image_record k crc32 selected key_material n) st recs = Inr st'"
  shows "image_sim k z crc32 bytes t st' (e', d')"
  using assms(2-)
proof (induction recs arbitrary: st active seen e d)
  case Nil
  then show ?case by simp
next
  case (Cons rec recs)
  note IH = Cons.IH and prems = Cons.prems
  show ?case
  proof (cases rule: record_kind_cases3 [of "kind rec"])
    case (Begin header)
    let ?st = "st\<lparr>im_active := activate selected header \<noteq> None,
      im_key := None, im_seen := (case activate selected header of None \<Rightarrow> im_seen st | Some g \<Rightarrow> bs_insert g (im_seen st))\<rparr>"
    have st1: "image_record k crc32 selected key_material n rec st = Inr ?st"
      using prems(3) Begin by (auto simp: image_record_def image_begin_def plain_substreams_def activate_def Let_def)
    show ?thesis
      using prems Begin st1
      by (intro IH [of ?st "activate selected header" e d])
        (auto simp: chain_record_def Let_def plain_substreams_def image_sim_def)
  next
    case End
    then show ?thesis
      using prems by (intro IH [of "st\<lparr>im_active := False, im_key := None\<rparr>" None e d seen])
        (auto simp: chain_record_def image_record_def plain_substreams_def image_sim_def)
  next
    case Body
    note b = image_record_body [OF Body] active_body(1,3) [OF Body]
    show ?thesis
    proof (cases active)
      case None
      then show ?thesis using prems by (intro IH [of st None e d seen]) (auto simp: b plain_substreams_def simp del: active_records.simps(2))
    next
      case (Some guid)
      obtain e1 d1 where r: "replay_active os z n (kind rec) (payload rec) (e, d) = Inr (e1, d1)"
        and rest: "try_fold (chain_record selected (replay_active os z n)) (active, seen, (e1, d1)) recs = Inr (active', seen', (e', d'))"
        using prems(7) Some by (auto simp: b result_simps)
      obtain st1 where i: "image_active crc32 n rec st = Inr st1"
        and irest: "try_fold (image_record k crc32 selected key_material n) st1 recs = Inr st'"
        using prems(6,8) Some by (auto simp: b result_simps)
      have t: "type_is n t (kind rec)" using prems(4) Some by (simp add: b del: active_records.simps(2))
      have f: "in_file bytes rec" using prems(1) by simp
      have nx: "unat (im_next st) + 1 < 2 ^ 64" using prems(2) by simp
      have s: "image_sim k z crc32 bytes t st1 (e1, d1) \<and> unat (im_next st1) \<le> unat (im_next st) + 1 \<and>
          im_active st1 = im_active st \<and> im_seen st1 = im_seen st"
        using image_active_sim [OF _ _ z prems(5) nx t r i] f by (simp add: in_file_def)
      show ?thesis
        using prems s rest irest Some
        by (intro IH [of st1 active e1 d1 seen]) (auto simp: b plain_substreams_def simp del: active_records.simps(2))
    qed
  qed
qed

lemma build_image_sim:
  assumes z: "fills_buffer z" and r: "reads (new_reader src) recs r'"
    and "plain_substreams (bs_of_list (plan_chain plan)) recs"
    and "list_all (\<lambda>rec. type_is (rp_object_id resolved) t (kind rec)) (active_records (bs_of_list (plan_chain plan)) None recs)"
    and b: "build_image k crc32 (Some src) plan resolved key_material = Inr img"
    and d: "replay_object k os z (Some src) plan (rp_object_id resolved) key_material [] = Inr d"
    and plain: "bg_features (plan_target plan) AND FEATURE_RAW = 0"
  shows "indexed_image k z crc32 img \<and>
    seg_view (block_bytes k z crc32 (si_file img) (si_keys img)) (si_segments img) = list_view d \<and>
    si_len img = rp_logical_size resolved"
proof -
  let ?sel = "bs_of_list (plan_chain plan)" and ?n = "rp_object_id resolved"
  from b obtain st r1 where "stream_loop (image_record k crc32 ?sel key_material ?n) (new_reader src) image_start = Inr (st, r1)"
    and img: "img = \<lparr>si_file = src_bytes src, si_len = rp_logical_size resolved, si_segments = im_segments st, si_keys = im_keys st\<rparr>"
    by (auto simp: build_image_def open_stream_def result_simps split: if_splits)
  then have i: "try_fold (image_record k crc32 ?sel key_material ?n) image_start recs = Inr st"
    using reads_deterministic [OF r] by (auto simp: stream_loop_reads)
  from d plain obtain a seen e r2 where
    "stream_loop (chain_record ?sel (replay_active os z ?n)) (new_reader src) (None, [], (False, [])) = Inr ((a, seen, (e, d)), r2)"
    by (auto simp: replay_object_def replay_chain_def open_stream_def result_simps split: if_splits)
  then have c: "try_fold (chain_record ?sel (replay_active os z ?n)) (None, [], (False, [])) recs = Inr (a, seen, (e, d))"
    using reads_deterministic [OF r] by (auto simp: stream_loop_reads)
  have "image_sim k z crc32 (src_bytes src) t image_start (False, [])"
    using image_sim_reset [of k z crc32 "src_bytes src" t False image_start] by (simp add: image_start_def)
  then have "image_sim k z crc32 (src_bytes src) t st (e, d)"
    using image_fold_sim [OF z reads_in_file(1) [OF r] _ assms(3,4) _ _ c i] reads_in_file(2) [OF r]
    by (simp add: image_start_def RECORD_SIZE_def)
  then show ?thesis
    by (auto simp: img image_sim_def blocks_ok_def blocks_of_def indexed_image_def)
qed

end

text \<open>A sequence of reads of an image: the block cache of each is left to the next.\<close>

fun read_ranges ::
  "crypto \<Rightarrow> codecs \<Rightarrow> (byte list \<Rightarrow> u32) \<Rightarrow> stream_image \<Rightarrow> block_cache \<Rightarrow> (u64 \<times> nat) list \<Rightarrow> byte list result list" where
  "read_ranges k z crc32 img cache [] = []"
| "read_ranges k z crc32 img cache ((off, n) # ranges) =
     (case read_exact_at k z crc32 img off n cache of (cache, res) \<Rightarrow> res # read_ranges k z crc32 img cache ranges)"

lemma read_ranges_view:
  assumes "indexed_image k z crc32 img" and "seg_view (block_bytes k z crc32 (si_file img) (si_keys img)) (si_segments img) = list_view d"
    and "cache_ok k z crc32 img cache" and "list_all (\<lambda>(off, n). unat off + n \<le> unat (si_len img)) ranges"
  shows "read_ranges k z crc32 img cache ranges = map (\<lambda>(off, n). Inr (map (list_view d) [unat off ..< unat off + n])) ranges"
  using assms(3,4)
proof (induction ranges arbitrary: cache)
  case (Cons range ranges)
  obtain off n where range: "range = (off, n)" by (cases range)
  with Cons.prems obtain cache' where "read_exact_at k z crc32 img off n cache = (cache', Inr (map (list_view d) [unat off ..< unat off + n]))"
    "cache_ok k z crc32 img cache'"
    using indexed_image.read_exact_at_view [OF assms(1), of off n cache] assms(2) by auto
  with Cons range show ?case by simp
qed simp

lemma slice_clip: "a + n \<le> m \<Longrightarrow> slice (clip c m) a (a + n) = map c [a ..< a + n]"
  by (rule nth_equalityI) (simp_all add: clip_def nth_slice)

section \<open>Property\<close>

text \<open>C4: reading a nested image gives the bytes extraction would have written. When the index of
  a plain stream is built and the same object could be extracted, every sequence of reads within
  the object's size succeeds, whatever blocks the cache holds in between, and each read returns
  the range of the extracted file. The object must keep its type through the chain: the index
  starts over when the type of an existing object changes, extraction does not.\<close>

theorem nested_reads_agree_with_extraction:
  assumes "posix_files (ev_os ev)" and "fills_buffer z"
    and "bg_features (plan_target plan) AND FEATURE_RAW = 0"
    and "reads (new_reader src) recs r'" and "plain_substreams (bs_of_list (plan_chain plan)) recs"
    and "list_all (\<lambda>rec. type_is (rp_object_id resolved) t (kind rec)) (active_records (bs_of_list (plan_chain plan)) None recs)"
    and "build_image k crc32 (Some src) plan resolved key_material = Inr img"
    and "extract_file k z ev (Some src) plan resolved out key_material = Inr d"
    and "list_all (\<lambda>(off, n). unat off + n \<le> length d) ranges"
  shows "read_ranges k z crc32 img None ranges = map (\<lambda>(off, n). Inr (slice d (unat off) (unat off + n))) ranges"
proof -
  obtain d0 where r: "replay_object k (ev_os ev) z (Some src) plan (rp_object_id resolved) key_material [] = Inr d0"
    and d: "d = clip (list_view d0) (unat (rp_logical_size resolved))"
    using assms(8) posix_files.set_len_ok [OF assms(1)]
    by (auto simp: extract_file_def set_len_def result_simps resize_is_clip)
  note i = posix_files.build_image_sim [OF assms(1,2,4-7) r assms(3)]
  have "read_ranges k z crc32 img None ranges = map (\<lambda>(off, n). Inr (map (list_view d0) [unat off ..< unat off + n])) ranges"
    using i d assms(9) by (intro read_ranges_view) (auto simp: cache_ok_def)
  then show ?thesis using assms(9) by (auto simp: d slice_clip list_all_iff)
qed

lemma demo_build_image:
  "\<exists>img. build_image null_crypto (\<lambda>_. 0) (Some (demo_source 19)) demo_plan (demo_resolved 6) None = Inr img"
proof -
  have "\<exists>st r'. stream_loop (image_record null_crypto (\<lambda>_. 0) (bs_of_list [17]) None 1) (new_reader (demo_source 19)) image_start = Inr (st, r') \<and>
      saw_end r' \<and> im_exists st \<and> im_seen st = [(17, ())]"
  proof -
    obtain recs r' where r: "reads (new_reader (demo_source 19)) recs r'" and e: "saw_end r'"
      and m: "map (\<lambda>rec. (kind rec, payload rec)) recs = demo_chain 19"
      by (rule demo_chain_reads)
    have "\<exists>st. try_fold (image_record null_crypto (\<lambda>_. 0) (bs_of_list [17]) None 1) image_start recs = Inr st \<and>
        im_exists st \<and> im_seen st = [(17, ())]"
      using m by (auto simp: demo_chain_def map_eq_Cons_conv image_record_def image_begin_def demo_begin_def demo_object_def
          demo_write_def image_active_def image_start_def DMU_SUBSTREAM_def FEATURE_RAW_def seg_insert_def seg_remove_def
          u64_max_def checked_add_def bs_insert_def Let_def)
    with r e show ?thesis by (auto simp: stream_loop_reads)
  qed
  then show ?thesis
    by (auto simp: build_image_def open_stream_def demo_plan_def demo_resolved_def)
qed

theorem nested_reads_agree_with_extraction_witness:
  "\<exists>img. build_image null_crypto (\<lambda>_. 0) (Some (demo_source 19)) demo_plan (demo_resolved 6) None = Inr img \<and>
     read_ranges null_crypto plain_codecs (\<lambda>_. 0) img None [(2, 3), (0, 4), (6, 0)] = [Inr [3, 4, 5], Inr [1, 2, 3, 4], Inr []]"
proof -
  obtain img where b: "build_image null_crypto (\<lambda>_. 0) (Some (demo_source 19)) demo_plan (demo_resolved 6) None = Inr img"
    using demo_build_image by blast
  obtain recs r' where r: "reads (new_reader (demo_source 19)) recs r'"
    and m: "map (\<lambda>rec. (kind rec, payload rec)) recs = demo_chain 19"
    by (rule demo_chain_reads)
  have a: "posix_files (ev_os demo_env)" "fills_buffer plain_codecs" "bg_features (plan_target demo_plan) AND FEATURE_RAW = 0"
    by (simp_all add: demo_env_def ideal.posix_files_axioms fills_buffer_plain demo_plan_def demo_begin_def FEATURE_RAW_def)
  have "plain_substreams (bs_of_list (plan_chain demo_plan)) recs"
    and "list_all (\<lambda>rec. type_is (rp_object_id (demo_resolved 6)) 19 (kind rec)) (active_records (bs_of_list (plan_chain demo_plan)) None recs)"
    using m by (auto simp: demo_chain_def map_eq_Cons_conv plain_substreams_def demo_begin_def FEATURE_RAW_def type_is_def
        demo_object_def demo_plan_def activate_def)
  note w = nested_reads_agree_with_extraction [OF a r this b demo_extract_file, of "[(2, 3), (0, 4), (6, 0)]"]
  show ?thesis
    using b w by (simp add: demo_block_bytes_def resize_def slice_def)
qed

end
