(* ===== verification/Lznt1.thy ===== *)
theory Lznt1
  imports Prelude
begin

text \<open>
  The LZNT1 decoder of src/ntfs_compression.rs (\<open>decode_lznt1\<close>, \<open>decode_chunk\<close>). The decoders write
  into a caller's buffer and may fail half-way, so they return the buffer together with the outcome.
  The format is specified by its encoder: chunks of literal and match tokens in groups of eight
  behind a flag byte, or stored verbatim. Decoding inverts every encoding, and on any input at all the
  decoder never indexes outside its buffer.
\<close>

section \<open>Model\<close>

definition CHUNK :: nat where "CHUNK = 4096"

text \<open>The number of length bits of a match token at a position of the chunk.\<close>

fun lz_shift :: "nat \<Rightarrow> nat \<Rightarrow> nat" where
  "lz_shift destination shift =
     (if shift > 4 \<and> 2 ^ (16 - shift) < destination then lz_shift destination (shift - 1) else shift)"

declare lz_shift.simps [simp del]

text \<open>The distance and length of the match token \<open>token\<close> at a position.\<close>

definition match_of :: "nat \<Rightarrow> nat \<Rightarrow> nat \<times> nat" where
  "match_of destination token =
     (let shift = lz_shift destination 12 in (drop_bit shift token + 1, (token AND (push_bit shift 1 - 1)) + 3))"

text \<open>A store through an index, checked as Rust checks it.\<close>

definition index_set :: "'a list \<Rightarrow> nat \<Rightarrow> 'a \<Rightarrow> 'a list result" where
  "index_set xs i v = (if i < length xs then Inr (xs[i := v]) else Inl (Panic ''index out of bounds''))"

text \<open>The bounds checks of the indexing \<open>output[destination] = output[destination - distance]\<close> are
  part of the model: an index outside the buffer, or before its start, is a panic.\<close>

fun copy_match :: "nat \<Rightarrow> nat \<Rightarrow> nat \<Rightarrow> byte list \<Rightarrow> byte list \<times> unit result" where
  "copy_match 0 distance destination out = (out, Inr ())"
| "copy_match (Suc n) distance destination out =
     (if distance > destination \<or> \<not> destination - distance < length out then (out, Inl (Panic ''index out of bounds''))
      else if \<not> destination < length out then (out, Inl (Panic ''index out of bounds''))
      else copy_match n distance (Suc destination) (out[destination := out ! (destination - distance)]))"

text \<open>One flag byte and up to eight tokens: the input left, the position and the buffer.\<close>

fun decode_tokens ::
  "byte \<Rightarrow> nat list \<Rightarrow> byte list \<Rightarrow> nat \<Rightarrow> byte list \<Rightarrow> byte list \<times> (byte list \<times> nat) result" where
  "decode_tokens flags [] input destination out = (out, Inr (input, destination))"
| "decode_tokens flags (i # bits) [] destination out = (out, Inr ([], destination))"
| "decode_tokens flags (i # bits) (b # rest) destination out =
     (if flags AND push_bit i 1 = 0 then
        if \<not> destination < length out then (out, Inl (Bail ''LZNT1 literal exceeds chunk''))
        else (case index_set out destination b of
            Inl e \<Rightarrow> (out, Inl e)
          | Inr out' \<Rightarrow> decode_tokens flags bits rest (destination + 1) out')
      else case get_range (b # rest) 0 2 of
        None \<Rightarrow> (out, Inl (Bail ''truncated LZNT1 back-reference''))
      | Some bytes \<Rightarrow>
          case match_of destination (unat (from_le_bytes bytes :: u16)) of (distance, len) \<Rightarrow>
             if distance > destination then (out, Inl (Bail ''LZNT1 back-reference precedes chunk''))
             else if length out < destination then (out, Inl (Panic ''attempt to subtract with overflow''))
             else if len > length out - destination then (out, Inl (Bail ''LZNT1 back-reference exceeds chunk''))
             else case copy_match len distance destination out of
                    (out', Inl e) \<Rightarrow> (out', Inl e)
                  | (out', Inr _) \<Rightarrow> decode_tokens flags bits (drop 1 rest) (destination + len) out')"

lemma decode_tokens_shorter:
  "decode_tokens flags bits input destination out = (out', Inr (input', destination')) \<Longrightarrow> length input' \<le> length input"
  by (induction flags bits input destination out rule: decode_tokens.induct)
    (auto split: if_splits option.splits prod.splits sum.splits unit.splits, fastforce+)

function decode_groups :: "byte list \<Rightarrow> nat \<Rightarrow> byte list \<Rightarrow> byte list \<times> nat result" where
  "decode_groups input destination out =
     (case input of
        [] \<Rightarrow> (out, Inr destination)
      | flags # rest \<Rightarrow>
          if rest = [] then (out, Inl (Bail ''LZNT1 flag byte has no data''))
          else case decode_tokens flags [0 ..< 8] rest destination out of
                 (out, Inl e) \<Rightarrow> (out, Inl e)
               | (out, Inr (input, destination)) \<Rightarrow> decode_groups input destination out)"
  by pat_completeness auto
termination
  by (relation "measure (\<lambda>(input, destination, out). length input)") (auto dest!: sym [THEN decode_tokens_shorter])

declare decode_groups.simps [simp del]

definition decode_chunk :: "byte list \<Rightarrow> byte list \<Rightarrow> byte list \<times> nat result" where
  "decode_chunk input out = decode_groups input 0 out"

text \<open>One chunk of the stream: its header, its bytes and where they go; \<open>None\<close> bytes written are an error.\<close>

definition decode_header :: "byte list \<Rightarrow> (u16 \<times> byte list \<times> byte list) result" where
  "decode_header input =
     and_then (ok_or (get_range input 0 2) (Bail ''truncated LZNT1 chunk header'')) (\<lambda>bytes.
     let header = from_le_bytes bytes :: u16 in
     if header = 0 then Inl (Bail ''LZNT1 stream ended before initialized data'')
     else if header AND 0x7000 \<noteq> 0x3000 then Inl (Bail ''invalid LZNT1 chunk signature'')
     else let size = unat (header AND 0x0fff) + 1; input = drop 2 input in
       and_then (ok_or (get_range input 0 size) (Bail ''truncated LZNT1 chunk'')) (\<lambda>chunk.
       Inr (header, chunk, drop size input)))"

lemma decode_header_shorter: "decode_header input = Inr (header, chunk, rest) \<Longrightarrow> length rest < length input"
  by (auto simp: decode_header_def result_simps Let_def slice_simps split: if_splits)

definition decode_into :: "u16 \<Rightarrow> byte list \<Rightarrow> byte list \<Rightarrow> byte list \<times> nat result" where
  "decode_into header chunk target =
     (if header AND 0x8000 = 0 then
        if length chunk > length target then (target, Inl (Bail ''LZNT1 raw chunk exceeds output''))
        else (case index_range target 0 (length chunk) of
            Inl e \<Rightarrow> (target, Inl e)
          | Inr _ \<Rightarrow> (blit 0 chunk target, Inr (length chunk)))
      else decode_chunk chunk target)"

function lznt1_chunks :: "nat \<Rightarrow> byte list \<Rightarrow> nat \<Rightarrow> byte list \<Rightarrow> byte list \<times> unit result" where
  "lznt1_chunks required input destination out =
     (if \<not> destination < required then (out, Inr ())
      else case decode_header input of
        Inl e \<Rightarrow> (out, Inl e)
      | Inr (header, chunk, rest) \<Rightarrow>
          let end = min (destination + CHUNK) (length out) in
          if \<not> destination < end then (out, Inl (Bail ''LZNT1 output limit exceeded''))
          else case index_range out destination end of
            Inl e \<Rightarrow> (out, Inl e)
          | Inr target \<Rightarrow>
              case decode_into header chunk target of
                 (target, Inl e) \<Rightarrow> (blit destination target out, Inl e)
               | (target, Inr written) \<Rightarrow>
                   if written = CHUNK \<or> destination + written \<ge> required
                   then lznt1_chunks required rest (destination + written) (blit destination target out)
                   else (blit destination target out, Inl (Bail ''short LZNT1 chunk before initialized data ends'')))"
  by pat_completeness auto
termination
  by (relation "measure (\<lambda>(required, input, destination, out). length input)") (auto dest: decode_header_shorter)

declare lznt1_chunks.simps [simp del]

definition decode_lznt1 :: "byte list \<Rightarrow> byte list \<Rightarrow> nat \<Rightarrow> byte list \<times> unit result" where
  "decode_lznt1 input out required =
     (if required > length out then (out, Inl (Bail ''LZNT1 output limit exceeded''))
      else lznt1_chunks required input 0 out)"

section \<open>The buffer keeps its length\<close>

lemma length_index_set: "index_set xs i v = Inr ys \<longleftrightarrow> i < length xs \<and> ys = xs[i := v]"
  by (auto simp: index_set_def)

lemma length_copy_match [simp]: "length (fst (copy_match n distance destination out)) = length out"
  by (induction n distance destination out rule: copy_match.induct) simp_all

lemma length_copy_match_eq: "copy_match n distance destination out = (out', r) \<Longrightarrow> length out' = length out"
  using length_copy_match [of n distance destination out] by simp

lemma length_decode_tokens: "length (fst (decode_tokens flags bits input destination out)) = length out"
proof (induction flags bits input destination out rule: decode_tokens.induct)
  case (3 flags i bits b rest destination out)
  show ?case
  proof (cases "flags AND push_bit i 1 = 0")
    case True
    then show ?thesis using 3(1) by (auto simp: length_index_set split: sum.split)
  next
    case False
    show ?thesis
    proof (cases "get_range (b # rest) 0 2")
      case (Some bytes)
      obtain distance len where m: "match_of destination (unat (from_le_bytes bytes :: u16)) = (distance, len)"
        by (cases "match_of destination (unat (from_le_bytes bytes :: u16))")
      obtain out' r where c: "copy_match len distance destination out = (out', r)" by (cases "copy_match len distance destination out")
      show ?thesis
        using 3(2) [OF False Some m [symmetric] _ _ _ c [symmetric]] length_copy_match_eq [OF c] False
        by (cases r) (simp_all add: Some m c)
    qed (use False in simp)
  qed
qed simp_all

lemma length_decode_groups: "length (fst (decode_groups input destination out)) = length out"
proof (induction input destination out rule: decode_groups.induct)
  case (1 input destination out)
  show ?case
  proof (cases input)
    case (Cons flags rest)
    then show ?thesis
      using 1 [OF Cons] length_decode_tokens [of flags "[0 ..< 8]" rest destination out]
      by (subst decode_groups.simps) (auto split: prod.splits sum.splits)
  qed (simp add: decode_groups.simps)
qed

lemma length_decode_into: "length (fst (decode_into header chunk target)) = length target"
  by (auto simp: decode_into_def decode_chunk_def length_decode_groups length_blit split: sum.split)

lemma length_lznt1_chunks: "length (fst (lznt1_chunks required input destination out)) = length out"
proof (induction required input destination out rule: lznt1_chunks.induct)
  case (1 required input destination out)
  let ?fin = "min (destination + CHUNK) (length out)"
  have b: "length (blit destination target out) = length out" if "decode_into header chunk (slice out destination ?fin) = (target, r)"
    "destination < ?fin" for header chunk target r
    using that length_decode_into [of header chunk "slice out destination ?fin"] by (simp add: length_blit)
  have i: "index_range out destination ?fin = Inr (slice out destination ?fin)" if "destination < ?fin"
    using that by (intro index_range_ok) auto
  show ?case
    using 1 b i by (subst lznt1_chunks.simps) (auto simp: Let_def split: sum.splits prod.splits)
qed

lemma length_decode_lznt1: "length (fst (decode_lznt1 input out required)) = length out"
  by (simp add: decode_lznt1_def length_lznt1_chunks)

section \<open>The format\<close>

datatype lz_token = Literal byte | Match nat nat

primrec is_match :: "lz_token \<Rightarrow> bool" where
  "is_match (Literal _) = False" | "is_match (Match _ _) = True"

primrec copy_bytes :: "nat \<Rightarrow> nat \<Rightarrow> byte list \<Rightarrow> byte list" where
  "copy_bytes 0 d acc = acc"
| "copy_bytes (Suc n) d acc = copy_bytes n d (acc @ [acc ! (length acc - d)])"

primrec expand_token :: "byte list \<Rightarrow> lz_token \<Rightarrow> byte list" where
  "expand_token acc (Literal b) = acc @ [b]"
| "expand_token acc (Match d n) = copy_bytes n d acc"

definition expand :: "byte list \<Rightarrow> lz_token list \<Rightarrow> byte list" where
  "expand = foldl expand_token"

text \<open>A match reaches back into the chunk, has at least three bytes, and both numbers fit the token.\<close>

primrec token_ok :: "byte list \<Rightarrow> lz_token \<Rightarrow> bool" where
  "token_ok acc (Literal b) = True"
| "token_ok acc (Match d n) = (let shift = lz_shift (length acc) 12 in
     1 \<le> d \<and> d \<le> length acc \<and> d \<le> 2 ^ (16 - shift) \<and> 3 \<le> n \<and> n < 2 ^ shift + 3)"

fun tokens_ok :: "byte list \<Rightarrow> lz_token list \<Rightarrow> bool" where
  "tokens_ok acc [] = True"
| "tokens_ok acc (t # ts) = (token_ok acc t \<and> tokens_ok (expand_token acc t) ts)"

primrec token_bytes :: "byte list \<Rightarrow> lz_token \<Rightarrow> byte list" where
  "token_bytes acc (Literal b) = [b]"
| "token_bytes acc (Match d n) = le_bytes 2 ((d - 1) * 2 ^ lz_shift (length acc) 12 + (n - 3))"

fun encode_tokens :: "byte list \<Rightarrow> lz_token list \<Rightarrow> byte list" where
  "encode_tokens acc [] = []"
| "encode_tokens acc (t # ts) = token_bytes acc t @ encode_tokens (expand_token acc t) ts"

definition flag_byte :: "lz_token list \<Rightarrow> byte" where
  "flag_byte ts = horner_sum of_bool 2 (map is_match ts)"

function encode_groups :: "byte list \<Rightarrow> lz_token list \<Rightarrow> byte list" where
  "encode_groups acc ts =
     (if ts = [] then []
      else flag_byte (take 8 ts) # encode_tokens acc (take 8 ts) @ encode_groups (expand acc (take 8 ts)) (drop 8 ts))"
  by pat_completeness auto
termination
  by (relation "measure (\<lambda>(acc, ts). length ts)") auto

declare encode_groups.simps [simp del]

datatype lz_chunk = Stored "byte list" | Packed "lz_token list"

primrec chunk_plain :: "lz_chunk \<Rightarrow> byte list" where
  "chunk_plain (Stored bs) = bs" | "chunk_plain (Packed ts) = expand [] ts"

primrec chunk_data :: "lz_chunk \<Rightarrow> byte list" where
  "chunk_data (Stored bs) = bs" | "chunk_data (Packed ts) = encode_groups [] ts"

primrec packed_bit :: "lz_chunk \<Rightarrow> nat" where
  "packed_bit (Stored _) = 0" | "packed_bit (Packed _) = 0x8000"

definition encode_chunk :: "lz_chunk \<Rightarrow> byte list" where
  "encode_chunk c = le_bytes 2 (packed_bit c + 0x3000 + (length (chunk_data c) - 1)) @ chunk_data c"

definition chunk_ok :: "lz_chunk \<Rightarrow> bool" where
  "chunk_ok c \<longleftrightarrow> chunk_data c \<noteq> [] \<and> length (chunk_data c) \<le> CHUNK \<and>
     (case c of Stored _ \<Rightarrow> True | Packed ts \<Rightarrow> tokens_ok [] ts)"

section \<open>Decoding inverts encoding\<close>

lemma length_copy_bytes [simp]: "length (copy_bytes n d acc) = length acc + n"
  by (induction n arbitrary: acc) simp_all

lemma copy_match_bytes:
  "1 \<le> d \<Longrightarrow> d \<le> length acc \<Longrightarrow> n \<le> length rest \<Longrightarrow>
   copy_match n d (length acc) (acc @ rest) = (copy_bytes n d acc @ drop n rest, Inr ())"
proof (induction n arbitrary: acc rest)
  case (Suc n)
  then obtain r rest' where rest: "rest = r # rest'" by (cases rest) auto
  have lt: "length acc - d < length acc" using Suc.prems by linarith
  then have "(acc @ rest) ! (length acc - d) = acc ! (length acc - d)" by (simp add: nth_append)
  then have "copy_match (Suc n) d (length acc) (acc @ rest) =
      copy_match n d (length (acc @ [acc ! (length acc - d)])) ((acc @ [acc ! (length acc - d)]) @ rest')"
    using Suc.prems(2) lt by (auto simp: rest list_update_append)
  also have "\<dots> = (copy_bytes (Suc n) d acc @ drop (Suc n) rest, Inr ())"
    using Suc by (subst Suc.IH) (simp_all add: rest)
  finally show ?case .
qed simp

lemma lz_shift_bounds: "4 \<le> s \<Longrightarrow> 4 \<le> lz_shift p s \<and> lz_shift p s \<le> s"
proof (induction p s rule: lz_shift.induct)
  case (1 p s)
  show ?case
  proof (cases "s > 4 \<and> 2 ^ (16 - s) < p")
    case True
    then have eq: "lz_shift p s = lz_shift p (s - 1)" by (subst lz_shift.simps) simp
    have "4 < s" using True by simp
    then have "4 \<le> s - 1" by linarith
    then have "4 \<le> lz_shift p (s - 1) \<and> lz_shift p (s - 1) \<le> s - 1" by (rule 1(1) [OF True])
    then show ?thesis unfolding eq by linarith
  next
    case False
    then have "lz_shift p s = s" by (subst lz_shift.simps) (simp only: if_False)
    then show ?thesis using 1(2) by simp
  qed
qed

lemma unat_from_le_bytes_2: "v < 65536 \<Longrightarrow> unat (from_le_bytes (le_bytes 2 v) :: u16) = v"
  by (simp add: from_le_bytes_def le_nat_le_bytes unsigned_of_nat take_bit_eq_mod)

lemma match_of_token:
  assumes "token_ok acc (Match d n)"
  shows "match_of (length acc) (unat (from_le_bytes (token_bytes acc (Match d n)) :: u16)) = (d, n)"
proof -
  define s where "s = lz_shift (length acc) 12"
  have s: "4 \<le> s" "s \<le> 12" using lz_shift_bounds [of 12 "length acc"] by (simp_all add: s_def)
  have d: "d - 1 < 2 ^ (16 - s)" "1 \<le> d" and n: "n - 3 < 2 ^ s" "3 \<le> n"
    using assms by (auto simp: s_def Let_def)
  have "(d - 1) * 2 ^ s + (n - 3) < (d - 1) * 2 ^ s + 2 ^ s" using n by simp
  also have "\<dots> = (d - 1 + 1) * 2 ^ s" by (simp add: add_mult_distrib)
  also have "\<dots> \<le> 2 ^ (16 - s) * 2 ^ s" using d by (intro mult_right_mono) auto
  also have "\<dots> = 65536" using s by (simp flip: power_add)
  finally have v: "(d - 1) * 2 ^ s + (n - 3) < 65536" .
  have "drop_bit s (k * 2 ^ s + m) = k" if "m < 2 ^ s" for k m :: nat using that by (simp add: drop_bit_eq_div)
  then have "drop_bit s ((d - 1) * 2 ^ s + (n - 3)) = d - 1" using n(1) by blast
  moreover have "(k * 2 ^ s + m) AND (push_bit s 1 - 1) = m" if "m < 2 ^ s" for k m :: nat
  proof -
    have "push_bit s 1 - 1 = (mask s :: nat)" by (simp add: mask_eq_exp_minus_1)
    then show ?thesis using that by (simp only: flip: take_bit_eq_mask) (simp add: take_bit_eq_mod)
  qed
  then have "((d - 1) * 2 ^ s + (n - 3)) AND (push_bit s 1 - 1) = n - 3" using n(1) by blast
  ultimately show ?thesis
    using d n v by (simp add: match_of_def unat_from_le_bytes_2 Let_def flip: s_def)
qed

lemma expand_simps [simp]: "expand acc [] = acc" "expand acc (t # ts) = expand (expand_token acc t) ts"
  by (simp_all add: expand_def)

lemma expand_append: "expand acc (ts @ us) = expand (expand acc ts) us"
  by (simp add: expand_def)

lemma length_expand_token: "length acc \<le> length (expand_token acc t)"
  by (cases t) auto

lemma length_expand: "length acc \<le> length (expand acc ts)"
  by (induction ts arbitrary: acc) (auto intro: order_trans [OF length_expand_token])

lemma tokens_ok_append: "tokens_ok acc (ts @ us) \<longleftrightarrow> tokens_ok acc ts \<and> tokens_ok (expand acc ts) us"
  by (induction ts arbitrary: acc) auto

lemma flag_bit: "i < 8 \<Longrightarrow> i < length ts \<Longrightarrow> flag_byte ts AND push_bit i 1 = 0 \<longleftrightarrow> \<not> is_match (ts ! i)"
  by (simp add: flag_byte_def and_exp_eq_0_iff_not_bit bit_horner_sum_bit_word_iff)

lemma decode_tokens_encoded:
  assumes "tokens_ok acc g" and "length (expand acc g) \<le> length acc + length rest"
    and "i + length g = 8 \<or> i + length g < 8 \<and> tail = []"
    and "\<And>j. j < length g \<Longrightarrow> flags AND push_bit (i + j) 1 = 0 \<longleftrightarrow> \<not> is_match (g ! j)"
  shows "decode_tokens flags [i ..< 8] (encode_tokens acc g @ tail) (length acc) (acc @ rest) =
    (expand acc g @ drop (length (expand acc g) - length acc) rest, Inr (tail, length (expand acc g)))"
  using assms
proof (induction g arbitrary: acc i rest)
  case Nil
  then show ?case by (cases "i < 8") (auto simp: upt_rec [of i 8])
next
  case (Cons t g)
  have i: "[i ..< 8] = i # [Suc i ..< 8]" using Cons.prems(3) by (auto simp: upt_rec [of i 8])
  have fl: "flags AND push_bit (Suc i + j) 1 = 0 \<longleftrightarrow> \<not> is_match (g ! j)" if "j < length g" for j
    using Cons.prems(4) [of "Suc j"] that by simp
  have f0: "flags AND push_bit i 1 = 0 \<longleftrightarrow> \<not> is_match t" using Cons.prems(4) [of 0] by simp
  have le: "length (expand_token acc t) \<le> length (expand acc (t # g))" by (simp add: length_expand)
  note IH = Cons.IH [where i = "Suc i", OF _ _ _ fl]
  show ?case
  proof (cases t)
    case (Literal b)
    then obtain r rest' where rest: "rest = r # rest'" using Cons.prems(2) le by (cases rest) auto
    have "decode_tokens flags [Suc i ..< 8] (encode_tokens (acc @ [b]) g @ tail) (length (acc @ [b])) ((acc @ [b]) @ rest') =
        (expand (acc @ [b]) g @ drop (length (expand (acc @ [b]) g) - length (acc @ [b])) rest', Inr (tail, length (expand (acc @ [b]) g)))"
      using Cons.prems Literal by (intro IH) (auto simp: rest)
    moreover have "length (expand (acc @ [b]) g) - length acc = Suc (length (expand (acc @ [b]) g) - length (acc @ [b]))"
      using length_expand [of "acc @ [b]" g] by simp
    ultimately show ?thesis using f0 Literal by (simp add: i rest list_update_append index_set_def)
  next
    case (Match d n)
    let ?acc = "copy_bytes n d acc"
    have ok: "token_ok acc (Match d n)" using Cons.prems(1) Match by simp
    then have dn: "1 \<le> d" "d \<le> length acc" by (auto simp: Let_def)
    have n: "n \<le> length rest" using Cons.prems(2) le Match by simp
    have l2: "length (token_bytes acc (Match d n)) = 2" by simp
    have "decode_tokens flags [Suc i ..< 8] (encode_tokens ?acc g @ tail) (length ?acc) (?acc @ drop n rest) =
        (expand ?acc g @ drop (length (expand ?acc g) - length ?acc) (drop n rest), Inr (tail, length (expand ?acc g)))"
      using Cons.prems Match n by (intro IH) auto
    moreover have "length (expand ?acc g) - length ?acc + n = length (expand ?acc g) - length acc"
      using length_expand [of ?acc g] by simp
    moreover obtain x y where tb: "token_bytes acc (Match d n) = [x, y]"
      using l2 by (auto simp: numeral_2_eq_2 length_Suc_conv)
    moreover have "get_range (x # y # xs) 0 2 = Some [x, y]" for xs by (simp add: get_range_def slice_def)
    ultimately show ?thesis
      using f0 dn n Match match_of_token [OF ok, unfolded tb] copy_match_bytes [OF dn n]
      by (simp add: i del: token_bytes.simps)
  qed
qed

lemma encode_tokens_nonempty: "ts \<noteq> [] \<Longrightarrow> encode_tokens acc ts \<noteq> []"
proof (cases ts)
  case (Cons t us)
  have "length (token_bytes acc t) > 0" by (cases t) simp_all
  then show ?thesis by (simp add: Cons)
qed simp

lemma decode_groups_encoded:
  "tokens_ok acc ts \<Longrightarrow> length (expand acc ts) \<le> length acc + length rest \<Longrightarrow>
   decode_groups (encode_groups acc ts) (length acc) (acc @ rest) =
     (expand acc ts @ drop (length (expand acc ts) - length acc) rest, Inr (length (expand acc ts)))"
proof (induction acc ts arbitrary: rest rule: encode_groups.induct)
  case (1 acc ts)
  show ?case
  proof (cases "ts = []")
    case True
    then show ?thesis by (simp add: encode_groups.simps decode_groups.simps)
  next
    case False
    let ?g = "take 8 ts" and ?us = "drop 8 ts"
    let ?acc = "expand acc ?g"
    have e: "expand acc ts = expand ?acc ?us" using expand_append [of acc ?g ?us] by simp
    have ok: "tokens_ok acc ?g" "tokens_ok ?acc ?us" using 1(2) tokens_ok_append [of acc ?g ?us] by simp_all
    have len: "length ?acc \<le> length (expand acc ts)" by (simp add: e length_expand)
    let ?rest = "drop (length ?acc - length acc) rest"
    have "decode_tokens (flag_byte ?g) [0 ..< 8] (encode_tokens acc ?g @ encode_groups ?acc ?us) (length acc) (acc @ rest) =
        (?acc @ ?rest, Inr (encode_groups ?acc ?us, length ?acc))"
    proof (rule decode_tokens_encoded [OF ok(1)])
      show "length ?acc \<le> length acc + length rest" using len 1(3) by linarith
      show "0 + length ?g = 8 \<or> 0 + length ?g < 8 \<and> encode_groups ?acc ?us = []"
        by (auto simp: encode_groups.simps [of _ "[]"] min_def)
      show "(flag_byte ?g AND push_bit (0 + j) 1 = 0) = (\<not> is_match (?g ! j))" if "j < length ?g" for j
        using flag_bit [of j ?g] that by simp
    qed
    moreover have "decode_groups (encode_groups ?acc ?us) (length ?acc) (?acc @ ?rest) =
        (expand ?acc ?us @ drop (length (expand ?acc ?us) - length ?acc) ?rest, Inr (length (expand ?acc ?us)))"
      using 1(1) [OF False ok(2)] 1(3) e len length_expand [of acc ?g] by simp
    moreover have "drop (length (expand ?acc ?us) - length ?acc) ?rest = drop (length (expand acc ts) - length acc) rest"
      using e len length_expand [of acc ?g] by simp
    ultimately show ?thesis
      using False encode_tokens_nonempty [of ?g acc]
      by (subst encode_groups.simps, subst decode_groups.simps) (simp add: e)
  qed
qed

lemma decode_chunk_encoded:
  assumes "tokens_ok [] ts" and "length (expand [] ts) \<le> length out"
  shows "decode_chunk (encode_groups [] ts) out = (blit 0 (expand [] ts) out, Inr (length (expand [] ts)))"
  using decode_groups_encoded [of "[]" ts out] assms by (simp add: decode_chunk_def blit_def)

lemma chunk_header:
  assumes "x < 4096" and "p = 0 \<or> p = 0x8000"
  defines "h \<equiv> from_le_bytes (le_bytes 2 (p + 0x3000 + x)) :: u16"
  shows "h \<noteq> 0" and "h AND 0x7000 = 0x3000" and "unat (h AND 0x0fff) = x" and "h AND 0x8000 = 0 \<longleftrightarrow> p = 0"
proof -
  have u: "unat h = p + 0x3000 + x" unfolding h_def using assms(1,2) by (intro unat_from_le_bytes_2) auto
  show "h \<noteq> 0" using u by auto
  have m: "h AND 0x0fff = take_bit 12 h" by (simp add: take_bit_eq_mask mask_eq_exp_minus_1)
  have "unat (take_bit 12 h) = take_bit 12 (unat h)" by (simp add: unsigned_take_bit_eq)
  moreover have "(x + k * 4096) mod 4096 = x" for k using assms(1) by simp
  note this [of 3] this [of 11]
  ultimately show "unat (h AND 0x0fff) = x" using assms(2) unfolding m by (auto simp: u take_bit_eq_mod add.commute)
  have d: "drop_bit 12 h = (if p = 0 then 3 else 11)"
  proof -
    have "unat (drop_bit 12 h) = (p + 0x3000 + x) div 4096" by (simp add: drop_bit_eq_div unat_div u)
    also have "\<dots> = (if p = 0 then 3 else 11)" using assms(1,2) by auto
    finally show ?thesis by (simp add: word_unat_eq_iff split: if_splits)
  qed
  have "h AND push_bit 12 m = push_bit 12 (drop_bit 12 h AND m)" for m
    by (rule bit_word_eqI) (auto simp: bit_simps)
  from this [of 7] this [of 8] show "h AND 0x7000 = 0x3000" and "h AND 0x8000 = 0 \<longleftrightarrow> p = 0" by (simp_all add: d)
qed

lemma decode_header_intro:
  assumes "length hb = 2" and "from_le_bytes hb = h" and "h \<noteq> 0" "h AND 0x7000 = 0x3000" "length chunk = unat (h AND 0x0fff) + 1"
  shows "decode_header (hb @ chunk @ rest) = Inr (h, chunk, rest)"
  using assms by (simp add: decode_header_def get_range_def slice_def Let_def)

lemma decode_encoded_chunk:
  assumes "chunk_ok c"
  obtains h where "decode_header (encode_chunk c @ rest) = Inr (h, chunk_data c, rest)"
    and "length (chunk_plain c) \<le> length target \<Longrightarrow>
      decode_into h (chunk_data c) target = (blit 0 (chunk_plain c) target, Inr (length (chunk_plain c)))"
proof
  let ?x = "length (chunk_data c) - 1"
  define h where "h = (from_le_bytes (le_bytes 2 (packed_bit c + 0x3000 + ?x)) :: u16)"
  have x: "?x < 4096" "length (chunk_data c) = Suc ?x" using assms by (auto simp: chunk_ok_def CHUNK_def)
  have p: "packed_bit c = 0 \<or> packed_bit c = 0x8000" by (cases c) simp_all
  note hd = chunk_header [OF x(1) p, folded h_def]
  show "decode_header (encode_chunk c @ rest) = Inr (h, chunk_data c, rest)"
    unfolding encode_chunk_def append_assoc by (rule decode_header_intro) (use hd x in \<open>simp_all add: h_def\<close>)
  show "decode_into h (chunk_data c) target = (blit 0 (chunk_plain c) target, Inr (length (chunk_plain c)))"
    if "length (chunk_plain c) \<le> length target"
    using that hd(4) assms by (cases c) (auto simp: decode_into_def decode_chunk_encoded chunk_ok_def index_range_ok)
qed

lemma lznt1_chunks_encoded:
  assumes "list_all chunk_ok cs" and "list_all (\<lambda>c. length (chunk_plain c) = CHUNK) (butlast cs)"
    and "list_all (\<lambda>c. length (chunk_plain c) \<le> CHUNK) cs"
    and "length (concat (map chunk_plain cs)) \<le> length rest"
    and "length acc + length (concat (map chunk_plain (butlast cs))) < required" and "cs \<noteq> []"
    and "required \<le> length acc + length (concat (map chunk_plain cs))"
  shows "lznt1_chunks required (concat (map encode_chunk cs) @ padding) (length acc) (acc @ rest) =
    (acc @ concat (map chunk_plain cs) @ drop (length (concat (map chunk_plain cs))) rest, Inr ())"
  using assms
proof (induction cs arbitrary: acc rest)
  case (Cons c cs)
  let ?p = "chunk_plain c" and ?input = "concat (map encode_chunk cs) @ padding"
  let ?fin = "min (length acc + CHUNK) (length (acc @ rest))"
  have lt: "length acc < required" using Cons.prems(5) by linarith
  have fit: "length ?p \<le> CHUNK" "length ?p \<le> length rest" using Cons.prems(3,4) by auto
  have sl: "slice (acc @ rest) (length acc) ?fin = take CHUNK rest" by (auto simp: slice_def min_def)
  have full: "length ?p = CHUNK \<or> cs = []" using Cons.prems(2) by (cases cs) auto
  have p0: "length rest > 0"
    using Cons.prems(4,7) lt by linarith
  obtain h where h: "decode_header (encode_chunk c @ ?input) = Inr (h, chunk_data c, ?input)"
    "decode_into h (chunk_data c) (take CHUNK rest) = (blit 0 ?p (take CHUNK rest), Inr (length ?p))"
    using Cons.prems(1) fit decode_encoded_chunk [of c ?input "take CHUNK rest"] by (metis length_take list.pred_inject(2) min.boundedI)
  have bl: "blit (length acc) (blit 0 ?p (take CHUNK rest)) (acc @ rest) = (acc @ ?p) @ drop (length ?p) rest"
  proof -
    have "length (blit 0 ?p (take CHUNK rest)) = min CHUNK (length rest)" using fit by (simp add: length_blit)
    moreover have "drop (min CHUNK (length rest)) rest = drop CHUNK rest" by (simp add: min_def)
    moreover have "take (CHUNK - length ?p) (drop (length ?p) rest) @ drop CHUNK rest = drop (length ?p) rest"
      using append_take_drop_id [of "CHUNK - length ?p" "drop (length ?p) rest"] fit by simp
    ultimately show ?thesis by (simp add: blit_def [of "length acc"]) (simp add: blit_def drop_take)
  qed
  have wr: "length ?p = CHUNK \<or> length acc + length ?p \<ge> required" using full Cons.prems(7) by auto
  have step: "lznt1_chunks required (encode_chunk c @ ?input) (length acc) (acc @ rest) =
      lznt1_chunks required ?input (length (acc @ ?p)) ((acc @ ?p) @ drop (length ?p) rest)"
    using lt h sl p0 wr bl by (subst lznt1_chunks.simps) (auto simp: Let_def CHUNK_def index_range_ok)
  show ?case
  proof (cases "cs = []")
    case True
    then have "lznt1_chunks required ?input (length (acc @ ?p)) ((acc @ ?p) @ drop (length ?p) rest) =
        ((acc @ ?p) @ drop (length ?p) rest, Inr ())"
      using Cons.prems(7) by (subst lznt1_chunks.simps) simp
    then show ?thesis using step True by simp
  next
    case False
    then show ?thesis using step Cons.prems Cons.IH [of "drop (length ?p) rest" "acc @ ?p"] by (simp add: add.commute)
  qed
qed simp

section \<open>The decoder never indexes outside its buffer\<close>

lemma copy_match_in_bounds:
  "distance \<le> destination \<Longrightarrow> destination + n \<le> length out \<Longrightarrow> snd (copy_match n distance destination out) = Inr ()"
  by (induction n distance destination out rule: copy_match.induct) auto

lemma copy_match_succeeds:
  "distance \<le> destination \<Longrightarrow> destination + n \<le> length out \<Longrightarrow>
   copy_match n distance destination out = (fst (copy_match n distance destination out), Inr ())"
  by (simp add: prod_eq_iff copy_match_in_bounds)

text \<open>From a position within the buffer the tokens do not panic and end within the buffer.\<close>

definition in_buffer :: "byte list \<Rightarrow> (byte list \<times> nat) result \<Rightarrow> bool" where
  "in_buffer out r \<longleftrightarrow> no_panic r \<and> (\<forall>input destination. r = Inr (input, destination) \<longrightarrow> destination \<le> length out)"

lemma decode_tokens_in_buffer:
  "destination \<le> length out \<Longrightarrow> in_buffer out (snd (decode_tokens flags bits input destination out))"
proof (induction flags bits input destination out rule: decode_tokens.induct)
  case (3 flags i bits b rest destination out)
  show ?case
  proof (cases "flags AND push_bit i 1 = 0")
    case True
    then show ?thesis using 3(1,3) by (auto simp: index_set_def in_buffer_def)
  next
    case False
    show ?thesis
    proof (cases "get_range (b # rest) 0 2")
      case (Some bytes)
      obtain distance len where m: "match_of destination (unat (from_le_bytes bytes :: u16)) = (distance, len)"
        by (cases "match_of destination (unat (from_le_bytes bytes :: u16))")
      show ?thesis
      proof (cases "distance \<le> destination \<and> len \<le> length out - destination")
        case True
        define out' where "out' = fst (copy_match len distance destination out)"
        have c: "copy_match len distance destination out = (out', Inr ())"
          unfolding out'_def by (rule copy_match_succeeds) (use True 3(3) in auto)
        have l: "length out' = length out" by (simp add: out'_def)
        have "in_buffer out' (snd (decode_tokens flags bits (drop 1 rest) (destination + len) out'))"
          by (rule 3(2) [OF False Some m [symmetric] _ _ _ c [symmetric] refl]) (use True 3(3) l in auto)
        then show ?thesis using False True 3(3) by (simp add: Some m c l in_buffer_def)
      qed (use False 3(3) in \<open>auto simp: Some m in_buffer_def\<close>)
    qed (use False in \<open>simp add: in_buffer_def\<close>)
  qed
qed (auto simp: in_buffer_def)

lemma decode_groups_no_panic: "destination \<le> length out \<Longrightarrow> no_panic (snd (decode_groups input destination out))"
proof (induction input destination out rule: decode_groups.induct)
  case (1 input destination out)
  show ?case
  proof (cases input)
    case (Cons flags rest)
    obtain out' r where d: "decode_tokens flags [0 ..< 8] rest destination out = (out', r)"
      by (cases "decode_tokens flags [0 ..< 8] rest destination out")
    have b: "in_buffer out r" using decode_tokens_in_buffer [OF 1(2), of flags "[0 ..< 8]" rest] d by simp
    have l: "length out' = length out" using length_decode_tokens [of flags "[0 ..< 8]" rest destination out] d by simp
    show ?thesis
    proof (cases r)
      case (Inr x)
      then show ?thesis using 1(1) [OF Cons _ d [symmetric]] b l
        by (subst decode_groups.simps) (cases x, auto simp: Cons d in_buffer_def)
    qed (use b in \<open>subst decode_groups.simps, auto simp: Cons d in_buffer_def no_panic_Inl\<close>)
  qed (simp add: decode_groups.simps)
qed

lemma decode_into_no_panic: "no_panic (snd (decode_into header chunk target))"
  by (simp add: decode_into_def decode_chunk_def decode_groups_no_panic index_range_ok)

lemma decode_header_no_panic: "no_panic (decode_header input)"
  by (auto simp: decode_header_def panic_simps Let_def)

lemma lznt1_chunks_no_panic: "no_panic (snd (lznt1_chunks required input destination out))"
proof (induction required input destination out rule: lznt1_chunks.induct)
  case (1 required input destination out)
  show ?case
  proof (cases "decode_header input")
    case (Inl e)
    then show ?thesis using decode_header_no_panic [of input] by (subst lznt1_chunks.simps) (simp add: no_panic_Inl)
  next
    case (Inr x)
    obtain header chunk rest where x: "x = (header, chunk, rest)" by (cases x)
    let ?fin = "min (destination + CHUNK) (length out)"
    obtain target r where d: "decode_into header chunk (slice out destination ?fin) = (target, r)"
      by (cases "decode_into header chunk (slice out destination ?fin)")
    have "no_panic r" using decode_into_no_panic [of header chunk "slice out destination ?fin"] d by simp
    moreover have "index_range out destination ?fin = Inr (slice out destination ?fin)" if "destination < ?fin"
      using that by (intro index_range_ok) auto
    ultimately show ?thesis
      using 1 [OF _ Inr x [symmetric] refl refl _ _ d [symmetric]]
      by (subst lznt1_chunks.simps, cases r) (auto simp: Inr x d Let_def no_panic_Inl)
  qed
qed

lemma decode_lznt1_no_panic: "no_panic (snd (decode_lznt1 input out required))"
  by (simp add: decode_lznt1_def lznt1_chunks_no_panic)

section \<open>Property\<close>

text \<open>C26: LZNT1 decoding inverts LZNT1 encoding. For every sequence of chunks, each stored or made
  of valid literal and match tokens (matches may overlap their own output), all of 4096 plain bytes
  except the last, decoding their encoding, whatever padding follows it, succeeds with exactly the
  plain bytes in front of the buffer and the rest of the buffer untouched.\<close>

theorem lznt1_round_trip:
  assumes "list_all chunk_ok cs" and "list_all (\<lambda>c. length (chunk_plain c) = CHUNK) (butlast cs)"
    and "list_all (\<lambda>c. length (chunk_plain c) \<le> CHUNK) cs" and "cs \<noteq> []"
    and "length (concat (map chunk_plain (butlast cs))) < required" and "required \<le> length (concat (map chunk_plain cs))"
    and "length (concat (map chunk_plain cs)) \<le> length out"
  shows "decode_lznt1 (concat (map encode_chunk cs) @ padding) out required =
    (blit 0 (concat (map chunk_plain cs)) out, Inr ())"
  using lznt1_chunks_encoded [of cs out "[]" required padding] assms by (simp add: decode_lznt1_def blit_def)

theorem lznt1_round_trip_witness:
  "decode_lznt1 [5, 0xb0, 4, 65, 66, 2, 0x10, 67, 0, 0] (replicate 10 0) 8 = ([65, 66, 65, 66, 65, 66, 65, 67, 0, 0], Inr ())"
proof -
  let ?c = "Packed [Literal 65, Literal 66, Match 2 5, Literal 67]"
  have s: "lz_shift (Suc (Suc 0)) 12 = 12" by (simp add: lz_shift.simps)
  have b: "le_bytes 2 v = [of_nat v, of_nat (v div 256)]" for v by (simp add: numeral_2_eq_2)
  have e: "encode_groups [] [Literal 65, Literal 66, Match 2 5, Literal 67] = [4, 65, 66, 2, 0x10, 67]"
    by (simp add: encode_groups.simps flag_byte_def s b)
  have p: "expand [] [Literal 65, Literal 66, Match 2 5, Literal 67] = [65, 66, 65, 66, 65, 66, 65, 67]"
    by (simp add: numeral_eq_Suc)
  have "decode_lznt1 (concat (map encode_chunk [?c]) @ [0, 0]) (replicate 10 0) 8 =
      (blit 0 (concat (map chunk_plain [?c])) (replicate 10 0), Inr ())"
    by (rule lznt1_round_trip) (simp_all add: chunk_ok_def e p s CHUNK_def)
  moreover have "copy_bytes 5 2 [65, 66] = [65, 66, 65, 66, 65, 66, 65]" by (simp add: numeral_eq_Suc)
  moreover have "replicate 2 (0 :: byte) = [0, 0]" by (simp add: numeral_2_eq_2)
  moreover have w: "(45061 :: byte) = 5" by simp
  ultimately show ?thesis by (simp add: encode_chunk_def e p b blit_def w)
qed

end
