(* ===== verification/Ntfs_Compression.thy ===== *)
theory Ntfs_Compression
  imports Lznt1 BTree
begin

text \<open>
  Compressed NTFS streams (\<open>CompressedStream\<close> of src/ntfs_compression.rs): the run map collected
  from the attributes of a file, and reads through a cache of one decoded compression unit. The
  vendored \<open>ntfs\<close> crate is a parameter: \<open>raw_item\<close> and \<open>ntfs_attribute\<close> are what its iterators
  return. The disk is a parameter \<open>rd offset count\<close>, a seek followed by \<open>read_exact\<close>.
\<close>

section \<open>Model\<close>

definition MAX_RUNS :: nat where "MAX_RUNS = 1000000"

record ntfs_run =
  nr_start :: u64
  nr_end :: u64
  nr_physical :: "u64 option"

record ntfs_extent =
  ne_start :: u64
  ne_end :: u64
  ne_length :: u64
  ne_initialized :: u64
  ne_runs :: "ntfs_run list"

record compressed_stream =
  cs_runs :: "ntfs_run list"
  cs_length :: u64
  cs_initialized :: u64
  cs_unit_size :: nat
  cs_cache :: "byte list"
  cs_cached_unit :: "u64 option"

text \<open>What the \<open>ntfs\<close> crate hands over: a data run, an attribute (its position, record bytes, data
  runs unless it is resident, and the size of the volume), and the items of a file record.\<close>

record data_run =
  dr_size :: u64
  dr_position :: "u64 option"

record ntfs_attribute =
  na_position :: "u64 option"
  na_record :: "byte list"
  na_value :: "data_run result list option result"
  na_volume_size :: u64

datatype list_entry = DataEntry "ntfs_attribute result" | OtherEntry

datatype raw_item = ListItem "list_entry result list result" | DataItem ntfs_attribute | OtherItem

record extent_state =
  es_seen :: "u64 btset"
  es_extents :: "ntfs_extent list"
  es_run_count :: nat

definition in_volume :: "u64 \<Rightarrow> data_run \<Rightarrow> bool" where
  "in_volume volume run =
     (case dr_position run of
        None \<Rightarrow> True
      | Some physical \<Rightarrow> (case checked_add physical (dr_size run) of None \<Rightarrow> False | Some v \<Rightarrow> v \<le> volume))"

fun collect_runs ::
  "u64 \<Rightarrow> u64 \<Rightarrow> u64 \<Rightarrow> data_run result list \<Rightarrow> nat \<Rightarrow> u64 \<Rightarrow> ntfs_run list \<Rightarrow> (nat \<times> u64 \<times> ntfs_run list) result" where
  "collect_runs cluster volume end [] run_count off runs = Inr (run_count, off, runs)"
| "collect_runs cluster volume end (r # rest) run_count off runs =
     and_then (ensure (run_count < MAX_RUNS) ''NTFS run count exceeds the safety limit'') (\<lambda>_.
     and_then r (\<lambda>run.
     let size = dr_size run in
     and_then (ensure (size \<noteq> 0 \<and> size mod cluster = 0) ''invalid NTFS data run length'') (\<lambda>_.
     and_then (ok_or (checked_add off size) (Bail ''NTFS run length overflow'')) (\<lambda>nxt.
     and_then (ensure (nxt \<le> end) ''NTFS data run exceeds its extent'') (\<lambda>_.
     and_then (ensure (in_volume volume run) ''NTFS data run is outside the volume'') (\<lambda>_.
     collect_runs cluster volume end rest (run_count + 1) nxt
       (runs @ [\<lparr>nr_start = off, nr_end = nxt, nr_physical = dr_position run\<rparr>])))))))"

definition add_extent :: "u64 \<Rightarrow> ntfs_attribute \<Rightarrow> extent_state \<Rightarrow> extent_state result" where
  "add_extent cluster a st =
     and_then (ok_or (na_position a) (Bail ''NTFS attribute has no disk position'')) (\<lambda>position.
     if bs_contains (es_seen st) position then Inr st
     else let st = st\<lparr>es_seen := bs_insert position (es_seen st)\<rparr>; h = na_record a in
     and_then (ensure (length (es_extents st) < MAX_RUNS) ''NTFS extent count exceeds the safety limit'') (\<lambda>_.
     and_then (ensure (length h \<ge> 64 \<and> h ! 8 = 1) ''invalid compressed NTFS nonresident header'') (\<lambda>_.
     let flags = from_le_bytes (slice h 12 14) :: u16 in
     and_then (ensure (flags AND 0x00ff = 1 \<and> flags AND 0x4000 = 0)
       ''unsupported NTFS compression format or encrypted stream'') (\<lambda>_.
     and_then (ensure (h ! 34 = 4 \<or> (h ! 34 = 0 \<and> slice h 16 24 \<noteq> replicate 8 0))
       ''unsupported NTFS compression unit exponent {}'') (\<lambda>_.
     and_then (ok_or (checked_mul (from_le_bytes (slice h 16 24)) cluster) (Bail ''NTFS VCN overflow'')) (\<lambda>start.
     and_then (ok_or (case checked_add (from_le_bytes (slice h 24 32)) 1 of None \<Rightarrow> None | Some v \<Rightarrow> checked_mul v cluster)
       (Bail ''NTFS VCN overflow'')) (\<lambda>end.
     let run_offset = unat (from_le_bytes (slice h 32 34) :: u16) in
     and_then (ensure (run_offset \<ge> 64 \<and> run_offset < length h) ''invalid NTFS mapping-pairs offset'') (\<lambda>_.
     and_then (na_value a) (\<lambda>value.
     and_then (ok_or value (Bail ''compressed NTFS extent is not a raw nonresident attribute'')) (\<lambda>data_runs.
     and_then (collect_runs cluster (na_volume_size a) end data_runs (es_run_count st) start []) (\<lambda>(run_count, off, runs).
     and_then (ensure (off = end) ''NTFS run map does not cover its declared extent'') (\<lambda>_.
     Inr (st\<lparr>es_run_count := run_count,
             es_extents := es_extents st @ [\<lparr>ne_start = start, ne_end = end,
               ne_length = from_le_bytes (slice h 48 56), ne_initialized = from_le_bytes (slice h 56 64), ne_runs = runs\<rparr>]\<rparr>)
       ))))))))))))"

fun add_list_entries :: "u64 \<Rightarrow> nat \<Rightarrow> list_entry result list \<Rightarrow> extent_state \<Rightarrow> extent_state result" where
  "add_list_entries cluster count [] st = Inr st"
| "add_list_entries cluster count (e # es) st =
     and_then (ensure (count + 1 \<le> MAX_RUNS) ''NTFS attribute list exceeds the safety limit'') (\<lambda>_.
     and_then e (\<lambda>entry.
     and_then (case entry of
                 OtherEntry \<Rightarrow> Inr st
               | DataEntry a \<Rightarrow> and_then a (\<lambda>a. add_extent cluster a st)) (\<lambda>st.
     add_list_entries cluster (count + 1) es st)))"

definition add_item :: "u64 \<Rightarrow> raw_item result \<Rightarrow> extent_state \<Rightarrow> extent_state result" where
  "add_item cluster item st =
     and_then item (\<lambda>item.
     case item of
       ListItem entries \<Rightarrow> and_then entries (\<lambda>entries. add_list_entries cluster 0 entries st)
     | DataItem a \<Rightarrow> add_extent cluster a st
     | OtherItem \<Rightarrow> Inr st)"

definition join_extent :: "ntfs_extent \<Rightarrow> ntfs_run list \<times> u64 \<Rightarrow> (ntfs_run list \<times> u64) result" where
  "join_extent x = (\<lambda>(runs, end).
     and_then (ensure (ne_start x = end) ''NTFS compressed extents overlap or have a gap at byte {end}'') (\<lambda>_.
     and_then (ensure (length runs + length (ne_runs x) \<le> MAX_RUNS) ''NTFS run count exceeds the safety limit'') (\<lambda>_.
     Inr (runs @ ne_runs x, ne_end x))))"

definition assemble_extents :: "u64 \<Rightarrow> ntfs_extent list \<Rightarrow> compressed_stream result" where
  "assemble_extents cluster extents =
     (case extents of
        [] \<Rightarrow> Inl (Bail ''compressed NTFS stream has no data extents'')
      | first # _ \<Rightarrow>
          and_then (ensure (ne_start first = 0) ''compressed NTFS stream is missing its first extent'') (\<lambda>_.
          let len = ne_length first; initialized = ne_initialized first in
          and_then (ensure (initialized \<le> len) ''NTFS initialized length exceeds file length'') (\<lambda>_.
          let unit_size = unat (cluster * 16) in
          and_then (try_fold join_extent ([], 0) extents) (\<lambda>(runs, end).
          and_then (ok_or (checked_mul (of_nat ((unat initialized + unit_size - 1) div unit_size)) (of_nat unit_size))
            (Bail ''NTFS compression length overflow'')) (\<lambda>required.
          and_then (ensure (end \<ge> required) ''NTFS compressed run map ends before initialized data'') (\<lambda>_.
          Inr \<lparr>cs_runs = runs, cs_length = len, cs_initialized = initialized, cs_unit_size = unit_size,
               cs_cache = replicate unit_size 0, cs_cached_unit = None\<rparr>))))))"

definition open_compressed :: "u64 \<Rightarrow> raw_item result list \<Rightarrow> compressed_stream result" where
  "open_compressed cluster items =
     and_then (ensure (cluster \<in> {512, 1024, 2048, 4096}) ''unsupported NTFS compression cluster size {cluster}'') (\<lambda>_.
     and_then (try_fold (add_item cluster) \<lparr>es_seen = [], es_extents = [], es_run_count = 0\<rparr> items) (\<lambda>st.
     assemble_extents cluster (sort_key ne_start (es_extents st))))"

text \<open>Gathering the allocated bytes of a unit. \<open>partition_point\<close> on the ordered runs is \<open>dropWhile\<close>.\<close>

fun gather_unit ::
  "(u64 \<Rightarrow> nat \<Rightarrow> byte list result) \<Rightarrow> u64 \<Rightarrow> ntfs_run list \<Rightarrow> u64 \<Rightarrow> byte list \<Rightarrow> bool \<Rightarrow> (u64 \<times> byte list \<times> bool) result" where
  "gather_unit rd end [] position packed sparse = Inr (position, packed, sparse)"
| "gather_unit rd end (run # runs) position packed sparse =
     (if position = end then Inr (position, packed, sparse)
      else and_then (ensure (nr_start run \<le> position \<and> nr_end run > position) ''missing NTFS compression run'') (\<lambda>_.
        let count = unat (min (nr_end run) end - position) in
        case nr_physical run of
          None \<Rightarrow> gather_unit rd end runs (position + of_nat count) packed True
        | Some physical \<Rightarrow>
            and_then (ensure (\<not> sparse) ''allocated NTFS clusters follow sparse padding within a compression unit'') (\<lambda>_.
            and_then (ok_or (checked_add physical (position - nr_start run)) (Bail ''NTFS physical offset overflow'')) (\<lambda>off.
            and_then (rd off count) (\<lambda>bytes.
            gather_unit rd end runs (position + of_nat count) (packed @ bytes) sparse)))))"

definition unit_runs ::
  "(u64 \<Rightarrow> nat \<Rightarrow> byte list result) \<Rightarrow> compressed_stream \<Rightarrow> u64 \<Rightarrow> (u64 \<times> byte list \<times> bool) result" where
  "unit_runs rd cs unit =
     and_then (ok_or (checked_mul unit (of_nat (cs_unit_size cs))) (Bail ''NTFS unit offset overflow'')) (\<lambda>start.
     and_then (ok_or (checked_add start (of_nat (cs_unit_size cs))) (Bail ''NTFS unit offset overflow'')) (\<lambda>end.
     and_then (gather_unit rd end (dropWhile (\<lambda>run. nr_end run \<le> start) (cs_runs cs)) start [] False)
       (\<lambda>(position, packed, sparse).
     and_then (ensure (position = end) ''truncated NTFS compression unit run map'') (\<lambda>_.
     Inr (start, packed, sparse)))))"

definition load_unit ::
  "(u64 \<Rightarrow> nat \<Rightarrow> byte list result) \<Rightarrow> u64 \<Rightarrow> compressed_stream \<Rightarrow> compressed_stream \<times> unit result" where
  "load_unit rd unit cs =
     (case unit_runs rd cs unit of
        Inl e \<Rightarrow> (cs, Inl e)
      | Inr (start, packed, sparse) \<Rightarrow>
          let cs = cs\<lparr>cs_cache := replicate (length (cs_cache cs)) 0\<rparr> in
          if packed = [] then (cs, Inr ())
          else if \<not> sparse then
            if length packed \<noteq> length (cs_cache cs) then (cs, Inl (Panic ''copy_from_slice: source slice length does not match''))
            else (cs\<lparr>cs_cache := packed\<rparr>, Inr ())
          else let required = min (unat (cs_initialized cs - start)) (cs_unit_size cs) in
            case decode_lznt1 packed (cs_cache cs) required of (cache, r) \<Rightarrow> (cs\<lparr>cs_cache := cache\<rparr>, r))"

text \<open>The unit is loaded unless it is the cached one. A failed load leaves \<open>cached_unit\<close> as it was.\<close>

definition ensure_unit ::
  "(u64 \<Rightarrow> nat \<Rightarrow> byte list result) \<Rightarrow> u64 \<Rightarrow> compressed_stream \<Rightarrow> compressed_stream \<times> unit result" where
  "ensure_unit rd unit cs =
     (if cs_cached_unit cs \<noteq> Some unit then
        case load_unit rd unit cs of
          (cs, Inl e) \<Rightarrow> (cs, Inl e)
        | (cs, Inr _) \<Rightarrow> (cs\<lparr>cs_cached_unit := Some unit\<rparr>, Inr ())
      else (cs, Inr ()))"

text \<open>The read loop: the bytes still to read are counted down, the bytes read are returned.\<close>

function read_units ::
  "(u64 \<Rightarrow> nat \<Rightarrow> byte list result) \<Rightarrow> u64 \<Rightarrow> nat \<Rightarrow> compressed_stream \<Rightarrow> compressed_stream \<times> byte list result" where
  "read_units rd position remaining cs =
     (if remaining = 0 then (cs, Inr [])
      else if position \<ge> cs_initialized cs then (cs, Inr (replicate remaining 0))
      else if cs_unit_size cs = 0 then (cs, Inl (Panic ''attempt to divide by zero''))
      else
        let unit = position div of_nat (cs_unit_size cs); within = unat position mod cs_unit_size cs;
            count = min (min remaining (cs_unit_size cs - within)) (unat (cs_initialized cs - position))
        in case ensure_unit rd unit cs of
             (cs, Inl e) \<Rightarrow> (cs, Inl e)
           | (cs, Inr _) \<Rightarrow>
               (case index_range (cs_cache cs) within (within + count) of
                  Inl e \<Rightarrow> (cs, Inl e)
                | Inr bytes \<Rightarrow>
                    (case read_units rd (position + of_nat count) (remaining - count) cs of
                       (cs, Inl e) \<Rightarrow> (cs, Inl e)
                     | (cs, Inr rest) \<Rightarrow> (cs, Inr (bytes @ rest)))))"
  by pat_completeness auto
termination
  by (relation "measure (\<lambda>(rd, position, remaining, cs). remaining)") (auto simp: unat_gt_0 not_le)

declare read_units.simps [simp del]

definition read_compressed ::
  "(u64 \<Rightarrow> nat \<Rightarrow> byte list result) \<Rightarrow> u64 \<Rightarrow> nat \<Rightarrow> compressed_stream \<Rightarrow> compressed_stream \<times> byte list result" where
  "read_compressed rd off n cs =
     (if unat off + n < 2 ^ 64 \<and> unat off + n \<le> unat (cs_length cs) then read_units rd off n cs
      else (cs, Inl (Bail ''read exceeds compressed NTFS file length'')))"

section \<open>Reads through the unit cache\<close>

text \<open>What loading a unit puts into the cache; it does not depend on what the cache held.\<close>

definition unit_content ::
  "(u64 \<Rightarrow> nat \<Rightarrow> byte list result) \<Rightarrow> compressed_stream \<Rightarrow> u64 \<Rightarrow> byte list result" where
  "unit_content rd cs unit = (case load_unit rd unit cs of (cs', r) \<Rightarrow> and_then r (\<lambda>_. Inr (cs_cache cs')))"

definition cache_consistent :: "(u64 \<Rightarrow> nat \<Rightarrow> byte list result) \<Rightarrow> compressed_stream \<Rightarrow> bool" where
  "cache_consistent rd cs \<longleftrightarrow> 0 < cs_unit_size cs \<and> cs_unit_size cs < 2 ^ 64 \<and> length (cs_cache cs) = cs_unit_size cs \<and>
     (case cs_cached_unit cs of None \<Rightarrow> True | Some unit \<Rightarrow> unit_content rd cs unit = Inr (cs_cache cs))"

lemma load_unit_frame:
  assumes "load_unit rd unit cs = (cs', r)"
  shows "cs' = cs\<lparr>cs_cache := cs_cache cs'\<rparr>" and "length (cs_cache cs') = length (cs_cache cs)"
  using assms length_decode_lznt1 [of _ "replicate (length (cs_cache cs)) 0"]
  by (auto simp: load_unit_def Let_def split: sum.splits if_splits prod.splits) (metis fst_conv length_replicate)+

lemma load_unit_cache:
  assumes "length c = length (cs_cache cs)"
  shows "load_unit rd unit (cs\<lparr>cs_cache := c, cs_cached_unit := u\<rparr>) =
    (case load_unit rd unit cs of (cs', Inr x) \<Rightarrow> (cs'\<lparr>cs_cached_unit := u\<rparr>, Inr x)
     | (cs', Inl e) \<Rightarrow> (cs\<lparr>cs_cache := (case unit_runs rd cs unit of Inl _ \<Rightarrow> c | _ \<Rightarrow> cs_cache cs'), cs_cached_unit := u\<rparr>, Inl e))"
proof -
  have "unit_runs rd (cs\<lparr>cs_cache := c, cs_cached_unit := u\<rparr>) unit = unit_runs rd cs unit" by (simp add: unit_runs_def)
  then show ?thesis using assms by (auto simp: load_unit_def Let_def split: sum.splits prod.splits)
qed

lemma unit_content_cache:
  "length c = length (cs_cache cs) \<Longrightarrow> unit_content rd (cs\<lparr>cs_cache := c, cs_cached_unit := u\<rparr>) unit = unit_content rd cs unit"
  by (auto simp: unit_content_def load_unit_cache split: prod.splits sum.splits)

lemma ensure_unit_ok:
  assumes "cache_consistent rd cs" and "ensure_unit rd unit cs = (cs', Inr ())"
  shows "unit_content rd cs unit = Inr (cs_cache cs')" and "cache_consistent rd cs'"
    and "cs' = cs\<lparr>cs_cache := cs_cache cs', cs_cached_unit := cs_cached_unit cs'\<rparr>" and "length (cs_cache cs') = length (cs_cache cs)"
proof -
  have *: "unit_content rd cs unit = Inr (cs_cache cs') \<and> cs' = cs\<lparr>cs_cache := cs_cache cs', cs_cached_unit := cs_cached_unit cs'\<rparr> \<and>
    length (cs_cache cs') = length (cs_cache cs) \<and> cs_cached_unit cs' = Some unit"
  proof (cases "cs_cached_unit cs = Some unit")
    case True
    then show ?thesis using assms by (auto simp: ensure_unit_def cache_consistent_def)
  next
    case False
    then obtain cs1 where l: "load_unit rd unit cs = (cs1, Inr ())" and cs': "cs' = cs1\<lparr>cs_cached_unit := Some unit\<rparr>"
      using assms(2) by (auto simp: ensure_unit_def split: prod.splits sum.splits)
    obtain c where c: "cs1 = cs\<lparr>cs_cache := c\<rparr>" using load_unit_frame(1) [OF l] by blast
    then show ?thesis using load_unit_frame(2) [OF l] l by (simp add: cs' unit_content_def)
  qed
  then show "unit_content rd cs unit = Inr (cs_cache cs')" and "length (cs_cache cs') = length (cs_cache cs)"
    and cs': "cs' = cs\<lparr>cs_cache := cs_cache cs', cs_cached_unit := cs_cached_unit cs'\<rparr>" by auto
  have "unit_content rd cs' unit = unit_content rd cs unit"
    using unit_content_cache [of "cs_cache cs'" cs rd "cs_cached_unit cs'" unit] * cs' by simp
  then show "cache_consistent rd cs'" using assms(1) * by (subst cs') (simp add: cache_consistent_def unit_content_cache)
qed

text \<open>The byte of the stream at a position: of the decoded unit, or zero beyond the initialized length.\<close>

definition stream_byte :: "(u64 \<Rightarrow> nat \<Rightarrow> byte list result) \<Rightarrow> compressed_stream \<Rightarrow> nat \<Rightarrow> byte result" where
  "stream_byte rd cs p =
     (if p \<ge> unat (cs_initialized cs) then Inr 0
      else and_then (unit_content rd cs (of_nat (p div cs_unit_size cs))) (\<lambda>unit. Inr (unit ! (p mod cs_unit_size cs))))"

lemma stream_byte_cache:
  "length c = length (cs_cache cs) \<Longrightarrow> stream_byte rd (cs\<lparr>cs_cache := c, cs_cached_unit := u\<rparr>) p = stream_byte rd cs p"
  by (simp add: stream_byte_def unit_content_cache)

lemma same_unit:
  fixes p u i :: nat
  assumes "p mod u + i < u"
  shows "(p + i) div u = p div u" and "(p + i) mod u = p mod u + i"
proof -
  show "(p + i) mod u = p mod u + i" using mod_add_left_eq [of p u i] assms by simp
  have "p + i = (p mod u + i) + u * (p div u)" by simp
  then have "(p + i) div u = ((p mod u + i) + u * (p div u)) div u" by (simp only:)
  also have "\<dots> = p div u" using assms by (subst div_mult_self2) auto
  finally show "(p + i) div u = p div u" .
qed

lemma same_stream_refl: "\<exists>c u. cs = cs\<lparr>cs_cache := c, cs_cached_unit := u\<rparr>" for cs :: compressed_stream
  by (intro exI [of _ "cs_cache cs"] exI [of _ "cs_cached_unit cs"]) simp

lemma read_units_bytes:
  assumes "cache_consistent rd cs" and "read_units rd position n cs = (cs', Inr bytes)" and "unat position + n < 2 ^ 64"
  shows "cache_consistent rd cs' \<and> (\<exists>c u. cs' = cs\<lparr>cs_cache := c, cs_cached_unit := u\<rparr>) \<and> length bytes = n \<and>
    (\<forall>i < n. stream_byte rd cs (unat position + i) = Inr (bytes ! i))"
  using assms
proof (induction rd position n cs arbitrary: cs' bytes rule: read_units.induct)
  case (1 rd position n cs)
  consider "n = 0" | "n \<noteq> 0" "position \<ge> cs_initialized cs" | "n \<noteq> 0" "position < cs_initialized cs" by force
  then show ?case
  proof cases
    case 1
    then show ?thesis using "1.prems" same_stream_refl [of cs'] by (simp add: read_units.simps [of _ _ 0])
  next
    case 2
    then show ?thesis using "1.prems" same_stream_refl [of cs'] by (subst (asm) read_units.simps) (auto simp: stream_byte_def word_le_nat_alt)
  next
    case 3
    let ?us = "cs_unit_size cs" and ?p = "unat position"
    let ?unit = "position div of_nat ?us" and ?within = "?p mod ?us"
    define count where "count = min (min n (?us - ?within)) (unat (cs_initialized cs - position))"
    have us: "?us \<noteq> 0" "?us < 2 ^ 64" using "1.prems"(1) by (simp_all add: cache_consistent_def)
    have nle: "\<not> cs_initialized cs \<le> position" using 3(2) by simp
    from "1.prems"(2) [unfolded read_units.simps [of rd position n cs]] 3(1) nle us obtain cs1 bytes1 rest where e: "ensure_unit rd ?unit cs = (cs1, Inr ())"
      and b1: "index_range (cs_cache cs1) ?within (?within + count) = Inr bytes1"
      and r: "read_units rd (position + of_nat count) (n - count) cs1 = (cs', Inr rest)" and bytes: "bytes = bytes1 @ rest"
      by (auto simp: Let_def simp flip: count_def split: prod.splits sum.splits)
    note eu = ensure_unit_ok [OF "1.prems"(1) e]
    have fields: "cs_unit_size cs1 = ?us" "cs_initialized cs1 = cs_initialized cs" by (subst eu(3), simp)+
    have w: "?within < ?us" using us by simp
    have "count \<le> ?us - ?within" by (simp add: count_def)
    then have cn: "count \<le> n" "?within + count \<le> ?us" using w by (simp add: count_def, linarith)
    have ci: "?p + count \<le> unat (cs_initialized cs)"
    proof -
      have "unat (cs_initialized cs - position) = unat (cs_initialized cs) - ?p"
        using 3(2) by (intro unat_sub) simp
      then show ?thesis using 3(2) by (simp add: count_def word_less_nat_alt)
    qed
    have u: "unat (position + of_nat count) = ?p + count"
      using cn(1) "1.prems"(3) by (simp add: unat_add_u64 unat_of_nat_u64)
    have unit: "of_nat ((?p + i) div ?us) = ?unit" "(?p + i) mod ?us = ?within + i" if "i < count" for i
    proof -
      have lt: "?within + i < ?us" using that cn(2) by linarith
      note same_unit [OF lt]
      moreover have "unat (?unit) = ?p div ?us" using us by (simp add: unat_div unat_of_nat_u64)
      then have "of_nat (?p div ?us) = ?unit" by (metis of_nat_unat ucast_id)
      ultimately show "of_nat ((?p + i) div ?us) = ?unit" and "(?p + i) mod ?us = ?within + i" by (simp_all only:)
    qed
    have IH: "cache_consistent rd cs' \<and> (\<exists>c u. cs' = cs1\<lparr>cs_cache := c, cs_cached_unit := u\<rparr>) \<and> length rest = n - count \<and>
        (\<forall>i < n - count. stream_byte rd cs1 (unat (position + of_nat count) + i) = Inr (rest ! i))"
    proof (rule "1.IH" [OF _ _ _ refl refl _ e [symmetric] refl _ eu(2) r])
      show "n \<noteq> 0" "\<not> cs_initialized cs \<le> position" "cs_unit_size cs \<noteq> 0" using 3 us by auto
      show "count = min (min n (?us - ?within)) (unat (cs_initialized cs - position))" by (rule count_def)
      show "index_range (cs_cache cs1) ?within (?within + count) = Inr bytes1" by (rule b1)
      show "unat (position + of_nat count) + (n - count) < 2 ^ 64" using u cn(1) "1.prems"(3) by simp
    qed
    have sb: "stream_byte rd cs1 p = stream_byte rd cs p" for p
      by (subst eu(3)) (rule stream_byte_cache [OF eu(4)])
    have l1: "length bytes1 = count" and n1: "i < count \<Longrightarrow> bytes1 ! i = cs_cache cs1 ! (?within + i)" for i
      using b1 by (auto simp: index_range_Inr_iff nth_slice)
    have "stream_byte rd cs (?p + i) = Inr (bytes ! i)" if "i < n" for i
    proof (cases "i < count")
      case True
      then have "?p + i < unat (cs_initialized cs)" using ci by linarith
      then show ?thesis using True unit [OF True] eu(1) n1 [OF True] l1 by (simp add: stream_byte_def bytes nth_append)
    next
      case False
      then show ?thesis using IH that u sb l1 by (auto simp: bytes nth_append dest!: spec [of _ "i - count"])
    qed
    moreover have "\<exists>c u. cs' = cs\<lparr>cs_cache := c, cs_cached_unit := u\<rparr>"
    proof -
      obtain c u where "cs' = cs1\<lparr>cs_cache := c, cs_cached_unit := u\<rparr>" using IH by blast
      moreover obtain c1 u1 where "cs1 = cs\<lparr>cs_cache := c1, cs_cached_unit := u1\<rparr>" using eu(3) by blast
      ultimately have "cs' = cs\<lparr>cs_cache := c, cs_cached_unit := u\<rparr>" by simp
      then show ?thesis by blast
    qed
    ultimately show ?thesis using IH l1 cn(1) bytes by simp
  qed
qed

end
