(* ===== verification/Ntfs_Reads.thy ===== *)
theory Ntfs_Reads
  imports Ntfs_Compression
begin

text \<open>
  Properties of compressed NTFS streams: the run map an opened stream has, the absence of panics,
  what reads return, and what a failed read does to the cache.
\<close>

section \<open>Opened streams have a complete run map\<close>

text \<open>Runs that follow each other without a gap, each of them within the addresses of the disk.\<close>

definition run_ok :: "ntfs_run \<Rightarrow> bool" where
  "run_ok run \<longleftrightarrow> nr_start run < nr_end run \<and>
     (case nr_physical run of None \<Rightarrow> True | Some physical \<Rightarrow> unat physical + (unat (nr_end run) - unat (nr_start run)) < 2 ^ 64)"

fun run_chain :: "u64 \<Rightarrow> ntfs_run list \<Rightarrow> u64 \<Rightarrow> bool" where
  "run_chain s [] e = (s = e)"
| "run_chain s (run # runs) e = (nr_start run = s \<and> run_ok run \<and> run_chain (nr_end run) runs e)"

lemma run_chain_append: "run_chain s (xs @ ys) e \<longleftrightarrow> (\<exists>m. run_chain s xs m \<and> run_chain m ys e)"
  by (induction xs arbitrary: s) auto

lemma run_chain_le: "run_chain s runs e \<Longrightarrow> s \<le> e"
  by (induction runs arbitrary: s) (auto simp: run_ok_def intro: order_trans less_imp_le)

lemma collected_run_ok:
  assumes "dr_size run \<noteq> 0" and "checked_add off (dr_size run) = Some nxt" and "in_volume volume run"
  shows "run_ok \<lparr>nr_start = off, nr_end = nxt, nr_physical = dr_position run\<rparr>"
proof -
  have u: "unat nxt = unat off + unat (dr_size run)" using assms(2) by (simp add: checked_simps)
  moreover have "0 < unat (dr_size run)" using assms(1) by (simp add: unat_gt_0)
  moreover have "unat p + unat (dr_size run) < 2 ^ 64" if "dr_position run = Some p" for p
    using assms(3) that by (auto simp: in_volume_def checked_add_def split: if_splits option.splits)
  ultimately show ?thesis by (auto simp: run_ok_def word_less_nat_alt split: option.splits)
qed

lemma collect_runs_chain:
  assumes "collect_runs cluster volume end rs n off runs = Inr (n', off', runs')" and "run_chain s runs off"
  shows "run_chain s runs' off'"
  using assms
proof (induction rs arbitrary: n off runs)
  case (Cons r rest)
  from Cons.prems(1) obtain run nxt where sz: "dr_size run \<noteq> 0" and nxt: "checked_add off (dr_size run) = Some nxt"
    and ph: "in_volume volume run"
    and rest: "collect_runs cluster volume end rest (n + 1) nxt
       (runs @ [\<lparr>nr_start = off, nr_end = nxt, nr_physical = dr_position run\<rparr>]) = Inr (n', off', runs')"
    by (auto simp: result_simps Let_def)
  have "run_chain s (runs @ [\<lparr>nr_start = off, nr_end = nxt, nr_physical = dr_position run\<rparr>]) nxt"
    using Cons.prems(2) collected_run_ok [OF sz nxt ph] by (auto simp: run_chain_append)
  then show ?case by (rule Cons.IH [OF rest])
qed simp

definition extents_ok :: "extent_state \<Rightarrow> bool" where
  "extents_ok st \<longleftrightarrow> (\<forall>x \<in> set (es_extents st). run_chain (ne_start x) (ne_runs x) (ne_end x))"

lemma collect_runs_start: "collect_runs cluster volume end rs n s [] = Inr (n', off', runs') \<Longrightarrow> run_chain s runs' off'"
  by (rule collect_runs_chain [where runs = "[]" and off = s]) (assumption, simp)

lemma add_extent_ok: "add_extent cluster a st = Inr st' \<Longrightarrow> extents_ok st \<Longrightarrow> extents_ok st'"
  by (auto simp: add_extent_def result_simps Let_def extents_ok_def split: if_splits dest!: collect_runs_start)

lemma add_list_entries_ok: "add_list_entries cluster count es st = Inr st' \<Longrightarrow> extents_ok st \<Longrightarrow> extents_ok st'"
proof (induction es arbitrary: count st)
  case (Cons e es)
  then obtain entry st1 where s: "(case entry of OtherEntry \<Rightarrow> Inr st | DataEntry a \<Rightarrow> and_then a (\<lambda>a. add_extent cluster a st)) = Inr st1"
    and rest: "add_list_entries cluster (count + 1) es st1 = Inr st'"
    by (auto simp: result_simps)
  have "extents_ok st1" using s Cons.prems(2) by (cases entry) (auto simp: result_simps intro: add_extent_ok)
  then show ?case by (rule Cons.IH [OF rest])
qed simp

lemma add_item_ok: "add_item cluster item st = Inr st' \<Longrightarrow> extents_ok st \<Longrightarrow> extents_ok st'"
proof -
  assume a: "add_item cluster item st = Inr st'" and ok: "extents_ok st"
  then obtain x where x: "item = Inr x" by (auto simp: add_item_def result_simps)
  show "extents_ok st'"
    using a x ok by (cases x) (auto simp: add_item_def result_simps intro: add_extent_ok add_list_entries_ok)
qed

lemma join_extents_chain:
  assumes "try_fold join_extent (runs, end) xs = Inr (runs', end')" and "run_chain 0 runs end"
    and "\<forall>x \<in> set xs. run_chain (ne_start x) (ne_runs x) (ne_end x)"
  shows "run_chain 0 runs' end'"
  using assms
proof (induction xs arbitrary: runs "end")
  case (Cons x xs)
  have "join_extent x (runs, end) = Inr st \<Longrightarrow> ne_start x = end \<and> st = (runs @ ne_runs x, ne_end x)" for st
    by (auto simp: join_extent_def result_simps)
  then have "ne_start x = end" and rest: "try_fold join_extent (runs @ ne_runs x, ne_end x) xs = Inr (runs', end')"
    using Cons.prems(1) by (auto simp: result_simps)
  then have "run_chain 0 (runs @ ne_runs x) (ne_end x)" using Cons.prems by (auto simp: run_chain_append)
  then show ?case using Cons.IH [OF rest] Cons.prems(3) by simp
qed simp

text \<open>What \<open>open_compressed\<close> establishes: a chain of runs from zero that covers every unit with
  initialized bytes.\<close>

definition run_map_ok :: "compressed_stream \<Rightarrow> bool" where
  "run_map_ok cs \<longleftrightarrow> cs_initialized cs \<le> cs_length cs \<and> 0 < cs_unit_size cs \<and> cs_unit_size cs \<le> 65536 \<and>
     (\<exists>end. run_chain 0 (cs_runs cs) end \<and>
       (unat (cs_initialized cs) + cs_unit_size cs - 1) div cs_unit_size cs * cs_unit_size cs \<le> unat end)"

lemma ceil_le: "0 < u \<Longrightarrow> (n + u - 1) div u \<le> (n :: nat)"
proof -
  assume u: "0 < u"
  show "(n + u - 1) div u \<le> n"
  proof (cases n)
    case 0
    then show ?thesis using u by simp
  next
    case (Suc m)
    then have "(n + u - 1) div u = m div u + 1" using u div_add_self2 [of u m] by simp
    then show ?thesis using Suc by simp
  qed
qed

lemma assemble_extents_ok:
  assumes a: "assemble_extents cluster extents = Inr cs" and us: "0 < unat (cluster * 16)" "unat (cluster * 16) \<le> 65536"
    and ch: "\<forall>x \<in> set extents. run_chain (ne_start x) (ne_runs x) (ne_end x)"
  shows "run_map_ok cs" and "cache_consistent rd cs"
proof -
  obtain first others where x: "extents = first # others" using a by (cases extents) (auto simp: assemble_extents_def)
  let ?us = "unat (cluster * 16)"
  let ?q = "(unat (ne_initialized first) + ?us - 1) div ?us"
  obtain runs en required where il: "ne_initialized first \<le> ne_length first"
    and j: "try_fold join_extent ([], 0) extents = Inr (runs, en)"
    and m: "checked_mul (of_nat ?q) (of_nat ?us) = Some required" and e: "en \<ge> required"
    and cs: "cs = \<lparr>cs_runs = runs, cs_length = ne_length first, cs_initialized = ne_initialized first, cs_unit_size = ?us,
              cs_cache = replicate ?us 0, cs_cached_unit = None\<rparr>"
    using a unfolding x by (auto simp: assemble_extents_def result_simps Let_def simp del: of_nat_unat try_fold.simps)
  have "unat (of_nat ?q :: u64) = ?q"
    using unat_less_u64 [of "ne_initialized first"] ceil_le [OF us(1), of "unat (ne_initialized first)"]
    by (intro unat_of_nat_u64) linarith
  then have "?q * ?us \<le> unat en" using m e by (simp add: checked_simps word_le_nat_alt)
  then show "run_map_ok cs" using us il join_extents_chain [OF j _ ch] by (auto simp: run_map_ok_def cs)
  show "cache_consistent rd cs" using us by (simp add: cache_consistent_def cs)
qed

lemma open_compressed_ok:
  assumes "open_compressed cluster items = Inr cs"
  shows "run_map_ok cs" and "cache_consistent rd cs"
proof -
  from assms obtain st where c: "cluster \<in> {512, 1024, 2048, 4096}"
    and f: "try_fold (add_item cluster) \<lparr>es_seen = [], es_extents = [], es_run_count = 0\<rparr> items = Inr st"
    and a: "assemble_extents cluster (sort_key ne_start (es_extents st)) = Inr cs"
    unfolding open_compressed_def by (simp only: result_simps) blast
  have us: "0 < unat (cluster * 16)" "unat (cluster * 16) \<le> 65536" using c by auto
  have "extents_ok st"
    by (rule try_fold_invariant [OF f, of extents_ok]) (simp add: extents_ok_def, rule add_item_ok)
  then have "\<forall>x \<in> set (sort_key ne_start (es_extents st)). run_chain (ne_start x) (ne_runs x) (ne_end x)"
    by (simp add: extents_ok_def)
  from assemble_extents_ok [OF a us this] show "run_map_ok cs" and "cache_consistent rd cs" by auto
qed

lemma run_chain_dropWhile:
  assumes "run_chain s runs e" and "s \<le> start"
  shows "\<exists>s'. run_chain s' (dropWhile (\<lambda>run. nr_end run \<le> start) runs) e \<and> s' \<le> start \<and>
    (dropWhile (\<lambda>run. nr_end run \<le> start) runs = [] \<or> start < nr_end (hd (dropWhile (\<lambda>run. nr_end run \<le> start) runs)))"
  using assms by (induction runs arbitrary: s) (auto simp: not_le)

lemma gather_unit_complete:
  assumes "run_chain s runs e" and "s \<le> position" and "position \<le> end" and "end \<le> e"
    and "runs = [] \<or> position = end \<or> position < nr_end (hd runs)"
  shows "(\<exists>packed' sparse'. gather_unit rd end runs position packed sparse = Inr (end, packed', sparse')) \<or>
    gather_unit rd end runs position packed sparse = Inl (Bail ''allocated NTFS clusters follow sparse padding within a compression unit'') \<or>
    (\<exists>off n err. rd off n = Inl err \<and> gather_unit rd end runs position packed sparse = Inl err)"
  using assms
proof (induction runs arbitrary: s position packed sparse)
  case Nil
  then show ?case by simp
next
  case (Cons run runs)
  show ?case
  proof (cases "position = end")
    case False
    have ok: "run_ok run" "nr_start run = s" and chain: "run_chain (nr_end run) runs e" using Cons.prems(1) by simp_all
    have lt: "position < nr_end run" "position < end" using Cons.prems(3,5) False by auto
    let ?count = "unat (min (nr_end run) end - position)" and ?pos = "min (nr_end run) end"
    have pos: "position + of_nat ?count = ?pos" by simp
    have next_ok: "?pos \<le> end" "runs = [] \<or> ?pos = end \<or> ?pos < nr_end (hd runs)" "nr_end run \<le> ?pos \<or> ?pos = end"
      using chain by (auto simp: min_def run_ok_def neq_Nil_conv)
    have IH: "(\<exists>packed' sparse'. gather_unit rd end runs ?pos p sp = Inr (end, packed', sparse')) \<or>
        gather_unit rd end runs ?pos p sp = Inl (Bail ''allocated NTFS clusters follow sparse padding within a compression unit'') \<or>
        (\<exists>off n err. rd off n = Inl err \<and> gather_unit rd end runs ?pos p sp = Inl err)" for p sp
    proof (cases "nr_end run \<le> ?pos")
      case True
      then show ?thesis using Cons.IH [OF chain True next_ok(1) Cons.prems(4) next_ok(2)] by blast
    next
      case False
      then have "?pos = end" using next_ok(3) by blast
      moreover have "gather_unit rd end runs end p sp = Inr (end, p, sp)" by (cases runs) simp_all
      ultimately show ?thesis by simp
    qed
    show ?thesis
    proof (cases "nr_physical run")
      case None
      then show ?thesis
        using IH False lt ok(2) Cons.prems(2) by (simp add: ensure_def Let_def pos del: of_nat_unat)
    next
      case (Some physical)
      have "unat (position - nr_start run) = unat position - unat s" using Cons.prems(2) ok(2) by (simp add: unat_sub)
      then have "unat physical + unat (position - nr_start run) < 2 ^ 64"
        using ok Some lt(1) by (auto simp: run_ok_def word_less_nat_alt)
      then obtain off where off: "checked_add physical (position - nr_start run) = Some off" by (auto simp: checked_add_def)
      show ?thesis
      proof (cases "rd off ?count")
        case (Inl err)
        then show ?thesis
          using False lt ok(2) Cons.prems(2) Some off by (cases sparse) (auto simp: ensure_def Let_def pos simp del: of_nat_unat)
      next
        case (Inr bytes)
        then show ?thesis
          using IH False lt ok(2) Cons.prems(2) Some off by (cases sparse) (simp_all add: ensure_def Let_def pos del: of_nat_unat)
      qed
    qed
  qed simp
qed

lemma unit_runs_complete:
  assumes ok: "run_map_ok cs" and lt: "unat unit * cs_unit_size cs < unat (cs_initialized cs)"
  shows "(\<exists>start packed sparse. unat start = unat unit * cs_unit_size cs \<and> unit_runs rd cs unit = Inr (start, packed, sparse)) \<or>
    unit_runs rd cs unit = Inl (Bail ''allocated NTFS clusters follow sparse padding within a compression unit'') \<or>
    (\<exists>off n err. rd off n = Inl err \<and> unit_runs rd cs unit = Inl err)"
proof -
  let ?us = "cs_unit_size cs" and ?n = "unat (cs_initialized cs)"
  from ok obtain e where us: "0 < ?us" "?us \<le> 65536" and chain: "run_chain 0 (cs_runs cs) e"
    and cover: "(?n + ?us - 1) div ?us * ?us \<le> unat e" by (auto simp: run_map_ok_def)
  have "unat unit < (?n + ?us - 1) div ?us"
  proof -
    have "Suc (unat unit) * ?us \<le> ?n + ?us - 1" using lt by simp
    then have "Suc (unat unit) \<le> (?n + ?us - 1) div ?us" using us(1) by (simp add: less_eq_div_iff_mult_less_eq)
    then show ?thesis by simp
  qed
  then have "Suc (unat unit) * ?us \<le> (?n + ?us - 1) div ?us * ?us" by (intro mult_right_mono) auto
  then have en: "unat unit * ?us + ?us \<le> unat e" using cover by simp
  then have b: "unat unit * ?us + ?us < 2 ^ 64" using unat_less_u64 [of e] by simp
  have uu: "unat (of_nat ?us :: u64) = ?us" using us(2) by (intro unat_of_nat_u64) simp
  obtain start where start: "checked_mul unit (of_nat ?us) = Some start" and s: "unat start = unat unit * ?us"
    using b uu by (auto simp: checked_mul_def unat_mult_u64)
  obtain fin where fin: "checked_add start (of_nat ?us) = Some fin" and f: "unat fin = unat unit * ?us + ?us"
    using b uu s by (auto simp: checked_add_def unat_add_u64)
  obtain s' where d: "run_chain s' (dropWhile (\<lambda>run. nr_end run \<le> start) (cs_runs cs)) e" "s' \<le> start"
    "dropWhile (\<lambda>run. nr_end run \<le> start) (cs_runs cs) = [] \<or> start = fin \<or>
     start < nr_end (hd (dropWhile (\<lambda>run. nr_end run \<le> start) (cs_runs cs)))"
    using run_chain_dropWhile [OF chain, of start] by auto
  have "start \<le> fin" "fin \<le> e" using s f en by (simp_all add: word_le_nat_alt)
  from gather_unit_complete [OF d(1,2) this d(3), of rd "[]" False] show ?thesis
    by (auto simp: unit_runs_def start fin ensure_def s)
qed

section \<open>No panics\<close>

lemma gather_unit_length:
  assumes "gather_unit rd end runs position packed sparse = Inr (fin, packed', False)"
    and "\<And>off n bytes. rd off n = Inr bytes \<Longrightarrow> length bytes = n" and "position \<le> end"
  shows "\<not> sparse \<and> length packed' = length packed + (unat fin - unat position) \<and> position \<le> fin \<and> fin \<le> end"
  using assms(1,3)
proof (induction runs arbitrary: position packed sparse)
  case Nil
  then show ?case by simp
next
  case (Cons run runs)
  show ?case
  proof (cases "position = end")
    case True
    then show ?thesis using Cons.prems by simp
  next
    case False
    let ?pos = "min (nr_end run) end"
    have pos: "position + of_nat (unat (?pos - position)) = ?pos" by simp
    from Cons.prems(1) False have lt: "position < nr_end run" by (auto simp: result_simps)
    then have le: "position \<le> ?pos" "?pos \<le> end" using Cons.prems(2) by auto
    show ?thesis
    proof (cases "nr_physical run")
      case None
      then have g: "gather_unit rd end runs ?pos packed True = Inr (fin, packed', False)"
        using Cons.prems(1) False by (auto simp: result_simps Let_def pos simp del: of_nat_unat)
      show ?thesis using Cons.IH [OF g le(2)] by simp
    next
      case (Some physical)
      from Cons.prems(1) False Some obtain off bytes where "\<not> sparse" and b: "rd off (unat (?pos - position)) = Inr bytes"
        and g: "gather_unit rd end runs ?pos (packed @ bytes) sparse = Inr (fin, packed', False)"
        by (auto simp: result_simps Let_def pos simp del: of_nat_unat)
      have "unat (?pos - position) = unat ?pos - unat position" using le(1) by (simp add: unat_sub)
      then have "length bytes = unat ?pos - unat position" using assms(2) [OF b] by simp
      then show ?thesis using Cons.IH [OF g le(2)] le \<open>\<not> sparse\<close> by (auto simp: word_le_nat_alt)
    qed
  qed
qed

lemma unit_runs_length:
  assumes "unit_runs rd cs unit = Inr (start, packed, False)" and "\<And>off n bytes. rd off n = Inr bytes \<Longrightarrow> length bytes = n"
    and "cs_unit_size cs < 2 ^ 64"
  shows "length packed = cs_unit_size cs"
proof -
  from assms(1) obtain fin where f: "checked_add start (of_nat (cs_unit_size cs)) = Some fin"
    and g: "gather_unit rd fin (dropWhile (\<lambda>run. nr_end run \<le> start) (cs_runs cs)) start [] False = Inr (fin, packed, False)"
    by (auto simp: unit_runs_def result_simps)
  have u: "unat fin = unat start + cs_unit_size cs" using f assms(3) by (simp add: checked_simps unat_of_nat_u64)
  then have "start \<le> fin" by (simp add: word_le_nat_alt)
  from gather_unit_length [OF g assms(2) this] u show ?thesis by simp
qed

lemma no_panic_gather:
  assumes "\<And>off n. no_panic (rd off n)"
  shows "no_panic (gather_unit rd end runs position packed sparse)"
  by (induction runs arbitrary: position packed sparse) (use assms in \<open>auto simp: panic_simps Let_def split: option.splits\<close>)

lemma no_panic_load_unit:
  assumes "\<And>off n. no_panic (rd off n)" and "\<And>off n bytes. rd off n = Inr bytes \<Longrightarrow> length bytes = n"
    and "length (cs_cache cs) = cs_unit_size cs" and "cs_unit_size cs < 2 ^ 64"
  shows "no_panic (snd (load_unit rd unit cs))"
proof (cases "unit_runs rd cs unit")
  case (Inl e)
  have "no_panic (unit_runs rd cs unit)" by (auto simp: unit_runs_def panic_simps no_panic_gather [OF assms(1)])
  then show ?thesis using Inl by (simp add: load_unit_def no_panic_Inl)
next
  case (Inr x)
  obtain start packed sparse where x: "x = (start, packed, sparse)" by (cases x)
  show ?thesis
    using decode_lznt1_no_panic [of packed "replicate (length (cs_cache cs)) 0"]
      unit_runs_length [of rd cs unit start packed] assms Inr x
    by (cases sparse) (auto simp: load_unit_def Let_def split: prod.splits, (metis snd_conv)+)
qed

definition stream_shape :: "compressed_stream \<Rightarrow> bool" where
  "stream_shape cs \<longleftrightarrow> 0 < cs_unit_size cs \<and> cs_unit_size cs < 2 ^ 64 \<and> length (cs_cache cs) = cs_unit_size cs"

lemma ensure_unit_shape: "ensure_unit rd unit cs = (cs', r) \<Longrightarrow> stream_shape cs \<Longrightarrow>
  stream_shape cs' \<and> (\<exists>c u. cs' = cs\<lparr>cs_cache := c, cs_cached_unit := u\<rparr>)"
proof -
  assume e: "ensure_unit rd unit cs = (cs', r)" and s: "stream_shape cs"
  obtain cs1 r1 where l: "load_unit rd unit cs = (cs1, r1)" by (cases "load_unit rd unit cs")
  obtain c where c: "cs1 = cs\<lparr>cs_cache := c\<rparr>" using load_unit_frame(1) [OF l] by blast
  have "cs' = cs \<or> cs' = cs1 \<or> cs' = cs1\<lparr>cs_cached_unit := Some unit\<rparr>"
    using e l by (auto simp: ensure_unit_def split: if_splits sum.splits)
  then show ?thesis
    using s same_stream_refl [of cs] same_stream_refl [of cs1] load_unit_frame(2) [OF l]
    by (elim disjE) (auto simp: stream_shape_def c)
qed

lemma read_units_shape:
  assumes "stream_shape cs" and "\<And>off n. no_panic (rd off n)" and "\<And>off n bytes. rd off n = Inr bytes \<Longrightarrow> length bytes = n"
    and "read_units rd position n cs = (cs', r)"
  shows "stream_shape cs' \<and> no_panic r"
  using assms
proof (induction rd position n cs arbitrary: cs' r rule: read_units.induct)
  case (1 rd position n cs)
  let ?us = "cs_unit_size cs"
  let ?unit = "position div of_nat ?us" and ?within = "unat position mod ?us"
  define count where "count = min (min n (?us - ?within)) (unat (cs_initialized cs - position))"
  show ?case
  proof (cases "n = 0 \<or> cs_initialized cs \<le> position")
    case True
    then show ?thesis using "1.prems"(1,4) unfolding read_units.simps [of rd position n cs] by (auto split: if_splits)
  next
    case False
    have us: "?us \<noteq> 0" "?us < 2 ^ 64" "length (cs_cache cs) = ?us" using "1.prems"(1) by (auto simp: stream_shape_def)
    obtain cs1 r1 where e: "ensure_unit rd ?unit cs = (cs1, r1)" by (cases "ensure_unit rd ?unit cs")
    note sh = ensure_unit_shape [OF e "1.prems"(1)]
    have "no_panic (snd (load_unit rd ?unit cs))" by (rule no_panic_load_unit) (use "1.prems"(2,3) us in auto)
    then have np: "no_panic r1" using e by (auto simp: ensure_unit_def no_panic_Inl split: if_splits prod.splits sum.splits)
    show ?thesis
    proof (cases r1)
      case (Inl err)
      then show ?thesis
        using "1.prems"(4) False us e sh np unfolding read_units.simps [of rd position n cs] by (auto simp: Let_def no_panic_Inl)
    next
      case (Inr x)
      have "length (cs_cache cs1) = ?us" using sh us by (auto simp: stream_shape_def)
      moreover have "?within < ?us" "count \<le> ?us - ?within" using us by (simp_all add: count_def)
      then have "?within + count \<le> ?us" by linarith
      ultimately have b: "index_range (cs_cache cs1) ?within (?within + count) = Inr (slice (cs_cache cs1) ?within (?within + count))"
        by (simp add: index_range_Inr_iff)
      obtain cs2 r2 where r2: "read_units rd (position + of_nat count) (n - count) cs1 = (cs2, r2)"
        by (cases "read_units rd (position + of_nat count) (n - count) cs1")
      have "stream_shape cs2 \<and> no_panic r2"
        using "1.IH" [OF _ _ us(1) refl refl count_def e [symmetric] Inr b _ "1.prems"(2,3) r2] False sh by simp
      then show ?thesis
        using "1.prems"(4) False us e Inr b r2 unfolding read_units.simps [of rd position n cs]
        by (cases r2) (auto simp: Let_def no_panic_Inl simp flip: count_def)
    qed
  qed
qed

section \<open>Properties\<close>

text \<open>The states of a stream after some reads; \<open>strict\<close> allows only reads that succeed.\<close>

inductive read_history :: "(u64 \<Rightarrow> nat \<Rightarrow> byte list result) \<Rightarrow> bool \<Rightarrow> compressed_stream \<Rightarrow> compressed_stream \<Rightarrow> bool"
  for rd strict cs where
  history_start: "read_history rd strict cs cs"
| history_read: "read_history rd strict cs cs1 \<Longrightarrow> read_compressed rd off n cs1 = (cs2, r) \<Longrightarrow>
    (strict \<longrightarrow> \<not> isl r) \<Longrightarrow> read_history rd strict cs cs2"

lemma read_compressed_consistent:
  assumes "cache_consistent rd cs" and "read_compressed rd off n cs = (cs', Inr bytes)"
  shows "cache_consistent rd cs'" and "\<exists>c u. cs' = cs\<lparr>cs_cache := c, cs_cached_unit := u\<rparr>"
    and "length bytes = n" and "i < n \<Longrightarrow> stream_byte rd cs (unat off + i) = Inr (bytes ! i)"
  using assms(2) read_units_bytes [OF assms(1), of off n cs' bytes]
  by (auto simp: read_compressed_def split: if_splits)

lemma history_consistent:
  assumes "read_history rd True cs cs'" and "cache_consistent rd cs"
  shows "cache_consistent rd cs' \<and> (\<exists>c u. cs' = cs\<lparr>cs_cache := c, cs_cached_unit := u\<rparr>)"
  using assms
proof induction
  case history_start
  then show ?case using same_stream_refl by blast
next
  case (history_read cs1 off n cs2 r)
  then obtain bytes where r: "r = Inr bytes" by (cases r) auto
  then have "cache_consistent rd cs1" "\<exists>c u. cs1 = cs\<lparr>cs_cache := c, cs_cached_unit := u\<rparr>" using history_read by auto
  moreover note read_compressed_consistent(1,2) [OF this(1) history_read.hyps(2) [unfolded r]]
  ultimately show ?case by force
qed

lemma history_read_bytes:
  assumes "open_compressed cluster items = Inr cs" and "read_history rd True cs cs1"
    and "read_compressed rd off n cs1 = (cs2, Inr bytes)"
  shows "length bytes = n \<and> (\<forall>i < n. stream_byte rd cs (unat off + i) = Inr (bytes ! i))"
proof -
  have c: "cache_consistent rd cs" by (rule open_compressed_ok(2) [OF assms(1)])
  note h = history_consistent [OF assms(2) c]
  obtain ca u where cs1: "cs1 = cs\<lparr>cs_cache := ca, cs_cached_unit := u\<rparr>" using h by blast
  have "length ca = length (cs_cache cs)" using h c by (simp add: cs1 cache_consistent_def)
  then have "stream_byte rd cs1 p = stream_byte rd cs p" for p by (simp add: cs1 stream_byte_cache)
  then show ?thesis using read_compressed_consistent(3,4) [OF _ assms(3)] h by simp
qed

text \<open>C27: reads of a compressed NTFS stream return its decoded bytes. After any successful reads of
  an opened stream, a read that succeeds returns, for each position, the byte of the decoded unit
  at that position, or zero beyond the initialized length, whichever unit the cache held.\<close>

theorem compressed_reads_are_the_decoded_units:
  assumes "open_compressed cluster items = Inr cs" and "read_history rd True cs cs1"
    and "read_compressed rd off n cs1 = (cs2, Inr bytes)"
  shows "length bytes = n \<and> (\<forall>i < n. stream_byte rd cs (unat off + i) = Inr (bytes ! i))"
  by (rule history_read_bytes [OF assms])

text \<open>An opened stream has a complete run map. The runs that the attributes declare are
  accepted only when they cover every unit with initialized bytes, so gathering such a unit succeeds
  unless the disk fails or allocated clusters follow sparse ones.\<close>

theorem opened_units_are_complete:
  assumes "open_compressed cluster items = Inr cs" and "unat unit * cs_unit_size cs < unat (cs_initialized cs)"
  shows "(\<exists>start packed sparse. unat start = unat unit * cs_unit_size cs \<and> unit_runs rd cs unit = Inr (start, packed, sparse)) \<or>
    unit_runs rd cs unit = Inl (Bail ''allocated NTFS clusters follow sparse padding within a compression unit'') \<or>
    (\<exists>off n err. rd off n = Inl err \<and> unit_runs rd cs unit = Inl err)"
  by (rule unit_runs_complete [OF open_compressed_ok(1) [OF assms(1)] assms(2)])

text \<open>Reads of an opened stream do not panic, whatever reads succeeded or failed before, as long
  as the disk returns the number of bytes asked for.\<close>

theorem compressed_reads_never_panic:
  assumes "open_compressed cluster items = Inr cs" and "read_history rd False cs cs1"
    and "\<And>off n. no_panic (rd off n)" and "\<And>off n bytes. rd off n = Inr bytes \<Longrightarrow> length bytes = n"
  shows "no_panic (snd (read_compressed rd off n cs1))"
proof -
  have s0: "stream_shape cs" using open_compressed_ok(2) [OF assms(1)] by (auto simp: cache_consistent_def stream_shape_def)
  have step: "stream_shape c2 \<and> no_panic r" if "stream_shape c1" "read_compressed rd o1 n1 c1 = (c2, r)" for c1 c2 o1 n1 r
    using that read_units_shape [OF that(1) assms(3,4), where position = o1 and n = n1 and cs' = c2 and r = r] by (auto simp: read_compressed_def split: if_splits)
  have "stream_shape cs1" using assms(2) s0 by induction (use step in blast)+
  then show ?thesis using step [OF _ surjective_pairing] by blast
qed

text \<open>A file of two units on a 512-byte-cluster volume: the first is stored, the second is one
  cluster of compressed data followed by sparse padding.\<close>

definition demo_record :: "byte list" where
  "demo_record = replicate 8 0 @ [1, 0, 0, 0, 1, 0, 0, 0] @ replicate 8 0 @ [31, 0, 0, 0, 0, 0, 0, 0] @ [64, 0, 4, 0, 0, 0, 0, 0] @
     replicate 8 0 @ [0, 64, 0, 0, 0, 0, 0, 0] @ [0, 64, 0, 0, 0, 0, 0, 0] @ [0]"

definition demo_attribute :: ntfs_attribute where
  "demo_attribute = \<lparr>na_position = Some 256, na_record = demo_record,
     na_value = Inr (Some [Inr \<lparr>dr_size = 8192, dr_position = Some 0\<rparr>, Inr \<lparr>dr_size = 512, dr_position = Some 8192\<rparr>,
       Inr \<lparr>dr_size = 7680, dr_position = None\<rparr>]),
     na_volume_size = 65536\<rparr>"

definition demo_stream :: compressed_stream where
  "demo_stream = \<lparr>cs_runs = [\<lparr>nr_start = 0, nr_end = 8192, nr_physical = Some 0\<rparr>,
       \<lparr>nr_start = 8192, nr_end = 8704, nr_physical = Some 8192\<rparr>, \<lparr>nr_start = 8704, nr_end = 16384, nr_physical = None\<rparr>],
     cs_length = 16384, cs_initialized = 16384, cs_unit_size = 8192, cs_cache = replicate 8192 0, cs_cached_unit = None\<rparr>"

text \<open>A disk whose first unit holds the letter A and whose second holds zeros.\<close>

definition demo_disk_read :: "u64 \<Rightarrow> nat \<Rightarrow> byte list result" where
  "demo_disk_read off n = Inr (replicate n (if off = 0 then 65 else 0))"

lemma demo_open: "open_compressed 512 [Inr (DataItem demo_attribute)] = Inr demo_stream"
proof -
  have l: "length demo_record = 65" by (simp add: demo_record_def)
  have h: "demo_record ! 8 = 1" "demo_record ! 34 = 4" "slice demo_record 12 14 = [1, 0]" "slice demo_record 16 24 = replicate 8 0"
    "slice demo_record 24 32 = [31, 0, 0, 0, 0, 0, 0, 0]" "slice demo_record 32 34 = [64, 0]"
    "slice demo_record 48 56 = [0, 64, 0, 0, 0, 0, 0, 0]" "slice demo_record 56 64 = [0, 64, 0, 0, 0, 0, 0, 0]"
    by (simp_all add: demo_record_def slice_def nth_append numeral_2_eq_2)
  have z: "from_le_bytes (replicate 8 0) = (0 :: u64)" by (simp add: from_le_bytes_def numeral_eq_Suc)
  have v: "from_le_bytes [1, 0] = (1 :: u16)" "from_le_bytes [31, 0, 0, 0, 0, 0, 0, 0] = (31 :: u64)"
    "from_le_bytes [64, 0] = (64 :: u16)" "from_le_bytes [0, 64, 0, 0, 0, 0, 0, 0] = (16384 :: u64)"
    by (simp_all add: from_le_bytes_def)
  show ?thesis
    by (simp add: open_compressed_def ensure_def add_item_def add_extent_def Let_def demo_attribute_def l h z v in_volume_def
        bs_elems_def bt_keys_def MAX_RUNS_def checked_mul_def checked_add_def assemble_extents_def join_extent_def demo_stream_def insort_key.simps)
qed

lemma demo_unit_runs:
  "unit_runs demo_disk_read (demo_stream\<lparr>cs_cache := c, cs_cached_unit := u\<rparr>) 0 = Inr (0, replicate 8192 65, False)"
  "unit_runs demo_disk_read (demo_stream\<lparr>cs_cache := c, cs_cached_unit := u\<rparr>) 1 = Inr (8192, replicate 512 0, True)"
  by (simp_all add: unit_runs_def demo_stream_def checked_mul_def checked_add_def ensure_def demo_disk_read_def Let_def)

lemma demo_decode: "decode_lznt1 (replicate 512 0) (replicate 8192 0) 8192 =
    (replicate 8192 0, Inl (Bail ''LZNT1 stream ended before initialized data''))"
proof -
  have "decode_header (replicate 512 0) = Inl (Bail ''LZNT1 stream ended before initialized data'')"
    by (simp add: decode_header_def get_range_def slice_def from_le_bytes_def numeral_2_eq_2)
  then show ?thesis by (simp add: decode_lznt1_def lznt1_chunks.simps)
qed

lemma demo_load_unit:
  assumes "length c = 8192"
  shows "load_unit demo_disk_read 0 (demo_stream\<lparr>cs_cache := c, cs_cached_unit := u\<rparr>) =
      (demo_stream\<lparr>cs_cache := replicate 8192 65, cs_cached_unit := u\<rparr>, Inr ())"
    and "load_unit demo_disk_read 1 (demo_stream\<lparr>cs_cache := c, cs_cached_unit := u\<rparr>) =
      (demo_stream\<lparr>cs_cache := replicate 8192 0, cs_cached_unit := u\<rparr>, Inl (Bail ''LZNT1 stream ended before initialized data''))"
proof -
  have f: "cs_initialized demo_stream = 16384" "cs_unit_size demo_stream = 8192" by (simp_all add: demo_stream_def)
  show "load_unit demo_disk_read 0 (demo_stream\<lparr>cs_cache := c, cs_cached_unit := u\<rparr>) =
      (demo_stream\<lparr>cs_cache := replicate 8192 65, cs_cached_unit := u\<rparr>, Inr ())"
    and "load_unit demo_disk_read 1 (demo_stream\<lparr>cs_cache := c, cs_cached_unit := u\<rparr>) =
      (demo_stream\<lparr>cs_cache := replicate 8192 0, cs_cached_unit := u\<rparr>, Inl (Bail ''LZNT1 stream ended before initialized data''))"
    using assms by (simp_all add: load_unit_def demo_unit_runs Let_def f demo_decode)
qed

lemma demo_read_0:
  assumes "length c = 8192"
  shows "read_compressed demo_disk_read 0 1 (demo_stream\<lparr>cs_cache := c, cs_cached_unit := u\<rparr>) =
    (if u = Some 0 then (demo_stream\<lparr>cs_cache := c, cs_cached_unit := u\<rparr>, Inr [c ! 0])
     else (demo_stream\<lparr>cs_cache := replicate 8192 65, cs_cached_unit := Some 0\<rparr>, Inr [65]))"
proof -
  have f: "cs_initialized demo_stream = 16384" "cs_unit_size demo_stream = 8192" "cs_length demo_stream = 16384" by (simp_all add: demo_stream_def)
  have "slice c 0 1 = [c ! 0]" using assms by (cases c) (simp_all add: slice_def)
  then show ?thesis
    using assms demo_load_unit(1) [OF assms, of u]
    by (simp add: read_compressed_def f read_units.simps ensure_unit_def Let_def index_range_def get_range_def slice_def)
qed

lemma demo_read_1:
  assumes "length c = 8192" and "u \<noteq> Some 1"
  shows "read_compressed demo_disk_read 8192 1 (demo_stream\<lparr>cs_cache := c, cs_cached_unit := u\<rparr>) =
    (demo_stream\<lparr>cs_cache := replicate 8192 0, cs_cached_unit := u\<rparr>, Inl (Bail ''LZNT1 stream ended before initialized data''))"
proof -
  have f: "cs_initialized demo_stream = 16384" "cs_unit_size demo_stream = 8192" "cs_length demo_stream = 16384" by (simp_all add: demo_stream_def)
  show ?thesis
    using assms demo_load_unit(2) [OF assms(1), of u] by (simp add: read_compressed_def f read_units.simps ensure_unit_def Let_def)
qed

lemma load_unit_fails:
  assumes "unit_runs rd cs unit = Inr (start, packed, True)" and "packed \<noteq> []" and "length (cs_cache cs) = cs_unit_size cs"
    and "decode_lznt1 packed (replicate (cs_unit_size cs) 0) (min (unat (cs_initialized cs - start)) (cs_unit_size cs)) = (leftovers, Inl e)"
  shows "load_unit rd unit cs = (cs\<lparr>cs_cache := leftovers\<rparr>, Inl e)"
  using assms by (simp add: load_unit_def Let_def)

lemma cached_unit_is_served:
  assumes "0 < cs_unit_size cs" and "length (cs_cache cs) = cs_unit_size cs" and "cs_cached_unit cs = Some (off div of_nat (cs_unit_size cs))"
    and "0 < n" and "unat off mod cs_unit_size cs + n \<le> cs_unit_size cs"
    and "unat off + n \<le> unat (cs_initialized cs)" and "unat off + n \<le> unat (cs_length cs)"
  shows "read_compressed rd off n cs =
    (cs, Inr (slice (cs_cache cs) (unat off mod cs_unit_size cs) (unat off mod cs_unit_size cs + n)))"
proof -
  have le: "off < cs_initialized cs" using assms(4,6) by (simp add: word_less_nat_alt)
  then have "unat (cs_initialized cs - off) = unat (cs_initialized cs) - unat off" by (simp add: unat_sub)
  then have c: "\<not> cs_initialized cs \<le> off" "min (min n (cs_unit_size cs - unat off mod cs_unit_size cs)) (unat (cs_initialized cs - off)) = n"
    using assms(5,6) le by (simp_all add: not_le)
  have "read_units rd off n cs = (cs, Inr (slice (cs_cache cs) (unat off mod cs_unit_size cs) (unat off mod cs_unit_size cs + n)))"
    using assms c by (subst read_units.simps) (auto simp: Let_def ensure_unit_def index_range_ok read_units.simps)
  then show ?thesis using assms(7) unat_less_u64 [of "cs_length cs"] by (simp add: read_compressed_def)
qed

text \<open>C37: a unit that fails to decode poisons the cache. Take any opened stream after any
  successful reads, with some unit cached, and a read inside a different unit, whose clusters are
  gathered but do not decode. \<open>load_unit\<close> has already overwritten the cache with whatever the decoder
  left behind, and \<open>cached_unit\<close> still names the old unit. The read reports the error; after it, every
  read within the old unit succeeds, touches no disk, and returns the leftovers of the failed
  decoding in place of that unit's bytes.\<close>

theorem failed_unit_poisons_the_cache:
  assumes "open_compressed cluster items = Inr cs" and "read_history rd True cs cs1" and "cs_cached_unit cs1 = Some unit"
    and "off div of_nat (cs_unit_size cs) \<noteq> unit" and "0 < n" and "off < cs_initialized cs" and "unat off + n \<le> unat (cs_length cs)"
    and "unit_runs rd cs (off div of_nat (cs_unit_size cs)) = Inr (start, packed, True)" and "packed \<noteq> []"
    and "decode_lznt1 packed (replicate (cs_unit_size cs) 0) (min (unat (cs_initialized cs - start)) (cs_unit_size cs)) = (leftovers, Inl e)"
  shows "\<exists>cs2. read_compressed rd off n cs1 = (cs2, Inl e) \<and>
    (\<forall>off' n'. off' div of_nat (cs_unit_size cs) = unit \<and> 0 < n' \<and> unat off' mod cs_unit_size cs + n' \<le> cs_unit_size cs \<and>
        unat off' + n' \<le> unat (cs_initialized cs) \<and> unat off' + n' \<le> unat (cs_length cs) \<longrightarrow>
      (\<forall>rd'. read_compressed rd' off' n' cs2 =
        (cs2, Inr (slice leftovers (unat off' mod cs_unit_size cs) (unat off' mod cs_unit_size cs + n')))))"
proof -
  have h: "cache_consistent rd cs1" "\<exists>c u. cs1 = cs\<lparr>cs_cache := c, cs_cached_unit := u\<rparr>"
    using history_consistent [OF assms(2) open_compressed_ok(2) [OF assms(1)]] by blast+
  then obtain c where cs1: "cs1 = cs\<lparr>cs_cache := c, cs_cached_unit := Some unit\<rparr>" using assms(3) by auto
  let ?us = "cs_unit_size cs" and ?v = "off div of_nat (cs_unit_size cs)"
  have us: "0 < ?us" "length (cs_cache cs1) = cs_unit_size cs1" using h(1) by (auto simp: cache_consistent_def cs1)
  have "unit_runs rd cs1 ?v = unit_runs rd cs ?v" by (simp add: cs1 unit_runs_def)
  then have l: "load_unit rd ?v cs1 = (cs1\<lparr>cs_cache := leftovers\<rparr>, Inl e)"
    using assms(8-10) us(2) by (intro load_unit_fails [of rd cs1 ?v start packed]) (auto simp: cs1)
  let ?cs2 = "cs1\<lparr>cs_cache := leftovers\<rparr>"
  have "read_units rd off n cs1 = (?cs2, Inl e)"
    using assms(4-6) us(1) l by (subst read_units.simps) (simp add: Let_def ensure_unit_def cs1 not_le)
  then have "read_compressed rd off n cs1 = (?cs2, Inl e)"
    using assms(7) unat_less_u64 [of "cs_length cs"] by (simp add: read_compressed_def cs1)
  moreover have "length leftovers = ?us"
    using length_decode_lznt1 [of packed "replicate ?us 0" "min (unat (cs_initialized cs - start)) ?us"] assms(10) by simp
  then have "read_compressed rd' off' n' ?cs2 = (?cs2, Inr (slice leftovers (unat off' mod ?us) (unat off' mod ?us + n')))"
    if "off' div of_nat ?us = unit" "0 < n'" "unat off' mod ?us + n' \<le> ?us" "unat off' + n' \<le> unat (cs_initialized cs)"
      "unat off' + n' \<le> unat (cs_length cs)" for rd' off' n'
    using cached_unit_is_served [of ?cs2 off' n' rd'] that us(1) by (simp add: cs1)
  ultimately show ?thesis by blast
qed

text \<open>On the two-unit file above: the byte at position 0 is read as 65, a read of the damaged second
  unit fails, and the byte at position 0 is then read as 0.\<close>

theorem failed_unit_poisons_the_cache_witness:
  "\<exists>cs cs1 cs2 cs3 e. open_compressed 512 [Inr (DataItem demo_attribute)] = Inr cs \<and>
     read_compressed demo_disk_read 0 1 cs = (cs1, Inr [65]) \<and>
     read_compressed demo_disk_read 8192 1 cs1 = (cs2, Inl e) \<and>
     read_compressed demo_disk_read 0 1 cs2 = (cs3, Inr [0])"
proof -
  have s: "demo_stream = demo_stream\<lparr>cs_cache := replicate 8192 0, cs_cached_unit := None\<rparr>" by (simp add: demo_stream_def)
  let ?cs1 = "demo_stream\<lparr>cs_cache := replicate 8192 65, cs_cached_unit := Some 0\<rparr>"
  have f: "cs_initialized demo_stream = 16384" "cs_unit_size demo_stream = 8192" "cs_length demo_stream = 16384" by (simp_all add: demo_stream_def)
  have r: "read_compressed demo_disk_read 0 1 demo_stream = (?cs1, Inr [65])"
    using demo_read_0 [of "replicate 8192 0" None] by (subst s) simp
  have h: "read_history demo_disk_read True demo_stream ?cs1" by (rule history_read [OF history_start r]) simp
  have u: "unit_runs demo_disk_read demo_stream (8192 div of_nat (cs_unit_size demo_stream)) = Inr (8192, replicate 512 0, True)"
    using demo_unit_runs(2) [of "cs_cached_unit demo_stream" "cs_cache demo_stream"] by (simp add: f)
  have "\<exists>cs2. read_compressed demo_disk_read 8192 1 ?cs1 = (cs2, Inl (Bail ''LZNT1 stream ended before initialized data'')) \<and>
      (\<forall>off' n'. off' div of_nat (cs_unit_size demo_stream) = 0 \<and> 0 < n' \<and> unat off' mod cs_unit_size demo_stream + n' \<le> cs_unit_size demo_stream \<and>
        unat off' + n' \<le> unat (cs_initialized demo_stream) \<and> unat off' + n' \<le> unat (cs_length demo_stream) \<longrightarrow>
      (\<forall>rd'. read_compressed rd' off' n' cs2 = (cs2, Inr (slice (replicate 8192 0) (unat off' mod cs_unit_size demo_stream)
        (unat off' mod cs_unit_size demo_stream + n')))))"
    by (rule failed_unit_poisons_the_cache [OF demo_open h _ _ _ _ _ u]) (simp_all add: f demo_decode)
  then obtain cs2 where c: "read_compressed demo_disk_read 8192 1 ?cs1 = (cs2, Inl (Bail ''LZNT1 stream ended before initialized data''))"
    and "read_compressed demo_disk_read 0 1 cs2 = (cs2, Inr (slice (replicate 8192 0) 0 1))"
    by (auto simp: f)
  moreover have "slice (replicate 8192 (0 :: byte)) 0 1 = [0]" by (simp add: slice_def)
  ultimately show ?thesis using demo_open r by metis
qed

theorem compressed_reads_are_the_decoded_units_witness:
  "\<exists>cs. read_compressed demo_disk_read 0 1 demo_stream = (cs, Inr [65]) \<and> stream_byte demo_disk_read demo_stream 0 = Inr 65"
proof -
  have "demo_stream = demo_stream\<lparr>cs_cache := replicate 8192 0, cs_cached_unit := None\<rparr>" by (simp add: demo_stream_def)
  then obtain cs where r: "read_compressed demo_disk_read 0 1 demo_stream = (cs, Inr [65])"
    using demo_read_0 [of "replicate 8192 0" None] by auto
  from compressed_reads_are_the_decoded_units [OF demo_open history_start r] r show ?thesis by auto
qed

theorem opened_units_are_complete_witness:
  "\<exists>start packed sparse. unat start = 8192 \<and> unit_runs demo_disk_read demo_stream 1 = Inr (start, packed, sparse)"
proof -
  have f: "unat (1 :: u64) * cs_unit_size demo_stream = 8192" "unat (cs_initialized demo_stream) = 16384" by (simp_all add: demo_stream_def)
  have "unit_runs demo_disk_read demo_stream 1 \<noteq> Inl e" for e
    using demo_unit_runs(2) [of "cs_cached_unit demo_stream" "cs_cache demo_stream"] by simp
  then show ?thesis using opened_units_are_complete [OF demo_open, of 1 demo_disk_read] f by auto
qed

theorem compressed_reads_never_panic_witness:
  "no_panic (snd (read_compressed demo_disk_read 8192 1 demo_stream)) \<and> isl (snd (read_compressed demo_disk_read 8192 1 demo_stream))"
proof -
  have "demo_stream = demo_stream\<lparr>cs_cache := replicate 8192 0, cs_cached_unit := None\<rparr>" by (simp add: demo_stream_def)
  then have "isl (snd (read_compressed demo_disk_read 8192 1 demo_stream))"
    using demo_read_1 [of "replicate 8192 0" None] by (metis length_replicate isl_def option.distinct(1) snd_conv)
  moreover have "no_panic (snd (read_compressed demo_disk_read 8192 1 demo_stream))"
    by (rule compressed_reads_never_panic [OF demo_open history_start]) (auto simp: demo_disk_read_def)
  ultimately show ?thesis by simp
qed

end
