(* ===== verification/Source.thy ===== *)
theory Source
  imports BTree
begin

text \<open>
  Read-only access to pool members and disks (src/source.rs): the registry of handles a desktop
  client obtained through an authorization prompt, size detection, and positioned reads in whole
  blocks. \<open>host\<close> gathers the answers of the operating system (\<open>fcntl\<close>, \<open>stat\<close>, \<open>open\<close>, \<open>dup\<close>,
  \<open>lseek\<close> and the disk ioctls) and a \<open>device\<close> is its answer to each positioned read, which may be
  short and may differ from one call to the next: the \<open>n\<close>-th request of a run is answered by
  \<open>dv n\<close>. Reads keep the log of their requests, so that alignment can be stated. The locales
  \<open>block_device\<close> and \<open>reliable_device\<close> state what raw devices document.
\<close>

section \<open>The host\<close>

datatype platform = Linux | MacOs | Windows

record metadata =
  md_is_file :: bool
  md_len :: u64
  md_dev :: u64
  md_ino :: u64
  md_rdev :: u64

record 'f host =
  ho_platform :: platform
  ho_getfl :: "'f \<Rightarrow> u32 option"
  ho_set_cloexec :: "'f \<Rightarrow> bool"
  ho_metadata :: "'f \<Rightarrow> io_error + metadata"
  ho_stat :: "string \<Rightarrow> io_error + metadata"
  ho_open :: "string \<Rightarrow> io_error + 'f"
  ho_try_clone :: "'f \<Rightarrow> io_error + 'f"
  ho_seek_end :: "'f \<Rightarrow> io_error + u64"
  ho_drive_length :: "'f \<Rightarrow> int option"
  ho_block_size :: "'f \<Rightarrow> u32 option"
  ho_block_count :: "'f \<Rightarrow> u64 option"
  ho_sector_size :: "'f \<Rightarrow> u32 option"

type_synonym 'f registry = "(string, 'f) btree"

text \<open>\<open>O_ACCMODE\<close> and \<open>O_RDONLY\<close> of the Unix platforms.\<close>

definition O_ACCMODE :: u32 where "O_ACCMODE = 3"
definition O_RDONLY :: u32 where "O_RDONLY = 0"

section \<open>Authorized handles\<close>

definition register_authorized_source ::
  "'f host \<Rightarrow> string \<Rightarrow> 'f \<Rightarrow> 'f registry \<Rightarrow> 'f registry result" where
  "register_authorized_source h path f reg =
     (case ho_getfl h f of
        None \<Rightarrow> Inl (IoErr OsError)
      | Some flags \<Rightarrow>
          if flags AND O_ACCMODE \<noteq> O_RDONLY then Inl (Bail ''An authorized source handle must be read-only'')
          else if \<not> ho_set_cloexec h f then Inl (IoErr OsError)
          else Inr (bt_insert path f reg))"

definition release_authorized_sources :: "string option \<Rightarrow> 'f registry \<Rightarrow> 'f registry" where
  "release_authorized_sources keep reg = bt_retain (\<lambda>path. Some path = keep) reg"

definition same_device :: "metadata \<Rightarrow> metadata \<Rightarrow> bool" where
  "same_device a b \<longleftrightarrow> (md_dev a, md_ino a, md_rdev a) = (md_dev b, md_ino b, md_rdev b)"

definition open_read_only :: "'f host \<Rightarrow> 'f registry \<Rightarrow> string \<Rightarrow> 'f result" where
  "open_read_only h reg path =
     (case bt_get reg path of
        Some f \<Rightarrow>
          and_then
            (if ho_platform h = Windows then Inr ()
             else and_then (map_err IoErr (ho_stat h path)) (\<lambda>current.
               and_then (map_err IoErr (ho_metadata h f)) (\<lambda>approved.
               ensure (same_device current approved)
                 ''The approved device changed or was disconnected. Choose the drive again.''))) (\<lambda>_.
          map_err IoErr (ho_try_clone h f))
      | None \<Rightarrow> map_err IoErr (ho_open h path))"

section \<open>Sizes\<close>

definition device_length :: "'f host \<Rightarrow> 'f \<Rightarrow> u64 result" where
  "device_length h f =
     (case ho_platform h of
        Windows \<Rightarrow>
          and_then (ok_or (ho_drive_length h f) (Bail ''querying physical drive length'')) (\<lambda>len.
          if len < 0 then Inl (Bail ''physical drive reported a negative length'') else Inr (word_of_int len))
      | MacOs \<Rightarrow>
          and_then (ok_or (ho_block_size h f) (Bail ''querying disk length'')) (\<lambda>block_size.
          and_then (ok_or (ho_block_count h f) (Bail ''querying disk length'')) (\<lambda>block_count.
          ok_or (checked_mul block_count (ucast block_size)) (Bail ''disk length overflows u64'')))
      | Linux \<Rightarrow> Inl (Bail ''platform has no block-device length control''))"

definition probe_length :: "'f host \<Rightarrow> 'f \<Rightarrow> u64 result" where
  "probe_length h f =
     (case device_length h f of
        Inr len \<Rightarrow> Inr len
      | Inl _ \<Rightarrow>
          and_then (map_err IoErr (ho_try_clone h f)) (\<lambda>probe.
          map_err (\<lambda>_. Bail ''determining the size of {} ({device_error:#})'') (ho_seek_end h probe)))"

definition source_length :: "'f host \<Rightarrow> 'f \<Rightarrow> u64 result" where
  "source_length h f =
     (let fallback = and_then (probe_length h f) (\<lambda>len.
            if len = 0 then Inl (Bail ''could not determine the size of {}'') else Inr len)
      in case ho_metadata h f of
           Inl _ \<Rightarrow> fallback
         | Inr md \<Rightarrow> if md_is_file md \<or> md_len md \<noteq> 0 then Inr (md_len md) else fallback)"

definition is_power_of_two :: "nat \<Rightarrow> bool" where
  "is_power_of_two n \<longleftrightarrow> n \<noteq> 0 \<and> (\<exists>k \<in> set [0..<64]. n = 2 ^ k)"

definition validate_block_size :: "u32 \<Rightarrow> nat result" where
  "validate_block_size sz =
     (if \<not> (512 \<le> unat sz \<and> unat sz \<le> 1024 * 1024) \<or> \<not> is_power_of_two (unat sz)
      then Inl (Bail ''Disk reported an invalid sector size: {size}'') else Inr (unat sz))"

definition source_block_size :: "'f host \<Rightarrow> 'f \<Rightarrow> nat result" where
  "source_block_size h f =
     (let device =
        (case ho_platform h of
           MacOs \<Rightarrow> and_then (ok_or (ho_block_size h f) (Bail ''querying disk sector size'')) validate_block_size
         | Windows \<Rightarrow> and_then (ok_or (ho_sector_size h f) (Bail ''querying disk sector size'')) validate_block_size
         | Linux \<Rightarrow> Inr 1)
      in case ho_metadata h f of
           Inr md \<Rightarrow> if md_is_file md then Inr 1 else device
         | Inl _ \<Rightarrow> device)"

section \<open>Positioned reads\<close>

type_synonym device = "nat \<Rightarrow> u64 \<Rightarrow> nat \<Rightarrow> io_error + byte list"
type_synonym requests = "(u64 \<times> nat) list"

text \<open>\<open>got\<close> is the part of the buffer that is complete.\<close>

function positioned_read ::
  "device \<Rightarrow> u64 \<Rightarrow> nat \<Rightarrow> byte list \<Rightarrow> requests \<Rightarrow> requests \<times> byte list result" where
  "positioned_read dv off len got log =
     (if length got < len then
        case checked_add off (of_nat (length got)) of
          None \<Rightarrow> (log, Inl (Bail ''source read offset overflows''))
        | Some position \<Rightarrow>
            (let log' = log @ [(position, len - length got)] in
             case dv (length log) position (len - length got) of
               Inl e \<Rightarrow> (log', Inl (IoErr e))
             | Inr bytes \<Rightarrow>
                 if bytes = [] then (log', Inl (Bail ''Source ended during a read; the drive may have been disconnected''))
                 else positioned_read dv off len (got @ bytes) log')
      else (log, Inr got))"
  by pat_completeness auto
termination
  by (relation "measure (\<lambda>(dv, off, len, got, log). len - length got)") (auto intro: diff_less_mono2)

declare positioned_read.simps [simp del]

definition div_ceil :: "nat \<Rightarrow> nat \<Rightarrow> nat" where
  "div_ceil a b = (a + (b - 1)) div b"

text \<open>
  The loop over the scratch buffer; \<open>None\<close> is a loop that never ends (a scratch buffer smaller
  than a block would make no progress), which \<open>read_blocks_ok\<close> below excludes.
\<close>

partial_function (option) read_blocks ::
  "device \<Rightarrow> nat \<Rightarrow> u64 \<Rightarrow> nat \<Rightarrow> byte list \<Rightarrow> byte list \<Rightarrow> requests \<Rightarrow> (requests \<times> byte list result) option" where
  "read_blocks dv bs off len scratch got log =
     (if length got < len then
        case checked_add off (of_nat (length got)) of
          None \<Rightarrow> Some (log, Inl (Bail ''device read offset overflows''))
        | Some position \<Rightarrow>
            (let start = position div of_nat bs * of_nat bs;
                 skip = unat (position - start);
                 count = min (len - length got) (length scratch - skip);
                 read = div_ceil (skip + count) bs * bs
             in if length scratch < skip \<or> length scratch < read then Some (log, Inl (Panic ''scratch range''))
                else let (log', r) = positioned_read dv start read [] log in
                  case r of
                    Inl e \<Rightarrow> Some (log', Inl e)
                  | Inr bytes \<Rightarrow>
                      let scratch' = blit 0 bytes scratch in
                      read_blocks dv bs off len scratch' (got @ slice scratch' skip (skip + count)) log')
      else Some (log, Inr got))"

definition scratch_capacity :: "nat \<Rightarrow> nat \<Rightarrow> nat" where
  "scratch_capacity bs len = div_ceil (min (min (len + (bs - 1)) (2 ^ 64 - 1)) (1024 * 1024)) bs * bs"

definition device_read_exact_at ::
  "device \<Rightarrow> nat \<Rightarrow> u64 \<Rightarrow> nat \<Rightarrow> requests \<Rightarrow> (requests \<times> byte list result) option" where
  "device_read_exact_at dv bs off len log =
     (if len = 0 then Some (log, Inr [])
      else if bs = 1 \<or> unat off mod bs = 0 \<and> len mod bs = 0 then Some (positioned_read dv off len [] log)
      else if bs = 0 then Some (log, Inl (Panic ''attempt to subtract with overflow''))
      else read_blocks dv bs off len (replicate (scratch_capacity bs len) 0) [] log)"


section \<open>What raw devices document\<close>

text \<open>
  A read returns bytes of the device, no more than requested. A block device answers a request
  for whole blocks with whole blocks; it may reject or shorten any other one as it likes.
\<close>

locale block_device =
  fixes dv :: device and bs :: nat and content :: "byte list"
  assumes read_content: "dv t pos n = Inr bytes \<Longrightarrow>
      length bytes \<le> n \<and> bytes = slice content (unat pos) (unat pos + length bytes)"
    and read_blockwise: "dv t pos n = Inr bytes \<Longrightarrow> bs dvd unat pos \<Longrightarrow> bs dvd n \<Longrightarrow> bs dvd length bytes"
    and block_pos: "0 < bs"
    and content_blocks: "bs dvd length content"
    and content_bound: "length content < 2 ^ 64"

definition aligned :: "nat \<Rightarrow> u64 \<times> nat \<Rightarrow> bool" where
  "aligned bs req \<longleftrightarrow> bs dvd unat (fst req) \<and> bs dvd snd req"

text \<open>A device that answers every request for whole blocks it has with at least one of them.\<close>

locale reliable_device = block_device +
  assumes read_progress: "bs dvd unat pos \<Longrightarrow> bs dvd n \<Longrightarrow> 0 < n \<Longrightarrow> unat pos + n \<le> length content \<Longrightarrow>
      \<exists>bytes. dv t pos n = Inr bytes \<and> bytes \<noteq> []"

lemma slice_append: "a \<le> b \<Longrightarrow> b + n \<le> length xs \<Longrightarrow> slice xs a b @ slice xs b (b + n) = slice xs a (b + n)"
  by (simp add: slice_split [of a b "b + n"])

lemma div_ceil_mult_ge: "0 < b \<Longrightarrow> a \<le> div_ceil a b * b"
proof -
  assume b: "0 < b"
  have "a + (b - 1) = (a + (b - 1)) div b * b + (a + (b - 1)) mod b" by simp
  moreover have "(a + (b - 1)) mod b \<le> b - 1" using b by (metis Suc_pred' less_Suc_eq_le mod_less_divisor)
  ultimately show ?thesis unfolding div_ceil_def by linarith
qed

lemma div_ceil_mult_le: "0 < b \<Longrightarrow> a \<le> k * b \<Longrightarrow> div_ceil a b * b \<le> k * b"
proof -
  assume b: "0 < b" and a: "a \<le> k * b"
  have "(a + (b - 1)) div b \<le> (k * b + (b - 1)) div b" using a by (intro div_le_mono) simp
  also have "\<dots> = k" using b div_mult_self3 [of b k "b - 1"] by simp
  finally show ?thesis unfolding div_ceil_def by (rule mult_le_mono1)
qed

lemma slice_slice: "b \<le> d - c \<Longrightarrow> slice (slice xs c d) a b = slice xs (c + a) (c + b)"
  using diff_le_mono [of b "d - c" a] by (simp add: slice_def drop_take min_absorb1 add.commute)

lemma unat_block_start:
  assumes "0 < bs" and "bs < 2 ^ 64"
  shows "unat (pos div of_nat bs * of_nat bs :: u64) = unat pos div bs * bs"
proof -
  have "unat (of_nat bs :: u64) = bs" using assms by (simp add: unat_of_nat_u64)
  moreover have "unat pos div bs * bs \<le> unat pos" by simp
  then have "unat pos div bs * bs < 2 ^ 64" using le_less_trans [OF _ unat_less_u64 [of pos]] by simp
  ultimately show ?thesis by (simp add: unat_mult_u64 unat_div)
qed

lemma unat_block_skip:
  assumes "0 < bs" and "bs < 2 ^ 64"
  shows "unat (pos - pos div of_nat bs * of_nat bs :: u64) = unat pos mod bs"
  using assms by (simp add: minus_div_mult_eq_mod unat_mod unat_of_nat_u64)

lemma scratch_capacity_ok:
  assumes "0 < bs" and "0 < len"
  shows "bs dvd scratch_capacity bs len" and "bs \<le> scratch_capacity bs len"
proof -
  let ?m = "min (min (len + (bs - 1)) (2 ^ 64 - 1)) (1024 * 1024)"
  have "1 \<le> div_ceil ?m bs"
    using div_ceil_mult_ge [of bs ?m] assms by (cases "div_ceil ?m bs") auto
  then show "bs \<le> scratch_capacity bs len" unfolding scratch_capacity_def using mult_le_mono1 [of 1 _ bs] by fastforce
qed (simp add: scratch_capacity_def)

text \<open>The aligned window of a step: its block-aligned start, the bytes to skip, to copy and to read.\<close>

lemma block_window:
  fixes pos start :: u64
  assumes "0 < bs" and "bs < 2 ^ 64" and "bs dvd cap" and "bs \<le> cap" and "bs dvd whole_len"
    and "unat pos + want \<le> whole_len" and "start = pos div of_nat bs * of_nat bs" and "skip = unat (pos - start)"
    and "count = min want (cap - skip)" and "rd = div_ceil (skip + count) bs * bs" and "0 < want"
  shows "unat start + skip = unat pos" and "bs dvd unat start" and "0 < count" and "count \<le> want"
    and "skip \<le> cap" and "skip + count \<le> rd" and "rd \<le> cap" and "unat start + rd \<le> whole_len"
proof -
  have st: "unat start = unat pos div bs * bs"
    unfolding assms(7) by (rule unat_block_start [OF assms(1,2)])
  have sk: "skip = unat pos mod bs"
    unfolding assms(8,7) by (rule unat_block_skip [OF assms(1,2)])
  from st sk show split: "unat start + skip = unat pos" and "bs dvd unat start" by simp_all
  have lt: "skip < bs" unfolding sk using assms(1) by simp
  then show count: "0 < count" "count \<le> want" "skip \<le> cap" using assms by auto
  obtain k m where k: "cap = k * bs" and m: "whole_len = m * bs" using assms(3,5) by (metis dvdE mult.commute)
  show "skip + count \<le> rd" unfolding assms(10) by (rule div_ceil_mult_ge [OF assms(1)])
  have "skip + count \<le> k * bs" using assms(9) count(3) k by linarith
  then show "rd \<le> cap" unfolding assms(10) k by (rule div_ceil_mult_le [OF assms(1)])
  have le: "unat start + (skip + count) \<le> m * bs" using split count assms(6) m by linarith
  then have "skip + count \<le> (m - unat pos div bs) * bs" using st by (simp add: diff_mult_distrib)
  then have "rd \<le> (m - unat pos div bs) * bs" unfolding assms(10) by (rule div_ceil_mult_le [OF assms(1)])
  then have "rd \<le> m * bs - unat start" by (simp only: diff_mult_distrib st)
  then show "unat start + rd \<le> whole_len" using le m by linarith
qed

lemma blit_window:
  assumes "n \<le> length scratch" and "start + n \<le> length xs" and "a + c \<le> n"
  shows "slice (blit 0 (slice xs start (start + n)) scratch) a (a + c) = slice xs (start + a) (start + a + c)"
proof -
  have "slice (blit 0 (slice xs start (start + n)) scratch) a (a + c) = slice (slice xs start (start + n)) a (a + c)"
    using slice_blit_within [of 0 a "a + c" "slice xs start (start + n)" scratch] assms by simp
  then show ?thesis using assms(3) by (simp add: slice_slice add.assoc)
qed

lemma extended_slice:
  assumes "got = slice xs a (a + length got)" and "b = a + length got" and "b + n \<le> length xs"
  shows "got @ slice xs b (b + n) = slice xs a (a + length (got @ slice xs b (b + n)))"
proof -
  have "got @ slice xs b (b + n) = slice xs a (b + n)"
    using slice_append [of a b n xs] assms by simp
  moreover have "a + length (got @ slice xs b (b + n)) = b + n" using assms(2,3) by simp
  ultimately show ?thesis by (simp only:)
qed

lemma checked_position:
  assumes "n < len" and "unat off + len \<le> whole_len" and "whole_len < 2 ^ 64"
  shows "\<exists>pos. unat pos = unat off + n \<and> checked_add off (of_nat n) = Some pos"
proof -
  have "unat (of_nat n :: u64) = n" using assms by (intro unat_of_nat_u64) simp
  then show ?thesis using assms by (intro exI [of _ "off + of_nat n"]) (simp add: checked_add_def unat_add_u64)
qed

context block_device
begin

text \<open>Some request for whole blocks of the device fails, or returns nothing.\<close>

definition faulty :: bool where
  "faulty \<longleftrightarrow> (\<exists>t pos n. aligned bs (pos, n) \<and> 0 < n \<and> unat pos + n \<le> length content \<and>
     (\<forall>bytes. dv t pos n = Inr bytes \<longrightarrow> bytes = []))"

definition answers :: "u64 \<Rightarrow> nat \<Rightarrow> requests \<Rightarrow> requests \<times> byte list result \<Rightarrow> bool" where
  "answers off len log out \<longleftrightarrow>
     (\<exists>log' r. out = (log @ log', r) \<and> list_all (aligned bs) log' \<and>
        (r = Inr (slice content (unat off) (unat off + len)) \<or> faulty \<and> (\<exists>e. r = Inl e \<and> no_panic r)))"

lemma answersI:
  "list_all (aligned bs) log' \<Longrightarrow>
   r = Inr (slice content (unat off) (unat off + len)) \<or> faulty \<and> (\<exists>e. r = Inl e \<and> no_panic r) \<Longrightarrow>
   answers off len log (log @ log', r)"
  by (auto simp: answers_def)

lemma answers_prefix:
  "answers off len (log @ l) out \<Longrightarrow> list_all (aligned bs) l \<Longrightarrow> answers off len log out"
  by (fastforce simp: answers_def)

lemma positioned_read_ok:
  assumes "bs dvd unat off" and "bs dvd len" and "unat off + len \<le> length content"
    and "got = slice content (unat off) (unat off + length got)" and "length got \<le> len" and "bs dvd length got"
  shows "answers off len log (positioned_read dv off len got log)"
  using assms
proof (induction "len - length got" arbitrary: got log rule: less_induct)
  case less
  note pre = less.prems
  show ?case
  proof (cases "length got < len")
    case False
    then have "positioned_read dv off len got log = (log @ [], Inr got)"
      by (subst positioned_read.simps) simp
    then show ?thesis using pre False using answersI [of "[]" "Inr got" off len log] by simp
  next
    case True
    obtain pos where pos: "unat pos = unat off + length got" and add: "checked_add off (of_nat (length got)) = Some pos"
      using checked_position [of "length got" len off] True pre(3) content_bound by auto
    have al: "aligned bs (pos, len - length got)"
      using pre True pos by (simp add: aligned_def dvd_diff_nat)
    let ?log = "log @ [(pos, len - length got)]"
    have step: "positioned_read dv off len got log =
        (case dv (length log) pos (len - length got) of Inl e \<Rightarrow> (?log, Inl (IoErr e))
         | Inr bytes \<Rightarrow> if bytes = [] then (?log, Inl (Bail ''Source ended during a read; the drive may have been disconnected''))
             else positioned_read dv off len (got @ bytes) ?log)"
      using True add by (subst positioned_read.simps) (simp add: Let_def)
    have fault: "(\<forall>bytes. dv (length log) pos (len - length got) = Inr bytes \<longrightarrow> bytes = []) \<Longrightarrow> faulty"
      unfolding faulty_def using al True pos pre(3)
      by (intro exI [of _ "length log"] exI [of _ pos] exI [of _ "len - length got"]) auto
    show ?thesis
    proof (cases "dv (length log) pos (len - length got)")
      case (Inl e)
      then show ?thesis using fault al unfolding step by (auto intro!: answersI)
    next
      case (Inr bytes)
      show ?thesis
      proof (cases "bytes = []")
        case empty: True
        then show ?thesis using fault al Inr unfolding step by (auto intro!: answersI)
      next
        case False
        have rc: "length bytes \<le> len - length got" "bytes = slice content (unat pos) (unat pos + length bytes)"
          using read_content [OF Inr] by auto
        have whole: "bs dvd length bytes" using read_blockwise [OF Inr] al by (simp add: aligned_def)
        have within: "unat pos + length bytes \<le> length content" using rc(1) pre(3) True pos by simp
        have more: "got @ bytes = slice content (unat off) (unat off + length (got @ bytes))"
          using extended_slice [OF pre(4) pos, of "length bytes"] within by (simp only: rc(2) [symmetric])
        have "answers off len ?log (positioned_read dv off len (got @ bytes) ?log)"
          by (rule less.hyps [OF _ pre(1-3) more]) (use pre False True rc(1) whole in \<open>auto intro: diff_less_mono2\<close>)
        then show ?thesis using answers_prefix al Inr False unfolding step by simp
      qed
    qed
  qed
qed

lemma read_blocks_ok:
  assumes "bs dvd length scratch" and "bs \<le> length scratch" and "unat off + len \<le> length content"
    and "got = slice content (unat off) (unat off + length got)" and "length got \<le> len"
  shows "\<exists>out. read_blocks dv bs off len scratch got log = Some out \<and> answers off len log out"
  using assms
proof (induction "len - length got" arbitrary: scratch got log rule: less_induct)
  case less
  note pre = less.prems
  show ?case
  proof (cases "length got < len")
    case False
    then have "read_blocks dv bs off len scratch got log = Some (log @ [], Inr got)"
      by (subst read_blocks.simps) simp
    then show ?thesis using pre False using answersI [of "[]" "Inr got" off len log] by simp
  next
    case True
    have bs: "bs < 2 ^ 64"
      using dvd_imp_le [OF content_blocks] content_bound True pre(3) by (cases "length content = 0") auto
    obtain pos where pos: "unat pos = unat off + length got" and add: "checked_add off (of_nat (length got)) = Some pos"
      using checked_position [of "length got" len off] True pre(3) content_bound by auto
    define start where "start = pos div of_nat bs * of_nat bs"
    define skip where "skip = unat (pos - start)"
    define count where "count = min (len - length got) (length scratch - skip)"
    define rd where "rd = div_ceil (skip + count) bs * bs"
    note win = block_window [OF block_pos bs pre(1,2) content_blocks _ start_def skip_def count_def rd_def]
    have rest: "unat pos + (len - length got) \<le> length content" "0 < len - length got" using pos pre(3) True by auto
    note win = win [OF rest]
    have "answers start rd log (positioned_read dv start rd [] log)"
      by (rule positioned_read_ok) (use win in \<open>simp_all add: rd_def\<close>)
    then obtain l r where out: "positioned_read dv start rd [] log = (log @ l, r)" "list_all (aligned bs) l"
      and r: "r = Inr (slice content (unat start) (unat start + rd)) \<or> faulty \<and> (\<exists>e. r = Inl e \<and> no_panic r)"
      by (auto simp: answers_def)
    have step: "read_blocks dv bs off len scratch got log =
        (case r of Inl e \<Rightarrow> Some (log @ l, Inl e)
         | Inr bytes \<Rightarrow> read_blocks dv bs off len (blit 0 bytes scratch)
             (got @ slice (blit 0 bytes scratch) skip (skip + count)) (log @ l))"
      using True add win out(1)
      by (subst read_blocks.simps)
        (simp add: Let_def start_def [symmetric] skip_def [symmetric] count_def [symmetric] rd_def [symmetric])
    from r show ?thesis
    proof (elim disjE conjE exE)
      fix e assume "faulty" "r = Inl e" "no_panic r"
      then show ?thesis unfolding step using answersI [of l r] out(2) by (auto simp: no_panic_Inl)
    next
      assume r: "r = Inr (slice content (unat start) (unat start + rd))" (is "_ = Inr ?bytes")
      have part: "slice (blit 0 ?bytes scratch) skip (skip + count) = slice content (unat pos) (unat pos + count)"
        using blit_window [of rd scratch "unat start" content skip count] win by simp
      note more = extended_slice [OF pre(4) pos, of count] 
      have "\<exists>out. read_blocks dv bs off len (blit 0 ?bytes scratch) (got @ slice content (unat pos) (unat pos + count)) (log @ l) = Some out \<and>
          answers off len (log @ l) out"
        by (rule less.hyps [OF _ _ _ pre(3) more]) (use win pos True pre in \<open>auto\<close>)
      then show ?thesis unfolding step r using part out(2) answers_prefix by auto
    qed
  qed
qed

lemma device_read_ok:
  assumes "unat off + len \<le> length content"
  shows "\<exists>out. device_read_exact_at dv bs off len log = Some out \<and> answers off len log out"
proof -
  consider "len = 0" | "len > 0" "bs dvd unat off" "bs dvd len" | "len > 0" "\<not> (bs = 1 \<or> unat off mod bs = 0 \<and> len mod bs = 0)"
    by (cases "bs = 1") (auto simp: dvd_eq_mod_eq_0)
  then show ?thesis
  proof cases
    case 1
    then show ?thesis using answersI [of "[]" "Inr []"] by (simp add: device_read_exact_at_def)
  next
    case 2
    then show ?thesis
      using positioned_read_ok [of off len "[]" log] assms by (auto simp: device_read_exact_at_def dvd_eq_mod_eq_0)
  next
    case 3
    then show ?thesis
      using read_blocks_ok [of "replicate (scratch_capacity bs len) 0" off len "[]" log] assms
        scratch_capacity_ok [OF block_pos 3(1)] block_pos by (auto simp: device_read_exact_at_def)
  qed
qed

end

context reliable_device
begin

lemma not_faulty: "\<not> faulty"
proof
  assume faulty
  then obtain t pos n where "aligned bs (pos, n)" "0 < n" "unat pos + n \<le> length content"
    and "\<forall>bytes. dv t pos n = Inr bytes \<longrightarrow> bytes = []" by (auto simp: faulty_def)
  with read_progress [of pos n t] show False by (auto simp: aligned_def)
qed

lemma device_read_succeeds:
  assumes "unat off + len \<le> length content"
  shows "\<exists>log'. device_read_exact_at dv bs off len log = Some (log @ log', Inr (slice content (unat off) (unat off + len))) \<and>
     list_all (aligned bs) log'"
  using device_read_ok [OF assms, of log] not_faulty by (auto simp: answers_def)

end

section \<open>A device with short reads\<close>

text \<open>Answers the \<open>t\<close>-th request with one block when \<open>t\<close> is even and with all of it otherwise.\<close>

definition short_device :: "nat \<Rightarrow> byte list \<Rightarrow> device" where
  "short_device bs content t pos n =
     (if bs dvd unat pos \<and> bs dvd n \<and> unat pos + n \<le> length content
      then Inr (slice content (unat pos) (unat pos + (if even t then min bs n else n)))
      else Inl OsError)"

lemma short_device_reliable:
  assumes "0 < bs" and "bs dvd length content" and "length content < 2 ^ 64"
  shows "reliable_device (short_device bs content) bs content"
proof unfold_locales
  fix t n :: nat and pos :: u64 and bytes
  assume r: "short_device bs content t pos n = Inr bytes"
  then have n: "bs dvd n" "unat pos + n \<le> length content"
    and b: "bytes = slice content (unat pos) (unat pos + (if even t then min bs n else n))"
    by (auto simp: short_device_def split: if_splits)
  then have len: "length bytes = (if even t then min bs n else n)" by auto
  then show "length bytes \<le> n \<and> bytes = slice content (unat pos) (unat pos + length bytes)"
    using b by (auto simp: min_def)
  show "bs dvd length bytes" unfolding len using n(1) by (auto simp: min_def)
next
  fix t n :: nat and pos :: u64
  assume "bs dvd unat pos" "bs dvd n" "0 < n" "unat pos + n \<le> length content"
  moreover from this assms(1) have "slice content (unat pos) (unat pos + (if even t then min bs n else n)) \<noteq> []"
    by (auto simp flip: length_greater_0_conv)
  ultimately show "\<exists>bytes. short_device bs content t pos n = Inr bytes \<and> bytes \<noteq> []"
    by (simp add: short_device_def)
qed (use assms in auto)

interpretation demo_drive: reliable_device "short_device 512 (replicate 2048 7)" 512 "replicate 2048 7"
  by (rule short_device_reliable) simp_all

section \<open>Properties\<close>

text \<open>C30: On a device that answers every request for whole blocks it has with some of them, a
  positioned read of any byte range of the device ends and returns exactly those bytes, however
  short the single answers are; and every request it makes, before and after a short answer, starts
  at a block boundary and asks for whole blocks.\<close>

theorem device_reads_succeed_in_whole_blocks:
  assumes "reliable_device dv bs content" and "unat off + len \<le> length content"
  shows "\<exists>log'. device_read_exact_at dv bs off len log = Some (log @ log', Inr (slice content (unat off) (unat off + len))) \<and>
     (\<forall>(pos, n) \<in> set log'. bs dvd unat pos \<and> bs dvd n)"
proof -
  from reliable_device.device_read_succeeds [OF assms, of log] obtain log' where
    "device_read_exact_at dv bs off len log = Some (log @ log', Inr (slice content (unat off) (unat off + len)))"
    and "list_all (aligned bs) log'" by blast
  then show ?thesis by (fastforce simp: list_all_iff aligned_def)
qed

theorem device_reads_succeed_in_whole_blocks_witness:
  "\<exists>log'. device_read_exact_at (short_device 512 (replicate 2048 7)) 512 700 1000 [] = Some ([] @ log', Inr (replicate 1000 7))"
proof -
  have "slice (replicate 2048 (7 :: byte)) (unat (700 :: u64)) (unat (700 :: u64) + 1000) = replicate 1000 7"
    by (simp add: slice_def)
  then show ?thesis
    using device_reads_succeed_in_whole_blocks [OF demo_drive.reliable_device_axioms, of 700 1000 "[]"] by auto
qed

text \<open>A positioned read within a raw device always ends and never panics, also when requests
  fail or the device disappears: it returns the bytes of the range, or an error, and an error only
  where a request for whole blocks of the device fails or returns nothing.\<close>

theorem device_reads_end_without_panic:
  assumes "block_device dv bs content" and "unat off + len \<le> length content"
  shows "\<exists>log' r. device_read_exact_at dv bs off len log = Some (log @ log', r) \<and> no_panic r \<and>
     (case r of
        Inr d \<Rightarrow> d = slice content (unat off) (unat off + len)
      | Inl e \<Rightarrow> (\<exists>t pos n. bs dvd unat pos \<and> bs dvd n \<and> 0 < n \<and> unat pos + n \<le> length content \<and>
          (dv t pos n = Inr [] \<or> (\<exists>err. dv t pos n = Inl err))))"
proof -
  have request: "(\<forall>bytes. x = Inr bytes \<longrightarrow> bytes = []) \<longleftrightarrow> x = Inr [] \<or> (\<exists>err. x = Inl err)" for x :: "io_error + byte list"
    by (cases x) auto
  have fault: "block_device.faulty dv bs content \<longleftrightarrow> (\<exists>t pos n. bs dvd unat pos \<and> bs dvd n \<and> 0 < n \<and>
      unat pos + n \<le> length content \<and> (dv t pos n = Inr [] \<or> (\<exists>err. dv t pos n = Inl err)))"
    unfolding block_device.faulty_def [OF assms(1)] request by (simp add: aligned_def conj_ac)
  from block_device.device_read_ok [OF assms, of log] obtain log' r where
    "device_read_exact_at dv bs off len log = Some (log @ log', r)"
    and r: "r = Inr (slice content (unat off) (unat off + len)) \<or> block_device.faulty dv bs content \<and> (\<exists>e. r = Inl e \<and> no_panic r)"
    unfolding block_device.answers_def [OF assms(1)] by blast
  moreover from r have "no_panic r" by auto
  ultimately show ?thesis unfolding fault [symmetric] by (cases r) auto
qed

theorem device_reads_end_without_panic_witness:
  "\<exists>log' r. device_read_exact_at (short_device 512 (replicate 2048 7)) 512 1 3 [] = Some ([] @ log', r) \<and> no_panic r"
  using device_reads_end_without_panic [OF demo_drive.block_device_axioms, of 1 3 "[]"] by auto

text \<open>A session's calls on the registry; a rejected registration leaves it as it was.\<close>

datatype 'f authorization = Register string 'f | Release "string option"

fun authorize :: "'f host \<Rightarrow> 'f authorization \<Rightarrow> 'f registry \<Rightarrow> 'f registry" where
  "authorize h (Register path f) reg = (case register_authorized_source h path f reg of Inl _ \<Rightarrow> reg | Inr reg' \<Rightarrow> reg')"
| "authorize h (Release keep) reg = release_authorized_sources keep reg"

definition read_only :: "'f host \<Rightarrow> 'f \<Rightarrow> bool" where
  "read_only h f \<longleftrightarrow> (\<exists>flags. ho_getfl h f = Some flags \<and> flags AND O_ACCMODE = O_RDONLY)"

definition registry_ok :: "'f host \<Rightarrow> 'f registry \<Rightarrow> bool" where
  "registry_ok h reg \<longleftrightarrow> (\<forall>path f. bt_get reg path = Some f \<longrightarrow> read_only h f)"

lemma authorize_read_only: "registry_ok h reg \<Longrightarrow> registry_ok h (authorize h op reg)"
  by (cases op)
    (auto simp: registry_ok_def register_authorized_source_def read_only_def release_authorized_sources_def bt_get_insert bt_get_retain
      split: option.splits if_splits sum.splits)

lemma session_read_only: "registry_ok h reg \<Longrightarrow> registry_ok h (fold (authorize h) ops reg)"
  by (induction ops arbitrary: reg) (simp_all add: authorize_read_only)

text \<open>C31: After any sequence of registrations and releases, a path with an authorized handle opens
  on Unix only as a duplicate of a read-only handle, and only while the path still names the approved
  device; after everything was released, every path is opened afresh.\<close>

theorem authorized_opens_are_read_only_duplicates:
  assumes "ho_platform h \<noteq> Windows" and "bt_get (fold (authorize h) ops []) path = Some f"
    and "open_read_only h (fold (authorize h) ops []) path = Inr g"
  shows "read_only h f \<and> ho_try_clone h f = Inr g \<and>
     (\<exists>current approved. ho_stat h path = Inr current \<and> ho_metadata h f = Inr approved \<and>
        md_dev current = md_dev approved \<and> md_ino current = md_ino approved \<and> md_rdev current = md_rdev approved) \<and>
     open_read_only h (fold (authorize h) (ops @ [Release None]) []) path = map_err IoErr (ho_open h path)"
proof -
  have "read_only h f" using session_read_only [of h "[]" ops] assms(2) by (simp add: registry_ok_def)
  moreover obtain current approved where "ho_stat h path = Inr current" "ho_metadata h f = Inr approved"
    "same_device current approved" "ho_try_clone h f = Inr g"
    using assms(1,3) unfolding open_read_only_def assms(2) by (auto simp: result_simps)
  moreover have "bt_get (release_authorized_sources None reg) path = None" for reg :: "'a registry"
    by (simp add: release_authorized_sources_def bt_get_retain)
  then have "open_read_only h (fold (authorize h) (ops @ [Release None]) []) path = map_err IoErr (ho_open h path)"
    by (simp add: open_read_only_def)
  ultimately show ?thesis unfolding same_device_def by simp
qed

definition demo_host :: "nat host" where
  "demo_host = \<lparr>ho_platform = MacOs, ho_getfl = (\<lambda>f. Some (if f = 3 then 0 else 2)), ho_set_cloexec = (\<lambda>_. True),
     ho_metadata = (\<lambda>f. Inr \<lparr>md_is_file = False, md_len = 0, md_dev = 1, md_ino = 2, md_rdev = 3\<rparr>),
     ho_stat = (\<lambda>p. Inr \<lparr>md_is_file = False, md_len = 0, md_dev = 1, md_ino = 2, md_rdev = 3\<rparr>),
     ho_open = (\<lambda>p. Inl OsError), ho_try_clone = (\<lambda>f. Inr (f + 10)), ho_seek_end = (\<lambda>_. Inl OsError),
     ho_drive_length = (\<lambda>_. None), ho_block_size = (\<lambda>_. Some 4096), ho_block_count = (\<lambda>_. Some 8), ho_sector_size = (\<lambda>_. None)\<rparr>"

theorem authorized_opens_are_read_only_duplicates_witness:
  "read_only demo_host 3 \<and> open_read_only demo_host (fold (authorize demo_host) [Register ''disk'' 4, Register ''disk'' 3] []) ''disk'' = Inr 13"
proof -
  have r: "fold (authorize demo_host) [Register ''disk'' 4, Register ''disk'' 3] [] = [(''disk'', 3)]"
    by (simp add: demo_host_def register_authorized_source_def O_ACCMODE_def O_RDONLY_def)
  have o: "open_read_only demo_host (fold (authorize demo_host) [Register ''disk'' 4, Register ''disk'' 3] []) ''disk'' = Inr 13"
    unfolding r by (simp add: open_read_only_def demo_host_def same_device_def ensure_def)
  have p: "ho_platform demo_host \<noteq> Windows" by (simp add: demo_host_def)
  from authorized_opens_are_read_only_duplicates [OF p _ o, of 3] o show ?thesis unfolding r by simp
qed

end
