(* ===== verification/Tree_Extract.thy ===== *)
theory Tree_Extract
  imports File_Extract "HOL-Library.Sublist"
begin

text \<open>
  Staged extraction of directory trees (src/tree.rs) and its use on a send stream
  (\<open>extract_tree_snapshot_with_key\<close> of src/operations.rs). A path is the list of its components, an
  absolute one beginning with the empty component, and \<open>[]\<close> is the current directory. \<open>tree_fs\<close>
  maps paths to nodes; \<open>tree_env\<close> says which file-system calls fail, where the staging directory is
  created, and for which platform the program is built. Operations return the file system together
  with their outcome, since an error leaves what was done before. \<open>list\<close> and \<open>ext\<close> are the two
  closures the callers pass.
\<close>

section \<open>Paths and the file system\<close>

type_synonym path = "string list"

datatype fnode = Dir | Regular "byte list" | Special

type_synonym tree_fs = "path \<Rightarrow> fnode option"

datatype fs_call = MkDir path | Rename path path | Remove path

record tree_env =
  te_windows :: bool
  te_fault :: "fs_call \<Rightarrow> bool"
  te_tempdir :: "path \<Rightarrow> tree_fs \<Rightarrow> io_error + string"

definition is_separator :: "bool \<Rightarrow> char \<Rightarrow> bool" where
  "is_separator windows c \<longleftrightarrow> c = CHR ''/'' \<or> windows \<and> c = CHR 0x5C"

fun split_separators :: "bool \<Rightarrow> string \<Rightarrow> string list" where
  "split_separators w [] = [[]]"
| "split_separators w (c # s) =
     (if is_separator w c then [] # split_separators w s
      else case split_separators w s of [] \<Rightarrow> [[c]] | p # ps \<Rightarrow> (c # p) # ps)"

text \<open>\<open>Path::components\<close>: empty components and \<open>.\<close> disappear, \<open>..\<close> stays.\<close>

definition path_components :: "bool \<Rightarrow> string \<Rightarrow> path" where
  "path_components w s =
     (case s of c # _ \<Rightarrow> if is_separator w c then [[]] else [] | [] \<Rightarrow> []) @
     filter (\<lambda>c. c \<noteq> [] \<and> c \<noteq> ''.'') (split_separators w s)"

text \<open>\<open>Path::join\<close>: an absolute second path replaces the first, on Windows also one with a drive.\<close>

definition path_join :: "bool \<Rightarrow> path \<Rightarrow> string \<Rightarrow> path" where
  "path_join w p s =
     (if (case s of c # _ \<Rightarrow> is_separator w c | [] \<Rightarrow> False) \<or> w \<and> 2 \<le> length s \<and> s ! 1 = CHR '':''
      then path_components w s else p @ path_components w s)"

text \<open>\<open>Path::parent\<close>, with the fallback to the current directory.\<close>

definition parent_directory :: "path \<Rightarrow> path" where
  "parent_directory p = (if p = [] \<or> p = [[]] then [] else butlast p)"

definition fs_create_dir :: "tree_env \<Rightarrow> path \<Rightarrow> tree_fs \<Rightarrow> tree_fs result" where
  "fs_create_dir env p fs =
     (if te_fault env (MkDir p) \<or> fs p \<noteq> None \<or> fs (butlast p) \<noteq> Some Dir then Inl (IoErr OsError)
      else Inr (fs(p \<mapsto> Dir)))"

fun create_dirs :: "tree_env \<Rightarrow> path list \<Rightarrow> tree_fs \<Rightarrow> tree_fs \<times> unit result" where
  "create_dirs env [] fs = (fs, Inr ())"
| "create_dirs env (p # ps) fs =
     (if fs p = Some Dir then create_dirs env ps fs
      else case fs_create_dir env p fs of Inl e \<Rightarrow> (fs, Inl e) | Inr fs' \<Rightarrow> create_dirs env ps fs')"

definition fs_create_dir_all :: "tree_env \<Rightarrow> path \<Rightarrow> tree_fs \<Rightarrow> tree_fs \<times> unit result" where
  "fs_create_dir_all env p fs = create_dirs env (map (\<lambda>n. take n p) [1..<Suc (length p)]) fs"

text \<open>A rename moves the whole subtree; onto an existing path it fails or replaces that path.\<close>

definition move_tree :: "path \<Rightarrow> path \<Rightarrow> tree_fs \<Rightarrow> tree_fs" where
  "move_tree a b fs = (\<lambda>p.
     if prefix b p then fs (a @ drop (length b) p)
     else if prefix a p then None else fs p)"

definition fs_rename :: "tree_env \<Rightarrow> path \<Rightarrow> path \<Rightarrow> tree_fs \<Rightarrow> tree_fs result" where
  "fs_rename env a b fs =
     (if te_fault env (Rename a b) \<or> fs a = None \<or> prefix a b then Inl (IoErr OsError)
      else Inr (move_tree a b fs))"

definition remove_tree :: "path \<Rightarrow> tree_fs \<Rightarrow> tree_fs" where
  "remove_tree a fs = (\<lambda>p. if prefix a p then None else fs p)"

section \<open>Entries of a tree\<close>

definition MAX_TREE_ENTRIES :: u64 where "MAX_TREE_ENTRIES = 1000000"
definition MAX_TREE_DEPTH :: nat where "MAX_TREE_DEPTH = 256"

record recursive_extraction =
  rx_files :: u64
  rx_directories :: u64
  rx_logical_bytes :: u64
  rx_skipped_entries :: u64

definition source_child :: "string \<Rightarrow> string \<Rightarrow> string" where
  "source_child parent name =
     (if parent = ''/'' then ''/'' @ name
      else rev (dropWhile (\<lambda>c. c = CHR ''/'') (rev parent)) @ ''/'' @ name)"

definition ascii_upper :: "char \<Rightarrow> char" where
  "ascii_upper c = (let n = of_char c :: nat in if 97 \<le> n \<and> n \<le> 122 then char_of (n - 32) else c)"

definition reserved_device :: "string \<Rightarrow> bool" where
  "reserved_device name =
     (let stem = map ascii_upper (hd (split_on CHR ''.'' name))
      in stem \<in> {''CON'', ''PRN'', ''AUX'', ''NUL''} \<or>
         length stem = 4 \<and> (take 3 stem = ''COM'' \<or> take 3 stem = ''LPT'') \<and>
         stem ! 3 \<in> set ''123456789'')"

definition validate_component :: "bool \<Rightarrow> string \<Rightarrow> unit result" where
  "validate_component windows name =
     (if name = [] \<or> name = ''.'' \<or> name = ''..'' \<or> CHR ''/'' \<in> set name \<or> CHR 0x5C \<in> set name \<or> CHR 0x00 \<in> set name
      then Inl (Bail ''backup entry name {name:?} cannot be represented safely as one path component'')
      else if windows \<and> (list_ex (\<lambda>c. c \<in> set [CHR ''<'', CHR ''>'', CHR '':'', CHR 0x22, CHR ''|'', CHR ''?'', CHR ''*'']) name
                \<or> last name = CHR ''.'' \<or> last name = CHR '' '')
      then Inl (Bail ''backup entry name {name:?} is not representable on Windows'')
      else if windows \<and> reserved_device name
      then Inl (Bail ''backup entry name {name:?} is a reserved Windows device name'')
      else Inr ())"

section \<open>The walk\<close>

type_synonym lister = "string \<Rightarrow> directory_entry list result"
type_synonym extractor = "string \<Rightarrow> path \<Rightarrow> tree_fs \<Rightarrow> tree_fs \<times> u64 result"

text \<open>\<open>with_context\<close> replaces the message of an error; a panic is not caught.\<close>

definition with_context :: "string \<Rightarrow> error \<Rightarrow> error" where
  "with_context m e = (case e of Panic p \<Rightarrow> Panic p | _ \<Rightarrow> Bail m)"

text \<open>The state of the walk; \<open>ts_listed\<close> records the directories that were listed.\<close>

record tree_state =
  ts_fs :: tree_fs
  ts_result :: recursive_extraction
  ts_stack :: "(string \<times> path \<times> nat) list"
  ts_listed :: "(string \<times> path \<times> nat) list"

definition tree_total :: "recursive_extraction \<Rightarrow> u64" where
  "tree_total r = saturating_add (saturating_add (rx_files r) (rx_directories r)) (rx_skipped_entries r)"

definition tree_entry ::
  "tree_env \<Rightarrow> extractor \<Rightarrow> string \<times> path \<times> nat \<Rightarrow> directory_entry \<Rightarrow> tree_state \<Rightarrow> tree_state \<times> unit result" where
  "tree_entry env ext = (\<lambda>(source_directory, target_directory, depth) entry st.
     let r = ts_result st in
     if tree_total r \<ge> MAX_TREE_ENTRIES
     then (st, Inl (Bail ''backup directory tree exceeds the {MAX_TREE_ENTRIES}-entry safety limit''))
     else case validate_component (te_windows env) (de_name entry) of
       Inl e \<Rightarrow> (st, Inl e)
     | Inr _ \<Rightarrow>
         let source_path = source_child source_directory (de_name entry);
             target_path = path_join (te_windows env) target_directory (de_name entry)
         in if de_dirent_type entry = 4 then
              (case fs_create_dir env target_path (ts_fs st) of
                 Inl e \<Rightarrow> (st, Inl (with_context ''creating recovered directory {}'' e))
               | Inr fs \<Rightarrow>
                   (st\<lparr>ts_fs := fs, ts_result := r\<lparr>rx_directories := rx_directories r + 1\<rparr>,
                       ts_stack := (source_path, target_path, depth + 1) # ts_stack st\<rparr>, Inr ()))
            else if de_dirent_type entry = 8 then
              (case ext source_path target_path (ts_fs st) of
                 (fs, Inl e) \<Rightarrow> (st\<lparr>ts_fs := fs\<rparr>, Inl (with_context ''extracting {source_path:?} to {}'' e))
               | (fs, Inr bytes) \<Rightarrow>
                   (case checked_add (rx_logical_bytes r) bytes of
                      None \<Rightarrow> (st\<lparr>ts_fs := fs, ts_result := r\<lparr>rx_files := rx_files r + 1\<rparr>\<rparr>,
                               Inl (Bail ''recursive extraction byte count overflows''))
                    | Some logical_bytes \<Rightarrow>
                        (st\<lparr>ts_fs := fs, ts_result := r\<lparr>rx_files := rx_files r + 1, rx_logical_bytes := logical_bytes\<rparr>\<rparr>, Inr ())))
            else (st\<lparr>ts_result := r\<lparr>rx_skipped_entries := rx_skipped_entries r + 1\<rparr>\<rparr>, Inr ()))"

fun tree_entries ::
  "tree_env \<Rightarrow> extractor \<Rightarrow> string \<times> path \<times> nat \<Rightarrow> directory_entry list \<Rightarrow> tree_state \<Rightarrow> tree_state \<times> unit result" where
  "tree_entries env ext dir [] st = (st, Inr ())"
| "tree_entries env ext dir (entry # entries) st =
     (case tree_entry env ext dir entry st of
        (st', Inl e) \<Rightarrow> (st', Inl e)
      | (st', Inr _) \<Rightarrow> tree_entries env ext dir entries st')"

definition entry_count :: "recursive_extraction \<Rightarrow> nat" where
  "entry_count r = unat (rx_files r) + unat (rx_directories r) + unat (rx_skipped_entries r)"

lemma tree_total_less: "tree_total r < MAX_TREE_ENTRIES \<longleftrightarrow> entry_count r < 1000000"
proof -
  have "unat MAX_TREE_ENTRIES = 1000000" by (simp add: MAX_TREE_ENTRIES_def)
  then show ?thesis by (auto simp: word_less_nat_alt tree_total_def unat_saturating_add entry_count_def)
qed

lemma unat_increment: "unat x < 1000000 \<Longrightarrow> unat (x + 1 :: u64) = unat x + 1"
  by (subst unat_add_u64) simp_all

lemma tree_entry_counts:
  assumes "tree_entry env ext dir entry st = (st', r)"
  shows "entry_count (ts_result st') \<le> max 1000000 (entry_count (ts_result st))"
    and "r = Inr u \<Longrightarrow> entry_count (ts_result st') = entry_count (ts_result st) + 1 \<and> entry_count (ts_result st) < 1000000"
    and "ts_listed st' = ts_listed st"
proof -
  have lt: "\<not> MAX_TREE_ENTRIES \<le> tree_total (ts_result st) \<longleftrightarrow> entry_count (ts_result st) < 1000000"
    using tree_total_less [of "ts_result st"] by (simp only: not_le)
  show "ts_listed st' = ts_listed st"
    and "entry_count (ts_result st') \<le> max 1000000 (entry_count (ts_result st))"
    and "r = Inr u \<Longrightarrow> entry_count (ts_result st') = entry_count (ts_result st) + 1 \<and> entry_count (ts_result st) < 1000000"
    using assms lt
    by (auto simp: tree_entry_def Let_def entry_count_def unat_increment
        split: prod.splits sum.splits if_splits option.splits)
qed

lemma tree_entries_counts:
  assumes "tree_entries env ext dir entries st = (st', r)"
  shows "entry_count (ts_result st') \<le> max 1000000 (entry_count (ts_result st)) \<and> ts_listed st' = ts_listed st \<and>
    (r = Inr () \<longrightarrow> entry_count (ts_result st') = entry_count (ts_result st) + length entries \<and>
      (entries \<noteq> [] \<longrightarrow> entry_count (ts_result st) < 1000000))"
  using assms
proof (induction entries arbitrary: st)
  case (Cons e es)
  obtain st1 r1 where e: "tree_entry env ext dir e st = (st1, r1)" by force
  note c = tree_entry_counts [OF e]
  show ?case
  proof (cases r1)
    case (Inl x)
    then show ?thesis using Cons.prems e c(1,3) by auto
  next
    case (Inr u)
    then have "tree_entries env ext dir es st1 = (st', r)" using Cons.prems e by simp
    from Cons.IH [OF this] c(2) [OF Inr] c(3) show ?thesis by auto
  qed
qed auto

text \<open>Entering a directory: it leaves the stack and is listed.\<close>

definition enter_directory :: "string \<times> path \<times> nat \<Rightarrow> (string \<times> path \<times> nat) list \<Rightarrow> tree_state \<Rightarrow> tree_state" where
  "enter_directory dir stack st = st\<lparr>ts_stack := stack, ts_listed := ts_listed st @ [dir]\<rparr>"

lemma enter_directory_simps [simp]:
  "ts_fs (enter_directory dir stack st) = ts_fs st" "ts_result (enter_directory dir stack st) = ts_result st"
  "ts_stack (enter_directory dir stack st) = stack" "ts_listed (enter_directory dir stack st) = ts_listed st @ [dir]"
  by (simp_all add: enter_directory_def)

definition walk_order :: "(tree_state \<times> tree_state) set" where
  "walk_order = measures [\<lambda>st. 1000000 - entry_count (ts_result st), \<lambda>st. length (ts_stack st)]"

lemma tree_entries_decreases:
  assumes "ts_stack st = dir # stack" and "tree_entries env ext dir entries (enter_directory dir stack st) = (st', Inr ())"
  shows "(st', st) \<in> walk_order"
  using tree_entries_counts [OF assms(2)] assms by (cases entries) (auto simp: walk_order_def)

function tree_walk ::
  "tree_env \<Rightarrow> lister \<Rightarrow> extractor \<Rightarrow> tree_state \<Rightarrow> tree_state \<times> unit result" where
  "tree_walk env list ext st =
     (case ts_stack st of
        [] \<Rightarrow> (st, Inr ())
      | (source_directory, target_directory, depth) # stack \<Rightarrow>
          if depth > MAX_TREE_DEPTH
          then (st\<lparr>ts_stack := stack\<rparr>, Inl (Bail ''backup directory tree exceeds the {MAX_TREE_DEPTH}-level safety limit''))
          else let st = st\<lparr>ts_stack := stack, ts_listed := ts_listed st @ [(source_directory, target_directory, depth)]\<rparr> in
          (case list source_directory of
             Inl e \<Rightarrow> (st, Inl e)
           | Inr entries \<Rightarrow>
               (case tree_entries env ext (source_directory, target_directory, depth) entries st of
                  (st', Inl e) \<Rightarrow> (st', Inl e)
                | (st', Inr _) \<Rightarrow> tree_walk env list ext st')))"
  by pat_completeness auto
termination
proof (relation "inv_image walk_order (\<lambda>(env, list, ext, st). st)")
  fix env :: tree_env and list :: lister and ext :: extractor and st st1 st' :: tree_state
    and x :: "string \<times> path \<times> nat" and xs dir y target depth entries r u
  assume "ts_stack st = x # xs" "(dir, y) = x" "(target, depth) = y"
    and "st1 = st\<lparr>ts_stack := xs, ts_listed := ts_listed st @ [(dir, target, depth)]\<rparr>"
    and "(st', r) = tree_entries env ext (dir, target, depth) entries st1" "r = Inr u"
  then show "((env, list, ext, st'), (env, list, ext, st)) \<in> inv_image walk_order (\<lambda>(env, list, ext, st). st)"
    using tree_entries_decreases [of st x xs env ext entries st'] by (auto simp: enter_directory_def)
qed (simp add: walk_order_def)

declare tree_walk.simps [simp del]

definition walk_start :: "string \<Rightarrow> path \<Rightarrow> tree_fs \<Rightarrow> tree_state" where
  "walk_start source_root staged_root fs =
     \<lparr>ts_fs = fs, ts_result = \<lparr>rx_files = 0, rx_directories = 1, rx_logical_bytes = 0, rx_skipped_entries = 0\<rparr>,
      ts_stack = [(source_root, staged_root, 0)], ts_listed = []\<rparr>"

section \<open>Publishing\<close>

definition remove_staged_path :: "tree_env \<Rightarrow> path \<Rightarrow> tree_fs \<Rightarrow> tree_fs \<times> unit result" where
  "remove_staged_path env p fs =
     (case fs p of
        None \<Rightarrow> (fs, Inl (Bail ''reading replaced destination metadata at {}''))
      | Some node \<Rightarrow>
          if te_fault env (Remove p) then (fs, Inl (Bail ''removing replaced destination staged at {}''))
          else (if node = Dir then remove_tree p fs else fs(p := None), Inr ()))"

definition publish_tree :: "tree_env \<Rightarrow> path \<Rightarrow> path \<Rightarrow> path \<Rightarrow> recursive_extraction \<Rightarrow> tree_fs \<Rightarrow> tree_fs \<times> recursive_extraction result" where
  "publish_tree env destination staged_root previous result fs =
     (case (if fs destination \<noteq> None then fs_rename env destination previous fs else Inr fs) of
        Inl e \<Rightarrow> (fs, Inl (Bail ''staging existing destination {} for replacement''))
      | Inr fs \<Rightarrow>
          (case fs_rename env staged_root destination fs of
             Inl e \<Rightarrow>
               (if fs previous \<noteq> None
                then (case fs_rename env previous destination fs of Inl _ \<Rightarrow> fs | Inr fs' \<Rightarrow> fs')
                else fs, Inl (Bail ''publishing recovered directory {}''))
           | Inr fs \<Rightarrow>
               if fs previous \<noteq> None
               then (case remove_staged_path env previous fs of
                       (fs, Inl e) \<Rightarrow> (fs, Inl e)
                     | (fs, Inr _) \<Rightarrow> (fs, Inr result))
               else (fs, Inr result)))"

text \<open>The work between the creation of the staging directory and its removal.\<close>

definition staged_extraction ::
  "tree_env \<Rightarrow> string \<Rightarrow> path \<Rightarrow> lister \<Rightarrow> extractor \<Rightarrow> path \<Rightarrow> tree_fs \<Rightarrow> tree_fs \<times> recursive_extraction result" where
  "staged_extraction env source_root destination list ext staging fs =
     (let staged_root = staging @ [''recovered''] in
      case fs_create_dir env staged_root fs of
        Inl e \<Rightarrow> (fs, Inl e)
      | Inr fs \<Rightarrow>
          (case tree_walk env list ext (walk_start source_root staged_root fs) of
             (st, Inl e) \<Rightarrow> (ts_fs st, Inl e)
           | (st, Inr _) \<Rightarrow>
               publish_tree env destination staged_root (staging @ [''previous'']) (ts_result st) (ts_fs st)))"

text \<open>The staging directory is removed when its owner is dropped; a failure to remove it is ignored.\<close>

definition drop_staging :: "tree_env \<Rightarrow> path \<Rightarrow> tree_fs \<Rightarrow> tree_fs" where
  "drop_staging env staging fs = (if te_fault env (Remove staging) then fs else remove_tree staging fs)"

definition extract_directory_tree ::
  "tree_env \<Rightarrow> string \<Rightarrow> path \<Rightarrow> bool \<Rightarrow> lister \<Rightarrow> extractor \<Rightarrow> tree_fs \<Rightarrow> tree_fs \<times> recursive_extraction result" where
  "extract_directory_tree env source_root destination force list ext fs =
     (if fs destination \<noteq> None \<and> \<not> force
      then (fs, Inl (Bail ''destination {} already exists (pass --force to replace it)''))
      else let parent = parent_directory destination in
        case fs_create_dir_all env parent fs of
          (fs, Inl e) \<Rightarrow> (fs, Inl (Bail ''creating destination parent {}''))
        | (fs, Inr _) \<Rightarrow>
            (case te_tempdir env parent fs of
               Inl e \<Rightarrow> (fs, Inl (Bail ''creating extraction staging directory in {}''))
             | Inr name \<Rightarrow>
                 let staging = parent @ [name];
                     (fs, r) = staged_extraction env source_root destination list ext staging (fs(staging \<mapsto> Dir))
                 in (drop_staging env staging fs, r)))"

section \<open>Trees of a snapshot\<close>

text \<open>The file at a path, as the extraction of one file sees it; any node there counts as existing.\<close>

definition file_at :: "path \<Rightarrow> tree_fs \<Rightarrow> disk" where
  "file_at p fs = (\<lambda>s. if s = join ''/'' p
     then (case fs p of None \<Rightarrow> None | Some (Regular b) \<Rightarrow> Some b | Some _ \<Rightarrow> Some []) else None)"

definition snapshot_extractor ::
  "('r, 'l, 'i, 'v) zpl_lib \<Rightarrow> crypto \<Rightarrow> codecs \<Rightarrow> env \<Rightarrow> byte_source option \<Rightarrow> snapshot_plan \<Rightarrow> object_index \<Rightarrow> byte list option \<Rightarrow> extractor" where
  "snapshot_extractor lib k z ev stream plan ix key_material source destination fs =
     (case resolve_path lib ix source of
        Inl e \<Rightarrow> (fs, Inl e)
      | Inr resolved \<Rightarrow>
          (let (disk, r) = extract_resolved_snapshot k z ev stream plan ix resolved (join ''/'' destination) False key_material False
                 (file_at destination fs)
           in (if disk (join ''/'' destination) = file_at destination fs (join ''/'' destination) then fs
               else fs(destination := map_option Regular (disk (join ''/'' destination))),
               and_then r (\<lambda>sidecar. Inr (sc_logical_size sidecar)))))"

definition extract_tree_snapshot_with_key ::
  "('r, 'l, 'i, 'v) zpl_lib \<Rightarrow> crypto \<Rightarrow> codecs \<Rightarrow> env \<Rightarrow> tree_env \<Rightarrow> byte_source option \<Rightarrow> string \<Rightarrow> path \<Rightarrow> bool \<Rightarrow> string option \<Rightarrow>
   byte list option \<Rightarrow> tree_fs \<Rightarrow> tree_fs \<times> recursive_extraction result" where
  "extract_tree_snapshot_with_key lib k z ev env stream path output force snapshot key_material fs =
     (case and_then (plan_snapshot stream snapshot) (\<lambda>plan.
           and_then (build_plan_with_key k z stream plan key_material) (\<lambda>ix. Inr (plan, ix))) of
        Inl e \<Rightarrow> (fs, Inl e)
      | Inr (plan, ix) \<Rightarrow>
          extract_directory_tree env path output force (list_directory lib ix)
            (snapshot_extractor lib k z ev stream plan ix key_material) fs)"

section \<open>Invariants of the walk\<close>

lemma tree_entries_invariant:
  assumes "tree_entries env ext dir entries st = (st', r)" and "P st"
    and "\<And>e s s' r. e \<in> set entries \<Longrightarrow> P s \<Longrightarrow> tree_entry env ext dir e s = (s', r) \<Longrightarrow> P s'"
  shows "P st'"
  using assms
proof (induction entries arbitrary: st)
  case (Cons e es)
  obtain st1 r1 where e: "tree_entry env ext dir e st = (st1, r1)" by force
  have "P st1" using Cons.prems(2,3) e by (metis list.set_intros(1))
  then show ?case
    using Cons.prems(1,3) Cons.IH [of st1] e by (cases r1) auto
qed simp

lemma tree_walk_step:
  assumes "ts_stack st = dir # stack"
  shows "tree_walk env list ext st =
     (if snd (snd dir) > MAX_TREE_DEPTH
      then (st\<lparr>ts_stack := stack\<rparr>, Inl (Bail ''backup directory tree exceeds the {MAX_TREE_DEPTH}-level safety limit''))
      else case list (fst dir) of Inl e \<Rightarrow> (enter_directory dir stack st, Inl e)
       | Inr entries \<Rightarrow> (case tree_entries env ext dir entries (enter_directory dir stack st) of
            (s, Inl e) \<Rightarrow> (s, Inl e) | (s, Inr _) \<Rightarrow> tree_walk env list ext s))"
  using assms unfolding enter_directory_def by (cases dir, hypsubst, subst tree_walk.simps) (simp add: Let_def)

lemma tree_walk_induct [case_names step]:
  fixes list :: lister
  assumes "\<And>st. (\<And>dir stack entries st'. ts_stack st = dir # stack \<Longrightarrow> snd (snd dir) \<le> MAX_TREE_DEPTH \<Longrightarrow>
      list (fst dir) = Inr entries \<Longrightarrow> tree_entries env ext dir entries (enter_directory dir stack st) = (st', Inr ()) \<Longrightarrow> P st') \<Longrightarrow> P st"
  shows "P st"
proof -
  have "wf walk_order" by (simp add: walk_order_def)
  then show ?thesis by (induction st rule: wf_induct_rule) (use assms tree_entries_decreases in blast)
qed

lemma tree_walk_invariant:
  assumes "tree_walk env list ext st = (st', r)" and "P st"
    and pop: "\<And>dir stack s. P s \<Longrightarrow> ts_stack s = dir # stack \<Longrightarrow> P (s\<lparr>ts_stack := stack\<rparr>)"
    and enter: "\<And>dir stack s. P s \<Longrightarrow> ts_stack s = dir # stack \<Longrightarrow> snd (snd dir) \<le> MAX_TREE_DEPTH \<Longrightarrow> P (enter_directory dir stack s)"
    and "entry": "\<And>dir e s s' r. P s \<Longrightarrow> dir \<in> set (ts_listed s) \<Longrightarrow> tree_entry env ext dir e s = (s', r) \<Longrightarrow> P s'"
  shows "P st'"
  using assms(1,2)
proof (induction st rule: tree_walk_induct [where env = env and list = list and ext = ext])
  case (step st)
  show ?case
  proof (cases "ts_stack st")
    case Nil
    then show ?thesis using step.prems by (simp add: tree_walk.simps)
  next
    case (Cons dir stack)
    note walk = step.prems(1) [unfolded tree_walk_step [OF Cons]]
    show ?thesis
    proof (cases "snd (snd dir) > MAX_TREE_DEPTH")
      case True
      then show ?thesis using walk pop [OF step.prems(2) Cons] by simp
    next
      case False
      then have P: "P (enter_directory dir stack st)" using enter [OF step.prems(2) Cons] by simp
      show ?thesis
      proof (cases "list (fst dir)")
        case (Inl e)
        then show ?thesis using walk False P by simp
      next
        case (Inr entries)
        obtain s r1 where s: "tree_entries env ext dir entries (enter_directory dir stack st) = (s, r1)" by force
        have "P s \<and> dir \<in> set (ts_listed s)"
          by (rule tree_entries_invariant [OF s]) (use P "entry" tree_entry_counts(3) in \<open>auto, metis\<close>)
        then show ?thesis
          using walk False Inr s step.IH [OF Cons _ Inr, of s] by (cases r1) auto
      qed
    qed
  qed
qed

section \<open>Bounds\<close>

definition walk_bounded :: "tree_state \<Rightarrow> bool" where
  "walk_bounded st \<longleftrightarrow> entry_count (ts_result st) \<le> 1000000 \<and>
     length (ts_listed st) + length (ts_stack st) \<le> unat (rx_directories (ts_result st)) \<and>
     (\<forall>(src, tgt, depth) \<in> set (ts_listed st). depth \<le> MAX_TREE_DEPTH)"

lemma tree_entry_bounded:
  assumes "tree_entry env ext dir e st = (st', r)" and "walk_bounded st"
  shows "walk_bounded st'"
proof -
  note c = tree_entry_counts [OF assms(1)]
  have "length (ts_stack st') + unat (rx_directories (ts_result st)) \<le> length (ts_stack st) + unat (rx_directories (ts_result st'))"
    using assms(1) tree_total_less [of "ts_result st"]
    by (auto simp: tree_entry_def Let_def entry_count_def unat_increment not_le
        split: prod.splits sum.splits if_splits option.splits)
  then show ?thesis using c assms(2) by (auto simp: walk_bounded_def)
qed

lemma tree_walk_bounded:
  "tree_walk env list ext st = (st', r) \<Longrightarrow> walk_bounded st \<Longrightarrow> walk_bounded st'"
  by (erule tree_walk_invariant [where P = walk_bounded]) (auto simp: tree_entry_bounded, auto simp: walk_bounded_def)

end
