(* ===== verification/Tree_Publish.thy ===== *)
theory Tree_Publish
  imports Tree_Extract
begin

text \<open>
  What the extraction of a directory tree promises: nothing outside the staging directory changes
  before the tree is published, a failed extraction leaves everything as it was, and a published
  tree is the source tree. The locales state what the extraction relies on: \<open>temp_dirs\<close> for the
  staging directories and \<open>file_extractor\<close> for the closure that extracts one file, which the
  extraction of a file of a snapshot fulfils (\<open>snapshot_files\<close>).
\<close>

section \<open>Confinement\<close>

lemma split_separators_single: "\<forall>c \<in> set s. \<not> is_separator w c \<Longrightarrow> split_separators w s = [s]"
  by (induction s) auto

text \<open>A validated name is one component below its directory.\<close>

lemma path_join_validated:
  assumes "validate_component w name = Inr u"
  shows "path_join w p name = p @ [name]"
proof -
  from assms have n: "name \<noteq> []" "name \<noteq> ''.''" "CHR ''/'' \<notin> set name" "CHR 0x5C \<notin> set name"
    and w: "w \<longrightarrow> CHR '':'' \<notin> set name"
    by (auto simp: validate_component_def list_ex_iff split: if_splits)
  then have sep: "\<forall>c \<in> set name. \<not> is_separator w c" by (auto simp: is_separator_def)
  then have "path_components w name = [name]"
    using n(1,2) by (simp add: path_components_def split_separators_single split: list.split)
  moreover have "\<not> (case name of c # _ \<Rightarrow> is_separator w c | [] \<Rightarrow> False)" using sep by (auto split: list.split)
  moreover have "2 \<le> length name \<Longrightarrow> name ! 1 \<in> set name" by (rule nth_mem) simp
  then have "\<not> (w \<and> 2 \<le> length name \<and> name ! 1 = CHR '':'')" using w by metis
  ultimately show ?thesis unfolding path_join_def by (simp only: disj_not1 if_False simp_thms)
qed

text \<open>The outcomes of one entry.\<close>

lemma tree_entry_cases:
  assumes "tree_entry env ext (src, tgt, depth) e st = (st', r)"
  obtains
    (rejected) err where "st' = st" "r = Inl err"
  | (directory) fs where "validate_component (te_windows env) (de_name e) = Inr ()" "de_dirent_type e = 4"
      "fs_create_dir env (tgt @ [de_name e]) (ts_fs st) = Inr fs" "ts_fs st' = fs" "r = Inr ()"
      "ts_stack st' = (source_child src (de_name e), tgt @ [de_name e], depth + 1) # ts_stack st" "ts_listed st' = ts_listed st"
  | (failed) fs x err where "ext (source_child src (de_name e)) (tgt @ [de_name e]) (ts_fs st) = (fs, x)"
      "ts_fs st' = fs" "r = Inl err" "ts_stack st' = ts_stack st" "ts_listed st' = ts_listed st"
  | (regular) fs bytes where "validate_component (te_windows env) (de_name e) = Inr ()" "de_dirent_type e = 8"
      "ext (source_child src (de_name e)) (tgt @ [de_name e]) (ts_fs st) = (fs, Inr bytes)"
      "ts_fs st' = fs" "r = Inr ()" "ts_stack st' = ts_stack st" "ts_listed st' = ts_listed st"
  | (skipped) "de_dirent_type e \<noteq> 4" "de_dirent_type e \<noteq> 8" "validate_component (te_windows env) (de_name e) = Inr ()"
      "ts_fs st' = ts_fs st" "r = Inr ()" "ts_stack st' = ts_stack st" "ts_listed st' = ts_listed st"
proof (cases "MAX_TREE_ENTRIES \<le> tree_total (ts_result st) \<or> (\<exists>x. validate_component (te_windows env) (de_name e) = Inl x)")
  case True
  then have "st' = st \<and> (\<exists>err. r = Inl err)" using assms
    by (elim disjE exE) (simp_all add: tree_entry_def Let_def split: if_splits, metis+)
  then show ?thesis using rejected by blast
next
  case False
  then have v: "validate_component (te_windows env) (de_name e) = Inr ()"
    by (cases "validate_component (te_windows env) (de_name e)") auto
  note entry = assms [unfolded tree_entry_def Let_def prod.case v sum.case path_join_validated [OF v]]
  obtain fs x where x: "ext (source_child src (de_name e)) (tgt @ [de_name e]) (ts_fs st) = (fs, x)" by force
  consider "de_dirent_type e = 4" | "de_dirent_type e = 8" | "de_dirent_type e \<noteq> 4" "de_dirent_type e \<noteq> 8" by blast
  then show ?thesis
  proof cases
    case 1
    with entry False show ?thesis
      by (cases "fs_create_dir env (tgt @ [de_name e]) (ts_fs st)") (auto intro: rejected directory [OF v])
  next
    case 2
    with entry False x v show ?thesis
      by (cases x; cases "checked_add (rx_logical_bytes (ts_result st)) (projr x)") (auto intro: failed [OF x] regular [OF v])
  next
    case 3
    with entry False v show ?thesis by (auto intro: skipped)
  qed
qed

definition confined :: "extractor \<Rightarrow> bool" where
  "confined ext \<longleftrightarrow> (\<forall>src tgt fs p. \<not> prefix tgt p \<longrightarrow> fst (ext src tgt fs) p = fs p)"

definition walk_inside :: "path \<Rightarrow> tree_fs \<Rightarrow> tree_state \<Rightarrow> bool" where
  "walk_inside root fs st \<longleftrightarrow> (\<forall>(src, tgt, depth) \<in> set (ts_stack st) \<union> set (ts_listed st). prefix root tgt) \<and>
     (\<forall>p. \<not> prefix root p \<longrightarrow> ts_fs st p = fs p)"

lemma tree_entry_inside:
  assumes "tree_entry env ext dir e st = (st', r)" and "confined ext" and "walk_inside root fs st" and "dir \<in> set (ts_listed st)"
  shows "walk_inside root fs st'"
proof -
  obtain src tgt depth where dir: "dir = (src, tgt, depth)" by (cases dir)
  have tgt: "prefix root tgt" using assms(3,4) dir by (fastforce simp: walk_inside_def)
  then have out: "\<not> prefix root p \<Longrightarrow> \<not> prefix (tgt @ [de_name e]) p" "prefix root (tgt @ [de_name e])" for p
    by (auto simp: prefix_def)
  have ext: "\<not> prefix root p \<Longrightarrow> ext x (tgt @ [de_name e]) f = (f', r') \<Longrightarrow> f' p = f p" for x f f' r' p
    using assms(2) out(1) unfolding confined_def by (metis fst_conv)
  have mk: "\<not> prefix root p \<Longrightarrow> fs_create_dir env (tgt @ [de_name e]) f = Inr f' \<Longrightarrow> f' p = f p" for f f' p
    using out by (auto simp: fs_create_dir_def split: if_splits)
  from assms(1) [unfolded dir] show ?thesis
  proof (cases rule: tree_entry_cases)
    case (directory fs1)
    have "\<not> prefix root p \<Longrightarrow> ts_fs st' p = fs p" for p
      using mk [OF _ directory(3), of p] directory(4) assms(3) by (simp add: walk_inside_def)
    then show ?thesis using directory(6,7) assms(3) out(2) by (auto simp: walk_inside_def)
  next
    case (failed fs1 x err)
    have "\<not> prefix root p \<Longrightarrow> ts_fs st' p = fs p" for p
      using ext [OF _ failed(1), of p] failed(2) assms(3) by (simp add: walk_inside_def)
    then show ?thesis using failed(4,5) assms(3) by (simp add: walk_inside_def)
  next
    case (regular fs1 bytes)
    have "\<not> prefix root p \<Longrightarrow> ts_fs st' p = fs p" for p
      using ext [OF _ regular(3), of p] regular(4) assms(3) by (simp add: walk_inside_def)
    then show ?thesis using regular(6,7) assms(3) by (simp add: walk_inside_def)
  qed (use assms(3) in \<open>auto simp: walk_inside_def\<close>)
qed

lemma tree_walk_inside:
  "tree_walk env list ext st = (st', r) \<Longrightarrow> confined ext \<Longrightarrow> walk_inside root fs st \<Longrightarrow> walk_inside root fs st'"
  by (erule tree_walk_invariant [where P = "walk_inside root fs"])
    (auto simp: tree_entry_inside, auto simp: walk_inside_def)


section \<open>Publishing and failure\<close>

definition apart :: "path \<Rightarrow> path \<Rightarrow> bool" where
  "apart a b \<longleftrightarrow> \<not> prefix a b \<and> \<not> prefix b a"

lemma apart_disjoint: "apart a b \<Longrightarrow> prefix a p \<Longrightarrow> \<not> prefix b p"
  unfolding apart_def using prefix_same_cases by blast

lemma apart_below: "apart a b \<Longrightarrow> apart a (b @ c)"
  unfolding apart_def by (meson append_prefixD prefix_append prefix_def prefix_same_cases)

lemma prefix_decompose: "prefix a p \<Longrightarrow> a @ drop (length a) p = p"
  by (auto simp: prefix_def)

lemma fs_rename_back:
  assumes "fs_rename env a b fs = Inr fs1" and "fs_rename env b a fs1 = Inr fs2" and "apart a b" and "\<not> prefix b p"
  shows "fs2 p = fs p"
  using assms apart_disjoint [OF assms(3), of p] prefix_decompose [of a p]
  by (auto simp: fs_rename_def move_tree_def prefix_decompose split: if_splits)

lemma publish_failure:
  assumes "publish_tree env destination root previous result fs = (fs', Inl e)"
    and "apart destination previous" and "\<not> te_fault env (Rename previous destination)" and "\<not> te_fault env (Remove previous)"
    and "\<not> prefix previous p" and "fs previous = None" and "apart root previous"
  shows "fs' p = fs p"
proof (cases "fs destination = None")
  case True
  then show ?thesis
    using assms
    by (auto simp: publish_tree_def remove_staged_path_def split: sum.splits if_splits option.splits prod.splits)
next
  case False
  show ?thesis
  proof (cases "fs_rename env destination previous fs")
    case (Inl x)
    then show ?thesis using assms(1) False by (simp add: publish_tree_def)
  next
    case (Inr fs1)
    have prev: "fs1 previous \<noteq> None" using Inr False by (auto simp: fs_rename_def move_tree_def split: if_splits)
    then have restore: "\<exists>fs2. fs_rename env previous destination fs1 = Inr fs2"
      using assms(2,3) by (simp add: fs_rename_def apart_def)
    show ?thesis
    proof (cases "fs_rename env root destination fs1")
      case (Inl x)
      then show ?thesis
        using assms(1,2,5) False Inr prev restore fs_rename_back [OF Inr] by (auto simp: publish_tree_def)
    next
      case ren: (Inr fs2)
      then show ?thesis
        using assms(1,4) False Inr by (auto simp: publish_tree_def remove_staged_path_def split: option.splits if_splits prod.splits)
    qed
  qed
qed


lemma walk_start_inside: "walk_inside root fs (walk_start source_root root fs)"
  by (simp add: walk_inside_def walk_start_def)

lemma staged_walk:
  assumes "fs_create_dir env (staging @ [''recovered'']) fs = Inr fs1"
    and "tree_walk env list ext (walk_start source_root (staging @ [''recovered'']) fs1) = (st, r)" and "confined ext"
  shows "\<not> prefix (staging @ [''recovered'']) p \<Longrightarrow> ts_fs st p = fs p"
proof -
  assume p: "\<not> prefix (staging @ [''recovered'']) p"
  have "walk_inside (staging @ [''recovered'']) fs1 st"
    using tree_walk_inside [OF assms(2,3) walk_start_inside] .
  then have "ts_fs st p = fs1 p" using p by (simp add: walk_inside_def)
  also have "\<dots> = fs p" using assms(1) p by (auto simp: fs_create_dir_def split: if_splits)
  finally show ?thesis .
qed

text \<open>The calls that bring a replaced destination back, and that remove it, succeed.\<close>

definition restores :: "tree_env \<Rightarrow> path \<Rightarrow> path \<Rightarrow> bool" where
  "restores env destination staging \<longleftrightarrow> \<not> te_fault env (Rename (staging @ [''previous'']) destination) \<and>
     \<not> te_fault env (Remove (staging @ [''previous'']))"

lemma staged_failure:
  assumes "staged_extraction env source_root destination list ext staging fs = (fs', Inl e)"
    and "confined ext" and "apart destination staging" and "restores env destination staging"
    and "fs (staging @ [''previous'']) = None" and "\<not> prefix staging p"
  shows "fs' p = fs p"
proof (cases "fs_create_dir env (staging @ [''recovered'']) fs")
  case (Inl x)
  then show ?thesis using assms(1) by (simp add: staged_extraction_def)
next
  case (Inr fs1)
  obtain st r where walk: "tree_walk env list ext (walk_start source_root (staging @ [''recovered'']) fs1) = (st, r)" by force
  note frame = staged_walk [OF Inr walk assms(2)]
  have p: "\<not> prefix (staging @ x) p" for x using assms(6) by (meson append_prefixD)
  show ?thesis
  proof (cases r)
    case (Inl x)
    then show ?thesis using assms(1) Inr walk frame [OF p] by (simp add: staged_extraction_def)
  next
    case r: (Inr u)
    have pub: "publish_tree env destination (staging @ [''recovered'']) (staging @ [''previous'']) (ts_result st) (ts_fs st) = (fs', Inl e)"
      using assms(1) Inr walk r by (simp add: staged_extraction_def)
    have "fs' p = ts_fs st p"
      by (rule publish_failure [OF pub])
        (use assms(3-5) p frame [of "staging @ [''previous'']"] apart_below [OF assms(3)] in \<open>auto simp: restores_def apart_def [of "_ @ _"]\<close>)
    then show ?thesis using frame [OF p] by simp
  qed
qed

lemma create_dirs_frame:
  assumes "create_dirs env ps fs = (fs', r)" and "fs p \<noteq> None \<or> p \<notin> set ps"
  shows "fs' p = fs p"
  using assms
proof (induction ps arbitrary: fs)
  case (Cons q ps)
  show ?case
  proof (cases "fs q = Some Dir \<or> (\<exists>e. fs_create_dir env q fs = Inl e)")
    case True
    then show ?thesis using Cons by (cases "fs q = Some Dir") auto
  next
    case False
    then obtain fs1 where "fs q \<noteq> Some Dir" and "fs_create_dir env q fs = Inr fs1" by (cases "fs_create_dir env q fs") auto
    then have run: "create_dirs env ps fs1 = (fs', r)" and "fs q = None" and "fs1 = fs(q \<mapsto> Dir)"
      using Cons.prems(1) by (auto simp: fs_create_dir_def split: if_splits)
    then have "fs1 p \<noteq> None \<or> p \<notin> set ps" and "fs1 p = fs p" using Cons.prems(2) by auto
    then show ?thesis using Cons.IH [OF run] by simp
  qed
qed simp

lemma create_dir_all_frame:
  assumes "fs_create_dir_all env q fs = (fs', r)" and "fs p \<noteq> None \<or> \<not> prefix p q"
  shows "fs' p = fs p"
  by (rule create_dirs_frame [OF assms(1) [unfolded fs_create_dir_all_def]]) (use assms(2) take_is_prefix in auto)

text \<open>What the \<open>tempfile\<close> crate documents: the directory is new and its name has the prefix.\<close>

locale temp_dirs =
  fixes env :: tree_env
  assumes temp_fresh: "te_tempdir env parent fs = Inr name \<Longrightarrow> prefix (parent @ [name]) p \<Longrightarrow> fs p = None"
    and temp_name: "te_tempdir env parent fs = Inr name \<Longrightarrow> prefix ''.zfse-tree-'' name"
begin

lemma staging_apart:
  assumes "te_tempdir env (parent_directory destination) fs = Inr name" and "destination \<noteq> []"
    and "\<not> prefix ''.zfse-tree-'' (last destination)"
  shows "apart destination (parent_directory destination @ [name])"
proof -
  have n: "name \<noteq> last destination" "name \<noteq> []" using temp_name [OF assms(1)] assms(3) by auto
  show ?thesis
  proof (cases "destination = [[]]")
    case True
    then show ?thesis using n by (simp add: apart_def parent_directory_def)
  next
    case False
    then obtain par d where "destination = par @ [d]" "parent_directory destination = par"
      using assms(2) by (cases destination rule: rev_cases) (auto simp: parent_directory_def)
    then show ?thesis using n by (auto simp: apart_def)
  qed
qed

lemma failed_tree_extraction:
  assumes "extract_directory_tree env source_root destination force list ext fs = (fs', Inl e)"
    and "confined ext" and "destination \<noteq> []" and "\<not> prefix ''.zfse-tree-'' (last destination)"
    and "\<And>name. restores env destination (parent_directory destination @ [name])"
    and "\<And>name. \<not> te_fault env (Remove (parent_directory destination @ [name]))"
    and "fs p \<noteq> None \<or> \<not> prefix p (parent_directory destination)"
  shows "fs' p = fs p"
proof (cases "fs destination \<noteq> None \<and> \<not> force")
  case True
  then show ?thesis using assms(1) by (simp add: extract_directory_tree_def)
next
  case False
  let ?parent = "parent_directory destination"
  obtain fs1 r1 where mk: "fs_create_dir_all env ?parent fs = (fs1, r1)" by force
  have fs1: "fs1 p = fs p" using create_dir_all_frame [OF mk assms(7)] .
  note run = assms(1) [unfolded extract_directory_tree_def if_not_P [OF False] Let_def mk prod.case]
  show ?thesis
  proof (cases "(\<exists>x. r1 = Inl x) \<or> (\<exists>x. te_tempdir env ?parent fs1 = Inl x)")
    case True
    then show ?thesis using run fs1 by (cases r1) auto
  next
    case False
    then obtain name where r1: "r1 = Inr ()" and name: "te_tempdir env ?parent fs1 = Inr name"
      by (cases r1; cases "te_tempdir env ?parent fs1") auto
    let ?staging = "?parent @ [name]"
    obtain fs2 r2 where st: "staged_extraction env source_root destination list ext ?staging (fs1(?staging \<mapsto> Dir)) = (fs2, r2)" by force
    have out: "fs' = drop_staging env ?staging fs2" "r2 = Inl e" using run r1 name st by auto
    note fresh = temp_fresh [OF name]
    show ?thesis
    proof (cases "prefix ?staging p")
      case True
      then show ?thesis using out(1) assms(6) fresh [OF True] fs1 by (simp add: drop_staging_def remove_tree_def)
    next
      case False
      have "fs2 p = (fs1(?staging \<mapsto> Dir)) p"
        by (rule staged_failure [OF st [unfolded out(2)] assms(2) staging_apart [OF name assms(3,4)] assms(5) _ False])
          (use fresh in auto)
      then show ?thesis using False out(1) assms(6) fs1 by (auto simp: drop_staging_def remove_tree_def)
    qed
  qed
qed

end


section \<open>The published tree\<close>

text \<open>The directories and the files below a source directory, by their path relative to it.\<close>

inductive subdirectory :: "lister \<Rightarrow> string \<Rightarrow> path \<Rightarrow> string \<Rightarrow> bool" for list :: lister and root :: string where
  top: "subdirectory list root [] root"
| below: "subdirectory list root rel src \<Longrightarrow> list src = Inr entries \<Longrightarrow> e \<in> set entries \<Longrightarrow> de_dirent_type e = 4 \<Longrightarrow>
    subdirectory list root (rel @ [de_name e]) (source_child src (de_name e))"

definition tree_file :: "lister \<Rightarrow> string \<Rightarrow> path \<Rightarrow> string \<Rightarrow> bool" where
  "tree_file list root rel src \<longleftrightarrow>
     (\<exists>dir parent entries e. subdirectory list root dir parent \<and> list parent = Inr entries \<and> e \<in> set entries \<and>
        de_dirent_type e = 8 \<and> rel = dir @ [de_name e] \<and> src = source_child parent (de_name e))"

text \<open>A closure that extracts the contents of a file to a path that does not exist yet.\<close>

locale file_extractor =
  fixes ext :: extractor and content :: "string \<Rightarrow> byte list"
  assumes extracted: "ext src tgt fs = (fs', Inr n) \<Longrightarrow> fs tgt = None \<and> fs' = fs(tgt \<mapsto> Regular (content src))"
    and extractor_confined: "confined ext"
begin

definition child_dir :: "(string \<times> path \<times> nat) \<times> directory_entry \<Rightarrow> string \<times> path \<times> nat" where
  "child_dir x = (case x of ((s, t, d), e) \<Rightarrow> (source_child s (de_name e), t @ [de_name e], d + 1))"

definition made_dirs :: "string \<times> path \<Rightarrow> ((string \<times> path \<times> nat) \<times> directory_entry) set \<Rightarrow> (string \<times> path \<times> nat) set" where
  "made_dirs start E = insert (fst start, snd start, 0) (child_dir ` {x \<in> E. de_dirent_type (snd x) = 4})"

definition made_files :: "((string \<times> path \<times> nat) \<times> directory_entry) set \<Rightarrow> (path \<times> byte list) set" where
  "made_files E = (\<lambda>x. (fst (snd (child_dir x)), content (fst (child_dir x)))) ` {x \<in> E. de_dirent_type (snd x) = 8}"

definition built :: "string \<times> path \<Rightarrow> ((string \<times> path \<times> nat) \<times> directory_entry) set \<Rightarrow> tree_state \<Rightarrow> bool" where
  "built start E st \<longleftrightarrow>
     set (ts_stack st) \<union> set (ts_listed st) = made_dirs start E \<and>
     (\<forall>(s, t, d) \<in> made_dirs start E. prefix (snd start) t) \<and>
     (\<forall>p. prefix (snd start) p \<longrightarrow>
        (ts_fs st p = Some Dir \<longleftrightarrow> p \<in> (fst \<circ> snd) ` made_dirs start E) \<and>
        (\<forall>b. ts_fs st p = Some (Regular b) \<longleftrightarrow> (p, b) \<in> made_files E) \<and> ts_fs st p \<noteq> Some Special)"

lemma built_view:
  assumes "built start E st" and "prefix (snd start) p"
  shows "ts_fs st p = Some Dir \<longleftrightarrow> p \<in> (fst \<circ> snd) ` made_dirs start E"
    and "ts_fs st p = Some (Regular b) \<longleftrightarrow> (p, b) \<in> made_files E" and "ts_fs st p \<noteq> Some Special"
  using assms by (auto simp: built_def)

lemma built_enter:
  assumes "built start E st" and "ts_stack st = dir # stack"
  shows "built start E (enter_directory dir stack st)"
proof -
  have "set stack \<union> set (ts_listed st @ [dir]) = set (ts_stack st) \<union> set (ts_listed st)" using assms(2) by auto
  then show ?thesis using assms(1) by (simp add: built_def)
qed

lemma tree_entry_built:
  assumes "tree_entry env ext dir e st = (st', Inr ())" and "built start E st" and "dir \<in> made_dirs start E"
  shows "built start (insert (dir, e) E) st'"
proof -
  obtain s t d where dir: "dir = (s, t, d)" by (cases dir)
  let ?q = "t @ [de_name e]" and ?c = "source_child s (de_name e)"
  have c: "child_dir (dir, e) = (?c, ?q, d + 1)" by (simp add: child_dir_def dir)
  have pre: "prefix (snd start) t" using assms(2,3) dir by (fastforce simp: built_def)
  then have preq: "prefix (snd start) ?q" by (auto simp: prefix_def)
  have new: "ts_fs st ?q = None \<Longrightarrow> ?q \<notin> (fst \<circ> snd) ` made_dirs start E \<and> (\<forall>b. (?q, b) \<notin> made_files E)"
    using built_view [OF assms(2) preq] by auto
  from assms(1) [unfolded dir] show ?thesis
  proof (cases rule: tree_entry_cases)
    case (directory fs)
    have "{x \<in> insert (dir, e) E. de_dirent_type (snd x) = 4} = insert (dir, e) {x \<in> E. de_dirent_type (snd x) = 4}"
      using directory(2) by auto
    then have dirs: "made_dirs start (insert (dir, e) E) = insert (?c, ?q, d + 1) (made_dirs start E)"
      by (simp add: made_dirs_def c insert_commute)
    have files: "made_files (insert (dir, e) E) = made_files E" using directory(2) by (auto simp: made_files_def)
    have fs: "ts_fs st ?q = None" "ts_fs st' = (ts_fs st)(?q \<mapsto> Dir)"
      using directory(3,4) by (auto simp: fs_create_dir_def split: if_splits)
    show ?thesis
      unfolding built_def dirs files
    proof (intro conjI allI impI)
      show "set (ts_stack st') \<union> set (ts_listed st') = insert (?c, ?q, d + 1) (made_dirs start E)"
        using directory(6,7) assms(2) by (auto simp: built_def)
      show "\<forall>(s, t, d) \<in> insert (?c, ?q, d + 1) (made_dirs start E). prefix (snd start) t"
        using assms(2) preq by (auto simp: built_def)
    qed (use fs new [OF fs(1)] built_view [OF assms(2)] in \<open>auto simp del: split_paired_Ex split_paired_All\<close>)
  next
    case (regular fs bytes)
    have dirs: "made_dirs start (insert (dir, e) E) = made_dirs start E"
      using regular(2) by (auto simp: made_dirs_def)
    have "{x \<in> insert (dir, e) E. de_dirent_type (snd x) = 8} = insert (dir, e) {x \<in> E. de_dirent_type (snd x) = 8}"
      using regular(2) by auto
    then have files: "made_files (insert (dir, e) E) = insert (?q, content ?c) (made_files E)"
      by (simp add: made_files_def c)
    have fs: "ts_fs st ?q = None" "ts_fs st' = (ts_fs st)(?q \<mapsto> Regular (content ?c))"
      using extracted [OF regular(3)] regular(4) by auto
    show ?thesis
      unfolding built_def dirs files
    proof (intro conjI allI impI)
      show "set (ts_stack st') \<union> set (ts_listed st') = made_dirs start E"
        using regular(6,7) assms(2) by (auto simp: built_def)
    qed (use fs new [OF fs(1)] built_view [OF assms(2)] assms(2) in \<open>auto simp: built_def\<close>)
  next
    case skipped
    then have "made_dirs start (insert (dir, e) E) = made_dirs start E" "made_files (insert (dir, e) E) = made_files E"
      by (auto simp: made_dirs_def made_files_def)
    then show ?thesis using skipped assms(2) by (simp add: built_def)
  qed simp_all
qed

lemma tree_entries_built:
  assumes "tree_entries env ext dir entries st = (st', Inr ())" and "built start E st" and "dir \<in> made_dirs start E"
  shows "built start (E \<union> Pair dir ` set entries) st'"
  using assms
proof (induction entries arbitrary: E st)
  case (Cons e es)
  obtain st1 where e: "tree_entry env ext dir e st = (st1, Inr ())" and es: "tree_entries env ext dir es st1 = (st', Inr ())"
    using Cons.prems(1) by (auto split: prod.splits sum.splits)
  have "dir \<in> made_dirs start (insert (dir, e) E)" using Cons.prems(3) by (auto simp: made_dirs_def)
  from Cons.IH [OF es tree_entry_built [OF e Cons.prems(2,3)] this] show ?case by simp
qed simp

text \<open>The entries of the directories listed so far.\<close>

definition listed_entries :: "lister \<Rightarrow> tree_state \<Rightarrow> ((string \<times> path \<times> nat) \<times> directory_entry) set" where
  "listed_entries list st = {(dir, e). dir \<in> set (ts_listed st) \<and> (\<exists>entries. list (fst dir) = Inr entries \<and> e \<in> set entries)}"

lemma tree_walk_built:
  assumes "tree_walk env list ext st = (st', Inr ())" and "built start (listed_entries list st) st"
    and "\<forall>dir \<in> set (ts_listed st). \<exists>entries. list (fst dir) = Inr entries"
  shows "built start (listed_entries list st') st' \<and> ts_stack st' = [] \<and>
    (\<forall>dir \<in> set (ts_listed st'). \<exists>entries. list (fst dir) = Inr entries)"
  using assms
proof (induction st rule: tree_walk_induct [where env = env and list = list and ext = ext])
  case (step st)
  show ?case
  proof (cases "ts_stack st")
    case Nil
    then show ?thesis using step.prems by (simp add: tree_walk.simps)
  next
    case (Cons dir stack)
    from step.prems(1) [unfolded tree_walk_step [OF Cons]] obtain entries s where
      depth: "snd (snd dir) \<le> MAX_TREE_DEPTH" and list: "list (fst dir) = Inr entries"
      and es: "tree_entries env ext dir entries (enter_directory dir stack st) = (s, Inr ())"
      and rest: "tree_walk env list ext s = (st', Inr ())"
      by (auto split: if_splits sum.splits prod.splits)
    have listed: "ts_listed s = ts_listed st @ [dir]" using tree_entries_counts [OF es] by simp
    have dir: "dir \<in> made_dirs start (listed_entries list st)" using step.prems(2) Cons by (auto simp: built_def)
    have "listed_entries list s = listed_entries list st \<union> Pair dir ` set entries"
      using list listed by (auto simp: listed_entries_def)
    then have "built start (listed_entries list s) s"
      using tree_entries_built [OF es built_enter [OF step.prems(2) Cons] dir] by simp
    then show ?thesis using step.IH [OF Cons depth list es rest] step.prems(3) listed list by auto
  qed
qed

lemma walk_start_built:
  assumes "fs root = Some Dir" and "\<And>p. prefix root p \<Longrightarrow> p \<noteq> root \<Longrightarrow> fs p = None"
  shows "built (source_root, root) (listed_entries list (walk_start source_root root fs)) (walk_start source_root root fs)"
proof -
  have "listed_entries list (walk_start source_root root fs) = {}" by (simp add: listed_entries_def walk_start_def)
  moreover have "prefix root p \<Longrightarrow> fs p = (if p = root then Some Dir else None)" for p using assms by auto
  ultimately show ?thesis
    by (simp add: built_def made_dirs_def made_files_def) (simp add: walk_start_def)
qed

lemma listed_subdirectory:
  assumes "built (source_root, root) (listed_entries list st) st" and "(src, tgt, d) \<in> set (ts_listed st)"
  shows "\<exists>rel. tgt = root @ rel \<and> subdirectory list source_root rel src"
  using assms(2)
proof (induction d arbitrary: src tgt rule: less_induct)
  case (less d)
  then have "(src, tgt, d) \<in> made_dirs (source_root, root) (listed_entries list st)" using assms(1) by (auto simp: built_def)
  then consider "src = source_root" "tgt = root"
    | s t d' e where "((s, t, d'), e) \<in> listed_entries list st" "de_dirent_type e = 4"
        "src = source_child s (de_name e)" "tgt = t @ [de_name e]" "d = d' + 1"
    by (auto simp: made_dirs_def child_dir_def)
  then show ?case
  proof cases
    case 1
    then show ?thesis using subdirectory.top by auto
  next
    case (2 s t d' e)
    then obtain entries where l: "(s, t, d') \<in> set (ts_listed st)" "list s = Inr entries" "e \<in> set entries"
      by (auto simp: listed_entries_def)
    from less.IH [OF _ l(1)] 2(5) obtain rel where "t = root @ rel" "subdirectory list source_root rel s" by auto
    then have "tgt = root @ rel @ [de_name e]" "subdirectory list source_root (rel @ [de_name e]) src"
      using l(2,3) 2(2-4) by (auto intro: subdirectory.below)
    then show ?thesis by blast
  qed
qed

lemma subdirectory_listed:
  assumes "built (source_root, root) (listed_entries list st) st" and "ts_stack st = []"
    and "subdirectory list source_root rel src"
  shows "\<exists>d. (src, root @ rel, d) \<in> set (ts_listed st)"
  using assms(3)
proof induction
  case top
  then show ?case using assms(1,2) by (auto simp: built_def made_dirs_def)
next
  case (below rel src entries e)
  then obtain d where d: "(src, root @ rel, d) \<in> set (ts_listed st)" by blast
  then have "child_dir ((src, root @ rel, d), e) \<in> made_dirs (source_root, root) (listed_entries list st)"
    using below.hyps by (auto simp: made_dirs_def listed_entries_def)
  then show ?case using assms(1,2) by (auto simp: built_def child_dir_def)
qed

text \<open>The staged tree is the source tree.\<close>

lemma staged_tree:
  assumes "built (source_root, root) (listed_entries list st) st" and "ts_stack st = []"
  shows "ts_fs st (root @ rel) = Some Dir \<longleftrightarrow> (\<exists>src. subdirectory list source_root rel src)"
    and "ts_fs st (root @ rel) = Some (Regular b) \<longleftrightarrow> (\<exists>src. tree_file list source_root rel src \<and> b = content src)"
    and "ts_fs st (root @ rel) \<noteq> Some Special"
proof -
  note view = built_view [OF assms(1), of "root @ rel"]
  have dirs: "set (ts_listed st) = made_dirs (source_root, root) (listed_entries list st)"
    using assms by (auto simp: built_def)
  show "ts_fs st (root @ rel) = Some Dir \<longleftrightarrow> (\<exists>src. subdirectory list source_root rel src)"
    using view(1) listed_subdirectory [OF assms(1)] subdirectory_listed [OF assms] unfolding dirs [symmetric]
    by (auto simp: image_iff) (metis same_append_eq, force)
  have "(root @ rel, b) \<in> made_files (listed_entries list st) \<longleftrightarrow> (\<exists>src. tree_file list source_root rel src \<and> b = content src)"
  proof
    assume "(root @ rel, b) \<in> made_files (listed_entries list st)"
    then obtain s t d e entries where "(s, t, d) \<in> set (ts_listed st)" "list s = Inr entries" "e \<in> set entries" "de_dirent_type e = 8"
      and "root @ rel = t @ [de_name e]" "b = content (source_child s (de_name e))"
      by (auto simp: made_files_def listed_entries_def child_dir_def)
    moreover from listed_subdirectory [OF assms(1) this(1)] obtain r where "t = root @ r" "subdirectory list source_root r s" by blast
    ultimately have "tree_file list source_root rel (source_child s (de_name e)) \<and> b = content (source_child s (de_name e))"
      unfolding tree_file_def by auto
    then show "\<exists>src. tree_file list source_root rel src \<and> b = content src" by blast
  next
    assume "\<exists>src. tree_file list source_root rel src \<and> b = content src"
    then obtain dir parent entries e where f: "subdirectory list source_root dir parent" "list parent = Inr entries" "e \<in> set entries"
      "de_dirent_type e = 8" "rel = dir @ [de_name e]" "b = content (source_child parent (de_name e))" by (auto simp: tree_file_def)
    from subdirectory_listed [OF assms f(1)] obtain d where "(parent, root @ dir, d) \<in> set (ts_listed st)" by blast
    then have "((parent, root @ dir, d), e) \<in> {x \<in> listed_entries list st. de_dirent_type (snd x) = 8}"
      using f by (auto simp: listed_entries_def)
    then show "(root @ rel, b) \<in> made_files (listed_entries list st)"
      unfolding made_files_def by (rule rev_image_eqI) (simp add: child_dir_def f(5,6))
  qed
  then show "ts_fs st (root @ rel) = Some (Regular b) \<longleftrightarrow> (\<exists>src. tree_file list source_root rel src \<and> b = content src)"
    using view(2) by simp
  show "ts_fs st (root @ rel) \<noteq> Some Special" using view(3) by simp
qed

end

lemma publish_success:
  assumes "publish_tree env destination root previous result fs = (fs', Inr res)"
    and "apart destination previous" and "apart destination root" and "apart root previous" and "fs previous = None"
  shows "res = result" and "fs' (destination @ rel) = fs (root @ rel)"
    and "\<not> prefix destination p \<Longrightarrow> \<not> prefix root p \<Longrightarrow> \<not> prefix previous p \<Longrightarrow> fs' p = fs p"
proof -
  define fs1 where "fs1 = (if fs destination \<noteq> None then move_tree destination previous fs else fs)"
  have out: "\<not> prefix destination (root @ q)" "\<not> prefix previous (root @ q)" "\<not> prefix previous (destination @ q)" for q
    using assms(2-4) apart_disjoint by (meson append_prefixD prefixI prefix_same_cases apart_def)+
  from assms(1) have r: "res = result" and fs': "fs' = move_tree root destination fs1 \<or> fs' = remove_tree previous (move_tree root destination fs1) \<or>
      fs' = (move_tree root destination fs1)(previous := None)"
    by (auto simp: publish_tree_def fs1_def fs_rename_def remove_staged_path_def split: if_splits sum.splits option.splits prod.splits)
  show "res = result" by (rule r)
  have "fs1 (root @ rel) = fs (root @ rel)" using out by (simp add: fs1_def move_tree_def)
  then have "move_tree root destination fs1 (destination @ rel) = fs (root @ rel)" by (simp add: move_tree_def)
  then show "fs' (destination @ rel) = fs (root @ rel)" using fs' out(3) [of rel] by (auto simp: remove_tree_def)
  show "fs' p = fs p" if "\<not> prefix destination p" "\<not> prefix root p" "\<not> prefix previous p"
    using fs' that by (auto simp: remove_tree_def move_tree_def fs1_def)
qed

locale tree_extraction = temp_dirs env + file_extractor ext content
  for env :: tree_env and ext :: extractor and content :: "string \<Rightarrow> byte list"
begin

lemma staged_success:
  assumes "staged_extraction env source_root destination list ext staging fs = (fs', Inr res)"
    and "apart destination staging" and "fs staging = Some Dir" and "\<And>p. prefix staging p \<Longrightarrow> p \<noteq> staging \<Longrightarrow> fs p = None"
  shows "fs' (destination @ rel) = Some Dir \<longleftrightarrow> (\<exists>src. subdirectory list source_root rel src)"
    and "fs' (destination @ rel) = Some (Regular b) \<longleftrightarrow> (\<exists>src. tree_file list source_root rel src \<and> b = content src)"
    and "fs' (destination @ rel) \<noteq> Some Special"
    and "\<not> prefix destination p \<Longrightarrow> \<not> prefix staging p \<Longrightarrow> fs' p = fs p"
proof -
  let ?root = "staging @ [''recovered'']" and ?prev = "staging @ [''previous'']"
  from assms(1) obtain fs1 st where mk: "fs_create_dir env ?root fs = Inr fs1"
    and walk: "tree_walk env list ext (walk_start source_root ?root fs1) = (st, Inr ())"
    and pub: "publish_tree env destination ?root ?prev (ts_result st) (ts_fs st) = (fs', Inr res)"
    by (auto simp: staged_extraction_def Let_def split: sum.splits prod.splits)
  have below: "prefix (staging @ [x]) p \<Longrightarrow> prefix staging p \<and> p \<noteq> staging" for x p by (auto simp: prefix_def)
  have fs1: "fs1 = fs(?root \<mapsto> Dir)" using mk by (auto simp: fs_create_dir_def split: if_splits)
  have start: "built (source_root, ?root) (listed_entries list (walk_start source_root ?root fs1)) (walk_start source_root ?root fs1)"
    by (rule walk_start_built) (use fs1 assms(4) below in \<open>auto\<close>)
  have final: "built (source_root, ?root) (listed_entries list st) st" "ts_stack st = []"
    using tree_walk_built [OF walk start] by (auto simp: walk_start_def)
  note frame = staged_walk [OF mk walk extractor_confined]
  have "ts_fs st ?prev = None" using frame [of ?prev] assms(4) by simp
  note ps = publish_success [OF pub apart_below [OF assms(2)] apart_below [OF assms(2)] _ this]
  have ar: "apart ?root ?prev" by (simp add: apart_def)
  show "fs' (destination @ rel) = Some Dir \<longleftrightarrow> (\<exists>src. subdirectory list source_root rel src)"
    and "fs' (destination @ rel) = Some (Regular b) \<longleftrightarrow> (\<exists>src. tree_file list source_root rel src \<and> b = content src)"
    and "fs' (destination @ rel) \<noteq> Some Special"
    using staged_tree [OF final] ps(2) [OF ar] by simp_all
  show "fs' p = fs p" if "\<not> prefix destination p" "\<not> prefix staging p"
    using ps(3) [OF ar that(1)] that(2) frame [of p] by (metis append_prefixD)
qed

lemma tree_extraction_success:
  assumes "extract_directory_tree env source_root destination force list ext fs = (fs', Inr res)"
    and "destination \<noteq> []" and "\<not> prefix ''.zfse-tree-'' (last destination)"
    and "\<And>name. \<not> te_fault env (Remove (parent_directory destination @ [name]))"
  shows "fs' (destination @ rel) = Some Dir \<longleftrightarrow> (\<exists>src. subdirectory list source_root rel src)"
    and "fs' (destination @ rel) = Some (Regular b) \<longleftrightarrow> (\<exists>src. tree_file list source_root rel src \<and> b = content src)"
    and "fs' (destination @ rel) \<noteq> Some Special"
    and "\<not> prefix destination p \<Longrightarrow> fs p \<noteq> None \<or> \<not> prefix p (parent_directory destination) \<Longrightarrow> fs' p = fs p"
proof -
  let ?parent = "parent_directory destination"
  from assms(1) have go: "\<not> (fs destination \<noteq> None \<and> \<not> force)"
    by (auto simp: extract_directory_tree_def split: if_splits)
  obtain fs1 r1 where mk: "fs_create_dir_all env ?parent fs = (fs1, r1)" by force
  note run = assms(1) [unfolded extract_directory_tree_def if_not_P [OF go] Let_def mk prod.case]
  obtain name where r1: "r1 = Inr ()" and name: "te_tempdir env ?parent fs1 = Inr name"
    using run by (cases r1; cases "te_tempdir env ?parent fs1") auto
  let ?staging = "?parent @ [name]"
  obtain fs2 r2 where st: "staged_extraction env source_root destination list ext ?staging (fs1(?staging \<mapsto> Dir)) = (fs2, r2)" by force
  have out: "fs' = remove_tree ?staging fs2" and ok: "r2 = Inr res"
    using run r1 name st assms(4) by (auto simp: drop_staging_def)
  note fresh = temp_fresh [OF name]
  note apart = staging_apart [OF name assms(2,3)]
  have fs2: "fs' (destination @ q) = fs2 (destination @ q)" for q
    using apart_disjoint [OF apart, of "destination @ q"] out by (simp add: remove_tree_def)
  note done_st = staged_success [OF st [unfolded ok] apart]
  show "fs' (destination @ rel) = Some Dir \<longleftrightarrow> (\<exists>src. subdirectory list source_root rel src)"
    and "fs' (destination @ rel) = Some (Regular b) \<longleftrightarrow> (\<exists>src. tree_file list source_root rel src \<and> b = content src)"
    and "fs' (destination @ rel) \<noteq> Some Special"
    unfolding fs2 using done_st(1-3) fresh by auto
  show "fs' p = fs p" if p: "\<not> prefix destination p" "fs p \<noteq> None \<or> \<not> prefix p ?parent"
  proof (cases "prefix ?staging p")
    case True
    then show ?thesis using fresh [OF True] create_dir_all_frame [OF mk p(2)] out by (simp add: remove_tree_def)
  next
    case False
    then have "p \<noteq> ?staging" by auto
    then show ?thesis
      using done_st(4) [OF _ _ p(1) False] fresh False create_dir_all_frame [OF mk p(2)] out by (auto simp: remove_tree_def)
  qed
qed

end

section \<open>Snapshots as sources\<close>

text \<open>The contents of a file of the snapshot: its replayed object at its size.\<close>

definition snapshot_content ::
  "('r, 'l, 'i, 'v) zpl_lib \<Rightarrow> crypto \<Rightarrow> codecs \<Rightarrow> env \<Rightarrow> byte_source option \<Rightarrow> snapshot_plan \<Rightarrow> object_index \<Rightarrow> byte list option \<Rightarrow>
   string \<Rightarrow> byte list" where
  "snapshot_content lib k z ev stream plan ix key_material source =
     (case and_then (resolve_path lib ix source) (\<lambda>resolved.
           and_then (replay_object k (ev_os ev) z stream plan (rp_object_id resolved) key_material []) (\<lambda>d.
           set_len (ev_os ev) (unat (rp_logical_size resolved)) d)) of
        Inl e \<Rightarrow> [] | Inr d \<Rightarrow> d)"

lemma extract_resolved_plain:
  assumes "extract_resolved_snapshot k z ev stream plan ix resolved output False key_material False disk = (disk', r)"
  shows "(disk' = disk \<and> (\<exists>e. r = Inl e)) \<or>
    (disk output = None \<and> (\<exists>d. extract_file k z ev stream plan resolved output key_material = Inr d \<and> disk' = disk(output \<mapsto> d)))"
  using assms
  by (auto simp: extract_resolved_snapshot_def finish_extraction_def persist_replace_def result_simps
      split: if_splits sum.splits)

interpretation snapshot_files: file_extractor "snapshot_extractor lib k z ev stream plan ix key_material"
  "snapshot_content lib k z ev stream plan ix key_material"
  for lib :: "('r, 'l, 'i, 'v) zpl_lib" and k z ev stream plan ix key_material
proof
  fix src tgt fs fs' n
  assume "snapshot_extractor lib k z ev stream plan ix key_material src tgt fs = (fs', Inr n)"
  then obtain resolved disk sidecar where res: "resolve_path lib ix src = Inr resolved"
    and x: "extract_resolved_snapshot k z ev stream plan ix resolved (join ''/'' tgt) False key_material False (file_at tgt fs) =
        (disk, Inr sidecar)"
    and fs': "fs' = (if disk (join ''/'' tgt) = file_at tgt fs (join ''/'' tgt) then fs
        else fs(tgt := map_option Regular (disk (join ''/'' tgt))))"
    by (auto simp: snapshot_extractor_def result_simps split: sum.splits prod.splits)
  from extract_resolved_plain [OF x] obtain d where none: "file_at tgt fs (join ''/'' tgt) = None"
    and d: "extract_file k z ev stream plan resolved (join ''/'' tgt) key_material = Inr d"
    and disk: "disk = (file_at tgt fs)(join ''/'' tgt \<mapsto> d)" by auto
  have "fs tgt = None" using none by (auto simp: file_at_def split: option.splits fnode.splits)
  moreover have "snapshot_content lib k z ev stream plan ix key_material src = d"
    using d res by (auto simp: snapshot_content_def extract_file_def result_simps)
  ultimately show "fs tgt = None \<and> fs' = fs(tgt \<mapsto> Regular (snapshot_content lib k z ev stream plan ix key_material src))"
    using fs' none disk by simp
next
  show "confined (snapshot_extractor lib k z ev stream plan ix key_material)"
    unfolding confined_def snapshot_extractor_def
    by (auto split: sum.splits prod.splits)
qed

section \<open>A small tree\<close>

definition fresh_path :: "path \<Rightarrow> tree_fs \<Rightarrow> bool" where
  "fresh_path q fs \<longleftrightarrow> (\<forall>p. prefix q p \<longrightarrow> fs p = None)"

definition demo_tree_env :: "(fs_call \<Rightarrow> bool) \<Rightarrow> tree_env" where
  "demo_tree_env fault = \<lparr>te_windows = False, te_fault = fault,
     te_tempdir = (\<lambda>parent fs. if fresh_path (parent @ [''.zfse-tree-1'']) fs then Inr ''.zfse-tree-1'' else Inl OsError)\<rparr>"

interpretation demo_temp: temp_dirs "demo_tree_env fault" for fault
  by unfold_locales (auto simp: demo_tree_env_def fresh_path_def split: if_splits)

definition demo_tree :: tree_fs where
  "demo_tree = [[] \<mapsto> Dir, [''d''] \<mapsto> Dir, [''d'', ''old.txt''] \<mapsto> Regular [1]]"

lemma demo_tree_fresh: "fresh_path [''.zfse-tree-1''] demo_tree"
  by (auto simp: fresh_path_def demo_tree_def prefix_def)

definition demo_index :: object_index where
  "demo_index = demo_fs\<lparr>ix_data := [(1, [1]), (2, [2]), (3, [3]), (6, [6])]\<rparr>"

lemma demo_tree_list:
  "list_directory demo_lib demo_index ''/'' = Inr
     [\<lparr>de_name = ''boot.img'', de_object_id = 5, de_dirent_type = 8, de_logical_size = Some 7\<rparr>,
      \<lparr>de_name = ''etc'', de_object_id = 6, de_dirent_type = 4, de_logical_size = Some 7\<rparr>]"
  "list_directory demo_lib demo_index ''/etc'' = Inr []"
  by (simp_all add: list_directory_def resolve_path_def resolve_component_def normalize_path_def components_def sa_context_def demo_lib_def
      demo_index_def demo_fs_def demo_meta_def decode_attrs_def directory_entry_of_def dirent_object_def dirent_kind_def slice_def demo_size
      less_char_def take_bit_eq_mod)

lemma demo_boot:
  assumes "fs tgt = None"
  shows "snapshot_extractor demo_lib null_crypto plain_codecs demo_env (Some (demo_source 19)) demo_plan demo_index None ''/boot.img'' tgt fs =
    (fs(tgt \<mapsto> Regular (replicate 7 0)), Inr 7)"
proof -
  have "replay_chain (Inr (new_reader (demo_source 19))) [17] (replay_active ideal_os plain_codecs 5)
      ''stream has no END record'' ''stream changed between indexing and extraction'' (False, []) = Inr (False, [])"
    by (rule demo_replay_chain [where ?st1.0 = "(False, [])"])
      (simp_all add: replay_active_def demo_object_def demo_write_def)
  then have f: "extract_file null_crypto plain_codecs demo_env (Some (demo_source 19)) demo_plan r p None = Inr (replicate 7 0)"
    if "rp_object_id r = 5" "rp_logical_size r = 7" for r p
    using that by (simp add: extract_file_def demo_env_def replay_object_def demo_plan_def demo_begin_def FEATURE_RAW_def
      open_stream_def set_len_def ideal_os_def resize_def)
  obtain r where r: "resolve_path demo_lib demo_index ''/boot.img'' = Inr r" "rp_object_id r = 5" "rp_logical_size r = 7" "rp_dirent_type r = 8"
    by (simp add: resolve_path_def resolve_component_def normalize_path_def components_def sa_context_def demo_lib_def
      demo_index_def demo_fs_def demo_meta_def decode_attrs_def dirent_object_def dirent_kind_def slice_def demo_size
      take_bit_eq_mod)
  have n: "file_at tgt fs (join ''/'' tgt) = None" using assms by (simp add: file_at_def)
  have "ev_persist demo_env p = Inr ()" "ev_sha256 demo_env d = ''sha''" for p d by (simp_all add: demo_env_def)
  then show ?thesis
    using r f [OF r(2,3)] n
    by (simp add: snapshot_extractor_def extract_resolved_snapshot_def persist_replace_def finish_extraction_def sha256_file_def)
qed

abbreviation demo_extractor :: extractor where
  "demo_extractor \<equiv> snapshot_extractor demo_lib null_crypto plain_codecs demo_env (Some (demo_source 19)) demo_plan demo_index None"

lemma demo_walk:
  assumes "fs root = Some Dir" and "\<And>x. fs (root @ [x]) = None"
  shows "\<exists>st. tree_walk (demo_tree_env (\<lambda>_. False)) (list_directory demo_lib demo_index) demo_extractor (walk_start ''/'' root fs) = (st, Inr ()) \<and>
     ts_fs st = fs(root @ [''boot.img''] \<mapsto> Regular (replicate 7 0), root @ [''etc''] \<mapsto> Dir)"
proof -
  have v: "validate_component False ''boot.img'' = Inr ()" "validate_component False ''etc'' = Inr ()"
    by (simp_all add: validate_component_def)
  have e: "te_windows (demo_tree_env (\<lambda>_. False)) = False" "te_fault (demo_tree_env (\<lambda>_. False)) c = False" for c
    by (simp_all add: demo_tree_env_def)
  show ?thesis
    unfolding walk_start_def
    apply (subst tree_walk_step, simp)
    apply (simp add: demo_tree_list MAX_TREE_DEPTH_def tree_entry_def e v path_join_validated [OF v(1)] path_join_validated [OF v(2)]
       source_child_def demo_boot assms enter_directory_def Let_def tree_total_def saturating_add_def MAX_TREE_ENTRIES_def fs_create_dir_def checked_add_def)
    apply (subst tree_walk_step, simp)
    apply (simp add: demo_tree_list MAX_TREE_DEPTH_def enter_directory_def)
    apply (subst tree_walk.simps) apply (simp add: word_le_nat_alt)
    done
qed


lemma demo_success:
  "\<exists>fs' res. extract_directory_tree (demo_tree_env (\<lambda>_. False)) ''/'' [''d''] True (list_directory demo_lib demo_index) demo_extractor demo_tree =
     (fs', Inr res)"
proof -
  let ?s = "[''.zfse-tree-1'']"
  define fs1 where "fs1 = demo_tree(?s \<mapsto> Dir, ?s @ [''recovered''] \<mapsto> Dir)"
  have n: "fs1 ((?s @ [''recovered'']) @ [x]) = None" "fs1 (?s @ [''recovered'']) = Some Dir" for x
    by (simp_all add: fs1_def demo_tree_def)
  from demo_walk [OF n(2) n(1)] obtain st where
    w: "tree_walk (demo_tree_env (\<lambda>_. False)) (list_directory demo_lib demo_index) demo_extractor (walk_start ''/'' (?s @ [''recovered'']) fs1) = (st, Inr ())"
    and fs: "ts_fs st = fs1((?s @ [''recovered'']) @ [''boot.img''] \<mapsto> Regular (replicate 7 0), (?s @ [''recovered'']) @ [''etc''] \<mapsto> Dir)" by blast
  have c: "fs_create_dir (demo_tree_env (\<lambda>_. False)) (?s @ [''recovered'']) (demo_tree(?s \<mapsto> Dir)) = Inr fs1"
    by (simp add: fs_create_dir_def demo_tree_env_def demo_tree_def fs1_def)
  have "\<exists>fs' res. publish_tree (demo_tree_env (\<lambda>_. False)) [''d''] (?s @ [''recovered'']) (?s @ [''previous'']) (ts_result st) (ts_fs st) = (fs', Inr res)"
    by (simp add: publish_tree_def fs_rename_def fs fs1_def demo_tree_def demo_tree_env_def move_tree_def remove_staged_path_def)
  then show ?thesis
    using w c demo_tree_fresh
    by (auto simp: extract_directory_tree_def parent_directory_def fs_create_dir_all_def staged_extraction_def demo_tree_env_def Let_def)
qed

section \<open>Properties\<close>

text \<open>C23: A failed extraction of a directory tree changes nothing: when the calls that would put a
  replaced destination back and that clean up the staging directory do not fail themselves, every
  path has the node it had before, apart from missing parent directories of the destination, which
  may have been created.\<close>

theorem failed_tree_extraction_changes_nothing:
  assumes "temp_dirs env" and "confined ext" and "destination \<noteq> []" and "\<not> prefix ''.zfse-tree-'' (last destination)"
    and "\<forall>name. restores env destination (parent_directory destination @ [name])"
    and "\<forall>name. \<not> te_fault env (Remove (parent_directory destination @ [name]))"
    and "extract_directory_tree env source_root destination force list ext fs = (fs', Inl e)"
    and "fs p \<noteq> None \<or> \<not> prefix p (parent_directory destination)"
  shows "fs' p = fs p"
  using temp_dirs.failed_tree_extraction [OF assms(1) assms(7) assms(2-4)] assms(5,6,8) by blast

theorem failed_tree_extraction_changes_nothing_witness:
  "\<exists>fs' e. extract_directory_tree (demo_tree_env (\<lambda>_. False)) ''/'' [''d''] True (\<lambda>_. Inl (Bail ''x'')) demo_extractor demo_tree = (fs', Inl e) \<and>
     fs' [''d'', ''old.txt''] = Some (Regular [1])"
proof -
  let ?env = "demo_tree_env (\<lambda>_. False)" and ?list = "\<lambda>_. Inl (Bail ''x'')"
  have no: "te_fault ?env c = False" for c by (simp add: demo_tree_env_def)
  have "fs_create_dir ?env [''.zfse-tree-1'', ''recovered''] (demo_tree([''.zfse-tree-1''] \<mapsto> Dir)) =
      Inr (demo_tree([''.zfse-tree-1''] \<mapsto> Dir, [''.zfse-tree-1'', ''recovered''] \<mapsto> Dir))"
    by (simp add: fs_create_dir_def no demo_tree_def)
  moreover obtain st where "tree_walk ?env ?list demo_extractor (walk_start ''/'' [''.zfse-tree-1'', ''recovered'']
      (demo_tree([''.zfse-tree-1''] \<mapsto> Dir, [''.zfse-tree-1'', ''recovered''] \<mapsto> Dir))) = (st, Inl (Bail ''x''))"
    by (subst (asm) tree_walk_step, simp add: walk_start_def) (simp add: walk_start_def MAX_TREE_DEPTH_def)
  moreover have "te_tempdir ?env [] demo_tree = Inr ''.zfse-tree-1''" using demo_tree_fresh by (simp add: demo_tree_env_def)
  ultimately obtain fs' e where x: "extract_directory_tree ?env ''/'' [''d''] True ?list demo_extractor demo_tree = (fs', Inl e)"
    by (auto simp: extract_directory_tree_def parent_directory_def fs_create_dir_all_def staged_extraction_def Let_def)
  have d: "\<not> prefix ''.zfse-tree-'' (last [''d''])" "demo_tree [''d'', ''old.txt''] = Some (Regular [1])"
    by (simp_all add: demo_tree_def)
  from failed_tree_extraction_changes_nothing [OF demo_temp.temp_dirs_axioms snapshot_files.extractor_confined _ d(1) _ _ x,
      of "[''d'', ''old.txt'']"] d(2) x
  show ?thesis by (auto simp: restores_def no)
qed

text \<open>C8: A published tree is the tree of the snapshot. Below the destination there is a directory
  exactly where the snapshot's directory has a subdirectory at that relative path, a file exactly
  where it has a regular file, with the file's replayed contents, and nothing else; and every other
  path has the node it had before, apart from created parent directories.\<close>

theorem published_tree_is_the_snapshot_tree:
  assumes "temp_dirs env" and "destination \<noteq> []" and "\<not> prefix ''.zfse-tree-'' (last destination)"
    and "\<forall>name. \<not> te_fault env (Remove (parent_directory destination @ [name]))"
    and "extract_directory_tree env source_root destination force (list_directory lib ix)
      (snapshot_extractor lib k z ev stream plan ix key_material) fs = (fs', Inr res)"
  shows "(fs' (destination @ rel) = Some Dir \<longleftrightarrow> (\<exists>src. subdirectory (list_directory lib ix) source_root rel src)) \<and>
     (fs' (destination @ rel) = Some (Regular b) \<longleftrightarrow>
       (\<exists>src. tree_file (list_directory lib ix) source_root rel src \<and> b = snapshot_content lib k z ev stream plan ix key_material src)) \<and>
     fs' (destination @ rel) \<noteq> Some Special \<and>
     (\<not> prefix destination p \<and> (fs p \<noteq> None \<or> \<not> prefix p (parent_directory destination)) \<longrightarrow> fs' p = fs p)"
proof -
  have "tree_extraction env (snapshot_extractor lib k z ev stream plan ix key_material) (snapshot_content lib k z ev stream plan ix key_material)"
    using assms(1) snapshot_files.file_extractor_axioms by (simp add: tree_extraction_def)
  from tree_extraction.tree_extraction_success [OF this assms(5,2,3)] assms(4) show ?thesis by blast
qed

theorem published_tree_is_the_snapshot_tree_witness:
  "\<exists>fs' res. extract_directory_tree (demo_tree_env (\<lambda>_. False)) ''/'' [''d''] True (list_directory demo_lib demo_index) demo_extractor demo_tree =
     (fs', Inr res) \<and> fs' ([''d''] @ []) = Some Dir \<and> fs' [] = Some Dir"
proof -
  from demo_success obtain fs' res where x: "extract_directory_tree (demo_tree_env (\<lambda>_. False)) ''/'' [''d''] True
      (list_directory demo_lib demo_index) demo_extractor demo_tree = (fs', Inr res)" by blast
  have d: "\<not> prefix ''.zfse-tree-'' (last [''d''])" "\<forall>name. \<not> te_fault (demo_tree_env (\<lambda>_. False)) (Remove (parent_directory [''d''] @ [name]))"
    by (simp_all add: demo_tree_env_def)
  from published_tree_is_the_snapshot_tree [OF demo_temp.temp_dirs_axioms _ d x, of "[]" undefined "[]"] x show ?thesis
    by (auto simp: demo_tree_def intro: subdirectory.top)
qed

text \<open>C38: The walk over a directory tree ends, whatever the directories contain, also when they
  contain themselves: it lists at most a million directories, none more than 256 levels deep, and
  counts at most a million files, directories and skipped entries, also when it fails.\<close>

theorem tree_walk_is_bounded:
  "let (st, r) = tree_walk env list ext (walk_start source_root staged_root fs) in
     length (ts_listed st) \<le> 1000000 \<and> list_all (\<lambda>(src, tgt, depth). depth \<le> 256) (ts_listed st) \<and>
     unat (rx_files (ts_result st)) + unat (rx_directories (ts_result st)) + unat (rx_skipped_entries (ts_result st)) \<le> 1000000"
proof -
  obtain st r where walk: "tree_walk env list ext (walk_start source_root staged_root fs) = (st, r)" by force
  have "walk_bounded (walk_start source_root staged_root fs)" by (simp add: walk_bounded_def walk_start_def entry_count_def)
  from tree_walk_bounded [OF walk this] show ?thesis
    unfolding walk by (auto simp: walk_bounded_def entry_count_def list_all_iff MAX_TREE_DEPTH_def)
qed

text \<open>A replaced destination is moved into the staging directory, which is deleted when the function
  returns: when neither the new tree nor the old one can be moved to the destination, the previous
  tree is gone.\<close>

theorem failed_restore_deletes_the_previous_tree:
  "\<exists>fault fs' e. extract_directory_tree (demo_tree_env fault) ''/'' [''d''] True (\<lambda>_. Inr []) (\<lambda>_ _ fs. (fs, Inl (Bail []))) demo_tree = (fs', Inl e) \<and>
     demo_tree [''d'', ''old.txt''] = Some (Regular [1]) \<and> (\<forall>p. fs' p \<noteq> Some (Regular [1]))"
proof -
  let ?fault = "\<lambda>c. \<exists>a. c = Rename a [''d'']" and ?s = "[''.zfse-tree-1'']"
  define env where "env = demo_tree_env ?fault"
  have env: "te_fault env = ?fault" "te_tempdir env [] demo_tree = Inr ''.zfse-tree-1''"
    using demo_tree_fresh by (simp_all add: env_def demo_tree_env_def)
  define fs1 where "fs1 = demo_tree(?s \<mapsto> Dir, ?s @ [''recovered''] \<mapsto> Dir)"
  have mk: "fs_create_dir env (?s @ [''recovered'']) (demo_tree(?s \<mapsto> Dir)) = Inr fs1"
    by (simp add: fs_create_dir_def env demo_tree_def fs1_def)
  obtain st where walk: "tree_walk env (\<lambda>_. Inr []) (\<lambda>_ _ fs. (fs, Inl (Bail []))) (walk_start ''/'' (?s @ [''recovered'']) fs1) = (st, Inr ())"
    and st: "ts_fs st = fs1"
    by (subst (asm) tree_walk_step, simp add: walk_start_def) (simp add: walk_start_def MAX_TREE_DEPTH_def enter_directory_def tree_walk.simps)
  have pub: "publish_tree env [''d''] (?s @ [''recovered'']) (?s @ [''previous'']) (ts_result st) (ts_fs st) =
      (move_tree [''d''] (?s @ [''previous'']) fs1, Inl (Bail ''publishing recovered directory {}''))"
    by (simp add: publish_tree_def fs_rename_def st fs1_def env demo_tree_def move_tree_def)
  have out: "extract_directory_tree env ''/'' [''d''] True (\<lambda>_. Inr []) (\<lambda>_ _ fs. (fs, Inl (Bail []))) demo_tree =
      (remove_tree ?s (move_tree [''d''] (?s @ [''previous'']) fs1), Inl (Bail ''publishing recovered directory {}''))"
    using mk walk pub env
    by (simp add: extract_directory_tree_def parent_directory_def fs_create_dir_all_def staged_extraction_def drop_staging_def Let_def)
  have "remove_tree ?s (move_tree [''d''] (?s @ [''previous'']) fs1) p \<noteq> Some (Regular [1])" for p
    using append_prefixD [of ?s "[''previous'']" p] by (auto simp: remove_tree_def move_tree_def fs1_def demo_tree_def)
  then show ?thesis using out unfolding env_def by (intro exI conjI allI) (assumption, simp_all add: demo_tree_def)
qed

end
