(* ===== verification/Images.thy ===== *)
theory Images
  imports Source Text
begin

text \<open>
  The byte sources a nested disk image is read through (the trait \<open>ImageRead\<close> of src/inception.rs and
  its implementations): a local file or device, a window of another image, the decryption of a
  Datto \<open>.detto\<close> image (src/datto.rs), and the cursor that gives the file-system crates \<open>Read\<close> and
  \<open>Seek\<close>. An image is its length and its positioned read. The locale \<open>image_contract\<close> is what the
  trait promises, that a read fills the buffer with the bytes of the image or fails, and the layers
  are proved to keep it. AES-XTS, AES-GCM, PBKDF2, base64 and JSON are parameters.
\<close>

section \<open>Images\<close>

record image =
  im_len :: u64
  im_read :: "u64 \<Rightarrow> nat \<Rightarrow> byte list result"

text \<open>\<open>a + b\<close> on \<open>u64\<close> where the callers rule out overflow: it is a panic here, and proved unreachable.\<close>

definition plus_u64 :: "u64 \<Rightarrow> u64 \<Rightarrow> u64 result" where
  "plus_u64 a b = ok_or (checked_add a b) (Panic ''attempt to add with overflow'')"

definition sliced_image :: "image \<Rightarrow> u64 \<Rightarrow> u64 \<Rightarrow> image" where
  "sliced_image src base len = \<lparr>im_len = len, im_read = (\<lambda>off n.
     and_then (ok_or (checked_add off (of_nat n)) (Bail ''nested partition read offset overflows'')) (\<lambda>last.
     if last > len then Inl (Bail ''nested partition read [{offset}, {end}) exceeds {} bytes'')
     else and_then (plus_u64 base off) (\<lambda>start. im_read src start n)))\<rparr>"

definition sliced_new :: "image \<Rightarrow> u64 \<Rightarrow> u64 \<Rightarrow> image result" where
  "sliced_new src base len =
     and_then (ok_or (checked_add base len) (Bail ''nested partition byte range overflows'')) (\<lambda>last.
     if len = 0 \<or> last > im_len src then Inl (Bail ''nested partition [{base}, {end}) is outside the {}-byte image'')
     else Inr (sliced_image src base len))"

text \<open>A local file or device; a read that never ended would be the panic, which cannot happen.\<close>

definition file_image :: "device \<Rightarrow> nat \<Rightarrow> u64 \<Rightarrow> image" where
  "file_image dv bs len = \<lparr>im_len = len, im_read = (\<lambda>off n.
     and_then (ok_or (checked_add off (of_nat n)) (Bail ''standalone image read offset overflows'')) (\<lambda>last.
     if last > len then Inl (Bail ''standalone image read [{offset}, {end}) exceeds {} bytes'')
     else case device_read_exact_at dv bs off n [] of
            None \<Rightarrow> Inl (Panic ''the read does not end'')
          | Some (log, r) \<Rightarrow> r))\<rparr>"

definition file_image_open :: "'f host \<Rightarrow> 'f registry \<Rightarrow> ('f \<Rightarrow> device) \<Rightarrow> string \<Rightarrow> image result" where
  "file_image_open h reg dv path =
     and_then (map_err (\<lambda>_. Bail ''opening standalone disk image {} read-only'') (open_read_only h reg path)) (\<lambda>f.
     and_then (source_length h f) (\<lambda>len.
     and_then (source_block_size h f) (\<lambda>bs.
     Inr (file_image (dv f) bs len))))"

section \<open>Datto images\<close>

definition DETTO_SECTOR_SIZE :: nat where "DETTO_SECTOR_SIZE = 512"
definition DATTO_MAX_PBKDF2_ITERATIONS :: u32 where "DATTO_MAX_PBKDF2_ITERATIONS = 10000000"

record datto_lib =
  dl_parse_stash :: "byte list \<Rightarrow> string list option"
  dl_base64 :: "string \<Rightarrow> byte list option"
  dl_parse_header :: "byte list \<Rightarrow> (string \<times> u32) option"
  dl_pbkdf2 :: "byte list \<Rightarrow> byte list \<Rightarrow> u32 \<Rightarrow> byte list"
  dl_gcm_open :: "byte list \<Rightarrow> byte list \<Rightarrow> byte list \<Rightarrow> byte list \<Rightarrow> byte list \<Rightarrow> byte list option"
  dl_parse_master :: "byte list \<Rightarrow> string option"

definition decode_base64 :: "datto_lib \<Rightarrow> string \<Rightarrow> byte list result" where
  "decode_base64 dl v = ok_or (dl_base64 dl v) (Bail ''decoding {label} as base64url'')"

definition derive_agent_key :: "datto_lib \<Rightarrow> byte list \<Rightarrow> byte list \<Rightarrow> byte list result" where
  "derive_agent_key dl stash password =
     (if password = [] then Inl (Bail ''the Datto agent password is empty'')
      else and_then (ok_or (dl_parse_stash dl stash) (Bail ''parsing Datto key stash JSON'')) (\<lambda>tokens.
      case tokens of
        [] \<Rightarrow> Inl (Bail ''Datto key stash has no user_keys_jwe entry'')
      | token # _ \<Rightarrow>
          (case split_on CHR ''.'' token of
             [protected, encrypted_key, iv, ciphertext, tag] \<Rightarrow>
               and_then (decode_base64 dl protected) (\<lambda>protected_bytes.
               and_then (ok_or (dl_parse_header dl protected_bytes) (Bail ''parsing Datto protected header'')) (\<lambda>(p2s, p2c).
               if p2c = 0 \<or> p2c > DATTO_MAX_PBKDF2_ITERATIONS
               then Inl (Bail ''Datto PBKDF2 iteration count {} is outside 1..={MAX_PBKDF2_ITERATIONS}'')
               else and_then (decode_base64 dl p2s) (\<lambda>salt.
               and_then (decode_base64 dl iv) (\<lambda>iv.
               and_then (decode_base64 dl tag) (\<lambda>tag.
               if length iv \<noteq> 12 \<or> length tag \<noteq> 16
               then Inl (Bail ''Datto JWE requires a 12-byte IV and 16-byte authentication tag'')
               else let wrapping_key = dl_pbkdf2 dl password salt p2c in
               and_then (ensure (length wrapping_key = 32) ''constructing Datto AES-256-GCM key'') (\<lambda>_.
               and_then (decode_base64 dl ciphertext) (\<lambda>sealed.
               and_then (ok_or (dl_gcm_open dl wrapping_key iv (bytes_of_chars protected) sealed tag)
                 (Bail ''the Datto agent password did not authenticate the key stash'')) (\<lambda>plain.
               and_then (ok_or (dl_parse_master dl plain) (Bail ''parsing decrypted Datto master key'')) (\<lambda>master.
               and_then (decode_base64 dl master) (\<lambda>decoded.
               if length decoded \<noteq> 64 then Inl (Bail ''Datto AES-XTS key is {} bytes, not 64'')
               else Inr decoded))))))))))
           | _ \<Rightarrow> Inl (Bail ''Datto key stash JWE must contain five compact fields''))))"

text \<open>\<open>xts k1 k2 size first area\<close> decrypts an area in sectors of a size from the sector number \<open>first\<close> on.\<close>

type_synonym xts = "byte list \<Rightarrow> byte list \<Rightarrow> nat \<Rightarrow> nat \<Rightarrow> byte list \<Rightarrow> byte list"

definition detto_read :: "xts \<Rightarrow> byte list \<Rightarrow> image \<Rightarrow> u64 \<Rightarrow> nat \<Rightarrow> byte list result" where
  "detto_read xts key src off n =
     and_then (ok_or (checked_add off (of_nat n)) (Bail ''.detto read offset overflows'')) (\<lambda>last.
     if last > im_len src then Inl (Bail ''.detto read [{offset}, {end}) exceeds {} bytes'')
     else if n = 0 then Inr []
     else let aligned_start = unat off div DETTO_SECTOR_SIZE * DETTO_SECTOR_SIZE;
              aligned_end = div_ceil (unat last) DETTO_SECTOR_SIZE * DETTO_SECTOR_SIZE
       in if aligned_end \<ge> 2 ^ 64 then Inl (Panic ''attempt to multiply with overflow'')
       else and_then (im_read src (of_nat aligned_start) (aligned_end - aligned_start)) (\<lambda>ciphertext.
       let plain = xts (take 32 key) (drop 32 key) DETTO_SECTOR_SIZE (aligned_start div DETTO_SECTOR_SIZE) ciphertext;
           within = unat off - aligned_start
       in index_range plain within (within + n)))"

definition detto_new :: "xts \<Rightarrow> image \<Rightarrow> byte list \<Rightarrow> image result" where
  "detto_new xts src key =
     (if im_len src = 0 \<or> unat (im_len src) mod DETTO_SECTOR_SIZE \<noteq> 0
      then Inl (Bail ''.detto image size must be a non-zero multiple of 512 bytes'')
      else Inr \<lparr>im_len = im_len src, im_read = detto_read xts key src\<rparr>)"

section \<open>The cursor\<close>

record cursor =
  cu_source :: image
  cu_position :: u64

definition cursor_new :: "image \<Rightarrow> cursor" where
  "cursor_new src = \<lparr>cu_source = src, cu_position = 0\<rparr>"

definition cursor_read :: "cursor \<Rightarrow> nat \<Rightarrow> cursor \<times> byte list result" where
  "cursor_read c n =
     (if cu_position c \<ge> im_len (cu_source c) \<or> n = 0 then (c, Inr [])
      else let count = min (unat (im_len (cu_source c) - cu_position c)) n in
        case im_read (cu_source c) (cu_position c) count of
          Inl e \<Rightarrow> (c, Inl e)
        | Inr bytes \<Rightarrow> (c\<lparr>cu_position := cu_position c + of_nat count\<rparr>, Inr bytes))"

datatype seek_from = SeekStart u64 | SeekCurrent int | SeekEnd int

definition cursor_seek :: "cursor \<Rightarrow> seek_from \<Rightarrow> cursor \<times> u64 result" where
  "cursor_seek c from =
     (let target = (case from of
            SeekStart v \<Rightarrow> uint v
          | SeekCurrent v \<Rightarrow> uint (cu_position c) + v
          | SeekEnd v \<Rightarrow> uint (im_len (cu_source c)) + v)
      in if target < 0 \<or> target > uint (im_len (cu_source c))
         then (c, Inl (Bail ''seek is outside the bounded nested volume''))
         else (c\<lparr>cu_position := word_of_int target\<rparr>, Inr (word_of_int target)))"

section \<open>The contract of an image\<close>

locale image_contract =
  fixes img :: image and content :: "byte list"
  assumes image_len: "unat (im_len img) = length content"
    and image_read: "n < 2 ^ 64 \<Longrightarrow> im_read img off n = Inr bytes \<Longrightarrow>
      unat off + n \<le> length content \<and> bytes = slice content (unat off) (unat off + n)"
    and image_no_panic: "n < 2 ^ 64 \<Longrightarrow> no_panic (im_read img off n)"

text \<open>An image whose reads within its length succeed.\<close>

locale complete_image = image_contract +
  assumes image_complete: "unat off + n \<le> length content \<Longrightarrow> \<exists>bytes. im_read img off n = Inr bytes"

text \<open>What the XTS crate documents: each sector is decrypted on its own, with its number as the tweak.\<close>

locale xts_areas =
  fixes dec :: "nat \<Rightarrow> byte list \<Rightarrow> byte list"
  assumes xts_length: "length (dec i area) = length area"
    and xts_sectors: "512 dvd length a \<Longrightarrow> dec i (a @ b) = dec i a @ dec (i + length a div 512) b"

context xts_areas
begin

lemma dec_window:
  assumes "s \<le> e" and "e \<le> length c" and "512 dvd s" and "512 dvd e"
  shows "dec (s div 512) (slice c s e) = slice (dec 0 c) s e"
proof -
  have "c = take s c @ slice c s e @ drop e c"
    using assms(1) by (metis append_take_drop_id drop_drop le_add_diff_inverse2 slice_def)
  moreover have "dec 0 (take s c @ slice c s e @ drop e c) =
      dec 0 (take s c) @ dec (s div 512) (slice c s e) @ dec (s div 512 + (e - s) div 512) (drop e c)"
    using xts_sectors [of "take s c" 0 "slice c s e @ drop e c"] xts_sectors [of "slice c s e" "s div 512" "drop e c"] assms
    by (simp add: min_absorb2 dvd_diff_nat)
  ultimately have d: "dec 0 c = dec 0 (take s c) @ dec (s div 512) (slice c s e) @ dec (s div 512 + (e - s) div 512) (drop e c)"
    by metis
  show ?thesis unfolding d slice_def using assms xts_length by (simp add: min_absorb2)
qed

end

context image_contract
begin

lemma detto_aligned_end:
  assumes "512 dvd length content" and "k \<le> length content"
  shows "div_ceil k 512 * 512 \<le> length content" and "div_ceil k 512 * 512 < 2 ^ 64"
proof -
  obtain m where m: "length content = m * 512" using assms(1) by (metis dvdE mult.commute)
  show le: "div_ceil k 512 * 512 \<le> length content" using div_ceil_mult_le [of 512 k m] assms(2) m by simp
  have "length content < 2 ^ 64" unfolding image_len [symmetric] using unat_less_u64 [of "im_len img"] by simp
  with le show "div_ceil k 512 * 512 < 2 ^ 64" by (rule le_less_trans)
qed

lemma detto_read_exact:
  fixes off :: u64
  assumes "xts_areas dec" and "512 dvd length content"
    and "im_read img (of_nat (unat off div 512 * 512)) (div_ceil (unat off + n) 512 * 512 - unat off div 512 * 512) = Inr ciphertext"
    and "unat off + n \<le> length content"
  shows "index_range (dec (unat off div 512) ciphertext)
      (unat off - unat off div 512 * 512) (unat off - unat off div 512 * 512 + n) =
    Inr (slice (dec 0 content) (unat off) (unat off + n))"
proof -
  let ?s = "unat off div 512 * 512" and ?e = "div_ceil (unat off + n) 512 * 512"
  have s: "?s \<le> unat off" by simp
  have e: "unat off + n \<le> ?e" using div_ceil_mult_ge [of 512 "unat off + n"] by simp
  note e2 = detto_aligned_end [OF assms(2,4)]
  have su: "unat (of_nat ?s :: u64) = ?s"
    by (rule unat_of_nat_u64) (rule le_less_trans [OF s unat_less_u64])
  have n: "?e - ?s < 2 ^ 64" using e2(2) by simp
  have "ciphertext = slice content ?s ?e"
    using image_read [OF n assms(3)] su s e by simp
  then have "dec (unat off div 512) ciphertext = slice (dec 0 content) ?s ?e"
    using xts_areas.dec_window [OF assms(1), of ?s ?e content] s e e2(1) by simp
  moreover have "slice (slice (dec 0 content) ?s ?e) (unat off - ?s) (unat off - ?s + n) = slice (dec 0 content) (unat off) (unat off + n)"
    using s e by (simp add: slice_slice)
  moreover have "unat off - ?s + n \<le> length (slice (dec 0 content) ?s ?e)"
    unfolding length_slice xts_areas.xts_length [OF assms(1)] using s e e2(1) by linarith
  ultimately show "index_range (dec (unat off div 512) ciphertext) (unat off - ?s) (unat off - ?s + n) =
    Inr (slice (dec 0 content) (unat off) (unat off + n))"
    using index_range_ok [of "unat off - ?s" "unat off - ?s + n" "slice (dec 0 content) ?s ?e"] by simp
qed

lemma sliced_contract:
  assumes "sliced_new img base len = Inr s"
  shows "image_contract s (slice content (unat base) (unat base + unat len))"
proof -
  from assms have s: "s = sliced_image img base len" and len: "unat base + unat len \<le> length content"
    using image_len by (auto simp: sliced_new_def result_simps checked_simps word_less_nat_alt split: if_splits)
  show ?thesis
  proof
    show "unat (im_len s) = length (slice content (unat base) (unat base + unat len))"
      using s len by (simp add: sliced_image_def)
  next
    fix n :: nat and off bytes assume n: "n < 2 ^ 64" and r: "im_read s off n = Inr bytes"
    then have le: "unat off + n \<le> unat len" and read: "\<exists>start. unat start = unat base + unat off \<and> im_read img start n = Inr bytes"
      using n by (auto simp: s sliced_image_def result_simps plus_u64_def unat_of_nat_u64 checked_simps word_less_nat_alt split: if_splits)
    then have "bytes = slice content (unat base + unat off) (unat base + unat off + n)" using image_read [OF n, of _ bytes] by metis
    then show "unat off + n \<le> length (slice content (unat base) (unat base + unat len)) \<and>
        bytes = slice (slice content (unat base) (unat base + unat len)) (unat off) (unat off + n)"
      using le len by (simp add: slice_slice add.assoc)
  next
    fix n :: nat and off :: u64 assume n: "n < 2 ^ 64"
    show "no_panic (im_read s off n)"
      using n len image_len image_no_panic [OF n] unat_less_u64 [of "im_len img"]
      by (auto simp: s sliced_image_def panic_simps plus_u64_def unat_of_nat_u64 checked_simps result_simps word_less_nat_alt)
  qed
qed

lemma detto_contract:
  assumes "xts_areas (xts (take 32 key) (drop 32 key) 512)" and "detto_new xts img key = Inr d"
  shows "image_contract d (xts (take 32 key) (drop 32 key) 512 0 content)"
proof -
  let ?dec = "xts (take 32 key) (drop 32 key) 512"
  have d: "im_len d = im_len img" "im_read d = detto_read xts key img" and "512 dvd length content"
    using assms(2) image_len by (auto simp: detto_new_def DETTO_SECTOR_SIZE_def split: if_splits)
  note exact = detto_read_exact [OF assms(1) this(3)] and aligned_end = detto_aligned_end(2) [OF this(3)]
  have len: "length (?dec 0 content) = length content" by (rule xts_areas.xts_length [OF assms(1)])
  show ?thesis
  proof
    show "unat (im_len d) = length (?dec 0 content)" using d len image_len by simp
  next
    fix n :: nat and off bytes assume n: "n < 2 ^ 64" and r: "im_read d off n = Inr bytes"
    show "unat off + n \<le> length (?dec 0 content) \<and> bytes = slice (?dec 0 content) (unat off) (unat off + n)"
      using n r exact len image_len
      by (auto simp: d detto_read_def Let_def DETTO_SECTOR_SIZE_def result_simps unat_of_nat_u64 checked_simps word_less_nat_alt
          simp del: of_nat_mult split: if_splits)
  next
    fix n :: nat and off :: u64 assume n: "n < 2 ^ 64"
    have small: "div_ceil (unat off + n) 512 * 512 - k < 2 ^ 64" if "unat off + n \<le> length content" for k
      using aligned_end [OF that] by simp
    show "no_panic (im_read d off n)"
      using n exact aligned_end [of "unat off + n"] image_len image_no_panic [OF small]
      by (auto simp: not_less d detto_read_def Let_def DETTO_SECTOR_SIZE_def panic_simps unat_of_nat_u64 checked_simps result_simps word_less_nat_alt
          simp del: of_nat_mult no_panic_index_range split: if_splits)
  qed
qed

end

context complete_image
begin

lemma sliced_complete:
  assumes "sliced_new img base len = Inr s"
  shows "complete_image s (slice content (unat base) (unat base + unat len))"
proof (rule complete_image.intro [OF sliced_contract [OF assms]], unfold_locales)
  from assms have s: "s = sliced_image img base len" and len: "unat base + unat len \<le> length content"
    using image_len by (auto simp: sliced_new_def result_simps checked_simps word_less_nat_alt split: if_splits)
  fix off :: u64 and n assume "unat off + n \<le> length (slice content (unat base) (unat base + unat len))"
  then have le: "unat off + n \<le> unat len" and n: "n < 18446744073709551616" using len unat_less_u64 [of len] by auto
  have base: "unat base + unat off < 2 ^ 64" using le len image_len unat_less_u64 [of "im_len img"] by simp
  moreover have "checked_add off (of_nat n) = Some (off + of_nat n)" "unat (off + of_nat n) = unat off + n"
    using le n unat_less_u64 [of len] by (simp_all add: checked_add_def unat_of_nat_u64 unat_add_u64)
  moreover have "unat (base + off) + n \<le> length content" using base le len by (simp add: unat_add_u64)
  ultimately show "\<exists>bytes. im_read s off n = Inr bytes"
    using image_complete [of "base + off" n] le
    by (simp add: s sliced_image_def plus_u64_def checked_add_def word_less_nat_alt not_less [symmetric])
qed

lemma detto_complete:
  assumes "xts_areas (xts (take 32 key) (drop 32 key) 512)" and "detto_new xts img key = Inr d"
  shows "complete_image d (xts (take 32 key) (drop 32 key) 512 0 content)"
proof (rule complete_image.intro [OF detto_contract [OF assms]], unfold_locales)
  let ?dec = "xts (take 32 key) (drop 32 key) 512"
  have d: "im_len d = im_len img" "im_read d = detto_read xts key img" and dvd: "512 dvd length content"
    using assms(2) image_len by (auto simp: detto_new_def DETTO_SECTOR_SIZE_def split: if_splits)
  fix off :: u64 and n assume "unat off + n \<le> length (?dec 0 content)"
  then have le: "unat off + n \<le> length content" by (simp add: xts_areas.xts_length [OF assms(1)])
  then have n: "n < 18446744073709551616" using image_len unat_less_u64 [of "im_len img"] by simp
  have last: "checked_add off (of_nat n) = Some (off + of_nat n)" "unat (off + of_nat n) = unat off + n"
    using le n image_len unat_less_u64 [of "im_len img"] by (simp_all add: checked_add_def unat_of_nat_u64 unat_add_u64)
  let ?s = "unat off div 512 * 512" and ?e = "div_ceil (unat off + n) 512 * 512"
  have su: "unat (of_nat ?s :: u64) = ?s"
    by (rule unat_of_nat_u64) (rule le_less_trans [OF div_times_less_eq_dividend unat_less_u64])
  have "?s \<le> ?e" using div_ceil_mult_ge [of 512 "unat off + n"] by (simp add: le_trans [OF div_times_less_eq_dividend])
  then obtain c where c: "im_read img (of_nat ?s) (?e - ?s) = Inr c"
    using image_complete [of "of_nat ?s" "?e - ?s"] detto_aligned_end(1) [OF dvd le] su by auto
  show "\<exists>bytes. im_read d off n = Inr bytes"
    using last le c detto_read_exact [OF assms(1) dvd c le] detto_aligned_end(2) [OF dvd le] image_len
    by (simp add: d detto_read_def Let_def DETTO_SECTOR_SIZE_def word_less_nat_alt not_less [symmetric] del: of_nat_mult)
qed

end

context reliable_device
begin

text \<open>A device behind \<open>FileImage\<close> is a complete image of its contents.\<close>

lemma file_image_complete:
  assumes "unat len = length content"
  shows "complete_image (file_image dv bs len) content"
proof -
  have inside: "im_read (file_image dv bs len) off n = Inr (slice content (unat off) (unat off + n))"
    if le: "unat off + n \<le> length content" for off n
  proof -
    have "checked_add off (of_nat n) = Some (off + of_nat n)" "unat (off + of_nat n) = unat off + n"
      using le content_bound by (simp_all add: checked_add_def unat_of_nat_u64 unat_add_u64)
    then show ?thesis
      using device_read_succeeds [OF le, of "[]"] le assms by (auto simp: file_image_def word_less_nat_alt)
  qed
  have outside: "\<exists>m. im_read (file_image dv bs len) off n = Inl (Bail m)"
    if "\<not> unat off + n \<le> length content" and "n < 2 ^ 64" for off n
  proof (cases "checked_add off (of_nat n)")
    case (Some fin)
    then have "unat fin = unat off + n" using that(2) by (simp add: checked_simps unat_of_nat_u64)
    with Some show ?thesis using that(1) assms by (simp add: file_image_def word_less_nat_alt)
  qed (simp add: file_image_def)
  show ?thesis
  proof
    fix n :: nat and off :: u64 and bytes
    assume "n < 2 ^ 64" and "im_read (file_image dv bs len) off n = Inr bytes"
    then show "unat off + n \<le> length content \<and> bytes = slice content (unat off) (unat off + n)"
      using inside outside by (metis Inl_Inr_False Inr_inject)
  next
    fix n :: nat and off :: u64 assume "n < 2 ^ 64"
    then show "no_panic (im_read (file_image dv bs len) off n)"
      using inside outside by (metis no_panic_simps(1,2))
  qed (use inside assms in \<open>simp_all add: file_image_def\<close>)
qed

end

section \<open>Cursor reads\<close>

definition cursor_ok :: "cursor \<Rightarrow> bool" where
  "cursor_ok c \<longleftrightarrow> cu_position c \<le> im_len (cu_source c)"

lemma cursor_read_ok:
  assumes "cursor_read c n = (c', r)" and "cursor_ok c" and "image_contract (cu_source c) content" and "n < 2 ^ 64"
  shows "cursor_ok c' \<and> no_panic r \<and> (\<forall>bytes. r = Inr bytes \<longrightarrow>
    bytes = slice content (unat (cu_position c)) (unat (cu_position c) + n) \<and>
    unat (cu_position c') = unat (cu_position c) + length bytes)"
proof (cases "cu_position c \<ge> im_len (cu_source c) \<or> n = 0")
  case True
  then have "slice content (unat (cu_position c)) (unat (cu_position c) + n) = []"
    using image_contract.image_len [OF assms(3)] by (auto simp: slice_def word_le_nat_alt)
  then show ?thesis using True assms(1,2) by (auto simp: cursor_read_def)
next
  case False
  let ?pos = "unat (cu_position c)" and ?len = "unat (im_len (cu_source c))"
  define count where "count = min (?len - ?pos) n"
  have le: "?pos \<le> ?len" "?len = length content"
    using assms(2) image_contract.image_len [OF assms(3)] by (auto simp: cursor_ok_def word_le_nat_alt)
  have sub: "unat (im_len (cu_source c) - cu_position c) = ?len - ?pos"
    using assms(2) by (simp add: cursor_ok_def unat_sub)
  have run: "cursor_read c n = (case im_read (cu_source c) (cu_position c) count of Inl e \<Rightarrow> (c, Inl e)
      | Inr bytes \<Rightarrow> (c\<lparr>cu_position := cu_position c + of_nat count\<rparr>, Inr bytes))"
    using False unfolding count_def by (simp add: cursor_read_def Let_def sub)
  have small: "count < 2 ^ 64" using assms(4) by (simp add: count_def)
  have adv: "unat (cu_position c + of_nat count) = ?pos + count" and in_len: "?pos + count \<le> ?len"
    using le unat_less_u64 [of "im_len (cu_source c)"] by (auto simp: count_def unat_add_u64 unat_of_nat_u64)
  show ?thesis
  proof (cases "im_read (cu_source c) (cu_position c) count")
    case (Inl e)
    then show ?thesis
      using assms(1,2) run image_contract.image_no_panic [OF assms(3) small, of "cu_position c"] by (auto simp: no_panic_Inl)
  next
    case (Inr bytes)
    then have b: "bytes = slice content ?pos (?pos + count)" using image_contract.image_read [OF assms(3) small] by simp
    moreover have "slice content ?pos (?pos + count) = slice content ?pos (?pos + n)"
      using le by (auto simp: slice_def count_def min_def)
    moreover have "length bytes = count" using b le in_len by simp
    moreover have "c' = c\<lparr>cu_position := cu_position c + of_nat count\<rparr>" "r = Inr bytes" using assms(1) run Inr by simp_all
    ultimately show ?thesis using adv in_len by (simp add: cursor_ok_def word_le_nat_alt)
  qed
qed

lemma cursor_seek_ok:
  assumes "cursor_seek c from = (c', r)" and "cursor_ok c"
  shows "cursor_ok c' \<and> (\<forall>v. r = Inr v \<longrightarrow> cu_position c' = v) \<and> cu_source c' = cu_source c"
proof -
  have "uint (word_of_int t :: u64) = t" if "0 \<le> t" "t \<le> uint (im_len (cu_source c))" for t
    using that unsigned_less [of "im_len (cu_source c)", where ?'a = int]
    by (simp add: unsigned_of_int take_bit_int_eq_self_iff)
  then show ?thesis
    using assms by (auto simp: cursor_seek_def cursor_ok_def Let_def word_le_def split: if_splits)
qed

section \<open>Properties\<close>

text \<open>C28: A window into a decrypted \<open>.detto\<close> image shows exactly the decrypted bytes of the window: a
  read, at any offset and of any length, succeeds when and only when it lies in the window, returns
  the bytes of the decrypted image at that place although only whole sectors around them are
  decrypted, and never panics.\<close>

theorem nested_layers_show_the_decrypted_window:
  assumes "complete_image img content" and "xts_areas (xts (take 32 key) (drop 32 key) 512)"
    and "detto_new xts img key = Inr d" and "sliced_new d base len = Inr s" and "n < 2 ^ 64"
  shows "no_panic (im_read s off n) \<and>
    (im_read s off n = Inr bytes \<longleftrightarrow> unat off + n \<le> unat len \<and>
       bytes = slice (xts (take 32 key) (drop 32 key) 512 0 content) (unat base + unat off) (unat base + unat off + n))"
proof -
  let ?plain = "xts (take 32 key) (drop 32 key) 512 0 content"
  have d: "complete_image d ?plain" by (rule complete_image.detto_complete [OF assms(1-3)])
  have s: "complete_image s (slice ?plain (unat base) (unat base + unat len))"
    by (rule complete_image.sliced_complete [OF d assms(4)])
  then have c: "image_contract s (slice ?plain (unat base) (unat base + unat len))" by (simp add: complete_image_def)
  have "unat (im_len s) = unat len" using assms(4) by (auto simp: sliced_new_def sliced_image_def result_simps split: if_splits)
  then have l: "length (slice ?plain (unat base) (unat base + unat len)) = unat len"
    using image_contract.image_len [OF c] by simp
  have w: "slice (slice ?plain (unat base) (unat base + unat len)) (unat off) (unat off + n) =
      slice ?plain (unat base + unat off) (unat base + unat off + n)" if "unat off + n \<le> unat len"
    using that by (simp add: slice_slice add.assoc)
  from complete_image.image_complete [OF s, of off n] image_contract.image_read [OF c assms(5), of off]
    image_contract.image_no_panic [OF c assms(5)] w l
  show ?thesis by (metis Inr_inject)
qed

text \<open>A drive of four sectors behind a cipher that flips the lowest bit.\<close>

definition flip_xts :: xts where
  "flip_xts k1 k2 sector first area = map (\<lambda>b. b XOR 1) area"

interpretation flip: xts_areas "flip_xts k1 k2 512" for k1 k2
  by unfold_locales (simp_all add: flip_xts_def)

interpretation demo_image: complete_image "file_image (short_device 512 (replicate 2048 7)) 512 2048" "replicate 2048 7"
  by (rule demo_drive.file_image_complete) simp

theorem nested_layers_show_the_decrypted_window_witness:
  "\<exists>d s. detto_new flip_xts (file_image (short_device 512 (replicate 2048 7)) 512 2048) (replicate 64 0) = Inr d \<and>
     sliced_new d 100 1000 = Inr s \<and> im_read s 5 3 = Inr [6, 6, 6]"
proof -
  let ?img = "file_image (short_device 512 (replicate 2048 7)) 512 2048"
  obtain d where d: "detto_new flip_xts ?img (replicate 64 0) = Inr d" and len: "im_len d = 2048"
    by (simp add: detto_new_def file_image_def DETTO_SECTOR_SIZE_def)
  obtain s where s: "sliced_new d 100 1000 = Inr s"
    by (simp add: sliced_new_def len checked_add_def word_less_nat_alt)
  have "im_read s 5 3 = Inr [6, 6, 6]"
    using nested_layers_show_the_decrypted_window [OF demo_image.complete_image_axioms flip.xts_areas_axioms d s, of 3 5 "[6, 6, 6]"]
    by (simp add: flip_xts_def slice_def numeral_3_eq_3)
  then show ?thesis using d s by blast
qed

end
