(* ===== verification/Partitions.thy ===== *)
theory Partitions
  imports Images
begin

text \<open>
  Partition tables and volumes of a nested disk image (src/inception.rs): GPT headers with their
  checksums and backup, MBR tables with chains of extended boot records, the probes for supported
  file systems, disk containers, and the session that holds the discovered volumes. CRC-32, the
  file-system crates and the QCOW2 and VMDK readers are parameters.
\<close>

section \<open>Text of the tables\<close>

fun decimal_digits :: "nat \<Rightarrow> nat \<Rightarrow> string" where
  "decimal_digits 0 v = []"
| "decimal_digits (Suc k) v = (if v < 10 then [char_of (48 + v)] else decimal_digits k (v div 10) @ [char_of (48 + v mod 10)])"

text \<open>\<open>{}\<close> of a \<open>u32\<close>: ten digits are enough.\<close>

definition display_u32 :: "u32 \<Rightarrow> string" where
  "display_u32 n = decimal_digits 10 (unat n)"

definition utf8_encode :: "nat \<Rightarrow> byte list" where
  "utf8_encode c =
     (if c < 0x80 then [word_of_nat c]
      else if c < 0x800 then [word_of_nat (0xC0 + c div 0x40), word_of_nat (0x80 + c mod 0x40)]
      else if c < 0x10000 then
        [word_of_nat (0xE0 + c div 0x1000), word_of_nat (0x80 + c div 0x40 mod 0x40), word_of_nat (0x80 + c mod 0x40)]
      else [word_of_nat (0xF0 + c div 0x40000), word_of_nat (0x80 + c div 0x1000 mod 0x40),
        word_of_nat (0x80 + c div 0x40 mod 0x40), word_of_nat (0x80 + c mod 0x40)])"

text \<open>\<open>String::from_utf16_lossy\<close>: unpaired surrogates become the replacement character.\<close>

fun utf16_lossy :: "u16 list \<Rightarrow> byte list" where
  "utf16_lossy [] = []"
| "utf16_lossy [u] = (if 0xD800 \<le> u \<and> u < 0xE000 then replacement else utf8_encode (unat u))"
| "utf16_lossy (u # v # us) =
     (if \<not> (0xD800 \<le> u \<and> u < 0xE000) then utf8_encode (unat u) @ utf16_lossy (v # us)
      else if u < 0xDC00 \<and> 0xDC00 \<le> v \<and> v < 0xE000
        then utf8_encode (0x10000 + (unat u - 0xD800) * 0x400 + (unat v - 0xDC00)) @ utf16_lossy us
      else replacement @ utf16_lossy (v # us))"

definition chunks_exact :: "nat \<Rightarrow> 'a list \<Rightarrow> 'a list list" where
  "chunks_exact n xs = filter (\<lambda>c. length c = n) (chunks n xs)"

definition saturating_mul :: "u64 \<Rightarrow> u64 \<Rightarrow> u64" where
  "saturating_mul a b = (if unat a * unat b < 2 ^ 64 then a * b else u64_max)"

section \<open>Layouts\<close>

definition MAX_GPT_ENTRIES :: u32 where "MAX_GPT_ENTRIES = 16384"
definition MAX_GPT_ENTRY_BYTES :: u64 where "MAX_GPT_ENTRY_BYTES = 64 * 1024 * 1024"
definition MAX_EBR_PARTITIONS :: nat where "MAX_EBR_PARTITIONS = 128"

record partition_layout =
  pl_selector :: string
  pl_scheme :: string
  pl_partition :: u32
  pl_offset :: u64
  pl_length :: u64
  pl_partition_type :: string
  pl_name :: string

definition raw_layout :: "image \<Rightarrow> partition_layout" where
  "raw_layout src = \<lparr>pl_selector = ''raw'', pl_scheme = ''raw'', pl_partition = 0, pl_offset = 0, pl_length = im_len src,
     pl_partition_type = ''unpartitioned'', pl_name = []\<rparr>"

definition le16 :: "byte list \<Rightarrow> nat \<Rightarrow> u16" where "le16 bs i = from_le_bytes (slice bs i (i + 2))"
definition le32 :: "byte list \<Rightarrow> nat \<Rightarrow> u32" where "le32 bs i = from_le_bytes (slice bs i (i + 4))"
definition le64 :: "byte list \<Rightarrow> nat \<Rightarrow> u64" where "le64 bs i = from_le_bytes (slice bs i (i + 8))"

text \<open>Integers read through \<open>bs[i..i + n].try_into().unwrap()\<close>: a range outside the slice panics.\<close>

definition index_le32 :: "byte list \<Rightarrow> nat \<Rightarrow> u32 result" where
  "index_le32 bs i = and_then (index_range bs i (i + 4)) (\<lambda>b. Inr (from_le_bytes b))"

definition index_le64 :: "byte list \<Rightarrow> nat \<Rightarrow> u64 result" where
  "index_le64 bs i = and_then (index_range bs i (i + 8)) (\<lambda>b. Inr (from_le_bytes b))"

text \<open>\<open>chunks_exact\<close> panics on chunks of no elements.\<close>

definition try_chunks_exact :: "nat \<Rightarrow> 'a list \<Rightarrow> 'a list list result" where
  "try_chunks_exact n xs = (if n = 0 then Inl (Panic ''chunk size must be non-zero'') else Inr (chunks_exact n xs))"

lemma index_le_Inr:
  "index_le32 bs i = Inr v32 \<longleftrightarrow> i + 4 \<le> length bs \<and> v32 = le32 bs i"
  "index_le64 bs i = Inr v64 \<longleftrightarrow> i + 8 \<le> length bs \<and> v64 = le64 bs i"
  by (auto simp: index_le32_def index_le64_def le32_def le64_def result_simps slice_simps)

lemma index_le_ok:
  "i + 4 \<le> length bs \<Longrightarrow> index_le32 bs i = Inr (le32 bs i)"
  "i + 8 \<le> length bs \<Longrightarrow> index_le64 bs i = Inr (le64 bs i)"
  by (simp_all add: index_le_Inr)

definition format_gpt_guid :: "byte list \<Rightarrow> string" where
  "format_gpt_guid b =
     hex_digits 8 (unat (le32 b 0)) @ ''-'' @ hex_digits 4 (unat (le16 b 4)) @ ''-'' @ hex_digits 4 (unat (le16 b 6)) @ ''-'' @
     concat (map (\<lambda>i. hex_digits 2 (unat (b ! i))) [8, 9]) @ ''-'' @
     concat (map (\<lambda>i. hex_digits 2 (unat (b ! i))) [10, 11, 12, 13, 14, 15])"

section \<open>GPT\<close>

definition gpt_entry :: "u64 \<Rightarrow> u64 \<Rightarrow> u64 \<Rightarrow> nat \<times> byte list \<Rightarrow> partition_layout list \<Rightarrow> partition_layout list result" where
  "gpt_entry sector_size first_usable last_usable = (\<lambda>(index, entry) partitions.
     and_then (index_range entry 0 16) (\<lambda>type_guid.
     if list_all (\<lambda>b. b = 0) type_guid then Inr partitions
     else and_then (index_le64 entry 32) (\<lambda>first_lba.
       and_then (index_le64 entry 40) (\<lambda>last_lba.
       if first_lba < first_usable \<or> last_lba < first_lba \<or> last_lba > last_usable
       then Inl (Bail ''GPT partition {} range {first_lba}..={last_lba} is outside the usable range'')
       else and_then (ok_or (checked_mul first_lba sector_size) (Bail ''GPT partition offset overflows'')) (\<lambda>off.
         and_then (plus_u64 (last_lba - first_lba) 1) (\<lambda>count.
         and_then (ok_or (checked_mul count sector_size) (Bail ''GPT partition length overflows'')) (\<lambda>len.
         and_then (index_range entry 56 (min (length entry) 128)) (\<lambda>name_bytes.
         let name_units = takeWhile (\<lambda>u. u \<noteq> 0) (map from_le_bytes (chunks_exact 2 name_bytes)) in
         Inr (partitions @ [\<lparr>pl_selector = ''gpt'' @ display_u32 (of_nat (index + 1)), pl_scheme = ''gpt'', pl_partition = of_nat (index + 1),
           pl_offset = off, pl_length = len, pl_partition_type = format_gpt_guid type_guid,
           pl_name = chars_of_bytes (utf16_lossy name_units)\<rparr>])))))))))"

text \<open>The entries of a table whose header has been accepted.\<close>

definition gpt_entries :: "u64 \<Rightarrow> u64 \<Rightarrow> u64 \<Rightarrow> u32 \<Rightarrow> byte list \<Rightarrow> partition_layout list result" where
  "gpt_entries sector_size first_usable last_usable entry_size entries =
     and_then (try_chunks_exact (unat entry_size) entries) (\<lambda>chunks.
     try_fold (gpt_entry sector_size first_usable last_usable) [] (enumerate 0 chunks))"

definition gpt_header :: "(byte list \<Rightarrow> u32) \<Rightarrow> u64 \<Rightarrow> byte list \<Rightarrow> unit result" where
  "gpt_header crc header_lba sector =
     and_then (index_range sector 0 8) (\<lambda>signature.
     if signature \<noteq> bytes_of_chars ''EFI PART'' then Inl (Bail ''missing GPT signature'')
     else and_then (index_le32 sector 12) (\<lambda>header_size.
     if \<not> (92 \<le> unat header_size \<and> unat header_size \<le> length sector) then Inl (Bail ''invalid GPT header size {header_size}'')
     else and_then (index_le32 sector 16) (\<lambda>expected_header_crc.
     and_then (index_range sector 0 (unat header_size)) (\<lambda>header.
     and_then (index_range header 16 20) (\<lambda>_.
     if crc (fill_range 16 20 0 header) \<noteq> expected_header_crc then Inl (Bail ''GPT header CRC mismatch'')
     else and_then (index_le64 sector 24) (\<lambda>current_lba.
     if current_lba \<noteq> header_lba then Inl (Bail ''GPT current LBA is {current_lba}, expected {header_lba}'')
     else Inr ()))))))"

definition parse_gpt :: "(byte list \<Rightarrow> u32) \<Rightarrow> image \<Rightarrow> u64 \<Rightarrow> u64 \<Rightarrow> partition_layout list result" where
  "parse_gpt crc src sector_size header_lba =
     and_then (ok_or (checked_mul header_lba sector_size) (Panic ''attempt to multiply with overflow'')) (\<lambda>header_offset.
     and_then (im_read src header_offset (unat sector_size)) (\<lambda>sector.
     and_then (gpt_header crc header_lba sector) (\<lambda>_.
     if sector_size = 0 then Inl (Panic ''attempt to divide by zero'')
     else let total_lbas = im_len src div sector_size in
     and_then (index_le64 sector 32) (\<lambda>alternate_lba.
     if alternate_lba \<ge> total_lbas \<or> alternate_lba = header_lba then Inl (Bail ''GPT alternate LBA {alternate_lba} is invalid'')
     else and_then (index_le64 sector 40) (\<lambda>first_usable_lba.
     and_then (index_le64 sector 48) (\<lambda>last_usable_lba.
     if first_usable_lba = 0 \<or> first_usable_lba > last_usable_lba \<or> last_usable_lba \<ge> total_lbas
     then Inl (Bail ''GPT usable range {first_usable_lba}..={last_usable_lba} is outside the nested disk'')
     else and_then (index_le64 sector 72) (\<lambda>entry_lba.
     and_then (index_le32 sector 80) (\<lambda>entry_count.
     and_then (index_le32 sector 84) (\<lambda>entry_size.
     and_then (index_le32 sector 88) (\<lambda>expected_entries_crc.
     if entry_count = 0 \<or> entry_count > MAX_GPT_ENTRIES then Inl (Bail ''GPT entry count {entry_count} is outside 1..={MAX_GPT_ENTRIES}'')
     else if \<not> (128 \<le> unat entry_size \<and> unat entry_size \<le> 4096) \<or> unat entry_size mod 8 \<noteq> 0
     then Inl (Bail ''GPT entry size {entry_size} is invalid'')
     else and_then (ok_or (checked_mul (ucast entry_count) (ucast entry_size)) (Bail ''GPT entry-array size overflows'')) (\<lambda>entries_len.
     if entries_len > MAX_GPT_ENTRY_BYTES then Inl (Bail ''GPT entry array exceeds the 64 MiB safety limit'')
     else and_then (ok_or (checked_mul entry_lba sector_size) (Bail ''GPT entry-array offset overflows'')) (\<lambda>entries_offset.
     and_then (ok_or (checked_add entries_offset entries_len) (Bail ''GPT entry-array end overflows'')) (\<lambda>entries_end.
     if entries_end > im_len src then Inl (Bail ''GPT entry array is outside the nested image'')
     else and_then (im_read src entries_offset (unat entries_len)) (\<lambda>entries.
     if crc entries \<noteq> expected_entries_crc then Inl (Bail ''GPT entry-array CRC mismatch'')
     else gpt_entries sector_size first_usable_lba last_usable_lba entry_size entries))))))))))))))"

text \<open>The candidate headers: the primary one and the backup in the last sector, for both sector sizes.\<close>

definition gpt_candidates :: "image \<Rightarrow> (u64 \<times> u64) list" where
  "gpt_candidates src = concat (map (\<lambda>sector_size.
     if im_len src < saturating_mul sector_size 2 then []
     else [(sector_size, 1), (sector_size, im_len src div sector_size - 1)]) [512, 4096])"

fun try_gpt_headers :: "(byte list \<Rightarrow> u32) \<Rightarrow> image \<Rightarrow> (u64 \<times> u64) list \<Rightarrow> bool \<Rightarrow> partition_layout list option result" where
  "try_gpt_headers crc src [] saw_signature =
     (if saw_signature then Inl (Bail ''GPT signatures were found but no header validated ({})'') else Inr None)"
| "try_gpt_headers crc src ((sector_size, lba) # rest) saw_signature =
     (case im_read src (saturating_mul lba sector_size) 8 of
        Inl (Panic m) \<Rightarrow> Inl (Panic m)
      | Inl _ \<Rightarrow> try_gpt_headers crc src rest saw_signature
      | Inr signature \<Rightarrow>
          if signature \<noteq> bytes_of_chars ''EFI PART'' then try_gpt_headers crc src rest saw_signature
          else (case parse_gpt crc src sector_size lba of
                  Inr partitions \<Rightarrow> Inr (Some partitions)
                | Inl (Panic m) \<Rightarrow> Inl (Panic m)
                | Inl _ \<Rightarrow> try_gpt_headers crc src rest True))"

definition discover_gpt :: "(byte list \<Rightarrow> u32) \<Rightarrow> image \<Rightarrow> partition_layout list option result" where
  "discover_gpt crc src = try_gpt_headers crc src (gpt_candidates src) False"

section \<open>MBR\<close>

definition mbr_layout :: "image \<Rightarrow> u32 \<Rightarrow> byte \<Rightarrow> u64 \<Rightarrow> u64 \<Rightarrow> partition_layout result" where
  "mbr_layout src number kind start_lba sectors =
     and_then (ok_or (checked_mul start_lba 512) (Bail ''MBR partition offset overflows'')) (\<lambda>off.
     and_then (ok_or (checked_mul sectors 512) (Bail ''MBR partition length overflows'')) (\<lambda>len.
     and_then (ok_or (checked_add off len) (Bail ''MBR partition end overflows'')) (\<lambda>fin.
     if start_lba = 0 \<or> fin > im_len src then Inl (Bail ''MBR partition {number} lies outside the nested image'')
     else Inr \<lparr>pl_selector = ''mbr'' @ display_u32 number, pl_scheme = ''mbr'', pl_partition = number, pl_offset = off, pl_length = len,
            pl_partition_type = ''0x'' @ hex_digits 2 (unat kind), pl_name = []\<rparr>)))"

definition is_extended :: "byte \<Rightarrow> bool" where
  "is_extended kind \<longleftrightarrow> kind = 0x05 \<or> kind = 0x0f \<or> kind = 0x85"

definition mbr_entry ::
  "image \<Rightarrow> byte list \<Rightarrow> nat \<Rightarrow> partition_layout list \<times> (u64 \<times> u64) list \<Rightarrow> (partition_layout list \<times> (u64 \<times> u64) list) result" where
  "mbr_entry src sector index = (\<lambda>(partitions, extended).
     and_then (index_range sector (446 + index * 16) (446 + (index + 1) * 16)) (\<lambda>entry.
     let kind = entry ! 4; start = ucast (le32 entry 8) :: u64; sectors = ucast (le32 entry 12) :: u64
     in if kind = 0 \<or> sectors = 0 then Inr (partitions, extended)
        else if is_extended kind then Inr (partitions, extended @ [(start, sectors)])
        else and_then (mbr_layout src (of_nat (index + 1)) kind start sectors) (\<lambda>l. Inr (partitions @ [l], extended))))"

text \<open>The chain of extended boot records of a container, at most \<open>remaining\<close> of them.\<close>

fun ebr_chain ::
  "image \<Rightarrow> u64 \<Rightarrow> u64 \<Rightarrow> u64 \<Rightarrow> nat \<Rightarrow> u64 \<Rightarrow> u64 list \<Rightarrow> partition_layout list \<times> u32 \<Rightarrow> (partition_layout list \<times> u32) result" where
  "ebr_chain src base container_sectors container_end 0 ebr_lba seen st =
     Inl (Bail ''MBR extended-partition chain exceeds {MAX_EBR_PARTITIONS} entries'')"
| "ebr_chain src base container_sectors container_end (Suc remaining) ebr_lba seen (partitions, logical_number) =
     (if ebr_lba \<in> set seen then Inl (Bail ''MBR extended-partition chain contains a loop at LBA {ebr_lba}'')
      else and_then (ok_or (checked_mul ebr_lba 512) (Bail ''EBR offset overflows'')) (\<lambda>off.
      and_then (map_err (\<lambda>e. case e of Panic m \<Rightarrow> Panic m | _ \<Rightarrow> Bail ''reading EBR at LBA {ebr_lba}'') (im_read src off 512)) (\<lambda>ebr.
      if slice ebr 510 512 \<noteq> [0x55, 0xaa] then Inl (Bail ''extended partition has an invalid EBR signature at LBA {ebr_lba}'')
      else let first = slice ebr 446 462; kind = first ! 4;
               relative = ucast (le32 first 8) :: u64; sectors = ucast (le32 first 12) :: u64 in
      and_then
        (if kind \<noteq> 0 \<and> sectors \<noteq> 0
         then and_then (ok_or (checked_add ebr_lba relative) (Bail ''logical MBR partition LBA overflows'')) (\<lambda>start.
              and_then (ok_or (checked_add start sectors) (Bail ''logical MBR partition range overflows'')) (\<lambda>logical_end.
              if start < base \<or> logical_end > container_end
              then Inl (Bail ''logical MBR partition lies outside its extended container'')
              else and_then (mbr_layout src logical_number kind start sectors) (\<lambda>l.
                Inr (partitions @ [l], logical_number + 1))))
         else Inr (partitions, logical_number)) (\<lambda>st.
      let link = slice ebr 462 478;
          next_relative = ucast (le32 link 8) :: u64; next_sectors = ucast (le32 link 12) :: u64 in
      if link ! 4 = 0 \<or> next_sectors = 0 then Inr st
      else if \<not> is_extended (link ! 4) then Inl (Bail ''EBR link entry has non-extended partition type 0x{:02x}'')
      else if next_relative \<ge> container_sectors then Inl (Bail ''next EBR lies outside its extended-partition container'')
      else and_then (ok_or (checked_add base next_relative) (Bail ''next EBR LBA overflows'')) (\<lambda>ebr_lba'.
        ebr_chain src base container_sectors container_end remaining ebr_lba' (ebr_lba # seen) st)))))"

definition mbr_container :: "image \<Rightarrow> u64 \<times> u64 \<Rightarrow> partition_layout list \<times> u32 \<Rightarrow> (partition_layout list \<times> u32) result" where
  "mbr_container src = (\<lambda>(base, container_sectors) st.
     and_then (ok_or (checked_add base container_sectors) (Bail ''MBR extended-partition range overflows'')) (\<lambda>container_end.
     if base = 0 \<or> saturating_mul container_end 512 > im_len src
     then Inl (Bail ''MBR extended-partition container lies outside the nested image'')
     else ebr_chain src base container_sectors container_end MAX_EBR_PARTITIONS base [] st))"

definition discover_mbr :: "image \<Rightarrow> partition_layout list result" where
  "discover_mbr src =
     (if im_len src < 512 then Inr []
      else and_then (im_read src 0 512) (\<lambda>sector.
      if slice sector 510 512 \<noteq> [0x55, 0xaa] then Inr []
      else and_then (try_fold (mbr_entry src sector) ([], []) [0 ..< 4]) (\<lambda>(partitions, extended).
      and_then (try_fold (mbr_container src) (partitions, 5) extended) (\<lambda>(partitions, logical_number). Inr partitions))))"

section \<open>Volumes\<close>

datatype filesystem_kind = Ntfs | Fat12 | Fat16 | Fat32 | Exfat | Ext4
datatype fat_variant = FatVariant12 | FatVariant16 | FatVariant32 | FatVariantEx
datatype disk_container_kind = RawDisk | Qcow2 | Vmdk

record volume_info =
  vi_selector :: string
  vi_scheme :: string
  vi_partition :: u32
  vi_offset :: u64
  vi_length :: u64
  vi_partition_type :: string
  vi_name :: string
  vi_filesystem :: "filesystem_kind option"
  vi_diagnostic :: "string option"

text \<open>What the crates answer for an image: CRC-32, whether a file system opens, and disk containers.\<close>

record probes =
  pr_crc :: "byte list \<Rightarrow> u32"
  pr_ntfs :: "image \<Rightarrow> bool"
  pr_fat :: "image \<Rightarrow> fat_variant option"
  pr_ext4 :: "image \<Rightarrow> bool"
  pr_qcow :: "image \<Rightarrow> image option"
  pr_vmdk :: "image \<Rightarrow> image option"

definition fat_kind :: "fat_variant \<Rightarrow> filesystem_kind" where
  "fat_kind v = (case v of FatVariant12 \<Rightarrow> Fat12 | FatVariant16 \<Rightarrow> Fat16 | FatVariant32 \<Rightarrow> Fat32 | FatVariantEx \<Rightarrow> Exfat)"

definition looks_like_fat :: "byte list \<Rightarrow> bool" where
  "looks_like_fat boot \<longleftrightarrow>
     slice boot 510 512 = [0x55, 0xaa] \<and> le16 boot 11 \<in> {512, 1024, 2048, 4096} \<and> is_power_of_two (unat (boot ! 13)) \<and>
     le16 boot 14 \<noteq> 0 \<and> (boot ! 16 = 1 \<or> boot ! 16 = 2) \<and> (le16 boot 19 \<noteq> 0 \<or> le32 boot 32 \<noteq> 0)"

definition make_volume_info :: "partition_layout \<Rightarrow> filesystem_kind option \<Rightarrow> string option \<Rightarrow> volume_info" where
  "make_volume_info l fs diagnostic = \<lparr>vi_selector = pl_selector l, vi_scheme = pl_scheme l, vi_partition = pl_partition l,
     vi_offset = pl_offset l, vi_length = pl_length l, vi_partition_type = pl_partition_type l, vi_name = pl_name l,
     vi_filesystem = fs, vi_diagnostic = diagnostic\<rparr>"

text \<open>Errors of a probe become diagnostics of the volume; a panic is not caught and stays one.\<close>

definition probe_volume :: "probes \<Rightarrow> image \<Rightarrow> partition_layout \<Rightarrow> volume_info result" where
  "probe_volume pr src l =
     (case sliced_new src (pl_offset l) (pl_length l) of
        Inl (Panic m) \<Rightarrow> Inl (Panic m)
      | Inl _ \<Rightarrow> Inr (make_volume_info l None (Some ''{error:#}''))
      | Inr sliced \<Rightarrow>
          (case im_read sliced 0 512 of
             Inl (Panic m) \<Rightarrow> Inl (Panic m)
           | Inl _ \<Rightarrow> Inr (make_volume_info l None (Some ''reading boot sector: {error:#}''))
           | Inr boot \<Rightarrow>
               if slice boot 3 11 = bytes_of_chars ''NTFS    '' then
                 Inr (if pr_ntfs pr sliced then make_volume_info l (Some Ntfs) None
                  else make_volume_info l None (Some ''invalid NTFS: {error}''))
               else if slice boot 3 11 = bytes_of_chars ''EXFAT   '' \<or> looks_like_fat boot then
                 Inr (case pr_fat pr sliced of
                    Some v \<Rightarrow> make_volume_info l (Some (fat_kind v)) None
                  | None \<Rightarrow> make_volume_info l None (Some ''invalid FAT-family filesystem: {error}''))
               else and_then
                 (if pl_length l \<ge> 1082
                  then case im_read sliced (1024 + 56) 2 of
                         Inl (Panic m) \<Rightarrow> Inl (Panic m) | Inl _ \<Rightarrow> Inr False | Inr magic \<Rightarrow> Inr (magic = [0x53, 0xef])
                  else Inr False) (\<lambda>ext.
                 Inr (if ext then
                     if pr_ext4 pr sliced then make_volume_info l (Some Ext4) None
                     else make_volume_info l None (Some ''invalid ext filesystem: {error:#}'')
                   else make_volume_info l None (Some ''no supported filesystem signature was found'')))))"

definition discover_partitions :: "probes \<Rightarrow> image \<Rightarrow> partition_layout list result" where
  "discover_partitions pr src =
     and_then (discover_gpt (pr_crc pr) src) (\<lambda>gpt.
     case gpt of
       Some partitions \<Rightarrow> Inr partitions
     | None \<Rightarrow>
         and_then (probe_volume pr src (raw_layout src)) (\<lambda>info.
         if vi_filesystem info \<noteq> None then Inr [] else discover_mbr src))"

section \<open>Sessions\<close>

definition open_disk_container :: "probes \<Rightarrow> image \<Rightarrow> (disk_container_kind \<times> image) result" where
  "open_disk_container pr src =
     and_then (im_read src 0 512) (\<lambda>header.
     if take 4 header = [0x51, 0x46, 0x49, 0xfb] then
       (let version = from_be_bytes (slice header 4 8) :: u32 in
        if \<not> (2 \<le> version \<and> version \<le> 3) then Inl (Bail ''QCOW version {version} is not supported'')
        else and_then (ok_or (pr_qcow pr src) (Bail ''opening QCOW2 container'')) (\<lambda>disk. Inr (Qcow2, disk)))
     else if take 4 header = bytes_of_chars ''KDMV'' then
       and_then (ok_or (pr_vmdk pr src) (Bail ''opening VMDK container'')) (\<lambda>disk. Inr (Vmdk, disk))
     else if take 21 header = bytes_of_chars ''# Disk DescriptorFile'' \<or>
         list_ex (\<lambda>i. slice header i (i + 10) = bytes_of_chars ''createType'') [0 ..< 503]
     then Inl (Bail ''this is a VMDK descriptor that references external extent files'')
     else Inr (RawDisk, src))"

record inception_session =
  is_source :: image
  is_image_path :: string
  is_stored_size :: u64
  is_disk_size :: u64
  is_container :: disk_container_kind
  is_image_offset :: u64
  is_volumes :: "volume_info list"

definition inspect_source_at :: "probes \<Rightarrow> image \<Rightarrow> string \<Rightarrow> u64 \<Rightarrow> u64 option \<Rightarrow> inception_session result" where
  "inspect_source_at pr src image_path image_offset image_length =
     (if image_offset > im_len src then Inl (Bail ''nested image offset {image_offset} exceeds ZFS file size {}'')
      else let stored_size = (case image_length of Some l \<Rightarrow> l | None \<Rightarrow> im_len src - image_offset) in
      and_then (sliced_new src image_offset stored_size) (\<lambda>window.
      if stored_size < 512 then Inl (Bail ''nested image window is only {stored_size} bytes'')
      else and_then (open_disk_container pr window) (\<lambda>(container, disk).
      let disk_size = im_len disk in
      if disk_size < 512 then Inl (Bail ''nested virtual disk is only {disk_size} bytes'')
      else and_then (discover_partitions pr disk) (\<lambda>layouts.
      and_then (try_map (probe_volume pr disk) (if layouts = [] then [raw_layout disk] else layouts)) (\<lambda>volumes.
      Inr \<lparr>is_source = disk, is_image_path = image_path, is_stored_size = stored_size, is_disk_size = disk_size,
           is_container = container, is_image_offset = image_offset, is_volumes = volumes\<rparr>)))))"

definition ascii_lower :: "char \<Rightarrow> char" where
  "ascii_lower c = (let n = of_char c :: nat in if 65 \<le> n \<and> n \<le> 90 then char_of (n + 32) else c)"

definition select_volume :: "inception_session \<Rightarrow> string option \<Rightarrow> volume_info result" where
  "select_volume ss selector =
     (case selector of
        Some name \<Rightarrow>
          ok_or (find (\<lambda>v. map ascii_lower (vi_selector v) = map ascii_lower name) (is_volumes ss))
            (Bail ''volume {selector:?} was not found (available: {})'')
      | None \<Rightarrow>
          (case filter (\<lambda>v. vi_filesystem v \<noteq> None) (is_volumes ss) of
             [only] \<Rightarrow> Inr only
           | [] \<Rightarrow> Inl (Bail ''{} contains no supported NTFS, FAT, exFAT, or ext filesystem'')
           | _ \<Rightarrow> Inl (Bail ''{} contains multiple supported volumes ({}); choose one with --volume'')))"

definition volume_source :: "inception_session \<Rightarrow> volume_info \<Rightarrow> image result" where
  "volume_source ss v = sliced_new (is_source ss) (vi_offset v) (vi_length v)"

definition normalize_inner_path :: "string \<Rightarrow> string list result" where
  "normalize_inner_path path =
     (case path of
        c # _ \<Rightarrow>
          if c \<noteq> CHR ''/'' then Inl (Bail ''inner filesystem path must be absolute'')
          else try_fold (\<lambda>part parts.
              if part = [] \<or> part = ''.'' then Inr parts
              else if part = ''..'' then Inl (Bail ''inner filesystem path cannot contain ..'')
              else if CHR 0x00 \<in> set part then Inl (Bail ''inner filesystem path contains a NUL byte'')
              else Inr (parts @ [part])) [] (split_on CHR ''/'' path)
      | [] \<Rightarrow> Inl (Bail ''inner filesystem path must be absolute''))"

definition normalized_inner_path :: "string \<Rightarrow> string result" where
  "normalized_inner_path path =
     and_then (normalize_inner_path path) (\<lambda>parts.
     Inr (if parts = [] then ''/'' else ''/'' @ join ''/'' parts))"

text \<open>FNV-1a over the bytes of a path.\<close>

definition stable_path_id :: "string \<Rightarrow> u64" where
  "stable_path_id path =
     fold (\<lambda>byte hash. (hash XOR ucast byte) * 0x00000100000001b3) (bytes_of_chars path) 0xcbf29ce484222325"

section \<open>Discovered partitions lie within the disk\<close>

definition layout_inside :: "image \<Rightarrow> partition_layout \<Rightarrow> bool" where
  "layout_inside src l \<longleftrightarrow> 0 < unat (pl_length l) \<and> unat (pl_offset l) + unat (pl_length l) \<le> unat (im_len src)"

lemma layout_opens: "layout_inside src l \<Longrightarrow> sliced_new src (pl_offset l) (pl_length l) = Inr (sliced_image src (pl_offset l) (pl_length l))"
proof -
  assume l: "layout_inside src l"
  then have lt: "unat (pl_offset l) + unat (pl_length l) < 2 ^ 64" using unat_less_u64 [of "im_len src"] by (simp add: layout_inside_def)
  then have "checked_add (pl_offset l) (pl_length l) = Some (pl_offset l + pl_length l)" by (simp add: checked_add_def)
  then show ?thesis
    using l lt by (auto simp: sliced_new_def layout_inside_def word_less_nat_alt unat_add_u64)
qed

lemma mbr_layout_inside: "mbr_layout src number kind start sectors = Inr l \<Longrightarrow> sectors \<noteq> 0 \<Longrightarrow> layout_inside src l"
  by (auto simp: mbr_layout_def layout_inside_def result_simps checked_simps word_less_nat_alt word_unat_eq_iff split: if_splits)

lemma gpt_entry_inside:
  assumes "gpt_entry sector_size first_usable last_usable x partitions = Inr partitions'"
    and "last_usable < im_len src div sector_size" and "sector_size \<noteq> 0" and "list_all (layout_inside src) partitions"
  shows "list_all (layout_inside src) partitions'"
proof (cases "partitions' = partitions")
  case False
  obtain i entry where x: "x = (i, entry)" by (cases x)
  define first_lba last_lba where lba: "first_lba = le64 entry 32" "last_lba = le64 entry 40"
  have lbas: "\<not> last_lba < first_lba" "\<not> last_lba > last_usable"
    and "\<exists>l. partitions' = partitions @ [l] \<and> unat (pl_offset l) = unat first_lba * unat sector_size \<and>
      unat (pl_length l) = (unat (last_lba - first_lba) + 1) * unat sector_size"
    using assms(1) False
    by (auto simp: x lba gpt_entry_def index_le_Inr Let_def result_simps checked_simps plus_u64_def split: if_splits)
  then obtain l where l: "partitions' = partitions @ [l]" and off: "unat (pl_offset l) = unat first_lba * unat sector_size"
    and len: "unat (pl_length l) = (unat (last_lba - first_lba) + 1) * unat sector_size" by blast
  have "unat (last_lba - first_lba) = unat last_lba - unat first_lba" and le: "unat first_lba \<le> unat last_lba"
    using lbas(1) by (simp_all add: unat_sub not_less word_le_nat_alt)
  then have "unat (pl_offset l) + unat (pl_length l) = (unat last_lba + 1) * unat sector_size"
    unfolding off len by (simp flip: add_mult_distrib)
  also have "unat last_lba + 1 \<le> unat (im_len src) div unat sector_size"
    using lbas(2) assms(2) by (simp add: word_less_nat_alt unat_div not_less)
  then have "(unat last_lba + 1) * unat sector_size \<le> unat (im_len src) div unat sector_size * unat sector_size"
    by (rule mult_le_mono1)
  also have "\<dots> \<le> unat (im_len src)" by simp
  finally have "unat (pl_offset l) + unat (pl_length l) \<le> unat (im_len src)" .
  moreover have "0 < unat (pl_length l)" using len assms(3) by (simp add: word_unat_eq_iff)
  ultimately show ?thesis using l assms(4) by (simp add: layout_inside_def)
qed (use assms(4) in simp)

lemma parse_gpt_inside:
  assumes "parse_gpt crc src sector_size lba = Inr partitions" and "sector_size \<noteq> 0"
  shows "list_all (layout_inside src) partitions"
proof -
  obtain first_usable last_usable entries where
    fold: "try_fold (gpt_entry sector_size first_usable last_usable) [] entries = Inr partitions"
    and last: "last_usable < im_len src div sector_size"
    using assms(1) by (auto simp: parse_gpt_def gpt_entries_def Let_def result_simps not_le split: if_splits)
  show ?thesis
    by (rule try_fold_invariant [OF fold, where P = "list_all (layout_inside src)"])
      (use gpt_entry_inside [OF _ last assms(2)] in auto)
qed

lemma try_gpt_inside:
  assumes "try_gpt_headers crc src candidates saw = Inr (Some partitions)" and "\<forall>c \<in> set candidates. fst c \<noteq> 0"
  shows "list_all (layout_inside src) partitions"
  using assms
proof (induction candidates arbitrary: saw)
  case Nil
  then show ?case by (simp split: if_splits)
next
  case (Cons c rest)
  obtain ss lba where c: "c = (ss, lba)" by (cases c)
  show ?case
    using Cons parse_gpt_inside [of crc src ss lba partitions]
    by (auto simp: c split: sum.splits error.splits if_splits)
qed

lemma gpt_candidates_ok:
  assumes "(ss, lba) \<in> set (gpt_candidates src)"
  shows "(ss = 512 \<or> ss = 4096) \<and> unat lba * unat ss + unat ss \<le> unat (im_len src)"
proof -
  have ss: "ss = 512 \<or> ss = 4096" and big: "2 * unat ss \<le> unat (im_len src)" and lba: "lba = 1 \<or> lba = im_len src div ss - 1"
    using assms by (auto simp: gpt_candidates_def saturating_mul_def word_less_nat_alt split: if_splits)
  have pos: "0 < unat ss" using ss by auto
  have two: "2 \<le> unat (im_len src) div unat ss" using big pos by (simp add: less_eq_div_iff_mult_less_eq)
  then have "unat (im_len src div ss - 1) = unat (im_len src) div unat ss - 1"
    by (subst unat_sub) (simp_all add: unat_div word_le_nat_alt)
  then have "unat lba \<le> unat (im_len src) div unat ss - 1" using lba two by auto
  then have "(unat lba + 1) * unat ss \<le> unat (im_len src) div unat ss * unat ss" using two by (intro mult_le_mono1) simp
  also have "\<dots> \<le> unat (im_len src)" by simp
  finally show ?thesis using ss by simp
qed

lemma mbr_entry_inside:
  assumes "mbr_entry src sector i (partitions, extended) = Inr (partitions', extended')" and "list_all (layout_inside src) partitions"
  shows "list_all (layout_inside src) partitions'"
  using assms mbr_layout_inside by (auto simp: mbr_entry_def Let_def result_simps split: if_splits)

lemma ebr_chain_inside:
  assumes "ebr_chain src base sectors fin n lba seen (partitions, number) = Inr (partitions', number')"
    and "list_all (layout_inside src) partitions"
  shows "list_all (layout_inside src) partitions'"
  using assms
proof (induction n arbitrary: lba seen partitions number)
  case (Suc n)
  show ?case
    using Suc mbr_layout_inside
    by (auto simp: Let_def result_simps split: if_splits)
qed simp

lemma mbr_container_inside:
  "mbr_container src c (partitions, number) = Inr (partitions', number') \<Longrightarrow> list_all (layout_inside src) partitions \<Longrightarrow>
   list_all (layout_inside src) partitions'"
  by (cases c) (auto simp: mbr_container_def result_simps split: if_splits dest: ebr_chain_inside)

lemma discover_mbr_inside:
  assumes "discover_mbr src = Inr partitions"
  shows "list_all (layout_inside src) partitions"
proof (cases "partitions = []")
  case False
  with assms obtain sector ps ext n where
    es: "try_fold (mbr_entry src sector) ([], []) [0 ..< 4] = Inr (ps, ext)"
    and cs: "try_fold (mbr_container src) (ps, 5) ext = Inr (partitions, n)"
    by (auto simp: discover_mbr_def result_simps split: if_splits)
  have "list_all (layout_inside src) (fst (ps, ext))"
    by (rule try_fold_invariant [OF es, where P = "\<lambda>st. list_all (layout_inside src) (fst st)"]) (use mbr_entry_inside in auto)
  then have "list_all (layout_inside src) (fst (partitions, n))"
    by (intro try_fold_invariant [OF cs, where P = "\<lambda>st. list_all (layout_inside src) (fst st)"]) (use mbr_container_inside in auto)
  then show ?thesis by simp
qed simp

lemma discover_partitions_inside:
  assumes "discover_partitions pr src = Inr partitions"
  shows "list_all (layout_inside src) partitions"
proof -
  have "\<forall>c \<in> set (gpt_candidates src). fst c \<noteq> 0" using gpt_candidates_ok [of _ _ src] by fastforce
  then show ?thesis
    using assms try_gpt_inside [of "pr_crc pr" src "gpt_candidates src" False partitions] discover_mbr_inside [of src partitions]
    by (cases "probe_volume pr src (raw_layout src)")
      (auto simp: discover_partitions_def discover_gpt_def result_simps split: option.splits if_splits)
qed

section \<open>Discovery does not panic\<close>

lemma no_panic_index_le [panic_simps]:
  "no_panic (index_le32 bs i) \<longleftrightarrow> i + 4 \<le> length bs" "no_panic (index_le64 bs i) \<longleftrightarrow> i + 8 \<le> length bs"
  by (simp_all add: index_le32_def index_le64_def panic_simps)

context image_contract
begin

lemma read_no_panic: "no_panic (im_read img off (unat (n :: u64)))"
  using image_no_panic unat_less_u64 [of n] by simp

lemma read_length: "im_read img off (unat (n :: u64)) = Inr bytes \<Longrightarrow> length bytes = unat n"
  using image_read [of "unat n" off bytes] unat_less_u64 [of n] by auto

lemma no_panic_gpt_entry:
  assumes "last_usable < im_len img div sector_size" and "128 \<le> length (snd x)"
  shows "no_panic (gpt_entry sector_size first_usable last_usable x partitions)"
proof -
  have "unat (last_lba - first_lba) + 1 < 2 ^ 64" if "\<not> last_lba > last_usable" "\<not> last_lba < first_lba" for first_lba last_lba :: u64
  proof -
    have "last_lba < im_len img" using that(1) assms(1) by (simp add: word_less_nat_alt unat_div not_less) (meson div_le_dividend le_less_trans less_le_trans)
    moreover have "unat (last_lba - first_lba) \<le> unat last_lba" using that(2) by (simp add: unat_sub not_less)
    ultimately show ?thesis using unat_less_u64 [of "im_len img"] by (simp add: word_less_nat_alt)
  qed
  then show ?thesis
    using assms(2)
    by (cases x) (auto simp: gpt_entry_def Let_def panic_simps plus_u64_def checked_simps not_le [symmetric] split: if_splits)
qed

lemma no_panic_gpt_entries:
  assumes "\<not> last_usable \<ge> im_len img div sector_size" and "128 \<le> unat entry_size"
  shows "no_panic (gpt_entries sector_size first_usable last_usable entry_size entries)"
proof -
  have "length (snd x) = unat entry_size" if "x \<in> set (enumerate 0 (chunks_exact (unat entry_size) entries))" for x
  proof -
    have "snd x \<in> set (chunks_exact (unat entry_size) entries)"
      using that set_zip_rightD [of "fst x" "snd x"] by (simp add: enumerate_eq_zip)
    then show ?thesis by (simp add: chunks_exact_def)
  qed
  then have "no_panic (try_fold (gpt_entry sector_size first_usable last_usable) [] (enumerate 0 (chunks_exact (unat entry_size) entries)))"
    by (intro no_panic_try_fold [where P = "\<lambda>_. True"]) (use assms no_panic_gpt_entry in auto)
  then show ?thesis using assms(2) by (auto simp: gpt_entries_def try_chunks_exact_def panic_simps)
qed

lemma no_panic_parse_gpt:
  assumes "unat lba * unat sector_size < 2 ^ 64" and "92 \<le> unat sector_size"
  shows "no_panic (parse_gpt crc img sector_size lba)"
proof -
  have "no_panic (gpt_header crc lba sector)" if "92 \<le> length sector" for sector
    using that by (auto simp: gpt_header_def panic_simps slice_simps)
  then show ?thesis
    using assms read_no_panic read_length [of _ sector_size] no_panic_gpt_entries
    by (auto simp: parse_gpt_def Let_def panic_simps checked_simps simp del: not_less not_le)
qed

lemma no_panic_try_gpt:
  assumes "\<forall>(ss, lba) \<in> set candidates. unat lba * unat ss < 2 ^ 64 \<and> 92 \<le> unat ss"
  shows "no_panic (try_gpt_headers crc img candidates saw)"
  using assms
proof (induction candidates arbitrary: saw)
  case (Cons c rest)
  obtain ss lba where c: "c = (ss, lba)" by (cases c)
  have "no_panic (im_read img (saturating_mul lba ss) 8)" using image_no_panic by simp
  moreover have "no_panic (parse_gpt crc img ss lba)" using no_panic_parse_gpt Cons.prems c by simp
  ultimately show ?case
    using Cons.IH Cons.prems c by (auto split: sum.splits error.splits)
qed simp

lemma no_panic_ebr: "no_panic (ebr_chain img base sectors fin n lba seen st)"
proof (induction n arbitrary: lba seen st)
  case (Suc n)
  have r: "no_panic (map_err (\<lambda>e. case e of Panic m \<Rightarrow> Panic m | _ \<Rightarrow> Bail ''reading EBR at LBA {ebr_lba}'') (im_read img off 512))" for off
    using image_no_panic [of 512 off] by (auto simp: no_panic_def map_err_def split: sum.splits error.splits)
  show ?case
    by (cases st) (auto simp: Let_def panic_simps mbr_layout_def intro!: r Suc.IH)
qed simp

lemma no_panic_discover_mbr: "no_panic (discover_mbr img)"
proof -
  have "no_panic (try_fold (mbr_entry img sector) st [0 ..< 4])" if "length sector = 512" for sector st
    by (rule no_panic_try_fold [where P = "\<lambda>_. True"])
      (use that in \<open>auto simp: mbr_entry_def Let_def panic_simps mbr_layout_def split: prod.splits\<close>)
  moreover have "no_panic (try_fold (mbr_container img) st xs)" for st xs
    by (rule no_panic_try_fold [where P = "\<lambda>_. True"]) (auto simp: mbr_container_def panic_simps no_panic_ebr split: prod.splits)
  moreover have "no_panic (im_read img 0 512)" using image_no_panic by simp
  moreover have "length sector = 512" if "im_read img 0 512 = Inr sector" for sector using read_length [of 0 512] that by simp
  ultimately show ?thesis by (auto simp: discover_mbr_def panic_simps split: prod.splits)
qed

text \<open>Probing does not panic, so that every volume gets its file system or a diagnostic.\<close>

lemma no_panic_probe_volume: "no_panic (probe_volume pr img l)"
proof (cases "sliced_new img (pl_offset l) (pl_length l)")
  case (Inl e)
  then show ?thesis by (cases e) (auto simp: probe_volume_def sliced_new_def result_simps ok_or_def split: if_splits option.splits)
next
  case (Inr s)
  have "no_panic (im_read s off n)" if "n < 2 ^ 64" for off n
    by (rule image_contract.image_no_panic [OF sliced_contract [OF Inr] that])
  from this [of 512 0] this [of 2 "1024 + 56"] show ?thesis
    by (auto simp: probe_volume_def Inr no_panic_Inl panic_simps split: sum.splits error.splits)
qed

lemma no_panic_discover: "no_panic (discover_partitions pr img)"
proof -
  have "unat lba * unat ss < 2 ^ 64 \<and> 92 \<le> unat ss" if "(ss, lba) \<in> set (gpt_candidates img)" for ss lba
  proof -
    have "ss = 512 \<or> ss = 4096" "unat lba * unat ss + unat ss \<le> unat (im_len img)" using gpt_candidates_ok [OF that] by blast+
    moreover from this(1) have "92 \<le> unat ss" by auto
    ultimately show ?thesis using unat_less_u64 [of "im_len img"] by (intro conjI) (auto simp del: unat_numeral)
  qed
  then have "no_panic (discover_gpt (pr_crc pr) img)"
    unfolding discover_gpt_def by (intro no_panic_try_gpt) auto
  then show ?thesis
    using no_panic_discover_mbr no_panic_probe_volume by (auto simp: discover_partitions_def panic_simps split: option.splits)
qed

end

section \<open>Properties\<close>

lemma raw_layout_inside: "512 \<le> im_len src \<Longrightarrow> layout_inside src (raw_layout src)"
  by (simp add: layout_inside_def raw_layout_def word_le_nat_alt)

lemma probe_volume_Inl: "probe_volume pr src l = Inl e \<Longrightarrow> \<not> no_panic (probe_volume pr src l)"
  by (auto simp: probe_volume_def result_simps split: sum.splits error.splits if_splits option.splits)

lemma probe_succeeds: "image_contract img content \<Longrightarrow> \<exists>v. probe_volume pr img l = Inr v"
  using image_contract.no_panic_probe_volume [of img content pr l] probe_volume_Inl [of pr img l] by (cases "probe_volume pr img l") auto

lemma probed_range: "probe_volume pr src l = Inr v \<Longrightarrow> vi_offset v = pl_offset l \<and> vi_length v = pl_length l"
  by (auto simp: probe_volume_def make_volume_info_def result_simps split: sum.splits error.splits if_splits option.splits)

lemma inspected_volumes_inside:
  assumes "inspect_source_at pr src path image_offset image_length = Inr ss" and "v \<in> set (is_volumes ss)"
  shows "\<exists>l. layout_inside (is_source ss) l \<and> vi_offset v = pl_offset l \<and> vi_length v = pl_length l"
proof -
  let ?ls = "\<lambda>found. if found = [] then [raw_layout (is_source ss)] else found"
  from assms(1) obtain found where found: "discover_partitions pr (is_source ss) = Inr found"
    and vs: "try_map (probe_volume pr (is_source ss)) (?ls found) = Inr (is_volumes ss)"
    and big: "\<not> im_len (is_source ss) < 512"
    by (auto simp: inspect_source_at_def Let_def result_simps split: if_splits prod.splits option.splits)
  have "list_all (layout_inside (is_source ss)) (?ls found)"
    using raw_layout_inside discover_partitions_inside [OF found] big by (auto simp: not_less)
  moreover from vs assms(2) obtain l where "l \<in> set (?ls found)" "probe_volume pr (is_source ss) l = Inr v"
    using try_map_source by metis
  ultimately show ?thesis using probed_range by (auto simp: list_all_iff)
qed

text \<open>C29: Whatever a disk image contains, discovering its partitions does not panic, and every
  partition it reports, from a GPT, an MBR or a chain of extended boot records, is a non-empty range
  within the disk, so that its window can be opened.\<close>

theorem discovered_partitions_lie_within_the_disk:
  assumes "image_contract src content"
  shows "no_panic (discover_partitions pr src) \<and>
    (\<forall>partitions. discover_partitions pr src = Inr partitions \<longrightarrow>
       (\<forall>l \<in> set partitions. 0 < unat (pl_length l) \<and> unat (pl_offset l) + unat (pl_length l) \<le> length content \<and>
          sliced_new src (pl_offset l) (pl_length l) = Inr (sliced_image src (pl_offset l) (pl_length l))))"
proof -
  have "layout_inside src l" if "discover_partitions pr src = Inr partitions" "l \<in> set partitions" for partitions l
    using discover_partitions_inside [OF that(1)] that(2) by (simp add: list_all_iff)
  then show ?thesis
    using image_contract.no_panic_discover [OF assms] image_contract.image_len [OF assms] layout_opens
    by (fastforce simp: layout_inside_def)
qed

text \<open>A disk of four sectors with one MBR partition over the last two.\<close>

definition mbr_bytes :: "byte list" where
  "mbr_bytes = replicate 446 0 @ [0, 0, 0, 0, 7, 0, 0, 0, 2, 0, 0, 0, 2, 0, 0, 0] @ replicate 48 0 @ [0x55, 0xaa] @ replicate 1536 0"

definition no_probes :: probes where
  "no_probes = \<lparr>pr_crc = (\<lambda>_. 0), pr_ntfs = (\<lambda>_. False), pr_fat = (\<lambda>_. None), pr_ext4 = (\<lambda>_. False),
     pr_qcow = (\<lambda>_. None), pr_vmdk = (\<lambda>_. None)\<rparr>"

lemma no_probes_filesystem: "probe_volume no_probes src l = Inr v \<Longrightarrow> vi_filesystem v = None"
  by (auto simp: probe_volume_def make_volume_info_def no_probes_def result_simps split: sum.splits error.splits if_splits)

interpretation mbr_drive: reliable_device "short_device 512 mbr_bytes" 512 mbr_bytes
  by (rule short_device_reliable) (simp_all add: mbr_bytes_def)

interpretation mbr_image: complete_image "file_image (short_device 512 mbr_bytes) 512 2048" mbr_bytes
  by (rule mbr_drive.file_image_complete) (simp add: mbr_bytes_def)

theorem discovered_partitions_lie_within_the_disk_witness:
  "\<exists>l. discover_partitions no_probes (file_image (short_device 512 mbr_bytes) 512 2048) = Inr [l] \<and> pl_offset l = 1024 \<and> pl_length l = 1024 \<and>
     unat (pl_offset l) + unat (pl_length l) \<le> length mbr_bytes"
proof -
  let ?img = "file_image (short_device 512 mbr_bytes) 512 2048"
  have len: "im_len ?img = 2048" "length mbr_bytes = 2048" by (simp_all add: file_image_def mbr_bytes_def)
  have read: "im_read ?img off n = Inr (slice mbr_bytes (unat off) (unat off + n))" if "unat off + n \<le> 2048" for off n
    using mbr_image.image_complete [of off n] mbr_image.image_read [of n off] that len by fastforce
  have "hd (replicate 8 (0 :: byte)) \<noteq> hd (bytes_of_chars ''EFI PART'')" by simp
  then have "replicate 8 (0 :: byte) \<noteq> bytes_of_chars ''EFI PART''" by metis
  then have blank: "slice mbr_bytes 512 520 \<noteq> bytes_of_chars ''EFI PART''" "slice mbr_bytes 1536 1544 \<noteq> bytes_of_chars ''EFI PART''"
    by (simp_all add: mbr_bytes_def slice_def)
  have gpt: "discover_gpt (pr_crc no_probes) ?img = Inr None"
    using blank by (simp add: discover_gpt_def gpt_candidates_def len saturating_mul_def word_less_nat_alt read)
  obtain info where info: "probe_volume no_probes ?img (raw_layout ?img) = Inr info"
    using probe_succeeds [OF mbr_image.image_contract_axioms] by blast
  note raw = info no_probes_filesystem [OF info]
  let ?sector = "slice mbr_bytes 0 512"
  have sector: "slice ?sector 510 512 = [0x55, 0xaa]" "slice ?sector 446 462 = [0, 0, 0, 0, 7, 0, 0, 0, 2, 0, 0, 0, 2, 0, 0, 0]"
    "slice ?sector 462 478 = replicate 16 0" "slice ?sector 478 494 = replicate 16 0" "slice ?sector 494 510 = replicate 16 0"
    by (simp_all add: mbr_bytes_def slice_def)
  have entries: "[0 ..< 4] = [0, 1, 2, 3 :: nat]" by (simp add: upt_rec)
  let ?e = "[0, 0, 0, 0, 7, 0, 0, 0, 2, 0, 0, 0, 2, 0, 0, 0] :: byte list"
  have lba: "le32 ?e 8 = 2" "le32 ?e 12 = 2" by (simp_all add: le32_def slice_def from_le_bytes_def)
  have zero: "replicate 16 (0 :: byte) ! 4 = 0" by simp
  have "\<exists>l. mbr_layout ?img 1 7 2 2 = Inr l \<and> pl_offset l = 1024 \<and> pl_length l = 1024"
    by (simp add: mbr_layout_def len checked_mul_def checked_add_def word_less_nat_alt)
  then obtain l where l: "mbr_layout ?img 1 7 2 2 = Inr l" "pl_offset l = 1024" "pl_length l = 1024" by blast
  have e0: "mbr_entry ?img ?sector 0 ([], []) = Inr ([l], [])"
    by (simp add: mbr_entry_def index_range_ok sector lba l(1) is_extended_def Let_def len)
  have es: "mbr_entry ?img ?sector 1 st = Inr st" "mbr_entry ?img ?sector 2 st = Inr st" "mbr_entry ?img ?sector 3 st = Inr st" for st
    by (simp_all add: mbr_entry_def index_range_ok sector zero Let_def len split: prod.split del: replicate.simps)
  have rd: "im_read ?img 0 512 = Inr ?sector" using read [of 0 512] by simp
  have mbr: "\<exists>l. discover_mbr ?img = Inr [l] \<and> pl_offset l = 1024 \<and> pl_length l = 1024"
    using e0 es l(2,3) by (simp add: discover_mbr_def len rd sector(1) entries)
  then obtain l where l: "discover_partitions no_probes ?img = Inr [l]" "pl_offset l = 1024" "pl_length l = 1024"
    using gpt raw by (auto simp: discover_partitions_def)
  with discovered_partitions_lie_within_the_disk [OF mbr_image.image_contract_axioms, of no_probes] show ?thesis by auto
qed

end
