(* ===== verification/Pool_Blocks.thy ===== *)
theory Pool_Blocks
  imports Partitions Tree_Extract
begin

text \<open>
  The source and block layer of an offline pool member (src/pool.rs): the file or device behind it,
  LUKS containers, partition tables of whole disks, vdev labels, block pointers, and reading one
  block through its copies, plain or natively encrypted. The \<open>zfs_core\<close> crate, which parses labels,
  block pointers, dnodes and objsets and computes checksums, is the parameter record \<open>zfs_core\<close>: its
  parsed structures are records with the fields and methods the program reads. The \<open>luks\<close> crate is
  the field \<open>pe_luks\<close>, and CRC-32 the field \<open>pe_crc\<close>, of the environment.
\<close>

section \<open>The structures of zfs_core\<close>

datatype endian = LittleEndian | BigEndian

datatype checksum_type =
    ChecksumInherit | ChecksumOn | ChecksumOff | ChecksumLabel | ChecksumGangHeader | ChecksumZilog
  | ChecksumFletcher2 | ChecksumFletcher4 | ChecksumSha256 | ChecksumOther byte

type_synonym words4 = "u64 \<times> u64 \<times> u64 \<times> u64"

record dva =
  dv_empty :: bool
  dv_vdev :: u32
  dv_gang :: bool
  dv_offset :: u64

record blkptr =
  bk_lsize :: nat
  bk_psize :: nat
  bk_hole :: bool
  bk_embedded :: bool
  bk_embedded_payload :: "byte list"
  bk_compression :: byte
  bk_checksum :: byte
  bk_checksum_words :: words4
  bk_byteorder :: endian
  bk_level :: byte
  bk_object_type :: byte
  bk_dvas :: "dva list"

record dnode =
  dn_type :: byte
  dn_bonustype :: byte
  dn_nlevels :: byte
  dn_maxblkid :: u64
  dn_data_block_size :: nat
  dn_indirect_block_size :: nat
  dn_endian :: endian
  dn_bonus :: "byte list"
  dn_blkptrs :: "blkptr list"

record objset_phys =
  op_os_type :: u64
  op_endian :: endian

text \<open>The name/value list of a label, looked up by key.\<close>

datatype config = Config (get_str: "string \<Rightarrow> string option") (get_u64: "string \<Rightarrow> u64 option") (get_nvlist: "string \<Rightarrow> config option")

record vdev_label =
  lb_config :: config
  lb_txg :: u64
  lb_endian :: endian
  lb_rootbp :: blkptr

record zfs_core =
  LABEL_SIZE :: nat
  MAX_BLOCK_SIZE :: nat
  MAX_INDIRECT_LEVELS :: byte
  DMU_OST_META :: u64
  DMU_OST_ZFS :: u64
  label_offsets :: "u64 \<Rightarrow> u64 list \<times> u64 list option"
  label_parse :: "byte list \<Rightarrow> vdev_label option"
  blkptr_parse :: "byte list \<Rightarrow> endian \<Rightarrow> blkptr"
  embedded_data :: "blkptr \<Rightarrow> byte list"
  dnode_parse :: "byte list \<Rightarrow> endian \<Rightarrow> dnode option"
  objset_parse :: "byte list \<Rightarrow> endian \<Rightarrow> objset_phys option"
  checksum_from_raw :: "byte \<Rightarrow> checksum_type"
  checksum_verify :: "checksum_type \<Rightarrow> endian \<Rightarrow> byte list \<Rightarrow> words4 \<Rightarrow> bool option"
  fletcher2 :: "byte list \<Rightarrow> endian \<Rightarrow> words4"
  fletcher4 :: "byte list \<Rightarrow> endian \<Rightarrow> words4"
  sha256_words :: "byte list \<Rightarrow> words4"
  short_read :: "endian \<Rightarrow> byte list \<Rightarrow> nat \<Rightarrow> u64 result"

definition BLKPTR_SIZE :: nat where "BLKPTR_SIZE = 128"
definition DNODE_SIZE :: nat where "DNODE_SIZE = 512"

text \<open>\<open>Reader::u64\<close>: the integer at an offset, in the byte order of the pool. What it does beyond the
  end of the buffer is left to the crate.\<close>

definition word_at :: "endian \<Rightarrow> byte list \<Rightarrow> nat \<Rightarrow> u64" where
  "word_at e bs off = (case e of
     LittleEndian \<Rightarrow> from_le_bytes (slice bs off (off + 8))
   | BigEndian \<Rightarrow> from_be_bytes (slice bs off (off + 8)))"

definition reader_u64 :: "zfs_core \<Rightarrow> endian \<Rightarrow> byte list \<Rightarrow> nat \<Rightarrow> u64 result" where
  "reader_u64 zc e bs off = (if off + 8 \<le> length bs then Inr (word_at e bs off) else short_read zc e bs off)"

text \<open>\<open>match r { Ok(x) => Some(x), Err(_) => None }\<close>, the shape of every loop that goes on after an
  error; a panic is not caught.\<close>

definition attempt :: "'a result \<Rightarrow> 'a option result" where
  "attempt r = (case r of Inr x \<Rightarrow> Inr (Some x) | Inl (Panic m) \<Rightarrow> Inl (Panic m) | Inl _ \<Rightarrow> Inr None)"

lemma attempt_simps [simp]: "attempt (Inr x) = Inr (Some x)" "attempt (Inl (Bail m)) = Inr None"
  "attempt (Inl (Panic m)) = Inl (Panic m)"
  by (simp_all add: attempt_def)

lemma attempt_Some [result_simps]: "attempt r = Inr (Some x) \<longleftrightarrow> r = Inr x"
  by (auto simp: attempt_def split: sum.splits error.splits)

lemma attempt_None: "attempt r = Inr None \<longleftrightarrow> (\<exists>e. r = Inl e) \<and> no_panic r"
  by (auto simp: attempt_def no_panic_Inl split: sum.splits error.splits)

lemma no_panic_attempt [panic_simps]: "no_panic (attempt r) \<longleftrightarrow> no_panic r"
  by (auto simp: attempt_def no_panic_Inl split: sum.splits error.splits)

section \<open>Files and devices\<close>

record 'f file_source =
  so_file :: 'f
  so_block_size :: nat
  so_base_offset :: u64
  so_len :: u64

definition file_source_open :: "zfs_core \<Rightarrow> 'f host \<Rightarrow> 'f registry \<Rightarrow> string \<Rightarrow> 'f file_source result" where
  "file_source_open zc h reg path =
     and_then (map_err (\<lambda>_. Bail ''opening pool member {} read-only'') (open_read_only h reg path)) (\<lambda>f.
     and_then (source_length h f) (\<lambda>len.
     if unat len < 4 * LABEL_SIZE zc then Inl (Bail ''pool member {} is only {len} bytes (too small to contain four ZFS labels)'')
     else and_then (source_block_size h f) (\<lambda>bs.
     Inr \<lparr>so_file = f, so_block_size = bs, so_base_offset = 0, so_len = len\<rparr>)))"

definition file_source_slice :: "zfs_core \<Rightarrow> 'f host \<Rightarrow> 'f file_source \<Rightarrow> u64 \<Rightarrow> u64 \<Rightarrow> 'f file_source result" where
  "file_source_slice zc h s off len =
     and_then (ok_or (checked_add off len) (Bail ''GPT partition {number} byte range overflows'')) (\<lambda>fin.
     if unat len < 4 * LABEL_SIZE zc \<or> fin > so_len s then Inl (Bail ''GPT partition {number} is outside the source bounds'')
     else and_then (map_err IoErr (ho_try_clone h (so_file s))) (\<lambda>f.
     and_then (ok_or (checked_add (so_base_offset s) off) (Bail ''GPT partition base offset overflows'')) (\<lambda>base.
     Inr \<lparr>so_file = f, so_block_size = so_block_size s, so_base_offset = base, so_len = len\<rparr>)))"

definition file_source_read :: "('f \<Rightarrow> device) \<Rightarrow> 'f file_source \<Rightarrow> u64 \<Rightarrow> nat \<Rightarrow> byte list result" where
  "file_source_read dv s off n =
     and_then (ok_or (checked_add off (of_nat n)) (Bail ''pool-member read offset overflow'')) (\<lambda>fin.
     if fin > so_len s then Inl (Bail ''read [{offset}, {end}) is outside {} ({} bytes)'')
     else and_then (ok_or (checked_add (so_base_offset s) off) (Bail ''pool-member physical read offset overflow'')) (\<lambda>physical.
     case device_read_exact_at (dv (so_file s)) (so_block_size s) physical n [] of
       None \<Rightarrow> Inl (Panic ''the read does not end'')
     | Some (log, r) \<Rightarrow> map_err (with_context ''reading {} from {}'') r))"

definition file_source_image :: "('f \<Rightarrow> device) \<Rightarrow> 'f file_source \<Rightarrow> image" where
  "file_source_image dv s = \<lparr>im_len = so_len s, im_read = file_source_read dv s\<rparr>"

text \<open>The cursor that hands a source to the LUKS crate.\<close>

definition file_cursor_read :: "cursor \<Rightarrow> nat \<Rightarrow> cursor \<times> byte list result" where
  "file_cursor_read c n =
     (if n = 0 \<or> cu_position c \<ge> im_len (cu_source c) then (c, Inr [])
      else let count = min (unat (im_len (cu_source c) - cu_position c)) n in
        case im_read (cu_source c) (cu_position c) count of
          Inl e \<Rightarrow> (c, Inl e)
        | Inr bytes \<Rightarrow> (c\<lparr>cu_position := cu_position c + of_nat count\<rparr>, Inr bytes))"

definition file_cursor_seek :: "cursor \<Rightarrow> seek_from \<Rightarrow> cursor \<times> u64 result" where
  "file_cursor_seek c from =
     (let target = (case from of
            SeekStart v \<Rightarrow> uint v
          | SeekCurrent v \<Rightarrow> uint (cu_position c) + v
          | SeekEnd v \<Rightarrow> uint (im_len (cu_source c)) + v)
      in if target < 0 \<or> target > uint (im_len (cu_source c))
         then (c, Inl (Bail ''seek is outside the bounded pool source''))
         else (c\<lparr>cu_position := word_of_int target\<rparr>, Inr (word_of_int target)))"

section \<open>LUKS containers\<close>

record luks_payload =
  lk_version :: nat
  lk_cipher_name :: string
  lk_cipher_mode :: string
  lk_key_bytes :: nat
  lk_sector_size :: nat
  lk_payload_size :: u64
  lk_read_at :: "u64 \<Rightarrow> nat \<Rightarrow> byte list option"

definition luks_image :: "luks_payload \<Rightarrow> image" where
  "luks_image p = \<lparr>im_len = lk_payload_size p, im_read = (\<lambda>off n.
     and_then (ok_or (checked_add off (of_nat n)) (Bail ''LUKS payload read offset overflows'')) (\<lambda>fin.
     if fin > lk_payload_size p then Inl (Bail ''LUKS payload read [{offset}, {end}) exceeds {} bytes'')
     else ok_or (lk_read_at p off n) (Bail ''reading decrypted LUKS payload: {error}'')))\<rparr>"

definition is_luks :: "image \<Rightarrow> bool result" where
  "is_luks src = and_then (attempt (im_read src 0 6)) (\<lambda>magic. Inr (magic = Some [0x4c, 0x55, 0x4b, 0x53, 0xba, 0xbe]))"

definition display_nat :: "nat \<Rightarrow> string" where
  "display_nat n = decimal_digits 20 n"

definition unlock_luks :: "(cursor \<Rightarrow> byte list \<Rightarrow> luks_payload option) \<Rightarrow> image \<Rightarrow> byte list \<Rightarrow> (image \<times> string) result" where
  "unlock_luks luks src passphrase =
     (if passphrase = [] then Inl (Bail ''the LUKS container passphrase is empty'')
      else and_then (ok_or (luks (cursor_new src) passphrase) (Bail ''unlocking LUKS container: {error}'')) (\<lambda>p.
      Inr (luks_image p,
        ''LUKS'' @ display_nat (lk_version p) @ '' '' @ lk_cipher_name p @ ''-'' @ lk_cipher_mode p @ '' ('' @
        display_nat (lk_key_bytes p) @ ''-byte key, '' @ display_nat (lk_sector_size p) @ ''-byte sectors)'')))"

section \<open>Labels\<close>

definition read_labels :: "zfs_core \<Rightarrow> image \<Rightarrow> (u64 \<times> vdev_label) list result" where
  "read_labels zc src =
     (let (front, back) = label_offsets zc (im_len src) in
      try_fold (\<lambda>off parsed.
        and_then (attempt (im_read src off (LABEL_SIZE zc))) (\<lambda>bytes.
        case Option.bind bytes (label_parse zc) of
          None \<Rightarrow> Inr parsed
        | Some label \<Rightarrow> Inr (parsed @ [(off, label)]))) [] (front @ (case back of None \<Rightarrow> [] | Some offs \<Rightarrow> offs)))"

section \<open>Partitions of a whole disk\<close>

record gpt_partition =
  gp_number :: nat
  gp_offset :: u64
  gp_length :: u64

definition pool_mbr_entry :: "image \<Rightarrow> byte list \<Rightarrow> nat \<Rightarrow> gpt_partition list \<Rightarrow> gpt_partition list result" where
  "pool_mbr_entry src sector index partitions =
     (let entry = slice sector (446 + index * 16) (446 + (index + 1) * 16); partition_type = entry ! 4 in
      if partition_type = 0 \<or> partition_type = 0xee then Inr partitions
      else let first_lba = ucast (le32 entry 8) :: u64; sectors = ucast (le32 entry 12) :: u64 in
      if first_lba = 0 \<or> sectors = 0 then Inr partitions
      else and_then (ok_or (checked_mul first_lba 512) (Bail ''MBR partition {} offset overflows'')) (\<lambda>off.
      and_then (ok_or (checked_mul sectors 512) (Bail ''MBR partition {} length overflows'')) (\<lambda>len.
      and_then (ok_or (checked_add off len) (Bail ''MBR partition {} end overflows'')) (\<lambda>fin.
      Inr (if fin \<le> im_len src then partitions @ [\<lparr>gp_number = index + 1, gp_offset = off, gp_length = len\<rparr>] else partitions)))))"

definition mbr_partitions :: "image \<Rightarrow> gpt_partition list result" where
  "mbr_partitions src =
     and_then (map_err (with_context ''reading MBR sector'') (im_read src 0 512)) (\<lambda>sector.
     if slice sector 510 512 \<noteq> [0x55, 0xaa] then Inl (Bail ''MBR signature is absent'')
     else try_fold (pool_mbr_entry src sector) [] [0 ..< 4])"

definition MAX_GPT_TABLE_BYTES :: nat where "MAX_GPT_TABLE_BYTES = 64 * 1024 * 1024"

definition little_u32 :: "byte list \<Rightarrow> nat \<Rightarrow> u32 result" where
  "little_u32 bs off = and_then (ok_or (get_range bs off (off + 4)) (Bail ''truncated GPT u32 at byte {offset}'')) (\<lambda>v. Inr (from_le_bytes v))"

definition little_u64 :: "byte list \<Rightarrow> nat \<Rightarrow> u64 result" where
  "little_u64 bs off = and_then (ok_or (get_range bs off (off + 8)) (Bail ''truncated GPT u64 at byte {offset}'')) (\<lambda>v. Inr (from_le_bytes v))"

definition pool_gpt_entry :: "image \<Rightarrow> u64 \<Rightarrow> nat \<times> byte list \<Rightarrow> gpt_partition list \<Rightarrow> gpt_partition list result" where
  "pool_gpt_entry src sector_size = (\<lambda>(index, entry) partitions.
     if list_all (\<lambda>b. b = 0) (take 16 entry) then Inr partitions
     else and_then (little_u64 entry 32) (\<lambda>first_lba.
     and_then (little_u64 entry 40) (\<lambda>last_lba.
     if first_lba = 0 \<or> last_lba < first_lba then Inr partitions
     else and_then (ok_or (checked_mul first_lba sector_size) (Bail ''GPT partition {} offset overflows'')) (\<lambda>off.
     and_then (ok_or (checked_add (last_lba - first_lba) 1) (Bail ''GPT partition {} length overflows'')) (\<lambda>sectors.
     and_then (ok_or (checked_mul sectors sector_size) (Bail ''GPT partition {} byte length overflows'')) (\<lambda>len.
     and_then (ok_or (checked_add off len) (Bail ''GPT partition {} end overflows'')) (\<lambda>fin.
     Inr (if fin \<le> im_len src then partitions @ [\<lparr>gp_number = index + 1, gp_offset = off, gp_length = len\<rparr>] else partitions))))))))"

text \<open>The GPT at one sector size; \<open>None\<close> where the loop continues with the next size.\<close>

definition gpt_table :: "(byte list \<Rightarrow> u32) \<Rightarrow> image \<Rightarrow> u64 \<Rightarrow> gpt_partition list option result" where
  "gpt_table crc src sector_size =
     (if im_len src < saturating_mul sector_size 3 then Inr None
      else and_then (attempt (im_read src sector_size (unat sector_size))) (\<lambda>r.
      case r of
        None \<Rightarrow> Inr None
      | Some sector \<Rightarrow>
          if take 8 sector \<noteq> bytes_of_chars ''EFI PART'' then Inr None
          else and_then (little_u32 sector 12) (\<lambda>header_size.
          if \<not> (92 \<le> unat header_size \<and> unat header_size \<le> length sector) then Inr None
          else and_then (little_u32 sector 16) (\<lambda>expected_header_crc.
          if crc (fill_range 16 20 0 (take (unat header_size) sector)) \<noteq> expected_header_crc then Inr None
          else and_then (little_u64 sector 72) (\<lambda>entries_lba.
          and_then (little_u32 sector 80) (\<lambda>entry_count.
          and_then (little_u32 sector 84) (\<lambda>entry_size.
          and_then (little_u32 sector 88) (\<lambda>expected_entries_crc.
          if entry_count = 0 \<or> \<not> (128 \<le> unat entry_size \<and> unat entry_size \<le> 4096) \<or> unat entry_size mod 8 \<noteq> 0 then Inr None
          else let table_size = unat entry_count * unat entry_size in
          if table_size > MAX_GPT_TABLE_BYTES then Inl (Bail ''GPT partition table exceeds the 64 MiB safety limit'')
          else and_then (ok_or (checked_mul entries_lba sector_size) (Bail ''GPT partition table offset overflows'')) (\<lambda>table_offset.
          and_then (map_err (with_context ''reading GPT partition entries'') (im_read src table_offset table_size)) (\<lambda>table.
          if crc table \<noteq> expected_entries_crc then Inr None
          else and_then (try_fold (pool_gpt_entry src sector_size) []
                 (zip [0 ..< length (chunks_exact (unat entry_size) table)] (chunks_exact (unat entry_size) table)))
                 (\<lambda>partitions. Inr (Some partitions))))))))))))"

definition gpt_partitions :: "(byte list \<Rightarrow> u32) \<Rightarrow> image \<Rightarrow> gpt_partition list result" where
  "gpt_partitions crc src =
     and_then (gpt_table crc src 512) (\<lambda>r. case r of Some ps \<Rightarrow> Inr ps | None \<Rightarrow>
     and_then (gpt_table crc src 4096) (\<lambda>r. case r of Some ps \<Rightarrow> Inr ps | None \<Rightarrow>
     Inl (Bail ''no valid GPT header was found ({})'')))"

text \<open>\<open>gpt_partitions(..).or_else(|_| mbr_partitions(..)).unwrap_or_default()\<close>.\<close>

definition disk_partitions :: "(byte list \<Rightarrow> u32) \<Rightarrow> image \<Rightarrow> gpt_partition list result" where
  "disk_partitions crc src =
     and_then (attempt (gpt_partitions crc src)) (\<lambda>r. case r of Some ps \<Rightarrow> Inr ps | None \<Rightarrow>
     and_then (attempt (mbr_partitions src)) (\<lambda>r. case r of Some ps \<Rightarrow> Inr ps | None \<Rightarrow> Inr []))"

section \<open>Block pointers\<close>

record pool_block_pointer =
  pb_pointer :: blkptr
  pb_raw :: "byte list"
  pb_endian :: endian

definition correct_embedded_payload :: "byte list \<Rightarrow> endian \<Rightarrow> blkptr \<Rightarrow> blkptr" where
  "correct_embedded_payload raw e p =
     (if \<not> bk_embedded p then p
      else snd (fold (\<lambda>word (out, p).
        if word = 6 \<or> word = 10 then (out, p)
        else (out + 8, p\<lparr>bk_embedded_payload := blit out (le_bytes 8 (unat (word_at e raw (word * 8)))) (bk_embedded_payload p)\<rparr>))
        [0 ..< 16] (0, p)))"

definition parse_blkptr :: "zfs_core \<Rightarrow> byte list \<Rightarrow> endian \<Rightarrow> blkptr" where
  "parse_blkptr zc raw e = correct_embedded_payload raw e (blkptr_parse zc raw e)"

definition pool_pointer_parse :: "zfs_core \<Rightarrow> byte list \<Rightarrow> endian \<Rightarrow> pool_block_pointer result" where
  "pool_pointer_parse zc raw e =
     and_then (ok_or (get_range raw 0 BLKPTR_SIZE) (Bail ''truncated on-disk block pointer'')) (\<lambda>bytes.
     Inr \<lparr>pb_pointer = parse_blkptr zc bytes e, pb_raw = bytes, pb_endian = e\<rparr>)"

definition blkptr_uses_crypt :: "byte list \<Rightarrow> endian \<Rightarrow> bool" where
  "blkptr_uses_crypt raw e \<longleftrightarrow> word_at e raw 48 AND push_bit 61 1 \<noteq> 0"

definition uses_crypt :: "pool_block_pointer \<Rightarrow> bool" where
  "uses_crypt p = blkptr_uses_crypt (pb_raw p) (pb_endian p)"

section \<open>Reading a block\<close>

definition DMU_OT_DNODE :: byte where "DMU_OT_DNODE = 10"
definition DMU_OT_OBJSET :: byte where "DMU_OT_OBJSET = 11"

definition unsupported_checksum :: "checksum_type \<Rightarrow> bool" where
  "unsupported_checksum c \<longleftrightarrow> (case c of
     ChecksumInherit \<Rightarrow> True | ChecksumOn \<Rightarrow> True | ChecksumOther _ \<Rightarrow> True | ChecksumLabel \<Rightarrow> True
   | ChecksumGangHeader \<Rightarrow> True | ChecksumZilog \<Rightarrow> True | _ \<Rightarrow> False)"

text \<open>The loop over the copies of a block: the first readable one is the block.\<close>

fun first_copy :: "string \<Rightarrow> (dva \<Rightarrow> byte list option result) \<Rightarrow> dva list \<Rightarrow> byte list result" where
  "first_copy m read_copy [] = Inl (Bail m)"
| "first_copy m read_copy (dva # dvas) =
     and_then (read_copy dva) (\<lambda>r. case r of Some data \<Rightarrow> Inr data | None \<Rightarrow> first_copy m read_copy dvas)"

definition addressable :: "u32 \<Rightarrow> dva \<Rightarrow> bool" where
  "addressable expected_vdev dva \<longleftrightarrow> \<not> dv_empty dva \<and> dv_vdev dva = expected_vdev \<and> \<not> dv_gang dva"

definition plain_copy :: "zfs_core \<Rightarrow> codecs \<Rightarrow> image \<Rightarrow> u32 \<Rightarrow> blkptr \<Rightarrow> dva \<Rightarrow> byte list option result" where
  "plain_copy zc z src expected_vdev p dva =
     (if \<not> addressable expected_vdev dva then Inr None
      else and_then (attempt (im_read src (dv_offset dva) (bk_psize p))) (\<lambda>r.
      case r of
        None \<Rightarrow> Inr None
      | Some raw \<Rightarrow>
          if checksum_verify zc (checksum_from_raw zc (bk_checksum p)) (bk_byteorder p) raw (bk_checksum_words p) = Some False
          then Inr None
          else attempt (decompress_block z (bk_compression p) raw (of_nat (bk_lsize p)))))"

definition read_block_from :: "zfs_core \<Rightarrow> codecs \<Rightarrow> image \<Rightarrow> u32 \<Rightarrow> blkptr \<Rightarrow> byte list result" where
  "read_block_from zc z src expected_vdev p =
     (if bk_lsize p = 0 \<or> bk_lsize p > MAX_BLOCK_SIZE zc
      then Inl (Bail ''block logical size {logical_size} is outside the supported 1..={MAX_BLOCK_SIZE} range'')
      else if bk_embedded p then decompress_block z (bk_compression p) (embedded_data zc p) (of_nat (bk_lsize p))
      else if bk_hole p then Inr (replicate (bk_lsize p) 0)
      else if bk_psize p = 0 \<or> bk_psize p > MAX_BLOCK_SIZE zc
      then Inl (Bail ''block physical size {physical_size} is outside the safety limit'')
      else if unsupported_checksum (checksum_from_raw zc (bk_checksum p))
      then Inl (Bail ''unsupported on-disk checksum function {}'')
      else first_copy ''no readable copy of block pointer: {}'' (plain_copy zc z src expected_vdev p) (bk_dvas p))"

definition pool_crypt_params :: "byte list \<Rightarrow> byte list \<times> byte list \<times> byte list" where
  "pool_crypt_params raw = (slice raw 32 40, slice raw 40 48 @ slice raw 92 96, slice raw 112 128)"

definition indirect_mac :: "crypto \<Rightarrow> byte list \<Rightarrow> u64 \<Rightarrow> byte list result" where
  "indirect_mac k block crypto_version =
     (if length block mod BLKPTR_SIZE \<noteq> 0 then Inl (Bail ''encrypted indirect block is not a block-pointer array'')
      else and_then (try_map (\<lambda>pointer. pool_block_pointer_auth pointer crypto_version) (chunks_exact BLKPTR_SIZE block)) (\<lambda>auths.
      Inr (take 16 (sha512 k (concat auths)))))"

text \<open>The checksum of the stored bytes. Weak checksums fold the discarded half into the kept one.\<close>

definition physical_checksum :: "zfs_core \<Rightarrow> checksum_type \<Rightarrow> endian \<Rightarrow> byte \<Rightarrow> byte list \<Rightarrow> words4 option result" where
  "physical_checksum zc ck byteorder object_type raw =
     (let weak = (\<lambda>(a, b, c, d). if object_type \<noteq> DMU_OT_OBJSET then (a XOR c, b XOR d, c, d) else (a, b, c, d)) in
      case ck of
        ChecksumOff \<Rightarrow> Inr None
      | ChecksumFletcher2 \<Rightarrow> Inr (Some (weak (fletcher2 zc raw byteorder)))
      | ChecksumFletcher4 \<Rightarrow> Inr (Some (weak (fletcher4 zc raw byteorder)))
      | ChecksumSha256 \<Rightarrow> Inr (Some (sha256_words zc raw))
      | _ \<Rightarrow> Inl (Panic ''unsupported checksums were rejected above''))"

definition checksum_matches :: "byte \<Rightarrow> words4 option \<Rightarrow> words4 \<Rightarrow> bool" where
  "checksum_matches object_type computed stored = (case computed of
     None \<Rightarrow> True
   | Some (a, b, c, d) \<Rightarrow>
       (case stored of (a', b', c', d') \<Rightarrow>
          if object_type = DMU_OT_OBJSET then (a, b, c, d) = (a', b', c', d') else a = a' \<and> b = b'))"

definition body_encrypted :: "blkptr \<Rightarrow> bool" where
  "body_encrypted p \<longleftrightarrow> bk_level p = 0 \<and> is_encrypted_object_type (ucast (bk_object_type p))"

definition unprotect :: "crypto \<Rightarrow> dataset_key \<Rightarrow> pool_block_pointer \<Rightarrow> byte list \<Rightarrow> byte list result" where
  "unprotect k key p raw =
     (if body_encrypted (pb_pointer p) then
        (let (salt, iv, mac) = pool_crypt_params (pb_raw p) in
         if bk_object_type (pb_pointer p) = DMU_OT_DNODE then decrypt_pool_dnode_block k key salt iv mac raw
         else decrypt_block k key salt iv mac [] raw)
      else if bk_level (pb_pointer p) = 0 \<and> bk_object_type (pb_pointer p) \<noteq> DMU_OT_OBJSET then
        and_then (map_err (with_context ''authenticating native-encrypted ZFS metadata'')
          (authenticate_block k key raw (slice (pb_raw p) 112 128))) (\<lambda>_. Inr raw)
      else Inr raw)"

definition encrypted_copy ::
  "zfs_core \<Rightarrow> codecs \<Rightarrow> crypto \<Rightarrow> image \<Rightarrow> u32 \<Rightarrow> pool_block_pointer \<Rightarrow> dataset_key \<Rightarrow> dva \<Rightarrow> byte list option result" where
  "encrypted_copy zc z k src expected_vdev pointer key dva =
     (let p = pb_pointer pointer in
      if \<not> addressable expected_vdev dva then Inr None
      else and_then (attempt (im_read src (dv_offset dva) (bk_psize p))) (\<lambda>r.
      case r of
        None \<Rightarrow> Inr None
      | Some raw \<Rightarrow>
          and_then (physical_checksum zc (checksum_from_raw zc (bk_checksum p)) (bk_byteorder p) (bk_object_type p) raw) (\<lambda>computed.
          if \<not> checksum_matches (bk_object_type p) computed (bk_checksum_words p) then Inr None
          else and_then (attempt (and_then (unprotect k key pointer raw) (\<lambda>protected.
                 decompress_block z (bk_compression p) protected (of_nat (bk_lsize p))))) (\<lambda>r.
          case r of
            None \<Rightarrow> Inr None
          | Some decoded \<Rightarrow>
              if bk_level p > 0 then
                and_then (indirect_mac k decoded (dk_crypto_version key)) (\<lambda>digest.
                Inr (if digest \<noteq> slice (pb_raw pointer) 112 128 then None else Some decoded))
              else Inr (Some decoded)))))"

definition read_pool_block_from ::
  "zfs_core \<Rightarrow> codecs \<Rightarrow> crypto \<Rightarrow> image \<Rightarrow> u32 \<Rightarrow> pool_block_pointer \<Rightarrow> dataset_key option \<Rightarrow> byte list result" where
  "read_pool_block_from zc z k src expected_vdev pointer key =
     (let p = pb_pointer pointer in
      if \<not> uses_crypt pointer then read_block_from zc z src expected_vdev p
      else and_then (ok_or key (Bail ''native-encrypted ZFS block requires a dataset key'')) (\<lambda>key.
      if bk_lsize p = 0 \<or> bk_lsize p > MAX_BLOCK_SIZE zc
      then Inl (Bail ''encrypted block logical size {logical_size} is outside the safety limit'')
      else if bk_psize p = 0 \<or> bk_psize p > MAX_BLOCK_SIZE zc
      then Inl (Bail ''encrypted block physical size {physical_size} is outside the safety limit'')
      else if bk_embedded p \<or> bk_hole p
      then Inl (Bail ''native-encrypted block pointer has an invalid embedded/hole layout'')
      else if unsupported_checksum (checksum_from_raw zc (bk_checksum p))
      then Inl (Bail ''unsupported on-disk checksum function {}'')
      else first_copy ''no readable copy of native-encrypted block pointer: {}'' (encrypted_copy zc z k src expected_vdev pointer key)
             (take (if body_encrypted p then 2 else 3) (bk_dvas p))))"

definition verify_objset_mac :: "crypto \<Rightarrow> byte list \<Rightarrow> endian \<Rightarrow> dataset_key \<Rightarrow> unit result" where
  "verify_objset_mac k raw e key =
     (if e \<noteq> LittleEndian then Inl (Bail ''native-encrypted big-endian objset authentication is unsupported'')
      else if length raw < 752 then Inl (Bail ''encrypted objset is too short to contain its portable MAC'')
      else let pointer_end = 64 + unat (raw ! 3) * BLKPTR_SIZE in
      if pointer_end > 512 then Inl (Bail ''encrypted objset meta-dnode has invalid block pointers'')
      else let core = fill_range 24 32 0 ((take 64 raw)[7 := raw ! 7 AND 4]) in
      and_then (try_map (\<lambda>pointer. pool_block_pointer_auth pointer (dk_crypto_version key))
         (chunks_exact BLKPTR_SIZE (slice raw 64 pointer_end))) (\<lambda>pointer_auths.
      and_then (if raw ! 7 AND 4 \<noteq> 0
         then pool_block_pointer_auth (slice raw (512 - BLKPTR_SIZE) 512) (dk_crypto_version key) else Inr []) (\<lambda>spill_auth.
      map_err (with_context ''encrypted objset portable MAC mismatch'')
        (authenticate_bytes k key
           (rev (le_bytes 8 (unat (word_at e raw 704))) @ le_bytes 8 0 @ core @ concat pointer_auths @ spill_auth)
           (slice raw 720 752)))))"

end
