(* ===== verification/Pool.thy ===== *)
theory Pool
  imports Pool_Blocks
begin

text \<open>
  Browsing an offline pool member (src/pool.rs): dnodes and their indirect blocks, the DSL directory
  tree with its datasets and snapshots, native encryption parameters, path lookup and directory
  listings in a dataset, extraction of files and trees, and the reader that shows a file of the pool
  as a disk image. The SA and ZAP decoders of \<open>zfs_core\<close> are fields of the record \<open>pool_lib\<close>.
\<close>

section \<open>Parameters and records\<close>

record ('r, 'l, 'i, 'v) pool_lib =
  pl_core :: zfs_core
  pl_codecs :: codecs
  pl_crypto :: crypto
  pl_zpl :: "('r, 'l, 'i, 'v) zpl_lib"
  zap_list_arrays :: "byte list \<Rightarrow> (string \<times> byte list) list"
  pl_sa_bonus :: "byte list \<Rightarrow> 'r \<Rightarrow> 'l \<Rightarrow> endian \<Rightarrow> ('i, 'v) zpl_attrs option"
  pl_znode :: "byte list \<Rightarrow> endian \<Rightarrow> ('i, 'v) zpl_attrs option"
  pl_default_registry :: 'r
  pl_default_layouts :: 'l

definition MAX_DATASETS :: nat where "MAX_DATASETS = 16384"
definition MAX_SNAPSHOTS_PER_DATASET :: nat where "MAX_SNAPSHOTS_PER_DATASET = 65536"
definition MAX_ZAP_BYTES :: nat where "MAX_ZAP_BYTES = 64 * 1024 * 1024"
definition ZPL_MASTER_NODE_OBJ :: u64 where "ZPL_MASTER_NODE_OBJ = 1"
definition DD_FIELD_CRYPTO_KEY_OBJ :: string where "DD_FIELD_CRYPTO_KEY_OBJ = ''com.datto:crypto_key_obj''"
definition MAX_DSL_PARENT_WALK :: nat where "MAX_DSL_PARENT_WALK = 64"
definition POOL_OT_ZNODE :: byte where "POOL_OT_ZNODE = 17"
definition POOL_OT_SA :: byte where "POOL_OT_SA = 44"

record member_dnode =
  pd_dnode :: dnode
  pd_pointers :: "pool_block_pointer list"

record pool_objset =
  po_objset :: objset_phys
  po_meta_dnode :: member_dnode

record pool_member =
  pm_source :: image
  pm_backup_format :: string
  pm_container_encryption :: "string option"
  pm_pool_name :: string
  pm_pool_guid :: u64
  pm_vdev_guid :: u64
  pm_vdev_type :: string
  pm_top_level_vdevs :: u64
  pm_txg :: u64
  pm_endian :: endian
  pm_mos :: pool_objset

record dataset_info =
  di_name :: string
  di_dsl_dir_object :: u64
  di_head_dataset_object :: u64
  di_head_guid :: string

record pool_snapshot =
  ps_dataset :: string
  ps_name :: string
  ps_full_name :: string
  ps_dataset_object :: u64
  ps_guid :: string
  ps_creation_txg :: u64
  ps_creation_time :: u64

record pool_inspection =
  pi_backup_format :: string
  pi_container_encryption :: "string option"
  pi_pool_name :: string
  pi_pool_guid :: string
  pi_vdev_guid :: string
  pi_vdev_type :: string
  pi_top_level_vdevs :: u64
  pi_source_bytes :: u64
  pi_txg :: u64
  pi_endian :: string
  pi_datasets :: nat
  pi_snapshots :: nat

record ('r, 'l) dataset_view_state =
  vw_zpl :: pool_objset
  vw_registry :: 'r
  vw_layouts :: 'l
  vw_root_id :: u64
  vw_snapshot_guid :: "u64 option"
  vw_key :: "dataset_key option"

record resolved_pool_path =
  rq_normalized_path :: string
  rq_object_id :: u64
  rq_dirent_type :: byte
  rq_logical_size :: u64
  rq_dnode :: member_dnode

record pool_extraction =
  px_path :: string
  px_object_id :: u64
  px_logical_size :: u64
  px_sha256 :: string
  px_sidecar_written :: bool

section \<open>Dnodes and their data\<close>

definition pool_dnode_parse :: "zfs_core \<Rightarrow> byte list \<Rightarrow> endian \<Rightarrow> member_dnode result" where
  "pool_dnode_parse zc raw e =
     and_then (ok_or (dnode_parse zc raw e) (Bail ''on-disk dnode is truncated'')) (\<lambda>dn.
     and_then (try_map (\<lambda>index.
         let off = 64 + index * BLKPTR_SIZE in
         and_then (ok_or (get_range raw off (off + BLKPTR_SIZE)) (Bail ''dnode block pointer {index} is truncated'')) (\<lambda>bytes.
         pool_pointer_parse zc bytes e)) [0 ..< length (dn_blkptrs dn)]) (\<lambda>pointers.
     Inr \<lparr>pd_dnode = dn\<lparr>dn_blkptrs := map pb_pointer pointers\<rparr>, pd_pointers = pointers\<rparr>))"

definition pool_objset_parse :: "zfs_core \<Rightarrow> byte list \<Rightarrow> endian \<Rightarrow> pool_objset result" where
  "pool_objset_parse zc raw e =
     and_then (ok_or (objset_parse zc raw e) (Bail ''decoding objset'')) (\<lambda>os.
     and_then (pool_dnode_parse zc raw e) (\<lambda>meta. Inr \<lparr>po_objset = os, po_meta_dnode = meta\<rparr>))"

text \<open>\<open>trailing_zeros\<close> of a \<open>usize\<close>, and the shift right of the release profile, which has no overflow checks:
  the shift amount is taken modulo 64.\<close>

fun trailing_zeros :: "nat \<Rightarrow> nat" where
  "trailing_zeros n = (if n = 0 then 64 else if odd n then 0 else Suc (trailing_zeros (n div 2)))"

declare trailing_zeros.simps [simp del]

definition shr_u64 :: "u64 \<Rightarrow> nat \<Rightarrow> u64" where
  "shr_u64 v n = drop_bit (n mod 64) v"

fun indirect_walk ::
  "('r, 'l, 'i, 'v) pool_lib \<Rightarrow> image \<Rightarrow> dataset_key option \<Rightarrow> dnode \<Rightarrow> u64 \<Rightarrow> nat \<Rightarrow> nat \<Rightarrow> nat \<Rightarrow> pool_block_pointer \<Rightarrow> byte list result" where
  "indirect_walk pl src key dn block_id pointers shift 0 pointer =
     (if bk_hole (pb_pointer pointer) then Inr (replicate (dn_data_block_size dn) 0)
      else read_pool_block_from (pl_core pl) (pl_codecs pl) (pl_crypto pl) src 0 pointer key)"
| "indirect_walk pl src key dn block_id pointers shift (Suc level) pointer =
     (if bk_hole (pb_pointer pointer) then Inr (replicate (dn_data_block_size dn) 0)
      else and_then (read_pool_block_from (pl_core pl) (pl_codecs pl) (pl_crypto pl) src 0 pointer key) (\<lambda>block.
      let child_index = unat (shr_u64 block_id (level * shift) AND (of_nat pointers - 1)); off = child_index * BLKPTR_SIZE in
      and_then (ok_or (get_range block off (off + BLKPTR_SIZE)) (Bail ''indirect child pointer {child_index} is truncated'')) (\<lambda>child.
      and_then (pool_pointer_parse (pl_core pl) child (dn_endian dn)) (\<lambda>pointer.
      indirect_walk pl src key dn block_id pointers shift level pointer))))"

definition read_dnode_data_with_key ::
  "('r, 'l, 'i, 'v) pool_lib \<Rightarrow> image \<Rightarrow> member_dnode \<Rightarrow> u64 \<Rightarrow> dataset_key option \<Rightarrow> byte list result" where
  "read_dnode_data_with_key pl src md block_id key =
     (let dn = pd_dnode md in
      if dn_nlevels dn = 0 \<or> dn_nlevels dn > MAX_INDIRECT_LEVELS (pl_core pl)
      then Inl (Bail ''unsupported dnode indirection level {} (supported 1..={MAX_INDIRECT_LEVELS})'')
      else if block_id > dn_maxblkid dn then Inl (Bail ''logical block {block_id} exceeds dnode maximum {}'')
      else let pointers = max (dn_indirect_block_size dn div BLKPTR_SIZE) 1 in
      if \<not> is_power_of_two pointers then Inl (Bail ''dnode indirect block has a non-power-of-two pointer count'')
      else let shift = trailing_zeros pointers; top_level = unat (dn_nlevels dn) - 1; top = shr_u64 block_id (top_level * shift) in
      if \<not> unat top < length (pd_pointers md)
      then Inl (Bail ''logical block {block_id} selects absent top block pointer {top_index}'')
      else indirect_walk pl src key dn block_id pointers shift top_level (pd_pointers md ! unat top))"

definition dnode_with_key ::
  "('r, 'l, 'i, 'v) pool_lib \<Rightarrow> image \<Rightarrow> pool_objset \<Rightarrow> u64 \<Rightarrow> dataset_key option \<Rightarrow> member_dnode option result" where
  "dnode_with_key pl src os object_id key =
     (let meta = po_meta_dnode os; block_size = dn_data_block_size (pd_dnode meta) in
      if block_size < DNODE_SIZE then Inr None
      else let per_block = block_size div DNODE_SIZE; block_id = unat object_id div per_block in
      if block_id > unat (dn_maxblkid (pd_dnode meta)) then Inr None
      else let within = (unat object_id mod per_block) * DNODE_SIZE in
      and_then (read_dnode_data_with_key pl src meta (of_nat block_id) key) (\<lambda>block.
      if within > length block then Inl (Bail ''dnode object {object_id} starts outside its meta-dnode block'')
      else and_then (map_err (with_context ''decoding dnode object {object_id}'')
        (pool_dnode_parse (pl_core pl) (drop within block) (op_endian (po_objset os)))) (\<lambda>md.
      Inr (if dn_type (pd_dnode md) \<noteq> 0 then Some md else None))))"

definition read_zap_object_with_key ::
  "('r, 'l, 'i, 'v) pool_lib \<Rightarrow> image \<Rightarrow> member_dnode \<Rightarrow> dataset_key option \<Rightarrow> byte list result" where
  "read_zap_object_with_key pl src md key =
     (let block_size = dn_data_block_size (pd_dnode md) in
      if block_size = 0 then Inl (Bail ''ZAP object has a zero block size'')
      else let max_blocks = max (MAX_ZAP_BYTES div block_size) 1;
               requested = min (unat (dn_maxblkid (pd_dnode md)) + 1) (2 ^ 64 - 1) in
      if requested > max_blocks then Inl (Bail ''ZAP object exceeds the {MAX_ZAP_BYTES}-byte safety limit'')
      else and_then (try_map (\<lambda>block_id. read_dnode_data_with_key pl src md (of_nat block_id) key) [0 ..< requested]) (\<lambda>blocks.
      Inr (concat blocks)))"

definition mos_dnode :: "('r, 'l, 'i, 'v) pool_lib \<Rightarrow> pool_member \<Rightarrow> u64 \<Rightarrow> member_dnode option result" where
  "mos_dnode pl m object_id = dnode_with_key pl (pm_source m) (pm_mos m) object_id None"

definition read_zap_object :: "('r, 'l, 'i, 'v) pool_lib \<Rightarrow> pool_member \<Rightarrow> member_dnode \<Rightarrow> byte list result" where
  "read_zap_object pl m md = read_zap_object_with_key pl (pm_source m) md None"

text \<open>A MOS object that has to be there.\<close>

definition mos_object :: "('r, 'l, 'i, 'v) pool_lib \<Rightarrow> pool_member \<Rightarrow> u64 \<Rightarrow> string \<Rightarrow> member_dnode result" where
  "mos_object pl m object_id absent = and_then (mos_dnode pl m object_id) (\<lambda>r. ok_or r (Bail absent))"

definition bonus_u64 :: "('r, 'l, 'i, 'v) pool_lib \<Rightarrow> member_dnode \<Rightarrow> nat \<Rightarrow> u64 result" where
  "bonus_u64 pl md off = reader_u64 (pl_core pl) (dn_endian (pd_dnode md)) (dn_bonus (pd_dnode md)) off"

definition dataset_guid :: "('r, 'l, 'i, 'v) pool_lib \<Rightarrow> member_dnode \<Rightarrow> u64 result" where
  "dataset_guid pl md = bonus_u64 pl md 112"

definition pool_attrs :: "('r, 'l, 'i, 'v) pool_lib \<Rightarrow> dnode \<Rightarrow> 'r \<Rightarrow> 'l \<Rightarrow> ('i, 'v) zpl_attrs option" where
  "pool_attrs pl dn registry layouts =
     (if dn_bonustype dn = POOL_OT_SA then pl_sa_bonus pl (dn_bonus dn) registry layouts (dn_endian dn)
      else if dn_bonustype dn = POOL_OT_ZNODE then pl_znode pl (dn_bonus dn) (dn_endian dn)
      else None)"

definition pool_parse_guid :: "string \<Rightarrow> u64 option" where
  "pool_parse_guid v = Option.bind (strip_prefix ''0x'' v) (from_str_radix 16)"

section \<open>Datasets and snapshots\<close>

text \<open>One DSL directory: the dataset it heads, if any, and the child directories to visit.\<close>

definition dataset_children :: "('r, 'l, 'i, 'v) pool_lib \<Rightarrow> pool_member \<Rightarrow> string \<Rightarrow> u64 \<Rightarrow> (u64 \<times> string) list result" where
  "dataset_children pl m name child_zap_object =
     (if child_zap_object = 0 then Inr []
     else and_then (mos_object pl m child_zap_object ''child-directory ZAP object {child_zap_object} is absent'') (\<lambda>child_zap.
       and_then (read_zap_object pl m child_zap) (\<lambda>data.
       Inr (map (\<lambda>(child_name, child_object). (child_object, name @ ''/'' @ child_name))
         (filter (\<lambda>(child_name, _). \<not> (prefix ''$'' child_name \<or> prefix ''%'' child_name))
           (sort_key fst (zap_list (pl_zpl pl) data)))))))"

definition dataset_head :: "('r, 'l, 'i, 'v) pool_lib \<Rightarrow> pool_member \<Rightarrow> u64 \<Rightarrow> string \<Rightarrow> u64 \<Rightarrow> dataset_info list result" where
  "dataset_head pl m dsl_dir_object name head_dataset_object =
     (if head_dataset_object = 0 then Inr []
     else and_then (mos_object pl m head_dataset_object ''head dataset object {head_dataset_object} is absent'') (\<lambda>head.
       and_then (dataset_guid pl head) (\<lambda>guid.
       Inr [\<lparr>di_name = name, di_dsl_dir_object = dsl_dir_object, di_head_dataset_object = head_dataset_object,
             di_head_guid = guid_string guid\<rparr>])))"

definition dataset_visit ::
  "('r, 'l, 'i, 'v) pool_lib \<Rightarrow> pool_member \<Rightarrow> u64 \<times> string \<Rightarrow> (dataset_info list \<times> (u64 \<times> string) list) result" where
  "dataset_visit pl m = (\<lambda>(dsl_dir_object, name).
     and_then (mos_object pl m dsl_dir_object ''DSL directory object {dsl_dir_object} is absent'') (\<lambda>directory.
     and_then (bonus_u64 pl directory 8) (\<lambda>head_dataset_object.
     and_then (bonus_u64 pl directory 32) (\<lambda>child_zap_object.
     and_then (dataset_head pl m dsl_dir_object name head_dataset_object) (\<lambda>info.
     and_then (dataset_children pl m name child_zap_object) (\<lambda>children.
     Inr (info, children)))))))"

lemma length_bs_insert: "\<not> bs_contains s x \<Longrightarrow> length (bs_insert x s) = Suc (length s)"
proof -
  have "x \<notin> fst ` set s \<Longrightarrow> length (bt_insert x () s) = Suc (length s)"
    by (induction x "()" s rule: bt_insert.induct) (auto split: if_splits)
  then show "\<not> bs_contains s x \<Longrightarrow> length (bs_insert x s) = Suc (length s)"
    by (simp add: bs_insert_def bs_elems_def bt_keys_def)
qed

function dataset_walk ::
  "('r, 'l, 'i, 'v) pool_lib \<Rightarrow> pool_member \<Rightarrow> (u64 \<times> string) list \<Rightarrow> u64 btset \<Rightarrow> dataset_info list \<Rightarrow> dataset_info list result" where
  "dataset_walk pl m [] seen datasets = Inr datasets"
| "dataset_walk pl m ((dsl_dir_object, name) # queue) seen datasets =
     (if bs_contains seen dsl_dir_object then dataset_walk pl m queue seen datasets
      else let seen' = bs_insert dsl_dir_object seen in
      if length seen' > MAX_DATASETS then Inl (Bail ''dataset tree exceeds the {MAX_DATASETS}-entry safety limit'')
      else and_then (dataset_visit pl m (dsl_dir_object, name)) (\<lambda>(info, children).
        dataset_walk pl m (queue @ children) seen' (datasets @ info)))"
  by pat_completeness auto
termination
  by (relation "measures [\<lambda>(pl, m, queue, seen, ds). MAX_DATASETS - length seen, \<lambda>(pl, m, queue, seen, ds). length queue]")
    (auto simp: length_bs_insert)

declare dataset_walk.simps(2) [simp del]

definition datasets :: "('r, 'l, 'i, 'v) pool_lib \<Rightarrow> pool_member \<Rightarrow> dataset_info list result" where
  "datasets pl m =
     and_then (mos_object pl m 1 ''MOS object directory (object 1) is absent'') (\<lambda>object_directory.
     and_then (read_zap_object pl m object_directory) (\<lambda>data.
     and_then (ok_or (zap_lookup (pl_zpl pl) data ''root_dataset'') (Bail ''MOS object directory has no root_dataset entry'')) (\<lambda>root.
     and_then (dataset_walk pl m [(root, pm_pool_name m)] [] []) (\<lambda>ds.
     Inr (sort_key di_name ds)))))"

definition pool_snapshot_of :: "('r, 'l, 'i, 'v) pool_lib \<Rightarrow> pool_member \<Rightarrow> dataset_info \<Rightarrow> string \<times> u64 \<Rightarrow> pool_snapshot result" where
  "pool_snapshot_of pl m dataset = (\<lambda>(name, dataset_object).
     and_then (mos_object pl m dataset_object ''snapshot dataset object {dataset_object} is absent'') (\<lambda>dnode.
     and_then (dataset_guid pl dnode) (\<lambda>guid.
     and_then (bonus_u64 pl dnode 48) (\<lambda>creation_time.
     and_then (bonus_u64 pl dnode 56) (\<lambda>creation_txg.
     Inr \<lparr>ps_dataset = di_name dataset, ps_name = name, ps_full_name = di_name dataset @ ''@'' @ name,
          ps_dataset_object = dataset_object, ps_guid = guid_string guid, ps_creation_txg = creation_txg,
          ps_creation_time = creation_time\<rparr>)))))"

definition snapshots_for :: "('r, 'l, 'i, 'v) pool_lib \<Rightarrow> pool_member \<Rightarrow> dataset_info \<Rightarrow> pool_snapshot list result" where
  "snapshots_for pl m dataset =
     and_then (mos_object pl m (di_head_dataset_object dataset) ''head dataset object {} is absent'') (\<lambda>head.
     and_then (bonus_u64 pl head 32) (\<lambda>snapnames_object.
     if snapnames_object = 0 then Inr []
     else and_then (mos_object pl m snapnames_object ''snapshot-name ZAP object {snapnames_object} is absent'') (\<lambda>snapnames.
       and_then (read_zap_object pl m snapnames) (\<lambda>data.
       let entries = zap_list (pl_zpl pl) data in
       if length entries > MAX_SNAPSHOTS_PER_DATASET then Inl (Bail ''dataset {} exceeds the {MAX_SNAPSHOTS_PER_DATASET}-snapshot safety limit'')
       else try_map (pool_snapshot_of pl m dataset) (sort_key fst entries)))))"

definition pool_snapshots :: "('r, 'l, 'i, 'v) pool_lib \<Rightarrow> pool_member \<Rightarrow> string option \<Rightarrow> pool_snapshot list result" where
  "pool_snapshots pl m dataset =
     and_then (datasets pl m) (\<lambda>ds.
     if (case dataset of Some name \<Rightarrow> \<not> list_ex (\<lambda>d. di_name d = name) ds | None \<Rightarrow> False)
     then Inl (Bail ''dataset {name:?} was not found in pool {}'')
     else and_then (try_map (snapshots_for pl m) (filter (\<lambda>d. dataset = None \<or> dataset = Some (di_name d)) ds)) (\<lambda>snapshots.
     Inr (sort_key ps_full_name (concat snapshots))))"

definition pool_inspect :: "('r, 'l, 'i, 'v) pool_lib \<Rightarrow> pool_member \<Rightarrow> pool_inspection result" where
  "pool_inspect pl m =
     and_then (datasets pl m) (\<lambda>ds.
     and_then (try_fold (\<lambda>d n. and_then (snapshots_for pl m d) (\<lambda>ss. Inr (n + length ss))) 0 ds) (\<lambda>snapshots.
     Inr \<lparr>pi_backup_format = pm_backup_format m, pi_container_encryption = pm_container_encryption m,
          pi_pool_name = pm_pool_name m, pi_pool_guid = guid_string (pm_pool_guid m),
          pi_vdev_guid = guid_string (pm_vdev_guid m), pi_vdev_type = pm_vdev_type m,
          pi_top_level_vdevs = pm_top_level_vdevs m, pi_source_bytes = im_len (pm_source m), pi_txg = pm_txg m,
          pi_endian = (case pm_endian m of LittleEndian \<Rightarrow> ''little'' | BigEndian \<Rightarrow> ''big''),
          pi_datasets = length ds, pi_snapshots = snapshots\<rparr>))"

section \<open>Native encryption\<close>

fun crypto_key_walk ::
  "('r, 'l, 'i, 'v) pool_lib \<Rightarrow> pool_member \<Rightarrow> nat \<Rightarrow> u64 \<Rightarrow> u64 btset \<Rightarrow> u64 option result" where
  "crypto_key_walk pl m 0 current seen = Inr None"
| "crypto_key_walk pl m (Suc remaining) current seen =
     (if current = 0 \<or> bs_contains seen current then Inr None
      else and_then (mos_object pl m current ''DSL directory object {current} is absent'') (\<lambda>directory.
      and_then (read_zap_object pl m directory) (\<lambda>data.
      case zap_lookup (pl_zpl pl) data DD_FIELD_CRYPTO_KEY_OBJ of
        Some object \<Rightarrow>
          if object \<noteq> 0 then Inr (Some object)
          else and_then (bonus_u64 pl directory 0) (\<lambda>parent. crypto_key_walk pl m remaining parent (bs_insert current seen))
      | None \<Rightarrow> and_then (bonus_u64 pl directory 0) (\<lambda>parent. crypto_key_walk pl m remaining parent (bs_insert current seen)))))"

definition crypto_value :: "bool \<Rightarrow> string \<times> byte list \<Rightarrow> (string, byte list) btree \<Rightarrow> (string, byte list) btree result" where
  "crypto_value fat_zap = (\<lambda>(name, v) values.
     if fat_zap \<and> name \<in> {''DSL_CRYPTO_SUITE'', ''DSL_CRYPTO_GUID'', ''DSL_CRYPTO_VERSION'', ''keyformat'', ''pbkdf2iters'', ''pbkdf2salt''} then
       (if length v \<noteq> 8 then Inl (Bail ''DSL crypto-key ZAP {name} is not a uint64'')
        else Inr (bt_insert name (le_bytes 8 (unat (from_be_bytes v :: u64))) values))
     else Inr (bt_insert name v values))"

definition pool_encryption_params :: "('r, 'l, 'i, 'v) pool_lib \<Rightarrow> pool_member \<Rightarrow> u64 \<Rightarrow> encryption_params result" where
  "pool_encryption_params pl m dsl_dir_object =
     and_then (crypto_key_walk pl m MAX_DSL_PARENT_WALK dsl_dir_object []) (\<lambda>found.
     and_then (ok_or found (Bail ''encrypted dataset has no {DD_FIELD_CRYPTO_KEY_OBJ:?} entry in its DSL parent chain'')) (\<lambda>crypto_object.
     and_then (mos_object pl m crypto_object ''DSL crypto-key object {crypto_object} is absent'') (\<lambda>crypto_dnode.
     and_then (read_zap_object pl m crypto_dnode) (\<lambda>data.
     and_then (reader_u64 (pl_core pl) (dn_endian (pd_dnode crypto_dnode)) data 0) (\<lambda>tag.
     let fat_zap = (tag = (push_bit 63 1 OR 1)) in
     and_then (try_fold (crypto_value fat_zap) [] (zap_list_arrays pl data)) from_pool_zap)))))"

definition split_once :: "char \<Rightarrow> string \<Rightarrow> string \<times> string option" where
  "split_once c s = (case dropWhile (\<lambda>d. d \<noteq> c) s of [] \<Rightarrow> (s, None) | _ # after \<Rightarrow> (takeWhile (\<lambda>d. d \<noteq> c) s, Some after))"

definition select_pool_snapshot ::
  "('r, 'l, 'i, 'v) pool_lib \<Rightarrow> pool_member \<Rightarrow> dataset_info \<Rightarrow> string \<Rightarrow> (u64 \<times> u64 option) result" where
  "select_pool_snapshot pl m dataset snapshot_name =
     (if snapshot_name = [] then Inl (Bail ''snapshot name cannot be empty'')
      else and_then (snapshots_for pl m dataset) (\<lambda>snapshots.
      and_then (case strip_prefix ''0x'' snapshot_name of
          Some hex \<Rightarrow>
            and_then (ok_or (from_str_radix 16 hex) (Bail ''invalid snapshot GUID {snapshot_name:?}'')) (\<lambda>guid.
            Inr (find (\<lambda>s. pool_parse_guid (ps_guid s) = Some guid) snapshots))
        | None \<Rightarrow> Inr (find (\<lambda>s. ps_name s = snapshot_name) snapshots)) (\<lambda>found.
      and_then (ok_or found (Bail ''snapshot {selector:?} was not found'')) (\<lambda>selected.
      and_then (ok_or (pool_parse_guid (ps_guid selected)) (Bail ''snapshot {} has an invalid GUID'')) (\<lambda>guid.
      Inr (ps_dataset_object selected, Some guid))))))"

definition select_dataset :: "('r, 'l, 'i, 'v) pool_lib \<Rightarrow> pool_member \<Rightarrow> string \<Rightarrow> (dataset_info \<times> u64 \<times> u64 option) result" where
  "select_dataset pl m selector =
     (let (dataset_name, snapshot_name) = split_once CHR ''@'' selector in
      if dataset_name = [] then Inl (Bail ''dataset selector cannot be empty'')
      else and_then (datasets pl m) (\<lambda>ds.
      and_then (ok_or (find (\<lambda>d. di_name d = dataset_name) ds) (Bail ''dataset {dataset_name:?} was not found in pool {}'')) (\<lambda>dataset.
      and_then (case snapshot_name of
          Some name \<Rightarrow> select_pool_snapshot pl m dataset name
        | None \<Rightarrow> Inr (di_head_dataset_object dataset, None)) (\<lambda>(dataset_object, snapshot_guid).
      Inr (dataset, dataset_object, snapshot_guid)))))"

definition dataset_pointer :: "('r, 'l, 'i, 'v) pool_lib \<Rightarrow> pool_member \<Rightarrow> u64 \<Rightarrow> (byte list \<times> endian) result" where
  "dataset_pointer pl m dataset_object =
     and_then (mos_object pl m dataset_object ''DSL dataset object {dataset_object} is absent'') (\<lambda>dnode.
     and_then (ok_or (get_range (dn_bonus (pd_dnode dnode)) 128 256) (Bail ''DSL dataset object {dataset_object} has a truncated ds_bp'')) (\<lambda>raw.
     Inr (raw, dn_endian (pd_dnode dnode))))"

definition pool_encryption_requirement :: "('r, 'l, 'i, 'v) pool_lib \<Rightarrow> pool_member \<Rightarrow> string \<Rightarrow> encryption_requirement option result" where
  "pool_encryption_requirement pl m selector =
     and_then (select_dataset pl m selector) (\<lambda>(dataset, dataset_object, _).
     and_then (dataset_pointer pl m dataset_object) (\<lambda>(raw, e).
     if \<not> blkptr_uses_crypt raw e then Inr None
     else and_then (pool_encryption_params pl m (di_dsl_dir_object dataset)) (\<lambda>params.
       and_then (key_format_name params) (\<lambda>key_format.
       Inr (Some \<lparr>er_dataset_name = di_name dataset, er_key_format = key_format\<rparr>)))))"

section \<open>Views of a dataset\<close>

definition view_object ::
  "('r, 'l, 'i, 'v) pool_lib \<Rightarrow> pool_member \<Rightarrow> pool_objset \<Rightarrow> u64 \<Rightarrow> dataset_key option \<Rightarrow> string \<Rightarrow> member_dnode result" where
  "view_object pl m zpl object_id key absent =
     and_then (dnode_with_key pl (pm_source m) zpl object_id key) (\<lambda>r. ok_or r (Bail absent))"

definition view_zap :: "('r, 'l, 'i, 'v) pool_lib \<Rightarrow> pool_member \<Rightarrow> member_dnode \<Rightarrow> dataset_key option \<Rightarrow> byte list result" where
  "view_zap pl m md key = read_zap_object_with_key pl (pm_source m) md key"

definition pool_sa_context ::
  "('r, 'l, 'i, 'v) pool_lib \<Rightarrow> pool_member \<Rightarrow> pool_objset \<Rightarrow> byte list \<Rightarrow> dataset_key option \<Rightarrow> ('r \<times> 'l) result" where
  "pool_sa_context pl m zpl master_data key =
     (case zap_lookup (pl_zpl pl) master_data ''SA_ATTRS'' of
        None \<Rightarrow> Inr (pl_default_registry pl, pl_default_layouts pl)
      | Some sa_master_object \<Rightarrow>
          and_then (view_object pl m zpl sa_master_object key ''SA master object {sa_master_object} is absent'') (\<lambda>sa_master.
          and_then (view_zap pl m sa_master key) (\<lambda>sa_master.
          and_then (ok_or (zap_lookup (pl_zpl pl) sa_master ''REGISTRY'') (Bail ''SA master object has no REGISTRY entry'')) (\<lambda>registry_object.
          and_then (ok_or (zap_lookup (pl_zpl pl) sa_master ''LAYOUTS'') (Bail ''SA master object has no LAYOUTS entry'')) (\<lambda>layouts_object.
          and_then (view_object pl m zpl registry_object key ''SA registry object {registry_object} is absent'') (\<lambda>registry.
          and_then (view_object pl m zpl layouts_object key ''SA layouts object {layouts_object} is absent'') (\<lambda>layouts.
          and_then (view_zap pl m registry key) (\<lambda>registry.
          and_then (view_zap pl m layouts key) (\<lambda>layouts.
          Inr (parse_sa_registry (pl_zpl pl) registry, parse_sa_layouts (pl_zpl pl) layouts))))))))))"

definition view_key ::
  "('r, 'l, 'i, 'v) pool_lib \<Rightarrow> pool_member \<Rightarrow> dataset_info \<Rightarrow> byte list \<Rightarrow> endian \<Rightarrow> byte list option \<Rightarrow> dataset_key option result" where
  "view_key pl m dataset raw e key_material =
     (if blkptr_uses_crypt raw e then
        (if e \<noteq> LittleEndian then Inl (Bail ''native-encrypted big-endian pool datasets are not supported yet'')
         else and_then (pool_encryption_params pl m (di_dsl_dir_object dataset)) (\<lambda>params.
         and_then (ok_or key_material (Bail ''{selector} uses native ZFS dataset encryption; provide its {} key'')) (\<lambda>material.
         and_then (unlock (pl_crypto pl) params material) (\<lambda>key. Inr (Some key)))))
      else if key_material \<noteq> None then Inl (Bail ''a ZFS key was supplied for unencrypted dataset {selector}'')
      else Inr None)"

definition dataset_view :: "('r, 'l, 'i, 'v) pool_lib \<Rightarrow> pool_member \<Rightarrow> string \<Rightarrow> byte list option \<Rightarrow> ('r, 'l) dataset_view_state result" where
  "dataset_view pl m selector key_material =
     and_then (select_dataset pl m selector) (\<lambda>(dataset, dataset_object, snapshot_guid).
     and_then (dataset_pointer pl m dataset_object) (\<lambda>(raw, e).
     and_then (view_key pl m dataset raw e key_material) (\<lambda>key.
     and_then (pool_pointer_parse (pl_core pl) raw e) (\<lambda>pointer.
     and_then (map_err (with_context ''reading objset for {selector}'')
       (read_pool_block_from (pl_core pl) (pl_codecs pl) (pl_crypto pl) (pm_source m) 0 pointer key)) (\<lambda>objset_block.
     and_then (case key of
         Some key \<Rightarrow> map_err (with_context ''authenticating objset for {selector}'') (verify_objset_mac (pl_crypto pl) objset_block e key)
       | None \<Rightarrow> Inr ()) (\<lambda>_.
     and_then (map_err (with_context ''decoding ZPL objset for {selector}'') (pool_objset_parse (pl_core pl) objset_block e)) (\<lambda>zpl.
     if op_os_type (po_objset zpl) \<noteq> DMU_OST_ZFS (pl_core pl)
     then Inl (Bail ''{selector} resolves objset type {}, not a ZFS filesystem ({DMU_OST_ZFS}); volumes are not browseable as file trees'')
     else and_then (view_object pl m zpl ZPL_MASTER_NODE_OBJ key ''ZPL master node is absent for {selector}'') (\<lambda>master.
     and_then (view_zap pl m master key) (\<lambda>master_data.
     and_then (ok_or (zap_lookup (pl_zpl pl) master_data ''ROOT'') (Bail ''ZPL master node for {selector} has no ROOT entry'')) (\<lambda>root_id.
     and_then (pool_sa_context pl m zpl master_data key) (\<lambda>(registry, layouts).
     Inr \<lparr>vw_zpl = zpl, vw_registry = registry, vw_layouts = layouts, vw_root_id = root_id,
          vw_snapshot_guid = snapshot_guid, vw_key = key\<rparr>)))))))))))"

definition pool_component ::
  "('r, 'l, 'i, 'v) pool_lib \<Rightarrow> pool_member \<Rightarrow> ('r, 'l) dataset_view_state \<Rightarrow> string \<Rightarrow> u64 \<times> byte \<Rightarrow> (u64 \<times> byte) result" where
  "pool_component pl m view component = (\<lambda>(current, dirent_type).
     if dirent_type \<noteq> 4 then Inl (Bail ''path component {component:?} follows a non-directory object'')
     else and_then (view_object pl m (vw_zpl view) current (vw_key view) ''directory object {current} is absent'') (\<lambda>directory.
     and_then (view_zap pl m directory (vw_key view)) (\<lambda>data.
     and_then (ok_or (find (\<lambda>(name, _). name = component) (zap_list (pl_zpl pl) data)) (Bail ''path {normalized:?} was not found'')) (\<lambda>(_, raw).
     Inr (dirent_object (pl_zpl pl) raw, dirent_kind raw)))))"

definition pool_resolve_path ::
  "('r, 'l, 'i, 'v) pool_lib \<Rightarrow> pool_member \<Rightarrow> ('r, 'l) dataset_view_state \<Rightarrow> string \<Rightarrow> resolved_pool_path result" where
  "pool_resolve_path pl m view path =
     and_then (normalize_path path) (\<lambda>normalized.
     and_then (try_fold (pool_component pl m view) (vw_root_id view, 4) (components normalized)) (\<lambda>(current, dirent_type).
     and_then (view_object pl m (vw_zpl view) current (vw_key view) ''object {current} for path {normalized:?} is absent'') (\<lambda>md.
     and_then (ok_or (pool_attrs pl (pd_dnode md) (vw_registry view) (vw_layouts view))
       (Bail ''could not decode ZPL metadata for object {current}'')) (\<lambda>attrs.
     Inr \<lparr>rq_normalized_path = normalized, rq_object_id = current, rq_dirent_type = dirent_type,
          rq_logical_size = za_size attrs, rq_dnode = md\<rparr>))))"

text \<open>A listed entry; a child whose metadata cannot be read is listed without a size.\<close>

definition pool_entry ::
  "('r, 'l, 'i, 'v) pool_lib \<Rightarrow> pool_member \<Rightarrow> ('r, 'l) dataset_view_state \<Rightarrow> string \<times> u64 \<Rightarrow> directory_entry result" where
  "pool_entry pl m view = (\<lambda>(name, raw).
     let object_id = dirent_object (pl_zpl pl) raw in
     and_then (attempt (dnode_with_key pl (pm_source m) (vw_zpl view) object_id (vw_key view))) (\<lambda>r.
     Inr \<lparr>de_name = name, de_object_id = object_id, de_dirent_type = dirent_kind raw,
          de_logical_size = (case r of
            Some (Some md) \<Rightarrow> map_option za_size (pool_attrs pl (pd_dnode md) (vw_registry view) (vw_layouts view))
          | _ \<Rightarrow> None)\<rparr>))"

definition pool_list_directory_with_key ::
  "('r, 'l, 'i, 'v) pool_lib \<Rightarrow> pool_member \<Rightarrow> string \<Rightarrow> byte list option \<Rightarrow> string \<Rightarrow> directory_entry list result" where
  "pool_list_directory_with_key pl m selector key_material path =
     and_then (dataset_view pl m selector key_material) (\<lambda>view.
     and_then (pool_resolve_path pl m view path) (\<lambda>resolved.
     if rq_dirent_type resolved \<noteq> 4 then Inl (Bail ''{} is not a directory'')
     else and_then (view_zap pl m (rq_dnode resolved) (vw_key view)) (\<lambda>data.
     and_then (try_map (pool_entry pl m view) (zap_list (pl_zpl pl) data)) (\<lambda>entries.
     Inr (sort_key de_name entries)))))"

text \<open>The view and the regular file a path names, as every reader of files opens it.\<close>

definition pool_regular_file ::
  "('r, 'l, 'i, 'v) pool_lib \<Rightarrow> pool_member \<Rightarrow> string \<Rightarrow> string \<Rightarrow> byte list option \<Rightarrow>
   (('r, 'l) dataset_view_state \<times> resolved_pool_path) result" where
  "pool_regular_file pl m selector path key_material =
     and_then (dataset_view pl m selector key_material) (\<lambda>view.
     and_then (pool_resolve_path pl m view path) (\<lambda>resolved.
     if rq_dirent_type resolved \<noteq> 8 then Inl (Bail ''{} is not a regular file'') else Inr (view, resolved)))"

section \<open>Reading files\<close>

text \<open>The loop of \<open>PoolImageFile::read_exact_at\<close>; the bytes read so far are the result.\<close>

function pool_read_blocks ::
  "('r, 'l, 'i, 'v) pool_lib \<Rightarrow> image \<Rightarrow> member_dnode \<Rightarrow> dataset_key option \<Rightarrow> nat \<Rightarrow> nat \<Rightarrow> byte list result" where
  "pool_read_blocks pl src md key position remaining =
     (let block_size = dn_data_block_size (pd_dnode md) in
      if remaining = 0 \<or> block_size = 0 then Inr []
      else let block_id = position div block_size; within = position mod block_size;
               wanted = min remaining (block_size - within) in
        and_then (if block_id > unat (dn_maxblkid (pd_dnode md)) then Inr []
                  else read_dnode_data_with_key pl src md (of_nat block_id) key) (\<lambda>block.
        let present = min (length block - within) wanted in
        and_then (pool_read_blocks pl src md key (position + wanted) (remaining - wanted)) (\<lambda>rest.
        Inr (slice block within (within + present) @ replicate (wanted - present) 0 @ rest))))"
  by pat_completeness auto
termination
  by (relation "measure (\<lambda>(pl, src, md, key, position, remaining). remaining)") (auto simp: Let_def)

declare pool_read_blocks.simps [simp del]

definition pool_image_read ::
  "('r, 'l, 'i, 'v) pool_lib \<Rightarrow> image \<Rightarrow> resolved_pool_path \<Rightarrow> dataset_key option \<Rightarrow> u64 \<Rightarrow> nat \<Rightarrow> byte list result" where
  "pool_image_read pl src resolved key off n =
     and_then (ok_or (checked_add off (of_nat n)) (Bail ''nested ZFS-file read offset overflows'')) (\<lambda>fin.
     if fin > rq_logical_size resolved then Inl (Bail ''nested read [{offset}, {end}) exceeds ZFS file {} ({} bytes)'')
     else if dn_data_block_size (pd_dnode (rq_dnode resolved)) = 0 then Inl (Bail ''nested image file has a zero ZFS record size'')
     else pool_read_blocks pl src (rq_dnode resolved) key (unat off) n)"

definition pool_image_file :: "('r, 'l, 'i, 'v) pool_lib \<Rightarrow> image \<Rightarrow> resolved_pool_path \<Rightarrow> dataset_key option \<Rightarrow> image" where
  "pool_image_file pl src resolved key = \<lparr>im_len = rq_logical_size resolved, im_read = pool_image_read pl src resolved key\<rparr>"

definition into_image_file_with_key ::
  "('r, 'l, 'i, 'v) pool_lib \<Rightarrow> pool_member \<Rightarrow> string \<Rightarrow> string \<Rightarrow> byte list option \<Rightarrow> image result" where
  "into_image_file_with_key pl m selector path key_material =
     and_then (pool_regular_file pl m selector path key_material) (\<lambda>(view, resolved).
     Inr (pool_image_file pl (pm_source m) resolved (vw_key view)))"

text \<open>The loop of \<open>read_small_file_with_key\<close>: what is filled, of a file of \<open>len\<close> bytes.\<close>

function small_file_loop ::
  "('r, 'l, 'i, 'v) pool_lib \<Rightarrow> image \<Rightarrow> member_dnode \<Rightarrow> dataset_key option \<Rightarrow> nat \<Rightarrow> byte list \<Rightarrow> byte list result" where
  "small_file_loop pl src md key len filled =
     (if \<not> length filled < len then Inr filled
      else let block_size = dn_data_block_size (pd_dnode md) in
        and_then (read_dnode_data_with_key pl src md (of_nat (length filled div block_size)) key) (\<lambda>block.
        let count = min (min (len - length filled) block_size) (length block) in
        if count = 0 then Inl (Bail ''metadata file block {block_id} is unexpectedly empty'')
        else small_file_loop pl src md key len (filled @ take count block)))"
  by pat_completeness auto
termination
  by (relation "measure (\<lambda>(pl, src, md, key, len, filled). len - length filled)")
    (auto simp: Let_def simp flip: length_greater_0_conv)

declare small_file_loop.simps [simp del]

definition read_small_file_with_key ::
  "('r, 'l, 'i, 'v) pool_lib \<Rightarrow> pool_member \<Rightarrow> string \<Rightarrow> string \<Rightarrow> byte list option \<Rightarrow> u64 \<Rightarrow> byte list result" where
  "read_small_file_with_key pl m selector path key_material maximum_size =
     and_then (pool_regular_file pl m selector path key_material) (\<lambda>(view, resolved).
     if rq_logical_size resolved > maximum_size then Inl (Bail ''{} is {} bytes, exceeding the {maximum_size}-byte metadata limit'')
     else if rq_logical_size resolved = 0 then Inr []
     else if dn_data_block_size (pd_dnode (rq_dnode resolved)) = 0 then Inl (Bail ''metadata file has a zero ZFS record size'')
     else small_file_loop pl (pm_source m) (rq_dnode resolved) (vw_key view) (unat (rq_logical_size resolved)) [])"

section \<open>Extraction\<close>

text \<open>The digest is kept as the bytes it was updated with.\<close>

definition write_file_record :: "os \<Rightarrow> u64 \<Rightarrow> byte list \<Rightarrow> nat \<Rightarrow> byte list \<times> byte list \<Rightarrow> (byte list \<times> byte list) result" where
  "write_file_record os off block logical_count = (\<lambda>(d, digest).
     let present = min (length block) logical_count; bytes = take present block in
     and_then (sparse_write_extent os off bytes d) (\<lambda>d.
     Inr (d, digest @ bytes @ replicate (logical_count - present) 0)))"

definition pool_write_block ::
  "('r, 'l, 'i, 'v) pool_lib \<Rightarrow> image \<Rightarrow> os \<Rightarrow> resolved_pool_path \<Rightarrow> dataset_key option \<Rightarrow> nat \<Rightarrow>
   u64 \<times> byte list \<times> byte list \<Rightarrow> (u64 \<times> byte list \<times> byte list) result" where
  "pool_write_block pl src os resolved key block_id = (\<lambda>(remaining, st).
     let block_size = dn_data_block_size (pd_dnode (rq_dnode resolved)) in
     and_then (map_err (with_context ''reading file object {} block {block_id}'')
       (read_dnode_data_with_key pl src (rq_dnode resolved) (of_nat block_id) key)) (\<lambda>block.
     let count = min (unat remaining) block_size in
     and_then (ok_or (if block_id * block_size < 2 ^ 64 then Some (of_nat (block_id * block_size)) else None)
       (Bail ''file block offset overflow'')) (\<lambda>off.
     and_then (write_file_record os off block count st) (\<lambda>st.
     Inr (remaining - of_nat count, st)))))"

definition pool_write_file ::
  "('r, 'l, 'i, 'v) pool_lib \<Rightarrow> image \<Rightarrow> os \<Rightarrow> resolved_pool_path \<Rightarrow> dataset_key option \<Rightarrow> (byte list \<times> byte list) result" where
  "pool_write_file pl src os resolved key =
     (let logical_size = rq_logical_size resolved; block_size = dn_data_block_size (pd_dnode (rq_dnode resolved)) in
      if logical_size = 0 then Inr ([], [])
      else if block_size = 0 then Inl (Bail ''file object {} has a zero data block size'')
      else let blocks = div_ceil (unat logical_size) block_size in
      if blocks - 1 > unat (dn_maxblkid (pd_dnode (rq_dnode resolved)))
      then Inl (Bail ''file size {} needs {blocks} blocks but object {} ends at block {}'')
      else and_then (try_fold (pool_write_block pl src os resolved key) (logical_size, [], []) [0 ..< blocks]) (\<lambda>(remaining, st).
      Inr st))"

text \<open>The temporary file of an extraction and the digest of what was written.\<close>

definition pool_temporary ::
  "('r, 'l, 'i, 'v) pool_lib \<Rightarrow> image \<Rightarrow> env \<Rightarrow> resolved_pool_path \<Rightarrow> string \<Rightarrow> dataset_key option \<Rightarrow> (byte list \<times> string) result" where
  "pool_temporary pl src ev resolved output key =
     and_then (ev_temporary ev output) (\<lambda>_.
     and_then (pool_write_file pl src (ev_os ev) resolved key) (\<lambda>(d, digest).
     and_then (set_len (ev_os ev) (unat (rq_logical_size resolved)) d) (\<lambda>d.
     and_then (ev_sync ev d) (\<lambda>_. Inr (d, ev_sha256 ev digest)))))"

fun pool_size_walk :: "('r, 'l, 'i, 'v) zpl_lib \<Rightarrow> 'r \<Rightarrow> 'i \<Rightarrow> nat \<Rightarrow> nat \<Rightarrow> 'i list \<Rightarrow> u64 option" where
  "pool_size_walk lib registry size_id len off [] = None"
| "pool_size_walk lib registry size_id len off (i # ids) =
     (if i = size_id then if off + 8 \<le> len then Some (of_nat off) else None
      else case size_of lib registry i of
        None \<Rightarrow> None
      | Some sz \<Rightarrow>
          if sz = 0 then None
          else if off + unat sz \<ge> 2 ^ 64 then None
          else pool_size_walk lib registry size_id len (off + unat sz) ids)"

definition pool_size_bonus_offset :: "('r, 'l, 'i, 'v) pool_lib \<Rightarrow> dnode \<Rightarrow> 'r \<Rightarrow> 'l \<Rightarrow> u64 option" where
  "pool_size_bonus_offset pl dn registry layouts =
     (if dn_bonustype dn = POOL_OT_ZNODE then if length (dn_bonus dn) \<ge> 88 then Some 80 else None
      else if dn_bonustype dn \<noteq> POOL_OT_SA \<or> length (dn_bonus dn) < 8 then None
      else case by_name (pl_zpl pl) registry ''ZPL_SIZE'' of
        None \<Rightarrow> None
      | Some size_id \<Rightarrow>
          let field = slice (dn_bonus dn) 4 6;
              info = (case dn_endian dn of LittleEndian \<Rightarrow> (from_le_bytes field :: u16) | BigEndian \<Rightarrow> from_be_bytes field)
          in case attr_ids (pl_zpl pl) layouts (ucast (info AND 0x3ff)) of
               None \<Rightarrow> None
             | Some ids \<Rightarrow> pool_size_walk (pl_zpl pl) registry size_id (length (dn_bonus dn)) (8 * unat (drop_bit 10 info AND 0x3f)) ids)"

text \<open>What follows once the output is in place: a sidecar for a snapshot, and otherwise no stale
  sidecar. \<open>remove\<close> is the outcome of deleting a file.\<close>

definition pool_finish ::
  "('r, 'l, 'i, 'v) pool_lib \<Rightarrow> env \<Rightarrow> (string \<Rightarrow> unit result) \<Rightarrow> ('r, 'l) dataset_view_state \<Rightarrow> resolved_pool_path \<Rightarrow> string \<Rightarrow> string \<Rightarrow>
   disk \<Rightarrow> disk \<times> bool result" where
  "pool_finish pl ev remove view resolved sha output disk =
     (case vw_snapshot_guid view of
        Some guid \<Rightarrow>
          (let dn = pd_dnode (rq_dnode resolved);
               sidecar = \<lparr>sc_format_version = SIDECAR_VERSION, sc_path = rq_normalized_path resolved,
                 sc_object_id = rq_object_id resolved, sc_object_type = ucast (dn_type dn),
                 sc_bonus_type = ucast (dn_bonustype dn), sc_logical_size = rq_logical_size resolved,
                 sc_size_bonus_offset = pool_size_bonus_offset pl dn (vw_registry view) (vw_layouts view),
                 sc_size_spill_offset = None, sc_snapshot_guid = guid_string guid, sc_sha256 = sha, sc_raw_state = None\<rparr>
           in case save_sidecar ev output sidecar disk of Inl e \<Rightarrow> (disk, Inl e) | Inr disk \<Rightarrow> (disk, Inr True))
      | None \<Rightarrow>
          if disk (sidecar_path output) = None then (disk, Inr False)
          else (case remove (sidecar_path output) of
                  Inl e \<Rightarrow> (disk, Inl (with_context ''removing stale incremental-send sidecar {} after current-head extraction'' e))
                | Inr _ \<Rightarrow> (disk(sidecar_path output := None), Inr False)))"

definition pool_extract_with_key ::
  "('r, 'l, 'i, 'v) pool_lib \<Rightarrow> pool_member \<Rightarrow> env \<Rightarrow> (string \<Rightarrow> unit result) \<Rightarrow> string \<Rightarrow> string \<Rightarrow> string \<Rightarrow> bool \<Rightarrow> byte list option \<Rightarrow>
   disk \<Rightarrow> disk \<times> pool_extraction result" where
  "pool_extract_with_key pl m ev remove selector path output force key_material disk =
     (case pool_regular_file pl m selector path key_material of
        Inl e \<Rightarrow> (disk, Inl e)
      | Inr (view, resolved) \<Rightarrow>
          if disk output \<noteq> None \<and> \<not> force
          then (disk, Inl (Bail ''output {} already exists (pass --force to replace it)''))
          else (case and_then (pool_temporary pl (pm_source m) ev resolved output (vw_key view))
                       (\<lambda>(d, sha). and_then (persist_replace ev d output force disk) (\<lambda>disk. Inr (disk, sha))) of
                  Inl e \<Rightarrow> (disk, Inl e)
                | Inr (disk, sha) \<Rightarrow>
                    (let (disk, r) = pool_finish pl ev remove view resolved sha output disk
                     in (disk, and_then r (\<lambda>sidecar_written.
                          Inr \<lparr>px_path = rq_normalized_path resolved, px_object_id = rq_object_id resolved,
                               px_logical_size = rq_logical_size resolved, px_sha256 = sha,
                               px_sidecar_written = sidecar_written\<rparr>)))))"

definition extract_tree_file_with_key ::
  "('r, 'l, 'i, 'v) pool_lib \<Rightarrow> pool_member \<Rightarrow> env \<Rightarrow> string \<Rightarrow> byte list option \<Rightarrow> string \<Rightarrow> string \<Rightarrow> disk \<Rightarrow> (disk \<times> u64) result" where
  "extract_tree_file_with_key pl m ev selector key_material path output disk =
     and_then (pool_regular_file pl m selector path key_material) (\<lambda>(view, resolved).
     and_then (pool_temporary pl (pm_source m) ev resolved output (vw_key view)) (\<lambda>(d, _).
     and_then (persist_replace ev d output False disk) (\<lambda>disk.
     Inr (disk, rq_logical_size resolved))))"

definition pool_tree_extractor :: "('r, 'l, 'i, 'v) pool_lib \<Rightarrow> pool_member \<Rightarrow> env \<Rightarrow> string \<Rightarrow> byte list option \<Rightarrow> extractor" where
  "pool_tree_extractor pl m ev selector key_material source destination fs =
     (case extract_tree_file_with_key pl m ev selector key_material source (join ''/'' destination) (file_at destination fs) of
        Inl e \<Rightarrow> (fs, Inl e)
      | Inr (disk, bytes) \<Rightarrow> (fs(destination := map_option Regular (disk (join ''/'' destination))), Inr bytes))"

definition extract_tree_with_key ::
  "('r, 'l, 'i, 'v) pool_lib \<Rightarrow> pool_member \<Rightarrow> env \<Rightarrow> tree_env \<Rightarrow> string \<Rightarrow> string \<Rightarrow> path \<Rightarrow> bool \<Rightarrow> byte list option \<Rightarrow>
   tree_fs \<Rightarrow> tree_fs \<times> recursive_extraction result" where
  "extract_tree_with_key pl m ev env selector path output force key_material fs =
     extract_directory_tree env path output force (pool_list_directory_with_key pl m selector key_material)
       (pool_tree_extractor pl m ev selector key_material) fs"

section \<open>Opening a member\<close>

record 'f pool_env =
  pe_core :: zfs_core
  pe_codecs :: codecs
  pe_host :: "'f host"
  pe_registry :: "'f registry"
  pe_device :: "'f \<Rightarrow> device"
  pe_crc :: "byte list \<Rightarrow> u32"
  pe_luks :: "cursor \<Rightarrow> byte list \<Rightarrow> luks_payload option"

type_synonym labels = "(u64 \<times> vdev_label) list"
type_synonym candidate = "image \<times> labels \<times> string option"

definition open_partition ::
  "'f pool_env \<Rightarrow> 'f file_source \<Rightarrow> byte list option \<Rightarrow> gpt_partition \<Rightarrow> candidate list \<times> nat \<Rightarrow> (candidate list \<times> nat) result" where
  "open_partition pe s container_key part = (\<lambda>(candidates, locked_luks).
     and_then (attempt (file_source_slice (pe_core pe) (pe_host pe) s (gp_offset part) (gp_length part))) (\<lambda>r.
     case r of
       None \<Rightarrow> Inr (candidates, locked_luks)
     | Some sliced \<Rightarrow>
         let candidate = file_source_image (pe_device pe) sliced in
         and_then (read_labels (pe_core pe) candidate) (\<lambda>labels.
         if labels \<noteq> [] then Inr (candidates @ [(candidate, labels, None)], locked_luks)
         else and_then (is_luks candidate) (\<lambda>luks.
         if \<not> luks then Inr (candidates, locked_luks)
         else case container_key of
           None \<Rightarrow> Inr (candidates, locked_luks + 1)
         | Some key \<Rightarrow>
             and_then (attempt (unlock_luks (pe_luks pe) candidate key)) (\<lambda>r.
             case r of
               None \<Rightarrow> Inr (candidates, locked_luks)
             | Some (unlocked, description) \<Rightarrow>
                 and_then (read_labels (pe_core pe) unlocked) (\<lambda>labels.
                 Inr (if labels = [] then candidates else candidates @ [(unlocked, labels, Some description)], locked_luks)))))))"

definition choose_candidate :: "byte list option \<Rightarrow> candidate list \<Rightarrow> nat \<Rightarrow> candidate result" where
  "choose_candidate container_key candidates locked_luks =
     (if candidates = [] \<and> locked_luks \<noteq> 0
      then Inl (Bail ''{} contains {locked_luks} LUKS-encrypted partition{}; provide the Datto pool passphrase with --container-key-file'')
      else case candidates of
        [(src, labels, encryption)] \<Rightarrow>
          if container_key \<noteq> None \<and> encryption = None
          then Inl (Bail ''a container key was supplied, but the selected ZFS partition in {} is not LUKS-encrypted'')
          else Inr (src, labels, encryption)
      | [] \<Rightarrow> Inl (Bail ''{} has no readable ZFS vdev label in the source or its partitions ({})'')
      | _ \<Rightarrow> Inl (Bail ''{} contains {} partitions with readable ZFS pools; open the intended partition explicitly''))"

text \<open>The source to read the pool from: the whole file, its LUKS payload, or one partition.\<close>

definition open_source :: "'f pool_env \<Rightarrow> string \<Rightarrow> byte list option \<Rightarrow> candidate result" where
  "open_source pe path container_key =
     and_then (file_source_open (pe_core pe) (pe_host pe) (pe_registry pe) path) (\<lambda>s.
     let whole = file_source_image (pe_device pe) s in
     and_then (read_labels (pe_core pe) whole) (\<lambda>parsed.
     and_then (disk_partitions (pe_crc pe) whole) (\<lambda>partitions.
     if parsed \<noteq> [] \<and> partitions = [] then
       (if container_key \<noteq> None then Inl (Bail ''a container key was supplied, but {} is not LUKS-encrypted'')
        else Inr (whole, parsed, None))
     else and_then (is_luks whole) (\<lambda>luks.
     if luks then
       and_then (ok_or container_key (Bail ''{} is a LUKS-encrypted pool source; provide its container passphrase file'')) (\<lambda>key.
       and_then (unlock_luks (pe_luks pe) whole key) (\<lambda>(src, description).
       and_then (read_labels (pe_core pe) src) (\<lambda>labels. Inr (src, labels, Some description))))
     else
       and_then (try_fold (open_partition pe s container_key) ([], 0) partitions) (\<lambda>(candidates, locked_luks).
       choose_candidate container_key candidates locked_luks)))))"

definition backup_format :: "string \<Rightarrow> string option \<Rightarrow> string" where
  "backup_format pool_name container_encryption =
     (if map ascii_lower pool_name = ''slide'' then ''slide_box''
      else if container_encryption \<noteq> None \<and> prefix ''revrt-'' (map ascii_lower pool_name) then ''datto_reverse_roundtrip''
      else ''generic_zfs'')"

definition labels_agree :: "u64 \<Rightarrow> labels \<Rightarrow> bool" where
  "labels_agree pool_guid parsed = list_all (\<lambda>(_, label).
     case get_u64 (lb_config label) ''pool_guid'' of None \<Rightarrow> True | Some other \<Rightarrow> other = pool_guid) parsed"

definition open_with_container_key :: "'f pool_env \<Rightarrow> string \<Rightarrow> byte list option \<Rightarrow> pool_member result" where
  "open_with_container_key pe path container_key =
     and_then (open_source pe path container_key) (\<lambda>(src, parsed, container_encryption).
     if parsed = [] then Inl (Bail ''{} has no readable ZFS vdev label after opening its source ({})'')
     else let active = snd (last (sort_key (\<lambda>(_, label). lb_txg label) parsed)); config = lb_config active in
     and_then (ok_or (case get_str config ''name'' of Some n \<Rightarrow> if n = [] then None else Some n | None \<Rightarrow> None)
       (Bail ''active vdev label has no pool name'')) (\<lambda>pool_name.
     and_then (ok_or (get_u64 config ''pool_guid'') (Bail ''active vdev label has no pool_guid'')) (\<lambda>pool_guid.
     and_then (ok_or (get_u64 config ''vdev_children'') (Bail ''active vdev label has no vdev_children count'')) (\<lambda>top_level_vdevs.
     if top_level_vdevs \<noteq> 1 then Inl (Bail ''pool {pool_name} has {top_level_vdevs} top-level vdevs'')
     else and_then (ok_or (get_nvlist config ''vdev_tree'') (Bail ''active vdev label has no vdev_tree'')) (\<lambda>vdev.
     and_then (ok_or (case get_str vdev ''type'' of Some n \<Rightarrow> if n = [] then None else Some n | None \<Rightarrow> None)
       (Bail ''active vdev label has no vdev type'')) (\<lambda>vdev_type.
     if vdev_type \<notin> {''disk'', ''file'', ''mirror''} then Inl (Bail ''top-level vdev type {vdev_type:?} is unsupported'')
     else if (case get_u64 vdev ''id'' of Some n \<Rightarrow> n | None \<Rightarrow> 0) \<noteq> 0
     then Inl (Bail ''the only top-level vdev has id {vdev_id}, not the supported id 0'')
     else if \<not> labels_agree pool_guid parsed
     then Inl (Bail ''vdev labels disagree on pool GUID; refusing an inconsistent member'')
     else and_then (map_err (with_context ''reading MOS from active uberblock txg {} on {}'')
       (read_block_from (pe_core pe) (pe_codecs pe) src 0 (lb_rootbp active))) (\<lambda>mos_block.
     and_then (map_err (with_context ''decoding the MOS objset'') (pool_objset_parse (pe_core pe) mos_block (lb_endian active))) (\<lambda>mos.
     if op_os_type (po_objset mos) \<noteq> DMU_OST_META (pe_core pe)
     then Inl (Bail ''active uberblock resolved objset type {}, not the MOS type {DMU_OST_META}'')
     else Inr \<lparr>pm_source = src, pm_backup_format = backup_format pool_name container_encryption,
       pm_container_encryption = container_encryption, pm_pool_name = pool_name, pm_pool_guid = pool_guid,
       pm_vdev_guid = (case get_u64 vdev ''guid'' of Some n \<Rightarrow> n | None \<Rightarrow> 0), pm_vdev_type = vdev_type,
       pm_top_level_vdevs = top_level_vdevs, pm_txg = lb_txg active, pm_endian = lb_endian active, pm_mos = mos\<rparr>))))))))"

end
