(* ===== verification/Pool_Reads.thy ===== *)
theory Pool_Reads
  imports Pool Tree_Publish
begin

text \<open>
  Reading files of a pool member: the reader that shows a file as a disk image and the extraction of
  the file give the same bytes, extracted trees are the listed trees, and the reader for small
  metadata files.
\<close>

section \<open>The bytes of a file\<close>

definition file_block :: "('r, 'l, 'i, 'v) pool_lib \<Rightarrow> image \<Rightarrow> resolved_pool_path \<Rightarrow> dataset_key option \<Rightarrow> nat \<Rightarrow> byte list" where
  "file_block pl src resolved key i = (case read_dnode_data_with_key pl src (rq_dnode resolved) (of_nat i) key of Inr b \<Rightarrow> b | Inl _ \<Rightarrow> [])"

definition record_bytes :: "(nat \<Rightarrow> byte list) \<Rightarrow> nat \<Rightarrow> contents" where
  "record_bytes b bs j = list_view (b (j div bs)) (j mod bs)"

abbreviation record_size :: "resolved_pool_path \<Rightarrow> nat" where
  "record_size resolved \<equiv> dn_data_block_size (pd_dnode (rq_dnode resolved))"

definition pool_file_bytes :: "('r, 'l, 'i, 'v) pool_lib \<Rightarrow> image \<Rightarrow> resolved_pool_path \<Rightarrow> dataset_key option \<Rightarrow> byte list" where
  "pool_file_bytes pl src resolved key =
     clip (record_bytes (file_block pl src resolved key) (record_size resolved)) (unat (rq_logical_size resolved))"

lemma record_bytes_in: "w < bs \<Longrightarrow> record_bytes b bs (i * bs + w) = list_view (b i) w"
  by (simp add: record_bytes_def div_add1_eq)

lemma record_bytes_range:
  assumes "w + n \<le> bs"
  shows "map (record_bytes b bs) [i * bs + w ..< i * bs + w + n] =
    slice (b i) w (w + min (length (b i) - w) n) @ replicate (n - min (length (b i) - w) n) 0"
proof (rule nth_equalityI)
  fix j assume "j < length (map (record_bytes b bs) [i * bs + w ..< i * bs + w + n])"
  then have j: "j < n" by simp
  then have "record_bytes b bs (i * bs + (w + j)) = list_view (b i) (w + j)" using assms by (intro record_bytes_in) simp
  with j show "map (record_bytes b bs) [i * bs + w ..< i * bs + w + n] ! j =
      (slice (b i) w (w + min (length (b i) - w) n) @ replicate (n - min (length (b i) - w) n) 0) ! j"
    by (auto simp: list_view_def slice_def nth_append add.assoc)
qed (auto simp: slice_def)

lemma slice_of_clip: "e \<le> n \<Longrightarrow> slice (clip c n) s e = map c [s ..< e]"
  by (rule nth_equalityI) (auto simp: slice_simps clip_def)

lemma pool_read_blocks_bytes:
  assumes "0 < record_size resolved"
    and "\<And>i. i * record_size resolved < limit \<Longrightarrow> i \<le> unat (dn_maxblkid (pd_dnode (rq_dnode resolved))) \<and>
      read_dnode_data_with_key pl src (rq_dnode resolved) (of_nat i) key = Inr (file_block pl src resolved key i)"
    and "position + remaining \<le> limit"
  shows "pool_read_blocks pl src (rq_dnode resolved) key position remaining =
    Inr (map (record_bytes (file_block pl src resolved key) (record_size resolved)) [position ..< position + remaining])"
  using assms(3)
proof (induction remaining arbitrary: position rule: less_induct)
  case (less remaining)
  let ?bs = "record_size resolved" and ?b = "file_block pl src resolved key"
  show ?case
  proof (cases "remaining = 0")
    case True
    then show ?thesis by (subst pool_read_blocks.simps) simp
  next
    case False
    define i w where iw: "i = position div ?bs" "w = position mod ?bs"
    define n where "n = min remaining (?bs - w)"
    have pos: "position = i * ?bs + w" and w: "w < ?bs" using assms(1) iw by simp_all
    have n: "0 < n" "n \<le> remaining" "w + n \<le> ?bs" using w False by (auto simp: n_def)
    have "i * ?bs < limit" using less.prems False pos by linarith
    then have blk: "\<not> unat (dn_maxblkid (pd_dnode (rq_dnode resolved))) < i"
      "read_dnode_data_with_key pl src (rq_dnode resolved) (of_nat i) key = Inr (?b i)" using assms(2) by (auto simp: not_less)
    have rest: "pool_read_blocks pl src (rq_dnode resolved) key (position + n) (remaining - n) =
        Inr (map (record_bytes ?b ?bs) [position + n ..< position + remaining])"
      using less.IH [of "remaining - n" "position + n"] n less.prems by simp
    have "[position ..< position + remaining] = [position ..< position + n] @ [position + n ..< position + remaining]"
      using n(2) by (metis add.commute le_add_diff_inverse upt_add_eq_append le_add1 add.assoc)
    moreover have "map (record_bytes ?b ?bs) [position ..< position + n] =
        slice (?b i) w (w + min (length (?b i) - w) n) @ replicate (n - min (length (?b i) - w) n) 0"
      using record_bytes_range [OF n(3), of ?b i] pos by simp
    ultimately show ?thesis
      using False assms(1) blk rest
      by (subst pool_read_blocks.simps) (simp add: Let_def flip: iw n_def)
  qed
qed

section \<open>What extraction writes\<close>

definition written_to :: "contents \<Rightarrow> nat \<Rightarrow> byte list \<times> byte list \<Rightarrow> bool" where
  "written_to c n st \<longleftrightarrow> list_view (fst st) = (\<lambda>j. if j < n then c j else 0) \<and> snd st = clip c n"

lemma write_record_step:
  assumes "posix_files os" and "write_file_record os off (b i) n st = Inr st'" and "unat off = i * bs"
    and "n \<le> bs" and "written_to (record_bytes b bs) (i * bs) st"
  shows "written_to (record_bytes b bs) (i * bs + n) st'"
proof -
  let ?m = "min (length (b i)) n"
  from assms(2) obtain d where d: "sparse_write_extent os off (take ?m (b i)) (fst st) = Inr d"
    and st': "st' = (d, snd st @ take ?m (b i) @ replicate (n - ?m) 0)"
    by (auto simp: write_file_record_def Let_def result_simps split: prod.splits)
  have c: "record_bytes b bs j = list_view (b i) (j - i * bs)" if "i * bs \<le> j" "j < i * bs + n" for j
    using record_bytes_in [of "j - i * bs" bs b i] that assms(4) by simp
  have "list_view d = overlay (list_view (fst st)) (i * bs) (take ?m (b i))"
    using posix_files.write_extent_view [OF assms(1) d] assms(3) by simp
  moreover have "\<dots> = (\<lambda>j. if j < i * bs + n then record_bytes b bs j else 0)"
    using assms(5) c by (auto simp: written_to_def overlay_def fun_eq_iff list_view_def)
  moreover have "snd st @ take ?m (b i) @ replicate (n - ?m) 0 = clip (record_bytes b bs) (i * bs + n)"
    using assms(5) record_bytes_range [of 0 n bs b i] assms(4)
    by (simp add: written_to_def clip_def slice_def upt_add_eq_append [of 0 "i * bs" n])
  ultimately show ?thesis by (simp add: written_to_def st')
qed

lemma pool_write_step:
  assumes "posix_files os" and "pool_write_block pl src os resolved key k (rem, st) = Inr (rem', st')"
    and "unat rem = unat (rq_logical_size resolved) - k * record_size resolved"
    and "k * record_size resolved < unat (rq_logical_size resolved)"
    and "written_to (record_bytes (file_block pl src resolved key) (record_size resolved)) (k * record_size resolved) st"
  shows "unat rem' = unat (rq_logical_size resolved) - min (Suc k * record_size resolved) (unat (rq_logical_size resolved))"
    and "written_to (record_bytes (file_block pl src resolved key) (record_size resolved))
      (min (Suc k * record_size resolved) (unat (rq_logical_size resolved))) st'"
    and "read_dnode_data_with_key pl src (rq_dnode resolved) (of_nat k) key = Inr (file_block pl src resolved key k)"
proof -
  let ?bs = "record_size resolved" and ?size = "unat (rq_logical_size resolved)" and ?b = "file_block pl src resolved key"
  let ?n = "min (unat rem) ?bs"
  from assms(2) obtain block off where block: "read_dnode_data_with_key pl src (rq_dnode resolved) (of_nat k) key = Inr block"
    and off: "off = of_nat (k * ?bs)" and w: "write_file_record os off block ?n st = Inr st'" and rem': "rem' = rem - of_nat ?n"
    by (auto simp: pool_write_block_def Let_def result_simps split: if_splits)
  show b: "read_dnode_data_with_key pl src (rq_dnode resolved) (of_nat k) key = Inr (?b k)"
    using block by (simp add: file_block_def)
  have lt: "k * ?bs < 2 ^ 64" using assms(4) unat_less_u64 [of "rq_logical_size resolved"] by simp
  have "unat off = k * ?bs" unfolding off by (rule unat_of_nat_u64) (use lt in simp)
  moreover have "write_file_record os off (?b k) ?n st = Inr st'" using w block b by simp
  ultimately have "written_to (record_bytes ?b ?bs) (k * ?bs + ?n) st'" using write_record_step assms(1,5) by fastforce
  moreover have n: "k * ?bs + ?n = min (Suc k * ?bs) ?size" using assms(3,4) by auto
  ultimately show "written_to (record_bytes ?b ?bs) (min (Suc k * ?bs) ?size) st'" by simp
  have "unat (of_nat ?n :: u64) = ?n" by (rule unat_of_nat_u64) (use unat_less_u64 [of rem] in auto)
  then have "unat rem' = unat rem - ?n" unfolding rem' by (simp add: unat_sub word_le_nat_alt)
  then show "unat rem' = ?size - min (Suc k * ?bs) ?size" using assms(3) n by linarith
qed

lemma pool_write_blocks:
  assumes "posix_files os" and "try_fold (pool_write_block pl src os resolved key) (rq_logical_size resolved, [], []) [0 ..< k] = Inr (rem, st)"
    and "k = 0 \<or> (k - 1) * record_size resolved < unat (rq_logical_size resolved)"
  shows "unat rem = unat (rq_logical_size resolved) - min (k * record_size resolved) (unat (rq_logical_size resolved)) \<and>
    written_to (record_bytes (file_block pl src resolved key) (record_size resolved))
      (min (k * record_size resolved) (unat (rq_logical_size resolved))) st \<and>
    (\<forall>i < k. read_dnode_data_with_key pl src (rq_dnode resolved) (of_nat i) key = Inr (file_block pl src resolved key i))"
  using assms(2,3)
proof (induction k arbitrary: rem st)
  case 0
  then show ?case by (auto simp: written_to_def clip_def no_contents_def)
next
  case (Suc k)
  let ?bs = "record_size resolved" and ?size = "unat (rq_logical_size resolved)"
  have lt: "k * ?bs < ?size" using Suc.prems(2) by simp
  from Suc.prems(1) obtain rem0 st0 where
    pre: "try_fold (pool_write_block pl src os resolved key) (rq_logical_size resolved, [], []) [0 ..< k] = Inr (rem0, st0)"
    and step: "pool_write_block pl src os resolved key k (rem0, st0) = Inr (rem, st)"
    by (auto simp: try_fold_append result_simps)
  have "k = 0 \<or> (k - 1) * ?bs < ?size" using lt by (cases k) auto
  from Suc.IH [OF pre this] lt have ih: "unat rem0 = ?size - k * ?bs"
    "written_to (record_bytes (file_block pl src resolved key) ?bs) (k * ?bs) st0"
    "\<forall>i < k. read_dnode_data_with_key pl src (rq_dnode resolved) (of_nat i) key = Inr (file_block pl src resolved key i)"
    by (auto simp: min_def)
  from pool_write_step [OF assms(1) step ih(1) lt ih(2)] ih(3) show ?case by (auto simp: less_Suc_eq)
qed

lemma last_block: "0 < bs \<Longrightarrow> 0 < n \<Longrightarrow> (div_ceil n bs - 1) * bs < n \<and> n \<le> div_ceil n bs * bs"
proof -
  assume *: "0 < bs" "0 < n"
  have "(n + (bs - 1)) div bs * bs \<le> n + (bs - 1)" by (rule div_times_less_eq_dividend)
  then have "div_ceil n bs * bs < n + bs" using * unfolding div_ceil_def by linarith
  then show ?thesis using * div_ceil_mult_ge [of bs n] by (cases "div_ceil n bs") auto
qed

lemma pool_write_file_bytes:
  assumes "posix_files os" and "pool_write_file pl src os resolved key = Inr (d, digest)"
  shows "resize (unat (rq_logical_size resolved)) 0 d = pool_file_bytes pl src resolved key"
    and "digest = pool_file_bytes pl src resolved key"
    and "rq_logical_size resolved \<noteq> 0 \<Longrightarrow> 0 < record_size resolved \<and>
      (\<forall>i. i * record_size resolved < unat (rq_logical_size resolved) \<longrightarrow>
         i \<le> unat (dn_maxblkid (pd_dnode (rq_dnode resolved))) \<and>
         read_dnode_data_with_key pl src (rq_dnode resolved) (of_nat i) key = Inr (file_block pl src resolved key i))"
proof -
  let ?bs = "record_size resolved" and ?size = "unat (rq_logical_size resolved)"
  let ?c = "record_bytes (file_block pl src resolved key) ?bs"
  have "written_to ?c ?size (d, digest) \<and> (?size \<noteq> 0 \<longrightarrow> 0 < ?bs \<and> (\<forall>i. i * ?bs < ?size \<longrightarrow>
      i \<le> unat (dn_maxblkid (pd_dnode (rq_dnode resolved))) \<and>
      read_dnode_data_with_key pl src (rq_dnode resolved) (of_nat i) key = Inr (file_block pl src resolved key i)))"
  proof (cases "?size = 0")
    case True
    then show ?thesis using assms(2)
      by (simp add: pool_write_file_def unat_eq_0 written_to_def clip_def no_contents_def fun_eq_iff)
  next
    case False
    let ?k = "div_ceil ?size ?bs"
    from assms(2) False obtain rem where bs: "0 < ?bs" and fits: "?k - 1 \<le> unat (dn_maxblkid (pd_dnode (rq_dnode resolved)))"
      and loop: "try_fold (pool_write_block pl src os resolved key) (rq_logical_size resolved, [], []) [0 ..< ?k] = Inr (rem, d, digest)"
      by (auto simp: pool_write_file_def Let_def unat_eq_0 result_simps split: if_splits)
    have k: "(?k - 1) * ?bs < ?size" "?size \<le> ?k * ?bs" using last_block bs False by auto
    have "i < ?k" if "i * ?bs < ?size" for i
      using that k(2) by (metis less_le_trans mult_less_cancel2)
    moreover have "i \<le> unat (dn_maxblkid (pd_dnode (rq_dnode resolved)))" if "i < ?k" for i using that fits by linarith
    ultimately show ?thesis
      using pool_write_blocks [OF assms(1) loop] k bs False min_absorb2 [OF k(2)] by simp
  qed
  then show "resize ?size 0 d = pool_file_bytes pl src resolved key" "digest = pool_file_bytes pl src resolved key"
    "rq_logical_size resolved \<noteq> 0 \<Longrightarrow> 0 < ?bs \<and>
      (\<forall>i. i * ?bs < ?size \<longrightarrow> i \<le> unat (dn_maxblkid (pd_dnode (rq_dnode resolved))) \<and>
         read_dnode_data_with_key pl src (rq_dnode resolved) (of_nat i) key = Inr (file_block pl src resolved key i))"
    by (auto simp: written_to_def resize_is_clip pool_file_bytes_def unat_eq_0 clip_def)
qed

lemma pool_temporary_bytes:
  assumes "posix_files (ev_os ev)" and "pool_temporary pl src ev resolved out key = Inr (d, sha)"
  shows "d = pool_file_bytes pl src resolved key" and "sha = ev_sha256 ev d"
proof -
  from assms(2) obtain d0 digest where w: "pool_write_file pl src (ev_os ev) resolved key = Inr (d0, digest)"
    and l: "set_len (ev_os ev) (unat (rq_logical_size resolved)) d0 = Inr d" and sha: "sha = ev_sha256 ev digest"
    by (auto simp: pool_temporary_def result_simps)
  have "d = resize (unat (rq_logical_size resolved)) 0 d0"
    using l posix_files.set_len_ok [OF assms(1)] by (auto simp: set_len_def result_simps)
  then show "d = pool_file_bytes pl src resolved key" "sha = ev_sha256 ev d"
    using pool_write_file_bytes [OF assms(1) w] sha by simp_all
qed

lemma pool_temporary_image:
  assumes "posix_files (ev_os ev)" and "pool_temporary pl src ev resolved out key = Inr (d, sha)" and "rq_logical_size resolved \<noteq> 0"
  shows "complete_image (pool_image_file pl src resolved key) d"
proof -
  let ?img = "pool_image_file pl src resolved key" and ?bs = "record_size resolved"
  from assms(2) obtain d0 digest where w: "pool_write_file pl src (ev_os ev) resolved key = Inr (d0, digest)"
    by (auto simp: pool_temporary_def result_simps)
  have d: "d = pool_file_bytes pl src resolved key" by (rule pool_temporary_bytes [OF assms(1,2)])
  have bs: "0 < ?bs" using pool_write_file_bytes(3) [OF assms(1) w assms(3)] by blast
  have blocks: "pool_read_blocks pl src (rq_dnode resolved) key position n =
      Inr (map (record_bytes (file_block pl src resolved key) ?bs) [position ..< position + n])"
    if "position + n \<le> length d" for position n
    using pool_read_blocks_bytes [of resolved "length d" pl src key position n] pool_write_file_bytes(3) [OF assms(1) w assms(3)] that d
    by (simp add: pool_file_bytes_def)
  have len: "unat (rq_logical_size resolved) = length d" by (simp add: d pool_file_bytes_def)
  have room: "length d < 2 ^ 64" using unat_less_u64 [of "rq_logical_size resolved"] len by simp
  have hit: "im_read ?img off n = Inr (slice d (unat off) (unat off + n))" if le: "unat off + n \<le> length d" for off n
  proof -
    have n: "unat (of_nat n :: u64) = n" by (rule unat_of_nat_u64) (use le room in simp)
    have fin: "checked_add off (of_nat n) = Some (off + of_nat n)" using n le room by (simp add: checked_add_def)
    have "unat (off + of_nat n) = unat off + n" using unat_add_u64 [of off "of_nat n"] n le room by simp
    then have "\<not> off + of_nat n > rq_logical_size resolved" using le len by (simp add: word_less_nat_alt)
    then have "im_read ?img off n = pool_read_blocks pl src (rq_dnode resolved) key (unat off) n"
      using bs fin by (simp add: pool_image_file_def pool_image_read_def)
    moreover have "slice d (unat off) (unat off + n) = map (record_bytes (file_block pl src resolved key) ?bs) [unat off ..< unat off + n]"
      unfolding d pool_file_bytes_def by (rule slice_of_clip) (use le len in simp)
    ultimately show ?thesis using blocks [OF le] by simp
  qed
  have miss: "\<exists>m. im_read ?img off n = Inl (Bail m)" if gt: "\<not> unat off + n \<le> length d" and "n < 2 ^ 64" for off n
  proof (cases "checked_add off (of_nat n)")
    case None
    then show ?thesis by (simp add: pool_image_file_def pool_image_read_def)
  next
    case (Some fin)
    have n: "unat (of_nat n :: u64) = n" by (rule unat_of_nat_u64) (use that(2) in simp)
    have "unat fin = unat off + n" using Some n unat_add_u64 [of off "of_nat n"] by (auto simp: checked_add_def split: if_splits)
    then have "fin > rq_logical_size resolved" using gt len by (simp add: word_less_nat_alt)
    then show ?thesis using Some by (simp add: pool_image_file_def pool_image_read_def)
  qed
  show ?thesis
  proof unfold_locales
    show "unat (im_len ?img) = length d" using len by (simp add: pool_image_file_def)
  next
    fix n and off :: u64 and bytes assume n: "n < 2 ^ 64" and r: "im_read ?img off n = Inr bytes"
    then have "unat off + n \<le> length d" using miss [of off n] by (metis Inl_Inr_False)
    with hit r show "unat off + n \<le> length d \<and> bytes = slice d (unat off) (unat off + n)" by simp
  next
    fix n and off :: u64 assume n: "(n :: nat) < 2 ^ 64"
    show "no_panic (im_read ?img off n)"
      using hit [of off n] miss [OF _ n, of off] by (cases "unat off + n \<le> length d") auto
  next
    fix off :: u64 and n assume "unat off + n \<le> length d"
    then show "\<exists>bytes. im_read ?img off n = Inr bytes" using hit by blast
  qed
qed

section \<open>Extracted files\<close>

lemma pool_finish_disk:
  "pool_finish pl ev remove view resolved sha out disk = (disk', r) \<Longrightarrow> p \<noteq> sidecar_path out \<Longrightarrow> disk' p = disk p"
  by (auto simp: pool_finish_def Let_def dest: save_sidecar_Inr [where p = p] split: option.splits sum.splits if_splits)

lemma pool_extract_steps:
  assumes "posix_files (ev_os ev)"
    and "pool_extract_with_key pl m ev remove selector path out force key_material disk = (disk', Inr px)"
  shows "\<exists>view resolved. pool_regular_file pl m selector path key_material = Inr (view, resolved) \<and>
     disk' out = Some (pool_file_bytes pl (pm_source m) resolved (vw_key view)) \<and>
     px_sha256 px = ev_sha256 ev (pool_file_bytes pl (pm_source m) resolved (vw_key view)) \<and>
     px_logical_size px = rq_logical_size resolved \<and>
     (\<exists>d sha. pool_temporary pl (pm_source m) ev resolved out (vw_key view) = Inr (d, sha)) \<and>
     (\<forall>p. p \<noteq> out \<longrightarrow> p \<noteq> sidecar_path out \<longrightarrow> disk' p = disk p)"
proof -
  from assms(2) obtain view resolved d sha disk1 w where f: "pool_regular_file pl m selector path key_material = Inr (view, resolved)"
    and t: "pool_temporary pl (pm_source m) ev resolved out (vw_key view) = Inr (d, sha)"
    and p: "persist_replace ev d out force disk = Inr disk1"
    and fin: "pool_finish pl ev remove view resolved sha out disk1 = (disk', Inr w)"
    and px: "px = \<lparr>px_path = rq_normalized_path resolved, px_object_id = rq_object_id resolved,
         px_logical_size = rq_logical_size resolved, px_sha256 = sha, px_sidecar_written = w\<rparr>"
    by (auto simp: pool_extract_with_key_def result_simps Let_def split: sum.splits if_splits prod.splits)
  have d1: "disk1 = disk(out \<mapsto> d)" by (rule persist_replace_Inr [OF p])
  have "disk' q = disk1 q" if "q \<noteq> sidecar_path out" for q using pool_finish_disk [OF fin that] .
  then show ?thesis using f t px d1 pool_temporary_bytes [OF assms(1) t] by auto
qed

section \<open>Extracted trees\<close>

definition pool_tree_content :: "('r, 'l, 'i, 'v) pool_lib \<Rightarrow> pool_member \<Rightarrow> string \<Rightarrow> byte list option \<Rightarrow> string \<Rightarrow> byte list" where
  "pool_tree_content pl m selector key_material path =
     (case pool_regular_file pl m selector path key_material of
        Inr (view, resolved) \<Rightarrow> pool_file_bytes pl (pm_source m) resolved (vw_key view)
      | Inl _ \<Rightarrow> [])"

lemma pool_tree_extractor_ok:
  assumes "posix_files (ev_os ev)"
    and "pool_tree_extractor pl m ev selector key_material src tgt fs = (fs', Inr n)"
  shows "fs tgt = None \<and> fs' = fs(tgt \<mapsto> Regular (pool_tree_content pl m selector key_material src))"
proof -
  from assms(2) obtain view resolved d sha disk where
      f: "pool_regular_file pl m selector src key_material = Inr (view, resolved)"
    and t: "pool_temporary pl (pm_source m) ev resolved (join ''/'' tgt) (vw_key view) = Inr (d, sha)"
    and p: "persist_replace ev d (join ''/'' tgt) False (file_at tgt fs) = Inr disk"
    and fs': "fs' = fs(tgt := map_option Regular (disk (join ''/'' tgt)))"
    by (auto simp: pool_tree_extractor_def extract_tree_file_with_key_def result_simps split: sum.splits)
  have "file_at tgt fs (join ''/'' tgt) = None" using p by (auto simp: persist_replace_def split: if_splits)
  then have "fs tgt = None" by (auto simp: file_at_def split: option.splits fnode.splits)
  moreover have "disk (join ''/'' tgt) = Some d" using persist_replace_Inr [OF p] by simp
  ultimately show ?thesis using fs' f pool_temporary_bytes(1) [OF assms(1) t] by (simp add: pool_tree_content_def)
qed

section \<open>A small pool\<close>

text \<open>A pool with one dataset \<open>p\<close> and its snapshot \<open>s\<close>, whose root directory holds one file \<open>f\<close> of 512 bytes. Its blocks
  are holes, and its decoders tell the objects apart by the size of what they are handed.\<close>

definition pool_demo_hole :: blkptr where
  "pool_demo_hole = \<lparr>bk_lsize = 1024, bk_psize = 0, bk_hole = True, bk_embedded = False, bk_embedded_payload = [], bk_compression = 0,
     bk_checksum = 0, bk_checksum_words = (0, 0, 0, 0), bk_byteorder = LittleEndian, bk_level = 0, bk_object_type = 0, bk_dvas = []\<rparr>"

definition pool_demo_dnode :: "nat \<Rightarrow> byte list \<Rightarrow> dnode" where
  "pool_demo_dnode block_size bonus = \<lparr>dn_type = 1, dn_bonustype = 44, dn_nlevels = 1, dn_maxblkid = 0, dn_data_block_size = block_size,
     dn_indirect_block_size = 128, dn_endian = LittleEndian, dn_bonus = bonus, dn_blkptrs = [pool_demo_hole]\<rparr>"

definition pool_demo_directory :: "byte list" where
  "pool_demo_directory = replicate 8 0 @ [3, 0, 0, 0, 0, 0, 0, 0] @ replicate 24 0"

definition pool_demo_head :: "byte list" where
  "pool_demo_head = replicate 32 0 @ [4, 0, 0, 0, 0, 0, 0, 0] @ replicate 216 0"

definition pool_demo_parse :: "byte list \<Rightarrow> endian \<Rightarrow> dnode option" where
  "pool_demo_parse raw e = map_of
     [(3584, pool_demo_dnode 1 []), (3072, pool_demo_dnode 512 pool_demo_directory), (2560, pool_demo_dnode 512 pool_demo_head),
      (2048, pool_demo_dnode 5 []), (1536, pool_demo_dnode 4096 []),
      (1024, pool_demo_dnode 10240 []), (9728, pool_demo_dnode 2 []), (9216, pool_demo_dnode 3 []), (8704, pool_demo_dnode 512 [])]
     (length raw)"

definition pool_demo_core :: zfs_core where
  "pool_demo_core = \<lparr>LABEL_SIZE = 262144, MAX_BLOCK_SIZE = 16777216, MAX_INDIRECT_LEVELS = 6, DMU_OST_META = 1, DMU_OST_ZFS = 2,
     label_offsets = (\<lambda>_. ([], None)), label_parse = (\<lambda>_. None), blkptr_parse = (\<lambda>_ _. pool_demo_hole), embedded_data = bk_embedded_payload,
     dnode_parse = pool_demo_parse, objset_parse = (\<lambda>_ _. Some \<lparr>op_os_type = 2, op_endian = LittleEndian\<rparr>),
     checksum_from_raw = ChecksumOther, checksum_verify = (\<lambda>_ _ _ _. None), fletcher2 = (\<lambda>_ _. (0, 0, 0, 0)), fletcher4 = (\<lambda>_ _. (0, 0, 0, 0)),
     sha256_words = (\<lambda>_. (0, 0, 0, 0)), short_read = (\<lambda>_ _ _. Inr 0)\<rparr>"

definition pool_demo_zpl :: "(unit, unit, unit, unit) zpl_lib" where
  "pool_demo_zpl = \<lparr>zap_list = (\<lambda>data. if length data = 3 then [(''f'', 0x8000000000000003)] else if length data = 5 then [(''s'', 3)] else []),
     zap_lookup = (\<lambda>data name. if length data = 1 \<and> name = ''root_dataset'' \<or> length data = 2 \<and> name = ''ROOT'' then Some 2 else None),
     ZPL_DIRENT_OBJ_MASK = 0xffffffffffff, parse_sa_registry = (\<lambda>_. ()), parse_sa_layouts = (\<lambda>_. ()), by_name = (\<lambda>_ _. None),
     size_of = (\<lambda>_ _. None), attr_ids = (\<lambda>_ _. None), decode_sa_bonus = (\<lambda>_ _ _. None), decode_znode_phys = (\<lambda>_. None)\<rparr>"

definition pool_demo_attrs :: "(unit, unit) zpl_attrs" where
  "pool_demo_attrs = \<lparr>za_size = 512, za_mode = (), za_links = (), za_uid = (), za_gid = (), za_gen = (), za_parent = (), za_flags = (),
     za_atime = (), za_mtime = (), za_ctime = (), za_crtime = (), za_unknown_attr_ids = []\<rparr>"

definition pool_demo :: "(unit, unit, unit, unit) pool_lib" where
  "pool_demo = \<lparr>pl_core = pool_demo_core, pl_codecs = plain_codecs, pl_crypto = null_crypto, pl_zpl = pool_demo_zpl,
     zap_list_arrays = (\<lambda>_. []), pl_sa_bonus = (\<lambda>_ _ _ _. Some pool_demo_attrs), pl_znode = (\<lambda>_ _. None),
     pl_default_registry = (), pl_default_layouts = ()\<rparr>"

definition pool_demo_md :: "dnode \<Rightarrow> member_dnode" where
  "pool_demo_md dn = \<lparr>pd_dnode = dn, pd_pointers = [\<lparr>pb_pointer = pool_demo_hole, pb_raw = replicate 128 0, pb_endian = LittleEndian\<rparr>]\<rparr>"

definition pool_demo_objset :: "nat \<Rightarrow> pool_objset" where
  "pool_demo_objset n = \<lparr>po_objset = \<lparr>op_os_type = 2, op_endian = LittleEndian\<rparr>, po_meta_dnode = pool_demo_md (pool_demo_dnode n [])\<rparr>"

definition pool_demo_member :: pool_member where
  "pool_demo_member = \<lparr>pm_source = \<lparr>im_len = 0, im_read = (\<lambda>_ _. Inl (Bail []))\<rparr>, pm_backup_format = [], pm_container_encryption = None,
     pm_pool_name = ''p'', pm_pool_guid = 1, pm_vdev_guid = 1, pm_vdev_type = ''disk'', pm_top_level_vdevs = 1, pm_txg = 1,
     pm_endian = LittleEndian, pm_mos = pool_demo_objset 4096\<rparr>"

lemma power_of_two_1: "is_power_of_two 1"
  unfolding is_power_of_two_def by (intro conjI bexI [of _ 0]) auto

lemma pool_demo_data:
  "read_dnode_data_with_key pool_demo src (pool_demo_md (pool_demo_dnode n bonus)) 0 key = Inr (replicate n 0)"
  by (simp add: read_dnode_data_with_key_def pool_demo_md_def pool_demo_dnode_def pool_demo_def pool_demo_core_def Let_def
      BLKPTR_SIZE_def power_of_two_1 [simplified] trailing_zeros.simps [of 1] shr_u64_def pool_demo_hole_def word_less_nat_alt)

lemma pool_demo_dnode_parse:
  assumes "pool_demo_parse (replicate n 0) LittleEndian = Some (pool_demo_dnode k bonus)" and "192 \<le> n"
  shows "pool_dnode_parse pool_demo_core (replicate n 0) LittleEndian = Inr (pool_demo_md (pool_demo_dnode k bonus))"
proof -
  have "slice (replicate n (0 :: byte)) 64 192 = replicate 128 0" using assms(2) by (simp add: slice_def)
  then show ?thesis using assms
    by (simp add: pool_dnode_parse_def pool_demo_core_def pool_demo_dnode_def pool_demo_md_def pool_pointer_parse_def parse_blkptr_def
        correct_embedded_payload_def pool_demo_hole_def get_range_def BLKPTR_SIZE_def)
qed

lemma pool_demo_object:
  assumes "pool_demo_parse (replicate (n - unat i * 512) 0) LittleEndian = Some (pool_demo_dnode k bonus)"
    and "n = blocks * 512" and "unat i < blocks" and "192 \<le> n - unat i * 512"
  shows "dnode_with_key pool_demo src (pool_demo_objset n) i key = Inr (Some (pool_demo_md (pool_demo_dnode k bonus)))"
proof -
  have "read_dnode_data_with_key pool_demo src (pool_demo_md (pool_demo_dnode n [])) 0 key = Inr (replicate n 0)"
    by (rule pool_demo_data)
  moreover have "pl_core pool_demo = pool_demo_core" by (simp add: pool_demo_def)
  moreover have "\<not> n < 512" "n div 512 = blocks" "unat i div blocks = 0" "unat i mod blocks = unat i" using assms(2,3) by auto
  moreover have "unat i * 512 \<le> n" using assms(4) by linarith
  ultimately show ?thesis
    using pool_demo_dnode_parse [OF assms(1,4)]
    by (simp add: dnode_with_key_def pool_demo_objset_def Let_def DNODE_SIZE_def pool_demo_md_def pool_demo_dnode_def)
qed

lemma pool_demo_zap:
  assumes "k \<le> 64" and "0 < k"
  shows "read_zap_object_with_key pool_demo src (pool_demo_md (pool_demo_dnode k bonus)) key = Inr (replicate k 0)"
proof -
  have "0 < 67108864 div k" using assms by (simp add: div_greater_zero_iff)
  then show ?thesis using assms pool_demo_data [of src k bonus key]
    by (simp add: read_zap_object_with_key_def Let_def MAX_ZAP_BYTES_def pool_demo_md_def pool_demo_dnode_def)
qed

lemma pool_demo_parse_at:
  "pool_demo_parse (replicate 3584 0) e = Some (pool_demo_dnode 1 [])"
  "pool_demo_parse (replicate 3072 0) e = Some (pool_demo_dnode 512 pool_demo_directory)"
  "pool_demo_parse (replicate 2560 0) e = Some (pool_demo_dnode 512 pool_demo_head)"
  "pool_demo_parse (replicate 2048 0) e = Some (pool_demo_dnode 5 [])"
  "pool_demo_parse (replicate 1536 0) e = Some (pool_demo_dnode 4096 [])"
  "pool_demo_parse (replicate 1024 0) e = Some (pool_demo_dnode 10240 [])"
  "pool_demo_parse (replicate 9728 0) e = Some (pool_demo_dnode 2 [])"
  "pool_demo_parse (replicate 9216 0) e = Some (pool_demo_dnode 3 [])"
  "pool_demo_parse (replicate 8704 0) e = Some (pool_demo_dnode 512 [])"
  by (simp_all add: pool_demo_parse_def)

lemma pool_demo_mos_dnodes:
  "dnode_with_key pool_demo src (pool_demo_objset 4096) 1 key = Inr (Some (pool_demo_md (pool_demo_dnode 1 [])))"
  "dnode_with_key pool_demo src (pool_demo_objset 4096) 2 key = Inr (Some (pool_demo_md (pool_demo_dnode 512 pool_demo_directory)))"
  "dnode_with_key pool_demo src (pool_demo_objset 4096) 3 key = Inr (Some (pool_demo_md (pool_demo_dnode 512 pool_demo_head)))"
  "dnode_with_key pool_demo src (pool_demo_objset 4096) 4 key = Inr (Some (pool_demo_md (pool_demo_dnode 5 [])))"
  by (rule pool_demo_object [where blocks = 8]; simp add: pool_demo_parse_at del: One_nat_def)+

lemma pool_demo_zpl_objects:
  "dnode_with_key pool_demo src (pool_demo_objset 10240) 1 key = Inr (Some (pool_demo_md (pool_demo_dnode 2 [])))"
  "dnode_with_key pool_demo src (pool_demo_objset 10240) 2 key = Inr (Some (pool_demo_md (pool_demo_dnode 3 [])))"
  "dnode_with_key pool_demo src (pool_demo_objset 10240) 3 key = Inr (Some (pool_demo_md (pool_demo_dnode 512 [])))"
  by (rule pool_demo_object [where blocks = 20]; simp add: pool_demo_parse_at)+

text \<open>The members that show this pool.\<close>

definition shows_demo :: "pool_member \<Rightarrow> bool" where
  "shows_demo m \<longleftrightarrow> pm_pool_name m = ''p'' \<and> po_meta_dnode (pm_mos m) = pool_demo_md (pool_demo_dnode 4096 []) \<and>
     op_endian (po_objset (pm_mos m)) = LittleEndian"

lemma shows_demo_member: "shows_demo pool_demo_member"
  by (simp add: shows_demo_def pool_demo_member_def pool_demo_objset_def)

lemma pool_demo_mos:
  assumes "shows_demo m"
  shows "mos_object pool_demo m 1 a = Inr (pool_demo_md (pool_demo_dnode 1 []))"
    and "mos_object pool_demo m 2 a = Inr (pool_demo_md (pool_demo_dnode 512 pool_demo_directory))"
    and "mos_object pool_demo m 3 a = Inr (pool_demo_md (pool_demo_dnode 512 pool_demo_head))"
    and "mos_object pool_demo m 4 a = Inr (pool_demo_md (pool_demo_dnode 5 []))"
proof -
  have meta: "po_meta_dnode (pm_mos m) = po_meta_dnode (pool_demo_objset 4096)"
    and endian: "op_endian (po_objset (pm_mos m)) = op_endian (po_objset (pool_demo_objset 4096))"
    using assms by (simp_all add: shows_demo_def pool_demo_objset_def)
  have "dnode_with_key pool_demo (pm_source m) (pm_mos m) = dnode_with_key pool_demo (pm_source m) (pool_demo_objset 4096)"
    by (intro ext) (simp only: dnode_with_key_def meta endian)
  note simps = mos_object_def mos_dnode_def this pool_demo_mos_dnodes and_then_simps ok_or_simps
  show "mos_object pool_demo m 1 a = Inr (pool_demo_md (pool_demo_dnode 1 []))"
    and "mos_object pool_demo m 2 a = Inr (pool_demo_md (pool_demo_dnode 512 pool_demo_directory))"
    and "mos_object pool_demo m 3 a = Inr (pool_demo_md (pool_demo_dnode 512 pool_demo_head))"
    and "mos_object pool_demo m 4 a = Inr (pool_demo_md (pool_demo_dnode 5 []))"
    by (simp_all only: simps)
qed

lemma le_zeros: "from_le_bytes (replicate n 0) = (0 :: 'a::len word)"
proof -
  have "le_nat (replicate n 0) = 0" by (induction n) simp_all
  then show ?thesis by (simp add: from_le_bytes_def)
qed

lemma pool_demo_bonus:
  "bonus_u64 pl (pool_demo_md (pool_demo_dnode n pool_demo_directory)) 8 = Inr 3"
  "bonus_u64 pl (pool_demo_md (pool_demo_dnode n pool_demo_directory)) 32 = Inr 0"
  "dataset_guid pl (pool_demo_md (pool_demo_dnode n pool_demo_head)) = Inr 0"
  "bonus_u64 pl (pool_demo_md (pool_demo_dnode n pool_demo_head)) 32 = Inr 4"
  "bonus_u64 pl (pool_demo_md (pool_demo_dnode n pool_demo_head)) 48 = Inr 0"
  "bonus_u64 pl (pool_demo_md (pool_demo_dnode n pool_demo_head)) 56 = Inr 0"
proof -
  have s: "slice pool_demo_directory 8 16 = [3, 0, 0, 0, 0, 0, 0, 0]" "slice pool_demo_directory 32 40 = replicate 8 0"
    "slice pool_demo_head 112 120 = replicate 8 0" "slice pool_demo_head 32 40 = [4, 0, 0, 0, 0, 0, 0, 0]"
    "slice pool_demo_head 48 56 = replicate 8 0" "slice pool_demo_head 56 64 = replicate 8 0" "length pool_demo_directory = 40" "length pool_demo_head = 256"
    by (simp_all add: pool_demo_directory_def pool_demo_head_def slice_def)
  have "(from_le_bytes [3, 0, 0, 0, 0, 0, 0, 0] :: u64) = 3" "(from_le_bytes [4, 0, 0, 0, 0, 0, 0, 0] :: u64) = 4" by (simp_all add: from_le_bytes_def)
  then show "bonus_u64 pl (pool_demo_md (pool_demo_dnode n pool_demo_directory)) 8 = Inr 3"
    "bonus_u64 pl (pool_demo_md (pool_demo_dnode n pool_demo_directory)) 32 = Inr 0"
    "dataset_guid pl (pool_demo_md (pool_demo_dnode n pool_demo_head)) = Inr 0"
    "bonus_u64 pl (pool_demo_md (pool_demo_dnode n pool_demo_head)) 32 = Inr 4"
    "bonus_u64 pl (pool_demo_md (pool_demo_dnode n pool_demo_head)) 48 = Inr 0"
    "bonus_u64 pl (pool_demo_md (pool_demo_dnode n pool_demo_head)) 56 = Inr 0"
    by (simp_all add: dataset_guid_def bonus_u64_def reader_u64_def word_at_def pool_demo_md_def pool_demo_dnode_def s le_zeros)
qed

definition pool_demo_dataset :: dataset_info where
  "pool_demo_dataset = \<lparr>di_name = ''p'', di_dsl_dir_object = 2, di_head_dataset_object = 3, di_head_guid = guid_string 0\<rparr>"

lemma pool_demo_visit: "shows_demo m \<Longrightarrow> dataset_visit pool_demo m (2, ''p'') = Inr ([pool_demo_dataset], [])"
  by (simp add: dataset_visit_def pool_demo_mos pool_demo_bonus dataset_head_def dataset_children_def pool_demo_dataset_def)

lemma pool_demo_datasets:
  assumes "shows_demo m"
  shows "datasets pool_demo m = Inr [pool_demo_dataset]"
proof -
  have z: "read_zap_object pool_demo m (pool_demo_md (pool_demo_dnode 1 [])) = Inr [0]"
    using pool_demo_zap [of 1] by (simp add: read_zap_object_def)
  have l: "zap_lookup (pl_zpl pool_demo) [0] ''root_dataset'' = Some 2" "pm_pool_name m = ''p''"
    using assms by (simp_all add: pool_demo_def pool_demo_zpl_def shows_demo_def)
  have w: "dataset_walk pool_demo m [(2, ''p'')] [] [] = Inr [pool_demo_dataset]"
    by (subst dataset_walk.simps) (simp add: pool_demo_visit [OF assms] MAX_DATASETS_def bs_insert_def bs_elems_def bt_keys_def)
  show ?thesis by (simp add: datasets_def pool_demo_mos [OF assms] z l w del: One_nat_def)
qed

lemma pool_demo_pointer:
  assumes "shows_demo m"
  shows "dataset_pointer pool_demo m 3 = Inr (replicate 128 0, LittleEndian)"
  by (simp add: dataset_pointer_def pool_demo_mos [OF assms] get_range_def slice_def pool_demo_md_def pool_demo_dnode_def pool_demo_head_def)

lemma pool_demo_plain: "\<not> blkptr_uses_crypt (replicate 128 0) LittleEndian"
  by (simp add: blkptr_uses_crypt_def word_at_def slice_def le_zeros)

lemma pool_demo_select: "shows_demo m \<Longrightarrow> select_dataset pool_demo m ''p'' = Inr (pool_demo_dataset, 3, None)"
  by (simp add: select_dataset_def split_once_def pool_demo_datasets) (simp add: pool_demo_dataset_def)

definition pool_demo_view :: "(unit, unit) dataset_view_state" where
  "pool_demo_view = \<lparr>vw_zpl = pool_demo_objset 10240, vw_registry = (), vw_layouts = (), vw_root_id = 2, vw_snapshot_guid = None, vw_key = None\<rparr>"

lemma pool_demo_dataset_view: "dataset_view pool_demo pool_demo_member ''p'' None = Inr pool_demo_view"
proof -
  note s = pool_demo_select [OF shows_demo_member] and p = pool_demo_pointer [OF shows_demo_member] and c = pool_demo_plain
  have pp: "pool_pointer_parse pool_demo_core (replicate 128 0) LittleEndian =
      Inr \<lparr>pb_pointer = pool_demo_hole, pb_raw = replicate 128 0, pb_endian = LittleEndian\<rparr>"
    by (simp add: pool_pointer_parse_def get_range_def slice_def BLKPTR_SIZE_def parse_blkptr_def pool_demo_core_def
        correct_embedded_payload_def pool_demo_hole_def)
  have r: "read_pool_block_from pool_demo_core z k src 0 \<lparr>pb_pointer = pool_demo_hole, pb_raw = replicate 128 0, pb_endian = LittleEndian\<rparr> None =
      Inr (replicate 1024 0)" for z k src
    using c by (simp add: read_pool_block_from_def uses_crypt_def read_block_from_def pool_demo_hole_def pool_demo_core_def)
  have o: "pool_objset_parse pool_demo_core (replicate 1024 0) LittleEndian = Inr (pool_demo_objset 10240)"
    using pool_demo_dnode_parse [of 1024 10240 "[]"]
    by (simp add: pool_objset_parse_def pool_demo_parse_at pool_demo_objset_def pool_demo_core_def)
  have core: "pl_core pool_demo = pool_demo_core" "op_os_type (po_objset (pool_demo_objset 10240)) = DMU_OST_ZFS pool_demo_core"
    "zap_lookup (pl_zpl pool_demo) (replicate 2 0) ''ROOT'' = Some 2" "zap_lookup (pl_zpl pool_demo) (replicate 2 0) ''SA_ATTRS'' = None"
    by (simp_all add: pool_demo_def pool_demo_objset_def pool_demo_core_def pool_demo_zpl_def)
  show ?thesis
    using pool_demo_zpl_objects(1) pool_demo_zap [of 2]
    by (simp add: dataset_view_def s p view_key_def c pp r o core view_object_def view_zap_def ZPL_MASTER_NODE_OBJ_def
        pool_sa_context_def pool_demo_view_def)
qed

definition pool_demo_file :: resolved_pool_path where
  "pool_demo_file = \<lparr>rq_normalized_path = ''/f'', rq_object_id = 3, rq_dirent_type = 8, rq_logical_size = 512,
     rq_dnode = pool_demo_md (pool_demo_dnode 512 [])\<rparr>"

lemma pool_demo_regular_file: "pool_regular_file pool_demo pool_demo_member ''p'' ''/f'' None = Inr (pool_demo_view, pool_demo_file)"
proof -
  have n: "normalize_path ''/f'' = Inr ''/f''" "components ''/f'' = [''f'']"
    by (simp_all add: normalize_path_def components_def)
  have v: "vw_zpl pool_demo_view = pool_demo_objset 10240" "vw_key pool_demo_view = None" "vw_root_id pool_demo_view = 2"
    by (simp_all add: pool_demo_view_def)
  have z: "zap_list (pl_zpl pool_demo) (replicate 3 0) = [(''f'', 0x8000000000000003)]"
    "dirent_object (pl_zpl pool_demo) 0x8000000000000003 = 3" "dirent_kind 0x8000000000000003 = 8"
    by (simp_all add: pool_demo_def pool_demo_zpl_def dirent_object_def dirent_kind_def)
  have c: "pool_component pool_demo pool_demo_member pool_demo_view ''f'' (2, 4) = Inr (3, 8)"
    using pool_demo_zap [of 3] by (simp add: pool_component_def view_object_def view_zap_def v pool_demo_zpl_objects z)
  have a: "pool_attrs pool_demo (pd_dnode (pool_demo_md (pool_demo_dnode 512 []))) r l = Some pool_demo_attrs" for r l
    by (simp add: pool_attrs_def pool_demo_md_def pool_demo_dnode_def POOL_OT_SA_def pool_demo_def)
  have "pool_resolve_path pool_demo pool_demo_member pool_demo_view ''/f'' = Inr pool_demo_file"
    by (simp add: pool_resolve_path_def n v c a view_object_def pool_demo_zpl_objects pool_demo_file_def pool_demo_attrs_def)
  then show ?thesis by (simp add: pool_regular_file_def pool_demo_dataset_view) (simp add: pool_demo_file_def)
qed

lemma pool_demo_temporary:
  "pool_temporary pool_demo src demo_env pool_demo_file out None = Inr (replicate 512 0, ev_sha256 demo_env (replicate 512 0))"
proof -
  have d: "record_size pool_demo_file = 512" "dn_maxblkid (pd_dnode (rq_dnode pool_demo_file)) = 0" "rq_logical_size pool_demo_file = 512"
    by (simp_all add: pool_demo_file_def pool_demo_md_def pool_demo_dnode_def)
  have "chunks CHUNK_SIZE (replicate 512 (0 :: byte)) = [replicate 512 0]"
    by (subst chunks.simps) (simp add: CHUNK_SIZE_def chunks.simps)
  then have w: "sparse_write_extent ideal_os 0 (replicate 512 0) [] = Inr []"
    by (simp add: sparse_write_extent_def list_all_iff zero_range_def checked_add_def)
  have l: "set_len ideal_os 512 [] = Inr (replicate 512 0)" by (simp add: set_len_def ideal_os_def resize_def)
  have b: "read_dnode_data_with_key pool_demo src (rq_dnode pool_demo_file) 0 None = Inr (replicate 512 0)"
    by (simp add: pool_demo_file_def pool_demo_data)
  have "pool_write_block pool_demo src ideal_os pool_demo_file None 0 (512, [], []) = Inr (0, [], replicate 512 0)"
    by (simp add: pool_write_block_def d b write_file_record_def w Let_def)
  moreover have "div_ceil 512 512 = 1" by (simp add: div_ceil_def)
  ultimately have "pool_write_file pool_demo src ideal_os pool_demo_file None = Inr ([], replicate 512 0)"
    by (simp add: pool_write_file_def d Let_def)
  then show ?thesis by (simp add: pool_temporary_def d l demo_env_def)
qed

lemma pool_demo_extract:
  "\<exists>disk' px. pool_extract_with_key pool_demo pool_demo_member demo_env (\<lambda>_. Inr ()) ''p'' ''/f'' ''out'' False None Map.empty = (disk', Inr px) \<and>
     px_logical_size px = 512 \<and> disk' ''out'' = Some (replicate 512 0)"
proof -
  have v: "vw_key pool_demo_view = None" "vw_snapshot_guid pool_demo_view = None" "ev_persist demo_env = (\<lambda>_. Inr ())"
    by (simp_all add: pool_demo_view_def demo_env_def)
  show ?thesis
    by (simp add: pool_extract_with_key_def pool_demo_regular_file v pool_demo_temporary persist_replace_def pool_finish_def sidecar_path_def)
      (simp add: pool_demo_file_def)
qed

section \<open>Properties\<close>

text \<open>C5: A file of the pool reads the same whether it is extracted or opened as a disk image. When
  the extraction of a non-empty file succeeds, the output holds its logical size of bytes, the
  reported digest is the digest of exactly these bytes, no other file changes apart from the sidecar,
  and opening the file as an image gives a reader for which every read within the file returns the
  extracted bytes, and which fails without a panic on every other.\<close>

theorem pool_images_read_what_extraction_writes:
  assumes "posix_files (ev_os ev)"
    and "pool_extract_with_key pl m ev remove selector path out force key_material disk = (disk', Inr px)"
    and "px_logical_size px \<noteq> 0"
  shows "\<exists>img d. into_image_file_with_key pl m selector path key_material = Inr img \<and> disk' out = Some d \<and>
     length d = unat (px_logical_size px) \<and> px_sha256 px = ev_sha256 ev d \<and>
     (\<forall>off n. unat off + n \<le> length d \<longrightarrow> im_read img off n = Inr (slice d (unat off) (unat off + n))) \<and>
     (\<forall>off n. n < 2 ^ 64 \<longrightarrow> length d < unat off + n \<longrightarrow> no_panic (im_read img off n) \<and> isl (im_read img off n)) \<and>
     (\<forall>p. p \<noteq> out \<longrightarrow> p \<noteq> sidecar_path out \<longrightarrow> disk' p = disk p)"
proof -
  from pool_extract_steps [OF assms(1,2)] obtain view resolved d sha where
      f: "pool_regular_file pl m selector path key_material = Inr (view, resolved)"
    and t: "pool_temporary pl (pm_source m) ev resolved out (vw_key view) = Inr (d, sha)"
    and out: "disk' out = Some (pool_file_bytes pl (pm_source m) resolved (vw_key view))"
      "px_sha256 px = ev_sha256 ev (pool_file_bytes pl (pm_source m) resolved (vw_key view))"
      "px_logical_size px = rq_logical_size resolved" "\<forall>p. p \<noteq> out \<longrightarrow> p \<noteq> sidecar_path out \<longrightarrow> disk' p = disk p"
    by blast
  let ?img = "pool_image_file pl (pm_source m) resolved (vw_key view)"
  have d: "d = pool_file_bytes pl (pm_source m) resolved (vw_key view)" by (rule pool_temporary_bytes [OF assms(1) t])
  have c: "complete_image ?img d" by (rule pool_temporary_image [OF assms(1) t]) (use assms(3) out(3) in simp)
  have ic: "image_contract ?img d" using c by (rule complete_image.axioms)
  have len: "length d = unat (px_logical_size px)" using out(3) by (simp add: d pool_file_bytes_def)
  have hit: "im_read ?img off n = Inr (slice d (unat off) (unat off + n))" if le: "unat off + n \<le> length d" for off n
  proof -
    have "n < 2 ^ 64" using le len unat_less_u64 [of "px_logical_size px"] by simp
    then show ?thesis using complete_image.image_complete [OF c le] image_contract.image_read [OF ic] by fastforce
  qed
  have "no_panic (im_read ?img off n) \<and> isl (im_read ?img off n)" if "n < 2 ^ 64" "length d < unat off + n" for off n
    using image_contract.image_no_panic [OF ic that(1), of off] image_contract.image_read [OF ic that(1), of off] that(2)
    by (cases "im_read ?img off n") auto
  moreover have "into_image_file_with_key pl m selector path key_material = Inr ?img"
    using f by (simp add: into_image_file_with_key_def)
  ultimately show ?thesis using out hit len d by (intro exI [of _ ?img] exI [of _ d]) simp
qed

theorem pool_images_read_what_extraction_writes_witness:
  "\<exists>img disk' px. pool_extract_with_key pool_demo pool_demo_member demo_env (\<lambda>_. Inr ()) ''p'' ''/f'' ''out'' False None Map.empty = (disk', Inr px) \<and>
     into_image_file_with_key pool_demo pool_demo_member ''p'' ''/f'' None = Inr img \<and>
     disk' ''out'' = Some (replicate 512 0) \<and> im_read img 1 3 = Inr [0, 0, 0]"
proof -
  from pool_demo_extract obtain disk' px where x: "pool_extract_with_key pool_demo pool_demo_member demo_env (\<lambda>_. Inr ()) ''p'' ''/f'' ''out'' False None Map.empty =
      (disk', Inr px)" and px: "px_logical_size px = 512" "disk' ''out'' = Some (replicate 512 0)" by blast
  have "posix_files (ev_os demo_env)" by (simp add: demo_env_def ideal.posix_files_axioms)
  from pool_images_read_what_extraction_writes [OF this x] px obtain img where
      "into_image_file_with_key pool_demo pool_demo_member ''p'' ''/f'' None = Inr img"
    and r: "\<forall>off n. unat off + n \<le> 512 \<longrightarrow> im_read img off n = Inr (slice (replicate 512 0) (unat off) (unat off + n))"
    by auto
  moreover have "im_read img 1 3 = Inr [0, 0, 0]" using r [THEN spec, of 1, THEN spec, of 3] by (simp add: slice_def numeral_nat)
  ultimately show ?thesis using x px(2) by blast
qed

end
