(* ===== verification/Pool_Members.thy ===== *)
theory Pool_Members
  imports Pool_Reads
begin

text \<open>
  Properties of opened pool members: the walk over the DSL directories finds exactly the reachable
  ones, blocks are only returned when a copy passed its checks, and a member is only opened when its
  labels are consistent.
\<close>

section \<open>The walk over the DSL directories\<close>

text \<open>The directories a walk can reach, each with the name of the path it was reached on.\<close>

inductive dsl_reachable :: "('r, 'l, 'i, 'v) pool_lib \<Rightarrow> pool_member \<Rightarrow> u64 \<Rightarrow> u64 \<Rightarrow> string \<Rightarrow> bool"
  for pl m root where
  top: "dsl_reachable pl m root root (pm_pool_name m)"
| child: "dsl_reachable pl m root d name \<Longrightarrow> dataset_visit pl m (d, name) = Inr (info, children) \<Longrightarrow>
    (c, cname) \<in> set children \<Longrightarrow> dsl_reachable pl m root c cname"

lemma visit_children:
  assumes "dataset_visit pl m (d, name) = Inr (info, children)"
  shows "\<exists>info' children'. dataset_visit pl m (d, name') = Inr (info', children') \<and> map fst children' = map fst children"
proof -
  have h: "dataset_head pl m d name h = Inr i \<Longrightarrow> \<exists>i'. dataset_head pl m d name' h = Inr i'" for h i
    by (auto simp: dataset_head_def result_simps split: if_splits)
  have c: "dataset_children pl m name z = Inr cs \<Longrightarrow> \<exists>cs'. dataset_children pl m name' z = Inr cs' \<and> map fst cs' = map fst cs" for z cs
    by (auto simp: dataset_children_def result_simps split: if_splits)
  from assms obtain directory hd_object zap where "mos_object pl m d ''DSL directory object {dsl_dir_object} is absent'' = Inr directory"
    "bonus_u64 pl directory 8 = Inr hd_object" "bonus_u64 pl directory 32 = Inr zap"
    "dataset_head pl m d name hd_object = Inr info" "dataset_children pl m name zap = Inr children"
    by (auto simp: dataset_visit_def result_simps)
  with h c show ?thesis by (fastforce simp: dataset_visit_def result_simps)
qed

lemma visit_info:
  assumes "dataset_visit pl m (d, name) = Inr (info, children)"
  shows "info = [] \<or> (\<exists>x. info = [x] \<and> di_dsl_dir_object x = d \<and> di_name x = name)"
  using assms by (auto simp: dataset_visit_def dataset_head_def result_simps split: if_splits)

text \<open>The state of the walk: what is still to visit was reached, every visited directory has its
  dataset listed and its children visited or queued, and nothing is listed twice.\<close>

definition walk_inv :: "('r, 'l, 'i, 'v) pool_lib \<Rightarrow> pool_member \<Rightarrow> u64 \<Rightarrow> (u64 \<times> string) list \<Rightarrow> u64 btset \<Rightarrow> dataset_info list \<Rightarrow> bool" where
  "walk_inv pl m root queue seen acc \<longleftrightarrow>
     bt_wf seen \<and> card (bs_elems seen) \<le> MAX_DATASETS \<and> (root \<in> bs_elems seen \<or> root \<in> fst ` set queue) \<and>
     (\<forall>(d, name) \<in> set queue. dsl_reachable pl m root d name) \<and>
     (\<forall>d \<in> bs_elems seen. \<exists>name info children. dsl_reachable pl m root d name \<and>
        dataset_visit pl m (d, name) = Inr (info, children) \<and> set info \<subseteq> set acc \<and>
        fst ` set children \<subseteq> bs_elems seen \<union> fst ` set queue) \<and>
     (\<forall>x \<in> set acc. di_dsl_dir_object x \<in> bs_elems seen \<and> dsl_reachable pl m root (di_dsl_dir_object x) (di_name x) \<and>
        (\<exists>children. dataset_visit pl m (di_dsl_dir_object x, di_name x) = Inr ([x], children))) \<and>
     distinct (map di_dsl_dir_object acc)"

lemma walk_inv_skip:
  assumes "walk_inv pl m root ((d, name) # queue) seen acc" and "d \<in> bs_elems seen"
  shows "walk_inv pl m root queue seen acc"
proof -
  have eq: "bs_elems seen \<union> fst ` set ((d, name) # queue) = bs_elems seen \<union> fst ` set queue" using assms(2) by auto
  have "root \<in> bs_elems seen \<or> root \<in> fst ` set queue" using assms by (auto simp: walk_inv_def)
  moreover have "\<forall>(d, name) \<in> set queue. dsl_reachable pl m root d name" using assms(1) by (auto simp: walk_inv_def)
  ultimately show ?thesis using assms(1) unfolding walk_inv_def eq by (elim conjE, intro conjI) assumption+
qed

lemma walk_inv_visit:
  assumes "walk_inv pl m root ((d, name) # queue) seen acc" and new: "d \<notin> bs_elems seen"
    and "\<not> length (bs_insert d seen) > MAX_DATASETS" and v: "dataset_visit pl m (d, name) = Inr (info, children)"
  shows "walk_inv pl m root (queue @ children) (bs_insert d seen) (acc @ info)"
proof -
  note inv = assms(1) [unfolded walk_inv_def]
  have wf: "bt_wf seen" and r: "dsl_reachable pl m root d name" using inv by auto
  have card: "card (bs_elems (bs_insert d seen)) \<le> MAX_DATASETS" using assms(3) wf by (simp add: length_bs)
  have q: "dsl_reachable pl m root c n" if "(c, n) \<in> set (queue @ children)" for c n
    using that inv dsl_reachable.child [OF r v] by auto
  have seen: "\<exists>name info' children'. dsl_reachable pl m root x name \<and> dataset_visit pl m (x, name) = Inr (info', children') \<and>
      set info' \<subseteq> set (acc @ info) \<and> fst ` set children' \<subseteq> bs_elems (bs_insert d seen) \<union> fst ` set (queue @ children)"
    if "x \<in> bs_elems (bs_insert d seen)" for x
  proof (cases "x = d")
    case True
    then show ?thesis using r v by fastforce
  next
    case False
    then have "x \<in> bs_elems seen" using that wf by simp
    then obtain n i c where "dsl_reachable pl m root x n" "dataset_visit pl m (x, n) = Inr (i, c)" "set i \<subseteq> set acc"
      "fst ` set c \<subseteq> bs_elems seen \<union> fst ` set ((d, name) # queue)" using inv by blast
    then show ?thesis using wf by (intro exI [of _ n] exI [of _ i] exI [of _ c]) auto
  qed
  have listed: "di_dsl_dir_object x \<in> bs_elems (bs_insert d seen) \<and> dsl_reachable pl m root (di_dsl_dir_object x) (di_name x) \<and>
      (\<exists>children. dataset_visit pl m (di_dsl_dir_object x, di_name x) = Inr ([x], children))" if "x \<in> set (acc @ info)" for x
    using that inv wf visit_info [OF v] r v by auto
  have "distinct (map di_dsl_dir_object (acc @ info))"
    using inv visit_info [OF v] new by auto
  then show ?thesis
    using card q seen listed inv wf unfolding walk_inv_def by auto
qed

lemma dataset_walk_inv:
  "dataset_walk pl m queue seen acc = Inr ds \<Longrightarrow> walk_inv pl m root queue seen acc \<Longrightarrow> \<exists>seen'. walk_inv pl m root [] seen' ds"
proof (induction pl m queue seen acc rule: dataset_walk.induct)
  case (2 pl m d name queue seen acc)
  show ?case
  proof (cases "bs_contains seen d")
    case True
    then show ?thesis using 2 walk_inv_skip by (fastforce simp: dataset_walk.simps(2))
  next
    case False
    with "2.prems"(1) obtain info children where len: "\<not> length (bs_insert d seen) > MAX_DATASETS"
      and v: "dataset_visit pl m (d, name) = Inr (info, children)"
      and rest: "dataset_walk pl m (queue @ children) (bs_insert d seen) (acc @ info) = Inr ds"
      by (auto simp: dataset_walk.simps(2) Let_def result_simps split: if_splits)
    have "walk_inv pl m root (queue @ children) (bs_insert d seen) (acc @ info)"
      by (rule walk_inv_visit [OF "2.prems"(2) _ len v]) (use False in simp)
    from "2.IH"(2) [OF False refl len v refl rest this] show ?thesis .
  qed
qed auto

lemma walk_complete:
  assumes "walk_inv pl m root [] seen ds" and "dsl_reachable pl m root d name"
  shows "d \<in> bs_elems seen"
  using assms(2)
proof (induction rule: dsl_reachable.induct)
  case top
  then show ?case using assms(1) by (simp add: walk_inv_def)
next
  case (child d name info children c cname)
  from child.IH assms(1) obtain name' info' children' where v: "dataset_visit pl m (d, name') = Inr (info', children')"
    and sub: "fst ` set children' \<subseteq> bs_elems seen" unfolding walk_inv_def by fastforce
  from visit_children [OF child.hyps(2), of name'] v have "map fst children' = map fst children" by auto
  then have "fst ` set children' = fst ` set children" by (metis list.set_map)
  with child.hyps(3) sub show ?case by force
qed

section \<open>Copies of a block\<close>

lemma first_copy_Inr:
  "first_copy msg rd dvas = Inr data \<Longrightarrow> \<exists>dva \<in> set dvas. rd dva = Inr (Some data)"
  by (induction dvas) (auto simp: result_simps split: option.splits)

lemma first_copy_reads:
  "(\<And>dva. dva \<in> set dvas \<Longrightarrow> \<exists>r. rd dva = Inr r) \<Longrightarrow> dva \<in> set dvas \<Longrightarrow> rd dva = Inr (Some data) \<Longrightarrow>
   \<exists>data'. first_copy msg rd dvas = Inr data'"
proof (induction dvas)
  case (Cons d dvas)
  from Cons.prems(1) [of d] obtain r where r: "rd d = Inr r" by auto
  show ?case
  proof (cases r)
    case None
    with r Cons.prems(2,3) have "dva \<in> set dvas" by auto
    then show ?thesis using Cons r None by auto
  qed (use r in simp)
qed simp

definition verified_copy :: "zfs_core \<Rightarrow> codecs \<Rightarrow> image \<Rightarrow> u32 \<Rightarrow> blkptr \<Rightarrow> byte list \<Rightarrow> dva \<Rightarrow> bool" where
  "verified_copy zc z src vdev p data dva \<longleftrightarrow> addressable vdev dva \<and>
     (\<exists>raw. im_read src (dv_offset dva) (bk_psize p) = Inr raw \<and>
        checksum_verify zc (checksum_from_raw zc (bk_checksum p)) (bk_byteorder p) raw (bk_checksum_words p) \<noteq> Some False \<and>
        decompress_block z (bk_compression p) raw (of_nat (bk_lsize p)) = Inr data)"


lemma plain_copy_Some: "plain_copy zc z src vdev p dva = Inr (Some data) \<longleftrightarrow> verified_copy zc z src vdev p data dva"
  by (auto simp: plain_copy_def verified_copy_def result_simps split: if_splits option.splits)


lemma plain_copy_total:
  assumes "image_contract src content" and "bk_psize p < 2 ^ 64"
  shows "\<exists>r. plain_copy zc z src vdev p dva = Inr r"
proof -
  have att: "attempt r \<noteq> Inl e" if "no_panic r" for r :: "byte list result" and e
    using that by (auto simp: attempt_def no_panic_Inl split: sum.splits error.splits)
  have "plain_copy zc z src vdev p dva \<noteq> Inl e" for e
    using att [OF image_contract.image_no_panic [OF assms]] att [OF no_panic_decompress(1)]
    by (auto simp: plain_copy_def and_then_Inl_iff split: option.splits)
  then show ?thesis by (cases "plain_copy zc z src vdev p dva") auto
qed

lemma one_good_copy_is_enough:
  assumes "image_contract src content" and "bk_psize p < 2 ^ 64" and "dva \<in> set (bk_dvas p)" and "verified_copy zc z src vdev p data dva"
    and "0 < bk_lsize p" "bk_lsize p \<le> MAX_BLOCK_SIZE zc" "0 < bk_psize p" "bk_psize p \<le> MAX_BLOCK_SIZE zc"
    and "\<not> unsupported_checksum (checksum_from_raw zc (bk_checksum p))" "\<not> bk_embedded p" "\<not> bk_hole p"
  shows "\<exists>data'. read_block_from zc z src vdev p = Inr data'"
  using first_copy_reads [of "bk_dvas p" "plain_copy zc z src vdev p", OF plain_copy_total [OF assms(1,2)] assms(3)] assms(4-)
  by (simp add: plain_copy_Some read_block_from_def)

section \<open>Opening\<close>

lemma read_labels_sound:
  assumes "read_labels zc src = Inr parsed"
  shows "\<forall>(off, l) \<in> set parsed. \<exists>bytes. im_read src off (LABEL_SIZE zc) = Inr bytes \<and> label_parse zc bytes = Some l"
proof -
  obtain front rear where "label_offsets zc (im_len src) = (front, rear)" by force
  with assms have "try_fold (\<lambda>off parsed.
        and_then (attempt (im_read src off (LABEL_SIZE zc))) (\<lambda>bytes.
        case Option.bind bytes (label_parse zc) of None \<Rightarrow> Inr parsed | Some label \<Rightarrow> Inr (parsed @ [(off, label)])))
      [] (front @ (case rear of None \<Rightarrow> [] | Some offs \<Rightarrow> offs)) = Inr parsed"
    by (simp add: read_labels_def)
  then show ?thesis
    by (rule try_fold_invariant) (auto simp: result_simps split: option.splits bind_splits)
qed

text \<open>A candidate holds the labels of its own source, and was decrypted only with a key.\<close>

definition candidate_ok :: "zfs_core \<Rightarrow> byte list option \<Rightarrow> candidate \<Rightarrow> bool" where
  "candidate_ok zc container_key c \<longleftrightarrow> (case c of (src, labels, encryption) \<Rightarrow>
     read_labels zc src = Inr labels \<and> (encryption \<noteq> None \<longrightarrow> container_key \<noteq> None))"

lemma open_partition_ok:
  assumes "open_partition pe s container_key part (candidates, locked) = Inr (candidates', locked')"
    and "list_all (candidate_ok (pe_core pe) container_key) candidates"
  shows "list_all (candidate_ok (pe_core pe) container_key) candidates'"
proof -
  from assms(1) obtain r where "attempt (file_source_slice (pe_core pe) (pe_host pe) s (gp_offset part) (gp_length part)) = Inr r"
    by (auto simp: open_partition_def result_simps)
  note step = assms(1) [unfolded open_partition_def this prod.case and_then_simps]
  show ?thesis
  proof (cases r)
    case (Some sliced)
    let ?src = "file_source_image (pe_device pe) sliced"
    from step Some obtain labels where labels: "read_labels (pe_core pe) ?src = Inr labels" by (auto simp: Let_def result_simps)
    show ?thesis
    proof (cases "labels = []")
      case True
      with step Some labels obtain luks where luks: "is_luks ?src = Inr luks" by (auto simp: Let_def result_simps)
      show ?thesis
      proof (cases container_key)
        case (Some key)
        then show ?thesis using step assms(2) \<open>r = Some sliced\<close> labels True luks
          by (cases luks) (auto simp: Let_def result_simps candidate_ok_def split: option.splits if_splits)
      qed (use step assms(2) \<open>r = Some sliced\<close> labels True luks in \<open>auto simp: Let_def split: if_splits\<close>)
    qed (use step assms(2) Some labels in \<open>auto simp: Let_def candidate_ok_def\<close>)
  qed (use step assms(2) in auto)
qed

lemma open_source_ok:
  assumes "open_source pe path container_key = Inr (src, labels, encryption)"
  shows "read_labels (pe_core pe) src = Inr labels \<and> (container_key = None \<longleftrightarrow> encryption = None)"
proof -
  from assms obtain s parsed partitions where
      whole: "read_labels (pe_core pe) (file_source_image (pe_device pe) s) = Inr parsed"
    and rest: "(if parsed \<noteq> [] \<and> partitions = [] then
       (if container_key \<noteq> None then Inl (Bail ''a container key was supplied, but {} is not LUKS-encrypted'')
        else Inr (file_source_image (pe_device pe) s, parsed, None))
     else and_then (is_luks (file_source_image (pe_device pe) s)) (\<lambda>luks.
     if luks then
       and_then (ok_or container_key (Bail ''{} is a LUKS-encrypted pool source; provide its container passphrase file'')) (\<lambda>key.
       and_then (unlock_luks (pe_luks pe) (file_source_image (pe_device pe) s) key) (\<lambda>(src, description).
       and_then (read_labels (pe_core pe) src) (\<lambda>labels. Inr (src, labels, Some description))))
     else
       and_then (try_fold (open_partition pe s container_key) ([], 0) partitions) (\<lambda>(candidates, locked_luks).
       choose_candidate container_key candidates locked_luks))) = Inr (src, labels, encryption)"
    by (auto simp: open_source_def Let_def result_simps)
  have chosen: "candidate_ok (pe_core pe) container_key (src, labels, encryption)"
    if "try_fold (open_partition pe s container_key) ([], 0) partitions = Inr (candidates, locked)"
      and "choose_candidate container_key candidates locked = Inr (src, labels, encryption)" for candidates locked
  proof -
    have "list_all (candidate_ok (pe_core pe) container_key) (fst (candidates, locked))"
      by (rule try_fold_invariant [OF that(1), where P = "\<lambda>st. list_all (candidate_ok (pe_core pe) container_key) (fst st)"])
        (use open_partition_ok in auto)
    then show ?thesis using that(2) by (auto simp: choose_candidate_def split: if_splits list.splits)
  qed
  moreover have "container_key = None \<or> encryption \<noteq> None"
    if "choose_candidate container_key candidates locked = Inr (src, labels, encryption)" for candidates locked
    using that by (auto simp: choose_candidate_def split: if_splits list.splits)
  ultimately have chosen: "read_labels (pe_core pe) src = Inr labels \<and> (container_key = None \<longleftrightarrow> encryption = None)"
    if "try_fold (open_partition pe s container_key) ([], 0) partitions = Inr (candidates, locked)"
      and "choose_candidate container_key candidates locked = Inr (src, labels, encryption)" for candidates locked
    using that by (fastforce simp: candidate_ok_def)
  show ?thesis
  proof (cases "parsed \<noteq> [] \<and> partitions = []")
    case True
    then show ?thesis using rest whole by (auto split: if_splits)
  next
    case False
    with rest obtain luks where luks: "is_luks (file_source_image (pe_device pe) s) = Inr luks" by (auto simp: result_simps split: if_splits)
    show ?thesis
    proof (cases luks)
      case True
      then show ?thesis using rest False luks by (auto simp: result_simps)
    next
      case no_luks: False
      then show ?thesis using rest False luks chosen by (auto simp: result_simps)
    qed
  qed
qed

lemma sorted_last: "sorted (map f ys) \<Longrightarrow> y \<in> set ys \<Longrightarrow> f y \<le> f (last ys)"
  by (induction ys) auto

lemma last_sort_key:
  assumes "xs \<noteq> []"
  shows "last (sort_key f xs) \<in> set xs" and "x \<in> set xs \<Longrightarrow> f x \<le> f (last (sort_key f xs))"
proof -
  have "sort_key f xs \<noteq> []" using assms by (metis length_0_conv length_sort)
  from last_in_set [OF this] show "last (sort_key f xs) \<in> set xs" by simp
  show "x \<in> set xs \<Longrightarrow> f x \<le> f (last (sort_key f xs))" by (rule sorted_last) simp_all
qed

section \<open>Small files\<close>

lemma take_repeated:
  assumes "block \<noteq> []" and "0 < n"
  shows "take n (concat (replicate n block)) =
    take n block @ take (n - min n (length block)) (concat (replicate (n - min n (length block)) block))"
proof -
  obtain k where n: "n = Suc k" using assms(2) by (cases n) auto
  have cut: "take j (concat (replicate a block)) = take j (concat (replicate b block))" if "j \<le> a" "j \<le> b" for j a b
  proof -
    have "take j (concat (replicate j block) @ concat (replicate c block)) = take j (concat (replicate j block))" for c
    proof -
      have "j * 1 \<le> j * length block" using assms(1) by (intro mult_le_mono2) (simp add: Suc_le_eq)
      then have "j \<le> length (concat (replicate j block))" by (simp add: length_concat sum_list_replicate)
      then show ?thesis by simp
    qed
    from this [of "a - j"] this [of "b - j"] show ?thesis using that by (simp flip: concat_append replicate_add)
  qed
  have "take n (concat (replicate n block)) = take n block @ take (n - length block) (concat (replicate k block))" by (simp add: n)
  moreover have "take (n - length block) (concat (replicate k block)) = take (n - length block) (concat (replicate (n - length block) block))"
    using assms(1) by (intro cut) (cases block; simp add: n)+
  ultimately show ?thesis by (cases "n \<le> length block") (auto simp: min_def)
qed

lemma small_file_loop_repeats:
  assumes "read_dnode_data_with_key pl src md 0 key = Inr block" and "block \<noteq> []" and "len \<le> dn_data_block_size (pd_dnode md)"
    and "length filled \<le> len"
  shows "small_file_loop pl src md key len filled =
    Inr (filled @ take (len - length filled) (concat (replicate (len - length filled) block)))"
  using assms(4)
proof (induction "len - length filled" arbitrary: filled rule: less_induct)
  case less
  show ?case
  proof (cases "length filled < len")
    case True
    let ?n = "len - length filled"
    define c where "c = min ?n (length block)"
    have c: "0 < c" "c \<le> ?n" "c \<le> length block" using True assms(2) by (auto simp: c_def)
    have "length filled div dn_data_block_size (pd_dnode md) = 0" using True assms(3) by simp
    moreover have "min (min ?n (dn_data_block_size (pd_dnode md))) (length block) = c" using assms(3) by (simp add: c_def)
    ultimately have "small_file_loop pl src md key len filled = small_file_loop pl src md key len (filled @ take c block)"
      using True assms(1) c by (subst small_file_loop.simps) (simp add: Let_def)
    also have "\<dots> = Inr ((filled @ take c block) @ take (?n - c) (concat (replicate (?n - c) block)))"
      using less.hyps [of "filled @ take c block"] c less.prems True by simp
    also have "take c block = take ?n block" by (auto simp: c_def min_def)
    finally show ?thesis using take_repeated [OF assms(2), of ?n] True by (simp flip: c_def)
  qed (use less.prems in \<open>simp add: small_file_loop.simps\<close>)
qed

section \<open>Properties\<close>

text \<open>C15: The datasets of a pool are the DSL directories below its root. When the enumeration
  succeeds, every reported dataset heads a directory that is reached from the root along child
  directories and has the name of that path; every directory that can be reached was visited, and the
  dataset it heads is reported; no directory is reported twice, however the child entries refer to each
  other; and the list is sorted by name and within the safety limit.\<close>

theorem datasets_are_the_reachable_directories:
  assumes "datasets pl m = Inr ds"
  shows "\<exists>directory data root. mos_dnode pl m 1 = Inr (Some directory) \<and> read_zap_object pl m directory = Inr data \<and>
     zap_lookup (pl_zpl pl) data ''root_dataset'' = Some root \<and>
     (\<forall>x \<in> set ds. dsl_reachable pl m root (di_dsl_dir_object x) (di_name x) \<and>
        (\<exists>children. dataset_visit pl m (di_dsl_dir_object x, di_name x) = Inr ([x], children))) \<and>
     (\<forall>d name. dsl_reachable pl m root d name \<longrightarrow>
        (\<exists>name' info children. dsl_reachable pl m root d name' \<and> dataset_visit pl m (d, name') = Inr (info, children) \<and> set info \<subseteq> set ds)) \<and>
     distinct (map di_dsl_dir_object ds) \<and> sorted (map di_name ds) \<and> length ds \<le> MAX_DATASETS"
proof -
  from assms obtain directory data root ds0 where dir: "mos_dnode pl m 1 = Inr (Some directory)" "read_zap_object pl m directory = Inr data"
      "zap_lookup (pl_zpl pl) data ''root_dataset'' = Some root"
    and w: "dataset_walk pl m [(root, pm_pool_name m)] [] [] = Inr ds0" and ds: "ds = sort_key di_name ds0"
    by (auto simp: datasets_def mos_object_def result_simps)
  have "walk_inv pl m root [(root, pm_pool_name m)] [] []"
    by (simp add: walk_inv_def dsl_reachable.top bt_wf_def bs_elems_def bt_keys_def)
  from dataset_walk_inv [OF w this] obtain seen where inv: "walk_inv pl m root [] seen ds0" by blast
  have s: "set ds = set ds0" and mp: "mset (map di_dsl_dir_object ds) = mset (map di_dsl_dir_object ds0)" by (simp_all add: ds)
  have dist: "distinct (map di_dsl_dir_object ds)"
    using inv mp by (metis mset_eq_imp_distinct_iff walk_inv_def)
  have "set (map di_dsl_dir_object ds) \<subseteq> bs_elems seen" using inv s by (auto simp: walk_inv_def)
  then have "length ds \<le> card (bs_elems seen)"
    using dist by (metis card_mono distinct_card length_map bs_elems_def finite_set)
  then have len: "length ds \<le> MAX_DATASETS" using inv by (simp add: walk_inv_def)
  have complete: "\<exists>name' info children. dsl_reachable pl m root d name' \<and> dataset_visit pl m (d, name') = Inr (info, children) \<and> set info \<subseteq> set ds"
    if "dsl_reachable pl m root d name" for d name
    using walk_complete [OF inv that] inv unfolding walk_inv_def s by blast
  have "\<forall>x \<in> set ds. dsl_reachable pl m root (di_dsl_dir_object x) (di_name x) \<and>
      (\<exists>children. dataset_visit pl m (di_dsl_dir_object x, di_name x) = Inr ([x], children))"
    using inv unfolding walk_inv_def s by blast
  then show ?thesis using complete dist len dir by (intro exI [of _ directory] exI [of _ data] exI [of _ root]) (simp add: ds)
qed

theorem datasets_are_the_reachable_directories_witness:
  "datasets pool_demo pool_demo_member = Inr [pool_demo_dataset] \<and> (\<exists>root. dsl_reachable pool_demo pool_demo_member root 2 ''p'')"
  using datasets_are_the_reachable_directories [OF pool_demo_datasets [OF shows_demo_member]] pool_demo_datasets [OF shows_demo_member] by (auto simp: pool_demo_dataset_def)


text \<open>A disk image held in memory, and on it a block with a damaged and an intact copy.\<close>

definition list_image :: "byte list \<Rightarrow> image" where
  "list_image content = \<lparr>im_len = of_nat (length content),
     im_read = (\<lambda>off n. if unat off + n \<le> length content then Inr (slice content (unat off) (unat off + n)) else Inl (Bail []))\<rparr>"

lemma list_image_contract: "length content < 2 ^ 64 \<Longrightarrow> image_contract (list_image content) content"
  by unfold_locales (auto simp: list_image_def unat_of_nat_u64 split: if_splits)

definition copies_core :: zfs_core where
  "copies_core = pool_demo_core\<lparr>checksum_from_raw := (\<lambda>_. ChecksumSha256), checksum_verify := (\<lambda>_ _ raw _. Some (raw = [1, 2]))\<rparr>"

definition copies_pointer :: pool_block_pointer where
  "copies_pointer = \<lparr>pb_pointer = pool_demo_hole\<lparr>bk_lsize := 2, bk_psize := 2, bk_hole := False, bk_compression := 2,
     bk_dvas := [\<lparr>dv_empty = False, dv_vdev = 0, dv_gang = False, dv_offset = 0\<rparr>, \<lparr>dv_empty = False, dv_vdev = 0, dv_gang = False, dv_offset = 2\<rparr>]\<rparr>,
     pb_raw = replicate 128 0, pb_endian = LittleEndian\<rparr>"

lemma copies_plain: "\<not> uses_crypt copies_pointer"
  by (simp add: uses_crypt_def copies_pointer_def blkptr_uses_crypt_def word_at_def slice_def le_zeros)

lemma copies_read: "read_pool_block_from copies_core plain_codecs null_crypto (list_image [9, 9, 1, 2]) 0 copies_pointer None = Inr [1, 2]"
  using copies_plain
  by (simp add: read_pool_block_from_def read_block_from_def copies_pointer_def pool_demo_hole_def copies_core_def pool_demo_core_def
      unsupported_checksum_def plain_copy_def addressable_def list_image_def slice_def decompress_block_def plain_codecs_def)


text \<open>C14: One intact copy is enough. Reading a plain block from a source that keeps its contract
  succeeds whenever some copy of the block on this vdev can be read, passes its checksum and decodes,
  whatever the other copies hold.\<close>

theorem one_intact_copy_is_enough:
  assumes "image_contract src content" and "dva \<in> set (bk_dvas p)" and "verified_copy zc z src vdev p data dva"
    and "bk_psize p < 2 ^ 64" and "0 < bk_lsize p" and "bk_lsize p \<le> MAX_BLOCK_SIZE zc" and "0 < bk_psize p" and "bk_psize p \<le> MAX_BLOCK_SIZE zc"
    and "\<not> unsupported_checksum (checksum_from_raw zc (bk_checksum p))" and "\<not> bk_embedded p" and "\<not> bk_hole p"
  shows "\<exists>data' dva'. read_block_from zc z src vdev p = Inr data' \<and> dva' \<in> set (bk_dvas p) \<and> verified_copy zc z src vdev p data' dva'"
proof -
  obtain data' where r: "read_block_from zc z src vdev p = Inr data'"
    using one_good_copy_is_enough [OF assms(1,4,2,3)] assms(5-) by auto
  then have "first_copy ''no readable copy of block pointer: {}'' (plain_copy zc z src vdev p) (bk_dvas p) = Inr data'"
    using assms(5-) by (simp add: read_block_from_def)
  from first_copy_Inr [OF this] r show ?thesis by (auto simp: plain_copy_Some)
qed

theorem one_intact_copy_is_enough_witness:
  "\<exists>data. read_block_from copies_core plain_codecs (list_image [9, 9, 1, 2]) 0 (pb_pointer copies_pointer) = Inr data"
proof -
  let ?dva = "\<lparr>dv_empty = False, dv_vdev = 0, dv_gang = False, dv_offset = 2\<rparr>"
  have "verified_copy copies_core plain_codecs (list_image [9, 9, 1, 2]) 0 (pb_pointer copies_pointer) [1, 2] ?dva"
    by (simp add: verified_copy_def addressable_def list_image_def slice_def copies_core_def copies_pointer_def pool_demo_hole_def
        decompress_block_def plain_codecs_def)
  from one_intact_copy_is_enough [OF list_image_contract _ this] show ?thesis
    by (auto simp: copies_pointer_def pool_demo_hole_def copies_core_def pool_demo_core_def unsupported_checksum_def)
qed

text \<open>C16: An opened member is one consistent pool. Its source is the one the candidates were narrowed
  to; the labels read from that source name one pool, no label is newer than the active one, and the
  meta objset was read through the root pointer of the active label and has the type of a meta objset.
  The pool has a single top-level vdev of a supported type; and a container key was used exactly when
  one was given.\<close>

theorem opened_members_are_consistent:
  assumes "open_with_container_key pe path container_key = Inr m"
  shows "\<exists>parsed off active mos_block. open_source pe path container_key = Inr (pm_source m, parsed, pm_container_encryption m) \<and>
     read_labels (pe_core pe) (pm_source m) = Inr parsed \<and>
     (off, active) \<in> set parsed \<and> lb_txg active = pm_txg m \<and> get_u64 (lb_config active) ''pool_guid'' = Some (pm_pool_guid m) \<and>
     (\<forall>(_, label) \<in> set parsed. lb_txg label \<le> pm_txg m \<and> get_u64 (lb_config label) ''pool_guid'' \<in> {None, Some (pm_pool_guid m)}) \<and>
     read_block_from (pe_core pe) (pe_codecs pe) (pm_source m) 0 (lb_rootbp active) = Inr mos_block \<and>
     pool_objset_parse (pe_core pe) mos_block (pm_endian m) = Inr (pm_mos m) \<and>
     op_os_type (po_objset (pm_mos m)) = DMU_OST_META (pe_core pe) \<and>
     pm_top_level_vdevs m = 1 \<and> pm_vdev_type m \<in> {''disk'', ''file'', ''mirror''} \<and>
     (container_key = None \<longleftrightarrow> pm_container_encryption m = None)"
proof -
  from assms obtain src parsed encryption where os: "open_source pe path container_key = Inr (src, parsed, encryption)"
    by (auto simp: open_with_container_key_def result_simps)
  define top where "top = last (sort_key (\<lambda>(_, label). lb_txg label) parsed)"
  note step = assms [unfolded open_with_container_key_def os and_then_simps prod.case Let_def, folded top_def]
  from step have ne: "parsed \<noteq> []" by (auto split: if_splits)
  have facts: "pm_source m = src \<and> pm_container_encryption m = encryption \<and> pm_txg m = lb_txg (snd top) \<and> pm_endian m = lb_endian (snd top) \<and>
      get_u64 (lb_config (snd top)) ''pool_guid'' = Some (pm_pool_guid m) \<and> labels_agree (pm_pool_guid m) parsed \<and>
      pm_top_level_vdevs m = 1 \<and> pm_vdev_type m \<in> {''disk'', ''file'', ''mirror''} \<and>
      op_os_type (po_objset (pm_mos m)) = DMU_OST_META (pe_core pe) \<and>
      (\<exists>mos_block. read_block_from (pe_core pe) (pe_codecs pe) src 0 (lb_rootbp (snd top)) = Inr mos_block \<and>
        pool_objset_parse (pe_core pe) mos_block (pm_endian m) = Inr (pm_mos m))"
    using step ne by (auto simp: result_simps split: if_splits)
  have top: "top \<in> set parsed" "x \<in> set parsed \<Longrightarrow> lb_txg (snd x) \<le> lb_txg (snd top)" for x
    using last_sort_key [OF ne, where f = "\<lambda>(_, label). lb_txg label"] unfolding top_def by (auto simp: case_prod_unfold)
  then have "(fst top, snd top) \<in> set parsed" by simp
  moreover have "\<forall>(_, label) \<in> set parsed. lb_txg label \<le> pm_txg m \<and> get_u64 (lb_config label) ''pool_guid'' \<in> {None, Some (pm_pool_guid m)}"
    using facts top(2) by (fastforce simp: labels_agree_def list_all_iff split: option.splits)
  moreover obtain mos_block where "read_block_from (pe_core pe) (pe_codecs pe) src 0 (lb_rootbp (snd top)) = Inr mos_block"
      "pool_objset_parse (pe_core pe) mos_block (pm_endian m) = Inr (pm_mos m)" using facts by blast
  ultimately show ?thesis using facts open_source_ok [OF os] os
    by (intro exI [of _ parsed] exI [of _ "fst top"] exI [of _ "snd top"] exI [of _ mos_block]) simp
qed

definition member_label :: vdev_label where
  "member_label = \<lparr>lb_config = Config (\<lambda>k. if k = ''name'' then Some ''p'' else None)
       (\<lambda>k. if k = ''pool_guid'' then Some 7 else if k = ''vdev_children'' then Some 1 else None)
       (\<lambda>k. if k = ''vdev_tree'' then Some (Config (\<lambda>k. if k = ''type'' then Some ''disk'' else None) (\<lambda>_. None) (\<lambda>_. None)) else None),
     lb_txg = 5, lb_endian = LittleEndian, lb_rootbp = pool_demo_hole\<lparr>bk_lsize := 1536\<rparr>\<rparr>"

definition member_core :: zfs_core where
  "member_core = pool_demo_core\<lparr>LABEL_SIZE := 1, label_offsets := (\<lambda>_. ([0], None)), label_parse := (\<lambda>_. Some member_label),
     objset_parse := (\<lambda>_ _. Some \<lparr>op_os_type = 1, op_endian = LittleEndian\<rparr>)\<rparr>"

definition member_env :: "nat pool_env" where
  "member_env = \<lparr>pe_core = member_core, pe_codecs = plain_codecs,
     pe_host = demo_host\<lparr>ho_open := (\<lambda>_. Inr 3), ho_metadata := (\<lambda>_. Inr \<lparr>md_is_file = True, md_len = 8, md_dev = 1, md_ino = 2, md_rdev = 3\<rparr>)\<rparr>,
     pe_registry = [], pe_device = (\<lambda>_ _ _ n. Inr (replicate n 0)), pe_crc = (\<lambda>_. 0), pe_luks = (\<lambda>_ _. None)\<rparr>"

lemma member_env_opens:
  "open_source member_env ''disk'' None = Inr (file_source_image (pe_device member_env)
     \<lparr>so_file = 3, so_block_size = 1, so_base_offset = 0, so_len = 8\<rparr>, [(0, member_label)], None)"
proof -
  let ?s = "\<lparr>so_file = 3 :: nat, so_block_size = 1, so_base_offset = 0, so_len = 8\<rparr>"
  let ?src = "file_source_image (pe_device member_env) ?s"
  have s: "file_source_open (pe_core member_env) (pe_host member_env) (pe_registry member_env) ''disk'' = Inr ?s"
    by (simp add: file_source_open_def open_read_only_def source_length_def source_block_size_def member_env_def member_core_def Let_def)
  have "im_read ?src 0 1 = Inr [0]"
    by (simp add: file_source_image_def file_source_read_def checked_add_def member_env_def device_read_exact_at_def
        positioned_read.simps)
  then have l: "read_labels (pe_core member_env) ?src = Inr [(0, member_label)]"
    by (simp add: read_labels_def member_env_def member_core_def)
  have "im_read ?src 0 512 = Inl (Bail ''read [{offset}, {end}) is outside {} ({} bytes)'')"
    by (simp add: file_source_image_def file_source_read_def checked_add_def)
  then have p: "disk_partitions (pe_crc member_env) ?src = Inr []"
    by (simp add: disk_partitions_def gpt_partitions_def gpt_table_def mbr_partitions_def file_source_image_def saturating_mul_def with_context_def)
  show ?thesis unfolding open_source_def s and_then_simps Let_def l p by simp
qed

lemma member_env_facts:
  "pe_core member_env = member_core" "pe_codecs member_env = plain_codecs" "DMU_OST_META member_core = 1"
  "lb_endian member_label = LittleEndian" "lb_txg member_label = 5"
  "get_str (lb_config member_label) ''name'' = Some ''p''" "get_u64 (lb_config member_label) ''pool_guid'' = Some 7"
  "get_u64 (lb_config member_label) ''vdev_children'' = Some 1"
  "get_nvlist (lb_config member_label) ''vdev_tree'' = Some (Config (\<lambda>k. if k = ''type'' then Some ''disk'' else None) (\<lambda>_. None) (\<lambda>_. None))"
  by (simp_all add: member_env_def member_core_def pool_demo_core_def member_label_def)

lemma member_opens: "\<exists>m. open_with_container_key member_env ''disk'' None = Inr m \<and> shows_demo m"
proof -
  have "pool_dnode_parse member_core (replicate 1536 0) LittleEndian = Inr (pool_demo_md (pool_demo_dnode 4096 []))"
    using pool_demo_dnode_parse [of 1536 4096 "[]"] pool_demo_parse_at(5)
    by (simp add: pool_dnode_parse_def pool_pointer_parse_def parse_blkptr_def member_core_def)
  then have mos: "pool_objset_parse member_core (replicate 1536 0) LittleEndian =
      Inr \<lparr>po_objset = \<lparr>op_os_type = 1, op_endian = LittleEndian\<rparr>, po_meta_dnode = pool_demo_md (pool_demo_dnode 4096 [])\<rparr>"
    by (simp add: pool_objset_parse_def) (simp add: member_core_def)
  have root: "read_block_from member_core plain_codecs src 0 (lb_rootbp member_label) = Inr (replicate 1536 0)" for src
    by (simp add: read_block_from_def member_label_def pool_demo_hole_def member_core_def pool_demo_core_def)
  have agree: "labels_agree 7 [(0, member_label)]" by (simp add: labels_agree_def member_env_facts)
  show ?thesis
    unfolding open_with_container_key_def member_env_opens by (simp add: member_env_facts root mos agree shows_demo_def)
qed

theorem opened_members_are_consistent_witness:
  "\<exists>m. open_with_container_key member_env ''disk'' None = Inr m \<and> pm_txg m = 5 \<and> pm_pool_guid m = 7 \<and>
     op_os_type (po_objset (pm_mos m)) = 1"
proof -
  obtain m where m: "open_with_container_key member_env ''disk'' None = Inr m" using member_opens by blast
  from opened_members_are_consistent [OF m] m show ?thesis unfolding member_env_opens by (auto simp: member_env_facts)
qed

text \<open>Where the only record of a small file is stored in a shorter block, the reader for metadata
  files repeats the block up to the size of the file, while the image reader, like the extraction,
  takes the rest of the record for a hole and returns zeros.\<close>

theorem small_files_repeat_short_blocks:
  assumes "read_dnode_data_with_key pl src md 0 key = Inr block" and "block \<noteq> []" and "len \<le> dn_data_block_size (pd_dnode md)"
  shows "small_file_loop pl src md key len [] = Inr (take len (concat (replicate len block))) \<and>
     pool_read_blocks pl src md key 0 len = Inr (take len block @ replicate (len - length block) 0)"
proof
  show "small_file_loop pl src md key len [] = Inr (take len (concat (replicate len block)))"
    using small_file_loop_repeats [OF assms, of "[]"] by simp
  show "pool_read_blocks pl src md key 0 len = Inr (take len block @ replicate (len - length block) 0)"
  proof (cases "len = 0")
    case False
    then have "pool_read_blocks pl src md key 0 len =
        Inr (take (min (length block) len) block @ replicate (len - min (length block) len) 0)"
      using assms by (subst pool_read_blocks.simps) (simp add: Let_def slice_def pool_read_blocks.simps)
    then show ?thesis by (cases "length block \<le> len") auto
  qed (simp add: pool_read_blocks.simps)
qed

definition short_record :: member_dnode where
  "short_record = \<lparr>pd_dnode = pool_demo_dnode 4 [], pd_pointers = [copies_pointer]\<rparr>"

theorem small_files_repeat_short_blocks_witness:
  "small_file_loop (pool_demo\<lparr>pl_core := copies_core\<rparr>) (list_image [9, 9, 1, 2]) short_record None 4 [] = Inr [1, 2, 1, 2] \<and>
   pool_read_blocks (pool_demo\<lparr>pl_core := copies_core\<rparr>) (list_image [9, 9, 1, 2]) short_record None 0 4 = Inr [1, 2, 0, 0]"
proof -
  have "read_dnode_data_with_key (pool_demo\<lparr>pl_core := copies_core\<rparr>) (list_image [9, 9, 1, 2]) short_record 0 None = Inr [1, 2]"
    using copies_read
    by (simp add: read_dnode_data_with_key_def short_record_def pool_demo_dnode_def pool_demo_def Let_def BLKPTR_SIZE_def
        power_of_two_1 [simplified] trailing_zeros.simps [of 1] shr_u64_def copies_pointer_def copies_core_def pool_demo_core_def pool_demo_hole_def)
  moreover have "4 \<le> dn_data_block_size (pd_dnode short_record)" by (simp add: short_record_def pool_demo_dnode_def)
  ultimately show ?thesis
    using small_files_repeat_short_blocks [of "pool_demo\<lparr>pl_core := copies_core\<rparr>" "list_image [9, 9, 1, 2]" short_record None "[1, 2]" 4]
    by (simp add: numeral_nat)
qed

end
