(* ===== verification/Sessions.thy ===== *)
theory Sessions
  imports Pool_Members Image_Replay
begin

text \<open>
  Opening an inception session (\<open>InceptionSession::from_*\<close> of \<open>src/src/inception.rs\<close>): the disk image is
  a host file, a file of a send stream or a file of a pool, the latter possibly encrypted by the Datto
  agent. The property at the end composes the layers: pool blocks, file image, decryption, window,
  partition table and volume.
\<close>

section \<open>Model\<close>

text \<open>What the constructors use: the pool environment, the decoders, the probes of the file-system and
  container crates, the Datto key derivation, the cipher, and the files that hold send streams.\<close>

record ('f, 'r, 'l, 'i, 'v) session_env =
  se_pool :: "'f pool_env"
  se_lib :: "('r, 'l, 'i, 'v) pool_lib"
  se_probes :: probes
  se_datto :: datto_lib
  se_xts :: xts
  se_send :: "string \<Rightarrow> byte_source option"

definition from_file_at :: "('f, 'r, 'l, 'i, 'v) session_env \<Rightarrow> string \<Rightarrow> u64 \<Rightarrow> u64 option \<Rightarrow> inception_session result" where
  "from_file_at se path image_offset image_length =
     and_then (file_image_open (pe_host (se_pool se)) (pe_registry (se_pool se)) (pe_device (se_pool se)) path) (\<lambda>src.
     inspect_source_at (se_probes se) src path image_offset image_length)"

text \<open>A nested image of a stream as a source. Its reads start from an empty cache; by
  \<open>stream_source_reads\<close> below they return what reads through any cache of the session return.\<close>

definition stream_source :: "crypto \<Rightarrow> codecs \<Rightarrow> (byte list \<Rightarrow> u32) \<Rightarrow> stream_image \<Rightarrow> image" where
  "stream_source k z crc32 img = \<lparr>im_len = si_len img, im_read = (\<lambda>off n. snd (read_exact_at k z crc32 img off n None))\<rparr>"

definition from_send_at ::
  "('f, 'r, 'l, 'i, 'v) session_env \<Rightarrow> string \<Rightarrow> string option \<Rightarrow> string \<Rightarrow> byte list option \<Rightarrow> u64 \<Rightarrow> u64 option \<Rightarrow> inception_session result" where
  "from_send_at se stream snapshot image_path key_material image_offset image_length =
     (let pl = se_lib se; src = se_send se stream in
      and_then (plan_snapshot src snapshot) (\<lambda>plan.
      and_then (build_plan_with_key (pl_crypto pl) (pl_codecs pl) src plan key_material) (\<lambda>ix.
      and_then (resolve_path (pl_zpl pl) ix image_path) (\<lambda>resolved.
      if rp_dirent_type resolved \<noteq> 8 then Inl (Bail ''{} is not a regular file'')
      else and_then (build_image (pl_crypto pl) (pr_crc (se_probes se)) src plan resolved key_material) (\<lambda>img.
      inspect_source_at (se_probes se) (stream_source (pl_crypto pl) (pl_codecs pl) (pr_crc (se_probes se)) img)
        (rp_normalized_path resolved) image_offset image_length)))))"

definition from_send ::
  "('f, 'r, 'l, 'i, 'v) session_env \<Rightarrow> string \<Rightarrow> string option \<Rightarrow> string \<Rightarrow> byte list option \<Rightarrow> inception_session result" where
  "from_send se stream snapshot image_path key_material = from_send_at se stream snapshot image_path key_material 0 None"

definition ascii_lowercase :: "string \<Rightarrow> string" where
  "ascii_lowercase = map ascii_lower"

definition find_datto_key_stash :: "('r, 'l, 'i, 'v) pool_lib \<Rightarrow> pool_member \<Rightarrow> string \<Rightarrow> byte list option \<Rightarrow> string result" where
  "find_datto_key_stash pl pool dataset key_material =
     and_then (map_err (with_context ''listing Datto agent /config directory'')
       (pool_list_directory_with_key pl pool dataset key_material ''/config'')) (\<lambda>entries.
     case map (\<lambda>entry. ''/config/'' @ de_name entry)
         (filter (\<lambda>entry. de_dirent_type entry = 8 \<and> suffix ''.encryptionkeystash'' (ascii_lowercase (de_name entry))) entries) of
       [only] \<Rightarrow> Inr only
     | [] \<Rightarrow> Inl (Bail ''no *.encryptionKeyStash file was found in {dataset}/config; provide --key-stash'')
     | _ \<Rightarrow> Inl (Bail ''multiple *.encryptionKeyStash files were found in {dataset}/config; choose one with --key-stash''))"

definition is_detto :: "string \<Rightarrow> bool" where
  "is_detto image_path \<longleftrightarrow> suffix ''.detto'' (ascii_lowercase image_path)"

definition datto_image_key ::
  "('f, 'r, 'l, 'i, 'v) session_env \<Rightarrow> pool_member \<Rightarrow> string \<Rightarrow> string \<Rightarrow> byte list option \<Rightarrow> byte list option \<Rightarrow> string option \<Rightarrow>
   byte list option result" where
  "datto_image_key se pool dataset image_path key_material agent_password key_stash_path =
     (if is_detto image_path then
        and_then (ok_or agent_password (Bail ''{image_path} is an encrypted Datto .detto image; provide --agent-password-file'')) (\<lambda>password.
        and_then (case key_stash_path of
            Some path \<Rightarrow> Inr path
          | None \<Rightarrow> find_datto_key_stash (se_lib se) pool dataset key_material) (\<lambda>stash_path.
        and_then (read_small_file_with_key (se_lib se) pool dataset stash_path key_material (4 * 1024 * 1024)) (\<lambda>stash.
        and_then (map_err (with_context ''unlocking {image_path} with {stash_path}'') (derive_agent_key (se_datto se) stash password))
          (\<lambda>key. Inr (Some key)))))
      else if agent_password \<noteq> None \<or> key_stash_path \<noteq> None
      then Inl (Bail ''Datto agent credentials are only valid for a .detto image'')
      else Inr None)"

definition from_pool_member_at_with_keys ::
  "('f, 'r, 'l, 'i, 'v) session_env \<Rightarrow> pool_member \<Rightarrow> string \<Rightarrow> string \<Rightarrow> byte list option \<Rightarrow> byte list option \<Rightarrow> string option \<Rightarrow>
   u64 \<Rightarrow> u64 option \<Rightarrow> inception_session result" where
  "from_pool_member_at_with_keys se pool dataset image_path key_material agent_password key_stash_path image_offset image_length =
     and_then (datto_image_key se pool dataset image_path key_material agent_password key_stash_path) (\<lambda>datto_key.
     and_then (into_image_file_with_key (se_lib se) pool dataset image_path key_material) (\<lambda>src.
     and_then (case datto_key of Some key \<Rightarrow> detto_new (se_xts se) src key | None \<Rightarrow> Inr src) (\<lambda>src.
     inspect_source_at (se_probes se) src image_path image_offset image_length)))"

definition from_pool_at_with_key ::
  "('f, 'r, 'l, 'i, 'v) session_env \<Rightarrow> string \<Rightarrow> string \<Rightarrow> string \<Rightarrow> byte list option \<Rightarrow> u64 \<Rightarrow> u64 option \<Rightarrow> inception_session result" where
  "from_pool_at_with_key se member dataset image_path key_material image_offset image_length =
     and_then (open_with_container_key (se_pool se) member None) (\<lambda>pool.
     from_pool_member_at_with_keys se pool dataset image_path key_material None None image_offset image_length)"

definition from_pool_at :: "('f, 'r, 'l, 'i, 'v) session_env \<Rightarrow> string \<Rightarrow> string \<Rightarrow> string \<Rightarrow> u64 \<Rightarrow> u64 option \<Rightarrow> inception_session result" where
  "from_pool_at se member dataset image_path image_offset image_length =
     from_pool_at_with_key se member dataset image_path None image_offset image_length"

definition from_pool_with_key ::
  "('f, 'r, 'l, 'i, 'v) session_env \<Rightarrow> string \<Rightarrow> string \<Rightarrow> string \<Rightarrow> byte list option \<Rightarrow> inception_session result" where
  "from_pool_with_key se member dataset image_path key_material =
     from_pool_at_with_key se member dataset image_path key_material 0 None"

definition from_pool :: "('f, 'r, 'l, 'i, 'v) session_env \<Rightarrow> string \<Rightarrow> string \<Rightarrow> string \<Rightarrow> inception_session result" where
  "from_pool se member dataset image_path = from_pool_at se member dataset image_path 0 None"

section \<open>A nested image of a stream as a source\<close>

context indexed_image
begin

lemma stream_source_reads:
  assumes "cache_ok k z crc32 img cache"
  shows "snd (read_exact_at k z crc32 img off n cache) = im_read (stream_source k z crc32 img) off n"
proof (cases "unat off + n \<le> unat (si_len img)")
  case True
  from read_exact_at_view [OF this assms] read_exact_at_view [OF this, of None] show ?thesis
    by (auto simp: stream_source_def cache_ok_def)
next
  case False
  then have "unat off + n < 2 ^ 64 \<Longrightarrow> off + of_nat n > si_len img"
    by (simp add: word_less_nat_alt unat_add_u64 unat_of_nat_u64)
  then show ?thesis by (auto simp: stream_source_def read_exact_at_def not_le)
qed

lemma stream_source_complete:
  "complete_image (stream_source k z crc32 img) (clip (seg_view (block_bytes k z crc32 (si_file img) (si_keys img)) (si_segments img)) (unat (si_len img)))"
proof
  let ?content = "clip (seg_view (block_bytes k z crc32 (si_file img) (si_keys img)) (si_segments img)) (unat (si_len img))"
  have hit: "im_read (stream_source k z crc32 img) off n = Inr (slice ?content (unat off) (unat off + n))" if "unat off + n \<le> unat (si_len img)" for off n
    using read_exact_at_view [OF that, of None] that by (auto simp: stream_source_def cache_ok_def slice_clip)
  have miss: "\<exists>m. im_read (stream_source k z crc32 img) off n = Inl (Bail m)" if "\<not> unat off + n \<le> unat (si_len img)" for off n
  proof -
    have "unat off + n < 2 ^ 64 \<Longrightarrow> off + of_nat n > si_len img"
      using that by (simp add: word_less_nat_alt unat_add_u64 unat_of_nat_u64)
    then show ?thesis by (auto simp: stream_source_def read_exact_at_def not_le)
  qed
  show "unat (im_len (stream_source k z crc32 img)) = length ?content" by (simp add: stream_source_def)
  show "unat off + n \<le> length ?content \<and> bytes = slice ?content (unat off) (unat off + n)"
    if "n < 2 ^ 64" "im_read (stream_source k z crc32 img) off n = Inr bytes" for n off bytes
    using that(2) hit [of off n] miss [of off n] by (cases "unat off + n \<le> unat (si_len img)") auto
  show "no_panic (im_read (stream_source k z crc32 img) off n)" if "n < 2 ^ 64" for n off
    using hit [of off n] miss [of off n] by (cases "unat off + n \<le> unat (si_len img)") (auto simp: no_panic_def)
  show "\<exists>bytes. im_read (stream_source k z crc32 img) off n = Inr bytes" if "unat off + n \<le> length ?content" for off n
    using hit [of off n] that by simp
qed

end

section \<open>Volumes of a session\<close>

text \<open>A volume of a raw disk shows its range of the image the session was opened on.\<close>

context complete_image
begin

lemma raw_session_volume:
  assumes "inspect_source_at pr img path image_offset image_length = Inr ss" and "is_container ss = RawDisk"
    and "v \<in> set (is_volumes ss)"
  shows "\<exists>src base. volume_source ss v = Inr src \<and> base = unat image_offset + unat (vi_offset v) \<and>
     base + unat (vi_length v) \<le> length content \<and>
     (\<forall>off n. unat off + n \<le> unat (vi_length v) \<longrightarrow> im_read src off n = Inr (slice content (base + unat off) (base + unat off + n)))"
proof -
  from assms(1) obtain window where window: "sliced_new img image_offset (is_stored_size ss) = Inr window"
    and container: "open_disk_container pr window = Inr (is_container ss, is_source ss)"
    by (auto simp: inspect_source_at_def Let_def result_simps split: if_splits prod.splits)
  have disk: "is_source ss = window"
    using container assms(2) by (auto simp: open_disk_container_def Let_def result_simps split: if_splits)
  let ?w = "slice content (unat image_offset) (unat image_offset + unat (is_stored_size ss))"
  have cw: "complete_image window ?w" by (rule sliced_complete [OF window])
  from inspected_volumes_inside [OF assms(1,3)] obtain l where l: "layout_inside window l" "vi_offset v = pl_offset l" "vi_length v = pl_length l"
    unfolding disk by blast
  let ?src = "sliced_image window (vi_offset v) (vi_length v)"
  have open_v: "volume_source ss v = Inr ?src" using layout_opens [OF l(1)] l(2,3) by (simp add: volume_source_def disk)
  then have cv: "complete_image ?src (slice ?w (unat (vi_offset v)) (unat (vi_offset v) + unat (vi_length v)))"
    unfolding volume_source_def disk by (rule complete_image.sliced_complete [OF cw])
  have fits: "unat (vi_offset v) + unat (vi_length v) \<le> length ?w"
    using l image_contract.image_len [OF complete_image.axioms(1) [OF cw]] by (simp add: layout_inside_def)
  let ?base = "unat image_offset + unat (vi_offset v)"
  have "im_read ?src off n = Inr (slice content (?base + unat off) (?base + unat off + n))" if le: "unat off + n \<le> unat (vi_length v)" for off n
  proof -
    have n: "n < 2 ^ 64" using le unat_less_u64 [of "vi_length v"] by simp
    have "unat off + n \<le> length (slice ?w (unat (vi_offset v)) (unat (vi_offset v) + unat (vi_length v)))"
      unfolding length_slice [of ?w] using le fits by linarith
    then obtain bytes where "im_read ?src off n = Inr bytes" using complete_image.image_complete [OF cv] by blast
    with image_contract.image_read [OF complete_image.axioms(1) [OF cv] n this] show ?thesis
      using le fits by (simp add: slice_slice ac_simps)
  qed
  moreover have "?base + unat (vi_length v) \<le> length content" 
  proof -
    have "unat (vi_offset v) + unat (vi_length v) \<le> length content - unat image_offset" "0 < unat (vi_length v)"
      using fits l by (simp_all add: layout_inside_def)
    then show ?thesis by linarith
  qed
  ultimately show ?thesis using open_v by (intro exI [of _ ?src] exI [of _ ?base]) simp
qed

end

section \<open>Properties\<close>

text \<open>C7: The volumes of a disk image stored in a pool show the extracted file. When a session was
  opened on a raw disk image of the pool and the same file can be extracted, every volume opens, lies
  within the file, and each read within it returns the bytes of the extracted file at the position of
  the volume; for a Datto image these are the bytes decrypted with the agent key from the key stash.\<close>

theorem volumes_of_pool_images_show_the_extracted_file:
  assumes "posix_files (ev_os ev)" and "\<And>a b. xts_areas (se_xts se a b 512)"
    and "pool_extract_with_key (se_lib se) m ev remove dataset path out force key_material disk = (disk', Inr px)"
    and "from_pool_member_at_with_keys se m dataset path key_material password stash image_offset image_length = Inr ss"
    and "is_container ss = RawDisk" and "v \<in> set (is_volumes ss)"
  shows "\<exists>d plain src base. disk' out = Some d \<and>
     (if is_detto path
      then \<exists>key. datto_image_key se m dataset path key_material password stash = Inr (Some key) \<and>
        plain = se_xts se (take 32 key) (drop 32 key) 512 0 d
      else plain = d) \<and>
     volume_source ss v = Inr src \<and> base = unat image_offset + unat (vi_offset v) \<and> base + unat (vi_length v) \<le> length d \<and>
     (\<forall>off n. unat off + n \<le> unat (vi_length v) \<longrightarrow> im_read src off n = Inr (slice plain (base + unat off) (base + unat off + n)))"
proof -
  from assms(4) obtain dk img0 img where dk: "datto_image_key se m dataset path key_material password stash = Inr dk"
    and img0: "into_image_file_with_key (se_lib se) m dataset path key_material = Inr img0"
    and img: "(case dk of Some key \<Rightarrow> detto_new (se_xts se) img0 key | None \<Rightarrow> Inr img0) = Inr img"
    and ss: "inspect_source_at (se_probes se) img path image_offset image_length = Inr ss"
    by (auto simp: from_pool_member_at_with_keys_def result_simps)
  from pool_extract_steps [OF assms(1,3)] obtain view resolved d sha where
      f: "pool_regular_file (se_lib se) m dataset path key_material = Inr (view, resolved)"
    and t: "pool_temporary (se_lib se) (pm_source m) ev resolved out (vw_key view) = Inr (d, sha)"
    and out: "disk' out = Some (pool_file_bytes (se_lib se) (pm_source m) resolved (vw_key view))" by blast
  have d: "d = pool_file_bytes (se_lib se) (pm_source m) resolved (vw_key view)" by (rule pool_temporary_bytes [OF assms(1) t])
  have img0': "img0 = pool_image_file (se_lib se) (pm_source m) resolved (vw_key view)"
    using img0 f by (simp add: into_image_file_with_key_def)
  have len: "im_len img = im_len img0" using img by (auto simp: detto_new_def split: option.splits if_splits)
  have "rq_logical_size resolved \<noteq> 0"
  proof
    assume z: "rq_logical_size resolved = 0"
    then have "im_len img = 0" by (simp add: len img0' pool_image_file_def)
    then show False using ss
      by (auto simp: inspect_source_at_def Let_def result_simps sliced_new_def checked_simps word_less_nat_alt split: if_splits option.splits)
  qed
  with t have c0: "complete_image img0 d" unfolding img0' by (intro pool_temporary_image [OF assms(1)])
  define plain where "plain = (case dk of Some key \<Rightarrow> se_xts se (take 32 key) (drop 32 key) 512 0 d | None \<Rightarrow> d)"
  have c: "complete_image img plain"
    using c0 img complete_image.detto_complete [where xts = "se_xts se", OF c0 assms(2)] by (auto simp: plain_def split: option.splits)
  have same: "length plain = length d" using xts_areas.xts_length [OF assms(2)] by (simp add: plain_def split: option.splits)
  have kind: "if is_detto path
      then \<exists>key. datto_image_key se m dataset path key_material password stash = Inr (Some key) \<and>
        plain = se_xts se (take 32 key) (drop 32 key) 512 0 d
      else plain = d"
    using dk by (auto simp: datto_image_key_def plain_def result_simps split: if_splits)
  from complete_image.raw_session_volume [OF c ss assms(5,6)] show ?thesis
    using kind out same by (auto simp: d)
qed

text \<open>A blank disk image, the only file of a pool.\<close>

definition blank_env :: "(nat, unit, unit, unit, unit) session_env" where
  "blank_env = \<lparr>se_pool = member_env, se_lib = pool_demo, se_probes = no_probes,
     se_datto = \<lparr>dl_parse_stash = (\<lambda>_. None), dl_base64 = (\<lambda>_. None), dl_parse_header = (\<lambda>_. None), dl_pbkdf2 = (\<lambda>_ _ _. []),
       dl_gcm_open = (\<lambda>_ _ _ _ _. None), dl_parse_master = (\<lambda>_. None)\<rparr>,
     se_xts = flip_xts, se_send = (\<lambda>_. None)\<rparr>"

lemma zeros_Cons: "replicate n 0 = x # xs \<longleftrightarrow> n \<noteq> 0 \<and> x = 0 \<and> xs = replicate (n - 1) (0 :: byte)"
  by (cases n) auto

lemma blank_disk:
  assumes "complete_image img (replicate 512 0)"
  shows "\<exists>ss. inspect_source_at no_probes img path 0 None = Inr ss \<and> is_container ss = RawDisk \<and>
    map (\<lambda>v. (vi_offset v, vi_length v)) (is_volumes ss) = [(0, 512)]"
proof -
  have "unat (im_len img) = 512" using image_contract.image_len [OF complete_image.axioms(1) [OF assms]] by simp
  then have "of_nat (unat (im_len img)) = (of_nat 512 :: u64)" by (rule arg_cong)
  then have len: "im_len img = 512" by simp
  have w: "sliced_new img 0 512 = Inr (sliced_image img 0 512)" by (simp add: sliced_new_def len checked_add_def)
  let ?w = "sliced_image img 0 512"
  have cw: "complete_image ?w (replicate 512 0)" using complete_image.sliced_complete [OF assms w] by (simp add: slice_def)
  have wlen: "im_len ?w = 512" by (simp add: sliced_image_def)
  obtain header where "im_read ?w 0 512 = Inr header" using complete_image.image_complete [OF cw, of 0 512] by auto
  with image_contract.image_read [OF complete_image.axioms(1) [OF cw] _ this] have h: "im_read ?w 0 512 = Inr (replicate 512 0)"
    by (simp add: slice_def)
  have "\<not> list_ex (\<lambda>i. slice (replicate 512 (0 :: byte)) i (i + 10) = bytes_of_chars ''createType'') [0 ..< 503]"
    by (simp add: list_ex_iff slice_def bytes_of_chars_def zeros_Cons)
  then have c: "open_disk_container no_probes ?w = Inr (RawDisk, ?w)"
    by (simp add: open_disk_container_def h bytes_of_chars_def zeros_Cons)
  have "discover_mbr ?w = Inr []" by (simp add: discover_mbr_def wlen h slice_def zeros_Cons)
  moreover obtain info where info: "probe_volume no_probes ?w (raw_layout ?w) = Inr info"
    using probe_succeeds [OF complete_image.axioms(1) [OF cw]] by blast
  moreover have "vi_filesystem info = None" "vi_offset info = 0 \<and> vi_length info = 512"
    using no_probes_filesystem [OF info] probed_range [OF info] by (simp_all add: raw_layout_def wlen)
  ultimately show ?thesis
    by (simp add: inspect_source_at_def len w c wlen discover_partitions_def discover_gpt_def gpt_candidates_def saturating_mul_def)
qed

theorem volumes_of_pool_images_show_the_extracted_file_witness:
  "\<exists>disk' px ss v src. pool_extract_with_key pool_demo pool_demo_member demo_env (\<lambda>_. Inr ()) ''p'' ''/f'' ''out'' False None Map.empty = (disk', Inr px) \<and>
     from_pool_member_at_with_keys blank_env pool_demo_member ''p'' ''/f'' None None None 0 None = Inr ss \<and> v \<in> set (is_volumes ss) \<and>
     volume_source ss v = Inr src \<and> im_read src 500 3 = Inr [0, 0, 0]"
proof -
  from pool_demo_extract obtain disk' px where x: "pool_extract_with_key pool_demo pool_demo_member demo_env (\<lambda>_. Inr ()) ''p'' ''/f'' ''out'' False None Map.empty =
      (disk', Inr px)" and px: "disk' ''out'' = Some (replicate 512 0)" by blast
  have posix: "posix_files (ev_os demo_env)" by (simp add: demo_env_def ideal.posix_files_axioms)
  have nd: "\<not> is_detto ''/f''"
  proof
    assume "is_detto ''/f''"
    then have "length ''.detto'' \<le> length (ascii_lowercase ''/f'')" unfolding is_detto_def by (rule suffix_length_le)
    then show False by (simp add: ascii_lowercase_def)
  qed
  have k: "vw_key pool_demo_view = None" by (simp add: pool_demo_view_def)
  let ?img = "pool_image_file pool_demo (pm_source pool_demo_member) pool_demo_file None"
  have "complete_image ?img (replicate 512 0)" by (rule pool_temporary_image [OF posix pool_demo_temporary]) (simp add: pool_demo_file_def)
  from blank_disk [OF this, of "''/f''"] obtain ss where ss: "inspect_source_at no_probes ?img ''/f'' 0 None = Inr ss" "is_container ss = RawDisk"
    and vs: "map (\<lambda>v. (vi_offset v, vi_length v)) (is_volumes ss) = [(0, 512)]" by (elim exE conjE)
  from vs obtain v where v: "v \<in> set (is_volumes ss)" "vi_offset v = 0" "vi_length v = 512" by auto
  have s: "from_pool_member_at_with_keys blank_env pool_demo_member ''p'' ''/f'' None None None 0 None = Inr ss"
    using ss(1) by (simp add: from_pool_member_at_with_keys_def datto_image_key_def nd blank_env_def into_image_file_with_key_def pool_demo_regular_file k)
  have areas: "xts_areas (se_xts blank_env a b 512)" for a b
    by (simp add: blank_env_def flip.xts_areas_axioms)
  have lib: "se_lib blank_env = pool_demo" by (simp add: blank_env_def)
  from volumes_of_pool_images_show_the_extracted_file [OF posix areas x [folded lib] s ss(2) v(1)] nd v(2,3) obtain d src where
    "disk' ''out'' = Some d" "volume_source ss v = Inr src" "\<forall>off n. unat off + n \<le> 512 \<longrightarrow> im_read src off n = Inr (slice d (unat off) (unat off + n))"
    by auto
  moreover from this(1) px have "d = replicate 512 0" by simp
  ultimately have "volume_source ss v = Inr src"
    and "\<forall>off n. unat off + n \<le> 512 \<longrightarrow> im_read src off n = Inr (slice (replicate 512 0) (unat off) (unat off + n))" by blast+
  moreover from this(2) [THEN spec, of 500, THEN spec, of 3] have "im_read src 500 3 = Inr [0, 0, 0]" by (simp add: slice_def numeral_3_eq_3)
  ultimately show ?thesis using x s v(1) by blast
qed

end
