(* ===== verification/Client.thy ===== *)
theory Client
  imports Sessions Incremental BTree
begin

text \<open>
  The service layer of the graphical clients (\<open>src/src/client.rs\<close>): catalogs of send files and pool
  members, whose views carry the selectors handed back to the readers, key material, and the calls
  that list, extract and inspect through a view.
\<close>

section \<open>Catalogs\<close>

datatype source_kind = SendStream | PoolMember

datatype view_kind = Snapshot | Current | FullSend | IncrementalSend

record source_view =
  sv_label :: string
  sv_created_at :: "u64 option"
  sv_selector :: string
  sv_update_eligible :: bool
  sv_encrypted :: bool
  sv_key_format :: "string option"
  sv_kind :: view_kind
  sv_dataset :: string
  sv_snapshot :: "string option"
  sv_parent :: bool

record source_catalog =
  ct_kind :: source_kind
  ct_path :: string
  ct_title :: string
  ct_summary :: string
  ct_views :: "source_view list"
  ct_container_key_file :: "string option"
  ct_container_key_material :: "byte list option"

record client_extraction =
  cx_logical_size :: u64
  cx_sha256 :: string
  cx_update_eligible :: bool

record inception_catalog =
  ic_image_path :: string
  ic_image_offset :: u64
  ic_stored_size :: u64
  ic_disk_size :: u64
  ic_container :: disk_container_kind
  ic_volumes :: "volume_info list"
  ic_session :: inception_session

text \<open>What the client uses besides a session: the environment of extractions, and the files that hold
  keys: opening one gives a reader that returns at most the given number of bytes.\<close>

record ('f, 'r, 'l, 'i, 'v) client_env =
  ce_session :: "('f, 'r, 'l, 'i, 'v) session_env"
  ce_env :: env
  ce_tree :: tree_env
  ce_remove :: "string \<Rightarrow> unit result"
  ce_key_file :: "string \<Rightarrow> io_error + (nat \<Rightarrow> io_error + byte list)"

abbreviation ce_lib :: "('f, 'r, 'l, 'i, 'v) client_env \<Rightarrow> ('r, 'l, 'i, 'v) pool_lib" where
  "ce_lib ce \<equiv> se_lib (ce_session ce)"

abbreviation ce_stream :: "('f, 'r, 'l, 'i, 'v) client_env \<Rightarrow> string \<Rightarrow> byte_source option" where
  "ce_stream ce \<equiv> se_send (ce_session ce)"

text \<open>The middle dot and the dash of the labels, in UTF-8.\<close>

definition middot :: string where "middot = [CHR '' '', CHR 0xC2, CHR 0xB7, CHR '' '']"
definition em_dash :: string where "em_dash = [CHR 0xE2, CHR 0x80, CHR 0x94]"

definition split_snapshot :: "string \<Rightarrow> string \<times> string option" where
  "split_snapshot full_name = split_once CHR ''@'' full_name"

definition plural :: "nat \<Rightarrow> string" where
  "plural n = (if n = 1 then '''' else ''s'')"

text \<open>\<open>Path::file_name\<close> for a path with \<open>/\<close> as its separator.\<close>

definition file_name :: "string \<Rightarrow> string option" where
  "file_name path =
     (case rev (filter (\<lambda>c. c \<noteq> '''' \<and> c \<noteq> ''.'') (split_on CHR ''/'' path)) of
        [] \<Rightarrow> None
      | name # _ \<Rightarrow> if name = ''..'' then None else Some name)"

definition send_view :: "(u64, encryption_requirement) btree \<Rightarrow> begin_record \<Rightarrow> source_view" where
  "send_view requirements snapshot =
     (let (dataset, name) = split_snapshot (bg_dataset_name snapshot);
          raw = (bg_features snapshot AND FEATURE_RAW \<noteq> 0);
          mode = (if raw then ''raw encrypted'' else ''plain'');
          relation = (if bg_from_guid snapshot = 0 then ''full'' else ''incremental'')
      in \<lparr>sv_label = bg_dataset_name snapshot @ ''  '' @ em_dash @ ''  '' @ relation @ '', '' @ mode,
          sv_created_at = (if bg_creation_time snapshot > 0 then Some (bg_creation_time snapshot) else None),
          sv_selector = guid_string (bg_to_guid snapshot), sv_update_eligible = True, sv_encrypted = raw,
          sv_key_format = map_option er_key_format (bt_get requirements (bg_to_guid snapshot)),
          sv_kind = (if bg_from_guid snapshot = 0 then FullSend else IncrementalSend),
          sv_dataset = dataset, sv_snapshot = name, sv_parent = False\<rparr>)"

definition open_send :: "('f, 'r, 'l, 'i, 'v) client_env \<Rightarrow> string \<Rightarrow> source_catalog result" where
  "open_send ce path =
     and_then (inspect_stream (ce_stream ce path)) (\<lambda>inspection.
     and_then (if list_ex (\<lambda>snapshot. bg_features snapshot AND FEATURE_RAW \<noteq> 0) (in_snapshots inspection)
               then encryption_requirements (ce_stream ce path) else Inr []) (\<lambda>requirements.
     let views = map (send_view requirements) (in_snapshots inspection);
         title = (case file_name path of None \<Rightarrow> path | Some name \<Rightarrow> name)
     in Inr \<lparr>ct_kind = SendStream, ct_path = path, ct_title = title,
          ct_summary = display_nat (length views) @ '' snapshot'' @ plural (length views) @ middot @
            display_nat (unat (in_stream_bytes inspection)) @ '' stream bytes'',
          ct_views = views, ct_container_key_file = None, ct_container_key_material = None\<rparr>))"

section \<open>Key material\<close>

definition read_limited :: "('f, 'r, 'l, 'i, 'v) client_env \<Rightarrow> string \<Rightarrow> nat \<Rightarrow> byte list result" where
  "read_limited ce path maximum_size =
     and_then (map_err (\<lambda>_. Bail ''opening {label} file {}'') (ce_key_file ce path)) (\<lambda>read.
     and_then (map_err (\<lambda>_. Bail ''reading {label} file {}'') (read (maximum_size + 1))) (\<lambda>material.
     if length material > maximum_size then Inl (Bail ''{label} file {} is too large'') else Inr material))"

definition read_secret_file :: "('f, 'r, 'l, 'i, 'v) client_env \<Rightarrow> string option \<Rightarrow> nat \<Rightarrow> byte list option result" where
  "read_secret_file ce path maximum_size =
     (case path of
        None \<Rightarrow> Inr None
      | Some path \<Rightarrow> and_then (read_limited ce path maximum_size) (\<lambda>material. Inr (Some (strip_newline material))))"

definition read_key_for_requirement ::
  "('f, 'r, 'l, 'i, 'v) client_env \<Rightarrow> encryption_requirement option \<Rightarrow> string option \<Rightarrow> byte list option result" where
  "read_key_for_requirement ce requirement key_file =
     (case requirement of
        None \<Rightarrow> Inr None
      | Some requirement \<Rightarrow>
          and_then (ok_or key_file (Bail ''{} is encrypted; choose its {} key file first'')) (\<lambda>path.
          and_then (if er_key_format requirement \<in> {''raw'', ''hex''} then Inr 66
                    else if er_key_format requirement = ''passphrase'' then Inr 514
                    else Inl (Panic ''encryption requirement validates the key format'')) (\<lambda>maximum_size.
          and_then (read_limited ce path maximum_size) (\<lambda>material.
          and_then (normalize_key_file_material (er_key_format requirement) material) (\<lambda>material. Inr (Some material))))))"

definition key_material_for_requirement :: "encryption_requirement option \<Rightarrow> byte list option \<Rightarrow> byte list option result" where
  "key_material_for_requirement requirement key_material =
     (case requirement of
        None \<Rightarrow> Inr None
      | Some requirement \<Rightarrow>
          and_then (ok_or key_material (Bail ''{} is encrypted; enter or choose its {} key first'')) (\<lambda>material.
          and_then (normalize_key_file_material (er_key_format requirement) material) (\<lambda>material. Inr (Some material))))"

definition key_for_snapshot :: "('f, 'r, 'l, 'i, 'v) client_env \<Rightarrow> string \<Rightarrow> string \<Rightarrow> string option \<Rightarrow> byte list option result" where
  "key_for_snapshot ce stream selector key_file =
     and_then (encryption_requirement_of (ce_stream ce stream) (Some selector)) (\<lambda>requirement.
     read_key_for_requirement ce requirement key_file)"

definition key_for_pool :: "('f, 'r, 'l, 'i, 'v) client_env \<Rightarrow> pool_member \<Rightarrow> string \<Rightarrow> string option \<Rightarrow> byte list option result" where
  "key_for_pool ce pool selector key_file =
     and_then (pool_encryption_requirement (ce_lib ce) pool selector) (\<lambda>requirement.
     read_key_for_requirement ce requirement key_file)"

section \<open>Pool catalogs\<close>

definition is_parent :: "dataset_info list \<Rightarrow> string \<Rightarrow> bool" where
  "is_parent ds name = list_ex (\<lambda>other. length (di_name other) > length name + 1 \<and> prefix (name @ ''/'') (di_name other)) ds"

definition pool_requirements ::
  "('r, 'l, 'i, 'v) pool_lib \<Rightarrow> pool_member \<Rightarrow> dataset_info list \<Rightarrow> (string, encryption_requirement option) btree result" where
  "pool_requirements pl pool ds =
     try_fold (\<lambda>dataset requirements.
       and_then (pool_encryption_requirement pl pool (di_name dataset)) (\<lambda>requirement.
       Inr (bt_insert (di_name dataset) requirement requirements))) [] ds"

definition requirement_for :: "(string, encryption_requirement option) btree \<Rightarrow> string \<Rightarrow> encryption_requirement option" where
  "requirement_for requirements name = (case bt_get requirements name of Some r \<Rightarrow> r | None \<Rightarrow> None)"

definition snapshot_view ::
  "dataset_info list \<Rightarrow> (string, encryption_requirement option) btree \<Rightarrow> pool_snapshot \<Rightarrow> source_view" where
  "snapshot_view ds requirements snapshot =
     (let requirement = requirement_for requirements (ps_dataset snapshot) in
      \<lparr>sv_label = ps_full_name snapshot @ ''  '' @ em_dash @ ''  snapshot'',
       sv_created_at = (if ps_creation_time snapshot > 0 then Some (ps_creation_time snapshot) else None),
       sv_selector = ps_full_name snapshot, sv_update_eligible = True, sv_encrypted = (requirement \<noteq> None),
       sv_key_format = map_option er_key_format requirement, sv_kind = Snapshot, sv_dataset = ps_dataset snapshot,
       sv_snapshot = snd (split_snapshot (ps_full_name snapshot)), sv_parent = is_parent ds (ps_dataset snapshot)\<rparr>)"

definition current_view ::
  "dataset_info list \<Rightarrow> (string, encryption_requirement option) btree \<Rightarrow> dataset_info \<Rightarrow> source_view" where
  "current_view ds requirements dataset =
     (let requirement = requirement_for requirements (di_name dataset) in
      \<lparr>sv_label = di_name dataset @ ''  '' @ em_dash @ ''  current (read-only)'', sv_created_at = None,
       sv_selector = di_name dataset, sv_update_eligible = False, sv_encrypted = (requirement \<noteq> None),
       sv_key_format = map_option er_key_format requirement, sv_kind = Current, sv_dataset = di_name dataset,
       sv_snapshot = None, sv_parent = is_parent ds (di_name dataset)\<rparr>)"

text \<open>\<open>sort_by\<close> is stable: sorting by name and then by falling time is the comparison of the source.\<close>

definition newest_first :: "pool_snapshot list \<Rightarrow> pool_snapshot list" where
  "newest_first snapshots = sort_key (\<lambda>s. - uint (ps_creation_time s)) (sort_key ps_full_name snapshots)"

definition pool_vendor :: "string \<Rightarrow> string" where
  "pool_vendor format = (if format = ''slide_box'' then ''Slide Box''
     else if format = ''datto_reverse_roundtrip'' then ''Datto Reverse RoundTrip'' else ''ZFS pool'')"

definition pool_summary :: "string \<Rightarrow> pool_inspection \<Rightarrow> string" where
  "pool_summary vendor inspection =
     vendor @ middot @ pi_vdev_type inspection @ middot @ ''txg '' @ display_nat (unat (pi_txg inspection)) @ middot @
     display_nat (pi_datasets inspection) @ '' dataset'' @ plural (pi_datasets inspection) @ middot @
     display_nat (pi_snapshots inspection) @ '' snapshot'' @ plural (pi_snapshots inspection) @
     (case pi_container_encryption inspection of None \<Rightarrow> '''' | Some v \<Rightarrow> middot @ v)"

definition open_pool_with_container_key ::
  "('f, 'r, 'l, 'i, 'v) client_env \<Rightarrow> string \<Rightarrow> byte list option \<Rightarrow> string option \<Rightarrow> source_catalog result" where
  "open_pool_with_container_key ce path container_key container_key_file =
     and_then (open_with_container_key (se_pool (ce_session ce)) path container_key) (\<lambda>pool.
     and_then (pool_inspect (ce_lib ce) pool) (\<lambda>inspection.
     and_then (datasets (ce_lib ce) pool) (\<lambda>ds.
     and_then (pool_snapshots (ce_lib ce) pool None) (\<lambda>snapshots.
     and_then (pool_requirements (ce_lib ce) pool ds) (\<lambda>requirements.
     let views = map (snapshot_view ds requirements) (newest_first snapshots) @ map (current_view ds requirements) ds in
     if views = [] then Inl (Bail ''pool {} contains no browseable filesystem datasets'')
     else let vendor = pool_vendor (pi_backup_format inspection) in
     Inr \<lparr>ct_kind = PoolMember, ct_path = path, ct_title = vendor @ '' '' @ em_dash @ '' '' @ pi_pool_name inspection,
          ct_summary = pool_summary vendor inspection, ct_views = views,
          ct_container_key_file = container_key_file, ct_container_key_material = container_key\<rparr>)))))"

definition open_pool_with_container_key_file ::
  "('f, 'r, 'l, 'i, 'v) client_env \<Rightarrow> string \<Rightarrow> string option \<Rightarrow> source_catalog result" where
  "open_pool_with_container_key_file ce path container_key_file =
     and_then (read_secret_file ce container_key_file 4096) (\<lambda>container_key.
     open_pool_with_container_key ce path container_key container_key_file)"

definition open_pool :: "('f, 'r, 'l, 'i, 'v) client_env \<Rightarrow> string \<Rightarrow> source_catalog result" where
  "open_pool ce path = open_pool_with_container_key_file ce path None"

definition open_pool_with_container_key_material ::
  "('f, 'r, 'l, 'i, 'v) client_env \<Rightarrow> string \<Rightarrow> byte list option \<Rightarrow> source_catalog result" where
  "open_pool_with_container_key_material ce path container_key = open_pool_with_container_key ce path container_key None"

definition open_pool_member :: "('f, 'r, 'l, 'i, 'v) client_env \<Rightarrow> source_catalog \<Rightarrow> pool_member result" where
  "open_pool_member ce ct =
     (case ct_container_key_material ct of
        Some key \<Rightarrow> open_with_container_key (se_pool (ce_session ce)) (ct_path ct) (Some key)
      | None \<Rightarrow>
          and_then (read_secret_file ce (ct_container_key_file ct) 4096) (\<lambda>key.
          open_with_container_key (se_pool (ce_session ce)) (ct_path ct) key))"

section \<open>Browsing and extracting a view\<close>

definition catalog_view :: "source_catalog \<Rightarrow> nat \<Rightarrow> source_view result" where
  "catalog_view ct index =
     (if index < length (ct_views ct) then Inr (ct_views ct ! index)
      else Inl (Bail ''selected source view {index} no longer exists''))"

text \<open>The two branches of every call on a view: for a send file the key is settled from the stream,
  for a pool the member is opened again first. The call \<open>settle\<close> turns a requirement into a key.\<close>

definition with_view ::
  "('f, 'r, 'l, 'i, 'v) client_env \<Rightarrow> source_catalog \<Rightarrow> nat \<Rightarrow> (encryption_requirement option \<Rightarrow> byte list option result) \<Rightarrow>
   (string \<Rightarrow> byte list option \<Rightarrow> 'a result) \<Rightarrow> (pool_member \<Rightarrow> string \<Rightarrow> byte list option \<Rightarrow> 'a result) \<Rightarrow> 'a result" where
  "with_view ce ct view_index settle on_stream on_pool =
     and_then (catalog_view ct view_index) (\<lambda>view.
     case ct_kind ct of
       SendStream \<Rightarrow>
         and_then (encryption_requirement_of (ce_stream ce (ct_path ct)) (Some (sv_selector view))) (\<lambda>requirement.
         and_then (settle requirement) (\<lambda>key. on_stream (sv_selector view) key))
     | PoolMember \<Rightarrow>
         and_then (open_pool_member ce ct) (\<lambda>pool.
         and_then (pool_encryption_requirement (ce_lib ce) pool (sv_selector view)) (\<lambda>requirement.
         and_then (settle requirement) (\<lambda>key. on_pool pool (sv_selector view) key))))"

definition list_view_with ::
  "('f, 'r, 'l, 'i, 'v) client_env \<Rightarrow> source_catalog \<Rightarrow> nat \<Rightarrow> string \<Rightarrow> (encryption_requirement option \<Rightarrow> byte list option result) \<Rightarrow>
   directory_entry list result" where
  "list_view_with ce ct view_index path settle =
     with_view ce ct view_index settle
       (\<lambda>selector key. list_directory_snapshot_with_key (pl_zpl (ce_lib ce)) (pl_crypto (ce_lib ce)) (pl_codecs (ce_lib ce))
          (ce_stream ce (ct_path ct)) path (Some selector) key)
       (\<lambda>pool selector key. pool_list_directory_with_key (ce_lib ce) pool selector key path)"

definition client_list_directory ::
  "('f, 'r, 'l, 'i, 'v) client_env \<Rightarrow> source_catalog \<Rightarrow> nat \<Rightarrow> string \<Rightarrow> string option \<Rightarrow> directory_entry list result" where
  "client_list_directory ce ct view_index path key_file =
     list_view_with ce ct view_index path (\<lambda>requirement. read_key_for_requirement ce requirement key_file)"

definition list_directory_with_key_material ::
  "('f, 'r, 'l, 'i, 'v) client_env \<Rightarrow> source_catalog \<Rightarrow> nat \<Rightarrow> string \<Rightarrow> byte list option \<Rightarrow> directory_entry list result" where
  "list_directory_with_key_material ce ct view_index path key_material =
     list_view_with ce ct view_index path (\<lambda>requirement. key_material_for_requirement requirement key_material)"

definition extraction_from_sidecar :: "sidecar \<Rightarrow> client_extraction" where
  "extraction_from_sidecar sc = \<lparr>cx_logical_size = sc_logical_size sc, cx_sha256 = sc_sha256 sc, cx_update_eligible = True\<rparr>"

definition extraction_from_pool :: "pool_extraction \<Rightarrow> client_extraction" where
  "extraction_from_pool px =
     \<lparr>cx_logical_size = px_logical_size px, cx_sha256 = px_sha256 px, cx_update_eligible = px_sidecar_written px\<rparr>"

text \<open>Calls that write run the backend on the file system once everything before succeeded.\<close>

definition run_on :: "('s \<Rightarrow> 's \<times> 'a result) result \<Rightarrow> 's \<Rightarrow> 's \<times> 'a result" where
  "run_on call st = (case call of Inl e \<Rightarrow> (st, Inl e) | Inr f \<Rightarrow> f st)"

definition extract_view_with ::
  "('f, 'r, 'l, 'i, 'v) client_env \<Rightarrow> source_catalog \<Rightarrow> nat \<Rightarrow> string \<Rightarrow> string \<Rightarrow> bool \<Rightarrow>
   (encryption_requirement option \<Rightarrow> byte list option result) \<Rightarrow> disk \<Rightarrow> disk \<times> client_extraction result" where
  "extract_view_with ce ct view_index source_path destination force settle =
     run_on (with_view ce ct view_index settle
       (\<lambda>selector key. Inr (\<lambda>disk.
          let (disk, r) = extract_snapshot_with_key (pl_zpl (ce_lib ce)) (pl_crypto (ce_lib ce)) (pl_codecs (ce_lib ce)) (ce_env ce)
                (ce_stream ce (ct_path ct)) source_path destination force (Some selector) key disk
          in (disk, and_then r (\<lambda>sc. Inr (extraction_from_sidecar sc)))))
       (\<lambda>pool selector key. Inr (\<lambda>disk.
          let (disk, r) = pool_extract_with_key (ce_lib ce) pool (ce_env ce) (ce_remove ce) selector source_path destination force key disk
          in (disk, and_then r (\<lambda>px. Inr (extraction_from_pool px))))))"

definition client_extract ::
  "('f, 'r, 'l, 'i, 'v) client_env \<Rightarrow> source_catalog \<Rightarrow> nat \<Rightarrow> string \<Rightarrow> string \<Rightarrow> bool \<Rightarrow> string option \<Rightarrow> disk \<Rightarrow>
   disk \<times> client_extraction result" where
  "client_extract ce ct view_index source_path destination force key_file =
     extract_view_with ce ct view_index source_path destination force (\<lambda>requirement. read_key_for_requirement ce requirement key_file)"

definition extract_with_key_material ::
  "('f, 'r, 'l, 'i, 'v) client_env \<Rightarrow> source_catalog \<Rightarrow> nat \<Rightarrow> string \<Rightarrow> string \<Rightarrow> bool \<Rightarrow> byte list option \<Rightarrow> disk \<Rightarrow>
   disk \<times> client_extraction result" where
  "extract_with_key_material ce ct view_index source_path destination force key_material =
     extract_view_with ce ct view_index source_path destination force (\<lambda>requirement. key_material_for_requirement requirement key_material)"

definition extract_tree_view_with ::
  "('f, 'r, 'l, 'i, 'v) client_env \<Rightarrow> source_catalog \<Rightarrow> nat \<Rightarrow> string \<Rightarrow> path \<Rightarrow> bool \<Rightarrow>
   (encryption_requirement option \<Rightarrow> byte list option result) \<Rightarrow> tree_fs \<Rightarrow> tree_fs \<times> recursive_extraction result" where
  "extract_tree_view_with ce ct view_index source_path destination force settle =
     run_on (with_view ce ct view_index settle
       (\<lambda>selector key. Inr (extract_tree_snapshot_with_key (pl_zpl (ce_lib ce)) (pl_crypto (ce_lib ce)) (pl_codecs (ce_lib ce)) (ce_env ce)
          (ce_tree ce) (ce_stream ce (ct_path ct)) source_path destination force (Some selector) key))
       (\<lambda>pool selector key. Inr (extract_tree_with_key (ce_lib ce) pool (ce_env ce) (ce_tree ce) selector source_path destination force key)))"

definition client_extract_tree ::
  "('f, 'r, 'l, 'i, 'v) client_env \<Rightarrow> source_catalog \<Rightarrow> nat \<Rightarrow> string \<Rightarrow> path \<Rightarrow> bool \<Rightarrow> string option \<Rightarrow> tree_fs \<Rightarrow>
   tree_fs \<times> recursive_extraction result" where
  "client_extract_tree ce ct view_index source_path destination force key_file =
     extract_tree_view_with ce ct view_index source_path destination force (\<lambda>requirement. read_key_for_requirement ce requirement key_file)"

definition extract_tree_with_key_material ::
  "('f, 'r, 'l, 'i, 'v) client_env \<Rightarrow> source_catalog \<Rightarrow> nat \<Rightarrow> string \<Rightarrow> path \<Rightarrow> bool \<Rightarrow> byte list option \<Rightarrow> tree_fs \<Rightarrow>
   tree_fs \<times> recursive_extraction result" where
  "extract_tree_with_key_material ce ct view_index source_path destination force key_material =
     extract_tree_view_with ce ct view_index source_path destination force (\<lambda>requirement. key_material_for_requirement requirement key_material)"

section \<open>Nested images\<close>

definition from_session :: "inception_session \<Rightarrow> inception_catalog" where
  "from_session ss = \<lparr>ic_image_path = is_image_path ss, ic_image_offset = is_image_offset ss, ic_stored_size = is_stored_size ss,
     ic_disk_size = is_disk_size ss, ic_container = is_container ss, ic_volumes = is_volumes ss, ic_session = ss\<rparr>"

definition inception_open_file :: "('f, 'r, 'l, 'i, 'v) client_env \<Rightarrow> string \<Rightarrow> u64 \<Rightarrow> u64 option \<Rightarrow> inception_catalog result" where
  "inception_open_file ce path image_offset image_length =
     and_then (from_file_at (ce_session ce) path image_offset image_length) (\<lambda>ss. Inr (from_session ss))"

text \<open>Datto credentials are refused for a send file before its key is settled; for a pool the password
  file is read after the key.\<close>

definition open_inception_with ::
  "('f, 'r, 'l, 'i, 'v) client_env \<Rightarrow> source_catalog \<Rightarrow> nat \<Rightarrow> string \<Rightarrow> (encryption_requirement option \<Rightarrow> byte list option result) \<Rightarrow>
   bool \<Rightarrow> byte list option result \<Rightarrow> string option \<Rightarrow> u64 \<Rightarrow> u64 option \<Rightarrow> inception_session result" where
  "open_inception_with ce ct view_index image_path settle has_password agent_password key_stash_path image_offset image_length =
     and_then (catalog_view ct view_index) (\<lambda>_.
     if ct_kind ct = SendStream \<and> (has_password \<or> key_stash_path \<noteq> None)
     then Inl (Bail ''Datto agent credentials are only valid for a pool member'')
     else with_view ce ct view_index settle
       (\<lambda>selector key. from_send_at (ce_session ce) (ct_path ct) (Some selector) image_path key image_offset image_length)
       (\<lambda>pool selector key. and_then agent_password (\<lambda>password.
          from_pool_member_at_with_keys (ce_session ce) pool selector image_path key password key_stash_path image_offset image_length)))"

definition open_inception ::
  "('f, 'r, 'l, 'i, 'v) client_env \<Rightarrow> source_catalog \<Rightarrow> nat \<Rightarrow> string \<Rightarrow> string option \<Rightarrow> string option \<Rightarrow> string option \<Rightarrow>
   u64 \<times> u64 option \<Rightarrow> inception_session result" where
  "open_inception ce ct view_index image_path key_file agent_password_file key_stash_path = (\<lambda>(image_offset, image_length).
     open_inception_with ce ct view_index image_path (\<lambda>requirement. read_key_for_requirement ce requirement key_file)
       (agent_password_file \<noteq> None) (read_secret_file ce agent_password_file 4096) key_stash_path image_offset image_length)"

definition inspect_inception_with_datto ::
  "('f, 'r, 'l, 'i, 'v) client_env \<Rightarrow> source_catalog \<Rightarrow> nat \<Rightarrow> string \<Rightarrow> string option \<Rightarrow> string option \<Rightarrow> string option \<Rightarrow>
   u64 \<Rightarrow> u64 option \<Rightarrow> inception_catalog result" where
  "inspect_inception_with_datto ce ct view_index image_path key_file agent_password_file key_stash_path image_offset image_length =
     and_then (open_inception ce ct view_index image_path key_file agent_password_file key_stash_path (image_offset, image_length))
       (\<lambda>ss. Inr (from_session ss))"

definition inspect_inception ::
  "('f, 'r, 'l, 'i, 'v) client_env \<Rightarrow> source_catalog \<Rightarrow> nat \<Rightarrow> string \<Rightarrow> string option \<Rightarrow> u64 \<Rightarrow> u64 option \<Rightarrow> inception_catalog result" where
  "inspect_inception ce ct view_index image_path key_file image_offset image_length =
     inspect_inception_with_datto ce ct view_index image_path key_file None None image_offset image_length"

definition inspect_inception_with_key_material ::
  "('f, 'r, 'l, 'i, 'v) client_env \<Rightarrow> source_catalog \<Rightarrow> nat \<Rightarrow> string \<Rightarrow> byte list option \<Rightarrow> byte list option \<Rightarrow> string option \<Rightarrow>
   u64 \<Rightarrow> u64 option \<Rightarrow> inception_catalog result" where
  "inspect_inception_with_key_material ce ct view_index image_path key_material agent_password key_stash_path image_offset image_length =
     and_then (open_inception_with ce ct view_index image_path (\<lambda>requirement. key_material_for_requirement requirement key_material)
       (agent_password \<noteq> None) (Inr agent_password) key_stash_path image_offset image_length) (\<lambda>ss. Inr (from_session ss))"

section \<open>Incremental updates and paths\<close>

definition apply_with ::
  "('f, 'r, 'l, 'i, 'v) client_env \<Rightarrow> string \<Rightarrow> string \<Rightarrow> (encryption_requirement option \<Rightarrow> byte list option result) \<Rightarrow> disk \<Rightarrow>
   (disk \<times> sidecar result) option" where
  "apply_with ce stream target settle disk =
     (case and_then (apply_encryption_requirement (ce_stream ce stream)) settle of
        Inl e \<Rightarrow> Some (disk, Inl e)
      | Inr key \<Rightarrow> apply_incremental_with_key (pl_crypto (ce_lib ce)) (pl_codecs (ce_lib ce)) (ce_env ce) (ce_stream ce stream) target key disk)"

definition client_apply_incremental ::
  "('f, 'r, 'l, 'i, 'v) client_env \<Rightarrow> string \<Rightarrow> string \<Rightarrow> string option \<Rightarrow> disk \<Rightarrow> (disk \<times> sidecar result) option" where
  "client_apply_incremental ce stream target key_file =
     apply_with ce stream target (\<lambda>requirement. read_key_for_requirement ce requirement key_file)"

definition apply_incremental_with_key_material ::
  "('f, 'r, 'l, 'i, 'v) client_env \<Rightarrow> string \<Rightarrow> string \<Rightarrow> byte list option \<Rightarrow> disk \<Rightarrow> (disk \<times> sidecar result) option" where
  "apply_incremental_with_key_material ce stream target key_material =
     apply_with ce stream target (\<lambda>requirement. key_material_for_requirement requirement key_material)"

definition trim_end_slashes :: "string \<Rightarrow> string" where
  "trim_end_slashes s = rev (dropWhile (\<lambda>c. c = CHR ''/'') (rev s))"

definition child_path :: "string \<Rightarrow> string \<Rightarrow> string result" where
  "child_path directory name =
     (if name = '''' \<or> CHR ''/'' \<in> set name \<or> name = ''.'' \<or> name = ''..''
      then Inl (Bail ''invalid directory entry name {name:?}'')
      else if directory = ''/'' then Inr (''/'' @ name)
      else Inr (trim_end_slashes directory @ ''/'' @ name))"

definition parent_path :: "string \<Rightarrow> string" where
  "parent_path path =
     (case rsplit_once CHR ''/'' (trim_end_slashes path) of
        None \<Rightarrow> ''/''
      | Some (parent, _) \<Rightarrow> if parent = '''' then ''/'' else parent)"

end
