(* ===== verification/Client_Views.thy ===== *)
theory Client_Views
  imports Client
begin

text \<open>
  Properties of catalogs: the selector of a view leads back to the snapshot or dataset the view
  describes.
\<close>

section \<open>Views of a send file\<close>

lemma inspect_pushes_headers:
  assumes "try_fold inspect_record (snapshots, n, counts) recs = Inr (snapshots', n', counts')"
  shows "try_fold push_header snapshots recs = Inr snapshots'"
  using assms
proof (induction recs arbitrary: snapshots n counts)
  case (Cons rec recs)
  from Cons.prems obtain st where step: "inspect_record rec (snapshots, n, counts) = Inr st" and "try_fold inspect_record st recs = Inr (snapshots', n', counts')"
    by (auto simp: result_simps)
  moreover obtain s1 n1 c1 where "st = (s1, n1, c1)" by (cases st)
  moreover from this step have "push_header rec snapshots = Inr s1" by (auto simp: inspect_record_def Let_def result_simps)
  ultimately have "push_header rec snapshots = Inr s1" "try_fold inspect_record (s1, n1, c1) recs = Inr (snapshots', n', counts')" by auto
  with Cons.IH show ?case by simp
qed simp

lemma inspect_stream_headers:
  assumes "inspect_stream src = Inr inspection"
  shows "snapshot_headers src = Inr (in_snapshots inspection)"
proof -
  from assms obtain reader snapshots n counts r' where o: "open_stream src = Inr reader"
    and l: "stream_loop inspect_record reader ([], 0, []) = Inr ((snapshots, n, counts), r')"
    and e: "saw_end r'" "snapshots \<noteq> []" "in_snapshots inspection = snapshots"
    by (auto simp: inspect_stream_def result_simps split: if_splits list.splits)
  from l obtain recs where r: "reads reader recs r'" "try_fold inspect_record ([], 0, []) recs = Inr (snapshots, n, counts)"
    by (auto simp: stream_loop_reads)
  have "stream_loop push_header reader [] = Inr (snapshots, r')"
    using r(1) inspect_pushes_headers [OF r(2)] by (auto simp: stream_loop_reads)
  then show ?thesis using o e by (simp add: snapshot_headers_def)
qed

lemma matching_one:
  assumes "i < length xs" and "\<And>j. j < length xs \<Longrightarrow> P (xs ! j) \<longleftrightarrow> j = i"
  shows "matching P xs = [i]"
proof -
  have "matching P xs = filter (\<lambda>j. j = i) [0 ..< length xs]"
    unfolding matching_def by (rule filter_cong) (use assms(2) in auto)
  also have "\<dots> = [i]" using assms(1) by (induction xs rule: rev_induct) (auto simp: less_Suc_eq)
  finally show ?thesis .
qed

lemma matching_none: "(\<And>h. h \<in> set xs \<Longrightarrow> \<not> P h) \<Longrightarrow> matching P xs = []"
  by (auto simp: matching_def filter_empty_conv)

lemma guid_selects:
  assumes "i < length hs" and "distinct (map bg_to_guid hs)"
    and "\<forall>h \<in> set hs. bg_dataset_name h \<noteq> guid_string (bg_to_guid (hs ! i)) \<and> \<not> short_name_is (guid_string (bg_to_guid (hs ! i))) h"
  shows "select_snapshot hs (Some (guid_string (bg_to_guid (hs ! i)))) = Inr i"
proof -
  let ?sel = "guid_string (bg_to_guid (hs ! i))"
  have "strip_prefix ''@'' ?sel = None" by (simp add: guid_string_def strip_prefix_def)
  moreover have "parse_selector_guid ?sel = Some (bg_to_guid (hs ! i))"
    by (simp add: parse_selector_guid_def guid_string_def strip_prefix_def from_str_radix_hex_016)
  moreover have "matching (\<lambda>h. bg_to_guid h = bg_to_guid (hs ! i)) hs = [i]"
    by (rule matching_one [OF assms(1)]) (use assms(1,2) nth_eq_iff_index_eq [of "map bg_to_guid hs"] in auto)
  moreover have "matching (\<lambda>h. bg_dataset_name h = ?sel) hs = []" "matching (short_name_is ?sel) hs = []"
    by (rule matching_none, use assms(3) in blast)+
  ultimately show ?thesis by (simp add: select_snapshot_def)
qed

section \<open>Properties\<close>

text \<open>C39: The views of a send file are its snapshots, and the selector of a view leads back to its own
  snapshot. When the snapshots have different GUIDs and none is named like the selector, selecting
  the view picks the header the view describes; a view shown as a full copy can always be planned,
  and is planned alone; and a view is shown as encrypted exactly when its substream is raw.\<close>

theorem send_views_select_their_snapshot:
  assumes "open_send ce path = Inr ct" and "snapshot_headers (ce_stream ce path) = Inr hs" and "i < length (ct_views ct)"
    and "distinct (map bg_to_guid hs)"
    and "\<forall>h \<in> set hs. bg_dataset_name h \<noteq> sv_selector (ct_views ct ! i) \<and> \<not> short_name_is (sv_selector (ct_views ct ! i)) h"
  shows "length hs = length (ct_views ct) \<and>
     select_snapshot hs (Some (sv_selector (ct_views ct ! i))) = Inr i \<and>
     (\<forall>plan. plan_snapshot (ce_stream ce path) (Some (sv_selector (ct_views ct ! i))) = Inr plan \<longrightarrow> plan_target plan = hs ! i) \<and>
     (sv_kind (ct_views ct ! i) = FullSend \<longrightarrow> plan_snapshot (ce_stream ce path) (Some (sv_selector (ct_views ct ! i))) =
        Inr \<lparr>plan_target = hs ! i, plan_chain = [bg_to_guid (hs ! i)]\<rparr>) \<and>
     (sv_encrypted (ct_views ct ! i) \<longleftrightarrow> bg_features (hs ! i) AND FEATURE_RAW \<noteq> 0)"
proof -
  from assms(1) obtain inspection requirements where "inspect_stream (ce_stream ce path) = Inr inspection"
    and views: "ct_views ct = map (send_view requirements) (in_snapshots inspection)"
    by (auto simp: open_send_def Let_def result_simps simp del: map_eq_conv)
  with inspect_stream_headers assms(2) have v: "ct_views ct = map (send_view requirements) hs" by fastforce
  then have i: "i < length hs" "ct_views ct ! i = send_view requirements (hs ! i)" using assms(3) by simp_all
  have sel: "sv_selector (ct_views ct ! i) = guid_string (bg_to_guid (hs ! i))"
    and kind: "sv_kind (ct_views ct ! i) = FullSend \<longleftrightarrow> bg_from_guid (hs ! i) = 0"
    and enc: "sv_encrypted (ct_views ct ! i) \<longleftrightarrow> bg_features (hs ! i) AND FEATURE_RAW \<noteq> 0"
    by (simp_all add: i(2) send_view_def Let_def split: prod.split)
  have s: "select_snapshot hs (Some (sv_selector (ct_views ct ! i))) = Inr i"
    unfolding sel by (rule guid_selects [OF i(1) assms(4)]) (use assms(5) sel in auto)
  show ?thesis
    using assms(2) v s kind enc
    by (auto simp: plan_snapshot_def plan_of_headers_def Let_def result_simps walk_chain.simps)
qed

section \<open>Views of a pool\<close>

lemma split_once_none: "c \<notin> set s \<Longrightarrow> split_once c s = (s, None)"
proof -
  assume "c \<notin> set s"
  then have "dropWhile (\<lambda>d. d \<noteq> c) s = []" by (auto simp: dropWhile_eq_Nil_conv)
  then show ?thesis unfolding split_once_def by (simp only: list.case)
qed

lemma split_once_at: "c \<notin> set a \<Longrightarrow> split_once c (a @ c # b) = (a, Some b)"
proof -
  assume "c \<notin> set a"
  then have "dropWhile (\<lambda>d. d \<noteq> c) (a @ c # b) = c # b" "takeWhile (\<lambda>d. d \<noteq> c) (a @ c # b) = a"
    by (auto simp: dropWhile_append takeWhile_append dropWhile_eq_Nil_conv takeWhile_eq_all_conv)
  then show ?thesis by (simp add: split_once_def)
qed

lemma snapshots_for_names:
  assumes "snapshots_for pl m d = Inr ss" and "s \<in> set ss"
  shows "ps_dataset s = di_name d \<and> ps_full_name s = di_name d @ ''@'' @ ps_name s \<and> (\<exists>guid. pool_parse_guid (ps_guid s) = Some guid)"
proof -
  have "\<exists>x. pool_snapshot_of pl m d x = Inr s"
    using assms by (auto simp: snapshots_for_def Let_def result_simps split: if_splits dest!: try_map_source)
  then show ?thesis
    by (auto simp: pool_snapshot_of_def result_simps pool_parse_guid_def guid_string_def strip_prefix_def from_str_radix_hex_016)
qed

lemma pool_snapshots_from:
  assumes "pool_snapshots pl m None = Inr snaps" and "datasets pl m = Inr ds" and "s \<in> set snaps"
  shows "\<exists>d \<in> set ds. \<exists>ss. snapshots_for pl m d = Inr ss \<and> s \<in> set ss"
proof -
  from assms(1,2) obtain sss where sss: "try_map (snapshots_for pl m) ds = Inr sss" "snaps = sort_key ps_full_name (concat sss)"
    by (auto simp: pool_snapshots_def result_simps)
  with assms(3) obtain ss where "ss \<in> set sss" "s \<in> set ss" by auto
  with try_map_source [OF sss(1)] show ?thesis by blast
qed

lemma find_dataset:
  assumes "distinct (map di_name ds)" and "d \<in> set ds"
  shows "find (\<lambda>x. di_name x = di_name d) ds = Some d"
  using assms by (induction ds) (auto simp: image_iff)

lemma select_named_snapshot:
  assumes "snapshots_for pl m d = Inr ss" and "s \<in> set ss" and "ps_name s \<noteq> ''''" and "\<not> prefix ''0x'' (ps_name s)"
  shows "\<exists>s' guid. s' \<in> set ss \<and> ps_name s' = ps_name s \<and> pool_parse_guid (ps_guid s') = Some guid \<and>
    select_pool_snapshot pl m d (ps_name s) = Inr (ps_dataset_object s', Some guid)"
proof -
  have "strip_prefix ''0x'' (ps_name s) = None"
  proof (rule ccontr)
    assume "strip_prefix ''0x'' (ps_name s) \<noteq> None"
    then obtain t where "ps_name s = ''0x'' @ t" using strip_prefix_Some by blast
    with assms(4) show False by simp
  qed
  moreover obtain s' where s': "find (\<lambda>x. ps_name x = ps_name s) ss = Some s'"
    using assms(2) by (cases "find (\<lambda>x. ps_name x = ps_name s) ss") (auto simp: find_None_iff)
  moreover from s' have "s' \<in> set ss" "ps_name s' = ps_name s" unfolding find_Some_iff by auto
  moreover from this(1) obtain guid where "pool_parse_guid (ps_guid s') = Some guid" using snapshots_for_names [OF assms(1)] by blast
  ultimately show ?thesis using assms(1,3) by (auto simp: select_pool_snapshot_def)
qed

text \<open>C40: The selector of a view of a pool opens what the view shows. When the datasets have different
  names without an \<open>@\<close>, a current view selects the head of its dataset, and a snapshot view selects a
  snapshot of its dataset with the name it shows, unless that name begins with \<open>0x\<close>.\<close>

theorem pool_views_open_what_they_show:
  assumes "open_pool_with_container_key ce path key file = Inr ct"
    and "open_with_container_key (se_pool (ce_session ce)) path key = Inr m" and "datasets (ce_lib ce) m = Inr ds"
    and "distinct (map di_name ds)" and "\<forall>d \<in> set ds. di_name d \<noteq> '''' \<and> CHR ''@'' \<notin> set (di_name d)"
    and "v \<in> set (ct_views ct)"
    and "sv_kind v = Snapshot \<longrightarrow> (\<exists>name. sv_snapshot v = Some name \<and> name \<noteq> '''' \<and> \<not> prefix ''0x'' name)"
  shows "\<exists>d object guid. d \<in> set ds \<and> di_name d = sv_dataset v \<and> select_dataset (ce_lib ce) m (sv_selector v) = Inr (d, object, guid) \<and>
     (if sv_kind v = Snapshot
      then \<exists>s ss. snapshots_for (ce_lib ce) m d = Inr ss \<and> s \<in> set ss \<and> sv_snapshot v = Some (ps_name s) \<and>
        object = ps_dataset_object s \<and> guid = pool_parse_guid (ps_guid s)
      else sv_kind v = Current \<and> object = di_head_dataset_object d \<and> guid = None)"
proof -
  from assms(1-3) obtain snaps requirements where snaps: "pool_snapshots (ce_lib ce) m None = Inr snaps"
    and views: "ct_views ct = map (snapshot_view ds requirements) (newest_first snaps) @ map (current_view ds requirements) ds"
    by (auto simp: open_pool_with_container_key_def Let_def result_simps simp del: map_eq_conv split: if_splits)
  from assms(6) views consider (snapshot) s where "s \<in> set snaps" "v = snapshot_view ds requirements s"
    | (current) d where "d \<in> set ds" "v = current_view ds requirements d"
    by (auto simp: newest_first_def)
  then show ?thesis
  proof cases
    case snapshot
    from pool_snapshots_from [OF snaps assms(3) snapshot(1)] obtain d ss where d: "d \<in> set ds" and ss: "snapshots_for (ce_lib ce) m d = Inr ss" "s \<in> set ss"
      by blast
    from snapshots_for_names [OF ss] have n: "ps_dataset s = di_name d" "ps_full_name s = di_name d @ ''@'' @ ps_name s" by simp_all
    have at: "CHR ''@'' \<notin> set (di_name d)" "di_name d \<noteq> ''''" using assms(5) d by auto
    have v: "sv_kind v = Snapshot" "sv_selector v = di_name d @ ''@'' @ ps_name s" "sv_dataset v = di_name d" "sv_snapshot v = Some (ps_name s)"
      using at by (simp_all add: snapshot(2) snapshot_view_def Let_def n split_snapshot_def split_once_at)
    from assms(7) v obtain s' guid where s': "s' \<in> set ss" "ps_name s' = ps_name s" "pool_parse_guid (ps_guid s') = Some guid"
      "select_pool_snapshot (ce_lib ce) m d (ps_name s) = Inr (ps_dataset_object s', Some guid)"
      using select_named_snapshot [OF ss] by auto
    have "select_dataset (ce_lib ce) m (sv_selector v) = Inr (d, ps_dataset_object s', Some guid)"
      using at s'(4) find_dataset [OF assms(4) d] by (simp add: v select_dataset_def split_once_at assms(3))
    then show ?thesis using v d s' ss by (intro exI [of _ d]) auto
  next
    case current
    have at: "CHR ''@'' \<notin> set (di_name d)" "di_name d \<noteq> ''''" using assms(5) current(1) by auto
    have v: "sv_kind v = Current" "sv_selector v = di_name d" "sv_dataset v = di_name d" by (simp_all add: current(2) current_view_def Let_def)
    have "select_dataset (ce_lib ce) m (sv_selector v) = Inr (d, di_head_dataset_object d, None)"
      using at find_dataset [OF assms(4) current(1)] by (simp add: v select_dataset_def split_once_none assms(3))
    then show ?thesis using v current(1) by (intro exI [of _ d]) auto
  qed
qed

text \<open>A client of the small pool.\<close>

definition demo_client :: "(nat, unit, unit, unit, unit) client_env" where
  "demo_client = \<lparr>ce_session = blank_env\<lparr>se_send := (\<lambda>_. Some (demo_source 19))\<rparr>, ce_env = demo_env,
     ce_tree = \<lparr>te_windows = False, te_fault = (\<lambda>_. False), te_tempdir = (\<lambda>_ _. Inl OsError)\<rparr>, ce_remove = (\<lambda>_. Inr ()),
     ce_key_file = (\<lambda>_. Inl OsError)\<rparr>"

definition pool_demo_snapshot :: pool_snapshot where
  "pool_demo_snapshot = \<lparr>ps_dataset = ''p'', ps_name = ''s'', ps_full_name = ''p@s'', ps_dataset_object = 3, ps_guid = guid_string 0,
     ps_creation_txg = 0, ps_creation_time = 0\<rparr>"

lemma pool_demo_snapshots:
  assumes "shows_demo m"
  shows "snapshots_for pool_demo m pool_demo_dataset = Inr [pool_demo_snapshot]"
proof -
  have z: "read_zap_object pool_demo m (pool_demo_md (pool_demo_dnode 5 [])) = Inr (replicate 5 0)"
    using pool_demo_zap [of 5] by (simp add: read_zap_object_def)
  have l: "zap_list (pl_zpl pool_demo) (replicate 5 0) = [(''s'', 3)]" by (simp add: pool_demo_def pool_demo_zpl_def)
  have "pool_snapshot_of pool_demo m pool_demo_dataset (''s'', 3) = Inr pool_demo_snapshot"
    by (simp add: pool_snapshot_of_def pool_demo_mos [OF assms] pool_demo_bonus pool_demo_snapshot_def) (simp add: pool_demo_dataset_def)
  then show ?thesis
    by (simp add: snapshots_for_def pool_demo_mos [OF assms] pool_demo_bonus z l MAX_SNAPSHOTS_PER_DATASET_def pool_demo_dataset_def)
qed

lemma demo_client_opens:
  assumes "open_with_container_key member_env ''disk'' None = Inr m" and "shows_demo m"
  shows "\<exists>ct. open_pool_with_container_key demo_client ''disk'' None None = Inr ct \<and>
    snapshot_view [pool_demo_dataset] [(''p'', None)] pool_demo_snapshot \<in> set (ct_views ct)"
proof -
  have lib: "ce_lib demo_client = pool_demo" "se_pool (ce_session demo_client) = member_env" by (simp_all add: demo_client_def blank_env_def)
  have name: "di_name pool_demo_dataset = ''p''" by (simp add: pool_demo_dataset_def)
  have "pool_encryption_requirement pool_demo m ''p'' = Inr None"
    by (simp add: pool_encryption_requirement_def pool_demo_select [OF assms(2)] pool_demo_pointer [OF assms(2)] pool_demo_plain)
  then have r: "pool_requirements pool_demo m [pool_demo_dataset] = Inr [(''p'', None)]" by (simp add: pool_requirements_def name)
  have s: "pool_snapshots pool_demo m None = Inr [pool_demo_snapshot]"
    by (simp add: pool_snapshots_def pool_demo_datasets [OF assms(2)] pool_demo_snapshots [OF assms(2)])
  obtain inspection where "pool_inspect pool_demo m = Inr inspection"
    by (simp add: pool_inspect_def pool_demo_datasets [OF assms(2)] pool_demo_snapshots [OF assms(2)])
  then show ?thesis
    by (simp add: open_pool_with_container_key_def lib assms(1) pool_demo_datasets [OF assms(2)] r s newest_first_def Let_def)
qed

theorem pool_views_open_what_they_show_witness:
  "\<exists>m ct v. open_with_container_key member_env ''disk'' None = Inr m \<and> open_pool_with_container_key demo_client ''disk'' None None = Inr ct \<and>
     v \<in> set (ct_views ct) \<and> sv_selector v = ''p@s'' \<and>
     (\<exists>object guid. select_dataset pool_demo m (sv_selector v) = Inr (pool_demo_dataset, object, guid))"
proof -
  obtain m where m: "open_with_container_key member_env ''disk'' None = Inr m" "shows_demo m" using member_opens by blast
  let ?v = "snapshot_view [pool_demo_dataset] [(''p'', None)] pool_demo_snapshot"
  from demo_client_opens [OF m] obtain ct where ct: "open_pool_with_container_key demo_client ''disk'' None None = Inr ct" "?v \<in> set (ct_views ct)" by blast
  have lib: "ce_lib demo_client = pool_demo" "se_pool (ce_session demo_client) = member_env" by (simp_all add: demo_client_def blank_env_def)
  have d: "datasets (ce_lib demo_client) m = Inr [pool_demo_dataset]" unfolding lib by (rule pool_demo_datasets [OF m(2)])
  have name: "di_name pool_demo_dataset = ''p''" by (simp add: pool_demo_dataset_def)
  have v: "sv_kind ?v = Snapshot" "sv_snapshot ?v = Some ''s''" "sv_selector ?v = ''p@s''"
    by (simp_all add: snapshot_view_def Let_def pool_demo_snapshot_def split_snapshot_def split_once_def)
  from pool_views_open_what_they_show [OF ct(1) _ d _ _ ct(2)] m(1) v name
  have "\<exists>object guid. select_dataset pool_demo m (sv_selector ?v) = Inr (pool_demo_dataset, object, guid)"
    unfolding lib by auto
  then show ?thesis using m(1) ct v(3) by blast
qed

text \<open>A snapshot whose name begins with \<open>0x\<close> is taken for a GUID: a view that shows it cannot be
  opened when the rest of the name is not a hexadecimal number.\<close>

theorem hexadecimal_snapshot_names_do_not_open:
  assumes "from_str_radix 16 rest = None"
  shows "\<exists>e. select_pool_snapshot pl m dataset (''0x'' @ rest) = Inl e"
  using assms by (cases "snapshots_for pl m dataset") (auto simp: select_pool_snapshot_def strip_prefix_def)

text \<open>A catalog opened with a passphrase file keeps the passphrase, and later calls use it instead of the
  file.\<close>

theorem container_passphrase_is_retained:
  assumes "open_pool_with_container_key_file ce path (Some file) = Inr ct"
  shows "\<exists>passphrase. read_secret_file ce (Some file) 4096 = Inr (Some passphrase) \<and> ct_container_key_material ct = Some passphrase \<and>
     open_pool_member ce ct = open_with_container_key (se_pool (ce_session ce)) path (Some passphrase)"
  using assms
  by (auto simp: open_pool_with_container_key_file_def open_pool_with_container_key_def open_pool_member_def read_secret_file_def Let_def
      result_simps split: if_splits)

lemma rsplit_once_last: "c \<notin> set b \<Longrightarrow> rsplit_once c (a @ c # b) = Some (a, b)"
proof -
  assume c: "c \<notin> set b"
  have "rev (a @ c # b) = rev b @ c # rev a" by simp
  moreover from c have "takeWhile (\<lambda>x. x \<noteq> c) (rev b @ c # rev a) = rev b" "dropWhile (\<lambda>x. x \<noteq> c) (rev b @ c # rev a) = c # rev a"
    by (auto simp: takeWhile_append dropWhile_append takeWhile_eq_all_conv dropWhile_eq_Nil_conv)
  ultimately show ?thesis by (simp add: rsplit_once_def)
qed

text \<open>The parent of a child is the directory, without its trailing slashes.\<close>

theorem parent_of_child:
  assumes "child_path directory name = Inr path"
  shows "parent_path path = (if trim_end_slashes directory = '''' then ''/'' else trim_end_slashes directory)"
proof -
  have n: "name \<noteq> ''''" "CHR ''/'' \<notin> set name" and p: "path = (if directory = ''/'' then '''' else trim_end_slashes directory) @ ''/'' @ name"
    using assms by (auto simp: child_path_def split: if_splits)
  have "trim_end_slashes (pre @ ''/'' @ name) = pre @ ''/'' @ name" for pre
    using n by (cases name rule: rev_cases) (auto simp: trim_end_slashes_def)
  moreover have "rsplit_once CHR ''/'' (pre @ ''/'' @ name) = Some (pre, name)" for pre
    using n rsplit_once_last [of "CHR ''/''" name pre] by simp
  moreover have "trim_end_slashes ''/'' = ''''" by (simp add: trim_end_slashes_def)
  ultimately show ?thesis unfolding parent_path_def p by simp
qed

lemma demo_inspect: "\<exists>inspection. inspect_stream (Some (demo_source 19)) = Inr inspection \<and> in_snapshots inspection = [demo_begin]"
proof -
  obtain recs r' where r: "reads (new_reader (demo_source 19)) recs r'" and e: "saw_end r'"
    and m: "map (\<lambda>rec. (kind rec, payload rec)) recs = demo_chain 19"
    by (rule demo_chain_reads)
  have "\<exists>n counts. try_fold inspect_record ([], 0, []) recs = Inr ([demo_begin], n, counts)"
    using m by (auto simp: demo_chain_def map_eq_Cons_conv inspect_record_def push_header_def Let_def) (simp add: demo_begin_def)
  then obtain n counts where "stream_loop inspect_record (new_reader (demo_source 19)) ([], 0, []) = Inr (([demo_begin], n, counts), r')"
    using r by (auto simp: stream_loop_reads)
  then show ?thesis using e by (simp add: inspect_stream_def open_stream_def)
qed

theorem send_views_select_their_snapshot_witness:
  "\<exists>ct. open_send demo_client ''/send'' = Inr ct \<and> length (ct_views ct) = 1 \<and>
     plan_snapshot (Some (demo_source 19)) (Some (sv_selector (ct_views ct ! 0))) = Inr \<lparr>plan_target = demo_begin, plan_chain = [17]\<rparr>"
proof -
  obtain inspection where i: "inspect_stream (Some (demo_source 19)) = Inr inspection" "in_snapshots inspection = [demo_begin]"
    using demo_inspect by blast
  have src: "ce_stream demo_client ''/send'' = Some (demo_source 19)" by (simp add: demo_client_def)
  have plain: "bg_features demo_begin AND FEATURE_RAW = 0" "bg_to_guid demo_begin = 17" "bg_dataset_name demo_begin = ''tank@a''"
    "bg_from_guid demo_begin = 0" by (simp_all add: demo_begin_def FEATURE_RAW_def)
  from i plain obtain ct where ct: "open_send demo_client ''/send'' = Inr ct" "ct_views ct = [send_view [] demo_begin]"
    by (simp add: open_send_def src Let_def)
  have v: "sv_selector (send_view [] demo_begin) = guid_string 17" "sv_kind (send_view [] demo_begin) = FullSend"
    by (simp_all add: send_view_def Let_def plain split: prod.split)
  have "rsplit_once CHR ''@'' ''tank@a'' = Some (''tank'', ''a'')" using rsplit_once_last [of "CHR ''@''" "''a''" "''tank''"] by simp
  then have names: "bg_dataset_name demo_begin \<noteq> guid_string 17" "\<not> short_name_is (guid_string 17) demo_begin"
    by (simp_all add: plain guid_string_def short_name_is_def)
  have "plan_snapshot (Some (demo_source 19)) (Some (sv_selector (ct_views ct ! 0))) = Inr \<lparr>plan_target = demo_begin, plan_chain = [17]\<rparr>"
    using send_views_select_their_snapshot [OF ct(1), of "[demo_begin]" 0] inspect_stream_headers [OF i(1)] i(2) ct(2) v names plain(2)
    by (simp add: src)
  then show ?thesis using ct by auto
qed

end
