(* ===== verification/Presentation.thy ===== *)
theory Presentation
  imports Client
begin

text \<open>
  The wording shared by the desktop clients (\<open>src/src/presentation.rs\<close>) and the display of creation
  times (\<open>src/src/snapshot_time.rs\<close>): titles of restore points and volumes, the recommended ones, sizes
  and error messages. The time-zone database and the formatting of dates are the parameter \<open>chrono\<close>.
\<close>

section \<open>Creation times\<close>

datatype 'z snapshot_time_zone = Local | Named 'z

record ('t, 'z) chrono =
  ch_zone :: "string \<Rightarrow> 'z option"
  ch_from_timestamp :: "int \<Rightarrow> 't option"
  ch_format_local :: "string \<Rightarrow> 't \<Rightarrow> string"
  ch_format_zone :: "'z \<Rightarrow> string \<Rightarrow> 't \<Rightarrow> string"

definition zone_from_str :: "('t, 'z) chrono \<Rightarrow> string \<Rightarrow> string + 'z snapshot_time_zone" where
  "zone_from_str ch v =
     (if v = ''local'' then Inr Local
      else case ch_zone ch v of
        Some zone \<Rightarrow> Inr (Named zone)
      | None \<Rightarrow> Inl ''Unknown time zone {value:?}. Use local, UTC, or an IANA name such as America/New_York.'')"

definition utc_time :: "('t, 'z) chrono \<Rightarrow> u64 \<Rightarrow> 't option" where
  "utc_time ch timestamp =
     (if timestamp = 0 then None
      else if uint timestamp < 2 ^ 63 then ch_from_timestamp ch (uint timestamp) else None)"

definition format_time :: "('t, 'z) chrono \<Rightarrow> 'z snapshot_time_zone \<Rightarrow> u64 \<Rightarrow> string option" where
  "format_time ch zone timestamp =
     map_option (\<lambda>utc. case zone of
       Local \<Rightarrow> ch_format_local ch (''%b %-d, %Y'' @ middot @ ''%-I:%M:%S %p (UTC%:z)'') utc
     | Named z \<Rightarrow> ch_format_zone ch z (''%b %-d, %Y'' @ middot @ ''%-I:%M:%S %p %Z (UTC%:z)'') utc) (utc_time ch timestamp)"

definition format_short :: "('t, 'z) chrono \<Rightarrow> 'z snapshot_time_zone \<Rightarrow> u64 \<Rightarrow> string option" where
  "format_short ch zone timestamp =
     map_option (\<lambda>utc. case zone of
       Local \<Rightarrow> ch_format_local ch (''%b %-d, %Y'' @ middot @ ''%-I:%M %p'') utc
     | Named z \<Rightarrow> ch_format_zone ch z (''%b %-d, %Y'' @ middot @ ''%-I:%M %p %Z'') utc) (utc_time ch timestamp)"

definition display_label :: "('t, 'z) chrono \<Rightarrow> 'z snapshot_time_zone \<Rightarrow> source_view \<Rightarrow> string" where
  "display_label ch zone view =
     (case Option.bind (sv_created_at view) (format_time ch zone) of
        Some time \<Rightarrow> time @ '' '' @ em_dash @ '' '' @ sv_label view
      | None \<Rightarrow> sv_label view)"

section \<open>Restore points\<close>

definition short_name :: "string \<Rightarrow> string" where
  "short_name dataset = last (split_on CHR ''/'' dataset)"

definition view_title :: "('t, 'z) chrono \<Rightarrow> 'z snapshot_time_zone \<Rightarrow> source_view \<Rightarrow> string" where
  "view_title ch zone view =
     (case Option.bind (sv_created_at view) (format_short ch zone) of
        Some time \<Rightarrow> time
      | None \<Rightarrow>
          if sv_kind view = Current then ''Current files''
          else (case sv_snapshot view of Some name \<Rightarrow> name | None \<Rightarrow> short_name (sv_dataset view)))"

definition view_detail :: "source_view \<Rightarrow> string" where
  "view_detail view =
     (let name = short_name (sv_dataset view) in
      if sv_parent view then name @ middot @ ''holds other backups''
      else case sv_kind view of
        Snapshot \<Rightarrow> name @ middot @ (case sv_snapshot view of Some s \<Rightarrow> s | None \<Rightarrow> ''snapshot'')
      | Current \<Rightarrow> name @ middot @ ''live files, not a snapshot''
      | FullSend \<Rightarrow> name @ middot @ ''full copy''
      | IncrementalSend \<Rightarrow> name @ middot @ ''changes only'')"

definition view_line :: "('t, 'z) chrono \<Rightarrow> 'z snapshot_time_zone \<Rightarrow> source_view \<Rightarrow> string" where
  "view_line ch zone view =
     view_title ch zone view @ ''  '' @ em_dash @ ''  '' @ view_detail view @
     (if sv_encrypted view then '' '' @ middot @ '' encrypted'' else '''')"

definition is_restore_point :: "source_view \<Rightarrow> bool" where
  "is_restore_point view \<longleftrightarrow> sv_kind view \<noteq> Current \<and> \<not> sv_parent view"

definition source_description :: "source_catalog \<Rightarrow> string" where
  "source_description catalog =
     (let kind = (case ct_kind catalog of
            SendStream \<Rightarrow> ''ZFS send file''
          | PoolMember \<Rightarrow>
              if prefix ''Slide Box'' (ct_title catalog) then ''Slide backup''
              else if prefix ''Datto'' (ct_title catalog) then ''Datto backup drive''
              else ''ZFS pool'');
          points = length (filter is_restore_point (ct_views catalog))
      in if points = 0 then kind
         else if points = 1 then kind @ middot @ ''1 restore point''
         else kind @ middot @ display_nat points @ '' restore points'')"

text \<open>\<open>max_by_key\<close> over enumerated elements with the key \<open>(measure, Reverse(index))\<close>: a later element
  replaces the best so far unless its key is smaller.\<close>

definition best_of :: "('a \<Rightarrow> u64) \<Rightarrow> (nat \<times> 'a) list \<Rightarrow> (nat \<times> 'a) option" where
  "best_of f xs = fold (\<lambda>(j, y) best. case best of
       None \<Rightarrow> Some (j, y)
     | Some (i, x) \<Rightarrow> if f y < f x \<or> f y = f x \<and> i < j then Some (i, x) else Some (j, y)) xs None"

definition recommended_view :: "source_view list \<Rightarrow> nat option" where
  "recommended_view views =
     (case best_of (\<lambda>view. case sv_created_at view of Some t \<Rightarrow> t | None \<Rightarrow> 0)
             (filter (\<lambda>(_, view). is_restore_point view) (enumerate 0 views)) of
        Some (index, _) \<Rightarrow> Some index
      | None \<Rightarrow> if views \<noteq> [] then Some 0 else None)"

section \<open>Volumes\<close>

definition EFI_SYSTEM :: string where "EFI_SYSTEM = ''c12a7328-f81f-11d2-ba4b-00a0c93ec93b''"
definition MICROSOFT_RESERVED :: string where "MICROSOFT_RESERVED = ''e3c9e316-0b5c-4db8-817d-f92df00215ae''"
definition WINDOWS_RECOVERY :: string where "WINDOWS_RECOVERY = ''de94bba4-06d1-4d40-a16a-bfd50179d6ac''"
definition BASIC_DATA :: string where "BASIC_DATA = ''ebd0a0a2-b9e5-4433-87c0-68b6b72699c7''"
definition LINUX_FILESYSTEM :: string where "LINUX_FILESYSTEM = ''0fc63daf-8483-4772-8e79-3d69d8477de4''"
definition LINUX_SWAP :: string where "LINUX_SWAP = ''0657fd6d-a4ab-43c4-84e5-0933c84b4f4f''"
definition BIOS_BOOT :: string where "BIOS_BOOT = ''21686148-6449-6e6f-744e-656564454649''"

definition volume_purpose :: "volume_info \<Rightarrow> string" where
  "volume_purpose v =
     (let kind = ascii_lowercase (vi_partition_type v); filesystem = vi_filesystem v in
      if kind \<in> {EFI_SYSTEM, ''0xef''} then ''EFI system (startup files)''
      else if kind = MICROSOFT_RESERVED then ''Microsoft reserved''
      else if kind \<in> {WINDOWS_RECOVERY, ''0x27''} then ''Windows recovery''
      else if kind \<in> {LINUX_SWAP, ''0x82''} then ''Linux swap''
      else if kind = BIOS_BOOT then ''BIOS boot''
      else if kind \<in> {LINUX_FILESYSTEM, ''0x83''} then ''Linux files''
      else if kind \<in> {BASIC_DATA, ''0x07''} \<and> filesystem = Some Ntfs then ''Windows files''
      else if vi_name v \<noteq> '''' then vi_name v
      else case filesystem of
        Some Ntfs \<Rightarrow> ''Windows files''
      | Some Ext4 \<Rightarrow> ''Linux files''
      | Some _ \<Rightarrow> ''Files''
      | None \<Rightarrow> ''Unrecognized contents'')"

definition is_helper_partition :: "volume_info \<Rightarrow> bool" where
  "is_helper_partition v \<longleftrightarrow> ascii_lowercase (vi_partition_type v) \<in>
     {EFI_SYSTEM, MICROSOFT_RESERVED, WINDOWS_RECOVERY, BIOS_BOOT, LINUX_SWAP, ''0xef'', ''0x27'', ''0x82''}"

definition largest_volume :: "volume_info list \<Rightarrow> bool \<Rightarrow> nat option" where
  "largest_volume volumes helpers =
     map_option fst (best_of vi_length
       (filter (\<lambda>(_, v). vi_filesystem v \<noteq> None \<and> (helpers \<or> \<not> is_helper_partition v)) (enumerate 0 volumes)))"

definition recommended_volume :: "volume_info list \<Rightarrow> nat option" where
  "recommended_volume volumes =
     (case largest_volume volumes False of Some i \<Rightarrow> Some i | None \<Rightarrow> largest_volume volumes True)"

section \<open>Sizes\<close>

text \<open>\<open>bytes as f64\<close>: the nearest number with 53 significant bits, ties to even. Dividing it by powers
  of 1024 is exact, so the value printed with one decimal is a fraction rounded once more, ties to even.\<close>

fun bit_length :: "nat \<Rightarrow> nat" where
  "bit_length n = (if n = 0 then 0 else Suc (bit_length (n div 2)))"

declare bit_length.simps [simp del]

definition div_half_even :: "nat \<Rightarrow> nat \<Rightarrow> nat" where
  "div_half_even n d =
     (let q = n div d; r = n mod d in if 2 * r > d \<or> 2 * r = d \<and> odd q then q + 1 else q)"

definition u64_as_f64 :: "nat \<Rightarrow> nat" where
  "u64_as_f64 n = (let k = bit_length n - 53 in div_half_even n (2 ^ k) * 2 ^ k)"

function size_unit :: "nat \<Rightarrow> nat \<Rightarrow> nat" where
  "size_unit value unit = (if 1024 ^ Suc unit \<le> value \<and> unit + 1 < 5 then size_unit value (unit + 1) else unit)"
  by pat_completeness auto
termination
  by (relation "measure (\<lambda>(value, unit). 5 - unit)") auto

declare size_unit.simps [simp del]

definition format_size :: "u64 \<Rightarrow> string" where
  "format_size bytes =
     (if bytes = 1 then ''1 byte''
      else if bytes < 1024 then display_nat (unat bytes) @ '' bytes''
      else let value = u64_as_f64 (unat bytes); unit = size_unit value 0; tenths = div_half_even (10 * value) (1024 ^ unit) in
        display_nat (tenths div 10) @ ''.'' @ display_nat (tenths mod 10) @ '' '' @ [''bytes'', ''KB'', ''MB'', ''GB'', ''TB''] ! unit)"

definition display_filesystem :: "filesystem_kind \<Rightarrow> string" where
  "display_filesystem fs = (case fs of Ntfs \<Rightarrow> ''NTFS'' | Fat12 \<Rightarrow> ''FAT12'' | Fat16 \<Rightarrow> ''FAT16'' | Fat32 \<Rightarrow> ''FAT32''
     | Exfat \<Rightarrow> ''exFAT'' | Ext4 \<Rightarrow> ''ext4/ext2'')"

definition display_container :: "disk_container_kind \<Rightarrow> string" where
  "display_container container = (case container of RawDisk \<Rightarrow> ''raw'' | Qcow2 \<Rightarrow> ''QCOW2'' | Vmdk \<Rightarrow> ''VMDK monolithicSparse'')"

definition volume_label :: "volume_info \<Rightarrow> string" where
  "volume_label v =
     vi_selector v @ middot @ (case vi_filesystem v of None \<Rightarrow> ''unknown filesystem'' | Some fs \<Rightarrow> display_filesystem fs) @ middot @
     display_nat (unat (vi_length v)) @ '' bytes'' @ (if vi_name v = [] then [] else middot @ vi_name v)"

definition volume_title :: "volume_info \<Rightarrow> string" where
  "volume_title v =
     (if vi_partition v = 0 then ''Whole disk'' else ''Partition '' @ display_u32 (vi_partition v)) @ middot @ volume_purpose v @ middot @
     (case vi_filesystem v of None \<Rightarrow> ''can't be read'' | Some fs \<Rightarrow> display_filesystem fs) @ middot @ format_size (vi_length v)"

section \<open>Errors\<close>

text \<open>\<open>str::trim\<close> removes the characters with the Unicode property White\_Space, here in UTF-8.\<close>

definition white_space :: "string list" where
  "white_space = map (map char_of) ([[9], [10], [11], [12], [13], [32], [0xC2, 0x85], [0xC2, 0xA0], [0xE1, 0x9A, 0x80],
     [0xE2, 0x80, 0xA8], [0xE2, 0x80, 0xA9], [0xE2, 0x80, 0xAF], [0xE2, 0x81, 0x9F], [0xE3, 0x80, 0x80 :: nat]] @
     map (\<lambda>i. [0xE2, 0x80, 0x80 + i]) [0 ..< 11])"

function strip_all :: "string list \<Rightarrow> string \<Rightarrow> string" where
  "strip_all ws s =
     (case find (\<lambda>w. w \<noteq> [] \<and> prefix w s) ws of
        None \<Rightarrow> s
      | Some w \<Rightarrow> strip_all ws (drop (length w) s))"
  by pat_completeness auto
termination
proof (relation "measure (\<lambda>(ws, s). length s)")
  fix ws s w assume "find (\<lambda>w. w \<noteq> [] \<and> prefix w s) ws = Some w"
  then have "w \<noteq> []" "prefix w s" unfolding find_Some_iff by auto
  then show "((ws, drop (length w) s), ws, s) \<in> measure (\<lambda>(ws, s). length s)" by (auto simp: prefix_def)
qed simp

declare strip_all.simps [simp del]

definition trim :: "string \<Rightarrow> string" where
  "trim s = rev (strip_all (map rev white_space) (rev (strip_all white_space s)))"

record friendly_error_text =
  fe_title :: string
  fe_message :: string
  fe_details :: string

definition friendly_error :: "string \<Rightarrow> friendly_error_text" where \<open>
  friendly_error raw =
     (let lower = ascii_lowercase raw; contains = (\<lambda>text. sublist text lower);
          (title, message) =
            (if contains ''could not open this backup'' \<or> contains ''source was not recognized'' then
               (''This file isn't a backup ZFS Explore can open'',
                ''Choose a ZFS send file, a Slide or ZFS pool image, or a virtual disk (RAW, QCOW2 or VMDK). Single-disk and mirrored pools are supported.'')
             else if contains ''already exists'' then
               (''Something with that name is already there'', ''Choose a different name or folder. Nothing was overwritten.'')
             else if contains ''did not authenticate'' \<or> contains ''raw zfs key must'' \<or> contains ''hex zfs key must'' then
               (''That key didn't unlock this backup'',
                ''Check that you copied the whole key, or choose the key file for this backup, and try again.'')
             else if contains ''permission denied'' \<or> contains ''access is denied'' \<or> contains ''os error 5'' \<or> contains ''not granted'' then
               (''ZFS Explore wasn't allowed to read this'',
                ''For an attached drive, approve the administrator prompt (Mac) or start ZFS Explore with "Run as administrator" (Windows), then try again.'')
             else if contains ''no longer attached'' \<or> contains ''no such file'' \<or> contains ''cannot find the file'' then
               (''The backup can't be found'',
                ''Reconnect the drive or check that the file is still in the same place, then open it again.'')
             else if contains ''no space'' \<or> contains ''disk full'' then
               (''There isn't enough free space'', ''Choose a destination with more free space and try again.'')
             else if contains ''is encrypted'' \<or> contains ''requires a dataset key'' \<or> contains ''provide its'' then
               (''This backup is locked'', ''Enter its encryption key or choose its key file to continue.'')
             else
               (''That didn't work'',
                ''ZFS Explore couldn't finish this step. Your backup has not been changed. The details below can help with troubleshooting.''))
      in \<lparr>fe_title = title, fe_message = message, fe_details = trim raw\<rparr>)\<close>

section \<open>Recommendations\<close>

text \<open>The choice among eligible elements: the largest measure, and the first element that has it.\<close>

lemma best_of_greatest:
  assumes "sorted (map fst xs)" and "distinct (map fst xs)"
  shows "case best_of f xs of
      None \<Rightarrow> xs = []
    | Some (i, x) \<Rightarrow> (i, x) \<in> set xs \<and> (\<forall>(j, y) \<in> set xs. f y < f x \<or> f y = f x \<and> i \<le> j)"
  using assms
proof (induction xs rule: rev_induct)
  case (snoc z xs)
  obtain j y where z: "z = (j, y)" by (cases z)
  from snoc have IH: "case best_of f xs of
      None \<Rightarrow> xs = []
    | Some (i, x) \<Rightarrow> (i, x) \<in> set xs \<and> (\<forall>(j, y) \<in> set xs. f y < f x \<or> f y = f x \<and> i \<le> j)"
    by (simp add: sorted_append)
  have less: "i < j" if "(i, x) \<in> set xs" for i x
    using snoc.prems that z by (force simp: sorted_append)
  show ?case
  proof (cases "best_of f xs")
    case None
    then show ?thesis using IH by (simp add: best_of_def z)
  next
    case (Some p)
    obtain i x where p: "p = (i, x)" by (cases p)
    have step: "best_of f (xs @ [z]) = (if f y < f x \<or> f y = f x then Some (i, x) else Some (j, y))"
      using Some less [of i x] IH by (simp add: best_of_def z p)
    have "f y' < f y \<or> f y' = f y \<and> j \<le> j'" if "\<not> (f y < f x \<or> f y = f x)" "(j', y') \<in> set xs" for j' y'
      using IH that Some p by fastforce
    then show ?thesis unfolding step using IH Some p less [of i x] by (auto simp: z)
  qed
qed (simp add: best_of_def)

lemma best_of_filter_enumerate:
  "case best_of f (filter (\<lambda>(_, x). P x) (enumerate 0 xs)) of
     None \<Rightarrow> \<forall>x \<in> set xs. \<not> P x
   | Some (i, x) \<Rightarrow> i < length xs \<and> x = xs ! i \<and> P x \<and> (\<forall>j < length xs. P (xs ! j) \<longrightarrow> f (xs ! j) < f x \<or> f (xs ! j) = f x \<and> i \<le> j)"
proof -
  let ?ys = "filter (\<lambda>(_, x). P x) (enumerate 0 xs)"
  have members: "(j, y) \<in> set ?ys \<longleftrightarrow> j < length xs \<and> y = xs ! j \<and> P y" for j y
    by (auto simp: in_set_enumerate_eq)
  have "sorted (map fst ?ys)" "distinct (map fst ?ys)"
    by (simp_all add: sorted_filter distinct_map_filter del: enumerate_simps)
  from best_of_greatest [OF this, of f] show ?thesis
  proof (cases "best_of f ?ys")
    case None
    with best_of_greatest [OF \<open>sorted (map fst ?ys)\<close> \<open>distinct (map fst ?ys)\<close>, of f] have "?ys = []" by simp
    then have "\<not> P (xs ! j)" if "j < length xs" for j using members [of j "xs ! j"] that by auto
    then show ?thesis using None by (auto simp: in_set_conv_nth)
  next
    case (Some p)
    obtain i x where p: "p = (i, x)" by (cases p)
    with best_of_greatest [OF \<open>sorted (map fst ?ys)\<close> \<open>distinct (map fst ?ys)\<close>, of f] Some
    have "(i, x) \<in> set ?ys" and best: "\<And>j y. (j, y) \<in> set ?ys \<Longrightarrow> f y < f x \<or> f y = f x \<and> i \<le> j" by auto
    then show ?thesis using Some p members best by auto
  qed
qed

section \<open>Properties\<close>

text \<open>The recommended restore point is the newest one. A recommendation is made exactly for a
  non-empty catalog. Where it has snapshots or sends of datasets that hold files, the recommended view
  is one of them, none of them is newer, and of those as new it comes first; otherwise it is the first
  view.\<close>

theorem recommended_view_is_the_newest_restore_point:
  "case recommended_view views of
     None \<Rightarrow> views = []
   | Some i \<Rightarrow> i < length views \<and>
       (if list_ex is_restore_point views
        then is_restore_point (views ! i) \<and>
          (\<forall>j < length views. is_restore_point (views ! j) \<longrightarrow>
             (case sv_created_at (views ! j) of Some t \<Rightarrow> t | None \<Rightarrow> 0) < (case sv_created_at (views ! i) of Some t \<Rightarrow> t | None \<Rightarrow> 0) \<or>
             (case sv_created_at (views ! j) of Some t \<Rightarrow> t | None \<Rightarrow> 0) = (case sv_created_at (views ! i) of Some t \<Rightarrow> t | None \<Rightarrow> 0) \<and> i \<le> j)
        else i = 0)"
proof -
  let ?time = "\<lambda>view :: source_view. case sv_created_at view of Some t \<Rightarrow> t | None \<Rightarrow> (0 :: u64)"
  note best = best_of_filter_enumerate [where f = ?time and P = is_restore_point and xs = views]
  show ?thesis
  proof (cases "best_of ?time (filter (\<lambda>(_, view). is_restore_point view) (enumerate 0 views))")
    case None
    with best have "\<not> list_ex is_restore_point views" by (auto simp: list_ex_iff)
    then show ?thesis using None by (simp add: recommended_view_def)
  next
    case (Some p)
    obtain i x where p: "p = (i, x)" by (cases p)
    with best Some have "i < length views" "x = views ! i" "is_restore_point (views ! i)"
      "\<forall>j < length views. is_restore_point (views ! j) \<longrightarrow> ?time (views ! j) < ?time (views ! i) \<or> ?time (views ! j) = ?time (views ! i) \<and> i \<le> j"
      by auto
    moreover have "list_ex is_restore_point views" using calculation(1,3) by (auto simp: list_ex_iff)
    ultimately show ?thesis using Some p by (simp add: recommended_view_def)
  qed
qed

text \<open>Three snapshots, the newest that of a dataset that only holds others.\<close>

definition sample_view :: "u64 \<Rightarrow> bool \<Rightarrow> source_view" where
  "sample_view t parent = \<lparr>sv_label = [], sv_created_at = Some t, sv_selector = [], sv_update_eligible = True, sv_encrypted = False,
     sv_key_format = None, sv_kind = Snapshot, sv_dataset = ''pool'', sv_snapshot = Some ''s'', sv_parent = parent\<rparr>"

theorem recommended_view_is_the_newest_restore_point_witness:
  "recommended_view [sample_view 10 False, sample_view 30 False, sample_view 40 True] = Some 1"
proof -
  let ?views = "[sample_view 10 False, sample_view 30 False, sample_view 40 True]"
  have r: "list_ex is_restore_point ?views" "is_restore_point (?views ! 1)" "\<not> is_restore_point (?views ! 2)"
    by (simp_all add: is_restore_point_def sample_view_def)
  have t: "sv_created_at (?views ! 0) = Some 10" "sv_created_at (?views ! 1) = Some 30" by (simp_all add: sample_view_def)
  note newest = recommended_view_is_the_newest_restore_point [of ?views]
  then obtain i where i: "recommended_view ?views = Some i" by (cases "recommended_view ?views") auto
  with newest r(1) have less: "i < 3" and point: "is_restore_point (?views ! i)"
    and best: "(case sv_created_at (?views ! 1) of Some t \<Rightarrow> t | None \<Rightarrow> 0) < (case sv_created_at (?views ! i) of Some t \<Rightarrow> t | None \<Rightarrow> 0) \<or>
      (case sv_created_at (?views ! 1) of Some t \<Rightarrow> t | None \<Rightarrow> 0) = (case sv_created_at (?views ! i) of Some t \<Rightarrow> t | None \<Rightarrow> 0) \<and> i \<le> 1"
    using r(2) by auto
  have "i \<noteq> 2" using point r(3) by metis
  moreover have "i \<noteq> 0"
  proof
    assume "i = 0"
    with best t show False by simp
  qed
  ultimately have "i = 1" using less by linarith
  with i show ?thesis by simp
qed

end
