(* ===== verification/Inner.thy ===== *)
theory Inner
  imports Client Ntfs_Reads
begin

text \<open>
  Files of the file systems inside a disk image (\<open>InceptionSession::list_directory\<close>, \<open>extract\<close>,
  \<open>extract_tree\<close> and \<open>inspect_child_image_at\<close> of \<open>src/src/inception.rs\<close>, with the drivers for FAT, NTFS
  and ext4). The three file-system crates are parameters: what they answer for a volume is a record of
  functions, with a file, an index or an attribute as a number or a record.
\<close>

section \<open>The crates\<close>

record fat_node =
  fn_name :: string
  fn_short_name :: string
  fn_is_deleted :: bool
  fn_is_volume_label :: bool
  fn_is_dir :: bool
  fn_first_cluster :: u32
  fn_size :: u64
  fn_id :: nat

record fat_meta =
  fm_is_dir :: bool
  fm_size :: u64

record fat_fs =
  ff_root :: nat
  ff_lookup :: "nat \<Rightarrow> string \<Rightarrow> nat option result"
  ff_read_dir :: "nat \<Rightarrow> fat_node list result"
  ff_meta :: "nat \<Rightarrow> fat_meta result"
  ff_read_at :: "nat \<Rightarrow> u64 \<Rightarrow> nat \<Rightarrow> byte list result"

record ntfs_name =
  nn_name :: string
  nn_is_directory :: bool
  nn_data_size :: u64

record ntfs_index_entry =
  ne_key :: "ntfs_name result option"
  ne_file_record :: u64
  ne_to_file :: "nat result"

record ntfs_index =
  nx_find :: "string \<Rightarrow> ntfs_index_entry result option"
  nx_entries :: "ntfs_index_entry result list"

text \<open>The value of an attribute: \<open>read\<close> at a position, and \<open>seek\<close> followed by \<open>read_exact\<close>.\<close>

record ntfs_data_value =
  nv_len :: u64
  nv_read :: "u64 \<Rightarrow> nat \<Rightarrow> byte list result"
  nv_read_exact :: "u64 \<Rightarrow> nat \<Rightarrow> byte list result"

record ntfs_data =
  nd_record :: "byte list"
  nd_compressed :: bool
  nd_encrypted :: bool
  nd_resident :: bool
  nd_value_length :: u64
  nd_value :: "ntfs_data_value result"

record ntfs_file =
  nf_is_directory :: bool
  nf_directory_index :: "ntfs_index result"
  nf_data :: "ntfs_data result result option"
  nf_attributes_raw :: "raw_item result list"

record ntfs_fs =
  nt_upcase :: "unit result"
  nt_root_directory :: "nat result"
  nt_file :: "nat \<Rightarrow> ntfs_file"
  nt_cluster_size :: u64

datatype ext4_type = ExtDirectory | ExtRegular | ExtSymlink | ExtOther

record ext4_meta =
  xm_type :: ext4_type
  xm_len :: u64

record ext4_entry =
  xe_name :: "string option"
  xe_file_type :: "ext4_type result"
  xe_metadata :: "ext4_meta result"
  xe_path :: string

record ext4_file =
  xo_read_bytes :: "u64 \<Rightarrow> nat \<Rightarrow> byte list result"
  xo_read_exact :: "u64 \<Rightarrow> nat \<Rightarrow> byte list result"

record ext4_fs =
  xf_symlink_metadata :: "string \<Rightarrow> ext4_meta result"
  xf_read_dir :: "string \<Rightarrow> ext4_entry result list result"
  xf_open :: "string \<Rightarrow> ext4_file result"

text \<open>The crates, and \<open>str::to_lowercase\<close>, which depends on the Unicode tables.\<close>

record inner_lib =
  il_fat :: "image \<Rightarrow> fat_fs result"
  il_ntfs :: "image \<Rightarrow> ntfs_fs result"
  il_ext4 :: "image \<Rightarrow> ext4_fs result"
  il_lowercase :: "string \<Rightarrow> string"

section \<open>The extraction target\<close>

definition COPY_BUFFER_SIZE :: nat where "COPY_BUFFER_SIZE = 1024 * 1024"

text \<open>The digest is the bytes it was updated with; \<open>ev_sha256\<close> finishes it.\<close>

record extraction_target =
  et_data :: "byte list"
  et_digest :: "byte list"
  et_offset :: u64

definition target_new :: "env \<Rightarrow> string \<Rightarrow> extraction_target result" where
  "target_new ev path = and_then (ev_temporary ev path) (\<lambda>_. Inr \<lparr>et_data = [], et_digest = [], et_offset = 0\<rparr>)"

definition target_write :: "env \<Rightarrow> byte list \<Rightarrow> extraction_target \<Rightarrow> extraction_target result" where
  "target_write ev bytes t =
     and_then (sparse_write_extent (ev_os ev) (et_offset t) bytes (et_data t)) (\<lambda>d.
     and_then (ok_or (checked_add (et_offset t) (of_nat (length bytes))) (Bail ''nested extraction offset overflow'')) (\<lambda>off.
     Inr \<lparr>et_data = d, et_digest = et_digest t @ bytes, et_offset = off\<rparr>))"

definition target_finish :: "env \<Rightarrow> string \<Rightarrow> u64 \<Rightarrow> bool \<Rightarrow> extraction_target \<Rightarrow> disk \<Rightarrow> (disk \<times> string) result" where
  "target_finish ev path len force t disk =
     (if et_offset t \<noteq> len then Inl (Bail ''inner filesystem returned {} bytes for a {length}-byte file'')
      else and_then (set_len (ev_os ev) (unat len) (et_data t)) (\<lambda>d.
      and_then (ev_sync ev d) (\<lambda>_.
      and_then (persist_replace ev d path force disk) (\<lambda>disk. Inr (disk, ev_sha256 ev (et_digest t))))))"

section \<open>FAT\<close>

definition fat_name_matches :: "inner_lib \<Rightarrow> string \<Rightarrow> string \<Rightarrow> bool" where
  "fat_name_matches lib stored requested \<longleftrightarrow>
     ascii_lowercase stored = ascii_lowercase requested \<or> il_lowercase lib stored = il_lowercase lib requested"

definition open_fat :: "inner_lib \<Rightarrow> image \<Rightarrow> fat_fs result" where
  "open_fat lib src = map_err (with_context ''opening FAT-family filesystem'') (il_fat lib src)"

definition resolve_fat_component :: "inner_lib \<Rightarrow> fat_fs \<Rightarrow> string \<Rightarrow> nat \<Rightarrow> nat result" where
  "resolve_fat_component lib fs component current =
     and_then (ff_lookup fs current component) (\<lambda>found.
     case found of
       Some exact \<Rightarrow> Inr exact
     | None \<Rightarrow>
         and_then (ff_read_dir fs current) (\<lambda>nodes.
         case map fn_id (filter (\<lambda>node. \<not> fn_is_deleted node \<and> \<not> fn_is_volume_label node \<and>
                (fat_name_matches lib (fn_name node) component \<or> fat_name_matches lib (fn_short_name node) component)) nodes) of
           [only] \<Rightarrow> Inr only
         | [] \<Rightarrow> Inl (Bail ''inner path {path:?} was not found'')
         | _ \<Rightarrow> Inl (Bail ''inner path component {component:?} is ambiguous in a damaged FAT directory'')))"

definition resolve_fat :: "inner_lib \<Rightarrow> fat_fs \<Rightarrow> string \<Rightarrow> nat result" where
  "resolve_fat lib fs path =
     and_then (normalize_inner_path path) (\<lambda>parts. try_fold (resolve_fat_component lib fs) (ff_root fs) parts)"

definition fat_entry :: "fat_node \<Rightarrow> directory_entry" where
  "fat_entry node = \<lparr>de_name = fn_name node, de_object_id = ucast (fn_first_cluster node),
     de_dirent_type = (if fn_is_dir node then 4 else 8), de_logical_size = (if fn_is_dir node then None else Some (fn_size node))\<rparr>"

definition list_fat :: "inner_lib \<Rightarrow> image \<Rightarrow> string \<Rightarrow> directory_entry list result" where
  "list_fat lib src path =
     and_then (open_fat lib src) (\<lambda>fs.
     and_then (resolve_fat lib fs path) (\<lambda>fid.
     and_then (ff_meta fs fid) (\<lambda>meta.
     if \<not> fm_is_dir meta then and_then (normalized_inner_path path) (\<lambda>_. Inl (Bail ''{} is not a directory''))
     else and_then (ff_read_dir fs fid) (\<lambda>nodes.
     Inr (sort_key (\<lambda>entry. il_lowercase lib (de_name entry))
       (map fat_entry (filter (\<lambda>node. \<not> fn_is_deleted node \<and> \<not> fn_is_volume_label node \<and>
          fn_name node \<noteq> ''.'' \<and> fn_name node \<noteq> ''..'') nodes)))))))"

lemma copy_step:
  fixes len off :: u64
  assumes "off < len" and "n \<le> unat (len - off)"
  shows "unat (off + of_nat n) = unat off + n" "unat off + n \<le> unat len" "off + of_nat n \<le> len"
proof -
  have "unat (len - off) = unat len - unat off" using assms(1) by (simp add: unat_sub)
  then show b: "unat off + n \<le> unat len" using assms by (simp add: word_less_nat_alt)
  then show s: "unat (off + of_nat n) = unat off + n"
    using unat_less_u64 [of len] by (simp add: unat_word_ariths unat_of_nat)
  show "off + of_nat n \<le> len" using b s by (simp add: word_le_nat_alt)
qed

text \<open>The crates fill at most the buffer they are given; a longer answer would index past it.\<close>

function fat_copy :: "env \<Rightarrow> fat_fs \<Rightarrow> nat \<Rightarrow> u64 \<Rightarrow> u64 \<Rightarrow> extraction_target \<Rightarrow> extraction_target result" where
  "fat_copy ev fs fid len off t =
     (if off \<ge> len then Inr t
      else let wanted = min (unat (len - off)) COPY_BUFFER_SIZE in
        and_then (ff_read_at fs fid off wanted) (\<lambda>bytes.
        if bytes = [] then Inl (Bail ''FAT cluster chain ended at byte {offset} of {}'')
        else if length bytes > wanted then Inl (Panic ''range end index out of range'')
        else and_then (target_write ev bytes t) (\<lambda>t. fat_copy ev fs fid len (off + of_nat (length bytes)) t)))"
  by pat_completeness auto
termination
proof (relation "measure (\<lambda>(ev, fs, fid, len, off, t). unat len - unat off)")
  fix ev :: env and fs fid and len off :: u64 and t :: extraction_target and wanted and bytes :: "byte list" and t'
  assume a: "\<not> len \<le> off" "wanted = min (unat (len - off)) COPY_BUFFER_SIZE" "bytes \<noteq> []" "\<not> wanted < length bytes"
  show "((ev, fs, fid, len, off + of_nat (length bytes), t'), (ev, fs, fid, len, off, t)) \<in>
      measure (\<lambda>(ev, fs, fid, len, off, t). unat len - unat off)"
    using a copy_step [of off len "length bytes"] by (cases bytes) (auto simp: not_le word_less_nat_alt)
qed simp

declare fat_copy.simps [simp del]

definition extract_fat :: "inner_lib \<Rightarrow> env \<Rightarrow> image \<Rightarrow> string \<Rightarrow> extraction_target \<Rightarrow> (extraction_target \<times> u64) result" where
  "extract_fat lib ev src path t =
     and_then (open_fat lib src) (\<lambda>fs.
     and_then (resolve_fat lib fs path) (\<lambda>fid.
     and_then (ff_meta fs fid) (\<lambda>meta.
     if fm_is_dir meta then and_then (normalized_inner_path path) (\<lambda>_. Inl (Bail ''{} is not a regular file''))
     else and_then (fat_copy ev fs fid (fm_size meta) 0 t) (\<lambda>t. Inr (t, fm_size meta)))))"

section \<open>NTFS\<close>

definition open_ntfs :: "inner_lib \<Rightarrow> image \<Rightarrow> ntfs_fs result" where
  "open_ntfs lib src =
     and_then (map_err (with_context ''opening NTFS filesystem'') (il_ntfs lib src)) (\<lambda>ntfs.
     and_then (map_err (with_context ''reading the NTFS $UpCase table'') (nt_upcase ntfs)) (\<lambda>_. Inr ntfs))"

definition resolve_ntfs_component :: "ntfs_fs \<Rightarrow> string \<Rightarrow> nat \<Rightarrow> nat result" where
  "resolve_ntfs_component ntfs component current =
     and_then (nf_directory_index (nt_file ntfs current)) (\<lambda>index.
     case nx_find index component of
       None \<Rightarrow> Inl (Bail ''inner path {path:?} was not found'')
     | Some entry \<Rightarrow> and_then entry ne_to_file)"

definition resolve_ntfs :: "ntfs_fs \<Rightarrow> string \<Rightarrow> ntfs_file result" where
  "resolve_ntfs ntfs path =
     and_then (nt_root_directory ntfs) (\<lambda>root.
     and_then (normalize_inner_path path) (\<lambda>parts.
     and_then (try_fold (resolve_ntfs_component ntfs) root parts) (\<lambda>current. Inr (nt_file ntfs current))))"

definition ntfs_entry :: "ntfs_index_entry result \<Rightarrow> directory_entry list \<Rightarrow> directory_entry list result" where
  "ntfs_entry entry entries =
     and_then entry (\<lambda>entry.
     case ne_key entry of
       None \<Rightarrow> Inr entries
     | Some key \<Rightarrow>
         and_then key (\<lambda>key.
         if nn_name key \<in> {''.'', ''..''} then Inr entries
         else Inr (entries @ [\<lparr>de_name = nn_name key, de_object_id = ne_file_record entry,
           de_dirent_type = (if nn_is_directory key then 4 else 8),
           de_logical_size = (if nn_is_directory key then None else Some (nn_data_size key))\<rparr>])))"

definition list_ntfs :: "inner_lib \<Rightarrow> image \<Rightarrow> string \<Rightarrow> directory_entry list result" where
  "list_ntfs lib src path =
     and_then (open_ntfs lib src) (\<lambda>ntfs.
     and_then (resolve_ntfs ntfs path) (\<lambda>directory.
     if \<not> nf_is_directory directory then and_then (normalized_inner_path path) (\<lambda>_. Inl (Bail ''{} is not a directory''))
     else and_then (nf_directory_index directory) (\<lambda>index. try_fold ntfs_entry [] (nx_entries index))))"

definition validate_ntfs_image_attribute :: "ntfs_data \<Rightarrow> unit result" where
  "validate_ntfs_image_attribute attribute =
     (if length (nd_record attribute) \<le> 12 then Inl (Panic ''index out of bounds'')
      else if nd_record attribute ! 12 > 1 then Inl (Bail ''{path:?} uses unsupported NTFS compression format {compression}'')
      else if nd_encrypted attribute
      then Inl (Bail ''{path:?} is EFS-encrypted; an unencrypted NTFS $DATA stream is required'')
      else Inr ())"

definition ntfs_data_attribute :: "ntfs_file \<Rightarrow> ntfs_data result" where
  "ntfs_data_attribute file =
     (case nf_data file of
        None \<Rightarrow> Inl (Bail ''{path:?} has no unnamed NTFS $DATA stream'')
      | Some item \<Rightarrow>
          and_then item (\<lambda>attribute.
          and_then attribute (\<lambda>attribute.
          and_then (validate_ntfs_image_attribute attribute) (\<lambda>_. Inr attribute))))"

text \<open>\<open>read_exact\<close> of the cursor over the volume, after a seek to the given position.\<close>

function cursor_read_exact :: "cursor \<Rightarrow> nat \<Rightarrow> byte list result" where
  "cursor_read_exact c n =
     (if n = 0 then Inr []
      else case cursor_read c n of
        (_, Inl e) \<Rightarrow> Inl e
      | (c, Inr bytes) \<Rightarrow>
          if bytes = [] then Inl (IoErr UnexpectedEof)
          else if length bytes > n then Inl (Panic ''range start index out of range'')
          else and_then (cursor_read_exact c (n - length bytes)) (\<lambda>rest. Inr (bytes @ rest)))"
  by pat_completeness auto
termination
  by (relation "measure snd") auto

declare cursor_read_exact.simps [simp del]

definition volume_read :: "image \<Rightarrow> u64 \<Rightarrow> nat \<Rightarrow> byte list result" where
  "volume_read src off n =
     (case cursor_seek (cursor_new src) (SeekStart off) of
        (_, Inl e) \<Rightarrow> Inl e
      | (c, Inr _) \<Rightarrow> cursor_read_exact c n)"

function compressed_copy ::
  "env \<Rightarrow> (u64 \<Rightarrow> nat \<Rightarrow> byte list result) \<Rightarrow> u64 \<Rightarrow> u64 \<Rightarrow> compressed_stream \<Rightarrow> extraction_target \<Rightarrow> extraction_target result" where
  "compressed_copy ev rd len off cs t =
     (if off \<ge> len then Inr t
      else let count = min (unat (len - off)) COPY_BUFFER_SIZE in
        case read_compressed rd off count cs of
          (_, Inl e) \<Rightarrow> Inl e
        | (cs, Inr bytes) \<Rightarrow>
            and_then (target_write ev bytes t) (\<lambda>t. compressed_copy ev rd len (off + of_nat count) cs t))"
  by pat_completeness auto
termination
proof (relation "measure (\<lambda>(ev, rd, len, off, cs, t). unat len - unat off)")
  fix ev :: env and rd :: "u64 \<Rightarrow> nat \<Rightarrow> byte list result" and len off :: u64 and cs cs' :: compressed_stream
    and t t' :: extraction_target and count
  assume a: "\<not> len \<le> off" "count = min (unat (len - off)) COPY_BUFFER_SIZE"
  have "unat (len - off) = unat len - unat off" using a(1) by (simp add: unat_sub)
  then have "0 < count" using a by (auto simp: COPY_BUFFER_SIZE_def not_le word_less_nat_alt)
  then show "((ev, rd, len, off + of_nat count, cs', t'), (ev, rd, len, off, cs, t)) \<in>
      measure (\<lambda>(ev, rd, len, off, cs, t). unat len - unat off)"
    using a copy_step [of off len count] by (auto simp: not_le word_less_nat_alt)
qed simp

declare compressed_copy.simps [simp del]

text \<open>Copying until a read returns nothing. The reader's position is the number of bytes copied so
  far, the offset of the target; the loop ends because that offset cannot pass the end of \<open>u64\<close>.\<close>

lemma target_write_Inr:
  "target_write ev bytes t = Inr t' \<longleftrightarrow>
    (\<exists>d off. sparse_write_extent (ev_os ev) (et_offset t) bytes (et_data t) = Inr d \<and>
      checked_add (et_offset t) (of_nat (length bytes)) = Some off \<and>
      t' = \<lparr>et_data = d, et_digest = et_digest t @ bytes, et_offset = off\<rparr>)"
  by (auto simp: target_write_def result_simps)

lemma target_write_offset:
  "target_write ev bytes t = Inr t' \<Longrightarrow> length bytes < 2 ^ 64 \<Longrightarrow> unat (et_offset t') = unat (et_offset t) + length bytes"
  by (auto simp: target_write_Inr checked_add_Some_iff unat_of_nat unat_word_ariths)

function stream_copy :: "env \<Rightarrow> (u64 \<Rightarrow> nat \<Rightarrow> byte list result) \<Rightarrow> extraction_target \<Rightarrow> extraction_target result" where
  "stream_copy ev rd t =
     and_then (rd (et_offset t) COPY_BUFFER_SIZE) (\<lambda>bytes.
     if bytes = [] then Inr t
     else if length bytes > COPY_BUFFER_SIZE then Inl (Panic ''range end index out of range'')
     else case target_write ev bytes t of Inl e \<Rightarrow> Inl e | Inr t \<Rightarrow> stream_copy ev rd t)"
  by pat_completeness auto
termination
proof (relation "measure (\<lambda>(ev, rd, t). 2 ^ 64 - unat (et_offset t))")
  fix ev :: env and rd :: "u64 \<Rightarrow> nat \<Rightarrow> byte list result" and t t' :: extraction_target and bytes :: "byte list"
  assume a: "bytes \<noteq> []" "\<not> COPY_BUFFER_SIZE < length bytes" "target_write ev bytes t = Inr t'"
  then have "unat (et_offset t') = unat (et_offset t) + length bytes"
    by (intro target_write_offset) (auto simp: COPY_BUFFER_SIZE_def)
  then show "((ev, rd, t'), (ev, rd, t)) \<in> measure (\<lambda>(ev, rd, t). 2 ^ 64 - unat (et_offset t))"
    using a unat_less_u64 [of "et_offset t'"] by (cases bytes) simp_all
qed simp

declare stream_copy.simps [simp del]

definition extract_ntfs :: "inner_lib \<Rightarrow> env \<Rightarrow> image \<Rightarrow> string \<Rightarrow> extraction_target \<Rightarrow> (extraction_target \<times> u64) result" where
  "extract_ntfs lib ev src path t =
     and_then (open_ntfs lib src) (\<lambda>ntfs.
     and_then (resolve_ntfs ntfs path) (\<lambda>file.
     if nf_is_directory file then and_then (normalized_inner_path path) (\<lambda>_. Inl (Bail ''{} is not a regular file''))
     else and_then (ntfs_data_attribute file) (\<lambda>attribute.
     if nd_compressed attribute \<and> \<not> nd_resident attribute then
       and_then (open_compressed (nt_cluster_size ntfs) (nf_attributes_raw file)) (\<lambda>cs.
       and_then (compressed_copy ev (volume_read src) (cs_length cs) 0 cs t) (\<lambda>t. Inr (t, cs_length cs)))
     else
       and_then (nd_value attribute) (\<lambda>value.
       and_then (stream_copy ev (nv_read value) t) (\<lambda>t. Inr (t, nv_len value))))))"

section \<open>ext4\<close>

definition open_ext4 :: "inner_lib \<Rightarrow> image \<Rightarrow> ext4_fs result" where
  "open_ext4 lib src = map_err (with_context ''opening ext filesystem'') (il_ext4 lib src)"

definition ext4_entry_of :: "ext4_entry result \<Rightarrow> directory_entry list \<Rightarrow> directory_entry list result" where
  "ext4_entry_of entry entries =
     and_then entry (\<lambda>entry.
     and_then (ok_or (xe_name entry) (Bail ''ext directory contains a non-UTF-8 name that this UI cannot represent'')) (\<lambda>name.
     if name \<in> {''.'', ''..''} then Inr entries
     else and_then (xe_file_type entry) (\<lambda>file_type.
     and_then (xe_metadata entry) (\<lambda>metadata.
     Inr (entries @ [\<lparr>de_name = name, de_object_id = stable_path_id (xe_path entry),
       de_dirent_type = (case file_type of ExtDirectory \<Rightarrow> 4 | ExtRegular \<Rightarrow> 8 | ExtSymlink \<Rightarrow> 10 | ExtOther \<Rightarrow> 0),
       de_logical_size = (if file_type = ExtRegular then Some (xm_len metadata) else None)\<rparr>])))))"

definition list_ext4 :: "inner_lib \<Rightarrow> image \<Rightarrow> string \<Rightarrow> directory_entry list result" where
  "list_ext4 lib src path =
     and_then (open_ext4 lib src) (\<lambda>fs.
     and_then (normalized_inner_path path) (\<lambda>path.
     and_then (xf_symlink_metadata fs path) (\<lambda>metadata.
     if xm_type metadata \<noteq> ExtDirectory then Inl (Bail ''{path} is not a directory'')
     else and_then (xf_read_dir fs path) (\<lambda>listing.
     and_then (try_fold ext4_entry_of [] listing) (\<lambda>entries. Inr (sort_key de_name entries))))))"

definition extract_ext4 :: "inner_lib \<Rightarrow> env \<Rightarrow> image \<Rightarrow> string \<Rightarrow> extraction_target \<Rightarrow> (extraction_target \<times> u64) result" where
  "extract_ext4 lib ev src path t =
     and_then (open_ext4 lib src) (\<lambda>fs.
     and_then (normalized_inner_path path) (\<lambda>path.
     and_then (xf_symlink_metadata fs path) (\<lambda>metadata.
     if xm_type metadata \<noteq> ExtRegular
     then Inl (Bail ''{path} is not a regular file (symlinks are not followed for extraction)'')
     else and_then (xf_open fs path) (\<lambda>handle.
     and_then (stream_copy ev (xo_read_bytes handle) t) (\<lambda>t. Inr (t, xm_len metadata))))))"

section \<open>Files as images\<close>

definition inner_file_length :: "inner_lib \<Rightarrow> image \<Rightarrow> filesystem_kind \<Rightarrow> string \<Rightarrow> u64 result" where
  "inner_file_length lib src filesystem path =
     (case filesystem of
        Ntfs \<Rightarrow>
          and_then (open_ntfs lib src) (\<lambda>ntfs.
          and_then (resolve_ntfs ntfs path) (\<lambda>file.
          if nf_is_directory file then Inl (Bail ''{path} is not a regular file'')
          else and_then (ntfs_data_attribute file) (\<lambda>attribute. Inr (nd_value_length attribute))))
      | Ext4 \<Rightarrow>
          and_then (open_ext4 lib src) (\<lambda>fs.
          and_then (xf_symlink_metadata fs path) (\<lambda>metadata.
          if xm_type metadata \<noteq> ExtRegular then Inl (Bail ''{path} is not a regular file (symlinks are not followed)'')
          else Inr (xm_len metadata)))
      | _ \<Rightarrow>
          and_then (open_fat lib src) (\<lambda>fs.
          and_then (resolve_fat lib fs path) (\<lambda>fid.
          and_then (ff_meta fs fid) (\<lambda>metadata.
          if fm_is_dir metadata then Inl (Bail ''{path} is not a regular file'') else Inr (fm_size metadata)))))"

function fat_read_exact :: "fat_fs \<Rightarrow> nat \<Rightarrow> u64 \<Rightarrow> nat \<Rightarrow> byte list result" where
  "fat_read_exact fs fid off n =
     (if n = 0 then Inr []
      else and_then (ff_read_at fs fid off n) (\<lambda>bytes.
        if bytes = [] then Inl (Bail ''FAT image file ended before byte {}'')
        else if length bytes > n then Inl (Panic ''range start index out of range'')
        else and_then (fat_read_exact fs fid (off + of_nat (length bytes)) (n - length bytes)) (\<lambda>rest. Inr (bytes @ rest))))"
  by pat_completeness auto
termination
  by (relation "measure (\<lambda>(fs, fid, off, n). n)") auto

declare fat_read_exact.simps [simp del]

definition read_inner_file_exact_at :: "inner_lib \<Rightarrow> image \<Rightarrow> filesystem_kind \<Rightarrow> string \<Rightarrow> u64 \<Rightarrow> nat \<Rightarrow> byte list result" where
  "read_inner_file_exact_at lib src filesystem path off n =
     (case filesystem of
        Ntfs \<Rightarrow>
          and_then (open_ntfs lib src) (\<lambda>ntfs.
          and_then (resolve_ntfs ntfs path) (\<lambda>file.
          and_then (ntfs_data_attribute file) (\<lambda>attribute.
          if nd_compressed attribute \<and> \<not> nd_resident attribute then
            and_then (open_compressed (nt_cluster_size ntfs) (nf_attributes_raw file)) (\<lambda>cs.
            snd (read_compressed (volume_read src) off n cs))
          else and_then (nd_value attribute) (\<lambda>value. nv_read_exact value off n))))
      | Ext4 \<Rightarrow>
          and_then (open_ext4 lib src) (\<lambda>fs.
          and_then (xf_open fs path) (\<lambda>handle. xo_read_exact handle off n))
      | _ \<Rightarrow>
          and_then (open_fat lib src) (\<lambda>fs.
          and_then (resolve_fat lib fs path) (\<lambda>fid. fat_read_exact fs fid off n)))"

definition filesystem_file_image :: "inner_lib \<Rightarrow> image \<Rightarrow> filesystem_kind \<Rightarrow> string \<Rightarrow> u64 \<Rightarrow> image" where
  "filesystem_file_image lib src filesystem path len =
     \<lparr>im_len = len, im_read = (\<lambda>off n.
        and_then (ok_or (checked_add off (of_nat n)) (Bail ''inner image-file read offset overflows'')) (\<lambda>upto.
        if upto > len then Inl (Bail ''inner image-file read [{offset}, {end}) exceeds {} bytes'')
        else read_inner_file_exact_at lib src filesystem path off n))\<rparr>"

section \<open>Sessions\<close>

record nested_extraction =
  ns_logical_size :: u64
  ns_sha256 :: string
  ns_filesystem :: filesystem_kind
  ns_volume :: string

definition session_list_directory :: "inner_lib \<Rightarrow> inception_session \<Rightarrow> string option \<Rightarrow> string \<Rightarrow> directory_entry list result" where
  "session_list_directory lib ss volume path =
     and_then (select_volume ss volume) (\<lambda>volume.
     and_then (ok_or (vi_filesystem volume) (Bail ''volume {} has no supported filesystem ({})'')) (\<lambda>filesystem.
     and_then (volume_source ss volume) (\<lambda>src.
     case filesystem of Ntfs \<Rightarrow> list_ntfs lib src path | Ext4 \<Rightarrow> list_ext4 lib src path | _ \<Rightarrow> list_fat lib src path)))"

definition extract_inner ::
  "inner_lib \<Rightarrow> env \<Rightarrow> filesystem_kind \<Rightarrow> image \<Rightarrow> string \<Rightarrow> extraction_target \<Rightarrow> (extraction_target \<times> u64) result" where
  "extract_inner lib ev filesystem src path t =
     (case filesystem of Ntfs \<Rightarrow> extract_ntfs lib ev src path t | Ext4 \<Rightarrow> extract_ext4 lib ev src path t | _ \<Rightarrow> extract_fat lib ev src path t)"

definition session_extract ::
  "inner_lib \<Rightarrow> env \<Rightarrow> inception_session \<Rightarrow> string option \<Rightarrow> string \<Rightarrow> string \<Rightarrow> bool \<Rightarrow> disk \<Rightarrow> disk \<times> nested_extraction result" where
  "session_extract lib ev ss volume path destination force disk =
     (case
        and_then (select_volume ss volume) (\<lambda>volume.
        and_then (ok_or (vi_filesystem volume) (Bail ''volume {} does not contain a supported filesystem'')) (\<lambda>filesystem.
        if disk destination \<noteq> None \<and> \<not> force then Inl (Bail ''output {} already exists (pass --force to replace it)'')
        else and_then (volume_source ss volume) (\<lambda>src.
        and_then (target_new ev destination) (\<lambda>t.
        and_then (extract_inner lib ev filesystem src path t) (\<lambda>(t, logical_size).
        and_then (target_finish ev destination logical_size force t disk) (\<lambda>(disk, sha256).
        Inr (disk, \<lparr>ns_logical_size = logical_size, ns_sha256 = sha256, ns_filesystem = filesystem,
          ns_volume = vi_selector volume\<rparr>))))))) of
        Inl e \<Rightarrow> (disk, Inl e)
      | Inr (disk, extraction) \<Rightarrow> (disk, Inr extraction))"

definition session_extractor :: "inner_lib \<Rightarrow> env \<Rightarrow> inception_session \<Rightarrow> string option \<Rightarrow> extractor" where
  "session_extractor lib ev ss volume source destination fs =
     (case session_extract lib ev ss volume source (join ''/'' destination) False (file_at destination fs) of
        (_, Inl e) \<Rightarrow> (fs, Inl e)
      | (disk, Inr extraction) \<Rightarrow>
          (fs(destination := map_option Regular (disk (join ''/'' destination))), Inr (ns_logical_size extraction)))"

definition session_extract_tree ::
  "inner_lib \<Rightarrow> env \<Rightarrow> tree_env \<Rightarrow> inception_session \<Rightarrow> string option \<Rightarrow> string \<Rightarrow> path \<Rightarrow> bool \<Rightarrow> tree_fs \<Rightarrow> tree_fs \<times> recursive_extraction result" where
  "session_extract_tree lib ev te ss volume path destination force fs =
     (case select_volume ss volume of
        Inl e \<Rightarrow> (fs, Inl e)
      | Inr _ \<Rightarrow> extract_directory_tree te path destination force (session_list_directory lib ss volume)
          (session_extractor lib ev ss volume) fs)"

text \<open>The image that a file of a volume is, and its path.\<close>

definition child_image :: "inner_lib \<Rightarrow> inception_session \<Rightarrow> string option \<Rightarrow> string \<Rightarrow> (image \<times> string) result" where
  "child_image lib ss volume image_path =
     and_then (select_volume ss volume) (\<lambda>volume.
     and_then (ok_or (vi_filesystem volume) (Bail ''volume {} does not contain a supported filesystem'')) (\<lambda>filesystem.
     and_then (volume_source ss volume) (\<lambda>src.
     and_then (normalized_inner_path image_path) (\<lambda>normalized.
     and_then (inner_file_length lib src filesystem normalized) (\<lambda>len.
     Inr (filesystem_file_image lib src filesystem normalized len,
       is_image_path ss @ ''!'' @ vi_selector volume @ '':'' @ normalized))))))"

definition inspect_child_image_at ::
  "inner_lib \<Rightarrow> probes \<Rightarrow> inception_session \<Rightarrow> string option \<Rightarrow> string \<Rightarrow> u64 \<Rightarrow> u64 option \<Rightarrow> inception_session result" where
  "inspect_child_image_at lib pr ss volume image_path image_offset image_length =
     and_then (child_image lib ss volume image_path) (\<lambda>(img, name). inspect_source_at pr img name image_offset image_length)"

text \<open>The catalog of the client passes its calls on.\<close>

definition inception_list_directory :: "inner_lib \<Rightarrow> inception_catalog \<Rightarrow> string option \<Rightarrow> string \<Rightarrow> directory_entry list result" where
  "inception_list_directory lib ic = session_list_directory lib (ic_session ic)"

definition inception_extract ::
  "inner_lib \<Rightarrow> env \<Rightarrow> inception_catalog \<Rightarrow> string option \<Rightarrow> string \<Rightarrow> string \<Rightarrow> bool \<Rightarrow> disk \<Rightarrow> disk \<times> client_extraction result" where
  "inception_extract lib ev ic volume path destination force disk =
     (let (disk, r) = session_extract lib ev (ic_session ic) volume path destination force disk
      in (disk, and_then r (\<lambda>extraction. Inr \<lparr>cx_logical_size = ns_logical_size extraction, cx_sha256 = ns_sha256 extraction,
        cx_update_eligible = False\<rparr>)))"

definition inception_extract_tree ::
  "inner_lib \<Rightarrow> env \<Rightarrow> tree_env \<Rightarrow> inception_catalog \<Rightarrow> string option \<Rightarrow> string \<Rightarrow> path \<Rightarrow> bool \<Rightarrow> tree_fs \<Rightarrow> tree_fs \<times> recursive_extraction result" where
  "inception_extract_tree lib ev te ic = session_extract_tree lib ev te (ic_session ic)"

definition inspect_child ::
  "inner_lib \<Rightarrow> probes \<Rightarrow> inception_catalog \<Rightarrow> string option \<Rightarrow> string \<Rightarrow> u64 \<Rightarrow> u64 option \<Rightarrow> inception_catalog result" where
  "inspect_child lib pr ic volume image_path image_offset image_length =
     and_then (inspect_child_image_at lib pr (ic_session ic) volume image_path image_offset image_length) (\<lambda>ss. Inr (from_session ss))"

end
