(* ===== verification/Inner_Reads.thy ===== *)
theory Inner_Reads
  imports Inner
begin

text \<open>
  Extraction from an inner file system and the image of a file of it: the bytes that the copy loops
  write, the bytes that the image reads, and their agreement under the contract of the file-system
  crates.
\<close>

section \<open>What extraction writes\<close>

text \<open>Of the target so far: the file shows the bytes of the digest, apart from zeros at its end that
  need not be written yet, and the offset counts them.\<close>

definition target_ok :: "extraction_target \<Rightarrow> bool" where
  "target_ok t \<longleftrightarrow> list_view (et_data t) = list_view (et_digest t) \<and> length (et_data t) \<le> length (et_digest t) \<and>
     unat (et_offset t) = length (et_digest t)"

lemma target_ok_new: "target_new ev p = Inr t \<Longrightarrow> target_ok t \<and> et_digest t = [] \<and> et_offset t = 0"
  by (auto simp: target_new_def target_ok_def result_simps)

lemma list_view_append: "overlay (list_view xs) (length xs) ys = list_view (xs @ ys)"
  by (auto simp: fun_eq_iff overlay_def list_view_def nth_append)

lemma target_write_ok:
  assumes "posix_files (ev_os ev)" "target_ok t" "target_write ev bytes t = Inr t'" "length bytes < 2 ^ 64"
  shows "target_ok t' \<and> et_digest t' = et_digest t @ bytes"
proof -
  obtain d off where w: "sparse_write_extent (ev_os ev) (et_offset t) bytes (et_data t) = Inr d"
      "t' = \<lparr>et_data = d, et_digest = et_digest t @ bytes, et_offset = off\<rparr>"
    using assms(3) by (auto simp: target_write_Inr)
  have "list_view d = overlay (list_view (et_digest t)) (length (et_digest t)) bytes"
      "length d \<le> length (et_digest t) + length bytes"
    using posix_files.write_extent_view [OF assms(1) w(1)] assms(2) by (auto simp: target_ok_def)
  then show ?thesis
    using target_write_offset [OF assms(3,4)] assms(2) by (auto simp: target_ok_def w(2) list_view_append)
qed

lemma resize_list_view:
  assumes "list_view a = list_view b" "length a \<le> length b"
  shows "resize (length b) 0 a = b"
proof (rule nth_equalityI)
  fix i assume "i < length (resize (length b) 0 a)"
  then have i: "i < length b" by simp
  have "list_view a i = list_view b i" using assms(1) by simp
  then show "resize (length b) 0 a ! i = b ! i" using i by (auto simp: list_view_def nth_resize split: if_splits)
qed simp

lemma target_finish_ok:
  assumes "posix_files (ev_os ev)" "target_ok t" "target_finish ev path len force t disk = Inr (disk', sha)"
  shows "disk' path = Some (et_digest t) \<and> length (et_digest t) = unat len \<and> sha = ev_sha256 ev (et_digest t)"
proof -
  obtain d where d: "et_offset t = len" "set_len (ev_os ev) (unat len) (et_data t) = Inr d"
      "persist_replace ev d path force disk = Inr disk'" "sha = ev_sha256 ev (et_digest t)"
    using assms(3) by (auto simp: target_finish_def result_simps split: if_splits prod.splits)
  have n: "length (et_digest t) = unat len" using d(1) assms(2) by (auto simp: target_ok_def)
  have "d = resize (unat len) 0 (et_data t)"
    using posix_files.set_len_ok [OF assms(1)] d(2) by (auto simp: set_len_def result_simps)
  then have "d = et_digest t" using resize_list_view [of "et_data t" "et_digest t"] assms(2) n by (simp add: target_ok_def)
  moreover have "disk' path = Some d" using persist_replace_Inr [OF d(3)] by simp
  ultimately show ?thesis using n d(4) by simp
qed

text \<open>Reads of a file with fixed contents: a read returns a piece of them, \<open>read_exact\<close> the whole range.\<close>

definition reads_of :: "byte list \<Rightarrow> (u64 \<Rightarrow> nat \<Rightarrow> byte list result) \<Rightarrow> bool" where
  "reads_of c rd \<longleftrightarrow> (\<forall>p n bs. rd p n = Inr bs \<longrightarrow> bs = slice c (unat p) (unat p + length bs))"

definition exact_reads_of :: "byte list \<Rightarrow> (u64 \<Rightarrow> nat \<Rightarrow> byte list result) \<Rightarrow> bool" where
  "exact_reads_of c rd \<longleftrightarrow> (\<forall>p n bs. rd p n = Inr bs \<longrightarrow> bs = slice c (unat p) (unat p + n))"

lemma reads_ofD: "reads_of c rd \<Longrightarrow> rd p n = Inr bs \<Longrightarrow> bs = slice c (unat p) (unat p + length bs)"
  by (simp add: reads_of_def)

lemma slice_extend:
  "bs = slice c p (p + length bs) \<Longrightarrow> xs = slice c 0 p \<Longrightarrow> xs @ bs = slice c 0 (p + length bs)"
  using slice_split [of 0 p "p + length bs" c] by simp

lemma buffer_fits: "\<not> COPY_BUFFER_SIZE < n \<Longrightarrow> n < 2 ^ 64" "min m COPY_BUFFER_SIZE < 2 ^ 64"
  by (auto simp: COPY_BUFFER_SIZE_def min_def)

lemma fat_copy_bytes:
  "fat_copy ev fs fid len off t = Inr t' \<Longrightarrow> posix_files (ev_os ev) \<Longrightarrow> reads_of c (ff_read_at fs fid) \<Longrightarrow>
    target_ok t \<Longrightarrow> et_digest t = slice c 0 (unat off) \<Longrightarrow> off \<le> len \<Longrightarrow>
    target_ok t' \<and> et_digest t' = slice c 0 (unat len)"
proof (induction ev fs fid len off t rule: fat_copy.induct)
  case (1 ev fs fid len off t)
  note unfold = fat_copy.simps [of ev fs fid len off t]
  show ?case
  proof (cases "off \<ge> len")
    case True
    then have "t' = t" using 1(2) by (simp add: unfold)
    then show ?thesis using 1(5,6,7) True by auto
  next
    case False
    let ?w = "min (unat (len - off)) COPY_BUFFER_SIZE"
    obtain bs t1 where b: "ff_read_at fs fid off ?w = Inr bs" "bs \<noteq> []" "\<not> ?w < length bs" "target_write ev bs t = Inr t1"
        "fat_copy ev fs fid len (off + of_nat (length bs)) t1 = Inr t'"
      using 1(2) False by (auto simp: unfold Let_def result_simps split: if_splits)
    have n: "length bs \<le> unat (len - off)" "length bs < 2 ^ 64" using b(3) buffer_fits(2) by (auto simp: COPY_BUFFER_SIZE_def)
    have off: "unat (off + of_nat (length bs)) = unat off + length bs" "off + of_nat (length bs) \<le> len"
      using copy_step [OF _ n(1)] False by (auto simp: not_le)
    have w: "target_ok t1" "et_digest t1 = et_digest t @ bs" using target_write_ok [OF 1(3) 1(5) b(4) n(2)] by auto
    have "et_digest t1 = slice c 0 (unat off + length bs)"
      using slice_extend [OF reads_ofD [OF 1(4) b(1)] 1(6)] w(2) by simp
    then show ?thesis using 1(1) [OF False refl b 1(3,4) w(1)] off by simp
  qed
qed

lemma stream_copy_bytes:
  "stream_copy ev rd t = Inr t' \<Longrightarrow> posix_files (ev_os ev) \<Longrightarrow> reads_of c rd \<Longrightarrow>
    target_ok t \<Longrightarrow> et_digest t = slice c 0 (unat (et_offset t)) \<Longrightarrow>
    target_ok t' \<and> et_digest t' = slice c 0 (unat (et_offset t'))"
proof (induction ev rd t rule: stream_copy.induct)
  case (1 ev rd t)
  note unfold = stream_copy.simps [of ev rd t]
  obtain bs where b: "rd (et_offset t) COPY_BUFFER_SIZE = Inr bs" using 1(2) by (auto simp: unfold result_simps)
  show ?case
  proof (cases "bs = []")
    case True
    then show ?thesis using 1(2,5,6) b by (simp add: unfold result_simps)
  next
    case False
    then obtain t1 where t1: "\<not> COPY_BUFFER_SIZE < length bs" "target_write ev bs t = Inr t1" "stream_copy ev rd t1 = Inr t'"
      using 1(2) b by (auto simp: unfold result_simps split: if_splits sum.splits)
    note n = buffer_fits(1) [OF t1(1)]
    have w: "target_ok t1" "et_digest t1 = et_digest t @ bs" using target_write_ok [OF 1(3,5) t1(2) n] by auto
    have "et_digest t1 = slice c 0 (unat (et_offset t1))"
      using slice_extend [OF reads_ofD [OF 1(4) b] 1(6)] w(2) target_write_offset [OF t1(2) n] by simp
    then show ?thesis using 1(1) [OF b False t1 1(3,4) w(1)] by simp
  qed
qed

text \<open>What a compressed stream shows: bytes that the decoded units hold.\<close>

definition shows_units :: "(u64 \<Rightarrow> nat \<Rightarrow> byte list result) \<Rightarrow> compressed_stream \<Rightarrow> byte list \<Rightarrow> bool" where
  "shows_units rd cs bytes \<longleftrightarrow> (\<forall>i < length bytes. stream_byte rd cs i = Inr (bytes ! i))"

lemma shows_units_append:
  "shows_units rd cs xs \<Longrightarrow> (\<forall>i < length ys. stream_byte rd cs (length xs + i) = Inr (ys ! i)) \<Longrightarrow> shows_units rd cs (xs @ ys)"
  unfolding shows_units_def
  by (auto simp: nth_append) (metis add_diff_inverse_nat nat_add_left_cancel_less)

lemma compressed_copy_bytes:
  "compressed_copy ev rd len off cs t = Inr t' \<Longrightarrow> posix_files (ev_os ev) \<Longrightarrow>
    open_compressed cluster items = Inr cs0 \<Longrightarrow> read_history rd True cs0 cs \<Longrightarrow>
    target_ok t \<Longrightarrow> et_offset t = off \<Longrightarrow> off \<le> len \<Longrightarrow> shows_units rd cs0 (et_digest t) \<Longrightarrow>
    target_ok t' \<and> shows_units rd cs0 (et_digest t')"
proof (induction ev rd len off cs t rule: compressed_copy.induct)
  case (1 ev rd len off cs t)
  note unfold = compressed_copy.simps [of ev rd len off cs t]
  show ?case
  proof (cases "off \<ge> len")
    case True
    then have "t' = t" using 1(2) by (simp add: unfold)
    then show ?thesis using 1(6,9) by simp
  next
    case False
    let ?n = "min (unat (len - off)) COPY_BUFFER_SIZE"
    obtain cs1 bs t1 where b: "read_compressed rd off ?n cs = (cs1, Inr bs)" "target_write ev bs t = Inr t1"
        "compressed_copy ev rd len (off + of_nat ?n) cs1 t1 = Inr t'"
      using 1(2) False by (auto simp: unfold Let_def result_simps split: prod.splits sum.splits)
    have bytes: "length bs = ?n" "\<forall>i < ?n. stream_byte rd cs0 (unat off + i) = Inr (bs ! i)"
      using history_read_bytes [OF 1(4,5) b(1)] by auto
    have n: "length bs < 2 ^ 64" "?n \<le> unat (len - off)" using bytes(1) buffer_fits(2) by auto
    have w: "target_ok t1" "et_digest t1 = et_digest t @ bs" using target_write_ok [OF 1(3) 1(6) b(2) n(1)] by auto
    have off: "unat (off + of_nat ?n) = unat off + ?n" "off + of_nat ?n \<le> len"
      using copy_step [OF _ n(2)] False by (auto simp: not_le)
    have o1: "et_offset t1 = off + of_nat ?n"
      using target_write_offset [OF b(2) n(1)] off(1) bytes(1) 1(7) by (simp add: word_unat_eq_iff)
    have h: "read_history rd True cs0 cs1" by (rule history_read [OF 1(5) b(1)]) simp
    have "shows_units rd cs0 (et_digest t1)"
      unfolding w(2) using 1(9) bytes 1(6,7) by (intro shows_units_append) (auto simp: target_ok_def)
    then show ?thesis using 1(1) [OF False refl b(1) [symmetric] refl b(2,3) 1(3,4) h w(1) o1 off(2)] by simp
  qed
qed


section \<open>What the image of a file reads\<close>

lemma fat_read_exact_bytes:
  "fat_read_exact fs fid off n = Inr bs \<Longrightarrow> reads_of c (ff_read_at fs fid) \<Longrightarrow> unat off + n < 2 ^ 64 \<Longrightarrow>
    bs = slice c (unat off) (unat off + n)"
proof (induction fs fid off n arbitrary: bs rule: fat_read_exact.induct)
  case (1 fs fid off n)
  note unfold = fat_read_exact.simps [of fs fid off n]
  show ?case
  proof (cases "n = 0")
    case True
    then show ?thesis using 1(2) unfolding unfold by simp
  next
    case False
    then obtain xs rest where b: "ff_read_at fs fid off n = Inr xs" "xs \<noteq> []" "\<not> n < length xs"
        "fat_read_exact fs fid (off + of_nat (length xs)) (n - length xs) = Inr rest" "bs = xs @ rest"
      using 1(2) by (auto simp: unfold result_simps split: if_splits)
    have "unat (off + of_nat (length xs)) = unat off + length xs"
      using 1(4) b(3) by (simp add: unat_word_ariths unat_of_nat)
    then have "rest = slice c (unat off + length xs) (unat off + n)"
      using 1(1) [OF False b(1-4) 1(3)] 1(4) b(3) by simp
    moreover have "xs = slice c (unat off) (unat off + length xs)" by (rule reads_ofD [OF 1(3) b(1)])
    ultimately show ?thesis using slice_split [of "unat off" "unat off + length xs" "unat off + n" c] b(3,5) by simp
  qed
qed

lemma slice_of_prefix: "b \<le> n \<Longrightarrow> slice c a b = slice (slice c 0 n) a b"
  by (auto simp: slice_def drop_take take_take min_def)

text \<open>Normalising a path twice.\<close>

abbreviation inner_part :: "string \<Rightarrow> string list \<Rightarrow> string list result" where
  "inner_part part parts \<equiv>
     (if part = [] \<or> part = ''.'' then Inr parts
      else if part = ''..'' then Inl (Bail ''inner filesystem path cannot contain ..'')
      else if CHR 0x00 \<in> set part then Inl (Bail ''inner filesystem path contains a NUL byte'')
      else Inr (parts @ [part]))"

lemma inner_parts:
  "try_fold inner_part acc ps = Inr r \<longleftrightarrow>
    (\<forall>p \<in> set ps. p \<noteq> ''..'' \<and> CHR 0x00 \<notin> set p) \<and> r = acc @ filter (\<lambda>p. p \<noteq> [] \<and> p \<noteq> ''.'') ps"
  by (induction ps arbitrary: acc) (auto simp: result_simps split: if_splits)

lemma normalize_inner_path_Inr:
  "normalize_inner_path path = Inr parts \<longleftrightarrow>
    (\<exists>rest. path = CHR ''/'' # rest) \<and> (\<forall>p \<in> set (split_on CHR ''/'' path). p \<noteq> ''..'' \<and> CHR 0x00 \<notin> set p) \<and>
    parts = filter (\<lambda>p. p \<noteq> [] \<and> p \<noteq> ''.'') (split_on CHR ''/'' path)"
  using inner_parts [of "[]"]
  by (auto simp: normalize_inner_path_def split: list.splits)

lemma normalized_same_parts:
  assumes "normalized_inner_path path = Inr p"
  shows "normalize_inner_path p = normalize_inner_path path"
proof -
  obtain parts where n: "normalize_inner_path path = Inr parts" and p: "p = (if parts = [] then ''/'' else ''/'' @ join ''/'' parts)"
    using assms by (auto simp: normalized_inner_path_def result_simps)
  note parts = n [unfolded normalize_inner_path_Inr]
  have sep: "CHR ''/'' \<notin> set q" if "q \<in> set parts" for q
    using that parts split_on_no_sep [of q "CHR ''/''" path] by auto
  have split: "split_on CHR ''/'' p = (if parts = [] then [[], []] else [] # parts)"
    using sep split_on_join [of parts "CHR ''/''"] split_on_append_sep [of "CHR ''/''" "[]"] by (auto simp: p)
  have "normalize_inner_path p = Inr parts"
    unfolding normalize_inner_path_Inr split using parts by (auto simp: p filter_id_conv)
  then show ?thesis using n by simp
qed

text \<open>Reads that return the bytes of a file wherever they lie within it.\<close>

definition agrees :: "(u64 \<Rightarrow> nat \<Rightarrow> byte list result) \<Rightarrow> byte list \<Rightarrow> bool" where
  "agrees rd bytes \<longleftrightarrow> (\<forall>off n piece. rd off n = Inr piece \<longrightarrow> unat off + n \<le> length bytes \<longrightarrow>
     piece = slice bytes (unat off) (unat off + n))"

lemma agrees_exact: "exact_reads_of c rd \<Longrightarrow> agrees rd (slice c 0 n)"
  unfolding agrees_def exact_reads_of_def by (auto intro!: slice_of_prefix)

lemma agrees_compressed:
  assumes "open_compressed cluster items = Inr cs" "shows_units rd cs bytes"
  shows "agrees (\<lambda>off n. snd (read_compressed rd off n cs)) bytes"
  unfolding agrees_def
proof (intro allI impI)
  fix off n piece
  assume r: "snd (read_compressed rd off n cs) = Inr piece" and n: "unat off + n \<le> length bytes"
  obtain cs2 where "read_compressed rd off n cs = (cs2, Inr piece)" using r by (cases "read_compressed rd off n cs") auto
  note b = history_read_bytes [OF assms(1) history_start this]
  have "piece ! i = bytes ! (unat off + i)" if "i < n" for i
    using b assms(2) n that unfolding shows_units_def by (metis add_less_cancel_left less_le_trans sum.inject(2))
  then show "piece = slice bytes (unat off) (unat off + n)"
    using b n by (auto simp: list_eq_iff_nth_eq slice_simps)
qed

text \<open>What the crates document: a file has contents, and every read of it returns a part of them.\<close>

locale file_system_crates =
  fixes lib :: inner_lib
  assumes fat_contents: "il_fat lib src = Inr fat \<Longrightarrow> \<exists>c. reads_of c (ff_read_at fat fid)"
    and ntfs_contents: "il_ntfs lib src = Inr ntfs \<Longrightarrow> nf_data (nt_file ntfs h) = Some (Inr (Inr d)) \<Longrightarrow> nd_value d = Inr v \<Longrightarrow>
      \<exists>c. reads_of c (nv_read v) \<and> exact_reads_of c (nv_read_exact v)"
    and ext4_contents: "il_ext4 lib src = Inr ext \<Longrightarrow> xf_open ext p = Inr handle \<Longrightarrow>
      \<exists>c. reads_of c (xo_read_bytes handle) \<and> exact_reads_of c (xo_read_exact handle)"
begin

lemma fat_agrees:
  assumes "posix_files (ev_os ev)" "extract_fat lib ev src path t0 = Inr (t, len)" "target_ok t0" "et_digest t0 = []"
    and p: "normalize_inner_path p = normalize_inner_path path" and fs: "filesystem \<noteq> Ntfs" "filesystem \<noteq> Ext4"
  shows "target_ok t \<and> agrees (read_inner_file_exact_at lib src filesystem p) (et_digest t)"
proof -
  obtain fat fid where o: "open_fat lib src = Inr fat" "resolve_fat lib fat path = Inr fid" "fat_copy ev fat fid len 0 t0 = Inr t"
    using assms(2) by (auto simp: extract_fat_def result_simps split: if_splits)
  obtain c where c: "reads_of c (ff_read_at fat fid)"
    using fat_contents [of src fat fid] o(1) by (auto simp: open_fat_def result_simps)
  have t: "target_ok t" "et_digest t = slice c 0 (unat len)"
    using fat_copy_bytes [OF o(3) assms(1) c assms(3)] assms(4) by auto
  have read: "read_inner_file_exact_at lib src filesystem p = fat_read_exact fat fid"
    using o(1,2) p fs by (cases filesystem) (auto simp: fun_eq_iff read_inner_file_exact_at_def resolve_fat_def result_simps)
  have "agrees (fat_read_exact fat fid) (slice c 0 (unat len))"
    unfolding agrees_def
  proof (intro allI impI)
    fix off n piece
    assume r: "fat_read_exact fat fid off n = Inr piece" and n: "unat off + n \<le> length (slice c 0 (unat len))"
    then have b: "unat off + n \<le> unat len" by simp
    then have "piece = slice c (unat off) (unat off + n)"
      using fat_read_exact_bytes [OF r c] unat_less_u64 [of len] by simp
    then show "piece = slice (slice c 0 (unat len)) (unat off) (unat off + n)" using slice_of_prefix [OF b] by simp
  qed
  then show ?thesis using t read by simp
qed

lemma ext4_agrees:
  assumes "posix_files (ev_os ev)" "extract_ext4 lib ev src path t0 = Inr (t, len)" "target_ok t0" "et_digest t0 = []" "et_offset t0 = 0"
    and p: "normalized_inner_path path = Inr p"
  shows "target_ok t \<and> agrees (read_inner_file_exact_at lib src Ext4 p) (et_digest t)"
proof -
  obtain ext handle where o: "open_ext4 lib src = Inr ext" "xf_open ext p = Inr handle" "stream_copy ev (xo_read_bytes handle) t0 = Inr t"
    using assms(2) p by (auto simp: extract_ext4_def result_simps split: if_splits)
  obtain c where c: "reads_of c (xo_read_bytes handle)" "exact_reads_of c (xo_read_exact handle)"
    using ext4_contents [of src ext p handle] o(1,2) by (auto simp: open_ext4_def result_simps)
  have t: "target_ok t" "et_digest t = slice c 0 (unat (et_offset t))"
    using stream_copy_bytes [OF o(3) assms(1) c(1) assms(3)] assms(4,5) by auto
  have "read_inner_file_exact_at lib src Ext4 p = xo_read_exact handle"
    using o(1,2) by (auto simp: fun_eq_iff read_inner_file_exact_at_def result_simps)
  then show ?thesis using t agrees_exact [OF c(2)] by metis
qed

lemma ntfs_agrees:
  assumes "posix_files (ev_os ev)" "extract_ntfs lib ev src path t0 = Inr (t, len)" "target_ok t0" "et_digest t0 = []" "et_offset t0 = 0"
    and p: "normalize_inner_path p = normalize_inner_path path"
  shows "target_ok t \<and> agrees (read_inner_file_exact_at lib src Ntfs p) (et_digest t)"
proof -
  obtain ntfs nfile attribute where o: "open_ntfs lib src = Inr ntfs" "resolve_ntfs ntfs path = Inr nfile"
      "ntfs_data_attribute nfile = Inr attribute" and
    e: "(if nd_compressed attribute \<and> \<not> nd_resident attribute then
       and_then (open_compressed (nt_cluster_size ntfs) (nf_attributes_raw nfile)) (\<lambda>cs.
       and_then (compressed_copy ev (volume_read src) (cs_length cs) 0 cs t0) (\<lambda>t. Inr (t, cs_length cs)))
     else
       and_then (nd_value attribute) (\<lambda>value.
       and_then (stream_copy ev (nv_read value) t0) (\<lambda>t. Inr (t, nv_len value)))) = Inr (t, len)"
    using assms(2) unfolding extract_ntfs_def by (auto simp: result_simps split: if_splits)
  have path: "resolve_ntfs ntfs p = Inr nfile" using o(2) p by (simp add: resolve_ntfs_def)
  show ?thesis
  proof (cases "nd_compressed attribute \<and> \<not> nd_resident attribute")
    case True
    then obtain cs where cs: "open_compressed (nt_cluster_size ntfs) (nf_attributes_raw nfile) = Inr cs"
        "compressed_copy ev (volume_read src) (cs_length cs) 0 cs t0 = Inr t"
      using e by (auto simp: result_simps)
    have t: "target_ok t" "shows_units (volume_read src) cs (et_digest t)"
      using compressed_copy_bytes [OF cs(2) assms(1) cs(1) history_start assms(3,5)] assms(4) by (auto simp: shows_units_def)
    have "read_inner_file_exact_at lib src Ntfs p = (\<lambda>off n. snd (read_compressed (volume_read src) off n cs))"
      using o path cs(1) True by (auto simp: fun_eq_iff read_inner_file_exact_at_def result_simps)
    then show ?thesis using t agrees_compressed [OF cs(1) t(2)] by simp
  next
    case False
    then obtain v where v: "nd_value attribute = Inr v" "stream_copy ev (nv_read v) t0 = Inr t"
      using e by (auto simp: result_simps split: if_splits)
    obtain h where h: "nfile = nt_file ntfs h" using o(2) by (auto simp: resolve_ntfs_def result_simps)
    have "nf_data nfile = Some (Inr (Inr attribute))"
      using o(3) by (auto simp: ntfs_data_attribute_def result_simps split: option.splits)
    then obtain c where c: "reads_of c (nv_read v)" "exact_reads_of c (nv_read_exact v)"
      using ntfs_contents [of src ntfs h attribute v] o(1) v(1) by (auto simp: open_ntfs_def result_simps h)
    have t: "target_ok t" "et_digest t = slice c 0 (unat (et_offset t))"
      using stream_copy_bytes [OF v(2) assms(1) c(1) assms(3)] assms(4,5) by auto
    have "read_inner_file_exact_at lib src Ntfs p = nv_read_exact v"
      using o path v(1) False by (auto simp: fun_eq_iff read_inner_file_exact_at_def result_simps)
    then show ?thesis using t agrees_exact [OF c(2)] by metis
  qed
qed

lemma inner_agrees:
  assumes "posix_files (ev_os ev)" "extract_inner lib ev filesystem src path t0 = Inr (t, len)"
    "target_new ev d = Inr t0" "normalized_inner_path path = Inr p"
  shows "target_ok t \<and> agrees (read_inner_file_exact_at lib src filesystem p) (et_digest t)"
proof -
  note t0 = target_ok_new [OF assms(3)] and p = normalized_same_parts [OF assms(4)]
  have "extract_fat lib ev src path t0 = Inr (t, len) \<Longrightarrow> filesystem \<noteq> Ntfs \<Longrightarrow> filesystem \<noteq> Ext4 \<Longrightarrow> ?thesis"
    using fat_agrees [OF assms(1) _ _ _ p] t0 by blast
  moreover have "extract_ntfs lib ev src path t0 = Inr (t, len) \<Longrightarrow> filesystem = Ntfs \<Longrightarrow> ?thesis"
    using ntfs_agrees [OF assms(1) _ _ _ _ p] t0 by blast
  moreover have "extract_ext4 lib ev src path t0 = Inr (t, len) \<Longrightarrow> filesystem = Ext4 \<Longrightarrow> ?thesis"
    using ext4_agrees [OF assms(1) _ _ _ _ assms(4)] t0 by blast
  ultimately show ?thesis using assms(2) by (cases filesystem) (auto simp: extract_inner_def)
qed

lemma child_agrees:
  assumes "posix_files (ev_os ev)" "session_extract lib ev ss volume path destination force disk = (disk', Inr x)"
    "child_image lib ss volume path = Inr (img, name)"
  shows "\<exists>bytes. disk' destination = Some bytes \<and> length bytes = unat (ns_logical_size x) \<and> ns_sha256 x = ev_sha256 ev bytes \<and>
    agrees (im_read img) bytes"
proof -
  obtain vol filesystem src t0 t len where e: "select_volume ss volume = Inr vol" "vi_filesystem vol = Some filesystem"
      "volume_source ss vol = Inr src" "target_new ev destination = Inr t0"
      "extract_inner lib ev filesystem src path t0 = Inr (t, len)"
      "target_finish ev destination len force t disk = Inr (disk', ns_sha256 x)" "ns_logical_size x = len"
    using assms(2) by (auto simp: session_extract_def result_simps split: sum.splits prod.splits if_splits)
  obtain p l where c: "normalized_inner_path path = Inr p" "img = filesystem_file_image lib src filesystem p l"
    using assms(3) e(1-3) by (auto simp: child_image_def result_simps)
  note t = inner_agrees [OF assms(1) e(5,4) c(1)]
  have "agrees (im_read img) (et_digest t)"
    using t by (auto simp: agrees_def c(2) filesystem_file_image_def result_simps split: if_splits)
  then show ?thesis using target_finish_ok [OF assms(1) _ e(6)] t e(7) by auto
qed

end

section \<open>Properties\<close>

text \<open>C6: a file inside a disk image that is opened as a further disk image, at any depth, reads as the
  file that extracting it writes: an extraction leaves the logical size it reports and the bytes whose
  digest it returns, and every successful read of the image within those bytes returns them. For a
  compressed NTFS file both decode the same units, although extraction reads through one cache and the
  image opens the stream for every read.\<close>

theorem nested_images_read_what_extraction_writes:
  assumes "file_system_crates lib" "posix_files (ev_os ev)"
    and "session_extract lib ev ss volume path destination force disk = (disk', Inr extraction)"
    and "child_image lib ss volume path = Inr (img, name)"
  shows "\<exists>bytes. disk' destination = Some bytes \<and> length bytes = unat (ns_logical_size extraction) \<and>
    ns_sha256 extraction = ev_sha256 ev bytes \<and>
    (\<forall>off n piece. im_read img off n = Inr piece \<longrightarrow> unat off + n \<le> length bytes \<longrightarrow>
       piece = slice bytes (unat off) (unat off + n))"
  using file_system_crates.child_agrees [OF assms] by (simp add: agrees_def)

definition inner_demo :: inner_lib where
  "inner_demo = \<lparr>il_fat = (\<lambda>_. Inr \<lparr>ff_root = 0, ff_lookup = (\<lambda>d name. Inr (if d = 0 \<and> name = ''A'' then Some 1 else None)),
       ff_read_dir = (\<lambda>_. Inr []), ff_meta = (\<lambda>i. Inr \<lparr>fm_is_dir = (i = 0), fm_size = 3\<rparr>),
       ff_read_at = (\<lambda>_ p n. Inr (slice [1, 2, 3] (unat p) (unat p + n)))\<rparr>),
     il_ntfs = (\<lambda>_. Inl (Bail ''no NTFS'')), il_ext4 = (\<lambda>_. Inl (Bail ''no ext'')), il_lowercase = ascii_lowercase\<rparr>"

definition inner_session :: inception_session where
  "inner_session = \<lparr>is_source = \<lparr>im_len = 512, im_read = (\<lambda>_ _. Inl (Bail ''not read''))\<rparr>, is_image_path = ''disk'',
     is_stored_size = 512, is_disk_size = 512, is_container = RawDisk, is_image_offset = 0,
     is_volumes = [\<lparr>vi_selector = ''raw'', vi_scheme = ''raw'', vi_partition = 0, vi_offset = 0, vi_length = 512,
       vi_partition_type = [], vi_name = [], vi_filesystem = Some Fat12, vi_diagnostic = None\<rparr>]\<rparr>"

lemma reads_of_slice: "reads_of c (\<lambda>p n. Inr (slice c (unat p) (unat p + n)))"
  by (auto simp: reads_of_def slice_def min_def)

interpretation inner_demo: file_system_crates inner_demo
  by unfold_locales (auto simp: inner_demo_def reads_of_slice intro!: exI [of _ "[1, 2, 3]"])

lemma inner_demo_volume:
  "select_volume inner_session None = Inr (hd (is_volumes inner_session))"
  "vi_filesystem (hd (is_volumes inner_session)) = Some Fat12" "vi_selector (hd (is_volumes inner_session)) = ''raw''"
  "\<exists>src. volume_source inner_session (hd (is_volumes inner_session)) = Inr src"
  by (simp_all add: inner_session_def select_volume_def volume_source_def sliced_new_def result_simps checked_add_def)

lemma inner_demo_copy:
  "fat_copy demo_env fat fid 3 0 \<lparr>et_data = [], et_digest = [], et_offset = 0\<rparr> =
     Inr \<lparr>et_data = [1, 2, 3], et_digest = [1, 2, 3], et_offset = 3\<rparr>"
  if "ff_read_at fat fid 0 3 = Inr [1, 2, 3]" for fat
proof -
  have "sparse_write_extent ideal_os 0 [1, 2, 3] [] = Inr [1, 2, 3]"
    by (simp add: sparse_write_extent_def chunks.simps CHUNK_SIZE_def write_all_def ideal_os_def blit_def resize_def checked_add_def)
  then have "target_write demo_env [1, 2, 3] \<lparr>et_data = [], et_digest = [], et_offset = 0\<rparr> =
      Inr \<lparr>et_data = [1, 2, 3], et_digest = [1, 2, 3], et_offset = 3\<rparr>"
    by (simp add: target_write_def demo_env_def checked_add_def)
  then show ?thesis using that
    by (simp add: fat_copy.simps [of demo_env fat fid 3 0] fat_copy.simps [of demo_env fat fid 3 3] COPY_BUFFER_SIZE_def)
qed

lemma inner_demo_file:
  "open_fat inner_demo src = il_fat inner_demo src" "normalize_inner_path ''/A'' = Inr [''A'']"
  "normalized_inner_path ''/A'' = Inr ''/A''"
  "resolve_fat inner_demo (projr (il_fat inner_demo src)) ''/A'' = Inr 1"
  by (simp_all add: inner_demo_def open_fat_def normalize_inner_path_def normalized_inner_path_def resolve_fat_def
      resolve_fat_component_def result_simps)

lemma inner_demo_extract:
  "session_extract inner_demo demo_env inner_session None ''/A'' ''out'' False Map.empty =
     ([''out'' \<mapsto> [1, 2, 3]], Inr \<lparr>ns_logical_size = 3, ns_sha256 = ''sha'', ns_filesystem = Fat12, ns_volume = ''raw''\<rparr>)"
proof -
  obtain src where src: "volume_source inner_session (hd (is_volumes inner_session)) = Inr src" using inner_demo_volume(4) by blast
  obtain fat where fat: "il_fat inner_demo src = Inr fat" "ff_meta fat 1 = Inr \<lparr>fm_is_dir = False, fm_size = 3\<rparr>"
      "ff_read_at fat 1 0 3 = Inr [1, 2, 3]"
    by (simp add: inner_demo_def slice_def)
  have "extract_fat inner_demo demo_env src ''/A'' \<lparr>et_data = [], et_digest = [], et_offset = 0\<rparr> =
      Inr (\<lparr>et_data = [1, 2, 3], et_digest = [1, 2, 3], et_offset = 3\<rparr>, 3)"
    using inner_demo_file(1,4) [of src] fat inner_demo_copy [OF fat(3)] by (simp add: extract_fat_def)
  then show ?thesis
    using inner_demo_volume(1-3) src
    by (simp add: session_extract_def extract_inner_def target_new_def target_finish_def demo_env_def set_len_def ideal_os_def resize_def
        persist_replace_def)
qed

theorem nested_images_read_what_extraction_writes_witness:
  "\<exists>img name. child_image inner_demo inner_session None ''/A'' = Inr (img, name) \<and> im_read img 1 2 = Inr [2, 3] \<and>
     slice [1, 2, 3] 1 3 = [2, 3 :: byte]"
proof -
  obtain src where src: "volume_source inner_session (hd (is_volumes inner_session)) = Inr src" using inner_demo_volume(4) by blast
  have len: "inner_file_length inner_demo src Fat12 ''/A'' = Inr 3"
    using inner_demo_file(1,4) [of src] by (simp add: inner_file_length_def) (simp add: inner_demo_def)
  then have c: "child_image inner_demo inner_session None ''/A'' =
      Inr (filesystem_file_image inner_demo src Fat12 ''/A'' 3, ''disk!raw:/A'')"
    using inner_demo_volume(1-3) src by (simp add: child_image_def inner_demo_file(3)) (simp add: inner_session_def)
  have "\<exists>piece. read_inner_file_exact_at inner_demo src Fat12 ''/A'' 1 2 = Inr piece"
    using inner_demo_file(1,4) [of src]
    by (simp add: read_inner_file_exact_at_def)
      (simp add: inner_demo_def fat_read_exact.simps [of _ _ 1 2] fat_read_exact.simps [of _ _ 3 0] slice_def)
  then obtain piece where r: "im_read (filesystem_file_image inner_demo src Fat12 ''/A'' 3) 1 2 = Inr piece"
    by (auto simp: filesystem_file_image_def checked_add_def)
  have p: "posix_files (ev_os demo_env)" by (simp add: demo_env_def ideal.posix_files_axioms)
  from nested_images_read_what_extraction_writes [OF inner_demo.file_system_crates_axioms p inner_demo_extract c]
  have "\<forall>off n piece. im_read (filesystem_file_image inner_demo src Fat12 ''/A'' 3) off n = Inr piece \<longrightarrow> unat off + n \<le> 3 \<longrightarrow>
      piece = slice [1, 2, 3] (unat off) (unat off + n)" by auto
  from this [rule_format, OF r] have "piece = slice [1, 2, 3] 1 3" by (simp add: slice_def)
  then show ?thesis using c r by (simp add: slice_def)
qed

end
