(* ===== verification/Service.thy ===== *)
theory Service
  imports Inner Presentation
begin

text \<open>
  The desktop service (\<open>src/src/bin/zfs-explore-service.rs\<close>): a session over one backup that a client
  drives by requests, with the disk images it has descended into as a stack of layers, and the
  registry of authorized device handles. Each request is one handler; a state is what the service
  reports after it. JSON is a parameter: requests and replies are values.
\<close>

section \<open>Requests, sessions and states\<close>

datatype request =
    Open string bool
  | Select nat
  | Unlock "string option" "string option"
  | List string
  | Enter string
  | Back
  | Volume string
  | Extract string string
  | Close

record layer =
  ly_catalog :: inception_catalog
  ly_volume :: "string option"
  ly_path :: string

record session =
  ss_source :: "source_catalog option"
  ss_title :: string
  ss_view :: nat
  ss_path :: string
  ss_key :: "byte list option"
  ss_layers :: "layer list"
  ss_authorized :: "string option"

definition default_session :: session where
  "default_session = \<lparr>ss_source = None, ss_title = [], ss_view = 0, ss_path = [], ss_key = None, ss_layers = [], ss_authorized = None\<rparr>"

text \<open>What the service acts on: the registry of \<open>source.rs\<close> and the host's files.\<close>

record 'f world =
  wd_registry :: "'f registry"
  wd_fs :: tree_fs

record entry_state =
  en_name :: string
  en_directory :: bool
  en_regular :: bool
  en_size :: "u64 option"

record view_state =
  vs_view :: source_view
  vs_name :: string
  vs_detail :: string

record volume_state =
  vo_selector :: string
  vo_label :: string
  vo_supported :: bool
  vo_bytes :: u64
  vo_filesystem :: "string option"
  vo_title :: string
  vo_purpose :: string
  vo_partition :: u32
  vo_recommended :: bool

record state =
  st_title :: string
  st_summary :: "string option"
  st_description :: "string option"
  st_recommended_view :: "nat option"
  st_views :: "view_state list"
  st_view :: nat
  st_locked :: bool
  st_path :: string
  st_entries :: "entry_state list"
  st_volumes :: "volume_state list"
  st_volume :: "string option"
  st_layers :: "string list"
  st_can_back :: bool

datatype response =
    State state
  | RestoredTree string u64 u64 u64
  | RestoredFile string u64 string

text \<open>What the service uses besides the client: the drivers of the inner file systems, the length of a
  key file, and for the authorization of a device \<open>lstat\<close> (is it a device node, and which), whether
  opening it is refused for lack of permission, and the system's prompt (the descriptor it passes,
  whether the helper succeeded, whether the control message was cut).\<close>

record ('f, 'r, 'l, 'i, 'v) service_env =
  sx_client :: "('f, 'r, 'l, 'i, 'v) client_env"
  sx_inner :: inner_lib
  sx_key_len :: "string \<Rightarrow> io_error + nat"
  sx_lstat :: "string \<Rightarrow> io_error + (bool \<times> metadata)"
  sx_denied :: "string \<Rightarrow> bool"
  sx_authopen :: "string \<Rightarrow> ('f option \<times> bool \<times> bool) result"

definition client_with ::
  "('f, 'r, 'l, 'i, 'v) service_env \<Rightarrow> 'f registry \<Rightarrow> ('f, 'r, 'l, 'i, 'v) client_env" where
  "client_with sx reg = (sx_client sx)\<lparr>ce_session := (ce_session (sx_client sx))\<lparr>se_pool :=
     (se_pool (ce_session (sx_client sx)))\<lparr>pe_registry := reg\<rparr>\<rparr>\<rparr>"

abbreviation sx_host :: "('f, 'r, 'l, 'i, 'v) service_env \<Rightarrow> 'f host" where
  "sx_host sx \<equiv> pe_host (se_pool (ce_session (sx_client sx)))"

abbreviation sx_probes :: "('f, 'r, 'l, 'i, 'v) service_env \<Rightarrow> probes" where
  "sx_probes sx \<equiv> se_probes (ce_session (sx_client sx))"

section \<open>Reading a session\<close>

definition session_source :: "session \<Rightarrow> source_catalog result" where
  "session_source s = ok_or (ss_source s) (Bail ''Choose a backup first'')"

definition top_layer :: "session \<Rightarrow> layer option" where
  "top_layer s = (if ss_layers s = [] then None else Some (last (ss_layers s)))"

definition locked :: "session \<Rightarrow> bool" where
  "locked s \<longleftrightarrow> ss_layers s = [] \<and> ss_key s = None \<and>
     (case ss_source s of None \<Rightarrow> False
      | Some ct \<Rightarrow> ss_view s < length (ct_views ct) \<and> sv_encrypted (ct_views ct ! ss_view s))"

definition session_list :: "('f, 'r, 'l, 'i, 'v) service_env \<Rightarrow> 'f registry \<Rightarrow> session \<Rightarrow> string \<Rightarrow> directory_entry list result" where
  "session_list sx reg s path =
     (case top_layer s of
        Some ly \<Rightarrow>
          if ly_volume ly = None then Inr []
          else inception_list_directory (sx_inner sx) (ly_catalog ly) (ly_volume ly) path
      | None \<Rightarrow>
          and_then (session_source s) (\<lambda>ct.
          list_directory_with_key_material (client_with sx reg) ct (ss_view s) path (ss_key s)))"

definition current_path :: "session \<Rightarrow> string" where
  "current_path s = (case top_layer s of Some ly \<Rightarrow> ly_path ly | None \<Rightarrow> ss_path s)"

definition entry_state_of :: "directory_entry \<Rightarrow> entry_state" where
  "entry_state_of e = \<lparr>en_name = de_name e, en_directory = (de_dirent_type e = 4), en_regular = (de_dirent_type e = 8),
     en_size = de_logical_size e\<rparr>"

text \<open>Directories first, then by name without regard to case; \<open>sort_by\<close> is stable.\<close>

definition sorted_entries :: "inner_lib \<Rightarrow> entry_state list \<Rightarrow> entry_state list" where
  "sorted_entries lib es = sort_key (\<lambda>e. \<not> en_directory e) (sort_key (\<lambda>e. il_lowercase lib (en_name e)) es)"

definition view_state_of :: "source_view \<Rightarrow> view_state" where
  "view_state_of v = \<lparr>vs_view = v, vs_name = short_name (sv_dataset v), vs_detail = view_detail v\<rparr>"

definition volume_state_of :: "nat option \<Rightarrow> nat \<times> volume_info \<Rightarrow> volume_state" where
  "volume_state_of recommended = (\<lambda>(index, v).
     \<lparr>vo_selector = vi_selector v, vo_label = volume_label v, vo_supported = (vi_filesystem v \<noteq> None), vo_bytes = vi_length v,
      vo_filesystem = map_option display_filesystem (vi_filesystem v), vo_title = volume_title v, vo_purpose = volume_purpose v,
      vo_partition = vi_partition v, vo_recommended = (recommended = Some index)\<rparr>)"

definition can_back :: "session \<Rightarrow> bool" where
  "can_back s \<longleftrightarrow> length (ss_layers s) > (if ss_source s = None then 1 else 0)"

definition session_state :: "('f, 'r, 'l, 'i, 'v) service_env \<Rightarrow> 'f registry \<Rightarrow> session \<Rightarrow> state result" where
  "session_state sx reg s =
     and_then (if locked s \<or> ss_source s = None \<and> ss_layers s = [] then Inr [] else session_list sx reg s (current_path s)) (\<lambda>entries.
     Inr \<lparr>st_title = ss_title s, st_summary = map_option ct_summary (ss_source s),
       st_description = map_option source_description (ss_source s),
       st_recommended_view = (case ss_source s of None \<Rightarrow> None | Some ct \<Rightarrow> recommended_view (ct_views ct)),
       st_views = (case ss_source s of None \<Rightarrow> [] | Some ct \<Rightarrow> map view_state_of (ct_views ct)), st_view = ss_view s,
       st_locked = locked s, st_path = current_path s, st_entries = sorted_entries (sx_inner sx) (map entry_state_of entries),
       st_volumes = (case top_layer s of None \<Rightarrow> []
         | Some ly \<Rightarrow> map (volume_state_of (recommended_volume (ic_volumes (ly_catalog ly)))) (enumerate 0 (ic_volumes (ly_catalog ly)))),
       st_volume = (case top_layer s of None \<Rightarrow> None | Some ly \<Rightarrow> ly_volume ly),
       st_layers = map (\<lambda>ly. ic_image_path (ly_catalog ly)) (ss_layers s), st_can_back = can_back s\<rparr>)"

section \<open>Authorizing a device\<close>

text \<open>\<open>/dev/diskNsM\<close> and \<open>/dev/rdiskNsM\<close>: the directory is exactly \<open>/dev\<close>.\<close>

definition is_disk_device_path :: "string \<Rightarrow> bool" where
  "is_disk_device_path path =
     (case path_components False path of
        [[], d, name] \<Rightarrow>
          d = ''dev'' \<and> name \<noteq> ''..'' \<and>
          (case (case strip_prefix ''disk'' name of Some n \<Rightarrow> Some n | None \<Rightarrow> strip_prefix ''rdisk'' name) of
             None \<Rightarrow> False
           | Some numbers \<Rightarrow> list_all (\<lambda>number. number \<noteq> [] \<and> list_all (\<lambda>c. c \<in> set ''0123456789'') number)
               (split_on CHR ''s'' numbers))
      | _ \<Rightarrow> False)"

definition authorized_handle :: "('f, 'r, 'l, 'i, 'v) service_env \<Rightarrow> string \<Rightarrow> 'f result" where
  "authorized_handle sx path =
     (if ho_platform (sx_host sx) \<noteq> MacOs then Inl (Bail ''Device authorization is only available on macOS'')
      else if \<not> is_disk_device_path path
      then Inl (Bail ''Choose a disk device such as /dev/disk4 or /dev/rdisk4s2 for authorization'')
      else and_then (map_err (\<lambda>_. Bail ''The selected disk is no longer attached'') (sx_lstat sx path)) (\<lambda>(is_device, before).
      if \<not> is_device then Inl (Bail ''The selected path is not a disk device'')
      else case ho_open (sx_host sx) path of
        Inr f \<Rightarrow> Inr f
      | Inl e \<Rightarrow>
          if \<not> sx_denied sx path then Inl (Bail ''Opening the selected disk read-only'')
          else and_then (sx_authopen sx path) (\<lambda>(descriptor, success, truncated).
          and_then (ok_or descriptor (Bail ''Read access to {} was not granted ({status}). An administrator must approve the macOS prompt.'')) (\<lambda>f.
          if \<not> success \<or> truncated then Inl (Bail ''Read access was not granted. Choose the drive again to retry.'')
          else and_then (map_err IoErr (ho_metadata (sx_host sx) f)) (\<lambda>after.
          if \<not> same_device before after then Inl (Bail ''The disk changed during authorization. Choose the drive again.'')
          else Inr f)))))"

definition authorize_device :: "('f, 'r, 'l, 'i, 'v) service_env \<Rightarrow> string \<Rightarrow> 'f registry \<Rightarrow> 'f registry result" where
  "authorize_device sx path reg =
     and_then (authorized_handle sx path) (\<lambda>f. register_authorized_source (sx_host sx) path f reg)"

section \<open>Handlers\<close>

definition new_layer :: "inception_catalog \<Rightarrow> layer" where
  "new_layer catalog =
     \<lparr>ly_catalog = catalog,
      ly_volume = (case filter (\<lambda>v. vi_filesystem v \<noteq> None) (ic_volumes catalog) of [v] \<Rightarrow> Some (vi_selector v) | _ \<Rightarrow> None),
      ly_path = ''/''\<rparr>"

definition open_candidate :: "('f, 'r, 'l, 'i, 'v) service_env \<Rightarrow> 'f registry \<Rightarrow> string \<Rightarrow> session result" where
  "open_candidate sx reg path =
     (let candidate = default_session\<lparr>ss_path := ''/'', ss_title := (case file_name path of None \<Rightarrow> [] | Some name \<Rightarrow> name)\<rparr>;
          ce = client_with sx reg
      in case open_send ce path of
           Inr ct \<Rightarrow> Inr (candidate\<lparr>ss_source := Some ct\<rparr>)
         | Inl _ \<Rightarrow>
             (case open_pool ce path of
                Inr ct \<Rightarrow> Inr (candidate\<lparr>ss_source := Some ct\<rparr>)
              | Inl _ \<Rightarrow>
                  (case inception_open_file ce path 0 None of
                     Inr catalog \<Rightarrow> Inr (candidate\<lparr>ss_layers := [new_layer catalog]\<rparr>)
                   | Inl _ \<Rightarrow> Inl (Bail ''Could not open this backup''))))"

definition service_open_source :: "('f, 'r, 'l, 'i, 'v) service_env \<Rightarrow> 'f registry \<Rightarrow> string \<Rightarrow> (session \<times> state) result" where
  "service_open_source sx reg path =
     and_then (open_candidate sx reg path) (\<lambda>candidate.
     if (case ss_source candidate of None \<Rightarrow> False | Some ct \<Rightarrow> ct_views ct = [])
     then Inl (Bail ''This backup contains no browsable filesystem views'')
     else let candidate = (case ss_source candidate of
                None \<Rightarrow> candidate
              | Some ct \<Rightarrow> (case recommended_view (ct_views ct) of None \<Rightarrow> candidate | Some index \<Rightarrow> candidate\<lparr>ss_view := index\<rparr>))
     in and_then (session_state sx reg candidate) (\<lambda>st. Inr (candidate, st)))"

definition handle_open ::
  "('f, 'r, 'l, 'i, 'v) service_env \<Rightarrow> string \<Rightarrow> bool \<Rightarrow> session \<Rightarrow> 'f registry \<Rightarrow> (session \<times> 'f registry) \<times> response result" where
  "handle_open sx path prompt s reg =
     (case (if prompt then authorize_device sx path reg else Inr reg) of
        Inl e \<Rightarrow> ((s, reg), Inl e)
      | Inr reg \<Rightarrow>
          (case service_open_source sx reg path of
             Inr (candidate, st) \<Rightarrow>
               (let candidate = candidate\<lparr>ss_authorized := (if prompt then Some path else None)\<rparr>
                in ((candidate, release_authorized_sources (ss_authorized candidate) reg), Inr (State st)))
           | Inl e \<Rightarrow> ((s, release_authorized_sources (ss_authorized s) reg), Inl e)))"

definition report :: "('f, 'r, 'l, 'i, 'v) service_env \<Rightarrow> 'f registry \<Rightarrow> session \<Rightarrow> response result" where
  "report sx reg s = and_then (session_state sx reg s) (\<lambda>st. Inr (State st))"

text \<open>The new session if its state can be reported, the old one otherwise.\<close>

definition or_roll_back :: "('f, 'r, 'l, 'i, 'v) service_env \<Rightarrow> 'f registry \<Rightarrow> session \<Rightarrow> session \<Rightarrow> session \<times> response result" where
  "or_roll_back sx reg old s = (case report sx reg s of Inl e \<Rightarrow> (old, Inl e) | Inr r \<Rightarrow> (s, Inr r))"

definition handle_select :: "('f, 'r, 'l, 'i, 'v) service_env \<Rightarrow> nat \<Rightarrow> 'f registry \<Rightarrow> session \<Rightarrow> session \<times> response result" where
  "handle_select sx index reg s =
     (case and_then (session_source s) (\<lambda>ct. catalog_view ct index) of
        Inl e \<Rightarrow> (s, Inl e)
      | Inr _ \<Rightarrow> or_roll_back sx reg s (s\<lparr>ss_view := index, ss_path := ''/'', ss_key := None, ss_layers := []\<rparr>))"

definition key_material :: "('f, 'r, 'l, 'i, 'v) service_env \<Rightarrow> string option \<Rightarrow> string option \<Rightarrow> byte list result" where
  "key_material sx key key_file =
     (case key of
        Some key \<Rightarrow> Inr (bytes_of_chars key)
      | None \<Rightarrow>
          (case key_file of
             None \<Rightarrow> Inl (Bail ''Enter a key or choose a key file'')
           | Some path \<Rightarrow>
               and_then (map_err (\<lambda>_. Bail ''Opening key file'') (ce_key_file (sx_client sx) path)) (\<lambda>read.
               and_then (map_err IoErr (sx_key_len sx path)) (\<lambda>len.
               if len > 4096 then Inl (Bail ''Key files must be at most 4096 bytes'')
               else and_then (map_err IoErr (read 4097)) (\<lambda>material.
               if length material > 4096 then Inl (Bail ''Key file grew beyond 4096 bytes'') else Inr material)))))"

definition handle_unlock ::
  "('f, 'r, 'l, 'i, 'v) service_env \<Rightarrow> string option \<Rightarrow> string option \<Rightarrow> 'f registry \<Rightarrow> session \<Rightarrow> session \<times> response result" where
  "handle_unlock sx key key_file reg s =
     (case and_then (key_material sx key key_file) (\<lambda>material.
           and_then (session_source s) (\<lambda>ct.
           and_then (list_directory_with_key_material (client_with sx reg) ct (ss_view s) ''/'' (Some material)) (\<lambda>_. Inr material))) of
        Inl e \<Rightarrow> (s, Inl e)
      | Inr material \<Rightarrow> (let s = s\<lparr>ss_key := Some material, ss_path := ''/''\<rparr> in (s, report sx reg s)))"

definition set_path :: "string \<Rightarrow> session \<Rightarrow> session" where
  "set_path path s =
     (if ss_layers s = [] then s\<lparr>ss_path := path\<rparr>
      else s\<lparr>ss_layers := butlast (ss_layers s) @ [(last (ss_layers s))\<lparr>ly_path := path\<rparr>]\<rparr>)"

definition handle_list :: "('f, 'r, 'l, 'i, 'v) service_env \<Rightarrow> string \<Rightarrow> 'f registry \<Rightarrow> session \<Rightarrow> session \<times> response result" where
  "handle_list sx path reg s =
     (case session_list sx reg s path of
        Inl e \<Rightarrow> (s, Inl e)
      | Inr _ \<Rightarrow> (let s = set_path path s in (s, report sx reg s)))"

definition handle_enter :: "('f, 'r, 'l, 'i, 'v) service_env \<Rightarrow> string \<Rightarrow> 'f registry \<Rightarrow> session \<Rightarrow> session \<times> response result" where
  "handle_enter sx name reg s =
     (if length (ss_layers s) \<ge> 8 then (s, Inl (Bail ''Up to eight nested disk images can be open at once''))
      else case and_then (child_path (current_path s) name) (\<lambda>path.
                case top_layer s of
                  Some ly \<Rightarrow> inspect_child (sx_inner sx) (sx_probes sx) (ly_catalog ly) (ly_volume ly) path 0 None
                | None \<Rightarrow>
                    and_then (session_source s) (\<lambda>ct.
                    inspect_inception_with_key_material (client_with sx reg) ct (ss_view s) path (ss_key s) None None 0 None)) of
           Inl e \<Rightarrow> (s, Inl e)
         | Inr catalog \<Rightarrow> or_roll_back sx reg s (s\<lparr>ss_layers := ss_layers s @ [new_layer catalog]\<rparr>))"

definition handle_back :: "('f, 'r, 'l, 'i, 'v) service_env \<Rightarrow> 'f registry \<Rightarrow> session \<Rightarrow> session \<times> response result" where
  "handle_back sx reg s =
     (if \<not> can_back s then (s, Inl (Bail ''Already at the source''))
      else or_roll_back sx reg s (s\<lparr>ss_layers := butlast (ss_layers s)\<rparr>))"

definition handle_volume :: "('f, 'r, 'l, 'i, 'v) service_env \<Rightarrow> string \<Rightarrow> 'f registry \<Rightarrow> session \<Rightarrow> session \<times> response result" where
  "handle_volume sx selector reg s =
     (case top_layer s of
        None \<Rightarrow> (s, Inl (Bail ''Open a disk image first''))
      | Some ly \<Rightarrow>
          if \<not> list_ex (\<lambda>v. vi_selector v = selector \<and> vi_filesystem v \<noteq> None) (ic_volumes (ly_catalog ly))
          then (s, Inl (Bail ''Choose a supported filesystem volume''))
          else (case inception_list_directory (sx_inner sx) (ly_catalog ly) (Some selector) ''/'' of
                  Inl e \<Rightarrow> (s, Inl e)
                | Inr _ \<Rightarrow>
                    (let s = s\<lparr>ss_layers := butlast (ss_layers s) @ [ly\<lparr>ly_volume := Some selector, ly_path := ''/''\<rparr>]\<rparr>
                     in (s, report sx reg s))))"

text \<open>The host's files by their path names, and the two files that extracting one file can change.\<close>

definition files_of :: "bool \<Rightarrow> tree_fs \<Rightarrow> disk" where
  "files_of windows fs name =
     (case fs (path_components windows name) of None \<Rightarrow> None | Some (Regular b) \<Rightarrow> Some b | Some _ \<Rightarrow> Some [])"

definition store_files :: "bool \<Rightarrow> string list \<Rightarrow> disk \<Rightarrow> tree_fs \<Rightarrow> tree_fs" where
  "store_files windows names disk fs =
     fold (\<lambda>name fs'. if disk name = files_of windows fs name then fs'
       else fs'(path_components windows name := map_option Regular (disk name))) names fs"

definition extract_one ::
  "('f, 'r, 'l, 'i, 'v) service_env \<Rightarrow> string \<Rightarrow> string \<Rightarrow> 'f registry \<Rightarrow> session \<Rightarrow> disk \<Rightarrow> disk \<times> client_extraction result" where
  "extract_one sx path destination reg s disk =
     (case top_layer s of
        Some ly \<Rightarrow> inception_extract (sx_inner sx) (ce_env (sx_client sx)) (ly_catalog ly) (ly_volume ly) path destination False disk
      | None \<Rightarrow>
          (case session_source s of
             Inl e \<Rightarrow> (disk, Inl e)
           | Inr ct \<Rightarrow> extract_with_key_material (client_with sx reg) ct (ss_view s) path destination False (ss_key s) disk))"

definition extract_folder ::
  "('f, 'r, 'l, 'i, 'v) service_env \<Rightarrow> string \<Rightarrow> path \<Rightarrow> 'f registry \<Rightarrow> session \<Rightarrow> tree_fs \<Rightarrow> tree_fs \<times> recursive_extraction result" where
  "extract_folder sx path destination reg s fs =
     (case top_layer s of
        Some ly \<Rightarrow> inception_extract_tree (sx_inner sx) (ce_env (sx_client sx)) (ce_tree (sx_client sx)) (ly_catalog ly) (ly_volume ly) path destination False fs
      | None \<Rightarrow>
          (case session_source s of
             Inl e \<Rightarrow> (fs, Inl e)
           | Inr ct \<Rightarrow> extract_tree_with_key_material (client_with sx reg) ct (ss_view s) path destination False (ss_key s) fs))"

definition handle_extract ::
  "('f, 'r, 'l, 'i, 'v) service_env \<Rightarrow> string \<Rightarrow> string \<Rightarrow> 'f registry \<Rightarrow> session \<Rightarrow> tree_fs \<Rightarrow> tree_fs \<times> response result" where
  "handle_extract sx name destination reg s fs =
     (let windows = te_windows (ce_tree (sx_client sx)) in
      case and_then (session_list sx reg s (current_path s)) (\<lambda>entries.
           and_then (ok_or (find (\<lambda>e. de_name e = name) entries) (Bail ''Select an existing file or folder first'')) (\<lambda>entry.
           and_then (child_path (current_path s) name) (\<lambda>path.
           if fs (path_components windows destination) \<noteq> None
           then Inl (Bail ''A file or folder already exists there. Choose a new name or destination; your existing files have been kept.'')
           else Inr (entry, path)))) of
        Inl e \<Rightarrow> (fs, Inl e)
      | Inr (entry, path) \<Rightarrow>
          if de_dirent_type entry = 4 then
            (let (fs, r) = extract_folder sx path (path_components windows destination) reg s fs
             in (fs, and_then r (\<lambda>x. Inr (RestoredTree destination (rx_logical_bytes x) (rx_files x) (rx_skipped_entries x)))))
          else if de_dirent_type entry = 8 then
            (let (disk, r) = extract_one sx path destination reg s (files_of windows fs)
             in (store_files windows [destination, sidecar_path destination] disk fs,
                 and_then r (\<lambda>x. Inr (RestoredFile destination (cx_logical_size x) (cx_sha256 x)))))
          else (fs, Inl (Bail ''Only regular files and folders can be restored; links and special files are not followed'')))"

text \<open>One request: its handler, with the registry and the files it acts on.\<close>

definition in_session :: "'f world \<Rightarrow> session \<times> response result \<Rightarrow> (session \<times> 'f world) \<times> response result" where
  "in_session w = (\<lambda>(s, r). ((s, w), r))"

definition handle ::
  "('f, 'r, 'l, 'i, 'v) service_env \<Rightarrow> request \<Rightarrow> session \<times> 'f world \<Rightarrow> (session \<times> 'f world) \<times> response result" where
  "handle sx request = (\<lambda>(s, w). let reg = wd_registry w in
     case request of
       Open path prompt \<Rightarrow>
         (let ((s, reg), r) = handle_open sx path prompt s reg in ((s, w\<lparr>wd_registry := reg\<rparr>), r))
     | Select index \<Rightarrow> in_session w (handle_select sx index reg s)
     | Unlock key key_file \<Rightarrow> in_session w (handle_unlock sx key key_file reg s)
     | List path \<Rightarrow> in_session w (handle_list sx path reg s)
     | Enter name \<Rightarrow> in_session w (handle_enter sx name reg s)
     | Back \<Rightarrow> in_session w (handle_back sx reg s)
     | Volume selector \<Rightarrow> in_session w (handle_volume sx selector reg s)
     | Extract name destination \<Rightarrow>
         (let (fs, r) = handle_extract sx name destination reg s (wd_fs w) in ((s, w\<lparr>wd_fs := fs\<rparr>), r))
     | Close \<Rightarrow>
         (let s = default_session; reg = release_authorized_sources None reg in ((s, w\<lparr>wd_registry := reg\<rparr>), report sx reg s)))"

section \<open>The main loop\<close>

definition MAX_REQUEST :: nat where "MAX_REQUEST = 64 * 1024"

text \<open>\<open>read_until\<close> the newline, of at most one byte more than a request may have.\<close>

definition read_line :: "byte list \<Rightarrow> byte list" where
  "read_line input =
     (let window = take (MAX_REQUEST + 1) input; line = takeWhile (\<lambda>b. b \<noteq> 10) window
      in take (length line + 1) window)"

datatype reply = Answer response | Refusal string string string

definition reply_of :: "(error \<Rightarrow> string) \<Rightarrow> response result \<Rightarrow> reply" where
  "reply_of display r =
     (case r of
        Inr value \<Rightarrow> Answer value
      | Inl e \<Rightarrow> (let friendly = friendly_error (display e) in Refusal (display e) (fe_title friendly) (fe_message friendly)))"

text \<open>\<open>parse\<close> reads a request from its JSON, \<open>display\<close> prints an error with its causes.\<close>

function serve ::
  "('f, 'r, 'l, 'i, 'v) service_env \<Rightarrow> (byte list \<Rightarrow> request option) \<Rightarrow> (error \<Rightarrow> string) \<Rightarrow> byte list \<Rightarrow> session \<times> 'f world \<Rightarrow>
   (session \<times> 'f world) \<times> reply list \<times> unit result" where
  "serve sx parse display input sw =
     (let line = read_line input in
      if line = [] then (sw, [], Inr ())
      else if length line > MAX_REQUEST then (sw, [], Inl (Bail ''Desktop request exceeds 64 KiB''))
      else let (sw, r) = (case parse line of
                 None \<Rightarrow> (sw, Inl (Bail ''Invalid desktop request''))
               | Some req \<Rightarrow> handle sx req sw);
               (sw, replies, res) = serve sx parse display (drop (length line) input) sw
           in (sw, reply_of display r # replies, res))"
  by pat_completeness auto
termination
proof (relation "measure (\<lambda>(sx, parse, display, input, sw). length input)")
  fix sx :: "('f, 'r, 'l, 'i, 'v) service_env" and parse :: "byte list \<Rightarrow> request option" and display :: "error \<Rightarrow> string"
    and input line and sw sw' :: "session \<times> 'f world"
  assume "line = read_line input" "line \<noteq> []"
  then have "length (drop (length line) input) < length input" by (cases input) (auto simp: read_line_def Let_def)
  then show "((sx, parse, display, drop (length line) input, sw'), (sx, parse, display, input, sw)) \<in>
      measure (\<lambda>(sx, parse, display, input, sw). length input)" by simp
qed simp

declare serve.simps [simp del]

end
