(* ===== verification/Service_Sessions.thy ===== *)
theory Service_Sessions
  imports Service Inner_Reads Client_Views
begin

text \<open>
  The sessions that the desktop service can reach: what a session shows, the invariant that every handler
  keeps, the registry of authorized handles, and the main loop. The properties hold for every sequence of
  requests.
\<close>

section \<open>Sessions that can be shown\<close>

text \<open>The parts of a session that its states list: the view below all layers, unless it is locked, and
  each layer, unless no volume is chosen.\<close>

definition base_lists :: "('f, 'r, 'l, 'i, 'v) service_env \<Rightarrow> 'f registry \<Rightarrow> session \<Rightarrow> bool" where
  "base_lists sx reg s \<longleftrightarrow> (\<forall>ct. ss_source s = Some ct \<longrightarrow> locked (s\<lparr>ss_layers := []\<rparr>) \<or>
     \<not> isl (list_directory_with_key_material (client_with sx reg) ct (ss_view s) (ss_path s) (ss_key s)))"

definition layer_lists :: "('f, 'r, 'l, 'i, 'v) service_env \<Rightarrow> layer \<Rightarrow> bool" where
  "layer_lists sx ly \<longleftrightarrow> ly_volume ly = None \<or> \<not> isl (inception_list_directory (sx_inner sx) (ly_catalog ly) (ly_volume ly) (ly_path ly))"

definition volume_ok :: "layer \<Rightarrow> bool" where
  "volume_ok ly \<longleftrightarrow> (case ly_volume ly of None \<Rightarrow> True
     | Some selector \<Rightarrow> list_ex (\<lambda>v. vi_selector v = selector \<and> vi_filesystem v \<noteq> None) (ic_volumes (ly_catalog ly)))"

definition view_ok :: "session \<Rightarrow> bool" where
  "view_ok s \<longleftrightarrow> (\<forall>ct. ss_source s = Some ct \<longrightarrow> ss_view s < length (ct_views ct))"

definition key_ok :: "('f, 'r, 'l, 'i, 'v) service_env \<Rightarrow> 'f registry \<Rightarrow> session \<Rightarrow> bool" where
  "key_ok sx reg s \<longleftrightarrow> (ss_key s = None \<or> (\<exists>ct. ss_source s = Some ct \<and>
     \<not> isl (list_directory_with_key_material (client_with sx reg) ct (ss_view s) ''/'' (ss_key s))))"

definition session_ok :: "('f, 'r, 'l, 'i, 'v) service_env \<Rightarrow> 'f registry \<Rightarrow> session \<Rightarrow> bool" where
  "session_ok sx reg s \<longleftrightarrow> base_lists sx reg s \<and> (\<forall>ly \<in> set (ss_layers s). layer_lists sx ly \<and> volume_ok ly) \<and>
     length (ss_layers s) \<le> 8 \<and> view_ok s \<and> key_ok sx reg s"

lemma top_layer_simps [simp]: "ss_layers s = [] \<Longrightarrow> top_layer s = None" "ss_layers s \<noteq> [] \<Longrightarrow> top_layer s = Some (last (ss_layers s))"
  by (simp_all add: top_layer_def)

lemma locked_iff: "locked s \<longleftrightarrow> ss_layers s = [] \<and> ss_key s = None \<and>
    (\<exists>ct. ss_source s = Some ct \<and> ss_view s < length (ct_views ct) \<and> sv_encrypted (ct_views ct ! ss_view s))"
  by (auto simp: locked_def split: option.splits)

lemma locked_base [simp]: "ss_layers s = [] \<Longrightarrow> locked (s\<lparr>ss_layers := []\<rparr>) = locked s"
  by (simp add: locked_iff)

lemma state_shown:
  assumes "base_lists sx reg s" "\<forall>ly \<in> set (ss_layers s). layer_lists sx ly"
  shows "\<not> isl (session_state sx reg s)"
proof (cases "ss_layers s = []")
  case True
  then show ?thesis using assms(1)
    by (cases "ss_source s")
      (auto simp: session_state_def base_lists_def session_list_def session_source_def current_path_def result_simps isl_def)
next
  case False
  then have "layer_lists sx (last (ss_layers s))" using assms(2) by simp
  then show ?thesis using False
    by (auto simp: session_state_def session_list_def layer_lists_def current_path_def result_simps isl_def)
qed

lemma shown_state:
  assumes "\<not> isl (session_state sx reg s)"
  shows "ss_layers s = [] \<Longrightarrow> base_lists sx reg s" "ss_layers s \<noteq> [] \<Longrightarrow> layer_lists sx (last (ss_layers s))"
proof -
  show "base_lists sx reg s" if l: "ss_layers s = []"
    using assms l
    by (auto simp: session_state_def base_lists_def session_list_def session_source_def current_path_def result_simps isl_def split: if_splits)
  show "layer_lists sx (last (ss_layers s))" if l: "ss_layers s \<noteq> []"
    using assms l
    by (auto simp: session_state_def session_list_def layer_lists_def locked_iff current_path_def result_simps isl_def split: if_splits)
qed

lemma report_isl: "isl (report sx reg s) = isl (session_state sx reg s)"
  by (auto simp: report_def result_simps isl_def)

lemma session_ok_shown: "session_ok sx reg s \<Longrightarrow> \<not> isl (session_state sx reg s)"
  by (rule state_shown) (auto simp: session_ok_def)

lemma roll_back_ok:
  assumes "or_roll_back sx reg old s = (s', r)" "session_ok sx reg old" "\<not> isl (session_state sx reg s) \<Longrightarrow> session_ok sx reg s"
  shows "session_ok sx reg s'" "isl r \<Longrightarrow> s' = old"
proof -
  have "session_ok sx reg s' \<and> (isl r \<longrightarrow> s' = old)"
  proof (cases "report sx reg s")
    case (Inl e)
    then show ?thesis using assms(1,2) by (simp add: or_roll_back_def)
  next
    case (Inr x)
    then have "(s', r) = (s, Inr x)" using assms(1) by (simp add: or_roll_back_def)
    moreover have "\<not> isl (session_state sx reg s)" using Inr report_isl [of sx reg s] by simp
    ultimately show ?thesis using assms(3) by simp
  qed
  then show "session_ok sx reg s'" "isl r \<Longrightarrow> s' = old" by auto
qed

lemma new_layer_ok: "volume_ok (new_layer catalog)"
proof (cases "ly_volume (new_layer catalog)")
  case None
  then show ?thesis by (simp add: volume_ok_def)
next
  case (Some selector)
  then obtain v where v: "filter (\<lambda>v. vi_filesystem v \<noteq> None) (ic_volumes catalog) = [v]" "selector = vi_selector v"
    by (cases "filter (\<lambda>v. vi_filesystem v \<noteq> None) (ic_volumes catalog)" rule: remdups_adj.cases) (simp_all add: new_layer_def)
  have "v \<in> set (filter (\<lambda>v. vi_filesystem v \<noteq> None) (ic_volumes catalog))" unfolding v(1) by simp
  then show ?thesis using Some v(2) by (auto simp: volume_ok_def list_ex_iff new_layer_def)
qed

lemma handle_select_ok:
  assumes "handle_select sx index reg s = (s', r)" "session_ok sx reg s"
  shows "session_ok sx reg s'" "isl r \<Longrightarrow> s' = s"
proof -
  let ?s = "s\<lparr>ss_view := index, ss_path := ''/'', ss_key := None, ss_layers := []\<rparr>"
  have "session_ok sx reg ?s" if "and_then (session_source s) (\<lambda>ct. catalog_view ct index) = Inr v" "\<not> isl (session_state sx reg ?s)" for v
    using that(1) shown_state(1) [OF that(2)]
    by (auto simp: session_ok_def view_ok_def key_ok_def session_source_def catalog_view_def result_simps split: option.splits if_splits)
  then show "session_ok sx reg s'" "isl r \<Longrightarrow> s' = s"
    using assms roll_back_ok [of sx reg s ?s s' r] by (auto simp: handle_select_def split: sum.splits)
qed

lemma handle_unlock_ok:
  assumes "handle_unlock sx key key_file reg s = (s', r)" "session_ok sx reg s"
  shows "session_ok sx reg s' \<and> (isl r \<longrightarrow> s' = s)"
proof (cases "s' = s \<and> isl r")
  case True
  then show ?thesis using assms by simp
next
  case False
  then obtain material ct where m: "ss_source s = Some ct" "s' = s\<lparr>ss_key := Some material, ss_path := ''/''\<rparr>" "r = report sx reg s'"
      "\<not> isl (list_directory_with_key_material (client_with sx reg) ct (ss_view s) ''/'' (Some material))"
  proof (cases "and_then (key_material sx key key_file) (\<lambda>material.
           and_then (session_source s) (\<lambda>ct.
           and_then (list_directory_with_key_material (client_with sx reg) ct (ss_view s) ''/'' (Some material)) (\<lambda>_. Inr material)))")
    case (Inl e)
    then have "(s', r) = (s, Inl e)" using assms(1) by (simp add: handle_unlock_def)
    then show ?thesis using False by simp
  next
    case (Inr material)
    then obtain ct es where "ss_source s = Some ct" "list_directory_with_key_material (client_with sx reg) ct (ss_view s) ''/'' (Some material) = Inr es"
      by (auto simp: session_source_def result_simps)
    moreover have "s' = s\<lparr>ss_key := Some material, ss_path := ''/''\<rparr>" "r = report sx reg s'"
      using assms(1) Inr by (auto simp: handle_unlock_def Let_def)
    ultimately show ?thesis using that by simp
  qed
  then have "session_ok sx reg s'"
    using assms(2) by (auto simp: session_ok_def base_lists_def key_ok_def view_ok_def)
  then show ?thesis using session_ok_shown report_isl m(3) by blast
qed

lemma volume_ok_path [simp]: "volume_ok (ly\<lparr>ly_path := path\<rparr>) = volume_ok ly"
  by (simp add: volume_ok_def split: option.split)

lemma handle_list_ok:
  assumes "handle_list sx path reg s = (s', r)" "session_ok sx reg s"
  shows "session_ok sx reg s' \<and> (isl r \<longrightarrow> s' = s)"
proof (cases "isl (session_list sx reg s path)")
  case True
  then show ?thesis using assms by (auto simp: handle_list_def isl_def)
next
  case False
  then have s': "s' = set_path path s" "r = report sx reg s'" using assms(1) by (auto simp: handle_list_def isl_def Let_def split: sum.splits)
  have "session_ok sx reg s'"
  proof (cases "ss_layers s = []")
    case True
    then show ?thesis using False assms(2)
      by (auto simp: s'(1) set_path_def session_ok_def base_lists_def session_list_def session_source_def view_ok_def key_ok_def result_simps)
  next
    case l: False
    have "layer_lists sx ((last (ss_layers s))\<lparr>ly_path := path\<rparr>)"
      using False l by (auto simp: session_list_def layer_lists_def)
    then show ?thesis using l assms(2)
      by (auto simp: s'(1) set_path_def session_ok_def base_lists_def view_ok_def key_ok_def locked_iff dest: in_set_butlastD)
  qed
  then show ?thesis using session_ok_shown report_isl s'(2) by blast
qed

lemma handle_enter_ok:
  assumes "handle_enter sx name reg s = (s', r)" "session_ok sx reg s"
  shows "session_ok sx reg s'" "isl r \<Longrightarrow> s' = s"
proof -
  let ?s = "\<lambda>catalog. s\<lparr>ss_layers := ss_layers s @ [new_layer catalog]\<rparr>"
  have "session_ok sx reg (?s catalog)" if "\<not> isl (session_state sx reg (?s catalog))" "length (ss_layers s) < 8" for catalog
    using that(2) shown_state(2) [OF that(1)] new_layer_ok assms(2)
    by (auto simp: session_ok_def base_lists_def view_ok_def key_ok_def locked_iff)
  then show "session_ok sx reg s'" "isl r \<Longrightarrow> s' = s"
    using assms roll_back_ok [of sx reg s "?s _" s' r] by (auto simp: handle_enter_def split: sum.splits if_splits)
qed

lemma session_ok_butlast: "session_ok sx reg s \<Longrightarrow> session_ok sx reg (s\<lparr>ss_layers := butlast (ss_layers s)\<rparr>)"
  by (auto simp: session_ok_def base_lists_def view_ok_def key_ok_def locked_iff dest: in_set_butlastD)

lemma handle_back_ok:
  assumes "handle_back sx reg s = (s', r)" "session_ok sx reg s"
  shows "session_ok sx reg s'" "isl r \<Longrightarrow> s' = s" "can_back s \<Longrightarrow> \<not> isl r \<and> s' = s\<lparr>ss_layers := butlast (ss_layers s)\<rparr>"
proof -
  note b = session_ok_butlast [OF assms(2)]
  show "session_ok sx reg s'" "isl r \<Longrightarrow> s' = s"
    using assms b roll_back_ok [of sx reg s "s\<lparr>ss_layers := butlast (ss_layers s)\<rparr>" s' r] by (auto simp: handle_back_def split: if_splits)
  show "\<not> isl r \<and> s' = s\<lparr>ss_layers := butlast (ss_layers s)\<rparr>" if "can_back s"
  proof -
    obtain x where "report sx reg (s\<lparr>ss_layers := butlast (ss_layers s)\<rparr>) = Inr x"
      using session_ok_shown [OF b] report_isl by (metis isl_def sum.exhaust_sel)
    then have "(s', r) = (s\<lparr>ss_layers := butlast (ss_layers s)\<rparr>, Inr x)"
      using that assms(1) by (simp add: handle_back_def or_roll_back_def)
    then show ?thesis by simp
  qed
qed

lemma handle_volume_ok:
  assumes "handle_volume sx selector reg s = (s', r)" "session_ok sx reg s"
  shows "session_ok sx reg s' \<and> (isl r \<longrightarrow> s' = s)"
proof (cases "s' = s \<and> isl r")
  case True
  then show ?thesis using assms by simp
next
  case False
  let ?ly = "(last (ss_layers s))\<lparr>ly_volume := Some selector, ly_path := ''/''\<rparr>"
  from False have l: "ss_layers s \<noteq> []" "s' = s\<lparr>ss_layers := butlast (ss_layers s) @ [?ly]\<rparr>" "r = report sx reg s'"
      "list_ex (\<lambda>v. vi_selector v = selector \<and> vi_filesystem v \<noteq> None) (ic_volumes (ly_catalog (last (ss_layers s))))"
      "\<not> isl (inception_list_directory (sx_inner sx) (ly_catalog (last (ss_layers s))) (Some selector) ''/'')"
    using assms(1) by (auto simp: handle_volume_def top_layer_def Let_def isl_def split: sum.splits if_splits)
  then have "layer_lists sx ?ly" "volume_ok ?ly" by (auto simp: layer_lists_def volume_ok_def)
  then have "session_ok sx reg s'"
    using l(1,2) assms(2) by (auto simp: session_ok_def base_lists_def view_ok_def key_ok_def locked_iff dest: in_set_butlastD)
  then show ?thesis using session_ok_shown report_isl l(3) by blast
qed

lemma default_ok: "session_ok sx reg default_session"
  by (simp add: session_ok_def base_lists_def view_ok_def key_ok_def default_session_def)

section \<open>The registry\<close>

text \<open>What a view lists depends on the registry only through the handle for the path of its source.\<close>

lemma open_partition_registry [simp]: "open_partition (pe\<lparr>pe_registry := reg\<rparr>) = open_partition pe"
  by (simp add: fun_eq_iff open_partition_def Let_def cong: option.case_cong if_cong)

lemma open_source_registry:
  assumes "bt_get r1 path = bt_get r2 path"
  shows "open_with_container_key (pe\<lparr>pe_registry := r1\<rparr>) path key = open_with_container_key (pe\<lparr>pe_registry := r2\<rparr>) path key"
proof -
  have "open_source (pe\<lparr>pe_registry := r1\<rparr>) path key = open_source (pe\<lparr>pe_registry := r2\<rparr>) path key"
    using assms by (simp add: open_source_def file_source_open_def open_read_only_def Let_def cong: option.case_cong if_cong)
  then show ?thesis by (simp add: open_with_container_key_def Let_def split_beta cong: if_cong)
qed

lemma client_with_simps [simp]:
  "se_pool (ce_session (client_with sx reg)) = (se_pool (ce_session (sx_client sx)))\<lparr>pe_registry := reg\<rparr>"
  "se_lib (ce_session (client_with sx reg)) = se_lib (ce_session (sx_client sx))"
  "se_send (ce_session (client_with sx reg)) = se_send (ce_session (sx_client sx))"
  "ce_key_file (client_with sx reg) = ce_key_file (sx_client sx)"
  by (simp_all add: client_with_def)

lemma list_registry:
  assumes "bt_get r1 (ct_path ct) = bt_get r2 (ct_path ct)"
  shows "list_directory_with_key_material (client_with sx r1) ct v p k = list_directory_with_key_material (client_with sx r2) ct v p k"
proof -
  have "open_pool_member (client_with sx r1) ct = open_pool_member (client_with sx r2) ct"
    using open_source_registry [OF assms]
    by (simp add: open_pool_member_def read_secret_file_def read_limited_def cong: option.case_cong)
  then show ?thesis 
    by (simp add: list_directory_with_key_material_def list_view_with_def with_view_def cong: source_kind.case_cong)
qed

lemma session_ok_registry:
  assumes "\<And>ct. ss_source s = Some ct \<Longrightarrow> bt_get r1 (ct_path ct) = bt_get r2 (ct_path ct)" "session_ok sx r1 s"
  shows "session_ok sx r2 s"
proof -
  have "list_directory_with_key_material (client_with sx r1) ct v p k = list_directory_with_key_material (client_with sx r2) ct v p k"
    if "ss_source s = Some ct" for ct v p k
    by (rule list_registry [OF assms(1) [OF that]])
  then show ?thesis using assms(2) by (auto simp: session_ok_def base_lists_def key_ok_def)
qed

text \<open>The registry holds the handle of the authorized device and nothing else.\<close>

definition registry_fits :: "('f, 'r, 'l, 'i, 'v) service_env \<Rightarrow> session \<Rightarrow> 'f registry \<Rightarrow> bool" where
  "registry_fits sx s reg \<longleftrightarrow> (case ss_authorized s of None \<Rightarrow> reg = []
     | Some p \<Rightarrow> (\<exists>f. authorized_handle sx p = Inr f \<and> reg = [(p, f)]))"

lemma authorize_device_Inr:
  "authorize_device sx path reg = Inr reg' \<Longrightarrow> \<exists>f. authorized_handle sx path = Inr f \<and> reg' = bt_insert path f reg"
  by (auto simp: authorize_device_def register_authorized_source_def result_simps split: option.splits if_splits)

lemma release_authorized:
  assumes "registry_fits sx s reg" "authorized_handle sx path = Inr f"
  shows "release_authorized_sources (Some path) (bt_insert path f reg) = [(path, f)]"
    and "release_authorized_sources (ss_authorized s) (bt_insert path f reg) = reg"
  using assms by (auto simp: registry_fits_def release_authorized_sources_def bt_retain_def split: option.splits)

lemma recommended_view_valid: "recommended_view views = Some i \<Longrightarrow> i < length views" "recommended_view views = None \<Longrightarrow> views = []"
  using best_of_filter_enumerate [where f = "\<lambda>view. case sv_created_at view of Some t \<Rightarrow> t | None \<Rightarrow> 0" and P = is_restore_point and xs = views]
  by (auto simp: recommended_view_def split: option.splits prod.splits if_splits)

lemma candidate_shape:
  assumes "open_candidate sx reg path = Inr c"
  shows "ss_key c = None" "ss_source c = Some ct \<Longrightarrow> ct_path ct = path \<and> ss_layers c = []"
    "ss_layers c = [] \<or> (\<exists>catalog. ss_layers c = [new_layer catalog])"
  using assms
  by (auto simp: open_candidate_def default_session_def Let_def open_send_def open_pool_def open_pool_with_container_key_file_def
      open_pool_with_container_key_def result_simps split: sum.splits if_splits)

lemma opened_source:
  assumes "service_open_source sx reg path = Inr (s, st)"
  shows "ss_source s = Some ct \<Longrightarrow> ct_path ct = path" "session_ok sx reg s" "session_state sx reg s = Inr st"
proof -
  obtain c where c: "open_candidate sx reg path = Inr c" "\<not> (case ss_source c of None \<Rightarrow> False | Some ct \<Rightarrow> ct_views ct = [])"
      "s = (case ss_source c of None \<Rightarrow> c
              | Some ct \<Rightarrow> (case recommended_view (ct_views ct) of None \<Rightarrow> c | Some index \<Rightarrow> c\<lparr>ss_view := index\<rparr>))"
      "session_state sx reg s = Inr st"
    using assms by (auto simp: service_open_source_def result_simps Let_def split: if_splits)
  then show "session_state sx reg s = Inr st" by simp
  note shape = candidate_shape [OF c(1)]
  have s: "ss_source s = ss_source c" "ss_layers s = ss_layers c" "ss_key s = None" "view_ok s"
    using c(2,3) shape(1) recommended_view_valid by (auto simp: view_ok_def split: option.splits)
  show "ct_path ct = path" if "ss_source s = Some ct" using shape(2) that s(1) by simp
  have "\<not> isl (session_state sx reg s)" using c(4) by simp
  note shown = shown_state [OF this]
  show "session_ok sx reg s"
  proof (cases "ss_layers s = []")
    case True
    then show ?thesis using shown(1) s by (simp add: session_ok_def key_ok_def)
  next
    case False
    then obtain catalog where "ss_layers s = [new_layer catalog]" using shape(3) s(2) by auto
    moreover have "ss_source s = None" using shape(2) False s(1,2) by (metis option.exhaust)
    ultimately show ?thesis using shown(2) s new_layer_ok by (simp add: session_ok_def key_ok_def base_lists_def)
  qed
qed

lemma session_ok_authorized [simp]: "session_ok sx reg (s\<lparr>ss_authorized := a\<rparr>) = session_ok sx reg s"
  by (simp add: session_ok_def base_lists_def key_ok_def view_ok_def locked_iff)

lemma handle_open_ok:
  assumes "handle_open sx path prompt s reg = ((s', reg'), r)" "session_ok sx reg s" "registry_fits sx s reg"
    and proper: "prompt \<or> ss_authorized s \<noteq> Some path"
  shows "session_ok sx reg' s' \<and> registry_fits sx s' reg' \<and> (isl r \<longrightarrow> s' = s \<and> reg' = reg)"
proof (cases "if prompt then authorize_device sx path reg else Inr reg")
  case (Inl e)
  then have "((s', reg'), r) = ((s, reg), Inl e)" unfolding assms(1) [symmetric] by (simp add: handle_open_def)
  then show ?thesis using assms(2,3) by simp
next
  case (Inr r1)
  have r1: "(\<exists>f. authorized_handle sx path = Inr f \<and> r1 = bt_insert path f reg) \<and> prompt \<or> r1 = reg \<and> \<not> prompt"
    using Inr authorize_device_Inr by (auto split: if_splits)
  show ?thesis
  proof (cases "service_open_source sx r1 path")
    case e: (Inl e)
    then have "((s', reg'), r) = ((s, release_authorized_sources (ss_authorized s) r1), Inl e)"
      unfolding assms(1) [symmetric] using Inr by (simp add: handle_open_def)
    moreover have "release_authorized_sources (ss_authorized s) reg = reg"
      using assms(3) by (auto simp: registry_fits_def release_authorized_sources_def bt_retain_def split: option.splits)
    then have "release_authorized_sources (ss_authorized s) r1 = reg"
      using r1 release_authorized(2) [OF assms(3)] by auto
    ultimately show ?thesis using assms(2,3) by simp
  next
    case ok: (Inr cst)
    obtain c st where c: "cst = (c, st)" by (cases cst)
    note o = opened_source [OF ok [unfolded c]]
    have new: "((s', reg'), r) = ((c\<lparr>ss_authorized := if prompt then Some path else None\<rparr>,
        release_authorized_sources (if prompt then Some path else None) r1), Inr (State st))"
      unfolding assms(1) [symmetric] using Inr ok c by (simp add: handle_open_def Let_def)
    show ?thesis
    proof (cases prompt)
      case True
      then obtain f where f: "authorized_handle sx path = Inr f" "r1 = bt_insert path f reg" using r1 by auto
      then have "reg' = [(path, f)]" using new True release_authorized(1) [OF assms(3) f(1)] by simp
      moreover have "session_ok sx [(path, f)] c"
        by (rule session_ok_registry [OF _ o(2)]) (simp add: o(1) f(2) bt_get_insert)
      ultimately show ?thesis using new True f(1) by (simp add: registry_fits_def)
    next
      case False
      then have "reg' = []" using new by (simp add: release_authorized_sources_def bt_retain_def)
      moreover have "bt_get reg path = None" using assms(3) proper False
        by (auto simp: registry_fits_def split: option.splits)
      then have "session_ok sx [] c" using False r1 by (intro session_ok_registry [OF _ o(2)]) (simp add: o(1))
      ultimately show ?thesis using new False by (simp add: registry_fits_def)
    qed
  qed
qed

section \<open>Reachable sessions\<close>

text \<open>A client asks for the prompt again when it opens the authorized device anew; without it the handle
  would be given up together with the old session.\<close>

definition proper :: "session \<Rightarrow> request \<Rightarrow> bool" where
  "proper s request = (case request of Open path prompt \<Rightarrow> prompt \<or> ss_authorized s \<noteq> Some path | _ \<Rightarrow> True)"

inductive reachable :: "('f, 'r, 'l, 'i, 'v) service_env \<Rightarrow> session \<Rightarrow> 'f world \<Rightarrow> bool" for sx where
  start: "wd_registry w = [] \<Longrightarrow> reachable sx default_session w"
| request: "reachable sx s w \<Longrightarrow> proper s req \<Longrightarrow> handle sx req (s, w) = ((s', w'), r) \<Longrightarrow> reachable sx s' w'"

lemma handlers_keep_authorized:
  "handle_select sx index reg s = (s', r) \<Longrightarrow> ss_authorized s' = ss_authorized s"
  "handle_unlock sx key key_file reg s = (s', r) \<Longrightarrow> ss_authorized s' = ss_authorized s"
  "handle_list sx path reg s = (s', r) \<Longrightarrow> ss_authorized s' = ss_authorized s"
  "handle_enter sx name reg s = (s', r) \<Longrightarrow> ss_authorized s' = ss_authorized s"
  "handle_back sx reg s = (s', r) \<Longrightarrow> ss_authorized s' = ss_authorized s"
  "handle_volume sx selector reg s = (s', r) \<Longrightarrow> ss_authorized s' = ss_authorized s"
       apply (auto simp: handle_select_def or_roll_back_def split: sum.splits)[1]
      apply (auto simp: handle_unlock_def Let_def split: sum.splits)[1]
     apply (auto simp: handle_list_def set_path_def Let_def split: sum.splits if_splits)[1]
    apply (auto simp: handle_enter_def or_roll_back_def split: sum.splits if_splits)[1]
   apply (auto simp: handle_back_def or_roll_back_def split: sum.splits if_splits)[1]
  apply (auto simp: handle_volume_def Let_def split: sum.splits if_splits option.splits)[1]
  done

lemma registry_fits_cong: "registry_fits sx s reg \<Longrightarrow> ss_authorized s' = ss_authorized s \<Longrightarrow> registry_fits sx s' reg"
  by (simp add: registry_fits_def)

lemma handle_ok:
  assumes "handle sx req (s, w) = ((s', w'), r)" "session_ok sx (wd_registry w) s" "registry_fits sx s (wd_registry w)" "proper s req"
  shows "session_ok sx (wd_registry w') s' \<and> registry_fits sx s' (wd_registry w') \<and>
    (isl r \<longrightarrow> s' = s \<and> wd_registry w' = wd_registry w \<and> ((\<forall>name destination. req \<noteq> Extract name destination) \<longrightarrow> w' = w))"
proof -
  have in_session: ?thesis
    if "in_session w x = ((s', w'), r)" "\<And>s' r. x = (s', r) \<Longrightarrow> session_ok sx (wd_registry w) s' \<and> (isl r \<longrightarrow> s' = s)"
      "\<And>s' r. x = (s', r) \<Longrightarrow> ss_authorized s' = ss_authorized s" for x
    using that assms(3) registry_fits_cong by (cases x) (auto simp: in_session_def)
  show ?thesis
  proof (cases req)
    case (Open path prompt)
    obtain s1 reg1 r1 where o: "handle_open sx path prompt s (wd_registry w) = ((s1, reg1), r1)" by (metis prod.exhaust)
    then have "s' = s1" "w' = w\<lparr>wd_registry := reg1\<rparr>" "r = r1" using assms(1) Open by (auto simp: handle_def Let_def)
    then show ?thesis using handle_open_ok [OF o assms(2,3)] assms(4) Open by (auto simp: proper_def)
  next
    case (Select index)
    then show ?thesis using assms(1) handle_select_ok [OF _ assms(2)] handlers_keep_authorized(1)
      by (intro in_session) (auto simp: handle_def Let_def)
  next
    case (Unlock key key_file)
    then show ?thesis using assms(1) handle_unlock_ok [OF _ assms(2)] handlers_keep_authorized(2)
      by (intro in_session) (auto simp: handle_def Let_def)
  next
    case (List path)
    then show ?thesis using assms(1) handle_list_ok [OF _ assms(2)] handlers_keep_authorized(3)
      by (intro in_session) (auto simp: handle_def Let_def)
  next
    case (Enter name)
    then show ?thesis using assms(1) handle_enter_ok [OF _ assms(2)] handlers_keep_authorized(4)
      by (intro in_session) (auto simp: handle_def Let_def)
  next
    case Back
    then show ?thesis using assms(1) handle_back_ok(1,2) [OF _ assms(2)] handlers_keep_authorized(5)
      by (intro in_session) (auto simp: handle_def Let_def)
  next
    case (Volume selector)
    then show ?thesis using assms(1) handle_volume_ok [OF _ assms(2)] handlers_keep_authorized(6)
      by (intro in_session) (auto simp: handle_def Let_def)
  next
    case (Extract name destination)
    then have "s' = s" "wd_registry w' = wd_registry w" using assms(1) by (auto simp: handle_def Let_def split: prod.splits)
    then show ?thesis using assms(2,3) Extract by simp
  next
    case Close
    then have c: "s' = default_session" "wd_registry w' = []" "r = report sx [] default_session"
      using assms(1) by (auto simp: handle_def Let_def release_authorized_sources_def bt_retain_def)
    have "\<not> isl r" using session_ok_shown [OF default_ok] report_isl c(3) by blast
    then show ?thesis using c(1,2) default_ok by (simp add: registry_fits_def default_session_def)
  qed
qed

lemma reachable_ok: "reachable sx s w \<Longrightarrow> session_ok sx (wd_registry w) s \<and> registry_fits sx s (wd_registry w)"
proof (induction rule: reachable.induct)
  case (start w)
  then show ?case using default_ok by (simp add: registry_fits_def default_session_def)
next
  case (request s w req s' w' r)
  then show ?case using handle_ok by blast
qed

text \<open>The desktop client sends the prompt with every device node.\<close>

definition prompts :: "(byte list \<Rightarrow> request option) \<Rightarrow> bool" where
  "prompts parse \<longleftrightarrow> (\<forall>line path prompt. parse line = Some (Open path prompt) \<longrightarrow> is_disk_device_path path \<longrightarrow> prompt)"

lemma prompted_requests_are_proper:
  assumes "prompts parse" "parse line = Some req" "registry_fits sx s reg"
  shows "proper s req"
proof (cases "\<exists>path. req = Open path False \<and> ss_authorized s = Some path")
  case True
  then obtain path f where p: "req = Open path False" "authorized_handle sx path = Inr f"
    using assms(3) by (auto simp: registry_fits_def)
  then have "is_disk_device_path path" by (auto simp: authorized_handle_def split: if_splits)
  then show ?thesis using assms(1,2) p(1) unfolding prompts_def by blast
next
  case False
  then show ?thesis by (auto simp: proper_def split: request.split)
qed

lemma serve_reachable:
  "serve sx parse display input sw = (sw', replies, res) \<Longrightarrow> prompts parse \<Longrightarrow> reachable sx (fst sw) (snd sw) \<Longrightarrow>
    reachable sx (fst sw') (snd sw')"
proof (induction sx parse display input sw arbitrary: sw' replies rule: serve.induct)
  case (1 sx parse display input sw)
  note unfold = serve.simps [of sx parse display input sw]
  let ?line = "read_line input"
  show ?case
  proof (cases "?line = [] \<or> length ?line > MAX_REQUEST")
    case True
    then have "sw' = sw" using 1(2) by (auto simp: unfold Let_def split: if_splits)
    then show ?thesis using 1(4) by simp
  next
    case False
    obtain sw1 r where h: "(case parse ?line of None \<Rightarrow> (sw, Inl (Bail ''Invalid desktop request'')) | Some req \<Rightarrow> handle sx req sw) = (sw1, r)"
      by (metis prod.exhaust)
    obtain sw2 reps where s: "serve sx parse display (drop (length ?line) input) sw1 = (sw2, reps, res)" "sw' = sw2"
      using 1(2) False h by (auto simp: unfold Let_def split: prod.splits)
    have "reachable sx (fst sw1) (snd sw1)"
    proof (cases "parse ?line")
      case None
      then show ?thesis using h 1(4) by simp
    next
      case (Some req)
      have "proper (fst sw) req" using prompted_requests_are_proper [OF 1(3) Some] reachable_ok [OF 1(4)] by blast
      moreover have "handle sx req (fst sw, snd sw) = ((fst sw1, snd sw1), r)" using h Some by simp
      ultimately show ?thesis using reachable.request [OF 1(4)] by blast
    qed
    then show ?thesis using 1(1) [OF refl _ _ h [symmetric] refl s(1) 1(3)] False s(2) by simp
  qed
qed

section \<open>Properties\<close>

text \<open>C17: whatever bytes the desktop client sends, as long as it asks for the prompt with device nodes, the
  session stays usable: its state can be reported, no more than eight disk images are open, the view
  exists, every chosen volume is a supported volume of its image, a retained key has listed the root
  of the view, and the registry holds no handle but that of the authorized device.\<close>

theorem service_sessions_stay_usable:
  assumes "prompts parse" and "wd_registry w = []"
    and "serve sx parse display input (default_session, w) = ((s, w'), replies, res)"
  shows "(\<exists>st. session_state sx (wd_registry w') s = Inr st) \<and> length (ss_layers s) \<le> 8 \<and>
    (\<forall>ct. ss_source s = Some ct \<longrightarrow> ss_view s < length (ct_views ct)) \<and>
    (\<forall>ly \<in> set (ss_layers s). \<forall>selector. ly_volume ly = Some selector \<longrightarrow>
       (\<exists>v \<in> set (ic_volumes (ly_catalog ly)). vi_selector v = selector \<and> vi_filesystem v \<noteq> None)) \<and>
    (\<forall>key. ss_key s = Some key \<longrightarrow> (\<exists>ct entries. ss_source s = Some ct \<and>
       list_directory_with_key_material (client_with sx (wd_registry w')) ct (ss_view s) ''/'' (Some key) = Inr entries)) \<and>
    (\<forall>path f. bt_get (wd_registry w') path = Some f \<longrightarrow> ss_authorized s = Some path)"
proof -
  have r: "reachable sx s w'" using serve_reachable [OF assms(3,1)] reachable.start [OF assms(2)] by auto
  note ok = reachable_ok [OF r, unfolded session_ok_def]
  have "\<exists>st. session_state sx (wd_registry w') s = Inr st"
    using session_ok_shown reachable_ok [OF r] by (metis isl_def sum.exhaust)
  moreover have "\<exists>v \<in> set (ic_volumes (ly_catalog ly)). vi_selector v = selector \<and> vi_filesystem v \<noteq> None"
    if "ly \<in> set (ss_layers s)" "ly_volume ly = Some selector" for ly selector
    using ok that by (auto simp: volume_ok_def list_ex_iff)
  moreover have "ss_authorized s = Some path" if "bt_get (wd_registry w') path = Some f" for path f
    using ok that by (auto simp: registry_fits_def split: option.splits if_splits)
  moreover have "\<exists>ct entries. ss_source s = Some ct \<and>
       list_directory_with_key_material (client_with sx (wd_registry w')) ct (ss_view s) ''/'' (Some key) = Inr entries"
    if "ss_key s = Some key" for key
    using ok that unfolding key_ok_def by (metis isl_def option.distinct(1) sum.exhaust)
  ultimately show ?thesis using ok by (auto simp: view_ok_def)
qed


text \<open>Going back always succeeds when a state offers it: it closes the innermost disk image and reports
  the state below.\<close>

theorem back_closes_one_layer:
  assumes "reachable sx s w" and "session_state sx (wd_registry w) s = Inr st" and "st_can_back st"
  shows "\<exists>st'. handle sx Back (s, w) = ((s\<lparr>ss_layers := butlast (ss_layers s)\<rparr>, w), Inr (State st'))"
proof -
  have c: "can_back s" using assms(2,3) by (auto simp: session_state_def result_simps)
  obtain s' r where h: "handle_back sx (wd_registry w) s = (s', r)" by (metis prod.exhaust)
  from handle_back_ok(3) [OF h] reachable_ok [OF assms(1)] c
  have b: "s' = s\<lparr>ss_layers := butlast (ss_layers s)\<rparr>" "\<not> isl r" by auto
  then obtain x where x: "r = Inr x" by (cases r) auto
  have "\<exists>st'. x = State st'"
    using h c x by (auto simp: handle_back_def or_roll_back_def report_def result_simps split: sum.splits)
  then show ?thesis using h b x by (auto simp: handle_def in_session_def Let_def)
qed

text \<open>Extraction leaves whatever is at its destination.\<close>

theorem existing_destinations_are_kept:
  assumes "handle sx (Extract name destination) (s, w) = ((s', w'), r)"
    and "wd_fs w (path_components (te_windows (ce_tree (sx_client sx))) destination) \<noteq> None"
  shows "w' = w \<and> isl r"
  using assms by (auto simp: handle_def handle_extract_def Let_def result_simps split: prod.splits sum.splits if_splits)

text \<open>Opening the authorized device once more without the prompt succeeds through the registered handle
  and then gives that handle up, although the new session reads the same device.\<close>

theorem reopening_gives_up_the_handle:
  assumes "ss_authorized s = Some path" and "handle sx (Open path False) (s, w) = ((s', w'), Inr r)"
  shows "wd_registry w' = [] \<and> (\<forall>ct. ss_source s' = Some ct \<longrightarrow> ct_path ct = path)"
proof -
  obtain c st where c: "service_open_source sx (wd_registry w) path = Inr (c, st)"
      "s' = c\<lparr>ss_authorized := None\<rparr>" "wd_registry w' = release_authorized_sources None (wd_registry w)"
    using assms(2) by (auto simp: handle_def handle_open_def Let_def split: sum.splits prod.splits)
  then show ?thesis using opened_source(1) [OF c(1)] by (auto simp: release_authorized_sources_def bt_retain_def)
qed

text \<open>A disk with an exFAT file system whose only file \<open>A\<close> is such a disk again.\<close>

definition service_disk :: "byte list" where
  "service_disk = [0, 0, 0] @ bytes_of_chars ''EXFAT   '' @ replicate 501 0"

definition service_inner :: inner_lib where
  "service_inner = \<lparr>il_fat = (\<lambda>_. Inr \<lparr>ff_root = 0, ff_lookup = (\<lambda>d name. Inr (if d = 0 \<and> name = ''A'' then Some 1 else None)),
       ff_read_dir = (\<lambda>_. Inr []), ff_meta = (\<lambda>i. Inr \<lparr>fm_is_dir = (i = 0), fm_size = 512\<rparr>),
       ff_read_at = (\<lambda>_ p n. Inr (slice service_disk (unat p) (unat p + n)))\<rparr>),
     il_ntfs = (\<lambda>_. Inl (Bail ''no NTFS'')), il_ext4 = (\<lambda>_. Inl (Bail ''no ext'')), il_lowercase = ascii_lowercase\<rparr>"

definition service_demo :: "(nat, unit, unit, unit, unit) service_env" where
  "service_demo = \<lparr>sx_client = demo_client\<lparr>ce_session := blank_env\<lparr>se_probes := no_probes\<lparr>pr_fat := (\<lambda>_. Some FatVariantEx)\<rparr>,
       se_pool := member_env\<lparr>pe_core := member_core\<lparr>LABEL_SIZE := 1024\<rparr>,
         pe_host := demo_host\<lparr>ho_open := (\<lambda>_. Inr 3), ho_metadata := (\<lambda>_. Inr \<lparr>md_is_file = True, md_len = 512, md_dev = 1, md_ino = 2, md_rdev = 3\<rparr>)\<rparr>,
         pe_device := (\<lambda>_. short_device 1 service_disk)\<rparr>\<rparr>\<rparr>,
     sx_inner = service_inner, sx_key_len = (\<lambda>_. Inl OsError), sx_lstat = (\<lambda>_. Inl OsError), sx_denied = (\<lambda>_. True),
     sx_authopen = (\<lambda>_. Inl (Bail ''no prompt''))\<rparr>"

lemma service_disk_facts:
  "length service_disk = 512" "take 4 service_disk = [0, 0, 0, 69]" "take 21 service_disk \<noteq> bytes_of_chars ''# Disk DescriptorFile''"
  "slice service_disk 3 11 = bytes_of_chars ''EXFAT   ''"
proof -
  show "take 21 service_disk \<noteq> bytes_of_chars ''# Disk DescriptorFile''"
  proof
    assume "take 21 service_disk = bytes_of_chars ''# Disk DescriptorFile''"
    then have "hd (take 21 service_disk) = hd (bytes_of_chars ''# Disk DescriptorFile'')" by (rule arg_cong)
    then show False by (simp add: service_disk_def bytes_of_chars_def)
  qed
qed (simp_all add: service_disk_def bytes_of_chars_def slice_def)

lemma service_disk_no_type: "\<not> list_ex (\<lambda>i. slice service_disk i (i + 10) = bytes_of_chars ''createType'') [0 ..< 503]"
proof -
  have "99 \<notin> set service_disk" by (simp add: service_disk_def bytes_of_chars_def)
  moreover have "set (slice service_disk i (i + 10)) \<subseteq> set service_disk" for i by (auto simp: slice_def dest: in_set_takeD in_set_dropD)
  moreover have "99 \<in> set (bytes_of_chars ''createType'')" by (simp add: bytes_of_chars_def)
  ultimately have "slice service_disk i (i + 10) \<noteq> bytes_of_chars ''createType''" for i by (metis subsetD)
  then show ?thesis by (simp add: list_ex_iff)
qed

abbreviation service_probes :: probes where "service_probes \<equiv> no_probes\<lparr>pr_fat := (\<lambda>_. Some FatVariantEx)\<rparr>"

abbreviation service_volume :: volume_info where
  "service_volume \<equiv> \<lparr>vi_selector = ''raw'', vi_scheme = ''raw'', vi_partition = 0, vi_offset = 0, vi_length = 512,
     vi_partition_type = ''unpartitioned'', vi_name = [], vi_filesystem = Some Exfat, vi_diagnostic = None\<rparr>"

lemma service_disk_opens:
  assumes "complete_image img service_disk"
  shows "\<exists>ss src. inspect_source_at service_probes img path 0 None = Inr ss \<and> is_volumes ss = [service_volume] \<and>
    volume_source ss service_volume = Inr src"
proof -
  have "unat (im_len img) = 512" using image_contract.image_len [OF complete_image.axioms(1) [OF assms]] service_disk_facts(1) by simp
  then have "of_nat (unat (im_len img)) = (of_nat 512 :: u64)" by (rule arg_cong)
  then have len: "im_len img = 512" by simp
  have reads: "im_read i 0 512 = Inr service_disk" if "complete_image i service_disk" for i
    using complete_image.image_complete [OF that, of 0 512] image_contract.image_read [OF complete_image.axioms(1) [OF that], of 512 0]
    by (auto simp: service_disk_facts(1))
  have slices: "sliced_new i 0 512 = Inr (sliced_image i 0 512) \<and> complete_image (sliced_image i 0 512) service_disk"
    if "complete_image i service_disk" "im_len i = 512" for i
  proof -
    have n: "sliced_new i 0 512 = Inr (sliced_image i 0 512)" using that(2) by (simp add: sliced_new_def checked_add_def)
    show ?thesis using complete_image.sliced_complete [OF that(1) n] n by (simp add: service_disk_facts(1))
  qed
  let ?w = "sliced_image img 0 512"
  note w = slices [OF assms len]
  have wlen: "im_len ?w = 512" by (simp add: sliced_image_def)
  note v = slices [OF conjunct2 [OF w] wlen]
  have c: "open_disk_container service_probes ?w = Inr (RawDisk, ?w)"
    using service_disk_facts(2,3) service_disk_no_type by (simp add: open_disk_container_def reads w bytes_of_chars_def)
  have l: "probe_volume service_probes ?w (raw_layout ?w) = Inr service_volume"
    using v reads [OF conjunct2 [OF v]] service_disk_facts(4)
    by (simp add: probe_volume_def raw_layout_def wlen make_volume_info_def fat_kind_def bytes_of_chars_def)
  then have d: "discover_partitions service_probes ?w = Inr []"
    by (simp add: discover_partitions_def discover_gpt_def gpt_candidates_def wlen saturating_mul_def)
  then have "\<exists>ss. inspect_source_at service_probes img path 0 None = Inr ss \<and> is_volumes ss = [service_volume] \<and> is_source ss = ?w"
    using l by (simp add: inspect_source_at_def len w c wlen d)
  then show ?thesis using v by (auto simp: volume_source_def)
qed

lemma service_inner_reads:
  assumes "il_fat service_inner src = Inr fat" "unat off + n \<le> 512"
  shows "fat_read_exact fat fid off n = Inr (slice service_disk (unat off) (unat off + n))"
proof (cases "n = 0")
  case True
  then show ?thesis by (simp add: fat_read_exact.simps [of fat fid off 0])
next
  case False
  let ?b = "slice service_disk (unat off) (unat off + n)"
  have r: "ff_read_at fat fid off n = Inr ?b" using assms(1) by (auto simp: service_inner_def)
  have l: "length ?b = n" using assms(2) by (simp add: service_disk_facts(1))
  then have ne: "?b \<noteq> []" using False by (metis length_0_conv)
  show ?thesis
    using False l ne by (simp add: fat_read_exact.simps [of fat fid off n] fat_read_exact.simps [of fat fid _ 0] r)
qed

lemma service_inner_file:
  "\<exists>fat. open_fat service_inner src = Inr fat \<and> il_fat service_inner src = Inr fat \<and> resolve_fat service_inner fat ''/A'' = Inr 1 \<and>
     resolve_fat service_inner fat ''/'' = Inr 0 \<and> ff_meta fat 0 = Inr \<lparr>fm_is_dir = True, fm_size = 512\<rparr> \<and>
     ff_meta fat 1 = Inr \<lparr>fm_is_dir = False, fm_size = 512\<rparr> \<and> ff_read_dir fat 0 = Inr []"
  "normalized_inner_path ''/A'' = Inr ''/A''"
  by (simp_all add: service_inner_def open_fat_def normalize_inner_path_def normalized_inner_path_def resolve_fat_def
      resolve_fat_component_def result_simps)

lemma service_child_complete: "complete_image (filesystem_file_image service_inner src Exfat ''/A'' 512) service_disk"
proof -
  let ?i = "filesystem_file_image service_inner src Exfat ''/A'' 512"
  obtain fat where fat: "open_fat service_inner src = Inr fat" "il_fat service_inner src = Inr fat" "resolve_fat service_inner fat ''/A'' = Inr 1"
    using service_inner_file(1) [of src] by blast
  have r: "im_read ?i off n = (if unat off + n \<le> 512 then Inr (slice service_disk (unat off) (unat off + n)) else im_read ?i off n)" for off n
    using service_inner_reads [OF fat(2), of off n 1] fat
    by (auto simp: filesystem_file_image_def read_inner_file_exact_at_def checked_add_def word_less_nat_alt unat_of_nat unat_word_ariths)
  have e: "im_read ?i off n = Inl (Bail ''inner image-file read offset overflows'') \<or>
      im_read ?i off n = Inl (Bail ''inner image-file read [{offset}, {end}) exceeds {} bytes'')" if "\<not> unat off + n \<le> 512" "n < 2 ^ 64" for off n
    using that
    by (auto simp: filesystem_file_image_def checked_add_def word_less_nat_alt unat_of_nat unat_word_ariths)
  show ?thesis
  proof unfold_locales
    show "unat (im_len ?i) = length service_disk" by (simp add: filesystem_file_image_def service_disk_facts(1))
  next
    fix n off bytes assume n: "n < 2 ^ 64" and b: "im_read ?i off n = Inr bytes"
    then have "unat off + n \<le> 512" using e [of off n] by auto
    then show "unat off + n \<le> length service_disk \<and> bytes = slice service_disk (unat off) (unat off + n)"
      using b r [of off n] by (simp add: service_disk_facts(1))
  next
    fix n :: nat and off :: u64 assume n: "n < 2 ^ 64"
    show "no_panic (im_read ?i off n)" using e [OF _ n, of off] r [of off n] by (cases "unat off + n \<le> 512") auto
  next
    fix off :: u64 and n assume "unat off + n \<le> length service_disk"
    then show "\<exists>bytes. im_read ?i off n = Inr bytes" using r [of off n] by (simp add: service_disk_facts(1))
  qed
qed

lemma service_layer:
  assumes "is_volumes ss = [service_volume]" "volume_source ss service_volume = Inr src"
  shows "new_layer (from_session ss) = \<lparr>ly_catalog = from_session ss, ly_volume = Some ''raw'', ly_path = ''/''\<rparr>"
    and "inception_list_directory service_inner (from_session ss) (Some ''raw'') ''/'' = Inr []"
    and "inspect_child service_inner service_probes (from_session ss) (Some ''raw'') ''/A'' 0 None =
      and_then (inspect_source_at service_probes (filesystem_file_image service_inner src Exfat ''/A'' 512)
        (is_image_path ss @ ''!raw:/A'') 0 None) (\<lambda>ss. Inr (from_session ss))"
proof -
  have sel: "select_volume ss (Some ''raw'') = Inr service_volume" by (simp add: select_volume_def assms(1))
  obtain fat where fat: "open_fat service_inner src = Inr fat" "resolve_fat service_inner fat ''/A'' = Inr 1" "resolve_fat service_inner fat ''/'' = Inr 0"
      "ff_meta fat 0 = Inr \<lparr>fm_is_dir = True, fm_size = 512\<rparr>" "ff_meta fat 1 = Inr \<lparr>fm_is_dir = False, fm_size = 512\<rparr>" "ff_read_dir fat 0 = Inr []"
    using service_inner_file(1) [of src] by blast
  show "new_layer (from_session ss) = \<lparr>ly_catalog = from_session ss, ly_volume = Some ''raw'', ly_path = ''/''\<rparr>"
    by (simp add: new_layer_def from_session_def assms(1))
  show "inception_list_directory service_inner (from_session ss) (Some ''raw'') ''/'' = Inr []"
    using fat by (simp add: inception_list_directory_def from_session_def session_list_directory_def sel assms(2) list_fat_def)
  show "inspect_child service_inner service_probes (from_session ss) (Some ''raw'') ''/A'' 0 None =
      and_then (inspect_source_at service_probes (filesystem_file_image service_inner src Exfat ''/A'' 512)
        (is_image_path ss @ ''!raw:/A'') 0 None) (\<lambda>ss. Inr (from_session ss))"
    using fat assms(2)
    by (simp add: inspect_child_def inspect_child_image_at_def child_image_def from_session_def sel service_inner_file(2) inner_file_length_def)
qed

definition service_world :: "nat world" where
  "service_world = \<lparr>wd_registry = [], wd_fs = (\<lambda>_. None)\<rparr>"

lemma service_demo_simps:
  "sx_inner service_demo = service_inner" "se_probes (ce_session (sx_client service_demo)) = service_probes"
  by (simp_all add: service_demo_def)

lemma service_opens:
  "\<exists>ss src. is_volumes ss = [service_volume] \<and> volume_source ss service_volume = Inr src \<and>
     open_candidate service_demo [] ''disk'' = Inr (default_session\<lparr>ss_path := ''/'', ss_title := ''disk'', ss_layers := [new_layer (from_session ss)]\<rparr>)"
proof -
  have drive: "reliable_device (short_device 1 service_disk) 1 service_disk"
    by (rule short_device_reliable) (simp_all add: service_disk_facts(1))
  have img: "complete_image (file_image (short_device 1 service_disk) 1 512) service_disk"
    by (rule reliable_device.file_image_complete [OF drive]) (simp add: service_disk_facts(1))
  obtain ss src where ss: "inspect_source_at service_probes (file_image (short_device 1 service_disk) 1 512) ''disk'' 0 None = Inr ss"
      "is_volumes ss = [service_volume]" "volume_source ss service_volume = Inr src"
    using service_disk_opens [OF img] by blast
  let ?ce = "client_with service_demo []"
  have send: "isl (open_send ?ce ''disk'')"
    by (simp add: open_send_def service_demo_def blank_env_def inspect_stream_def open_stream_def)
  have pool: "isl (open_pool ?ce ''disk'')"
    by (simp add: open_pool_def open_pool_with_container_key_file_def read_secret_file_def open_pool_with_container_key_def open_with_container_key_def
        open_source_def file_source_open_def open_read_only_def source_length_def service_demo_def)
  have opened: "inception_open_file ?ce ''disk'' 0 None = Inr (from_session ss)"
    using ss(1) by (simp add: inception_open_file_def from_file_at_def file_image_open_def open_read_only_def source_length_def source_block_size_def
        service_demo_def client_with_def)
  show ?thesis
    using send pool opened ss(2,3) by (auto simp: open_candidate_def isl_def file_name_def)
qed

lemma service_layer_lists:
  assumes "is_volumes ss = [service_volume]" "volume_source ss service_volume = Inr src" "layers = ls @ [new_layer (from_session ss)]"
    "ss_layers s = layers"
  shows "\<exists>st. session_state service_demo reg s = Inr st \<and> st_can_back st = can_back s"
  using service_layer(1,2) [OF assms(1,2)] assms(3,4)
  by (simp add: session_state_def locked_def session_list_def current_path_def service_demo_simps)

lemma service_two_layers:
  "\<exists>s1 s2 st1 st2 st. handle service_demo (Open ''disk'' False) (default_session, service_world) = ((s1, service_world), Inr (State st1)) \<and>
     handle service_demo (Enter ''A'') (s1, service_world) = ((s2, service_world), Inr (State st2)) \<and>
     length (ss_layers s2) = 2 \<and> ss_source s2 = None \<and> session_state service_demo [] s2 = Inr st \<and> st_can_back st"
proof -
  obtain ss src where o: "is_volumes ss = [service_volume]" "volume_source ss service_volume = Inr src"
    "open_candidate service_demo [] ''disk'' = Inr (default_session\<lparr>ss_path := ''/'', ss_title := ''disk'', ss_layers := [new_layer (from_session ss)]\<rparr>)"
    using service_opens by blast
  note ly = service_layer [OF o(1,2)]
  let ?s1 = "default_session\<lparr>ss_path := ''/'', ss_title := ''disk'', ss_layers := [new_layer (from_session ss)]\<rparr>"
  obtain st1 where st1: "session_state service_demo [] ?s1 = Inr st1"
    using service_layer_lists [OF o(1,2), of "[new_layer (from_session ss)]" "[]" ?s1] by auto
  have "service_open_source service_demo [] ''disk'' = Inr (?s1, st1)"
    using o(3) st1 by (simp add: service_open_source_def default_session_def Let_def)
  then have h1: "handle service_demo (Open ''disk'' False) (default_session, service_world) = ((?s1, service_world), Inr (State st1))"
    by (simp add: handle_def handle_open_def service_world_def release_authorized_sources_def bt_retain_def Let_def default_session_def)
  obtain ss2 src2 where o2: "inspect_source_at service_probes (filesystem_file_image service_inner src Exfat ''/A'' 512) (is_image_path ss @ ''!raw:/A'') 0 None = Inr ss2"
      "is_volumes ss2 = [service_volume]" "volume_source ss2 service_volume = Inr src2"
    using service_disk_opens [OF service_child_complete] by blast
  let ?s2 = "?s1\<lparr>ss_layers := [new_layer (from_session ss), new_layer (from_session ss2)]\<rparr>"
  obtain st2 where st2: "session_state service_demo [] ?s2 = Inr st2" "st_can_back st2"
    using service_layer_lists [OF o2(2,3), of "ss_layers ?s2" "[new_layer (from_session ss)]" ?s2] by (auto simp: can_back_def default_session_def)
  have "inspect_child service_inner service_probes (from_session ss) (Some ''raw'') ''/A'' 0 None = Inr (from_session ss2)"
    using ly(3) o2(1) by simp
  then have h2: "handle service_demo (Enter ''A'') (?s1, service_world) = ((?s2, service_world), Inr (State st2))"
    using st2(1) ly(1)
    by (simp add: handle_def handle_enter_def in_session_def or_roll_back_def report_def service_world_def service_demo_simps current_path_def
        child_path_def top_layer_def Let_def)
  show ?thesis using h1 h2 st2
    by (intro exI [of _ ?s1] exI [of _ ?s2] exI [of _ st1] exI [of _ st2]) (simp add: default_session_def)
qed

definition demo_parse :: "byte list \<Rightarrow> request option" where
  "demo_parse line = (if line = [111, 10] then Some (Open ''disk'' False) else if line = [101, 10] then Some (Enter ''A'') else None)"

theorem service_sessions_stay_usable_witness:
  "\<exists>s w replies st. serve service_demo demo_parse (\<lambda>_. ''failed'') [111, 10, 101, 10] (default_session, service_world) = ((s, w), replies, Inr ()) \<and>
     length replies = 2 \<and> length (ss_layers s) = 2 \<and> session_state service_demo (wd_registry w) s = Inr st"
proof -
  obtain s1 s2 st1 st2 where h: "handle service_demo (Open ''disk'' False) (default_session, service_world) = ((s1, service_world), Inr (State st1))"
     "handle service_demo (Enter ''A'') (s1, service_world) = ((s2, service_world), Inr (State st2))" "length (ss_layers s2) = 2"
    using service_two_layers by blast
  have lines: "read_line [111, 10, 101, 10] = [111, 10]" "read_line [101, 10] = [101, 10]" "read_line [] = []"
    by (simp_all add: read_line_def MAX_REQUEST_def Let_def)
  have v: "serve service_demo demo_parse (\<lambda>_. ''failed'') [111, 10, 101, 10] (default_session, service_world) =
      ((s2, service_world), [Answer (State st1), Answer (State st2)], Inr ())"
    by (simp add: serve.simps [of _ _ _ "[111, 10, 101, 10]"] serve.simps [of _ _ _ "[101, 10]"] serve.simps [of _ _ _ "[]"] lines demo_parse_def
        MAX_REQUEST_def reply_of_def h)
  have p: "prompts demo_parse" by (auto simp: prompts_def demo_parse_def is_disk_device_path_def path_components_def is_separator_def)
  have "wd_registry service_world = []" by (simp add: service_world_def)
  from service_sessions_stay_usable [OF p this v] v h(3) show ?thesis by auto
qed

lemma service_reachable:
  "\<exists>s st. reachable service_demo s service_world \<and> session_state service_demo [] s = Inr st \<and> st_can_back st \<and> length (ss_layers s) = 2 \<and> ss_source s = None"
proof -
  obtain s1 s2 st1 st2 st where h: "handle service_demo (Open ''disk'' False) (default_session, service_world) = ((s1, service_world), Inr (State st1))"
     "handle service_demo (Enter ''A'') (s1, service_world) = ((s2, service_world), Inr (State st2))" "length (ss_layers s2) = 2" "ss_source s2 = None"
     "session_state service_demo [] s2 = Inr st" "st_can_back st"
    using service_two_layers by blast
  have "reachable service_demo s1 service_world"
    by (rule reachable.request [OF reachable.start _ h(1)]) (simp_all add: service_world_def proper_def default_session_def)
  then have "reachable service_demo s2 service_world" by (rule reachable.request [OF _ _ h(2)]) (simp add: proper_def)
  then show ?thesis using h by blast
qed


theorem back_closes_one_layer_witness:
  "\<exists>s s' st. length (ss_layers s) = 2 \<and> handle service_demo Back (s, service_world) = ((s', service_world), Inr (State st)) \<and> length (ss_layers s') = 1"
proof -
  obtain s st where s: "reachable service_demo s service_world" "session_state service_demo (wd_registry service_world) s = Inr st" "st_can_back st"
      "length (ss_layers s) = 2"
    using service_reachable by (auto simp: service_world_def)
  from back_closes_one_layer [OF s(1-3)] s(4) show ?thesis by force
qed

end
