(* ===== verification/Cli.thy ===== *)
theory Cli
  imports Service
begin

text \<open>
  The command-line program (\<open>src/src/main.rs\<close>): the commands as \<open>clap\<close> hands them over, the key
  material each of them needs, the calls of the library it makes, and the lines it prints. The command
  line itself is split by \<open>clap\<close>; the value parser the program gives it is \<open>parse_byte_argument\<close>.
\<close>

section \<open>Commands\<close>

record container_key_input =
  ck_container_key_file :: "string option"

record datto_image_input =
  dt_agent_password_file :: "string option"
  dt_key_stash :: "string option"

record image_window =
  iw_image_offset :: u64
  iw_image_length :: "u64 option"

text \<open>The commands with their fields in the order of the source, \<open>output\<close> as the path it names.\<close>

datatype inception_command =
    InceptionInspect string string "string option" "string option" image_window bool
  | InceptionList string string string "string option" "string option" "string option" image_window
  | InceptionExtract string string string string bool "string option" "string option" "string option" image_window
  | InceptionExtractTree string string string string bool "string option" "string option" "string option" image_window

datatype pool_inception_command =
    PoolInceptionInspect string string string "string option" image_window bool container_key_input datto_image_input
  | PoolInceptionList string string string string "string option" "string option" image_window container_key_input datto_image_input
  | PoolInceptionExtract string string string string string bool "string option" "string option" image_window container_key_input datto_image_input
  | PoolInceptionExtractTree string string string string string bool "string option" "string option" image_window container_key_input datto_image_input

datatype pool_command =
    PoolInspect string bool container_key_input
  | PoolDatasets string container_key_input
  | PoolSnapshots string "string option" bool container_key_input
  | PoolList string string string "string option" container_key_input
  | PoolExtract string string string string bool "string option" container_key_input
  | PoolExtractTree string string string string bool "string option" container_key_input
  | PoolInception pool_inception_command

datatype command =
    Inspect string bool
  | Snapshots string bool
  | List string string "string option" "string option"
  | Extract string string string bool "string option" "string option"
  | ExtractTree string string string bool "string option" "string option"
  | Apply string string "string option"
  | Inception inception_command
  | Pool pool_command

text \<open>The values the program prints as JSON.\<close>

datatype json_document =
    JsonInspection inspection
  | JsonSnapshots "begin_record list"
  | JsonPool pool_inspection
  | JsonPoolSnapshots "pool_snapshot list"
  | JsonSession string u64 u64 disk_container_kind u64 "volume_info list"

text \<open>What the program uses besides the library: the printer of \<open>serde_json\<close>, the time-zone data,
  whether standard input is a terminal, and the password prompt.\<close>

record ('f, 'r, 'l, 'i, 'v, 't, 'z) cli_env =
  cl_client :: "('f, 'r, 'l, 'i, 'v) client_env"
  cl_inner :: inner_lib
  cl_chrono :: "('t, 'z) chrono"
  cl_json :: "json_document \<Rightarrow> string result"
  cl_terminal :: bool
  cl_prompt :: "string \<Rightarrow> string result"

abbreviation cl_stream :: "('f, 'r, 'l, 'i, 'v, 't, 'z) cli_env \<Rightarrow> string \<Rightarrow> byte_source option" where
  "cl_stream cl \<equiv> ce_stream (cl_client cl)"

abbreviation cl_lib :: "('f, 'r, 'l, 'i, 'v, 't, 'z) cli_env \<Rightarrow> ('r, 'l, 'i, 'v) pool_lib" where
  "cl_lib cl \<equiv> ce_lib (cl_client cl)"

section \<open>Byte counts\<close>

definition parse_byte_argument :: "string \<Rightarrow> string + u64" where
  "parse_byte_argument v =
     (let compact = filter (\<lambda>c. c \<noteq> CHR ''_'') (trim v) in
      if compact = [] then Inl ''byte count cannot be empty''
      else ok_or (case (case strip_prefix ''0x'' compact of Some hex \<Rightarrow> Some hex | None \<Rightarrow> strip_prefix ''0X'' compact) of
             Some hex \<Rightarrow> from_str_radix 16 hex
           | None \<Rightarrow> from_str_radix 10 compact)
         ''{value:?} is not a byte count (use decimal or 0x hexadecimal)'')"

section \<open>Key material\<close>

definition load_optional_secret_file ::
  "('f, 'r, 'l, 'i, 'v, 't, 'z) cli_env \<Rightarrow> string option \<Rightarrow> nat \<Rightarrow> byte list option result" where
  "load_optional_secret_file cl path maximum_size =
     (case path of
        None \<Rightarrow> Inr None
      | Some path \<Rightarrow>
          and_then (map_err (\<lambda>_. Bail ''opening {label} file {}'') (ce_key_file (cl_client cl) path)) (\<lambda>read.
          and_then (map_err (\<lambda>_. Bail ''reading {label} file {}'') (read (maximum_size + 1))) (\<lambda>material.
          if length material > maximum_size then Inl (Bail ''{label} file {} is too large'')
          else Inr (Some (strip_newline material)))))"

definition key_file_limit :: "string \<Rightarrow> nat result" where
  "key_file_limit format =
     (if format = ''raw'' then Inr 66 else if format = ''hex'' then Inr 66 else if format = ''passphrase'' then Inr 514
      else Inl (Panic ''encryption requirement validates the key format''))"

definition load_key_for_requirement ::
  "('f, 'r, 'l, 'i, 'v, 't, 'z) cli_env \<Rightarrow> encryption_requirement option \<Rightarrow> string option \<Rightarrow> byte list option result" where
  "load_key_for_requirement cl requirement key_file =
     (case requirement of
        None \<Rightarrow> if key_file \<noteq> None then Inl (Bail ''--key-file is only valid for an encrypted source'') else Inr None
      | Some requirement \<Rightarrow>
          (case key_file of
             Some path \<Rightarrow>
               and_then (key_file_limit (er_key_format requirement)) (\<lambda>maximum_size.
               and_then (map_err (\<lambda>_. Bail ''reading ZFS key file {}: {error}'') (ce_key_file (cl_client cl) path)) (\<lambda>read.
               and_then (map_err (\<lambda>_. Bail ''reading ZFS key file {}: {error}'') (read (maximum_size + 1))) (\<lambda>material.
               if length material > maximum_size then Inl (Bail ''ZFS {} key file {} is too large'')
               else and_then (normalize_key_file_material (er_key_format requirement) material) (\<lambda>material. Inr (Some material)))))
           | None \<Rightarrow>
               if er_key_format requirement = ''raw''
               then Inl (Bail ''dataset uses a binary raw key; provide its 32-byte file with --key-file'')
               else if \<not> cl_terminal cl
               then Inl (Bail ''encrypted source requires --key-file when standard input is not an interactive terminal'')
               else and_then (cl_prompt cl (''ZFS '' @ er_key_format requirement @ '' for '' @ er_dataset_name requirement @ '': ''))
                 (\<lambda>material. Inr (Some (bytes_of_chars material)))))"

definition load_key_material ::
  "('f, 'r, 'l, 'i, 'v, 't, 'z) cli_env \<Rightarrow> string \<Rightarrow> string option \<Rightarrow> string option \<Rightarrow> byte list option result" where
  "load_key_material cl stream snapshot key_file =
     and_then (encryption_requirement_of (cl_stream cl stream) snapshot) (\<lambda>requirement. load_key_for_requirement cl requirement key_file)"

definition load_apply_key_material ::
  "('f, 'r, 'l, 'i, 'v, 't, 'z) cli_env \<Rightarrow> string \<Rightarrow> string option \<Rightarrow> byte list option result" where
  "load_apply_key_material cl stream key_file =
     and_then (apply_encryption_requirement (cl_stream cl stream)) (\<lambda>requirement. load_key_for_requirement cl requirement key_file)"

definition load_pool_key_material ::
  "('f, 'r, 'l, 'i, 'v, 't, 'z) cli_env \<Rightarrow> pool_member \<Rightarrow> string \<Rightarrow> string option \<Rightarrow> byte list option result" where
  "load_pool_key_material cl pool dataset key_file =
     and_then (pool_encryption_requirement (cl_lib cl) pool dataset) (\<lambda>requirement. load_key_for_requirement cl requirement key_file)"

definition cli_open_pool_member ::
  "('f, 'r, 'l, 'i, 'v, 't, 'z) cli_env \<Rightarrow> string \<Rightarrow> container_key_input \<Rightarrow> pool_member result" where
  "cli_open_pool_member cl member input =
     and_then (load_optional_secret_file cl (ck_container_key_file input) 4096) (\<lambda>key.
     open_with_container_key (se_pool (ce_session (cl_client cl))) member key)"

section \<open>Printing\<close>

definition tabbed :: "string list \<Rightarrow> string" where
  "tabbed columns = join [CHR 0x09] columns"

definition display_u64 :: "u64 \<Rightarrow> string" where
  "display_u64 n = display_nat (unat n)"

definition entry_line :: "directory_entry \<Rightarrow> string" where
  "entry_line entry =
     tabbed [if de_dirent_type entry = 4 then ''d'' else if de_dirent_type entry = 8 then ''f''
               else if de_dirent_type entry = 10 then ''l'' else ''?'',
             (case de_logical_size entry of None \<Rightarrow> ''-'' | Some v \<Rightarrow> display_u64 v),
             display_u64 (de_object_id entry), de_name entry]"

definition print_directory :: "directory_entry list \<Rightarrow> string list" where
  "print_directory entries = map entry_line entries"

definition print_tree_extraction :: "string \<Rightarrow> recursive_extraction \<Rightarrow> string list" where
  "print_tree_extraction output_path x =
     (''extracted '' @ display_u64 (rx_files x) @ '' file'' @ (if rx_files x = 1 then [] else ''s'') @ '' in '' @
      display_u64 (rx_directories x) @ '' director'' @ (if rx_directories x = 1 then ''y'' else ''ies'') @ '' ('' @
      display_u64 (rx_logical_bytes x) @ '' logical bytes) to '' @ output_path) #
     (if rx_skipped_entries x \<noteq> 0
      then [''skipped '' @ display_u64 (rx_skipped_entries x) @ '' symlink or unsupported special entr'' @
            (if rx_skipped_entries x = 1 then ''y'' else ''ies'')]
      else [])"

definition volume_lines :: "volume_info \<Rightarrow> string list" where
  "volume_lines v =
     tabbed [vi_selector v, (case vi_filesystem v of None \<Rightarrow> ''unknown'' | Some fs \<Rightarrow> display_filesystem fs),
       display_u64 (vi_offset v), display_u64 (vi_length v), vi_partition_type v, vi_name v] #
     (case vi_diagnostic v of None \<Rightarrow> [] | Some diagnostic \<Rightarrow> [''  note: '' @ diagnostic])"

definition print_inception_inspection ::
  "('f, 'r, 'l, 'i, 'v, 't, 'z) cli_env \<Rightarrow> inception_session \<Rightarrow> bool \<Rightarrow> string list result" where
  "print_inception_inspection cl ss json =
     (if json then
        and_then (cl_json cl (JsonSession (is_image_path ss) (is_image_offset ss) (is_stored_size ss) (is_container ss)
          (is_disk_size ss) (is_volumes ss))) (\<lambda>text. Inr [text])
      else Inr ([''image: '' @ is_image_path ss, ''image offset: '' @ display_u64 (is_image_offset ss),
          ''stored bytes: '' @ display_u64 (is_stored_size ss), ''container: '' @ display_container (is_container ss),
          ''virtual disk bytes: '' @ display_u64 (is_disk_size ss), ''volumes: '' @ display_nat (length (is_volumes ss))] @
        concat (map volume_lines (is_volumes ss))))"

definition extracted_line :: "u64 \<Rightarrow> u64 \<Rightarrow> string \<Rightarrow> string \<Rightarrow> string" where
  "extracted_line logical_size object_id output_path sha256 =
     ''extracted '' @ display_u64 logical_size @ '' bytes from object '' @ display_u64 object_id @ '' to '' @ output_path @
     '' (sha256 '' @ sha256 @ '')''"

definition nested_line :: "nested_extraction \<Rightarrow> string \<Rightarrow> string" where
  "nested_line x output_path =
     ''extracted '' @ display_u64 (ns_logical_size x) @ '' bytes from '' @ display_filesystem (ns_filesystem x) @ '' volume '' @
     ns_volume x @ '' to '' @ output_path @ '' (sha256 '' @ ns_sha256 x @ '')''"

definition is_raw :: "begin_record \<Rightarrow> bool" where
  "is_raw s \<longleftrightarrow> bg_features s AND FEATURE_RAW \<noteq> 0"

definition inspection_lines ::
  "('f, 'r, 'l, 'i, 'v, 't, 'z) cli_env \<Rightarrow> 'z snapshot_time_zone \<Rightarrow> inspection \<Rightarrow> string list" where
  "inspection_lines cl zone inspection =
     (''snapshots: '' @ display_nat (length (in_snapshots inspection))) #
     concat (map (\<lambda>s.
       (''snapshot: '' @ bg_dataset_name s @ '' ('' @ (if is_raw s then ''raw encrypted'' else ''plain'') @ '', to '' @
        guid_string (bg_to_guid s) @ '', from '' @ guid_string (bg_from_guid s) @ '')'') #
       (case format_time (cl_chrono cl) zone (bg_creation_time s) of None \<Rightarrow> [] | Some time \<Rightarrow> [''  created: '' @ time]))
       (in_snapshots inspection)) @
     [''stream bytes: '' @ display_u64 (in_stream_bytes inspection)] @
     map (\<lambda>(name, count). name @ '': '' @ display_u64 count) (in_records inspection)"

definition time_or_unavailable :: "('f, 'r, 'l, 'i, 'v, 't, 'z) cli_env \<Rightarrow> 'z snapshot_time_zone \<Rightarrow> u64 \<Rightarrow> string" where
  "time_or_unavailable cl zone timestamp =
     (case format_time (cl_chrono cl) zone timestamp of None \<Rightarrow> ''Time unavailable'' | Some time \<Rightarrow> time)"

definition snapshot_line ::
  "('f, 'r, 'l, 'i, 'v, 't, 'z) cli_env \<Rightarrow> 'z snapshot_time_zone \<Rightarrow> begin_record \<Rightarrow> string" where
  "snapshot_line cl zone s =
     tabbed [if bg_from_guid s = 0 then ''full'' else ''incremental'', if is_raw s then ''raw'' else ''plain'',
       guid_string (bg_to_guid s), guid_string (bg_from_guid s), bg_dataset_name s, time_or_unavailable cl zone (bg_creation_time s)]"

definition pool_inspection_lines :: "pool_inspection \<Rightarrow> string list" where
  "pool_inspection_lines p =
     [''pool: '' @ pi_pool_name p, ''backup format: '' @ pi_backup_format p] @
     (case pi_container_encryption p of None \<Rightarrow> [] | Some encryption \<Rightarrow> [''container: '' @ encryption]) @
     [''pool guid: '' @ pi_pool_guid p,
      ''vdev: '' @ pi_vdev_guid p @ '' ('' @ pi_vdev_type p @ '', '' @ display_u64 (pi_top_level_vdevs p) @ '' top-level)'',
      ''member bytes: '' @ display_u64 (pi_source_bytes p), ''active txg: '' @ display_u64 (pi_txg p),
      ''byte order: '' @ pi_endian p, ''datasets: '' @ display_nat (pi_datasets p), ''snapshots: '' @ display_nat (pi_snapshots p)]"

definition pool_snapshot_line ::
  "('f, 'r, 'l, 'i, 'v, 't, 'z) cli_env \<Rightarrow> 'z snapshot_time_zone \<Rightarrow> pool_snapshot \<Rightarrow> string" where
  "pool_snapshot_line cl zone s =
     tabbed [ps_guid s, display_u64 (ps_creation_txg s), display_u64 (ps_creation_time s), ps_full_name s,
       time_or_unavailable cl zone (ps_creation_time s)]"

definition pool_extraction_lines :: "string \<Rightarrow> pool_extraction \<Rightarrow> string list" where
  "pool_extraction_lines output_path x =
     extracted_line (px_logical_size x) (px_object_id x) output_path (px_sha256 x) #
     (if \<not> px_sidecar_written x
      then [''note: current-head extraction has no incremental-send sidecar; select a named snapshot to create one'']
      else [])"

section \<open>Running a command\<close>

text \<open>A command returns the files it leaves and the lines it printed, or its error. Everything before the
  last call of the library only reads.\<close>

type_synonym cli_outcome = "tree_fs \<times> string list result"

definition only_reads :: "string list result \<Rightarrow> tree_fs \<Rightarrow> cli_outcome" where
  "only_reads r fs = (fs, r)"

definition printing :: "('x \<Rightarrow> string list) \<Rightarrow> tree_fs \<times> 'x result \<Rightarrow> cli_outcome" where
  "printing lines_of = (\<lambda>(fs, r). (fs, and_then r (\<lambda>x. Inr (lines_of x))))"

text \<open>An operation on single files, which are the destination and its sidecar.\<close>

definition on_files :: "bool \<Rightarrow> string \<Rightarrow> (disk \<Rightarrow> disk \<times> 'x result) \<Rightarrow> tree_fs \<Rightarrow> tree_fs \<times> 'x result" where
  "on_files windows destination f fs =
     (let (disk, r) = f (files_of windows fs) in (store_files windows [destination, sidecar_path destination] disk fs, r))"

definition cl_windows :: "('f, 'r, 'l, 'i, 'v, 't, 'z) cli_env \<Rightarrow> bool" where
  "cl_windows cl = te_windows (ce_tree (cl_client cl))"

definition extract_from_session ::
  "('f, 'r, 'l, 'i, 'v, 't, 'z) cli_env \<Rightarrow> string option \<Rightarrow> string \<Rightarrow> string \<Rightarrow> bool \<Rightarrow> inception_session \<Rightarrow> tree_fs \<Rightarrow> cli_outcome" where
  "extract_from_session cl volume path destination force ss fs =
     printing (\<lambda>x. [nested_line x destination])
       (on_files (cl_windows cl) destination
         (session_extract (cl_inner cl) (ce_env (cl_client cl)) ss volume path destination force) fs)"

definition extract_tree_from_session ::
  "('f, 'r, 'l, 'i, 'v, 't, 'z) cli_env \<Rightarrow> string option \<Rightarrow> string \<Rightarrow> string \<Rightarrow> bool \<Rightarrow> inception_session \<Rightarrow> tree_fs \<Rightarrow> cli_outcome" where
  "extract_tree_from_session cl volume path destination force ss fs =
     printing (print_tree_extraction destination)
       (session_extract_tree (cl_inner cl) (ce_env (cl_client cl)) (ce_tree (cl_client cl)) ss volume path
         (path_components (cl_windows cl) destination) force fs)"

definition open_send_image ::
  "('f, 'r, 'l, 'i, 'v, 't, 'z) cli_env \<Rightarrow> string \<Rightarrow> string option \<Rightarrow> string \<Rightarrow> string option \<Rightarrow> image_window \<Rightarrow> inception_session result" where
  "open_send_image cl stream snapshot image_path key_file window =
     and_then (load_key_material cl stream snapshot key_file) (\<lambda>key.
     from_send_at (ce_session (cl_client cl)) stream snapshot image_path key (iw_image_offset window) (iw_image_length window))"

definition run_inception :: "('f, 'r, 'l, 'i, 'v, 't, 'z) cli_env \<Rightarrow> inception_command \<Rightarrow> tree_fs \<Rightarrow> cli_outcome" where
  "run_inception cl cmd fs =
     (case cmd of
        InceptionInspect stream img snapshot key_file window json \<Rightarrow>
          only_reads (and_then (open_send_image cl stream snapshot img key_file window) (\<lambda>ss. print_inception_inspection cl ss json)) fs
      | InceptionList stream img path snapshot key_file volume window \<Rightarrow>
          only_reads (and_then (open_send_image cl stream snapshot img key_file window) (\<lambda>ss.
            and_then (session_list_directory (cl_inner cl) ss volume path) (\<lambda>entries. Inr (print_directory entries)))) fs
      | InceptionExtract stream img path destination force snapshot key_file volume window \<Rightarrow>
          run_on (and_then (open_send_image cl stream snapshot img key_file window) (\<lambda>ss.
            Inr (extract_from_session cl volume path destination force ss))) fs
      | InceptionExtractTree stream img path destination force snapshot key_file volume window \<Rightarrow>
          run_on (and_then (open_send_image cl stream snapshot img key_file window) (\<lambda>ss.
            Inr (extract_tree_from_session cl volume path destination force ss))) fs)"

definition open_pool_image ::
  "('f, 'r, 'l, 'i, 'v, 't, 'z) cli_env \<Rightarrow> string \<Rightarrow> string \<Rightarrow> string \<Rightarrow> string option \<Rightarrow> image_window \<Rightarrow> container_key_input \<Rightarrow>
   datto_image_input \<Rightarrow> inception_session result" where
  "open_pool_image cl member dataset image_path key_file window container datto =
     and_then (cli_open_pool_member cl member container) (\<lambda>pool.
     and_then (load_pool_key_material cl pool dataset key_file) (\<lambda>key.
     and_then (load_optional_secret_file cl (dt_agent_password_file datto) 4096) (\<lambda>agent_password.
     from_pool_member_at_with_keys (ce_session (cl_client cl)) pool dataset image_path key agent_password (dt_key_stash datto)
       (iw_image_offset window) (iw_image_length window))))"

definition run_pool_inception :: "('f, 'r, 'l, 'i, 'v, 't, 'z) cli_env \<Rightarrow> pool_inception_command \<Rightarrow> tree_fs \<Rightarrow> cli_outcome" where
  "run_pool_inception cl cmd fs =
     (case cmd of
        PoolInceptionInspect member dataset img key_file window json container datto \<Rightarrow>
          only_reads (and_then (open_pool_image cl member dataset img key_file window container datto)
            (\<lambda>ss. print_inception_inspection cl ss json)) fs
      | PoolInceptionList member dataset img path key_file volume window container datto \<Rightarrow>
          only_reads (and_then (open_pool_image cl member dataset img key_file window container datto) (\<lambda>ss.
            and_then (session_list_directory (cl_inner cl) ss volume path) (\<lambda>entries. Inr (print_directory entries)))) fs
      | PoolInceptionExtract member dataset img path destination force key_file volume window container datto \<Rightarrow>
          run_on (and_then (open_pool_image cl member dataset img key_file window container datto) (\<lambda>ss.
            Inr (extract_from_session cl volume path destination force ss))) fs
      | PoolInceptionExtractTree member dataset img path destination force key_file volume window container datto \<Rightarrow>
          run_on (and_then (open_pool_image cl member dataset img key_file window container datto) (\<lambda>ss.
            Inr (extract_tree_from_session cl volume path destination force ss))) fs)"

text \<open>The commands on a dataset of a pool: the member, then the key, then the operation.\<close>

definition on_dataset ::
  "('f, 'r, 'l, 'i, 'v, 't, 'z) cli_env \<Rightarrow> string \<Rightarrow> container_key_input \<Rightarrow> string \<Rightarrow> string option \<Rightarrow>
   (pool_member \<Rightarrow> byte list option \<Rightarrow> 'x result) \<Rightarrow> 'x result" where
  "on_dataset cl member container dataset key_file f =
     and_then (cli_open_pool_member cl member container) (\<lambda>pool.
     and_then (load_pool_key_material cl pool dataset key_file) (\<lambda>key. f pool key))"

definition run_pool :: "('f, 'r, 'l, 'i, 'v, 't, 'z) cli_env \<Rightarrow> 'z snapshot_time_zone \<Rightarrow> pool_command \<Rightarrow> tree_fs \<Rightarrow> cli_outcome" where
  "run_pool cl zone cmd fs =
     (case cmd of
        PoolInspect member json container \<Rightarrow>
          only_reads (and_then (cli_open_pool_member cl member container) (\<lambda>pool.
            and_then (pool_inspect (cl_lib cl) pool) (\<lambda>inspection.
            if json then and_then (cl_json cl (JsonPool inspection)) (\<lambda>text. Inr [text])
            else Inr (pool_inspection_lines inspection)))) fs
      | PoolDatasets member container \<Rightarrow>
          only_reads (and_then (cli_open_pool_member cl member container) (\<lambda>pool.
            and_then (datasets (cl_lib cl) pool) (\<lambda>ds.
            Inr (map (\<lambda>d. tabbed [di_head_guid d, display_u64 (di_head_dataset_object d), di_name d]) ds)))) fs
      | PoolSnapshots member dataset json container \<Rightarrow>
          only_reads (and_then (cli_open_pool_member cl member container) (\<lambda>pool.
            and_then (pool_snapshots (cl_lib cl) pool dataset) (\<lambda>snapshots.
            if json then and_then (cl_json cl (JsonPoolSnapshots snapshots)) (\<lambda>text. Inr [text])
            else Inr (map (pool_snapshot_line cl zone) snapshots)))) fs
      | PoolList member dataset path key_file container \<Rightarrow>
          only_reads (on_dataset cl member container dataset key_file (\<lambda>pool key.
            and_then (pool_list_directory_with_key (cl_lib cl) pool dataset key path) (\<lambda>entries. Inr (print_directory entries)))) fs
      | PoolExtract member dataset path destination force key_file container \<Rightarrow>
          run_on (on_dataset cl member container dataset key_file (\<lambda>pool key. Inr (\<lambda>fs.
            printing (pool_extraction_lines destination) (on_files (cl_windows cl) destination
              (pool_extract_with_key (cl_lib cl) pool (ce_env (cl_client cl)) (ce_remove (cl_client cl)) dataset path destination force key) fs)))) fs
      | PoolExtractTree member dataset path destination force key_file container \<Rightarrow>
          run_on (on_dataset cl member container dataset key_file (\<lambda>pool key. Inr (\<lambda>fs.
            printing (print_tree_extraction destination)
              (extract_tree_with_key (cl_lib cl) pool (ce_env (cl_client cl)) (ce_tree (cl_client cl)) dataset path
                (path_components (cl_windows cl) destination) force key fs)))) fs
      | PoolInception cmd \<Rightarrow> run_pool_inception cl cmd fs)"

text \<open>Updating a file; \<open>None\<close> when copying the target does not return.\<close>

definition apply_lines :: "sidecar \<Rightarrow> string list" where
  "apply_lines sc = [''updated '' @ sc_path sc @ '' to '' @ display_u64 (sc_logical_size sc) @ '' bytes at '' @
     sc_snapshot_guid sc @ '' (sha256 '' @ sc_sha256 sc @ '')'']"

definition run_apply :: "('f, 'r, 'l, 'i, 'v, 't, 'z) cli_env \<Rightarrow> string \<Rightarrow> string \<Rightarrow> string option \<Rightarrow> tree_fs \<Rightarrow> cli_outcome option" where
  "run_apply cl stream target key_file fs =
     (case load_apply_key_material cl stream key_file of
        Inl e \<Rightarrow> Some (fs, Inl e)
      | Inr key \<Rightarrow>
          map_option (\<lambda>(disk, r).
              printing apply_lines (store_files (cl_windows cl) [target, sidecar_path target] disk fs, r))
            (apply_incremental_with_key (pl_crypto (cl_lib cl)) (pl_codecs (cl_lib cl)) (ce_env (cl_client cl)) (cl_stream cl stream)
              target key (files_of (cl_windows cl) fs)))"

definition cli_main ::
  "('f, 'r, 'l, 'i, 'v, 't, 'z) cli_env \<Rightarrow> 'z snapshot_time_zone \<Rightarrow> command \<Rightarrow> tree_fs \<Rightarrow> cli_outcome option" where
  "cli_main cl zone cmd fs =
     (let lib = cl_lib cl; ev = ce_env (cl_client cl) in
      case cmd of
        Inspect stream json \<Rightarrow>
          Some (only_reads (and_then (inspect_stream (cl_stream cl stream)) (\<lambda>inspection.
            if json then and_then (cl_json cl (JsonInspection inspection)) (\<lambda>text. Inr [text])
            else Inr (inspection_lines cl zone inspection))) fs)
      | Snapshots stream json \<Rightarrow>
          Some (only_reads (and_then (snapshot_headers (cl_stream cl stream)) (\<lambda>snapshots.
            if json then and_then (cl_json cl (JsonSnapshots snapshots)) (\<lambda>text. Inr [text])
            else Inr (map (snapshot_line cl zone) snapshots))) fs)
      | List stream path snapshot key_file \<Rightarrow>
          Some (only_reads (and_then (load_key_material cl stream snapshot key_file) (\<lambda>key.
            and_then (list_directory_snapshot_with_key (pl_zpl lib) (pl_crypto lib) (pl_codecs lib) (cl_stream cl stream) path snapshot key)
              (\<lambda>entries. Inr (print_directory entries)))) fs)
      | Extract stream path destination force snapshot key_file \<Rightarrow>
          Some (run_on (and_then (load_key_material cl stream snapshot key_file) (\<lambda>key. Inr (\<lambda>fs.
            printing (\<lambda>sc. [extracted_line (sc_logical_size sc) (sc_object_id sc) destination (sc_sha256 sc)])
              (on_files (cl_windows cl) destination
                (extract_snapshot_with_key (pl_zpl lib) (pl_crypto lib) (pl_codecs lib) ev (cl_stream cl stream) path destination force snapshot key) fs)))) fs)
      | ExtractTree stream path destination force snapshot key_file \<Rightarrow>
          Some (run_on (and_then (load_key_material cl stream snapshot key_file) (\<lambda>key. Inr (\<lambda>fs.
            printing (print_tree_extraction destination)
              (extract_tree_snapshot_with_key (pl_zpl lib) (pl_crypto lib) (pl_codecs lib) ev (ce_tree (cl_client cl)) (cl_stream cl stream) path
                (path_components (cl_windows cl) destination) force snapshot key fs)))) fs)
      | Apply stream target key_file \<Rightarrow> run_apply cl stream target key_file fs
      | Inception cmd \<Rightarrow> Some (run_inception cl cmd fs)
      | Pool cmd \<Rightarrow> Some (run_pool cl zone cmd fs))"

end
