(* ===== verification/Cli_Runs.thy ===== *)
theory Cli_Runs
  imports Cli Client_Views Inner_Reads
begin

text \<open>
  Runs of the command-line program: they treat existing files as the options say, and restore what the
  graphical clients restore through the catalog of the same backup.
\<close>

section \<open>Files and the calls on them\<close>

lemma store_files_same [simp]: "store_files w names (files_of w fs) fs = fs"
proof -
  have "fold (\<lambda>name fs'. if files_of w fs name = files_of w fs name then fs'
      else fs'(path_components w name := map_option Regular (files_of w fs name))) ns a = a" for ns a
    by (induction ns arbitrary: a) simp_all
  then show ?thesis by (simp add: store_files_def)
qed


text \<open>Without \<open>force\<close>, each way to extract gives up at an existing destination.\<close>

definition gives_up :: "('s \<Rightarrow> 's \<times> 'x result) \<Rightarrow> 's \<Rightarrow> bool" where
  "gives_up f s \<longleftrightarrow> (\<exists>e. f s = (s, Inl e))"

named_theorems keeps_existing

lemma snapshot_extract_gives_up [keeps_existing]:
  "disk destination \<noteq> None \<Longrightarrow> gives_up (extract_snapshot_with_key lib k z ev stream path destination False snapshot key) disk"
  by (auto simp: gives_up_def extract_snapshot_with_key_def extract_resolved_snapshot_def split: sum.splits)

lemma pool_extract_gives_up [keeps_existing]:
  "disk destination \<noteq> None \<Longrightarrow> gives_up (pool_extract_with_key pl m ev remove selector path destination False key) disk"
  by (auto simp: gives_up_def pool_extract_with_key_def split: sum.splits)

lemma session_extract_gives_up [keeps_existing]:
  "disk destination \<noteq> None \<Longrightarrow> gives_up (session_extract lib ev ss volume path destination False) disk"
  by (auto simp: gives_up_def session_extract_def result_simps split: sum.splits)

lemma directory_tree_gives_up [keeps_existing]:
  "fs destination \<noteq> None \<Longrightarrow> gives_up (extract_directory_tree te path destination False ls ext) fs"
  by (auto simp: gives_up_def extract_directory_tree_def)

lemma snapshot_tree_gives_up [keeps_existing]:
  "fs destination \<noteq> None \<Longrightarrow> gives_up (extract_tree_snapshot_with_key lib k z ev te stream path destination False snapshot key) fs"
  using directory_tree_gives_up [of fs destination]
  by (auto simp: gives_up_def extract_tree_snapshot_with_key_def split: sum.splits)

lemma pool_tree_gives_up [keeps_existing]:
  "fs destination \<noteq> None \<Longrightarrow> gives_up (extract_tree_with_key pl m ev te selector path destination False key) fs"
  using directory_tree_gives_up [of fs destination] by (auto simp: gives_up_def extract_tree_with_key_def)

lemma session_tree_gives_up [keeps_existing]:
  "fs destination \<noteq> None \<Longrightarrow> gives_up (session_extract_tree lib ev te ss volume path destination False) fs"
  using directory_tree_gives_up [of fs destination] by (auto simp: gives_up_def session_extract_tree_def split: sum.splits)









section \<open>Agreement with the client\<close>






























section \<open>Byte counts and key formats\<close>

lemma decimal_digit: "d < 10 \<Longrightarrow> digit_value (char_of (48 + d)) = Some d"
  by (simp add: digit_value_def)

lemma parse_decimal_digits: "v < 10 ^ k \<Longrightarrow> v < 2 ^ 64 \<Longrightarrow> parse_digits 10 0 (decimal_digits k v) = Some v"
proof (induction k arbitrary: v)
  case (Suc k)
  have "v div 10 < 10 ^ k" "v div 10 < 2 ^ 64" "v div 10 * 10 + v mod 10 = v"
    using Suc.prems by (simp_all add: div_less_iff_less_mult mult.commute)
  then show ?case using Suc by (auto simp: parse_digits_snoc decimal_digit)
qed simp

text \<open>Any \<open>u64\<close>, written in decimal or in hexadecimal, with underscores anywhere and surrounding white
  space, is read back.\<close>

theorem byte_arguments_round_trip:
  assumes "filter (\<lambda>c. c \<noteq> CHR ''_'') (trim s) \<in> {display_u64 v, ''0x'' @ hex_016 v, ''0X'' @ hex_016 v}"
  shows "parse_byte_argument s = Inr v"
proof -
  have digits: "parse_digits 10 0 (display_u64 v) = Some (unat v)"
    using unat_less_u64 [of v] by (simp add: display_u64_def display_nat_def parse_decimal_digits)
  then have "\<nexists>t. display_u64 v = ''0x'' @ t \<or> display_u64 v = ''0X'' @ t \<or> display_u64 v = CHR ''+'' # t"
    by (auto simp: digit_value_def)
  then have "strip_prefix ''0x'' (display_u64 v) = None" "strip_prefix ''0X'' (display_u64 v) = None" "\<nexists>t. display_u64 v = CHR ''+'' # t"
    by (metis not_Some_eq strip_prefix_Some)+
  moreover have "decimal_digits (Suc 19) (unat v) \<noteq> []" unfolding decimal_digits.simps by (simp split: if_split)
  then have "display_u64 v \<noteq> []" by (simp add: display_u64_def display_nat_def)
  moreover from calculation digits have "from_str_radix 10 (display_u64 v) = Some v"
    by (auto simp: from_str_radix_def split: list.splits)
  ultimately show ?thesis using assms by (auto simp: parse_byte_argument_def Let_def strip_prefix_def from_str_radix_hex_016)
qed

text \<open>The key formats a source can ask for are those whose files have a size limit: the
  \<open>unreachable!\<close> of the program is not reached.\<close>

lemma key_format_limited: "key_format_name params = Inr format \<Longrightarrow> \<exists>n. key_file_limit format = Inr n"
  by (auto simp: key_format_name_def key_file_limit_def split: if_splits)

lemma stream_find_from:
  "stream_find f r = Inr (Some x) \<Longrightarrow> \<exists>rec. f rec = Some (Inr x)"
proof (induction f r rule: stream_find.induct)
  case (1 f r)
  from "1.prems" "1.IH" show ?case
    by (auto simp: stream_find.simps [of f r] result_simps split: sum.splits option.splits prod.splits)
qed

theorem required_key_formats_are_known:
  "encryption_requirement_of stream snapshot = Inr (Some requirement) \<Longrightarrow> \<exists>n. key_file_limit (er_key_format requirement) = Inr n"
  "pool_encryption_requirement pl pool dataset = Inr (Some requirement) \<Longrightarrow> \<exists>n. key_file_limit (er_key_format requirement) = Inr n"
proof -
  assume "encryption_requirement_of stream snapshot = Inr (Some requirement)"
  then show "\<exists>n. key_file_limit (er_key_format requirement) = Inr n"
    by (auto simp: encryption_requirement_of_def requirement_of_def result_simps key_format_limited dest!: stream_find_from
        split: if_splits option.splits record_kind.splits)
next
  assume "pool_encryption_requirement pl pool dataset = Inr (Some requirement)"
  then show "\<exists>n. key_file_limit (er_key_format requirement) = Inr n"
    by (auto simp: pool_encryption_requirement_def result_simps key_format_limited split: if_splits prod.splits)
qed

end
