(* ===== verification/Explorer.thy ===== *)
theory Explorer
  imports Service
begin

text \<open>
  The Windows desktop program (\<open>src/src/bin/zfs-send-explore-windows/mod.rs\<close>) without its drawing: the
  state of the application, the commands that change it, the jobs it hands to worker threads, and what
  it does with their results. Of the controls the model has those whose contents the program reads
  back: the source path, the address line, the selections of the three lists and the image range. What only
  shows (labels, colours, layout, enabled controls, the texts of dialogs) is left out; the answers of the user to the
  dialogs of one command are the parameter \<open>dialog_answers\<close>. Dialogs are modal, so no command
  arrives while one is open.
\<close>

section \<open>State\<close>

record secret_value =
  sec_material :: "byte list"
  sec_source :: "string option"
  sec_view :: "string option"

record image_frame =
  fr_catalog :: inception_catalog
  fr_parent_path :: "string option"
  fr_parent_volume :: "nat option"

record ui_settings =
  us_auto_open_images :: bool
  us_clear_credentials_on_source_change :: bool
  us_confirm_physical_drive :: bool
  us_show_advanced_image_range :: bool

definition default_settings :: ui_settings where
  "default_settings = \<lparr>us_auto_open_images = True, us_clear_credentials_on_source_change = True, us_confirm_physical_drive = True,
     us_show_advanced_image_range = False\<rparr>"

datatype open_mode = Auto | Image

datatype pending_job = PendingOpen open_mode | PendingBrowse | PendingExtract | PendingExploreImage | PendingUpdate

datatype job_result =
    CatalogOpened source_catalog
  | Directory string "directory_entry list"
  | Extracted string client_extraction bool
  | TreeExtracted string recursive_extraction
  | InceptionOpened inception_catalog "string option" "nat option" bool
  | Updated string sidecar

text \<open>The closures handed to worker threads, by what they capture: the open image with its selected volume if
  there is one, else the catalog with its view and key.\<close>

record job_place =
  jp_inception :: "inception_catalog option"
  jp_volume :: "nat option"
  jp_catalog :: "source_catalog option"
  jp_view :: "nat option"
  jp_key :: "byte list option"

datatype job =
    OpenJob open_mode string "byte list option"
  | BrowseJob job_place string
  | ExtractJob job_place bool string string
  | ExploreJob job_place string "byte list option" u64 "u64 option" string
  | UpdateJob string string "byte list option"

datatype guide = NoGuide | UnlockGuide | OpenImageGuide nat | ChooseVolumeGuide

record app_state =
  ap_guide :: guide
  ap_catalog :: "source_catalog option"
  ap_entries :: "directory_entry list"
  ap_current_path :: string
  ap_keys :: "secret_value list"
  ap_container_key :: "secret_value option"
  ap_agent_password :: "secret_value option"
  ap_inception :: "image_frame list"
  ap_settings :: ui_settings
  ap_busy :: bool
  ap_pending_job :: "pending_job option"
  ap_jobs :: "job list"
  ap_source_path :: string
  ap_path :: string
  ap_view :: "nat option"
  ap_volume :: "nat option"
  ap_selected :: "nat option"
  ap_image_offset :: string
  ap_image_length :: string

definition default_app :: "ui_settings \<Rightarrow> app_state" where
  "default_app settings = \<lparr>ap_guide = NoGuide, ap_catalog = None, ap_entries = [], ap_current_path = ''/'', ap_keys = [], ap_container_key = None,
     ap_agent_password = None, ap_inception = [], ap_settings = settings, ap_busy = False, ap_pending_job = None, ap_jobs = [],
     ap_source_path = [], ap_path = ''/'', ap_view = None, ap_volume = None, ap_selected = None, ap_image_offset = [], ap_image_length = []\<rparr>"

text \<open>A form with a text field and a second button, and the answers to the dialogs of one command: the files
  chosen to open, to save to, to update and to update from, the forms for keys and for a path, the secret file, the
  button of a question, and the drive picked from the list.\<close>

datatype form_result = Submitted string | Secondary | Cancelled

record dialog_answers =
  an_open :: "string option"
  an_save :: "string option"
  an_target :: "string option"
  an_stream :: "string option"
  an_key :: form_result
  an_container :: form_result
  an_agent :: form_result
  an_path :: form_result
  an_secret_file :: "string option"
  an_task :: "nat option"
  an_drive :: "string option"

record ('f, 'r, 'l, 'i, 'v) explorer_env =
  ex_client :: "('f, 'r, 'l, 'i, 'v) client_env"
  ex_inner :: inner_lib
  ex_file_len :: "string \<Rightarrow> io_error + nat"
  ex_read_file :: "string \<Rightarrow> io_error + byte list"

section \<open>Paths and numbers\<close>

definition normalize_entered_path :: "string \<Rightarrow> string" where
  "normalize_entered_path path =
     (let p = map (\<lambda>c. if c = CHR 0x5C then CHR ''/'' else c) (trim path) in if prefix ''/'' p then p else ''/'' @ p)"

text \<open>\<open>Path::extension\<close> on Windows: a device, a server with its share and a drive letter are a prefix that
  belongs to no file name.\<close>

definition is_sep :: "char \<Rightarrow> bool" where
  "is_sep c \<longleftrightarrow> c = CHR ''/'' \<or> c = CHR 0x5C"

definition next_component :: "string \<Rightarrow> string \<times> string" where
  "next_component p = (takeWhile (\<lambda>c. \<not> is_sep c) p, drop 1 (dropWhile (\<lambda>c. \<not> is_sep c) p))"

definition is_drive :: "char \<Rightarrow> char \<Rightarrow> bool" where
  "is_drive a b \<longleftrightarrow> (CHR ''a'' \<le> a \<and> a \<le> CHR ''z'' \<or> CHR ''A'' \<le> a \<and> a \<le> CHR ''Z'') \<and> b = CHR '':''"

definition without_prefix :: "string \<Rightarrow> string" where
  "without_prefix path =
     (case path of
        a # b # c # d # rest \<Rightarrow>
          if is_sep a \<and> is_sep b \<and> (c = CHR ''.'' \<or> c = CHR ''?'') \<and> is_sep d then
            (if c = CHR ''?'' \<and> prefix [CHR ''U'', CHR ''N'', CHR ''C'', CHR 0x5C] rest
             then snd (next_component (snd (next_component (drop 4 rest)))) else snd (next_component rest))
          else if is_sep a \<and> is_sep b then
            (let (server, p) = next_component (c # d # rest); (share, p) = next_component p
             in if server \<noteq> [] \<and> share \<noteq> [] then p else path)
          else if is_drive a b then c # d # rest else path
      | a # b # rest \<Rightarrow> if is_drive a b then rest else path
      | _ \<Rightarrow> path)"

definition path_extension :: "string \<Rightarrow> string" where
  "path_extension path =
     (case rev (filter (\<lambda>c. c \<noteq> [] \<and> c \<noteq> ''.'') (split_separators True (without_prefix path))) of
        [] \<Rightarrow> []
      | name # _ \<Rightarrow>
          if name = ''..'' then []
          else (case rsplit_once CHR ''.'' name of None \<Rightarrow> [] | Some (stem, extension) \<Rightarrow> if stem = [] then [] else extension))"

definition likely_disk_image :: "string \<Rightarrow> bool" where
  "likely_disk_image name \<longleftrightarrow> ascii_lowercase (path_extension name) \<in>
     {''raw'', ''img'', ''dd'', ''qcow'', ''qcow2'', ''vmdk'', ''datto'', ''detto'', ''vhd'', ''vhdx''}"

definition parse_byte_value :: "string \<Rightarrow> bool \<Rightarrow> string + u64 option" where
  "parse_byte_value text empty_is_none =
     (let v = trim text in
      if v = [] then (if empty_is_none then Inr None else Inr (Some 0))
      else and_then (ok_or (case (case strip_prefix ''0x'' v of Some hex \<Rightarrow> Some hex | None \<Rightarrow> strip_prefix ''0X'' v) of
               Some hex \<Rightarrow> from_str_radix 16 hex | None \<Rightarrow> from_str_radix 10 v)
             ''{value:?} is not a valid byte count (decimal or 0x hexadecimal)'') (\<lambda>parsed.
        if empty_is_none \<and> parsed = 0 then Inl ''image length must be greater than zero'' else Inr (Some parsed)))"

section \<open>Sources and credentials\<close>

definition source_open :: "app_state \<Rightarrow> bool" where
  "source_open st \<longleftrightarrow> ap_catalog st \<noteq> None \<or> ap_inception st \<noteq> []"

definition selected_view_of :: "app_state \<Rightarrow> source_view option" where
  "selected_view_of st =
     (case (ap_catalog st, ap_view st) of
        (Some ct, Some i) \<Rightarrow> if i < length (ct_views ct) then Some (ct_views ct ! i) else None
      | _ \<Rightarrow> None)"

definition selected_entry :: "app_state \<Rightarrow> directory_entry option" where
  "selected_entry st =
     (case ap_selected st of None \<Rightarrow> None | Some i \<Rightarrow> if i < length (ap_entries st) then Some (ap_entries st ! i) else None)"

definition active_source_path :: "app_state \<Rightarrow> string option" where
  "active_source_path st =
     (case ap_catalog st of
        Some ct \<Rightarrow> Some (ct_path ct)
      | None \<Rightarrow>
          (case ap_inception st of
             [] \<Rightarrow> None
           | frame # _ \<Rightarrow> if fr_parent_path frame = None then Some (ic_image_path (fr_catalog frame)) else None))"

definition source_box_scope :: "app_state \<Rightarrow> string option" where
  "source_box_scope st = (if ap_source_path st = [] then None else Some (ap_source_path st))"

definition credential_scope :: "app_state \<Rightarrow> string option" where
  "credential_scope st = (case active_source_path st of Some path \<Rightarrow> Some path | None \<Rightarrow> source_box_scope st)"

definition credential_view :: "app_state \<Rightarrow> string option" where
  "credential_view st = map_option sv_selector (selected_view_of st)"

definition secret_applies_to_source :: "secret_value \<Rightarrow> string \<Rightarrow> bool" where
  "secret_applies_to_source secret source \<longleftrightarrow> sec_source secret = None \<or> sec_source secret = Some source"

definition key_applies :: "app_state \<Rightarrow> secret_value \<Rightarrow> bool" where
  "key_applies st key \<longleftrightarrow> (sec_source key = None \<or> credential_scope st = sec_source key) \<and>
     (sec_view key = None \<or> credential_view st = sec_view key)"

definition active_zfs_key :: "app_state \<Rightarrow> secret_value option" where
  "active_zfs_key st = find (key_applies st) (rev (ap_keys st))"

definition store_zfs_key :: "secret_value \<Rightarrow> app_state \<Rightarrow> app_state" where
  "store_zfs_key secret st = st\<lparr>ap_keys :=
     filter (\<lambda>existing. sec_source existing \<noteq> sec_source secret \<or> sec_view existing \<noteq> sec_view secret) (ap_keys st) @ [secret]\<rparr>"

definition remove_active_zfs_key :: "app_state \<Rightarrow> app_state" where
  "remove_active_zfs_key st = st\<lparr>ap_keys := filter (\<lambda>key. \<not> key_applies st key) (ap_keys st)\<rparr>"

definition clear_credentials_silent :: "app_state \<Rightarrow> app_state" where
  "clear_credentials_silent st = st\<lparr>ap_keys := [], ap_container_key := None, ap_agent_password := None\<rparr>"

definition keep_for :: "string \<Rightarrow> secret_value option \<Rightarrow> secret_value option" where
  "keep_for source secret =
     (case secret of Some s \<Rightarrow> if sec_source s \<noteq> Some source then None else Some s | None \<Rightarrow> None)"

definition clear_credentials_for_source :: "string \<Rightarrow> app_state \<Rightarrow> app_state" where
  "clear_credentials_for_source source st = st\<lparr>ap_keys := filter (\<lambda>key. secret_applies_to_source key source) (ap_keys st),
     ap_container_key := keep_for source (ap_container_key st), ap_agent_password := keep_for source (ap_agent_password st)\<rparr>"

definition choose_secret_file ::
  "('f, 'r, 'l, 'i, 'v) explorer_env \<Rightarrow> dialog_answers \<Rightarrow> nat \<Rightarrow> bool \<Rightarrow> byte list option" where
  "choose_secret_file ex an maximum_size trim_newline =
     (case an_secret_file an of
        None \<Rightarrow> None
      | Some path \<Rightarrow>
          (case ex_file_len ex path of
             Inl _ \<Rightarrow> None
           | Inr len \<Rightarrow>
               if len > maximum_size then None
               else (case ex_read_file ex path of
                       Inl _ \<Rightarrow> None
                     | Inr material \<Rightarrow> Some (if trim_newline then strip_newline material else material))))"

text \<open>Each of the following asks for a secret and says whether it was supplied.\<close>

definition store_key_material :: "byte list \<Rightarrow> app_state \<Rightarrow> app_state" where
  "store_key_material material st =
     store_zfs_key \<lparr>sec_material = material, sec_source = credential_scope st, sec_view = credential_view st\<rparr> st"

definition store_container_key :: "byte list \<Rightarrow> app_state \<Rightarrow> app_state" where
  "store_container_key material st =
     st\<lparr>ap_container_key := Some \<lparr>sec_material = material, sec_source = source_box_scope st, sec_view = None\<rparr>\<rparr>"

definition store_agent_password :: "byte list \<Rightarrow> app_state \<Rightarrow> app_state" where
  "store_agent_password material st =
     st\<lparr>ap_agent_password := Some \<lparr>sec_material = material, sec_source = credential_scope st, sec_view = None\<rparr>\<rparr>"

definition supplied :: "(byte list \<Rightarrow> app_state \<Rightarrow> app_state) \<Rightarrow> byte list option \<Rightarrow> app_state \<Rightarrow> app_state \<times> bool" where
  "supplied store material st = (case material of None \<Rightarrow> (st, False) | Some m \<Rightarrow> (store m st, True))"

definition choose_key_file :: "('f, 'r, 'l, 'i, 'v) explorer_env \<Rightarrow> dialog_answers \<Rightarrow> app_state \<Rightarrow> app_state \<times> bool" where
  "choose_key_file ex an = supplied store_key_material (choose_secret_file ex an 514 False)"

definition choose_container_key_file :: "('f, 'r, 'l, 'i, 'v) explorer_env \<Rightarrow> dialog_answers \<Rightarrow> app_state \<Rightarrow> app_state \<times> bool" where
  "choose_container_key_file ex an = supplied store_container_key (choose_secret_file ex an 4096 True)"

definition choose_agent_password_file :: "('f, 'r, 'l, 'i, 'v) explorer_env \<Rightarrow> dialog_answers \<Rightarrow> app_state \<Rightarrow> app_state \<times> bool" where
  "choose_agent_password_file ex an = supplied store_agent_password (choose_secret_file ex an 4096 True)"

text \<open>A prompt without a second button, whose text is taken as it was entered.\<close>

definition prompt_secret :: "form_result \<Rightarrow> byte list option" where
  "prompt_secret form = (case form of Submitted text \<Rightarrow> Some (bytes_of_chars text) | _ \<Rightarrow> None)"

definition enter_key :: "dialog_answers \<Rightarrow> app_state \<Rightarrow> app_state \<times> bool" where
  "enter_key an = supplied store_key_material (prompt_secret (an_key an))"

definition enter_container_key :: "dialog_answers \<Rightarrow> app_state \<Rightarrow> app_state \<times> bool" where
  "enter_container_key an = supplied store_container_key (prompt_secret (an_container an))"

definition enter_agent_password :: "dialog_answers \<Rightarrow> app_state \<Rightarrow> app_state \<times> bool" where
  "enter_agent_password an = supplied store_agent_password (prompt_secret (an_agent an))"

definition request_zfs_key :: "('f, 'r, 'l, 'i, 'v) explorer_env \<Rightarrow> dialog_answers \<Rightarrow> app_state \<Rightarrow> app_state \<times> bool" where
  "request_zfs_key ex an st =
     (case an_key an of
        Submitted text \<Rightarrow> (store_key_material (bytes_of_chars text) st, True)
      | Secondary \<Rightarrow> choose_key_file ex an st
      | Cancelled \<Rightarrow> (st, False))"

definition request_container_key :: "('f, 'r, 'l, 'i, 'v) explorer_env \<Rightarrow> dialog_answers \<Rightarrow> app_state \<Rightarrow> app_state \<times> bool" where
  "request_container_key ex an st =
     (case an_container an of
        Submitted text \<Rightarrow> (store_container_key (bytes_of_chars text) st, True)
      | Secondary \<Rightarrow> choose_container_key_file ex an st
      | Cancelled \<Rightarrow> (st, False))"

definition request_agent_password :: "('f, 'r, 'l, 'i, 'v) explorer_env \<Rightarrow> dialog_answers \<Rightarrow> app_state \<Rightarrow> app_state \<times> bool" where
  "request_agent_password ex an st =
     (case an_agent an of
        Submitted text \<Rightarrow> (store_agent_password (bytes_of_chars text) st, True)
      | Secondary \<Rightarrow> choose_agent_password_file ex an st
      | Cancelled \<Rightarrow> (st, False))"

definition ensure_selected_view_key :: "('f, 'r, 'l, 'i, 'v) explorer_env \<Rightarrow> dialog_answers \<Rightarrow> app_state \<Rightarrow> app_state \<times> bool" where
  "ensure_selected_view_key ex an st =
     (if ap_catalog st = None then (st, True)
      else if ap_view st = None then (st, False)
      else case selected_view_of st of
        None \<Rightarrow> (st, True)
      | Some view \<Rightarrow> if \<not> sv_encrypted view \<or> active_zfs_key st \<noteq> None then (st, True) else request_zfs_key ex an st)"

definition selected_view_locked :: "app_state \<Rightarrow> bool" where
  "selected_view_locked st \<longleftrightarrow> ap_inception st = [] \<and> (case selected_view_of st of None \<Rightarrow> False | Some view \<Rightarrow> sv_encrypted view) \<and>
     active_zfs_key st = None"

text \<open>\<open>max_by_key\<close>: the last of the largest.\<close>

definition largest_image :: "app_state \<Rightarrow> nat option" where
  "largest_image st =
     map_option fst (fold (\<lambda>(j, e) best. case best of
         None \<Rightarrow> Some (j, e)
       | Some (i, b) \<Rightarrow> if (case de_logical_size e of Some n \<Rightarrow> n | None \<Rightarrow> 0) \<ge> (case de_logical_size b of Some n \<Rightarrow> n | None \<Rightarrow> 0)
           then Some (j, e) else Some (i, b))
       (filter (\<lambda>(_, e). de_dirent_type e = 8 \<and> likely_disk_image (de_name e)) (enumerate 0 (ap_entries st))) None)"

definition guide_of :: "app_state \<Rightarrow> guide" where
  "guide_of st =
     (if \<not> source_open st \<or> ap_busy st then NoGuide
      else if selected_view_locked st then UnlockGuide
      else if ap_inception st = [] \<and> largest_image st \<noteq> None then OpenImageGuide (the (largest_image st))
      else if ap_inception st \<noteq> [] \<and>
        length (filter (\<lambda>v. vi_filesystem v \<noteq> None) (ic_volumes (fr_catalog (last (ap_inception st))))) > 1 then ChooseVolumeGuide
      else NoGuide)"

definition update_guidance :: "app_state \<Rightarrow> app_state" where
  "update_guidance st = st\<lparr>ap_guide := guide_of st\<rparr>"

definition clear_directory_ui :: "app_state \<Rightarrow> app_state" where
  "clear_directory_ui st = st\<lparr>ap_entries := [], ap_selected := None, ap_current_path := ''/'', ap_path := ''/''\<rparr>"

text \<open>Closing everything; \<open>update_mode\<close> also recomputes the guidance.\<close>

definition close_source_ui :: "app_state \<Rightarrow> app_state" where
  "close_source_ui st = update_guidance (clear_directory_ui st)"

definition close_source :: "app_state \<Rightarrow> app_state" where
  "close_source st =
     (if \<not> source_open st then st
      else let st = (if us_clear_credentials_on_source_change (ap_settings st) then clear_credentials_silent st else st)
           in close_source_ui (st\<lparr>ap_catalog := None, ap_inception := [], ap_view := None, ap_volume := None, ap_source_path := []\<rparr>))"

definition clear_credentials :: "dialog_answers \<Rightarrow> app_state \<Rightarrow> app_state" where
  "clear_credentials an st =
     (if source_open st \<and> an_task an \<noteq> Some 0 then st
      else if source_open st
      then close_source_ui ((clear_credentials_silent st)\<lparr>ap_catalog := None, ap_inception := [], ap_view := None, ap_volume := None\<rparr>)
      else clear_credentials_silent st)"

definition source_is_changing :: "app_state \<Rightarrow> string \<Rightarrow> bool" where
  "source_is_changing st path \<longleftrightarrow>
     (case ap_catalog st of Some ct \<Rightarrow> ct_path ct \<noteq> path | None \<Rightarrow> False) \<or>
     (case ap_inception st of
        frame # _ \<Rightarrow> fr_parent_path frame = None \<and> ic_image_path (fr_catalog frame) \<noteq> path
      | [] \<Rightarrow> False)"

definition activate_source :: "string \<Rightarrow> app_state \<Rightarrow> app_state" where
  "activate_source source st =
     (let st = (if source_is_changing st source
        then clear_directory_ui ((if us_clear_credentials_on_source_change (ap_settings st) then clear_credentials_for_source source st else st)
               \<lparr>ap_catalog := None, ap_inception := []\<rparr>)\<lparr>ap_view := None, ap_volume := None\<rparr>
        else st)
      in st\<lparr>ap_source_path := source\<rparr>)"

definition leave_all_images :: "app_state \<Rightarrow> app_state" where
  "leave_all_images st = st\<lparr>ap_inception := [], ap_volume := None, ap_image_offset := [], ap_image_length := []\<rparr>"

definition populate_volumes :: "inception_catalog \<Rightarrow> nat option \<Rightarrow> app_state \<Rightarrow> app_state" where
  "populate_volumes ic preferred st = st\<lparr>ap_volume :=
     (case (case preferred of Some i \<Rightarrow> Some i | None \<Rightarrow> recommended_volume (ic_volumes ic)) of
        Some i \<Rightarrow> if i < length (ic_volumes ic) then Some i else None
      | None \<Rightarrow> None)\<rparr>"

section \<open>Starting jobs\<close>

definition spawn_job :: "pending_job \<Rightarrow> job \<Rightarrow> app_state \<Rightarrow> app_state" where
  "spawn_job pending job st = st\<lparr>ap_busy := True, ap_pending_job := Some pending, ap_jobs := ap_jobs st @ [job]\<rparr>"

definition job_place_of :: "app_state \<Rightarrow> job_place" where
  "job_place_of st = \<lparr>jp_inception = (if ap_inception st = [] then None else Some (fr_catalog (last (ap_inception st)))), jp_volume = ap_volume st,
     jp_catalog = ap_catalog st, jp_view = ap_view st, jp_key = map_option sec_material (active_zfs_key st)\<rparr>"

definition browse :: "string \<Rightarrow> app_state \<Rightarrow> app_state" where
  "browse path st =
     (if ap_inception st \<noteq> [] \<and> ap_volume st = None then st
      else if ap_inception st = [] \<and> (ap_catalog st = None \<or> ap_view st = None) then st
      else spawn_job PendingBrowse (BrowseJob (job_place_of st) path) st)"

text \<open>Opening what the hidden source path names. The dialog for files returns an existing file.\<close>

definition start_open :: "open_mode \<Rightarrow> app_state \<Rightarrow> app_state" where
  "start_open mode st =
     spawn_job (PendingOpen mode) (OpenJob mode (ap_source_path st)
       (case ap_container_key st of
          Some secret \<Rightarrow> if secret_applies_to_source secret (ap_source_path st) then Some (sec_material secret) else None
        | None \<Rightarrow> None)) st"

definition choose_source :: "dialog_answers \<Rightarrow> open_mode \<Rightarrow> app_state \<Rightarrow> app_state" where
  "choose_source an mode st =
     (case an_open an of None \<Rightarrow> st | Some path \<Rightarrow> if path = [] then st else start_open mode (st\<lparr>ap_source_path := path\<rparr>))"

definition open_entered_source :: "dialog_answers \<Rightarrow> open_mode \<Rightarrow> app_state \<Rightarrow> app_state" where
  "open_entered_source an mode st = (if ap_source_path st = [] then choose_source an mode st else start_open mode st)"

definition trim_quotes :: "string \<Rightarrow> string" where
  "trim_quotes s = rev (dropWhile (\<lambda>c. c = CHR 0x22) (rev (dropWhile (\<lambda>c. c = CHR 0x22) s)))"

definition open_path_dialog :: "dialog_answers \<Rightarrow> app_state \<Rightarrow> app_state" where
  "open_path_dialog an st =
     (case an_path an of
        Submitted text \<Rightarrow>
          (let path = trim_quotes (trim text) in
           if prefix [CHR 0x5C, CHR 0x5C, CHR ''.'', CHR 0x5C] path \<and> us_confirm_physical_drive (ap_settings st) \<and> an_task an \<noteq> Some 0 then st
           else open_entered_source an Auto (st\<lparr>ap_source_path := path\<rparr>))
      | Secondary \<Rightarrow> choose_source an Auto st
      | Cancelled \<Rightarrow> st)"

definition open_physical_drive :: "dialog_answers \<Rightarrow> app_state \<Rightarrow> app_state" where
  "open_physical_drive an st =
     (case an_drive an of None \<Rightarrow> st | Some path \<Rightarrow> open_entered_source an Auto (st\<lparr>ap_source_path := path\<rparr>))"

definition extract_selected :: "dialog_answers \<Rightarrow> app_state \<Rightarrow> app_state" where
  "extract_selected an st =
     (case selected_entry st of
        None \<Rightarrow> st
      | Some entry \<Rightarrow>
          if de_dirent_type entry \<notin> {4, 8} then st
          else (case an_save an of
                  None \<Rightarrow> st
                | Some destination \<Rightarrow>
                    (case child_path (ap_current_path st) (de_name entry) of
                       Inl _ \<Rightarrow> st
                     | Inr source_path \<Rightarrow>
                         spawn_job PendingExtract (ExtractJob (job_place_of st) (de_dirent_type entry = 4) source_path destination) st)))"

text \<open>The range typed for the image, \<open>None\<close> when a field has no number.\<close>

definition image_range :: "app_state \<Rightarrow> (u64 \<times> u64 option) option" where
  "image_range st =
     (case (parse_byte_value (ap_image_offset st) False, parse_byte_value (ap_image_length st) True) of
        (Inr off, Inr len) \<Rightarrow> Some (case off of Some v \<Rightarrow> v | None \<Rightarrow> 0, len)
      | _ \<Rightarrow> None)"

definition explore_selected_image :: "('f, 'r, 'l, 'i, 'v) explorer_env \<Rightarrow> dialog_answers \<Rightarrow> app_state \<Rightarrow> app_state" where
  "explore_selected_image ex an st =
     (if length (ap_inception st) \<ge> 8 then st
      else case selected_entry st of
        None \<Rightarrow> st
      | Some entry \<Rightarrow>
          if de_dirent_type entry \<noteq> 8 then st
          else (case child_path (ap_current_path st) (de_name entry) of
                  Inl _ \<Rightarrow> st
                | Inr image_path \<Rightarrow>
                    (case image_range st of
                       None \<Rightarrow> st
                     | Some (image_offset, image_length) \<Rightarrow>
                         let place = job_place_of st;
                             st = (if is_detto image_path \<and> ap_agent_password st = None then fst (request_agent_password ex an st) else st)
                         in if is_detto image_path \<and> ap_agent_password st = None then st
                            else spawn_job PendingExploreImage (ExploreJob place image_path
                              (if is_detto image_path then map_option sec_material (ap_agent_password st) else None)
                              image_offset image_length (ap_current_path st)) st)))"

definition leave_inception :: "app_state \<Rightarrow> app_state" where
  "leave_inception st =
     (if ap_inception st = [] then st
      else let frame = last (ap_inception st);
               st = st\<lparr>ap_inception := butlast (ap_inception st), ap_volume := None, ap_image_offset := [], ap_image_length := []\<rparr>;
               st = (if ap_inception st = [] then st
                     else populate_volumes (fr_catalog (last (ap_inception st))) (fr_parent_volume frame) st)
           in if \<not> source_open st then close_source_ui st
              else browse (case fr_parent_path frame of Some path \<Rightarrow> path | None \<Rightarrow> ''/'') st)"

definition update_extracted_file :: "dialog_answers \<Rightarrow> app_state \<Rightarrow> app_state" where
  "update_extracted_file an st =
     (case (an_target an, an_stream an) of
        (Some target, Some stream) \<Rightarrow>
          spawn_job PendingUpdate (UpdateJob stream target
            (map_option sec_material (case active_zfs_key st of Some key \<Rightarrow> Some key
               | None \<Rightarrow> if ap_keys st = [] then None else Some (last (ap_keys st))))) st
      | _ \<Rightarrow> st)"

definition refresh :: "app_state \<Rightarrow> app_state" where
  "refresh st = (if source_open st then browse (ap_current_path st) st else st)"

definition refresh_after_zfs_key :: "app_state \<Rightarrow> app_state" where
  "refresh_after_zfs_key st =
     update_guidance (if ap_catalog st \<noteq> None \<and> ap_inception st = [] then browse (ap_current_path st) st else st)"

definition after_key :: "app_state \<times> bool \<Rightarrow> app_state" where
  "after_key = (\<lambda>(st, supplied). if supplied then refresh_after_zfs_key st else st)"

definition show_contextual_credentials :: "('f, 'r, 'l, 'i, 'v) explorer_env \<Rightarrow> dialog_answers \<Rightarrow> app_state \<Rightarrow> app_state" where
  "show_contextual_credentials ex an st =
     (if (case selected_view_of st of Some view \<Rightarrow> sv_encrypted view | None \<Rightarrow> False) then after_key (request_zfs_key ex an st)
      else if (case selected_entry st of Some entry \<Rightarrow> is_detto (de_name entry) | None \<Rightarrow> False)
      then fst (request_agent_password ex an st)
      else st)"

definition open_selected :: "('f, 'r, 'l, 'i, 'v) explorer_env \<Rightarrow> dialog_answers \<Rightarrow> app_state \<Rightarrow> app_state" where
  "open_selected ex an st =
     (case selected_entry st of
        None \<Rightarrow> st
      | Some entry \<Rightarrow>
          if de_dirent_type entry = 4
          then (case child_path (ap_current_path st) (de_name entry) of Inl _ \<Rightarrow> st | Inr path \<Rightarrow> browse path st)
          else if de_dirent_type entry = 8 \<and> us_auto_open_images (ap_settings st) \<and> likely_disk_image (de_name entry)
          then explore_selected_image ex an st
          else if de_dirent_type entry = 8 then extract_selected an st
          else st)"

definition run_guide_action :: "('f, 'r, 'l, 'i, 'v) explorer_env \<Rightarrow> dialog_answers \<Rightarrow> app_state \<Rightarrow> app_state" where
  "run_guide_action ex an st =
     (case ap_guide st of
        UnlockGuide \<Rightarrow> show_contextual_credentials ex an st
      | OpenImageGuide index \<Rightarrow>
          explore_selected_image ex an (if index < length (ap_entries st) then st\<lparr>ap_selected := Some index\<rparr> else st)
      | _ \<Rightarrow> st)"

section \<open>Running a job\<close>

definition open_image_result :: "inception_catalog result \<Rightarrow> job_result result" where
  "open_image_result r = and_then r (\<lambda>ic. Inr (InceptionOpened ic None None True))"

definition open_automatically :: "('f, 'r, 'l, 'i, 'v) client_env \<Rightarrow> string \<Rightarrow> byte list option \<Rightarrow> job_result result" where
  "open_automatically ce path container_key =
     (let extension = ascii_lowercase (path_extension path);
          send_first = (extension \<in> {''zfs'', ''zstream'', ''send''});
          image_first = (extension \<in> {''qcow'', ''qcow2'', ''vmdk'', ''dd''});
          as_image = (\<lambda>_ :: unit. open_image_result (inception_open_file ce path 0 None));
          as_send = (\<lambda>_ :: unit. and_then (open_send ce path) (\<lambda>ct. Inr (CatalogOpened ct)));
          as_pool = (\<lambda>_ :: unit. and_then (open_pool_with_container_key_material ce path container_key) (\<lambda>ct. Inr (CatalogOpened ct)));
          attempts = (if image_first then [as_image] else []) @ (if send_first then [as_send] else []) @ [as_pool] @
            (if send_first then [] else [as_send]) @ (if image_first then [] else [as_image])
      in fold (\<lambda>attempt found. case found of Inr r \<Rightarrow> Inr r | Inl _ \<Rightarrow> (case attempt () of Inr r \<Rightarrow> Inr r | Inl e \<Rightarrow> found)) attempts
           (Inl (Bail ''The source was not recognized as a supported send stream, pool member, or disk image.{}'')))"

text \<open>The volume selected in an open image, by its selector.\<close>

definition place_volume :: "inception_catalog \<Rightarrow> nat option \<Rightarrow> string option result" where
  "place_volume ic volume =
     and_then (ok_or volume (Bail ''no inner volume selected'')) (\<lambda>i.
     if i < length (ic_volumes ic) then Inr (Some (vi_selector (ic_volumes ic ! i))) else Inl (Bail ''selected inner volume no longer exists''))"

definition place_view :: "job_place \<Rightarrow> (source_catalog \<times> nat) result" where
  "place_view p =
     and_then (ok_or (jp_catalog p) (Bail ''no ZFS source is open'')) (\<lambda>ct.
     and_then (ok_or (jp_view p) (Bail ''no source view is selected'')) (\<lambda>i. Inr (ct, i)))"

definition run_browse :: "('f, 'r, 'l, 'i, 'v) explorer_env \<Rightarrow> job_place \<Rightarrow> string \<Rightarrow> job_result result" where
  "run_browse ex p path =
     and_then (case jp_inception p of
         Some ic \<Rightarrow> and_then (place_volume ic (jp_volume p)) (\<lambda>volume. inception_list_directory (ex_inner ex) ic volume path)
       | None \<Rightarrow> and_then (place_view p) (\<lambda>(ct, i). list_directory_with_key_material (ex_client ex) ct i path (jp_key p)))
     (\<lambda>entries. Inr (Directory path entries))"

definition run_extract_tree ::
  "('f, 'r, 'l, 'i, 'v) explorer_env \<Rightarrow> job_place \<Rightarrow> string \<Rightarrow> string \<Rightarrow> tree_fs \<Rightarrow> tree_fs \<times> job_result result" where
  "run_extract_tree ex p source_path destination fs =
     (let target = path_components True destination; (fs, r) = (case jp_inception p of
         Some ic \<Rightarrow>
           run_on (and_then (place_volume ic (jp_volume p)) (\<lambda>volume.
             Inr (inception_extract_tree (ex_inner ex) (ce_env (ex_client ex)) (ce_tree (ex_client ex)) ic volume source_path target True))) fs
       | None \<Rightarrow>
           run_on (and_then (place_view p) (\<lambda>(ct, i).
             Inr (extract_tree_with_key_material (ex_client ex) ct i source_path target True (jp_key p)))) fs)
      in (fs, and_then r (\<lambda>x. Inr (TreeExtracted destination x))))"

definition run_extract_file ::
  "('f, 'r, 'l, 'i, 'v) explorer_env \<Rightarrow> job_place \<Rightarrow> string \<Rightarrow> string \<Rightarrow> tree_fs \<Rightarrow> tree_fs \<times> job_result result" where
  "run_extract_file ex p source_path destination fs =
     (let (disk, r) = (case jp_inception p of
         Some ic \<Rightarrow>
           run_on (and_then (place_volume ic (jp_volume p)) (\<lambda>volume.
             Inr (inception_extract (ex_inner ex) (ce_env (ex_client ex)) ic volume source_path destination True))) (files_of True fs)
       | None \<Rightarrow>
           run_on (and_then (place_view p) (\<lambda>(ct, i).
             Inr (extract_with_key_material (ex_client ex) ct i source_path destination True (jp_key p)))) (files_of True fs))
      in (store_files True [destination, sidecar_path destination] disk fs, and_then r (\<lambda>x. Inr (Extracted destination x (jp_inception p \<noteq> None)))))"

definition run_explore ::
  "('f, 'r, 'l, 'i, 'v) explorer_env \<Rightarrow> job_place \<Rightarrow> string \<Rightarrow> byte list option \<Rightarrow> u64 \<Rightarrow> u64 option \<Rightarrow> string \<Rightarrow> job_result result" where
  "run_explore ex p image_path agent_password image_offset image_length outer_path =
     and_then (case jp_inception p of
         Some ic \<Rightarrow> and_then (place_volume ic (jp_volume p)) (\<lambda>volume.
           inspect_child (ex_inner ex) (se_probes (ce_session (ex_client ex))) ic volume image_path image_offset image_length)
       | None \<Rightarrow> and_then (place_view p) (\<lambda>(ct, i).
           inspect_inception_with_key_material (ex_client ex) ct i image_path (jp_key p) agent_password None image_offset image_length))
     (\<lambda>child. Inr (InceptionOpened child (Some outer_path) (jp_volume p) False))"

text \<open>\<open>None\<close> when an update does not return.\<close>

definition run_job :: "('f, 'r, 'l, 'i, 'v) explorer_env \<Rightarrow> job \<Rightarrow> tree_fs \<Rightarrow> (tree_fs \<times> job_result result) option" where
  "run_job ex job fs =
     (case job of
        OpenJob Image path container_key \<Rightarrow> Some (fs, open_image_result (inception_open_file (ex_client ex) path 0 None))
      | OpenJob Auto path container_key \<Rightarrow> Some (fs, open_automatically (ex_client ex) path container_key)
      | BrowseJob p path \<Rightarrow> Some (fs, run_browse ex p path)
      | ExtractJob p is_directory source_path destination \<Rightarrow>
          Some (if is_directory then run_extract_tree ex p source_path destination fs else run_extract_file ex p source_path destination fs)
      | ExploreJob p image_path agent_password image_offset image_length outer_path \<Rightarrow>
          Some (fs, run_explore ex p image_path agent_password image_offset image_length outer_path)
      | UpdateJob stream target key \<Rightarrow>
          map_option (\<lambda>(disk, r). (store_files True [target, sidecar_path target] disk fs, and_then r (\<lambda>sc. Inr (Updated target sc))))
            (apply_incremental_with_key_material (ex_client ex) stream target key (files_of True fs)))"

section \<open>Results and errors\<close>

definition retry_pending_job ::
  "('f, 'r, 'l, 'i, 'v) explorer_env \<Rightarrow> dialog_answers \<Rightarrow> pending_job option \<Rightarrow> app_state \<Rightarrow> app_state" where
  "retry_pending_job ex an pending st =
     (case pending of
        Some (PendingOpen mode) \<Rightarrow> open_entered_source an mode st
      | Some PendingBrowse \<Rightarrow> browse (ap_current_path st) st
      | Some PendingExtract \<Rightarrow> extract_selected an st
      | Some PendingExploreImage \<Rightarrow> explore_selected_image ex an st
      | Some PendingUpdate \<Rightarrow> update_extracted_file an st
      | None \<Rightarrow> st)"

definition restore_source_box_after_failed_open :: "pending_job option \<Rightarrow> app_state \<Rightarrow> app_state" where
  "restore_source_box_after_failed_open pending st =
     (case pending of
        Some (PendingOpen _) \<Rightarrow> (case active_source_path st of Some path \<Rightarrow> st\<lparr>ap_source_path := path\<rparr> | None \<Rightarrow> st)
      | _ \<Rightarrow> st)"

definition show_advanced_image_range :: "app_state \<Rightarrow> app_state" where
  "show_advanced_image_range st = st\<lparr>ap_settings := (ap_settings st)\<lparr>us_show_advanced_image_range := True\<rparr>\<rparr>"

definition handle_unsupported_image :: "dialog_answers \<Rightarrow> pending_job option \<Rightarrow> app_state \<Rightarrow> app_state" where
  "handle_unsupported_image an pending st =
     (if an_task an = Some 0 then if pending = Some PendingExploreImage then extract_selected an st else choose_source an Image st
      else if an_task an = Some 1 then show_advanced_image_range st
      else st)"

definition ask_for_another :: "dialog_answers \<Rightarrow> pending_job option \<Rightarrow> app_state \<Rightarrow> app_state" where
  "ask_for_another an pending st =
     (if an_task an = Some 0 then choose_source an Auto st else restore_source_box_after_failed_open pending st)"

definition handle_job_error ::
  "('f, 'r, 'l, 'i, 'v) explorer_env \<Rightarrow> dialog_answers \<Rightarrow> string \<Rightarrow> pending_job option \<Rightarrow> app_state \<Rightarrow> app_state" where
  "handle_job_error ex an error pending st =
     (let contains = (\<lambda>text. sublist text (ascii_lowercase error)) in
      if contains ''luks-encrypted'' \<or> contains ''unlocking luks container'' \<or> contains ''datto pool passphrase'' then
        (let (st, ok) = request_container_key ex an (st\<lparr>ap_container_key := None\<rparr>)
         in if ok then retry_pending_job ex an pending st else restore_source_box_after_failed_open pending st)
      else if contains ''enter or choose its'' \<or> contains ''uses native zfs dataset encryption; provide'' \<or>
        contains ''supplied key did not authenticate'' \<or> contains ''raw zfs key must'' \<or> contains ''hex zfs key must'' \<or>
        contains ''requires a dataset key'' then
        (let (st, ok) = request_zfs_key ex an (clear_directory_ui (remove_active_zfs_key st))
         in if ok then retry_pending_job ex an pending st else update_guidance st)
      else if contains ''agent password'' \<or> contains ''encrypted datto .detto'' \<or> contains ''unlocking'' \<and> contains ''encryptionkeystash'' then
        (let (st, ok) = request_agent_password ex an (st\<lparr>ap_agent_password := None\<rparr>)
         in if ok then retry_pending_job ex an pending st else st)
      else if pending = Some PendingExploreImage then handle_unsupported_image an pending st
      else if contains ''access is denied'' \<or> contains ''permission denied'' \<or> contains ''os error 5'' then ask_for_another an pending st
      else if (\<exists>mode \<in> {Auto, Image}. pending = Some (PendingOpen mode)) \<and> contains ''source was not recognized'' then ask_for_another an pending st
      else restore_source_box_after_failed_open pending st)"

definition sorted_directory :: "inner_lib \<Rightarrow> directory_entry list \<Rightarrow> directory_entry list" where
  "sorted_directory lib entries =
     sort_key (\<lambda>e. de_dirent_type e \<noteq> 4) (sort_key (\<lambda>e. il_lowercase lib (de_name e)) entries)"

definition show_catalog :: "('f, 'r, 'l, 'i, 'v) explorer_env \<Rightarrow> dialog_answers \<Rightarrow> source_catalog \<Rightarrow> app_state \<Rightarrow> app_state" where
  "show_catalog ex an ct st =
     (let start = (case recommended_view (ct_views ct) of Some i \<Rightarrow> i | None \<Rightarrow> 0);
          st = update_guidance ((activate_source (ct_path ct) st)\<lparr>ap_volume := None,
            ap_view := (if start < length (ct_views ct) then Some start else None), ap_catalog := Some ct\<rparr>);
          (st, ok) = ensure_selected_view_key ex an st
      in update_guidance (if ok then browse ''/'' st else clear_directory_ui st))"

definition show_image ::
  "dialog_answers \<Rightarrow> inception_catalog \<Rightarrow> string option \<Rightarrow> nat option \<Rightarrow> bool \<Rightarrow> pending_job option \<Rightarrow> app_state \<Rightarrow> app_state" where
  "show_image an ic outer_path parent_volume standalone pending st =
     (case recommended_volume (ic_volumes ic) of
        None \<Rightarrow> handle_unsupported_image an pending st
      | Some selected \<Rightarrow>
          (let st = (if standalone
                 then (clear_directory_ui ((activate_source (ic_image_path ic) st)\<lparr>ap_catalog := None, ap_inception := []\<rparr>))\<lparr>ap_view := None\<rparr>
                 else st);
               st = populate_volumes ic (Some selected) st
           in browse ''/'' (update_guidance (st\<lparr>ap_image_offset := [], ap_image_length := [], ap_current_path := ''/'',
                ap_inception := ap_inception st @ [\<lparr>fr_catalog = ic, fr_parent_path = outer_path, fr_parent_volume = parent_volume\<rparr>]\<rparr>))))"

definition finish_job ::
  "('f, 'r, 'l, 'i, 'v) explorer_env \<Rightarrow> dialog_answers \<Rightarrow> string + job_result \<Rightarrow> app_state \<Rightarrow> app_state" where
  "finish_job ex an message st =
     (let pending = ap_pending_job st; st = st\<lparr>ap_pending_job := None, ap_busy := False\<rparr> in
      case message of
        Inl error \<Rightarrow> handle_job_error ex an error pending st
      | Inr (CatalogOpened ct) \<Rightarrow> show_catalog ex an ct st
      | Inr (Directory path entries) \<Rightarrow>
          update_guidance (st\<lparr>ap_current_path := path, ap_path := path, ap_entries := sorted_directory (ex_inner ex) entries, ap_selected := None\<rparr>)
      | Inr (InceptionOpened ic outer_path parent_volume standalone) \<Rightarrow>
          show_image an ic outer_path parent_volume standalone pending st
      | Inr _ \<Rightarrow> st)"

section \<open>Commands\<close>

datatype setting = AutoImages | ClearCredentials | ConfirmDrive | AdvancedImageRange

datatype ui_command =
    CmdOpenBackup | CmdOpenDrive | CmdOpenPath | CmdOpenAuto | CmdOpenImage | CmdCloseSource | CmdView | CmdVolume | CmdGo | CmdUp
  | CmdRefresh | CmdUnlock | CmdGuideAction | CmdEnterKey | CmdChooseKey | CmdEnterContainerKey | CmdContainerKey
  | CmdEnterAgentPassword | CmdAgentPassword | CmdClearCredentials | CmdRestore | CmdInception | CmdOpenSelected | CmdLeaveImage
  | CmdUpdate | CmdSetting setting

definition toggle_setting :: "setting \<Rightarrow> app_state \<Rightarrow> app_state" where
  "toggle_setting x st = st\<lparr>ap_settings := (let us = ap_settings st in case x of
       AutoImages \<Rightarrow> us\<lparr>us_auto_open_images := \<not> us_auto_open_images us\<rparr>
     | ClearCredentials \<Rightarrow> us\<lparr>us_clear_credentials_on_source_change := \<not> us_clear_credentials_on_source_change us\<rparr>
     | ConfirmDrive \<Rightarrow> us\<lparr>us_confirm_physical_drive := \<not> us_confirm_physical_drive us\<rparr>
     | AdvancedImageRange \<Rightarrow> us\<lparr>us_show_advanced_image_range := \<not> us_show_advanced_image_range us\<rparr>)\<rparr>"

definition handle_view_change :: "('f, 'r, 'l, 'i, 'v) explorer_env \<Rightarrow> dialog_answers \<Rightarrow> app_state \<Rightarrow> app_state" where
  "handle_view_change ex an st =
     (let (st, ok) = ensure_selected_view_key ex an (clear_directory_ui (leave_all_images st))
      in update_guidance (if ok then browse ''/'' st else st))"

definition handle_command :: "('f, 'r, 'l, 'i, 'v) explorer_env \<Rightarrow> dialog_answers \<Rightarrow> ui_command \<Rightarrow> app_state \<Rightarrow> app_state" where
  "handle_command ex an cmd st =
     (if ap_busy st then st
      else case cmd of
        CmdOpenBackup \<Rightarrow> choose_source an Auto st
      | CmdOpenDrive \<Rightarrow> open_physical_drive an st
      | CmdOpenPath \<Rightarrow> open_path_dialog an st
      | CmdOpenAuto \<Rightarrow> open_entered_source an Auto st
      | CmdOpenImage \<Rightarrow> choose_source an Image st
      | CmdCloseSource \<Rightarrow> close_source st
      | CmdView \<Rightarrow> handle_view_change ex an st
      | CmdVolume \<Rightarrow> browse ''/'' st
      | CmdGo \<Rightarrow> browse (normalize_entered_path (ap_path st)) st
      | CmdUp \<Rightarrow> browse (parent_path (ap_current_path st)) st
      | CmdRefresh \<Rightarrow> refresh st
      | CmdUnlock \<Rightarrow> show_contextual_credentials ex an st
      | CmdGuideAction \<Rightarrow> run_guide_action ex an st
      | CmdEnterKey \<Rightarrow> after_key (enter_key an st)
      | CmdChooseKey \<Rightarrow> after_key (choose_key_file ex an st)
      | CmdEnterContainerKey \<Rightarrow> fst (enter_container_key an st)
      | CmdContainerKey \<Rightarrow> fst (choose_container_key_file ex an st)
      | CmdEnterAgentPassword \<Rightarrow> fst (enter_agent_password an st)
      | CmdAgentPassword \<Rightarrow> fst (choose_agent_password_file ex an st)
      | CmdClearCredentials \<Rightarrow> clear_credentials an st
      | CmdRestore \<Rightarrow> extract_selected an st
      | CmdInception \<Rightarrow> explore_selected_image ex an st
      | CmdOpenSelected \<Rightarrow> open_selected ex an st
      | CmdLeaveImage \<Rightarrow> leave_inception st
      | CmdUpdate \<Rightarrow> update_extracted_file an st
      | CmdSetting x \<Rightarrow> toggle_setting x st)"

end
