(* ===== verification/Explorer_Runs.thy ===== *)
theory Explorer_Runs
  imports Explorer Client_Views Inner_Reads
begin

text \<open>
  Runs of the Windows desktop program: the states it reaches by commands of the user and by the results of its
  jobs, and what holds in all of them.
\<close>

section \<open>Reachable states\<close>


section \<open>The invariant\<close>

fun place_of_job :: "job \<Rightarrow> job_place option" where
  "place_of_job (BrowseJob p _) = Some p"
| "place_of_job (ExtractJob p _ _ _) = Some p"
| "place_of_job (ExploreJob p _ _ _ _ _) = Some p"
| "place_of_job _ = None"

fun is_explore :: "job \<Rightarrow> bool" where
  "is_explore (ExploreJob _ _ _ _ _ _) = True"
| "is_explore _ = False"

definition key_scope :: "secret_value \<Rightarrow> string option \<times> string option" where
  "key_scope key = (sec_source key, sec_view key)"

definition app_ok :: "app_state \<Rightarrow> bool" where
  "app_ok st \<longleftrightarrow> distinct (map key_scope (ap_keys st)) \<and> length (ap_inception st) \<le> 8"

definition rests :: "app_state \<Rightarrow> bool" where
  "rests st \<longleftrightarrow> app_ok st \<and> \<not> ap_busy st \<and> ap_pending_job st = None \<and> ap_jobs st = []"

definition works :: "app_state \<Rightarrow> bool" where
  "works st \<longleftrightarrow> app_ok st \<and> ap_busy st \<and> ap_pending_job st \<noteq> None \<and>
     (\<exists>job. ap_jobs st = [job] \<and> (\<forall>p. place_of_job job = Some p \<longrightarrow> p = job_place_of st) \<and>
       (is_explore job \<longrightarrow> length (ap_inception st) < 8))"

definition app_good :: "app_state \<Rightarrow> bool" where
  "app_good st \<longleftrightarrow> rests st \<or> works st"

named_theorems resting \<open>operations after which no job runs\<close>
named_theorems good \<open>operations after which at most one job runs\<close>

lemma rests_good: "rests st \<Longrightarrow> app_good st"
  by (simp add: app_good_def)

lemma rests_store_key [resting]: "rests st \<Longrightarrow> rests (store_key_material m st)"
  by (auto simp: rests_def app_ok_def store_key_material_def store_zfs_key_def distinct_map key_scope_def inj_on_def)

lemma rests_store_container [resting]: "rests st \<Longrightarrow> rests (store_container_key m st)"
  by (simp add: rests_def app_ok_def store_container_key_def)

lemma rests_store_agent [resting]: "rests st \<Longrightarrow> rests (store_agent_password m st)"
  by (simp add: rests_def app_ok_def store_agent_password_def)

lemma rests_supplied [resting]: "(\<And>m. rests (store m st)) \<Longrightarrow> rests st \<Longrightarrow> rests (fst (supplied store material st))"
  by (auto simp: supplied_def split: option.splits)

lemma rests_requests [resting]:
  assumes "rests st"
  shows "rests (fst (request_zfs_key ex an st))" "rests (fst (request_container_key ex an st))"
    "rests (fst (request_agent_password ex an st))" "rests (fst (ensure_selected_view_key ex an st))"
    "rests (fst (enter_key an st))" "rests (fst (choose_key_file ex an st))" "rests (fst (enter_container_key an st))"
    "rests (fst (choose_container_key_file ex an st))" "rests (fst (enter_agent_password an st))"
    "rests (fst (choose_agent_password_file ex an st))"
  using assms
  by (auto simp: request_zfs_key_def request_container_key_def request_agent_password_def ensure_selected_view_key_def enter_key_def
      choose_key_file_def enter_container_key_def choose_container_key_file_def enter_agent_password_def choose_agent_password_file_def
      intro!: resting split: form_result.splits option.splits)

lemma distinct_scopes_filter: "distinct (map key_scope keys) \<Longrightarrow> distinct (map key_scope (filter P keys))"
  by (rule distinct_map_filter)

lemma rests_updates [resting]:
  assumes "rests st"
  shows "rests (update_guidance st)" "rests (clear_directory_ui st)" "rests (clear_credentials_silent st)"
    "rests (clear_credentials_for_source source st)" "rests (remove_active_zfs_key st)" "rests (populate_volumes ic preferred st)"
    "rests (close_source_ui st)" "rests (leave_all_images st)" "rests (activate_source source st)" "rests (toggle_setting x st)"
    "rests (show_advanced_image_range st)" "rests (restore_source_box_after_failed_open pending st)"
  using assms
  by (auto simp: rests_def app_ok_def update_guidance_def clear_directory_ui_def clear_credentials_silent_def clear_credentials_for_source_def
      remove_active_zfs_key_def populate_volumes_def close_source_ui_def leave_all_images_def activate_source_def toggle_setting_def Let_def
      show_advanced_image_range_def restore_source_box_after_failed_open_def distinct_scopes_filter split: pending_job.splits option.splits)

lemma rests_fields [resting]:
  assumes "rests st"
  shows "rests (st\<lparr>ap_source_path := a\<rparr>)" "rests (st\<lparr>ap_catalog := c\<rparr>)" "rests (st\<lparr>ap_inception := []\<rparr>)" "rests (st\<lparr>ap_view := v\<rparr>)"
    "rests (st\<lparr>ap_volume := w\<rparr>)" "rests (st\<lparr>ap_selected := s\<rparr>)" "rests (st\<lparr>ap_image_offset := o'\<rparr>)" "rests (st\<lparr>ap_image_length := l\<rparr>)"
    "rests (st\<lparr>ap_path := p\<rparr>)" "rests (st\<lparr>ap_current_path := q\<rparr>)" "rests (st\<lparr>ap_entries := es\<rparr>)" "rests (st\<lparr>ap_container_key := k\<rparr>)"
    "rests (st\<lparr>ap_agent_password := k'\<rparr>)" "rests (st\<lparr>ap_inception := butlast (ap_inception st)\<rparr>)"
    "length (ap_inception st) < 8 \<Longrightarrow> rests (st\<lparr>ap_inception := ap_inception st @ [frame]\<rparr>)"
  using assms by (auto simp: rests_def app_ok_def)

text \<open>The place a job acts on does not depend on the jobs and the guidance.\<close>

lemma job_place_cong:
  assumes "ap_catalog st' = ap_catalog st" "ap_inception st' = ap_inception st" "ap_source_path st' = ap_source_path st"
    "ap_view st' = ap_view st" "ap_volume st' = ap_volume st" "ap_keys st' = ap_keys st"
  shows "job_place_of st' = job_place_of st"
proof -
  have c: "active_source_path st' = active_source_path st" "source_box_scope st' = source_box_scope st" "selected_view_of st' = selected_view_of st"
    unfolding active_source_path_def source_box_scope_def selected_view_of_def assms by (rule refl)+
  have "credential_scope st' = credential_scope st" "credential_view st' = credential_view st"
    unfolding credential_scope_def credential_view_def c by (rule refl)+
  then have "key_applies st' = key_applies st" by (simp add: key_applies_def fun_eq_iff)
  then show ?thesis using assms by (simp add: job_place_of_def active_zfs_key_def)
qed

lemma job_place_spawn [simp]: "job_place_of (spawn_job pending job st) = job_place_of st"
  by (rule job_place_cong) (simp_all add: spawn_job_def)

lemma job_place_guidance [simp]: "job_place_of (update_guidance st) = job_place_of st"
  by (rule job_place_cong) (simp_all add: update_guidance_def)

lemma job_place_agent [simp]: "job_place_of (fst (request_agent_password ex an st)) = job_place_of st"
  by (rule job_place_cong) (auto simp: request_agent_password_def choose_agent_password_file_def supplied_def store_agent_password_def
      split: form_result.splits option.splits)

lemma agent_keeps_path [simp]:
  "ap_current_path (fst (request_agent_password ex an st)) = ap_current_path st"
  "ap_inception (fst (request_agent_password ex an st)) = ap_inception st"
  by (auto simp: request_agent_password_def choose_agent_password_file_def supplied_def store_agent_password_def
      split: form_result.splits option.splits)

lemma works_spawn [good]:
  assumes "rests st" and "place_of_job job \<in> {None, Some (job_place_of st)}" and "\<not> is_explore job \<or> length (ap_inception st) < 8"
  shows "app_good (spawn_job pending job st)"
proof -
  have "ap_jobs (spawn_job pending job st) = [job]" "app_ok (spawn_job pending job st)" "ap_busy (spawn_job pending job st)"
    "ap_pending_job (spawn_job pending job st) \<noteq> None" "ap_inception (spawn_job pending job st) = ap_inception st"
    using assms(1) by (simp_all add: rests_def app_ok_def spawn_job_def)
  then show ?thesis using assms(2,3) by (auto simp: app_good_def works_def)
qed

lemma good_guidance [good]:
  assumes "app_good st"
  shows "app_good (update_guidance st)"
proof -
  have "ap_jobs (update_guidance st) = ap_jobs st" "app_ok (update_guidance st) = app_ok st" "ap_busy (update_guidance st) = ap_busy st"
    "ap_pending_job (update_guidance st) = ap_pending_job st" "ap_inception (update_guidance st) = ap_inception st"
    by (simp_all add: app_ok_def update_guidance_def)
  then show ?thesis using assms by (simp add: app_good_def rests_def works_def)
qed

lemma good_browse [good]: "rests st \<Longrightarrow> app_good (browse path st)"
  by (auto simp: browse_def good rests_good resting)

lemma good_choose_source [good]: "rests st \<Longrightarrow> app_good (choose_source an mode st)"
  by (auto simp: choose_source_def start_open_def good rests_good resting split: option.split)

lemma good_open_source [good]: "rests st \<Longrightarrow> app_good (open_entered_source an mode st)"
  by (auto simp: open_entered_source_def start_open_def good rests_good resting)

lemma good_extract_selected [good]: "rests st \<Longrightarrow> app_good (extract_selected an st)"
  by (auto simp: extract_selected_def good rests_good resting split: option.split sum.split)

lemma good_explore [good]: "rests st \<Longrightarrow> app_good (explore_selected_image ex an st)"
  by (auto simp: explore_selected_image_def Let_def good rests_good resting split: option.split sum.split)

lemma good_update [good]: "rests st \<Longrightarrow> app_good (update_extracted_file an st)"
  by (auto simp: update_extracted_file_def good rests_good resting split: option.split)

lemma good_after_key [good]: "rests (fst x) \<Longrightarrow> app_good (after_key x)"
  by (auto simp: after_key_def refresh_after_zfs_key_def good rests_good resting split: prod.splits)

lemma good_contextual [good]: "rests st \<Longrightarrow> app_good (show_contextual_credentials ex an st)"
  by (auto simp: show_contextual_credentials_def good rests_good resting)

lemma good_retry [good]: "rests st \<Longrightarrow> app_good (retry_pending_job ex an pending st)"
  by (auto simp: retry_pending_job_def good rests_good resting split: option.split pending_job.split)

lemma good_unsupported [good]: "rests st \<Longrightarrow> app_good (handle_unsupported_image an pending st)"
  by (auto simp: handle_unsupported_image_def good rests_good resting)

lemma good_another [good]: "rests st \<Longrightarrow> app_good (ask_for_another an pending st)"
  by (auto simp: ask_for_another_def good rests_good resting)

lemma good_after_request:
  assumes "rests (fst x)" and "\<And>st. rests st \<Longrightarrow> app_good (f st)" and "\<And>st. rests st \<Longrightarrow> app_good (g st)"
  shows "app_good (case x of (st, ok) \<Rightarrow> if ok then f st else g st)"
  using assms by (cases x) simp

lemma good_if: "(P \<Longrightarrow> app_good a) \<Longrightarrow> (\<not> P \<Longrightarrow> app_good b) \<Longrightarrow> app_good (if P then a else b)"
  by simp

lemma good_job_error [good]: "rests st \<Longrightarrow> app_good (handle_job_error ex an error pending st)"
  unfolding handle_job_error_def Let_def
  by (intro good_if; simp add: good_after_request good rests_good resting)

lemma good_catalog [good]: "rests st \<Longrightarrow> app_good (show_catalog ex an ct st)"
  unfolding show_catalog_def by (simp add: Let_def case_prod_beta good rests_good resting)

lemma good_image [good]:
  assumes "rests st" and "standalone \<or> length (ap_inception st) < 8"
  shows "app_good (show_image an ic parent volume standalone pending st)"
proof (cases "recommended_volume (ic_volumes ic)")
  case None
  then show ?thesis using assms(1) by (simp add: show_image_def good)
next
  case (Some selected)
  define st1 where "st1 = (if standalone
     then (clear_directory_ui ((activate_source (ic_image_path ic) st)\<lparr>ap_catalog := None, ap_inception := []\<rparr>))\<lparr>ap_view := None\<rparr> else st)"
  have "rests st1" using assms(1) by (simp add: st1_def resting)
  moreover have "length (ap_inception st1) < 8" using assms(2) by (auto simp: st1_def clear_directory_ui_def)
  ultimately have "rests ((populate_volumes ic (Some selected) st1)\<lparr>ap_image_offset := [], ap_image_length := [], ap_current_path := ''/'',
      ap_inception := ap_inception (populate_volumes ic (Some selected) st1) @
        [\<lparr>fr_catalog = ic, fr_parent_path = parent, fr_parent_volume = volume\<rparr>]\<rparr>)"
    by (simp add: rests_def app_ok_def populate_volumes_def)
  then show ?thesis using Some by (simp add: show_image_def Let_def st1_def [symmetric] good resting)
qed

lemma good_commands [good]:
  assumes "rests st"
  shows "app_good (close_source st)" "app_good (clear_credentials an st)" "app_good (open_path_dialog an st)" "app_good (open_physical_drive an st)"
    "app_good (handle_view_change ex an st)" "app_good (refresh st)" "app_good (run_guide_action ex an st)" "app_good (open_selected ex an st)"
  using assms
  by (auto simp: close_source_def clear_credentials_def open_path_dialog_def open_physical_drive_def handle_view_change_def refresh_def
      run_guide_action_def open_selected_def Let_def case_prod_beta good rests_good resting
      split: form_result.split option.split guide.split sum.split)

lemma good_leave [good]:
  assumes "rests st"
  shows "app_good (leave_inception st)"
proof -
  have "rests (st\<lparr>ap_inception := butlast (ap_inception st), ap_volume := None, ap_image_offset := [], ap_image_length := []\<rparr>)"
    using assms by (auto simp: rests_def app_ok_def)
  then show ?thesis using assms by (auto simp: leave_inception_def Let_def good rests_good resting)
qed







text \<open>Opening the backup that is already open while one of its disk images is open leaves the image open with no
  volume selected; going to any folder then does nothing.\<close>

lemma supplied_keeps [simp]:
  "ap_inception (fst (supplied store_key_material m st)) = ap_inception st" "ap_volume (fst (supplied store_key_material m st)) = ap_volume st"
  by (simp_all add: supplied_def store_key_material_def store_zfs_key_def split: option.split)

lemma ensure_key_keeps:
  "ap_inception (fst (ensure_selected_view_key ex an st)) = ap_inception st" "ap_volume (fst (ensure_selected_view_key ex an st)) = ap_volume st"
  by (auto simp: ensure_selected_view_key_def request_zfs_key_def choose_key_file_def store_key_material_def store_zfs_key_def
      split: option.split form_result.split)

lemma browse_nowhere: "ap_inception st \<noteq> [] \<Longrightarrow> ap_volume st = None \<Longrightarrow> browse path st = st"
  by (simp add: browse_def)

theorem reopened_backup_stays_inside_the_image:
  assumes "ap_catalog st = Some old" and "ct_path ct = ct_path old" and "ap_inception st = frame # frames" and "fr_parent_path frame = Some parent"
  shows "ap_inception (finish_job ex an (Inr (CatalogOpened ct)) st) = frame # frames \<and>
    browse path (finish_job ex an (Inr (CatalogOpened ct)) st) = finish_job ex an (Inr (CatalogOpened ct)) st"
proof -
  let ?st = "st\<lparr>ap_pending_job := None, ap_busy := False\<rparr>"
  have "activate_source (ct_path ct) ?st = ?st\<lparr>ap_source_path := ct_path ct\<rparr>"
    using assms by (simp add: activate_source_def source_is_changing_def)
  then have "ap_inception (finish_job ex an (Inr (CatalogOpened ct)) st) = frame # frames" "ap_volume (finish_job ex an (Inr (CatalogOpened ct)) st) = None"
    using assms(3)
    by (simp_all add: finish_job_def show_catalog_def Let_def case_prod_beta update_guidance_def clear_directory_ui_def ensure_key_keeps browse_nowhere)
  then show ?thesis by (simp add: browse_nowhere)
qed





end
