(* ===== verification/Spec2Isabelle.thy ===== *)
theory Spec2Isabelle
  imports Stream_Format BTree Text Sparse Compression Nvlist Nvlist_Format Encrypted Snapshots Replay Demo_Stream Object_Index Zpl File_Extract Incremental Segment_Map Image_Replay Lznt1 Ntfs_Reads Source Tree_Publish Images Partitions Pool_Members Client_Views Presentation Inner_Reads Service_Sessions Cli_Runs Explorer_Runs
begin

text \<open>
  A verification of zfs-send-explore, a program that browses and extracts the files of ZFS send streams
  and of offline pool members without ZFS. The Rust sources are under \<open>src/src\<close>; each theory names the
  file it models.

  \<^bold>\<open>The program and the theories.\<close> The program has four layers.

  \<^item> Streams. \<open>stream.rs\<close> reads replay records with their chained checksum (\<open>Stream\<close>; its wire format as
    a specification is \<open>Stream_Format\<close>). \<open>filesystem.rs\<close> selects a snapshot and the chain of substreams it
    depends on (\<open>Snapshots\<close>), replays the metadata objects of the chain into an index (\<open>Object_Index\<close>) and
    resolves paths in it (\<open>Zpl\<close>). \<open>operations.rs\<close> replays one object into a file with a sidecar
    (\<open>File_Extract\<close>), applies a later increment to that file (\<open>Incremental\<close>) and extracts directory trees
    with \<open>tree.rs\<close> (\<open>Tree_Extract\<close>, \<open>Tree_Publish\<close>). Blocks are decoded by \<open>compression.rs\<close>
    (\<open>Compression\<close>) and, for raw sends, unlocked and authenticated by \<open>encrypted.rs\<close> (\<open>Nvlist\<close>, with the
    format it decodes in \<open>Nvlist_Format\<close>, and \<open>Encrypted\<close>); \<open>sparse.rs\<close> writes the output (\<open>Sparse\<close>).
  \<^item> Pools. \<open>source.rs\<close> opens files and devices and reads them in whole blocks (\<open>Source\<close>). \<open>pool.rs\<close> opens
    a member through LUKS, partitions and labels and reads its blocks from their copies (\<open>Pool_Blocks\<close>),
    walks dnodes, directories and datasets and extracts files (\<open>Pool\<close>); \<open>Pool_Reads\<close> and \<open>Pool_Members\<close>
    hold its properties.
  \<^item> Nested images (\<open>inception.rs\<close>). A file of a stream, a pool or the host is a disk image: \<open>Segment_Map\<close>,
    \<open>Stream_Image\<close> and \<open>Image_Replay\<close> read one inside a stream without extracting it, \<open>Images\<close> models the
    layers (files, windows, Datto decryption with \<open>datto.rs\<close>, the cursor), \<open>Partitions\<close> the partition tables,
    volumes and sessions, \<open>Sessions\<close> the constructors of a session, \<open>Inner\<close> and \<open>Inner_Reads\<close> the files of
    its FAT, NTFS and ext4 volumes, which can be images again. \<open>ntfs_compression.rs\<close> is modelled by
    \<open>Lznt1\<close>, \<open>Ntfs_Compression\<close> and \<open>Ntfs_Reads\<close>.
  \<^item> Front ends. \<open>client.rs\<close> has catalogs of backups and calls on their views (\<open>Client\<close>, \<open>Client_Views\<close>),
    \<open>presentation.rs\<close> and \<open>snapshot_time.rs\<close> their wording (\<open>Presentation\<close>), \<open>bin/zfs-explore-service.rs\<close> is
    the service behind the desktop client (\<open>Service\<close>, \<open>Service_Sessions\<close>), \<open>main.rs\<close> the command line
    (\<open>Cli\<close>, \<open>Cli_Runs\<close>), and \<open>bin/zfs-send-explore-windows/mod.rs\<close> the Windows program, of which the state,
    the commands and the jobs are modelled (\<open>Explorer\<close>, \<open>Explorer_Runs\<close>).

  \<open>Prelude\<close>, \<open>Text\<close>, \<open>BTree\<close>, \<open>Extents\<close> and \<open>Replay\<close> are shared: the result type and checked arithmetic, the
  string functions of Rust, ordered maps, the contents of an object under writes and frees, and what a chain
  of substreams says about one object. \<open>Demo_Stream\<close> is the stream the witnesses evaluate; the encrypted one
  is at the end of \<open>Object_Index\<close>.

  \<^bold>\<open>How code becomes definitions.\<close> A struct is a record, an enum a datatype, and a function one definition
  with the branches of the source; the body of a loop over records is a function of its own. Fixed-width
  integers are words; \<open>usize\<close> is \<open>nat\<close>, the targets being 64-bit. A \<open>Result\<close> is a sum with the error on
  the left, \<open>?\<close> is \<open>and_then\<close>, and an error is a message (without the values interpolated into it), an
  error of the stream reader or of the system, or \<open>Panic\<close>: an index out of range, a failing \<open>expect\<close> or
  \<open>unreachable!\<close> and a division by zero are values, so that their absence can be proved. Unchecked arithmetic
  is that of the release profile, which has no overflow checks: it wraps where the code can reach an
  overflow, and where it cannot, an overflow is a \<open>Panic\<close> that is proved absent. Functions that leave something behind when they fail
  (buffers, caches, sessions, files) return it next to their outcome. Strings are lists of the bytes of
  their UTF-8 encoding. A file is its bytes and a disk maps paths to files; trees are extracted on a map
  from paths to nodes.

  \<^bold>\<open>Parameters.\<close> Code that is not part of the repository's sources is an argument, with what is
  documented about it as the assumptions of a locale or a named hypothesis: the decompressors (\<open>codecs\<close>),
  ciphers and key derivation (\<open>crypto\<close>, \<open>xts\<close>, \<open>datto_lib\<close>), the decoders of \<open>zfs_core\<close> (\<open>zfs_core\<close>,
  \<open>zpl_lib\<close>, \<open>pool_lib\<close>), the LUKS crate, CRC-32, the probes for file systems and disk containers (\<open>probes\<close>),
  the file-system crates (\<open>inner_lib\<close>, and the attributes handed over by the \<open>ntfs\<close> crate), the time zones
  (\<open>chrono\<close>), JSON, the password prompt, and the operating system: sparse-file calls (\<open>os\<close>), files and
  hashing (\<open>env\<close>), trees (\<open>tree_env\<close>), descriptors and ioctls (\<open>host\<close>), positioned reads (\<open>device\<close>). Reads of
  a source are deterministic except those of a device, which may be short and differ from call to call.
  Each contract has an interpretation on an instance or on the model's own operations.

  \<^bold>\<open>Termination.\<close> No definition has fuel. Loops over a stream end because every record consumes bytes,
  walks over names and tables because a cursor moves, copies because an offset of 64 bits grows. The
  limits of the code (entries and depth of a tree, extended boot records, key lookups along parent
  directories, snapshots of a dataset, layers of a session) are those of the source. Two loops depend on
  the answers of the system and are partial functions into \<open>option\<close>: copying a sparse file, where \<open>None\<close>
  says that it does not return, and the block reads of \<open>source.rs\<close>, which are proved to return.

  \<^bold>\<open>What is proved.\<close>

  \<^item> Stream format: exactly the streams of a grammar are read, small corruptions of records are rejected by
    the checksum chain, and name-value lists are decoded to what was encoded.
  \<^item> Contents: the index, an extracted file, an updated file and a nested image each show the contents
    that the replay of the selected chain specifies, so extraction and the different readers agree; an
    extraction followed by an update is one replay.
  \<^item> Pools: blocks are returned only when a copy passed its checks and whenever one copy is intact, an
    opened member is consistent, the datasets are the reachable ones, and a file reads the same
    as an image, as a volume of an image, and as an extracted file.
  \<^item> Nested images: segments, windows, decryption, partitions, compressed NTFS units and inner file
    systems show the bytes they should, within bounds.
  \<^item> Failure: failed extractions, trees and requests leave files and sessions as they were; existing
    files are kept; panics are not reached; device reads end.
  \<^item> Front ends: views select what they show, sessions of the service stay usable for every input,
    authorized handles are read-only duplicates of the approved device, the command line and the
    clients agree, and the jobs of the Windows program act on the place its window shows.

  Some theorems record behaviour that is not intended: suites with keys of 128 and 192 bits cannot be
  unlocked, a failed compression unit leaves a wrong cache behind, snapshot names beginning with \<open>0x\<close> are taken
  for GUIDs, the passphrase of a container is retained, opening an authorized device again gives up
  its handle, and opening the open backup again in the Windows program leaves its window inside a disk image.

  \<^bold>\<open>Not modelled.\<close> Of the Windows program the windows, dialogs, drawing, the list of physical drives and
  the settings file are calls of Win32 that decide nothing about a backup.
  The splitting of the command line is done by \<open>clap\<close>. Of \<open>sparse.rs\<close> the platform module for Linux is
  modelled. The wording of errors after interpolation, zeroing of key material in memory and the tests
  are left out.
\<close>

end
